(* ===== verification/Prelude.thy ===== *)
theory Prelude
  imports Main "HOL-Library.Word" "HOL-Library.Multiset" "HOL-Library.Code_Target_Numeral"
begin

unbundle bit_operations_syntax

text \<open>
  The vocabulary every component shares.

  A fallible Rust function is a value of \<open>('e, 'a) outcome\<close>: \<open>Inr v\<close> for \<open>Ok(v)\<close>,
  \<open>Inl (Fail e)\<close> for \<open>Err(e)\<close> and \<open>Inl Panic\<close> for a panic (an index out of bounds, an
  overflowing \<open>+\<close>, \<open>-\<close> or \<open>*\<close>, an overlong shift, a failed \<open>expect\<close>).  The arithmetic
  that the source leaves unchecked panics in the model when it leaves its width, which is the
  behaviour of a build with overflow checks; where a theorem excludes \<open>Panic\<close>, the wrapping
  build computes the same values.

  Unsigned integers of the source are natural numbers that the operations below keep within
  their width; seat masks, whose bits matter, are \<open>16 word\<close>.
\<close>

datatype 'e fault = Fail 'e | Panic

type_synonym ('e, 'a) outcome = "'e fault + 'a"
type_synonym byte = "8 word"
type_synonym mask16 = "16 word"

named_theorems outcome_simps \<open>inversion of the operations on outcomes\<close>

section \<open>Sequencing outcomes\<close>

definition rbind :: "'e + 'a \<Rightarrow> ('a \<Rightarrow> 'e + 'b) \<Rightarrow> 'e + 'b" where
  "rbind m k = (case m of Inl e \<Rightarrow> Inl e | Inr x \<Rightarrow> k x)"

lemma rbind_simps [simp]:
  "rbind (Inl e) k = Inl e"
  "rbind (Inr x) k = k x"
  by (simp_all add: rbind_def)

lemma rbind_eq_Inr [outcome_simps]:
  "rbind m k = Inr y \<longleftrightarrow> (\<exists>x. m = Inr x \<and> k x = Inr y)"
  by (cases m) simp_all

lemma rbind_eq_Inl [outcome_simps]:
  "rbind m k = Inl e \<longleftrightarrow> m = Inl e \<or> (\<exists>x. m = Inr x \<and> k x = Inl e)"
  by (cases m) simp_all

lemma rbind_cong [fundef_cong]:
  "m = m' \<Longrightarrow> (\<And>x. m' = Inr x \<Longrightarrow> k x = k' x) \<Longrightarrow> rbind m k = rbind m' k'"
  by (cases m') simp_all

primrec foldM :: "('s \<Rightarrow> 'a \<Rightarrow> 'e + 's) \<Rightarrow> 's \<Rightarrow> 'a list \<Rightarrow> 'e + 's" where
  "foldM f s [] = Inr s"
| "foldM f s (x # xs) = rbind (f s x) (\<lambda>s'. foldM f s' xs)"

lemma foldM_append: "foldM f s (xs @ ys) = rbind (foldM f s xs) (\<lambda>s'. foldM f s' ys)"
proof (induction xs arbitrary: s)
  case Nil
  show ?case by simp
next
  case (Cons x xs)
  then show ?case by (cases "f s x") simp_all
qed

text \<open>A loop whose body never fails is the ordinary fold.\<close>

lemma foldM_Inr: "foldM (\<lambda>s x. Inr (g s x)) s xs = Inr (foldl g s xs)"
  by (induction xs arbitrary: s) simp_all

lemma foldM_invariant:
  assumes "foldM f s xs = Inr s'" and "P s"
    and "\<And>s x s'. P s \<Longrightarrow> x \<in> set xs \<Longrightarrow> f s x = Inr s' \<Longrightarrow> P s'"
  shows "P s'"
  using assms
proof (induction xs arbitrary: s)
  case Nil
  then show ?case by simp
next
  case (Cons x xs)
  from Cons.prems(1) obtain s1 where s1: "f s x = Inr s1" "foldM f s1 xs = Inr s'"
    by (auto simp: outcome_simps)
  have "P s1" by (rule Cons.prems(3)[OF Cons.prems(2) _ s1(1)]) simp
  then show ?case by (rule Cons.IH[OF s1(2)]) (rule Cons.prems(3), auto)
qed

text \<open>
  The counting loop \<open>for j in 0..n\<close>: an invariant indexed by the counter that every iteration
  re-establishes makes the loop return, with the invariant at \<open>n\<close>.
\<close>

lemma foldM_upt_total:
  assumes "I 0 s"
    and "\<And>j s. j < n \<Longrightarrow> I j s \<Longrightarrow> \<exists>s'. f s j = Inr s' \<and> I (Suc j) s'"
  shows "\<exists>s'. foldM f s [0..<n] = Inr s' \<and> I n s'"
  using assms(2)
proof (induction n)
  case 0
  then show ?case using assms(1) by simp
next
  case (Suc n)
  then obtain s1 where s1: "foldM f s [0..<n] = Inr s1" "I n s1" by fastforce
  with Suc.prems[of n s1] show ?case by (auto simp: foldM_append)
qed

lemma foldM_upt_invariant:
  assumes "foldM f s [0..<n] = Inr s'" and "I 0 s"
    and "\<And>j s s'. j < n \<Longrightarrow> I j s \<Longrightarrow> f s j = Inr s' \<Longrightarrow> I (Suc j) s'"
  shows "I n s'"
  using assms(1,3)
proof (induction n arbitrary: s')
  case 0
  then show ?case using assms(2) by simp
next
  case (Suc n)
  from Suc.prems(1) obtain s1 where s1: "foldM f s [0..<n] = Inr s1" "f s1 n = Inr s'"
    by (auto simp: foldM_append outcome_simps)
  then show ?case using Suc.IH[OF s1(1)] Suc.prems(2) by auto
qed

text \<open>The same over the elements of a list, with the invariant indexed by the prefix done so far.\<close>

lemma foldM_prefix_invariant:
  assumes "foldM f s xs = Inr s'" and "I [] s"
    and "\<And>ys x zs s s'. xs = ys @ x # zs \<Longrightarrow> I ys s \<Longrightarrow> f s x = Inr s' \<Longrightarrow> I (ys @ [x]) s'"
  shows "I xs s'"
proof -
  have "I (ys @ xs2) s'" if "foldM f t xs2 = Inr s'" "I ys t" "xs = ys @ xs2" for ys xs2 t
    using that
  proof (induction xs2 arbitrary: ys t)
    case Nil
    then show ?case by simp
  next
    case (Cons x xs2)
    then obtain t' where t': "f t x = Inr t'" "foldM f t' xs2 = Inr s'" by (auto simp: outcome_simps)
    then have "I (ys @ [x]) t'" using assms(3)[of ys x xs2 t t'] Cons.prems by simp
    from Cons.IH[OF t'(2) this] Cons.prems(3) show ?case by simp
  qed
  from this[of s xs "[]"] assms(1,2) show ?thesis by simp
qed

lemma foldM_prefix_total:
  assumes "I [] s"
    and "\<And>ys x zs s. xs = ys @ x # zs \<Longrightarrow> I ys s \<Longrightarrow> \<exists>s'. f s x = Inr s' \<and> I (ys @ [x]) s'"
  shows "\<exists>s'. foldM f s xs = Inr s' \<and> I xs s'"
proof -
  have "\<exists>s'. foldM f t xs2 = Inr s' \<and> I (ys @ xs2) s'" if "I ys t" "xs = ys @ xs2" for ys xs2 t
    using that
  proof (induction xs2 arbitrary: ys t)
    case Nil
    then show ?case by simp
  next
    case (Cons x xs2)
    then obtain t' where "f t x = Inr t'" "I (ys @ [x]) t'" using assms(2)[of ys x xs2 t] by blast
    with Cons.IH[of "ys @ [x]" t'] Cons.prems(2) show ?case by simp
  qed
  from this[of "[]" s xs] assms(1) show ?thesis by simp
qed

text \<open>A loop whose body never panics never panics.\<close>

lemma foldM_no_panic:
  assumes "P s" and "\<And>s x. P s \<Longrightarrow> x \<in> set xs \<Longrightarrow> f s x \<noteq> Inl Panic"
    and "\<And>s x s'. P s \<Longrightarrow> x \<in> set xs \<Longrightarrow> f s x = Inr s' \<Longrightarrow> P s'"
  shows "foldM f s xs \<noteq> Inl Panic"
  using assms
proof (induction xs arbitrary: s)
  case Nil
  then show ?case by simp
next
  case (Cons x xs)
  show ?case
  proof (cases "f s x")
    case (Inr s')
    then have "P s'" using Cons.prems by (meson list.set_intros(1))
    then have "foldM f s' xs \<noteq> Inl Panic"
    proof (rule Cons.IH)
      show "f s x \<noteq> Inl Panic" if "P s" "x \<in> set xs" for s x
        using that by (intro Cons.prems(2)) simp_all
      show "P s'" if "P s" "x \<in> set xs" "f s x = Inr s'" for s x s'
        using that(2) by (intro Cons.prems(3)[OF that(1) _ that(3)]) simp
    qed
    with Inr show ?thesis by simp
  qed (use Cons.prems(2)[OF Cons.prems(1), of x] in auto)
qed

lemma foldl_upt_invariant:
  assumes "I 0 s" and "\<And>j s. j < n \<Longrightarrow> I j s \<Longrightarrow> I (Suc j) (f s j)"
  shows "I n (foldl f s [0..<n])"
  using assms(2) by (induction n) (auto simp: assms(1))

section \<open>Fixed-width arithmetic\<close>

definition u64_limit :: nat where "u64_limit = 2 ^ 64"
definition u128_limit :: nat where "u128_limit = 2 ^ 128"
definition U64_MAX :: nat where "U64_MAX = u64_limit - 1"

lemma u64_limit_pos [simp]: "0 < u64_limit"
  by (simp add: u64_limit_def)

lemma le_U64_MAX [simp]: "n \<le> U64_MAX \<longleftrightarrow> n < u64_limit"
  using u64_limit_pos unfolding U64_MAX_def by linarith

lemma u64_square: "a < u64_limit \<Longrightarrow> b < u64_limit \<Longrightarrow> a * b < u128_limit"
proof -
  assume "a < u64_limit" "b < u64_limit"
  then have "a * b < u64_limit * u64_limit" by (intro mult_strict_mono') auto
  then show ?thesis by (simp add: u64_limit_def u128_limit_def)
qed

text \<open>The unchecked operators: leaving the width is a panic.\<close>

definition add_u64 :: "nat \<Rightarrow> nat \<Rightarrow> ('e, nat) outcome" where
  "add_u64 a b = (if a + b < u64_limit then Inr (a + b) else Inl Panic)"

definition sub_u64 :: "nat \<Rightarrow> nat \<Rightarrow> ('e, nat) outcome" where
  "sub_u64 a b = (if b \<le> a then Inr (a - b) else Inl Panic)"

text \<open>\<open>checked_add\<close>, \<open>checked_sub\<close>, \<open>saturating_add\<close> and the truncating cast \<open>as u64\<close>.\<close>

definition checked_add_u64 :: "nat \<Rightarrow> nat \<Rightarrow> nat option" where
  "checked_add_u64 a b = (if a + b < u64_limit then Some (a + b) else None)"

definition checked_sub_u64 :: "nat \<Rightarrow> nat \<Rightarrow> nat option" where
  "checked_sub_u64 a b = (if b \<le> a then Some (a - b) else None)"

definition saturating_add_u64 :: "nat \<Rightarrow> nat \<Rightarrow> nat" where
  "saturating_add_u64 a b = min (a + b) U64_MAX"

definition as_u64 :: "nat \<Rightarrow> nat" where
  "as_u64 n = n mod u64_limit"

text \<open>\<open>Option::ok_or\<close>: a missing value becomes the given error.\<close>

definition ok_or :: "'e \<Rightarrow> 'a option \<Rightarrow> ('e, 'a) outcome" where
  "ok_or e x = (case x of None \<Rightarrow> Inl (Fail e) | Some v \<Rightarrow> Inr v)"

text \<open>\<open>Result::map_err\<close>: a panic passes through.\<close>

definition map_err :: "('e \<Rightarrow> 'f) \<Rightarrow> ('e, 'a) outcome \<Rightarrow> ('f, 'a) outcome" where
  "map_err f m = (case m of
     Inl (Fail e) \<Rightarrow> Inl (Fail (f e)) | Inl Panic \<Rightarrow> Inl Panic | Inr v \<Rightarrow> Inr v)"

text \<open>Indexing a slice and assigning to one of its elements.\<close>

definition idx :: "'a list \<Rightarrow> nat \<Rightarrow> ('e, 'a) outcome" where
  "idx xs i = (if i < length xs then Inr (xs ! i) else Inl Panic)"

definition set_idx :: "'a list \<Rightarrow> nat \<Rightarrow> 'a \<Rightarrow> ('e, 'a list) outcome" where
  "set_idx xs i x = (if i < length xs then Inr (xs[i := x]) else Inl Panic)"

lemma add_u64_eq_Inr [outcome_simps]: "add_u64 a b = Inr c \<longleftrightarrow> c = a + b \<and> a + b < u64_limit"
  by (auto simp: add_u64_def)

lemma sub_u64_eq_Inr [outcome_simps]: "sub_u64 a b = Inr c \<longleftrightarrow> b \<le> a \<and> c = a - b"
  by (auto simp: sub_u64_def)

lemma ok_or_eq_Inr [outcome_simps]: "ok_or e x = Inr v \<longleftrightarrow> x = Some v"
  by (auto simp: ok_or_def split: option.splits)

lemma ok_or_eq_Inl [outcome_simps]: "ok_or e x = Inl d \<longleftrightarrow> x = None \<and> d = Fail e"
  by (auto simp: ok_or_def split: option.splits)

lemma checked_add_eq_Some [outcome_simps]:
  "checked_add_u64 a b = Some c \<longleftrightarrow> c = a + b \<and> a + b < u64_limit"
  by (auto simp: checked_add_u64_def)

lemma checked_add_eq_None [outcome_simps]:
  "checked_add_u64 a b = None \<longleftrightarrow> u64_limit \<le> a + b"
  by (auto simp: checked_add_u64_def)

lemma checked_sub_eq_Some [outcome_simps]:
  "checked_sub_u64 a b = Some c \<longleftrightarrow> b \<le> a \<and> c = a - b"
  by (auto simp: checked_sub_u64_def)

lemma checked_sub_eq_None [outcome_simps]: "checked_sub_u64 a b = None \<longleftrightarrow> a < b"
  by (auto simp: checked_sub_u64_def)

lemma map_err_eq_Inr [outcome_simps]: "map_err f m = Inr v \<longleftrightarrow> m = Inr v"
  by (auto simp: map_err_def split: sum.splits fault.splits)

lemma map_err_eq_Inl [outcome_simps]:
  "map_err f m = Inl d \<longleftrightarrow> (\<exists>e. m = Inl (Fail e) \<and> d = Fail (f e)) \<or> (m = Inl Panic \<and> d = Panic)"
  by (auto simp: map_err_def split: sum.splits fault.splits)

lemma idx_eq_Inr [outcome_simps]: "idx xs i = Inr x \<longleftrightarrow> i < length xs \<and> x = xs ! i"
  by (auto simp: idx_def)

lemma set_idx_eq_Inr [outcome_simps]:
  "set_idx xs i x = Inr ys \<longleftrightarrow> i < length xs \<and> ys = xs[i := x]"
  by (auto simp: set_idx_def)

section \<open>Outcomes without panics\<close>

text \<open>\<open>safe P m\<close>: the outcome is an error or a value with \<open>P\<close>, never a panic.\<close>

definition safe :: "('a \<Rightarrow> bool) \<Rightarrow> ('e, 'a) outcome \<Rightarrow> bool" where
  "safe P m \<longleftrightarrow> (case m of Inr x \<Rightarrow> P x | Inl (Fail e) \<Rightarrow> True | Inl Panic \<Rightarrow> False)"

lemma safe_simps [simp]: "safe P (Inr x) \<longleftrightarrow> P x" "safe P (Inl (Fail e))" "\<not> safe P (Inl Panic)"
  by (simp_all add: safe_def)

lemma safe_rbind:
  assumes "safe P m" and "\<And>x. P x \<Longrightarrow> safe Q (k x)"
  shows "safe Q (rbind m k)"
proof (cases m)
  case (Inl f)
  with assms(1) show ?thesis by (cases f) simp_all
qed (use assms in auto)

lemma safe_if: "(b \<Longrightarrow> safe P x) \<Longrightarrow> (\<not> b \<Longrightarrow> safe P y) \<Longrightarrow> safe P (if b then x else y)"
  by simp

lemma safe_option:
  "safe P x \<Longrightarrow> (\<And>v. safe P (y v)) \<Longrightarrow> safe P (case m of None \<Rightarrow> x | Some v \<Rightarrow> y v)"
  by (cases m) simp_all

lemma safe_map_err: "safe P m \<Longrightarrow> safe P (map_err f m)"
  by (auto simp: safe_def map_err_def split: sum.splits fault.splits)

lemma safe_weaken: "safe P m \<Longrightarrow> (\<And>x. P x \<Longrightarrow> Q x) \<Longrightarrow> safe Q m"
  by (auto simp: safe_def split: sum.splits fault.splits)

lemma safe_ok_or [simp]: "safe P (ok_or e x) \<longleftrightarrow> (\<forall>v. x = Some v \<longrightarrow> P v)"
  by (cases x) (auto simp: ok_or_def)

lemma safe_bind_ok_or:
  "(\<And>v. x = Some v \<Longrightarrow> safe Q (k v)) \<Longrightarrow> safe Q (rbind (ok_or e x) k)"
  by (cases x) (auto simp: ok_or_def)

lemma safe_idx: "i < length xs \<Longrightarrow> P (xs ! i) \<Longrightarrow> safe P (idx xs i)"
  by (simp add: idx_def)

lemma safe_foldM:
  assumes "P s" and "\<And>s x. P s \<Longrightarrow> x \<in> set xs \<Longrightarrow> safe P (f s x)"
  shows "safe P (foldM f s xs)"
  using assms
proof (induction xs arbitrary: s)
  case Nil
  then show ?case by simp
next
  case (Cons x xs)
  show ?case unfolding foldM.simps
    using Cons.prems by (intro safe_rbind[where P = P] Cons.IH) auto
qed

text \<open>A loop that only checks succeeds when every check does.\<close>

lemma foldM_unit_Inr: "foldM (\<lambda>_. f) () xs = Inr () \<longleftrightarrow> (\<forall>x \<in> set xs. f x = Inr ())"
  by (induction xs) (auto simp: outcome_simps)

section \<open>Sixteen-bit masks\<close>

text \<open>\<open>u16::count_ones\<close>.\<close>

definition count_ones :: "mask16 \<Rightarrow> nat" where
  "count_ones m = length (filter (bit m) [0..<16])"

lemma bit_mask16_less: "bit (m :: mask16) i \<Longrightarrow> i < 16"
  using bit_imp_le_length[of m i] by simp

lemma count_ones_card: "count_ones m = card {i. bit m i}"
proof -
  have "{i. bit m i} = set (filter (bit m) [0..<16])"
    by (auto dest: bit_mask16_less)
  also have "card \<dots> = count_ones m"
    unfolding count_ones_def by (rule distinct_card) simp
  finally show ?thesis by simp
qed

lemma count_ones_eq_0 [simp]: "count_ones m = 0 \<longleftrightarrow> m = 0"
proof
  assume "count_ones m = 0"
  then have "\<forall>i \<in> set [0..<16]. \<not> bit m i"
    unfolding count_ones_def by (simp add: filter_empty_conv)
  then have "\<not> bit m i" for i using bit_mask16_less[of m i] by auto
  then show "m = 0" by (simp add: bit_eq_iff)
qed (simp add: count_ones_def)

lemma mask16_nonzero: "m \<noteq> 0 \<longleftrightarrow> (\<exists>i < 16. bit (m :: mask16) i)"
  using bit_mask16_less[of m] by (auto simp: bit_eq_iff)

lemma mask16_eq_0: "m = 0 \<longleftrightarrow> (\<forall>i. \<not> bit (m :: mask16) i)"
  using mask16_nonzero[of m] bit_mask16_less[of m] by blast

text \<open>A mask has at least two ones exactly when it holds two distinct seats.\<close>

lemma count_ones_ge2: "2 \<le> count_ones m \<longleftrightarrow> (\<exists>i j. i \<noteq> j \<and> bit m i \<and> bit m j)"
proof -
  have fin: "finite {i. bit m i}"
    by (rule finite_subset[of _ "{..<16}"]) (auto dest: bit_mask16_less)
  have "2 \<le> count_ones m \<longleftrightarrow> \<not> card {i. bit m i} \<le> Suc 0"
    by (simp add: count_ones_card) linarith
  also have "\<dots> \<longleftrightarrow> (\<exists>i j. i \<noteq> j \<and> bit m i \<and> bit m j)"
    using fin by (auto simp: card_le_Suc0_iff_eq)
  finally show ?thesis .
qed

section \<open>Little-endian bytes\<close>

text \<open>\<open>to_le_bytes\<close> and \<open>from_le_bytes\<close> of the unsigned integers of \<open>8 * n\<close> bits.\<close>

primrec le_bytes :: "nat \<Rightarrow> 'a::len word \<Rightarrow> byte list" where
  "le_bytes 0 w = []"
| "le_bytes (Suc n) w = ucast w # le_bytes n (drop_bit 8 w)"

primrec le_value :: "byte list \<Rightarrow> 'a::len word" where
  "le_value [] = 0"
| "le_value (b # bs) = ucast b OR push_bit 8 (le_value bs)"

lemma length_le_bytes [simp]: "length (le_bytes n w) = n"
  by (induction n arbitrary: w) simp_all

lemma le_value_le_bytes: "le_value (le_bytes n w) = take_bit (8 * n) (w :: 'a::len word)"
proof (induction n arbitrary: w)
  case 0
  show ?case by simp
next
  case (Suc n)
  have "ucast (ucast w :: byte) OR push_bit 8 (take_bit (8 * n) (drop_bit 8 w)) = take_bit (8 * Suc n) w"
  proof (rule bit_word_eqI)
    fix i assume "i < LENGTH('a)"
    then show "bit (ucast (ucast w :: byte) OR push_bit 8 (take_bit (8 * n) (drop_bit 8 w))) i
        = bit (take_bit (8 * Suc n) w) i"
      by (cases "i < 8") (auto simp: bit_simps)
  qed
  then show ?case by (simp add: Suc)
qed

lemma le_round_trip: "8 * n = LENGTH('a) \<Longrightarrow> le_value (le_bytes n w) = (w :: 'a::len word)"
  by (simp add: le_value_le_bytes)

lemma bit_le_value:
  assumes "8 * length bs \<le> LENGTH('a)"
  shows "bit (le_value bs :: 'a::len word) i \<longleftrightarrow> i < 8 * length bs \<and> bit (bs ! (i div 8)) (i mod 8)"
  using assms
proof (induction bs arbitrary: i)
  case Nil
  show ?case by simp
next
  case (Cons b bs)
  show ?case
  proof (cases "i < 8")
    case True
    with Cons.prems show ?thesis by (auto simp: bit_simps)
  next
    case False
    then obtain k where k: "i = k + 8" by (metis add.commute le_Suc_ex not_less)
    have "\<not> bit b i" using False bit_imp_le_length[of b i] by auto
    then have "bit (le_value (b # bs) :: 'a word) i \<longleftrightarrow> i < LENGTH('a) \<and> bit (le_value bs :: 'a word) k"
      by (simp add: bit_or_iff bit_ucast_iff bit_push_bit_iff k)
    moreover have "i div 8 = Suc (k div 8)" "i mod 8 = k mod 8" by (simp_all add: k)
    ultimately show ?thesis using Cons.IH[of k] Cons.prems k by auto
  qed
qed

lemma le_bytes_le_value:
  "8 * length bs \<le> LENGTH('a) \<Longrightarrow> le_bytes (length bs) (le_value bs :: 'a::len word) = bs"
proof (induction bs)
  case Nil
  show ?case by simp
next
  case (Cons b bs)
  have "ucast (le_value (b # bs) :: 'a word) = b"
  proof (rule bit_word_eqI)
    fix i assume "i < LENGTH(8)"
    then show "bit (ucast (le_value (b # bs) :: 'a word) :: byte) i = bit b i"
      using Cons.prems by (simp add: bit_ucast_iff bit_or_iff bit_push_bit_iff)
  qed
  moreover have "drop_bit 8 (le_value (b # bs) :: 'a word) = le_value bs"
  proof (rule bit_word_eqI)
    fix i
    have "\<not> bit b (8 + i)" using bit_imp_le_length[of b "8 + i"] by auto
    moreover have "8 + i < LENGTH('a)" if "bit (le_value bs :: 'a word) i"
      using that Cons.prems by (simp add: bit_le_value)
    ultimately show "bit (drop_bit 8 (le_value (b # bs) :: 'a word)) i = bit (le_value bs :: 'a word) i"
      by (auto simp: bit_simps dest: bit_imp_le_length)
  qed
  ultimately show ?case using Cons by simp
qed

section \<open>Sums over seats\<close>

lemma sum_list_nth_upt: "sum_list (map f [0..<n]) = (\<Sum>j<n. f j)"
  by (simp add: interv_sum_list_conv_sum_set_nat atLeast0LessThan)

lemma sum_list_update_nat:
  "k < length xs \<Longrightarrow> sum_list (xs[k := x :: nat]) + xs ! k = sum_list xs + x"
  by (induction xs arbitrary: k) (auto split: nat.splits)

lemma sum_list_map2_add:
  "length xs = length ys \<Longrightarrow> sum_list (map2 (+) xs ys) = sum_list xs + (sum_list ys :: nat)"
  by (induction xs ys rule: list_induct2) simp_all

lemma nth_le_sum: "i < length xs \<Longrightarrow> xs ! i \<le> sum_list (xs :: nat list)"
  by (rule elem_le_sum_list)

text \<open>Splitting \<open>xs.iter().enumerate()\<close>: each element comes with its position.\<close>

lemma enumerate_split:
  assumes "enumerate 0 xs = ys @ x # zs"
  shows "length ys < length xs \<and> x = (length ys, xs ! length ys) \<and> ys = enumerate 0 (take (length ys) xs)"
proof -
  have len: "length ys < length xs"
    using arg_cong[OF assms, of length] by simp
  have "x = enumerate 0 xs ! length ys" by (simp add: assms)
  moreover have "ys = take (length ys) (enumerate 0 xs)" by (simp add: assms)
  then have "ys = enumerate 0 (take (length ys) xs)" using len by (simp add: enumerate_eq_zip take_zip)
  ultimately show ?thesis using len by (simp add: nth_enumerate_eq)
qed

lemma enumerate_snd: "x \<in> set (enumerate n xs) \<Longrightarrow> snd x \<in> set xs"
  by (cases x) (auto simp: enumerate_eq_zip dest: set_zip_rightD)

end
