(* ===== verification/SidePot.thy ===== *)
theory SidePot
  imports Prelude
begin

text \<open>
  \<^verbatim>\<open>poker-settlement-core/src/side_pot.rs\<close>: the layering of the contributions of one hand into
  a main pot and side pots.  A pot is its amount and the mask of the seats that may win it; the
  layers are cut at the stakes of the all-in seats.
\<close>

section \<open>Constants and data\<close>

definition MAX_PLAYERS :: nat where "MAX_PLAYERS = 9"
definition MAX_TOTAL_BET :: nat where "MAX_TOTAL_BET = 1000000000000000000"

lemma MAX_TOTAL_BET_less [simp]: "MAX_TOTAL_BET < u64_limit"
  by (simp add: MAX_TOTAL_BET_def u64_limit_def)

text \<open>\<open>seat_bit\<close> and \<open>is_eligible\<close>; the shift is in range for every seat below 16.\<close>

definition seat_bit :: "nat \<Rightarrow> mask16" where
  "seat_bit j = push_bit j 1"

definition is_eligible :: "mask16 \<Rightarrow> nat \<Rightarrow> bool" where
  "is_eligible m seat \<longleftrightarrow> m AND seat_bit seat \<noteq> 0"

record side_pot =
  sp_amount :: nat
  sp_eligible :: mask16

definition new_pot :: "nat \<Rightarrow> mask16 \<Rightarrow> side_pot" where
  "new_pot amt elig = \<lparr>sp_amount = amt, sp_eligible = elig\<rparr>"

definition pot_is_eligible :: "side_pot \<Rightarrow> nat \<Rightarrow> bool" where
  "pot_is_eligible p seat = is_eligible (sp_eligible p) seat"

datatype side_pot_error = BetOverflow | LengthMismatch

section \<open>The algorithm\<close>

text \<open>\<open>SidePotResult::total\<close>: an unchecked sum over the layers.\<close>

definition pots_total :: "side_pot list \<Rightarrow> ('e, nat) outcome" where
  "pots_total pots = foldM (\<lambda>total i. add_u64 total (sp_amount (pots ! i))) 0 [0..<length pots]"

text \<open>The search for the first element not below \<open>x\<close>, then \<open>Vec::insert\<close> there.\<close>

fun insert_pos :: "nat list \<Rightarrow> nat \<Rightarrow> nat" where
  "insert_pos [] x = 0"
| "insert_pos (y # ys) x = (if y < x then Suc (insert_pos ys x) else 0)"

definition insert_sorted_u64 :: "nat list \<Rightarrow> nat \<Rightarrow> nat list" where
  "insert_sorted_u64 v x = (let i = insert_pos v x in take i v @ x # drop i v)"

definition slice_layer ::
  "nat list \<Rightarrow> bool list \<Rightarrow> nat \<Rightarrow> nat \<Rightarrow> nat \<Rightarrow> ('e, nat \<times> mask16) outcome" where
  "slice_layer bets folded prev_level level n =
     foldM (\<lambda>(amount, eligible) j.
         rbind (idx bets j) (\<lambda>bet.
         if bet > prev_level then
           let cap = (if bet < level then bet else level) in
           rbind (sub_u64 cap prev_level) (\<lambda>c.
           rbind (add_u64 amount c) (\<lambda>amount'.
           rbind (idx folded j) (\<lambda>f.
           Inr (amount', if \<not> f then eligible OR seat_bit j else eligible))))
         else Inr (amount, eligible)))
       (0, 0) [0..<n]"

definition push_or_merge :: "side_pot list \<Rightarrow> nat \<Rightarrow> mask16 \<Rightarrow> ('e, side_pot list) outcome" where
  "push_or_merge pots amount eligible =
     (if amount = 0 then Inr pots
      else if eligible = 0 \<and> pots \<noteq> [] then
        (let lst = last pots in
         rbind (add_u64 (sp_amount lst) amount) (\<lambda>a.
         Inr (butlast pots @ [lst\<lparr>sp_amount := a\<rparr>])))
      else Inr (pots @ [new_pot amount eligible]))"

definition sum_bets :: "nat list \<Rightarrow> (side_pot_error, nat) outcome" where
  "sum_bets bets =
     foldM (\<lambda>total bet.
         rbind (ok_or BetOverflow (checked_add_u64 total bet)) (\<lambda>total'.
         if total' > MAX_TOTAL_BET then Inl (Fail BetOverflow) else Inr total'))
       0 bets"

definition collect_levels :: "nat list \<Rightarrow> bool list \<Rightarrow> nat \<Rightarrow> ('e, nat list) outcome" where
  "collect_levels bets all_in n =
     foldM (\<lambda>levels j.
         rbind (idx all_in j) (\<lambda>a. rbind (idx bets j) (\<lambda>b.
         Inr (if a \<and> b > 0 then insert_sorted_u64 levels b else levels))))
       [] [0..<n]"

text \<open>The body of the loop over the sorted stakes; its state is \<open>pots\<close> and \<open>prev_level\<close>.\<close>

definition layer_step ::
  "nat list \<Rightarrow> bool list \<Rightarrow> nat \<Rightarrow> side_pot list \<times> nat \<Rightarrow> nat \<Rightarrow>
     ('e, side_pot list \<times> nat) outcome" where
  "layer_step bets folded n st level =
     (case st of (pots, prev_level) \<Rightarrow>
        if level \<le> prev_level then Inr (pots, prev_level)
        else rbind (slice_layer bets folded prev_level level n) (\<lambda>(amount, eligible).
             rbind (push_or_merge pots amount eligible) (\<lambda>pots'. Inr (pots', level))))"

definition calculate_side_pots ::
  "nat list \<Rightarrow> bool list \<Rightarrow> bool list \<Rightarrow> (side_pot_error, side_pot list) outcome" where
  "calculate_side_pots bets folded all_in =
     (let n = length bets in
      if length folded \<noteq> n \<or> length all_in \<noteq> n then Inl (Fail LengthMismatch)
      else if n > MAX_PLAYERS then Inl (Fail LengthMismatch)
      else rbind (sum_bets bets) (\<lambda>total_pot.
           rbind (collect_levels bets all_in n) (\<lambda>levels.
           rbind (foldM (layer_step bets folded n) ([], 0) levels) (\<lambda>(pots, prev_level).
           rbind (if prev_level < total_pot
                  then rbind (slice_layer bets folded prev_level U64_MAX n) (\<lambda>(amount, eligible).
                       push_or_merge pots amount eligible)
                  else Inr pots) (\<lambda>pots'.
           Inr (if pots' = [] then [new_pot total_pot 0] else pots'))))))"

section \<open>Seat masks\<close>

lemma bit_seat_bit [simp]: "bit (seat_bit j) k \<longleftrightarrow> k = j \<and> j < 16"
  by (auto simp: seat_bit_def bit_exp_iff)

lemma is_eligible_bit: "is_eligible m j \<longleftrightarrow> bit m j"
  by (auto simp: is_eligible_def mask16_eq_0 bit_and_iff dest: bit_mask16_less)

section \<open>The sorted insertion\<close>

lemma insert_pos_le: "insert_pos v x \<le> length v"
  by (induction v) auto

lemma insert_sorted_Nil [simp]: "insert_sorted_u64 [] x = [x]"
  by (simp add: insert_sorted_u64_def)

lemma insert_sorted_Cons [simp]:
  "insert_sorted_u64 (y # ys) x = (if y < x then y # insert_sorted_u64 ys x else x # y # ys)"
  by (simp add: insert_sorted_u64_def Let_def)

lemma mset_insert_sorted: "mset (insert_sorted_u64 v x) = add_mset x (mset v)"
  by (induction v) auto

lemma set_insert_sorted [simp]: "set (insert_sorted_u64 v x) = insert x (set v)"
  by (metis mset_insert_sorted set_mset_add_mset_insert set_mset_mset)

lemma sorted_insert_sorted: "sorted v \<Longrightarrow> sorted (insert_sorted_u64 v x)"
  by (induction v) auto

section \<open>The reference algorithm\<close>

text \<open>
  \<open>capped bets x\<close> is what the seats contribute below the stake \<open>x\<close>; a layer from \<open>lo\<close> to
  \<open>hi\<close> holds \<open>capped bets hi - capped bets lo\<close> chips.  The reference follows the loop of the
  code over exact arithmetic, with the layer amounts in this closed form.
\<close>

definition capped :: "nat list \<Rightarrow> nat \<Rightarrow> nat" where
  "capped bets x = sum_list (map (\<lambda>b. min b x) bets)"

definition layer_mask :: "nat list \<Rightarrow> bool list \<Rightarrow> nat \<Rightarrow> mask16" where
  "layer_mask bets folded lo =
     foldl (\<lambda>m j. if lo < bets ! j \<and> \<not> folded ! j then m OR seat_bit j else m)
       0 [0..<length bets]"

definition merge_pot :: "side_pot list \<Rightarrow> nat \<Rightarrow> mask16 \<Rightarrow> side_pot list" where
  "merge_pot pots a e =
     (if a = 0 then pots
      else if e = 0 \<and> pots \<noteq> [] then
        butlast pots @ [(last pots)\<lparr>sp_amount := sp_amount (last pots) + a\<rparr>]
      else pots @ [new_pot a e])"

fun layers_ref :: "nat list \<Rightarrow> bool list \<Rightarrow> side_pot list \<times> nat \<Rightarrow> nat list \<Rightarrow> side_pot list \<times> nat" where
  "layers_ref bets folded st [] = st"
| "layers_ref bets folded (pots, lo) (hi # his) =
     layers_ref bets folded
       (if hi \<le> lo then (pots, lo)
        else (merge_pot pots (capped bets hi - capped bets lo) (layer_mask bets folded lo), hi)) his"

definition levels_ref :: "nat list \<Rightarrow> bool list \<Rightarrow> nat list" where
  "levels_ref bets all_in =
     sort (map (\<lambda>j. bets ! j) (filter (\<lambda>j. all_in ! j \<and> bets ! j > 0) [0..<length bets]))"

definition side_pots_ref :: "nat list \<Rightarrow> bool list \<Rightarrow> bool list \<Rightarrow> side_pot list" where
  "side_pots_ref bets folded all_in =
     (case layers_ref bets folded ([], 0) (levels_ref bets all_in) of (pots, lo) \<Rightarrow>
        let pots' = (if lo < sum_list bets
                     then merge_pot pots (sum_list bets - capped bets lo) (layer_mask bets folded lo)
                     else pots)
        in if pots' = [] then [new_pot (sum_list bets) 0] else pots')"

definition pots_sum :: "side_pot list \<Rightarrow> nat" where
  "pots_sum pots = sum_list (map sp_amount pots)"

lemma pots_sum_simps [simp]:
  "pots_sum [] = 0"
  "pots_sum (p # ps) = sp_amount p + pots_sum ps"
  "pots_sum (ps @ qs) = pots_sum ps + pots_sum qs"
  by (simp_all add: pots_sum_def)

lemma new_pot_simps [simp]:
  "sp_amount (new_pot a e) = a" "sp_eligible (new_pot a e) = e"
  by (simp_all add: new_pot_def)

lemma pots_sum_butlast_last:
  "pots \<noteq> [] \<Longrightarrow> pots_sum pots = pots_sum (butlast pots) + sp_amount (last pots)"
  by (induction pots) auto

lemma pots_sum_merge [simp]: "pots_sum (merge_pot pots a e) = pots_sum pots + a"
  by (auto simp: merge_pot_def pots_sum_butlast_last)

lemma capped_0 [simp]: "capped bets 0 = 0"
  by (induction bets) (simp_all add: capped_def)

lemma capped_mono: "lo \<le> hi \<Longrightarrow> capped bets lo \<le> capped bets hi"
  unfolding capped_def by (intro sum_list_mono) auto

lemma capped_le_sum: "capped bets x \<le> sum_list bets"
  by (induction bets) (auto simp: capped_def)

lemma capped_ge_max: "(\<And>b. b \<in> set bets \<Longrightarrow> b \<le> x) \<Longrightarrow> capped bets x = sum_list bets"
  by (induction bets) (auto simp: capped_def)

lemma mem_le_sum: "b \<in> set bets \<Longrightarrow> b \<le> sum_list (bets :: nat list)"
  by (induction bets) auto

lemma bet_le_sum: "j < length bets \<Longrightarrow> bets ! j \<le> sum_list (bets :: nat list)"
  by (rule elem_le_sum_list)

text \<open>A layer holds chips exactly when some stake reaches above its lower cut.\<close>

lemma capped_strict:
  assumes "lo < hi" "j < length bets" "lo < bets ! j"
  shows "capped bets lo < capped bets hi"
proof -
  have "capped bets lo = (\<Sum>i<length bets. min (bets ! i) lo)"
    and "capped bets hi = (\<Sum>i<length bets. min (bets ! i) hi)"
    by (simp_all add: capped_def sum_list_sum_nth atLeast0LessThan)
  moreover have "(\<Sum>i<length bets. min (bets ! i) lo) < (\<Sum>i<length bets. min (bets ! i) hi)"
    by (rule sum_strict_mono_ex1) (use assms in \<open>auto intro!: bexI[of _ j]\<close>)
  ultimately show ?thesis by simp
qed

lemma capped_strictD: "capped bets lo < capped bets hi \<Longrightarrow> \<exists>j < length bets. lo < bets ! j"
proof (rule ccontr)
  assume lt: "capped bets lo < capped bets hi" and "\<not> (\<exists>j < length bets. lo < bets ! j)"
  then have "capped bets lo = sum_list bets"
    by (intro capped_ge_max) (auto simp: in_set_conv_nth not_less[symmetric])
  with lt capped_le_sum[of bets hi] show False by simp
qed

lemma bit_layer_mask:
  assumes "length bets \<le> 16"
  shows "bit (layer_mask bets folded lo) j \<longleftrightarrow> j < length bets \<and> lo < bets ! j \<and> \<not> folded ! j"
proof -
  have "\<forall>j. bit (layer_mask bets folded lo) j \<longleftrightarrow> j < length bets \<and> lo < bets ! j \<and> \<not> folded ! j"
    unfolding layer_mask_def
    by (rule foldl_upt_invariant[where I = "\<lambda>n m. \<forall>j. bit m j \<longleftrightarrow> j < n \<and> lo < bets ! j \<and> \<not> folded ! j"])
      (use assms in \<open>auto simp: bit_or_iff less_Suc_eq\<close>)
  then show ?thesis by blast
qed

lemma layer_mask_eq_0:
  "length bets \<le> 16 \<Longrightarrow>
     layer_mask bets folded lo = 0 \<longleftrightarrow> (\<forall>j < length bets. lo < bets ! j \<longrightarrow> folded ! j)"
  by (auto simp: mask16_eq_0 bit_layer_mask)

section \<open>The code computes the reference\<close>

lemma pots_total_eq: "pots_sum pots < u64_limit \<Longrightarrow> pots_total pots = Inr (pots_sum pots)"
proof -
  assume bound: "pots_sum pots < u64_limit"
  have "pots_sum (take n pots) \<le> pots_sum pots" for n
    by (metis append_take_drop_id le_add1 pots_sum_simps(3))
  then have le: "n < length pots \<Longrightarrow> pots_sum (take n pots) + sp_amount (pots ! n) < u64_limit" for n
    using bound by (metis le_less_trans pots_sum_simps take_Suc_conv_app_nth add.right_neutral)
  have "\<exists>t. pots_total pots = Inr t \<and> t = pots_sum (take (length pots) pots)"
    unfolding pots_total_def
    by (rule foldM_upt_total[where I = "\<lambda>n t. t = pots_sum (take n pots)"])
      (use le in \<open>auto simp: add_u64_def take_Suc_conv_app_nth\<close>)
  then show ?thesis by simp
qed

text \<open>An \<open>Ok\<close> of the unchecked sum is the sum; it returns only when nothing overflows.\<close>

lemma pots_total_Inr: "pots_total pots = Inr t \<Longrightarrow> t = pots_sum pots"
proof -
  assume "pots_total pots = Inr t"
  then have "t = pots_sum (take (length pots) pots)"
    unfolding pots_total_def
    by (rule foldM_upt_invariant[where I = "\<lambda>n t. t = pots_sum (take n pots)"])
      (auto simp: add_u64_def take_Suc_conv_app_nth split: if_splits)
  then show ?thesis by simp
qed

lemma slice_layer_eq:
  assumes len: "length folded = length bets"
    and lohi: "lo \<le> hi" and bound: "sum_list bets < u64_limit"
  shows "slice_layer bets folded lo hi (length bets) =
           Inr (capped bets hi - capped bets lo, layer_mask bets folded lo)"
proof -
  define am where "am k = capped (take k bets) hi - capped (take k bets) lo" for k
  define mk where "mk k = foldl (\<lambda>m j. if lo < bets ! j \<and> \<not> folded ! j then m OR seat_bit j else m)
       0 [0..<k]" for k
  have step: "capped (take (Suc k) bets) x = capped (take k bets) x + min (bets ! k) x"
    if "k < length bets" for k x
    using that by (simp add: capped_def take_Suc_conv_app_nth)
  have am_le: "am k < u64_limit" for k
  proof -
    have "am k \<le> sum_list (take k bets)"
      unfolding am_def by (meson capped_le_sum diff_le_self le_trans)
    also have "\<dots> \<le> sum_list bets"
      by (metis append_take_drop_id le_add1 sum_list_append)
    finally show ?thesis using bound by simp
  qed
  have am_Suc: "am (Suc k) = am k + (min (bets ! k) hi - min (bets ! k) lo)" if "k < length bets" for k
    using capped_mono[OF lohi, of "take k bets"] lohi
    by (simp add: am_def step[OF that])
  have mk_Suc: "mk (Suc k) = (if lo < bets ! k \<and> \<not> folded ! k then mk k OR seat_bit k else mk k)" for k
    by (simp add: mk_def)
  have "\<exists>r. slice_layer bets folded lo hi (length bets) = Inr r \<and> r = (am (length bets), mk (length bets))"
    unfolding slice_layer_def
  proof (rule foldM_upt_total[where I = "\<lambda>k r. r = (am k, mk k)"], goal_cases)
    case 1
    show ?case by (simp add: am_def mk_def capped_def)
  next
    case (2 k s)
    then show ?case
      using am_le[of "Suc k"] am_Suc[of k] mk_Suc[of k] len lohi
      by (auto simp: idx_def sub_u64_def add_u64_def Let_def min_def not_less split: if_splits)
  qed
  then show ?thesis by (simp add: am_def mk_def layer_mask_def)
qed

lemma push_or_merge_eq:
  assumes "pots_sum pots + a < u64_limit"
  shows "push_or_merge pots a e = Inr (merge_pot pots a e)"
proof -
  have "pots \<noteq> [] \<Longrightarrow> sp_amount (last pots) + a < u64_limit"
    using assms by (simp add: pots_sum_butlast_last)
  then show ?thesis
    by (auto simp: push_or_merge_def merge_pot_def add_u64_def Let_def)
qed

lemma layers_ref_inv:
  "pots_sum (fst st) = capped bets (snd st) \<Longrightarrow>
   pots_sum (fst (layers_ref bets folded st his)) = capped bets (snd (layers_ref bets folded st his))"
proof (induction his arbitrary: st)
  case Nil
  then show ?case by simp
next
  case (Cons h his)
  obtain pots lo where st: "st = (pots, lo)" by fastforce
  have "lo \<le> h \<Longrightarrow> capped bets lo + (capped bets h - capped bets lo) = capped bets h"
    using capped_mono[of lo h bets] by simp
  then show ?case using Cons.prems unfolding st layers_ref.simps by (intro Cons.IH) auto
qed

lemma layer_step_eq:
  "layer_step bets folded n (pots, prev) level =
     (if level \<le> prev then Inr (pots, prev)
      else rbind (slice_layer bets folded prev level n) (\<lambda>r.
           rbind (push_or_merge pots (fst r) (snd r)) (\<lambda>pots'. Inr (pots', level))))"
  by (simp add: layer_step_def case_prod_unfold)

lemma layers_eq:
  assumes "length folded = length bets" and "sum_list bets < u64_limit"
    and "pots_sum (fst st) = capped bets (snd st)"
  shows "foldM (layer_step bets folded (length bets)) st his = Inr (layers_ref bets folded st his)"
  using assms(3)
proof (induction his arbitrary: st)
  case Nil
  then show ?case by simp
next
  case (Cons h his)
  obtain pots lo where st: "st = (pots, lo)" by fastforce
  show ?case
  proof (cases "h \<le> lo")
    case True
    then show ?thesis using Cons by (simp add: st layer_step_eq)
  next
    case False
    then have eq: "pots_sum pots + (capped bets h - capped bets lo) = capped bets h"
      using Cons.prems capped_mono[of lo h bets] by (simp add: st)
    then have "pots_sum pots + (capped bets h - capped bets lo) < u64_limit"
      using capped_le_sum[of bets h] assms(2) by simp
    with False eq show ?thesis
      using Cons.IH[of "(merge_pot pots (capped bets h - capped bets lo) (layer_mask bets folded lo), h)"]
      by (simp add: st layer_step_eq push_or_merge_eq slice_layer_eq assms(1,2))
  qed
qed

lemma sum_bets_from:
  "t \<le> MAX_TOTAL_BET \<Longrightarrow>
   foldM (\<lambda>total bet.
         rbind (ok_or BetOverflow (checked_add_u64 total bet)) (\<lambda>total'.
         if total' > MAX_TOTAL_BET then Inl (Fail BetOverflow) else Inr total')) t bets
   = (if t + sum_list bets \<le> MAX_TOTAL_BET then Inr (t + sum_list bets) else Inl (Fail BetOverflow))"
proof (induction bets arbitrary: t)
  case Nil
  then show ?case by simp
next
  case (Cons b bets)
  show ?case
  proof (cases "t + b \<le> MAX_TOTAL_BET")
    case True
    then have "checked_add_u64 t b = Some (t + b)"
      using le_less_trans[OF True MAX_TOTAL_BET_less] by (simp add: checked_add_u64_def)
    with True Cons.IH[of "t + b"] show ?thesis by (simp add: ok_or_def add.assoc)
  qed (auto simp: checked_add_u64_def ok_or_def)
qed

lemma sum_bets_eq:
  "sum_bets bets = (if sum_list bets \<le> MAX_TOTAL_BET then Inr (sum_list bets) else Inl (Fail BetOverflow))"
  unfolding sum_bets_def by (subst sum_bets_from) simp_all

lemma collect_levels_eq:
  assumes "length all_in = length bets"
  shows "collect_levels bets all_in (length bets) = Inr (levels_ref bets all_in)"
proof -
  define src where "src k = map (\<lambda>j. bets ! j) (filter (\<lambda>j. all_in ! j \<and> bets ! j > 0) [0..<k])" for k
  have "\<exists>r. collect_levels bets all_in (length bets) = Inr r \<and>
          (sorted r \<and> mset r = mset (src (length bets)))"
    unfolding collect_levels_def
    by (rule foldM_upt_total[where I = "\<lambda>k r. sorted r \<and> mset r = mset (src k)"])
      (use assms in \<open>auto simp: src_def idx_def sorted_insert_sorted mset_insert_sorted\<close>)
  then show ?thesis
    by (metis levels_ref_def src_def properties_for_sort)
qed

text \<open>
  On every input the code returns the reference layering, or the error its guards name; it
  never panics.
\<close>

lemma calculate_side_pots_eq:
  "calculate_side_pots bets folded all_in =
     (if length folded \<noteq> length bets \<or> length all_in \<noteq> length bets \<or> length bets > MAX_PLAYERS
      then Inl (Fail LengthMismatch)
      else if sum_list bets > MAX_TOTAL_BET then Inl (Fail BetOverflow)
      else Inr (side_pots_ref bets folded all_in))"
proof (cases "length folded = length bets \<and> length all_in = length bets \<and> length bets \<le> MAX_PLAYERS
    \<and> sum_list bets \<le> MAX_TOTAL_BET")
  case False
  then show ?thesis by (auto simp: calculate_side_pots_def sum_bets_eq Let_def)
next
  case True
  then have len: "length folded = length bets" "length all_in = length bets"
    and bound: "sum_list bets < u64_limit"
    using le_less_trans[OF _ MAX_TOTAL_BET_less] by auto
  obtain pots lo where st: "layers_ref bets folded ([], 0) (levels_ref bets all_in) = (pots, lo)"
    by fastforce
  have run: "foldM (layer_step bets folded (length bets)) ([], 0) (levels_ref bets all_in) =
      (Inr (pots, lo) :: (side_pot_error, side_pot list \<times> nat) outcome)"
    by (simp add: layers_eq[OF len(1) bound] st)
  have inv: "pots_sum pots = capped bets lo"
    using layers_ref_inv[of "([], 0)" bets folded "levels_ref bets all_in"] st by simp
  have top: "capped bets U64_MAX = sum_list bets"
  proof (rule capped_ge_max)
    fix b assume "b \<in> set bets"
    then have "b \<le> sum_list bets" by (rule mem_le_sum)
    with bound show "b \<le> U64_MAX" by simp
  qed
  have outer: "rbind (slice_layer bets folded lo U64_MAX (length bets)) (\<lambda>(amount, eligible).
          push_or_merge pots amount eligible)
        = (Inr (merge_pot pots (sum_list bets - capped bets lo) (layer_mask bets folded lo))
            :: (side_pot_error, side_pot list) outcome)"
    if "lo < sum_list bets"
  proof -
    have "push_or_merge pots (sum_list bets - capped bets lo) (layer_mask bets folded lo)
        = (Inr (merge_pot pots (sum_list bets - capped bets lo) (layer_mask bets folded lo))
            :: (side_pot_error, side_pot list) outcome)"
      using inv capped_le_sum[of bets lo] bound by (intro push_or_merge_eq) simp
    moreover have "lo \<le> U64_MAX" using that bound by simp
    ultimately show ?thesis
      by (simp add: slice_layer_eq[OF len(1) _ bound] top)
  qed
  show ?thesis
    using True run outer
    by (simp add: calculate_side_pots_def sum_bets_eq collect_levels_eq len side_pots_ref_def st Let_def)
qed

section \<open>What the layering guarantees\<close>

text \<open>The laws of one layer list, in the form the loop keeps them.\<close>

definition mask_seats :: "mask16 \<Rightarrow> nat set" where
  "mask_seats m = {j. bit m j}"

definition live_seats :: "nat list \<Rightarrow> bool list \<Rightarrow> nat \<Rightarrow> nat set" where
  "live_seats bets folded lo = {j. j < length bets \<and> lo < bets ! j \<and> \<not> folded ! j}"

lemma mask_seats_layer:
  "length bets \<le> 16 \<Longrightarrow> mask_seats (layer_mask bets folded lo) = live_seats bets folded lo"
  by (simp add: mask_seats_def live_seats_def bit_layer_mask)

lemma mask_seats_empty: "mask_seats m = {} \<longleftrightarrow> m = 0"
  by (auto simp: mask_seats_def mask16_eq_0)

lemma live_seats_antimono: "lo \<le> hi \<Longrightarrow> live_seats bets folded hi \<subseteq> live_seats bets folded lo"
  by (auto simp: live_seats_def)

definition layers_ok :: "nat list \<Rightarrow> bool list \<Rightarrow> side_pot list \<times> nat \<Rightarrow> bool" where
  "layers_ok bets folded st \<longleftrightarrow> (case st of (pots, lo) \<Rightarrow>
     pots_sum pots = capped bets lo \<and>
     (\<forall>p \<in> set pots. 0 < sp_amount p \<and> mask_seats (sp_eligible p) \<subseteq> live_seats bets folded 0 \<and>
        live_seats bets folded lo \<subseteq> mask_seats (sp_eligible p)) \<and>
     sorted_wrt (\<lambda>p q. mask_seats (sp_eligible q) \<subseteq> mask_seats (sp_eligible p)) pots \<and>
     (live_seats bets folded 0 \<noteq> {} \<longrightarrow> (\<forall>p \<in> set pots. sp_eligible p \<noteq> 0)))"

lemma layers_ok_merge:
  assumes ok: "layers_ok bets folded (pots, lo)" and n: "length bets \<le> 16"
    and lohi: "lo \<le> hi"
  shows "layers_ok bets folded
    (merge_pot pots (capped bets hi - capped bets lo) (layer_mask bets folded lo), hi)"
proof -
  let ?a = "capped bets hi - capped bets lo" and ?e = "layer_mask bets folded lo"
  have sub: "live_seats bets folded hi \<subseteq> live_seats bets folded lo"
    "live_seats bets folded lo \<subseteq> live_seats bets folded 0"
    using live_seats_antimono[OF lohi] live_seats_antimono[of 0 lo] by auto
  have sum: "pots_sum (merge_pot pots ?a ?e) = capped bets hi"
    using ok capped_mono[OF lohi, of bets] by (simp add: layers_ok_def)
  consider "?a = 0" | "?a \<noteq> 0" "?e = 0" "pots \<noteq> []" | "?a \<noteq> 0" "?e \<noteq> 0 \<or> pots = []" by blast
  then show ?thesis
  proof cases
    case 1
    then show ?thesis using ok sub sum unfolding layers_ok_def merge_pot_def by auto blast
  next
    case 2
    then obtain qs q where q: "pots = qs @ [q]" by (metis rev_exhaust)
    from 2 sum ok sub show ?thesis
      unfolding layers_ok_def merge_pot_def q by (auto simp: sorted_wrt_append) blast+
  next
    case 3
    have first: "?e \<noteq> 0" if emp: "pots = []" and live: "live_seats bets folded 0 \<noteq> {}"
    proof -
      have "capped bets lo = 0" using ok emp by (simp add: layers_ok_def)
      moreover obtain j where j: "j < length bets" "0 < bets ! j" "\<not> folded ! j"
        using live by (auto simp: live_seats_def)
      ultimately have "lo = 0" using capped_strict[of 0 lo j bets] by (cases "lo = 0") auto
      with j n show ?thesis by (auto simp: layer_mask_eq_0)
    qed
    have new: "merge_pot pots ?a ?e = pots @ [new_pot ?a ?e]"
      using 3 by (auto simp: merge_pot_def)
    show ?thesis
      using 3 ok sub sum first
      unfolding layers_ok_def new prod.case
      by (auto simp: sorted_wrt_append mask_seats_layer[OF n]) blast+
  qed
qed

lemma layers_ok_ref:
  assumes "length bets \<le> 16"
  shows "layers_ok bets folded st \<Longrightarrow> layers_ok bets folded (layers_ref bets folded st his)"
proof (induction his arbitrary: st)
  case Nil
  then show ?case by simp
next
  case (Cons h his)
  obtain pots lo where st: "st = (pots, lo)" by fastforce
  show ?case
    using Cons.prems layers_ok_merge[OF _ assms, of folded pots lo h]
    by (auto simp: st intro: Cons.IH)
qed

lemma layers_ok_side_pots:
  assumes n: "length bets \<le> 16"
  shows "layers_ok bets folded
     (side_pots_ref bets folded all_in, sum_list bets) \<or>
     (side_pots_ref bets folded all_in = [new_pot 0 0] \<and> sum_list bets = 0)"
proof -
  obtain pots lo where st: "layers_ref bets folded ([], 0) (levels_ref bets all_in) = (pots, lo)"
    by fastforce
  have "layers_ok bets folded ([], 0)" by (simp add: layers_ok_def)
  then have ok: "layers_ok bets folded (pots, lo)"
    using layers_ok_ref[OF n, of folded "([], 0)" "levels_ref bets all_in"] by (simp add: st)
  have full: "capped bets (sum_list bets) = sum_list bets"
    by (rule capped_ge_max) (rule mem_le_sum)
  show ?thesis
  proof (cases "lo < sum_list bets")
    case True
    let ?X = "merge_pot pots (sum_list bets - capped bets lo) (layer_mask bets folded lo)"
    have X: "layers_ok bets folded (?X, sum_list bets)"
      using layers_ok_merge[OF ok n, of "sum_list bets"] True by (simp only: full less_imp_le)
    then have "pots_sum ?X = sum_list bets" by (simp only: layers_ok_def prod.case full)
    moreover have "sum_list bets \<noteq> 0" using True by linarith
    ultimately have "?X \<noteq> []" by (metis pots_sum_simps(1))
    with X True show ?thesis by (simp add: side_pots_ref_def st)
  next
    case False
    then have top: "capped bets lo = sum_list bets"
      using capped_mono[of "sum_list bets" lo bets] capped_le_sum[of bets lo] full by simp
    moreover have "live_seats bets folded (sum_list bets) \<subseteq> live_seats bets folded lo"
      using False bet_le_sum[of _ bets] by (auto simp: live_seats_def not_less[symmetric])
    ultimately show ?thesis
      using False ok by (auto simp: side_pots_ref_def st Let_def layers_ok_def full)
  qed
qed

lemma side_pots_ref_sum:
  "length bets \<le> 16 \<Longrightarrow> pots_sum (side_pots_ref bets folded all_in) = sum_list bets"
  using layers_ok_side_pots[of bets folded all_in] capped_ge_max[of bets "sum_list bets"]
  by (auto simp: layers_ok_def mem_le_sum)

lemma side_pots_ref_live:
  assumes "length bets \<le> 16" "p \<in> set (side_pots_ref bets folded all_in)"
    and "live_seats bets folded 0 \<noteq> {}"
  shows "0 < sp_amount p \<and> sp_eligible p \<noteq> 0"
proof -
  obtain j where "j < length bets" "0 < bets ! j"
    using assms(3) by (auto simp: live_seats_def)
  with bet_le_sum[of j bets] have "sum_list bets \<noteq> 0" by (metis le_zero_eq not_less_zero)
  then have "layers_ok bets folded (side_pots_ref bets folded all_in, sum_list bets)"
    using layers_ok_side_pots[OF assms(1), of folded all_in] by metis
  then show ?thesis
    using assms(2,3) unfolding layers_ok_def by auto
qed

lemma side_pots_ref_eligible:
  assumes "length bets \<le> 16" "p \<in> set (side_pots_ref bets folded all_in)"
  shows "mask_seats (sp_eligible p) \<subseteq> live_seats bets folded 0"
  using layers_ok_side_pots[OF assms(1), of folded all_in] assms(2)
  by (auto simp: layers_ok_def mask_seats_def)

section \<open>The number of layers\<close>

definition stakes_upto :: "nat list \<Rightarrow> nat \<Rightarrow> nat set" where
  "stakes_upto bets lo = {b \<in> set bets. 0 < b \<and> b \<le> lo}"

lemma finite_stakes [simp]: "finite (stakes_upto bets lo)"
  by (simp add: stakes_upto_def)

lemma length_merge_pot: "length (merge_pot pots a e) \<le> Suc (length pots)"
  "length pots \<le> length (merge_pot pots a e)"
  by (auto simp: merge_pot_def)

lemma card_stakes_less:
  assumes "b \<in> set bets" "lo < b" "b \<le> hi"
  shows "card (stakes_upto bets lo) < card (stakes_upto bets hi)"
proof (rule psubset_card_mono)
  have "b \<in> stakes_upto bets hi" "b \<notin> stakes_upto bets lo"
    using assms by (auto simp: stakes_upto_def)
  moreover have "stakes_upto bets lo \<subseteq> stakes_upto bets hi"
    using assms by (auto simp: stakes_upto_def)
  ultimately show "stakes_upto bets lo \<subset> stakes_upto bets hi" by blast
qed simp

lemma layers_ref_count:
  "length (fst st) \<le> card (stakes_upto bets (snd st)) \<Longrightarrow> set his \<subseteq> set bets \<Longrightarrow>
   length (fst (layers_ref bets folded st his))
     \<le> card (stakes_upto bets (snd (layers_ref bets folded st his)))"
proof (induction his arbitrary: st)
  case Nil
  then show ?case by simp
next
  case (Cons h his)
  obtain pots lo where st: "st = (pots, lo)" by fastforce
  have "lo < h \<Longrightarrow> Suc (length pots) \<le> card (stakes_upto bets h)"
    using Cons.prems card_stakes_less[of h bets lo h] by (simp add: st)
  then show ?case
    using Cons.prems length_merge_pot(1)[of pots]
    unfolding st layers_ref.simps by (intro Cons.IH) (auto intro: order_trans[of _ "Suc (length pots)"])
qed

lemma sorted_levels_ref [simp]: "sorted (levels_ref bets all_in)"
  by (simp add: levels_ref_def)

lemma set_levels_ref: "set (levels_ref bets all_in) = {bets ! j |j. j < length bets \<and> all_in ! j \<and> 0 < bets ! j}"
  by (auto simp: levels_ref_def)

lemma side_pots_ref_count:
  assumes "bets \<noteq> []"
  shows "length (side_pots_ref bets folded all_in) \<le> length bets"
proof -
  obtain pots lo where st: "layers_ref bets folded ([], 0) (levels_ref bets all_in) = (pots, lo)"
    by fastforce
  have "set (levels_ref bets all_in) \<subseteq> set bets" by (auto simp: set_levels_ref)
  then have cnt: "length pots \<le> card (stakes_upto bets lo)"
    using layers_ref_count[of "([], 0)" bets "levels_ref bets all_in" folded] by (simp add: st)
  have le: "card (stakes_upto bets x) \<le> length bets" for x
  proof -
    have "card (stakes_upto bets x) \<le> card (set bets)"
      by (rule card_mono) (auto simp: stakes_upto_def)
    then show ?thesis using card_length[of bets] by linarith
  qed
  have "length (merge_pot pots (sum_list bets - capped bets lo) e) \<le> length bets" for e
  proof (cases "sum_list bets - capped bets lo = 0")
    case True
    then show ?thesis using cnt le[of lo] by (simp add: merge_pot_def)
  next
    case False
    then have "capped bets lo < capped bets (sum_list bets)"
      using capped_ge_max[OF mem_le_sum, of bets] by simp
    then obtain j where j: "j < length bets" "lo < bets ! j" by (blast dest: capped_strictD)
    then have "Suc (length pots) \<le> card (stakes_upto bets (bets ! j))"
      using cnt card_stakes_less[of "bets ! j" bets lo "bets ! j"] by simp
    then show ?thesis using length_merge_pot(1)[of pots] le[of "bets ! j"] le_trans by blast
  qed
  moreover have "length pots \<le> length bets" using cnt le[of lo] by simp
  moreover have "1 \<le> length bets" using assms by (cases bets) auto
  ultimately show ?thesis by (simp add: side_pots_ref_def st Let_def)
qed

section \<open>What one seat can claim\<close>

definition claimable :: "side_pot list \<Rightarrow> nat \<Rightarrow> nat" where
  "claimable pots j = pots_sum (filter (\<lambda>p. pot_is_eligible p j) pots)"

lemma claimable_simps [simp]:
  "claimable [] j = 0"
  "claimable (ps @ qs) j = claimable ps j + claimable qs j"
  "claimable [p] j = (if bit (sp_eligible p) j then sp_amount p else 0)"
  by (simp_all add: claimable_def pot_is_eligible_def is_eligible_bit)

text \<open>
  While a live seat has staked more than seat \<open>j\<close>, every layer up to the stake of \<open>j\<close> has a live
  contributor, so nothing is merged downwards into it, and so has the layer above it: what is merged
  later goes to a pot that \<open>j\<close> cannot win.
\<close>

definition claim_ok :: "nat list \<Rightarrow> nat \<Rightarrow> side_pot list \<times> nat \<Rightarrow> bool" where
  "claim_ok bets j = (\<lambda>(pots, lo). claimable pots j = capped bets (min lo (bets ! j)) \<and>
     (bets ! j < lo \<longrightarrow> pots \<noteq> [] \<and> \<not> bit (sp_eligible (last pots)) j))"

lemma claim_ok_step:
  assumes n: "length bets \<le> 16" and k: "k < length bets" "\<not> folded ! k" "bets ! j < bets ! k"
    and j: "j < length bets" "\<not> folded ! j"
    and ok: "claim_ok bets j (pots, lo)" and hi: "lo < hi" "lo < bets ! j \<Longrightarrow> hi \<le> bets ! j"
  shows "claim_ok bets j (merge_pot pots (capped bets hi - capped bets lo) (layer_mask bets folded lo), hi)"
proof (cases "lo \<le> bets ! j")
  case True
  then have "layer_mask bets folded lo \<noteq> 0" using k n by (auto simp: layer_mask_eq_0)
  moreover have "capped bets lo < capped bets hi" using capped_strict[of lo hi k bets] k hi(1) True by simp
  ultimately have m: "merge_pot pots (capped bets hi - capped bets lo) (layer_mask bets folded lo) =
      pots @ [new_pot (capped bets hi - capped bets lo) (layer_mask bets folded lo)]" by (simp add: merge_pot_def)
  show ?thesis
  proof (cases "lo < bets ! j")
    case below: True
    then show ?thesis
      using ok hi(2) j \<open>capped bets lo < capped bets hi\<close> unfolding m
      by (simp add: claim_ok_def bit_layer_mask[OF n])
  next
    case False
    then show ?thesis using ok hi(1) True j unfolding m by (simp add: claim_ok_def bit_layer_mask[OF n])
  qed
next
  case False
  let ?l = "(last pots)\<lparr>sp_amount := sp_amount (last pots) + (capped bets hi - capped bets lo)\<rparr>"
  have p: "pots \<noteq> []" "\<not> bit (sp_eligible (last pots)) j" "claimable pots j = capped bets (bets ! j)"
    using ok False by (simp_all add: claim_ok_def)
  have "claimable (butlast pots @ [last pots]) j = claimable (butlast pots @ [?l]) j"
    using p(2) unfolding claimable_simps by simp
  then have "claimable (butlast pots @ [?l]) j = claimable pots j" using p(1) by simp
  then show ?thesis
    using False p hi(1) j by (auto simp: claim_ok_def merge_pot_def bit_layer_mask[OF n])
qed

lemma claim_ok_layers:
  assumes n: "length bets \<le> 16" and k: "k < length bets" "\<not> folded ! k" "bets ! j < bets ! k"
    and j: "j < length bets" "\<not> folded ! j"
  shows "claim_ok bets j st \<Longrightarrow> sorted his \<Longrightarrow> bets ! j \<in> set his \<or> bets ! j \<le> snd st \<Longrightarrow>
    claim_ok bets j (layers_ref bets folded st his) \<and> bets ! j \<le> snd (layers_ref bets folded st his)"
proof (induction his arbitrary: st)
  case (Cons h his)
  obtain pots lo where st: "st = (pots, lo)" by fastforce
  show ?case
  proof (cases "h \<le> lo")
    case True
    then show ?thesis using Cons by (auto simp: st)
  next
    case False
    let ?st = "(merge_pot pots (capped bets h - capped bets lo) (layer_mask bets folded lo), h)"
    have "lo < bets ! j \<Longrightarrow> h \<le> bets ! j" using Cons.prems(2,3) by (auto simp: st)
    then have "claim_ok bets j ?st"
      using claim_ok_step[OF n k j] Cons.prems(1) False by (simp add: st)
    from Cons.IH[OF this] Cons.prems(2,3) False show ?thesis by (auto simp: st)
  qed
qed simp

lemma claimable_all_in:
  assumes n: "length bets \<le> 16" and k: "k < length bets" "\<not> folded ! k" "bets ! j < bets ! k"
    and j: "j < length bets" "\<not> folded ! j" "all_in ! j" "0 < bets ! j"
  shows "claimable (side_pots_ref bets folded all_in) j = capped bets (bets ! j)"
proof -
  obtain pots lo where st: "layers_ref bets folded ([], 0) (levels_ref bets all_in) = (pots, lo)"
    by fastforce
  have "bets ! j \<in> set (levels_ref bets all_in)" using j by (auto simp: set_levels_ref)
  moreover have "claim_ok bets j ([], 0)" by (simp add: claim_ok_def capped_def)
  ultimately have ok: "claim_ok bets j (pots, lo)" "bets ! j \<le> lo"
    using claim_ok_layers[OF n k j(1,2), of "([], 0)" "levels_ref bets all_in"] by (simp_all add: st)
  have pos: "0 < capped bets (bets ! j)" using capped_strict[of 0 "bets ! j" j bets] j by simp
  have full: "capped bets (sum_list bets) = sum_list bets" by (rule capped_ge_max) (rule mem_le_sum)
  show ?thesis
  proof (cases "lo < sum_list bets")
    case True
    have "claim_ok bets j (merge_pot pots (sum_list bets - capped bets lo) (layer_mask bets folded lo), sum_list bets)"
      using claim_ok_step[OF n k j(1,2) ok(1) True] ok(2) by (simp add: full)
    then have "claimable (merge_pot pots (sum_list bets - capped bets lo) (layer_mask bets folded lo)) j = capped bets (bets ! j)"
      using ok(2) True by (simp add: claim_ok_def)
    moreover from this have "merge_pot pots (sum_list bets - capped bets lo) (layer_mask bets folded lo) \<noteq> []" using pos by auto
    ultimately show ?thesis using True by (simp add: side_pots_ref_def st)
  next
    case False
    then have "claimable pots j = capped bets (bets ! j)" using ok by (simp add: claim_ok_def)
    moreover from this have "pots \<noteq> []" using pos by auto
    ultimately show ?thesis using False by (simp add: side_pots_ref_def st)
  qed
qed

section \<open>The layering contract\<close>

text \<open>
  What the settlement relies on when it asks for the layers of a hand: it always gets an answer
  or an error, the layers hold exactly the contributions, and when a live seat has contributed
  every layer is funded and has a winner to pay.
\<close>

locale pot_layering =
  fixes layers :: "nat list \<Rightarrow> bool list \<Rightarrow> bool list \<Rightarrow> (side_pot_error, side_pot list) outcome"
  assumes no_panic: "layers bets folded all_in \<noteq> Inl Panic"
    and conserves: "layers bets folded all_in = Inr pots \<Longrightarrow> pots_sum pots = sum_list bets"
    and within: "layers bets folded all_in = Inr pots \<Longrightarrow>
      length folded = length bets \<and> length all_in = length bets \<and>
      length bets \<le> MAX_PLAYERS \<and> sum_list bets \<le> MAX_TOTAL_BET"
    and nonempty: "layers bets folded all_in = Inr pots \<Longrightarrow> pots \<noteq> []"
    and bounded: "layers bets folded all_in = Inr pots \<Longrightarrow> length pots \<le> max 1 (length bets)"
    and only_live: "layers bets folded all_in = Inr pots \<Longrightarrow> p \<in> set pots \<Longrightarrow>
      bit (sp_eligible p) j \<Longrightarrow> j < length bets \<and> 0 < bets ! j \<and> \<not> folded ! j"
    and funded: "layers bets folded all_in = Inr pots \<Longrightarrow> p \<in> set pots \<Longrightarrow>
      j < length bets \<Longrightarrow> 0 < bets ! j \<Longrightarrow> \<not> folded ! j \<Longrightarrow> 0 < sp_amount p \<and> sp_eligible p \<noteq> 0"
begin

lemma pot_le_gross: "layers bets folded all_in = Inr pots \<Longrightarrow> p \<in> set pots \<Longrightarrow> sp_amount p \<le> sum_list bets"
  using conserves[of bets folded all_in pots] mem_le_sum[of "sp_amount p" "map sp_amount pots"]
  by (simp add: pots_sum_def)

lemma gross_in_width: "layers bets folded all_in = Inr pots \<Longrightarrow> pots_sum pots < u64_limit"
  using conserves within le_less_trans[OF _ MAX_TOTAL_BET_less] by metis

lemma total_returns: "layers bets folded all_in = Inr pots \<Longrightarrow> pots_total pots = Inr (sum_list bets)"
  using pots_total_eq gross_in_width conserves by metis

lemma count_bound: "layers bets folded all_in = Inr pots \<Longrightarrow> length pots \<le> MAX_PLAYERS"
  using bounded within by (fastforce simp: MAX_PLAYERS_def)

lemma subset_sum_le:
  "layers bets folded all_in = Inr pots \<Longrightarrow> pots_sum (filter P pots) \<le> sum_list bets"
proof -
  assume "layers bets folded all_in = Inr pots"
  moreover have "pots_sum (filter P pots) \<le> pots_sum pots"
    by (induction pots) auto
  ultimately show ?thesis by (simp add: conserves)
qed

end

lemma calculate_Inr:
  assumes "calculate_side_pots bets folded all_in = Inr pots"
  shows "pots = side_pots_ref bets folded all_in" "length bets \<le> 16"
    "length folded = length bets" "length all_in = length bets" "length bets \<le> MAX_PLAYERS"
    "sum_list bets \<le> MAX_TOTAL_BET"
  using assms by (auto simp: calculate_side_pots_eq MAX_PLAYERS_def split: if_splits)

interpretation sp: pot_layering calculate_side_pots
proof unfold_locales
  fix bets folded all_in pots p j
  assume c: "calculate_side_pots bets folded all_in = Inr pots"
  note r = calculate_Inr[OF c]
  show "pots_sum pots = sum_list bets" using r(1,2) by (simp add: side_pots_ref_sum)
  show "length folded = length bets \<and> length all_in = length bets \<and>
      length bets \<le> MAX_PLAYERS \<and> sum_list bets \<le> MAX_TOTAL_BET" using r by simp
  show "pots \<noteq> []" using c by (auto simp: calculate_side_pots_def Let_def outcome_simps split: if_splits)
  show "length pots \<le> max 1 (length bets)"
    using r(1) side_pots_ref_count[of bets folded all_in]
    by (cases "bets = []") (auto simp: side_pots_ref_def levels_ref_def le_max_iff_disj)
  assume p: "p \<in> set pots"
  show "j < length bets \<and> 0 < bets ! j \<and> \<not> folded ! j" if "bit (sp_eligible p) j"
    using side_pots_ref_eligible[OF r(2), of p folded all_in] p r(1) that
    by (auto simp: mask_seats_def live_seats_def)
  show "0 < sp_amount p \<and> sp_eligible p \<noteq> 0" if "j < length bets" "0 < bets ! j" "\<not> folded ! j"
    using side_pots_ref_live[OF r(2), of p folded all_in] p r(1) that by (auto simp: live_seats_def)
next
  fix bets folded all_in
  show "calculate_side_pots bets folded all_in \<noteq> Inl Panic"
    by (simp add: calculate_side_pots_eq)
qed

section \<open>Properties\<close>

text \<open>
  C20: \<open>calculate_side_pots\<close> is total: it returns the layering of the reference algorithm over
  exact integers, \<open>LengthMismatch\<close> for inputs of different or excessive lengths,
  \<open>BetOverflow\<close> when the contributions exceed the limit, and it never panics or overflows.
\<close>

theorem side_pots_refine_reference:
  "calculate_side_pots bets folded all_in =
     (if length folded = length bets \<and> length all_in = length bets \<and> length bets \<le> MAX_PLAYERS
      then if sum_list bets \<le> MAX_TOTAL_BET then Inr (side_pots_ref bets folded all_in)
           else Inl (Fail BetOverflow)
      else Inl (Fail LengthMismatch))"
  by (auto simp: calculate_side_pots_eq)

text \<open>No chip appears or disappears: the layers add up to the contributions of the seats.\<close>

lemma side_pots_conserve_bets:
  assumes "calculate_side_pots bets folded all_in = Inr pots"
  shows "pots_sum pots = sum_list bets"
  by (rule sp.conserves[OF assms])

text \<open>
  When a live seat has contributed, every layer is funded and has an eligible seat, only live
  contributors are eligible, and each layer's eligible seats are among those of the layer below.
\<close>

lemma side_pots_contestable:
  assumes "calculate_side_pots bets folded all_in = Inr pots"
    and "j < length bets" "0 < bets ! j" "\<not> folded ! j"
  shows "(\<forall>p \<in> set pots. 0 < sp_amount p \<and> sp_eligible p \<noteq> 0 \<and>
            (\<forall>i. bit (sp_eligible p) i \<longrightarrow> i < length bets \<and> 0 < bets ! i \<and> \<not> folded ! i)) \<and>
         sorted_wrt (\<lambda>p q. \<forall>i. bit (sp_eligible q) i \<longrightarrow> bit (sp_eligible p) i) pots"
proof -
  note r = calculate_Inr[OF assms(1)]
  have "sorted_wrt (\<lambda>p q. mask_seats (sp_eligible q) \<subseteq> mask_seats (sp_eligible p)) pots"
    using layers_ok_side_pots[OF r(2), of folded all_in] r(1) by (auto simp: layers_ok_def)
  then show ?thesis
    using sp.funded[OF assms(1)] sp.only_live[OF assms(1)] assms(2-4)
    by (auto simp: mask_seats_def subset_eq)
qed

text \<open>
  The side pots are fair to an all-in seat: as long as a live seat has staked more, the pots an
  all-in seat may win hold exactly its stake against every seat, that is the sum of \<open>min\<close> of each
  contribution and its own.
\<close>

lemma side_pots_all_in_claim:
  assumes "calculate_side_pots bets folded all_in = Inr pots"
    and "k < length bets" "\<not> folded ! k" "bets ! j < bets ! k"
    and "j < length bets" "\<not> folded ! j" "all_in ! j" "0 < bets ! j"
  shows "claimable pots j = (\<Sum>i<length bets. min (bets ! i) (bets ! j))"
proof -
  note r = calculate_Inr[OF assms(1)]
  have "claimable pots j = capped bets (bets ! j)"
    unfolding r(1) by (rule claimable_all_in[OF r(2) assms(2-8)])
  then show ?thesis by (simp add: capped_def sum_list_sum_nth atLeast0LessThan)
qed

end
