(* ===== verification/HandRank.thy ===== *)
theory HandRank
  imports Prelude "HOL-Library.Product_Lexorder" "HOL-Library.List_Lexorder" "HOL-Library.Sublist"
begin

text \<open>
  \<^verbatim>\<open>poker-settlement-core/src/hand_rank.rs\<close>: the rank of a poker hand and the choice of the best
  five cards out of the seven a seat can use.  A card is its canonical index: 0 to 51 for the
  deck, 52 to 55 for the placeholders the evaluator pads with.  The five-card arrays of the
  source are lists of length five.
\<close>

section \<open>Cards and ranks\<close>

definition HIGH_CARD :: nat where "HIGH_CARD = 0"
definition ONE_PAIR :: nat where "ONE_PAIR = 1"
definition TWO_PAIR :: nat where "TWO_PAIR = 2"
definition THREE_OF_A_KIND :: nat where "THREE_OF_A_KIND = 3"
definition STRAIGHT :: nat where "STRAIGHT = 4"
definition FLUSH :: nat where "FLUSH = 5"
definition FULL_HOUSE :: nat where "FULL_HOUSE = 6"
definition FOUR_OF_A_KIND :: nat where "FOUR_OF_A_KIND = 7"
definition STRAIGHT_FLUSH :: nat where "STRAIGHT_FLUSH = 8"
definition ROYAL_FLUSH :: nat where "ROYAL_FLUSH = 9"

lemmas category_defs = HIGH_CARD_def ONE_PAIR_def TWO_PAIR_def THREE_OF_A_KIND_def STRAIGHT_def
  FLUSH_def FULL_HOUSE_def FOUR_OF_A_KIND_def STRAIGHT_FLUSH_def ROYAL_FLUSH_def

definition card_rank :: "nat \<Rightarrow> nat" where
  "card_rank index = (if index < 52 then index mod 13 + 2 else 0)"

definition card_suit :: "nat \<Rightarrow> nat" where
  "card_suit index =
     (if index < 52 then index div 13 else if index < 56 then index - 52 else 255)"

datatype hand_rank = HandRank (category: nat) (kickers: "nat list")

text \<open>\<open>HandRank::new\<close>: the first five kickers, zero-filled.\<close>

definition hand_rank_new :: "nat \<Rightarrow> nat list \<Rightarrow> hand_rank" where
  "hand_rank_new cat ks = HandRank cat (take 5 ks @ replicate (5 - length ks) 0)"

definition category_name :: "hand_rank \<Rightarrow> string" where
  "category_name h =
     (let c = category h in
      if c = HIGH_CARD then ''High Card''
      else if c = ONE_PAIR then ''One Pair''
      else if c = TWO_PAIR then ''Two Pair''
      else if c = THREE_OF_A_KIND then ''Three of a Kind''
      else if c = STRAIGHT then ''Straight''
      else if c = FLUSH then ''Flush''
      else if c = FULL_HOUSE then ''Full House''
      else if c = FOUR_OF_A_KIND then ''Four of a Kind''
      else if c = STRAIGHT_FLUSH then ''Straight Flush''
      else if c = ROYAL_FLUSH then ''Royal Flush''
      else ''Unknown'')"

text \<open>\<open>Ord::cmp\<close>: the category first, then the kickers position by position.\<close>

definition cmp_less :: "hand_rank \<Rightarrow> hand_rank \<Rightarrow> bool" where
  "cmp_less a b \<longleftrightarrow> category a < category b \<or> (category a = category b \<and> kickers a < kickers b)"

instantiation hand_rank :: linorder
begin

definition less_hand_rank :: "hand_rank \<Rightarrow> hand_rank \<Rightarrow> bool" where
  "less_hand_rank a b \<longleftrightarrow> cmp_less a b"

definition less_eq_hand_rank :: "hand_rank \<Rightarrow> hand_rank \<Rightarrow> bool" where
  "less_eq_hand_rank a b \<longleftrightarrow> cmp_less a b \<or> a = b"

instance
proof
  fix x y z :: hand_rank
  show "(x < y) = (x \<le> y \<and> \<not> y \<le> x)"
    by (auto simp: less_hand_rank_def less_eq_hand_rank_def cmp_less_def)
  show "x \<le> x" by (simp add: less_eq_hand_rank_def)
  show "x \<le> y \<Longrightarrow> y \<le> z \<Longrightarrow> x \<le> z"
    by (auto simp: less_eq_hand_rank_def cmp_less_def)
  show "x \<le> y \<Longrightarrow> y \<le> x \<Longrightarrow> x = y"
    by (auto simp: less_eq_hand_rank_def cmp_less_def)
  show "x \<le> y \<or> y \<le> x"
    by (cases x; cases y) (auto simp: less_eq_hand_rank_def cmp_less_def)
qed

end

section \<open>The five-card evaluation\<close>

text \<open>The histogram of the ranks 2 to 14.\<close>

definition rank_counts :: "nat list \<Rightarrow> nat list" where
  "rank_counts cards =
     foldl (\<lambda>counts c. let rank = card_rank c in
         if rank \<ge> 2 \<and> rank \<le> 14 then counts[rank - 2 := counts ! (rank - 2) + 1] else counts)
       (replicate 13 0) cards"

definition is_flush_five :: "nat list \<Rightarrow> bool" where
  "is_flush_five cards \<longleftrightarrow>
     card_suit (cards ! 0) = card_suit (cards ! 1) \<and> card_suit (cards ! 1) = card_suit (cards ! 2) \<and>
     card_suit (cards ! 2) = card_suit (cards ! 3) \<and> card_suit (cards ! 3) = card_suit (cards ! 4)"

text \<open>\<open>sort_unstable_by(|a, b| b.cmp(a))\<close>: equal elements are indistinguishable here.\<close>

definition sort_desc :: "'a::linorder list \<Rightarrow> 'a list" where
  "sort_desc xs = rev (sort xs)"

definition straight_high :: "nat list \<Rightarrow> nat option" where
  "straight_high ranks_desc =
     (if ranks_desc = [14, 5, 4, 3, 2] then Some 5
      else if list_all (\<lambda>i. ranks_desc ! i = ranks_desc ! (i + 1) + 1) [0..<4]
      then Some (ranks_desc ! 0) else None)"

definition rank_groups :: "nat list \<Rightarrow> (nat \<times> nat) list" where
  "rank_groups counts =
     (let gs = sort_desc (filter (\<lambda>(c, _). c > 0) (map (\<lambda>i. (counts ! i, i + 2)) [0..<13]))
      in gs @ replicate (5 - length gs) (0, 0))"

definition evaluate_five :: "nat list \<Rightarrow> hand_rank" where
  "evaluate_five cards =
     (let counts = rank_counts cards;
          is_flush = is_flush_five cards;
          ranks = sort_desc (map card_rank cards);
          straight = straight_high ranks;
          groups = rank_groups counts;
          c = (\<lambda>i. fst (groups ! i)); r = (\<lambda>i. snd (groups ! i)) in
      if is_flush \<and> straight \<noteq> None then
        (let high = the straight in
         if high = 14 then hand_rank_new ROYAL_FLUSH [14] else hand_rank_new STRAIGHT_FLUSH [high])
      else if c 0 = 4 then hand_rank_new FOUR_OF_A_KIND [r 0, r 1]
      else if c 0 = 3 \<and> c 1 \<ge> 2 then hand_rank_new FULL_HOUSE [r 0, r 1]
      else if is_flush then hand_rank_new FLUSH ranks
      else if straight \<noteq> None then hand_rank_new STRAIGHT [the straight]
      else if c 0 = 3 then hand_rank_new THREE_OF_A_KIND [r 0, r 1, r 2]
      else if c 0 = 2 \<and> c 1 = 2 then
        (let (hi, lo) = (if r 0 > r 1 then (r 0, r 1) else (r 1, r 0)) in
         hand_rank_new TWO_PAIR [hi, lo, r 2])
      else if c 0 = 2 then hand_rank_new ONE_PAIR [r 0, r 1, r 2, r 3]
      else hand_rank_new HIGH_CARD ranks)"

text \<open>The five nested index loops, and the padding of short hands with placeholders.\<close>

definition five_indices :: "nat \<Rightarrow> nat list list" where
  "five_indices n =
     [[i, j, k, l, m]. i \<leftarrow> [0..<n], j \<leftarrow> [i + 1..<n], k \<leftarrow> [j + 1..<n], l \<leftarrow> [k + 1..<n],
                       m \<leftarrow> [l + 1..<n]]"

definition pad_cards :: "nat list \<Rightarrow> nat list" where
  "pad_cards cards = cards @ map (\<lambda>next_suit. 52 + next_suit) [0..<5 - length cards]"

definition evaluate_best :: "nat list \<Rightarrow> hand_rank" where
  "evaluate_best cards =
     (if length cards < 5 then evaluate_five (pad_cards cards)
      else foldl (\<lambda>best ixs. let rank = evaluate_five (map (\<lambda>i. cards ! i) ixs) in
                   if rank > best then rank else best)
             (hand_rank_new HIGH_CARD [0, 0, 0, 0, 0]) (five_indices (length cards)))"

section \<open>Only the multiset of five cards matters\<close>

lemma mset_sort_desc [simp]: "mset (sort_desc xs) = mset xs"
  by (simp add: sort_desc_def)

lemma set_sort_desc [simp]: "set (sort_desc xs) = set xs"
  by (simp add: sort_desc_def)

lemma length_sort_desc [simp]: "length (sort_desc xs) = length xs"
  by (simp add: sort_desc_def)

lemma sorted_sort_desc: "sorted_wrt (\<ge>) (sort_desc xs)"
  using sorted_sort[of xs] by (simp add: sort_desc_def sorted_wrt_rev)

lemma sort_desc_cong: "mset xs = mset ys \<Longrightarrow> sort_desc xs = sort_desc ys"
  unfolding sort_desc_def by (metis mset_sort properties_for_sort sorted_sort)

definition multiplicity :: "nat list \<Rightarrow> nat \<Rightarrow> nat" where
  "multiplicity cards r = length (filter (\<lambda>c. card_rank c = r) cards)"

lemma card_rank_le: "card_rank c \<le> 14"
  by (simp add: card_rank_def) presburger

lemma rank_counts_from:
  "length cs = 13 \<Longrightarrow>
   foldl (\<lambda>counts c. let rank = card_rank c in
         if rank \<ge> 2 \<and> rank \<le> 14 then counts[rank - 2 := counts ! (rank - 2) + 1] else counts)
       cs cards = map (\<lambda>i. cs ! i + multiplicity cards (i + 2)) [0..<13]"
proof (induction cards arbitrary: cs)
  case Nil
  then show ?case by (simp add: multiplicity_def list_eq_iff_nth_eq)
next
  case (Cons c cards)
  let ?cs = "let rank = card_rank c in
         if rank \<ge> 2 \<and> rank \<le> 14 then cs[rank - 2 := cs ! (rank - 2) + 1] else cs"
  have "length ?cs = 13" using Cons.prems by (simp add: Let_def)
  then have "foldl (\<lambda>counts c. let rank = card_rank c in
         if rank \<ge> 2 \<and> rank \<le> 14 then counts[rank - 2 := counts ! (rank - 2) + 1] else counts)
       cs (c # cards) = map (\<lambda>i. ?cs ! i + multiplicity cards (i + 2)) [0..<13]"
    using Cons.IH[of ?cs] by simp
  also have "\<dots> = map (\<lambda>i. cs ! i + multiplicity (c # cards) (i + 2)) [0..<13]"
    using Cons.prems card_rank_le[of c]
    by (auto simp: multiplicity_def Let_def nth_list_update)
  finally show ?case .
qed

lemma rank_counts_eq: "rank_counts cards = map (\<lambda>i. multiplicity cards (i + 2)) [0..<13]"
  unfolding rank_counts_def by (subst rank_counts_from) (auto simp: list_eq_iff_nth_eq)

lemma multiplicity_mset: "mset xs = mset ys \<Longrightarrow> multiplicity xs r = multiplicity ys r"
  by (metis mset_filter multiplicity_def size_mset)

lemma list5E:
  assumes "length xs = 5" obtains a b c d e where "xs = [a, b, c, d, e]"
  using assms by (auto simp: numeral_eq_Suc length_Suc_conv)

lemma is_flush_five_iff:
  "length cards = 5 \<Longrightarrow> is_flush_five cards \<longleftrightarrow> (\<forall>c \<in> set cards. \<forall>d \<in> set cards. card_suit c = card_suit d)"
  by (erule list5E) (auto simp: is_flush_five_def)

lemma evaluate_five_mset:
  assumes "mset xs = mset ys" "length xs = 5"
  shows "evaluate_five xs = evaluate_five ys"
proof -
  have len: "length ys = 5" using assms by (metis size_mset)
  have "rank_counts xs = rank_counts ys"
    using multiplicity_mset[OF assms(1)] by (simp add: rank_counts_eq)
  moreover have "is_flush_five xs = is_flush_five ys"
    using mset_eq_setD[OF assms(1)] by (simp only: is_flush_five_iff[OF len] is_flush_five_iff[OF assms(2)])
  moreover have "sort_desc (map card_rank xs) = sort_desc (map card_rank ys)"
    using assms(1) by (intro sort_desc_cong) (metis mset_map)
  ultimately show ?thesis by (simp add: evaluate_five_def)
qed

section \<open>The search over index combinations\<close>

lemma set_five_indices:
  "set (five_indices n) = {[i, j, k, l, m] |i j k l m. i < j \<and> j < k \<and> k < l \<and> l < m \<and> m < n}"
proof -
  have "\<exists>x\<in>{0..<n}. \<exists>xa\<in>{Suc x..<n}. \<exists>xb\<in>{Suc xa..<n}. \<exists>xc\<in>{Suc xb..<n}.
          [i, j, k, l, m] \<in> (\<lambda>xd. [x, xa, xb, xc, xd]) ` {Suc xc..<n}"
    if "i < j" "j < k" "k < l" "l < m" "m < n" for i j k l m
    by (rule bexI[of _ i], rule bexI[of _ j], rule bexI[of _ k], rule bexI[of _ l])
      (use that in auto)
  then show ?thesis by (auto simp: five_indices_def Suc_le_eq)
qed

lemma five_indices_iff:
  "ixs \<in> set (five_indices n) \<longleftrightarrow> length ixs = 5 \<and> sorted_wrt (<) ixs \<and> (\<forall>i \<in> set ixs. i < n)"
  by (auto simp: set_five_indices elim!: list5E)

lemma nths_indices: "nths xs N = map (\<lambda>i. xs ! i) (filter (\<lambda>i. i \<in> N) [0..<length xs])"
proof (induction xs rule: rev_induct)
  case Nil
  show ?case by simp
next
  case (snoc x xs)
  have "map (\<lambda>i. (xs @ [x]) ! i) (filter (\<lambda>i. i \<in> N) [0..<length xs]) =
        map (\<lambda>i. xs ! i) (filter (\<lambda>i. i \<in> N) [0..<length xs])"
    by (auto simp: nth_append)
  then show ?case using snoc by (simp add: nths_append)
qed

lemma strict_sorted_filter_set:
  "sorted_wrt (<) ixs \<Longrightarrow> \<forall>i \<in> set ixs. i < n \<Longrightarrow> filter (\<lambda>i. i \<in> set ixs) [0..<n] = ixs"
  by (rule strict_sorted_equal) (auto simp: sorted_wrt_filter)

text \<open>The five-card choices are exactly the subsequences of length five.\<close>

lemma five_choices:
  "(\<lambda>ixs. map (\<lambda>i. cards ! i) ixs) ` set (five_indices (length cards)) =
   {five. subseq five cards \<and> length five = 5}" (is "?L = ?R")
proof
  show "?L \<subseteq> ?R"
  proof
    fix five assume "five \<in> ?L"
    then obtain ixs where "ixs \<in> set (five_indices (length cards))"
      and five: "five = map (\<lambda>i. cards ! i) ixs" by blast
    then have "length ixs = 5" "sorted_wrt (<) ixs" "\<forall>i \<in> set ixs. i < length cards"
      by (simp_all add: five_indices_iff)
    then have "five = nths cards (set ixs)" "length five = 5"
      using nths_indices[of cards "set ixs"] strict_sorted_filter_set[of ixs "length cards"] five
      by simp_all
    then show "five \<in> ?R" by (auto simp: subseq_conv_nths)
  qed
  show "?R \<subseteq> ?L"
  proof
    fix five assume R: "five \<in> ?R"
    then obtain N where N: "five = nths cards N" by (auto simp: subseq_conv_nths)
    let ?ixs = "filter (\<lambda>i. i \<in> N) [0..<length cards]"
    have "sorted_wrt (<) ?ixs" by (simp add: sorted_wrt_filter)
    moreover have "five = map (\<lambda>i. cards ! i) ?ixs" by (simp add: N nths_indices)
    moreover from this R have "length ?ixs = 5" by auto
    ultimately show "five \<in> ?L" by (intro image_eqI[of _ _ ?ixs]) (auto simp: five_indices_iff)
  qed
qed

section \<open>The best rank is the maximum\<close>

lemma zeros_least: "length ks = n \<Longrightarrow> replicate n 0 \<le> (ks :: nat list)"
proof (induction ks arbitrary: n)
  case Nil
  then show ?case by simp
next
  case (Cons k ks)
  then show ?case by (cases n) (auto simp: Cons_le_Cons)
qed

lemma kickers_new [simp]: "length (kickers (hand_rank_new cat ks)) = 5"
  by (simp add: hand_rank_new_def)

lemma category_new [simp]: "category (hand_rank_new cat ks) = cat"
  by (simp add: hand_rank_new_def)

lemma least_rank: "length (kickers h) = 5 \<Longrightarrow> hand_rank_new HIGH_CARD [0, 0, 0, 0, 0] \<le> h"
  using zeros_least[of "kickers h" 5]
  by (cases h) (auto simp: less_eq_hand_rank_def cmp_less_def hand_rank_new_def HIGH_CARD_def
    numeral_eq_Suc le_less)

lemma length_kickers_five [simp]: "length (kickers (evaluate_five cards)) = 5"
  by (simp add: evaluate_five_def Let_def split: prod.splits)

lemma category_five_le: "category (evaluate_five cards) \<le> ROYAL_FLUSH"
  by (simp add: evaluate_five_def Let_def category_defs split: prod.splits)

lemma foldl_max:
  fixes f :: "'a \<Rightarrow> 'b::linorder"
  shows "foldl (\<lambda>best x. if f x > best then f x else best) b xs = Max (insert b (f ` set xs))"
proof (induction xs arbitrary: b)
  case Nil
  then show ?case by simp
next
  case (Cons x xs)
  have "foldl (\<lambda>best x. if f x > best then f x else best) b (x # xs) =
        Max (insert (max b (f x)) (f ` set xs))"
    using Cons.IH by (simp add: max_def not_less)
  also have "\<dots> = Max (insert b (insert (f x) (f ` set xs)))"
    by (cases "xs = []") (simp_all add: max.assoc)
  finally show ?case by (simp add: insert_commute)
qed

definition five_card_hands :: "nat list \<Rightarrow> nat list set" where
  "five_card_hands cards = {five. subseq five cards \<and> length five = 5}"

lemma finite_five_card_hands: "finite (five_card_hands cards)"
  using five_choices[of cards] unfolding five_card_hands_def by (metis finite_imageI finite_set)

lemma five_card_hands_nonempty: "5 \<le> length cards \<Longrightarrow> five_card_hands cards \<noteq> {}"
  by (auto simp: five_card_hands_def intro!: exI[of _ "take 5 cards"])

lemma evaluate_best_eq:
  assumes "5 \<le> length cards"
  shows "evaluate_best cards = Max (evaluate_five ` five_card_hands cards)"
proof -
  let ?b = "hand_rank_new HIGH_CARD [0, 0, 0, 0, 0]" and ?S = "evaluate_five ` five_card_hands cards"
  have "(\<lambda>ixs. evaluate_five (map (\<lambda>i. cards ! i) ixs)) ` set (five_indices (length cards)) = ?S"
    unfolding five_card_hands_def five_choices[symmetric] by (simp add: image_image)
  then have "evaluate_best cards = Max (insert ?b ?S)"
    using assms by (simp add: evaluate_best_def Let_def foldl_max not_less)
  moreover have "finite ?S" "?S \<noteq> {}"
    using finite_five_card_hands five_card_hands_nonempty[OF assms] by auto
  moreover from this have "?b \<le> Max ?S" by (auto simp: Max_ge_iff intro!: least_rank)
  ultimately show ?thesis by (simp add: max_absorb2)
qed

lemma length_kickers_best [simp]: "length (kickers (evaluate_best cards)) = 5"
proof (cases "length cards < 5")
  case False
  then have "evaluate_best cards \<in> evaluate_five ` five_card_hands cards"
    by (simp add: evaluate_best_eq finite_five_card_hands five_card_hands_nonempty)
  then show ?thesis by auto
qed (simp add: evaluate_best_def)

section \<open>Only the multiset of cards matters\<close>

lemma subseq_mset: "subseq xs ys \<Longrightarrow> mset xs \<subseteq># mset ys"
  by (induction rule: list_emb.induct) (auto intro: subset_mset.order_trans)

lemma submset_subseq: "M \<subseteq># mset ys \<Longrightarrow> \<exists>zs. subseq zs ys \<and> mset zs = M"
proof (induction ys arbitrary: M)
  case Nil
  then show ?case by auto
next
  case (Cons y ys)
  show ?case
  proof (cases "y \<in># M")
    case True
    then have "M - {#y#} \<subseteq># mset ys" using Cons.prems by (simp add: subset_eq_diff_conv)
    then obtain zs where "subseq zs ys" "mset zs = M - {#y#}" using Cons.IH by blast
    with True show ?thesis by (intro exI[of _ "y # zs"]) auto
  next
    case False
    then have "M \<subseteq># mset ys"
      using Cons.prems by (metis diff_single_trivial mset.simps(2) subset_eq_diff_conv add_mset_add_single)
    then show ?thesis using Cons.IH by (meson list_emb_Cons)
  qed
qed

lemma five_ranks_mset:
  assumes "mset xs = mset ys"
  shows "evaluate_five ` five_card_hands xs \<subseteq> evaluate_five ` five_card_hands ys"
proof
  fix h assume "h \<in> evaluate_five ` five_card_hands xs"
  then obtain five where five: "subseq five xs" "length five = 5" "h = evaluate_five five"
    by (auto simp: five_card_hands_def)
  then obtain zs where zs: "subseq zs ys" "mset zs = mset five"
    using submset_subseq[of "mset five" ys] subseq_mset[of five xs] assms by auto
  then have "length zs = 5" "evaluate_five zs = h"
    using five evaluate_five_mset[of five zs] by (metis size_mset)+
  with zs show "h \<in> evaluate_five ` five_card_hands ys" by (force simp: five_card_hands_def)
qed

lemma evaluate_best_mset:
  assumes "mset xs = mset ys"
  shows "evaluate_best xs = evaluate_best ys"
proof (cases "length xs < 5")
  case True
  have len: "length xs = length ys" using assms by (metis size_mset)
  have "evaluate_five (pad_cards xs) = evaluate_five (pad_cards ys)"
    using assms True len by (intro evaluate_five_mset) (simp_all add: pad_cards_def)
  with True len show ?thesis by (simp add: evaluate_best_def)
next
  case False
  have "evaluate_five ` five_card_hands xs = evaluate_five ` five_card_hands ys"
    using five_ranks_mset[OF assms] five_ranks_mset[OF assms[symmetric]] by blast
  moreover have "5 \<le> length ys" using assms False by (metis not_less size_mset)
  ultimately show ?thesis using False by (simp add: evaluate_best_eq)
qed

section \<open>The classification of a hand\<close>

text \<open>A hand of five distinct cards of the deck, and the category the rules of poker give it.\<close>

definition deck_hand :: "nat list \<Rightarrow> bool" where
  "deck_hand cards \<longleftrightarrow> length cards = 5 \<and> distinct cards \<and> (\<forall>c \<in> set cards. c < 52)"

definition same_suit :: "nat list \<Rightarrow> bool" where
  "same_suit cards \<longleftrightarrow> (\<forall>c \<in> set cards. \<forall>d \<in> set cards. card_suit c = card_suit d)"

definition straight_to :: "nat list \<Rightarrow> nat \<Rightarrow> bool" where
  "straight_to cards h \<longleftrightarrow>
     (6 \<le> h \<and> card_rank ` set cards = {h - 4..h}) \<or>
     (h = 5 \<and> card_rank ` set cards = {14, 2, 3, 4, 5})"

definition category_spec :: "nat list \<Rightarrow> nat" where
  "category_spec cards =
     (if same_suit cards \<and> straight_to cards 14 then ROYAL_FLUSH
      else if same_suit cards \<and> (\<exists>h. straight_to cards h) then STRAIGHT_FLUSH
      else if \<exists>r. multiplicity cards r = 4 then FOUR_OF_A_KIND
      else if (\<exists>r. multiplicity cards r = 3) \<and> (\<exists>r. multiplicity cards r = 2) then FULL_HOUSE
      else if same_suit cards then FLUSH
      else if \<exists>h. straight_to cards h then STRAIGHT
      else if \<exists>r. multiplicity cards r = 3 then THREE_OF_A_KIND
      else if \<exists>r s. r \<noteq> s \<and> multiplicity cards r = 2 \<and> multiplicity cards s = 2 then TWO_PAIR
      else if \<exists>r. multiplicity cards r = 2 then ONE_PAIR
      else HIGH_CARD)"

text \<open>Straights: five distinct descending ranks are determined by their set.\<close>

lemma straight_high_Some:
  assumes len: "length ranks = 5" and desc: "sorted_wrt (\<ge>) ranks" and ge: "\<forall>r \<in> set ranks. 2 \<le> r"
  shows "straight_high ranks = Some h \<longleftrightarrow>
    (6 \<le> h \<and> set ranks = {h - 4..h}) \<or> (h = 5 \<and> set ranks = {14, 2, 3, 4, 5})"
proof -
  have uniq: "ranks = xs" if "set ranks = set xs" "sorted_wrt (>) xs" "length xs = 5" for xs :: "nat list"
  proof -
    have "sorted_wrt (<) (rev xs)" using that(2) by (simp add: sorted_wrt_rev)
    then have "distinct xs" by (simp add: strict_sorted_iff)
    then have "card (set ranks) = 5" using that by (simp add: distinct_card)
    then have "distinct ranks" using len by (simp add: card_distinct)
    moreover have "sorted (rev ranks)" using desc by (simp add: sorted_wrt_rev)
    ultimately have "sorted_wrt (<) (rev ranks)" by (intro strict_sorted_iff[THEN iffD2]) simp
    moreover have "sorted_wrt (<) (rev xs)" using that(2) by (simp add: sorted_wrt_rev)
    ultimately have "rev ranks = rev xs" using that(1) by (intro strict_sorted_equal) auto
    then show ?thesis by simp
  qed
  have wheel: "ranks = [14, 5, 4, 3, 2] \<longleftrightarrow> set ranks = {14, 2, 3, 4, 5}"
    using uniq[of "[14, 5, 4, 3, 2]"] by auto
  have run: "ranks = [h, h - 1, h - 2, h - 3, h - 4] \<longleftrightarrow> set ranks = {h - 4..h}" if "6 \<le> h" for h
  proof -
    have "set [h, h - 1, h - 2, h - 3, h - 4] = {h - 4..h}" using that by auto
    moreover have "sorted_wrt (>) [h, h - 1, h - 2, h - 3, h - 4]" using that by simp linarith
    ultimately show ?thesis using uniq[of "[h, h - 1, h - 2, h - 3, h - 4]"] by fastforce
  qed
  obtain a b c d e where abc: "ranks = [a, b, c, d, e]" using len by (rule list5E)
  have "list_all (\<lambda>i. ranks ! i = ranks ! (i + 1) + 1) [0..<4] \<longleftrightarrow>
      6 \<le> a \<and> ranks = [a, a - 1, a - 2, a - 3, a - 4]"
    using ge by (simp add: abc upt_rec) arith
  then have "straight_high ranks = Some h \<longleftrightarrow>
      (ranks = [14, 5, 4, 3, 2] \<and> h = 5) \<or> (6 \<le> h \<and> ranks = [h, h - 1, h - 2, h - 3, h - 4])"
    by (auto simp: straight_high_def abc)
  then show ?thesis using wheel run[of h] by blast
qed

lemma straight_five:
  assumes "deck_hand cards"
  shows "straight_high (sort_desc (map card_rank cards)) = Some h \<longleftrightarrow> straight_to cards h"
proof -
  have "length (sort_desc (map card_rank cards)) = 5" using assms by (simp add: deck_hand_def)
  moreover have "\<forall>r \<in> set (sort_desc (map card_rank cards)). 2 \<le> r"
    using assms by (simp add: deck_hand_def card_rank_def)
  ultimately show ?thesis
    using straight_high_Some[OF _ sorted_sort_desc, of "map card_rank cards" h]
    by (simp add: straight_to_def)
qed

text \<open>The groups: the multiplicities of the ranks, largest first.\<close>

definition rank_values :: "nat list" where
  "rank_values = [2..<15]"

lemma set_rank_values: "set rank_values = {r. 2 \<le> r \<and> r \<le> 14}"
  unfolding rank_values_def set_upt by auto

lemma distinct_rank_values: "distinct rank_values"
  unfolding rank_values_def by (rule distinct_upt)

lemma rank_values_shift: "rank_values = map (\<lambda>i. i + 2) [0..<13]"
  unfolding rank_values_def map_add_upt by simp

definition groups_of :: "nat list \<Rightarrow> (nat \<times> nat) list" where
  "groups_of cards = sort_desc (filter (\<lambda>(c, _). c > 0) (map (\<lambda>r. (multiplicity cards r, r)) rank_values))"

lemma rank_groups_eq:
  "rank_groups (rank_counts cards) =
     groups_of cards @ replicate (5 - length (groups_of cards)) (0, 0)"
proof -
  have "map (\<lambda>i. (rank_counts cards ! i, i + 2)) [0..<13] = map (\<lambda>r. (multiplicity cards r, r)) rank_values"
    unfolding rank_values_shift rank_counts_eq map_map by (rule map_cong) simp_all
  then show ?thesis by (simp only: rank_groups_def groups_of_def Let_def)
qed

lemma set_groups_of:
  "set (groups_of cards) = {(multiplicity cards r, r) |r. 2 \<le> r \<and> r \<le> 14 \<and> 0 < multiplicity cards r}"
  by (auto simp: groups_of_def set_rank_values)

lemma distinct_groups: "distinct (map snd (groups_of cards))"
proof -
  have "distinct (map snd (filter (\<lambda>(c, _). c > 0) (map (\<lambda>r. (multiplicity cards r, r)) rank_values)))"
    by (rule distinct_map_filter) (simp add: comp_def distinct_rank_values)
  moreover have "mset (map snd (sort_desc xs)) = mset (map snd xs)" for xs :: "(nat \<times> nat) list"
    by (simp only: mset_map mset_sort_desc)
  ultimately show ?thesis
    unfolding groups_of_def by (rule mset_eq_imp_distinct_iff[THEN iffD2, rotated])
qed

lemma multiplicity_range:
  assumes "\<forall>c \<in> set cards. c < 52" "0 < multiplicity cards r"
  shows "2 \<le> r \<and> r \<le> 14"
proof -
  obtain c where "c \<in> set cards" "card_rank c = r"
    using assms(2) by (auto simp: multiplicity_def filter_empty_conv)
  then show ?thesis using assms(1) card_rank_le[of c] by (auto simp: card_rank_def)
qed

lemma sum_multiplicity:
  assumes "\<forall>c \<in> set cards. c < 52"
  shows "sum_list (map fst (groups_of cards)) = length cards"
proof -
  have "sum_list (map fst (groups_of cards)) =
      sum_list (map fst (filter (\<lambda>(c, _). c > 0) (map (\<lambda>r. (multiplicity cards r, r)) rank_values)))"
    unfolding groups_of_def by (simp only: sum_mset_sum_list[symmetric] mset_map mset_sort_desc)
  also have "\<dots> = sum_list (map (multiplicity cards) rank_values)"
  proof -
    have "sum_list (map fst (filter (\<lambda>(c, _). c > 0) (map (\<lambda>r. (f r, r)) rs))) = sum_list (map f rs)"
      for f :: "nat \<Rightarrow> nat" and rs by (induction rs) auto
    then show ?thesis by blast
  qed
  also have "\<dots> = length cards"
    using assms
  proof (induction cards)
    case Nil
    then show ?case by (simp add: multiplicity_def)
  next
    case (Cons c cards)
    have r: "card_rank c \<in> set rank_values"
      using Cons.prems card_rank_le[of c] by (simp add: set_rank_values card_rank_def)
    have one: "sum_list (map (\<lambda>r. f r + (if q = r then 1 else 0)) rs) = sum_list (map f rs) + (1 :: nat)"
      if "distinct rs" "q \<in> set rs" for f q and rs :: "nat list"
    proof -
      have "sum_list (map (\<lambda>r. f r + (if q = r then 1 else 0)) rs) = sum_list (map f rs) + count_list rs q"
        for rs by (induction rs) auto
      moreover have "count_list rs q = 1" using that
        by (induction rs) (auto simp: count_notin)
      ultimately show ?thesis by simp
    qed
    have "multiplicity (c # cards) = (\<lambda>r. multiplicity cards r + (if card_rank c = r then 1 else 0))"
      by (auto simp: multiplicity_def)
    then show ?case using one[OF distinct_rank_values r, of "multiplicity cards"] Cons by simp
  qed
  finally show ?thesis .
qed

lemma multiplicity_le4: "deck_hand cards \<Longrightarrow> multiplicity cards r \<le> 4"
proof -
  assume hand: "deck_hand cards"
  let ?S = "set (filter (\<lambda>c. card_rank c = r) cards)"
  have "card ?S = multiplicity cards r"
    unfolding multiplicity_def using hand by (intro distinct_card) (simp add: deck_hand_def)
  moreover have "?S \<subseteq> {r - 2, 13 + (r - 2), 26 + (r - 2), 39 + (r - 2)}"
  proof
    fix c assume "c \<in> ?S"
    then have c: "c < 52" "c mod 13 = r - 2" using hand by (auto simp: deck_hand_def card_rank_def)
    then have "c div 13 \<in> {0, 1, 2, 3}" by auto
    then show "c \<in> {r - 2, 13 + (r - 2), 26 + (r - 2), 39 + (r - 2)}"
      using c(2) mult_div_mod_eq[of 13 c] by auto
  qed
  then have "card ?S \<le> card {r - 2, 13 + (r - 2), 26 + (r - 2), 39 + (r - 2)}"
    by (intro card_mono) auto
  moreover have "card {r - 2, 13 + (r - 2), 26 + (r - 2), 39 + (r - 2)} \<le> 4"
    by (rule card_insert_le_m1 | simp)+
  ultimately show ?thesis by linarith
qed

lemma length_le_sum: "\<forall>m \<in> set ms. 0 < m \<Longrightarrow> length ms \<le> sum_list (ms :: nat list)"
  by (induction ms) auto

lemma partitions_of_five:
  assumes "sorted_wrt (\<ge>) ms" "\<forall>m \<in> set ms. 0 < m" "sum_list ms = (5 :: nat)"
  shows "ms \<in> {[5], [4, 1], [3, 2], [3, 1, 1], [2, 2, 1], [2, 1, 1, 1], [1, 1, 1, 1, 1]}"
proof -
  have "length ms \<le> 5" using length_le_sum[OF assms(2)] assms(3) by simp
  then consider "ms = []" | a where "ms = [a]" | a b where "ms = [a, b]" | a b c where "ms = [a, b, c]"
    | a b c d where "ms = [a, b, c, d]" | a b c d e where "ms = [a, b, c, d, e]"
    by (auto simp: le_Suc_eq length_Suc_conv numeral_eq_Suc)
  then show ?thesis
  proof cases
    case 3
    then show ?thesis using assms by (simp; presburger)
  next
    case 4
    then show ?thesis using assms by (simp; presburger)
  next
    case 5
    then show ?thesis using assms by (simp; presburger)
  next
    case 6
    then show ?thesis using assms by simp
  qed (use assms in auto)
qed

lemma sorted_fst_groups: "sorted_wrt (\<ge>) (map fst (groups_of cards))"
  using sorted_sort_desc[of "filter (\<lambda>(c, _). c > 0) (map (\<lambda>r. (multiplicity cards r, r)) rank_values)"]
  unfolding groups_of_def sorted_wrt_map by (rule sorted_wrt_mono_rel[rotated]) (auto simp: less_eq_prod_def)

lemma groups_cases:
  assumes "deck_hand cards"
  shows "map fst (groups_of cards) \<in> {[4, 1], [3, 2], [3, 1, 1], [2, 2, 1], [2, 1, 1, 1], [1, 1, 1, 1, 1]}"
proof -
  have "map fst (groups_of cards) \<in> {[5], [4, 1], [3, 2], [3, 1, 1], [2, 2, 1], [2, 1, 1, 1], [1, 1, 1, 1, 1]}"
    using assms by (intro partitions_of_five sorted_fst_groups)
      (auto simp: set_groups_of sum_multiplicity deck_hand_def)
  moreover have "map fst (groups_of cards) \<noteq> [5]"
  proof
    assume "map fst (groups_of cards) = [5]"
    then have "5 \<in> fst ` set (groups_of cards)" by (metis image_set list.set_intros(1))
    then obtain r where "multiplicity cards r = 5" by (auto simp: set_groups_of)
    with multiplicity_le4[OF assms, of r] show False by simp
  qed
  ultimately show ?thesis by blast
qed

lemma multiplicity_in_groups:
  assumes "deck_hand cards" "0 < m"
  shows "multiplicity cards r = m \<longleftrightarrow> (m, r) \<in> set (groups_of cards)"
  using assms multiplicity_range[of cards r] by (auto simp: set_groups_of deck_hand_def)

text \<open>The first two groups, read off the shape of the histogram.\<close>

lemma group_counts:
  assumes "map fst (groups_of cards) = ms" "0 < length ms" "length ms \<le> 5"
  shows "fst (rank_groups (rank_counts cards) ! 0) = ms ! 0"
    and "fst (rank_groups (rank_counts cards) ! 1) = (if 1 < length ms then ms ! 1 else 0)"
  using assms by (auto simp: rank_groups_eq nth_append)

lemma multiplicities:
  assumes "deck_hand cards"
  shows "0 < m \<Longrightarrow> (\<exists>r. multiplicity cards r = m) \<longleftrightarrow> m \<in> set (map fst (groups_of cards))"
    and "(\<exists>r s. r \<noteq> s \<and> multiplicity cards r = 2 \<and> multiplicity cards s = 2) \<longleftrightarrow>
         2 \<le> count_list (map fst (groups_of cards)) 2"
proof -
  show "(\<exists>r. multiplicity cards r = m) \<longleftrightarrow> m \<in> set (map fst (groups_of cards))" if "0 < m"
    using multiplicity_in_groups[OF assms that] by (force simp: image_iff)
  have gen: "2 \<le> count_list (map fst gs) 2 \<longleftrightarrow> (\<exists>r s. r \<noteq> s \<and> (2, r) \<in> set gs \<and> (2, s) \<in> set gs)"
    if "distinct (map snd gs)" for gs :: "(nat \<times> nat) list"
  proof -
    have "count_list (map fst gs) 2 = card {r. (2, r) \<in> set gs}"
      using that
    proof (induction gs)
      case (Cons g gs)
      have fin: "finite {r. (2, r) \<in> set gs}"
        by (rule finite_subset[of _ "snd ` set gs"]) (force simp: image_iff)+
      have "{r. (2, r) \<in> set (g # gs)} =
          (if fst g = 2 then insert (snd g) {r. (2, r) \<in> set gs} else {r. (2, r) \<in> set gs})"
        by (auto simp: prod_eq_iff)
      moreover have "(2, snd g) \<notin> set gs" using Cons.prems by (force simp: image_iff)
      ultimately show ?case using Cons fin by simp
    qed simp
    moreover have "finite {r. (2, r) \<in> set gs}"
      by (rule finite_subset[of _ "snd ` set gs"]) (force simp: image_iff)+
    ultimately show ?thesis
      using card_le_Suc0_iff_eq[of "{r. (2, r) \<in> set gs}"] by (auto simp: not_le[symmetric])
  qed
  show "(\<exists>r s. r \<noteq> s \<and> multiplicity cards r = 2 \<and> multiplicity cards s = 2) \<longleftrightarrow>
         2 \<le> count_list (map fst (groups_of cards)) 2"
    by (simp add: gen[OF distinct_groups] multiplicity_in_groups[OF assms])
qed

lemma category_five_eq:
  "category (evaluate_five cards) =
     (let straight = straight_high (sort_desc (map card_rank cards));
          c = (\<lambda>i. fst (rank_groups (rank_counts cards) ! i)) in
      if is_flush_five cards \<and> straight \<noteq> None then
        (if the straight = 14 then ROYAL_FLUSH else STRAIGHT_FLUSH)
      else if c 0 = 4 then FOUR_OF_A_KIND
      else if c 0 = 3 \<and> c 1 \<ge> 2 then FULL_HOUSE
      else if is_flush_five cards then FLUSH
      else if straight \<noteq> None then STRAIGHT
      else if c 0 = 3 then THREE_OF_A_KIND
      else if c 0 = 2 \<and> c 1 = 2 then TWO_PAIR
      else if c 0 = 2 then ONE_PAIR
      else HIGH_CARD)"
  unfolding evaluate_five_def Let_def
  by (simp only: if_distrib[of category] case_prod_beta category_new)

lemma category_five_spec:
  assumes "deck_hand cards"
  shows "category (evaluate_five cards) = category_spec cards"
proof -
  let ?s = "straight_high (sort_desc (map card_rank cards))"
  have flush: "is_flush_five cards = same_suit cards"
    using assms by (simp add: is_flush_five_iff deck_hand_def same_suit_def)
  have m: "(\<exists>r. multiplicity cards r = 4) \<longleftrightarrow> 4 \<in> set (map fst (groups_of cards))"
    "(\<exists>r. multiplicity cards r = 3) \<longleftrightarrow> 3 \<in> set (map fst (groups_of cards))"
    "(\<exists>r. multiplicity cards r = 2) \<longleftrightarrow> 2 \<in> set (map fst (groups_of cards))"
    by (simp_all only: multiplicities(1)[OF assms] zero_less_numeral)
  obtain ms where ms: "map fst (groups_of cards) = ms" by blast
  then have shape: "ms = [4, 1] \<or> ms = [3, 2] \<or> ms = [3, 1, 1] \<or> ms = [2, 2, 1] \<or>
      ms = [2, 1, 1, 1] \<or> ms = [1, 1, 1, 1, 1]" using groups_cases[OF assms] by simp
  then have "ms \<noteq> [] \<and> length ms \<le> 5" by (elim disjE) simp_all
  then have c: "fst (rank_groups (rank_counts cards) ! 0) = ms ! 0"
    "fst (rank_groups (rank_counts cards) ! 1) = (if 1 < length ms then ms ! 1 else 0)"
    using group_counts[OF ms] by simp_all
  define E where "E = (\<exists>h. straight_to cards h)"
  consider (none) "?s = None" "\<not> (\<exists>h. straight_to cards h)" "\<not> straight_to cards 14"
    | (royal) "?s = Some 14" "\<exists>h. straight_to cards h" "straight_to cards 14"
    | (other) h where "?s = Some h" "h \<noteq> 14" "\<exists>h. straight_to cards h" "\<not> straight_to cards 14"
    using straight_five[OF assms] by (cases ?s) auto
  then have "category (evaluate_five cards) =
      (if same_suit cards \<and> straight_to cards 14 then ROYAL_FLUSH
       else if same_suit cards \<and> (\<exists>h. straight_to cards h) then STRAIGHT_FLUSH
       else if ms ! 0 = 4 then FOUR_OF_A_KIND
       else if ms ! 0 = 3 \<and> (if 1 < length ms then ms ! 1 else 0) \<ge> 2 then FULL_HOUSE
       else if same_suit cards then FLUSH
       else if \<exists>h. straight_to cards h then STRAIGHT
       else if ms ! 0 = 3 then THREE_OF_A_KIND
       else if ms ! 0 = 2 \<and> (if 1 < length ms then ms ! 1 else 0) = 2 then TWO_PAIR
       else if ms ! 0 = 2 then ONE_PAIR
       else HIGH_CARD)"
    by cases ((cases "same_suit cards"; simp only: category_five_eq Let_def c flush simp_thms
        option.distinct option.sel if_True if_False)+)
  also have "\<dots> = category_spec cards"
    unfolding category_spec_def m multiplicities(2)[OF assms] ms E_def[symmetric]
    using shape by (elim disjE) simp_all
  finally show ?thesis .
qed

section \<open>Properties\<close>

text \<open>
  C21: For seven cards, or any hand of at least five, \<open>evaluate_best\<close> is the greatest rank among
  all five-card hands that can be chosen from it: the index loops miss no choice.
\<close>

theorem evaluate_best_is_maximum:
  assumes "5 \<le> length cards"
  shows "evaluate_best cards = Max (evaluate_five ` five_card_hands cards)"
  by (rule evaluate_best_eq[OF assms])

theorem evaluate_best_is_maximum_witness:
  "evaluate_best [12, 11, 10, 9, 8, 20, 33] = Max (evaluate_five ` five_card_hands [12, 11, 10, 9, 8, 20, 33])"
  by (rule evaluate_best_is_maximum) simp

text \<open>
  The rank of a hand does not depend on the order of its cards: two deals of the same cards
  in any order get the same rank, for short hands too.
\<close>

lemma evaluate_best_order_independent:
  assumes "mset xs = mset ys"
  shows "evaluate_best xs = evaluate_best ys"
  by (rule evaluate_best_mset[OF assms])

text \<open>
  C32: On five distinct cards of the deck, \<open>evaluate_five\<close> gives the category the rules of poker
  define: straights (the wheel included) and flushes by the sets of ranks and suits, the other
  categories by how often ranks repeat.
\<close>

theorem evaluate_five_category:
  assumes "deck_hand cards"
  shows "category (evaluate_five cards) = category_spec cards"
  by (rule category_five_spec[OF assms])

theorem evaluate_five_category_witness:
  "category (evaluate_five [12, 13, 27, 41, 3]) = category_spec [12, 13, 27, 41, 3]"
  by (rule evaluate_five_category) (simp add: deck_hand_def)

end
