(* ===== verification/Plan.thy ===== *)
theory Plan
  imports SidePot HandRank
begin

text \<open>
  \<^verbatim>\<open>poker-settlement-core/src/plan.rs\<close> and \<^verbatim>\<open>error.rs\<close>: the canonical settlement plan, its
  runouts and pots, and the validation every consumer of a plan runs.  The fixed-size arrays
  \<open>[u64; 9]\<close>, \<open>[Option<HandRank>; 9]\<close> and \<open>[RunoutPotPlan; 2]\<close> are lists; \<open>plan_shape\<close> states
  the lengths their types fix.  The Borsh reader and writer and Blake2b are third-party code:
  they are arguments of the definitions that use them.
\<close>

section \<open>Constants and errors\<close>

definition SETTLEMENT_PLAN_VERSION :: nat where "SETTLEMENT_PLAN_VERSION = 2"
definition MAX_RUNOUTS :: nat where "MAX_RUNOUTS = 2"
definition SETTLEMENT_SEATS :: nat where "SETTLEMENT_SEATS = MAX_PLAYERS"
definition SETTLEMENT_PLAN_DIGEST_DOMAIN :: string where
  "SETTLEMENT_PLAN_DIGEST_DOMAIN = ''zchain.texas_poker.settlement_plan.v2''"

text \<open>
  \<open>SettlementError::Invalid(message)\<close>: one constructor per message of the crate, with the values
  the message prints.
\<close>

datatype settlement_error =
    NoCanonicalStartStreet nat
  | UnsupportedPlanVersion nat | PlanExceedsBounds | GrossPotMismatch | NonCanonicalPotIndex
  | PotNetMismatch | PotNoEligibleSeats | UncontestedPotRaked | GrossPotSumOverflow
  | RakeSumOverflow | InactiveRunoutNonZero | ActiveRunoutNoWinners | RunoutWinnerNotEligible
  | UncontestedNonCanonical | RunoutAwardOverflow | RunoutAmountMismatch | RunoutTotalOverflow
  | SeatAwardOverflow | RunoutSplitMismatch | AggregateMismatch
  | InactiveRunoutPayload | PotPlanNoEligible
  | Board1Length nat | Board2Length nat | SharedPrefixDisagrees | InvalidRunoutCard
  | DuplicateInBoard1 | DuplicateAcrossRunouts | InvalidBoardsVariant nat
  | TableExceedsMaxPlayers | SnapshotLengths | ButtonOutside
  | SidePotFailed side_pot_error | SidePotCountExceeds | ContributionExceeds nat
  | ContestedSumOverflow | PotEmpty nat | PotRakeExceedsGross | AggregateAwardOverflow
  | PotIndexExceedsU8 | TotalAwardOverflow | MustExposeTwoCards nat | DuplicateHoleCard
  | BoardDuplicatesHole | SecondBoardDuplicatesHole | UnsupportedRakeMode nat
  | RakeOverEmptyPots | RakeAllocationOverflow | ProportionalRakeExceeds | PotRakeAllocationExceeds
  | RakeRemainderExceeds | NoCompleteHand nat | NoRankedWinner | WinnerMaskEmpty | WinnerCountExceeds
  | ReadFailed

section \<open>Schedules\<close>

datatype rit_start_street = Preflop | Flop | Turn

fun rit_shared_board_len :: "rit_start_street \<Rightarrow> nat" where
  "rit_shared_board_len Preflop = 0"
| "rit_shared_board_len Flop = 3"
| "rit_shared_board_len Turn = 4"

definition from_shared_board_len :: "nat \<Rightarrow> (settlement_error, rit_start_street) outcome" where
  "from_shared_board_len n =
     (if n = 0 then Inr Preflop else if n = 3 then Inr Flop else if n = 4 then Inr Turn
      else Inl (Fail (NoCanonicalStartStreet n)))"

datatype runout_schedule = Single | Twice rit_start_street

fun schedule_count :: "runout_schedule \<Rightarrow> nat" where
  "schedule_count Single = 1"
| "schedule_count (Twice start) = 2"

fun schedule_shared_board_len :: "runout_schedule \<Rightarrow> nat" where
  "schedule_shared_board_len Single = 0"
| "schedule_shared_board_len (Twice start) = rit_shared_board_len start"

section \<open>Runouts, pots and the plan\<close>

record runout_pot_plan =
  rp_amount :: nat
  rp_winner_mask :: mask16
  rp_ranks :: "hand_rank option list"
  rp_awards :: "nat list"

definition runout_inactive :: runout_pot_plan where
  "runout_inactive = \<lparr>rp_amount = 0, rp_winner_mask = 0,
     rp_ranks = replicate SETTLEMENT_SEATS None, rp_awards = replicate SETTLEMENT_SEATS 0\<rparr>"

definition runout_is_active :: "runout_pot_plan \<Rightarrow> bool" where
  "runout_is_active r \<longleftrightarrow> rp_winner_mask r \<noteq> 0"

record settlement_pot_plan =
  pp_pot_index :: nat
  pp_gross :: nat
  pp_rake :: nat
  pp_net :: nat
  pp_eligible :: mask16
  pp_runouts :: "runout_pot_plan list"

definition pot_is_contested :: "settlement_pot_plan \<Rightarrow> bool" where
  "pot_is_contested p \<longleftrightarrow> count_ones (pp_eligible p) \<ge> 2"

record settlement_plan =
  pl_version :: nat
  pl_schedule :: runout_schedule
  pl_gross_pot :: nat
  pl_rake :: nat
  pl_total_awards :: nat
  pl_winner_mask :: mask16
  pl_awards :: "nat list"
  pl_pots :: "settlement_pot_plan list"

section \<open>Reading a runout and a pot\<close>

text \<open>
  The two hand-written \<open>deserialize_reader\<close>s.  Each primitive reader takes the input and returns
  the value and the rest of the input, or nothing on a read error.
\<close>

definition read :: "('r \<Rightarrow> ('a \<times> 'r) option) \<Rightarrow> 'r \<Rightarrow> (settlement_error, 'a \<times> 'r) outcome" where
  "read rd r = ok_or ReadFailed (rd r)"

definition runout_deserialize ::
  "('r \<Rightarrow> (nat \<times> 'r) option) \<Rightarrow> ('r \<Rightarrow> (mask16 \<times> 'r) option) \<Rightarrow>
   ('r \<Rightarrow> (hand_rank option list \<times> 'r) option) \<Rightarrow> ('r \<Rightarrow> (nat list \<times> 'r) option) \<Rightarrow>
   'r \<Rightarrow> (settlement_error, runout_pot_plan \<times> 'r) outcome" where
  "runout_deserialize rd_u64 rd_u16 rd_ranks rd_awards r0 =
     rbind (read rd_u64 r0) (\<lambda>(amount, r1).
     rbind (read rd_u16 r1) (\<lambda>(winner_mask, r2).
     rbind (read rd_ranks r2) (\<lambda>(ranks, r3).
     rbind (read rd_awards r3) (\<lambda>(awards, r4).
     let derived_active = winner_mask \<noteq> 0 in
     if \<not> derived_active \<and>
        (amount \<noteq> 0 \<or> list_ex (\<lambda>k. k \<noteq> None) ranks \<or> list_ex (\<lambda>v. v \<noteq> 0) awards)
     then Inl (Fail InactiveRunoutPayload)
     else Inr (\<lparr>rp_amount = amount, rp_winner_mask = winner_mask, rp_ranks = ranks,
                rp_awards = awards\<rparr>, r4)))))"

definition pot_deserialize ::
  "('r \<Rightarrow> (nat \<times> 'r) option) \<Rightarrow> ('r \<Rightarrow> (nat \<times> 'r) option) \<Rightarrow> ('r \<Rightarrow> (mask16 \<times> 'r) option) \<Rightarrow>
   ('r \<Rightarrow> (settlement_error, runout_pot_plan list \<times> 'r) outcome) \<Rightarrow>
   'r \<Rightarrow> (settlement_error, settlement_pot_plan \<times> 'r) outcome" where
  "pot_deserialize rd_u8 rd_u64 rd_u16 rd_runouts r0 =
     rbind (read rd_u8 r0) (\<lambda>(pot_index, r1).
     rbind (read rd_u64 r1) (\<lambda>(gross_amount, r2).
     rbind (read rd_u64 r2) (\<lambda>(rake, r3).
     rbind (read rd_u64 r3) (\<lambda>(net_amount, r4).
     rbind (read rd_u16 r4) (\<lambda>(eligible_mask, r5).
     rbind (rd_runouts r5) (\<lambda>(runouts, r6).
     if eligible_mask = 0 then Inl (Fail PotPlanNoEligible)
     else Inr (\<lparr>pp_pot_index = pot_index, pp_gross = gross_amount, pp_rake = rake,
                pp_net = net_amount, pp_eligible = eligible_mask, pp_runouts = runouts\<rparr>, r6)))))))"

section \<open>The plan's operations\<close>

text \<open>\<open>rake_base\<close>: the contested gross, saturating when the sum overflows.\<close>

definition rake_base :: "settlement_plan \<Rightarrow> nat" where
  "rake_base plan =
     (case foldM (\<lambda>sum pot. case checked_add_u64 sum (pp_gross pot) of
                     None \<Rightarrow> Inl () | Some s \<Rightarrow> Inr s)
            0 (filter pot_is_contested (pl_pots plan)) of
        Inl _ \<Rightarrow> U64_MAX | Inr s \<Rightarrow> s)"

definition plan_digest ::
  "(settlement_plan \<Rightarrow> byte list) \<Rightarrow> (byte list \<Rightarrow> byte list) \<Rightarrow> settlement_plan \<Rightarrow> byte list" where
  "plan_digest borsh blake2b plan =
     blake2b (map of_char SETTLEMENT_PLAN_DIGEST_DOMAIN @ borsh plan)"

text \<open>The inner loop over the seats of one runout, shared with the derivation.\<close>

definition add_awards ::
  "settlement_error \<Rightarrow> nat list \<Rightarrow> nat list \<Rightarrow> (settlement_error, nat list) outcome" where
  "add_awards err awards runout_awards =
     foldM (\<lambda>aw (seat, amount).
         rbind (idx aw seat) (\<lambda>old.
         rbind (ok_or err (checked_add_u64 old amount)) (\<lambda>v. set_idx aw seat v)))
       awards (enumerate 0 runout_awards)"

definition sum_amounts :: "settlement_error \<Rightarrow> nat list \<Rightarrow> (settlement_error, nat) outcome" where
  "sum_amounts err xs = foldM (\<lambda>sum amount. ok_or err (checked_add_u64 sum amount)) 0 xs"

text \<open>One iteration of the loop over the runouts; its state is the total, the awards, the winners.\<close>

definition validate_runout ::
  "settlement_pot_plan \<Rightarrow> nat \<Rightarrow> nat \<times> nat list \<times> mask16 \<Rightarrow> nat \<times> runout_pot_plan \<Rightarrow>
     (settlement_error, nat \<times> nat list \<times> mask16) outcome" where
  "validate_runout pot active_runouts st ir =
     (case st of (runout_total, awards, winner_mask) \<Rightarrow> case ir of (runout_index, runout) \<Rightarrow>
      if runout_index \<ge> active_runouts then
        (if runout \<noteq> runout_inactive then Inl (Fail InactiveRunoutNonZero)
         else Inr (runout_total, awards, winner_mask))
      else if \<not> runout_is_active runout then Inl (Fail ActiveRunoutNoWinners)
      else if rp_winner_mask runout AND NOT (pp_eligible pot) \<noteq> 0 then
        Inl (Fail RunoutWinnerNotEligible)
      else if \<not> pot_is_contested pot \<and>
              (rp_winner_mask runout \<noteq> pp_eligible pot \<or> rp_amount runout \<noteq> pp_net pot \<or>
               list_ex (\<lambda>k. k \<noteq> None) (rp_ranks runout)) then
        Inl (Fail UncontestedNonCanonical)
      else
        rbind (sum_amounts RunoutAwardOverflow (rp_awards runout)) (\<lambda>runout_awards.
        if runout_awards \<noteq> rp_amount runout then Inl (Fail RunoutAmountMismatch)
        else
          rbind (ok_or RunoutTotalOverflow (checked_add_u64 runout_total (rp_amount runout)))
            (\<lambda>runout_total'.
          rbind (add_awards SeatAwardOverflow awards (rp_awards runout)) (\<lambda>awards'.
          Inr (runout_total', awards', winner_mask OR rp_winner_mask runout)))))"

definition validate_pot ::
  "runout_schedule \<Rightarrow> nat \<times> nat \<times> nat list \<times> mask16 \<Rightarrow> nat \<times> settlement_pot_plan \<Rightarrow>
     (settlement_error, nat \<times> nat \<times> nat list \<times> mask16) outcome" where
  "validate_pot schedule st ip =
     (case st of (gross, rake, awards, winner_mask) \<Rightarrow> case ip of (index, pot) \<Rightarrow>
      if pp_pot_index pot \<noteq> index then Inl (Fail NonCanonicalPotIndex)
      else if checked_sub_u64 (pp_gross pot) (pp_rake pot) \<noteq> Some (pp_net pot) then
        Inl (Fail PotNetMismatch)
      else if count_ones (pp_eligible pot) = 0 then Inl (Fail PotNoEligibleSeats)
      else if \<not> pot_is_contested pot \<and> pp_rake pot \<noteq> 0 then Inl (Fail UncontestedPotRaked)
      else
        rbind (ok_or GrossPotSumOverflow (checked_add_u64 gross (pp_gross pot))) (\<lambda>gross'.
        rbind (ok_or RakeSumOverflow (checked_add_u64 rake (pp_rake pot))) (\<lambda>rake'.
        let active_runouts = (if pot_is_contested pot then schedule_count schedule else 1) in
        rbind (foldM (validate_runout pot active_runouts) (0, awards, winner_mask)
                 (enumerate 0 (pp_runouts pot))) (\<lambda>(runout_total, awards', winner_mask').
        if runout_total \<noteq> pp_net pot then Inl (Fail RunoutSplitMismatch)
        else Inr (gross', rake', awards', winner_mask')))))"

definition validate :: "settlement_plan \<Rightarrow> nat \<Rightarrow> (settlement_error, unit) outcome" where
  "validate plan seat_count =
     (if pl_version plan \<noteq> SETTLEMENT_PLAN_VERSION then
        Inl (Fail (UnsupportedPlanVersion (pl_version plan)))
      else if seat_count > SETTLEMENT_SEATS \<or> length (pl_pots plan) > SETTLEMENT_SEATS then
        Inl (Fail PlanExceedsBounds)
      else if checked_sub_u64 (pl_gross_pot plan) (pl_rake plan) \<noteq> Some (pl_total_awards plan) then
        Inl (Fail GrossPotMismatch)
      else
        rbind (foldM (validate_pot (pl_schedule plan)) (0, 0, replicate SETTLEMENT_SEATS 0, 0)
                 (enumerate 0 (pl_pots plan))) (\<lambda>(gross, rake, awards, winner_mask).
        if gross \<noteq> pl_gross_pot plan \<or> rake \<noteq> pl_rake plan \<or> awards \<noteq> pl_awards plan \<or>
           winner_mask \<noteq> pl_winner_mask plan then Inl (Fail AggregateMismatch)
        else Inr ()))"

section \<open>The arithmetic loops\<close>

lemma sum_amounts_from:
  "t < u64_limit \<Longrightarrow>
   foldM (\<lambda>sum amount. ok_or err (checked_add_u64 sum amount)) t xs =
     (if t + sum_list xs < u64_limit then Inr (t + sum_list xs) else Inl (Fail err))"
proof (induction xs arbitrary: t)
  case (Cons x xs)
  show ?case
  proof (cases "t + x < u64_limit")
    case True
    then show ?thesis using Cons.IH[OF True] by (simp add: ok_or_def checked_add_u64_def add.assoc)
  qed (auto simp: ok_or_def checked_add_u64_def)
qed simp

lemma sum_amounts_eq:
  "sum_amounts err xs = (if sum_list xs < u64_limit then Inr (sum_list xs) else Inl (Fail err))"
  unfolding sum_amounts_def by (subst sum_amounts_from) simp_all

lemma add_awards_total:
  assumes "length ra = length aw" and "\<forall>i < length aw. aw ! i + ra ! i < u64_limit"
  shows "add_awards err aw ra = Inr (map2 (+) aw ra)"
proof -
  have "\<exists>aw'. add_awards err aw ra = Inr aw' \<and>
     (length aw' = length aw \<and>
      (\<forall>i < length aw. aw' ! i = (if i < length (enumerate 0 ra) then aw ! i + ra ! i else aw ! i)))"
    unfolding add_awards_def
  proof (rule foldM_prefix_total[where I = "\<lambda>ys aw'. length aw' = length aw \<and>
      (\<forall>i < length aw. aw' ! i = (if i < length ys then aw ! i + ra ! i else aw ! i))"], goal_cases)
    case (2 ys x zs aw')
    from enumerate_split[OF 2(1)] assms 2(2) show ?case
      by (auto simp: idx_def set_idx_def checked_add_u64_def ok_or_def nth_list_update less_Suc_eq)
  qed simp
  then show ?thesis using assms(1) by (auto simp: list_eq_iff_nth_eq)
qed

lemma add_awards_Inr:
  assumes "length ra = length aw" and "add_awards err aw ra = Inr aw'"
  shows "aw' = map2 (+) aw ra"
proof -
  have "length aw' = length aw \<and>
      (\<forall>i < length aw. aw' ! i = (if i < length (enumerate 0 ra) then aw ! i + ra ! i else aw ! i))"
    using assms(2) unfolding add_awards_def
  proof (rule foldM_prefix_invariant[where I = "\<lambda>ys aw'. length aw' = length aw \<and>
      (\<forall>i < length aw. aw' ! i = (if i < length ys then aw ! i + ra ! i else aw ! i))"], goal_cases)
    case (2 ys x zs s s')
    from enumerate_split[OF 2(1)] 2(2,3) show ?case
      by (auto simp: outcome_simps nth_list_update less_Suc_eq)
  qed simp
  then show ?thesis using assms(1) by (auto simp: list_eq_iff_nth_eq)
qed

lemma add_awards_no_panic: "length ra \<le> length aw \<Longrightarrow> add_awards err aw ra \<noteq> Inl Panic"
  unfolding add_awards_def
  by (rule foldM_no_panic[where P = "\<lambda>s. length s = length aw"])
    (auto simp: in_set_enumerate_eq idx_def set_idx_def outcome_simps)

section \<open>What a validated plan satisfies\<close>

definition runout_shape :: "runout_pot_plan \<Rightarrow> bool" where
  "runout_shape r \<longleftrightarrow> length (rp_ranks r) = SETTLEMENT_SEATS \<and> length (rp_awards r) = SETTLEMENT_SEATS"

definition pot_shape :: "settlement_pot_plan \<Rightarrow> bool" where
  "pot_shape p \<longleftrightarrow> length (pp_runouts p) = MAX_RUNOUTS \<and> (\<forall>r \<in> set (pp_runouts p). runout_shape r)"

definition plan_shape :: "settlement_plan \<Rightarrow> bool" where
  "plan_shape plan \<longleftrightarrow> length (pl_awards plan) = SETTLEMENT_SEATS \<and> (\<forall>p \<in> set (pl_pots plan). pot_shape p)"

text \<open>One accepted runout slot.\<close>

definition runout_ok :: "settlement_pot_plan \<Rightarrow> nat \<Rightarrow> nat \<Rightarrow> runout_pot_plan \<Rightarrow> bool" where
  "runout_ok pot active i r \<longleftrightarrow>
     (if active \<le> i then r = runout_inactive
      else runout_is_active r \<and> rp_winner_mask r AND NOT (pp_eligible pot) = 0 \<and>
           sum_list (rp_awards r) = rp_amount r)"

lemma awards_inactive [simp]:
  "rp_awards runout_inactive = replicate SETTLEMENT_SEATS 0" "rp_amount runout_inactive = 0"
  "rp_winner_mask runout_inactive = 0"
  by (simp_all add: runout_inactive_def)

lemma validate_runout_Inr:
  assumes "validate_runout pot active (t, aw, wm) (i, r) = Inr (t', aw', wm')"
    and "runout_shape r" "length aw = SETTLEMENT_SEATS"
  shows "runout_ok pot active i r \<and> t' = t + rp_amount r \<and> aw' = map2 (+) aw (rp_awards r) \<and>
         length aw' = SETTLEMENT_SEATS \<and> wm' = wm OR rp_winner_mask r"
proof (cases "active \<le> i")
  case True
  moreover have "map2 (+) aw (replicate SETTLEMENT_SEATS (0::nat)) = aw"
    using assms(3) by (auto simp: list_eq_iff_nth_eq)
  ultimately show ?thesis using assms
    by (auto simp: validate_runout_def runout_ok_def split: if_splits)
next
  case False
  then show ?thesis using assms add_awards_Inr[of "rp_awards r" aw SeatAwardOverflow aw']
    by (auto simp: validate_runout_def runout_ok_def runout_shape_def sum_amounts_eq outcome_simps
        split: if_splits)
qed

text \<open>The sum of the two masks of a list, and of the awards, over the runouts of a pot.\<close>

lemma validate_runouts_Inr:
  assumes "foldM (validate_runout pot active) (0, aw, wm) (enumerate 0 rs) = Inr (t', aw', wm')"
    and "\<forall>r \<in> set rs. runout_shape r" "length aw = SETTLEMENT_SEATS"
  shows "t' = sum_list (map rp_amount rs) \<and> sum_list aw' = sum_list aw + t' \<and>
         length aw' = SETTLEMENT_SEATS \<and> (\<forall>i < length rs. runout_ok pot active i (rs ! i))"
proof -
  define I where "I ys st \<longleftrightarrow> (case st of (t, a, m :: mask16) \<Rightarrow>
      t = sum_list (map rp_amount (map snd ys)) \<and> sum_list a = sum_list aw + t \<and>
      length a = SETTLEMENT_SEATS \<and> (\<forall>i < length ys. runout_ok pot active i (rs ! i)))"
    for ys :: "(nat \<times> runout_pot_plan) list" and st
  have "I (enumerate 0 rs) (t', aw', wm')"
    using assms(1)
  proof (rule foldM_prefix_invariant)
    show "I [] (0, aw, wm)" using assms(3) by (simp add: I_def)
  next
    fix ys x zs s s'
    assume split: "enumerate 0 rs = ys @ x # zs" and inv: "I ys s"
      and step: "validate_runout pot active s x = Inr s'"
    obtain t a m where s: "s = (t, a, m)" by (cases s)
    obtain t1 a1 m1 where s': "s' = (t1, a1, m1)" by (cases s')
    note e = enumerate_split[OF split]
    have shape: "runout_shape (rs ! length ys)" using e assms(2) by simp
    have "runout_ok pot active (length ys) (rs ! length ys) \<and> t1 = t + rp_amount (rs ! length ys) \<and>
         a1 = map2 (+) a (rp_awards (rs ! length ys)) \<and> length a1 = SETTLEMENT_SEATS"
      using validate_runout_Inr[of pot active t a m "length ys" "rs ! length ys" t1 a1 m1]
        step e inv shape by (auto simp: s s' I_def runout_shape_def)
    moreover have "sum_list (rp_awards (rs ! length ys)) = rp_amount (rs ! length ys)"
      using calculation by (auto simp: runout_ok_def sum_list_replicate split: if_splits)
    ultimately show "I (ys @ [x]) s'"
      using inv e shape
      by (auto simp: I_def s s' sum_list_map2_add less_Suc_eq runout_shape_def[of "rs ! length ys"])
  qed
  then show ?thesis by (simp add: I_def)
qed

definition pot_ok :: "runout_schedule \<Rightarrow> nat \<Rightarrow> settlement_pot_plan \<Rightarrow> bool" where
  "pot_ok schedule i pot \<longleftrightarrow>
     pp_pot_index pot = i \<and> pp_rake pot \<le> pp_gross pot \<and> pp_net pot = pp_gross pot - pp_rake pot \<and>
     pp_eligible pot \<noteq> 0 \<and> (\<not> pot_is_contested pot \<longrightarrow> pp_rake pot = 0) \<and>
     sum_list (map rp_amount (pp_runouts pot)) = pp_net pot \<and>
     (\<forall>j < length (pp_runouts pot).
        runout_ok pot (if pot_is_contested pot then schedule_count schedule else 1) j (pp_runouts pot ! j))"

lemma validate_pot_Inr:
  assumes "validate_pot schedule (g, k, aw, wm) (i, pot) = Inr (g', k', aw', wm')"
    and "pot_shape pot" "length aw = SETTLEMENT_SEATS"
  shows "pot_ok schedule i pot \<and> g' = g + pp_gross pot \<and> k' = k + pp_rake pot \<and>
         g' < u64_limit \<and> length aw' = SETTLEMENT_SEATS \<and> sum_list aw' = sum_list aw + pp_net pot"
proof -
  let ?active = "if pot_is_contested pot then schedule_count schedule else 1"
  from assms(1) obtain t' where
    run: "foldM (validate_runout pot ?active) (0, aw, wm) (enumerate 0 (pp_runouts pot)) = Inr (t', aw', wm')"
    and rest: "t' = pp_net pot" "pp_pot_index pot = i" "g' = g + pp_gross pot" "k' = k + pp_rake pot"
      "g' < u64_limit" "pp_rake pot \<le> pp_gross pot" "pp_net pot = pp_gross pot - pp_rake pot"
      "pp_eligible pot \<noteq> 0" "\<not> pot_is_contested pot \<longrightarrow> pp_rake pot = 0"
    by (auto simp: validate_pot_def Let_def outcome_simps split: if_splits)
  have "t' = sum_list (map rp_amount (pp_runouts pot)) \<and> sum_list aw' = sum_list aw + t' \<and>
      length aw' = SETTLEMENT_SEATS \<and> (\<forall>j < length (pp_runouts pot). runout_ok pot ?active j (pp_runouts pot ! j))"
    by (rule validate_runouts_Inr[OF run]) (use assms(2,3) in \<open>auto simp: pot_shape_def\<close>)
  with rest show ?thesis by (auto simp: pot_ok_def)
qed

lemma validate_pots_Inr:
  assumes "foldM (validate_pot schedule) (0, 0, replicate SETTLEMENT_SEATS 0, 0) (enumerate 0 pots) =
      Inr (g, k, aw, wm)"
    and "\<forall>p \<in> set pots. pot_shape p"
  shows "g = sum_list (map pp_gross pots) \<and> k = sum_list (map pp_rake pots) \<and> g < u64_limit \<and>
         sum_list aw = sum_list (map pp_net pots) \<and> (\<forall>i < length pots. pot_ok schedule i (pots ! i))"
proof -
  define I where "I ys st \<longleftrightarrow> (case st of (g, k, a, m :: mask16) \<Rightarrow>
      g = sum_list (map pp_gross (map snd ys)) \<and> k = sum_list (map pp_rake (map snd ys)) \<and>
      g < u64_limit \<and> length a = SETTLEMENT_SEATS \<and> sum_list a = sum_list (map pp_net (map snd ys)) \<and>
      (\<forall>i < length ys. pot_ok schedule i (pots ! i)))"
    for ys :: "(nat \<times> settlement_pot_plan) list" and st
  have "I (enumerate 0 pots) (g, k, aw, wm)"
    using assms(1)
  proof (rule foldM_prefix_invariant)
    show "I [] (0, 0, replicate SETTLEMENT_SEATS 0, 0)" by (simp add: I_def sum_list_replicate)
  next
    fix ys x zs s s'
    assume split: "enumerate 0 pots = ys @ x # zs" and inv: "I ys s"
      and step: "validate_pot schedule s x = Inr s'"
    obtain g k a m where s: "s = (g, k, a, m)" by (cases s)
    obtain g1 k1 a1 m1 where s': "s' = (g1, k1, a1, m1)" by (cases s')
    note e = enumerate_split[OF split]
    have "pot_shape (pots ! length ys)" using e assms(2) by simp
    with validate_pot_Inr[of schedule g k a m "length ys" "pots ! length ys" g1 k1 a1 m1] step e inv
    show "I (ys @ [x]) s'" by (auto simp: s s' I_def less_Suc_eq)
  qed
  then show ?thesis by (simp add: I_def)
qed

lemma validate_Inr:
  assumes "validate plan n = Inr ()" and "plan_shape plan"
  shows "pl_rake plan \<le> pl_gross_pot plan" "pl_total_awards plan = pl_gross_pot plan - pl_rake plan"
    "pl_gross_pot plan = sum_list (map pp_gross (pl_pots plan))"
    "pl_rake plan = sum_list (map pp_rake (pl_pots plan))"
    "sum_list (pl_awards plan) = sum_list (map pp_net (pl_pots plan))"
    "pl_gross_pot plan < u64_limit"
    "i < length (pl_pots plan) \<Longrightarrow> pot_ok (pl_schedule plan) i (pl_pots plan ! i)"
proof -
  from assms(1) obtain aw wm where run:
    "foldM (validate_pot (pl_schedule plan)) (0, 0, replicate SETTLEMENT_SEATS 0, 0)
        (enumerate 0 (pl_pots plan)) = Inr (pl_gross_pot plan, pl_rake plan, aw, wm)"
    and eq: "aw = pl_awards plan" "pl_rake plan \<le> pl_gross_pot plan"
      "pl_total_awards plan = pl_gross_pot plan - pl_rake plan"
    by (auto simp: validate_def outcome_simps split: if_splits)
  from validate_pots_Inr[OF run] assms(2) eq
  show "pl_rake plan \<le> pl_gross_pot plan" "pl_total_awards plan = pl_gross_pot plan - pl_rake plan"
    "pl_gross_pot plan = sum_list (map pp_gross (pl_pots plan))"
    "pl_rake plan = sum_list (map pp_rake (pl_pots plan))"
    "sum_list (pl_awards plan) = sum_list (map pp_net (pl_pots plan))"
    "pl_gross_pot plan < u64_limit"
    "i < length (pl_pots plan) \<Longrightarrow> pot_ok (pl_schedule plan) i (pl_pots plan ! i)"
    by (auto simp: plan_shape_def)
qed

lemma pots_net_sum:
  "\<forall>p \<in> set pots. pp_rake p \<le> pp_gross p \<and> pp_net p = pp_gross p - pp_rake p \<Longrightarrow>
   sum_list (map pp_net pots) + sum_list (map pp_rake pots) = sum_list (map pp_gross pots)"
  by (induction pots) auto

lemma validate_awards_total:
  assumes "validate plan n = Inr ()" "plan_shape plan"
  shows "sum_list (pl_awards plan) = pl_total_awards plan"
proof -
  have "\<forall>p \<in> set (pl_pots plan). pp_rake p \<le> pp_gross p \<and> pp_net p = pp_gross p - pp_rake p"
    using validate_Inr(7)[OF assms] by (auto simp: in_set_conv_nth pot_ok_def)
  from pots_net_sum[OF this] show ?thesis
    using validate_Inr(2-5)[OF assms] by linarith
qed

section \<open>The rake base\<close>

lemma rake_base_from:
  "foldM (\<lambda>sum pot. case checked_add_u64 sum (pp_gross pot) of None \<Rightarrow> Inl () | Some s \<Rightarrow> Inr s) t pots =
     (if t + sum_list (map pp_gross pots) < u64_limit then Inr (t + sum_list (map pp_gross pots)) else Inl ())"
  if "t < u64_limit" for t
  using that
proof (induction pots arbitrary: t)
  case (Cons p pots)
  show ?case
  proof (cases "t + pp_gross p < u64_limit")
    case True
    then show ?thesis using Cons.IH[OF True] by (simp add: checked_add_u64_def add.assoc)
  qed (auto simp: checked_add_u64_def)
qed simp

lemma rake_base_eq:
  "rake_base plan = min (sum_list (map pp_gross (filter pot_is_contested (pl_pots plan)))) U64_MAX"
proof -
  have "a < u64_limit \<Longrightarrow> min a U64_MAX = a" for a by (simp add: min_def)
  moreover have "\<not> a < u64_limit \<Longrightarrow> min a U64_MAX = U64_MAX" for a by (simp add: U64_MAX_def)
  ultimately show ?thesis by (simp add: rake_base_def rake_base_from)
qed

lemma sum_list_filter_le: "sum_list (map f (filter P xs)) \<le> sum_list (map (f :: 'a \<Rightarrow> nat) xs)"
  by (induction xs) auto

section \<open>No panic\<close>

lemma validate_runout_no_panic:
  assumes "length aw = SETTLEMENT_SEATS" "runout_shape r"
  shows "validate_runout pot active (t, aw, wm) (i, r) \<noteq> Inl Panic"
  using assms add_awards_no_panic[of "rp_awards r" aw SeatAwardOverflow]
  by (auto simp: validate_runout_def sum_amounts_eq runout_shape_def outcome_simps)

lemma validate_pot_no_panic:
  assumes "length aw = SETTLEMENT_SEATS" "pot_shape pot"
  shows "validate_pot schedule (g, k, aw, wm) (i, pot) \<noteq> Inl Panic"
proof -
  have "foldM (validate_runout pot active) (0, aw, wm) (enumerate 0 (pp_runouts pot)) \<noteq> Inl Panic" for active
  proof (rule foldM_no_panic[where P = "\<lambda>(t, a, m). length a = SETTLEMENT_SEATS"])
    fix s :: "nat \<times> nat list \<times> mask16" and x assume "case s of (t, a, m) \<Rightarrow> length a = SETTLEMENT_SEATS"
      and x: "x \<in> set (enumerate 0 (pp_runouts pot))"
    moreover have "runout_shape (snd x)"
      using enumerate_snd[OF x] assms(2) by (simp add: pot_shape_def)
    ultimately show "validate_runout pot active s x \<noteq> Inl Panic"
      "\<And>s'. validate_runout pot active s x = Inr s' \<Longrightarrow> case s' of (t, a, m) \<Rightarrow> length a = SETTLEMENT_SEATS"
      using validate_runout_no_panic validate_runout_Inr by (cases s; cases x; fastforce)+
  qed (use assms(1) in simp)
  then show ?thesis by (auto simp: validate_pot_def Let_def outcome_simps)
qed

lemma validate_no_panic:
  assumes "plan_shape plan"
  shows "validate plan n \<noteq> Inl Panic"
proof -
  have "foldM (validate_pot (pl_schedule plan)) (0, 0, replicate SETTLEMENT_SEATS 0, 0)
      (enumerate 0 (pl_pots plan)) \<noteq> Inl Panic"
  proof (rule foldM_no_panic[where P = "\<lambda>(g, k, a, m). length a = SETTLEMENT_SEATS"])
    fix s :: "nat \<times> nat \<times> nat list \<times> mask16" and x assume "case s of (g, k, a, m) \<Rightarrow> length a = SETTLEMENT_SEATS"
      and x: "x \<in> set (enumerate 0 (pl_pots plan))"
    moreover have "pot_shape (snd x)"
      using enumerate_snd[OF x] assms by (simp add: plan_shape_def)
    ultimately show "validate_pot (pl_schedule plan) s x \<noteq> Inl Panic"
      "\<And>s'. validate_pot (pl_schedule plan) s x = Inr s' \<Longrightarrow>
         case s' of (g, k, a, m) \<Rightarrow> length a = SETTLEMENT_SEATS"
      using validate_pot_no_panic validate_pot_Inr by (cases s; cases x; fastforce)+
  qed simp
  then show ?thesis by (auto simp: validate_def outcome_simps)
qed

section \<open>Properties\<close>

text \<open>
  A plan that passes \<open>validate\<close> conserves chips: the gross pot is the rake plus the awards,
  the awards of the seats add up to the total, and the pots add up to the gross and to the rake.
\<close>

lemma validated_plan_conserves:
  assumes "validate plan n = Inr ()" and "plan_shape plan"
  shows "pl_gross_pot plan = pl_rake plan + sum_list (pl_awards plan) \<and>
         sum_list (pl_awards plan) = pl_total_awards plan \<and>
         pl_gross_pot plan = sum_list (map pp_gross (pl_pots plan)) \<and>
         pl_rake plan = sum_list (map pp_rake (pl_pots plan))"
  using validate_Inr(1-4)[OF assms] validate_awards_total[OF assms] by simp

definition sample_runout :: runout_pot_plan where
  "sample_runout = runout_inactive\<lparr>rp_amount := 950, rp_winner_mask := 3,
     rp_awards := [475, 475, 0, 0, 0, 0, 0, 0, 0]\<rparr>"

definition sample_plan :: settlement_plan where
  "sample_plan = \<lparr>pl_version = 2, pl_schedule = Single, pl_gross_pot = 1000, pl_rake = 50,
     pl_total_awards = 950, pl_winner_mask = 3, pl_awards = [475, 475, 0, 0, 0, 0, 0, 0, 0],
     pl_pots = [\<lparr>pp_pot_index = 0, pp_gross = 1000, pp_rake = 50, pp_net = 950, pp_eligible = 3,
                 pp_runouts = [sample_runout, runout_inactive]\<rparr>]\<rparr>"

lemma sample_plan_ok: "validate sample_plan 2 = Inr ()" "plan_shape sample_plan"
  by code_simp+

text \<open>
  In a validated plan the rake base is the exact contested gross (it does not saturate) and
  bounds the rake: rake is only ever taken from layers at least two seats contest.
\<close>

lemma validated_rake_base:
  assumes "validate plan n = Inr ()" and "plan_shape plan"
  shows "rake_base plan = sum_list (map pp_gross (filter pot_is_contested (pl_pots plan))) \<and>
         pl_rake plan = sum_list (map pp_rake (filter pot_is_contested (pl_pots plan))) \<and>
         pl_rake plan \<le> rake_base plan \<and> rake_base plan \<le> pl_gross_pot plan"
proof -
  have ok: "\<forall>p \<in> set (pl_pots plan). pp_rake p \<le> pp_gross p \<and> (\<not> pot_is_contested p \<longrightarrow> pp_rake p = 0)"
    using validate_Inr(7)[OF assms] by (auto simp: in_set_conv_nth pot_ok_def)
  have le: "sum_list (map pp_gross (filter pot_is_contested (pl_pots plan))) \<le> pl_gross_pot plan"
    using sum_list_filter_le[of pp_gross] validate_Inr(3)[OF assms] by simp
  then have "sum_list (map pp_gross (filter pot_is_contested (pl_pots plan))) < u64_limit"
    using validate_Inr(6)[OF assms] by linarith
  then have base: "rake_base plan = sum_list (map pp_gross (filter pot_is_contested (pl_pots plan)))"
    by (simp add: rake_base_eq)
  have "sum_list (map pp_rake pots) = sum_list (map pp_rake (filter pot_is_contested pots)) \<and>
        sum_list (map pp_rake (filter pot_is_contested pots)) \<le>
        sum_list (map pp_gross (filter pot_is_contested pots))"
    if "\<forall>p \<in> set pots. pp_rake p \<le> pp_gross p \<and> (\<not> pot_is_contested p \<longrightarrow> pp_rake p = 0)" for pots
    using that by (induction pots) auto
  from this[OF ok] base le show ?thesis using validate_Inr(4)[OF assms] by simp
qed

text \<open>\<open>validate\<close> never panics, whatever values a plan of the right shape carries.\<close>

lemma validate_never_panics:
  assumes "plan_shape plan"
  shows "validate plan n \<noteq> Inl Panic"
  by (rule validate_no_panic[OF assms])

text \<open>
  The shared prefix lengths and the start streets are in bijection: a length is accepted for
  a street exactly when it is the length of that street.
\<close>

lemma start_street_roundtrip:
  "from_shared_board_len n = Inr street \<longleftrightarrow> n = rit_shared_board_len street"
  by (cases street) (auto simp: from_shared_board_len_def)

text \<open>
  Decoding a runout is canonical: the only inactive runout the reader lets through is the
  all-zero one, whatever the primitive readers return.
\<close>

lemma runout_deserialize_canonical:
  assumes "runout_deserialize rd_u64 rd_u16 rd_ranks rd_awards r = Inr (runout, rest)"
    and "runout_shape runout"
  shows "runout_is_active runout \<or> runout = runout_inactive"
proof -
  have none: "xs = replicate SETTLEMENT_SEATS None"
    if "length xs = SETTLEMENT_SEATS" "\<not> list_ex (\<lambda>k. k \<noteq> None) xs" for xs :: "hand_rank option list"
    using that by (auto simp: list_ex_iff intro!: replicate_eqI)
  have zero: "ys = replicate SETTLEMENT_SEATS 0"
    if "length ys = SETTLEMENT_SEATS" "\<not> list_ex (\<lambda>v. v \<noteq> 0) ys" for ys :: "nat list"
    using that by (auto simp: list_ex_iff intro!: replicate_eqI)
  show ?thesis
    using assms none zero
    by (auto simp: runout_deserialize_def outcome_simps Let_def runout_is_active_def runout_shape_def
        runout_inactive_def split: if_splits prod.splits)
qed

end
