(* ===== verification/Payout.thy ===== *)
theory Payout
  imports Plan
begin

text \<open>
  \<^verbatim>\<open>poker-settlement-core/src/payout.rs\<close>: the rake primitive and the Merkle commitments to the
  payouts and to the pot structure.  The Borsh encoders and Blake2b-256 are arguments.
\<close>

section \<open>Rake\<close>

text \<open>
  The product is a \<open>u128\<close> and cannot leave it (\<open>u64_square\<close>); the quotient is clamped to
  \<open>u64::MAX\<close>.
\<close>

definition rake_for :: "nat \<Rightarrow> nat \<Rightarrow> nat \<Rightarrow> nat" where
  "rake_for gross rate_num rate_den =
     (if rate_den = 0 then 0
      else let raw = gross * rate_num div rate_den in if raw < u64_limit then raw else U64_MAX)"

lemma rake_for_width: "gross < u64_limit \<Longrightarrow> rate_num < u64_limit \<Longrightarrow> gross * rate_num < u128_limit"
  by (rule u64_square)

lemma rake_for_le_gross:
  assumes "rate_num \<le> rate_den"
  shows "rake_for gross rate_num rate_den \<le> gross"
proof (cases "rate_den = 0")
  case False
  have "gross * rate_num div rate_den \<le> gross * rate_den div rate_den"
    using assms by (intro div_le_mono mult_le_mono2)
  then have "gross * rate_num div rate_den \<le> gross" using False by simp
  then show ?thesis
    by (auto simp: rake_for_def Let_def U64_MAX_def intro: le_trans[rotated])
qed (simp add: rake_for_def)

section \<open>Payout leaves and hashing\<close>

definition PAYOUT_ROOT_DOMAIN :: string where
  "PAYOUT_ROOT_DOMAIN = ''zchain.settlement.payout_root.v1''"
definition SIDE_POT_ROOT_DOMAIN :: string where
  "SIDE_POT_ROOT_DOMAIN = ''zchain.settlement.side_pot_root.v1''"
definition LEAF_PREFIX :: byte where "LEAF_PREFIX = 0"
definition INTERNAL_PREFIX :: byte where "INTERNAL_PREFIX = 1"

record payout_leaf =
  lf_asset_class :: nat
  lf_amount :: nat
  lf_owner :: "byte list"
  lf_table_id :: nat
  lf_pot_index :: nat
  lf_runout_index :: nat

definition domain_bytes :: "string \<Rightarrow> byte list" where
  "domain_bytes s = map of_char s"

definition domained_hash :: "(byte list \<Rightarrow> byte list) \<Rightarrow> string \<Rightarrow> byte list list \<Rightarrow> byte list" where
  "domained_hash blake2b domain parts = blake2b (domain_bytes domain @ concat parts)"

definition leaf_hash :: "(byte list \<Rightarrow> byte list) \<Rightarrow> byte list \<Rightarrow> byte list" where
  "leaf_hash blake2b leaf = domained_hash blake2b PAYOUT_ROOT_DOMAIN [[LEAF_PREFIX], leaf]"

definition internal_hash :: "(byte list \<Rightarrow> byte list) \<Rightarrow> byte list \<Rightarrow> byte list \<Rightarrow> byte list" where
  "internal_hash blake2b l r = domained_hash blake2b PAYOUT_ROOT_DOMAIN [[INTERNAL_PREFIX], l, r]"

definition empty_leaf_hash :: "(byte list \<Rightarrow> byte list) \<Rightarrow> byte list" where
  "empty_leaf_hash blake2b = leaf_hash blake2b []"

text \<open>\<open>usize::next_power_of_two\<close>.\<close>

fun next_power_of_two :: "nat \<Rightarrow> nat" where
  "next_power_of_two n = (if n \<le> 1 then 1 else 2 * next_power_of_two ((n + 1) div 2))"

declare next_power_of_two.simps [simp del]

text \<open>One pass over \<open>level.chunks_exact(2)\<close>, and the loop that halves \<open>width\<close>.\<close>

fun pair_up :: "(byte list \<Rightarrow> byte list) \<Rightarrow> byte list list \<Rightarrow> byte list list" where
  "pair_up blake2b (l # r # rest) = internal_hash blake2b l r # pair_up blake2b rest"
| "pair_up blake2b _ = []"

fun fold_levels :: "(byte list \<Rightarrow> byte list) \<Rightarrow> nat \<Rightarrow> byte list list \<Rightarrow> byte list list" where
  "fold_levels blake2b width level =
     (if width > 1 then fold_levels blake2b (width div 2) (pair_up blake2b level) else level)"

declare fold_levels.simps [simp del]

definition payout_root ::
  "(payout_leaf \<Rightarrow> byte list) \<Rightarrow> (byte list \<Rightarrow> byte list) \<Rightarrow> payout_leaf list \<Rightarrow> byte list" where
  "payout_root borsh blake2b leaves =
     (let encoded = sort (map borsh leaves) in
      if encoded = [] then empty_leaf_hash blake2b
      else
        let level = map (leaf_hash blake2b) encoded;
            width = next_power_of_two (length level);
            level = level @ replicate (width - length level) (empty_leaf_hash blake2b)
        in hd (fold_levels blake2b width level))"

definition side_pot_root ::
  "(settlement_pot_plan list \<Rightarrow> byte list) \<Rightarrow> (byte list \<Rightarrow> byte list) \<Rightarrow> settlement_plan \<Rightarrow> byte list" where
  "side_pot_root borsh blake2b plan =
     domained_hash blake2b SIDE_POT_ROOT_DOMAIN [borsh (pl_pots plan)]"

section \<open>Levels\<close>

lemma next_power_of_two_pow: "\<exists>k. next_power_of_two n = 2 ^ k \<and> n \<le> 2 ^ k"
proof (induction n rule: next_power_of_two.induct)
  case (1 n)
  show ?case
  proof (cases "n \<le> 1")
    case True
    then show ?thesis by (subst next_power_of_two.simps) (auto intro: exI[of _ 0])
  next
    case False
    with 1 obtain k where k: "next_power_of_two ((n + 1) div 2) = 2 ^ k" "(n + 1) div 2 \<le> 2 ^ k" by auto
    have "n \<le> 2 ^ Suc k" using k(2) by simp
    then show ?thesis using k(1) False by (subst next_power_of_two.simps) (auto intro: exI[of _ "Suc k"])
  qed
qed

lemma next_power_of_two_0: "next_power_of_two 0 = 1"
  by (subst next_power_of_two.simps) simp

lemma length_pair_up: "length (pair_up H xs) = length xs div 2"
  by (induction H xs rule: pair_up.induct) simp_all

lemma fold_levels_pow: "fold_levels H (2 ^ k) xs = (pair_up H ^^ k) xs"
proof (induction k arbitrary: xs)
  case 0
  show ?case by (subst fold_levels.simps) simp
next
  case (Suc k)
  have "1 < (2 :: nat) ^ Suc k" by (rule one_less_power) simp_all
  then have "fold_levels H (2 ^ Suc k) xs = fold_levels H (2 ^ k) (pair_up H xs)"
    by (subst fold_levels.simps) simp
  then show ?case using Suc by (simp add: funpow_swap1)
qed

lemma length_levels: "length xs = 2 ^ (k + d) \<Longrightarrow> length ((pair_up H ^^ k) xs) = 2 ^ d"
  by (induction k arbitrary: xs) (simp_all add: length_pair_up funpow_swap1)

text \<open>The strings hashed while building the tree over the padded list of leaf encodings.\<close>

definition leaf_input :: "byte list \<Rightarrow> byte list" where
  "leaf_input leaf = domain_bytes PAYOUT_ROOT_DOMAIN @ LEAF_PREFIX # leaf"

definition internal_input :: "byte list \<Rightarrow> byte list \<Rightarrow> byte list" where
  "internal_input l r = domain_bytes PAYOUT_ROOT_DOMAIN @ INTERNAL_PREFIX # l @ r"

fun pair_inputs :: "byte list list \<Rightarrow> byte list list" where
  "pair_inputs (l # r # rest) = internal_input l r # pair_inputs rest"
| "pair_inputs _ = []"

lemma leaf_hash_input: "leaf_hash H x = H (leaf_input x)"
  by (simp add: leaf_hash_def domained_hash_def leaf_input_def)

lemma pair_inputs_length: "length (pair_inputs xs) = length xs div 2"
  by (induction xs rule: pair_inputs.induct) simp_all

lemma pair_up_inputs: "pair_up H xs = map H (pair_inputs xs)"
  by (induction xs rule: pair_inputs.induct)
    (simp_all add: internal_hash_def domained_hash_def internal_input_def)

lemma leaf_not_internal: "leaf_input x \<noteq> internal_input l r"
  by (simp add: leaf_input_def internal_input_def LEAF_PREFIX_def INTERNAL_PREFIX_def)

text \<open>Chunks of a fixed length can be read back from the inputs.\<close>

lemma pair_inputs_inj:
  assumes "pair_inputs xs = pair_inputs ys" "even (length xs)" "even (length ys)"
    and "\<forall>x \<in> set xs \<union> set ys. length x = n"
  shows "xs = ys"
  using assms
proof (induction xs arbitrary: ys rule: pair_inputs.induct)
  case (1 l r rest)
  then obtain l' r' rest' where ys: "ys = l' # r' # rest'" by (cases ys rule: pair_inputs.cases) auto
  with 1 show ?case by (auto simp: internal_input_def)
next
  case "2_1"
  then show ?case by (cases ys rule: pair_inputs.cases) auto
qed simp

text \<open>All strings hashed from a list of leaves: the leaves, the padding and every inner pair.\<close>

definition padded :: "(payout_leaf \<Rightarrow> byte list) \<Rightarrow> payout_leaf list \<Rightarrow> byte list list" where
  "padded borsh leaves = (let e = sort (map borsh leaves) in
     e @ replicate (next_power_of_two (length e) - length e) [])"

definition root_inputs ::
  "(payout_leaf \<Rightarrow> byte list) \<Rightarrow> (byte list \<Rightarrow> byte list) \<Rightarrow> payout_leaf list \<Rightarrow> byte list set" where
  "root_inputs borsh H leaves =
     leaf_input ` set (padded borsh leaves) \<union>
     (\<Union>i < length (padded borsh leaves).
        set (pair_inputs ((pair_up H ^^ i) (map (H \<circ> leaf_input) (padded borsh leaves)))))"

lemma payout_root_padded:
  "\<exists>k. length (padded borsh leaves) = 2 ^ k \<and>
       payout_root borsh H leaves = hd ((pair_up H ^^ k) (map (H \<circ> leaf_input) (padded borsh leaves)))"
proof (cases "leaves = []")
  case True
  then have "sort (map borsh leaves) = []" by simp
  then have "padded borsh leaves = [[]]"
    unfolding padded_def by (simp add: next_power_of_two_0)
  with True show ?thesis
    by (intro exI[of _ 0]) (simp add: payout_root_def empty_leaf_hash_def leaf_hash_input)
next
  case False
  let ?e = "sort (map borsh leaves)"
  obtain k where k: "next_power_of_two (length ?e) = 2 ^ k" "length ?e \<le> 2 ^ k"
    using next_power_of_two_pow by blast
  have ne: "?e \<noteq> []" using False by (metis length_0_conv length_map length_sort)
  have "map (leaf_hash H) ?e @ replicate (2 ^ k - length ?e) (empty_leaf_hash H) =
        map (H \<circ> leaf_input) (padded borsh leaves)"
    by (simp add: padded_def k(1)[simplified] Let_def empty_leaf_hash_def leaf_hash_input)
  moreover have "payout_root borsh H leaves = hd ((pair_up H ^^ k)
      (map (leaf_hash H) ?e @ replicate (2 ^ k - length ?e) (empty_leaf_hash H)))"
    using k ne by (simp add: payout_root_def Let_def fold_levels_pow)
  moreover have "length (padded borsh leaves) = 2 ^ k" using k by (simp add: padded_def)
  ultimately show ?thesis by (intro exI[of _ k]) (simp only: simp_thms)
qed

section \<open>Binding\<close>

lemma in_pair_inputs: "x \<in> set (pair_inputs xs) \<Longrightarrow> \<exists>l r. x = internal_input l r"
  by (induction xs rule: pair_inputs.induct) auto

text \<open>A level of one of the trees, as the descent from the root meets it.\<close>

definition tree_level :: "(byte list \<Rightarrow> byte list) \<Rightarrow> byte list list \<Rightarrow> nat \<Rightarrow> byte list list" where
  "tree_level H P i = (pair_up H ^^ i) (map (H \<circ> leaf_input) P)"

lemma tree_level_Suc: "tree_level H P (Suc i) = map H (pair_inputs (tree_level H P i))"
  by (simp add: tree_level_def pair_up_inputs)

lemma tree_level_length: "length P = 2 ^ (i + d) \<Longrightarrow> length (tree_level H P i) = 2 ^ d"
  unfolding tree_level_def by (rule length_levels) simp

lemma tree_level_in_range: "x \<in> set (tree_level H P i) \<Longrightarrow>
   \<exists>y. x = H y \<and> (i = 0 \<longrightarrow> y \<in> leaf_input ` set P) \<and>
       (\<forall>j. i = Suc j \<longrightarrow> y \<in> set (pair_inputs (tree_level H P j)))"
  by (cases i) (auto simp: tree_level_Suc tree_level_def[of _ _ 0])

definition tree_inputs :: "(byte list \<Rightarrow> byte list) \<Rightarrow> byte list list \<Rightarrow> byte list set" where
  "tree_inputs H P = leaf_input ` set P \<union> (\<Union>i < length P. set (pair_inputs (tree_level H P i)))"

lemma tree_level_width:
  assumes "\<forall>x \<in> tree_inputs H P. length (H x) = 32" "i \<le> length P"
  shows "\<forall>x \<in> set (tree_level H P i). length x = 32"
proof
  fix x assume "x \<in> set (tree_level H P i)"
  from tree_level_in_range[OF this] obtain y where "x = H y"
    and y: "i = 0 \<longrightarrow> y \<in> leaf_input ` set P" "\<forall>j. i = Suc j \<longrightarrow> y \<in> set (pair_inputs (tree_level H P j))"
    by blast
  moreover have "y \<in> tree_inputs H P"
    using y assms(2) by (cases i) (auto simp: tree_inputs_def)
  ultimately show "length x = 32" using assms(1) by simp
qed

lemma less_pow2: "i < k \<Longrightarrow> i < (2 :: nat) ^ k"
  by (metis less_exp less_trans)

lemma pair_inputs_in_tree: "i < length P \<Longrightarrow> set (pair_inputs (tree_level H P i)) \<subseteq> tree_inputs H P"
  unfolding tree_inputs_def by blast

lemma descend:
  assumes inj: "inj_on H (tree_inputs H P \<union> tree_inputs H Q)"
    and w: "\<forall>x \<in> tree_inputs H P \<union> tree_inputs H Q. length (H x) = 32"
    and len: "length P = 2 ^ k" "length Q = 2 ^ m" and root: "tree_level H P k = tree_level H Q m"
  shows "i \<le> k \<Longrightarrow> i \<le> m \<Longrightarrow> tree_level H P (k - i) = tree_level H Q (m - i)"
proof (induction i)
  case 0
  show ?case by (simp add: root)
next
  case (Suc i)
  let ?A = "tree_level H P (k - Suc i)" and ?B = "tree_level H Q (m - Suc i)"
  have low: "k - Suc i < length P" "m - Suc i < length Q"
    using less_pow2[of "k - Suc i" k] less_pow2[of "m - Suc i" m] Suc.prems len by simp_all
  have "tree_level H P (Suc (k - Suc i)) = tree_level H Q (Suc (m - Suc i))"
    using Suc.IH Suc.prems by (simp only: Suc_diff_Suc Suc_le_eq Suc_leD simp_thms less_imp_le)
  then have same: "map H (pair_inputs ?A) = map H (pair_inputs ?B)" by (simp add: tree_level_Suc)
  have "set (pair_inputs ?A) \<subseteq> tree_inputs H P" "set (pair_inputs ?B) \<subseteq> tree_inputs H Q"
    using pair_inputs_in_tree[of "k - Suc i" P H] pair_inputs_in_tree[of "m - Suc i" Q H] low by simp_all
  then have "set (pair_inputs ?A) \<union> set (pair_inputs ?B) \<subseteq> tree_inputs H P \<union> tree_inputs H Q" by blast
  then have "inj_on H (set (pair_inputs ?A) \<union> set (pair_inputs ?B))" by (rule inj_on_subset[OF inj])
  then have "pair_inputs ?A = pair_inputs ?B" by (rule map_inj_on[OF same])
  moreover have "length ?A = 2 ^ Suc i" "length ?B = 2 ^ Suc i"
    using tree_level_length[of P "k - Suc i" "Suc i" H] tree_level_length[of Q "m - Suc i" "Suc i" H]
      Suc.prems len by simp_all
  moreover have "\<forall>x \<in> set ?A. length x = 32" "\<forall>x \<in> set ?B. length x = 32"
    by (rule tree_level_width; use w low in simp)+
  then have "\<forall>x \<in> set ?A \<union> set ?B. length x = 32" by blast
  ultimately show ?case by (intro pair_inputs_inj[of ?A ?B 32]) simp_all
qed

text \<open>Trees of different depth would make a leaf hash an inner hash.\<close>

lemma same_root_same_leaves:
  assumes inj: "inj_on H (tree_inputs H P \<union> tree_inputs H Q)"
    and w: "\<forall>x \<in> tree_inputs H P \<union> tree_inputs H Q. length (H x) = 32"
    and len: "length P = 2 ^ k" "length Q = 2 ^ m" and root: "tree_level H P k = tree_level H Q m"
    and "k \<le> m"
  shows "P = Q"
proof -
  have eq: "map H (map leaf_input P) = tree_level H Q (m - k)"
    using descend[OF inj w len root, of k] \<open>k \<le> m\<close> by (simp add: tree_level_def[of _ _ 0])
  show ?thesis
  proof (cases "k = m")
    case True
    then have "map H (map leaf_input P) = map H (map leaf_input Q)"
      using eq by (simp add: tree_level_def)
    then have "map leaf_input P = map leaf_input Q"
      by (rule map_inj_on) (rule inj_on_subset[OF inj], auto simp: tree_inputs_def)
    moreover have "inj leaf_input" by (auto simp: inj_def leaf_input_def)
    ultimately show ?thesis by (simp add: inj_map_eq_map)
  next
    case False
    then obtain d where d: "m - k = Suc d" using \<open>k \<le> m\<close> by (cases "m - k") auto
    obtain p P' where P: "P = p # P'" using len(1) by (cases P) auto
    have "map H (leaf_input p # map leaf_input P') = map H (pair_inputs (tree_level H Q d))"
      using eq by (simp add: d tree_level_Suc P)
    then obtain x where x: "x \<in> set (pair_inputs (tree_level H Q d))" "H (leaf_input p) = H x"
      by (cases "pair_inputs (tree_level H Q d)") auto
    have "d < length Q" using d less_pow2[of d m] len(2) by simp
    then have "x \<in> tree_inputs H Q" using x(1) by (auto simp: tree_inputs_def)
    moreover have "leaf_input p \<in> tree_inputs H P" by (simp add: tree_inputs_def P)
    ultimately have "leaf_input p = x" using inj x(2) by (auto dest: inj_onD)
    then show ?thesis using in_pair_inputs[OF x(1)] leaf_not_internal by blast
  qed
qed

lemma root_inputs_tree: "root_inputs borsh H leaves = tree_inputs H (padded borsh leaves)"
  by (simp add: root_inputs_def tree_inputs_def tree_level_def)

lemma padded_same:
  assumes "payout_root borsh H L = payout_root borsh H M"
    and inj: "inj_on H (root_inputs borsh H L \<union> root_inputs borsh H M)"
    and w: "\<forall>x \<in> root_inputs borsh H L \<union> root_inputs borsh H M. length (H x) = 32"
  shows "padded borsh L = padded borsh M"
proof -
  let ?P = "padded borsh L" and ?Q = "padded borsh M"
  obtain k m where k: "length ?P = 2 ^ k" "payout_root borsh H L = hd (tree_level H ?P k)"
    and m: "length ?Q = 2 ^ m" "payout_root borsh H M = hd (tree_level H ?Q m)"
    using payout_root_padded[of borsh L H] payout_root_padded[of borsh M H] by (auto simp: tree_level_def)
  have "length (tree_level H ?P k) = 1" "length (tree_level H ?Q m) = 1"
    using tree_level_length[of ?P k 0 H] tree_level_length[of ?Q m 0 H] k m by simp_all
  then have root: "tree_level H ?P k = tree_level H ?Q m"
    using assms(1) k(2) m(2) by (auto simp: length_Suc_conv)
  have inj': "inj_on H (tree_inputs H ?P \<union> tree_inputs H ?Q)"
    and w': "\<forall>x \<in> tree_inputs H ?P \<union> tree_inputs H ?Q. length (H x) = 32"
    using inj w by (simp_all add: root_inputs_tree)
  show ?thesis
  proof (cases "k \<le> m")
    case True
    then show ?thesis by (rule same_root_same_leaves[OF inj' w' k(1) m(1) root])
  next
    case False
    then show ?thesis
      using same_root_same_leaves[of H ?Q ?P m k] inj' w' k(1) m(1) root by (simp add: Un_commute)
  qed
qed

section \<open>Properties\<close>

lemma sort_encoded: "mset L = mset M \<Longrightarrow> sort (map borsh L) = sort (map borsh M)"
  by (metis mset_map properties_for_sort mset_sort sorted_sort)

text \<open>The payout root does not depend on the order in which the payouts are listed.\<close>

lemma payout_root_order_independent:
  assumes "mset L = mset M"
  shows "payout_root borsh H L = payout_root borsh H M"
  using sort_encoded[OF assms, of borsh] by (simp add: payout_root_def)

definition leaf_a :: payout_leaf where
  "leaf_a = \<lparr>lf_asset_class = 1, lf_amount = 500, lf_owner = replicate 33 1, lf_table_id = 7,
     lf_pot_index = 0, lf_runout_index = 0\<rparr>"

definition leaf_b :: payout_leaf where
  "leaf_b = leaf_a\<lparr>lf_amount := 2350, lf_owner := replicate 33 2\<rparr>"

text \<open>
  C40: The payout root binds the payouts: unless Blake2b collides on the strings the two trees
  hash, equal roots mean the same leaves with the same multiplicities, trees of different sizes
  included (the leaf and node prefixes keep a leaf from passing for an inner node).
\<close>

theorem payout_root_binds:
  assumes "payout_root borsh H L = payout_root borsh H M"
    and "inj_on H (root_inputs borsh H L \<union> root_inputs borsh H M)"
    and "\<forall>x \<in> root_inputs borsh H L \<union> root_inputs borsh H M. length (H x) = 32"
    and "inj_on borsh (set L \<union> set M)" and "\<forall>l \<in> set L \<union> set M. borsh l \<noteq> []"
  shows "mset L = mset M"
proof -
  have strip: "filter (\<lambda>x. x \<noteq> []) (padded borsh L) = sort (map borsh L)"
    if "\<forall>l \<in> set L. borsh l \<noteq> []" for L
    using that by (simp add: padded_def Let_def filter_id_conv)
  have "padded borsh L = padded borsh M" by (rule padded_same[OF assms(1-3)])
  then have "sort (map borsh L) = sort (map borsh M)"
    using strip[of L] strip[of M] assms(5) by simp
  then have "image_mset borsh (mset L) = image_mset borsh (mset M)"
    by (metis mset_map mset_sort)
  then have "\<exists>C. mset L = mset M + C \<and> {#} = image_mset borsh C"
    by (intro image_mset_eq_image_mset_plusD) (use assms(4) in simp_all)
  then show ?thesis by auto
qed

text \<open>A stand-in hash for the example: 32 bytes, injective on the strings the example hashes.\<close>

definition toy_hash :: "byte list \<Rightarrow> byte list" where
  "toy_hash xs = take 32 (drop (length (domain_bytes PAYOUT_ROOT_DOMAIN)) xs @ replicate 32 0)"

lemma toy_hash_inputs [simp]:
  "toy_hash (leaf_input x) = take 32 (LEAF_PREFIX # x @ replicate 32 0)"
  "toy_hash (internal_input l r) = take 32 (INTERNAL_PREFIX # l @ r @ replicate 32 0)"
  by (simp_all add: toy_hash_def leaf_input_def internal_input_def)

lemma toy_inputs:
  "L = [leaf_a, leaf_b] \<or> L = [leaf_b, leaf_a] \<Longrightarrow> root_inputs lf_owner toy_hash L =
    {leaf_input (replicate 33 1), leaf_input (replicate 33 2),
     internal_input (0 # replicate 31 1) (0 # replicate 31 2)}"
proof -
  have "padded lf_owner [leaf_a, leaf_b] = [replicate 33 1, replicate 33 2]" by code_simp
  moreover have "padded lf_owner [leaf_b, leaf_a] = [replicate 33 1, replicate 33 2]" by code_simp
  moreover assume "L = [leaf_a, leaf_b] \<or> L = [leaf_b, leaf_a]"
  ultimately have "padded lf_owner L = [replicate 33 1, replicate 33 2]" by metis
  then show ?thesis
    by (simp add: root_inputs_def lessThan_Suc pair_up_inputs LEAF_PREFIX_def insert_commute)
qed

theorem payout_root_binds_witness:
  "payout_root lf_owner toy_hash [leaf_a, leaf_b] = payout_root lf_owner toy_hash [leaf_b, leaf_a] \<and>
   leaf_a \<noteq> leaf_b \<and> mset [leaf_a, leaf_b] = mset [leaf_b, leaf_a]"
proof (intro conjI)
  show root: "payout_root lf_owner toy_hash [leaf_a, leaf_b] = payout_root lf_owner toy_hash [leaf_b, leaf_a]"
    using sort_encoded[of "[leaf_a, leaf_b]" "[leaf_b, leaf_a]" lf_owner] by (simp add: payout_root_def)
  show "leaf_a \<noteq> leaf_b" by (simp add: leaf_a_def leaf_b_def)
  show "mset [leaf_a, leaf_b] = mset [leaf_b, leaf_a]"
    by (rule payout_root_binds[of lf_owner toy_hash, OF root])
      (simp_all add: inj_on_def toy_inputs leaf_a_def leaf_b_def LEAF_PREFIX_def INTERNAL_PREFIX_def)
qed

text \<open>
  The rake primitive is the exact floor of \<open>gross * num / den\<close>, clamped to \<open>u64::MAX\<close>, zero
  for a zero denominator, and at most the gross when the rate is at most one.
\<close>

lemma rake_for_exact:
  "rake_for gross num den = (if den = 0 then 0 else min (gross * num div den) U64_MAX) \<and>
   (num \<le> den \<longrightarrow> rake_for gross num den \<le> gross)"
  using rake_for_le_gross[of num den gross] by (auto simp: rake_for_def Let_def min_def)

end
