(* ===== verification/Boards.thy ===== *)
theory Boards
  imports Plan
begin

text \<open>
  \<^verbatim>\<open>poker-settlement-core/src/derive.rs\<close>, first part: the boards a settlement is derived from, the
  table snapshot, and the two checks that no card is in play twice.  A \<open>HashSet\<close> of cards that is
  only inserted into and asked for membership is a list of its elements.
\<close>

section \<open>Boards\<close>

datatype settlement_boards =
    SingleBoard "nat list"
  | TwiceBoards rit_start_street "nat list" "nat list"

fun runout_count :: "settlement_boards \<Rightarrow> nat" where
  "runout_count (SingleBoard _) = 1"
| "runout_count (TwiceBoards _ _ _) = 2"

fun shared_board_len :: "settlement_boards \<Rightarrow> nat" where
  "shared_board_len (SingleBoard _) = 0"
| "shared_board_len (TwiceBoards start _ _) = rit_shared_board_len start"

fun schedule :: "settlement_boards \<Rightarrow> runout_schedule" where
  "schedule (SingleBoard _) = Single"
| "schedule (TwiceBoards start _ _) = Twice start"

fun board1 :: "settlement_boards \<Rightarrow> nat list" where
  "board1 (SingleBoard board) = board"
| "board1 (TwiceBoards _ b1 _) = b1"

fun board2 :: "settlement_boards \<Rightarrow> nat list" where
  "board2 (SingleBoard _) = []"
| "board2 (TwiceBoards _ _ b2) = b2"

definition board :: "settlement_boards \<Rightarrow> nat \<Rightarrow> nat list" where
  "board b runout_index = (if runout_index = 0 then board1 b else board2 b)"

text \<open>\<open>&xs[..n]\<close>, and the loop \<open>if !seen.insert(card) { return Err(err) }\<close>.\<close>

definition slice_to :: "'a list \<Rightarrow> nat \<Rightarrow> ('e, 'a list) outcome" where
  "slice_to xs n = (if n \<le> length xs then Inr (take n xs) else Inl Panic)"

definition see_all :: "'e \<Rightarrow> nat list \<Rightarrow> nat list \<Rightarrow> ('e, nat list) outcome" where
  "see_all err seen cards =
     foldM (\<lambda>seen card. if card \<in> set seen then Inl (Fail err) else Inr (card # seen)) seen cards"

definition boards_validate :: "settlement_boards \<Rightarrow> (settlement_error, unit) outcome" where
  "boards_validate b =
     (if length (board1 b) \<noteq> 5 then Inl (Fail (Board1Length (length (board1 b))))
      else
        rbind (case b of
            TwiceBoards start b1 b2 \<Rightarrow>
              if length b2 \<noteq> 5 then Inl (Fail (Board2Length (length b2)))
              else rbind (slice_to b1 (rit_shared_board_len start)) (\<lambda>p1.
                   rbind (slice_to b2 (rit_shared_board_len start)) (\<lambda>p2.
                   if p1 \<noteq> p2 then Inl (Fail SharedPrefixDisagrees) else Inr ()))
          | SingleBoard _ \<Rightarrow> Inr ()) (\<lambda>_.
        if list_ex (\<lambda>card. card \<ge> 52) (board1 b @ board2 b) then Inl (Fail InvalidRunoutCard)
        else
          rbind (see_all DuplicateInBoard1 [] (board1 b)) (\<lambda>seen.
          case b of
            TwiceBoards start _ b2 \<Rightarrow>
              rbind (see_all DuplicateAcrossRunouts seen (drop (rit_shared_board_len start) b2))
                (\<lambda>_. Inr ())
          | SingleBoard _ \<Rightarrow> Inr ())))"

definition boards_deserialize ::
  "('r \<Rightarrow> (nat \<times> 'r) option) \<Rightarrow> ('r \<Rightarrow> (nat list \<times> 'r) option) \<Rightarrow>
   ('r \<Rightarrow> (rit_start_street \<times> 'r) option) \<Rightarrow> 'r \<Rightarrow>
   (settlement_error, settlement_boards \<times> 'r) outcome" where
  "boards_deserialize rd_u8 rd_vec rd_street r0 =
     rbind (read rd_u8 r0) (\<lambda>(variant, r1).
     rbind (if variant = 0 then
              rbind (read rd_vec r1) (\<lambda>(b, r2). Inr (SingleBoard b, r2))
            else if variant = 1 then
              rbind (read rd_street r1) (\<lambda>(start, r2).
              rbind (read rd_vec r2) (\<lambda>(b1, r3).
              rbind (read rd_vec r3) (\<lambda>(b2, r4). Inr (TwiceBoards start b1 b2, r4))))
            else Inl (Fail (InvalidBoardsVariant variant))) (\<lambda>(boards, r).
     rbind (boards_validate boards) (\<lambda>_. Inr (boards, r))))"

section \<open>The snapshot and its exposed cards\<close>

record table_snapshot =
  ts_seat_count :: nat
  ts_button :: nat
  ts_total_bets :: "nat list"
  ts_inactive :: "bool list"
  ts_all_in :: "bool list"
  ts_hole_cards :: "nat list list"
  ts_rake_mode :: nat
  ts_rake_bps :: nat
  ts_rake_cap :: nat

definition expose_seat ::
  "table_snapshot \<Rightarrow> nat list \<Rightarrow> nat \<times> nat list \<Rightarrow> (settlement_error, nat list) outcome" where
  "expose_seat snapshot seen ih =
     (case ih of (seat_index, hand) \<Rightarrow>
        rbind (idx (ts_inactive snapshot) seat_index) (\<lambda>inactive.
        if inactive then Inr seen
        else if length hand \<noteq> 2 \<or> list_ex (\<lambda>card. card \<ge> 52) hand then
          Inl (Fail (MustExposeTwoCards seat_index))
        else see_all DuplicateHoleCard seen hand))"

definition validate_exposed_cards ::
  "table_snapshot \<Rightarrow> settlement_boards \<Rightarrow> (settlement_error, unit) outcome" where
  "validate_exposed_cards snapshot b =
     rbind (foldM (expose_seat snapshot) [] (enumerate 0 (ts_hole_cards snapshot))) (\<lambda>seen.
     if list_ex (\<lambda>card. card \<in> set seen) (board1 b) then Inl (Fail BoardDuplicatesHole)
     else if runout_count b = 2 \<and> list_ex (\<lambda>card. card \<in> set seen) (drop (shared_board_len b) (board2 b))
     then Inl (Fail SecondBoardDuplicatesHole)
     else Inr ())"

section \<open>What the checks decide\<close>

lemma see_all_eq:
  "see_all err seen cards =
     (if distinct cards \<and> set cards \<inter> set seen = {} then Inr (rev cards @ seen) else Inl (Fail err))"
proof (induction cards arbitrary: seen)
  case (Cons c cards)
  then show ?case by (auto simp: see_all_def)
qed (simp add: see_all_def)

text \<open>The cards a board set shows, each once: the shared prefix of the second board is left out.\<close>

definition board_cards :: "settlement_boards \<Rightarrow> nat list" where
  "board_cards b = board1 b @ drop (shared_board_len b) (board2 b)"

fun boards_ok :: "settlement_boards \<Rightarrow> bool" where
  "boards_ok (SingleBoard b) \<longleftrightarrow> length b = 5 \<and> (\<forall>c \<in> set b. c < 52) \<and> distinct b"
| "boards_ok (TwiceBoards start b1 b2) \<longleftrightarrow>
     length b1 = 5 \<and> length b2 = 5 \<and> (\<forall>c \<in> set b1 \<union> set b2. c < 52) \<and>
     take (rit_shared_board_len start) b1 = take (rit_shared_board_len start) b2 \<and>
     distinct (b1 @ drop (rit_shared_board_len start) b2)"

lemma rit_shared_le: "rit_shared_board_len start \<le> 5"
  by (cases start) simp_all

lemma boards_validate_ok: "boards_validate b = Inr () \<longleftrightarrow> boards_ok b"
proof (cases b)
  case (SingleBoard x1)
  then show ?thesis by (auto simp: boards_validate_def see_all_eq list_ex_iff not_less)
next
  case (TwiceBoards start b1 b2)
  then show ?thesis
    using rit_shared_le[of start]
    by (auto simp: boards_validate_def see_all_eq list_ex_iff slice_to_def outcome_simps not_less split: if_splits)
qed

lemma boards_validate_no_panic: "boards_validate b \<noteq> Inl Panic"
proof (cases b)
  case (SingleBoard x1)
  then show ?thesis by (auto simp: boards_validate_def see_all_eq)
next
  case (TwiceBoards start b1 b2)
  then show ?thesis
    using rit_shared_le[of start]
    by (auto simp: boards_validate_def see_all_eq slice_to_def outcome_simps split: if_splits)
qed

lemma runout_count_cases: "runout_count b = 1 \<or> runout_count b = 2"
  by (cases b) simp_all

lemma schedule_count_schedule [simp]: "schedule_count (schedule b) = runout_count b"
  by (cases b) simp_all

lemma board2_single: "runout_count b \<noteq> 2 \<Longrightarrow> board2 b = []"
  by (cases b) simp_all

text \<open>The hands of the seats still in the hand, with their seats.\<close>

definition live_hands :: "table_snapshot \<Rightarrow> (nat \<times> nat list) list" where
  "live_hands snapshot =
     filter (\<lambda>(i, h). \<not> ts_inactive snapshot ! i) (enumerate 0 (ts_hole_cards snapshot))"

definition exposed_ok :: "table_snapshot \<Rightarrow> settlement_boards \<Rightarrow> bool" where
  "exposed_ok snapshot b \<longleftrightarrow>
     (\<forall>h \<in> set (map snd (live_hands snapshot)). length h = 2 \<and> (\<forall>c \<in> set h. c < 52)) \<and>
     distinct (concat (map snd (live_hands snapshot))) \<and>
     set (concat (map snd (live_hands snapshot))) \<inter> set (board_cards b) = {}"

definition hand_valid :: "nat list \<Rightarrow> bool" where
  "hand_valid h \<longleftrightarrow> length h = 2 \<and> (\<forall>c \<in> set h. c < 52)"

lemma expose_seats_eq:
  assumes "\<And>i h. (i, h) \<in> set ihs \<Longrightarrow> i < length (ts_inactive snapshot)"
  defines "live \<equiv> map snd (filter (\<lambda>(i, h). \<not> ts_inactive snapshot ! i) ihs)"
  shows "foldM (expose_seat snapshot) seen ihs \<noteq> Inl Panic \<and>
    (\<forall>seen'. foldM (expose_seat snapshot) seen ihs = Inr seen' \<longleftrightarrow>
       seen' = rev (concat live) @ seen \<and> (\<forall>h \<in> set live. hand_valid h) \<and>
       distinct (concat live) \<and> set (concat live) \<inter> set seen = {})"
  using assms(1) unfolding live_def
proof (induction ihs arbitrary: seen)
  case (Cons ih ihs)
  obtain i h where ih: "ih = (i, h)" by (cases ih)
  have i: "i < length (ts_inactive snapshot)" using Cons.prems[of i h] by (simp add: ih)
  have "i < length (ts_inactive snapshot)" if "(i, h) \<in> set ihs" for i h
    by (rule Cons.prems[of i h]) (use that in simp)
  note IH = Cons.IH[OF this]
  show ?case
  proof (cases "ts_inactive snapshot ! i \<or> \<not> hand_valid h \<or> \<not> distinct h \<or> set h \<inter> set seen \<noteq> {}")
    case True
    then show ?thesis
      using i IH[where seen = seen]
      by (auto simp: ih expose_seat_def idx_def see_all_eq list_ex_iff hand_valid_def not_le)
  next
    case False
    then have "expose_seat snapshot seen ih = Inr (rev h @ seen)"
      using i by (auto simp: ih expose_seat_def idx_def see_all_eq list_ex_iff hand_valid_def)
    then show ?thesis
      using False IH[where seen = "rev h @ seen"] by (auto simp: ih)
  qed
qed auto

lemma validate_exposed_no_panic:
  assumes "length (ts_inactive snapshot) = length (ts_hole_cards snapshot)"
  shows "validate_exposed_cards snapshot b \<noteq> Inl Panic"
  using expose_seats_eq[of "enumerate 0 (ts_hole_cards snapshot)" snapshot "[]"] assms
  by (auto simp: validate_exposed_cards_def outcome_simps in_set_enumerate_eq split: if_splits)

lemma validate_exposed_ok:
  assumes "length (ts_inactive snapshot) = length (ts_hole_cards snapshot)"
  shows "validate_exposed_cards snapshot b = Inr () \<longleftrightarrow> exposed_ok snapshot b"
proof -
  define live where "live = map snd (live_hands snapshot)"
  have "foldM (expose_seat snapshot) [] (enumerate 0 (ts_hole_cards snapshot)) = Inr seen \<longleftrightarrow>
      seen = rev (concat live) \<and> (\<forall>h \<in> set live. hand_valid h) \<and> distinct (concat live)" for seen
    using expose_seats_eq[of "enumerate 0 (ts_hole_cards snapshot)" snapshot "[]"] assms
    by (simp add: live_def live_hands_def in_set_enumerate_eq)
  then have "validate_exposed_cards snapshot b = Inr () \<longleftrightarrow>
      (\<forall>h \<in> set live. hand_valid h) \<and> distinct (concat live) \<and>
      \<not> list_ex (\<lambda>c. c \<in> set (concat live)) (board1 b) \<and>
      \<not> (runout_count b = 2 \<and>
         list_ex (\<lambda>c. c \<in> set (concat live)) (drop (shared_board_len b) (board2 b)))"
    by (auto simp: validate_exposed_cards_def outcome_simps split: if_splits)
  also have "\<dots> \<longleftrightarrow> (\<forall>h \<in> set live. hand_valid h) \<and> distinct (concat live) \<and>
      set (concat live) \<inter> set (board_cards b) = {}"
    using board2_single[of b] by (cases "runout_count b = 2") (auto simp: board_cards_def list_ex_iff)
  finally show ?thesis by (simp add: exposed_ok_def hand_valid_def live_def)
qed

end
