(* ===== verification/Awards.thy ===== *)
theory Awards
  imports Payout Boards
begin

text \<open>
  \<^verbatim>\<open>poker-settlement-core/src/derive.rs\<close>, second part: the rake and its allocation over the
  side pots, the split of a pot between two runouts, the ranking of the eligible hands and the
  split of a runout among its winners.
\<close>

section \<open>Rake\<close>

definition RAKE_MODE_NONE :: nat where "RAKE_MODE_NONE = 0"
definition RAKE_MODE_PERCENTAGE :: nat where "RAKE_MODE_PERCENTAGE = 1"
definition RAKE_MODE_FIXED_RAKE_BURN :: nat where "RAKE_MODE_FIXED_RAKE_BURN = 2"

definition compute_rake :: "table_snapshot \<Rightarrow> nat \<Rightarrow> (settlement_error, nat) outcome" where
  "compute_rake snapshot gross_pot =
     (if ts_rake_mode snapshot = RAKE_MODE_NONE then Inr 0
      else if ts_rake_mode snapshot = RAKE_MODE_PERCENTAGE then
        (let raw = rake_for gross_pot (ts_rake_bps snapshot) 10000
         in Inr (min (min raw (ts_rake_cap snapshot)) gross_pot))
      else if ts_rake_mode snapshot = RAKE_MODE_FIXED_RAKE_BURN then
        (let raw = rake_for gross_pot (ts_rake_bps snapshot) 10000
         in Inr (min (min raw (ts_rake_cap snapshot)) gross_pot))
      else Inl (Fail (UnsupportedRakeMode (ts_rake_mode snapshot))))"

definition contested :: "side_pot \<Rightarrow> bool" where
  "contested p \<longleftrightarrow> count_ones (sp_eligible p) \<ge> 2"

text \<open>The loop over \<open>pots.iter().zip(&mut allocations)\<close> that hands out the remainder.\<close>

fun spread_remainder ::
  "side_pot list \<Rightarrow> nat list \<Rightarrow> nat \<Rightarrow> (settlement_error, nat list \<times> nat) outcome" where
  "spread_remainder (pot # pots) (allocation # allocations) remainder =
     (if remainder = 0 then Inr (allocation # allocations, remainder)
      else if \<not> contested pot then
        rbind (spread_remainder pots allocations remainder) (\<lambda>(rest, r).
        Inr (allocation # rest, r))
      else
        rbind (ok_or PotRakeAllocationExceeds (checked_sub_u64 (sp_amount pot) allocation))
          (\<lambda>available.
        let take = min remainder available in
        rbind (add_u64 allocation take) (\<lambda>allocation'.
        rbind (sub_u64 remainder take) (\<lambda>remainder'.
        rbind (spread_remainder pots allocations remainder') (\<lambda>(rest, r).
        Inr (allocation' # rest, r))))))"
| "spread_remainder _ allocations remainder = Inr (allocations, remainder)"

definition allocate_rake ::
  "side_pot list \<Rightarrow> nat \<Rightarrow> nat \<Rightarrow> (settlement_error, nat list) outcome" where
  "allocate_rake pots rake gross_pot =
     (if rake = 0 then Inr (replicate (length pots) 0)
      else if gross_pot = 0 \<or> pots = [] then Inl (Fail RakeOverEmptyPots)
      else
        rbind (foldM (\<lambda>(allocations, allocated) pot.
            let share = (if contested pot then as_u64 (sp_amount pot * rake div gross_pot) else 0) in
            rbind (ok_or RakeAllocationOverflow (checked_add_u64 allocated share)) (\<lambda>allocated'.
            Inr (allocations @ [share], allocated'))) ([], 0) pots) (\<lambda>(allocations, allocated).
        rbind (ok_or ProportionalRakeExceeds (checked_sub_u64 rake allocated)) (\<lambda>remainder.
        rbind (spread_remainder pots allocations remainder) (\<lambda>(allocations', remainder').
        if remainder' \<noteq> 0 then Inl (Fail RakeRemainderExceeds) else Inr allocations'))))"

section \<open>Runouts, winners and shares\<close>

definition split_across_runouts :: "nat \<Rightarrow> nat \<Rightarrow> nat list" where
  "split_across_runouts amount runouts =
     (if runouts = 1 then [amount, 0] else [amount div 2 + amount mod 2, amount div 2])"

text \<open>\<open>1u16 << seat\<close>, a panic from sixteen on.\<close>

definition shl_u16 :: "nat \<Rightarrow> ('e, mask16) outcome" where
  "shl_u16 seat = (if seat < 16 then Inr (push_bit seat 1) else Inl Panic)"

text \<open>The body of the loop over the seats; its state is \<open>ranks\<close>, \<open>best_rank\<close> and \<open>winner_mask\<close>.\<close>

definition rank_seat ::
  "table_snapshot \<Rightarrow> mask16 \<Rightarrow> nat list \<Rightarrow> hand_rank option list \<times> hand_rank option \<times> mask16 \<Rightarrow> nat \<Rightarrow>
   (settlement_error, hand_rank option list \<times> hand_rank option \<times> mask16) outcome" where
  "rank_seat snapshot eligible_mask cards st seat_index =
     (case st of (ranks, best_rank, winner_mask) \<Rightarrow>
      if \<not> is_eligible eligible_mask (seat_index mod 256) then Inr (ranks, best_rank, winner_mask)
      else
        rbind (idx (ts_hole_cards snapshot) seat_index) (\<lambda>hand.
        if length hand \<noteq> 2 then Inl (Fail (NoCompleteHand seat_index))
        else
          let rank = evaluate_best (hand @ cards) in
          rbind (set_idx ranks seat_index (Some rank)) (\<lambda>ranks'.
          rbind (shl_u16 seat_index) (\<lambda>bit.
          Inr (case best_rank of
                 None \<Rightarrow> (ranks', Some rank, bit)
               | Some best \<Rightarrow>
                   if rank > best then (ranks', Some rank, bit)
                   else if rank = best then (ranks', best_rank, winner_mask OR bit)
                   else (ranks', best_rank, winner_mask))))))"

definition find_winners ::
  "table_snapshot \<Rightarrow> mask16 \<Rightarrow> nat list \<Rightarrow> (settlement_error, mask16 \<times> hand_rank option list) outcome" where
  "find_winners snapshot eligible_mask cards =
     rbind (foldM (rank_seat snapshot eligible_mask cards)
              (replicate SETTLEMENT_SEATS None, None, 0) [0..<ts_seat_count snapshot])
       (\<lambda>(ranks, best_rank, winner_mask).
        if winner_mask = 0 then Inl (Fail NoRankedWinner) else Inr (winner_mask, ranks))"

text \<open>The winners in clockwise order from the seat after the button.\<close>

definition order_winners :: "mask16 \<Rightarrow> nat \<Rightarrow> nat \<Rightarrow> (settlement_error, nat list) outcome" where
  "order_winners winner_mask button seat_count =
     foldM (\<lambda>ordered offset.
         let seat = (button + offset) mod seat_count in
         rbind (shl_u16 seat) (\<lambda>bit.
         Inr (if winner_mask AND bit \<noteq> 0 then ordered @ [seat] else ordered)))
       [] [1..<Suc seat_count]"

definition split_among_winners ::
  "nat \<Rightarrow> mask16 \<Rightarrow> nat \<Rightarrow> nat \<Rightarrow> (settlement_error, nat list) outcome" where
  "split_among_winners amount winner_mask button seat_count =
     rbind (order_winners winner_mask button seat_count) (\<lambda>ordered.
     if ordered = [] then Inl (Fail WinnerMaskEmpty)
     else if \<not> length ordered < u64_limit then Inl (Fail WinnerCountExceeds)
     else
       let winner_count = length ordered;
           share = amount div winner_count;
           remainder = amount mod winner_count
       in foldM (\<lambda>awards (position, seat).
            rbind (add_u64 share (if position < remainder then 1 else 0)) (\<lambda>v.
            set_idx awards seat v))
          (replicate SETTLEMENT_SEATS 0) (enumerate 0 ordered))"

section \<open>Rake lemmas\<close>

lemma contested_nonzero: "contested p \<Longrightarrow> sp_eligible p \<noteq> 0"
  by (metis contested_def count_ones_eq_0 not_numeral_le_zero)

definition rake_mode_ok :: "table_snapshot \<Rightarrow> bool" where
  "rake_mode_ok snapshot \<longleftrightarrow> ts_rake_mode snapshot \<in> {RAKE_MODE_NONE, RAKE_MODE_PERCENTAGE, RAKE_MODE_FIXED_RAKE_BURN}"

text \<open>The rake of a hand over the contested gross \<open>g\<close>.\<close>

definition rake_spec :: "table_snapshot \<Rightarrow> nat \<Rightarrow> nat" where
  "rake_spec snapshot g =
     (if ts_rake_mode snapshot = RAKE_MODE_NONE then 0
      else min (min (rake_for g (ts_rake_bps snapshot) 10000) (ts_rake_cap snapshot)) g)"

lemma compute_rake_eq:
  "compute_rake snapshot g =
     (if rake_mode_ok snapshot then Inr (rake_spec snapshot g)
      else Inl (Fail (UnsupportedRakeMode (ts_rake_mode snapshot))))"
  by (auto simp: compute_rake_def rake_spec_def rake_mode_ok_def Let_def)

lemma rake_spec_le: "rake_spec snapshot g \<le> g"
  by (simp add: rake_spec_def)

text \<open>The proportional shares: the floor of each contested pot's part of the rake.\<close>

definition share_of :: "nat \<Rightarrow> nat \<Rightarrow> side_pot \<Rightarrow> nat" where
  "share_of rake g p = (if contested p then sp_amount p * rake div g else 0)"

abbreviation contested_sum :: "side_pot list \<Rightarrow> nat" where
  "contested_sum pots \<equiv> pots_sum (filter contested pots)"

lemma contested_sum_simps:
  "contested_sum [] = 0"
  "contested_sum (p # pots) = (if contested p then sp_amount p else 0) + contested_sum pots"
  by simp_all

lemma share_le:
  assumes "rake \<le> g" "0 < g"
  shows "share_of rake g p \<le> sp_amount p"
proof -
  have "sp_amount p * rake div g \<le> sp_amount p * g div g"
    using assms(1) by (intro div_le_mono mult_le_mono2)
  then show ?thesis using assms(2) by (simp add: share_of_def)
qed

lemma shares_le:
  assumes "0 < g"
  shows "g * sum_list (map (share_of rake g) pots) \<le> contested_sum pots * rake"
proof (induction pots)
  case (Cons p pots)
  have "g * share_of rake g p \<le> (if contested p then sp_amount p else 0) * rake"
    by (simp add: share_of_def mult.commute[of g])
  with Cons have "g * (share_of rake g p + sum_list (map (share_of rake g) pots)) \<le>
      (if contested p then sp_amount p else 0) * rake + contested_sum pots * rake"
    unfolding distrib_left by (intro add_mono)
  then show ?case unfolding contested_sum_simps by (simp only: list.map sum_list.Cons distrib_right)
qed simp

lemma shares_le_rake:
  assumes "0 < contested_sum pots"
  shows "sum_list (map (share_of rake (contested_sum pots)) pots) \<le> rake"
  using shares_le[OF assms, of rake pots] assms by (simp add: mult.commute)

lemma share_loop_eq:
  assumes "rake \<le> g" "0 < g" "\<forall>p \<in> set pots. sp_amount p < u64_limit"
    and "t + sum_list (map (share_of rake g) pots) < u64_limit"
  shows "foldM (\<lambda>(allocations, allocated) pot.
            let share = (if contested pot then as_u64 (sp_amount pot * rake div g) else 0) in
            rbind (ok_or RakeAllocationOverflow (checked_add_u64 allocated share)) (\<lambda>allocated'.
            Inr (allocations @ [share], allocated'))) (as, t) pots =
         Inr (as @ map (share_of rake g) pots, t + sum_list (map (share_of rake g) pots))"
  using assms(3,4)
proof (induction pots arbitrary: as t)
  case (Cons p pots)
  have "share_of rake g p < u64_limit"
    using share_le[OF assms(1,2), of p] Cons.prems(1) by simp
  then have "(if contested p then as_u64 (sp_amount p * rake div g) else 0) = share_of rake g p"
    by (simp add: share_of_def as_u64_def split: if_splits)
  with Cons show ?case by (simp add: Let_def ok_or_def checked_add_u64_def add.assoc)
qed simp

text \<open>What the contested pots can still take.\<close>

definition room :: "side_pot list \<Rightarrow> nat list \<Rightarrow> nat" where
  "room pots allocs = sum_list (map2 (\<lambda>p a. if contested p then sp_amount p - a else 0) pots allocs)"

definition allocs_ok :: "side_pot list \<Rightarrow> nat list \<Rightarrow> bool" where
  "allocs_ok pots allocs \<longleftrightarrow> list_all2 (\<lambda>p a. a \<le> sp_amount p \<and> (\<not> contested p \<longrightarrow> a = 0)) pots allocs"

lemma spread_remainder_eq:
  assumes "allocs_ok pots allocs" "\<forall>p \<in> set pots. sp_amount p < u64_limit"
  shows "\<exists>allocs'. spread_remainder pots allocs r = Inr (allocs', r - room pots allocs) \<and>
     allocs_ok pots allocs' \<and> list_all2 (\<le>) allocs allocs' \<and>
     sum_list allocs' = sum_list allocs + min r (room pots allocs)"
  using assms
proof (induction pots arbitrary: allocs r)
  case (Cons p pots allocs0)
  then obtain a as where allocs0: "allocs0 = a # as" by (auto simp: allocs_ok_def list_all2_Cons1)
  have ok: "a \<le> sp_amount p" "\<not> contested p \<longrightarrow> a = 0" "allocs_ok pots as"
    using Cons.prems(1) by (auto simp: allocs_ok_def allocs0)
  have rest: "\<forall>p \<in> set pots. sp_amount p < u64_limit" "sp_amount p < u64_limit" using Cons.prems(2) by simp_all
  consider "r = 0" | "r \<noteq> 0" "\<not> contested p" | "r \<noteq> 0" "contested p" by blast
  then show ?case
  proof cases
    case 1
    then show ?thesis using ok by (auto simp: allocs0 allocs_ok_def list.rel_refl)
  next
    case 2
    then obtain as' where "spread_remainder pots as r = Inr (as', r - room pots as)" "allocs_ok pots as'"
      "list_all2 (\<le>) as as'" "sum_list as' = sum_list as + min r (room pots as)"
      using Cons.IH[OF ok(3) rest(1)] by blast
    with 2 ok show ?thesis by (simp add: allocs0 allocs_ok_def room_def)
  next
    case 3
    let ?t = "min r (sp_amount p - a)"
    have step: "checked_sub_u64 (sp_amount p) a = Some (sp_amount p - a)"
      "(add_u64 a ?t :: (settlement_error, nat) outcome) = Inr (a + ?t)"
      "(sub_u64 r ?t :: (settlement_error, nat) outcome) = Inr (r - ?t)"
      using ok rest(2) by (auto simp: checked_sub_u64_def add_u64_def sub_u64_def)
    obtain as' where as': "spread_remainder pots as (r - ?t) = Inr (as', r - ?t - room pots as)"
      "allocs_ok pots as'" "list_all2 (\<le>) as as'" "sum_list as' = sum_list as + min (r - ?t) (room pots as)"
      using Cons.IH[OF ok(3) rest(1)] by blast
    have cap_twice: "r - (?t + room pots as) = r - (sp_amount p - a + room pots as)"
      by (cases "r \<le> sp_amount p - a") simp_all
    have rm: "room (p # pots) (a # as) = sp_amount p - a + room pots as"
      using 3 by (simp add: room_def)
    have "spread_remainder (p # pots) (a # as) r = Inr ((a + ?t) # as', r - room (p # pots) (a # as))"
      using 3 step as'(1) cap_twice by (simp add: rm ok_or_def Let_def)
    moreover have more: "?t + min (r - ?t) (room pots as) = min r (sp_amount p - a + room pots as)"
      by (cases "r \<le> sp_amount p - a") simp_all
    moreover have "a + ?t + sum_list as' = a + sum_list as + min r (sp_amount p - a + room pots as)"
      using as'(4) more by linarith
    moreover have "a + ?t \<le> sp_amount p" using ok(1) by (auto simp: min_def)
    ultimately show ?thesis using as'(2,3) ok 3(2)
      by (intro exI[of _ "(a + ?t) # as'"]) (simp add: allocs0 rm allocs_ok_def del: spread_remainder.simps)
  qed
qed (auto simp: allocs_ok_def room_def)

lemma allocs_ok_shares:
  assumes "rake \<le> g" "0 < g"
  shows "allocs_ok pots (map (share_of rake g) pots)"
  using share_le[OF assms] by (auto simp: allocs_ok_def list_all2_conv_all_nth share_of_def)

lemma room_shares:
  assumes "rake \<le> g" "0 < g"
  shows "room pots (map (share_of rake g) pots) + sum_list (map (share_of rake g) pots) = contested_sum pots"
proof (induction pots)
  case (Cons p pots)
  then show ?case using share_le[OF assms, of p] by (auto simp: room_def share_of_def)
qed (simp add: room_def)

text \<open>The allocation of a rake that does not exceed the contested gross always succeeds.\<close>

definition rake_split :: "side_pot list \<Rightarrow> nat \<Rightarrow> nat list \<Rightarrow> bool" where
  "rake_split pots rake allocs \<longleftrightarrow>
     allocs_ok pots allocs \<and> sum_list allocs = rake \<and>
     list_all2 (\<le>) (map (share_of rake (contested_sum pots)) pots) allocs"

lemma allocate_rake_eq:
  assumes "rake \<le> contested_sum pots" "contested_sum pots < u64_limit"
    and "\<forall>p \<in> set pots. sp_amount p < u64_limit"
  shows "\<exists>allocs. allocate_rake pots rake (contested_sum pots) = Inr allocs \<and> rake_split pots rake allocs"
proof (cases "rake = 0")
  case True
  then show ?thesis
    by (auto simp: allocate_rake_def rake_split_def allocs_ok_def list_all2_conv_all_nth share_of_def
        sum_list_replicate)
next
  case False
  let ?g = "contested_sum pots" and ?shares = "map (share_of rake (contested_sum pots)) pots"
  have g: "0 < ?g" "pots \<noteq> []" using False assms(1) by auto
  have le: "sum_list ?shares \<le> rake" by (rule shares_le_rake[OF g(1)])
  then have small: "0 + sum_list ?shares < u64_limit" using assms(1,2) by linarith
  note loop = share_loop_eq[OF assms(1) g(1) assms(3) small, of "[]"]
  have room: "room pots ?shares = ?g - sum_list ?shares"
    using room_shares[OF assms(1) g(1), of pots] by linarith
  obtain allocs where sp: "spread_remainder pots ?shares (rake - sum_list ?shares) =
      Inr (allocs, rake - sum_list ?shares - room pots ?shares)"
    and ok: "allocs_ok pots allocs" "list_all2 (\<le>) ?shares allocs"
      "sum_list allocs = sum_list ?shares + min (rake - sum_list ?shares) (room pots ?shares)"
    using spread_remainder_eq[OF allocs_ok_shares[OF assms(1) g(1)] assms(3)] by blast
  have fits: "rake - sum_list ?shares \<le> room pots ?shares"
    unfolding room using assms(1) by (rule diff_le_mono)
  then have "rake - sum_list ?shares - room pots ?shares = 0" "sum_list allocs = rake"
    using le ok(3) unfolding min_absorb1[OF fits] by linarith+
  then show ?thesis
    using False g loop sp ok le by (auto simp: allocate_rake_def rake_split_def ok_or_def checked_sub_u64_def)
qed

section \<open>Winners\<close>

lemma shl_u16_eq: "seat < 16 \<Longrightarrow> shl_u16 seat = Inr (seat_bit seat)"
  by (simp add: shl_u16_def seat_bit_def)

definition seat_rank :: "table_snapshot \<Rightarrow> nat list \<Rightarrow> nat \<Rightarrow> hand_rank" where
  "seat_rank snapshot cards j = evaluate_best (ts_hole_cards snapshot ! j @ cards)"

definition ranks_upto ::
  "table_snapshot \<Rightarrow> mask16 \<Rightarrow> nat list \<Rightarrow> nat \<Rightarrow> hand_rank option list" where
  "ranks_upto snapshot m cards n =
     map (\<lambda>i. if i < n \<and> bit m i then Some (seat_rank snapshot cards i) else None) [0..<SETTLEMENT_SEATS]"

text \<open>A seat wins among the first \<open>n\<close> when no eligible one of them has a better hand.\<close>

definition wins_upto :: "table_snapshot \<Rightarrow> mask16 \<Rightarrow> nat list \<Rightarrow> nat \<Rightarrow> nat \<Rightarrow> bool" where
  "wins_upto snapshot m cards n j \<longleftrightarrow> j < n \<and> bit m j \<and>
     (\<forall>i < n. bit m i \<longrightarrow> seat_rank snapshot cards i \<le> seat_rank snapshot cards j)"

definition rank_inv ::
  "table_snapshot \<Rightarrow> mask16 \<Rightarrow> nat list \<Rightarrow> nat \<Rightarrow> hand_rank option list \<times> hand_rank option \<times> mask16 \<Rightarrow> bool" where
  "rank_inv snapshot m cards n st \<longleftrightarrow> (case st of (ranks, best, wm) \<Rightarrow>
     ranks = ranks_upto snapshot m cards n \<and>
     (\<forall>j. bit wm j \<longleftrightarrow> wins_upto snapshot m cards n j) \<and>
     (case best of None \<Rightarrow> \<forall>i < n. \<not> bit m i
      | Some b \<Rightarrow> (\<exists>i < n. bit m i \<and> seat_rank snapshot cards i = b) \<and>
                  (\<forall>i < n. bit m i \<longrightarrow> seat_rank snapshot cards i \<le> b)))"

lemma ranks_upto_Suc:
  assumes "n < SETTLEMENT_SEATS"
  shows "ranks_upto snapshot m cards (Suc n) =
    (if bit m n then (ranks_upto snapshot m cards n)[n := Some (seat_rank snapshot cards n)]
     else ranks_upto snapshot m cards n)"
  using assms by (auto simp: ranks_upto_def list_eq_iff_nth_eq nth_list_update less_Suc_eq)

lemma length_ranks_upto [simp]: "length (ranks_upto snapshot m cards n) = SETTLEMENT_SEATS"
  by (simp add: ranks_upto_def)

lemma SETTLEMENT_SEATS_eq: "SETTLEMENT_SEATS = 9"
  by (simp add: SETTLEMENT_SEATS_def MAX_PLAYERS_def)

lemma rank_seat_step:
  assumes "n < SETTLEMENT_SEATS" "n < length (ts_hole_cards snapshot)"
    and "bit m n \<Longrightarrow> length (ts_hole_cards snapshot ! n) = 2"
    and inv: "rank_inv snapshot m cards n st"
  shows "\<exists>st'. rank_seat snapshot m cards st n = Inr st' \<and> rank_inv snapshot m cards (Suc n) st'"
proof -
  obtain ranks best wm where st: "st = (ranks, best, wm)" by (cases st)
  let ?r = "seat_rank snapshot cards n"
  have n16: "n < 16" "n mod 256 = n" using assms(1) by (simp_all add: SETTLEMENT_SEATS_eq)
  show ?thesis
  proof (cases "bit m n")
    case False
    then show ?thesis
      using inv assms(1) n16
      by (auto simp: st rank_seat_def is_eligible_bit rank_inv_def ranks_upto_Suc wins_upto_def less_Suc_eq
          split: option.splits)
  next
    case True
    have w: "wins_upto snapshot m cards (Suc n) j \<longleftrightarrow>
        (wins_upto snapshot m cards n j \<and> ?r \<le> seat_rank snapshot cards j) \<or>
        (j = n \<and> (\<forall>i < n. bit m i \<longrightarrow> seat_rank snapshot cards i \<le> ?r))" for j
      using True by (auto simp: wins_upto_def less_Suc_eq)
    have len: "length ranks = SETTLEMENT_SEATS" using inv by (simp add: st rank_inv_def)
    have step: "rank_seat snapshot m cards st n = Inr
        (case best of
           None \<Rightarrow> (ranks[n := Some ?r], Some ?r, seat_bit n)
         | Some b \<Rightarrow>
             if ?r > b then (ranks[n := Some ?r], Some ?r, seat_bit n)
             else if ?r = b then (ranks[n := Some ?r], best, wm OR seat_bit n)
             else (ranks[n := Some ?r], best, wm))"
      using True assms(1-3) len n16
      by (simp add: st rank_seat_def is_eligible_bit idx_def set_idx_def shl_u16_eq seat_rank_def Let_def
          split: option.split)
    have ranks: "ranks[n := Some ?r] = ranks_upto snapshot m cards (Suc n)"
      using inv True assms(1) by (simp add: st rank_inv_def ranks_upto_Suc)
    have bits: "bit (seat_bit n) j \<longleftrightarrow> j = n" for j using n16 by auto
    show ?thesis
    proof (cases best)
      case None
      then have "\<forall>i < n. \<not> bit m i" using inv by (simp add: st rank_inv_def)
      then show ?thesis
        unfolding step rank_inv_def using None True
        by (auto simp: ranks bits w wins_upto_def[of _ _ _ n] less_Suc_eq simp del: bit_seat_bit)
    next
      case (Some b)
      then have b: "\<exists>i < n. bit m i \<and> seat_rank snapshot cards i = b"
        "\<forall>i < n. bit m i \<longrightarrow> seat_rank snapshot cards i \<le> b"
        and wm: "\<forall>j. bit wm j \<longleftrightarrow> wins_upto snapshot m cards n j"
        using inv by (simp_all add: st rank_inv_def)
      have top: "wins_upto snapshot m cards n j \<longleftrightarrow> j < n \<and> bit m j \<and> seat_rank snapshot cards j = b" for j
        using b by (auto simp: wins_upto_def intro: antisym)
      have n_wins: "(\<forall>i < n. bit m i \<longrightarrow> seat_rank snapshot cards i \<le> ?r) \<longleftrightarrow> b \<le> ?r"
        using b by (blast intro: order_trans)
      have next_wins: "wins_upto snapshot m cards (Suc n) j \<longleftrightarrow>
          (j < n \<and> bit m j \<and> seat_rank snapshot cards j = b \<and> ?r \<le> b) \<or> (j = n \<and> b \<le> ?r)" for j
        unfolding w n_wins top by blast
      have best: "(\<exists>i < Suc n. bit m i \<and> seat_rank snapshot cards i = max b ?r) \<and>
          (\<forall>i < Suc n. bit m i \<longrightarrow> seat_rank snapshot cards i \<le> max b ?r)"
        using b True by (auto simp: less_Suc_eq max_def intro: order_trans)
      consider "?r > b" | "?r = b" | "?r < b" by fastforce
      then show ?thesis
      proof cases
        case 1
        then have "max b ?r = ?r" by simp
        then show ?thesis
          using 1 best Some
          by (simp add: step rank_inv_def ranks bits next_wins less_imp_le del: bit_seat_bit) auto
      next
        case 2
        then have "bit (wm OR seat_bit n) j \<longleftrightarrow> wins_upto snapshot m cards (Suc n) j" for j
          unfolding bit_or_iff bits next_wins using wm top by blast
        then show ?thesis
          using 2 best Some ranks by (simp add: step rank_inv_def)
      next
        case 3
        then have "bit wm j \<longleftrightarrow> wins_upto snapshot m cards (Suc n) j" for j
          unfolding next_wins wm[rule_format] top by auto
        moreover have "max b ?r = b" "\<not> ?r > b" "?r \<noteq> b" using 3 by simp_all
        ultimately show ?thesis
          using 3 best Some ranks by (simp add: step rank_inv_def)
      qed
    qed
  qed
qed

lemma find_winners_eq:
  assumes n: "ts_seat_count snapshot \<le> SETTLEMENT_SEATS" "length (ts_hole_cards snapshot) = ts_seat_count snapshot"
    and hands: "\<forall>j < ts_seat_count snapshot. bit m j \<longrightarrow> length (ts_hole_cards snapshot ! j) = 2"
    and some: "\<exists>j < ts_seat_count snapshot. bit m j"
  shows "\<exists>wm. find_winners snapshot m cards = Inr (wm, ranks_upto snapshot m cards (ts_seat_count snapshot)) \<and>
     wm \<noteq> 0 \<and> (\<forall>j. bit wm j \<longleftrightarrow> wins_upto snapshot m cards (ts_seat_count snapshot) j)"
proof -
  let ?n = "ts_seat_count snapshot"
  have "\<exists>st. foldM (rank_seat snapshot m cards) (replicate SETTLEMENT_SEATS None, None, 0) [0..<?n] = Inr st \<and>
      rank_inv snapshot m cards ?n st"
  proof (rule foldM_upt_total)
    show "rank_inv snapshot m cards 0 (replicate SETTLEMENT_SEATS None, None, 0)"
      by (auto simp: rank_inv_def ranks_upto_def wins_upto_def list_eq_iff_nth_eq)
    show "\<exists>st'. rank_seat snapshot m cards st j = Inr st' \<and> rank_inv snapshot m cards (Suc j) st'"
      if "j < ?n" "rank_inv snapshot m cards j st" for j st
      by (rule rank_seat_step) (use that n hands in auto)
  qed
  then obtain ranks best wm where run: "foldM (rank_seat snapshot m cards)
        (replicate SETTLEMENT_SEATS None, None, 0) [0..<?n] = Inr (ranks, best, wm)"
    and inv: "rank_inv snapshot m cards ?n (ranks, best, wm)" by fastforce
  from inv some obtain b where "best = Some b" by (cases best) (auto simp: rank_inv_def)
  with inv have "\<exists>i. wins_upto snapshot m cards ?n i" by (fastforce simp: rank_inv_def wins_upto_def)
  with inv have "wm \<noteq> 0" by (auto simp: rank_inv_def mask16_eq_0)
  with run inv show ?thesis by (auto simp: find_winners_def rank_inv_def)
qed

section \<open>Splits\<close>

lemma split_across_runouts_facts:
  assumes "k = 1 \<or> k = 2"
  shows "length (split_across_runouts amount k) = MAX_RUNOUTS"
    "sum_list (split_across_runouts amount k) = amount"
    "sum_list (take k (split_across_runouts amount k)) = amount"
    "x \<in> set (split_across_runouts amount k) \<Longrightarrow> x \<le> amount"
proof -
  have *: "amount div 2 + amount mod 2 + amount div 2 = amount" by presburger
  show "length (split_across_runouts amount k) = MAX_RUNOUTS"
    "sum_list (split_across_runouts amount k) = amount"
    "sum_list (take k (split_across_runouts amount k)) = amount"
    using assms * by (auto simp: split_across_runouts_def MAX_RUNOUTS_def)
  show "x \<le> amount" if "x \<in> set (split_across_runouts amount k)"
    using assms that * by (auto simp: split_across_runouts_def split: if_splits)
qed

definition clockwise :: "nat \<Rightarrow> nat \<Rightarrow> nat list" where
  "clockwise button n = map (\<lambda>offset. (button + offset) mod n) [1..<Suc n]"

lemma set_clockwise: "set (clockwise button n) = {..<n}"
proof (cases "n = 0")
  case False
  have "s \<in> set (clockwise button n)" if "s < n" for s
  proof -
    define o' where "o' = (s + n - button mod n - 1) mod n + 1"
    have m: "button mod n < n" using False by simp
    have "(button + o') mod n = (button mod n + o') mod n" by (simp add: mod_add_left_eq)
    also have "\<dots> = (button mod n + 1 + (s + n - button mod n - 1)) mod n"
      unfolding o'_def by (metis (no_types, lifting) add.assoc add.commute mod_add_right_eq)
    also have "button mod n + 1 + (s + n - button mod n - 1) = s + n" using m by linarith
    also have "(s + n) mod n = s" using that by simp
    finally have "(button + o') mod n = s" .
    moreover have "o' < Suc n" using mod_less_divisor[of n "s + n - button mod n - 1"] False
      unfolding o'_def by linarith
    then have "o' \<in> set [1..<Suc n]" unfolding set_upt atLeastLessThan_iff by (simp add: o'_def)
    ultimately show ?thesis unfolding clockwise_def set_map by blast
  qed
  then show ?thesis using False by (auto simp: clockwise_def simp del: upt_Suc)
qed (simp add: clockwise_def)

lemma distinct_clockwise: "distinct (clockwise button n)"
  by (rule card_distinct) (simp add: set_clockwise, simp add: clockwise_def)

text \<open>The winners in the order of the odd chips.\<close>

definition winners_clockwise :: "mask16 \<Rightarrow> nat \<Rightarrow> nat \<Rightarrow> nat list" where
  "winners_clockwise m button n = filter (bit m) (clockwise button n)"

lemma set_winners: "set (winners_clockwise m button n) = {s. s < n \<and> bit m s}"
  by (auto simp: winners_clockwise_def set_clockwise)

lemma distinct_winners: "distinct (winners_clockwise m button n)"
  by (simp add: winners_clockwise_def distinct_clockwise)

lemma length_winners: "length (winners_clockwise m button n) \<le> n"
  using length_filter_le[of "bit m" "clockwise button n"] by (simp add: winners_clockwise_def clockwise_def del: upt_Suc)

lemma order_winners_eq:
  assumes "n \<le> 16"
  shows "order_winners m button n = Inr (winners_clockwise m button n)"
proof -
  have "foldM (\<lambda>ordered offset.
         let seat = (button + offset) mod n in
         rbind (shl_u16 seat) (\<lambda>b. Inr (if m AND b \<noteq> 0 then ordered @ [seat] else ordered)))
       acc offsets = (Inr :: _ \<Rightarrow> (settlement_error, _) outcome) (acc @ filter (bit m) (map (\<lambda>offset. (button + offset) mod n) offsets))"
    if "0 < n \<or> offsets = []" for acc offsets
    using that
  proof (induction offsets arbitrary: acc)
    case (Cons o1 offsets)
    then have "0 < n" by simp
    then have "(button + o1) mod n < 16" using assms mod_less_divisor[of n "button + o1"] by linarith
    then have "(shl_u16 ((button + o1) mod n) :: (settlement_error, _) outcome) = Inr (seat_bit ((button + o1) mod n))" by (rule shl_u16_eq)
    moreover have "(m AND seat_bit ((button + o1) mod n) \<noteq> 0) = bit m ((button + o1) mod n)"
      using is_eligible_bit[of m] by (simp add: is_eligible_def)
    ultimately show ?case using Cons by (simp add: Let_def)
  qed simp
  from this[of "[1..<Suc n]" "[]"] show ?thesis
    by (simp add: order_winners_def winners_clockwise_def clockwise_def del: upt_Suc) (cases n; simp)
qed

definition odd_chip :: "nat \<Rightarrow> nat \<Rightarrow> nat \<Rightarrow> nat" where
  "odd_chip amount k position = amount div k + (if position < amount mod k then 1 else 0)"

lemma odd_chip_sum: "0 < k \<Longrightarrow> (\<Sum>p<k. odd_chip amount k p) = amount"
proof -
  assume k: "0 < k"
  have "(\<Sum>p<k. odd_chip amount k p) = k * (amount div k) + (\<Sum>p<k. if p < amount mod k then 1 else 0)"
    by (simp add: odd_chip_def sum.distrib)
  also have "(\<Sum>p<k. if p < amount mod k then 1 else (0::nat)) = card {p \<in> {..<k}. p < amount mod k}"
    by (simp add: sum.If_cases Int_def)
  also have "{p \<in> {..<k}. p < amount mod k} = {..<amount mod k}"
    using mod_less_divisor[OF k, of amount] by auto
  finally show ?thesis by simp
qed

lemma odd_chip_le: "0 < k \<Longrightarrow> odd_chip amount k p \<le> amount"
proof (cases "p < amount mod k")
  case True
  assume "0 < k"
  then have "amount div k \<le> k * (amount div k)" by simp
  moreover have "k * (amount div k) + amount mod k = amount" by simp
  ultimately have "amount div k + 1 \<le> amount" using True by linarith
  then show ?thesis using True by (simp add: odd_chip_def)
qed (simp add: odd_chip_def)

text \<open>What a split of \<open>amount\<close> among the winners \<open>ws\<close> looks like.\<close>

definition fair_split :: "nat \<Rightarrow> nat list \<Rightarrow> nat list \<Rightarrow> bool" where
  "fair_split amount ws awards \<longleftrightarrow>
     length awards = SETTLEMENT_SEATS \<and> sum_list awards = amount \<and>
     (\<forall>p < length ws. awards ! (ws ! p) = odd_chip amount (length ws) p) \<and>
     (\<forall>s < SETTLEMENT_SEATS. s \<notin> set ws \<longrightarrow> awards ! s = 0)"

lemma split_among_winners_eq:
  assumes n: "n \<le> SETTLEMENT_SEATS" and "amount < u64_limit" and some: "\<exists>s < n. bit m s"
  shows "\<exists>awards. split_among_winners amount m button n = Inr awards \<and>
     fair_split amount (winners_clockwise m button n) awards"
proof -
  let ?ws = "winners_clockwise m button n"
  let ?k = "length ?ws"
  obtain s where "s \<in> set ?ws" using some by (auto simp: set_winners)
  then have ne: "?ws \<noteq> []" by (rule list.set_cases) simp_all
  then have k: "0 < ?k" by simp
  have "(9 :: nat) < u64_limit" by code_simp
  then have small: "?k < u64_limit"
    using length_winners[of m button n] n unfolding SETTLEMENT_SEATS_eq by linarith
  have ord: "order_winners m button n = Inr ?ws" using n by (intro order_winners_eq) (simp add: SETTLEMENT_SEATS_eq)
  let ?f = "\<lambda>awards (position, seat).
      rbind (add_u64 (amount div ?k) (if position < amount mod ?k then 1 else 0) :: (settlement_error, nat) outcome)
        (\<lambda>v. set_idx awards seat v)"
  have "\<exists>aw. foldM ?f (replicate SETTLEMENT_SEATS 0) (enumerate 0 ?ws) = Inr aw \<and>
      (length aw = SETTLEMENT_SEATS \<and> sum_list aw = (\<Sum>p<length (enumerate 0 ?ws). odd_chip amount ?k p) \<and>
       (\<forall>p < length (enumerate 0 ?ws). aw ! (?ws ! p) = odd_chip amount ?k p) \<and>
       (\<forall>s < SETTLEMENT_SEATS. s \<notin> set (take (length (enumerate 0 ?ws)) ?ws) \<longrightarrow> aw ! s = 0))"
  proof (rule foldM_prefix_total[where I = "\<lambda>ys aw. length aw = SETTLEMENT_SEATS \<and>
       sum_list aw = (\<Sum>p<length ys. odd_chip amount ?k p) \<and>
       (\<forall>p < length ys. aw ! (?ws ! p) = odd_chip amount ?k p) \<and>
       (\<forall>s < SETTLEMENT_SEATS. s \<notin> set (take (length ys) ?ws) \<longrightarrow> aw ! s = 0)"], goal_cases)
    case 1
    show ?case by (simp add: sum_list_replicate)
  next
    case (2 ys x zs aw)
    note e = enumerate_split[OF 2(1)]
    let ?l = "length ys"
    have x: "x = (?l, ?ws ! ?l)" using e by simp
    have l: "?l < ?k" using e by simp
    have seat: "?ws ! ?l < SETTLEMENT_SEATS"
      using nth_mem[OF l] n by (simp add: set_winners)
    have fresh: "?ws ! ?l \<notin> set (take ?l ?ws)"
      using distinct_winners[of m button n] l by (auto simp: in_set_conv_nth distinct_conv_nth)
    have v: "(add_u64 (amount div ?k) (if ?l < amount mod ?k then 1 else 0) :: (settlement_error, nat) outcome) =
        Inr (odd_chip amount ?k ?l)"
      using odd_chip_le[OF k, of amount ?l] assms(2) by (simp add: add_u64_def odd_chip_def)
    have old: "aw ! (?ws ! ?l) = 0" using 2(2) fresh seat by blast
    have "?f aw x = Inr (aw[?ws ! ?l := odd_chip amount ?k ?l])"
      unfolding x prod.case v rbind_simps using seat 2(2) by (simp add: set_idx_def)
    moreover have "sum_list (aw[?ws ! ?l := odd_chip amount ?k ?l]) = sum_list aw + odd_chip amount ?k ?l"
      using sum_list_update_nat[of "?ws ! ?l" aw "odd_chip amount ?k ?l"] seat 2(2) old by simp
    moreover have "aw[?ws ! ?l := odd_chip amount ?k ?l] ! (?ws ! p) = odd_chip amount ?k p" if "p < Suc ?l" for p
    proof (cases "p = ?l")
      case True
      then show ?thesis using seat 2(2) by simp
    next
      case False
      then have "p < ?l" using that by simp
      then have "?ws ! p \<noteq> ?ws ! ?l"
        using distinct_winners[of m button n] l by (simp add: nth_eq_iff_index_eq)
      then show ?thesis using 2(2) \<open>p < ?l\<close> by simp
    qed
    moreover have "aw[?ws ! ?l := odd_chip amount ?k ?l] ! s = 0"
      if "s < SETTLEMENT_SEATS" "s \<notin> set (take (Suc ?l) ?ws)" for s
    proof -
      have "s \<noteq> ?ws ! ?l" "s \<notin> set (take ?l ?ws)"
        using that(2) by (simp_all add: take_Suc_conv_app_nth[OF l])
      then show ?thesis using 2(2) that(1) by simp
    qed
    moreover have "sum_list aw = (\<Sum>p<?l. odd_chip amount ?k p)" "length aw = SETTLEMENT_SEATS"
      using 2(2) by simp_all
    ultimately show ?case
      by (intro exI[of _ "aw[?ws ! ?l := odd_chip amount ?k ?l]"] conjI) simp_all
  qed
  then show ?thesis
    using ne small ord odd_chip_sum[OF k, of amount]
    by (auto simp: split_among_winners_def Let_def fair_split_def)
qed

end
