(* ===== verification/Derive.thy ===== *)
theory Derive
  imports Awards
begin

text \<open>
  \<^verbatim>\<open>poker-settlement-core/src/derive.rs\<close>, third part: \<open>derive_settlement_plan\<close>, from an
  authenticated table snapshot and the boards to the settlement plan.
\<close>

section \<open>The derivation\<close>

definition contested_gross :: "side_pot list \<Rightarrow> (settlement_error, nat) outcome" where
  "contested_gross pots =
     foldM (\<lambda>sum pot. if contested pot
         then ok_or ContestedSumOverflow (checked_add_u64 sum (sp_amount pot)) else Inr sum) 0 pots"

text \<open>One runout of a contested pot; the state is \<open>runouts\<close>, \<open>plan.winner_mask\<close>, \<open>plan.awards\<close>.\<close>

definition settle_runout ::
  "table_snapshot \<Rightarrow> settlement_boards \<Rightarrow> side_pot \<Rightarrow> nat list \<Rightarrow>
   runout_pot_plan list \<times> mask16 \<times> nat list \<Rightarrow> nat \<Rightarrow>
   (settlement_error, runout_pot_plan list \<times> mask16 \<times> nat list) outcome" where
  "settle_runout snapshot b side_pot runout_amounts st runout_index =
     (case st of (runouts, plan_mask, plan_awards) \<Rightarrow>
      rbind (find_winners snapshot (sp_eligible side_pot) (board b runout_index)) (\<lambda>(winner_mask, ranks).
      rbind (idx runout_amounts runout_index) (\<lambda>amount.
      rbind (split_among_winners amount winner_mask (ts_button snapshot) (ts_seat_count snapshot)) (\<lambda>awards.
      rbind (set_idx runouts runout_index
               \<lparr>rp_amount = amount, rp_winner_mask = winner_mask, rp_ranks = ranks, rp_awards = awards\<rparr>)
        (\<lambda>runouts'.
      rbind (add_awards AggregateAwardOverflow plan_awards awards) (\<lambda>plan_awards'.
      Inr (runouts', plan_mask OR winner_mask, plan_awards')))))))"

text \<open>One side pot; the state is \<open>plan.winner_mask\<close>, \<open>plan.awards\<close> and \<open>plan.pots\<close>.\<close>

definition settle_pot ::
  "table_snapshot \<Rightarrow> settlement_boards \<Rightarrow> nat list \<Rightarrow>
   mask16 \<times> nat list \<times> settlement_pot_plan list \<Rightarrow> nat \<times> side_pot \<Rightarrow>
   (settlement_error, mask16 \<times> nat list \<times> settlement_pot_plan list) outcome" where
  "settle_pot snapshot b pot_rakes st ip =
     (case st of (plan_mask, plan_awards, pots) \<Rightarrow> case ip of (pot_index, side_pot) \<Rightarrow>
      if sp_amount side_pot = 0 \<or> sp_eligible side_pot = 0 then Inl (Fail (PotEmpty pot_index))
      else
        rbind (idx pot_rakes pot_index) (\<lambda>pot_rake.
        rbind (ok_or PotRakeExceedsGross (checked_sub_u64 (sp_amount side_pot) pot_rake)) (\<lambda>net_amount.
        rbind
          (if contested side_pot then
             foldM (settle_runout snapshot b side_pot (split_across_runouts net_amount (runout_count b)))
               ([runout_inactive, runout_inactive], plan_mask, plan_awards) [0..<runout_count b]
           else
             let winner_mask = sp_eligible side_pot in
             rbind (split_among_winners net_amount winner_mask (ts_button snapshot) (ts_seat_count snapshot))
               (\<lambda>awards.
             rbind (add_awards AggregateAwardOverflow plan_awards awards) (\<lambda>plan_awards'.
             Inr ([\<lparr>rp_amount = net_amount, rp_winner_mask = winner_mask,
                    rp_ranks = replicate SETTLEMENT_SEATS None, rp_awards = awards\<rparr>, runout_inactive],
                  plan_mask OR winner_mask, plan_awards'))))
          (\<lambda>(runouts, plan_mask', plan_awards').
        rbind (if pot_index < 256 then Inr pot_index else Inl (Fail PotIndexExceedsU8)) (\<lambda>index.
        Inr (plan_mask', plan_awards',
             pots @ [\<lparr>pp_pot_index = index, pp_gross = sp_amount side_pot, pp_rake = pot_rake,
                      pp_net = net_amount, pp_eligible = sp_eligible side_pot,
                      pp_runouts = runouts\<rparr>]))))))"

definition derive_settlement_plan ::
  "table_snapshot \<Rightarrow> settlement_boards \<Rightarrow> (settlement_error, settlement_plan) outcome" where
  "derive_settlement_plan snapshot b =
     rbind (boards_validate b) (\<lambda>_.
     if ts_seat_count snapshot > SETTLEMENT_SEATS then Inl (Fail TableExceedsMaxPlayers)
     else if ts_seat_count snapshot \<noteq> length (ts_total_bets snapshot) \<or>
             ts_seat_count snapshot \<noteq> length (ts_inactive snapshot) \<or>
             ts_seat_count snapshot \<noteq> length (ts_all_in snapshot) \<or>
             ts_seat_count snapshot \<noteq> length (ts_hole_cards snapshot) then Inl (Fail SnapshotLengths)
     else if ts_button snapshot \<ge> max (ts_seat_count snapshot) 1 then Inl (Fail ButtonOutside)
     else
       rbind (validate_exposed_cards snapshot b) (\<lambda>_.
       rbind (map_err SidePotFailed
                (calculate_side_pots (ts_total_bets snapshot) (ts_inactive snapshot) (ts_all_in snapshot)))
         (\<lambda>side_pots.
       if length side_pots > SETTLEMENT_SEATS then Inl (Fail SidePotCountExceeds)
       else
         rbind (pots_total side_pots) (\<lambda>gross_pot.
         if gross_pot > MAX_TOTAL_BET then Inl (Fail (ContributionExceeds gross_pot))
         else
           rbind (contested_gross side_pots) (\<lambda>contested_sum.
           rbind (compute_rake snapshot contested_sum) (\<lambda>rake.
           rbind (allocate_rake side_pots rake contested_sum) (\<lambda>pot_rakes.
           rbind (foldM (settle_pot snapshot b pot_rakes) (0, replicate SETTLEMENT_SEATS 0, [])
                    (enumerate 0 side_pots)) (\<lambda>(winner_mask, awards, pots).
           rbind (sum_amounts TotalAwardOverflow awards) (\<lambda>total_awards.
           let plan = \<lparr>pl_version = SETTLEMENT_PLAN_VERSION, pl_schedule = schedule b,
                       pl_gross_pot = gross_pot, pl_rake = rake, pl_total_awards = total_awards,
                       pl_winner_mask = winner_mask, pl_awards = awards, pl_pots = pots\<rparr> in
           rbind (validate plan (ts_seat_count snapshot)) (\<lambda>_. Inr plan))))))))))"

section \<open>One settled runout and one settled pot\<close>

text \<open>A ranked runout: the best eligible hands share the amount.\<close>

definition runout_settled ::
  "table_snapshot \<Rightarrow> mask16 \<Rightarrow> nat list \<Rightarrow> nat \<Rightarrow> runout_pot_plan \<Rightarrow> bool" where
  "runout_settled snapshot m cards amount r \<longleftrightarrow>
     rp_amount r = amount \<and> rp_winner_mask r \<noteq> 0 \<and>
     (\<forall>j. bit (rp_winner_mask r) j \<longleftrightarrow> wins_upto snapshot m cards (ts_seat_count snapshot) j) \<and>
     rp_ranks r = ranks_upto snapshot m cards (ts_seat_count snapshot) \<and>
     fair_split amount
       (winners_clockwise (rp_winner_mask r) (ts_button snapshot) (ts_seat_count snapshot)) (rp_awards r)"

text \<open>An uncontested pot goes to its only seat.\<close>

definition runout_returned :: "table_snapshot \<Rightarrow> mask16 \<Rightarrow> nat \<Rightarrow> runout_pot_plan \<Rightarrow> bool" where
  "runout_returned snapshot m amount r \<longleftrightarrow>
     rp_amount r = amount \<and> rp_winner_mask r = m \<and> rp_ranks r = replicate SETTLEMENT_SEATS None \<and>
     fair_split amount (winners_clockwise m (ts_button snapshot) (ts_seat_count snapshot)) (rp_awards r)"

definition pot_settled ::
  "table_snapshot \<Rightarrow> settlement_boards \<Rightarrow> nat \<Rightarrow> side_pot \<Rightarrow> nat \<Rightarrow> settlement_pot_plan \<Rightarrow> bool" where
  "pot_settled snapshot b i p rake pp \<longleftrightarrow>
     pp_pot_index pp = i \<and> pp_gross pp = sp_amount p \<and> pp_rake pp = rake \<and>
     pp_net pp = sp_amount p - rake \<and> pp_eligible pp = sp_eligible p \<and>
     (\<exists>r0 r1. pp_runouts pp = [r0, r1] \<and>
        (if contested p then
           runout_settled snapshot (sp_eligible p) (board1 b)
             (split_across_runouts (sp_amount p - rake) (runout_count b) ! 0) r0 \<and>
           (if runout_count b = 2 then
              runout_settled snapshot (sp_eligible p) (board2 b)
                (split_across_runouts (sp_amount p - rake) (runout_count b) ! 1) r1
            else r1 = runout_inactive)
         else runout_returned snapshot (sp_eligible p) (sp_amount p - rake) r0 \<and> r1 = runout_inactive))"

text \<open>What a pot adds to the plan's aggregates.\<close>

definition add_pot_awards :: "nat list \<Rightarrow> settlement_pot_plan \<Rightarrow> nat list" where
  "add_pot_awards aw pp = foldl (\<lambda>aw r. map2 (+) aw (rp_awards r)) aw (pp_runouts pp)"

definition pot_mask :: "settlement_pot_plan \<Rightarrow> mask16" where
  "pot_mask pp = foldl (\<lambda>m r. m OR rp_winner_mask r) 0 (pp_runouts pp)"

lemma fair_split_length [simp]: "fair_split a ws aw \<Longrightarrow> length aw = SETTLEMENT_SEATS"
  and fair_split_sum [simp]: "fair_split a ws aw \<Longrightarrow> sum_list aw = a"
  by (simp_all add: fair_split_def)

lemma add_awards_within:
  assumes "length aw = SETTLEMENT_SEATS" "length ra = SETTLEMENT_SEATS" "sum_list aw + sum_list ra < u64_limit"
  shows "add_awards err aw ra = Inr (map2 (+) aw ra)"
proof (rule add_awards_total)
  show "\<forall>i < length aw. aw ! i + ra ! i < u64_limit"
  proof (intro allI impI)
    fix i assume "i < length aw"
    then show "aw ! i + ra ! i < u64_limit"
      using nth_le_sum[of i aw] nth_le_sum[of i ra] assms by simp
  qed
qed (use assms in simp)

lemma map2_add_zero: "length aw = n \<Longrightarrow> map2 (+) aw (replicate n (0 :: nat)) = aw"
  by (induction aw arbitrary: n) auto

text \<open>The seats a pot lists are at the table and have shown two cards.\<close>

definition pot_seats_ok :: "table_snapshot \<Rightarrow> mask16 \<Rightarrow> bool" where
  "pot_seats_ok snapshot m \<longleftrightarrow> m \<noteq> 0 \<and>
     (\<forall>j. bit m j \<longrightarrow> j < ts_seat_count snapshot \<and> length (ts_hole_cards snapshot ! j) = 2)"

definition table_ok :: "table_snapshot \<Rightarrow> bool" where
  "table_ok snapshot \<longleftrightarrow>
     ts_seat_count snapshot \<le> SETTLEMENT_SEATS \<and>
     length (ts_total_bets snapshot) = ts_seat_count snapshot \<and>
     length (ts_inactive snapshot) = ts_seat_count snapshot \<and>
     length (ts_all_in snapshot) = ts_seat_count snapshot \<and>
     length (ts_hole_cards snapshot) = ts_seat_count snapshot \<and>
     ts_button snapshot < max (ts_seat_count snapshot) 1"

lemma pot_seats_some: "pot_seats_ok snapshot m \<Longrightarrow> \<exists>j < ts_seat_count snapshot. bit m j"
  by (auto simp: pot_seats_ok_def mask16_eq_0)

lemma settle_runout_eq:
  assumes "table_ok snapshot" "pot_seats_ok snapshot (sp_eligible p)"
    and "k < length runouts" "k < length amounts"
    and "length aw = SETTLEMENT_SEATS" "sum_list aw + amounts ! k < u64_limit"
  shows "\<exists>r. settle_runout snapshot b p amounts (runouts, wm, aw) k =
      Inr (runouts[k := r], wm OR rp_winner_mask r, map2 (+) aw (rp_awards r)) \<and>
    runout_settled snapshot (sp_eligible p) (board b k) (amounts ! k) r"
proof -
  let ?n = "ts_seat_count snapshot"
  obtain m where m: "find_winners snapshot (sp_eligible p) (board b k) =
      Inr (m, ranks_upto snapshot (sp_eligible p) (board b k) ?n)"
    "m \<noteq> 0" "\<forall>j. bit m j \<longleftrightarrow> wins_upto snapshot (sp_eligible p) (board b k) ?n j"
    using find_winners_eq[of snapshot "sp_eligible p" "board b k"] assms(1,2) pot_seats_some[OF assms(2)]
    by (auto simp: table_ok_def pot_seats_ok_def)
  have "\<exists>s < ?n. bit m s" using m(2,3) by (auto simp: mask16_eq_0 wins_upto_def)
  moreover have "amounts ! k < u64_limit" "?n \<le> SETTLEMENT_SEATS" using assms(1,6) by (simp_all add: table_ok_def)
  ultimately obtain ra where ra: "split_among_winners (amounts ! k) m (ts_button snapshot) ?n = Inr ra"
    "fair_split (amounts ! k) (winners_clockwise m (ts_button snapshot) ?n) ra"
    using split_among_winners_eq by blast
  define r where "r = \<lparr>rp_amount = amounts ! k, rp_winner_mask = m,
      rp_ranks = ranks_upto snapshot (sp_eligible p) (board b k) ?n, rp_awards = ra\<rparr>"
  have "add_awards AggregateAwardOverflow aw ra = Inr (map2 (+) aw ra)"
    using assms(5,6) ra(2) by (intro add_awards_within) simp_all
  then have "settle_runout snapshot b p amounts (runouts, wm, aw) k =
      Inr (runouts[k := r], wm OR rp_winner_mask r, map2 (+) aw (rp_awards r))"
    using m ra assms(3,4) by (simp add: settle_runout_def idx_def set_idx_def r_def)
  moreover have "runout_settled snapshot (sp_eligible p) (board b k) (amounts ! k) r"
    using m ra by (simp add: r_def runout_settled_def)
  ultimately show ?thesis by blast
qed

lemma upt_runouts: "[0..<1] = [0 :: nat]" "[0..<2] = [0, 1 :: nat]"
  by (simp_all add: upt_conv_Cons)

lemma board_index [simp]: "board b 0 = board1 b" "board b 1 = board2 b" "board b (Suc 0) = board2 b"
  by (simp_all add: board_def)

lemma map2_add_sum:
  "length aw = SETTLEMENT_SEATS \<Longrightarrow> length ra = SETTLEMENT_SEATS \<Longrightarrow>
   length (map2 (+) aw ra) = SETTLEMENT_SEATS \<and> sum_list (map2 (+) aw ra) = sum_list aw + (sum_list ra :: nat)"
  by (simp add: sum_list_map2_add)

lemma settled_awards:
  "runout_settled snapshot m cards amount r \<Longrightarrow> length (rp_awards r) = SETTLEMENT_SEATS \<and> sum_list (rp_awards r) = amount"
  "runout_returned snapshot m amount r \<Longrightarrow> length (rp_awards r) = SETTLEMENT_SEATS \<and> sum_list (rp_awards r) = amount"
  by (auto simp: runout_settled_def runout_returned_def)

lemma settle_contested:
  fixes b :: settlement_boards
  assumes ok: "table_ok snapshot" "pot_seats_ok snapshot (sp_eligible p)"
    and aw: "length aw = SETTLEMENT_SEATS" "sum_list aw + net < u64_limit"
  defines "amounts \<equiv> split_across_runouts net (runout_count b)"
  shows "\<exists>r0 r1. foldM (settle_runout snapshot b p amounts) ([runout_inactive, runout_inactive], wm, aw)
        [0..<runout_count b] =
      Inr ([r0, r1], wm OR (rp_winner_mask r0 OR rp_winner_mask r1),
           map2 (+) (map2 (+) aw (rp_awards r0)) (rp_awards r1)) \<and>
      runout_settled snapshot (sp_eligible p) (board1 b) (amounts ! 0) r0 \<and>
      (if runout_count b = 2 then runout_settled snapshot (sp_eligible p) (board2 b) (amounts ! 1) r1
       else r1 = runout_inactive)"
proof -
  have len: "length amounts = 2" and sum: "amounts ! 0 + amounts ! 1 = net"
    using split_across_runouts_facts(1,2)[OF runout_count_cases[of b], of net]
    by (auto simp: amounts_def MAX_RUNOUTS_def split_across_runouts_def split: if_splits)
  obtain r0 where r0: "settle_runout snapshot b p amounts ([runout_inactive, runout_inactive], wm, aw) 0 =
      Inr ([r0, runout_inactive], wm OR rp_winner_mask r0, map2 (+) aw (rp_awards r0))"
    "runout_settled snapshot (sp_eligible p) (board1 b) (amounts ! 0) r0"
    using settle_runout_eq[OF ok, of 0 "[runout_inactive, runout_inactive]" amounts aw b wm] len sum aw by auto
  note a0 = settled_awards(1)[OF r0(2)]
  show ?thesis
  proof (cases "runout_count b = 2")
    case True
    have "length (map2 (+) aw (rp_awards r0)) = SETTLEMENT_SEATS"
      "sum_list (map2 (+) aw (rp_awards r0)) + amounts ! 1 < u64_limit"
      using map2_add_sum[OF aw(1), of "rp_awards r0"] a0 aw(2) sum by simp_all
    then obtain r1 where "settle_runout snapshot b p amounts
        ([r0, runout_inactive], wm OR rp_winner_mask r0, map2 (+) aw (rp_awards r0)) 1 =
        Inr ([r0, r1], (wm OR rp_winner_mask r0) OR rp_winner_mask r1,
             map2 (+) (map2 (+) aw (rp_awards r0)) (rp_awards r1))"
      "runout_settled snapshot (sp_eligible p) (board2 b) (amounts ! 1) r1"
      using settle_runout_eq[OF ok, of 1 "[r0, runout_inactive]" amounts "map2 (+) aw (rp_awards r0)" b
          "wm OR rp_winner_mask r0"] len by auto
    with r0 True show ?thesis
      by (intro exI[of _ r0] exI[of _ r1]) (simp add: upt_runouts or.assoc del: One_nat_def)
  next
    case False
    then have "runout_count b = 1" using runout_count_cases[of b] by simp
    moreover have "map2 (+) (map2 (+) aw (rp_awards r0)) (rp_awards runout_inactive) = map2 (+) aw (rp_awards r0)"
      using map2_add_sum[OF aw(1), of "rp_awards r0"] a0 by (simp add: map2_add_zero)
    ultimately show ?thesis
      using r0 by (intro exI[of _ r0] exI[of _ runout_inactive]) (simp add: upt_runouts del: One_nat_def upt_Suc)
  qed
qed

lemma settle_pot_eq:
  assumes ok: "table_ok snapshot" "pot_seats_ok snapshot (sp_eligible p)" and "0 < sp_amount p"
    and rake: "i < length rakes" "rakes ! i \<le> sp_amount p" "i < 256"
    and aw: "length aw = SETTLEMENT_SEATS" "sum_list aw + sp_amount p < u64_limit"
  shows "\<exists>pp. settle_pot snapshot b rakes (wm, aw, pps) (i, p) =
      Inr (wm OR pot_mask pp, add_pot_awards aw pp, pps @ [pp]) \<and> pot_settled snapshot b i p (rakes ! i) pp"
proof -
  let ?net = "sp_amount p - rakes ! i"
  have elig: "sp_eligible p \<noteq> 0" using ok(2) by (simp add: pot_seats_ok_def)
  have net: "sum_list aw + ?net < u64_limit" using aw(2) by linarith
  define mk where "mk rs = \<lparr>pp_pot_index = i, pp_gross = sp_amount p, pp_rake = rakes ! i,
      pp_net = ?net, pp_eligible = sp_eligible p, pp_runouts = rs\<rparr>" for rs
  show ?thesis
  proof (cases "contested p")
    case True
    obtain r0 r1 where r: "foldM (settle_runout snapshot b p (split_across_runouts ?net (runout_count b)))
        ([runout_inactive, runout_inactive], wm, aw) [0..<runout_count b] =
      Inr ([r0, r1], wm OR (rp_winner_mask r0 OR rp_winner_mask r1),
           map2 (+) (map2 (+) aw (rp_awards r0)) (rp_awards r1))"
      and s: "runout_settled snapshot (sp_eligible p) (board1 b) (split_across_runouts ?net (runout_count b) ! 0) r0"
      "if runout_count b = 2
       then runout_settled snapshot (sp_eligible p) (board2 b) (split_across_runouts ?net (runout_count b) ! 1) r1
       else r1 = runout_inactive"
      using settle_contested[OF ok aw(1) net, of b wm] by blast
    have "settle_pot snapshot b rakes (wm, aw, pps) (i, p) =
        Inr (wm OR (rp_winner_mask r0 OR rp_winner_mask r1),
           map2 (+) (map2 (+) aw (rp_awards r0)) (rp_awards r1), pps @ [mk [r0, r1]])"
      using True r elig assms(3) rake
      by (simp add: settle_pot_def idx_def ok_or_def checked_sub_u64_def mk_def)
    moreover have "pot_settled snapshot b i p (rakes ! i) (mk [r0, r1])"
      using True s by (simp add: pot_settled_def mk_def)
    ultimately show ?thesis
      by (intro exI[of _ "mk [r0, r1]"]) (simp add: pot_mask_def add_pot_awards_def mk_def)
  next
    case False
    obtain ra where ra: "split_among_winners ?net (sp_eligible p) (ts_button snapshot) (ts_seat_count snapshot) = Inr ra"
      "fair_split ?net (winners_clockwise (sp_eligible p) (ts_button snapshot) (ts_seat_count snapshot)) ra"
      using split_among_winners_eq[of "ts_seat_count snapshot" ?net "sp_eligible p"] ok(1) net
        pot_seats_some[OF ok(2)] by (auto simp: table_ok_def)
    define r where "r = \<lparr>rp_amount = ?net, rp_winner_mask = sp_eligible p,
        rp_ranks = replicate SETTLEMENT_SEATS None, rp_awards = ra\<rparr>"
    have "add_awards AggregateAwardOverflow aw ra = Inr (map2 (+) aw ra)"
      using aw(1) net ra(2) by (intro add_awards_within) simp_all
    then have "settle_pot snapshot b rakes (wm, aw, pps) (i, p) =
        Inr (wm OR sp_eligible p, map2 (+) aw ra, pps @ [mk [r, runout_inactive]])"
      using False ra(1) elig assms(3) rake
      by (simp add: settle_pot_def idx_def ok_or_def checked_sub_u64_def mk_def Let_def r_def)
    moreover have "pot_settled snapshot b i p (rakes ! i) (mk [r, runout_inactive])"
      using False ra(2) by (simp add: pot_settled_def mk_def runout_returned_def r_def)
    moreover have "map2 (+) (map2 (+) aw ra) (replicate SETTLEMENT_SEATS 0) = map2 (+) aw ra"
      using map2_add_sum[OF aw(1), of ra] ra(2) by (intro map2_add_zero) simp
    ultimately show ?thesis
      by (intro exI[of _ "mk [r, runout_inactive]"]) (simp add: pot_mask_def add_pot_awards_def mk_def r_def)
  qed
qed

section \<open>A settled pot passes the validation\<close>

lemma settled_within: "runout_settled snapshot m cards amount r \<Longrightarrow> rp_winner_mask r AND NOT m = 0"
  unfolding mask16_eq_0 runout_settled_def by (auto simp: bit_and_iff bit_not_iff wins_upto_def)

lemma validate_settled_runout:
  assumes r: "runout_settled snapshot (pp_eligible pp) cards amount r"
    and "pot_is_contested pp" "k < active"
    and "length aw = SETTLEMENT_SEATS" "sum_list aw + amount < u64_limit" "t + amount < u64_limit"
  shows "validate_runout pp active (t, aw, wm) (k, r) =
    Inr (t + amount, map2 (+) aw (rp_awards r), wm OR rp_winner_mask r)"
proof -
  note a = settled_awards(1)[OF r]
  have "sum_amounts RunoutAwardOverflow (rp_awards r) = Inr amount" using a assms(5) by (simp add: sum_amounts_eq)
  moreover have "add_awards SeatAwardOverflow aw (rp_awards r) = Inr (map2 (+) aw (rp_awards r))"
    using assms(4,5) a by (intro add_awards_within) simp_all
  moreover have "rp_amount r = amount" "runout_is_active r"
    using r by (simp_all add: runout_settled_def runout_is_active_def)
  ultimately show ?thesis
    using assms(2,3,6) settled_within[OF r]
    by (simp add: validate_runout_def ok_or_def checked_add_u64_def)
qed

lemma validate_returned_runout:
  assumes r: "runout_returned snapshot (pp_eligible pp) (pp_net pp) r"
    and "pp_eligible pp \<noteq> 0" "length aw = SETTLEMENT_SEATS" "sum_list aw + pp_net pp < u64_limit"
  shows "validate_runout pp 1 (0, aw, wm) (0, r) =
    Inr (pp_net pp, map2 (+) aw (rp_awards r), wm OR rp_winner_mask r)"
proof -
  note a = settled_awards(2)[OF r]
  have "sum_amounts RunoutAwardOverflow (rp_awards r) = Inr (pp_net pp)" using a assms(4) by (simp add: sum_amounts_eq)
  moreover have "add_awards SeatAwardOverflow aw (rp_awards r) = Inr (map2 (+) aw (rp_awards r))"
    using assms(3,4) a by (intro add_awards_within) simp_all
  moreover have "rp_amount r = pp_net pp" "runout_is_active r" "rp_winner_mask r = pp_eligible pp"
    "\<not> list_ex (\<lambda>k. k \<noteq> None) (rp_ranks r)"
    using r assms(2) by (simp_all add: runout_returned_def runout_is_active_def list_ex_iff)
  ultimately show ?thesis
    using assms(4) by (simp add: validate_runout_def ok_or_def checked_add_u64_def)
qed

lemma validate_inactive_runout:
  "active \<le> k \<Longrightarrow> length aw = SETTLEMENT_SEATS \<Longrightarrow> validate_runout pp active (t, aw, wm) (k, runout_inactive) =
    Inr (t, map2 (+) aw (rp_awards runout_inactive), wm OR rp_winner_mask runout_inactive)"
  by (simp add: validate_runout_def map2_add_zero)

lemma validate_settled_pot:
  assumes s: "pot_settled snapshot b i p rake pp"
    and "sp_eligible p \<noteq> 0" "rake \<le> sp_amount p" "\<not> contested p \<Longrightarrow> rake = 0"
    and aw: "length aw = SETTLEMENT_SEATS" "sum_list aw + sp_amount p < u64_limit"
    and "g + sp_amount p < u64_limit" "k + rake < u64_limit"
  shows "validate_pot (schedule b) (g, k, aw, wm) (i, pp) =
      Inr (g + sp_amount p, k + rake, add_pot_awards aw pp, wm OR pot_mask pp)"
proof -
  from s obtain r0 r1 where pp: "pp_pot_index pp = i" "pp_gross pp = sp_amount p" "pp_rake pp = rake"
    "pp_net pp = sp_amount p - rake" "pp_eligible pp = sp_eligible p" "pp_runouts pp = [r0, r1]"
    by (auto simp: pot_settled_def)
  have c: "pot_is_contested pp \<longleftrightarrow> contested p" by (simp add: pot_is_contested_def contested_def pp)
  let ?active = "if contested p then runout_count b else 1" and ?net = "sp_amount p - rake"
  have net: "sum_list aw + ?net < u64_limit" using aw(2) by linarith
  have both: "foldM (validate_runout pp ?active) (0, aw, wm) [(0, r0), (1, r1)] =
      Inr (?net, add_pot_awards aw pp, wm OR pot_mask pp)"
  proof (cases "contested p")
    case True
    let ?am = "split_across_runouts ?net (runout_count b)"
    from s True pp have r: "runout_settled snapshot (pp_eligible pp) (board1 b) (?am ! 0) r0"
      "if runout_count b = 2 then runout_settled snapshot (pp_eligible pp) (board2 b) (?am ! 1) r1
       else r1 = runout_inactive"
      by (cases "runout_count b = 2"; simp add: pot_settled_def)+
    have sum: "?am ! 0 + ?am ! 1 = ?net"
      using split_across_runouts_facts(2)[OF runout_count_cases[of b], of ?net]
      by (auto simp: split_across_runouts_def split: if_splits)
    have pos: "0 < ?active" using runout_count_cases[of b] True by auto
    have v0: "validate_runout pp ?active (0, aw, wm) (0, r0) =
        Inr (?am ! 0, map2 (+) aw (rp_awards r0), wm OR rp_winner_mask r0)"
      using validate_settled_runout[OF r(1) _ pos aw(1), of 0 wm] True c sum net by simp
    have aw': "length (map2 (+) aw (rp_awards r0)) = SETTLEMENT_SEATS"
      "sum_list (map2 (+) aw (rp_awards r0)) = sum_list aw + ?am ! 0"
      using map2_add_sum[OF aw(1), of "rp_awards r0"] settled_awards(1)[OF r(1)] by simp_all
    show ?thesis
    proof (cases "runout_count b = 2")
      case two: True
      have "validate_runout pp ?active (?am ! 0, map2 (+) aw (rp_awards r0), wm OR rp_winner_mask r0) (1, r1) =
        Inr (?am ! 0 + ?am ! 1, map2 (+) (map2 (+) aw (rp_awards r0)) (rp_awards r1),
             (wm OR rp_winner_mask r0) OR rp_winner_mask r1)"
        by (rule validate_settled_runout) (use r two True c sum net aw' in auto)
      then show ?thesis using v0 sum by (simp add: add_pot_awards_def pot_mask_def pp or.assoc)
    next
      case False
      then have one: "?active \<le> 1" "r1 = runout_inactive" "?am ! 1 = 0"
        using runout_count_cases[of b] r(2) by (auto simp: split_across_runouts_def)
      then show ?thesis
        using v0 sum validate_inactive_runout[OF one(1) aw'(1)]
        by (simp add: add_pot_awards_def pot_mask_def pp)
    qed
  next
    case False
    from s False pp have r: "runout_returned snapshot (pp_eligible pp) (pp_net pp) r0" "r1 = runout_inactive"
      by (simp_all add: pot_settled_def)
    have "length (map2 (+) aw (rp_awards r0)) = SETTLEMENT_SEATS"
      using map2_add_sum[OF aw(1), of "rp_awards r0"] settled_awards(2)[OF r(1)] by simp
    then show ?thesis
      using validate_returned_runout[OF r(1) _ aw(1), of wm] validate_inactive_runout[of 1 1] False assms(2) net r(2)
      by (simp add: add_pot_awards_def pot_mask_def pp)
  qed
  have two: "enumerate 0 (pp_runouts pp) = [(0, r0), (1, r1)]" by (simp add: pp enumerate_eq_zip upt_runouts)
  obtain active where active:
    "(if pot_is_contested pp then schedule_count (schedule b) else 1) = active" "?active = active"
    using c by auto
  have run: "foldM (validate_runout pp active) (0, aw, wm) (enumerate 0 (pp_runouts pp)) =
      Inr (?net, add_pot_awards aw pp, wm OR pot_mask pp)"
    unfolding two active(2)[symmetric] by (rule both)
  have "\<not> (\<not> pot_is_contested pp \<and> pp_rake pp \<noteq> 0)" using c assms(4) pp(3) by auto
  then show ?thesis
    unfolding validate_pot_def prod.case Let_def active(1) run
    using assms(2,3,7,8) pp(1-5) by (simp add: ok_or_def checked_add_u64_def checked_sub_u64_def)
qed

section \<open>The whole plan\<close>

definition side_pots_of :: "table_snapshot \<Rightarrow> (side_pot_error, side_pot list) outcome" where
  "side_pots_of snapshot =
     calculate_side_pots (ts_total_bets snapshot) (ts_inactive snapshot) (ts_all_in snapshot)"

text \<open>The conditions under which a plan exists.\<close>

definition live_contributor :: "table_snapshot \<Rightarrow> bool" where
  "live_contributor snapshot \<longleftrightarrow>
     (\<exists>j < ts_seat_count snapshot. 0 < ts_total_bets snapshot ! j \<and> \<not> ts_inactive snapshot ! j)"

definition snapshot_ok :: "table_snapshot \<Rightarrow> settlement_boards \<Rightarrow> bool" where
  "snapshot_ok snapshot b \<longleftrightarrow>
     boards_ok b \<and> table_ok snapshot \<and> exposed_ok snapshot b \<and>
     sum_list (ts_total_bets snapshot) \<le> MAX_TOTAL_BET \<and> rake_mode_ok snapshot \<and> live_contributor snapshot"

text \<open>What the plan of a snapshot is.\<close>

definition plan_spec :: "table_snapshot \<Rightarrow> settlement_boards \<Rightarrow> settlement_plan \<Rightarrow> bool" where
  "plan_spec snapshot b plan \<longleftrightarrow>
     (\<exists>pots rakes. side_pots_of snapshot = Inr pots \<and>
        pl_version plan = SETTLEMENT_PLAN_VERSION \<and> pl_schedule plan = schedule b \<and>
        pl_gross_pot plan = sum_list (ts_total_bets snapshot) \<and>
        pl_rake plan = rake_spec snapshot (contested_sum pots) \<and>
        pl_total_awards plan = sum_list (pl_awards plan) \<and>
        rake_split pots (pl_rake plan) rakes \<and>
        length (pl_pots plan) = length pots \<and>
        (\<forall>i < length pots. pot_settled snapshot b i (pots ! i) (rakes ! i) (pl_pots plan ! i)) \<and>
        pl_awards plan = foldl add_pot_awards (replicate SETTLEMENT_SEATS 0) (pl_pots plan) \<and>
        pl_winner_mask plan = foldl (\<lambda>m pp. m OR pot_mask pp) 0 (pl_pots plan))"

lemma contested_gross_from:
  "t + contested_sum pots < u64_limit \<Longrightarrow>
   foldM (\<lambda>sum pot. if contested pot
         then ok_or ContestedSumOverflow (checked_add_u64 sum (sp_amount pot)) else Inr sum) t pots =
   Inr (t + contested_sum pots)"
proof (induction pots arbitrary: t)
  case (Cons p pots)
  show ?case
  proof (cases "contested p")
    case True
    then show ?thesis
      using Cons.IH[of "t + sp_amount p"] Cons.prems by (simp add: ok_or_def checked_add_u64_def add.assoc)
  qed (use Cons in simp)
qed simp

lemma contested_gross_eq: "contested_sum pots < u64_limit \<Longrightarrow> contested_gross pots = Inr (contested_sum pots)"
  using contested_gross_from[of 0 pots] by (simp add: contested_gross_def)

lemma pot_settled_net: "pot_settled snapshot b i p rake pp \<Longrightarrow> pp_net pp = sp_amount p - rake"
  by (simp add: pot_settled_def)

lemma pot_settled_awards:
  assumes "pot_settled snapshot b i p rake pp" "length aw = SETTLEMENT_SEATS"
  shows "length (add_pot_awards aw pp) = SETTLEMENT_SEATS \<and>
         sum_list (add_pot_awards aw pp) = sum_list aw + (sp_amount p - rake)"
proof -
  from assms(1) obtain r0 r1 where rs: "pp_runouts pp = [r0, r1]"
    and "length (rp_awards r0) = SETTLEMENT_SEATS" "length (rp_awards r1) = SETTLEMENT_SEATS"
      "sum_list (rp_awards r0) + sum_list (rp_awards r1) = sp_amount p - rake"
  proof -
    assume that: "\<And>r0 r1. pp_runouts pp = [r0, r1] \<Longrightarrow> length (rp_awards r0) = SETTLEMENT_SEATS \<Longrightarrow>
      length (rp_awards r1) = SETTLEMENT_SEATS \<Longrightarrow>
      sum_list (rp_awards r0) + sum_list (rp_awards r1) = sp_amount p - rake \<Longrightarrow> thesis"
    from assms(1) obtain r0 r1 where rs: "pp_runouts pp = [r0, r1]" by (auto simp: pot_settled_def)
    let ?am = "split_across_runouts (sp_amount p - rake) (runout_count b)"
    have am: "?am ! 0 + ?am ! 1 = sp_amount p - rake" "runout_count b \<noteq> 2 \<Longrightarrow> ?am ! 0 = sp_amount p - rake"
      using runout_count_cases[of b] split_across_runouts_facts(2)[OF runout_count_cases[of b], of "sp_amount p - rake"]
      by (auto simp: split_across_runouts_def split: if_splits)
    show thesis
    proof (cases "contested p")
      case True
      then have r0: "runout_settled snapshot (sp_eligible p) (board1 b) (?am ! 0) r0"
        using assms(1) rs by (simp add: pot_settled_def)
      show thesis
      proof (cases "runout_count b = 2")
        case two: True
        then have "runout_settled snapshot (sp_eligible p) (board2 b) (?am ! 1) r1"
          using assms(1) rs True by (simp add: pot_settled_def)
        then show thesis using r0 am by (intro that[OF rs]) (simp_all add: settled_awards del: One_nat_def)
      next
        case False
        then have "r1 = runout_inactive" using assms(1) rs True by (simp add: pot_settled_def)
        then show thesis using r0 am(2)[OF False]
          by (intro that[OF rs]) (simp_all add: settled_awards sum_list_replicate)
      qed
    next
      case False
      then have "runout_returned snapshot (sp_eligible p) (sp_amount p - rake) r0" "r1 = runout_inactive"
        using assms(1) rs by (simp_all add: pot_settled_def)
      then show thesis by (intro that[OF rs]) (simp_all add: settled_awards sum_list_replicate)
    qed
  qed
  then show ?thesis
    using map2_add_sum[OF assms(2), of "rp_awards r0"]
      map2_add_sum[of "map2 (+) aw (rp_awards r0)" "rp_awards r1"]
    by (simp add: add_pot_awards_def)
qed

lemma enumerate_snoc: "enumerate n (xs @ [x]) = enumerate n xs @ [(n + length xs, x)]"
  by (simp add: enumerate_append_eq)

lemma sum_take_Suc: "i < length xs \<Longrightarrow> sum_list (map f (take (Suc i) xs)) = sum_list (map f (take i xs)) + (f (xs ! i) :: nat)"
  by (simp add: take_Suc_conv_app_nth)

lemma sum_take_le: "sum_list (map f (take i xs)) \<le> sum_list (map (f :: 'a \<Rightarrow> nat) xs)"
proof -
  have "sum_list (map f xs) = sum_list (map f (take i xs)) + sum_list (map f (drop i xs))"
    by (metis append_take_drop_id map_append sum_list_append)
  then show ?thesis by simp
qed

text \<open>
  The state of the loop over the side pots after \<open>n\<close> of them: the plan's aggregates, and the fact
  that \<open>validate\<close> recomputes them from the pots settled so far.
\<close>

definition settle_inv ::
  "table_snapshot \<Rightarrow> settlement_boards \<Rightarrow> side_pot list \<Rightarrow> nat list \<Rightarrow> nat \<Rightarrow>
   mask16 \<times> nat list \<times> settlement_pot_plan list \<Rightarrow> bool" where
  "settle_inv snapshot b pots rakes n st \<longleftrightarrow> (case st of (wm, aw, pps) \<Rightarrow>
     length pps = n \<and> length aw = SETTLEMENT_SEATS \<and>
     sum_list aw + sum_list (take n rakes) = pots_sum (take n pots) \<and>
     (\<forall>i < n. pot_settled snapshot b i (pots ! i) (rakes ! i) (pps ! i)) \<and>
     aw = foldl add_pot_awards (replicate SETTLEMENT_SEATS 0) pps \<and>
     wm = foldl (\<lambda>m pp. m OR pot_mask pp) 0 pps \<and>
     foldM (validate_pot (schedule b)) (0, 0, replicate SETTLEMENT_SEATS 0, 0) (enumerate 0 pps) =
       Inr (pots_sum (take n pots), sum_list (take n rakes), aw, wm))"

lemma settle_step:
  assumes "table_ok snapshot" and n: "n < length pots" "length pots \<le> SETTLEMENT_SEATS"
    and pot: "pot_seats_ok snapshot (sp_eligible (pots ! n))" "0 < sp_amount (pots ! n)"
    and rakes: "allocs_ok pots rakes" and sum: "pots_sum pots < u64_limit" "sum_list rakes < u64_limit"
    and inv: "settle_inv snapshot b pots rakes n st"
  shows "\<exists>st'. settle_pot snapshot b rakes st (n, pots ! n) = Inr st' \<and> settle_inv snapshot b pots rakes (Suc n) st'"
proof -
  obtain wm aw pps where st: "st = (wm, aw, pps)" by (cases st)
  let ?p = "pots ! n"
  have len: "length rakes = length pots" using rakes by (auto simp: allocs_ok_def dest: list_all2_lengthD)
  have rake: "rakes ! n \<le> sp_amount ?p" "\<not> contested ?p \<Longrightarrow> rakes ! n = 0"
    using rakes n(1) by (auto simp: allocs_ok_def list_all2_conv_all_nth)
  have gross: "pots_sum (take (Suc n) pots) = pots_sum (take n pots) + sp_amount ?p"
    "pots_sum (take (Suc n) pots) \<le> pots_sum pots"
    using sum_take_Suc[OF n(1), of sp_amount] sum_take_le[of sp_amount "Suc n" pots] by (simp_all add: pots_sum_def)
  have taken: "sum_list (take (Suc n) rakes) = sum_list (take n rakes) + rakes ! n"
    "sum_list (take (Suc n) rakes) \<le> sum_list rakes"
    using sum_take_Suc[of n rakes id] sum_take_le[of id "Suc n" rakes] n(1) len by simp_all
  have aw: "length aw = SETTLEMENT_SEATS" "sum_list aw + sp_amount ?p < u64_limit"
    using inv gross sum(1) by (auto simp: settle_inv_def st)
  have small: "n < 256" "n < length rakes" using n len by (simp_all add: SETTLEMENT_SEATS_eq)
  obtain pp where pp: "settle_pot snapshot b rakes (wm, aw, pps) (n, ?p) =
      Inr (wm OR pot_mask pp, add_pot_awards aw pp, pps @ [pp])" "pot_settled snapshot b n ?p (rakes ! n) pp"
    using settle_pot_eq[OF assms(1) pot small(2) rake(1) small(1) aw] by blast
  have elig: "sp_eligible ?p \<noteq> 0" using pot(1) by (simp add: pot_seats_ok_def)
  have v: "validate_pot (schedule b) (pots_sum (take n pots), sum_list (take n rakes), aw, wm) (n, pp) =
      Inr (pots_sum (take n pots) + sp_amount ?p, sum_list (take n rakes) + rakes ! n,
           add_pot_awards aw pp, wm OR pot_mask pp)"
    by (rule validate_settled_pot[OF pp(2) elig rake(1) rake(2) aw]) (use gross taken sum in linarith)+
  have "settle_inv snapshot b pots rakes (Suc n) (wm OR pot_mask pp, add_pot_awards aw pp, pps @ [pp])"
    using inv pot_settled_awards[OF pp(2) aw(1)] v pp(2) gross(1) taken(1) rake(1)
    by (auto simp: settle_inv_def st foldM_append enumerate_snoc nth_append less_Suc_eq)
  then show ?thesis using pp(1) st by blast
qed

lemma settle_loop:
  assumes "table_ok snapshot" and n: "length pots \<le> SETTLEMENT_SEATS"
    and pot: "\<forall>p \<in> set pots. pot_seats_ok snapshot (sp_eligible p) \<and> 0 < sp_amount p"
    and rakes: "allocs_ok pots rakes" and sum: "pots_sum pots < u64_limit" "sum_list rakes < u64_limit"
  shows "\<exists>st. foldM (settle_pot snapshot b rakes) (0, replicate SETTLEMENT_SEATS 0, []) (enumerate 0 pots) = Inr st \<and>
     settle_inv snapshot b pots rakes (length pots) st"
proof -
  have "\<exists>st. foldM (settle_pot snapshot b rakes) (0, replicate SETTLEMENT_SEATS 0, []) (enumerate 0 pots) = Inr st \<and>
     settle_inv snapshot b pots rakes (length (enumerate 0 pots)) st"
  proof (rule foldM_prefix_total)
    show "settle_inv snapshot b pots rakes (length []) (0, replicate SETTLEMENT_SEATS 0, [])"
      by (simp add: settle_inv_def sum_list_replicate)
  next
    fix ys x zs s
    assume split: "enumerate 0 pots = ys @ x # zs" and inv: "settle_inv snapshot b pots rakes (length ys) s"
    note e = enumerate_split[OF split]
    show "\<exists>s'. settle_pot snapshot b rakes s x = Inr s' \<and> settle_inv snapshot b pots rakes (length (ys @ [x])) s'"
      using settle_step[OF assms(1) _ n _ _ rakes sum inv] e pot by auto
  qed
  then show ?thesis by simp
qed

section \<open>When a plan exists\<close>

lemma live_hand_shown:
  assumes "exposed_ok snapshot b" "j < length (ts_hole_cards snapshot)" "\<not> ts_inactive snapshot ! j"
  shows "length (ts_hole_cards snapshot ! j) = 2"
proof -
  have "(j, ts_hole_cards snapshot ! j) \<in> set (live_hands snapshot)"
    using assms(2,3) by (auto simp: live_hands_def in_set_enumerate_eq)
  then have "ts_hole_cards snapshot ! j \<in> set (map snd (live_hands snapshot))" by force
  then show ?thesis using assms(1) by (auto simp: exposed_ok_def)
qed

lemma side_pots_of_ok:
  assumes "table_ok snapshot" "sum_list (ts_total_bets snapshot) \<le> MAX_TOTAL_BET"
  shows "\<exists>pots. side_pots_of snapshot = Inr pots"
  using assms by (auto simp: side_pots_of_def calculate_side_pots_eq table_ok_def SETTLEMENT_SEATS_def)

lemma pots_facts:
  assumes "side_pots_of snapshot = Inr pots"
  shows "length pots \<le> SETTLEMENT_SEATS" "pots_total pots = Inr (sum_list (ts_total_bets snapshot))"
    "pots_sum pots = sum_list (ts_total_bets snapshot)" "contested_sum pots \<le> pots_sum pots"
    "pots_sum pots < u64_limit" "\<forall>p \<in> set pots. sp_amount p < u64_limit" "pots \<noteq> []"
    "sum_list (ts_total_bets snapshot) \<le> MAX_TOTAL_BET"
proof -
  note c = assms[unfolded side_pots_of_def]
  show "length pots \<le> SETTLEMENT_SEATS" using sp.count_bound[OF c] by (simp add: SETTLEMENT_SEATS_def)
  show "pots_total pots = Inr (sum_list (ts_total_bets snapshot))" by (rule sp.total_returns[OF c])
  show s: "pots_sum pots = sum_list (ts_total_bets snapshot)" by (rule sp.conserves[OF c])
  show "contested_sum pots \<le> pots_sum pots" using sp.subset_sum_le[OF c] s by simp
  show l: "pots_sum pots < u64_limit" by (rule sp.gross_in_width[OF c])
  show "\<forall>p \<in> set pots. sp_amount p < u64_limit" using sp.pot_le_gross[OF c] s l by fastforce
  show "pots \<noteq> []" by (rule sp.nonempty[OF c])
  show "sum_list (ts_total_bets snapshot) \<le> MAX_TOTAL_BET" using sp.within[OF c] by simp
qed

lemma allocate_of:
  assumes "side_pots_of snapshot = Inr pots"
  shows "\<exists>rakes. allocate_rake pots (rake_spec snapshot (contested_sum pots)) (contested_sum pots) = Inr rakes \<and>
     rake_split pots (rake_spec snapshot (contested_sum pots)) rakes"
  using allocate_rake_eq[OF rake_spec_le] pots_facts[OF assms] by auto

text \<open>Past the checks, the derivation is the rake followed by the loop over the pots.\<close>

lemma derive_checked:
  assumes "boards_ok b" "table_ok snapshot" "exposed_ok snapshot b" "side_pots_of snapshot = Inr pots"
    and "rake_mode_ok snapshot" and rakes: "allocate_rake pots (rake_spec snapshot (contested_sum pots))
      (contested_sum pots) = Inr rakes"
  shows "derive_settlement_plan snapshot b =
     rbind (foldM (settle_pot snapshot b rakes) (0, replicate SETTLEMENT_SEATS 0, []) (enumerate 0 pots))
       (\<lambda>(winner_mask, awards, pps).
     rbind (sum_amounts TotalAwardOverflow awards) (\<lambda>total_awards.
     let plan = \<lparr>pl_version = SETTLEMENT_PLAN_VERSION, pl_schedule = schedule b,
                 pl_gross_pot = sum_list (ts_total_bets snapshot), pl_rake = rake_spec snapshot (contested_sum pots),
                 pl_total_awards = total_awards,
                 pl_winner_mask = winner_mask, pl_awards = awards, pl_pots = pps\<rparr> in
     rbind (validate plan (ts_seat_count snapshot)) (\<lambda>_. Inr plan)))"
proof -
  have c: "calculate_side_pots (ts_total_bets snapshot) (ts_inactive snapshot) (ts_all_in snapshot) = Inr pots"
    using assms(4) by (simp add: side_pots_of_def)
  note f = pots_facts[OF assms(4)]
  have passed: "validate_exposed_cards snapshot b = Inr ()" "boards_validate b = Inr ()"
    using validate_exposed_ok[of snapshot b] assms(1-3) by (simp_all add: table_ok_def boards_validate_ok)
  have computed: "contested_gross pots = Inr (contested_sum pots)"
    "compute_rake snapshot (contested_sum pots) = Inr (rake_spec snapshot (contested_sum pots))"
    using f(4,5) assms(5) by (simp_all add: contested_gross_eq compute_rake_eq)
  have guards: "\<not> SETTLEMENT_SEATS < ts_seat_count snapshot"
    "ts_seat_count snapshot = length (ts_total_bets snapshot)" "ts_seat_count snapshot = length (ts_inactive snapshot)"
    "ts_seat_count snapshot = length (ts_all_in snapshot)" "ts_seat_count snapshot = length (ts_hole_cards snapshot)"
    "\<not> max (ts_seat_count snapshot) 1 \<le> ts_button snapshot"
    "\<not> SETTLEMENT_SEATS < length pots" "\<not> MAX_TOTAL_BET < sum_list (ts_total_bets snapshot)"
    using assms(2) f(1,8) unfolding table_ok_def not_le not_less by simp_all
  have lens: "(ts_seat_count snapshot \<noteq> length (ts_total_bets snapshot) \<or>
      ts_seat_count snapshot \<noteq> length (ts_inactive snapshot) \<or>
      ts_seat_count snapshot \<noteq> length (ts_all_in snapshot) \<or>
      ts_seat_count snapshot \<noteq> length (ts_hole_cards snapshot)) = False"
    using guards(2-5) by blast
  show ?thesis
    unfolding derive_settlement_plan_def passed rbind_simps lens
    by (simp only: guards(1,6-8) if_False c map_err_def sum.case rbind_simps f(2) computed rakes)
qed

lemma derive_ok:
  assumes "snapshot_ok snapshot b"
  shows "\<exists>plan. derive_settlement_plan snapshot b = Inr plan \<and> plan_spec snapshot b plan \<and>
      validate plan (ts_seat_count snapshot) = Inr ()"
proof -
  have ok: "boards_ok b" "table_ok snapshot" "exposed_ok snapshot b" "rake_mode_ok snapshot"
    "sum_list (ts_total_bets snapshot) \<le> MAX_TOTAL_BET" "live_contributor snapshot"
    using assms by (simp_all add: snapshot_ok_def)
  obtain pots where pots: "side_pots_of snapshot = Inr pots" using side_pots_of_ok[OF ok(2,5)] by blast
  note c = pots[unfolded side_pots_of_def]
  note f = pots_facts[OF pots]
  let ?rake = "rake_spec snapshot (contested_sum pots)"
  obtain rakes where rakes: "allocate_rake pots ?rake (contested_sum pots) = Inr rakes" "rake_split pots ?rake rakes"
    using allocate_of[OF pots] by blast
  have sum: "sum_list rakes < u64_limit" "sum_list rakes = ?rake"
    using rakes(2) rake_spec_le[of snapshot "contested_sum pots"] f(4,5) by (auto simp: rake_split_def)
  have allocs: "allocs_ok pots rakes" "length rakes = length pots"
    using rakes(2) by (auto simp: rake_split_def allocs_ok_def dest: list_all2_lengthD)
  have len: "length (ts_total_bets snapshot) = ts_seat_count snapshot"
    "length (ts_hole_cards snapshot) = ts_seat_count snapshot" "ts_seat_count snapshot \<le> SETTLEMENT_SEATS"
    using ok(2) by (simp_all add: table_ok_def)
  have pot: "\<forall>p \<in> set pots. pot_seats_ok snapshot (sp_eligible p) \<and> 0 < sp_amount p"
  proof
    fix p assume p: "p \<in> set pots"
    from ok(6) have "0 < sp_amount p \<and> sp_eligible p \<noteq> 0"
      using sp.funded[OF c p] len(1) by (auto simp: live_contributor_def)
    moreover have "j < ts_seat_count snapshot \<and> length (ts_hole_cards snapshot ! j) = 2"
      if "bit (sp_eligible p) j" for j
      using sp.only_live[OF c p that] live_hand_shown[OF ok(3), of j] len by simp
    ultimately show "pot_seats_ok snapshot (sp_eligible p) \<and> 0 < sp_amount p"
      by (simp add: pot_seats_ok_def)
  qed
  obtain wm aw pps where run: "foldM (settle_pot snapshot b rakes) (0, replicate SETTLEMENT_SEATS 0, [])
      (enumerate 0 pots) = Inr (wm, aw, pps)" and inv: "settle_inv snapshot b pots rakes (length pots) (wm, aw, pps)"
    using settle_loop[OF ok(2) f(1) pot allocs(1) f(5) sum(1), of b] by auto
  have aw: "sum_list aw + ?rake = sum_list (ts_total_bets snapshot)"
    using inv sum(2) f(3) allocs(2) by (auto simp add: settle_inv_def simp del: foldl_conv_fold)
  define plan where "plan = \<lparr>pl_version = SETTLEMENT_PLAN_VERSION, pl_schedule = schedule b,
      pl_gross_pot = sum_list (ts_total_bets snapshot), pl_rake = ?rake, pl_total_awards = sum_list aw,
      pl_winner_mask = wm, pl_awards = aw, pl_pots = pps\<rparr>"
  have "checked_sub_u64 (sum_list (ts_total_bets snapshot)) ?rake = Some (sum_list aw)"
    using aw by (auto simp: checked_sub_u64_def)
  then have valid: "validate plan (ts_seat_count snapshot) = Inr ()"
    using inv f(1,3) sum(2) allocs(2) len(3) by (simp add: validate_def plan_def settle_inv_def)
  moreover have "sum_list aw < u64_limit" using aw f(3,5) by linarith
  then have "sum_amounts TotalAwardOverflow aw = Inr (sum_list aw)" by (simp add: sum_amounts_eq)
  ultimately have "derive_settlement_plan snapshot b = Inr plan"
    unfolding derive_checked[OF ok(1-3) pots ok(4) rakes(1)] run by (simp add: plan_def)
  moreover have "plan_spec snapshot b plan"
    unfolding plan_spec_def using pots inv rakes(2)
    by (intro exI[of _ pots] exI[of _ rakes]) (simp add: plan_def settle_inv_def)
  ultimately show ?thesis using valid by blast
qed

lemma fails: "m \<noteq> Inr () \<Longrightarrow> m \<noteq> Inl Panic \<Longrightarrow> \<exists>e. m = Inl (Fail e)"
proof (cases m)
  case (Inl f)
  assume "m \<noteq> Inl Panic"
  with Inl show ?thesis by (cases f) auto
qed simp

lemma no_live_fails:
  assumes "side_pots_of snapshot = Inr pots" "table_ok snapshot" "\<not> live_contributor snapshot"
  shows "foldM (settle_pot snapshot b rakes) st (enumerate 0 pots) = Inl (Fail (PotEmpty 0))"
proof -
  note c = assms(1)[unfolded side_pots_of_def]
  obtain p rest where pots: "pots = p # rest" using pots_facts(7)[OF assms(1)] by (cases pots) auto
  have "\<not> bit (sp_eligible p) j" for j
    using sp.only_live[OF c, of p j] assms(2,3) by (auto simp: pots live_contributor_def table_ok_def)
  then have "sp_eligible p = 0" by (simp add: mask16_eq_0)
  then show ?thesis by (cases st) (simp add: pots settle_pot_def)
qed

lemma derive_not_ok:
  assumes "\<not> snapshot_ok snapshot b"
  shows "\<exists>e. derive_settlement_plan snapshot b = Inl (Fail e)"
proof -
  consider (boards) "\<not> boards_ok b" | (table) "boards_ok b" "\<not> table_ok snapshot"
    | (exposed) "boards_ok b" "table_ok snapshot" "\<not> exposed_ok snapshot b"
    | (bets) "boards_ok b" "table_ok snapshot" "exposed_ok snapshot b"
        "MAX_TOTAL_BET < sum_list (ts_total_bets snapshot)"
    | (mode) "boards_ok b" "table_ok snapshot" "exposed_ok snapshot b"
        "sum_list (ts_total_bets snapshot) \<le> MAX_TOTAL_BET" "\<not> rake_mode_ok snapshot"
    | (live) "boards_ok b" "table_ok snapshot" "exposed_ok snapshot b"
        "sum_list (ts_total_bets snapshot) \<le> MAX_TOTAL_BET" "rake_mode_ok snapshot" "\<not> live_contributor snapshot"
    using assms unfolding snapshot_ok_def by (meson not_le)
  then show ?thesis
  proof cases
    case boards
    then obtain e where "boards_validate b = Inl (Fail e)"
      using fails[of "boards_validate b"] boards_validate_no_panic by (auto simp: boards_validate_ok)
    then show ?thesis by (simp add: derive_settlement_plan_def)
  next
    case table
    then show ?thesis
      by (auto simp: derive_settlement_plan_def boards_validate_ok[symmetric] table_ok_def)
  next
    case exposed
    then obtain e where "validate_exposed_cards snapshot b = Inl (Fail e)"
      using fails[of "validate_exposed_cards snapshot b"] validate_exposed_no_panic[of snapshot b]
        validate_exposed_ok[of snapshot b] by (auto simp: table_ok_def)
    then show ?thesis
      using exposed by (auto simp: derive_settlement_plan_def boards_validate_ok[symmetric] table_ok_def)
  next
    case bets
    then have "calculate_side_pots (ts_total_bets snapshot) (ts_inactive snapshot) (ts_all_in snapshot) =
        Inl (Fail BetOverflow)"
      by (simp add: calculate_side_pots_eq table_ok_def SETTLEMENT_SEATS_def not_le)
    moreover have "validate_exposed_cards snapshot b = Inr ()"
      using validate_exposed_ok[of snapshot b] bets by (simp add: table_ok_def)
    ultimately show ?thesis
      using bets by (auto simp: derive_settlement_plan_def boards_validate_ok[symmetric] table_ok_def map_err_def)
  next
    case mode
    then obtain pots where pots: "side_pots_of snapshot = Inr pots" using side_pots_of_ok by blast
    note f = pots_facts[OF pots]
    have "contested_gross pots = Inr (contested_sum pots)" using f(4,5) by (intro contested_gross_eq) simp
    moreover have "validate_exposed_cards snapshot b = Inr ()"
      using validate_exposed_ok[of snapshot b] mode by (simp add: table_ok_def)
    ultimately show ?thesis
      using mode f(1,8) pots
      by (auto simp: f(2) derive_settlement_plan_def boards_validate_ok[symmetric] table_ok_def map_err_def
          compute_rake_eq side_pots_of_def)
  next
    case live
    then obtain pots where pots: "side_pots_of snapshot = Inr pots" using side_pots_of_ok by blast
    from allocate_of[OF pots] obtain rakes where
      "allocate_rake pots (rake_spec snapshot (contested_sum pots)) (contested_sum pots) = Inr rakes" by blast
    then show ?thesis
      using derive_checked[OF live(1-3) pots live(5)] no_live_fails[OF pots live(2,6)] by simp
  qed
qed

lemma derive_Inr:
  assumes "derive_settlement_plan snapshot b = Inr plan"
  shows "snapshot_ok snapshot b" "plan_spec snapshot b plan" "validate plan (ts_seat_count snapshot) = Inr ()"
proof -
  show ok: "snapshot_ok snapshot b" using assms derive_not_ok[of snapshot b] by auto
  show "plan_spec snapshot b plan" "validate plan (ts_seat_count snapshot) = Inr ()"
    using derive_ok[OF ok] assms by auto
qed

end
