(* ===== verification/ObjectId.thy ===== *)
theory ObjectId
  imports Prelude "HOL-Library.List_Lexorder"
begin

text \<open>
  \<^verbatim>\<open>object_model/id.rs\<close>: the identity of an object of the chain, the address of its creator and a
  nonce, its 28 bytes and its order.  A hash is a function on byte lists that the definitions take
  as an argument: Blake2b comes from a third-party crate.
\<close>

type_synonym address = "byte list"

type_synonym hash_fn = "byte list \<Rightarrow> byte list"

datatype obj_id = ObjectID (creator_address: address) (creation_nonce: nat)

section \<open>The derived order\<close>

instantiation obj_id :: linorder
begin

definition less_eq_obj_id :: "obj_id \<Rightarrow> obj_id \<Rightarrow> bool" where
  "less_eq_obj_id a b \<longleftrightarrow> creator_address a < creator_address b \<or>
     creator_address a = creator_address b \<and> creation_nonce a \<le> creation_nonce b"

definition less_obj_id :: "obj_id \<Rightarrow> obj_id \<Rightarrow> bool" where
  "less_obj_id a b \<longleftrightarrow> creator_address a < creator_address b \<or>
     creator_address a = creator_address b \<and> creation_nonce a < creation_nonce b"

instance
  by standard (auto simp: less_eq_obj_id_def less_obj_id_def obj_id.expand)

end

section \<open>Bytes\<close>

text \<open>\<open>to_le_bytes\<close> of a number within its width.\<close>

definition u64_le :: "nat \<Rightarrow> byte list" where
  "u64_le n = le_bytes 8 (of_nat n :: 64 word)"

definition u32_le :: "nat \<Rightarrow> byte list" where
  "u32_le n = le_bytes 4 (of_nat n :: 32 word)"

definition id_to_bytes :: "obj_id \<Rightarrow> byte list" where
  "id_to_bytes i = creator_address i @ u64_le (creation_nonce i)"

definition id_from_bytes :: "byte list \<Rightarrow> obj_id option" where
  "id_from_bytes bs =
     (if length bs \<noteq> 28 then None
      else Some (ObjectID (take 20 bs) (unat (le_value (drop 20 bs) :: 64 word))))"

text \<open>The key of an object in the state tree.\<close>

definition merkle_key :: "hash_fn \<Rightarrow> obj_id \<Rightarrow> byte list" where
  "merkle_key blake i = blake (id_to_bytes i)"

text \<open>What the Rust types guarantee: an address has 20 bytes and a nonce 64 bits.\<close>

definition id_wf :: "obj_id \<Rightarrow> bool" where
  "id_wf i \<longleftrightarrow> length (creator_address i) = 20 \<and> creation_nonce i < 2 ^ 64"

lemma id_round_trip: "id_wf i \<Longrightarrow> id_from_bytes (id_to_bytes i) = Some i"
  by (cases i) (simp add: id_wf_def id_to_bytes_def id_from_bytes_def u64_le_def le_round_trip
      unat_of_nat take_bit_nat_eq_self)

lemma id_to_bytes_inj:
  assumes "id_wf i" "id_wf j" "id_to_bytes i = id_to_bytes j"
  shows "i = j"
proof -
  have "Some i = Some j" using id_round_trip[OF assms(1)] id_round_trip[OF assms(2)] assms(3) by metis
  then show ?thesis by (rule option.inject[THEN iffD1])
qed

end
