(* ===== verification/TableSeat.thy ===== *)
theory TableSeat
  imports Derive ObjectId
begin

text \<open>
  The data of one seat of the on-chain table: \<^verbatim>\<open>texas_poker/types.rs\<close> (seat masks and \<open>Seat\<close>),
  \<^verbatim>\<open>texas_poker/card.rs\<close> and \<^verbatim>\<open>texas_poker/betting.rs\<close>.

  The curve points of the mental-poker protocol come from a third-party crate; they are the type
  variable \<open>'p\<close>, and what is computed with them goes through the record \<open>poker_lib\<close> of the next
  theory.  Every failure of this contract is a \<open>PokerL1Error::Serialization\<close> or
  \<open>PokerL1Error::Other\<close> with a message; the model keeps the fixed part of the message.
\<close>

datatype betting_error = InvalidRaiseAmount | CannotRaise | NotPlayerTurn | PlayerInactive

datatype l1_error =
    Serialization string
  | Other string
  | SettlementFailed settlement_error
  | BettingFailed betting_error
  | UnknownContractMethod
  | ObjectIDCollision obj_id
  | ObjectNotFound obj_id
  | NotOwner obj_id
  | ObjectImmutable obj_id
  | ObjectVersionMismatch nat nat
  | ObjectTooLarge nat nat
  | InsufficientBalance nat nat
  | ContractNotFound obj_id
  | ValidatorNotInSet "byte list"
  | ValidatorInUnbonding "byte list"
  | ValidatorSetTooSmallForOffChain nat
  | BridgeNonceConsumed nat
  | WrongChainId nat nat
  | NonceTooLow nat nat
  | NonceTooHigh nat nat
  | BalanceOverflow nat nat
  | GasExceedsBudget nat nat
  | OutOfGas nat nat

abbreviation fail :: "string \<Rightarrow> (l1_error, 'a) outcome" where
  "fail msg \<equiv> Inl (Fail (Serialization msg))"

definition other_fail :: "string \<Rightarrow> (l1_error, 'a) outcome" where
  "other_fail msg = Inl (Fail (Other msg))"

text \<open>The guards of the code: an error with a message unless the condition holds.\<close>

definition require :: "bool \<Rightarrow> string \<Rightarrow> (l1_error, unit) outcome" where
  "require b msg = (if b then Inr () else fail msg)"

definition checked :: "nat option \<Rightarrow> string \<Rightarrow> (l1_error, nat) outcome" where
  "checked x msg = ok_or (Serialization msg) x"

lemma require_eq_Inr [outcome_simps]: "require b msg = Inr u \<longleftrightarrow> b"
  by (simp add: require_def)

lemma require_True [simp]: "require True msg = Inr ()"
  by (simp add: require_def)

lemma require_False [simp]: "require False msg = fail msg"
  by (simp add: require_def)

lemma checked_eq_Inr [outcome_simps]: "checked x msg = Inr n \<longleftrightarrow> x = Some n"
  by (simp add: checked_def outcome_simps)

lemma checked_Some [simp]: "checked (Some n) msg = Inr n"
  by (simp add: checked_def ok_or_def)

lemma safe_require [simp]: "safe P (require b msg) \<longleftrightarrow> (b \<longrightarrow> P ())"
  by (simp add: require_def)

lemma safe_checked [simp]: "safe P (checked x msg) \<longleftrightarrow> (\<forall>n. x = Some n \<longrightarrow> P n)"
  by (simp add: checked_def)

section \<open>Constants\<close>

definition EMPTY_PLAYER :: address where "EMPTY_PLAYER = replicate 20 0"
definition MAX_SEATS :: nat where "MAX_SEATS = 9"
definition NO_SEAT :: nat where "NO_SEAT = 15"
definition CIPHER_DECK_SIZE :: nat where "CIPHER_DECK_SIZE = 52"
definition MIN_PLAYERS_TO_START :: nat where "MIN_PLAYERS_TO_START = 2"
definition CARDS_PER_PLAYER :: nat where "CARDS_PER_PLAYER = 2"
definition DEFAULT_TIME_BANK_MS :: nat where "DEFAULT_TIME_BANK_MS = 30000"
definition TIME_BANK_REFILL_PER_HAND_MS :: nat where "TIME_BANK_REFILL_PER_HAND_MS = 10000"

definition ROUND_WAITING :: nat where "ROUND_WAITING = 0"
definition ROUND_PREFLOP :: nat where "ROUND_PREFLOP = 2"
definition ROUND_FLOP :: nat where "ROUND_FLOP = 3"
definition ROUND_TURN :: nat where "ROUND_TURN = 4"
definition ROUND_RIVER :: nat where "ROUND_RIVER = 5"
definition ROUND_SHOWDOWN :: nat where "ROUND_SHOWDOWN = 6"

lemmas round_defs = ROUND_WAITING_def ROUND_PREFLOP_def ROUND_FLOP_def ROUND_TURN_def
  ROUND_RIVER_def ROUND_SHOWDOWN_def

definition ACTION_FOLD :: byte where "ACTION_FOLD = 1"
definition ACTION_CHECK :: byte where "ACTION_CHECK = 2"
definition ACTION_CALL :: byte where "ACTION_CALL = 4"
definition ACTION_RAISE :: byte where "ACTION_RAISE = 8"

section \<open>Seat masks\<close>

text \<open>
  \<open>SeatMask\<close> is \<open>u16\<close>, bit \<open>i\<close> for seat \<open>i\<close>.  The shift \<open>1u16 << i\<close> is defined for \<open>i < 16\<close>; the
  code shifts by seat indices of a table of at most nine seats.
\<close>

definition seat_mask_bit :: "nat \<Rightarrow> mask16" where
  "seat_mask_bit seat_index = push_bit seat_index 1"

definition seat_mask_contains :: "mask16 \<Rightarrow> nat \<Rightarrow> bool" where
  "seat_mask_contains m seat_index \<longleftrightarrow>
     seat_index < MAX_SEATS \<and> m AND seat_mask_bit seat_index \<noteq> 0"

definition seat_mask_insert :: "mask16 \<Rightarrow> nat \<Rightarrow> (l1_error, mask16) outcome" where
  "seat_mask_insert m seat_index =
     rbind (require (\<not> MAX_SEATS \<le> seat_index) ''Texas seat index exceeds mask capacity'')
       (\<lambda>_. Inr (m OR seat_mask_bit seat_index))"

definition seat_mask_remove :: "mask16 \<Rightarrow> nat \<Rightarrow> mask16" where
  "seat_mask_remove m seat_index =
     (if seat_index < MAX_SEATS then m AND NOT (seat_mask_bit seat_index) else m)"

definition seat_mask_count :: "mask16 \<Rightarrow> nat" where
  "seat_mask_count m = count_ones m"

definition seat_mask_first :: "mask16 \<Rightarrow> nat option" where
  "seat_mask_first m = find (bit m) [0..<16]"

definition seat_mask_to_indices :: "mask16 \<Rightarrow> nat \<Rightarrow> nat list" where
  "seat_mask_to_indices m max_players = filter (seat_mask_contains m) [0..<max_players]"

definition seat_mask_from_indices :: "nat list \<Rightarrow> nat \<Rightarrow> string \<Rightarrow> (l1_error, mask16) outcome" where
  "seat_mask_from_indices indices max_players label =
     rbind (require (\<not> max_players > MAX_SEATS) label) (\<lambda>_.
     foldM (\<lambda>m seat_index.
         if seat_index \<ge> max_players then fail label
         else if m AND seat_mask_bit seat_index \<noteq> 0 then fail label
         else Inr (m OR seat_mask_bit seat_index))
       0 indices)"

definition seat_mask_is_canonical :: "mask16 \<Rightarrow> nat \<Rightarrow> bool" where
  "seat_mask_is_canonical m max_players \<longleftrightarrow>
     max_players \<le> MAX_SEATS \<and>
     (max_players = MAX_SEATS \<or> m < push_bit max_players 1)"

lemma bit_seat_mask_bit: "bit (seat_mask_bit i) j \<longleftrightarrow> i = j \<and> j < 16"
  by (auto simp: seat_mask_bit_def bit_exp_iff possible_bit_word)

lemma and_seat_mask_bit: "m AND seat_mask_bit i \<noteq> 0 \<longleftrightarrow> bit m i"
proof -
  have "m AND seat_mask_bit i \<noteq> 0 \<longleftrightarrow> (\<exists>j<16. bit m j \<and> i = j)"
    by (auto simp: mask16_nonzero bit_and_iff bit_seat_mask_bit)
  then show ?thesis
    using bit_mask16_less by blast
qed

lemma seat_mask_contains_bit: "seat_mask_contains m i \<longleftrightarrow> i < 9 \<and> bit m i"
  by (simp add: seat_mask_contains_def and_seat_mask_bit MAX_SEATS_def)

lemma bit_seat_mask_remove:
  "bit (seat_mask_remove m i) j \<longleftrightarrow> bit m j \<and> (i \<noteq> j \<or> 9 \<le> i)"
  using bit_mask16_less[of m j]
  by (auto simp: seat_mask_remove_def MAX_SEATS_def bit_and_iff bit_not_iff bit_seat_mask_bit)

text \<open>The lowest seat of a mask, and none exactly for the empty mask.\<close>

lemma seat_mask_first_Some:
  "seat_mask_first m = Some i \<longleftrightarrow> bit m i \<and> (\<forall>j<i. \<not> bit m j)"
proof -
  have "seat_mask_first m = Some i \<longleftrightarrow> i < 16 \<and> bit m i \<and> (\<forall>j<i. \<not> bit m j)"
    by (auto simp: seat_mask_first_def find_Some_iff)
  then show ?thesis using bit_mask16_less by blast
qed

lemma seat_mask_first_None: "seat_mask_first m = None \<longleftrightarrow> m = 0"
  by (auto simp: seat_mask_first_def find_None_iff mask16_eq_0 dest: bit_mask16_less)

section \<open>Cards\<close>

text \<open>
  \<open>Card\<close> is a transparent \<open>u8\<close>: an index below 52, or padding.  \<open>HoleCards\<close> and \<open>BoardCards\<close> are a
  length and an array of two and of five cards; one record models both, the capacity being the
  length of the array.
\<close>

definition CARD_PADDING :: nat where "CARD_PADDING = 255"

definition card_is_valid :: "nat \<Rightarrow> bool" where "card_is_valid c \<longleftrightarrow> c < 52"

definition card_suit_of :: "nat \<Rightarrow> nat" where
  "card_suit_of c = (if c < 52 then c div 13 else if c < 56 then c - 52 else 255)"

definition card_rank_of :: "nat \<Rightarrow> nat" where
  "card_rank_of c = (if c < 52 then c mod 13 + 2 else 0)"

definition card_new :: "nat \<Rightarrow> nat \<Rightarrow> nat" where
  "card_new suit rank =
     (if suit \<le> 3 \<and> 2 \<le> rank \<and> rank \<le> 14 then suit * 13 + (rank - 2)
      else if suit \<le> 3 \<and> rank = 0 then 52 + suit
      else CARD_PADDING)"

record card_slots =
  cs_len :: nat
  cs_cards :: "nat list"

definition hole_cards_empty :: card_slots where
  "hole_cards_empty = \<lparr>cs_len = 0, cs_cards = replicate 2 CARD_PADDING\<rparr>"

definition board_cards_empty :: card_slots where
  "board_cards_empty = \<lparr>cs_len = 0, cs_cards = replicate 5 CARD_PADDING\<rparr>"

definition as_slice :: "card_slots \<Rightarrow> nat list" where
  "as_slice cs = take (cs_len cs) (cs_cards cs)"

definition try_push :: "card_slots \<Rightarrow> nat \<Rightarrow> string \<Rightarrow> (l1_error, card_slots) outcome" where
  "try_push cs c msg =
     (if \<not> card_is_valid c then fail msg
      else if cs_len cs \<ge> length (cs_cards cs) then fail msg
      else Inr (cs\<lparr>cs_len := cs_len cs + 1, cs_cards := (cs_cards cs)[cs_len cs := c]\<rparr>))"

definition cards_canonical :: "card_slots \<Rightarrow> bool" where
  "cards_canonical cs \<longleftrightarrow>
     \<not> cs_len cs > length (cs_cards cs) \<and>
     \<not> list_ex (\<lambda>c. \<not> card_is_valid c) (as_slice cs) \<and>
     \<not> list_ex (\<lambda>c. c \<noteq> CARD_PADDING) (drop (cs_len cs) (cs_cards cs))"

lemma card_new_parts: "c < 52 \<Longrightarrow> card_new (card_suit_of c) (card_rank_of c) = c"
proof -
  assume "c < 52"
  then have "c div 13 \<le> 3" "c mod 13 \<le> 12" by auto
  with \<open>c < 52\<close> show ?thesis
    by (simp add: card_new_def card_suit_of_def card_rank_of_def CARD_PADDING_def)
qed

lemma try_push_slice:
  assumes "try_push cs c msg = Inr cs'"
  shows "as_slice cs' = as_slice cs @ [c]"
  using assms by (auto simp: try_push_def as_slice_def take_Suc_conv_app_nth split: if_splits)

lemma try_push_canonical:
  assumes "try_push cs c msg = Inr cs'" and "cards_canonical cs"
  shows "cards_canonical cs'"
proof -
  have len: "cs_len cs < length (cs_cards cs)" and c: "card_is_valid c"
    and cs': "cs' = cs\<lparr>cs_len := cs_len cs + 1, cs_cards := (cs_cards cs)[cs_len cs := c]\<rparr>"
    using assms(1) by (auto simp: try_push_def split: if_splits)
  have "drop (cs_len cs') (cs_cards cs') = drop (Suc (cs_len cs)) (cs_cards cs)"
    by (simp add: cs')
  moreover have "set (drop (Suc (cs_len cs)) (cs_cards cs)) \<subseteq> set (drop (cs_len cs) (cs_cards cs))"
    by (simp add: set_drop_subset_set_drop)
  ultimately show ?thesis
    using assms(2) len c try_push_slice[OF assms(1)]
    by (auto simp: cards_canonical_def list_ex_iff cs')
qed

section \<open>Betting rounds\<close>

record betting_round =
  br_current_bet :: nat
  br_min_raise :: nat

definition betting_round_new :: "nat \<Rightarrow> nat \<Rightarrow> (l1_error, betting_round) outcome" where
  "betting_round_new big_blind current_bet =
     (if big_blind > 0 then Inr \<lparr>br_current_bet = current_bet, br_min_raise = big_blind\<rparr>
      else Inl Panic)"

definition chips_to_call :: "betting_round \<Rightarrow> nat \<Rightarrow> nat" where
  "chips_to_call r seat_bet = br_current_bet r - seat_bet"

definition can_check :: "betting_round \<Rightarrow> nat \<Rightarrow> bool" where
  "can_check r seat_bet \<longleftrightarrow> chips_to_call r seat_bet = 0"

definition can_call :: "betting_round \<Rightarrow> nat \<Rightarrow> nat \<Rightarrow> bool" where
  "can_call r seat_bet stack \<longleftrightarrow> chips_to_call r seat_bet > 0 \<and> stack > 0"

definition can_raise :: "betting_round \<Rightarrow> nat \<Rightarrow> nat \<Rightarrow> bool" where
  "can_raise r seat_bet stack \<longleftrightarrow> stack > chips_to_call r seat_bet"

definition available_actions :: "betting_round \<Rightarrow> nat \<Rightarrow> nat \<Rightarrow> byte" where
  "available_actions r seat_bet stack =
     (let actions = ACTION_FOLD;
          actions = if can_check r seat_bet then actions OR ACTION_CHECK else actions;
          actions = if can_call r seat_bet stack then actions OR ACTION_CALL else actions
      in if can_raise r seat_bet stack then actions OR ACTION_RAISE else actions)"

definition process_call :: "betting_round \<Rightarrow> nat \<Rightarrow> nat \<Rightarrow> nat" where
  "process_call r seat_bet stack = min (chips_to_call r seat_bet) stack"

text \<open>\<open>process_raise\<close>: the chips the player must add, and the updated round.\<close>

definition process_raise ::
  "betting_round \<Rightarrow> nat \<Rightarrow> nat \<Rightarrow> nat \<Rightarrow> (betting_error, nat \<times> betting_round) outcome" where
  "process_raise r total_bet seat_bet stack =
     (if total_bet \<le> br_current_bet r \<or> total_bet \<le> seat_bet then Inl (Fail InvalidRaiseAmount)
      else
        let raise_amount = total_bet - br_current_bet r; needed = total_bet - seat_bet in
        if needed > stack then Inl (Fail CannotRaise)
        else
          let is_all_in = (needed = stack) in
          if raise_amount \<ge> br_min_raise r then
            Inr (needed, r\<lparr>br_min_raise := raise_amount, br_current_bet := total_bet\<rparr>)
          else if \<not> is_all_in then Inl (Fail InvalidRaiseAmount)
          else Inr (needed, r\<lparr>br_current_bet := total_bet\<rparr>))"

section \<open>Seats\<close>

datatype seat_status = StEmpty | StWaiting | StActive | StFolded | StAllIn | StOut

record 'p occupied_seat =
  os_player :: address
  os_stack :: nat
  os_pk :: 'p
  os_pending_addon :: nat
  os_time_bank_ms :: nat

datatype playing_seat_status = PsActive | PsFolded | PsAllIn

record 'p playing_seat =
  ps_occupied :: "'p occupied_seat"
  ps_hand :: card_slots
  ps_bet :: nat
  ps_total_bet :: nat
  ps_status :: playing_seat_status

text \<open>
  \<open>Vacant\<close> and \<open>DepartedThisHand\<close> keep the time bank of the slot (milliseconds), the latter also the
  address and the contribution to the hand.
\<close>

datatype 'p seat =
    Vacant nat
  | Waiting "'p occupied_seat"
  | Playing "'p playing_seat"
  | DepartedThisHand address nat nat

definition seat_empty :: "'p seat" where
  "seat_empty = Vacant DEFAULT_TIME_BANK_MS"

definition fresh_playing :: "'p occupied_seat \<Rightarrow> 'p playing_seat" where
  "fresh_playing occ =
     \<lparr>ps_occupied = occ, ps_hand = hole_cards_empty, ps_bet = 0, ps_total_bet = 0,
      ps_status = PsActive\<rparr>"

text \<open>\<open>Seat::occupied\<close>; the predicate tells the identity point of the curve.\<close>

definition seat_occupied ::
  "('p \<Rightarrow> bool) \<Rightarrow> address \<Rightarrow> nat \<Rightarrow> 'p \<Rightarrow> seat_status \<Rightarrow> (l1_error, 'p seat) outcome" where
  "seat_occupied is_identity player stack pk status =
     rbind (require (\<not> player = EMPTY_PLAYER) ''Texas occupied seat cannot use the empty player address'') (\<lambda>_.
     rbind (require (\<not> status \<notin> {StWaiting, StActive}) ''Texas newly occupied seat must be waiting or active'') (\<lambda>_.
     rbind (require (\<not> is_identity pk) ''Texas newly occupied seat cannot use an identity public key'') (\<lambda>_.
     let occ = \<lparr>os_player = player, os_stack = stack, os_pk = pk, os_pending_addon = 0,
                os_time_bank_ms = DEFAULT_TIME_BANK_MS\<rparr> in
     (case status of
        StWaiting \<Rightarrow> Inr (Waiting occ)
      | StActive \<Rightarrow> Inr (Playing (fresh_playing occ))
      | _ \<Rightarrow> Inl Panic))))"

definition vacate :: "'p seat \<Rightarrow> 'p seat" where
  "vacate s = seat_empty"

fun depart_this_hand :: "'p seat \<Rightarrow> (l1_error, 'p seat) outcome" where
  "depart_this_hand (Waiting occ) =
     Inr (DepartedThisHand (os_player occ) 0 (os_time_bank_ms occ))"
| "depart_this_hand (Playing p) =
     Inr (DepartedThisHand (os_player (ps_occupied p)) (ps_total_bet p)
            (os_time_bank_ms (ps_occupied p)))"
| "depart_this_hand (Vacant _) = fail ''Texas cannot depart a vacant seat''"
| "depart_this_hand (DepartedThisHand a b m) = Inr (DepartedThisHand a b m)"

fun prepare_next_hand :: "'p seat \<Rightarrow> 'p seat" where
  "prepare_next_hand (Vacant m) = Vacant m"
| "prepare_next_hand (DepartedThisHand a b m) = DepartedThisHand a b m"
| "prepare_next_hand (Waiting occ) = Playing (fresh_playing occ)"
| "prepare_next_hand (Playing p) =
     Playing (p\<lparr>ps_hand := hole_cards_empty, ps_bet := 0, ps_total_bet := 0, ps_status := PsActive\<rparr>)"

fun is_occupied :: "'p seat \<Rightarrow> bool" where
  "is_occupied (Waiting _) = True"
| "is_occupied (Playing _) = True"
| "is_occupied _ = False"

fun seat_status_of :: "'p seat \<Rightarrow> seat_status" where
  "seat_status_of (Vacant _) = StEmpty"
| "seat_status_of (Waiting _) = StWaiting"
| "seat_status_of (Playing p) =
     (case ps_status p of PsActive \<Rightarrow> StActive | PsFolded \<Rightarrow> StFolded | PsAllIn \<Rightarrow> StAllIn)"
| "seat_status_of (DepartedThisHand _ _ _) = StOut"

definition is_folded :: "'p seat \<Rightarrow> bool" where
  "is_folded s \<longleftrightarrow> seat_status_of s = StFolded"

definition is_all_in :: "'p seat \<Rightarrow> bool" where
  "is_all_in s \<longleftrightarrow> seat_status_of s = StAllIn"

fun is_waiting :: "'p seat \<Rightarrow> bool" where
  "is_waiting (Waiting _) = True"
| "is_waiting _ = False"

fun has_left_hand :: "'p seat \<Rightarrow> bool" where
  "has_left_hand (DepartedThisHand _ _ _) = True"
| "has_left_hand _ = False"

fun set_status :: "'p seat \<Rightarrow> seat_status \<Rightarrow> (l1_error, 'p seat) outcome" where
  "set_status s StEmpty = Inr (vacate s)"
| "set_status s StOut = (case depart_this_hand s of Inr s' \<Rightarrow> Inr s' | Inl _ \<Rightarrow> Inl Panic)"
| "set_status (Waiting occ) StWaiting = Inr (Waiting occ)"
| "set_status (Playing p) StWaiting =
     (if cs_len (ps_hand p) = 0 \<and> ps_bet p = 0 \<and> ps_total_bet p = 0
      then Inr (Waiting (ps_occupied p)) else Inl Panic)"
| "set_status _ StWaiting = Inl Panic"
| "set_status (Waiting occ) StActive = Inr (Playing (fresh_playing occ))"
| "set_status (Playing p) StActive = Inr (Playing (p\<lparr>ps_status := PsActive\<rparr>))"
| "set_status _ StActive = Inl Panic"
| "set_status (Playing p) StFolded = Inr (Playing (p\<lparr>ps_status := PsFolded\<rparr>))"
| "set_status (Playing p) StAllIn = Inr (Playing (p\<lparr>ps_status := PsAllIn\<rparr>))"
| "set_status _ StFolded = Inl Panic"
| "set_status _ StAllIn = Inl Panic"

fun seat_player :: "'p seat \<Rightarrow> address" where
  "seat_player (Vacant _) = EMPTY_PLAYER"
| "seat_player (Waiting occ) = os_player occ"
| "seat_player (Playing p) = os_player (ps_occupied p)"
| "seat_player (DepartedThisHand a _ _) = a"

fun seat_stack :: "'p seat \<Rightarrow> nat" where
  "seat_stack (Waiting occ) = os_stack occ"
| "seat_stack (Playing p) = os_stack (ps_occupied p)"
| "seat_stack _ = 0"

fun seat_bet :: "'p seat \<Rightarrow> nat" where
  "seat_bet (Playing p) = ps_bet p"
| "seat_bet _ = 0"

fun seat_total_bet :: "'p seat \<Rightarrow> nat" where
  "seat_total_bet (Playing p) = ps_total_bet p"
| "seat_total_bet (DepartedThisHand _ b _) = b"
| "seat_total_bet _ = 0"

fun seat_pending_addon :: "'p seat \<Rightarrow> nat" where
  "seat_pending_addon (Waiting occ) = os_pending_addon occ"
| "seat_pending_addon (Playing p) = os_pending_addon (ps_occupied p)"
| "seat_pending_addon _ = 0"

fun seat_time_bank_ms :: "'p seat \<Rightarrow> nat" where
  "seat_time_bank_ms (Vacant m) = m"
| "seat_time_bank_ms (DepartedThisHand _ _ m) = m"
| "seat_time_bank_ms (Waiting occ) = os_time_bank_ms occ"
| "seat_time_bank_ms (Playing p) = os_time_bank_ms (ps_occupied p)"

fun seat_pk :: "'p seat \<Rightarrow> 'p option" where
  "seat_pk (Waiting occ) = Some (os_pk occ)"
| "seat_pk (Playing p) = Some (os_pk (ps_occupied p))"
| "seat_pk _ = None"

fun seat_hand :: "'p seat \<Rightarrow> card_slots option" where
  "seat_hand (Playing p) = Some (ps_hand p)"
| "seat_hand _ = None"

text \<open>
  \<open>playing_mut\<close> and \<open>hand_mut\<close> hand out a reference into the seat; the model takes what the caller
  does to it.
\<close>

fun with_playing ::
  "'p seat \<Rightarrow> ('p playing_seat \<Rightarrow> (l1_error, 'p playing_seat) outcome) \<Rightarrow> (l1_error, 'p seat) outcome" where
  "with_playing (Playing p) f = rbind (f p) (\<lambda>p'. Inr (Playing p'))"
| "with_playing _ f = fail ''Texas seat is not participating in the current hand''"

fun set_stack :: "'p seat \<Rightarrow> nat \<Rightarrow> (l1_error, 'p seat) outcome" where
  "set_stack (Waiting occ) n = Inr (Waiting (occ\<lparr>os_stack := n\<rparr>))"
| "set_stack (Playing p) n = Inr (Playing (p\<lparr>ps_occupied := (ps_occupied p)\<lparr>os_stack := n\<rparr>\<rparr>))"
| "set_stack s n = (if n = 0 then Inr s else fail ''Texas vacant/departed seat cannot carry a stack'')"

fun set_bet :: "'p seat \<Rightarrow> nat \<Rightarrow> (l1_error, 'p seat) outcome" where
  "set_bet (Playing p) n = Inr (Playing (p\<lparr>ps_bet := n\<rparr>))"
| "set_bet s n = (if n = 0 then Inr s else fail ''Texas non-playing seat cannot carry a round wager'')"

fun set_total_bet :: "'p seat \<Rightarrow> nat \<Rightarrow> (l1_error, 'p seat) outcome" where
  "set_total_bet (Playing p) n = Inr (Playing (p\<lparr>ps_total_bet := n\<rparr>))"
| "set_total_bet (DepartedThisHand a b m) n = Inr (DepartedThisHand a n m)"
| "set_total_bet s n = (if n = 0 then Inr s else fail ''Texas non-playing seat cannot carry a hand contribution'')"

fun set_pending_addon :: "'p seat \<Rightarrow> nat \<Rightarrow> (l1_error, 'p seat) outcome" where
  "set_pending_addon (Waiting occ) n = Inr (Waiting (occ\<lparr>os_pending_addon := n\<rparr>))"
| "set_pending_addon (Playing p) n =
     Inr (Playing (p\<lparr>ps_occupied := (ps_occupied p)\<lparr>os_pending_addon := n\<rparr>\<rparr>))"
| "set_pending_addon s n =
     (if n = 0 then Inr s else fail ''Texas vacant/departed seat cannot carry a pending addon'')"

fun set_time_bank_ms :: "'p seat \<Rightarrow> nat \<Rightarrow> 'p seat" where
  "set_time_bank_ms (Vacant m) n = Vacant n"
| "set_time_bank_ms (DepartedThisHand a b m) n = DepartedThisHand a b n"
| "set_time_bank_ms (Waiting occ) n = Waiting (occ\<lparr>os_time_bank_ms := n\<rparr>)"
| "set_time_bank_ms (Playing p) n = Playing (p\<lparr>ps_occupied := (ps_occupied p)\<lparr>os_time_bank_ms := n\<rparr>\<rparr>)"

definition validate_occupied_seat :: "('p \<Rightarrow> bool) \<Rightarrow> 'p occupied_seat \<Rightarrow> (l1_error, unit) outcome" where
  "validate_occupied_seat is_identity occ =
     rbind (require (\<not> os_player occ = EMPTY_PLAYER)
              ''Texas occupied seat cannot use the empty player address'') (\<lambda>_.
     require (\<not> is_identity (os_pk occ)) ''Texas occupied seat cannot use an identity public key'')"

fun seat_validate_canonical :: "('p \<Rightarrow> bool) \<Rightarrow> 'p seat \<Rightarrow> (l1_error, unit) outcome" where
  "seat_validate_canonical is_identity (Vacant _) = Inr ()"
| "seat_validate_canonical is_identity (Waiting occ) = validate_occupied_seat is_identity occ"
| "seat_validate_canonical is_identity (Playing p) =
     rbind (validate_occupied_seat is_identity (ps_occupied p)) (\<lambda>_.
     require (cards_canonical (ps_hand p)) ''Texas seat hand is non-canonical'')"
| "seat_validate_canonical is_identity (DepartedThisHand player _ _) =
     require (\<not> player = EMPTY_PLAYER) ''Texas departed seat cannot use the empty player address''"

text \<open>A seat that can still act: the guard that the whole contract repeats.\<close>

definition can_act :: "'p seat \<Rightarrow> bool" where
  "can_act s \<longleftrightarrow> is_occupied s \<and> \<not> is_folded s \<and> \<not> is_all_in s \<and> \<not> is_waiting s"

definition in_contention :: "'p seat \<Rightarrow> bool" where
  "in_contention s \<longleftrightarrow> is_occupied s \<and> \<not> is_folded s \<and> \<not> is_waiting s"

definition participating :: "'p seat \<Rightarrow> bool" where
  "participating s \<longleftrightarrow> is_occupied s \<and> \<not> is_waiting s"

lemma can_act_iff: "can_act s \<longleftrightarrow> (\<exists>p. s = Playing p \<and> ps_status p = PsActive)"
  by (cases s) (auto simp: can_act_def is_folded_def is_all_in_def split: playing_seat_status.splits)

lemma in_contention_iff: "in_contention s \<longleftrightarrow> (\<exists>p. s = Playing p \<and> ps_status p \<noteq> PsFolded)"
  by (cases s) (auto simp: in_contention_def is_folded_def split: playing_seat_status.splits)

lemma participating_iff: "participating s \<longleftrightarrow> (\<exists>p. s = Playing p)"
  by (cases s) (auto simp: participating_def)

text \<open>What the setters leave of the money of a seat.\<close>

named_theorems seat_money \<open>effect of the seat operations on stack, wagers and addons\<close>

lemma set_stack_money [seat_money]:
  assumes "set_stack s n = Inr s'"
  shows "seat_stack s' = n" "seat_bet s' = seat_bet s" "seat_total_bet s' = seat_total_bet s"
    "seat_pending_addon s' = seat_pending_addon s" "is_occupied s' = is_occupied s"
    "seat_status_of s' = seat_status_of s"
  using assms by (cases s; auto split: if_splits)+

lemma set_bet_money [seat_money]:
  assumes "set_bet s n = Inr s'"
  shows "seat_bet s' = n" "seat_stack s' = seat_stack s" "seat_total_bet s' = seat_total_bet s"
    "seat_pending_addon s' = seat_pending_addon s" "is_occupied s' = is_occupied s"
    "seat_status_of s' = seat_status_of s"
  using assms by (cases s; auto split: if_splits)+

lemma set_pending_addon_money [seat_money]:
  assumes "set_pending_addon s n = Inr s'"
  shows "seat_pending_addon s' = n" "seat_stack s' = seat_stack s" "seat_bet s' = seat_bet s"
    "seat_total_bet s' = seat_total_bet s" "is_occupied s' = is_occupied s"
    "seat_status_of s' = seat_status_of s"
  using assms by (cases s; auto split: if_splits)+

lemma set_time_bank_money [seat_money, simp]:
  "seat_stack (set_time_bank_ms s n) = seat_stack s"
  "seat_bet (set_time_bank_ms s n) = seat_bet s"
  "seat_total_bet (set_time_bank_ms s n) = seat_total_bet s"
  "seat_pending_addon (set_time_bank_ms s n) = seat_pending_addon s"
  "is_occupied (set_time_bank_ms s n) = is_occupied s"
  "seat_status_of (set_time_bank_ms s n) = seat_status_of s"
  by (cases s; simp)+

lemma prepare_next_hand_money [seat_money, simp]:
  "seat_stack (prepare_next_hand s) = seat_stack s"
  "seat_bet (prepare_next_hand s) = 0"
  "seat_total_bet (prepare_next_hand s) = (if has_left_hand s then seat_total_bet s else 0)"
  "seat_pending_addon (prepare_next_hand s) = seat_pending_addon s"
  "is_occupied (prepare_next_hand s) = is_occupied s"
  "has_left_hand (prepare_next_hand s) = has_left_hand s"
  by (cases s; simp add: fresh_playing_def)+

end
