(* ===== verification/TableState.thy ===== *)
theory TableState
  imports TableSeat
begin

text \<open>
  The state of the on-chain table: \<^verbatim>\<open>texas_poker/types.rs\<close> (protocol payloads, the tagged union
  \<open>HandPhase\<close>, the deck, the rules and \<open>TexasPokerTable\<close>) and the events of
  \<^verbatim>\<open>texas_poker/events.rs\<close>, with the projections of the phase, the transitions between phases and
  their deadlines, and the validation of a table.

  Times and amounts are naturals; an addition of the code that is checked returns its error here as
  well.  Masks are words.  A ciphertext list stands for the array of a \<open>CipherDeck\<close>; the conversion
  from a list keeps the length at 0 or 52.
\<close>

section \<open>Cryptographic libraries\<close>

record 'p ciphertext =
  ct_c1 :: 'p
  ct_c2 :: 'p

record 'p reconstruct_statement =
  rst_version :: nat
  rst_context_digest :: "byte list"
  rst_epoch :: nat
  rst_prior_state_digest :: "byte list"
  rst_aggregate_pk :: 'p
  rst_owner_pk :: 'p
  rst_cards :: "'p list"
  rst_readable :: "'p ciphertext list"
  rst_contributions :: "'p ciphertext list"

text \<open>
  What the contract uses of the curve crate, of Blake2b, of Borsh and of the proof systems.  The
  proof arguments are the bytes of the proofs.
\<close>

record 'p poker_lib =
  lib_identity :: 'p
  lib_generator :: 'p
  lib_add :: "'p \<Rightarrow> 'p \<Rightarrow> 'p"
  lib_sub :: "'p \<Rightarrow> 'p \<Rightarrow> 'p"
  lib_hash_to_curve :: "string \<Rightarrow> 'p"
  lib_compress :: "'p \<Rightarrow> byte list"
  lib_blake2b :: "byte list \<Rightarrow> byte list"
  lib_borsh_plan :: "settlement_plan \<Rightarrow> byte list"
  lib_shuffle_verify :: "byte list \<Rightarrow> 'p ciphertext list \<Rightarrow> 'p ciphertext list \<Rightarrow> 'p \<Rightarrow> bool"
  lib_reveal_verify :: "byte list \<Rightarrow> 'p ciphertext \<Rightarrow> 'p \<Rightarrow> 'p \<Rightarrow> bool"
  lib_leave_verify :: "byte list \<Rightarrow> 'p ciphertext list \<Rightarrow> 'p ciphertext list \<Rightarrow> 'p \<Rightarrow> bool"
  lib_ownership_verify :: "'p \<Rightarrow> byte list \<Rightarrow> bool"
  lib_reconstruct_verify :: "byte list \<Rightarrow> 'p reconstruct_statement \<Rightarrow> bool"
  lib_base_deck :: "'p list \<Rightarrow> 'p \<Rightarrow> 'p ciphertext list option"
  lib_apply_contributions :: "'p ciphertext list \<Rightarrow> 'p ciphertext list \<Rightarrow> 'p ciphertext list option"

definition g1_is_identity :: "'p poker_lib \<Rightarrow> 'p \<Rightarrow> bool" where
  "g1_is_identity L pk \<longleftrightarrow> pk = lib_identity L"

fun decimal :: "nat \<Rightarrow> string" where
  "decimal n = (if n < 10 then [char_of (48 + n)] else decimal (n div 10) @ [char_of (48 + n mod 10)])"

declare decimal.simps [simp del]

definition generate_plaintext_cards :: "'p poker_lib \<Rightarrow> 'p list" where
  "generate_plaintext_cards L =
     map (\<lambda>i. lib_hash_to_curve L (''texas_poker/card/'' @ decimal i)) [0..<52]"

definition add_pk_to_c2 :: "'p poker_lib \<Rightarrow> 'p ciphertext \<Rightarrow> 'p \<Rightarrow> 'p ciphertext" where
  "add_pk_to_c2 L ct player_pk = \<lparr>ct_c1 = ct_c1 ct, ct_c2 = lib_add L (ct_c2 ct) player_pk\<rparr>"

lemma length_plaintext_cards [simp]: "length (generate_plaintext_cards L) = 52"
  by (simp add: generate_plaintext_cards_def)

section \<open>Shuffle, reveal and reconstruction payloads\<close>

datatype shuffling_purpose = InitialShuffle | ReconstructShuffle

definition SHUFFLE_PHASE_NONE :: nat where "SHUFFLE_PHASE_NONE = 0"
definition SHUFFLE_PHASE_RECONSTRUCT :: nat where "SHUFFLE_PHASE_RECONSTRUCT = 2"
definition SHUFFLE_PHASE_BEFORE_PREFLOP :: nat where "SHUFFLE_PHASE_BEFORE_PREFLOP = 3"

fun legacy_shuffle_phase :: "shuffling_purpose \<Rightarrow> nat" where
  "legacy_shuffle_phase InitialShuffle = SHUFFLE_PHASE_BEFORE_PREFLOP"
| "legacy_shuffle_phase ReconstructShuffle = SHUFFLE_PHASE_RECONSTRUCT"

record shuffle_state =
  sh_pending_mask :: mask16
  sh_completed_mask :: mask16

definition shuffle_default :: shuffle_state where
  "shuffle_default = \<lparr>sh_pending_mask = 0, sh_completed_mask = 0\<rparr>"

definition derived_current_shuffler :: "shuffle_state \<Rightarrow> nat" where
  "derived_current_shuffler st =
     (case seat_mask_first (sh_pending_mask st) of None \<Rightarrow> NO_SEAT | Some i \<Rightarrow> i)"

datatype reveal_target = HoleTarget nat nat | BoardTarget nat nat

fun canonical_key :: "reveal_target \<Rightarrow> nat \<times> nat \<times> nat" where
  "canonical_key (HoleTarget seat_index card_slot) = (0, seat_index, card_slot)"
| "canonical_key (BoardTarget runout_index board_position) = (1, runout_index, board_position)"

record 'p reveal_assignment =
  ra_card_index :: nat
  ra_target :: reveal_target
  ra_pending_mask :: mask16
  ra_submitted_mask :: mask16
  ra_tokens :: "'p list"

definition is_ready :: "'p reveal_assignment \<Rightarrow> bool" where
  "is_ready a \<longleftrightarrow> ra_pending_mask a = 0"

datatype reveal_purpose = DealHole | BoardReveal | ShowdownOwner

definition REVEAL_PHASE_NONE :: nat where "REVEAL_PHASE_NONE = 0"
definition REVEAL_PHASE_PREFLOP :: nat where "REVEAL_PHASE_PREFLOP = 1"
definition REVEAL_PHASE_FLOP :: nat where "REVEAL_PHASE_FLOP = 3"
definition REVEAL_PHASE_TURN :: nat where "REVEAL_PHASE_TURN = 4"
definition REVEAL_PHASE_RIVER :: nat where "REVEAL_PHASE_RIVER = 5"
definition REVEAL_PHASE_SHOWDOWN :: nat where "REVEAL_PHASE_SHOWDOWN = 6"

definition legacy_reveal_phase :: "reveal_purpose \<Rightarrow> nat \<Rightarrow> nat" where
  "legacy_reveal_phase purpose street =
     (if purpose = DealHole \<and> street = ROUND_PREFLOP then REVEAL_PHASE_PREFLOP
      else if purpose = BoardReveal \<and> street = ROUND_FLOP then REVEAL_PHASE_FLOP
      else if purpose = BoardReveal \<and> street = ROUND_TURN then REVEAL_PHASE_TURN
      else if purpose = BoardReveal \<and> street = ROUND_RIVER then REVEAL_PHASE_RIVER
      else if purpose = ShowdownOwner \<and> street = ROUND_SHOWDOWN then REVEAL_PHASE_SHOWDOWN
      else REVEAL_PHASE_NONE)"

lemmas reveal_phase_defs = REVEAL_PHASE_NONE_def REVEAL_PHASE_PREFLOP_def REVEAL_PHASE_FLOP_def
  REVEAL_PHASE_TURN_def REVEAL_PHASE_RIVER_def REVEAL_PHASE_SHOWDOWN_def

record 'p reveal_state =
  rv_purpose :: reveal_purpose
  rv_assignments :: "'p reveal_assignment list"

fun target_matches :: "reveal_purpose \<Rightarrow> reveal_target \<Rightarrow> bool" where
  "target_matches DealHole (HoleTarget _ card_slot) = (card_slot < 2)"
| "target_matches ShowdownOwner (HoleTarget _ card_slot) = (card_slot < 2)"
| "target_matches BoardReveal (BoardTarget runout_index board_position) =
     (runout_index < 2 \<and> board_position < 5)"
| "target_matches _ _ = False"

definition key_less :: "nat \<times> nat \<times> nat \<Rightarrow> nat \<times> nat \<times> nat \<Rightarrow> bool" where
  "key_less k l \<longleftrightarrow> (case (k, l) of ((a, b, c), (a', b', c')) \<Rightarrow>
     a < a' \<or> a = a' \<and> (b < b' \<or> b = b' \<and> c < c'))"

text \<open>The loop keeps the key of the previous target and the indices already used.\<close>

definition validate_for_street :: "'p reveal_state \<Rightarrow> nat \<Rightarrow> (l1_error, unit) outcome" where
  "validate_for_street st street =
     rbind (require (\<not> legacy_reveal_phase (rv_purpose st) street = REVEAL_PHASE_NONE)
              ''Texas reveal purpose is incompatible with street'') (\<lambda>_.
     rbind (foldM (\<lambda>(prior_key, encrypted_indices) a.
         rbind (require (target_matches (rv_purpose st) (ra_target a))
                  ''Texas reveal assignment target is incompatible with purpose'') (\<lambda>_.
         let target_key = canonical_key (ra_target a) in
         rbind (require (\<not> (case prior_key of None \<Rightarrow> False | Some prior \<Rightarrow> \<not> key_less prior target_key))
                  ''Texas reveal assignment target order is not canonical'') (\<lambda>_.
         rbind (require (\<not> (52 \<le> ra_card_index a \<or> ra_card_index a \<in> set encrypted_indices))
                  ''Texas reveal assignment has duplicate/out-of-range encrypted card index'') (\<lambda>_.
         Inr (Some target_key, ra_card_index a # encrypted_indices)))))
       (None, []) (rv_assignments st))
     (\<lambda>_. Inr ()))"

record 'p reconstruct_state =
  rs_pending_mask :: mask16
  rs_accumulated_deck :: "'p ciphertext list option"

definition reconstruct_default :: "'p reconstruct_state" where
  "reconstruct_default = \<lparr>rs_pending_mask = 0, rs_accumulated_deck = None\<rparr>"

section \<open>Run it twice\<close>

datatype run_it_twice_state = RitSingle | RitTwice rit_start_street card_slots

fun rit_is_active :: "run_it_twice_state \<Rightarrow> bool" where
  "rit_is_active RitSingle = False"
| "rit_is_active (RitTwice _ _) = True"

fun rit_shared_len :: "run_it_twice_state \<Rightarrow> nat" where
  "rit_shared_len RitSingle = 0"
| "rit_shared_len (RitTwice start _) = rit_shared_board_len start"

fun second_board_suffix :: "run_it_twice_state \<Rightarrow> nat list" where
  "second_board_suffix RitSingle = []"
| "second_board_suffix (RitTwice _ sfx) = as_slice sfx"

definition second_board_len :: "run_it_twice_state \<Rightarrow> nat" where
  "second_board_len st = rit_shared_len st + length (second_board_suffix st)"

definition full_second_board :: "run_it_twice_state \<Rightarrow> card_slots \<Rightarrow> (l1_error, nat list) outcome" where
  "full_second_board st first_board =
     rbind (require (\<not> rit_shared_len st > cs_len first_board)
              ''Texas RIT shared prefix exceeds first board'') (\<lambda>_.
     Inr (take (rit_shared_len st) (as_slice first_board) @ second_board_suffix st))"

fun rit_validate_canonical :: "run_it_twice_state \<Rightarrow> card_slots \<Rightarrow> (l1_error, unit) outcome" where
  "rit_validate_canonical RitSingle first_board = Inr ()"
| "rit_validate_canonical (RitTwice start sfx) first_board =
     rbind (require (cards_canonical sfx) ''Texas RIT second-board suffix is non-canonical'') (\<lambda>_.
     let shared = rit_shared_board_len start in
     rbind (require (\<not> (shared > 4 \<or> shared > cs_len first_board))
              ''Texas RIT shared prefix is outside the first board'') (\<lambda>_.
     require (\<not> shared + cs_len sfx > 5) ''Texas RIT second board exceeds five cards''))"

section \<open>The phase of a hand\<close>

record timeout_config =
  tc_shuffle_ms :: nat
  tc_reveal_ms :: nat
  tc_betting_ms :: nat
  tc_reconstruct_ms :: nat
  tc_showdown_ms :: nat

definition timeout_default :: timeout_config where
  "timeout_default = \<lparr>tc_shuffle_ms = 10000, tc_reveal_ms = 10000, tc_betting_ms = 30000,
     tc_reconstruct_ms = 10000, tc_showdown_ms = 3000\<rparr>"

text \<open>
  \<open>InitialShuffling state deadline\<close>; \<open>ReconstructShuffling street state suspended deadline\<close>;
  \<open>Revealing street state deadline\<close>; \<open>Reconstructing street state suspended epoch deadline\<close>;
  \<open>Betting street round current_turn deadline\<close>; \<open>ShowdownDisplay deadline\<close>.
\<close>

datatype 'p shuffling_phase =
    InitialShuffling shuffle_state nat
  | ReconstructShuffling nat shuffle_state "'p reveal_state" nat

datatype 'p hand_phase =
    PhaseWaiting
  | Shuffling "'p shuffling_phase"
  | Revealing nat "'p reveal_state" nat
  | Reconstructing nat "'p reconstruct_state" "'p reveal_state" nat nat
  | Betting nat betting_round nat nat
  | ShowdownDisplay nat

fun sp_purpose :: "'p shuffling_phase \<Rightarrow> shuffling_purpose" where
  "sp_purpose (InitialShuffling _ _) = InitialShuffle"
| "sp_purpose (ReconstructShuffling _ _ _ _) = ReconstructShuffle"

fun sp_street :: "'p shuffling_phase \<Rightarrow> nat" where
  "sp_street (InitialShuffling _ _) = ROUND_WAITING"
| "sp_street (ReconstructShuffling street _ _ _) = street"

fun sp_state :: "'p shuffling_phase \<Rightarrow> shuffle_state" where
  "sp_state (InitialShuffling st _) = st"
| "sp_state (ReconstructShuffling _ st _ _) = st"

fun sp_set_state :: "'p shuffling_phase \<Rightarrow> shuffle_state \<Rightarrow> 'p shuffling_phase" where
  "sp_set_state (InitialShuffling _ d) st = InitialShuffling st d"
| "sp_set_state (ReconstructShuffling street _ rv d) st = ReconstructShuffling street st rv d"

fun sp_deadline :: "'p shuffling_phase \<Rightarrow> nat" where
  "sp_deadline (InitialShuffling _ d) = d"
| "sp_deadline (ReconstructShuffling _ _ _ d) = d"

fun sp_set_deadline :: "'p shuffling_phase \<Rightarrow> nat \<Rightarrow> 'p shuffling_phase" where
  "sp_set_deadline (InitialShuffling st _) d = InitialShuffling st d"
| "sp_set_deadline (ReconstructShuffling street st rv _) d = ReconstructShuffling street st rv d"

definition canonical_absolute_deadline :: "nat \<Rightarrow> nat \<Rightarrow> (l1_error, nat) outcome" where
  "canonical_absolute_deadline started_at timeout_ms =
     (if started_at = 0 then Inr 0
      else checked (checked_add_u64 started_at timeout_ms) ''Texas deadline overflows u64'')"

section \<open>The deck\<close>

record 'p partial_hole_card =
  ph_card_index :: nat
  ph_ciphertext :: "'p ciphertext"

text \<open>
  \<open>PartialHoleCardLedger\<close>: nine seats of two slots, flattened; slot \<open>k\<close> of seat \<open>i\<close> is at \<open>2 * i + k\<close>.
\<close>

type_synonym 'p ledger = "'p partial_hole_card option list"

definition ledger_default :: "'p ledger" where
  "ledger_default = replicate 18 None"

definition ledger_get :: "'p ledger \<Rightarrow> nat \<Rightarrow> nat \<Rightarrow> 'p partial_hole_card option" where
  "ledger_get led seat_index card_slot =
     (if seat_index < MAX_SEATS \<and> card_slot < 2 then led ! (2 * seat_index + card_slot) else None)"

definition ledger_iter :: "'p ledger \<Rightarrow> (nat \<times> nat \<times> 'p partial_hole_card) list" where
  "ledger_iter led =
     [(i, k, c). i \<leftarrow> [0..<9], k \<leftarrow> [0..<2], c \<leftarrow> (case ledger_get led i k of None \<Rightarrow> [] | Some c \<Rightarrow> [c])]"

definition ledger_iter_for_seat :: "'p ledger \<Rightarrow> nat \<Rightarrow> (nat \<times> 'p partial_hole_card) list" where
  "ledger_iter_for_seat led seat_index =
     [(k, c). k \<leftarrow> [0..<2], c \<leftarrow> (case ledger_get led seat_index k of None \<Rightarrow> [] | Some c \<Rightarrow> [c])]"

definition ledger_insert ::
  "'p ledger \<Rightarrow> nat \<Rightarrow> nat \<Rightarrow> 'p partial_hole_card \<Rightarrow> (l1_error, 'p ledger) outcome" where
  "ledger_insert led seat_index card_slot c =
     rbind (require (\<not> (seat_index \<ge> MAX_SEATS \<or> card_slot \<ge> 2))
              ''Texas partial hole-card position is out of range'') (\<lambda>_.
     rbind (require (\<not> ph_card_index c \<ge> CIPHER_DECK_SIZE)
              ''Texas partial hole card has out-of-range deck index'') (\<lambda>_.
     rbind (require (\<not> list_ex (\<lambda>(_, _, prior). ph_card_index prior = ph_card_index c) (ledger_iter led))
              ''Texas partial hole-card ledger duplicates deck index'') (\<lambda>_.
     rbind (require (\<not> led ! (2 * seat_index + card_slot) \<noteq> None)
              ''Texas partial hole-card slot is already occupied'') (\<lambda>_.
     Inr (led[2 * seat_index + card_slot := Some c])))))"

definition ledger_remove ::
  "'p ledger \<Rightarrow> nat \<Rightarrow> nat \<Rightarrow> (l1_error, 'p partial_hole_card \<times> 'p ledger) outcome" where
  "ledger_remove led seat_index card_slot =
     rbind (require (seat_index < MAX_SEATS \<and> card_slot < 2)
              ''Texas partial hole-card position is out of range'') (\<lambda>_.
     case led ! (2 * seat_index + card_slot) of
       None \<Rightarrow> fail ''Texas partial hole-card slot is empty''
     | Some c \<Rightarrow> Inr (c, led[2 * seat_index + card_slot := None]))"

record 'p deck_state =
  ds_encrypted :: "'p ciphertext list"
  ds_contributor_mask :: mask16
  ds_cards_dealt :: nat
  ds_hole_ledger :: "'p ledger"

definition cipher_deck :: "'p ciphertext list \<Rightarrow> (l1_error, 'p ciphertext list) outcome" where
  "cipher_deck cards =
     (if cards = [] then Inr []
      else rbind (require (length cards = CIPHER_DECK_SIZE) ''Texas encrypted deck has wrong size'')
             (\<lambda>_. Inr cards))"

definition deck_default :: "'p deck_state" where
  "deck_default = \<lparr>ds_encrypted = [], ds_contributor_mask = 0, ds_cards_dealt = 0,
     ds_hole_ledger = ledger_default\<rparr>"

section \<open>Rules\<close>

definition ANTE_MODE_NONE :: nat where "ANTE_MODE_NONE = 0"
definition ANTE_MODE_NORMAL :: nat where "ANTE_MODE_NORMAL = 1"
definition ANTE_MODE_BBA :: nat where "ANTE_MODE_BBA = 2"
definition RIT_MODE_DISABLED :: nat where "RIT_MODE_DISABLED = 0"
definition RIT_MODE_TWICE :: nat where "RIT_MODE_TWICE = 1"

record table_rules =
  tr_max_players :: nat
  tr_small_blind :: nat
  tr_big_blind :: nat
  tr_timeout_config :: timeout_config
  tr_ante_mode :: nat
  tr_ante_amount :: nat
  tr_rake_mode :: nat
  tr_rake_bps :: nat
  tr_rake_cap :: nat
  tr_rit_mode :: nat

definition table_rules_new :: "nat \<Rightarrow> nat \<Rightarrow> nat \<Rightarrow> table_rules" where
  "table_rules_new max_players small_blind big_blind =
     \<lparr>tr_max_players = max_players, tr_small_blind = small_blind, tr_big_blind = big_blind,
      tr_timeout_config = timeout_default, tr_ante_mode = ANTE_MODE_NONE, tr_ante_amount = 0,
      tr_rake_mode = RAKE_MODE_NONE, tr_rake_bps = 500, tr_rake_cap = 1000,
      tr_rit_mode = RIT_MODE_DISABLED\<rparr>"

definition rules_validate_canonical :: "table_rules \<Rightarrow> (l1_error, unit) outcome" where
  "rules_validate_canonical r =
     rbind (require (2 \<le> tr_max_players r \<and> tr_max_players r \<le> MAX_SEATS)
              ''Texas max_players is outside 2..=9'') (\<lambda>_.
     rbind (require (\<not> (tr_big_blind r = 0 \<or> tr_small_blind r > tr_big_blind r))
              ''Texas blind configuration is not canonical'') (\<lambda>_.
     rbind (require (tr_ante_mode r \<in> {ANTE_MODE_NONE, ANTE_MODE_NORMAL, ANTE_MODE_BBA})
              ''Texas ante mode is not canonical'') (\<lambda>_.
     rbind (require (\<not> (tr_rake_mode r \<notin> {RAKE_MODE_NONE, RAKE_MODE_PERCENTAGE, RAKE_MODE_FIXED_RAKE_BURN} \<or>
                        tr_rake_bps r > 10000))
              ''Texas rake configuration is not canonical'') (\<lambda>_.
     require (tr_rit_mode r \<in> {RIT_MODE_DISABLED, RIT_MODE_TWICE})
       ''Texas RIT mode is not canonical''))))"

section \<open>The table\<close>

type_synonym object_id = "byte list"

record 'p table =
  t_id :: object_id
  t_name :: string
  t_creator :: address
  t_rules :: table_rules
  t_seats :: "'p seat list"
  t_acted_mask :: mask16
  t_leave_mask :: mask16
  t_button :: nat
  t_pot :: nat
  t_community_cards :: card_slots
  t_hand_phase :: "'p hand_phase"
  t_deck_state :: "'p deck_state"
  t_chip_pool :: nat
  t_rit_state :: run_it_twice_state
  t_hand_id :: nat
  t_call_seq :: nat

text \<open>The \<open>Deref\<close> of the table to its rules.\<close>

abbreviation max_players :: "'p table \<Rightarrow> nat" where "max_players t \<equiv> tr_max_players (t_rules t)"
abbreviation small_blind :: "'p table \<Rightarrow> nat" where "small_blind t \<equiv> tr_small_blind (t_rules t)"
abbreviation big_blind :: "'p table \<Rightarrow> nat" where "big_blind t \<equiv> tr_big_blind (t_rules t)"
abbreviation timeouts :: "'p table \<Rightarrow> timeout_config" where
  "timeouts t \<equiv> tr_timeout_config (t_rules t)"

abbreviation put_seat :: "'p table \<Rightarrow> nat \<Rightarrow> 'p seat \<Rightarrow> 'p table" where
  "put_seat t i s \<equiv> t\<lparr>t_seats := (t_seats t)[i := s]\<rparr>"

fun phase_street :: "'p hand_phase \<Rightarrow> nat" where
  "phase_street PhaseWaiting = ROUND_WAITING"
| "phase_street (Shuffling ph) = sp_street ph"
| "phase_street (Revealing street _ _) = street"
| "phase_street (Reconstructing street _ _ _ _) = street"
| "phase_street (Betting street _ _ _) = street"
| "phase_street (ShowdownDisplay _) = ROUND_SHOWDOWN"

definition round_state :: "'p table \<Rightarrow> nat" where
  "round_state t = phase_street (t_hand_phase t)"

definition betting_round_of :: "'p table \<Rightarrow> betting_round option" where
  "betting_round_of t = (case t_hand_phase t of Betting _ r _ _ \<Rightarrow> Some r | _ \<Rightarrow> None)"

definition current_turn :: "'p table \<Rightarrow> nat" where
  "current_turn t = (case t_hand_phase t of Betting _ _ turn _ \<Rightarrow> turn | _ \<Rightarrow> NO_SEAT)"

definition current_turn_option :: "'p table \<Rightarrow> nat option" where
  "current_turn_option t = (let turn = current_turn t in if turn \<noteq> NO_SEAT then Some turn else None)"

definition shuffle_state_of :: "'p table \<Rightarrow> shuffle_state" where
  "shuffle_state_of t = (case t_hand_phase t of Shuffling ph \<Rightarrow> sp_state ph | _ \<Rightarrow> shuffle_default)"

definition shuffle_phase :: "'p table \<Rightarrow> nat" where
  "shuffle_phase t =
     (case t_hand_phase t of Shuffling ph \<Rightarrow> legacy_shuffle_phase (sp_purpose ph)
      | _ \<Rightarrow> SHUFFLE_PHASE_NONE)"

fun phase_reveal :: "'p hand_phase \<Rightarrow> 'p reveal_state option" where
  "phase_reveal (Revealing _ st _) = Some st"
| "phase_reveal (Reconstructing _ _ rv _ _) = Some rv"
| "phase_reveal (Shuffling (ReconstructShuffling _ _ rv _)) = Some rv"
| "phase_reveal _ = None"

definition reveal_token_state :: "'p table \<Rightarrow> 'p reveal_state option" where
  "reveal_token_state t = phase_reveal (t_hand_phase t)"

definition reveal_phase :: "'p table \<Rightarrow> nat" where
  "reveal_phase t =
     (case reveal_token_state t of None \<Rightarrow> REVEAL_PHASE_NONE
      | Some st \<Rightarrow> legacy_reveal_phase (rv_purpose st) (round_state t))"

definition reveal_assignments :: "'p table \<Rightarrow> 'p reveal_assignment list" where
  "reveal_assignments t = (case reveal_token_state t of None \<Rightarrow> [] | Some st \<Rightarrow> rv_assignments st)"

definition reconstruct_state_of :: "'p table \<Rightarrow> 'p reconstruct_state" where
  "reconstruct_state_of t =
     (case t_hand_phase t of Reconstructing _ st _ _ _ \<Rightarrow> st | _ \<Rightarrow> reconstruct_default)"

definition is_reconstructing :: "'p table \<Rightarrow> bool" where
  "is_reconstructing t \<longleftrightarrow> (case t_hand_phase t of Reconstructing _ _ _ _ _ \<Rightarrow> True | _ \<Rightarrow> False)"

definition set_shuffle_state :: "'p table \<Rightarrow> shuffle_state \<Rightarrow> (l1_error, 'p table) outcome" where
  "set_shuffle_state t st =
     (case t_hand_phase t of
        Shuffling ph \<Rightarrow> Inr (t\<lparr>t_hand_phase := Shuffling (sp_set_state ph st)\<rparr>)
      | _ \<Rightarrow> fail ''Texas table is not in an active shuffle phase'')"

definition set_reveal_state :: "'p table \<Rightarrow> 'p reveal_state \<Rightarrow> (l1_error, 'p table) outcome" where
  "set_reveal_state t st =
     (case t_hand_phase t of
        Revealing street _ d \<Rightarrow> Inr (t\<lparr>t_hand_phase := Revealing street st d\<rparr>)
      | _ \<Rightarrow> fail ''Texas table is not in an active reveal phase'')"

definition set_reconstruct_state :: "'p table \<Rightarrow> 'p reconstruct_state \<Rightarrow> (l1_error, 'p table) outcome" where
  "set_reconstruct_state t st =
     (case t_hand_phase t of
        Reconstructing street _ rv e d \<Rightarrow> Inr (t\<lparr>t_hand_phase := Reconstructing street st rv e d\<rparr>)
      | _ \<Rightarrow> fail ''Texas table is not in an active reconstruct phase'')"

definition set_betting_round :: "'p table \<Rightarrow> betting_round \<Rightarrow> (l1_error, 'p table) outcome" where
  "set_betting_round t r =
     (case t_hand_phase t of
        Betting street _ turn d \<Rightarrow> Inr (t\<lparr>t_hand_phase := Betting street r turn d\<rparr>)
      | _ \<Rightarrow> fail ''Texas table is not in an active betting phase'')"

definition take_reveal_payload :: "'p table \<Rightarrow> (l1_error, 'p reveal_state \<times> 'p table) outcome" where
  "take_reveal_payload t =
     (case reveal_token_state t of
        Some st \<Rightarrow> Inr (st, t\<lparr>t_hand_phase := PhaseWaiting\<rparr>)
      | None \<Rightarrow> fail ''Texas phase has no active or suspended reveal payload'')"

section \<open>Deadlines\<close>

definition reconstruct_deadline_ms :: "'p table \<Rightarrow> (l1_error, nat option) outcome" where
  "reconstruct_deadline_ms t =
     (case t_hand_phase t of
        Reconstructing _ _ _ epoch_ms deadline_ms \<Rightarrow>
          rbind (canonical_absolute_deadline epoch_ms (tc_reconstruct_ms (timeouts t))) (\<lambda>expected.
          rbind (require (\<not> deadline_ms \<noteq> expected) ''Texas reconstruct deadline mismatch'')
            (\<lambda>_. Inr (Some deadline_ms)))
      | _ \<Rightarrow> Inr None)"

definition arm_reconstruct_deadline :: "'p table \<Rightarrow> nat \<Rightarrow> (l1_error, 'p table) outcome" where
  "arm_reconstruct_deadline t now_ms =
     rbind (canonical_absolute_deadline now_ms (tc_reconstruct_ms (timeouts t))) (\<lambda>deadline_ms.
     case t_hand_phase t of
       Reconstructing street st rv _ _ \<Rightarrow>
         Inr (t\<lparr>t_hand_phase := Reconstructing street st rv now_ms deadline_ms\<rparr>)
     | _ \<Rightarrow> fail ''cannot arm reconstruct deadline outside phase'')"

definition shuffle_deadline_ms :: "'p table \<Rightarrow> nat option" where
  "shuffle_deadline_ms t = (case t_hand_phase t of Shuffling ph \<Rightarrow> Some (sp_deadline ph) | _ \<Rightarrow> None)"

definition arm_shuffle_deadline :: "'p table \<Rightarrow> nat \<Rightarrow> (l1_error, 'p table) outcome" where
  "arm_shuffle_deadline t now_ms =
     rbind (canonical_absolute_deadline now_ms (tc_shuffle_ms (timeouts t))) (\<lambda>deadline_ms.
     case t_hand_phase t of
       Shuffling ph \<Rightarrow> Inr (t\<lparr>t_hand_phase := Shuffling (sp_set_deadline ph deadline_ms)\<rparr>)
     | _ \<Rightarrow> fail ''cannot arm shuffle deadline outside phase'')"

definition disarm_shuffle_deadline :: "'p table \<Rightarrow> (l1_error, 'p table) outcome" where
  "disarm_shuffle_deadline t =
     (case t_hand_phase t of
        Shuffling ph \<Rightarrow> Inr (t\<lparr>t_hand_phase := Shuffling (sp_set_deadline ph 0)\<rparr>)
      | _ \<Rightarrow> fail ''cannot disarm shuffle deadline outside phase'')"

definition reveal_deadline_ms :: "'p table \<Rightarrow> nat option" where
  "reveal_deadline_ms t = (case t_hand_phase t of Revealing _ _ d \<Rightarrow> Some d | _ \<Rightarrow> None)"

definition arm_reveal_deadline :: "'p table \<Rightarrow> nat \<Rightarrow> (l1_error, 'p table) outcome" where
  "arm_reveal_deadline t now_ms =
     rbind (require (\<not> reveal_deadline_ms t = None) ''cannot arm reveal deadline outside phase'') (\<lambda>_.
     rbind (canonical_absolute_deadline now_ms (tc_reveal_ms (timeouts t))) (\<lambda>deadline_ms.
     case t_hand_phase t of
       Revealing street st _ \<Rightarrow> Inr (t\<lparr>t_hand_phase := Revealing street st deadline_ms\<rparr>)
     | _ \<Rightarrow> fail ''cannot arm reveal deadline outside phase''))"

definition betting_deadline_ms :: "'p table \<Rightarrow> nat option" where
  "betting_deadline_ms t = (case t_hand_phase t of Betting _ _ _ d \<Rightarrow> Some d | _ \<Rightarrow> None)"

definition arm_betting_deadline :: "'p table \<Rightarrow> nat \<Rightarrow> (l1_error, 'p table) outcome" where
  "arm_betting_deadline t now_ms =
     rbind (canonical_absolute_deadline now_ms (tc_betting_ms (timeouts t))) (\<lambda>deadline_ms.
     case t_hand_phase t of
       Betting street r turn _ \<Rightarrow> Inr (t\<lparr>t_hand_phase := Betting street r turn deadline_ms\<rparr>)
     | _ \<Rightarrow> fail ''cannot arm betting deadline outside phase'')"

definition extend_betting_deadline :: "'p table \<Rightarrow> nat \<Rightarrow> (l1_error, nat \<times> 'p table) outcome" where
  "extend_betting_deadline t extension_ms =
     (case t_hand_phase t of
        Betting street r turn d \<Rightarrow>
          if d \<noteq> 0 then
            rbind (checked (checked_add_u64 d extension_ms)
                     ''Texas betting deadline extension overflows u64'') (\<lambda>d'.
            Inr (d', t\<lparr>t_hand_phase := Betting street r turn d'\<rparr>))
          else fail ''cannot extend an unarmed betting deadline''
      | _ \<Rightarrow> fail ''cannot extend an unarmed betting deadline'')"

definition showdown_deadline_ms :: "'p table \<Rightarrow> nat option" where
  "showdown_deadline_ms t = (case t_hand_phase t of ShowdownDisplay d \<Rightarrow> Some d | _ \<Rightarrow> None)"

definition arm_showdown_deadline :: "'p table \<Rightarrow> nat \<Rightarrow> (l1_error, 'p table) outcome" where
  "arm_showdown_deadline t now_ms =
     rbind (require (\<not> showdown_deadline_ms t = None)
              ''cannot arm showdown deadline outside display phase'') (\<lambda>_.
     rbind (checked (checked_add_u64 now_ms (tc_showdown_ms (timeouts t)))
              ''Texas showdown deadline overflows u64'') (\<lambda>deadline_ms.
     Inr (t\<lparr>t_hand_phase := ShowdownDisplay deadline_ms\<rparr>)))"

definition arm_active_deadline_if_needed :: "'p table \<Rightarrow> nat \<Rightarrow> (l1_error, 'p table) outcome" where
  "arm_active_deadline_if_needed t now_ms =
     rbind (require (\<not> now_ms = 0) ''Texas active phase requires a non-zero consensus timestamp'') (\<lambda>_.
     case t_hand_phase t of
       PhaseWaiting \<Rightarrow> Inr t
     | Shuffling ph \<Rightarrow> if sp_deadline ph = 0 then arm_shuffle_deadline t now_ms else Inr t
     | Revealing _ _ d \<Rightarrow> if d = 0 then arm_reveal_deadline t now_ms else Inr t
     | Reconstructing _ _ _ epoch_ms d \<Rightarrow>
         if epoch_ms = 0 \<and> d = 0 then arm_reconstruct_deadline t now_ms
         else if epoch_ms = 0 \<or> d = 0
           then fail ''Texas reconstruct epoch/deadline must both be zero or both be armed''
         else Inr t
     | Betting _ _ _ d \<Rightarrow> if d = 0 then arm_betting_deadline t now_ms else Inr t
     | ShowdownDisplay d \<Rightarrow> if d = 0 then arm_showdown_deadline t now_ms else Inr t)"

section \<open>Changing the phase\<close>

definition set_betting_turn :: "'p table \<Rightarrow> nat \<Rightarrow> (l1_error, 'p table) outcome" where
  "set_betting_turn t turn =
     rbind (require (\<not> (turn \<noteq> NO_SEAT \<and> turn \<ge> max_players t))
              ''Texas current turn is outside max_players'') (\<lambda>_.
     case t_hand_phase t of
       Betting street r _ _ \<Rightarrow> Inr (t\<lparr>t_hand_phase := Betting street r turn 0\<rparr>)
     | _ \<Rightarrow> fail ''cannot set current turn outside betting'')"

definition disarm_betting_deadline :: "'p table \<Rightarrow> (l1_error, 'p table) outcome" where
  "disarm_betting_deadline t =
     (case t_hand_phase t of
        Betting street r turn _ \<Rightarrow> Inr (t\<lparr>t_hand_phase := Betting street r turn 0\<rparr>)
      | _ \<Rightarrow> fail ''cannot disarm betting deadline outside betting'')"

definition scrub_assignments :: "'p reveal_state \<Rightarrow> nat \<Rightarrow> 'p reveal_state" where
  "scrub_assignments rv seat_index =
     rv\<lparr>rv_assignments := map (\<lambda>a. a\<lparr>ra_pending_mask := seat_mask_remove (ra_pending_mask a) seat_index\<rparr>)
                            (rv_assignments rv)\<rparr>"

definition scrub_shuffle :: "shuffle_state \<Rightarrow> nat \<Rightarrow> shuffle_state" where
  "scrub_shuffle st seat_index =
     \<lparr>sh_pending_mask = seat_mask_remove (sh_pending_mask st) seat_index,
      sh_completed_mask = seat_mask_remove (sh_completed_mask st) seat_index\<rparr>"

fun scrub_phase :: "'p hand_phase \<Rightarrow> nat \<Rightarrow> 'p hand_phase" where
  "scrub_phase (Reconstructing street st rv e d) i =
     Reconstructing street (st\<lparr>rs_pending_mask := seat_mask_remove (rs_pending_mask st) i\<rparr>)
       (scrub_assignments rv i) e d"
| "scrub_phase (Shuffling (InitialShuffling st d)) i = Shuffling (InitialShuffling (scrub_shuffle st i) d)"
| "scrub_phase (Shuffling (ReconstructShuffling street st rv d)) i =
     Shuffling (ReconstructShuffling street (scrub_shuffle st i) (scrub_assignments rv i) d)"
| "scrub_phase (Revealing street st d) i = Revealing street (scrub_assignments st i) d"
| "scrub_phase ph i = ph"

definition remove_seat_from_active_phase :: "'p table \<Rightarrow> nat \<Rightarrow> (l1_error, 'p table) outcome" where
  "remove_seat_from_active_phase t seat_index =
     rbind (require (\<not> seat_index \<ge> max_players t) ''cannot remove out-of-range seat from Texas phase'')
       (\<lambda>_. Inr (t\<lparr>t_hand_phase := scrub_phase (t_hand_phase t) seat_index\<rparr>))"

definition enter_waiting :: "'p table \<Rightarrow> 'p table" where
  "enter_waiting t = t\<lparr>t_hand_phase := PhaseWaiting\<rparr>"

definition enter_initial_shuffling ::
  "'p table \<Rightarrow> shuffle_state \<Rightarrow> nat \<Rightarrow> (l1_error, 'p table) outcome" where
  "enter_initial_shuffling t st started_at_ms =
     rbind (canonical_absolute_deadline started_at_ms (tc_shuffle_ms (timeouts t))) (\<lambda>d.
     Inr (t\<lparr>t_hand_phase := Shuffling (InitialShuffling st d)\<rparr>))"

definition live_street :: "nat \<Rightarrow> bool" where
  "live_street street \<longleftrightarrow> street \<in> {ROUND_PREFLOP, ROUND_FLOP, ROUND_TURN, ROUND_RIVER, ROUND_SHOWDOWN}"

definition enter_reconstruct_shuffling ::
  "'p table \<Rightarrow> nat \<Rightarrow> shuffle_state \<Rightarrow> 'p reveal_state \<Rightarrow> nat \<Rightarrow> (l1_error, 'p table) outcome" where
  "enter_reconstruct_shuffling t street st suspended_reveal started_at_ms =
     rbind (require (live_street street) ''Texas reconstruct shuffle is outside a live street'') (\<lambda>_.
     rbind (validate_for_street suspended_reveal street) (\<lambda>_.
     rbind (canonical_absolute_deadline started_at_ms (tc_shuffle_ms (timeouts t))) (\<lambda>d.
     Inr (t\<lparr>t_hand_phase := Shuffling (ReconstructShuffling street st suspended_reveal d)\<rparr>))))"

definition enter_revealing ::
  "'p table \<Rightarrow> nat \<Rightarrow> 'p reveal_state \<Rightarrow> nat \<Rightarrow> (l1_error, 'p table) outcome" where
  "enter_revealing t street st started_at_ms =
     rbind (validate_for_street st street) (\<lambda>_.
     rbind (canonical_absolute_deadline started_at_ms (tc_reveal_ms (timeouts t))) (\<lambda>d.
     Inr (t\<lparr>t_hand_phase := Revealing street st d\<rparr>)))"

definition enter_reconstructing ::
  "'p table \<Rightarrow> nat \<Rightarrow> 'p reconstruct_state \<Rightarrow> 'p reveal_state \<Rightarrow> nat \<Rightarrow> (l1_error, 'p table) outcome" where
  "enter_reconstructing t street st suspended_reveal epoch_ms =
     rbind (validate_for_street suspended_reveal street) (\<lambda>_.
     rbind (canonical_absolute_deadline epoch_ms (tc_reconstruct_ms (timeouts t))) (\<lambda>d.
     Inr (t\<lparr>t_hand_phase := Reconstructing street st suspended_reveal epoch_ms d\<rparr>)))"

definition enter_betting ::
  "'p table \<Rightarrow> nat \<Rightarrow> betting_round \<Rightarrow> nat \<Rightarrow> nat \<Rightarrow> (l1_error, 'p table) outcome" where
  "enter_betting t street r turn started_at_ms =
     rbind (require (\<not> (turn \<noteq> NO_SEAT \<and> turn \<ge> max_players t))
              ''Texas current turn is outside max_players'') (\<lambda>_.
     rbind (canonical_absolute_deadline started_at_ms (tc_betting_ms (timeouts t))) (\<lambda>d.
     Inr (t\<lparr>t_hand_phase := Betting street r turn d\<rparr>)))"

definition enter_showdown_display :: "'p table \<Rightarrow> nat \<Rightarrow> 'p table" where
  "enter_showdown_display t deadline_ms = t\<lparr>t_hand_phase := ShowdownDisplay deadline_ms\<rparr>"

section \<open>Deck contributors\<close>

definition aggregated_pk_for_contributor_mask ::
  "'p poker_lib \<Rightarrow> 'p table \<Rightarrow> mask16 \<Rightarrow> (l1_error, 'p option) outcome" where
  "aggregated_pk_for_contributor_mask L t contributor_mask =
     rbind (require (seat_mask_is_canonical contributor_mask (max_players t))
              ''Texas deck contributor mask contains out-of-range bits'') (\<lambda>_.
     rbind (foldM (\<lambda>aggregate seat_index.
         if \<not> seat_mask_contains contributor_mask seat_index then Inr aggregate
         else
           rbind (idx (t_seats t) seat_index) (\<lambda>seat.
           rbind (ok_or (Serialization ''Texas deck contributor seat has no live key'') (seat_pk seat)) (\<lambda>pk.
           rbind (require (\<not> (\<not> is_occupied seat \<or> g1_is_identity L pk))
                    ''Texas deck contributor seat is empty, out, or has identity pk'') (\<lambda>_.
           Inr (Some (case aggregate of None \<Rightarrow> pk | Some current \<Rightarrow> lib_add L current pk))))))
       None [0..<max_players t]) (\<lambda>aggregate.
     rbind (require (\<not> (case aggregate of None \<Rightarrow> False | Some point \<Rightarrow> g1_is_identity L point))
              ''Texas non-empty contributor set has identity aggregate pk'') (\<lambda>_.
     Inr aggregate)))"

definition derived_aggregated_pk :: "'p poker_lib \<Rightarrow> 'p table \<Rightarrow> (l1_error, 'p option) outcome" where
  "derived_aggregated_pk L t =
     aggregated_pk_for_contributor_mask L t (ds_contributor_mask (t_deck_state t))"

abbreviation put_contributors :: "'p table \<Rightarrow> mask16 \<Rightarrow> 'p table" where
  "put_contributors t m \<equiv> t\<lparr>t_deck_state := (t_deck_state t)\<lparr>ds_contributor_mask := m\<rparr>\<rparr>"

definition add_deck_contributor :: "'p poker_lib \<Rightarrow> 'p table \<Rightarrow> nat \<Rightarrow> (l1_error, 'p table) outcome" where
  "add_deck_contributor L t seat_index =
     rbind (require (\<not> seat_index \<ge> max_players t) ''Texas contributor seat is out of range'') (\<lambda>_.
     let m = ds_contributor_mask (t_deck_state t) OR seat_mask_bit seat_index in
     rbind (aggregated_pk_for_contributor_mask L t m) (\<lambda>_. Inr (put_contributors t m)))"

definition remove_deck_contributor :: "'p poker_lib \<Rightarrow> 'p table \<Rightarrow> nat \<Rightarrow> (l1_error, 'p table) outcome" where
  "remove_deck_contributor L t seat_index =
     (let m = seat_mask_remove (ds_contributor_mask (t_deck_state t)) seat_index in
      rbind (aggregated_pk_for_contributor_mask L t m) (\<lambda>_. Inr (put_contributors t m)))"

section \<open>A new table, counts and flags\<close>

definition table_new ::
  "object_id \<Rightarrow> string \<Rightarrow> address \<Rightarrow> nat \<Rightarrow> nat \<Rightarrow> nat \<Rightarrow> (l1_error, 'p table) outcome" where
  "table_new table_id name creator players sb bb =
     (if 2 \<le> players \<and> players \<le> 9 \<and> bb > 0 \<and> sb \<le> bb then
        Inr \<lparr>t_id = table_id, t_name = name, t_creator = creator,
             t_rules = table_rules_new players sb bb,
             t_seats = map (\<lambda>_. seat_empty) [0..<players],
             t_acted_mask = 0, t_leave_mask = 0, t_button = 0, t_pot = 0,
             t_community_cards = board_cards_empty, t_hand_phase = PhaseWaiting,
             t_deck_state = deck_default, t_chip_pool = 0, t_rit_state = RitSingle,
             t_hand_id = 0, t_call_seq = 0\<rparr>
      else Inl Panic)"

definition find_empty_seat :: "'p table \<Rightarrow> nat option" where
  "find_empty_seat t =
     find (\<lambda>i. case t_seats t ! i of Vacant _ \<Rightarrow> True | _ \<Rightarrow> False) [0..<length (t_seats t)]"

definition seat_acted_this_round :: "'p table \<Rightarrow> nat \<Rightarrow> bool" where
  "seat_acted_this_round t seat_index \<longleftrightarrow> seat_mask_contains (t_acted_mask t) seat_index"

definition set_seat_acted_this_round :: "'p table \<Rightarrow> nat \<Rightarrow> bool \<Rightarrow> 'p table" where
  "set_seat_acted_this_round t seat_index v =
     t\<lparr>t_acted_mask := (if v then t_acted_mask t OR seat_mask_bit seat_index
                        else seat_mask_remove (t_acted_mask t) seat_index)\<rparr>"

definition seat_wants_leave :: "'p table \<Rightarrow> nat \<Rightarrow> bool" where
  "seat_wants_leave t seat_index \<longleftrightarrow> seat_mask_contains (t_leave_mask t) seat_index"

definition set_seat_wants_leave :: "'p table \<Rightarrow> nat \<Rightarrow> bool \<Rightarrow> 'p table" where
  "set_seat_wants_leave t seat_index v =
     t\<lparr>t_leave_mask := (if v then t_leave_mask t OR seat_mask_bit seat_index
                        else seat_mask_remove (t_leave_mask t) seat_index)\<rparr>"

section \<open>Validation\<close>

definition validate_deadline :: "nat \<Rightarrow> nat \<Rightarrow> (l1_error, unit) outcome" where
  "validate_deadline deadline_ms timeout_ms =
     rbind (require (\<not> deadline_ms = 0) ''Texas active deadline is not armed'') (\<lambda>_.
     require (\<not> deadline_ms < timeout_ms) ''Texas deadline is smaller than timeout'')"

definition validate_reveal :: "'p table \<Rightarrow> nat \<Rightarrow> 'p reveal_state \<Rightarrow> (l1_error, unit) outcome" where
  "validate_reveal t street st =
     rbind (validate_for_street st street) (\<lambda>_.
     foldM (\<lambda>_ a. case ra_target a of
         HoleTarget seat_index _ \<Rightarrow>
           require (\<not> seat_index \<ge> max_players t)
             ''Texas reveal assignment targets out-of-range seat''
       | BoardTarget _ _ \<Rightarrow> Inr ()) () (rv_assignments st))"

fun validate_phase :: "'p table \<Rightarrow> 'p hand_phase \<Rightarrow> (l1_error, unit) outcome" where
  "validate_phase t PhaseWaiting = Inr ()"
| "validate_phase t (Shuffling (InitialShuffling _ d)) = validate_deadline d (tc_shuffle_ms (timeouts t))"
| "validate_phase t (Shuffling (ReconstructShuffling street _ rv d)) =
     rbind (require (live_street street) ''Texas reconstruct shuffle is outside a live street'') (\<lambda>_.
     rbind (validate_reveal t street rv) (\<lambda>_.
     validate_deadline d (tc_shuffle_ms (timeouts t))))"
| "validate_phase t (Revealing street st d) =
     rbind (require (live_street street) ''Texas reveal phase is outside a live street'') (\<lambda>_.
     rbind (validate_reveal t street st) (\<lambda>_.
     validate_deadline d (tc_reveal_ms (timeouts t))))"
| "validate_phase t (Reconstructing street _ rv epoch_ms d) =
     rbind (require (live_street street) ''Texas reconstruct phase is not active on a live street'') (\<lambda>_.
     rbind (validate_reveal t street rv) (\<lambda>_.
     rbind (require (\<not> (epoch_ms = 0 \<or> d = 0)) ''Texas active reconstruct epoch/deadline is not armed'') (\<lambda>_.
     rbind (canonical_absolute_deadline epoch_ms (tc_reconstruct_ms (timeouts t))) (\<lambda>expected.
     require (\<not> d \<noteq> expected) ''Texas reconstruct deadline mismatch''))))"
| "validate_phase t (Betting street _ turn d) =
     rbind (require (street \<in> {ROUND_PREFLOP, ROUND_FLOP, ROUND_TURN, ROUND_RIVER})
              ''Texas betting phase is outside a live street'') (\<lambda>_.
     rbind (require (\<not> (turn \<noteq> NO_SEAT \<and> turn \<ge> max_players t))
              ''Texas current_turn is outside max_players'') (\<lambda>_.
     validate_deadline d (tc_betting_ms (timeouts t))))"
| "validate_phase t (ShowdownDisplay d) = require (\<not> d = 0) ''Texas active showdown deadline is not armed''"

definition validate_hand_phase :: "'p table \<Rightarrow> (l1_error, unit) outcome" where
  "validate_hand_phase t = validate_phase t (t_hand_phase t)"

definition canonical_hand_phase :: "'p table \<Rightarrow> (l1_error, 'p hand_phase) outcome" where
  "canonical_hand_phase t = rbind (validate_hand_phase t) (\<lambda>_. Inr (t_hand_phase t))"

definition exposed_cards :: "'p table \<Rightarrow> nat list" where
  "exposed_cards t =
     as_slice (t_community_cards t) @ second_board_suffix (t_rit_state t) @
     concat (map (\<lambda>s. case seat_hand s of None \<Rightarrow> [] | Some h \<Rightarrow> as_slice h) (t_seats t))"

definition validate_seats :: "'p poker_lib \<Rightarrow> 'p table \<Rightarrow> (l1_error, unit) outcome" where
  "validate_seats L t =
     foldM (\<lambda>_ (i, seat).
         rbind (seat_validate_canonical (g1_is_identity L) seat) (\<lambda>_.
         rbind (require (\<not> (is_occupied seat \<and>
                   list_ex (\<lambda>prior. is_occupied prior \<and> seat_player prior = seat_player seat)
                     (take i (t_seats t))))
                  ''Texas player occupies more than one seat'') (\<lambda>_.
         require (\<not> ((case seat of Vacant _ \<Rightarrow> True | _ \<Rightarrow> False) \<and>
                     (seat_mask_contains (t_acted_mask t) i \<or> seat_mask_contains (t_leave_mask t) i)))
           ''Texas empty seat contains live table flags'')))
       () (enumerate 0 (t_seats t))"

definition validate_ledger :: "'p table \<Rightarrow> (l1_error, unit) outcome" where
  "validate_ledger t =
     rbind (foldM (\<lambda>seen (seat_index, card_slot, rec).
         rbind (require (\<not> ph_card_index rec \<ge> 52)
                  ''Texas partial hole card has out-of-range deck index'') (\<lambda>_.
         rbind (require (\<not> seat_index \<ge> max_players t)
                  ''Texas partial hole-card ledger has out-of-range owner seat'') (\<lambda>_.
         rbind (require (\<not> ph_card_index rec \<in> set seen)
                  ''Texas partial hole-card ledger contains duplicate deck index'') (\<lambda>_.
         rbind (idx (t_seats t) seat_index) (\<lambda>seat.
         rbind (require (\<not> (case seat_hand seat of None \<Rightarrow> False | Some h \<Rightarrow> card_slot < cs_len h))
                  ''Texas partial hole-card ledger overlaps materialized hand'') (\<lambda>_.
         Inr (ph_card_index rec # seen)))))))
       [] (ledger_iter (ds_hole_ledger (t_deck_state t)))) (\<lambda>_. Inr ())"

definition validate_protocol_masks :: "'p table \<Rightarrow> (l1_error, unit) outcome" where
  "validate_protocol_masks t =
     (let validate_mask = (\<lambda>m. require (seat_mask_is_canonical m (max_players t))
            ''Texas mask contains out-of-range seat bits''); shuffle = shuffle_state_of t in
      rbind (validate_mask (sh_pending_mask shuffle)) (\<lambda>_.
      rbind (validate_mask (sh_completed_mask shuffle)) (\<lambda>_.
      rbind (require (\<not> sh_pending_mask shuffle AND sh_completed_mask shuffle \<noteq> 0)
               ''Texas shuffle pending/completed masks overlap'') (\<lambda>_.
      rbind (foldM (\<lambda>_ a.
          rbind (validate_mask (ra_pending_mask a)) (\<lambda>_.
          rbind (validate_mask (ra_submitted_mask a)) (\<lambda>_.
          rbind (require (\<not> ra_pending_mask a AND ra_submitted_mask a \<noteq> 0)
                   ''Texas reveal pending/submitted masks overlap'') (\<lambda>_.
          require (\<not> count_ones (ra_submitted_mask a) \<noteq> length (ra_tokens a))
            ''Texas reveal submitted mask/token vector length mismatch''))))
        () (reveal_assignments t)) (\<lambda>_.
      rbind (validate_mask (rs_pending_mask (reconstruct_state_of t))) (\<lambda>_.
      case rs_accumulated_deck (reconstruct_state_of t) of
        None \<Rightarrow> Inr ()
      | Some deck \<Rightarrow> require (\<not> length deck \<noteq> 52)
                       ''Texas reconstruct accumulator has wrong size''))))))"

definition validate_state_schema :: "'p poker_lib \<Rightarrow> 'p table \<Rightarrow> (l1_error, unit) outcome" where
  "validate_state_schema L t =
     rbind (rules_validate_canonical (t_rules t)) (\<lambda>_.
     rbind (require (\<not> length (t_seats t) \<noteq> max_players t) ''Texas seat layout mismatch'') (\<lambda>_.
     rbind (require (\<not> (\<not> seat_mask_is_canonical (t_acted_mask t) (max_players t) \<or>
                        \<not> seat_mask_is_canonical (t_leave_mask t) (max_players t)))
              ''Texas table contains out-of-range seat flag bits'') (\<lambda>_.
     rbind (validate_hand_phase t) (\<lambda>_.
     rbind (validate_seats L t) (\<lambda>_.
     rbind (derived_aggregated_pk L t) (\<lambda>_.
     rbind (require (cards_canonical (t_community_cards t)) ''Texas first board is non-canonical'') (\<lambda>_.
     rbind (rit_validate_canonical (t_rit_state t) (t_community_cards t)) (\<lambda>_.
     rbind (foldM (\<lambda>seen c.
         rbind (require (\<not> (c \<ge> 52 \<or> c \<in> set seen))
                  ''Texas table contains an invalid or duplicate materialized card'') (\<lambda>_.
         Inr (c # seen))) [] (exposed_cards t)) (\<lambda>_.
     rbind (validate_ledger t) (\<lambda>_.
     validate_protocol_masks t))))))))))"

section \<open>Events\<close>

datatype kick_cause = KickTimeout | KickAdmin | KickReconstructTimeout

definition REFUND_TYPE_STACK_ONLY :: nat where "REFUND_TYPE_STACK_ONLY = 0"
definition REFUND_TYPE_BET_ONLY :: nat where "REFUND_TYPE_BET_ONLY = 2"
definition RESET_REASON_TIMEOUT :: nat where "RESET_REASON_TIMEOUT = 0"
definition RESET_REASON_RECONSTRUCT_FAIL :: nat where "RESET_REASON_RECONSTRUCT_FAIL = 2"
definition FOLD_REASON_MANUAL :: nat where "FOLD_REASON_MANUAL = 0"
definition FOLD_REASON_AUTO_TIMEOUT :: nat where "FOLD_REASON_AUTO_TIMEOUT = 1"
definition FOLD_REASON_FORCE_ADMIN :: nat where "FOLD_REASON_FORCE_ADMIN = 2"
definition DECK_REBUILT_REASON_SHUFFLE_TIMEOUT :: nat where "DECK_REBUILT_REASON_SHUFFLE_TIMEOUT = 0"
definition DECK_REBUILT_REASON_RECONSTRUCT_COMPLETE :: nat where
  "DECK_REBUILT_REASON_RECONSTRUCT_COMPLETE = 1"
definition TRIGGER_ACTION_CALL_ALL_IN :: nat where "TRIGGER_ACTION_CALL_ALL_IN = 0"
definition TRIGGER_ACTION_RAISE_ALL_IN :: nat where "TRIGGER_ACTION_RAISE_ALL_IN = 1"
definition POT_TYPE_MAIN :: nat where "POT_TYPE_MAIN = 0"
definition POT_TYPE_SIDE :: nat where "POT_TYPE_SIDE = 1"

text \<open>
  The events that the state machine emits, with their fields in the order of the code (the first
  is always the table), in four groups that follow the sections of the enumeration.
\<close>

datatype seat_event =
    PlayerJoined object_id nat address nat bool nat
  | PlayerLeft object_id nat address
  | LeaveRequested object_id nat address bool
  | PlayerKicked object_id nat address kick_cause
  | PlayerRefund object_id nat address nat nat
  | AddonRequested object_id nat address nat nat
  | AddonCredited object_id nat address nat nat
  | RebuyProcessed object_id nat address nat nat

datatype hand_event =
    HandStarted object_id nat nat nat "nat list"
  | BlindsPosted object_id nat nat nat nat nat
  | BettingRoundStarted object_id nat nat nat nat nat
  | RoundAdvanced object_id nat nat nat nat
  | PotCollected object_id nat nat "nat list"
  | WinnerAwarded object_id nat address nat nat "nat option"
  | HandSettled object_id nat "nat list"
  | HandEndedWithoutShowdown object_id nat address nat
  | HandReset object_id nat nat
  | AntePosted object_id nat nat nat
  | RakeCollected object_id nat nat nat nat
  | RunItTwiceTriggered object_id nat nat
  | SettlementPlanCommitted object_id "byte list" nat nat nat nat

datatype action_event =
    PlayerFolded object_id nat nat nat
  | PlayerChecked object_id nat nat
  | PlayerCalled object_id nat nat nat
  | PlayerRaised object_id nat nat nat nat
  | PlayerAllIn object_id nat nat nat nat
  | PlayerBet object_id nat nat nat
  | TimeBankConsumed object_id nat nat nat
  | CurrentTurnChanged object_id "nat option" "nat option" nat

datatype protocol_event =
    ShuffleVerified object_id nat address
  | ShuffleTurn object_id nat nat nat
  | ShuffleComplete object_id nat nat nat
  | ShuffleTimeout object_id nat nat nat nat
  | RevealPhase object_id nat
  | RevealTokenSubmitted object_id nat nat nat
  | RevealPhaseComplete object_id nat
  | RevealTimeout object_id nat "nat list"
  | CommunityCardRevealed object_id nat "nat list" "nat list" "nat list"
  | ShowdownHoleCardsRevealed object_id nat address "nat list" "nat list" "nat list"
  | ReconstructInitiated object_id "nat list" nat
  | ReconstructDeckSubmitted object_id nat
  | ReconstructComplete object_id
  | ReconstructTimeout object_id "nat list"
  | DeckRebuilt object_id nat nat

datatype table_event =
    SeatEv seat_event | HandEv hand_event | ActionEv action_event | ProtoEv protocol_event

text \<open>A command threads the table and the events it appends to.\<close>

type_synonym 'p table_result = "(l1_error, 'p table \<times> table_event list) outcome"

section \<open>The books of the table\<close>

text \<open>
  \<open>reconcile_table_vault\<close>: stacks, addons, bets and pot must add up to the locked chips, and pot
  plus bets to the contributions of the hand.
\<close>

definition other_err :: "nat option \<Rightarrow> string \<Rightarrow> (l1_error, nat) outcome" where
  "other_err x msg = ok_or (Other msg) x"

definition reconcile_table_vault :: "'p poker_lib \<Rightarrow> 'p table \<Rightarrow> (l1_error, nat) outcome" where
  "reconcile_table_vault L t =
     rbind (validate_state_schema L t) (\<lambda>_.
     rbind (canonical_hand_phase t) (\<lambda>_.
     rbind (foldM (\<lambda>(stacks, pending_addons, current_bets, total_bets) s.
         rbind (other_err (checked_add_u64 stacks (seat_stack s)) ''Texas seat stack sum overflow'') (\<lambda>stacks.
         rbind (other_err (checked_add_u64 pending_addons (seat_pending_addon s)) ''Texas pending addon sum overflow'') (\<lambda>pending_addons.
         rbind (other_err (checked_add_u64 current_bets (seat_bet s)) ''Texas current bet sum overflow'') (\<lambda>current_bets.
         rbind (other_err (checked_add_u64 total_bets (seat_total_bet s)) ''Texas total bet sum overflow'') (\<lambda>total_bets.
         Inr (stacks, pending_addons, current_bets, total_bets))))))
       (0, 0, 0, 0) (t_seats t)) (\<lambda>(stacks, pending_addons, current_bets, total_bets).
     rbind (other_err (checked_add_u64 (t_pot t) current_bets) ''Texas wager custody sum overflow'') (\<lambda>wagers.
     if wagers \<noteq> total_bets then Inl (Fail (Other ''Texas wager ledger mismatch''))
     else
       rbind (other_err (case checked_add_u64 stacks pending_addons of None \<Rightarrow> None
                         | Some v \<Rightarrow> checked_add_u64 v wagers)
                ''Texas TableVault accounting overflow'') (\<lambda>accounted.
       if accounted \<noteq> t_chip_pool t then Inl (Fail (Other ''Texas TableVault invariant violated''))
       else Inr accounted)))))"

end
