(* ===== verification/TableRound.thy ===== *)
theory TableRound
  imports TableState
begin

text \<open>
  The rounds of a hand, from \<^verbatim>\<open>texas_poker/state_machine.rs\<close>: counting and finding seats, button,
  blinds and antes, turns, collecting bets, moving to the next street, the end of a hand, and the
  actions of the players.  Every step takes the table and the events so far and returns both; after
  an error the callers of this module drop the table they passed, which the model has as \<open>Inl\<close>.
\<close>

section \<open>Predicates and counts\<close>

definition can_join_state :: "'p table \<Rightarrow> bool" where
  "can_join_state t \<longleftrightarrow> round_state t = ROUND_WAITING"

definition can_leave_state :: "'p table \<Rightarrow> bool" where
  "can_leave_state t \<longleftrightarrow> can_join_state t"

definition is_betting_round :: "'p table \<Rightarrow> bool" where
  "is_betting_round t \<longleftrightarrow>
     betting_round_of t \<noteq> None \<and>
     round_state t \<in> {ROUND_PREFLOP, ROUND_FLOP, ROUND_TURN, ROUND_RIVER}"

definition is_player_turn :: "'p table \<Rightarrow> nat \<Rightarrow> bool" where
  "is_player_turn t seat_index \<longleftrightarrow> current_turn t = seat_index"

definition is_pk_registered :: "'p seat list \<Rightarrow> 'p \<Rightarrow> bool" where
  "is_pk_registered seats pk \<longleftrightarrow> list_ex (\<lambda>s. seat_pk s = Some pk) seats"

definition count_active_players :: "'p seat list \<Rightarrow> nat" where
  "count_active_players seats = length (filter in_contention seats)"

definition count_active_occupied :: "'p seat list \<Rightarrow> nat" where
  "count_active_occupied seats = length (filter participating seats)"

definition get_active_seat_indices :: "'p seat list \<Rightarrow> nat list" where
  "get_active_seat_indices seats = map fst (filter (\<lambda>(_, s). participating s) (enumerate 0 seats))"

definition get_active_seat_mask :: "'p seat list \<Rightarrow> mask16" where
  "get_active_seat_mask seats =
     foldl (\<lambda>m (i, s). if participating s then m OR seat_mask_bit i else m) 0 (enumerate 0 seats)"

definition get_pending_seat_mask :: "mask16 \<Rightarrow> 'p seat list \<Rightarrow> mask16" where
  "get_pending_seat_mask completed seats =
     foldl (\<lambda>m (i, s). if participating s \<and> \<not> seat_mask_contains completed i then m OR seat_mask_bit i
                      else m) 0 (enumerate 0 seats)"

text \<open>
  The search around the table: \<open>(from + offset) % m\<close> in \<open>u8\<close> for \<open>offset\<close> in \<open>1..=n\<close>.
\<close>

fun ring_search ::
  "('p seat \<Rightarrow> bool) \<Rightarrow> 'p seat list \<Rightarrow> nat \<Rightarrow> nat \<Rightarrow> nat list \<Rightarrow> (l1_error, nat option) outcome" where
  "ring_search ok seats from m [] = Inr None"
| "ring_search ok seats from m (k # ks) =
     (if 256 \<le> from + k \<or> m = 0 then Inl Panic
      else
        let i = (from + k) mod m in
        rbind (idx seats i) (\<lambda>s. if ok s then Inr (Some i) else ring_search ok seats from m ks))"

definition find_next_active_seat :: "'p seat list \<Rightarrow> nat \<Rightarrow> nat \<Rightarrow> (l1_error, nat option) outcome" where
  "find_next_active_seat seats from mx =
     ring_search can_act seats from (min mx (length seats)) [1..<length seats + 1]"

definition find_next_participating_seat :: "'p seat list \<Rightarrow> nat \<Rightarrow> nat \<Rightarrow> (l1_error, nat option) outcome" where
  "find_next_participating_seat seats from mx =
     ring_search participating seats from (min mx (length seats)) [1..<length seats + 1]"

definition count_actionable_players :: "'p seat list \<Rightarrow> nat" where
  "count_actionable_players seats = length (filter (\<lambda>s. can_act s \<and> \<not> has_left_hand s) seats)"

definition no_further_betting_possible :: "'p table \<Rightarrow> bool" where
  "no_further_betting_possible t \<longleftrightarrow>
     count_active_players (t_seats t) \<ge> 2 \<and> count_actionable_players (t_seats t) \<le> 1"

section \<open>Button, blinds and antes\<close>

definition set_initial_encrypted_deck :: "'p poker_lib \<Rightarrow> 'p table \<Rightarrow> (l1_error, 'p table) outcome" where
  "set_initial_encrypted_deck L t =
     rbind (cipher_deck (map (\<lambda>m. \<lparr>ct_c1 = lib_generator L, ct_c2 = m\<rparr>) (generate_plaintext_cards L)))
       (\<lambda>deck. Inr (t\<lparr>t_deck_state := (t_deck_state t)\<lparr>ds_encrypted := deck, ds_cards_dealt := 0,
                                                  ds_hole_ledger := ledger_default\<rparr>\<rparr>))"

definition move_button :: "'p table \<Rightarrow> (l1_error, 'p table) outcome" where
  "move_button t =
     rbind (ring_search is_occupied (t_seats t) (t_button t) (max_players t) [1..<max_players t + 1])
       (\<lambda>found. case found of None \<Rightarrow> Inr t | Some i \<Rightarrow> Inr (t\<lparr>t_button := i\<rparr>))"

text \<open>The two blocks of \<open>post_blinds\<close>, one for each blind.\<close>

definition post_blind :: "'p table \<Rightarrow> nat \<Rightarrow> nat \<Rightarrow> (l1_error, 'p table) outcome" where
  "post_blind t i amt =
     rbind (idx (t_seats t) i) (\<lambda>s.
     rbind (with_playing s (\<lambda>p.
         rbind (checked (checked_sub_u64 (os_stack (ps_occupied p)) amt) ''post_blinds: stack underflow'') (\<lambda>st.
         rbind (checked (checked_add_u64 (ps_total_bet p) amt) ''post_blinds: total_bet overflow'') (\<lambda>tb.
         Inr (p\<lparr>ps_occupied := (ps_occupied p)\<lparr>os_stack := st\<rparr>, ps_bet := amt, ps_total_bet := tb\<rparr>)))))
       (\<lambda>s'.
     rbind (if seat_stack s' = 0 then set_status s' StAllIn else Inr s') (\<lambda>s2.
     Inr (put_seat t i s2))))"

definition blind_seats :: "'p table \<Rightarrow> (l1_error, nat \<times> nat) outcome" where
  "blind_seats t =
     (let n = max_players t; active = count_active_occupied (t_seats t) in
      rbind (if active = 2 then Inr (t_button t)
             else rbind (find_next_participating_seat (t_seats t) (t_button t) n)
                    (\<lambda>x. Inr (case x of None \<Rightarrow> t_button t | Some i \<Rightarrow> i))) (\<lambda>sb.
      rbind (find_next_participating_seat (t_seats t) sb n) (\<lambda>x.
      Inr (sb, case x of None \<Rightarrow> sb | Some i \<Rightarrow> i))))"

definition post_blinds ::
  "'p table \<Rightarrow> table_event list \<Rightarrow> (l1_error, nat \<times> 'p table \<times> table_event list) outcome" where
  "post_blinds t es =
     rbind (blind_seats t) (\<lambda>(sb_seat, bb_seat).
     rbind (idx (t_seats t) sb_seat) (\<lambda>sb.
     rbind (idx (t_seats t) bb_seat) (\<lambda>bb.
     let sb_amt = min (small_blind t) (seat_stack sb); bb_amt = min (big_blind t) (seat_stack bb) in
     rbind (post_blind t sb_seat sb_amt) (\<lambda>t1.
     rbind (post_blind t1 bb_seat bb_amt) (\<lambda>t2.
     Inr (bb_seat, t2,
          es @ [HandEv (BlindsPosted (t_id t2) sb_seat bb_seat sb_amt bb_amt bb_seat)]))))))"

definition ante_seats :: "'p table \<Rightarrow> nat \<Rightarrow> nat list" where
  "ante_seats t bb_seat =
     (if tr_ante_mode (t_rules t) = ANTE_MODE_BBA then [bb_seat]
      else get_active_seat_indices (t_seats t))"

definition pay_ante ::
  "'p table \<times> table_event list \<Rightarrow> nat \<times> nat \<Rightarrow> 'p table_result" where
  "pay_ante s a =
     (case (s, a) of ((t, es), (i, actual)) \<Rightarrow>
      rbind (idx (t_seats t) i) (\<lambda>s.
      rbind (with_playing s (\<lambda>p.
          rbind (sub_u64 (os_stack (ps_occupied p)) actual) (\<lambda>st.
          rbind (add_u64 (ps_total_bet p) actual) (\<lambda>tb.
          Inr (p\<lparr>ps_occupied := (ps_occupied p)\<lparr>os_stack := st\<rparr>, ps_total_bet := tb,
                 ps_status := (if st = 0 then PsAllIn else ps_status p)\<rparr>))))) (\<lambda>s'.
      Inr (put_seat t i s',
           es @ [HandEv (AntePosted (t_id t) i actual (tr_ante_mode (t_rules t)))]))))"

definition collect_ante :: "'p table \<Rightarrow> nat \<Rightarrow> table_event list \<Rightarrow> 'p table_result" where
  "collect_ante t bb_seat es =
     (if tr_ante_mode (t_rules t) = ANTE_MODE_NONE \<or> tr_ante_amount (t_rules t) = 0 then Inr (t, es)
      else
        let amount = tr_ante_amount (t_rules t) in
        rbind (foldM (\<lambda>antes i. rbind (idx (t_seats t) i) (\<lambda>s. Inr (antes @ [(i, min amount (seat_stack s))])))
                 [] (ante_seats t bb_seat)) (\<lambda>antes.
        rbind (foldM (\<lambda>tot (_, actual). checked (checked_add_u64 tot actual) ''collect_ante: total overflow'')
                 0 antes) (\<lambda>total_ante.
        rbind (checked (checked_add_u64 (t_pot t) total_ante) ''collect_ante: pot overflow'') (\<lambda>_.
        rbind (foldM (\<lambda>_ (i, actual). rbind (idx (t_seats t) i) (\<lambda>s.
                 rbind (checked (checked_add_u64 (seat_total_bet s) actual) ''collect_ante: total_bet overflow'')
                   (\<lambda>_. Inr ()))) () antes) (\<lambda>_.
        rbind (add_u64 (t_pot t) total_ante) (\<lambda>pot.
        foldM pay_ante (t\<lparr>t_pot := pot\<rparr>, es) antes))))))"

section \<open>Rake, award and reset\<close>

definition compute_rake_amount :: "'p table \<Rightarrow> nat \<Rightarrow> (l1_error, nat) outcome" where
  "compute_rake_amount t pot =
     (if tr_rake_mode (t_rules t) = RAKE_MODE_NONE then Inr 0
      else if pot * tr_rake_bps (t_rules t) < u128_limit then
        Inr (min (min (pot * tr_rake_bps (t_rules t) div 10000) (tr_rake_cap (t_rules t))) pot)
      else fail ''rake multiplication overflow'')"

definition collect_rake :: "'p table \<Rightarrow> (l1_error, nat \<times> 'p table) outcome" where
  "collect_rake t =
     (if tr_rake_mode (t_rules t) = RAKE_MODE_NONE then Inr (0, t)
      else
        rbind (compute_rake_amount t (t_pot t)) (\<lambda>rake.
        rbind (checked (checked_sub_u64 (t_pot t) rake) ''collect_rake: pot -= rake underflow'') (\<lambda>post_pot.
        rbind (checked (checked_sub_u64 (t_chip_pool t) rake) ''collect_rake: rake exceeds TableVault'') (\<lambda>post_pool.
        Inr (rake, t\<lparr>t_pot := post_pot, t_chip_pool := post_pool\<rparr>)))))"

definition collect_bets_to_pot :: "'p table \<Rightarrow> table_event list \<Rightarrow> 'p table_result" where
  "collect_bets_to_pot t es =
     rbind (foldM (\<lambda>tot s. checked (checked_add_u64 tot (seat_bet s)) ''collect_bets_to_pot: bet sum overflow'')
              0 (t_seats t)) (\<lambda>total_to_collect.
     rbind (checked (checked_add_u64 (t_pot t) total_to_collect) ''collect_bets_to_pot: pot += bets overflow'') (\<lambda>post_pot.
     rbind (foldM (\<lambda>(seats, collected) (i, s).
         if seat_bet s > 0 then rbind (set_bet s 0) (\<lambda>s'. Inr (seats @ [s'], collected @ [i]))
         else Inr (seats @ [s], collected)) ([], []) (enumerate 0 (t_seats t))) (\<lambda>(seats, collected).
     let t' = t\<lparr>t_seats := seats, t_pot := post_pot\<rparr> in
     Inr (t', if collected \<noteq> [] then es @ [HandEv (PotCollected (t_id t') (round_state t') (t_pot t') collected)]
              else es))))"

text \<open>The first pass of \<open>reset_for_next_hand\<close>: nothing is changed before every sum is checked.\<close>

definition reset_preflight ::
  "'p table \<Rightarrow> (l1_error, nat list \<times> nat) outcome" where
  "reset_preflight t =
     rbind (foldM (\<lambda>(total_pending, to_remove, total_refund) (i, s).
         rbind (if seat_pending_addon s > 0 \<and> is_occupied s then
                  rbind (checked (checked_add_u64 (seat_stack s) (seat_pending_addon s))
                           ''reset_for_next_hand: stack += pending_addon overflow'') (\<lambda>_.
                  checked (checked_add_u64 total_pending (seat_pending_addon s))
                    ''reset_for_next_hand: total pending addon overflow'')
                else Inr total_pending) (\<lambda>total_pending.
         if is_occupied s \<and> seat_wants_leave t i then
           rbind (checked (checked_add_u64 (seat_stack s) (seat_pending_addon s))
                    ''reset_for_next_hand: leave refund overflow'') (\<lambda>refund.
           rbind (checked (checked_add_u64 total_refund refund)
                    ''reset_for_next_hand: total leave refund overflow'') (\<lambda>total_refund.
           Inr (total_pending, to_remove @ [i], total_refund)))
         else Inr (total_pending, to_remove, total_refund)))
       (0, [], 0) (enumerate 0 (t_seats t))) (\<lambda>(_, to_remove, total_refund).
     rbind (checked (checked_sub_u64 (t_chip_pool t) total_refund)
              ''reset_for_next_hand: leave chip_pool underflow'') (\<lambda>post_pool.
     Inr (to_remove, post_pool)))"

definition credit_addon ::
  "object_id \<Rightarrow> 'p seat list \<times> table_event list \<Rightarrow> nat \<times> 'p seat \<Rightarrow>
   (l1_error, 'p seat list \<times> table_event list) outcome" where
  "credit_addon tid acc e =
     (case (acc, e) of ((seats, es), (i, s)) \<Rightarrow>
      if seat_pending_addon s > 0 \<and> is_occupied s then
        rbind (checked (checked_add_u64 (seat_stack s) (seat_pending_addon s))
                 ''reset_for_next_hand: stack += pending_addon overflow'') (\<lambda>post_stack.
        rbind (set_stack s post_stack) (\<lambda>s1.
        rbind (set_pending_addon s1 0) (\<lambda>s2.
        Inr (seats @ [s2],
             es @ [SeatEv (AddonCredited tid i (seat_player s) (seat_pending_addon s) (seat_stack s2))]))))
      else Inr (seats @ [s], es))"

definition refill_time_bank :: "'p seat \<Rightarrow> 'p seat" where
  "refill_time_bank s =
     (if is_occupied s then
        set_time_bank_ms s (min (min (seat_time_bank_ms s + TIME_BANK_REFILL_PER_HAND_MS) (2 ^ 32 - 1))
                              DEFAULT_TIME_BANK_MS)
      else s)"

definition live_key_mask :: "'p poker_lib \<Rightarrow> 'p seat list \<Rightarrow> mask16" where
  "live_key_mask L seats =
     foldl (\<lambda>m (i, s). if (case seat_pk s of None \<Rightarrow> False | Some pk \<Rightarrow> \<not> g1_is_identity L pk)
                      then m OR seat_mask_bit i else m) 0 (enumerate 0 seats)"

text \<open>A seat leaves the table: as booked for the end of the hand, with its refund, or without chips.\<close>

definition remove_leaver :: "'p table \<times> table_event list \<Rightarrow> nat \<Rightarrow> 'p table_result" where
  "remove_leaver acc i =
     (case acc of (t, es) \<Rightarrow>
      rbind (idx (t_seats t) i) (\<lambda>s.
      rbind (add_u64 (seat_stack s) (seat_pending_addon s)) (\<lambda>refund.
      rbind (if refund > 0 then
               rbind (set_stack s 0) (\<lambda>s1.
               rbind (set_pending_addon s1 0) (\<lambda>s2.
               Inr (es @ [SeatEv (PlayerRefund (t_id t) i (seat_player s) refund REFUND_TYPE_STACK_ONLY)])))
             else Inr es) (\<lambda>es1.
      let t1 = put_contributors (put_seat t i (vacate s))
                 (seat_mask_remove (ds_contributor_mask (t_deck_state t)) i) in
      Inr (set_seat_wants_leave t1 i False, es1 @ [SeatEv (PlayerLeft (t_id t) i (seat_player s))])))))"

definition remove_broke :: "'p table \<times> table_event list \<Rightarrow> nat \<Rightarrow> 'p table_result" where
  "remove_broke acc i =
     (case acc of (t, es) \<Rightarrow>
      rbind (idx (t_seats t) i) (\<lambda>s.
      let t1 = put_contributors (put_seat t i (vacate s))
                 (seat_mask_remove (ds_contributor_mask (t_deck_state t)) i) in
      Inr (set_seat_wants_leave t1 i False, es @ [SeatEv (PlayerLeft (t_id t) i (seat_player s))])))"

definition reset_for_next_hand :: "'p poker_lib \<Rightarrow> 'p table \<Rightarrow> table_event list \<Rightarrow> 'p table_result" where
  "reset_for_next_hand L t es =
     rbind (reset_preflight t) (\<lambda>(to_remove_leave, post_leave_pool).
     rbind (foldM (credit_addon (t_id t)) ([], es) (enumerate 0 (t_seats t))) (\<lambda>(seats1, es1).
     let seats2 = map refill_time_bank seats1;
         t1 = put_contributors (t\<lparr>t_seats := map prepare_next_hand seats2, t_acted_mask := 0\<rparr>)
                (live_key_mask L seats2) in
     rbind (foldM remove_leaver (t1, es1) to_remove_leave) (\<lambda>(t2, es2).
     let t3 = t2\<lparr>t_chip_pool := post_leave_pool\<rparr>;
         to_remove = map fst (filter (\<lambda>(_, s). has_left_hand s \<or> is_occupied s \<and> seat_stack s = 0)
                       (enumerate 0 (t_seats t3))) in
     rbind (foldM remove_broke (t3, es2) to_remove) (\<lambda>(t4, es4).
     let t5 = (if count_active_occupied (t_seats t4) = 0 then put_contributors t4 0 else t4);
         t6 = enter_waiting (t5\<lparr>t_pot := 0,
                t_community_cards := board_cards_empty,
                t_acted_mask := 0, t_leave_mask := 0,
                t_deck_state := (t_deck_state t5)\<lparr>ds_encrypted := [], ds_cards_dealt := 0,
                                                 ds_hole_ledger := ledger_default\<rparr>,
                t_rit_state := RitSingle\<rparr>) in
     rbind (set_initial_encrypted_deck L t6) (\<lambda>t7. Inr (t7, es4))))))"

definition end_without_showdown :: "'p poker_lib \<Rightarrow> 'p table \<Rightarrow> table_event list \<Rightarrow> 'p table_result" where
  "end_without_showdown L t es =
     rbind (collect_bets_to_pot t es) (\<lambda>(t1, es1).
     rbind (case find (\<lambda>(_, s). in_contention s) (enumerate 0 (t_seats t1)) of
              None \<Rightarrow> Inr (t1, es1)
            | Some (winner_seat, _) \<Rightarrow>
                rbind (collect_rake t1) (\<lambda>(rake, t2).
                let es2 = (if rake > 0 then es1 @ [HandEv (RakeCollected (t_id t2) (t_pot t1) rake (t_pot t2)
                                                         (tr_rake_mode (t_rules t2)))] else es1);
                    pot = t_pot t2 in
                rbind (idx (t_seats t2) winner_seat) (\<lambda>w.
                rbind (checked (checked_add_u64 (seat_stack w) pot)
                         ''end_without_showdown: winner stack += pot overflow'') (\<lambda>post_stack.
                rbind (set_stack w post_stack) (\<lambda>w'.
                Inr ((put_seat t2 winner_seat w')\<lparr>t_pot := 0\<rparr>,
                     es2 @ [HandEv (HandEndedWithoutShowdown (t_id t2) winner_seat (seat_player w') pot)]))))))
       (\<lambda>(t3, es3). reset_for_next_hand L t3 es3))"

section \<open>Reveal phases\<close>

definition exposed_card_ids :: "'p table \<Rightarrow> (l1_error, nat list) outcome" where
  "exposed_card_ids t =
     foldM (\<lambda>seen c.
         rbind (require (card_is_valid c) ''table contains invalid exposed card'') (\<lambda>_.
         rbind (require (\<not> c \<in> set seen) ''table contains duplicate exposed card id'') (\<lambda>_.
         Inr (c # seen)))) [] (exposed_cards t)"

definition validate_run_it_twice_progress :: "'p table \<Rightarrow> (l1_error, unit) outcome" where
  "validate_run_it_twice_progress t =
     (let st = t_rit_state t; board_len = cs_len (t_community_cards t) in
      rbind (rit_validate_canonical st (t_community_cards t)) (\<lambda>_.
      if \<not> rit_is_active st then Inr ()
      else
        rbind (require (\<not> (rit_shared_len st > 4 \<or> board_len > 5 \<or> board_len < rit_shared_len st \<or>
                          second_board_len st > 5))
                 ''run it twice board lengths are outside canonical bounds'') (\<lambda>_.
        rbind (require (\<not> second_board_len st \<noteq> board_len)
                 ''run it twice boards have diverging lengths before reveal'') (\<lambda>_.
        rbind (exposed_card_ids t) (\<lambda>_. Inr ())))))"

abbreviation put_cards_dealt :: "'p table \<Rightarrow> nat \<Rightarrow> 'p table" where
  "put_cards_dealt t n \<equiv> t\<lparr>t_deck_state := (t_deck_state t)\<lparr>ds_cards_dealt := n\<rparr>\<rparr>"

definition start_preflop_reveal_phase :: "'p table \<Rightarrow> table_event list \<Rightarrow> 'p table_result" where
  "start_preflop_reveal_phase t es =
     (let active_mask = get_active_seat_mask (t_seats t) in
      rbind (foldM (\<lambda>(assignments, card_idx) seat.
          if 256 \<le> card_idx + 1 then Inl Panic
          else Inr (assignments @
                    [\<lparr>ra_card_index = card_idx, ra_target = HoleTarget seat (card_idx mod CARDS_PER_PLAYER),
                      ra_pending_mask = active_mask AND NOT (seat_mask_bit seat),
                      ra_submitted_mask = 0, ra_tokens = []\<rparr>], card_idx + 1))
        ([], ds_cards_dealt (t_deck_state t))
        [seat. seat \<leftarrow> get_active_seat_indices (t_seats t), _ \<leftarrow> [0..<CARDS_PER_PLAYER]])
        (\<lambda>(assignments, card_idx).
      rbind (enter_revealing (put_cards_dealt t card_idx) ROUND_PREFLOP
               \<lparr>rv_purpose = DealHole, rv_assignments = assignments\<rparr> 0) (\<lambda>t'.
      Inr (t', es @ [ProtoEv (RevealPhase (t_id t') REVEAL_PHASE_PREFLOP)]))))"

definition start_community_reveal_phase ::
  "'p table \<Rightarrow> nat \<Rightarrow> nat \<Rightarrow> table_event list \<Rightarrow> 'p table_result" where
  "start_community_reveal_phase t n_cards street es =
     rbind (require (street \<in> {ROUND_FLOP, ROUND_TURN, ROUND_RIVER})
              ''community reveal cannot start on street'') (\<lambda>_.
     rbind (validate_run_it_twice_progress t) (\<lambda>_.
     let active_mask = get_active_seat_mask (t_seats t);
         runout_count = (if rit_is_active (t_rit_state t) then 2 else 1) in
     rbind (foldM (\<lambda>(assignments, card_idx) (runout_index, offset).
         let board_position = (if runout_index = 0 then cs_len (t_community_cards t)
                               else second_board_len (t_rit_state t)) + offset in
         rbind (require (board_position < 256) ''community reveal board position exceeds u8'') (\<lambda>_.
         rbind (require (card_idx + 1 < 256) ''community reveal card index overflow'') (\<lambda>_.
         Inr (assignments @
              [\<lparr>ra_card_index = card_idx, ra_target = BoardTarget runout_index board_position,
                ra_pending_mask = active_mask, ra_submitted_mask = 0, ra_tokens = []\<rparr>], card_idx + 1))))
       ([], ds_cards_dealt (t_deck_state t))
       [(r, k). r \<leftarrow> [0..<runout_count], k \<leftarrow> [0..<n_cards]]) (\<lambda>(assignments, card_idx).
     rbind (enter_revealing (put_cards_dealt t card_idx) street
              \<lparr>rv_purpose = BoardReveal, rv_assignments = assignments\<rparr> 0) (\<lambda>t'.
     Inr (t', es @ [ProtoEv (RevealPhase (t_id t') (legacy_reveal_phase BoardReveal street))])))))"

definition start_showdown_reveal_phase :: "'p table \<Rightarrow> table_event list \<Rightarrow> 'p table_result" where
  "start_showdown_reveal_phase t es =
     rbind (foldM (\<lambda>assignments seat.
         rbind (idx (t_seats t) seat) (\<lambda>s.
         let first_slot = (case seat_hand s of None \<Rightarrow> 0 | Some h \<Rightarrow> cs_len h) in
         foldM (\<lambda>assignments (card_slot, c).
             rbind (require (\<not> card_slot < first_slot)
                      ''showdown partial ledger overlaps materialized hand'') (\<lambda>_.
             Inr (assignments @
                  [\<lparr>ra_card_index = ph_card_index c, ra_target = HoleTarget seat card_slot,
                    ra_pending_mask = seat_mask_bit seat, ra_submitted_mask = 0, ra_tokens = []\<rparr>])))
           assignments (ledger_iter_for_seat (ds_hole_ledger (t_deck_state t)) seat)))
       [] (get_active_seat_indices (t_seats t))) (\<lambda>assignments.
     rbind (enter_revealing t ROUND_SHOWDOWN
              \<lparr>rv_purpose = ShowdownOwner, rv_assignments = assignments\<rparr> 0) (\<lambda>t'.
     Inr (t', es @ [ProtoEv (RevealPhase (t_id t') REVEAL_PHASE_SHOWDOWN)])))"

section \<open>Run it twice\<close>

definition trigger_run_it_twice :: "'p table \<Rightarrow> table_event list \<Rightarrow> 'p table_result" where
  "trigger_run_it_twice t es =
     (if tr_rit_mode (t_rules t) = RIT_MODE_DISABLED then Inr (t, es)
      else if tr_rit_mode (t_rules t) \<noteq> RIT_MODE_TWICE
        then fail ''trigger_run_it_twice: unsupported rit_mode''
      else if rit_is_active (t_rit_state t) then Inr (t, es)
      else
        rbind (require (\<not> (round_state t \<notin> {ROUND_PREFLOP, ROUND_FLOP, ROUND_TURN, ROUND_RIVER} \<or>
                          \<not> no_further_betting_possible t))
                 ''trigger_run_it_twice requires an all-in betting state'') (\<lambda>_.
        let shared = cs_len (t_community_cards t) in
        rbind (require (shared < 256) ''run it twice shared board length exceeds u8'') (\<lambda>_.
        rbind (require (\<not> shared \<ge> 5)
                 ''trigger_run_it_twice requires at least one undealt community card'') (\<lambda>_.
        rbind (exposed_card_ids t) (\<lambda>_.
        rbind (map_err SettlementFailed (from_shared_board_len shared)) (\<lambda>start.
        Inr (t\<lparr>t_rit_state := RitTwice start board_cards_empty\<rparr>,
             es @ [HandEv (RunItTwiceTriggered (t_id t) (5 - shared) (5 - shared))])))))))"

definition maybe_trigger_run_it_twice :: "'p table \<Rightarrow> table_event list \<Rightarrow> 'p table_result" where
  "maybe_trigger_run_it_twice t es =
     (if tr_rit_mode (t_rules t) = RIT_MODE_DISABLED \<or> rit_is_active (t_rit_state t) \<or>
         cs_len (t_community_cards t) \<ge> 5 \<or> \<not> no_further_betting_possible t
      then Inr (t, es) else trigger_run_it_twice t es)"

section \<open>Streets and turns\<close>

text \<open>The street that follows, with the reveal phase that opens it; none after an unknown one.\<close>

definition open_next_street ::
  "'p table \<Rightarrow> table_event list \<Rightarrow> (l1_error, (nat \<times> 'p table \<times> table_event list) option) outcome" where
  "open_next_street t es =
     (let from = round_state t; opened = (\<lambda>to r. rbind r (\<lambda>(t', es'). Inr (Some (to, t', es')))) in
      if from = ROUND_PREFLOP then opened ROUND_FLOP (start_community_reveal_phase t 3 ROUND_FLOP es)
      else if from = ROUND_FLOP then opened ROUND_TURN (start_community_reveal_phase t 1 ROUND_TURN es)
      else if from = ROUND_TURN then opened ROUND_RIVER (start_community_reveal_phase t 1 ROUND_RIVER es)
      else if from = ROUND_RIVER then opened ROUND_SHOWDOWN (start_showdown_reveal_phase t es)
      else Inr None)"

definition advance_round :: "'p poker_lib \<Rightarrow> 'p table \<Rightarrow> table_event list \<Rightarrow> 'p table_result" where
  "advance_round L t es =
     (if count_active_players (t_seats t) \<le> 1 then end_without_showdown L t es
      else
        rbind (maybe_trigger_run_it_twice t es) (\<lambda>(t1, es1).
        rbind (open_next_street t1 es1) (\<lambda>next.
        case next of
          None \<Rightarrow> Inr (t1, es1)
        | Some (to, t2, es2) \<Rightarrow>
            Inr (t2, es2 @
              [ActionEv (CurrentTurnChanged (t_id t2) (current_turn_option t1) None to),
               HandEv (RoundAdvanced (t_id t2) (round_state t1) to (t_pot t2)
                         (cs_len (t_community_cards t2)))]))))"

definition set_current_turn :: "'p table \<Rightarrow> nat option \<Rightarrow> table_event list \<Rightarrow> 'p table_result" where
  "set_current_turn t turn es =
     rbind (set_betting_turn t (case turn of None \<Rightarrow> NO_SEAT | Some i \<Rightarrow> i)) (\<lambda>t'.
     Inr (t', es @ [ActionEv (CurrentTurnChanged (t_id t') (current_turn_option t) turn (round_state t'))]))"

definition is_betting_complete :: "'p table \<Rightarrow> bool" where
  "is_betting_complete t =
     (case betting_round_of t of
        None \<Rightarrow> True
      | Some r \<Rightarrow>
          list_all (\<lambda>(i, s). can_act s \<longrightarrow> seat_acted_this_round t i \<and> seat_bet s = br_current_bet r)
            (enumerate 0 (t_seats t)))"

definition advance_turn :: "'p poker_lib \<Rightarrow> 'p table \<Rightarrow> table_event list \<Rightarrow> 'p table_result" where
  "advance_turn L t es =
     (if is_betting_complete t then
        rbind (collect_bets_to_pot t es) (\<lambda>(t1, es1). advance_round L t1 es1)
      else
        rbind (find_next_active_seat (t_seats t)
                 (case current_turn_option t of None \<Rightarrow> 0 | Some i \<Rightarrow> i) (max_players t)) (\<lambda>next.
        set_current_turn t next es))"

fun clear_round_bet :: "'p seat \<Rightarrow> 'p seat" where
  "clear_round_bet (Playing p) = Playing (p\<lparr>ps_bet := 0\<rparr>)"
| "clear_round_bet s = s"

definition first_to_act :: "'p table \<Rightarrow> bool \<Rightarrow> nat option \<Rightarrow> (l1_error, nat option) outcome" where
  "first_to_act t is_preflop bb_seat =
     (let n = max_players t in
      if count_active_occupied (t_seats t) = 2 then Inr (Some (t_button t))
      else if is_preflop then
        (case bb_seat of None \<Rightarrow> Inr None | Some bb \<Rightarrow> find_next_active_seat (t_seats t) bb n)
      else find_next_active_seat (t_seats t) (t_button t) n)"

definition start_betting_round ::
  "'p poker_lib \<Rightarrow> 'p table \<Rightarrow> bool \<Rightarrow> nat option \<Rightarrow> table_event list \<Rightarrow> 'p table_result" where
  "start_betting_round L t is_preflop bb_seat es =
     (let bb = big_blind t in
      rbind (if is_preflop then
               rbind (betting_round_new bb bb) (\<lambda>r.
               Inr (t, r\<lparr>br_current_bet := foldl max bb (map seat_bet (t_seats t))\<rparr>))
             else
               rbind (betting_round_new bb 0) (\<lambda>r.
               Inr (t\<lparr>t_seats := map clear_round_bet (t_seats t)\<rparr>, r))) (\<lambda>(t1, r).
      rbind (enter_betting t1 (round_state t1) r NO_SEAT 0) (\<lambda>t2.
      let t3 = t2\<lparr>t_acted_mask := 0\<rparr> in
      rbind (first_to_act t3 is_preflop bb_seat) (\<lambda>start_seat.
      rbind (set_current_turn t3 start_seat es) (\<lambda>(t4, es4).
      if no_further_betting_possible t4 then
        rbind (collect_bets_to_pot t4 es4) (\<lambda>(t5, es5). advance_round L t5 es5)
      else
        Inr (t4, es4 @
          [HandEv (BettingRoundStarted (t_id t4) (round_state t4)
             (case betting_round_of t4 of None \<Rightarrow> 0 | Some b \<Rightarrow> br_current_bet b) bb
             (case start_seat of None \<Rightarrow> 0 | Some i \<Rightarrow> i) (t_pot t4))]))))))"

section \<open>The actions of the players\<close>

datatype player_action = Fold nat | MatchBet | RaiseTo nat

text \<open>The three branches of \<open>apply_player_action\<close>.\<close>

definition act_fold :: "'p table \<Rightarrow> nat \<Rightarrow> nat \<Rightarrow> table_event list \<Rightarrow> 'p table_result" where
  "act_fold t seat_index reason es =
     rbind (idx (t_seats t) seat_index) (\<lambda>s.
     rbind (require (\<not> is_folded s) ''already folded'') (\<lambda>_.
     rbind (set_status s StFolded) (\<lambda>s'.
     rbind (disarm_betting_deadline (set_seat_acted_this_round (put_seat t seat_index s') seat_index True)) (\<lambda>t'.
     Inr (t', es @ [ActionEv (PlayerFolded (t_id t') seat_index reason (round_state t'))])))))"

definition act_match_bet :: "'p table \<Rightarrow> nat \<Rightarrow> betting_round \<Rightarrow> table_event list \<Rightarrow> 'p table_result" where
  "act_match_bet t seat_index r es =
     rbind (idx (t_seats t) seat_index) (\<lambda>s.
     rbind (require (\<not> (is_folded s \<or> is_all_in s)) ''player inactive'') (\<lambda>_.
     if seat_bet s \<ge> br_current_bet r then
       rbind (disarm_betting_deadline (set_seat_acted_this_round t seat_index True)) (\<lambda>t'.
       Inr (t', es @ [ActionEv (PlayerChecked (t_id t') seat_index (round_state t'))]))
     else
       let call_amt = process_call r (seat_bet s) (seat_stack s) in
       rbind (with_playing s (\<lambda>p.
           rbind (checked (checked_sub_u64 (os_stack (ps_occupied p)) call_amt) ''stack underflow on call'') (\<lambda>st.
           rbind (checked (checked_add_u64 (ps_bet p) call_amt) ''bet overflow on call'') (\<lambda>b.
           rbind (checked (checked_add_u64 (ps_total_bet p) call_amt) ''total_bet overflow on call'') (\<lambda>tb.
           Inr (p\<lparr>ps_occupied := (ps_occupied p)\<lparr>os_stack := st\<rparr>, ps_bet := b, ps_total_bet := tb,
                  ps_status := (if st = 0 \<and> call_amt > 0 then PsAllIn else ps_status p)\<rparr>)))))) (\<lambda>s'.
       rbind (disarm_betting_deadline
                (set_seat_acted_this_round (put_seat t seat_index s') seat_index True)) (\<lambda>t'.
       Inr (t', es @ [ActionEv (PlayerCalled (t_id t') seat_index call_amt (round_state t'))] @
                (if seat_stack s' = 0 \<and> call_amt > 0 then
                   [ActionEv (PlayerAllIn (t_id t') seat_index TRIGGER_ACTION_CALL_ALL_IN call_amt
                      (round_state t'))] else []))))))"

definition reopen_action :: "'p table \<Rightarrow> nat \<Rightarrow> 'p table" where
  "reopen_action t seat_index =
     t\<lparr>t_acted_mask :=
         foldl (\<lambda>m (i, s). if i \<noteq> seat_index \<and> can_act s then m AND NOT (seat_mask_bit i) else m)
           (t_acted_mask t) (enumerate 0 (t_seats t))\<rparr>"

definition act_raise :: "'p table \<Rightarrow> nat \<Rightarrow> nat \<Rightarrow> table_event list \<Rightarrow> 'p table_result" where
  "act_raise t seat_index total_bet es =
     rbind (idx (t_seats t) seat_index) (\<lambda>s.
     rbind (ok_or (Serialization ''Texas table is not in an active betting phase'') (betting_round_of t)) (\<lambda>r.
     rbind (map_err (\<lambda>e. BettingFailed e) (process_raise r total_bet (seat_bet s) (seat_stack s))) (\<lambda>(needed, r').
     rbind (set_betting_round t r') (\<lambda>t1.
     rbind (with_playing s (\<lambda>p.
         rbind (checked (checked_sub_u64 (os_stack (ps_occupied p)) needed) ''stack underflow on raise'') (\<lambda>st.
         rbind (checked (checked_add_u64 (ps_total_bet p) needed) ''total_bet overflow on raise'') (\<lambda>tb.
         Inr (p\<lparr>ps_occupied := (ps_occupied p)\<lparr>os_stack := st\<rparr>, ps_bet := total_bet, ps_total_bet := tb,
                ps_status := (if st = 0 then PsAllIn else ps_status p)\<rparr>))))) (\<lambda>s'.
     rbind (disarm_betting_deadline
              (set_seat_acted_this_round (put_seat t1 seat_index s') seat_index True)) (\<lambda>t2.
     let t3 = reopen_action t2 seat_index in
     Inr (t3, es @ [ActionEv (PlayerRaised (t_id t3) seat_index needed total_bet (round_state t3))] @
              (if seat_stack s' = 0 then
                 [ActionEv (PlayerAllIn (t_id t3) seat_index TRIGGER_ACTION_RAISE_ALL_IN needed
                    (round_state t3))] else []))))))))"

definition apply_player_action ::
  "'p poker_lib \<Rightarrow> 'p table \<Rightarrow> nat \<Rightarrow> player_action \<Rightarrow> table_event list \<Rightarrow> 'p table_result" where
  "apply_player_action L t seat_index action es =
     rbind (require (\<not> seat_index \<ge> max_players t) ''player action seat_index out of range'') (\<lambda>_.
     rbind (require (is_betting_round t) ''not in betting round'') (\<lambda>_.
     rbind (require (is_player_turn t seat_index) ''not the player turn'') (\<lambda>_.
     rbind (case action of
              Fold reason \<Rightarrow> act_fold t seat_index reason es
            | MatchBet \<Rightarrow> rbind (case betting_round_of t of None \<Rightarrow> Inl Panic | Some r \<Rightarrow> Inr r)
                            (\<lambda>r. act_match_bet t seat_index r es)
            | RaiseTo total_bet \<Rightarrow> act_raise t seat_index total_bet es) (\<lambda>(t1, es1).
     if (case action of Fold _ \<Rightarrow> True | _ \<Rightarrow> False) \<and> count_active_players (t_seats t1) \<le> 1
     then end_without_showdown L t1 es1
     else advance_turn L t1 es1))))"

definition apply_fold_internal ::
  "'p poker_lib \<Rightarrow> 'p table \<Rightarrow> nat \<Rightarrow> nat \<Rightarrow> table_event list \<Rightarrow> 'p table_result" where
  "apply_fold_internal L t seat_index reason es = apply_player_action L t seat_index (Fold reason) es"

definition apply_fold :: "'p poker_lib \<Rightarrow> 'p table \<Rightarrow> nat \<Rightarrow> table_event list \<Rightarrow> 'p table_result" where
  "apply_fold L t seat_index es = apply_fold_internal L t seat_index FOLD_REASON_MANUAL es"

definition apply_check :: "'p poker_lib \<Rightarrow> 'p table \<Rightarrow> nat \<Rightarrow> table_event list \<Rightarrow> 'p table_result" where
  "apply_check L t seat_index es =
     rbind (ok_or (Serialization ''not in betting round'') (betting_round_of t)) (\<lambda>r.
     if \<not> seat_index < length (t_seats t) then fail ''seat index out of range''
     else if seat_bet (t_seats t ! seat_index) < br_current_bet r then fail ''cannot check: bet < current_bet''
     else apply_player_action L t seat_index MatchBet es)"

definition apply_call :: "'p poker_lib \<Rightarrow> 'p table \<Rightarrow> nat \<Rightarrow> table_event list \<Rightarrow> 'p table_result" where
  "apply_call L t seat_index es =
     rbind (ok_or (Serialization ''not in betting round'') (betting_round_of t)) (\<lambda>r.
     if \<not> seat_index < length (t_seats t) then fail ''seat index out of range''
     else if seat_bet (t_seats t ! seat_index) \<ge> br_current_bet r
       then fail ''cannot call when no chips are owed; use check''
     else apply_player_action L t seat_index MatchBet es)"

definition apply_raise :: "'p poker_lib \<Rightarrow> 'p table \<Rightarrow> nat \<Rightarrow> nat \<Rightarrow> table_event list \<Rightarrow> 'p table_result" where
  "apply_raise L t seat_index total_bet es = apply_player_action L t seat_index (RaiseTo total_bet) es"

definition apply_bet :: "'p poker_lib \<Rightarrow> 'p table \<Rightarrow> nat \<Rightarrow> nat \<Rightarrow> table_event list \<Rightarrow> 'p table_result" where
  "apply_bet L t seat_index amount es =
     rbind (require (is_betting_round t) ''bet: not in betting round'') (\<lambda>_.
     rbind (require (is_player_turn t seat_index) ''bet: not the player turn'') (\<lambda>_.
     rbind (require (\<not> amount = 0) ''bet: amount must > 0'') (\<lambda>_.
     rbind (require (\<not> round_state t = ROUND_PREFLOP) ''bet: not allowed in preflop, use raise instead'') (\<lambda>_.
     rbind (case betting_round_of t of None \<Rightarrow> Inl Panic | Some r \<Rightarrow> Inr r) (\<lambda>r.
     rbind (idx (t_seats t) seat_index) (\<lambda>s.
     rbind (require (\<not> br_current_bet r > seat_bet s) ''bet: current_bet > seat_bet'') (\<lambda>_.
     rbind (checked (checked_add_u64 (seat_bet s) amount) ''bet: total_bet overflow'') (\<lambda>total_bet.
     rbind (apply_raise L t seat_index total_bet es) (\<lambda>(t', es').
     Inr (t', es' @ [ActionEv (PlayerBet (t_id t') seat_index amount (round_state t'))]))))))))))"

definition apply_fold_with_proof ::
  "'p poker_lib \<Rightarrow> 'p table \<Rightarrow> nat \<Rightarrow> 'p ciphertext list \<Rightarrow> byte list \<Rightarrow> table_event list \<Rightarrow> 'p table_result" where
  "apply_fold_with_proof L t seat_index output_cards fold_proof es =
     rbind (require (is_betting_round t) ''fold_with_proof: not in betting round'') (\<lambda>_.
     rbind (require (is_player_turn t seat_index) ''fold_with_proof: not the seat turn'') (\<lambda>_.
     rbind (require (\<not> seat_index \<ge> max_players t) ''fold_with_proof: seat_index out of range'') (\<lambda>_.
     rbind (idx (t_seats t) seat_index) (\<lambda>s.
     rbind (require (is_occupied s) ''fold_with_proof: seat not occupied'') (\<lambda>_.
     rbind (require (\<not> is_folded s) ''fold_with_proof: seat already folded'') (\<lambda>_.
     rbind (ok_or (Serialization ''fold seat has no live key'') (seat_pk s)) (\<lambda>player_pk.
     rbind (require (lib_leave_verify L fold_proof (ds_encrypted (t_deck_state t)) output_cards player_pk)
              ''fold_with_proof: proof verify failed'') (\<lambda>_.
     rbind (remove_deck_contributor L t seat_index) (\<lambda>t1.
     rbind (cipher_deck output_cards) (\<lambda>deck.
     let t2 = t1\<lparr>t_deck_state := (t_deck_state t1)\<lparr>ds_encrypted := deck\<rparr>\<rparr> in
     rbind (set_status s StFolded) (\<lambda>s'.
     rbind (disarm_betting_deadline
              (set_seat_acted_this_round (put_seat t2 seat_index s') seat_index True)) (\<lambda>t3.
     let es1 = es @ [ActionEv (PlayerFolded (t_id t3) seat_index FOLD_REASON_MANUAL (round_state t3))] in
     if count_active_players (t_seats t3) \<le> 1 then end_without_showdown L t3 es1
     else advance_turn L t3 es1))))))))))))"

section \<open>Funding, leaving and the time bank\<close>

datatype fund_timing = NextHand | Immediate

definition apply_fund_seat ::
  "'p table \<Rightarrow> nat \<Rightarrow> nat \<Rightarrow> fund_timing \<Rightarrow> table_event list \<Rightarrow> 'p table_result" where
  "apply_fund_seat t seat_index amount timing es =
     rbind (require (\<not> seat_index \<ge> max_players t) ''fund: seat_index out of range'') (\<lambda>_.
     rbind (require (\<not> amount = 0) ''fund: amount must > 0'') (\<lambda>_.
     rbind (idx (t_seats t) seat_index) (\<lambda>s.
     rbind (require (is_occupied s) ''fund: seat not occupied'') (\<lambda>_.
     rbind (checked (checked_add_u64 (t_chip_pool t) amount) ''fund: total chips overflow'') (\<lambda>total_chips.
     rbind (require (\<not> total_chips > MAX_TOTAL_BET) ''fund: total chips exceeds MAX_TOTAL_BET'') (\<lambda>_.
     case timing of
       NextHand \<Rightarrow>
         rbind (checked (checked_add_u64 (seat_pending_addon s) amount) ''addon: pending_addon overflow'') (\<lambda>pending_after.
         rbind (set_pending_addon s pending_after) (\<lambda>s'.
         Inr ((put_seat t seat_index s')\<lparr>t_chip_pool := total_chips\<rparr>,
              es @ [SeatEv (AddonRequested (t_id t) seat_index (seat_player s) amount pending_after)])))
     | Immediate \<Rightarrow>
         rbind (checked (checked_add_u64 (seat_stack s) amount) ''rebuy: stack overflow'') (\<lambda>stack_after.
         rbind (set_stack s stack_after) (\<lambda>s'.
         Inr ((put_seat t seat_index s')\<lparr>t_chip_pool := total_chips\<rparr>,
              es @ [SeatEv (RebuyProcessed (t_id t) seat_index (seat_player s) amount stack_after)])))))))))"

definition apply_addon :: "'p table \<Rightarrow> nat \<Rightarrow> nat \<Rightarrow> table_event list \<Rightarrow> 'p table_result" where
  "apply_addon t seat_index amount es = apply_fund_seat t seat_index amount NextHand es"

definition apply_rebuy :: "'p table \<Rightarrow> nat \<Rightarrow> nat \<Rightarrow> table_event list \<Rightarrow> 'p table_result" where
  "apply_rebuy t seat_index amount es = apply_fund_seat t seat_index amount Immediate es"

text \<open>The flag that the code returns says whether the table changed.\<close>

definition apply_set_leave_after_hand ::
  "'p table \<Rightarrow> nat \<Rightarrow> bool \<Rightarrow> table_event list \<Rightarrow> (l1_error, bool \<times> 'p table \<times> table_event list) outcome" where
  "apply_set_leave_after_hand t seat_index want_leave es =
     rbind (require (\<not> seat_index \<ge> max_players t) ''set_leave_after_hand: seat_index out of range'') (\<lambda>_.
     rbind (idx (t_seats t) seat_index) (\<lambda>s.
     rbind (require (is_occupied s) ''set_leave_after_hand: seat not occupied'') (\<lambda>_.
     if seat_wants_leave t seat_index = want_leave then Inr (False, t, es)
     else Inr (True, set_seat_wants_leave t seat_index want_leave,
               es @ [SeatEv (LeaveRequested (t_id t) seat_index (seat_player s) want_leave)]))))"

definition consume_time_bank :: "'p table \<Rightarrow> nat \<Rightarrow> nat \<Rightarrow> table_event list \<Rightarrow> 'p table_result" where
  "consume_time_bank t seat_index consumed_ms es =
     rbind (require (\<not> seat_index \<ge> max_players t) ''consume_time_bank: seat_index out of range'') (\<lambda>_.
     rbind (idx (t_seats t) seat_index) (\<lambda>s.
     rbind (require (is_occupied s) ''consume_time_bank: seat not occupied'') (\<lambda>_.
     rbind (require (\<not> seat_time_bank_ms s < consumed_ms) ''consume_time_bank: time_bank_ms < consumed_ms'') (\<lambda>_.
     let remaining = seat_time_bank_ms s - consumed_ms in
     Inr (put_seat t seat_index (set_time_bank_ms s remaining),
          es @ [ActionEv (TimeBankConsumed (t_id t) seat_index consumed_ms remaining)])))))"

end
