(* ===== verification/TableHand.thy ===== *)
theory TableHand
  imports TableRound
begin

text \<open>
  The protocol around the betting, from \<^verbatim>\<open>texas_poker/state_machine.rs\<close>: shuffling, revealing and
  reconstructing the deck, kicks and timeouts, the showdown with the settlement plan of the shared
  crate (\<open>derive_settlement_plan\<close>, modelled in \<open>Derive\<close>), and the two drivers:
  \<open>normalize_until_blocked\<close>, which carries a table forward until it needs input, and
  \<open>advance_deadline\<close>, which consumes the one deadline that is due.
\<close>

section \<open>Shuffling\<close>

definition restart_reveal_after_reconstruct :: "'p table \<Rightarrow> table_event list \<Rightarrow> 'p table_result" where
  "restart_reveal_after_reconstruct t es =
     rbind (validate_run_it_twice_progress t) (\<lambda>_.
     let street = round_state t; have = cs_len (t_community_cards t) in
     if street = ROUND_PREFLOP then
       start_preflop_reveal_phase
         (t\<lparr>t_deck_state := (t_deck_state t)\<lparr>ds_hole_ledger := ledger_default\<rparr>\<rparr>) es
     else if street = ROUND_FLOP then
       (if have < 3 then start_community_reveal_phase t (3 - have) ROUND_FLOP es else Inr (t, es))
     else if street = ROUND_TURN then
       (if have < 4 then start_community_reveal_phase t (4 - have) ROUND_TURN es else Inr (t, es))
     else if street = ROUND_RIVER then
       (if have < 5 then start_community_reveal_phase t (5 - have) ROUND_RIVER es else Inr (t, es))
     else if street = ROUND_SHOWDOWN then start_showdown_reveal_phase t es
     else Inr (t, es))"

definition advance_shuffle :: "'p table \<Rightarrow> table_event list \<Rightarrow> 'p table_result" where
  "advance_shuffle t es =
     (let ph = shuffle_phase t; st = shuffle_state_of t in
      if ph \<noteq> SHUFFLE_PHASE_RECONSTRUCT \<and> ph \<noteq> SHUFFLE_PHASE_BEFORE_PREFLOP then Inr (t, es)
      else if sh_pending_mask st = 0 then
        let es1 = es @ [ProtoEv (ShuffleComplete (t_id t) ph (seat_mask_count (sh_completed_mask st))
                                  (length (ds_encrypted (t_deck_state t))))] in
        (if ph = SHUFFLE_PHASE_BEFORE_PREFLOP then start_preflop_reveal_phase t es1
         else if ph = SHUFFLE_PHASE_RECONSTRUCT then restart_reveal_after_reconstruct t es1
         else Inr (t, es1))
      else
        rbind (ok_or (Serialization ''shuffle pending mask unexpectedly empty'')
                 (seat_mask_first (sh_pending_mask st))) (\<lambda>next_seat.
        rbind (disarm_shuffle_deadline t) (\<lambda>t'.
        Inr (t', es @ [ProtoEv (ShuffleTurn (t_id t') next_seat (seat_mask_count (sh_pending_mask st))
                                 (seat_mask_count (sh_completed_mask st)))]))))"

definition rebuild_deck_and_shuffle_on_timeout ::
  "'p poker_lib \<Rightarrow> 'p table \<Rightarrow> nat \<Rightarrow> table_event list \<Rightarrow> 'p table_result" where
  "rebuild_deck_and_shuffle_on_timeout L t ph es =
     rbind (set_initial_encrypted_deck L t) (\<lambda>t1.
     let st = \<lparr>sh_pending_mask = get_active_seat_mask (t_seats t1), sh_completed_mask = 0\<rparr> in
     rbind (if ph = SHUFFLE_PHASE_RECONSTRUCT then
              rbind (take_reveal_payload t1) (\<lambda>(suspended_reveal, t2).
              enter_reconstruct_shuffling t2 (round_state t1) st suspended_reveal 0)
            else enter_initial_shuffling t1 st 0) (\<lambda>t3.
     Inr (t3, es @ [ProtoEv (DeckRebuilt (t_id t3) DECK_REBUILT_REASON_SHUFFLE_TIMEOUT
                              (length (ds_encrypted (t_deck_state t3))))])))"

definition apply_submit_shuffle_v2 ::
  "'p poker_lib \<Rightarrow> 'p table \<Rightarrow> nat \<Rightarrow> 'p ciphertext list \<Rightarrow> byte list \<Rightarrow> table_event list \<Rightarrow> 'p table_result" where
  "apply_submit_shuffle_v2 L t seat_index output_cards shuffle_proof es =
     rbind (require (\<not> shuffle_phase t = SHUFFLE_PHASE_NONE) ''shuffle phase is NONE'') (\<lambda>_.
     rbind (idx (t_seats t) seat_index) (\<lambda>s.
     rbind (require (is_occupied s) ''seat not occupied'') (\<lambda>_.
     rbind (require (\<not> derived_current_shuffler (shuffle_state_of t) \<noteq> seat_index)
              ''not the turn of the shuffler'') (\<lambda>_.
     rbind (require (\<not> seat_mask_contains (sh_completed_mask (shuffle_state_of t)) seat_index)
              ''already completed shuffle'') (\<lambda>_.
     rbind (derived_aggregated_pk L t) (\<lambda>agg.
     let agg_pk = (case agg of None \<Rightarrow> lib_identity L | Some p \<Rightarrow> p) in
     rbind (require (lib_shuffle_verify L shuffle_proof (ds_encrypted (t_deck_state t)) output_cards agg_pk)
              ''shuffle proof'') (\<lambda>_.
     rbind (ok_or (Serialization ''shuffle seat has no live key'') (seat_pk s)) (\<lambda>player_pk.
     rbind (cipher_deck (map (\<lambda>ct. add_pk_to_c2 L ct player_pk) output_cards)) (\<lambda>deck.
     let t1 = t\<lparr>t_deck_state := (t_deck_state t)\<lparr>ds_encrypted := deck\<rparr>\<rparr>; st = shuffle_state_of t1 in
     rbind (set_shuffle_state t1
              \<lparr>sh_pending_mask = seat_mask_remove (sh_pending_mask st) seat_index,
               sh_completed_mask = sh_completed_mask st OR seat_mask_bit seat_index\<rparr>) (\<lambda>t2.
     advance_shuffle t2 (es @ [ProtoEv (ShuffleVerified (t_id t2) seat_index (seat_player s))])))))))))))"

section \<open>Revealing\<close>

definition check_reveal_phase_complete ::
  "'p poker_lib \<Rightarrow> 'p table \<Rightarrow> table_event list \<Rightarrow> 'p table_result" where
  "check_reveal_phase_complete L t es =
     rbind (ok_or (Serialization ''reveal completion checked outside reveal state'') (reveal_token_state t)) (\<lambda>rv.
     if rv_assignments rv \<noteq> [] then Inr (t, es)
     else
       let es1 = es @ [ProtoEv (RevealPhaseComplete (t_id t) (reveal_phase t))] in
       (case rv_purpose rv of
          DealHole \<Rightarrow>
            rbind (post_blinds t es1) (\<lambda>(bb_seat, t2, es2).
            rbind (collect_ante t2 bb_seat es2) (\<lambda>(t3, es3).
            start_betting_round L t3 True (Some bb_seat) es3))
        | BoardReveal \<Rightarrow> start_betting_round L t False None es1
        | ShowdownOwner \<Rightarrow> Inr (enter_showdown_display t 0, es1)))"

definition card_from_plaintext :: "'p \<Rightarrow> 'p list \<Rightarrow> (l1_error, nat) outcome" where
  "card_from_plaintext plaintext canonical_cards =
     rbind (ok_or (Serialization ''decrypted plaintext is not a canonical Texas Poker card'')
              (find (\<lambda>i. canonical_cards ! i = plaintext) [0..<length canonical_cards])) (\<lambda>card_id.
     rbind (require (card_id < 256) ''canonical card id exceeds u8'') (\<lambda>_. Inr card_id))"

definition partial_decrypt_c2 :: "'p poker_lib \<Rightarrow> 'p \<Rightarrow> 'p list \<Rightarrow> 'p" where
  "partial_decrypt_c2 L c2 tokens = foldl (lib_sub L) c2 tokens"

definition completed_reveal_tokens :: "'p reveal_assignment \<Rightarrow> (l1_error, 'p list) outcome" where
  "completed_reveal_tokens a =
     rbind (require (\<not> ra_pending_mask a \<noteq> 0)
              ''reveal assignment is not a freshly completed collection'') (\<lambda>_.
     rbind (require (\<not> count_ones (ra_submitted_mask a) \<noteq> length (ra_tokens a))
              ''completed reveal assignment has a non-canonical token vector'') (\<lambda>_.
     Inr (ra_tokens a)))"

abbreviation put_ledger :: "'p table \<Rightarrow> 'p ledger \<Rightarrow> 'p table" where
  "put_ledger t led \<equiv> t\<lparr>t_deck_state := (t_deck_state t)\<lparr>ds_hole_ledger := led\<rparr>\<rparr>"

definition deck_card :: "'p table \<Rightarrow> nat \<Rightarrow> 'p ciphertext option" where
  "deck_card t i =
     (if i < length (ds_encrypted (t_deck_state t)) then Some (ds_encrypted (t_deck_state t) ! i) else None)"

definition materialize_deal :: "'p poker_lib \<Rightarrow> 'p table \<Rightarrow> 'p reveal_assignment \<Rightarrow> (l1_error, 'p table) outcome" where
  "materialize_deal L t a =
     (case ra_target a of
        BoardTarget _ _ \<Rightarrow> fail ''preflop reveal completed a non-hole assignment''
      | HoleTarget seat_index card_slot \<Rightarrow>
          rbind (ok_or (Serialization ''preflop reveal card index is out of range'')
                   (deck_card t (ra_card_index a))) (\<lambda>enc.
          rbind (completed_reveal_tokens a) (\<lambda>tokens.
          rbind (ledger_insert (ds_hole_ledger (t_deck_state t)) seat_index card_slot
                   \<lparr>ph_card_index = ra_card_index a,
                    ph_ciphertext = \<lparr>ct_c1 = ct_c1 enc, ct_c2 = partial_decrypt_c2 L (ct_c2 enc) tokens\<rparr>\<rparr>) (\<lambda>led.
          Inr (put_ledger t led)))))"

text \<open>
  Community cards: first every completed assignment is decrypted and checked (the cards seen, the
  next position on each board), then the cards are appended.
\<close>

definition decrypt_community ::
  "'p poker_lib \<Rightarrow> 'p table \<Rightarrow> nat list \<times> (nat \<Rightarrow> nat) \<times> (nat \<times> nat \<times> nat) list \<Rightarrow> 'p reveal_assignment \<Rightarrow>
   (l1_error, nat list \<times> (nat \<Rightarrow> nat) \<times> (nat \<times> nat \<times> nat) list) outcome" where
  "decrypt_community L t acc a =
     (case acc of (seen, expected, materialized) \<Rightarrow>
      case ra_target a of
        HoleTarget _ _ \<Rightarrow> fail ''community reveal completed a hole assignment''
      | BoardTarget runout board_position \<Rightarrow>
          let active_runouts = (if rit_is_active (t_rit_state t) then 2 else 1) in
          rbind (require (\<not> (runout \<ge> active_runouts \<or> board_position \<noteq> expected runout))
                   ''community reveal target is not the canonical next position'') (\<lambda>_.
          rbind (ok_or (Serialization ''community reveal card index is out of range'')
                   (deck_card t (ra_card_index a))) (\<lambda>enc.
          rbind (completed_reveal_tokens a) (\<lambda>tokens.
          rbind (card_from_plaintext (partial_decrypt_c2 L (ct_c2 enc) tokens)
                   (generate_plaintext_cards L)) (\<lambda>c.
          rbind (require (\<not> c \<in> set seen) ''duplicate decrypted card id while writing community cards'') (\<lambda>_.
          Inr (c # seen, expected(runout := expected runout + 1),
               materialized @ [(ra_card_index a, runout, c)])))))))"

definition append_community ::
  "'p table \<Rightarrow> nat \<times> nat \<times> nat \<Rightarrow> (l1_error, 'p table) outcome" where
  "append_community t m =
     (case m of (_, runout, c) \<Rightarrow>
      if runout = 0 then
        rbind (try_push (t_community_cards t) c ''cannot append first-board card'') (\<lambda>b.
        Inr (t\<lparr>t_community_cards := b\<rparr>))
      else
        (case t_rit_state t of
           RitSingle \<Rightarrow> fail ''Texas single runout has no second-board suffix''
         | RitTwice start sfx \<Rightarrow>
             rbind (try_push sfx c ''cannot append second-board suffix card'') (\<lambda>sfx'.
             Inr (t\<lparr>t_rit_state := RitTwice start sfx'\<rparr>))))"

definition materialize_completed_community_assignments ::
  "'p poker_lib \<Rightarrow> 'p table \<Rightarrow> nat \<Rightarrow> 'p reveal_assignment list \<Rightarrow> table_event list \<Rightarrow> 'p table_result" where
  "materialize_completed_community_assignments L t ph completed es =
     rbind (exposed_card_ids t) (\<lambda>seen.
     rbind (foldM (decrypt_community L t)
              (seen, (\<lambda>_. second_board_len (t_rit_state t))(0 := cs_len (t_community_cards t)), [])
              completed) (\<lambda>(_, _, materialized).
     rbind (foldM append_community t materialized) (\<lambda>t'.
     Inr (t', es @ [ProtoEv (CommunityCardRevealed (t_id t') ph (map fst materialized)
               (map (\<lambda>(_, _, c). card_rank_of c) materialized)
               (map (\<lambda>(_, _, c). card_suit_of c) materialized))]))))"

definition decrypt_showdown ::
  "'p poker_lib \<Rightarrow> 'p table \<Rightarrow> nat list \<times> (nat \<times> nat \<times> nat \<times> nat) list \<Rightarrow> 'p reveal_assignment \<Rightarrow>
   (l1_error, nat list \<times> (nat \<times> nat \<times> nat \<times> nat) list) outcome" where
  "decrypt_showdown L t acc a =
     (case acc of (seen, materialized) \<Rightarrow>
      case ra_target a of
        BoardTarget _ _ \<Rightarrow> fail ''showdown reveal completed a board assignment''
      | HoleTarget seat_index card_slot \<Rightarrow>
          rbind (ok_or (Serialization ''showdown partial ledger slot is missing'')
                   (ledger_get (ds_hole_ledger (t_deck_state t)) seat_index card_slot)) (\<lambda>rec.
          rbind (require (\<not> ph_card_index rec \<noteq> ra_card_index a)
                   ''showdown assignment/ledger lineage mismatch'') (\<lambda>_.
          rbind (completed_reveal_tokens a) (\<lambda>tokens.
          rbind (card_from_plaintext (partial_decrypt_c2 L (ct_c2 (ph_ciphertext rec)) tokens)
                   (generate_plaintext_cards L)) (\<lambda>c.
          rbind (require (\<not> c \<in> set seen) ''duplicate decrypted card id while writing hole cards'') (\<lambda>_.
          Inr (c # seen, materialized @ [(seat_index, card_slot, ra_card_index a, c)])))))))"

text \<open>\<open>next_slot\<close> counts the cards of each hand as they are written.\<close>

definition write_hole_card ::
  "('p table \<times> table_event list) \<times> nat list \<Rightarrow> nat \<times> nat \<times> nat \<times> nat \<Rightarrow>
   (l1_error, ('p table \<times> table_event list) \<times> nat list) outcome" where
  "write_hole_card acc m =
     (case (acc, m) of (((t, es), next_slot), (seat_index, card_slot, card_index, c)) \<Rightarrow>
      rbind (require (seat_index < length (t_seats t)) ''showdown owner is out of range'') (\<lambda>_.
      let s = t_seats t ! seat_index in
      rbind (require (\<not> (\<not> is_occupied s \<or> card_slot \<noteq> next_slot ! seat_index))
               ''showdown hole-card slot is not canonical'') (\<lambda>_.
      rbind (with_playing s (\<lambda>p.
               rbind (try_push (ps_hand p) c ''cannot append hole card'') (\<lambda>h. Inr (p\<lparr>ps_hand := h\<rparr>)))) (\<lambda>s'.
      rbind (ledger_remove (ds_hole_ledger (t_deck_state t)) seat_index card_slot) (\<lambda>(_, led).
      Inr ((put_ledger (put_seat t seat_index s') led,
            es @ (if \<not> is_folded s' then
                    [ProtoEv (ShowdownHoleCardsRevealed (t_id t) seat_index (seat_player s') [card_index]
                       [card_rank_of c] [card_suit_of c])]
                  else [])),
           next_slot[seat_index := next_slot ! seat_index + 1]))))))"

definition materialize_completed_showdown_assignments ::
  "'p poker_lib \<Rightarrow> 'p table \<Rightarrow> 'p reveal_assignment list \<Rightarrow> table_event list \<Rightarrow> 'p table_result" where
  "materialize_completed_showdown_assignments L t completed es =
     rbind (exposed_card_ids t) (\<lambda>seen.
     rbind (foldM (decrypt_showdown L t) (seen, []) completed) (\<lambda>(_, materialized).
     rbind (foldM write_hole_card
              ((t, es), map (\<lambda>s. case seat_hand s of None \<Rightarrow> 0 | Some h \<Rightarrow> cs_len h) (t_seats t))
              materialized) (\<lambda>(r, _). Inr r)))"

definition active_reveal_state :: "'p table \<Rightarrow> (l1_error, 'p reveal_state) outcome" where
  "active_reveal_state t =
     (case t_hand_phase t of
        Revealing _ st _ \<Rightarrow> Inr st
      | _ \<Rightarrow> fail ''Texas table is not in an active reveal phase'')"

text \<open>Removing the completed assignments by index from the back leaves the ones still pending.\<close>

definition materialize_completed_reveal_assignments ::
  "'p poker_lib \<Rightarrow> 'p table \<Rightarrow> table_event list \<Rightarrow> 'p table_result" where
  "materialize_completed_reveal_assignments L t es =
     rbind (ok_or (Serialization ''cannot materialize outside reveal state'') (reveal_token_state t)) (\<lambda>rv.
     let completed = filter is_ready (rv_assignments rv) in
     if completed = [] then Inr (t, es)
     else
       rbind (case rv_purpose rv of
                DealHole \<Rightarrow> rbind (foldM (materialize_deal L) t completed) (\<lambda>t'. Inr (t', es))
              | BoardReveal \<Rightarrow>
                  rbind (require (\<not> length completed \<noteq> length (reveal_assignments t))
                           ''community reveal assignments did not complete as one canonical batch'') (\<lambda>_.
                  materialize_completed_community_assignments L t (reveal_phase t) completed es)
              | ShowdownOwner \<Rightarrow> materialize_completed_showdown_assignments L t completed es) (\<lambda>(t1, es1).
       rbind (active_reveal_state t1) (\<lambda>st.
       rbind (set_reveal_state t1
                (st\<lparr>rv_assignments := filter (\<lambda>a. \<not> is_ready a) (rv_assignments st)\<rparr>)) (\<lambda>t2.
       Inr (t2, es1)))))"

text \<open>The ciphertext that a token for an assignment must open.\<close>

definition assignment_ciphertext ::
  "'p table \<Rightarrow> nat \<Rightarrow> nat \<Rightarrow> 'p reveal_assignment \<Rightarrow> (l1_error, 'p ciphertext) outcome" where
  "assignment_ciphertext t ph seat_index a =
     (if ph = REVEAL_PHASE_SHOWDOWN then
        (case ra_target a of
           BoardTarget _ _ \<Rightarrow> fail ''showdown reveal assignment must target a hole-card slot''
         | HoleTarget owner_seat card_slot \<Rightarrow>
             rbind (require (\<not> owner_seat \<noteq> seat_index)
                      ''showdown reveal submitter does not own target seat'') (\<lambda>_.
             rbind (ok_or (Serialization ''showdown partial ciphertext is missing'')
                      (ledger_get (ds_hole_ledger (t_deck_state t)) owner_seat card_slot)) (\<lambda>part.
             rbind (require (\<not> ph_card_index part \<noteq> ra_card_index a)
                      ''showdown assignment/ledger lineage mismatch'') (\<lambda>_.
             Inr (ph_ciphertext part)))))
      else ok_or (Serialization ''card_index out of range'') (deck_card t (ra_card_index a)))"

definition submit_one_token ::
  "'p poker_lib \<Rightarrow> nat \<Rightarrow> nat \<Rightarrow> 'p \<Rightarrow> 'p table \<times> table_event list \<Rightarrow> nat \<times> 'p \<times> byte list \<Rightarrow> 'p table_result" where
  "submit_one_token L ph seat_index expected_pk acc sub =
     (case (acc, sub) of ((t, es), (ai, token, proof)) \<Rightarrow>
      rbind (require (\<not> ai \<ge> length (reveal_assignments t)) ''assignment_index out of range'') (\<lambda>_.
      let a = reveal_assignments t ! ai in
      rbind (require (\<not> is_ready a) ''assignment already resolved'') (\<lambda>_.
      rbind (require (seat_mask_contains (ra_pending_mask a) seat_index)
               ''seat not in pending for assignment'') (\<lambda>_.
      rbind (assignment_ciphertext t ph seat_index a) (\<lambda>ct.
      rbind (require (lib_reveal_verify L proof ct token expected_pk) ''reveal token proof'') (\<lambda>_.
      rbind (active_reveal_state t) (\<lambda>st.
      rbind (require (\<not> count_ones (ra_submitted_mask a) \<noteq> length (ra_tokens a))
               ''assignment token vector is not canonical'') (\<lambda>_.
      let a' = a\<lparr>ra_tokens := ra_tokens a @ [token],
                 ra_pending_mask := seat_mask_remove (ra_pending_mask a) seat_index,
                 ra_submitted_mask := ra_submitted_mask a OR seat_mask_bit seat_index\<rparr> in
      rbind (set_reveal_state t (st\<lparr>rv_assignments := (rv_assignments st)[ai := a']\<rparr>)) (\<lambda>t'.
      Inr (t', es @ [ProtoEv (RevealTokenSubmitted (t_id t') seat_index (ra_card_index a) ph)]))))))))))"

definition apply_submit_player_reveal_tokens ::
  "'p poker_lib \<Rightarrow> 'p table \<Rightarrow> nat \<Rightarrow> 'p list \<Rightarrow> byte list list \<Rightarrow> table_event list \<Rightarrow> 'p table_result" where
  "apply_submit_player_reveal_tokens L t seat_index reveal_tokens proofs es =
     rbind (ok_or (Serialization ''reveal phase is NONE'') (reveal_token_state t)) (\<lambda>rv.
     rbind (require (\<not> length reveal_tokens \<noteq> length proofs) ''reveal_tokens/proofs length mismatch'') (\<lambda>_.
     rbind (require (\<not> reveal_tokens = []) ''reveal token submission must not be empty'') (\<lambda>_.
     rbind (idx (t_seats t) seat_index) (\<lambda>s.
     rbind (require (is_occupied s) ''seat not occupied'') (\<lambda>_.
     let indices = map fst (filter (\<lambda>(_, a). seat_mask_contains (ra_pending_mask a) seat_index)
                     (enumerate 0 (rv_assignments rv))) in
     rbind (require (\<not> length indices \<noteq> length reveal_tokens)
              ''reveal submission must contain every pending assignment in canonical order'') (\<lambda>_.
     rbind (ok_or (Serialization ''reveal seat has no live key'') (seat_pk s)) (\<lambda>expected_pk.
     rbind (foldM (submit_one_token L (reveal_phase t) seat_index expected_pk) (t, es)
              (zip indices (zip reveal_tokens proofs))) (\<lambda>(t1, es1).
     rbind (materialize_completed_reveal_assignments L t1 es1) (\<lambda>(t2, es2).
     check_reveal_phase_complete L t2 es2)))))))))"

section \<open>Reconstruction\<close>

definition rebuild_deck_from_reconstruct_deck :: "'p table \<Rightarrow> (l1_error, 'p table) outcome" where
  "rebuild_deck_from_reconstruct_deck t =
     rbind (ok_or (Serialization ''rebuild_deck V3 requires at least one verified contribution'')
              (rs_accumulated_deck (reconstruct_state_of t))) (\<lambda>new_cts.
     rbind (require (\<not> length new_cts \<noteq> 52) ''rebuild_deck V3 accumulator has wrong size'') (\<lambda>_.
     rbind (cipher_deck new_cts) (\<lambda>deck.
     Inr (t\<lparr>t_deck_state := (t_deck_state t)\<lparr>ds_encrypted := deck, ds_cards_dealt := 0\<rparr>\<rparr>))))"

text \<open>
  \<open>start_reconstruct\<close> reads \<open>table.round_state()\<close> after \<open>take_reveal_payload\<close> has put the table back
  to the waiting phase.
\<close>

definition start_reconstruct :: "'p table \<Rightarrow> nat \<Rightarrow> table_event list \<Rightarrow> 'p table_result" where
  "start_reconstruct t now_ms es =
     rbind (checked (checked_add_u64 now_ms (tc_reconstruct_ms (timeouts t)))
              ''reconstruct deadline overflows u64'') (\<lambda>_.
     let active_seats = get_active_seat_indices (t_seats t);
         active_mask = get_active_seat_mask (t_seats t) in
     rbind (take_reveal_payload t) (\<lambda>(suspended_reveal, t1).
     rbind (enter_reconstructing t1 (round_state t1)
              \<lparr>rs_pending_mask = active_mask, rs_accumulated_deck = None\<rparr> suspended_reveal now_ms) (\<lambda>t2.
     Inr (t2, es @ [ProtoEv (ReconstructInitiated (t_id t2) active_seats (round_state t2))]))))"

definition on_complete_reconstruct :: "'p table \<Rightarrow> table_event list \<Rightarrow> 'p table_result" where
  "on_complete_reconstruct t es =
     rbind (rebuild_deck_from_reconstruct_deck t) (\<lambda>t1.
     let es1 = es @ [ProtoEv (ReconstructComplete (t_id t1)),
                     ProtoEv (DeckRebuilt (t_id t1) DECK_REBUILT_REASON_RECONSTRUCT_COMPLETE
                                (length (ds_encrypted (t_deck_state t1))))];
         active = get_active_seat_mask (t_seats t1); street = round_state t1 in
     rbind (take_reveal_payload t1) (\<lambda>(suspended_reveal, t2).
     rbind (enter_reconstruct_shuffling t2 street
              \<lparr>sh_pending_mask = active, sh_completed_mask = 0\<rparr> suspended_reveal 0) (\<lambda>t3.
     advance_shuffle t3 es1)))"

definition reconstruction_v3_user_readable_cards :: "'p table \<Rightarrow> nat \<Rightarrow> 'p ciphertext list" where
  "reconstruction_v3_user_readable_cards t seat_index =
     map (\<lambda>(_, c). ph_ciphertext c) (ledger_iter_for_seat (ds_hole_ledger (t_deck_state t)) seat_index)"

text \<open>\<open>blake2b_256\<close> of \<^verbatim>\<open>utils.rs\<close> puts the length of its payload in front of it.\<close>

definition blake2b_256 :: "'p poker_lib \<Rightarrow> byte list \<Rightarrow> byte list" where
  "blake2b_256 L payload = lib_blake2b L (u64_le (length payload) @ payload)"

definition reconstruction_v3_context_digest :: "'p poker_lib \<Rightarrow> 'p table \<Rightarrow> byte list" where
  "reconstruction_v3_context_digest L t =
     blake2b_256 L (map of_char ''zchain.texas_poker.reconstruction_v3.context.v1'' @ t_id t @
                    u32_le (t_hand_id t) @ map of_char ''bls12-381-g1'')"

definition reconstruction_v3_prior_state_digest ::
  "'p poker_lib \<Rightarrow> 'p table \<Rightarrow> nat \<Rightarrow> (l1_error, byte list) outcome" where
  "reconstruction_v3_prior_state_digest L t seat_index =
     rbind (derived_aggregated_pk L t) (\<lambda>agg.
     rbind (ok_or (Serialization ''reconstruction V3 prior state requires aggregate public key'') agg) (\<lambda>aggregate_pk.
     rbind (ok_or (Serialization ''reconstruction V3 prior state requires an active reconstruct epoch'')
              (case t_hand_phase t of Reconstructing _ _ _ e _ \<Rightarrow> Some e | _ \<Rightarrow> None)) (\<lambda>epoch.
     let cards = generate_plaintext_cards L;
         readable = ledger_iter_for_seat (ds_hole_ledger (t_deck_state t)) seat_index in
     rbind (require (\<not> readable = [])
              ''reconstruction V3 requires an authenticated previous-round readable hand'') (\<lambda>_.
     Inr (blake2b_256 L
       (map of_char ''zchain.texas_poker.reconstruction_v3.prior_state.v2'' @ t_id t @
        u32_le (t_hand_id t) @ [of_nat seat_index] @ u64_le epoch @ lib_compress L aggregate_pk @
        u32_le (length cards) @ concat (map (lib_compress L) cards) @ u32_le (length readable) @
        concat (map (\<lambda>(card_slot, c).
          [of_nat card_slot, of_nat (ph_card_index c)] @ lib_compress L (ct_c1 (ph_ciphertext c)) @
          lib_compress L (ct_c2 (ph_ciphertext c))) readable)))))))"

definition apply_submit_reconstruct_deck ::
  "'p poker_lib \<Rightarrow> 'p table \<Rightarrow> nat \<Rightarrow> 'p reconstruct_statement \<Rightarrow> byte list \<Rightarrow> table_event list \<Rightarrow> 'p table_result" where
  "apply_submit_reconstruct_deck L t seat_index statement proof es =
     rbind (require (is_reconstructing t) ''reconstruct not in COLLECTING phase'') (\<lambda>_.
     rbind (idx (t_seats t) seat_index) (\<lambda>s.
     rbind (require (is_occupied s) ''seat not occupied'') (\<lambda>_.
     rbind (require (seat_mask_contains (rs_pending_mask (reconstruct_state_of t)) seat_index)
              ''seat not in reconstruct pending'') (\<lambda>_.
     rbind (derived_aggregated_pk L t) (\<lambda>agg.
     rbind (ok_or (Serialization ''reconstruction V3 requires aggregate public key'') agg) (\<lambda>aggregate_pk.
     rbind (ok_or (Serialization ''reconstruct seat has no live key'') (seat_pk s)) (\<lambda>owner_pk.
     let cards = generate_plaintext_cards L in
     rbind (reconstruction_v3_prior_state_digest L t seat_index) (\<lambda>prior_digest.
     rbind (ok_or (Serialization ''reconstruction epoch is unavailable outside phase'')
              (case t_hand_phase t of Reconstructing _ _ _ e _ \<Rightarrow> Some e | _ \<Rightarrow> None)) (\<lambda>epoch.
     rbind (require (\<not> (rst_aggregate_pk statement \<noteq> aggregate_pk \<or> rst_owner_pk statement \<noteq> owner_pk \<or>
               rst_cards statement \<noteq> cards \<or>
               rst_readable statement \<noteq> reconstruction_v3_user_readable_cards t seat_index \<or>
               rst_context_digest statement \<noteq> reconstruction_v3_context_digest L t \<or>
               rst_prior_state_digest statement \<noteq> prior_digest \<or> rst_epoch statement \<noteq> epoch))
              ''reconstruction V3 statement does not match authenticated table state'') (\<lambda>_.
     rbind (require (lib_reconstruct_verify L proof statement) ''reconstruction V3 proof'') (\<lambda>_.
     rbind (case rs_accumulated_deck (reconstruct_state_of t) of
              Some deck \<Rightarrow> Inr deck
            | None \<Rightarrow> ok_or (Serialization ''reconstruction V3 base deck'') (lib_base_deck L cards aggregate_pk)) (\<lambda>prior.
     rbind (ok_or (Serialization ''reconstruction V3 contribution'')
              (lib_apply_contributions L prior (rst_contributions statement))) (\<lambda>accumulated.
     rbind (set_reconstruct_state t
              \<lparr>rs_pending_mask = seat_mask_remove (rs_pending_mask (reconstruct_state_of t)) seat_index,
               rs_accumulated_deck = Some accumulated\<rparr>) (\<lambda>t1.
     let es1 = es @ [ProtoEv (ReconstructDeckSubmitted (t_id t1) seat_index)] in
     if rs_pending_mask (reconstruct_state_of t1) = 0 then on_complete_reconstruct t1 es1
     else Inr (t1, es1)))))))))))))))"

section \<open>Starting a hand\<close>

definition start_hand :: "'p poker_lib \<Rightarrow> 'p table \<Rightarrow> table_event list \<Rightarrow> 'p table_result" where
  "start_hand L t es =
     rbind (require (\<not> round_state t \<noteq> ROUND_WAITING) ''not in WAITING state'') (\<lambda>_.
     rbind (require (\<not> count_active_occupied (t_seats t) < MIN_PLAYERS_TO_START)
              ''active players < MIN_PLAYERS_TO_START'') (\<lambda>_.
     rbind (move_button t) (\<lambda>t1.
     rbind (set_initial_encrypted_deck L t1) (\<lambda>t2.
     rbind (enter_initial_shuffling t2
              \<lparr>sh_pending_mask = get_pending_seat_mask 0 (t_seats t2), sh_completed_mask = 0\<rparr> 0) (\<lambda>t3.
     advance_shuffle t3
       (es @ [HandEv (HandStarted (t_id t3) (t_button t3) (small_blind t3) (big_blind t3)
                        (get_active_seat_indices (t_seats t3)))]))))))"

section \<open>Kicks and refunds\<close>

definition refund_all_bets :: "'p table \<Rightarrow> table_event list \<Rightarrow> 'p table_result" where
  "refund_all_bets t es =
     rbind (foldM (\<lambda>(seats, es) (i, s).
         rbind (if is_occupied s \<and> \<not> is_folded s \<and> \<not> has_left_hand s \<and> seat_total_bet s > 0 then
                  rbind (checked (checked_add_u64 (seat_stack s) (seat_total_bet s))
                           ''refund_all_bets: stack += total_bet overflow'') (\<lambda>post_stack.
                  rbind (set_stack s post_stack) (\<lambda>s1.
                  Inr (s1, es @ [SeatEv (PlayerRefund (t_id t) i (seat_player s1) (seat_total_bet s)
                                           REFUND_TYPE_BET_ONLY)])))
                else Inr (s, es)) (\<lambda>(s1, es1).
         rbind (set_bet s1 0) (\<lambda>s2.
         rbind (set_total_bet s2 0) (\<lambda>s3. Inr (seats @ [s3], es1)))))
       ([], es) (enumerate 0 (t_seats t))) (\<lambda>(seats, es').
     Inr (t\<lparr>t_seats := seats, t_pot := 0\<rparr>, es'))"

text \<open>
  \<open>kick_player_internal_in_place\<close>, in three parts: the seat leaves with its refund, the active phase
  forgets it and moves on, and a table with one player left ends the hand.
\<close>

definition kick_seat :: "'p table \<Rightarrow> nat \<Rightarrow> 'p seat \<Rightarrow> table_event list \<Rightarrow> 'p table_result" where
  "kick_seat t i s es =
     rbind (checked (checked_add_u64 (seat_stack s) (seat_pending_addon s)) ''kick_player: refund overflow'') (\<lambda>refund_amt.
     rbind (checked (checked_add_u64 (t_pot t) (seat_bet s)) ''kick_player: pot overflow'') (\<lambda>post_pot.
     rbind (checked (checked_sub_u64 (t_chip_pool t) refund_amt) ''kick_player: chip_pool underflow'') (\<lambda>post_pool.
     rbind (depart_this_hand s) (\<lambda>s'.
     let t1 = put_seat (t\<lparr>t_pot := post_pot\<rparr>) i s';
         t2 = set_seat_wants_leave (set_seat_acted_this_round t1 i False) i False;
         t3 = put_contributors t2 (seat_mask_remove (ds_contributor_mask (t_deck_state t2)) i) in
     Inr (if refund_amt > 0 then
            (t3\<lparr>t_chip_pool := post_pool\<rparr>,
             es @ [SeatEv (PlayerRefund (t_id t) i (seat_player s) refund_amt REFUND_TYPE_STACK_ONLY)])
          else (t3, es))))))"

definition kick_aftermath :: "'p poker_lib \<Rightarrow> 'p table \<Rightarrow> table_event list \<Rightarrow> 'p table_result" where
  "kick_aftermath L t es =
     (let active = count_active_players (t_seats t) in
      if active < MIN_PLAYERS_TO_START then
        (if active = 1 \<and> is_betting_round t then end_without_showdown L t es
         else reset_for_next_hand L t es)
      else Inr (t, es))"

definition kick_player_internal ::
  "'p poker_lib \<Rightarrow> 'p table \<Rightarrow> nat \<Rightarrow> kick_cause \<Rightarrow> table_event list \<Rightarrow> 'p table_result" where
  "kick_player_internal L t seat_index reason es =
     rbind (require (\<not> seat_index \<ge> max_players t) ''kick_player: seat_index out of range'') (\<lambda>_.
     rbind (idx (t_seats t) seat_index) (\<lambda>s.
     if \<not> is_occupied s then Inr (t, es)
     else
       let was_current_shuffler = (derived_current_shuffler (shuffle_state_of t) = seat_index);
           was_current_turn = (current_turn t = seat_index \<and> is_betting_round t) in
       rbind (kick_seat t seat_index s es) (\<lambda>(t1, es1).
       rbind (remove_seat_from_active_phase t1 seat_index) (\<lambda>t2.
       let es2 = es1 @ [SeatEv (PlayerKicked (t_id t2) seat_index (seat_player s) reason)] in
       rbind (if was_current_shuffler \<and> shuffle_phase t2 \<noteq> SHUFFLE_PHASE_NONE then advance_shuffle t2 es2
              else Inr (t2, es2)) (\<lambda>(t3, es3).
       if was_current_turn \<and> is_betting_round t3 then
         (if count_active_players (t_seats t3) \<le> 1 then end_without_showdown L t3 es3
          else rbind (advance_turn L t3 es3) (\<lambda>(t4, es4). kick_aftermath L t4 es4))
       else kick_aftermath L t3 es3)))))"

section \<open>Showdown\<close>

definition snapshot_of :: "'p table \<Rightarrow> table_snapshot" where
  "snapshot_of t =
     \<lparr>ts_seat_count = length (t_seats t), ts_button = t_button t,
      ts_total_bets = map seat_total_bet (t_seats t),
      ts_inactive = map (\<lambda>s. \<not> is_occupied s \<or> is_folded s \<or> has_left_hand s) (t_seats t),
      ts_all_in = map is_all_in (t_seats t),
      ts_hole_cards = map (\<lambda>s. case seat_hand s of None \<Rightarrow> [] | Some h \<Rightarrow> as_slice h) (t_seats t),
      ts_rake_mode = tr_rake_mode (t_rules t), ts_rake_bps = tr_rake_bps (t_rules t),
      ts_rake_cap = tr_rake_cap (t_rules t)\<rparr>"

text \<open>
  The checks on the boards and on the exposed cards that this crate repeats, with messages of its
  own, before it calls the shared derivation.
\<close>

definition unseen :: "string \<Rightarrow> nat list \<Rightarrow> nat \<Rightarrow> (l1_error, nat list) outcome" where
  "unseen msg seen c = rbind (require (\<not> c \<in> set seen) msg) (\<lambda>_. Inr (c # seen))"

definition l1_boards_validate :: "settlement_boards \<Rightarrow> (l1_error, unit) outcome" where
  "l1_boards_validate b =
     rbind (require (\<not> length (board1 b) \<noteq> 5) ''settlement: board 1 must contain exactly 5 cards'') (\<lambda>_.
     rbind (case b of
              TwiceBoards start b1 b2 \<Rightarrow>
                rbind (require (\<not> length b2 \<noteq> 5) ''settlement: board 2 must contain exactly 5 cards'') (\<lambda>_.
                let shared = rit_shared_board_len start in
                require (\<not> take shared b1 \<noteq> take shared b2)
                  ''settlement: runout boards disagree on their shared prefix'')
            | SingleBoard _ \<Rightarrow> Inr ()) (\<lambda>_.
     rbind (require (\<not> list_ex (\<lambda>c. \<not> card_is_valid c) (board1 b @ board2 b))
              ''settlement: runout contains an invalid card'') (\<lambda>_.
     rbind (foldM (unseen ''settlement: duplicate card within board 1'') [] (board1 b)) (\<lambda>seen.
     case b of
       TwiceBoards start _ b2 \<Rightarrow>
         rbind (foldM (unseen ''settlement: duplicate non-shared card across runouts'') seen
                  (drop (rit_shared_board_len start) b2)) (\<lambda>_. Inr ())
     | SingleBoard _ \<Rightarrow> Inr ()))))"

definition l1_validate_exposed_cards :: "'p table \<Rightarrow> settlement_boards \<Rightarrow> (l1_error, unit) outcome" where
  "l1_validate_exposed_cards t b =
     rbind (foldM (\<lambda>seen s.
         if \<not> is_occupied s \<or> is_folded s \<or> has_left_hand s then Inr seen
         else
           rbind (ok_or (Serialization ''settlement: eligible seat has no in-hand payload'') (seat_hand s)) (\<lambda>h.
           rbind (require (\<not> (cs_len h \<noteq> 2 \<or> list_ex (\<lambda>c. \<not> card_is_valid c) (as_slice h)))
                    ''settlement: eligible seat must expose exactly two valid cards'') (\<lambda>_.
           foldM (unseen ''settlement: duplicate exposed hole card'') seen (as_slice h))))
       [] (t_seats t)) (\<lambda>seen.
     rbind (require (\<not> list_ex (\<lambda>c. c \<in> set seen) (board1 b))
              ''settlement: board card duplicates an exposed hole card'') (\<lambda>_.
     if runout_count b = 2 then
       require (\<not> list_ex (\<lambda>c. c \<in> set seen) (drop (shared_board_len b) (board2 b)))
         ''settlement: second board duplicates an exposed hole card''
     else Inr ()))"

text \<open>
  \<open>derive_settlement_plan_for_boards\<close>: the projection to the snapshot of the shared crate, and the
  check that the contributions are the pot.
\<close>

definition derive_plan_for_boards :: "'p table \<Rightarrow> settlement_boards \<Rightarrow> (l1_error, settlement_plan) outcome" where
  "derive_plan_for_boards t b =
     rbind (l1_boards_validate b) (\<lambda>_.
     rbind (require (\<not> length (t_seats t) > SETTLEMENT_SEATS) ''settlement: table exceeds MAX_PLAYERS'') (\<lambda>_.
     rbind (l1_validate_exposed_cards t b) (\<lambda>_.
     rbind (map_err SettlementFailed (derive_settlement_plan (snapshot_of t) b)) (\<lambda>plan.
     rbind (require (\<not> pl_gross_pot plan \<noteq> t_pot t)
              ''settlement: contribution total does not match table pot'') (\<lambda>_.
     Inr plan)))))"

definition winner_events :: "'p table \<Rightarrow> settlement_plan \<Rightarrow> table_event list" where
  "winner_events t plan =
     concat (map (\<lambda>pot. concat (map (\<lambda>runout.
         concat (map (\<lambda>i. if rp_awards runout ! i = 0 then []
             else [HandEv (WinnerAwarded (t_id t) i (seat_player (t_seats t ! i)) (rp_awards runout ! i)
                     (if pp_pot_index pot = 0 then POT_TYPE_MAIN else POT_TYPE_SIDE)
                     (map_option category (rp_ranks runout ! i)))])
           [0..<length (t_seats t)]))
       (take (schedule_count (pl_schedule plan)) (pp_runouts pot)))) (pl_pots plan))"

definition apply_settlement_plan ::
  "'p poker_lib \<Rightarrow> 'p table \<Rightarrow> settlement_plan \<Rightarrow> table_event list \<Rightarrow> 'p table_result" where
  "apply_settlement_plan L t plan es =
     rbind (map_err SettlementFailed (validate plan (length (t_seats t)))) (\<lambda>_.
     rbind (require (\<not> t_pot t \<noteq> pl_gross_pot plan) ''settlement: plan gross pot does not match table pot'') (\<lambda>_.
     rbind (checked (checked_sub_u64 (t_chip_pool t) (pl_rake plan)) ''settlement: rake exceeds TableVault'') (\<lambda>post_pool.
     rbind (foldM (\<lambda>stacks (i, s).
         rbind (idx (pl_awards plan) i) (\<lambda>a.
         rbind (checked (checked_add_u64 (seat_stack s) a) ''settlement: seat stack award overflow'') (\<lambda>n.
         Inr (stacks @ [n])))) [] (enumerate 0 (t_seats t))) (\<lambda>post_stacks.
     rbind (foldM (\<lambda>seats (s, n). rbind (set_stack s n) (\<lambda>s'. Inr (seats @ [s']))) []
              (zip (t_seats t) post_stacks)) (\<lambda>seats.
     let t' = t\<lparr>t_chip_pool := post_pool, t_seats := seats, t_pot := 0\<rparr> in
     Inr (t', es @
       [HandEv (SettlementPlanCommitted (t_id t') (plan_digest (lib_borsh_plan L) (lib_blake2b L) plan)
                  (schedule_count (pl_schedule plan)) (pl_gross_pot plan) (pl_rake plan)
                  (pl_total_awards plan))] @
       (if pl_rake plan > 0 then
          [HandEv (RakeCollected (t_id t') (pl_gross_pot plan) (pl_rake plan) (pl_total_awards plan)
                     (tr_rake_mode (t_rules t')))] else []) @
       winner_events t' plan @
       [HandEv (HandSettled (t_id t') (pl_gross_pot plan)
                  (filter (\<lambda>i. pl_winner_mask plan AND seat_mask_bit i \<noteq> 0) [0..<length (t_seats t')]))]))))))"

definition settle_hand :: "'p poker_lib \<Rightarrow> 'p table \<Rightarrow> table_event list \<Rightarrow> 'p table_result" where
  "settle_hand L t es =
     (if round_state t \<noteq> ROUND_SHOWDOWN then Inr (t, es)
      else if reveal_token_state t \<noteq> None then Inr (t, es)
      else
        rbind (case t_rit_state t of
                 RitTwice start sfx \<Rightarrow>
                   rbind (full_second_board (t_rit_state t) (t_community_cards t)) (\<lambda>second_board.
                   derive_plan_for_boards t (TwiceBoards start (as_slice (t_community_cards t)) second_board))
               | RitSingle \<Rightarrow> derive_plan_for_boards t (SingleBoard (as_slice (t_community_cards t)))) (\<lambda>plan.
        rbind (apply_settlement_plan L t plan es) (\<lambda>(t1, es1).
        reset_for_next_hand L t1 es1)))"

section \<open>Timeouts\<close>

definition all_pending :: "'p table \<Rightarrow> mask16" where
  "all_pending t = foldl (\<lambda>m a. m OR ra_pending_mask a) 0 (reveal_assignments t)"

abbreviation hand_reset :: "nat \<Rightarrow> 'p table \<times> table_event list \<Rightarrow> 'p table \<times> table_event list" where
  "hand_reset reason r \<equiv>
     (fst r, snd r @ [HandEv (HandReset (t_id (fst r)) reason (round_state (fst r)))])"

definition on_reconstruct_timeout ::
  "'p poker_lib \<Rightarrow> 'p table \<Rightarrow> nat \<Rightarrow> table_event list \<Rightarrow> 'p table_result" where
  "on_reconstruct_timeout L t now_ms es =
     (let pending = seat_mask_to_indices (rs_pending_mask (reconstruct_state_of t)) (max_players t) in
      rbind (foldM (\<lambda>(t, es) seat. kick_player_internal L t seat KickReconstructTimeout es)
               (t, es @ [ProtoEv (ReconstructTimeout (t_id t) pending)]) pending) (\<lambda>(t1, es1).
      let active = count_active_players (t_seats t1) in
      if active = 0 then
        rbind (refund_all_bets t1 es1) (\<lambda>(t2, es2). reset_for_next_hand L t2 es2)
      else if active = 1 then end_without_showdown L t1 es1
      else if rs_accumulated_deck (reconstruct_state_of t1) \<noteq> None then on_complete_reconstruct t1 es1
      else
        rbind (refund_all_bets t1 es1) (\<lambda>(t2, es2).
        rbind (reset_for_next_hand L t2 es2) (\<lambda>r. Inr (hand_reset RESET_REASON_RECONSTRUCT_FAIL r)))))"

definition on_shuffle_timeout ::
  "'p poker_lib \<Rightarrow> 'p table \<Rightarrow> table_event list \<Rightarrow> 'p table_result" where
  "on_shuffle_timeout L t es =
     (let seat = derived_current_shuffler (shuffle_state_of t); ph = shuffle_phase t in
      rbind (ok_or (Serialization ''shuffle timeout requires an active deadline'') (shuffle_deadline_ms t)) (\<lambda>deadline_ms.
      rbind (checked (checked_sub_u64 deadline_ms (tc_shuffle_ms (timeouts t)))
               ''shuffle deadline is earlier than its configured timeout'') (\<lambda>started_at.
      rbind (kick_player_internal L t seat KickTimeout
               (es @ [ProtoEv (ShuffleTimeout (t_id t) seat ph started_at (tc_shuffle_ms (timeouts t)))])) (\<lambda>(t1, es1).
      let active = count_active_players (t_seats t1) in
      if active = 0 then
        rbind (refund_all_bets t1 es1) (\<lambda>(t2, es2). reset_for_next_hand L t2 es2)
      else if active = 1 then end_without_showdown L t1 es1
      else if shuffle_phase t1 = SHUFFLE_PHASE_NONE then Inr (t1, es1)
      else
        rbind (rebuild_deck_and_shuffle_on_timeout L t1 ph es1) (\<lambda>(t2, es2). advance_shuffle t2 es2)))))"

definition on_reveal_timeout ::
  "'p poker_lib \<Rightarrow> 'p table \<Rightarrow> nat \<Rightarrow> table_event list \<Rightarrow> 'p table_result" where
  "on_reveal_timeout L t now_ms es =
     (let ph = reveal_phase t; pending = seat_mask_to_indices (all_pending t) (max_players t) in
      rbind (foldM (\<lambda>(t, es) seat. kick_player_internal L t seat KickTimeout es)
               (t, es @ [ProtoEv (RevealTimeout (t_id t) ph pending)]) pending) (\<lambda>(t1, es1).
      let active = count_active_players (t_seats t1) in
      if active = 0 then
        rbind (refund_all_bets t1 es1) (\<lambda>(t2, es2).
        rbind (reset_for_next_hand L t2 es2) (\<lambda>r. Inr (hand_reset RESET_REASON_TIMEOUT r)))
      else if active = 1 then end_without_showdown L t1 es1
      else if ph = REVEAL_PHASE_PREFLOP then
        rbind (reset_for_next_hand L t1 es1) (\<lambda>r. Inr (hand_reset RESET_REASON_TIMEOUT r))
      else start_reconstruct t1 now_ms es1))"

definition on_betting_timeout :: "'p poker_lib \<Rightarrow> 'p table \<Rightarrow> table_event list \<Rightarrow> 'p table_result" where
  "on_betting_timeout L t es = apply_fold_internal L t (current_turn t) FOLD_REASON_AUTO_TIMEOUT es"

section \<open>Normalisation\<close>

definition MAX_NORMALIZATION_STEPS :: nat where "MAX_NORMALIZATION_STEPS = 32"

datatype normalization_step =
  CompleteReconstruct | AdvanceShuffle | CompleteReveal | EndWithoutShowdown | AdvanceBettingRound

definition next_normalization_step :: "'p table \<Rightarrow> (l1_error, normalization_step option) outcome" where
  "next_normalization_step t =
     (if is_reconstructing t then
        (if rs_pending_mask (reconstruct_state_of t) \<noteq> 0 then Inr None
         else if rs_accumulated_deck (reconstruct_state_of t) = None
           then fail ''normalize: completed reconstruct has no player contribution''
         else Inr (Some CompleteReconstruct))
      else if shuffle_phase t \<in> {SHUFFLE_PHASE_RECONSTRUCT, SHUFFLE_PHASE_BEFORE_PREFLOP} then
        (if sh_pending_mask (shuffle_state_of t) = 0 then Inr (Some AdvanceShuffle) else Inr None)
      else if reveal_token_state t \<noteq> None then
        (if list_all (\<lambda>a. ra_pending_mask a = 0) (reveal_assignments t) \<and>
            \<not> list_all is_ready (reveal_assignments t)
           then fail ''normalize: reveal assignment has no pending seat but is not resolved''
         else if list_all is_ready (reveal_assignments t) then Inr (Some CompleteReveal) else Inr None)
      else if is_betting_round t then
        (if count_active_players (t_seats t) \<le> 1 then Inr (Some EndWithoutShowdown)
         else if current_turn t = NO_SEAT \<or> is_betting_complete t \<or> no_further_betting_possible t
           then Inr (Some AdvanceBettingRound)
         else Inr None)
      else if round_state t = ROUND_SHOWDOWN then Inr None
      else if round_state t \<in> {ROUND_PREFLOP, ROUND_FLOP, ROUND_TURN, ROUND_RIVER}
        then fail ''normalize: round has no betting, reveal, shuffle, or reconstruct phase''
      else Inr None)"

definition run_normalization_step ::
  "'p poker_lib \<Rightarrow> normalization_step \<Rightarrow> 'p table \<Rightarrow> table_event list \<Rightarrow> 'p table_result" where
  "run_normalization_step L step t es =
     (case step of
        CompleteReconstruct \<Rightarrow> on_complete_reconstruct t es
      | AdvanceShuffle \<Rightarrow> advance_shuffle t es
      | CompleteReveal \<Rightarrow> check_reveal_phase_complete L t es
      | EndWithoutShowdown \<Rightarrow> end_without_showdown L t es
      | AdvanceBettingRound \<Rightarrow> rbind (collect_bets_to_pot t es) (\<lambda>(t1, es1). advance_round L t1 es1))"

text \<open>The loop, with the number of steps still allowed.\<close>

fun normalize_loop ::
  "'p poker_lib \<Rightarrow> nat \<Rightarrow> nat \<Rightarrow> normalization_step list \<Rightarrow> 'p table \<Rightarrow> table_event list \<Rightarrow>
   (l1_error, normalization_step list \<times> 'p table \<times> table_event list) outcome" where
  "normalize_loop L now_ms 0 steps t es = fail ''normalize: exceeded deterministic stages''"
| "normalize_loop L now_ms (Suc n) steps t es =
     rbind (next_normalization_step t) (\<lambda>found.
     case found of
       None \<Rightarrow> Inr (steps, t, es)
     | Some step \<Rightarrow>
         rbind (run_normalization_step L step t es) (\<lambda>(t1, es1).
         rbind (require (\<not> t1 = t) ''normalize: stage made no progress'') (\<lambda>_.
         rbind (arm_active_deadline_if_needed t1 now_ms) (\<lambda>t2.
         rbind (validate_state_schema L t2) (\<lambda>_.
         rbind (canonical_hand_phase t2) (\<lambda>_.
         normalize_loop L now_ms n (steps @ [step]) t2 es1))))))"

definition normalize_until_blocked ::
  "'p poker_lib \<Rightarrow> 'p table \<Rightarrow> nat \<Rightarrow> table_event list \<Rightarrow>
   (l1_error, normalization_step list \<times> 'p table \<times> table_event list) outcome" where
  "normalize_until_blocked L t now_ms es =
     rbind (arm_active_deadline_if_needed t now_ms) (\<lambda>t1.
     rbind (validate_state_schema L t1) (\<lambda>_.
     normalize_loop L now_ms MAX_NORMALIZATION_STEPS [] t1 es))"

section \<open>The deadline of a table\<close>

datatype deadline_kind = DlReconstruct | DlShuffle | DlReveal | DlBetting | DlShowdownDisplay

datatype deadline_outcome =
    NoDeadline
  | NotDue deadline_kind nat nat
  | TimeBankExtended nat nat
  | Advanced deadline_kind nat

text \<open>
  The branches of \<open>advance_deadline_in_place\<close> share this shape: not due yet, or the timeout and a
  normalisation after it.
\<close>

definition due ::
  "'p poker_lib \<Rightarrow> nat \<Rightarrow> deadline_kind \<Rightarrow> nat \<Rightarrow> nat \<Rightarrow> 'p table \<Rightarrow> table_event list \<Rightarrow> 'p table_result \<Rightarrow>
   (l1_error, deadline_outcome \<times> 'p table \<times> table_event list) outcome" where
  "due L now_ms kind subject deadline_ms t es timeout =
     (if now_ms < deadline_ms then Inr (NotDue kind subject deadline_ms, t, es)
      else
        rbind timeout (\<lambda>(t1, es1).
        rbind (normalize_until_blocked L t1 now_ms es1) (\<lambda>(_, t2, es2).
        Inr (Advanced kind subject, t2, es2))))"

definition betting_due ::
  "'p poker_lib \<Rightarrow> nat \<Rightarrow> nat \<Rightarrow> nat \<Rightarrow> 'p table \<Rightarrow> table_event list \<Rightarrow>
   (l1_error, deadline_outcome \<times> 'p table \<times> table_event list) outcome" where
  "betting_due L now_ms subject deadline_ms t es =
     (if now_ms < deadline_ms then Inr (NotDue DlBetting subject deadline_ms, t, es)
      else
        rbind (idx (t_seats t) subject) (\<lambda>s.
        if seat_time_bank_ms s > 0 then
          let consume = min (seat_time_bank_ms s) (tc_betting_ms (timeouts t)) in
          rbind (consume_time_bank t subject consume es) (\<lambda>(t1, es1).
          rbind (extend_betting_deadline t1 consume) (\<lambda>(d, t2).
          Inr (TimeBankExtended subject d, t2, es1)))
        else due L now_ms DlBetting subject deadline_ms t es (on_betting_timeout L t es)))"

definition advance_deadline ::
  "'p poker_lib \<Rightarrow> 'p table \<Rightarrow> nat \<Rightarrow> table_event list \<Rightarrow>
   (l1_error, deadline_outcome \<times> 'p table \<times> table_event list) outcome" where
  "advance_deadline L t0 now_ms es0 =
     rbind (validate_state_schema L t0) (\<lambda>_.
     rbind (normalize_until_blocked L t0 now_ms es0) (\<lambda>(_, t, es).
     if is_reconstructing t then
       rbind (reconstruct_deadline_ms t) (\<lambda>d.
       rbind (ok_or (Serialization ''reconstruct phase has no deadline projection'') d) (\<lambda>deadline_ms.
       due L now_ms DlReconstruct NO_SEAT deadline_ms t es (on_reconstruct_timeout L t now_ms es)))
     else if shuffle_phase t = SHUFFLE_PHASE_RECONSTRUCT \<or> shuffle_phase t = SHUFFLE_PHASE_BEFORE_PREFLOP then
       rbind (ok_or (Serialization ''shuffle phase has no deadline projection'') (shuffle_deadline_ms t)) (\<lambda>deadline_ms.
       due L now_ms DlShuffle (derived_current_shuffler (shuffle_state_of t)) deadline_ms t es
         (on_shuffle_timeout L t es))
     else if reveal_token_state t \<noteq> None then
       rbind (ok_or (Serialization ''reveal phase has no deadline projection'') (reveal_deadline_ms t)) (\<lambda>deadline_ms.
       due L now_ms DlReveal (case seat_mask_first (all_pending t) of None \<Rightarrow> NO_SEAT | Some i \<Rightarrow> i)
         deadline_ms t es (on_reveal_timeout L t now_ms es))
     else if is_betting_round t then
       let subject = current_turn t in
       rbind (require (\<not> (subject = NO_SEAT \<or> subject \<ge> length (t_seats t)))
                ''advance_deadline: betting phase has no canonical current seat'') (\<lambda>_.
       rbind (ok_or (Serialization ''betting phase has no deadline projection'') (betting_deadline_ms t)) (\<lambda>deadline_ms.
       betting_due L now_ms subject deadline_ms t es))
     else if round_state t = ROUND_SHOWDOWN then
       rbind (ok_or (Serialization ''showdown phase has no deadline projection'') (showdown_deadline_ms t)) (\<lambda>deadline_ms.
       due L now_ms DlShowdownDisplay NO_SEAT deadline_ms t es (settle_hand L t es))
     else Inr (NoDeadline, t, es)))"

end
