(* ===== verification/Settlement.thy ===== *)
theory Settlement
  imports Derive
begin

text \<open>
  The properties of \<open>derive_settlement_plan\<close>: when it succeeds, that it conserves chips and takes
  the right rake, who wins and how the winners share, and what a folded or an all-in seat can get.
\<close>

section \<open>What one seat receives\<close>

definition pot_award :: "settlement_pot_plan \<Rightarrow> nat \<Rightarrow> nat" where
  "pot_award pp j = sum_list (map (\<lambda>r. rp_awards r ! j) (pp_runouts pp))"

lemma add_pot_awards_nth:
  assumes "length aw = SETTLEMENT_SEATS" "\<forall>r \<in> set (pp_runouts pp). length (rp_awards r) = SETTLEMENT_SEATS"
    and "j < SETTLEMENT_SEATS"
  shows "length (add_pot_awards aw pp) = SETTLEMENT_SEATS \<and> add_pot_awards aw pp ! j = aw ! j + pot_award pp j"
proof -
  have "length (foldl (\<lambda>aw r. map2 (+) aw (rp_awards r)) aw rs) = SETTLEMENT_SEATS \<and>
      foldl (\<lambda>aw r. map2 (+) aw (rp_awards r)) aw rs ! j = aw ! j + sum_list (map (\<lambda>r. rp_awards r ! j) rs)"
    if "length aw = SETTLEMENT_SEATS" "\<forall>r \<in> set rs. length (rp_awards r) = SETTLEMENT_SEATS"
    for aw :: "nat list" and rs
    using that
  proof (induction rs arbitrary: aw)
    case (Cons r rs)
    then show ?case using Cons.IH[of "map2 (+) aw (rp_awards r)"] assms(3) by simp
  qed simp
  from this[OF assms(1,2)] show ?thesis by (simp add: add_pot_awards_def pot_award_def)
qed

lemma foldl_awards_nth:
  assumes "length aw = SETTLEMENT_SEATS" "j < SETTLEMENT_SEATS"
    and "\<forall>pp \<in> set pps. \<forall>r \<in> set (pp_runouts pp). length (rp_awards r) = SETTLEMENT_SEATS"
  shows "foldl add_pot_awards aw pps ! j = aw ! j + sum_list (map (\<lambda>pp. pot_award pp j) pps)"
  using assms
proof (induction pps arbitrary: aw)
  case (Cons pp pps)
  then show ?case using add_pot_awards_nth[of aw pp j] by simp
qed simp

lemma fair_split_nth:
  assumes "fair_split amount ws awards" "j < SETTLEMENT_SEATS"
  shows "awards ! j \<le> (if j \<in> set ws then amount else 0)"
proof (cases "j \<in> set ws")
  case True
  have "length awards = SETTLEMENT_SEATS" using assms(1) unfolding fair_split_def by blast
  then have "awards ! j \<le> sum_list awards" using assms(2) by (intro nth_le_sum) simp
  also have "sum_list awards = amount" using assms(1) unfolding fair_split_def by blast
  finally show ?thesis using True by simp
next
  case False
  then have "awards ! j = 0" using assms unfolding fair_split_def by blast
  then show ?thesis by simp
qed

lemma settled_nth:
  assumes "j < SETTLEMENT_SEATS"
  shows "runout_settled snapshot m cards amount r \<Longrightarrow> rp_awards r ! j \<le> (if bit m j then amount else 0)"
    and "runout_returned snapshot m amount r \<Longrightarrow> rp_awards r ! j \<le> (if bit m j then amount else 0)"
proof -
  assume r: "runout_settled snapshot m cards amount r"
  let ?ws = "winners_clockwise (rp_winner_mask r) (ts_button snapshot) (ts_seat_count snapshot)"
  have "rp_awards r ! j \<le> (if j \<in> set ?ws then amount else 0)"
    using r by (intro fair_split_nth[OF _ assms]) (simp add: runout_settled_def)
  moreover have "j \<in> set ?ws \<Longrightarrow> bit m j" using r by (auto simp: set_winners runout_settled_def wins_upto_def)
  ultimately show "rp_awards r ! j \<le> (if bit m j then amount else 0)" by (auto split: if_splits)
next
  assume r: "runout_returned snapshot m amount r"
  let ?ws = "winners_clockwise m (ts_button snapshot) (ts_seat_count snapshot)"
  have "rp_awards r ! j \<le> (if j \<in> set ?ws then amount else 0)"
    using r by (intro fair_split_nth[OF _ assms]) (simp add: runout_returned_def)
  then show "rp_awards r ! j \<le> (if bit m j then amount else 0)" by (auto simp: set_winners split: if_splits)
qed

lemma split_halves:
  "split_across_runouts a (runout_count b) ! 0 + split_across_runouts a (runout_count b) ! 1 = a"
  "runout_count b \<noteq> 2 \<Longrightarrow> split_across_runouts a (runout_count b) ! 0 = a"
  using runout_count_cases[of b] split_across_runouts_facts(2)[OF runout_count_cases[of b], of a]
  by (auto simp: split_across_runouts_def split: if_splits)

text \<open>The runouts of a settled pot, one by one.\<close>

lemma pot_settled_cases:
  assumes "pot_settled snapshot b i p rake pp"
  obtains (one) r0 where "pp_runouts pp = [r0, runout_inactive]" "contested p" "runout_count b = 1"
      "runout_settled snapshot (sp_eligible p) (board1 b) (sp_amount p - rake) r0"
    | (two) r0 r1 where "pp_runouts pp = [r0, r1]" "contested p" "runout_count b = 2"
      "runout_settled snapshot (sp_eligible p) (board1 b) (split_across_runouts (sp_amount p - rake) 2 ! 0) r0"
      "runout_settled snapshot (sp_eligible p) (board2 b) (split_across_runouts (sp_amount p - rake) 2 ! 1) r1"
    | (returned) r0 where "pp_runouts pp = [r0, runout_inactive]" "\<not> contested p"
      "runout_returned snapshot (sp_eligible p) (sp_amount p - rake) r0"
proof -
  from assms obtain r0 r1 where rs: "pp_runouts pp = [r0, r1]" by (auto simp: pot_settled_def)
  show thesis
  proof (cases "contested p")
    case True
    show thesis
    proof (cases "runout_count b = 2")
      case two': True
      then show thesis using assms True rs by (intro two[of r0 r1]) (simp_all add: pot_settled_def)
    next
      case False
      then have "runout_count b = 1" using runout_count_cases[of b] by simp
      then show thesis using assms True rs split_halves(2)[OF False, of "sp_amount p - rake"]
        by (intro one[of r0]) (simp_all add: pot_settled_def)
    qed
  next
    case False
    then show thesis using assms rs by (intro returned[of r0]) (simp_all add: pot_settled_def)
  qed
qed

lemma pot_award_le:
  assumes "pot_settled snapshot b i p rake pp" "j < SETTLEMENT_SEATS"
  shows "pot_award pp j \<le> (if bit (sp_eligible p) j then sp_amount p else 0)"
    and "\<forall>r \<in> set (pp_runouts pp). length (rp_awards r) = SETTLEMENT_SEATS"
proof -
  have zero: "rp_awards runout_inactive ! j = 0" using assms(2) by simp
  show "pot_award pp j \<le> (if bit (sp_eligible p) j then sp_amount p else 0)"
    using assms(1)
  proof (cases rule: pot_settled_cases)
    case (one r0)
    then show ?thesis using settled_nth(1)[OF assms(2) one(4)] zero by (auto simp: pot_award_def split: if_splits)
  next
    case (two r0 r1)
    have "split_across_runouts (sp_amount p - rake) 2 ! 0 + split_across_runouts (sp_amount p - rake) 2 ! 1 =
        sp_amount p - rake" using split_halves(1)[of "sp_amount p - rake" b] two(3) by simp
    then show ?thesis
      using settled_nth(1)[OF assms(2) two(4)] settled_nth(1)[OF assms(2) two(5)] two(1)
      by (simp add: pot_award_def split: if_splits)
  next
    case (returned r0)
    then show ?thesis
      using settled_nth(2)[OF assms(2) returned(3)] zero by (auto simp: pot_award_def split: if_splits)
  qed
  show "\<forall>r \<in> set (pp_runouts pp). length (rp_awards r) = SETTLEMENT_SEATS"
    using assms(1) by (cases rule: pot_settled_cases) (auto simp: settled_awards)
qed

lemma award_le_claimable:
  assumes "plan_spec snapshot b plan" "side_pots_of snapshot = Inr pots" "j < SETTLEMENT_SEATS"
  shows "pl_awards plan ! j \<le> claimable pots j"
proof -
  from assms(1,2) obtain rakes where len: "length (pl_pots plan) = length pots"
    and s: "\<forall>i < length pots. pot_settled snapshot b i (pots ! i) (rakes ! i) (pl_pots plan ! i)"
    and aw: "pl_awards plan = foldl add_pot_awards (replicate SETTLEMENT_SEATS 0) (pl_pots plan)"
    by (auto simp: plan_spec_def)
  have "\<forall>pp \<in> set (pl_pots plan). \<forall>r \<in> set (pp_runouts pp). length (rp_awards r) = SETTLEMENT_SEATS"
    using s pot_award_le(2)[OF _ assms(3)] len by (metis in_set_conv_nth)
  then have "pl_awards plan ! j = sum_list (map (\<lambda>pp. pot_award pp j) (pl_pots plan))"
    using foldl_awards_nth[of "replicate SETTLEMENT_SEATS 0" j "pl_pots plan"] assms(3) by (simp add: aw)
  also have "\<dots> \<le> sum_list (map (\<lambda>p. if bit (sp_eligible p) j then sp_amount p else 0) pots)"
  proof -
    have "list_all2 (\<lambda>x y. x \<le> y) (map (\<lambda>pp. pot_award pp j) (pl_pots plan))
        (map (\<lambda>p. if bit (sp_eligible p) j then sp_amount p else 0) pots)"
      unfolding list_all2_conv_all_nth using len pot_award_le(1)[OF s[rule_format] assms(3)] by simp
    then show ?thesis by (induction rule: list_all2_induct) auto
  qed
  also have "\<dots> = claimable pots j"
    by (induction pots) (auto simp: claimable_def pot_is_eligible_def is_eligible_bit)
  finally show ?thesis .
qed

lemma side_pots_unique: "plan_spec snapshot b plan \<Longrightarrow> side_pots_of snapshot = Inr pots \<Longrightarrow>
   \<exists>rakes. rake_split pots (pl_rake plan) rakes \<and> pl_rake plan = rake_spec snapshot (contested_sum pots) \<and>
     length (pl_pots plan) = length pots \<and>
     (\<forall>i < length pots. pot_settled snapshot b i (pots ! i) (rakes ! i) (pl_pots plan ! i))"
  by (auto simp: plan_spec_def)

lemma plan_pots:
  assumes "plan_spec snapshot b plan"
  obtains pots rakes where "side_pots_of snapshot = Inr pots" "rake_split pots (pl_rake plan) rakes"
    "pl_rake plan = rake_spec snapshot (contested_sum pots)" "length (pl_pots plan) = length pots"
    "\<forall>i < length pots. pot_settled snapshot b i (pots ! i) (rakes ! i) (pl_pots plan ! i)"
  using assms by (auto simp: plan_spec_def)

lemma plan_pot_settled:
  assumes "plan_spec snapshot b plan" "pp \<in> set (pl_pots plan)"
  obtains i p rake pots where "side_pots_of snapshot = Inr pots" "p \<in> set pots" "pot_settled snapshot b i p rake pp"
    "pp_eligible pp = sp_eligible p" "pp_net pp = sp_amount p - rake" "pot_is_contested pp \<longleftrightarrow> contested p"
proof -
  obtain pots rakes where p: "side_pots_of snapshot = Inr pots" "length (pl_pots plan) = length pots"
    "\<forall>i < length pots. pot_settled snapshot b i (pots ! i) (rakes ! i) (pl_pots plan ! i)"
    using plan_pots[OF assms(1)] by metis
  obtain i where i: "i < length pots" "pp = pl_pots plan ! i" using assms(2) p(2) by (metis in_set_conv_nth)
  then have s: "pot_settled snapshot b i (pots ! i) (rakes ! i) pp" using p(3) by simp
  show thesis
    by (rule that[OF p(1) _ s]) (use i s in \<open>auto simp: pot_settled_def pot_is_contested_def contested_def\<close>)
qed

lemma eligible_at_table:
  assumes "snapshot_ok snapshot b" "side_pots_of snapshot = Inr pots" "p \<in> set pots" "bit (sp_eligible p) j"
  shows "j < ts_seat_count snapshot" "0 < ts_total_bets snapshot ! j" "\<not> ts_inactive snapshot ! j"
  using sp.only_live[OF assms(2)[unfolded side_pots_of_def] assms(3,4)] assms(1)
  by (auto simp: snapshot_ok_def table_ok_def)

lemma settled_wins:
  assumes "runout_settled snapshot m cards amount r" "\<forall>j. bit m j \<longrightarrow> j < ts_seat_count snapshot"
  shows "bit (rp_winner_mask r) j \<longleftrightarrow>
     bit m j \<and> (\<forall>i. bit m i \<longrightarrow> seat_rank snapshot cards i \<le> seat_rank snapshot cards j)"
  using assms by (auto simp: runout_settled_def wins_upto_def)

section \<open>The example hand\<close>

text \<open>
  Four seats, one of them folded and one all in for less, run twice from the flop; the rake is 5
  percent of the contested chips.
\<close>

definition sample_snapshot :: table_snapshot where
  "sample_snapshot = \<lparr>ts_seat_count = 4, ts_button = 1, ts_total_bets = [50, 101, 101, 20],
     ts_inactive = [False, False, False, True], ts_all_in = [True, False, False, False],
     ts_hole_cards = [[12, 25], [10, 9], [23, 22], []],
     ts_rake_mode = 1, ts_rake_bps = 500, ts_rake_cap = 1000\<rparr>"

definition sample_boards :: settlement_boards where
  "sample_boards = TwiceBoards Flop [0, 14, 28, 42, 5] [0, 14, 28, 50, 46]"

lemma sample_snapshot_ok: "snapshot_ok sample_snapshot sample_boards"
  by code_simp

section \<open>Properties\<close>

text \<open>
  C1: \<open>derive_settlement_plan\<close> never panics and succeeds on exactly the inputs it should: canonical
  boards, a well-formed table of at most nine seats with the button on it, two valid cards of
  each live seat and no card twice, contributions within the limit, a known rake mode and at
  least one live contributor.  In particular the remainder of the rake always finds room, no
  sum overflows, and the validation that ends the derivation never rejects the plan it built.
\<close>

theorem derive_total:
  "derive_settlement_plan snapshot b \<noteq> Inl Panic \<and>
   ((\<exists>plan. derive_settlement_plan snapshot b = Inr plan) \<longleftrightarrow> snapshot_ok snapshot b)"
  using derive_ok[of snapshot b] derive_not_ok[of snapshot b] by (cases "snapshot_ok snapshot b") auto

text \<open>
  C2: The plan conserves chips: the contributions are the rake plus the awards, the rake is
  \<open>min(contested * bps / 10000, cap)\<close> of the contested layers (zero in the free mode), and no
  rake exceeds the cap or the contested chips.
\<close>

theorem derive_conserves:
  assumes "derive_settlement_plan snapshot b = Inr plan" "side_pots_of snapshot = Inr pots"
  shows "sum_list (ts_total_bets snapshot) = pl_rake plan + sum_list (pl_awards plan) \<and>
    pl_total_awards plan = sum_list (pl_awards plan) \<and>
    pl_rake plan = (if ts_rake_mode snapshot = RAKE_MODE_NONE then 0
      else min (min (rake_for (contested_sum pots) (ts_rake_bps snapshot) 10000) (ts_rake_cap snapshot))
             (contested_sum pots))"
proof -
  note d = derive_Inr[OF assms(1)]
  have g: "pl_gross_pot plan = sum_list (ts_total_bets snapshot)"
    "pl_total_awards plan = sum_list (pl_awards plan)" "pl_rake plan = rake_spec snapshot (contested_sum pots)"
    using d(2) assms(2) by (auto simp: plan_spec_def)
  have "checked_sub_u64 (pl_gross_pot plan) (pl_rake plan) = Some (pl_total_awards plan)"
    using d(3) by (auto simp: validate_def split: if_splits)
  then have "sum_list (ts_total_bets snapshot) = pl_rake plan + sum_list (pl_awards plan)"
    using g by (simp add: outcome_simps)
  with g show ?thesis by (simp add: rake_spec_def)
qed

theorem derive_conserves_witness:
  "\<exists>plan pots. derive_settlement_plan sample_snapshot sample_boards = Inr plan \<and>
     side_pots_of sample_snapshot = Inr pots \<and> contested_sum pots = 272 \<and>
     sum_list (ts_total_bets sample_snapshot) = pl_rake plan + sum_list (pl_awards plan) \<and> pl_rake plan = 13"
proof -
  obtain plan where p: "derive_settlement_plan sample_snapshot sample_boards = Inr plan"
    using derive_ok[OF sample_snapshot_ok] by blast
  have s: "side_pots_of sample_snapshot = Inr [new_pot 170 7, new_pot 102 6]" by code_simp
  have c: "contested_sum [new_pot 170 7, new_pot 102 6] = 272" by code_simp
  have r: "(if ts_rake_mode sample_snapshot = RAKE_MODE_NONE then 0
      else min (min (rake_for 272 (ts_rake_bps sample_snapshot) 10000) (ts_rake_cap sample_snapshot)) 272) = 13"
    by code_simp
  have "pl_rake plan = 13" using derive_conserves[OF p s] unfolding c r by blast
  moreover have "sum_list (ts_total_bets sample_snapshot) = pl_rake plan + sum_list (pl_awards plan)"
    using derive_conserves[OF p s] by blast
  ultimately show ?thesis using s c p by blast
qed

text \<open>
  C16: The right seats win: in each runout of a contested pot the winners are exactly the eligible
  seats whose best hand from their two cards and the runout's board no other eligible seat beats.
\<close>

theorem derive_winners_best:
  assumes "derive_settlement_plan snapshot b = Inr plan" "pp \<in> set (pl_pots plan)"
    and "pot_is_contested pp" "k < runout_count b"
  shows "bit (rp_winner_mask (pp_runouts pp ! k)) j \<longleftrightarrow>
    bit (pp_eligible pp) j \<and>
    (\<forall>i. bit (pp_eligible pp) i \<longrightarrow>
       evaluate_best (ts_hole_cards snapshot ! i @ board b k) \<le> evaluate_best (ts_hole_cards snapshot ! j @ board b k))"
proof -
  note d = derive_Inr[OF assms(1)]
  obtain i p rake pots where p: "side_pots_of snapshot = Inr pots" "p \<in> set pots" "pot_settled snapshot b i p rake pp"
    "pp_eligible pp = sp_eligible p" "pot_is_contested pp \<longleftrightarrow> contested p"
    using plan_pot_settled[OF d(2) assms(2)] by metis
  have at: "\<forall>j. bit (sp_eligible p) j \<longrightarrow> j < ts_seat_count snapshot"
    using eligible_at_table(1)[OF d(1) p(1,2)] by blast
  have "\<exists>amount. runout_settled snapshot (sp_eligible p) (board b k) amount (pp_runouts pp ! k)"
    using p(3) assms(3,4) p(5) by (cases rule: pot_settled_cases) (auto simp: less_Suc_eq numeral_2_eq_2)
  then show ?thesis using settled_wins[OF _ at] p(4) by (auto simp: seat_rank_def)
qed

lemma bit_seats_012: "bit (7 :: mask16) i \<longleftrightarrow> i = 0 \<or> i = 1 \<or> i = 2"
proof -
  have m: "(7 :: mask16) = mask 3" by (simp add: mask_numeral)
  show ?thesis unfolding m bit_mask_iff by (auto simp: less_Suc_eq numeral_eq_Suc)
qed

theorem derive_winners_best_witness:
  "\<exists>plan pp. derive_settlement_plan sample_snapshot sample_boards = Inr plan \<and>
     pp \<in> set (pl_pots plan) \<and>
     (bit (rp_winner_mask (pp_runouts pp ! 1)) 0 \<longleftrightarrow>
        list_all (\<lambda>i. evaluate_best (ts_hole_cards sample_snapshot ! i @ board sample_boards 1)
          \<le> evaluate_best (ts_hole_cards sample_snapshot ! 0 @ board sample_boards 1)) [0, 1, 2])"
proof -
  obtain plan where p: "derive_settlement_plan sample_snapshot sample_boards = Inr plan"
    "plan_spec sample_snapshot sample_boards plan"
    using derive_ok[OF sample_snapshot_ok] by blast
  have s: "side_pots_of sample_snapshot = Inr [new_pot 170 7, new_pot 102 6]" by code_simp
  obtain rakes where "length (pl_pots plan) = length [new_pot 170 7, new_pot 102 6]"
    "pot_settled sample_snapshot sample_boards 0 (new_pot 170 7) (rakes ! 0) (pl_pots plan ! 0)"
    using side_pots_unique[OF p(2) s] by fastforce
  then have "pl_pots plan ! 0 \<in> set (pl_pots plan)" "pp_eligible (pl_pots plan ! 0) = 7"
    by (auto simp: pot_settled_def)
  moreover have "2 \<le> count_ones 7" "1 < runout_count sample_boards" by code_simp+
  ultimately have "pot_is_contested (pl_pots plan ! 0)" "1 < runout_count sample_boards"
    by (simp_all only: pot_is_contested_def)
  from derive_winners_best[OF p(1) \<open>pl_pots plan ! 0 \<in> set (pl_pots plan)\<close> this, of 0]
  have "bit (rp_winner_mask (pp_runouts (pl_pots plan ! 0) ! 1)) 0 \<longleftrightarrow>
      list_all (\<lambda>i. evaluate_best (ts_hole_cards sample_snapshot ! i @ board sample_boards 1)
        \<le> evaluate_best (ts_hole_cards sample_snapshot ! 0 @ board sample_boards 1)) [0, 1, 2]"
    unfolding \<open>pp_eligible (pl_pots plan ! 0) = 7\<close> bit_seats_012 by auto
  then show ?thesis using \<open>pl_pots plan ! 0 \<in> set (pl_pots plan)\<close> p(1)
    by (intro exI[of _ plan] exI[of _ "pl_pots plan ! 0"] conjI)
qed

text \<open>
  C17: The winners share fairly: each runout's amount is divided evenly among its winners, the odd
  chips go one each to the first winners clockwise from the button, and nobody else gets any;
  of two runouts the first takes the odd chip of the pot.
\<close>

theorem derive_awards_fair:
  assumes "derive_settlement_plan snapshot b = Inr plan" "pp \<in> set (pl_pots plan)"
    and "k < (if pot_is_contested pp then runout_count b else 1)"
  shows "(let r = pp_runouts pp ! k;
              ws = winners_clockwise (rp_winner_mask r) (ts_button snapshot) (ts_seat_count snapshot) in
     (\<forall>p < length ws. rp_awards r ! (ws ! p) =
        rp_amount r div length ws + (if p < rp_amount r mod length ws then 1 else 0)) \<and>
     (\<forall>s < SETTLEMENT_SEATS. \<not> s \<in> set ws \<longrightarrow> rp_awards r ! s = 0) \<and>
     sum_list (rp_awards r) = rp_amount r \<and>
     rp_amount r = (if pot_is_contested pp \<and> runout_count b = 2
        then (if k = 0 then pp_net pp div 2 + pp_net pp mod 2 else pp_net pp div 2) else pp_net pp))"
proof -
  note d = derive_Inr[OF assms(1)]
  obtain i p rake where p: "pot_settled snapshot b i p rake pp" "pp_net pp = sp_amount p - rake"
    "pot_is_contested pp \<longleftrightarrow> contested p"
    using plan_pot_settled[OF d(2) assms(2)] by metis
  let ?r = "pp_runouts pp ! k"
  have "fair_split (rp_amount ?r)
      (winners_clockwise (rp_winner_mask ?r) (ts_button snapshot) (ts_seat_count snapshot)) (rp_awards ?r) \<and>
    rp_amount ?r = (if pot_is_contested pp \<and> runout_count b = 2
        then (if k = 0 then pp_net pp div 2 + pp_net pp mod 2 else pp_net pp div 2) else pp_net pp)"
    using p(1)
  proof (cases rule: pot_settled_cases)
    case (one r0)
    then show ?thesis using assms(3) p(2,3) by (simp add: runout_settled_def)
  next
    case (two r0 r1)
    then show ?thesis using assms(3) p(2,3)
      by (auto simp: runout_settled_def split_across_runouts_def less_Suc_eq numeral_2_eq_2)
  next
    case (returned r0)
    then show ?thesis using assms(3) p(2,3) by (simp add: runout_returned_def)
  qed
  then show ?thesis unfolding fair_split_def odd_chip_def Let_def by blast
qed

theorem derive_awards_fair_witness:
  "\<exists>plan pp. derive_settlement_plan sample_snapshot sample_boards = Inr plan \<and>
     pp \<in> set (pl_pots plan) \<and> sum_list (rp_awards (pp_runouts pp ! 0)) = rp_amount (pp_runouts pp ! 0)"
proof -
  obtain plan where p: "derive_settlement_plan sample_snapshot sample_boards = Inr plan"
    "plan_spec sample_snapshot sample_boards plan"
    using derive_ok[OF sample_snapshot_ok] by blast
  have s: "side_pots_of sample_snapshot = Inr [new_pot 170 7, new_pot 102 6]" by code_simp
  have "pl_pots plan ! 0 \<in> set (pl_pots plan)" using side_pots_unique[OF p(2) s] by fastforce
  moreover have "0 < (if pot_is_contested (pl_pots plan ! 0) then runout_count sample_boards else 1)"
    by (simp add: sample_boards_def)
  ultimately show ?thesis
    using derive_awards_fair[OF p(1), of "pl_pots plan ! 0" 0] p(1) unfolding Let_def by blast
qed

text \<open>A seat that has folded or left the hand is awarded nothing.\<close>

lemma derive_folded_get_nothing:
  assumes "derive_settlement_plan snapshot b = Inr plan" "j < ts_seat_count snapshot" "ts_inactive snapshot ! j"
  shows "pl_awards plan ! j = 0"
proof -
  note d = derive_Inr[OF assms(1)]
  obtain pots where pots: "side_pots_of snapshot = Inr pots" using plan_pots[OF d(2)] by metis
  have "\<not> bit (sp_eligible p) j" if "p \<in> set pots" for p
    using eligible_at_table(3)[OF d(1) pots that] assms(3) by blast
  then have "filter (\<lambda>p. pot_is_eligible p j) pots = []"
    by (auto simp: filter_empty_conv pot_is_eligible_def is_eligible_bit)
  then have "claimable pots j = 0" by (simp add: claimable_def)
  moreover have "j < SETTLEMENT_SEATS" using assms(2) d(1) by (simp add: snapshot_ok_def table_ok_def)
  ultimately show ?thesis using award_le_claimable[OF d(2) pots, of j] by simp
qed

text \<open>
  C39: An all-in seat wins at most its stake from each seat that is still in the hand, whatever the
  others staked.  From a seat that has left or folded it also wins at most its stake, as long as some
  seat still in the hand has staked more; only when none has may it win what those seats staked
  above it, because that layer has nobody else to go to and is merged into the last pot.
\<close>

theorem derive_all_in_cap:
  assumes "derive_settlement_plan snapshot b = Inr plan"
    and "j < ts_seat_count snapshot" "\<not> ts_inactive snapshot ! j" "ts_all_in snapshot ! j"
  shows "pl_awards plan ! j \<le> (\<Sum>i<ts_seat_count snapshot.
    if ts_inactive snapshot ! i \<and>
       \<not> (\<exists>k<ts_seat_count snapshot. \<not> ts_inactive snapshot ! k \<and> ts_total_bets snapshot ! j < ts_total_bets snapshot ! k)
    then ts_total_bets snapshot ! i
    else min (ts_total_bets snapshot ! i) (ts_total_bets snapshot ! j))"
proof -
  note d = derive_Inr[OF assms(1)]
  let ?bets = "ts_total_bets snapshot"
  obtain pots where pots: "side_pots_of snapshot = Inr pots" using plan_pots[OF d(2)] by metis
  have n: "length ?bets = ts_seat_count snapshot" "j < SETTLEMENT_SEATS"
    using assms(2) d(1) by (simp_all add: snapshot_ok_def table_ok_def)
  note won = award_le_claimable[OF d(2) pots n(2)]
  note split = pots[unfolded side_pots_of_def]
  show ?thesis
  proof (cases "\<exists>k<ts_seat_count snapshot. \<not> ts_inactive snapshot ! k \<and> ?bets ! j < ?bets ! k")
    case True
    have "claimable pots j \<le> (\<Sum>i<ts_seat_count snapshot. min (?bets ! i) (?bets ! j))"
    proof (cases "?bets ! j = 0")
      case zero: True
      have "\<not> bit (sp_eligible p) j" if "p \<in> set pots" for p
        using sp.only_live[OF split that] zero by fastforce
      then have "filter (\<lambda>p. pot_is_eligible p j) pots = []"
        by (auto simp: filter_empty_conv pot_is_eligible_def is_eligible_bit)
      then show ?thesis by (simp add: claimable_def)
    next
      case False
      with True show ?thesis using side_pots_all_in_claim[OF split] assms(2-4) n by auto
    qed
    with won True show ?thesis by simp
  next
    case False
    have "claimable pots j \<le> pots_sum pots"
      by (induction pots) (auto simp: claimable_def)
    also have "\<dots> = (\<Sum>i<ts_seat_count snapshot. ?bets ! i)"
      using sp.conserves[OF split] n by (simp add: sum_list_sum_nth atLeast0LessThan)
    also have "\<dots> = (\<Sum>i<ts_seat_count snapshot. if ts_inactive snapshot ! i then ?bets ! i else min (?bets ! i) (?bets ! j))"
      using False by (intro sum.cong) (auto simp: min_def not_le)
    finally show ?thesis using won False by simp
  qed
qed

theorem derive_all_in_cap_witness:
  "\<exists>plan. derive_settlement_plan sample_snapshot sample_boards = Inr plan \<and> pl_awards plan ! 0 \<le> 170"
proof -
  obtain plan where p: "derive_settlement_plan sample_snapshot sample_boards = Inr plan"
    using derive_ok[OF sample_snapshot_ok] by blast
  have s: "0 < ts_seat_count sample_snapshot" "\<not> ts_inactive sample_snapshot ! 0" "ts_all_in sample_snapshot ! 0"
    by (simp_all add: sample_snapshot_def)
  have "\<exists>k<ts_seat_count sample_snapshot. \<not> ts_inactive sample_snapshot ! k \<and>
      ts_total_bets sample_snapshot ! 0 < ts_total_bets sample_snapshot ! k"
    by (rule exI[of _ 1]) (simp add: sample_snapshot_def)
  with derive_all_in_cap[OF p s] have "pl_awards plan ! 0 \<le> (\<Sum>i<ts_seat_count sample_snapshot.
      min (ts_total_bets sample_snapshot ! i) (ts_total_bets sample_snapshot ! 0))" by simp
  also have "\<dots> = 170" by code_simp
  finally show ?thesis using p by blast
qed

text \<open>
  The rake is spread over the contested pots only: each pays at least the floor of its
  proportional part and never more than it holds, an uncontested pot is returned whole.
\<close>

lemma derive_rake_spread:
  assumes "derive_settlement_plan snapshot b = Inr plan" "side_pots_of snapshot = Inr pots" "i < length pots"
  shows "pp_gross (pl_pots plan ! i) = sp_amount (pots ! i) \<and>
    pp_rake (pl_pots plan ! i) + pp_net (pl_pots plan ! i) = sp_amount (pots ! i) \<and>
    (if contested (pots ! i)
     then sp_amount (pots ! i) * pl_rake plan div contested_sum pots \<le> pp_rake (pl_pots plan ! i)
     else pp_rake (pl_pots plan ! i) = 0)"
proof -
  note d = derive_Inr[OF assms(1)]
  obtain rakes where r: "rake_split pots (pl_rake plan) rakes"
    "pot_settled snapshot b i (pots ! i) (rakes ! i) (pl_pots plan ! i)"
    using side_pots_unique[OF d(2) assms(2)] assms(3) by blast
  have "rakes ! i \<le> sp_amount (pots ! i)" "\<not> contested (pots ! i) \<longrightarrow> rakes ! i = 0"
    "share_of (pl_rake plan) (contested_sum pots) (pots ! i) \<le> rakes ! i"
    using r(1) assms(3) by (auto simp: rake_split_def allocs_ok_def list_all2_conv_all_nth)
  then show ?thesis using r(2) by (auto simp: pot_settled_def share_of_def)
qed

text \<open>
  No card is in play twice: the cards of the live hands and of the boards, the shared prefix
  counted once, are distinct cards of the deck.
\<close>

lemma derive_cards_distinct:
  assumes "derive_settlement_plan snapshot b = Inr plan"
  shows "distinct (concat (map snd (live_hands snapshot)) @ board_cards b) \<and>
         (\<forall>c \<in> set (concat (map snd (live_hands snapshot)) @ board_cards b). c < 52)"
proof -
  have ok: "boards_ok b" "exposed_ok snapshot b"
    using derive_Inr(1)[OF assms] by (simp_all add: snapshot_ok_def)
  have "distinct (board_cards b) \<and> (\<forall>c \<in> set (board_cards b). c < 52)"
    using ok(1) by (cases b) (auto simp: board_cards_def dest: in_set_dropD)
  then show ?thesis using ok(2) by (auto simp: exposed_ok_def)
qed

end
