(* ===== verification/TableVault.thy ===== *)
theory TableVault
  imports TableHand Settlement
begin

text \<open>
  The money of the table.  Its locked chips, \<open>chip_pool\<close>, are held once: in stacks, in addons waiting
  for the next hand, in the bets of the round or in the pot; \<open>books_ok\<close> is the equation that
  \<open>reconcile_table_vault\<close> checks.  Chips leave only with an event, a refund to a wallet or the rake,
  so the pool plus what the events of a command pay out, \<open>vault\<close>, stays the same.  The lemmas follow
  both through the operations of a hand.
\<close>

section \<open>Books, payments and the vault\<close>

abbreviation sum_of :: "('p seat \<Rightarrow> nat) \<Rightarrow> 'p table \<Rightarrow> nat" where
  "sum_of f t \<equiv> sum_list (map f (t_seats t))"

definition assets :: "'p table \<Rightarrow> nat" where
  "assets t = sum_of seat_stack t + sum_of seat_pending_addon t"

definition wagers :: "'p table \<Rightarrow> nat" where
  "wagers t = t_pot t + sum_of seat_bet t"

definition books_ok :: "'p table \<Rightarrow> bool" where
  "books_ok t \<longleftrightarrow> wagers t = sum_of seat_total_bet t \<and> assets t + wagers t = t_chip_pool t"

fun paid_by :: "table_event \<Rightarrow> nat" where
  "paid_by (SeatEv (PlayerRefund _ _ _ amount kind)) = (if kind
      = REFUND_TYPE_STACK_ONLY then amount else 0)"
| "paid_by (HandEv (RakeCollected _ _ rake _ _)) = rake"
| "paid_by _ = 0"

definition paid :: "table_event list \<Rightarrow> nat" where
  "paid es = sum_list (map paid_by es)"

definition vault :: "'p table \<Rightarrow> table_event list \<Rightarrow> nat" where
  "vault t es = t_chip_pool t + paid es"

lemma paid_simps [simp]:
  "paid [] = 0" "paid (es @ fs) = paid es + paid fs" "paid (e # es) = paid_by e + paid es"
  by (simp_all add: paid_def)

text \<open>The money of a seat, and tables that differ in anything but money.\<close>

definition coins :: "'p seat \<Rightarrow> nat \<times> nat \<times> nat \<times> nat" where
  "coins s = (seat_stack s, seat_pending_addon s, seat_bet s, seat_total_bet s)"

definition same_money :: "'p table \<Rightarrow> 'p table \<Rightarrow> bool" where
  "same_money t t' \<longleftrightarrow>
     map coins (t_seats t') = map coins (t_seats t) \<and> t_pot t' = t_pot t \<and> t_chip_pool t'
         = t_chip_pool t"

lemma map_coins:
  assumes "map coins ss' = map coins ss"
  shows "map seat_stack ss' = map seat_stack ss"
      "map seat_pending_addon ss' = map seat_pending_addon ss"
    "map seat_bet ss' = map seat_bet ss" "map seat_total_bet ss' = map seat_total_bet ss"
proof -
  have *: "map (g \<circ> coins) ss' = map (g \<circ> coins) ss" for g :: "nat \<times> nat \<times> nat \<times> nat \<Rightarrow> nat"
    using arg_cong[OF assms, of "map g"] by (simp add: comp_assoc)
  have f: "seat_stack = fst \<circ> coins" "seat_pending_addon = (fst \<circ> snd) \<circ> coins"
    "seat_bet = (fst \<circ> snd \<circ> snd) \<circ> coins" "seat_total_bet = (snd \<circ> snd \<circ> snd) \<circ> coins"
    by (auto simp: fun_eq_iff coins_def)
  show "map seat_stack ss' = map seat_stack ss" unfolding f by (rule *)
  show "map seat_pending_addon ss' = map seat_pending_addon ss" unfolding f by (rule *)
  show "map seat_bet ss' = map seat_bet ss" unfolding f by (rule *)
  show "map seat_total_bet ss' = map seat_total_bet ss" unfolding f by (rule *)
qed

lemma same_money_sums:
  assumes "same_money t t'"
  shows "assets t' = assets t" "wagers t' = wagers t"
      "sum_of seat_total_bet t' = sum_of seat_total_bet t"
    "sum_of seat_bet t' = sum_of seat_bet t" "t_pot t' = t_pot t" "t_chip_pool t' = t_chip_pool t"
    "books_ok t' \<longleftrightarrow> books_ok t"
  using assms map_coins[of "t_seats t'" "t_seats t"]
  by (simp_all add: same_money_def assets_def wagers_def books_ok_def)

lemma same_money_refl [simp]: "same_money t t"
  by (simp add: same_money_def)

lemma same_money_trans: "same_money t u \<Longrightarrow> same_money u v \<Longrightarrow> same_money t v"
  by (simp add: same_money_def)

lemma same_money_sameI:
  "t_seats t' = t_seats t \<Longrightarrow> t_pot t' = t_pot t \<Longrightarrow> t_chip_pool t' = t_chip_pool t \<Longrightarrow> same_money t t'"
  by (simp add: same_money_def)

text \<open>
  The contract of a step of the protocol that moves no money: same money, nothing paid, the same
  seats in contention and the same rules.
\<close>

definition quiet :: "'p table \<times> table_event list \<Rightarrow> 'p table \<times> table_event list \<Rightarrow> bool" where
  "quiet r r' \<longleftrightarrow> same_money (fst r) (fst r') \<and> paid (snd r') = paid (snd r) \<and>
     map in_contention (t_seats (fst r')) = map in_contention (t_seats (fst r))"

lemma quiet_trans: "quiet r s \<Longrightarrow> quiet s u \<Longrightarrow> quiet r u"
  by (auto simp: quiet_def intro: same_money_trans)

lemma quiet_refl [simp]: "quiet r r"
  by (simp add: quiet_def)

lemma quiet_sameI:
  assumes "t_seats t' = t_seats t" "t_pot t' = t_pot t" "t_chip_pool t' = t_chip_pool t"
      "paid es' = paid es"
  shows "quiet (t, es) (t', es')"
  using assms by (simp add: quiet_def same_money_def)

text \<open>The contract of a step that moves money: the books stay right and the vault pays for it.\<close>

definition custody :: "'p table \<times> table_event list \<Rightarrow> 'p table \<times> table_event list \<Rightarrow> bool" where
  "custody r r' \<longleftrightarrow>
     (books_ok (fst r) \<longrightarrow> books_ok (fst r')) \<and> vault (fst r') (snd r') = vault (fst r) (snd r)"

lemma custody_trans: "custody r s \<Longrightarrow> custody s u \<Longrightarrow> custody r u"
  by (simp add: custody_def)

lemma quiet_custody: "quiet r r' \<Longrightarrow> custody r r'"
  using same_money_sums[of "fst r" "fst r'"] by (auto simp: quiet_def custody_def vault_def)

lemma count_active_map: "count_active_players ss = length (filter id (map in_contention ss))"
  by (simp add: count_active_players_def filter_map o_def)

lemma quiet_count:
  "quiet (t, es) (t', es') \<Longrightarrow> count_active_players (t_seats t') = count_active_players (t_seats t)"
  by (simp add: quiet_def count_active_map)

section \<open>Changing one seat\<close>

lemma sum_of_put:
  assumes "i < length (t_seats t)"
  shows "sum_of f (put_seat t i s) + f (t_seats t ! i) = sum_of f t + f s"
  using sum_list_update_nat[of i "map f (t_seats t)" "f s"] assms by (simp add: map_update)

lemma sum_of_ge: "i < length (t_seats t) \<Longrightarrow> f (t_seats t ! i) \<le> sum_of f t"
  using nth_le_sum[of i "map f (t_seats t)"] by simp

lemma assets_put:
  assumes "i < length (t_seats t)"
  shows "assets (put_seat t i s) + (seat_stack (t_seats t ! i) + seat_pending_addon (t_seats t ! i)) =
    assets t + (seat_stack s + seat_pending_addon s)"
  using sum_of_put[OF assms, of seat_stack s] sum_of_put[OF assms, of seat_pending_addon s]
  by (simp add: assets_def)

text \<open>A wager moves chips from the stack of a seat to its bet and to its contribution.\<close>

lemma wager_books:
  assumes i: "i < length (t_seats t)" and s: "t_seats t ! i = s"
    and "seat_stack s' + n = seat_stack s" "seat_bet s' = seat_bet s + n"
    and "seat_total_bet s' = seat_total_bet s + n" "seat_pending_addon s' = seat_pending_addon s"
  shows "books_ok (put_seat t i s') \<longleftrightarrow> books_ok t"
proof -
  note put = sum_of_put[OF i, of _ s']
  show ?thesis
    using assms put[of seat_stack] put[of seat_pending_addon] put[of seat_bet] put[of seat_total_bet]
    by (simp add: books_ok_def assets_def wagers_def) linarith
qed

lemma books_ok_cong [simp]:
  "books_ok (t\<lparr>t_hand_phase := ph\<rparr>) = books_ok t" "books_ok (t\<lparr>t_acted_mask := m\<rparr>) = books_ok t"
  "books_ok (t\<lparr>t_leave_mask := m\<rparr>) = books_ok t" "books_ok (t\<lparr>t_deck_state := d\<rparr>) = books_ok t"
  "books_ok (t\<lparr>t_button := i\<rparr>) = books_ok t" "books_ok (t\<lparr>t_rit_state := rit\<rparr>) = books_ok t"
  "books_ok (t\<lparr>t_community_cards := b\<rparr>) = books_ok t"
  by (simp_all add: books_ok_def assets_def wagers_def)

section \<open>Steps that move no money\<close>

text \<open>Each of the phase changes leaves the seats, the pot and the pool alone.\<close>

definition same_custody_state :: "'p table \<Rightarrow> 'p table \<Rightarrow> bool" where
  "same_custody_state t t' \<longleftrightarrow>
     t_seats t' = t_seats t \<and> t_pot t' = t_pot t \<and> t_chip_pool t' = t_chip_pool t \<and> t_rules t'
         = t_rules t \<and>
     t_id t' = t_id t \<and> t_button t' = t_button t"

lemma same_custody_refl [simp]: "same_custody_state t t"
  by (simp add: same_custody_state_def)

lemma same_custody_trans:
  "same_custody_state t u \<Longrightarrow> same_custody_state u v \<Longrightarrow> same_custody_state t v"
  by (simp add: same_custody_state_def)

named_theorems phase_steps \<open>changes of the phase keep seats, pot and pool\<close>

lemma enter_steps [phase_steps]:
  "enter_betting t street r turn d = Inr t' \<Longrightarrow> same_custody_state t t'"
  "enter_revealing t street rv d = Inr t' \<Longrightarrow> same_custody_state t t'"
  "enter_initial_shuffling t st d = Inr t' \<Longrightarrow> same_custody_state t t'"
  "enter_reconstruct_shuffling t street st rv d = Inr t' \<Longrightarrow> same_custody_state t t'"
  "enter_reconstructing t street rs rv e = Inr t' \<Longrightarrow> same_custody_state t t'"
  by (auto simp: enter_betting_def enter_revealing_def enter_initial_shuffling_def
      enter_reconstruct_shuffling_def enter_reconstructing_def same_custody_state_def outcome_simps)

lemma deadline_steps [phase_steps]:
  "set_betting_turn t turn = Inr t' \<Longrightarrow> same_custody_state t t'"
  "disarm_betting_deadline t = Inr t' \<Longrightarrow> same_custody_state t t'"
  "disarm_shuffle_deadline t = Inr t' \<Longrightarrow> same_custody_state t t'"
  "set_betting_round t r = Inr t' \<Longrightarrow> same_custody_state t t'"
  "set_reveal_state t rv = Inr t' \<Longrightarrow> same_custody_state t t'"
  "set_shuffle_state t st = Inr t' \<Longrightarrow> same_custody_state t t'"
  "set_reconstruct_state t rs = Inr t' \<Longrightarrow> same_custody_state t t'"
  "take_reveal_payload t = Inr (rv, t') \<Longrightarrow> same_custody_state t t'"
  by (auto simp: set_betting_turn_def disarm_betting_deadline_def disarm_shuffle_deadline_def
      set_betting_round_def set_reveal_state_def set_shuffle_state_def set_reconstruct_state_def
      take_reveal_payload_def same_custody_state_def outcome_simps
      split: hand_phase.splits option.splits)

lemma arm_steps [phase_steps]:
  "arm_shuffle_deadline t now = Inr t' \<Longrightarrow> same_custody_state t t'"
  "arm_reveal_deadline t now = Inr t' \<Longrightarrow> same_custody_state t t'"
  "arm_reconstruct_deadline t now = Inr t' \<Longrightarrow> same_custody_state t t'"
  "arm_betting_deadline t now = Inr t' \<Longrightarrow> same_custody_state t t'"
  "arm_showdown_deadline t now = Inr t' \<Longrightarrow> same_custody_state t t'"
  "extend_betting_deadline t n = Inr (d, t') \<Longrightarrow> same_custody_state t t'"
  by (cases "t_hand_phase t"; auto simp: arm_shuffle_deadline_def arm_reveal_deadline_def
      arm_reconstruct_deadline_def arm_betting_deadline_def arm_showdown_deadline_def
      extend_betting_deadline_def same_custody_state_def outcome_simps split: if_splits)+

lemma arm_active_step [phase_steps]:
  "arm_active_deadline_if_needed t now = Inr t' \<Longrightarrow> same_custody_state t t'"
  by (cases "t_hand_phase t") (auto simp: arm_active_deadline_if_needed_def require_eq_Inr
      rbind_eq_Inr same_custody_refl dest: arm_steps split: if_splits)

lemma deck_steps [phase_steps]:
  "set_initial_encrypted_deck L t = Inr t' \<Longrightarrow> same_custody_state t t'"
  "add_deck_contributor L t i = Inr t' \<Longrightarrow> same_custody_state t t'"
  "remove_deck_contributor L t i = Inr t' \<Longrightarrow> same_custody_state t t'"
  "remove_seat_from_active_phase t i = Inr t' \<Longrightarrow> same_custody_state t t'"
  "rebuild_deck_from_reconstruct_deck t = Inr t' \<Longrightarrow> same_custody_state t t'"
  by (auto simp: set_initial_encrypted_deck_def add_deck_contributor_def remove_deck_contributor_def
      remove_seat_from_active_phase_def rebuild_deck_from_reconstruct_deck_def same_custody_state_def
      Let_def outcome_simps)

lemma same_custody_quiet:
  "same_custody_state t t' \<Longrightarrow> paid es' = paid es \<Longrightarrow> quiet (t, es) (t', es')"
  by (simp add: same_custody_state_def quiet_sameI)

section \<open>Collecting the bets and the rake\<close>

lemma foldM_checked_sum:
  "foldM (\<lambda>acc x. checked (checked_add_u64 acc (f x)) msg) a xs = Inr r \<Longrightarrow> r = a + sum_list (map f xs)"
proof (induction xs arbitrary: a)
  case (Cons x xs)
  then obtain b where "b = a + f x"
      "foldM (\<lambda>acc x. checked (checked_add_u64 acc (f x)) msg) b xs = Inr r"
    by (auto simp: outcome_simps)
  with Cons.IH[of b] show ?case by simp
qed simp

lemma clear_round_bet_coins [simp]:
  "seat_stack (clear_round_bet s) = seat_stack s"
      "seat_pending_addon (clear_round_bet s) = seat_pending_addon s"
  "seat_bet (clear_round_bet s) = 0" "seat_total_bet (clear_round_bet s) = seat_total_bet s"
  "seat_status_of (clear_round_bet s) = seat_status_of s"
      "is_occupied (clear_round_bet s) = is_occupied s"
  "is_waiting (clear_round_bet s) = is_waiting s" "seat_player (clear_round_bet s) = seat_player s"
  by (cases s; simp)+

lemma clear_round_bet_contention [simp]:
  "in_contention (clear_round_bet s) = in_contention s"
      "participating (clear_round_bet s) = participating s"
  "can_act (clear_round_bet s) = can_act s"
  by (simp_all add: in_contention_def participating_def can_act_def is_folded_def is_all_in_def)

lemma set_bet_0: "set_bet s 0 = Inr s' \<longleftrightarrow> s' = clear_round_bet s"
  by (cases s) auto

lemma clear_round_bet_idem: "seat_bet s = 0 \<Longrightarrow> clear_round_bet s = s"
  by (cases s) auto

lemma collect_loop:
  "foldM (\<lambda>(seats, collected) (i, s).
       if seat_bet s > 0 then rbind (set_bet s 0) (\<lambda>s'. Inr (seats @ [s'], collected @ [i]))
       else Inr (seats @ [s], collected)) (seats, collected) (enumerate n ss) = Inr (seats', collected')
   \<Longrightarrow> seats' = seats @ map clear_round_bet ss"
proof (induction ss arbitrary: n seats collected)
  case (Cons s ss)
  from Cons.prems show ?case
    by (cases "seat_bet s > 0") (auto simp: rbind_eq_Inr set_bet_0 clear_round_bet_idem dest!: Cons.IH)
qed simp

lemma collect_bets_eq:
  assumes "collect_bets_to_pot t es = Inr (t', es')"
  shows "t' = t\<lparr>t_seats := map clear_round_bet (t_seats t), t_pot := wagers t\<rparr>" and "paid es' = paid es"
  using assms
  by (auto simp: collect_bets_to_pot_def wagers_def outcome_simps Let_def
      dest!: foldM_checked_sum collect_loop split: if_splits)

lemma collect_bets_money:
  assumes "collect_bets_to_pot t es = Inr (t', es')"
  shows "assets t' = assets t" "t_pot t' = wagers t" "sum_of seat_bet t' = 0"
      "t_chip_pool t' = t_chip_pool t"
    "sum_of seat_total_bet t' = sum_of seat_total_bet t" "custody (t, es) (t', es')"
    "map in_contention (t_seats t') = map in_contention (t_seats t)"
        "length (t_seats t') = length (t_seats t)"
  using collect_bets_eq[OF assms]
  by (simp_all add: assets_def wagers_def books_ok_def custody_def vault_def o_def)

lemma collect_bets_count:
  "collect_bets_to_pot t es = Inr (t', es') \<Longrightarrow> count_active_players (t_seats t')
      = count_active_players (t_seats t)"
  by (simp add: count_active_map collect_bets_money)

text \<open>The rake is at most the configured share, the cap and the pot.\<close>

lemma compute_rake_le: "compute_rake_amount t pot = Inr r \<Longrightarrow> r \<le> pot"
  by (auto simp: compute_rake_amount_def split: if_splits)

lemma collect_rake_eq:
  assumes "collect_rake t = Inr (rake, t')"
  shows "t' = t\<lparr>t_pot := t_pot t - rake, t_chip_pool := t_chip_pool t - rake\<rparr>"
    "rake \<le> t_pot t" "rake \<le> t_chip_pool t"
  using assms by (auto simp: collect_rake_def outcome_simps split: if_splits dest!: compute_rake_le)

section \<open>The reset for the next hand\<close>

abbreviation own_chips :: "'p seat \<Rightarrow> nat" where
  "own_chips s \<equiv> seat_stack s + seat_pending_addon s"

lemma assets_own: "assets t = sum_list (map own_chips (t_seats t))"
  by (simp add: assets_def sum_list_addf)

text \<open>The preflight names the seats that leave and takes what they hold out of the pool.\<close>

definition leaving :: "'p table \<Rightarrow> nat list" where
  "leaving t = map fst (filter (\<lambda>(i, s). is_occupied s
      \<and> seat_wants_leave t i) (enumerate 0 (t_seats t)))"

lemma preflight_loop:
  "foldM (\<lambda>(total_pending, to_remove, total_refund) (i, s).
         rbind (if seat_pending_addon s > 0 \<and> is_occupied s then
                  rbind (checked (checked_add_u64 (seat_stack s) (seat_pending_addon s)) m1) (\<lambda>_.
                  checked (checked_add_u64 total_pending (seat_pending_addon s)) m2)
                else Inr total_pending) (\<lambda>total_pending.
         if is_occupied s \<and> seat_wants_leave t i then
           rbind (checked (checked_add_u64 (seat_stack s) (seat_pending_addon s)) m3) (\<lambda>refund.
           rbind (checked (checked_add_u64 total_refund refund) m4) (\<lambda>total_refund.
           Inr (total_pending, to_remove @ [i], total_refund)))
         else Inr (total_pending, to_remove, total_refund))) (a, is, r) xs = Inr (a', is', r')
   \<Longrightarrow> is' = is @ map fst (filter (\<lambda>(i, s). is_occupied s \<and> seat_wants_leave t i) xs) \<and>
     r' = r + sum_list (map (\<lambda>(i, s). own_chips s) (filter (\<lambda>(i, s). is_occupied s
         \<and> seat_wants_leave t i) xs))"
proof (induction xs arbitrary: a "is" r)
  case (Cons x xs)
  obtain i s where x: "x = (i, s)" by (cases x)
  from Cons.prems show ?case
    unfolding x by (auto simp: outcome_simps dest!: Cons.IH split: if_splits)
qed simp

lemma reset_preflight_eq:
  assumes "reset_preflight t = Inr (is, pool)"
  shows "is = leaving t"
    "pool + sum_list (map (\<lambda>i. own_chips (t_seats t ! i)) (leaving t)) = t_chip_pool t"
proof -
  let ?leave = "filter (\<lambda>(i, s). is_occupied s \<and> seat_wants_leave t i) (enumerate 0 (t_seats t))"
  have nth: "map (\<lambda>(i, s). own_chips s) ?leave = map (\<lambda>i. own_chips (t_seats t ! i)) (leaving t)"
    by (auto simp: leaving_def in_set_enumerate_eq intro!: map_cong)
  have "is = leaving t \<and> pool + sum_list (map (\<lambda>(i, s). own_chips s) ?leave) = t_chip_pool t"
    using assms unfolding reset_preflight_def
    by (auto simp: outcome_simps leaving_def dest!: preflight_loop)
  then show "is = leaving t"
    "pool + sum_list (map (\<lambda>i. own_chips (t_seats t ! i)) (leaving t)) = t_chip_pool t"
    unfolding nth by auto
qed

lemma leaving_props: "distinct (leaving t)" "i \<in> set (leaving t) \<Longrightarrow> i < length (t_seats t)"
proof -
  have "distinct (map fst (filter P (enumerate 0 xs)))" for P and xs :: "'b list"
    by (simp add: distinct_map_filter)
  then show "distinct (leaving t)" unfolding leaving_def .
  show "i \<in> set (leaving t) \<Longrightarrow> i < length (t_seats t)"
    by (auto simp: leaving_def in_set_enumerate_eq)
qed

text \<open>Addons become stack.\<close>

lemma non_occupied_coins:
    "\<not> is_occupied s \<Longrightarrow> seat_stack s = 0 \<and> seat_pending_addon s = 0 \<and> seat_bet s = 0"
  by (cases s) auto

lemma credit_addon_seat:
  assumes "credit_addon tid (seats, es) (i, s) = Inr r"
  obtains s' es' where "r = (seats @ [s'], es')" "seat_stack s' = own_chips s"
      "seat_pending_addon s' = 0"
    "is_occupied s' = is_occupied s" "paid es' = paid es"
proof (cases "seat_pending_addon s > 0 \<and> is_occupied s")
  case True
  with assms obtain s1 s2 where s: "set_stack s (own_chips s) = Inr s1"
      "set_pending_addon s1 0 = Inr s2"
    "r = (seats @ [s2], es @ [SeatEv (AddonCredited tid i (seat_player s) (seat_pending_addon s)
        (seat_stack s2))])"
    by (auto simp: credit_addon_def outcome_simps)
  show thesis
    by (rule that[OF s(3)]) (simp_all add: set_stack_money[OF s(1)] set_pending_addon_money[OF s(2)])
next
  case False
  with assms have r: "r = (seats @ [s], es)" by (auto simp: credit_addon_def)
  show thesis
    by (rule that[OF r]) (use False non_occupied_coins[of s] in auto)
qed

definition same_chips :: "'p seat list \<Rightarrow> 'p seat list \<Rightarrow> bool" where
  "same_chips seats ss \<longleftrightarrow> map own_chips seats = map own_chips ss \<and>
     map is_occupied seats = map is_occupied ss \<and> (\<forall>s \<in> set seats. seat_pending_addon s = 0)"

lemma credit_addon_loop:
  assumes "foldM (credit_addon tid) ([], es) (enumerate 0 ss) = Inr (seats, es')"
  shows "same_chips seats ss" "paid es' = paid es"
proof -
  have "same_chips (fst (seats, es')) (map snd (enumerate 0 ss)) \<and> paid (snd (seats, es')) = paid es"
  proof (rule foldM_prefix_invariant[OF assms,
        where I = "\<lambda>xs r. same_chips (fst r) (map snd xs) \<and> paid (snd r) = paid es"], goal_cases)
    case 1
    show ?case by (simp add: same_chips_def)
  next
    case (2 xs x zs r r')
    obtain i s qs fs where x: "x = (i, s)" "r = (qs, fs)" by (cases x, cases r)
    from 2 have "credit_addon tid (qs, fs) (i, s) = Inr r'" by (simp add: x)
    then obtain s' fs' where "r' = (qs @ [s'], fs')" "seat_stack s' = own_chips s"
        "seat_pending_addon s' = 0"
      "is_occupied s' = is_occupied s" "paid fs' = paid fs"
      by (rule credit_addon_seat)
    with 2 show ?case by (auto simp: x same_chips_def)
  qed
  then show "same_chips seats ss" "paid es' = paid es" by simp_all
qed

lemma refill_prepare_coins [simp]:
  "own_chips (prepare_next_hand (refill_time_bank s)) = own_chips s"
  "seat_bet (prepare_next_hand (refill_time_bank s)) = 0"
  "seat_pending_addon (refill_time_bank s) = seat_pending_addon s"
  "has_left_hand (refill_time_bank s) = has_left_hand s"
  "seat_stack (refill_time_bank s) = seat_stack s" "is_occupied (refill_time_bank s) = is_occupied s"
  by (auto simp: refill_time_bank_def) (cases s; simp)+

text \<open>Seats are emptied; the chips of a leaver are paid out.\<close>

definition emptied :: "nat list \<Rightarrow> 'p table \<Rightarrow> 'p table \<Rightarrow> bool" where
  "emptied is t t' \<longleftrightarrow>
     length (t_seats t') = length (t_seats t) \<and>
     (\<forall>j < length (t_seats t). t_seats t' ! j = (if j \<in> set is then seat_empty else t_seats t ! j)) \<and>
     t_pot t' = t_pot t \<and> t_chip_pool t' = t_chip_pool t \<and> t_rules t' = t_rules t"

lemma emptied_step:
  assumes "emptied is t t'" "t_seats t'' = (t_seats t')[i := seat_empty]" "t_pot t'' = t_pot t'"
    "t_chip_pool t'' = t_chip_pool t'" "t_rules t'' = t_rules t'"
  shows "emptied (is @ [i]) t t''"
  using assms by (cases "i < length (t_seats t)") (auto simp: emptied_def nth_list_update)

lemma own_chips_empty [simp]: "seat_stack seat_empty = 0" "seat_pending_addon seat_empty = 0"
  "seat_bet seat_empty = 0" "seat_total_bet seat_empty = 0" "\<not> has_left_hand seat_empty"
  "\<not> is_occupied seat_empty"
  by (simp_all add: seat_empty_def)

lemma remove_leaver_step:
  assumes "remove_leaver (t, es) i = Inr (t', es')"
  shows "i < length (t_seats t)" "t_seats t' = (t_seats t)[i := seat_empty]" "t_pot t' = t_pot t"
    "t_chip_pool t' = t_chip_pool t" "t_rules t' = t_rules t"
    "paid es' = paid es + own_chips (t_seats t ! i)"
  using assms
  by (auto simp: remove_leaver_def outcome_simps Let_def set_seat_wants_leave_def vacate_def split:
      if_splits)

lemma remove_broke_step:
  assumes "remove_broke (t, es) i = Inr (t', es')"
  shows "i < length (t_seats t)" "t_seats t' = (t_seats t)[i := seat_empty]" "t_pot t' = t_pot t"
    "t_chip_pool t' = t_chip_pool t" "t_rules t' = t_rules t" "paid es' = paid es"
  using assms
  by (auto simp: remove_broke_def outcome_simps Let_def set_seat_wants_leave_def vacate_def split:
      if_splits)

lemma remove_leaver_loop:
  assumes "foldM remove_leaver (t, es) is = Inr (t', es')" and "distinct is"
  shows "emptied is t t' \<and> paid es' = paid es + sum_list (map (\<lambda>i. own_chips (t_seats t ! i)) is)"
proof -
  let ?I = "\<lambda>xs r. emptied xs t (fst r) \<and>
    paid (snd r) = paid es + sum_list (map (\<lambda>i. own_chips (t_seats t ! i)) xs)"
  have "?I is (t', es')"
  proof (rule foldM_prefix_invariant[OF assms(1), where I = ?I], goal_cases)
    case 1
    show ?case by (simp add: emptied_def)
  next
    case (2 xs i zs r r')
    obtain u fs u' fs' where r: "r = (u, fs)" "r' = (u', fs')" by (cases r, cases r')
    have step: "remove_leaver (u, fs) i = Inr (u', fs')" using 2 r by simp
    have I: "?I xs (u, fs)" using 2 r by simp
    then have "t_seats u ! i = t_seats t ! i"
      using 2(1) assms(2) remove_leaver_step(1)[OF step] by (auto simp: emptied_def)
    with I remove_leaver_step[OF step] emptied_step[of xs t u u' i] show ?case
      by (simp add: r)
  qed
  then show ?thesis by simp
qed

lemma remove_broke_loop:
  assumes "foldM remove_broke (t, es) is = Inr (t', es')"
  shows "emptied is t t' \<and> paid es' = paid es"
proof -
  let ?I = "\<lambda>xs r. emptied xs t (fst r) \<and> paid (snd r) = paid es"
  have "?I is (t', es')"
  proof (rule foldM_prefix_invariant[OF assms(1), where I = ?I], goal_cases)
    case 1
    show ?case by (simp add: emptied_def)
  next
    case (2 xs i zs r r')
    obtain u fs u' fs' where r: "r = (u, fs)" "r' = (u', fs')" by (cases r, cases r')
    have step: "remove_broke (u, fs) i = Inr (u', fs')" using 2 r by simp
    from 2 remove_broke_step[OF step] emptied_step[of xs t u u' i] show ?case
      by (simp add: r)
  qed
  then show ?thesis by simp
qed

text \<open>Emptying distinct seats takes exactly their chips away.\<close>

lemma sum_emptied:
  assumes "emptied is t t'" and "distinct is" and "\<And>i. i \<in> set is \<Longrightarrow> i < length (t_seats t)"
  shows "assets t' + sum_list (map (\<lambda>i. own_chips (t_seats t ! i)) is) = assets t"
proof -
  let ?n = "length (t_seats t)" and ?f = "\<lambda>i. own_chips (t_seats t ! i)"
  have t: "assets t = (\<Sum>i<?n. ?f i)"
    by (simp add: assets_own sum_list_sum_nth atLeast0LessThan)
  have "assets t' = (\<Sum>i<?n. own_chips (t_seats t' ! i))"
    using assms(1) by (simp add: assets_own sum_list_sum_nth atLeast0LessThan emptied_def)
  also have "\<dots> = (\<Sum>i<?n. if i \<in> set is then 0 else ?f i)"
    using assms(1) by (intro sum.cong) (auto simp: emptied_def)
  also have "\<dots> = (\<Sum>i \<in> {..<?n} - set is. ?f i)"
    by (simp add: sum.If_cases Collect_mem_eq Diff_eq Compl_eq)
  finally have t': "assets t' = (\<Sum>i \<in> {..<?n} - set is. ?f i)" .
  have "sum_list (map ?f is) = (\<Sum>i \<in> set is. ?f i)"
    using assms(2) by (simp add: sum_list_distinct_conv_sum_set)
  moreover have "set is \<subseteq> {..<?n}" using assms(3) by auto
  ultimately show ?thesis
    using sum.subset_diff[of "set is" "{..<?n}" ?f] by (simp add: t t')
qed

lemma emptied_trans:
  "emptied is t t' \<Longrightarrow> emptied js t' t'' \<Longrightarrow> emptied (is @ js) t t''"
  by (auto simp: emptied_def)

lemma set_initial_encrypted_deck_eq:
  "set_initial_encrypted_deck L t = Inr t' \<Longrightarrow> \<exists>d. t' = t\<lparr>t_deck_state := d\<rparr>"
  by (auto simp: set_initial_encrypted_deck_def outcome_simps)

text \<open>
  What the reset does to the money: every seat keeps its own chips, or is emptied with its chips paid
  out, and nothing stays wagered.
\<close>

lemma reset_money:
  assumes "reset_for_next_hand L t es = Inr (t', es')"
  shows "assets t' + paid es' = assets t + paid es" "vault t' es' = vault t es"
    "t_pot t' = 0" "sum_of seat_bet t' = 0" "sum_of seat_total_bet t' = 0"
    "t_hand_phase t' = PhaseWaiting"
    "length (t_seats t') = length (t_seats t)"
    "i < length (t_seats t) \<Longrightarrow>
       own_chips (t_seats t' ! i) = (if i \<in> set (leaving t) then 0 else own_chips (t_seats t ! i))"
    "paid es' = paid es + sum_list (map (\<lambda>i. own_chips (t_seats t ! i)) (leaving t))"
proof -
  obtain "is" pool seats es1 t2 es2 t4 where
    pre: "reset_preflight t = Inr (is, pool)"
    and credit: "foldM (credit_addon (t_id t)) ([], es) (enumerate 0 (t_seats t)) = Inr (seats, es1)"
    and leave: "foldM remove_leaver
      (put_contributors (t\<lparr>t_seats := map prepare_next_hand (map refill_time_bank seats),
          t_acted_mask := 0\<rparr>)
        (live_key_mask L (map refill_time_bank seats)), es1) is = Inr (t2, es2)"
    and broke: "foldM remove_broke (t2\<lparr>t_chip_pool := pool\<rparr>, es2)
      (map fst (filter (\<lambda>(_, s). has_left_hand s \<or> is_occupied s \<and> seat_stack s
          = 0) (enumerate 0 (t_seats t2))))
      = Inr (t4, es')"
    and t': "t_seats t' = t_seats t4" "t_pot t' = 0" "t_chip_pool t' = t_chip_pool t4"
        "t_hand_phase t' = PhaseWaiting"
    using assms unfolding reset_for_next_hand_def
    by (fastforce simp: outcome_simps Let_def enter_waiting_def o_def
        dest!: set_initial_encrypted_deck_eq)
  define t1 where "t1 = put_contributors
    (t\<lparr>t_seats := map prepare_next_hand (map refill_time_bank seats), t_acted_mask := 0\<rparr>)
    (live_key_mask L (map refill_time_bank seats))"
  define js where "js = map fst (filter (\<lambda>(_, s). has_left_hand s \<or> is_occupied s \<and> seat_stack s = 0)
    (enumerate 0 (t_seats t2)))"
  note chips = credit_addon_loop[OF credit] and "is" = reset_preflight_eq[OF pre]
  have own: "map own_chips (t_seats t1) = map own_chips (t_seats t)"
    using chips(1) by (simp add: t1_def same_chips_def o_def)
  have len: "length (t_seats t1) = length (t_seats t)"
    using arg_cong[OF own, of length] by simp
  have own_nth: "own_chips (t_seats t1 ! i) = own_chips (t_seats t ! i)" if
      "i < length (t_seats t)" for i
    using arg_cong[OF own, of "\<lambda>xs. xs ! i"] that len by simp
  have leaving: "distinct is" "i \<in> set is \<Longrightarrow> i < length (t_seats t1)" for i
    unfolding "is"(1) len by (simp_all add: leaving_props)
  have paid_own: "map (\<lambda>i. own_chips (t_seats t1 ! i)) is = map (\<lambda>i. own_chips (t_seats t ! i)) is"
    using own_nth leaving(2) len by simp
  have out: "emptied is t1 t2" "paid es2 = paid es + sum_list (map (\<lambda>i. own_chips (t_seats t ! i)) is)"
    using remove_leaver_loop[OF leave[folded t1_def] leaving(1)] chips(2) by (simp_all add: paid_own)
  have gone: "emptied js (t2\<lparr>t_chip_pool := pool\<rparr>) t4" "paid es' = paid es2"
    using remove_broke_loop[OF broke] by (simp_all add: js_def)
  have js: "distinct js" "j \<in> set js \<Longrightarrow> j < length (t_seats t2)" for j
    by (auto simp: js_def distinct_map_filter in_set_enumerate_eq)
  have seat2:
      "t_seats t2 ! j = seat_empty \<or> (\<exists>s \<in> set seats. t_seats t2 ! j
      = prepare_next_hand (refill_time_bank s))"
    if "j < length (t_seats t2)" for j
    using out(1) that by (auto simp: emptied_def t1_def)
  have poor: "own_chips (t_seats t2 ! j) = 0" if "j \<in> set js" for j
  proof -
    have "has_left_hand (t_seats t2 ! j) \<or> seat_stack (t_seats t2 ! j) = 0"
      using that by (auto simp: js_def in_set_enumerate_eq)
    moreover have "seat_pending_addon (t_seats t2 ! j) = 0"
      using seat2[OF js(2)[OF that]] chips(1) by (auto simp: same_chips_def)
    ultimately show ?thesis by (cases "t_seats t2 ! j") auto
  qed
  have assets1: "assets t1 = assets t" by (simp only: assets_own own)
  have assets2: "assets t2 + sum_list (map (\<lambda>i. own_chips (t_seats t ! i)) is) = assets t"
    using sum_emptied[OF out(1) leaving] assets1 by (simp add: paid_own)
  have "assets t4 + sum_list (map (\<lambda>i. own_chips (t_seats t2 ! i)) js)
      = assets (t2\<lparr>t_chip_pool := pool\<rparr>)"
    using sum_emptied[OF gone(1)] js by simp
  moreover have "assets (t2\<lparr>t_chip_pool := pool\<rparr>) = assets t2" by (simp add: assets_def)
  moreover have "sum_list (map (\<lambda>i. own_chips (t_seats t2 ! i)) js) = 0" using poor by simp
  ultimately have "assets t4 = assets t2" by simp
  then show "assets t' + paid es' = assets t + paid es"
    using assets2 out(2) gone(2) t'(1) by (simp add: assets_def)
  show "vault t' es' = vault t es"
    using "is" out(2) gone t'(3) by (simp add: vault_def emptied_def)
  have clean: "seat_bet s = 0 \<and> seat_total_bet s = 0" if s: "s \<in> set (t_seats t4)" for s
  proof -
    obtain j where j: "j < length (t_seats t2)" "s = t_seats t4 ! j"
      using s gone(1) by (auto simp: in_set_conv_nth emptied_def)
    show ?thesis
    proof (cases "j \<in> set js")
      case True
      with gone(1) j show ?thesis by (simp add: emptied_def)
    next
      case False
      then have "s = t_seats t2 ! j" "\<not> has_left_hand s"
        using gone(1) j by (auto simp: emptied_def js_def in_set_enumerate_eq image_iff)
      with seat2[OF j(1)] show ?thesis by auto
    qed
  qed
  show "sum_of seat_bet t' = 0" "sum_of seat_total_bet t' = 0"
    using clean by (simp_all add: t'(1))
  show "t_pot t' = 0" "t_hand_phase t' = PhaseWaiting" by (fact t')+
  show "length (t_seats t') = length (t_seats t)"
    using out(1) gone(1) by (simp add: emptied_def t'(1) len)
  show "paid es' = paid es + sum_list (map (\<lambda>i. own_chips (t_seats t ! i)) (leaving t))"
    using out(2) gone(2) "is"(1) by simp
  show "own_chips (t_seats t' ! i) = (if i \<in> set (leaving t) then 0 else own_chips (t_seats t ! i))"
    if "i < length (t_seats t)"
  proof -
    have "t_seats t' ! i = (if i \<in> set js then seat_empty else t_seats t2 ! i)"
      using that gone(1) out(1) by (simp add: emptied_def t'(1) len)
    then have "own_chips (t_seats t' ! i) = own_chips (t_seats t2 ! i)" using poor[of i] by simp
    also have "\<dots> = (if i \<in> set is then 0 else own_chips (t_seats t1 ! i))"
      using that out(1) by (simp add: emptied_def len)
    finally show ?thesis using own_nth[OF that] "is"(1) by simp
  qed
qed

text \<open>So the books are right after a reset exactly when nothing was still wagered.\<close>

lemma reset_books:
  assumes "reset_for_next_hand L t es = Inr (t', es')"
  shows "books_ok t' \<longleftrightarrow> assets t = t_chip_pool t"
  using reset_money[OF assms]
  by (simp add: books_ok_def wagers_def vault_def del: sum_list_eq_0_iff) linarith

lemma reset_custody:
  assumes "reset_for_next_hand L t es = Inr (t', es')" and "wagers t = 0"
  shows "custody (t, es) (t', es')"
  using reset_books[OF assms(1)] reset_money(2)[OF assms(1)] assms(2)
  by (auto simp: custody_def books_ok_def)

section \<open>The end of a hand without a showdown\<close>

text \<open>The first seat still in contention gets the pot less the rake.\<close>

lemma put_stack_assets:
  assumes "i < length (t_seats t)" "set_stack (t_seats t ! i) (seat_stack (t_seats t ! i) + n) = Inr s"
  shows "assets (put_seat t i s) = assets t + n"
    "sum_of seat_bet (put_seat t i s) = sum_of seat_bet t"
    "sum_of seat_total_bet (put_seat t i s) = sum_of seat_total_bet t"
  using assets_put[OF assms(1), of s] sum_of_put[OF assms(1), of seat_bet s]
    sum_of_put[OF assms(1), of seat_total_bet s] set_stack_money[OF assms(2)] by linarith+

lemma find_seat_None:
  "find (\<lambda>(_, s). P s) (enumerate n ss) = None \<longleftrightarrow> (\<forall>s \<in> set ss. \<not> P s)"
  by (induction ss arbitrary: n) auto

lemma end_without_showdown_parts:
  assumes "end_without_showdown L t es = Inr (t', es')" and "1 \<le> count_active_players (t_seats t)"
  obtains rake i t3 es3 where
    "rake \<le> wagers t" "rake \<le> t_chip_pool t" "assets t3 = assets t + (wagers t - rake)" "t_pot t3 = 0"
    "t_chip_pool t3 = t_chip_pool t - rake" "sum_of seat_bet t3 = 0" "paid es3 = paid es + rake"
    "reset_for_next_hand L t3 es3 = Inr (t', es')"
proof -
  obtain t1 es1 where c: "collect_bets_to_pot t es = Inr (t1, es1)"
    using assms(1) by (auto simp: end_without_showdown_def rbind_eq_Inr)
  note m = collect_bets_money[OF c] collect_bets_eq(2)[OF c]
  have "count_active_players (t_seats t1) \<noteq> 0"
    using collect_bets_count[OF c] assms(2) by simp
  then have "find (\<lambda>(_, s). in_contention s) (enumerate 0 (t_seats t1)) \<noteq> None"
    by (auto simp: count_active_players_def find_seat_None filter_empty_conv)
  then obtain i s where f:
      "find (\<lambda>(_, s). in_contention s) (enumerate 0 (t_seats t1)) = Some (i, s)" by auto
  from assms(1) obtain rake t2 w where r: "collect_rake t1 = Inr (rake, t2)" "i < length (t_seats t2)"
    and w: "set_stack (t_seats t2 ! i) (seat_stack (t_seats t2 ! i) + t_pot t2) = Inr w"
    and reset: "reset_for_next_hand L ((put_seat t2 i w)\<lparr>t_pot := 0\<rparr>)
      ((if rake > 0 then es1 @ [HandEv (RakeCollected (t_id t2) (t_pot t1) rake (t_pot t2)
          (tr_rake_mode (t_rules t2)))]
        else es1) @ [HandEv (HandEndedWithoutShowdown (t_id t2) i (seat_player w) (t_pot t2))])
            = Inr (t', es')"
    unfolding end_without_showdown_def c
    by (auto simp: rbind_eq_Inr f idx_eq_Inr checked_eq_Inr checked_add_eq_Some Let_def)
  note rk = collect_rake_eq[OF r(1)]
  have a: "assets ((put_seat t2 i w)\<lparr>t_pot := 0\<rparr>) = assets t + (wagers t - rake)"
    "sum_of seat_bet ((put_seat t2 i w)\<lparr>t_pot := 0\<rparr>) = 0"
    using put_stack_assets[OF r(2) w] m rk(1) by (simp_all add: assets_def)
  show thesis
    by (rule that[OF _ _ a(1) _ _ a(2) _ reset]) (use m rk in simp_all)
qed

lemma end_without_showdown_custody:
  assumes "end_without_showdown L t es = Inr (t', es')" and "1 \<le> count_active_players (t_seats t)"
  shows "custody (t, es) (t', es')"
proof -
  obtain rake i t3 es3 where p: "rake \<le> wagers t" "rake \<le> t_chip_pool t"
    "assets t3 = assets t + (wagers t - rake)" "t_pot t3 = 0" "t_chip_pool t3 = t_chip_pool t - rake"
    "sum_of seat_bet t3 = 0" "paid es3 = paid es + rake"
    and reset: "reset_for_next_hand L t3 es3 = Inr (t', es')"
    by (rule end_without_showdown_parts[OF assms])
  show ?thesis
    using p reset_books[OF reset] reset_money(2)[OF reset]
    by (auto simp: custody_def books_ok_def vault_def)
qed

section \<open>The next street\<close>

lemma reveal_steps [phase_steps]:
  "start_preflop_reveal_phase t es = Inr (t', es') \<Longrightarrow> same_custody_state t t'"
  "start_community_reveal_phase t n street es = Inr (t', es') \<Longrightarrow> same_custody_state t t'"
  "start_showdown_reveal_phase t es = Inr (t', es') \<Longrightarrow> same_custody_state t t'"
  by (auto simp: start_preflop_reveal_phase_def start_community_reveal_phase_def
      start_showdown_reveal_phase_def rbind_eq_Inr Let_def same_custody_state_def dest!: enter_steps(2))

lemma reveal_paid:
  "start_preflop_reveal_phase t es = Inr (t', es') \<Longrightarrow> paid es' = paid es"
  "start_community_reveal_phase t n street es = Inr (t', es') \<Longrightarrow> paid es' = paid es"
  "start_showdown_reveal_phase t es = Inr (t', es') \<Longrightarrow> paid es' = paid es"
  by (auto simp: start_preflop_reveal_phase_def start_community_reveal_phase_def
      start_showdown_reveal_phase_def rbind_eq_Inr Let_def)

lemma run_it_twice_step:
  assumes "maybe_trigger_run_it_twice t es = Inr (t', es')"
  shows "same_custody_state t t'" "paid es' = paid es" "t_hand_phase t' = t_hand_phase t"
  using assms
  by (auto simp: maybe_trigger_run_it_twice_def trigger_run_it_twice_def rbind_eq_Inr Let_def
      same_custody_state_def split: if_splits)

lemma open_next_street_step:
  assumes "open_next_street t es = Inr (Some (to, t', es'))"
  shows "same_custody_state t t'" "paid es' = paid es"
  using assms
  by (auto simp: open_next_street_def Let_def rbind_eq_Inr dest: reveal_steps reveal_paid split:
      if_splits)

lemma advance_round_custody:
  assumes "advance_round L t es = Inr (t', es')" and "1 \<le> count_active_players (t_seats t)"
  shows "custody (t, es) (t', es')"
proof (cases "count_active_players (t_seats t) \<le> 1")
  case True
  with assms show ?thesis by (auto simp: advance_round_def intro: end_without_showdown_custody)
next
  case False
  with assms(1) obtain t1 es1 nxt where rit: "maybe_trigger_run_it_twice t es = Inr (t1, es1)"
    and street: "open_next_street t1 es1 = Inr nxt"
    and out: "case nxt of None \<Rightarrow> t' = t1 \<and> es' = es1 | Some (to, t2, es2) \<Rightarrow> t' = t2 \<and> paid es'
        = paid es2"
    unfolding advance_round_def by (fastforce simp: rbind_eq_Inr split: option.split_asm)
  note rit = run_it_twice_step[OF rit]
  have "same_custody_state t t' \<and> paid es' = paid es"
  proof (cases nxt)
    case None
    with out rit show ?thesis by simp
  next
    case (Some r)
    obtain to t2 es2 where r: "r = (to, t2, es2)" by (cases r)
    with Some street have "open_next_street t1 es1 = Inr (Some (to, t2, es2))" by simp
    from open_next_street_step[OF this] out rit Some r show ?thesis
      by (auto intro: same_custody_trans)
  qed
  then show ?thesis by (auto intro: quiet_custody same_custody_quiet)
qed

lemma set_current_turn_step:
  assumes "set_current_turn t turn es = Inr (t', es')"
  shows "same_custody_state t t'" "paid es' = paid es"
  using assms by (auto simp: set_current_turn_def rbind_eq_Inr dest: deadline_steps)

lemma collect_and_advance_custody:
  assumes "collect_bets_to_pot t es = Inr (t1, es1)" "advance_round L t1 es1 = Inr (t', es')"
    and "1 \<le> count_active_players (t_seats t)"
  shows "custody (t, es) (t', es')"
  using collect_bets_money(6)[OF assms(1)] advance_round_custody[OF assms(2)] collect_bets_count[OF
      assms(1)]
    assms(3) by (auto intro: custody_trans)

lemma advance_turn_custody:
  assumes "advance_turn L t es = Inr (t', es')" and "1 \<le> count_active_players (t_seats t)"
  shows "custody (t, es) (t', es')"
  using assms
  by (auto simp: advance_turn_def rbind_eq_Inr split: if_splits
      intro: collect_and_advance_custody quiet_custody same_custody_quiet dest: set_current_turn_step)

section \<open>The actions of the players\<close>

text \<open>
  A seat action puts a new seat in place of the old one and changes flags and phase; a wager moves
  chips from its stack to its bet.
\<close>

definition seat_action ::
    "'p table \<times> table_event list \<Rightarrow> nat \<Rightarrow> 'p seat \<Rightarrow> 'p table \<times> table_event list \<Rightarrow> bool" where
  "seat_action r i s r' \<longleftrightarrow> i < length (t_seats (fst r)) \<and>
     same_custody_state (put_seat (fst r) i s) (fst r') \<and> paid (snd r') = paid (snd r)"

definition wager :: "'p seat \<Rightarrow> 'p seat \<Rightarrow> bool" where
  "wager s s' \<longleftrightarrow> (\<exists>n. seat_stack s' + n = seat_stack s \<and> seat_bet s' = seat_bet s + n \<and>
     seat_total_bet s' = seat_total_bet s + n \<and> seat_pending_addon s' = seat_pending_addon s)"

lemma wager_refl [simp]: "wager s s"
  by (auto simp: wager_def)

lemma seat_action_custody:
  assumes "seat_action (t, es) i s (t', es')" and "wager (t_seats t ! i) s"
  shows "custody (t, es) (t', es')"
proof -
  have i: "i < length (t_seats t)" and same: "same_custody_state (put_seat t i s) t'"
      "paid es' = paid es"
    using assms(1) by (simp_all add: seat_action_def)
  from assms(2) obtain n where "seat_stack s + n = seat_stack (t_seats t ! i)"
    "seat_bet s = seat_bet (t_seats t ! i) + n" "seat_total_bet s = seat_total_bet (t_seats t ! i) + n"
    "seat_pending_addon s = seat_pending_addon (t_seats t ! i)"
    by (auto simp: wager_def)
  from wager_books[OF i refl this] same show ?thesis
    by (auto simp: custody_def vault_def books_ok_def assets_def wagers_def same_custody_state_def)
qed

lemma set_status_wager: "set_status s st = Inr s' \<Longrightarrow> st \<in> {StActive, StFolded, StAllIn} \<Longrightarrow> is_occupied s \<Longrightarrow>
    \<not> is_waiting s \<Longrightarrow> wager s s'"
  by (cases s) (auto simp: wager_def)

lemma count_put_seat:
  assumes "i < length ss"
  shows "count_active_players (ss[i := s]) + of_bool (in_contention (ss ! i)) =
    count_active_players ss + of_bool (in_contention s)"
proof -
  have count:
      "count_active_players ss = sum_list (map (\<lambda>s. of_bool (in_contention s)) ss)" for ss ::
      "'a seat list"
    by (induction ss) (auto simp: count_active_players_def)
  show ?thesis
    using sum_list_update_nat[of i "map (\<lambda>s. of_bool (in_contention s)) ss"
        "of_bool (in_contention s)"] assms
    by (simp add: count map_update)
qed

lemma seat_action_count:
  assumes "seat_action (t, es) i s (t', es')"
  shows "count_active_players (t_seats t) \<le> count_active_players (t_seats t') + 1"
    "in_contention (t_seats t ! i) \<longrightarrow> in_contention s \<Longrightarrow>
     count_active_players (t_seats t) \<le> count_active_players (t_seats t')"
  using count_put_seat[of i "t_seats t" s] assms
  by (auto simp: seat_action_def same_custody_state_def of_bool_def split: if_splits)

lemma act_fold_action:
  assumes "act_fold t i reason es = Inr (t', es')"
  obtains s where "seat_action (t, es) i s (t', es')" "wager (t_seats t ! i) s" "\<not> in_contention s"
proof -
  from assms obtain s t1 where i: "i < length (t_seats t)" and s:
      "set_status (t_seats t ! i) StFolded = Inr s"
    and d: "disarm_betting_deadline (set_seat_acted_this_round (put_seat t i s) i True) = Inr t'"
    and es: "es' = es @ [ActionEv (PlayerFolded (t_id t') i reason (round_state t'))]"
    by (auto simp: act_fold_def rbind_eq_Inr idx_eq_Inr)
  have "seat_action (t, es) i s (t', es')"
    using i es deadline_steps(2)[OF d]
    by (simp add: seat_action_def same_custody_state_def set_seat_acted_this_round_def)
  moreover have "wager (t_seats t ! i) s \<and> \<not> in_contention s"
    using s by (cases "t_seats t ! i") (auto simp: wager_def in_contention_iff)
  ultimately show thesis using that by blast
qed

lemma with_playing_Inr:
  "with_playing s f = Inr s' \<longleftrightarrow> (\<exists>p p'. s = Playing p \<and> f p = Inr p' \<and> s' = Playing p')"
  by (cases s) (auto simp: rbind_eq_Inr)

lemma act_match_bet_action:
  assumes "act_match_bet t i r es = Inr (t', es')"
  obtains s where "seat_action (t, es) i s (t', es')" "wager (t_seats t ! i) s"
    "in_contention (t_seats t ! i) \<longrightarrow> in_contention s"
proof (cases "seat_bet (t_seats t ! i) \<ge> br_current_bet r")
  case True
  with assms have i: "i < length (t_seats t)" "paid es' = paid es"
    and d: "disarm_betting_deadline (set_seat_acted_this_round t i True) = Inr t'"
    by (auto simp: act_match_bet_def rbind_eq_Inr idx_eq_Inr)
  have "seat_action (t, es) i (t_seats t ! i) (t', es')"
    using i deadline_steps(2)[OF d]
    by (simp add: seat_action_def same_custody_state_def set_seat_acted_this_round_def)
  then show thesis using that[of "t_seats t ! i"] by simp
next
  case False
  let ?n = "process_call r (seat_bet (t_seats t ! i)) (seat_stack (t_seats t ! i))"
  from False assms obtain p p' where i: "i < length (t_seats t)" "paid es' = paid es"
    and p: "t_seats t ! i = Playing p" "?n \<le> os_stack (ps_occupied p)"
      "p' = p\<lparr>ps_occupied := (ps_occupied p)\<lparr>os_stack := os_stack (ps_occupied p) - ?n\<rparr>,
        ps_bet := ps_bet p + ?n, ps_total_bet := ps_total_bet p + ?n,
        ps_status := (if os_stack (ps_occupied p) - ?n = 0 \<and> ?n > 0 then PsAllIn else ps_status p)\<rparr>"
    and d: "disarm_betting_deadline (set_seat_acted_this_round (put_seat t i (Playing p')) i True)
        = Inr t'"
    unfolding act_match_bet_def
    by (auto simp: rbind_eq_Inr idx_eq_Inr Let_def with_playing_Inr checked_eq_Inr checked_sub_eq_Some
        checked_add_eq_Some)
  have "seat_action (t, es) i (Playing p') (t', es')"
    using i deadline_steps(2)[OF d]
    by (simp add: seat_action_def same_custody_state_def set_seat_acted_this_round_def)
  moreover have "wager (t_seats t ! i) (Playing p')"
    unfolding wager_def using p by (intro exI[of _ ?n]) simp
  moreover have "in_contention (t_seats t ! i) \<longrightarrow> in_contention (Playing p')"
    using p by (auto simp: in_contention_iff)
  ultimately show thesis using that by blast
qed

lemma process_raise_Inr:
  assumes "process_raise r total_bet b stack = Inr (needed, r')"
  shows "needed + b = total_bet" "needed \<le> stack" "0 < needed"
    "br_current_bet r < total_bet" "br_current_bet r' = total_bet"
    "br_min_raise r \<le> total_bet - br_current_bet r \<or> needed = stack"
    "br_min_raise r' = max (br_min_raise r) (total_bet - br_current_bet r)"
  using assms by (auto simp: process_raise_def Let_def split: if_splits)

lemma act_raise_action:
  assumes "act_raise t i total_bet es = Inr (t', es')"
  obtains s where "seat_action (t, es) i s (t', es')" "wager (t_seats t ! i) s"
    "in_contention (t_seats t ! i) \<longrightarrow> in_contention s"
proof -
  from assms obtain r needed r' t1 p p' t2 where i: "i < length (t_seats t)" "paid es' = paid es"
    and raise: "process_raise r total_bet (seat_bet (t_seats t ! i)) (seat_stack (t_seats t ! i))
        = Inr (needed, r')"
    and t1: "set_betting_round t r' = Inr t1"
    and p: "t_seats t ! i = Playing p" "needed \<le> os_stack (ps_occupied p)"
      "p' = p\<lparr>ps_occupied := (ps_occupied p)\<lparr>os_stack := os_stack (ps_occupied p) - needed\<rparr>,
        ps_bet := total_bet, ps_total_bet := ps_total_bet p + needed,
        ps_status := (if os_stack (ps_occupied p) - needed = 0 then PsAllIn else ps_status p)\<rparr>"
    and d: "disarm_betting_deadline (set_seat_acted_this_round (put_seat t1 i (Playing p')) i True)
        = Inr t2"
    and t': "t' = reopen_action t2 i"
    unfolding act_raise_def
    by (auto simp: rbind_eq_Inr idx_eq_Inr Let_def with_playing_Inr checked_eq_Inr checked_sub_eq_Some
        checked_add_eq_Some map_err_eq_Inr ok_or_eq_Inr)
  have "seat_action (t, es) i (Playing p') (t', es')"
    using i deadline_steps(2)[OF d] deadline_steps(4)[OF t1]
    by (simp add: seat_action_def same_custody_state_def set_seat_acted_this_round_def t'
        reopen_action_def)
  moreover have "wager (t_seats t ! i) (Playing p')"
    unfolding wager_def using p process_raise_Inr(1,2)[OF raise] by (intro exI[of _ needed]) simp
  moreover have "in_contention (t_seats t ! i) \<longrightarrow> in_contention (Playing p')"
    using p by (auto simp: in_contention_iff)
  ultimately show thesis using that by blast
qed

text \<open>
  Every action of a player keeps the books, whatever it does afterwards: passing the turn, opening the
  next street, or paying out the pot when one player is left.
\<close>

lemma apply_player_action_custody:
  assumes "apply_player_action L t i action es = Inr (t', es')" and
      "2 \<le> count_active_players (t_seats t)"
  shows "custody (t, es) (t', es')"
proof -
  from assms(1) obtain t1 es1 where
    act: "(case action of Fold reason \<Rightarrow> act_fold t i reason es
       | MatchBet \<Rightarrow> rbind (case betting_round_of t of None \<Rightarrow> Inl Panic | Some r \<Rightarrow> Inr r)
                       (\<lambda>r. act_match_bet t i r es)
       | RaiseTo total_bet \<Rightarrow> act_raise t i total_bet es) = Inr (t1, es1)"
    and rest: "end_without_showdown L t1 es1 = Inr (t', es') \<or> advance_turn L t1 es1 = Inr (t', es')"
    unfolding apply_player_action_def by (auto simp: rbind_eq_Inr split: if_splits)
  have "\<exists>s. seat_action (t, es) i s (t1, es1) \<and> wager (t_seats t ! i) s"
  proof (cases action)
    case (Fold reason)
    with act show ?thesis by (auto elim!: act_fold_action)
  next
    case MatchBet
    with act show ?thesis by (auto simp: rbind_eq_Inr split: option.splits elim!: act_match_bet_action)
  next
    case (RaiseTo total_bet)
    with act show ?thesis by (auto elim!: act_raise_action)
  qed
  then obtain s where s: "seat_action (t, es) i s (t1, es1)" "wager (t_seats t ! i) s" by blast
  have "1 \<le> count_active_players (t_seats t1)"
    using seat_action_count(1)[OF s(1)] assms(2) by linarith
  with rest have "custody (t1, es1) (t', es')"
    by (auto intro: end_without_showdown_custody advance_turn_custody)
  with seat_action_custody[OF s] show ?thesis by (rule custody_trans)
qed

lemma apply_check_call_custody:
  assumes "apply_check L t i es = Inr r \<or> apply_call L t i es = Inr r" and
      "2 \<le> count_active_players (t_seats t)"
  shows "custody (t, es) r"
  using assms apply_player_action_custody[of L t i MatchBet es "fst r" "snd r"]
  by (auto simp: apply_check_def apply_call_def rbind_eq_Inr split: if_splits)

lemma apply_bet_custody:
  assumes "apply_bet L t i amount es = Inr (t', es')" and "2 \<le> count_active_players (t_seats t)"
  shows "custody (t, es) (t', es')"
  using assms
  by (auto simp: apply_bet_def apply_raise_def rbind_eq_Inr custody_def vault_def dest!:
      apply_player_action_custody)

lemma apply_fold_with_proof_custody:
  assumes "apply_fold_with_proof L t i cards prf es = Inr (t', es')" and
      "2 \<le> count_active_players (t_seats t)"
  shows "custody (t, es) (t', es')"
proof -
  from assms(1) obtain t1 s t3 deck where i: "i < length (t_seats t)"
    and t1: "remove_deck_contributor L t i = Inr t1" and s:
        "set_status (t_seats t ! i) StFolded = Inr s"
    and d: "disarm_betting_deadline (set_seat_acted_this_round
      (put_seat (t1\<lparr>t_deck_state := (t_deck_state t1)\<lparr>ds_encrypted := deck\<rparr>\<rparr>) i s) i True) = Inr t3"
    and rest: "end_without_showdown L t3 (es @ [ActionEv (PlayerFolded (t_id t3) i
        FOLD_REASON_MANUAL (round_state t3))])
        = Inr (t', es') \<or>
      advance_turn L t3 (es @ [ActionEv (PlayerFolded (t_id t3) i FOLD_REASON_MANUAL (round_state
          t3))]) = Inr (t', es')"
    by (auto simp: apply_fold_with_proof_def rbind_eq_Inr idx_eq_Inr Let_def split: if_splits)
  let ?es = "es @ [ActionEv (PlayerFolded (t_id t3) i FOLD_REASON_MANUAL (round_state t3))]"
  have act: "seat_action (t, es) i s (t3, ?es)"
    using i deadline_steps(2)[OF d] deck_steps(3)[OF t1]
    by (simp add: seat_action_def same_custody_state_def set_seat_acted_this_round_def)
  have "wager (t_seats t ! i) s"
    using s by (cases "t_seats t ! i") (auto simp: wager_def)
  note first = seat_action_custody[OF act this]
  have "1 \<le> count_active_players (t_seats t3)"
    using seat_action_count(1)[OF act] assms(2) by linarith
  with rest have "custody (t3, ?es) (t', es')"
    using end_without_showdown_custody advance_turn_custody by blast
  with first show ?thesis by (rule custody_trans)
qed

section \<open>Blinds, antes and the start of a round\<close>

text \<open>The search around the table finds the nearest seat that qualifies.\<close>

lemma ring_search_Some:
  "ring_search ok seats from m ks = Inr (Some i) \<Longrightarrow>
   \<exists>ys k zs. ks = ys @ k # zs \<and> i = (from + k) mod m \<and> i < length seats \<and> ok (seats ! i) \<and>
     (\<forall>j \<in> set ys. \<not> ok (seats ! ((from + j) mod m)))"
proof (induction ks)
  case (Cons k ks)
  then consider "i = (from + k) mod m" "i < length seats" "ok (seats ! i)"
    | "\<not> ok (seats ! ((from + k) mod m))" "ring_search ok seats from m ks = Inr (Some i)"
    by (auto simp: Let_def rbind_eq_Inr idx_eq_Inr split: if_splits)
  then show ?case
  proof cases
    case 1
    then show ?thesis by (intro exI[of _ "[]"]) auto
  next
    case 2
    from Cons.IH[OF 2(2)] obtain ys k' zs where "ks = ys @ k' # zs" "i = (from + k') mod m"
        "i < length seats"
      "ok (seats ! i)" "\<forall>j \<in> set ys. \<not> ok (seats ! ((from + j) mod m))" by blast
    with 2(1) show ?thesis by (intro exI[of _ "k # ys"]) auto
  qed
qed simp

lemma ring_search_None:
  "ring_search ok seats from m ks = Inr None \<Longrightarrow> k \<in> set ks \<Longrightarrow> \<not> ok (seats ! ((from + k) mod m))"
  by (induction ks) (auto simp: Let_def rbind_eq_Inr idx_eq_Inr split: if_splits)

lemma ring_reaches:
  assumes "from < m" "i < m" "i \<noteq> from"
  obtains k where "0 < k" "k < m" "(from + k) mod (m :: nat) = i"
proof (cases "from < i")
  case True
  then show thesis using assms that[of "i - from"] by simp
next
  case False
  then have "from + (m + i - from) = m + i" using assms by simp
  then show thesis using assms False that[of "m + i - from"] by simp
qed

text \<open>If another seat qualifies, the search does not come back to where it started.\<close>

lemma ring_search_other:
  assumes "ring_search ok seats from m [1..<length seats + 1] = Inr (Some i)" and "m = length seats"
    and "from < m" "j < m" "j \<noteq> from" "ok (seats ! j)"
  shows "i \<noteq> from"
proof
  assume "i = from"
  obtain k where k: "0 < k" "k < m" "(from + k) mod m = j"
    by (rule ring_reaches[OF assms(3-5)])
  from ring_search_Some[OF assms(1)] obtain ys l zs where l: "[1..<length seats + 1] = ys @ l # zs"
    "i = (from + l) mod m" "\<forall>j \<in> set ys. \<not> ok (seats ! ((from + j) mod m))" by blast
  have "l \<in> set [1..<length seats + 1]" "sorted (ys @ l # zs)"
    unfolding l(1) using sorted_upt[of 1 "length seats + 1"] l(1) by simp_all
  then have sort: "1 \<le> l" "l \<le> m" "\<And>z. z \<in> set zs \<Longrightarrow> l \<le> z"
    using assms(2) by (auto simp: sorted_append)
  have "l = m" using l(2) \<open>i = from\<close> assms(3) sort(1,2) by (auto simp: mod_if split: if_splits)
  have "k \<in> set [1..<length seats + 1]" using k(1,2) assms(2) by simp
  then have "k \<in> set (ys @ l # zs)" unfolding l(1) .
  with sort(3) k(2) \<open>l = m\<close> have "k \<in> set ys" by fastforce
  with l(3) have "\<not> ok (seats ! ((from + k) mod m))" by (rule bspec)
  with k(3) assms(6) show False by simp
qed

lemma post_blind_wager:
  assumes "post_blind t i amt = Inr t'" and "seat_bet (t_seats t ! i) = 0"
  obtains s where "i < length (t_seats t)" "t' = put_seat t i s" "wager (t_seats t ! i) s"
    "in_contention (t_seats t ! i) \<longrightarrow> in_contention s" "participating (t_seats t ! i)"
proof -
  from assms(1) obtain p s where i: "i < length (t_seats t)" and p: "t_seats t ! i = Playing p"
    "amt \<le> os_stack (ps_occupied p)"
    and s: "(if os_stack (ps_occupied p) - amt = 0 then set_status (Playing (p\<lparr>ps_occupied :=
        (ps_occupied p)\<lparr>os_stack := os_stack (ps_occupied p) - amt\<rparr>, ps_bet := amt,
        ps_total_bet := ps_total_bet p + amt\<rparr>)) StAllIn
      else Inr (Playing (p\<lparr>ps_occupied := (ps_occupied p)\<lparr>os_stack := os_stack (ps_occupied p) - amt\<rparr>,
        ps_bet := amt, ps_total_bet := ps_total_bet p + amt\<rparr>))) = Inr s"
    and t': "t' = put_seat t i s"
    by (auto simp: post_blind_def rbind_eq_Inr idx_eq_Inr with_playing_Inr checked_eq_Inr
        checked_sub_eq_Some checked_add_eq_Some)
  have "wager (t_seats t ! i) s"
    unfolding wager_def using p s assms(2) by (intro exI[of _ amt]) (auto split: if_splits)
  moreover have "in_contention (t_seats t ! i) \<longrightarrow> in_contention s" "participating (t_seats t ! i)"
    using p s by (auto simp: in_contention_iff participating_iff split: if_splits)
  ultimately show thesis using that i t' by blast
qed

lemma same_count_put:
  assumes "i < length ss" "in_contention (ss ! i) \<longrightarrow> in_contention s"
  shows "count_active_players ss \<le> count_active_players (ss[i := s])"
  using count_put_seat[OF assms(1), of s] assms(2) by (simp add: of_bool_def split: if_splits)

text \<open>Two blinds on two seats without bets.\<close>

lemma blind_seats_differ:
  assumes "blind_seats t = Inr (sb, bb)" and "length (t_seats t) = max_players t"
    and "participating (t_seats t ! sb)" and "sb < length (t_seats t)"
    and "2 \<le> count_active_occupied (t_seats t)"
  shows "bb \<noteq> sb"
proof -
  have "\<exists>j < length (t_seats t). j \<noteq> sb \<and> participating (t_seats t ! j)"
  proof (rule ccontr)
    assume "\<not> ?thesis"
    then have "{j. j < length (t_seats t) \<and> participating (t_seats t ! j)} \<subseteq> {sb}" by auto
    then have "card {j. j < length (t_seats t) \<and> participating (t_seats t ! j)} \<le> 1"
      by (metis card_mono finite.emptyI finite.insertI is_singletonI is_singleton_altdef)
    then show False
      using assms(5) by (simp add: count_active_occupied_def length_filter_conv_card)
  qed
  then obtain j where j: "j < length (t_seats t)" "j \<noteq> sb" "participating (t_seats t ! j)" by blast
  from assms(1) obtain x where x: "find_next_participating_seat (t_seats t) sb (max_players t) = Inr x"
    "bb = (case x of None \<Rightarrow> sb | Some i \<Rightarrow> i)"
    by (auto simp: blind_seats_def Let_def rbind_eq_Inr split: if_splits)
  then have search:
      "ring_search participating (t_seats t) sb (length (t_seats t)) [1..<length (t_seats t) + 1]
      = Inr x"
    using assms(2) by (simp add: find_next_participating_seat_def)
  obtain k where k: "0 < k" "k < length (t_seats t)" "(sb + k) mod length (t_seats t) = j"
    by (rule ring_reaches[OF assms(4) j(1,2)])
  show ?thesis
  proof (cases x)
    case None
    with search have
        "ring_search participating (t_seats t) sb (length (t_seats t)) [1..<length (t_seats t) + 1]
        = Inr None"
      by simp
    from ring_search_None[OF this, of k] k j show ?thesis by simp
  next
    case (Some i)
    with search have
        "ring_search participating (t_seats t) sb (length (t_seats t)) [1..<length (t_seats t) + 1]
        = Inr (Some i)"
      by simp
    from ring_search_other[OF this refl assms(4) j] x(2) Some show ?thesis by simp
  qed
qed

lemma put_seat_custody:
  assumes "i < length (t_seats t)" "wager (t_seats t ! i) s"
  shows "custody (t, es) (put_seat t i s, es)"
  by (rule seat_action_custody[where i = i and s = s]) (use assms in \<open>simp_all add: seat_action_def\<close>)

lemma post_blinds_custody:
  assumes "post_blinds t es = Inr (bb, t', es')" and bets: "\<forall>s \<in> set (t_seats t). seat_bet s = 0"
    and "length (t_seats t) = max_players t" and "2 \<le> count_active_occupied (t_seats t)"
  shows "custody (t, es) (t', es')"
      "count_active_players (t_seats t) \<le> count_active_players (t_seats t')"
proof -
  from assms(1) obtain sb m1 m2 t1 where seats: "blind_seats t = Inr (sb, bb)"
    and b1: "post_blind t sb m1 = Inr t1" and b2: "post_blind t1 bb m2 = Inr t'" and es':
        "paid es' = paid es"
    by (auto simp: post_blinds_def rbind_eq_Inr idx_eq_Inr Let_def)
  have sb: "sb < length (t_seats t)" using b1 by (auto simp: post_blind_def rbind_eq_Inr idx_eq_Inr)
  then have "seat_bet (t_seats t ! sb) = 0" using bets by simp
  from post_blind_wager[OF b1 this] obtain s where s: "t1 = put_seat t sb s" "wager (t_seats t ! sb) s"
    "in_contention (t_seats t ! sb) \<longrightarrow> in_contention s" "participating (t_seats t ! sb)" .
  have "bb \<noteq> sb" by (rule blind_seats_differ[OF seats assms(3) s(4) sb assms(4)])
  moreover have bb: "bb < length (t_seats t1)"
    using b2 by (auto simp: post_blind_def rbind_eq_Inr idx_eq_Inr)
  ultimately have "seat_bet (t_seats t1 ! bb) = 0" using bets s(1) by simp
  from post_blind_wager[OF b2 this] obtain s' where s': "t' = put_seat t1 bb s'"
      "wager (t_seats t1 ! bb) s'"
    "in_contention (t_seats t1 ! bb) \<longrightarrow> in_contention s'" .
  have "custody (t, es) (t', es)"
    using put_seat_custody[OF sb s(2)] put_seat_custody[OF bb s'(2)] s(1) s'(1)
    by (metis custody_trans)
  then show "custody (t, es) (t', es')" using es' by (simp add: custody_def vault_def)
  show "count_active_players (t_seats t) \<le> count_active_players (t_seats t')"
    using same_count_put[OF sb s(3)] same_count_put[OF bb s'(3)] s(1) s'(1) by simp
qed

text \<open>An ante goes from the stack to the contribution, and was added to the pot before.\<close>

lemma pay_ante_step:
  assumes "pay_ante (t, es) (i, n) = Inr (t', es')"
  shows "assets t' + n = assets t" "sum_of seat_total_bet t' = sum_of seat_total_bet t + n"
    "sum_of seat_bet t' = sum_of seat_bet t" "t_pot t' = t_pot t" "t_chip_pool t' = t_chip_pool t"
    "paid es' = paid es" "count_active_players (t_seats t) \<le> count_active_players (t_seats t')"
proof -
  from assms obtain p p' where i: "i < length (t_seats t)"
    and p: "t_seats t ! i = Playing p" "n \<le> os_stack (ps_occupied p)"
      "p' = p\<lparr>ps_occupied := (ps_occupied p)\<lparr>os_stack := os_stack (ps_occupied p) - n\<rparr>,
        ps_total_bet := ps_total_bet p + n,
        ps_status := (if os_stack (ps_occupied p) - n = 0 then PsAllIn else ps_status p)\<rparr>"
    and t': "t' = put_seat t i (Playing p')" and "paid es' = paid es"
    by (auto simp: pay_ante_def rbind_eq_Inr idx_eq_Inr with_playing_Inr sub_u64_eq_Inr add_u64_eq_Inr)
  then show "paid es' = paid es" "t_pot t' = t_pot t" "t_chip_pool t' = t_chip_pool t" by simp_all
  show "count_active_players (t_seats t) \<le> count_active_players (t_seats t')"
    unfolding t' using p by (auto intro!: same_count_put[OF i] simp: in_contention_iff)
  have m: "seat_stack (t_seats t ! i) = seat_stack (Playing p') + n"
    "seat_pending_addon (t_seats t ! i) = seat_pending_addon (Playing p')"
    "seat_bet (t_seats t ! i) = seat_bet (Playing p')"
    "seat_total_bet (Playing p') = seat_total_bet (t_seats t ! i) + n"
    using p by simp_all
  show "assets t' + n = assets t" "sum_of seat_total_bet t' = sum_of seat_total_bet t + n"
    "sum_of seat_bet t' = sum_of seat_bet t"
    using assets_put[OF i, of "Playing p'"] sum_of_put[OF i, of seat_total_bet "Playing p'"]
      sum_of_put[OF i, of seat_bet "Playing p'"] unfolding t' m by linarith+
qed

lemma pay_ante_loop:
  assumes "foldM pay_ante (t, es) antes = Inr (t', es')"
  shows "assets t' + sum_list (map snd antes) = assets t \<and>
    sum_of seat_total_bet t' = sum_of seat_total_bet t + sum_list (map snd antes) \<and>
    sum_of seat_bet t' = sum_of seat_bet t \<and> t_pot t' = t_pot t \<and> t_chip_pool t' = t_chip_pool t \<and>
    paid es' = paid es \<and> count_active_players (t_seats t) \<le> count_active_players (t_seats t')"
  using assms
proof (induction antes arbitrary: t es)
  case (Cons a antes)
  obtain i n where a: "a = (i, n)" by (cases a)
  from Cons.prems obtain t1 es1 where "pay_ante (t, es) (i, n) = Inr (t1, es1)"
    and rest: "foldM pay_ante (t1, es1) antes = Inr (t', es')"
    by (auto simp: a rbind_eq_Inr)
  from pay_ante_step[OF this(1)] Cons.IH[OF rest] show ?case by (simp add: a)
qed simp

lemma collect_ante_custody:
  assumes "collect_ante t bb es = Inr (t', es')"
  shows "custody (t, es) (t', es')"
      "count_active_players (t_seats t) \<le> count_active_players (t_seats t')"
proof -
  have "custody (t, es) (t', es')
      \<and> count_active_players (t_seats t) \<le> count_active_players (t_seats t')"
  proof (cases "tr_ante_mode (t_rules t) = ANTE_MODE_NONE \<or> tr_ante_amount (t_rules t) = 0")
    case True
    with assms show ?thesis by (auto simp: collect_ante_def custody_def)
  next
    case False
    with assms obtain antes n where
      sum: "foldM (\<lambda>tot (_, actual). checked (checked_add_u64 tot actual) 
          ''collect_ante: total overflow'') 0 antes = Inr n"
      and pay: "foldM pay_ante (t\<lparr>t_pot := t_pot t + n\<rparr>, es) antes = Inr (t', es')"
      by (auto simp: collect_ante_def rbind_eq_Inr Let_def add_u64_eq_Inr)
    have "n = sum_list (map snd antes)"
      using foldM_checked_sum[of snd "''collect_ante: total overflow''" 0 antes n] sum
      by (simp add: case_prod_unfold)
    with pay_ante_loop[OF pay] show ?thesis
      by (auto simp: custody_def vault_def books_ok_def wagers_def assets_def)
  qed
  then show "custody (t, es) (t', es')"
    "count_active_players (t_seats t) \<le> count_active_players (t_seats t')" by simp_all
qed

lemma start_betting_round_custody:
  assumes "start_betting_round L t is_preflop bb es = Inr (t', es')"
    and "is_preflop \<or> (\<forall>s \<in> set (t_seats t). seat_bet s = 0)" and "1 \<le> count_active_players (t_seats t)"
  shows "custody (t, es) (t', es')"
proof -
  from assms(1,2) obtain t1 r t2 start t4 es4 where t1: "t_seats t1 = t_seats t"
      "same_custody_state t t1"
    and t2: "enter_betting t1 (round_state t1) r NO_SEAT 0 = Inr t2"
    and t4: "set_current_turn (t2\<lparr>t_acted_mask := 0\<rparr>) start es = Inr (t4, es4)"
    and rest: "if no_further_betting_possible t4
      then rbind (collect_bets_to_pot t4 es4) (\<lambda>(t5, es5). advance_round L t5 es5) = Inr (t', es')
      else t' = t4 \<and> paid es' = paid es4"
    unfolding start_betting_round_def
    by (cases is_preflop) (fastforce simp: Let_def rbind_eq_Inr same_custody_state_def
        clear_round_bet_idem
        map_idI split: if_splits)+
  have same: "same_custody_state t t4" "paid es4 = paid es"
    using t1(2) enter_steps(1)[OF t2] set_current_turn_step[OF t4]
    by (auto simp: same_custody_state_def)
  then have "count_active_players (t_seats t4) = count_active_players (t_seats t)"
    by (simp add: same_custody_state_def)
  with rest assms(3) have "custody (t4, es4) (t', es')"
    by (auto simp: rbind_eq_Inr intro: collect_and_advance_custody split: if_splits)
      (simp add: custody_def vault_def)
  moreover have "custody (t, es) (t4, es4)"
    using same by (intro quiet_custody same_custody_quiet)
  ultimately show ?thesis by (rule custody_trans[rotated])
qed

section \<open>The showdown\<close>

lemma foldl_add_awards_length:
  assumes "length aw = SETTLEMENT_SEATS"
    and "\<forall>pp \<in> set pots. \<forall>r \<in> set (pp_runouts pp). length (rp_awards r) = SETTLEMENT_SEATS"
  shows "length (foldl add_pot_awards aw pots) = SETTLEMENT_SEATS"
  using assms
proof (induction pots arbitrary: aw)
  case (Cons pp pots)
  then show ?case
    using add_pot_awards_nth[of aw pp 0] by (simp add: SETTLEMENT_SEATS_def MAX_PLAYERS_def)
qed simp

text \<open>The awards of a plan go to seats of the table.\<close>

lemma plan_awards_at_table:
  assumes "snapshot_ok snapshot b" "plan_spec snapshot b plan"
  shows "length (pl_awards plan) = SETTLEMENT_SEATS"
    "ts_seat_count snapshot \<le> j \<Longrightarrow> j < SETTLEMENT_SEATS \<Longrightarrow> pl_awards plan ! j = 0"
proof -
  obtain pots rakes where pots: "side_pots_of snapshot = Inr pots" "length (pl_pots plan) = length pots"
    and s: "\<forall>i < length pots. pot_settled snapshot b i (pots ! i) (rakes ! i) (pl_pots plan ! i)"
    by (rule plan_pots[OF assms(2)])
  have "\<forall>pp \<in> set (pl_pots plan). \<forall>r \<in> set (pp_runouts pp). length (rp_awards r) = SETTLEMENT_SEATS"
    using s pot_award_le(2)[where j = 0] pots(2)
    by (metis SETTLEMENT_SEATS_def MAX_PLAYERS_def in_set_conv_nth zero_less_numeral)
  then show "length (pl_awards plan) = SETTLEMENT_SEATS"
    using foldl_add_awards_length[of "replicate SETTLEMENT_SEATS 0" "pl_pots plan"] assms(2)
    by (auto simp: plan_spec_def)
  show "pl_awards plan ! j = 0" if "ts_seat_count snapshot \<le> j" "j < SETTLEMENT_SEATS"
  proof -
    have "filter (\<lambda>p. pot_is_eligible p j) pots = []"
      using eligible_at_table(1)[OF assms(1) pots(1), of _ j] that(1)
      by (auto simp: filter_empty_conv pot_is_eligible_def is_eligible_bit)
    then show ?thesis
      using award_le_claimable[OF assms(2) pots(1) that(2)] by (simp add: claimable_def)
  qed
qed

lemma derive_awards_at_table:
  assumes "derive_settlement_plan snapshot b = Inr plan"
  shows "length (pl_awards plan) = SETTLEMENT_SEATS" "ts_seat_count snapshot \<le> SETTLEMENT_SEATS"
    "pl_gross_pot plan = sum_list (ts_total_bets snapshot)"
    "sum_list (take (ts_seat_count snapshot) (pl_awards plan)) + pl_rake plan = pl_gross_pot plan"
    "pl_rake plan + pl_total_awards plan = pl_gross_pot plan"
proof -
  note d = derive_Inr[OF assms]
  note aw = plan_awards_at_table[OF d(1,2)]
  let ?n = "ts_seat_count snapshot"
  show "length (pl_awards plan) = SETTLEMENT_SEATS" by (fact aw)
  show n: "?n \<le> SETTLEMENT_SEATS" using d(1) by (simp add: snapshot_ok_def table_ok_def)
  show "pl_gross_pot plan = sum_list (ts_total_bets snapshot)" using d(2) by (auto simp: plan_spec_def)
  have total:
      "pl_total_awards plan = sum_list (pl_awards plan)" using d(2) by (auto simp: plan_spec_def)
  have "checked_sub_u64 (pl_gross_pot plan) (pl_rake plan) = Some (pl_total_awards plan)"
    using d(3) by (auto simp: validate_def split: if_splits)
  then show gross:
      "pl_rake plan + pl_total_awards plan = pl_gross_pot plan" by (simp add: checked_sub_eq_Some)
  have "sum_list (drop ?n (pl_awards plan)) = 0"
    using aw n by (auto simp: sum_list_eq_0_iff in_set_conv_nth)
  moreover have
      "sum_list (pl_awards plan)
      = sum_list (take ?n (pl_awards plan)) + sum_list (drop ?n (pl_awards plan))"
    by (metis append_take_drop_id sum_list_append)
  ultimately show "sum_list (take ?n (pl_awards plan)) + pl_rake plan = pl_gross_pot plan"
    using total gross by linarith
qed

text \<open>Every seat of the table is credited with its award.\<close>

lemma post_stacks_loop:
  "foldM (\<lambda>stacks (i, s). rbind (idx aw i) (\<lambda>a. rbind (checked (checked_add_u64 (seat_stack s) a) msg)
     (\<lambda>n. Inr (stacks @ [n])))) acc (enumerate k ss) = Inr r \<Longrightarrow>
   r = acc @ map2 (\<lambda>s a. seat_stack s + a) ss (take (length ss) (drop k aw)) \<and>
   (ss \<noteq> [] \<longrightarrow> k + length ss \<le> length aw)"
proof (induction ss arbitrary: k acc)
  case (Cons s ss)
  then have k: "k < length aw"
    and rest: "foldM (\<lambda>stacks (i, s). rbind (idx aw i) (\<lambda>a. rbind (checked (checked_add_u64
        (seat_stack s) a) msg)
     (\<lambda>n. Inr (stacks @ [n])))) (acc @ [seat_stack s + aw ! k]) (enumerate (Suc k) ss) = Inr r"
    by (auto simp: rbind_eq_Inr idx_eq_Inr checked_eq_Inr checked_add_eq_Some)
  have "drop k aw = aw ! k # drop (Suc k) aw" using k by (simp add: Cons_nth_drop_Suc)
  with Cons.IH[OF rest] k show ?case by (cases ss) auto
qed simp

lemma set_stacks_loop:
  "foldM (\<lambda>seats (s, n). rbind (set_stack s n) (\<lambda>s'. Inr (seats @ [s']))) acc (zip ss ns) = Inr r \<Longrightarrow>
   length ns = length ss \<Longrightarrow>
   \<exists>ss'. r = acc @ ss' \<and> map seat_stack ss' = ns \<and> map seat_pending_addon ss'
       = map seat_pending_addon ss \<and>
     map seat_bet ss' = map seat_bet ss \<and> map seat_total_bet ss' = map seat_total_bet ss \<and>
     map is_occupied ss' = map is_occupied ss"
proof (induction ss arbitrary: acc ns)
  case (Cons s ss)
  then obtain n ns' where ns: "ns = n # ns'" by (cases ns) auto
  from Cons.prems obtain s' where s: "set_stack s n = Inr s'"
    and rest: "foldM (\<lambda>seats (s, n). rbind (set_stack s n) (\<lambda>s'. Inr (seats @ [s']))) (acc @ [s'])
        (zip ss ns') = Inr r"
    by (auto simp: ns rbind_eq_Inr)
  from Cons.IH[OF rest] Cons.prems(2) obtain ss' where "r = acc @ s' # ss'" "map seat_stack ss' = ns'"
    "map seat_pending_addon ss' = map seat_pending_addon ss" "map seat_bet ss' = map seat_bet ss"
    "map seat_total_bet ss' = map seat_total_bet ss"
    "map is_occupied ss' = map is_occupied ss" by (auto simp: ns)
  with set_stack_money[OF s] show ?case by (intro exI[of _ "s' # ss'"]) (simp add: ns)
qed simp

lemma paid_concat: "paid (concat ess) = sum_list (map paid ess)"
  by (induction ess) simp_all

lemma winner_events_paid: "paid (winner_events t plan) = 0"
  unfolding winner_events_def paid_concat by (auto simp: o_def paid_concat intro!: sum_list_0)

lemma sum_list_map2_plus:
  "length xs = length ys \<Longrightarrow> sum_list (map2 (\<lambda>x y. f x + y) xs ys)
      = sum_list (map f xs) + (sum_list ys :: nat)"
  by (induction xs ys rule: list_induct2) simp_all

lemma apply_settlement_plan_paid:
  "apply_settlement_plan L t plan es = Inr (t', es') \<Longrightarrow> paid es' = paid es + pl_rake plan"
  by (cases "pl_rake plan > 0") (auto simp: apply_settlement_plan_def rbind_eq_Inr Let_def
      winner_events_paid)

lemma apply_settlement_plan_money:
  assumes "apply_settlement_plan L t plan es = Inr (t', es')"
    and "length (t_seats t) \<le> length (pl_awards plan)"
  shows "t_pot t = pl_gross_pot plan" "pl_rake plan \<le> t_chip_pool t"
      "t_chip_pool t' = t_chip_pool t - pl_rake plan"
    "t_pot t' = 0" "sum_of seat_bet t' = sum_of seat_bet t" "paid es' = paid es + pl_rake plan"
    "assets t' = assets t + sum_list (take (length (t_seats t)) (pl_awards plan))"
proof -
  from assms(1) obtain stacks seats where
    stacks: "foldM (\<lambda>stacks (i, s). rbind (idx (pl_awards plan) i) (\<lambda>a.
        rbind (checked (checked_add_u64 (seat_stack s) a) ''settlement: seat stack award overflow'')
            (\<lambda>n.
        Inr (stacks @ [n])))) [] (enumerate 0 (t_seats t)) = Inr stacks"
    and seats: "foldM (\<lambda>seats (s, n). rbind (set_stack s n) (\<lambda>s'. Inr (seats @ [s']))) []
        (zip (t_seats t) stacks) = Inr seats"
    and t': "t' = t\<lparr>t_chip_pool := t_chip_pool t - pl_rake plan, t_seats := seats, t_pot := 0\<rparr>"
    and guards: "t_pot t = pl_gross_pot plan" "pl_rake plan \<le> t_chip_pool t"
    by (auto simp: apply_settlement_plan_def rbind_eq_Inr require_eq_Inr checked_eq_Inr
        checked_sub_eq_Some Let_def)
  show "t_pot t = pl_gross_pot plan" "pl_rake plan \<le> t_chip_pool t" "paid es' = paid es + pl_rake plan"
    by (fact guards apply_settlement_plan_paid[OF assms(1)])+
  let ?aw = "take (length (t_seats t)) (pl_awards plan)"
  have st: "stacks = map2 (\<lambda>s a. seat_stack s + a) (t_seats t) ?aw" "length stacks = length (t_seats t)"
    using post_stacks_loop[OF stacks] assms(2) by simp_all
  from set_stacks_loop[OF seats st(2)]
  have m: "map seat_stack seats = stacks"
      "map seat_pending_addon seats = map seat_pending_addon (t_seats t)"
    "map seat_bet seats = map seat_bet (t_seats t)" by auto
  show "t_chip_pool t' = t_chip_pool t - pl_rake plan" "t_pot t' = 0"
      "sum_of seat_bet t' = sum_of seat_bet t"
    using m(3) by (simp_all add: t')
  have "length (t_seats t) = length ?aw" using assms(2) by simp
  from sum_list_map2_plus[OF this, of seat_stack] show "assets t' = assets t + sum_list ?aw"
    using m by (simp add: t' assets_def st(1))
qed

text \<open>Seat by seat: every stack grows by the award of its seat, and nothing else of the seat changes hands.\<close>

lemma apply_settlement_plan_seats:
  assumes "apply_settlement_plan L t plan es = Inr (t', es')"
    and "length (t_seats t) \<le> length (pl_awards plan)"
  shows "length (t_seats t') = length (t_seats t)" "t_leave_mask t' = t_leave_mask t"
    "i < length (t_seats t) \<Longrightarrow> is_occupied (t_seats t' ! i) = is_occupied (t_seats t ! i) \<and>
       own_chips (t_seats t' ! i) = own_chips (t_seats t ! i) + pl_awards plan ! i"
proof -
  from assms(1) obtain stacks seats where
    stacks: "foldM (\<lambda>stacks (i, s). rbind (idx (pl_awards plan) i) (\<lambda>a.
        rbind (checked (checked_add_u64 (seat_stack s) a) ''settlement: seat stack award overflow'')
            (\<lambda>n.
        Inr (stacks @ [n])))) [] (enumerate 0 (t_seats t)) = Inr stacks"
    and seats: "foldM (\<lambda>seats (s, n). rbind (set_stack s n) (\<lambda>s'. Inr (seats @ [s']))) []
        (zip (t_seats t) stacks) = Inr seats"
    and t': "t' = t\<lparr>t_chip_pool := t_chip_pool t - pl_rake plan, t_seats := seats, t_pot := 0\<rparr>"
    by (auto simp: apply_settlement_plan_def rbind_eq_Inr require_eq_Inr checked_eq_Inr
        checked_sub_eq_Some Let_def)
  have st: "stacks = map2 (\<lambda>s a. seat_stack s + a) (t_seats t) (take (length (t_seats t)) (pl_awards plan))"
    "length stacks = length (t_seats t)"
    using post_stacks_loop[OF stacks] assms(2) by simp_all
  from set_stacks_loop[OF seats st(2)] have m: "map seat_stack seats = stacks"
      "map seat_pending_addon seats = map seat_pending_addon (t_seats t)"
      "map is_occupied seats = map is_occupied (t_seats t)" by auto
  show len: "length (t_seats t') = length (t_seats t)" using arg_cong[OF m(3), of length] by (simp add: t')
  show "t_leave_mask t' = t_leave_mask t" by (simp add: t')
  show "is_occupied (t_seats t' ! i) = is_occupied (t_seats t ! i) \<and>
      own_chips (t_seats t' ! i) = own_chips (t_seats t ! i) + pl_awards plan ! i" if "i < length (t_seats t)"
    using arg_cong[OF m(1), of "\<lambda>xs. xs ! i"] arg_cong[OF m(2), of "\<lambda>xs. xs ! i"] arg_cong[OF m(3), of "\<lambda>xs. xs ! i"]
      that len st assms(2) by (simp add: t')
qed

text \<open>
  The settlement of a hand: the derivation of the shared crate awards the contributions less the
  rake, and the contract credits exactly that.
\<close>

lemma settle_hand_custody:
  assumes "settle_hand L t es = Inr (t', es')" and "books_ok t"
  shows "custody (t, es) (t', es')"
proof (cases "round_state t \<noteq> ROUND_SHOWDOWN \<or> reveal_token_state t \<noteq> None")
  case True
  with assms(1) show ?thesis by (auto simp: settle_hand_def custody_def split: if_splits)
next
  case False
  with assms(1) obtain b plan t1 es1 where derive: "derive_plan_for_boards t b = Inr plan"
    and ap: "apply_settlement_plan L t plan es = Inr (t1, es1)"
    and reset: "reset_for_next_hand L t1 es1 = Inr (t', es')"
    by (fastforce simp: settle_hand_def rbind_eq_Inr split: run_it_twice_state.splits)
  have plan: "derive_settlement_plan (snapshot_of t) b = Inr plan"
    using derive by (auto simp: derive_plan_for_boards_def rbind_eq_Inr map_err_eq_Inr)
  note d = derive_awards_at_table[OF plan]
  have n: "ts_seat_count (snapshot_of t) = length (t_seats t)" by (simp add: snapshot_of_def)
  note m = apply_settlement_plan_money[OF ap]
  have gross: "pl_gross_pot plan = sum_of seat_total_bet t" using d(3) by (simp add: snapshot_of_def)
  have len: "length (t_seats t) \<le> length (pl_awards plan)" using d(1,2) n by simp
  note m = m[OF len]
  have books: "t_pot t + sum_of seat_bet t = sum_of seat_total_bet t"
    "assets t + (t_pot t + sum_of seat_bet t) = t_chip_pool t"
    using assms(2) by (simp_all add: books_ok_def wagers_def)
  have "assets t1 = t_chip_pool t1"
    using books m d(4)[unfolded n] gross by linarith
  moreover have "vault t1 es1 = vault t es" using m by (simp add: vault_def)
  ultimately show ?thesis
    using reset_books[OF reset] reset_money(2)[OF reset] by (simp add: custody_def)
qed

end
