(* ===== verification/TableCommands.thy ===== *)
theory TableCommands
  imports TableVault
begin

text \<open>
  The commands of the table: \<^verbatim>\<open>texas_poker/dispatch.rs\<close> with the tags of the commands, the
  authentication of the caller and one handler per command.

  The arguments of a command are already decoded here: Borsh and the hashing of method names into
  selectors stay outside.  The code restores the table it was given when a command fails, which is
  the error outcome of the model.
\<close>

section \<open>Tags\<close>

datatype command_tag =
    TagCreateTable | TagJoinTable | TagLeaveTable | TagStartHand | TagAdvanceDeadline
  | TagFold | TagCheck | TagCall | TagRaise | TagForceFold | TagKickPlayer | TagAddon | TagRebuy
  | TagSubmitShuffleV2 | TagSubmitPlayerRevealTokens | TagSubmitReconstructDeck | TagBet
  | TagSetLeaveAfterHand | TagFoldWithProof

datatype command_family = FamCreate | FamSeat | FamFunds | FamAction | FamCrypto | FamLifecycle

fun method_tag :: "command_tag \<Rightarrow> nat" where
  "method_tag TagCreateTable = 0"
| "method_tag TagJoinTable = 1"
| "method_tag TagLeaveTable = 2"
| "method_tag TagStartHand = 3"
| "method_tag TagAdvanceDeadline = 4"
| "method_tag TagFold = 6"
| "method_tag TagCheck = 7"
| "method_tag TagCall = 8"
| "method_tag TagRaise = 9"
| "method_tag TagForceFold = 11"
| "method_tag TagKickPlayer = 12"
| "method_tag TagAddon = 13"
| "method_tag TagRebuy = 14"
| "method_tag TagSubmitShuffleV2 = 17"
| "method_tag TagSubmitPlayerRevealTokens = 18"
| "method_tag TagSubmitReconstructDeck = 19"
| "method_tag TagBet = 20"
| "method_tag TagSetLeaveAfterHand = 21"
| "method_tag TagFoldWithProof = 22"

definition command_of_u8 :: "nat \<Rightarrow> command_tag option" where
  "command_of_u8 v =
     (if v = 0 then Some TagCreateTable else if v = 1 then Some TagJoinTable
      else if v = 2 then Some TagLeaveTable else if v = 3 then Some TagStartHand
      else if v = 4 then Some TagAdvanceDeadline else if v = 6 then Some TagFold
      else if v = 7 then Some TagCheck else if v = 8 then Some TagCall
      else if v = 9 then Some TagRaise else if v = 11 then Some TagForceFold
      else if v = 12 then Some TagKickPlayer else if v = 13 then Some TagAddon
      else if v = 14 then Some TagRebuy else if v = 17 then Some TagSubmitShuffleV2
      else if v = 18 then Some TagSubmitPlayerRevealTokens
      else if v = 19 then Some TagSubmitReconstructDeck else if v = 20 then Some TagBet
      else if v = 21 then Some TagSetLeaveAfterHand else if v = 22 then Some TagFoldWithProof
      else None)"

fun method_name :: "command_tag \<Rightarrow> string" where
  "method_name TagCreateTable = ''create_table''"
| "method_name TagJoinTable = ''join_table''"
| "method_name TagLeaveTable = ''leave_table''"
| "method_name TagStartHand = ''start_hand''"
| "method_name TagAdvanceDeadline = ''advance_deadline''"
| "method_name TagFold = ''fold''"
| "method_name TagCheck = ''check''"
| "method_name TagCall = ''call''"
| "method_name TagRaise = ''raise''"
| "method_name TagForceFold = ''force_fold''"
| "method_name TagKickPlayer = ''kick_player''"
| "method_name TagAddon = ''addon''"
| "method_name TagRebuy = ''rebuy''"
| "method_name TagSubmitShuffleV2 = ''submit_shuffle_v2''"
| "method_name TagSubmitPlayerRevealTokens = ''submit_player_reveal_tokens''"
| "method_name TagSubmitReconstructDeck = ''submit_reconstruct_deck''"
| "method_name TagBet = ''bet''"
| "method_name TagSetLeaveAfterHand = ''set_leave_after_hand''"
| "method_name TagFoldWithProof = ''fold_with_proof''"

fun batch_tag :: "command_tag \<Rightarrow> command_family \<times> nat" where
  "batch_tag TagCreateTable = (FamCreate, 0)"
| "batch_tag TagJoinTable = (FamSeat, 0)"
| "batch_tag TagLeaveTable = (FamSeat, 1)"
| "batch_tag TagSetLeaveAfterHand = (FamSeat, 2)"
| "batch_tag TagKickPlayer = (FamSeat, 3)"
| "batch_tag TagAddon = (FamFunds, 0)"
| "batch_tag TagRebuy = (FamFunds, 1)"
| "batch_tag TagFold = (FamAction, 0)"
| "batch_tag TagForceFold = (FamAction, 0)"
| "batch_tag TagCheck = (FamAction, 1)"
| "batch_tag TagCall = (FamAction, 1)"
| "batch_tag TagRaise = (FamAction, 2)"
| "batch_tag TagBet = (FamAction, 2)"
| "batch_tag TagSubmitShuffleV2 = (FamCrypto, 2)"
| "batch_tag TagSubmitPlayerRevealTokens = (FamCrypto, 3)"
| "batch_tag TagSubmitReconstructDeck = (FamCrypto, 4)"
| "batch_tag TagFoldWithProof = (FamCrypto, 5)"
| "batch_tag TagStartHand = (FamLifecycle, 0)"
| "batch_tag TagAdvanceDeadline = (FamLifecycle, 1)"

section \<open>Commands and the caller\<close>

text \<open>The commands with their decoded arguments; the first number of a player's command is the seat it claims.\<close>

datatype 'p table_command =
    CreateTable string nat nat nat
  | JoinTable address nat 'p "byte list"
  | LeaveTable nat
  | StartHand
  | AdvanceDeadline
  | FoldHand nat
  | CheckHand nat
  | CallBet nat
  | RaiseBet nat nat
  | ForceFold nat
  | KickPlayer nat
  | Addon nat nat
  | Rebuy nat nat
  | SubmitShuffleV2 nat "'p ciphertext list" "byte list"
  | SubmitPlayerRevealTokens nat "'p list" "byte list list"
  | SubmitReconstructDeck nat "'p reconstruct_statement" "byte list"
  | PlaceBet nat nat
  | SetLeaveAfterHand nat bool
  | FoldWithProof nat "'p ciphertext list" "byte list"

fun command_tag_of :: "'p table_command \<Rightarrow> command_tag" where
  "command_tag_of (CreateTable _ _ _ _) = TagCreateTable"
| "command_tag_of (JoinTable _ _ _ _) = TagJoinTable"
| "command_tag_of (LeaveTable _) = TagLeaveTable"
| "command_tag_of StartHand = TagStartHand"
| "command_tag_of AdvanceDeadline = TagAdvanceDeadline"
| "command_tag_of (FoldHand _) = TagFold"
| "command_tag_of (CheckHand _) = TagCheck"
| "command_tag_of (CallBet _) = TagCall"
| "command_tag_of (RaiseBet _ _) = TagRaise"
| "command_tag_of (ForceFold _) = TagForceFold"
| "command_tag_of (KickPlayer _) = TagKickPlayer"
| "command_tag_of (Addon _ _) = TagAddon"
| "command_tag_of (Rebuy _ _) = TagRebuy"
| "command_tag_of (SubmitShuffleV2 _ _ _) = TagSubmitShuffleV2"
| "command_tag_of (SubmitPlayerRevealTokens _ _ _) = TagSubmitPlayerRevealTokens"
| "command_tag_of (SubmitReconstructDeck _ _ _) = TagSubmitReconstructDeck"
| "command_tag_of (PlaceBet _ _) = TagBet"
| "command_tag_of (SetLeaveAfterHand _ _) = TagSetLeaveAfterHand"
| "command_tag_of (FoldWithProof _ _ _) = TagFoldWithProof"

record dispatch_context =
  dc_caller :: address
  dc_block_timestamp :: nat

fun required_funding :: "'p table_command \<Rightarrow> (l1_error, nat option) outcome" where
  "required_funding (JoinTable _ buy_in _ _) =
     (if buy_in = 0 then Inl (Fail (Other ''funded Texas call amount must be greater than zero''))
      else Inr (Some buy_in))"
| "required_funding (Addon _ amount) =
     (if amount = 0 then Inl (Fail (Other ''funded Texas call amount must be greater than zero''))
      else Inr (Some amount))"
| "required_funding (Rebuy _ amount) =
     (if amount = 0 then Inl (Fail (Other ''funded Texas call amount must be greater than zero''))
      else Inr (Some amount))"
| "required_funding _ = Inr None"

definition authenticated_caller_seat :: "dispatch_context \<Rightarrow> 'p table \<Rightarrow> (l1_error, nat) outcome" where
  "authenticated_caller_seat c t =
     rbind (require (\<not> length (t_seats t) \<noteq> max_players t) ''non-canonical seat layout'') (\<lambda>_.
     rbind (foldM (\<lambda>resolved (seat_index, seat).
         if is_occupied seat \<and> seat_player seat = dc_caller c then
           rbind (require (seat_index < 256) ''caller seat index does not fit canonical u8'') (\<lambda>_.
           rbind (require (resolved = None) ''caller occupies multiple seats'') (\<lambda>_.
           Inr (Some seat_index)))
         else Inr resolved) None (enumerate 0 (t_seats t))) (\<lambda>resolved.
     ok_or (Serialization ''caller does not occupy a seat'') resolved))"

definition resolve_caller_seat :: "dispatch_context \<Rightarrow> 'p table \<Rightarrow> nat \<Rightarrow> (l1_error, nat) outcome" where
  "resolve_caller_seat c t claimed_seat_index =
     rbind (require (\<not> claimed_seat_index \<ge> max_players t) ''seat_index out of range'') (\<lambda>_.
     rbind (require (\<not> length (t_seats t) \<noteq> max_players t) ''non-canonical seat layout'') (\<lambda>_.
     rbind (authenticated_caller_seat c t) (\<lambda>resolved.
     rbind (require (\<not> claimed_seat_index \<noteq> resolved)
              ''legacy seat_index does not match authenticated caller seat'') (\<lambda>_.
     Inr resolved))))"

definition require_caller_is_creator :: "dispatch_context \<Rightarrow> 'p table \<Rightarrow> (l1_error, unit) outcome" where
  "require_caller_is_creator c t =
     require (\<not> t_creator t \<noteq> dc_caller c) ''caller is not table creator''"

section \<open>The handlers\<close>

definition dispatch_create_table ::
  "dispatch_context \<Rightarrow> 'p table \<Rightarrow> string \<Rightarrow> nat \<Rightarrow> nat \<Rightarrow> nat \<Rightarrow> table_event list \<Rightarrow> 'p table_result" where
  "dispatch_create_table c t name players sb bb es =
     rbind (require (2 \<le> players \<and> players \<le> 9) ''max_players out of range [2, 9]'') (\<lambda>_.
     rbind (require (\<not> bb = 0) ''big_blind must > 0'') (\<lambda>_.
     rbind (require (\<not> sb > bb) ''small_blind must <= big_blind'') (\<lambda>_.
     rbind (table_new (t_id t) name (dc_caller c) players sb bb) (\<lambda>t'. Inr (t', es)))))"

definition dispatch_join_table ::
  "'p poker_lib \<Rightarrow> dispatch_context \<Rightarrow> 'p table \<Rightarrow> address \<Rightarrow> nat \<Rightarrow> 'p \<Rightarrow> byte list \<Rightarrow> table_event list \<Rightarrow>
   'p table_result" where
  "dispatch_join_table L c t player buy_in pk ownership_proof es =
     rbind (require (\<not> player \<noteq> dc_caller c) ''join_table: caller is not the player'') (\<lambda>_.
     rbind (require (can_join_state t) ''not in WAITING state, cannot join_table'') (\<lambda>_.
     rbind (require (\<not> g1_is_identity L pk) ''join_table public key cannot be identity'') (\<lambda>_.
     rbind (require (lib_ownership_verify L pk ownership_proof)
              ''join_table PK ownership proof verification failed'') (\<lambda>_.
     rbind (require (\<not> is_pk_registered (t_seats t) pk) ''pk already registered at this table'') (\<lambda>_.
     rbind (require (\<not> buy_in < big_blind t) ''buy_in below big_blind'') (\<lambda>_.
     rbind (checked (checked_add_u64 (t_chip_pool t) buy_in) ''chip_pool overflow on join_table'')
         (\<lambda>post_chip_pool.
     rbind (require (\<not> post_chip_pool > MAX_TOTAL_BET)
        ''join_table chip_pool exceeds MAX_TOTAL_BET'') (\<lambda>_.
     rbind (ok_or (Serialization ''no empty seat available'') (find_empty_seat t)) (\<lambda>seat_idx.
     let t1 = set_seat_wants_leave (set_seat_acted_this_round t seat_idx False) seat_idx False in
     rbind (seat_occupied (g1_is_identity L) (dc_caller c) buy_in pk StActive) (\<lambda>s.
     let t2 = (put_seat t1 seat_idx s)\<lparr>t_chip_pool := post_chip_pool\<rparr> in
     rbind (add_deck_contributor L t2 seat_idx) (\<lambda>t3.
     Inr (t3, es @ [SeatEv (PlayerJoined (t_id t3) seat_idx (dc_caller c) buy_in False
                              (count_active_occupied (t_seats t3)))]))))))))))))"

definition dispatch_leave_table ::
  "'p poker_lib \<Rightarrow> dispatch_context \<Rightarrow> 'p table \<Rightarrow> nat \<Rightarrow> table_event list \<Rightarrow> 'p table_result" where
  "dispatch_leave_table L c t claimed es =
     rbind (resolve_caller_seat c t claimed) (\<lambda>seat_index.
     rbind (require (can_leave_state t) ''not in WAITING state, cannot leave_table'') (\<lambda>_.
     rbind (idx (t_seats t) seat_index) (\<lambda>s.
     rbind (require (is_occupied s) ''seat not occupied, cannot leave'') (\<lambda>_.
     rbind (checked (checked_add_u64 (seat_stack s) (seat_pending_addon s))
          ''leave_table refund overflow'') (\<lambda>refund_amt.
     rbind (checked (checked_sub_u64 (t_chip_pool t) refund_amt)
          ''leave_table chip_pool underflow'') (\<lambda>post_chip_pool.
     let t1 = (if refund_amt > 0 then t\<lparr>t_chip_pool := post_chip_pool\<rparr> else t);
         t2 = put_seat t1 seat_index (vacate s) in
     rbind (remove_deck_contributor L t2 seat_index) (\<lambda>t3.
     Inr (t3, es @
       (if refund_amt > 0 then
          [SeatEv (PlayerRefund (t_id t3) seat_index (seat_player s) refund_amt REFUND_TYPE_STACK_ONLY)]
        else []) @
       [SeatEv (PlayerLeft (t_id t3) seat_index (seat_player s))]))))))))"

definition dispatch_start_hand ::
  "'p poker_lib \<Rightarrow> dispatch_context \<Rightarrow> 'p table \<Rightarrow> table_event list \<Rightarrow> 'p table_result" where
  "dispatch_start_hand L c t es = rbind (require_caller_is_creator c t) (\<lambda>_. start_hand L t es)"

definition dispatch_advance_deadline ::
  "'p poker_lib \<Rightarrow> dispatch_context \<Rightarrow> 'p table \<Rightarrow> table_event list \<Rightarrow> 'p table_result" where
  "dispatch_advance_deadline L c t es =
     rbind (advance_deadline L t (dc_block_timestamp c) es) (\<lambda>(_, t', es'). Inr (t', es'))"

definition dispatch_force_fold ::
  "'p poker_lib \<Rightarrow> dispatch_context \<Rightarrow> 'p table \<Rightarrow> nat \<Rightarrow> table_event list \<Rightarrow> 'p table_result" where
  "dispatch_force_fold L c t seat_index es =
     rbind (require_caller_is_creator c t) (\<lambda>_.
     apply_fold_internal L t seat_index FOLD_REASON_FORCE_ADMIN es)"

definition dispatch_kick_player ::
  "'p poker_lib \<Rightarrow> dispatch_context \<Rightarrow> 'p table \<Rightarrow> nat \<Rightarrow> table_event list \<Rightarrow> 'p table_result" where
  "dispatch_kick_player L c t seat_index es =
     rbind (require_caller_is_creator c t) (\<lambda>_. kick_player_internal L t seat_index KickAdmin es)"

text \<open>The handlers of the players' commands: the authenticated seat, then the action.\<close>

definition as_caller ::
  "dispatch_context \<Rightarrow> 'p table \<Rightarrow> nat \<Rightarrow> (nat \<Rightarrow> 'p table_result) \<Rightarrow> 'p table_result" where
  "as_caller c t claimed act = rbind (resolve_caller_seat c t claimed) act"

fun run_command ::
  "'p poker_lib \<Rightarrow> dispatch_context \<Rightarrow> 'p table \<Rightarrow> 'p table_command \<Rightarrow> table_event list \<Rightarrow> 'p
      table_result" where
  "run_command L c t (CreateTable name players sb bb) es
      = dispatch_create_table c t name players sb bb es"
| "run_command L c t (JoinTable player buy_in pk prf) es
    = dispatch_join_table L c t player buy_in pk prf es"
| "run_command L c t (LeaveTable i) es = dispatch_leave_table L c t i es"
| "run_command L c t StartHand es = dispatch_start_hand L c t es"
| "run_command L c t AdvanceDeadline es = dispatch_advance_deadline L c t es"
| "run_command L c t (ForceFold i) es = dispatch_force_fold L c t i es"
| "run_command L c t (KickPlayer i) es = dispatch_kick_player L c t i es"
| "run_command L c t (SubmitShuffleV2 i cards prf) es =
     as_caller c t i (\<lambda>i. apply_submit_shuffle_v2 L t i cards prf es)"
| "run_command L c t (SubmitPlayerRevealTokens i tokens proofs) es =
     as_caller c t i (\<lambda>i. apply_submit_player_reveal_tokens L t i tokens proofs es)"
| "run_command L c t (SubmitReconstructDeck i statement prf) es =
     as_caller c t i (\<lambda>i. apply_submit_reconstruct_deck L t i statement prf es)"
| "run_command L c t (FoldHand i) es = as_caller c t i (\<lambda>i. apply_fold L t i es)"
| "run_command L c t (CheckHand i) es = as_caller c t i (\<lambda>i. apply_check L t i es)"
| "run_command L c t (CallBet i) es = as_caller c t i (\<lambda>i. apply_call L t i es)"
| "run_command L c t (RaiseBet i total_bet) es = as_caller c t i (\<lambda>i. apply_raise L t i total_bet es)"
| "run_command L c t (PlaceBet i amount) es = as_caller c t i (\<lambda>i. apply_bet L t i amount es)"
| "run_command L c t (Addon i amount) es = as_caller c t i (\<lambda>i. apply_addon t i amount es)"
| "run_command L c t (Rebuy i amount) es = as_caller c t i (\<lambda>i. apply_rebuy t i amount es)"
| "run_command L c t (SetLeaveAfterHand i want) es =
     as_caller c t i (\<lambda>i. rbind (apply_set_leave_after_hand t i want es) (\<lambda>(_, r). Inr r))"
| "run_command L c t (FoldWithProof i cards prf) es =
     as_caller c t i (\<lambda>i. apply_fold_with_proof L t i cards prf es)"

section \<open>Dispatch\<close>

definition is_hand_started :: "table_event \<Rightarrow> bool" where
  "is_hand_started e = (case e of HandEv (HandStarted _ _ _ _ _) \<Rightarrow> True | _ \<Rightarrow> False)"

definition u32_limit :: nat where "u32_limit = 2 ^ 32"

definition table_add_u32 :: "nat \<Rightarrow> nat \<Rightarrow> nat option" where
  "table_add_u32 a b = (if a + b < u32_limit then Some (a + b) else None)"

text \<open>The counters of the proof task, advanced only by a call that changed the table.\<close>

definition advance_counters ::
  "'p table \<Rightarrow> 'p table \<Rightarrow> table_event list \<Rightarrow> (l1_error, 'p table) outcome" where
  "advance_counters pre t es =
     (if t \<noteq> pre then
        rbind (checked (table_add_u32 (t_call_seq pre) 1) ''texas_poker call_seq overflow'')
            (\<lambda>next_call_seq.
        rbind (if list_ex is_hand_started es
               then checked (table_add_u32 (t_hand_id pre) 1) ''texas_poker hand_id overflow''
               else Inr (t_hand_id pre)) (\<lambda>next_hand_id.
        Inr (t\<lparr>t_call_seq := next_call_seq, t_hand_id := next_hand_id\<rparr>)))
      else Inr t)"

definition rearm_betting :: "'p table \<Rightarrow> nat \<Rightarrow> (l1_error, 'p table) outcome" where
  "rearm_betting t now =
     (case t_hand_phase t of
        Betting _ _ _ d \<Rightarrow> if d = 0 then arm_betting_deadline t now else Inr t
      | _ \<Rightarrow> Inr t)"

definition table_dispatch ::
  "'p poker_lib \<Rightarrow> dispatch_context \<Rightarrow> 'p table \<Rightarrow> 'p table_command \<Rightarrow> 'p table_result" where
  "table_dispatch L c pre cmd =
     rbind (run_command L c pre cmd []) (\<lambda>(t1, es1).
     rbind (normalize_until_blocked L t1 (dc_block_timestamp c) es1) (\<lambda>(_, t2, es2).
     rbind (rearm_betting t2 (dc_block_timestamp c)) (\<lambda>t3.
     rbind (advance_counters pre t3 es2) (\<lambda>t4.
     Inr (t4, es2)))))"

end
