(* ===== verification/TableCustody.thy ===== *)
theory TableCustody
  imports TableCommands
begin

text \<open>
  The accounting around a call of the table: the settlement receipts of \<^verbatim>\<open>texas_poker/prove_task.rs\<close>,
  \<open>rake_disposal\<close> of \<^verbatim>\<open>texas_poker/settlement.rs\<close> and the vault checks of
  \<^verbatim>\<open>texas_poker_precompile.rs\<close>.  The coins that pay for a funded call (theory \<open>Coins\<close>), the object store and the
  encoding of the table are outside.
\<close>

section \<open>Receipts of a settlement\<close>

definition REFUND_TYPE_STACK_AND_BET :: nat where "REFUND_TYPE_STACK_AND_BET = 1"

datatype rake_disposal = NoDisposal | TreasurySplit nat | Burn nat

definition rake_disposal_of :: "nat \<Rightarrow> nat \<Rightarrow> (l1_error, rake_disposal) outcome" where
  "rake_disposal_of rake_mode rake_amount =
     (if rake_mode = RAKE_MODE_NONE then
        (if rake_amount \<noteq> 0 then fail ''settlement: none-mode table collected a non-zero rake''
         else Inr NoDisposal)
      else if rake_mode = RAKE_MODE_PERCENTAGE then Inr (TreasurySplit rake_amount)
      else if rake_mode = RAKE_MODE_FIXED_RAKE_BURN then Inr (Burn rake_amount)
      else fail ''settlement: unsupported rake mode'')"

text \<open>A settlement plan: table, digest, gross pot, rake, total of the awards.\<close>

type_synonym plan_anchor = "object_id \<times> byte list \<times> nat \<times> nat \<times> nat"

text \<open>A rake event: table, pot before, rake, pot after, mode.\<close>

type_synonym rake_receipt = "object_id \<times> nat \<times> nat \<times> nat \<times> nat"

record settlement_scan =
  ss_plan :: "plan_anchor option"
  ss_award :: "(object_id \<times> nat) option"
  ss_rake :: "rake_receipt option"

definition scan_event :: "settlement_scan \<Rightarrow> table_event \<Rightarrow> (l1_error, settlement_scan) outcome" where
  "scan_event sc e =
     (case e of
        HandEv (SettlementPlanCommitted tid digest _ gross rake awards) \<Rightarrow>
          if ss_plan sc \<noteq> None then other_fail ''Texas dispatch contains multiple settlement plans''
          else Inr (sc\<lparr>ss_plan := Some (tid, digest, gross, rake, awards)\<rparr>)
      | HandEv (RakeCollected tid before rake after mode) \<Rightarrow>
          if ss_rake sc \<noteq> None then other_fail ''Texas dispatch contains multiple rake receipts''
          else Inr (sc\<lparr>ss_rake := Some (tid, before, rake, after, mode)\<rparr>)
      | HandEv (HandEndedWithoutShowdown tid _ _ pot) \<Rightarrow>
          if ss_award sc \<noteq> None then other_fail ''Texas dispatch contains multiple uncontested settlements''
          else Inr (sc\<lparr>ss_award := Some (tid, pot)\<rparr>)
      | _ \<Rightarrow> Inr sc)"

record resolved_rake =
  rr_table_id :: object_id
  rr_plan_digest :: "byte list option"
  rr_gross_pot :: nat
  rr_amount :: nat
  rr_post_rake_pot :: nat
  rr_disposal :: rake_disposal

definition resolve_uncontested ::
  "object_id \<times> nat \<Rightarrow> rake_receipt option \<Rightarrow> (l1_error, resolved_rake option) outcome" where
  "resolve_uncontested anchor rake_event =
     (case (anchor, rake_event) of
        (_, None) \<Rightarrow> Inr None
      | ((table_id, award), Some (rake_table_id, gross_pot, rake, post_rake_pot, rake_mode)) \<Rightarrow>
          if rake_table_id \<noteq> table_id \<or> post_rake_pot \<noteq> award \<or> checked_add_u64 award rake \<noteq> Some gross_pot
          then other_fail ''Texas rake receipt does not match its uncontested settlement''
          else
            rbind (rake_disposal_of rake_mode rake) (\<lambda>d.
            Inr (Some \<lparr>rr_table_id = table_id, rr_plan_digest = None, rr_gross_pot = gross_pot,
                       rr_amount = rake, rr_post_rake_pot = post_rake_pot, rr_disposal = d\<rparr>)))"

definition resolve_showdown ::
  "plan_anchor option \<Rightarrow> rake_receipt option \<Rightarrow> (l1_error, resolved_rake option) outcome" where
  "resolve_showdown anchor rake_event =
     (case (anchor, rake_event) of
        (None, None) \<Rightarrow> Inr None
      | (None, Some _) \<Rightarrow> other_fail ''Texas rake receipt is detached from a settlement anchor''
      | (Some (table_id, digest, gross_pot, rake, total_awards), ev) \<Rightarrow>
          if checked_add_u64 total_awards rake \<noteq> Some gross_pot
          then other_fail ''Texas settlement plan violates gross = awards + rake''
          else
            (case ev of
               None \<Rightarrow>
                 if rake = 0 then Inr None
                 else other_fail ''Texas positive-rake settlement is missing its Treasury receipt''
             | Some (rake_table_id, pot_before, rake_amount, pot_after, rake_mode) \<Rightarrow>
                 if rake = 0 then other_fail ''Texas zero-rake settlement contains a rake receipt''
                 else if rake_table_id \<noteq> table_id \<or> pot_before \<noteq> gross_pot \<or> rake_amount \<noteq> rake \<or>
                         pot_after \<noteq> total_awards
                 then other_fail ''Texas rake receipt does not match its settlement plan''
                 else
                   rbind (rake_disposal_of rake_mode rake) (\<lambda>d.
                   Inr (Some \<lparr>rr_table_id = table_id, rr_plan_digest = Some digest,
                              rr_gross_pot = gross_pot, rr_amount = rake,
                              rr_post_rake_pot = total_awards, rr_disposal = d\<rparr>))))"

definition resolve_rake :: "table_event list \<Rightarrow> (l1_error, resolved_rake option) outcome" where
  "resolve_rake es =
     rbind (foldM scan_event \<lparr>ss_plan = None, ss_award = None, ss_rake = None\<rparr> es) (\<lambda>sc.
     if ss_plan sc \<noteq> None \<and> ss_award sc \<noteq> None
     then other_fail ''Texas dispatch mixes showdown and uncontested settlement anchors''
     else
       (case ss_award sc of
          Some anchor \<Rightarrow> resolve_uncontested anchor (ss_rake sc)
        | None \<Rightarrow> resolve_showdown (ss_plan sc) (ss_rake sc)))"

definition settlement_treasury_receipt :: "table_event list \<Rightarrow> (l1_error, resolved_rake option) outcome" where
  "settlement_treasury_receipt es =
     rbind (resolve_rake es) (\<lambda>found.
     case found of
       None \<Rightarrow> Inr None
     | Some r \<Rightarrow> (case rr_disposal r of TreasurySplit _ \<Rightarrow> Inr (Some r) | _ \<Rightarrow> Inr None))"

definition settlement_rake_burn :: "table_event list \<Rightarrow> (l1_error, resolved_rake option) outcome" where
  "settlement_rake_burn es =
     rbind (resolve_rake es) (\<lambda>found.
     case found of
       None \<Rightarrow> Inr None
     | Some r \<Rightarrow> (case rr_disposal r of Burn amount \<Rightarrow> Inr (if amount > 0 then Some r else None)
                | _ \<Rightarrow> Inr None))"

section \<open>The vault around a call\<close>

definition refund_output :: "(address \<times> nat) list \<Rightarrow> table_event \<Rightarrow> (l1_error, (address \<times> nat) list) outcome" where
  "refund_output outputs e =
     (case e of
        SeatEv (PlayerRefund _ _ player amount refund_type) \<Rightarrow>
          if refund_type \<in> {REFUND_TYPE_STACK_ONLY, REFUND_TYPE_STACK_AND_BET} \<and> amount > 0
          then Inr (outputs @ [(player, amount)])
          else if refund_type \<in> {REFUND_TYPE_BET_ONLY, REFUND_TYPE_STACK_ONLY, REFUND_TYPE_STACK_AND_BET}
          then Inr outputs
          else other_fail ''unknown Texas refund type''
      | _ \<Rightarrow> Inr outputs)"

text \<open>The outputs of a call that are paid in coins; the address of the treasury is a constant of the chain.\<close>

definition escrow_outputs ::
  "address \<Rightarrow> table_event list \<Rightarrow> (l1_error, (address \<times> nat) list) outcome" where
  "escrow_outputs treasury es =
     rbind (foldM refund_output [] es) (\<lambda>outputs.
     rbind (settlement_treasury_receipt es) (\<lambda>receipt.
     Inr (case receipt of None \<Rightarrow> outputs | Some r \<Rightarrow> outputs @ [(treasury, rr_amount r)])))"

definition vault_call ::
  "'p poker_lib \<Rightarrow> address \<Rightarrow> dispatch_context \<Rightarrow> 'p table \<Rightarrow> 'p table_command \<Rightarrow>
   (l1_error, 'p table \<times> (address \<times> nat) list) outcome" where
  "vault_call L treasury c t cmd =
     rbind (reconcile_table_vault L t) (\<lambda>pre_locked.
     rbind (required_funding cmd) (\<lambda>funding.
     rbind (table_dispatch L c t cmd) (\<lambda>(t', es).
     rbind (escrow_outputs treasury es) (\<lambda>outputs.
     rbind (foldM (\<lambda>tot (_, amount). other_err (checked_add_u64 tot amount) ''Texas escrow output sum overflow'')
              0 outputs) (\<lambda>total_escrow_outputs.
     rbind (other_err (case checked_add_u64 pre_locked (case funding of None \<Rightarrow> 0 | Some n \<Rightarrow> n) of
                         None \<Rightarrow> None
                       | Some v \<Rightarrow> checked_sub_u64 v total_escrow_outputs)
              ''Texas TableVault balance transition overflow'') (\<lambda>expected_locked.
     if t_chip_pool t' \<noteq> expected_locked then other_fail ''Texas TableVault mismatch''
     else rbind (reconcile_table_vault L t') (\<lambda>_. Inr (t', outputs))))))))"

end
