(* ===== verification/TableShowdown.thy ===== *)
theory TableShowdown
  imports TableVault
begin

text \<open>
  When a showdown is paid out: from right books the reset of the table succeeds, and so does the
  settlement of every plan that the shared derivation accepts; and a table of valid schema has such
  a plan exactly when its fields make it ready for the showdown.
\<close>

section \<open>The reset returns\<close>

lemma own_chips_le_assets: "s \<in> set (t_seats t) \<Longrightarrow> own_chips s \<le> assets t"
  by (simp add: assets_own member_le_sum_list)

lemma preflight_returns:
  assumes "\<forall>x \<in> set xs. own_chips (snd x) < u64_limit"
    and "a + sum_list (map (\<lambda>x. own_chips (snd x)) xs) < u64_limit"
    and "r + sum_list (map (\<lambda>x. own_chips (snd x)) xs) < u64_limit"
  shows "\<exists>a' js' r'. foldM (\<lambda>(total_pending, to_remove, total_refund) (i, s).
         rbind (if seat_pending_addon s > 0 \<and> is_occupied s then
                  rbind (checked (checked_add_u64 (seat_stack s) (seat_pending_addon s)) ma) (\<lambda>_.
                  checked (checked_add_u64 total_pending (seat_pending_addon s)) mb)
                else Inr total_pending) (\<lambda>total_pending.
         if is_occupied s \<and> seat_wants_leave t i then
           rbind (checked (checked_add_u64 (seat_stack s) (seat_pending_addon s)) mc) (\<lambda>refund.
           rbind (checked (checked_add_u64 total_refund refund) md) (\<lambda>total_refund.
           Inr (total_pending, to_remove @ [i], total_refund)))
         else Inr (total_pending, to_remove, total_refund))) (a, js, r) xs = Inr (a', js', r')"
  using assms
proof (induction xs arbitrary: a js r)
  case (Cons x xs)
  obtain i s where x: "x = (i, s)" by (cases x)
  have s: "seat_stack s + seat_pending_addon s < u64_limit" using Cons.prems(1) x by simp
  have bounds: "a + seat_pending_addon s < u64_limit" "r + own_chips s < u64_limit"
    "a + seat_pending_addon s + sum_list (map (\<lambda>x. own_chips (snd x)) xs) < u64_limit"
    "a + sum_list (map (\<lambda>x. own_chips (snd x)) xs) < u64_limit"
    "r + own_chips s + sum_list (map (\<lambda>x. own_chips (snd x)) xs) < u64_limit"
    "r + sum_list (map (\<lambda>x. own_chips (snd x)) xs) < u64_limit"
    using Cons.prems(2,3) by (simp_all add: x)
  have "\<forall>x \<in> set xs. own_chips (snd x) < u64_limit" using Cons.prems(1) by simp
  note IH = Cons.IH[OF this]
  show ?case
    using bounds s IH
    by (simp add: x checked_def ok_or_def checked_add_u64_def)
qed simp

lemma preflight_total:
  assumes "assets t \<le> t_chip_pool t" "t_chip_pool t < u64_limit"
  shows "\<exists>is pool. reset_preflight t = Inr (is, pool)"
proof -
  let ?xs = "enumerate 0 (t_seats t)"
  have snd: "map (\<lambda>x. own_chips (snd x)) ?xs = map own_chips (t_seats t)"
    by (rule nth_equalityI) (simp_all add: nth_enumerate_eq)
  have "\<forall>x \<in> set ?xs. own_chips (snd x) < u64_limit"
  proof
    fix x assume "x \<in> set ?xs"
    then have "snd x \<in> set (map snd ?xs)" by (simp only: set_map imageI)
    then have "snd x \<in> set (t_seats t)" by simp
    from own_chips_le_assets[OF this] assms show "own_chips (snd x) < u64_limit" by linarith
  qed
  note found = preflight_returns[where a = 0 and r = 0 and js = "[]" and xs = ?xs and t = t
      and ma = "''reset_for_next_hand: stack += pending_addon overflow''"
      and mb = "''reset_for_next_hand: total pending addon overflow''"
      and mc = "''reset_for_next_hand: leave refund overflow''"
      and md = "''reset_for_next_hand: total leave refund overflow''", OF this]
  have "0 + sum_list (map (\<lambda>x. own_chips (snd x)) ?xs) < u64_limit"
    using assms by (simp add: snd assets_own)
  from found[OF this this] obtain a "is" r where
    loop: "foldM (\<lambda>(total_pending, to_remove, total_refund) (i, s).
         rbind (if seat_pending_addon s > 0 \<and> is_occupied s then
                  rbind (checked (checked_add_u64 (seat_stack s) (seat_pending_addon s))
                           ''reset_for_next_hand: stack += pending_addon overflow'') (\<lambda>_.
                  checked (checked_add_u64 total_pending (seat_pending_addon s))
                    ''reset_for_next_hand: total pending addon overflow'')
                else Inr total_pending) (\<lambda>total_pending.
         if is_occupied s \<and> seat_wants_leave t i then
           rbind (checked (checked_add_u64 (seat_stack s) (seat_pending_addon s))
                    ''reset_for_next_hand: leave refund overflow'') (\<lambda>refund.
           rbind (checked (checked_add_u64 total_refund refund)
                    ''reset_for_next_hand: total leave refund overflow'') (\<lambda>total_refund.
           Inr (total_pending, to_remove @ [i], total_refund)))
         else Inr (total_pending, to_remove, total_refund))) (0, [], 0) ?xs = Inr (a, is, r)"
    by blast
  have "r \<le> sum_list (map (\<lambda>x. own_chips (snd x)) ?xs)"
    using preflight_loop[OF loop]
    by (simp add: case_prod_unfold o_def sum_list_filter_le_nat)
  then have "r \<le> t_chip_pool t" using assms(1) by (simp only: snd assets_own) 
  with loop show ?thesis
    by (simp add: reset_preflight_def checked_def ok_or_def checked_sub_u64_def)
qed

lemma credit_addon_total:
  assumes "own_chips s < u64_limit"
  shows "\<exists>r. credit_addon tid (seats, es) (i, s) = Inr r"
  using assms by (cases s) (auto simp: credit_addon_def checked_def ok_or_def checked_add_u64_def)

lemma set_money_occupied:
  "is_occupied s \<Longrightarrow> \<exists>s'. set_stack s n = Inr s' \<and> is_occupied s'"
  "is_occupied s \<Longrightarrow> \<exists>s'. set_pending_addon s n = Inr s' \<and> is_occupied s'"
  by (cases s; simp)+

lemma remove_leaver_total:
  assumes "i < length (t_seats t)" "is_occupied (t_seats t ! i)" "own_chips (t_seats t ! i) < u64_limit"
  shows "\<exists>r. remove_leaver (t, es) i = Inr r"
  using assms
  by (cases "t_seats t ! i") (auto simp: remove_leaver_def idx_def add_u64_def Let_def)

lemma remove_leaver_loop_total:
  assumes "distinct is" "\<And>i. i \<in> set is \<Longrightarrow> i < length (t_seats t) \<and> is_occupied (t_seats t ! i) \<and>
    own_chips (t_seats t ! i) < u64_limit"
  shows "\<exists>r. foldM remove_leaver (t, es) is = Inr r"
proof -
  have "\<exists>r. foldM remove_leaver (t, es) is = Inr r \<and> emptied is t (fst r)"
  proof (rule foldM_prefix_total[where I = "\<lambda>xs r. emptied xs t (fst r)"], goal_cases)
    case 1
    show ?case by (simp add: emptied_def)
  next
    case (2 xs i zs r)
    obtain u fs where r: "r = (u, fs)" by (cases r)
    have "t_seats u ! i = t_seats t ! i" "i < length (t_seats u)"
      using 2 assms r by (auto simp: emptied_def)
    with remove_leaver_total[of i u fs] assms(2)[of i] 2(1) obtain u' fs' where
      step: "remove_leaver (u, fs) i = Inr (u', fs')" by auto
    with 2(2) r remove_leaver_step[OF step] emptied_step[of xs t u u' i] show ?case by auto
  qed
  then show ?thesis by blast
qed

lemma remove_broke_loop_total:
  assumes "\<And>i. i \<in> set is \<Longrightarrow> i < length (t_seats t)"
  shows "\<exists>r. foldM remove_broke (t, es) is = Inr r"
proof -
  have "\<exists>r. foldM remove_broke (t, es) is = Inr r \<and> length (t_seats (fst r)) = length (t_seats t)"
  proof (rule foldM_prefix_total[where I = "\<lambda>_ r. length (t_seats (fst r)) = length (t_seats t)"], goal_cases)
    case (2 xs i zs r)
    then show ?case
      using assms[of i]
      by (cases r) (auto simp: remove_broke_def idx_def Let_def set_seat_wants_leave_def)
  qed simp
  then show ?thesis by blast
qed

lemma set_initial_total: "\<exists>t'. set_initial_encrypted_deck L t = Inr t'"
  by (simp add: set_initial_encrypted_deck_def cipher_deck_def CIPHER_DECK_SIZE_def)

lemma set_initial_then: "\<exists>t' es'. rbind (set_initial_encrypted_deck L t) (\<lambda>t7. Inr (t7, es)) = Inr (t', es')"
  using set_initial_total[of L t] by auto

lemma reset_total:
  assumes "assets t = t_chip_pool t" "t_chip_pool t < u64_limit"
  shows "\<exists>t' es'. reset_for_next_hand L t es = Inr (t', es')"
proof -
  obtain "is" pool where pre: "reset_preflight t = Inr (is, pool)"
    using preflight_total[of t] assms by auto
  have own: "own_chips s < u64_limit" if "s \<in> set (t_seats t)" for s
    using own_chips_le_assets[OF that] assms by simp
  have "\<exists>r. foldM (credit_addon (t_id t)) ([], es) (enumerate 0 (t_seats t)) = Inr r \<and> True"
  proof (rule foldM_prefix_total[where I = "\<lambda>_ _. True"], goal_cases)
    case (2 xs x zs r)
    obtain i s seats fs where x: "x = (i, s)" "r = (seats, fs)" by (cases x, cases r)
    from 2(1) have "s \<in> set (map snd (enumerate 0 (t_seats t)))" by (auto simp: x)
    then have "own_chips s < u64_limit" by (intro own) simp
    with credit_addon_total[of s "t_id t" seats fs i] show ?case by (auto simp: x)
  qed simp
  then obtain seats es1 where
    credit: "foldM (credit_addon (t_id t)) ([], es) (enumerate 0 (t_seats t)) = Inr (seats, es1)" by auto
  define t1 where "t1 = put_contributors
    (t\<lparr>t_seats := map prepare_next_hand (map refill_time_bank seats), t_acted_mask := 0\<rparr>)
    (live_key_mask L (map refill_time_bank seats))"
  note chips = credit_addon_loop(1)[OF credit]
  have same: "map own_chips (t_seats t1) = map own_chips (t_seats t)"
    "map is_occupied (t_seats t1) = map is_occupied (t_seats t)"
    using chips by (simp_all add: t1_def same_chips_def o_def)
  have len: "length (t_seats t1) = length (t_seats t)" using arg_cong[OF same(1), of length] by simp
  have nth: "own_chips (t_seats t1 ! i) = own_chips (t_seats t ! i)"
    "is_occupied (t_seats t1 ! i) = is_occupied (t_seats t ! i)" if "i < length (t_seats t)" for i
    using arg_cong[OF same(1), of "\<lambda>xs. xs ! i"] arg_cong[OF same(2), of "\<lambda>xs. xs ! i"] that len
    by simp_all
  have "i < length (t_seats t1) \<and> is_occupied (t_seats t1 ! i) \<and> own_chips (t_seats t1 ! i) < u64_limit"
    if "i \<in> set is" for i
    using that nth[of i] own[of "t_seats t ! i"] len
    by (auto simp: reset_preflight_eq(1)[OF pre] leaving_def in_set_enumerate_eq)
  moreover have "distinct is" using reset_preflight_eq(1)[OF pre] leaving_props(1)[of t] by simp
  ultimately obtain r2 where "foldM remove_leaver (t1, es1) is = Inr r2"
    using remove_leaver_loop_total[of "is" t1 es1] by blast
  then obtain t2 es2 where leave: "foldM remove_leaver (t1, es1) is = Inr (t2, es2)" by (cases r2) simp
  let ?js = "map fst (filter (\<lambda>(_, s). has_left_hand s \<or> is_occupied s \<and> seat_stack s = 0)
    (enumerate 0 (t_seats (t2\<lparr>t_chip_pool := pool\<rparr>))))"
  have "i < length (t_seats (t2\<lparr>t_chip_pool := pool\<rparr>))" if "i \<in> set ?js" for i
    using that by (auto simp: in_set_enumerate_eq)
  from remove_broke_loop_total[OF this] obtain r4 where
    "foldM remove_broke (t2\<lparr>t_chip_pool := pool\<rparr>, es2) ?js = Inr r4" by blast
  then obtain t4 es4 where
    broke: "foldM remove_broke (t2\<lparr>t_chip_pool := pool\<rparr>, es2) ?js = Inr (t4, es4)" by (cases r4) simp
  show ?thesis
    unfolding reset_for_next_hand_def Let_def pre rbind_simps(2) case_prod_conv credit leave[unfolded t1_def] broke
    by (rule set_initial_then)
qed

section \<open>The settlement returns\<close>

lemma inactive_award:
  assumes "derive_settlement_plan snapshot b = Inr plan" "j < ts_seat_count snapshot" "ts_inactive snapshot ! j"
  shows "pl_awards plan ! j = 0"
proof -
  note d = derive_Inr[OF assms(1)]
  obtain pots where pots: "side_pots_of snapshot = Inr pots" using plan_pots[OF d(2)] by metis
  have "filter (\<lambda>p. pot_is_eligible p j) pots = []"
    using eligible_at_table(3)[OF d(1) pots] assms(3)
    by (auto simp: filter_empty_conv pot_is_eligible_def is_eligible_bit)
  moreover have "j < SETTLEMENT_SEATS" using assms(2) d(1) by (simp add: snapshot_ok_def table_ok_def)
  ultimately show ?thesis
    using award_le_claimable[OF d(2) pots, of j] by (simp add: claimable_def)
qed

lemma post_stacks_returns:
  assumes "\<And>i. i < length ss \<Longrightarrow> k + i < length aw \<and> seat_stack (ss ! i) + aw ! (k + i) < u64_limit"
  shows "\<exists>r. foldM (\<lambda>stacks (i, s). rbind (idx aw i) (\<lambda>a.
     rbind (checked (checked_add_u64 (seat_stack s) a) msg) (\<lambda>n. Inr (stacks @ [n])))) acc (enumerate k ss) = Inr r"
  using assms
proof (induction ss arbitrary: k acc)
  case (Cons s ss)
  have "k < length aw" "seat_stack s + aw ! k < u64_limit" using Cons.prems[of 0] by simp_all
  moreover have "Suc k + i < length aw \<and> seat_stack (ss ! i) + aw ! (Suc k + i) < u64_limit"
    if "i < length ss" for i
    using Cons.prems[of "Suc i"] that by simp
  note Cons.IH[OF this]
  ultimately show ?case by (simp add: idx_def checked_def ok_or_def checked_add_u64_def)
qed simp

lemma set_stacks_returns:
  assumes "length ns = length ss" "\<And>i. i < length ss \<Longrightarrow> is_occupied (ss ! i) \<or> ns ! i = 0"
  shows "\<exists>r. foldM (\<lambda>seats (s, n). rbind (set_stack s n) (\<lambda>s'. Inr (seats @ [s']))) acc (zip ss ns) = Inr r"
  using assms
proof (induction ss arbitrary: acc ns)
  case (Cons s ss)
  then obtain n ns' where ns: "ns = n # ns'" by (cases ns) auto
  have "\<exists>s'. set_stack s n = Inr s'" using Cons.prems(2)[of 0] by (cases s) (auto simp: ns)
  moreover have "is_occupied (ss ! i) \<or> ns' ! i = 0" if "i < length ss" for i
    using Cons.prems(2)[of "Suc i"] that by (simp add: ns)
  note Cons.IH[OF _ this]
  ultimately show ?case using Cons.prems(1) by (auto simp: ns)
qed simp

lemma apply_plan_total:
  assumes "derive_plan_for_boards t b = Inr plan" "books_ok t" "t_chip_pool t < u64_limit"
  shows "\<exists>t' es'. apply_settlement_plan L t plan es = Inr (t', es')"
proof -
  let ?n = "length (t_seats t)" and ?aw = "pl_awards plan"
  have plan: "derive_settlement_plan (snapshot_of t) b = Inr plan" and gross: "pl_gross_pot plan = t_pot t"
    using assms(1) by (auto simp: derive_plan_for_boards_def rbind_eq_Inr map_err_eq_Inr require_eq_Inr)
  have n: "ts_seat_count (snapshot_of t) = ?n" by (simp add: snapshot_of_def)
  note d = derive_awards_at_table[OF plan]
  have valid: "validate plan ?n = Inr ()" using derive_Inr(3)[OF plan] n by simp
  have total: "pl_gross_pot plan + assets t = t_chip_pool t"
    using assms(2) d(3) by (simp add: books_ok_def snapshot_of_def)
  have rake: "pl_rake plan \<le> t_chip_pool t" using d(5) total by linarith
  have len: "?n \<le> length ?aw" using d(1,2) n by simp
  have fits: "0 + i < length ?aw \<and> seat_stack (t_seats t ! i) + ?aw ! (0 + i) < u64_limit" if "i < ?n" for i
  proof -
    have "?aw ! i \<in> set (take ?n ?aw)" using that len by (auto simp: in_set_conv_nth)
    then have "?aw ! i \<le> sum_list (take ?n ?aw)" by (simp add: member_le_sum_list)
    moreover have "seat_stack (t_seats t ! i) \<le> assets t"
      using own_chips_le_assets[of "t_seats t ! i" t] that by simp
    ultimately show ?thesis using d(4)[unfolded n] total assms(3) that len by simp
  qed
  from post_stacks_returns[of "t_seats t" 0 ?aw, OF this] obtain stacks where
    stacks: "foldM (\<lambda>stacks (i, s). rbind (idx ?aw i) (\<lambda>a.
        rbind (checked (checked_add_u64 (seat_stack s) a) ''settlement: seat stack award overflow'') (\<lambda>n.
        Inr (stacks @ [n])))) [] (enumerate 0 (t_seats t)) = Inr stacks" by blast
  from post_stacks_loop[OF stacks] have st: "stacks = map2 (\<lambda>s a. seat_stack s + a) (t_seats t) (take ?n ?aw)"
    by simp
  have "is_occupied (t_seats t ! i) \<or> stacks ! i = 0" if "i < ?n" for i
  proof (cases "is_occupied (t_seats t ! i)")
    case False
    then have "?aw ! i = 0"
      using inactive_award[OF plan, of i] that n by (simp add: snapshot_of_def)
    then show ?thesis
      using False that len non_occupied_coins[of "t_seats t ! i"] by (simp add: st)
  qed simp
  from set_stacks_returns[OF _ this] obtain seats where
    seats: "foldM (\<lambda>seats (s, n). rbind (set_stack s n) (\<lambda>s'. Inr (seats @ [s']))) [] (zip (t_seats t) stacks)
      = Inr seats" using len by (auto simp: st)
  have pool: "checked (checked_sub_u64 (t_chip_pool t) (pl_rake plan)) m = Inr (t_chip_pool t - pl_rake plan)" for m
    using rake by (simp add: checked_def ok_or_def checked_sub_u64_def)
  show ?thesis
    by (simp add: apply_settlement_plan_def valid map_err_def gross pool stacks seats Let_def)
qed

text \<open>The boards of a showdown, as \<open>settle_hand\<close> puts them together.\<close>

definition showdown_boards :: "'p table \<Rightarrow> (l1_error, settlement_boards) outcome" where
  "showdown_boards t =
     (case t_rit_state t of
        RitTwice start sfx \<Rightarrow>
          rbind (full_second_board (t_rit_state t) (t_community_cards t)) (\<lambda>b2.
          Inr (TwiceBoards start (as_slice (t_community_cards t)) b2))
      | RitSingle \<Rightarrow> Inr (SingleBoard (as_slice (t_community_cards t))))"

lemma settle_hand_boards:
  assumes "round_state t = ROUND_SHOWDOWN" "reveal_token_state t = None" "showdown_boards t = Inr b"
  shows "settle_hand L t es = rbind (derive_plan_for_boards t b) (\<lambda>plan.
     rbind (apply_settlement_plan L t plan es) (\<lambda>(t1, es1). reset_for_next_hand L t1 es1))"
  using assms
  by (cases "t_rit_state t") (auto simp: settle_hand_def showdown_boards_def rbind_eq_Inr)

lemma settle_hand_total:
  assumes "round_state t = ROUND_SHOWDOWN" "reveal_token_state t = None" "showdown_boards t = Inr b"
    and "derive_plan_for_boards t b = Inr plan" "books_ok t" "t_chip_pool t < u64_limit"
  obtains t' es' where "settle_hand L t es = Inr (t', es')" "books_ok t'" "wagers t' = 0"
    "t_chip_pool t' + paid es' = t_chip_pool t + paid es" "t_hand_phase t' = PhaseWaiting"
proof -
  obtain t1 es1 where ap: "apply_settlement_plan L t plan es = Inr (t1, es1)"
    using apply_plan_total[OF assms(4-6)] by blast
  have plan: "derive_settlement_plan (snapshot_of t) b = Inr plan"
    using assms(4) by (auto simp: derive_plan_for_boards_def rbind_eq_Inr map_err_eq_Inr)
  note d = derive_awards_at_table[OF plan]
  have n: "ts_seat_count (snapshot_of t) = length (t_seats t)" by (simp add: snapshot_of_def)
  note m = apply_settlement_plan_money[OF ap]
  have gross: "pl_gross_pot plan = sum_of seat_total_bet t" using d(3) by (simp add: snapshot_of_def)
  have len: "length (t_seats t) \<le> length (pl_awards plan)" using d(1,2) n by simp
  note m = m[OF len]
  have "assets t + (t_pot t + sum_of seat_bet t) = t_chip_pool t"
    "t_pot t + sum_of seat_bet t = sum_of seat_total_bet t"
    using assms(5) by (simp_all add: books_ok_def wagers_def)
  then have right: "assets t1 = t_chip_pool t1" "t_chip_pool t1 < u64_limit"
    using m d(4)[unfolded n] gross assms(6) by linarith+
  obtain t' es' where reset: "reset_for_next_hand L t1 es1 = Inr (t', es')"
    using reset_total[OF right] by blast
  have "settle_hand L t es = Inr (t', es')"
    using settle_hand_boards[OF assms(1-3)] assms(4) ap reset by simp
  with that[of t' es'] reset_money[OF reset] reset_books[OF reset] right(1) m
  show thesis by (simp add: vault_def wagers_def)
qed

section \<open>When a showdown is settled\<close>

text \<open>
  What a table needs for its showdown, read off its fields: full boards, two cards for every seat
  still in the hand, a stake of one of them, collected bets, and numbers in range.
\<close>

definition contender :: "'p seat \<Rightarrow> bool" where
  "contender s \<longleftrightarrow> is_occupied s \<and> \<not> is_folded s \<and> \<not> has_left_hand s"

definition two_cards :: "'p seat \<Rightarrow> bool" where
  "two_cards s \<longleftrightarrow> (case seat_hand s of None \<Rightarrow> False | Some h \<Rightarrow> cs_len h = 2)"

definition boards_dealt :: "'p table \<Rightarrow> bool" where
  "boards_dealt t \<longleftrightarrow> cs_len (t_community_cards t) = 5 \<and>
     (case t_rit_state t of
        RitSingle \<Rightarrow> True
      | RitTwice start sfx \<Rightarrow> rit_shared_board_len start + cs_len sfx = 5)"

definition showdown_ready :: "'p table \<Rightarrow> bool" where
  "showdown_ready t \<longleftrightarrow> boards_dealt t \<and>
     (\<forall>s \<in> set (t_seats t). contender s \<longrightarrow> two_cards s) \<and>
     (\<exists>s \<in> set (t_seats t). contender s \<and> 0 < seat_total_bet s) \<and>
     (\<forall>s \<in> set (t_seats t). seat_bet s = 0) \<and>
     sum_of seat_total_bet t \<le> MAX_TOTAL_BET \<and> t_button t < length (t_seats t)"

definition shown_cards :: "'p seat \<Rightarrow> nat list" where
  "shown_cards s = (case seat_hand s of None \<Rightarrow> [] | Some h \<Rightarrow> as_slice h)"

definition hand_fits :: "'p seat \<Rightarrow> bool" where
  "hand_fits s \<longleftrightarrow> (\<forall>h. seat_hand s = Some h \<longrightarrow> length (as_slice h) = cs_len h)"

lemma unseen_Inr:
  "foldM (unseen msg) seen cards = Inr r \<longleftrightarrow>
     distinct cards \<and> set cards \<inter> set seen = {} \<and> r = rev cards @ seen"
  by (induction cards arbitrary: seen) (auto simp: unseen_def rbind_eq_Inr require_eq_Inr)

lemma l1_boards_ok: "l1_boards_validate b = Inr () \<longleftrightarrow> boards_ok b"
  by (cases b)
    (auto simp: l1_boards_validate_def rbind_eq_Inr require_eq_Inr unseen_Inr list_ex_iff card_is_valid_def Let_def)

text \<open>One step of the check of the exposed cards.\<close>

definition l1_expose :: "nat list \<Rightarrow> 'p seat \<Rightarrow> (l1_error, nat list) outcome" where
  "l1_expose seen s =
     (if \<not> is_occupied s \<or> is_folded s \<or> has_left_hand s then Inr seen
      else
        rbind (ok_or (Serialization ''settlement: eligible seat has no in-hand payload'') (seat_hand s)) (\<lambda>h.
        rbind (require (\<not> (cs_len h \<noteq> 2 \<or> list_ex (\<lambda>c. \<not> card_is_valid c) (as_slice h)))
                 ''settlement: eligible seat must expose exactly two valid cards'') (\<lambda>_.
        foldM (unseen ''settlement: duplicate exposed hole card'') seen (as_slice h))))"

lemma l1_expose_Inr:
  assumes "hand_fits s"
  shows "l1_expose seen s = Inr r \<longleftrightarrow>
    (if contender s
     then hand_valid (shown_cards s) \<and> distinct (shown_cards s) \<and> set (shown_cards s) \<inter> set seen = {} \<and>
       r = rev (shown_cards s) @ seen
     else r = seen)"
proof (cases "contender s")
  case True
  then have c: "is_occupied s" "\<not> is_folded s" "\<not> has_left_hand s" by (simp_all add: contender_def)
  show ?thesis
  proof (cases "seat_hand s")
    case None
    then show ?thesis using True c by (simp add: l1_expose_def ok_or_def shown_cards_def hand_valid_def)
  next
    case (Some h)
    have "length (as_slice h) = cs_len h" using assms Some by (simp add: hand_fits_def)
    then show ?thesis
      using True c Some
      by (auto simp: l1_expose_def rbind_eq_Inr require_eq_Inr ok_or_def unseen_Inr shown_cards_def hand_valid_def
          list_ex_iff card_is_valid_def)
  qed
qed (auto simp: l1_expose_def contender_def)

lemma l1_exposed_loop:
  assumes "\<forall>s \<in> set ss. hand_fits s"
  shows "foldM l1_expose seen ss = Inr r \<longleftrightarrow>
     (\<forall>h \<in> set (map shown_cards (filter contender ss)). hand_valid h) \<and>
     distinct (concat (map shown_cards (filter contender ss))) \<and>
     set (concat (map shown_cards (filter contender ss))) \<inter> set seen = {} \<and>
     r = rev (concat (map shown_cards (filter contender ss))) @ seen"
  using assms
proof (induction ss arbitrary: seen)
  case (Cons s ss)
  then have "hand_fits s" by simp
  note step = l1_expose_Inr[OF this]
  have IH: "foldM l1_expose seen ss = Inr r \<longleftrightarrow>
     (\<forall>h \<in> set (map shown_cards (filter contender ss)). hand_valid h) \<and>
     distinct (concat (map shown_cards (filter contender ss))) \<and>
     set (concat (map shown_cards (filter contender ss))) \<inter> set seen = {} \<and>
     r = rev (concat (map shown_cards (filter contender ss))) @ seen" for seen
    using Cons by simp
  show ?case
    by (cases "contender s") (auto simp: rbind_eq_Inr step IH)
qed auto

lemma live_snapshot:
  "map snd (live_hands (snapshot_of t)) = map shown_cards (filter contender (t_seats t))"
proof -
  have "map snd (filter (\<lambda>(i, x). \<not> map g ss ! i) (enumerate 0 (map f ss))) = map f (filter (\<lambda>s. \<not> g s) ss)"
    for g :: "'a seat \<Rightarrow> bool" and f :: "'a seat \<Rightarrow> nat list" and ss
  proof (induction ss rule: rev_induct)
    case (snoc s ss)
    have "filter (\<lambda>(i, x). \<not> map g (ss @ [s]) ! i) (enumerate 0 (map f ss)) = filter (\<lambda>(i, x). \<not> map g ss ! i) (enumerate 0 (map f ss))"
      by (rule filter_cong) (auto simp: in_set_enumerate_eq nth_append)
    then show ?case using snoc by (simp add: enumerate_append_eq nth_append)
  qed simp
  from this[of "\<lambda>s. \<not> is_occupied s \<or> is_folded s \<or> has_left_hand s" "t_seats t" shown_cards] show ?thesis
    by (simp add: live_hands_def snapshot_of_def shown_cards_def[abs_def] contender_def[abs_def])
qed

lemma l1_exposed_ok:
  assumes "\<forall>s \<in> set (t_seats t). hand_fits s"
  shows "l1_validate_exposed_cards t b = Inr () \<longleftrightarrow> exposed_ok (snapshot_of t) b"
proof -
  have "l1_validate_exposed_cards t b = Inr () \<longleftrightarrow>
      (\<forall>h \<in> set (map snd (live_hands (snapshot_of t))). hand_valid h) \<and>
      distinct (concat (map snd (live_hands (snapshot_of t)))) \<and>
      \<not> list_ex (\<lambda>c. c \<in> set (concat (map snd (live_hands (snapshot_of t))))) (board1 b) \<and>
      \<not> (runout_count b = 2 \<and>
         list_ex (\<lambda>c. c \<in> set (concat (map snd (live_hands (snapshot_of t))))) (drop (shared_board_len b) (board2 b)))"
    unfolding live_snapshot l1_validate_exposed_cards_def rbind_eq_Inr l1_expose_def[abs_def, symmetric] l1_exposed_loop[OF assms]
    by (auto simp: require_eq_Inr rbind_eq_Inr split: if_splits)
  also have "\<dots> \<longleftrightarrow> exposed_ok (snapshot_of t) b"
    using board2_single[of b]
    by (cases "runout_count b = 2") (auto simp: exposed_ok_def hand_valid_def board_cards_def list_ex_iff)
  finally show ?thesis .
qed

lemma derive_plan_ok:
  assumes "\<forall>s \<in> set (t_seats t). hand_fits s"
  shows "(\<exists>plan. derive_plan_for_boards t b = Inr plan) \<longleftrightarrow>
    snapshot_ok (snapshot_of t) b \<and> sum_of seat_total_bet t = t_pot t"
proof
  assume "\<exists>plan. derive_plan_for_boards t b = Inr plan"
  then obtain plan where plan: "derive_settlement_plan (snapshot_of t) b = Inr plan" "pl_gross_pot plan = t_pot t"
    by (auto simp: derive_plan_for_boards_def rbind_eq_Inr map_err_eq_Inr require_eq_Inr)
  with derive_awards_at_table(3)[OF plan(1)] derive_Inr(1)[OF plan(1)]
  show "snapshot_ok (snapshot_of t) b \<and> sum_of seat_total_bet t = t_pot t" by (simp add: snapshot_of_def)
next
  assume ok: "snapshot_ok (snapshot_of t) b \<and> sum_of seat_total_bet t = t_pot t"
  then obtain plan where plan: "derive_settlement_plan (snapshot_of t) b = Inr plan" using derive_ok by blast
  have parts: "boards_ok b" "exposed_ok (snapshot_of t) b" "length (t_seats t) \<le> SETTLEMENT_SEATS"
    using ok by (auto simp: snapshot_ok_def table_ok_def) (simp_all add: snapshot_of_def)
  have "pl_gross_pot plan = t_pot t"
    using derive_awards_at_table(3)[OF plan] ok by (simp add: snapshot_of_def)
  with plan parts l1_exposed_ok[OF assms] show "\<exists>plan. derive_plan_for_boards t b = Inr plan"
    by (simp add: derive_plan_for_boards_def rbind_eq_Inr require_eq_Inr l1_boards_ok map_err_def)
qed

text \<open>What a valid schema says of the cards.\<close>

lemma materialized_Inr:
  "foldM (\<lambda>seen c. rbind (require (\<not> (c \<ge> 52 \<or> c \<in> set seen)) m) (\<lambda>_. Inr (c # seen))) seen (cards :: nat list) = Inr r \<longleftrightarrow>
     distinct cards \<and> set cards \<inter> set seen = {} \<and> (\<forall>c \<in> set cards. c < 52) \<and> r = rev cards @ seen"
  by (induction cards arbitrary: seen) (auto simp: rbind_eq_Inr require_eq_Inr not_le)

lemma canonical_length: "cards_canonical cs \<Longrightarrow> length (as_slice cs) = cs_len cs"
  by (simp add: cards_canonical_def as_slice_def)

lemma schema_cards:
  assumes "validate_state_schema L t = Inr ()"
  shows "length (t_seats t) \<le> 9" "0 < length (t_seats t)" "rake_mode_ok (snapshot_of t)"
    "cards_canonical (t_community_cards t)" "rit_validate_canonical (t_rit_state t) (t_community_cards t) = Inr ()"
    "distinct (exposed_cards t)" "\<forall>c \<in> set (exposed_cards t). c < 52" "\<forall>s \<in> set (t_seats t). hand_fits s"
proof -
  note v = assms[unfolded validate_state_schema_def rbind_eq_Inr require_eq_Inr]
  have rules: "rules_validate_canonical (t_rules t) = Inr ()" and len: "length (t_seats t) = max_players t"
    and seats: "validate_seats L t = Inr ()"
    using v by auto
  show "cards_canonical (t_community_cards t)" "rit_validate_canonical (t_rit_state t) (t_community_cards t) = Inr ()"
    using v by auto
  show "distinct (exposed_cards t)" "\<forall>c \<in> set (exposed_cards t). c < 52"
    using v unfolding materialized_Inr by auto
  show "length (t_seats t) \<le> 9" "0 < length (t_seats t)" "rake_mode_ok (snapshot_of t)"
    using rules len
    by (auto simp: rules_validate_canonical_def rbind_eq_Inr require_eq_Inr MAX_SEATS_def rake_mode_ok_def snapshot_of_def)
  show "\<forall>s \<in> set (t_seats t). hand_fits s"
  proof
    fix s assume "s \<in> set (t_seats t)"
    then obtain i where "i < length (t_seats t)" "s = t_seats t ! i" by (auto simp: in_set_conv_nth)
    then have "(i, s) \<in> set (enumerate 0 (t_seats t))" by (simp add: in_set_enumerate_eq)
    then have "seat_validate_canonical (g1_is_identity L) s = Inr ()"
      using seats unfolding validate_seats_def foldM_unit_Inr by (fastforce simp: rbind_eq_Inr)
    then show "hand_fits s"
      by (cases s) (auto simp: hand_fits_def rbind_eq_Inr require_eq_Inr canonical_length)
  qed
qed

lemma showdown_boards_facts:
  assumes "validate_state_schema L t = Inr ()"
  obtains b where "showdown_boards t = Inr b" "boards_ok b \<longleftrightarrow> boards_dealt t"
    "board_cards b = as_slice (t_community_cards t) @ second_board_suffix (t_rit_state t)"
proof -
  note c = schema_cards[OF assms]
  let ?com = "as_slice (t_community_cards t)"
  have com: "length ?com = cs_len (t_community_cards t)" using c(4) by (rule canonical_length)
  have cards: "distinct (?com @ second_board_suffix (t_rit_state t))" "\<forall>x \<in> set (?com @ second_board_suffix (t_rit_state t)). x < 52"
    using c(6,7) unfolding exposed_cards_def append_assoc[symmetric] by (simp_all only: distinct_append set_append) auto
  show thesis
  proof (cases "t_rit_state t")
    case RitSingle
    show thesis
      by (rule that[of "SingleBoard ?com"])
        (use cards com RitSingle in \<open>auto simp: showdown_boards_def boards_dealt_def board_cards_def\<close>)
  next
    case (RitTwice start sfx)
    let ?k = "rit_shared_board_len start"
    define b2 where "b2 = take ?k ?com @ as_slice sfx"
    have r: "cards_canonical sfx" "?k \<le> cs_len (t_community_cards t)"
      using c(5) by (auto simp: RitTwice rbind_eq_Inr require_eq_Inr Let_def)
    have k: "length (take ?k ?com) = ?k" using r(2) com by simp
    have b2: "length b2 = ?k + cs_len sfx" "take ?k b2 = take ?k ?com" "drop ?k b2 = as_slice sfx"
      "set b2 = set (take ?k ?com) \<union> set (as_slice sfx)"
      using k canonical_length[OF r(1)] by (simp_all add: b2_def)
    have d: "distinct (?com @ as_slice sfx)" "\<forall>x \<in> set ?com \<union> set b2. x < 52"
      using cards set_take_subset[of ?k ?com] by (auto simp: RitTwice b2(4))
    have "boards_ok (TwiceBoards start ?com b2) \<longleftrightarrow> boards_dealt t"
      using com b2(1) d by (simp add: boards_dealt_def RitTwice b2(2,3))
    moreover have "board_cards (TwiceBoards start ?com b2) = ?com @ as_slice sfx"
      by (simp add: board_cards_def b2(3))
    moreover have "showdown_boards t = Inr (TwiceBoards start ?com b2)"
      using r(2) by (simp add: showdown_boards_def RitTwice full_second_board_def rbind_eq_Inr b2_def)
    ultimately show thesis by (intro that) (simp_all add: RitTwice)
  qed
qed

text \<open>The hands still in play are among the cards that a valid schema tells apart.\<close>

lemma distinct_concat_filter: "distinct (concat (map f xs)) \<Longrightarrow> distinct (concat (map f (filter P xs)))"
  by (induction xs) auto

lemma schema_hands:
  assumes "validate_state_schema L t = Inr ()" "s \<in> set (t_seats t)"
  shows "hand_valid (shown_cards s) \<longleftrightarrow> two_cards s"
proof -
  note c = schema_cards[OF assms(1)]
  have fits: "hand_fits s" using c(8) assms(2) by blast
  have "\<forall>x \<in> set (shown_cards s). x < 52"
    using c(7) assms(2) by (auto simp: exposed_cards_def shown_cards_def)
  then show ?thesis
    using fits by (cases "seat_hand s") (auto simp: two_cards_def hand_valid_def shown_cards_def hand_fits_def)
qed

lemma schema_exposed:
  assumes "validate_state_schema L t = Inr ()"
    and "board_cards b = as_slice (t_community_cards t) @ second_board_suffix (t_rit_state t)"
  shows "exposed_ok (snapshot_of t) b \<longleftrightarrow>
     (\<forall>s \<in> set (t_seats t). contender s \<longrightarrow> two_cards s)"
proof -
  let ?live = "concat (map shown_cards (filter contender (t_seats t)))"
  let ?all = "concat (map shown_cards (t_seats t))"
  have "distinct (board_cards b @ ?all)"
    using schema_cards(6)[OF assms(1)] assms(2) by (simp add: exposed_cards_def shown_cards_def[abs_def])
  then have "distinct ?live" "set ?live \<inter> set (board_cards b) = {}"
    using distinct_concat_filter[of shown_cards "t_seats t" contender] by auto
  then have "exposed_ok (snapshot_of t) b \<longleftrightarrow> (\<forall>h \<in> set (map shown_cards (filter contender (t_seats t))). hand_valid h)"
    unfolding exposed_ok_def live_snapshot hand_valid_def by blast
  also have "\<dots> \<longleftrightarrow> (\<forall>s \<in> set (t_seats t). contender s \<longrightarrow> two_cards s)"
    using schema_hands[OF assms(1)] by auto
  finally show ?thesis .
qed

lemma live_contributor_snapshot:
  "live_contributor (snapshot_of t) \<longleftrightarrow> (\<exists>s \<in> set (t_seats t). contender s \<and> 0 < seat_total_bet s)"
proof -
  have "live_contributor (snapshot_of t) \<longleftrightarrow>
      (\<exists>j < length (t_seats t). contender (t_seats t ! j) \<and> 0 < seat_total_bet (t_seats t ! j))"
    unfolding live_contributor_def by (rule ex_cong1) (auto simp: snapshot_of_def contender_def)
  then show ?thesis by (metis in_set_conv_nth)
qed

lemma schema_table_ok:
  assumes "validate_state_schema L t = Inr ()"
  shows "table_ok (snapshot_of t) \<longleftrightarrow> t_button t < length (t_seats t)"
  using schema_cards(1,2)[OF assms]
  by (auto simp: table_ok_def snapshot_of_def SETTLEMENT_SEATS_def MAX_PLAYERS_def less_max_iff_disj)

lemma pot_is_all_bets:
  assumes "books_ok t"
  shows "sum_of seat_total_bet t = t_pot t \<longleftrightarrow> (\<forall>s \<in> set (t_seats t). seat_bet s = 0)"
proof -
  have "sum_of seat_total_bet t = t_pot t \<longleftrightarrow> sum_of seat_bet t = 0"
    using assms by (simp only: books_ok_def wagers_def) linarith
  then show ?thesis by simp
qed

lemma showdown_ready_derives:
  assumes "validate_state_schema L t = Inr ()" "books_ok t"
    and "boards_ok b \<longleftrightarrow> boards_dealt t"
    and "board_cards b = as_slice (t_community_cards t) @ second_board_suffix (t_rit_state t)"
  shows "(\<exists>plan. derive_plan_for_boards t b = Inr plan) \<longleftrightarrow> showdown_ready t"
proof -
  have "sum_list (ts_total_bets (snapshot_of t)) = sum_of seat_total_bet t" by (simp add: snapshot_of_def)
  then show ?thesis
    unfolding derive_plan_ok[OF schema_cards(8)[OF assms(1)]] snapshot_ok_def showdown_ready_def assms(3)
      schema_exposed[OF assms(1,4)] schema_table_ok[OF assms(1)] live_contributor_snapshot pot_is_all_bets[OF assms(2)]
    using schema_cards(3)[OF assms(1)] by auto
qed

text \<open>What every seat owns after the showdown: its chips and its award, or nothing once it has left.\<close>

definition showdown_effect :: "'p table \<Rightarrow> nat list \<Rightarrow> 'p table \<Rightarrow> bool" where
  "showdown_effect t awards t' \<longleftrightarrow>
     length (t_seats t') = length (t_seats t) \<and>
     (\<forall>i < length (t_seats t). own_chips (t_seats t' ! i) =
        (if is_occupied (t_seats t ! i) \<and> seat_wants_leave t i then 0
         else own_chips (t_seats t ! i) + awards ! i))"

lemma settlement_effect:
  assumes "apply_settlement_plan L t plan es = Inr (t1, es1)" "reset_for_next_hand L t1 es1 = Inr (t', es')"
    and len: "length (t_seats t) \<le> length (pl_awards plan)"
  shows "showdown_effect t (pl_awards plan) t'"
proof -
  note m = apply_settlement_plan_seats[OF assms(1) len]
  note r = reset_money(7,8)[OF assms(2)]
  have "i \<in> set (leaving t1) \<longleftrightarrow> is_occupied (t_seats t ! i) \<and> seat_wants_leave t i" if "i < length (t_seats t)" for i
    using that m by (auto simp: leaving_def in_set_enumerate_eq image_iff seat_wants_leave_def)
  then show ?thesis using m r by (simp add: showdown_effect_def)
qed

lemma settle_hand_Inr:
  assumes "round_state t = ROUND_SHOWDOWN" "reveal_token_state t = None" "showdown_boards t = Inr b"
    and "settle_hand L t es = Inr (t', es')"
  obtains plan where "derive_plan_for_boards t b = Inr plan" "derive_settlement_plan (snapshot_of t) b = Inr plan"
    "showdown_effect t (pl_awards plan) t'"
proof -
  obtain plan t1 es1 where parts: "derive_plan_for_boards t b = Inr plan"
    "apply_settlement_plan L t plan es = Inr (t1, es1)" "reset_for_next_hand L t1 es1 = Inr (t', es')"
    using assms(4) unfolding settle_hand_boards[OF assms(1-3)] by (auto simp: rbind_eq_Inr)
  have plan: "derive_settlement_plan (snapshot_of t) b = Inr plan"
    using parts(1) by (auto simp: derive_plan_for_boards_def rbind_eq_Inr map_err_eq_Inr)
  have "length (t_seats t) \<le> length (pl_awards plan)"
    using derive_awards_at_table(1,2)[OF plan] by (simp add: snapshot_of_def)
  with that parts plan settlement_effect show thesis by blast
qed

lemma showdown_settles:
  assumes "validate_state_schema L t = Inr ()" "round_state t = ROUND_SHOWDOWN" "reveal_token_state t = None"
    and "books_ok t" "t_chip_pool t < u64_limit"
  shows "(\<exists>r. settle_hand L t es = Inr r) \<longleftrightarrow> showdown_ready t"
    and "settle_hand L t es = Inr (t', es') \<Longrightarrow>
      (\<exists>b plan. showdown_boards t = Inr b \<and> derive_settlement_plan (snapshot_of t) b = Inr plan \<and>
         showdown_effect t (pl_awards plan) t') \<and>
      books_ok t' \<and> wagers t' = 0 \<and> t_chip_pool t' + paid es' = t_chip_pool t + paid es \<and>
      t_hand_phase t' = PhaseWaiting"
proof -
  obtain b where b: "showdown_boards t = Inr b" "boards_ok b \<longleftrightarrow> boards_dealt t"
    "board_cards b = as_slice (t_community_cards t) @ second_board_suffix (t_rit_state t)"
    by (rule showdown_boards_facts[OF assms(1)])
  note derives = showdown_ready_derives[OF assms(1,4) b(2,3)]
  note found = settle_hand_Inr[OF assms(2,3) b(1)]
  note returns = settle_hand_total[OF assms(2,3) b(1) _ assms(4,5), of _ L es]
  show "(\<exists>r. settle_hand L t es = Inr r) \<longleftrightarrow> showdown_ready t"
  proof
    assume "\<exists>r. settle_hand L t es = Inr r"
    then obtain t2 es2 where "settle_hand L t es = Inr (t2, es2)" by auto
    from found[OF this] derives show "showdown_ready t" by blast
  next
    assume "showdown_ready t"
    then obtain plan where "derive_plan_for_boards t b = Inr plan" using derives by blast
    from returns[OF this] show "\<exists>r. settle_hand L t es = Inr r" by blast
  qed
  assume settled: "settle_hand L t es = Inr (t', es')"
  from found[OF settled] obtain plan where plan: "derive_plan_for_boards t b = Inr plan"
    "derive_settlement_plan (snapshot_of t) b = Inr plan" "showdown_effect t (pl_awards plan) t'" .
  have "books_ok t' \<and> wagers t' = 0 \<and> t_chip_pool t' + paid es' = t_chip_pool t + paid es \<and> t_hand_phase t' = PhaseWaiting"
    by (rule returns[OF plan(1)]) (use settled in auto)
  with b(1) plan show "(\<exists>b plan. showdown_boards t = Inr b \<and> derive_settlement_plan (snapshot_of t) b = Inr plan \<and>
         showdown_effect t (pl_awards plan) t') \<and>
      books_ok t' \<and> wagers t' = 0 \<and> t_chip_pool t' + paid es' = t_chip_pool t + paid es \<and>
      t_hand_phase t' = PhaseWaiting" by blast
qed

end
