(* ===== verification/TableSafety.thy ===== *)
theory TableSafety
  imports TableCustody TableShowdown
begin

text \<open>
  What the table promises to its players and to the chain: the vault that is reconciled around every
  call, the money of the players' commands and of the showdown, who may act and when, and the
  drivers.
\<close>

section \<open>The vault\<close>

lemma other_err_add:
  "other_err (checked_add_u64 a b) m = (if a + b < u64_limit then Inr (a + b) else Inl (Fail (Other m)))"
  by (simp add: other_err_def ok_or_def checked_add_u64_def)

lemma other_err_eq_Inr: "other_err x m = Inr n \<longleftrightarrow> x = Some n"
  by (simp add: other_err_def ok_or_eq_Inr)

lemma reconcile_loop:
  assumes "a < u64_limit" "b < u64_limit" "c < u64_limit" "d < u64_limit"
  shows "foldM (\<lambda>(stacks, pending_addons, current_bets, total_bets) s.
         rbind (other_err (checked_add_u64 stacks (seat_stack s)) m1) (\<lambda>stacks.
         rbind (other_err (checked_add_u64 pending_addons (seat_pending_addon s)) m2) (\<lambda>pending_addons.
         rbind (other_err (checked_add_u64 current_bets (seat_bet s)) m3) (\<lambda>current_bets.
         rbind (other_err (checked_add_u64 total_bets (seat_total_bet s)) m4) (\<lambda>total_bets.
         Inr (stacks, pending_addons, current_bets, total_bets)))))) (a, b, c, d) ss = Inr r \<longleftrightarrow>
     r = (a + sum_list (map seat_stack ss), b + sum_list (map seat_pending_addon ss),
          c + sum_list (map seat_bet ss), d + sum_list (map seat_total_bet ss)) \<and>
     a + sum_list (map seat_stack ss) < u64_limit \<and>
     b + sum_list (map seat_pending_addon ss) < u64_limit \<and>
     c + sum_list (map seat_bet ss) < u64_limit \<and> d + sum_list (map seat_total_bet ss) < u64_limit"
  using assms
proof (induction ss arbitrary: a b c d)
  case Nil
  then show ?case by auto
next
  case (Cons s ss)
  show ?case
  proof (cases "a + seat_stack s < u64_limit \<and> b + seat_pending_addon s < u64_limit \<and>
      c + seat_bet s < u64_limit \<and> d + seat_total_bet s < u64_limit")
    case True
    then have "other_err (checked_add_u64 a (seat_stack s)) m1 = Inr (a + seat_stack s)"
      "other_err (checked_add_u64 b (seat_pending_addon s)) m2 = Inr (b + seat_pending_addon s)"
      "other_err (checked_add_u64 c (seat_bet s)) m3 = Inr (c + seat_bet s)"
      "other_err (checked_add_u64 d (seat_total_bet s)) m4 = Inr (d + seat_total_bet s)"
      by (simp_all add: other_err_add)
    with True show ?thesis by (simp add: Cons.IH add.assoc)
  next
    case False
    then have "\<not> (a + seat_stack s + x < u64_limit \<and> b + seat_pending_addon s + y < u64_limit \<and>
      c + seat_bet s + z < u64_limit \<and> d + seat_total_bet s + w < u64_limit)" for x y z w by linarith
    moreover have "\<exists>e. rbind (other_err (checked_add_u64 a (seat_stack s)) m1) (\<lambda>stacks.
         rbind (other_err (checked_add_u64 b (seat_pending_addon s)) m2) (\<lambda>pending_addons.
         rbind (other_err (checked_add_u64 c (seat_bet s)) m3) (\<lambda>current_bets.
         rbind (other_err (checked_add_u64 d (seat_total_bet s)) m4) (\<lambda>total_bets.
         Inr (stacks, pending_addons, current_bets, total_bets))))) = Inl e"
      using False
      by (cases "a + seat_stack s < u64_limit"; cases "b + seat_pending_addon s < u64_limit";
          cases "c + seat_bet s < u64_limit"; cases "d + seat_total_bet s < u64_limit")
        (simp_all add: other_err_add)
    ultimately show ?thesis by (auto simp: add.assoc)
  qed
qed

lemma reconcile_eq:
  "reconcile_table_vault L t = Inr n \<longleftrightarrow>
     validate_state_schema L t = Inr () \<and> books_ok t \<and> n = t_chip_pool t \<and> n < u64_limit"
proof -
  have phase: "\<exists>ph. canonical_hand_phase t = Inr ph" if "validate_state_schema L t = Inr ()"
    using that by (auto simp: validate_state_schema_def canonical_hand_phase_def rbind_eq_Inr)
  have pos: "0 < u64_limit" by (simp add: u64_limit_def)
  show ?thesis
    using phase
    unfolding reconcile_table_vault_def rbind_eq_Inr reconcile_loop[OF pos pos pos pos]
    by (auto simp: rbind_eq_Inr other_err_eq_Inr checked_add_u64_def books_ok_def wagers_def
        assets_def split: option.splits if_splits)
qed


text \<open>
  A chain of accounts around a step function: what a step takes in and gives out is exactly the change
  of the balance.
\<close>

inductive ledger_run ::
  "('s \<Rightarrow> 'c \<Rightarrow> ('e, 's \<times> 'o) outcome) \<Rightarrow> ('c \<Rightarrow> nat) \<Rightarrow> ('o \<Rightarrow> nat) \<Rightarrow> 's \<Rightarrow> nat \<Rightarrow> nat \<Rightarrow> 's \<Rightarrow> bool"
  for step credit debit s0 where
  run_start: "ledger_run step credit debit s0 0 0 s0"
| run_call: "ledger_run step credit debit s0 d w s \<Longrightarrow> step s c = Inr (s', out) \<Longrightarrow>
    ledger_run step credit debit s0 (d + credit c) (w + debit out) s'"

lemma run_one: "step s c = Inr (s', out) \<Longrightarrow> ledger_run step credit debit s (credit c) (debit out) s'"
  using run_call[OF run_start] by fastforce

locale account =
  fixes step :: "'s \<Rightarrow> 'c \<Rightarrow> ('e, 's \<times> 'o) outcome"
    and credit :: "'c \<Rightarrow> nat" and debit :: "'o \<Rightarrow> nat" and balance :: "'s \<Rightarrow> nat" and sound :: "'s \<Rightarrow> bool"
  assumes step_balance: "step s c = Inr (s', out) \<Longrightarrow> balance s' + debit out = balance s + credit c"
    and step_sound: "step s c = Inr (s', out) \<Longrightarrow> sound s'"
begin

lemma run_balance:
  "ledger_run step credit debit s0 d w s \<Longrightarrow> balance s + w = balance s0 + d"
  by (induction rule: ledger_run.induct) (auto dest!: step_balance)

lemma run_sound:
  "ledger_run step credit debit s0 d w s \<Longrightarrow> sound s0 \<Longrightarrow> sound s"
  by (induction rule: ledger_run.induct) (auto dest: step_sound)

end

definition funding_of :: "'p table_command \<Rightarrow> nat" where
  "funding_of cmd = (case required_funding cmd of Inr (Some n) \<Rightarrow> n | _ \<Rightarrow> 0)"

definition payouts :: "(address \<times> nat) list \<Rightarrow> nat" where
  "payouts outs = sum_list (map snd outs)"

lemma outputs_sum:
  assumes "foldM (\<lambda>tot (_, amount). other_err (checked_add_u64 tot amount) msg) a outs = Inr n"
  shows "n = a + payouts outs"
  using assms
proof (induction outs arbitrary: a)
  case (Cons p outs)
  then have "foldM (\<lambda>tot (_, amount). other_err (checked_add_u64 tot amount) msg) (a + snd p) outs = Inr n"
    by (auto simp: rbind_eq_Inr other_err_eq_Inr checked_add_eq_Some split: prod.splits)
  from Cons.IH[OF this] show ?case by (simp add: payouts_def)
qed (simp add: payouts_def)

lemma vault_call_Inr:
  assumes "vault_call L treasury c t cmd = Inr (t', outs)"
  shows "books_ok t" "books_ok t'" "validate_state_schema L t' = Inr ()"
    "t_chip_pool t' + payouts outs = t_chip_pool t + funding_of cmd"
    "\<exists>es. table_dispatch L c t cmd = Inr (t', es) \<and> escrow_outputs treasury es = Inr outs"
proof -
  note call = assms[unfolded vault_call_def rbind_eq_Inr other_err_eq_Inr other_fail_def]
  show "books_ok t" using call by (auto simp: reconcile_eq)
  show "books_ok t'" "validate_state_schema L t' = Inr ()"
    using call by (auto simp: reconcile_eq rbind_eq_Inr split: if_splits)
  show "\<exists>es. table_dispatch L c t cmd = Inr (t', es) \<and> escrow_outputs treasury es = Inr outs"
    using call by (auto simp: rbind_eq_Inr split: if_splits)
  show "t_chip_pool t' + payouts outs = t_chip_pool t + funding_of cmd"
    using call by (auto simp: reconcile_eq rbind_eq_Inr other_err_eq_Inr funding_of_def checked_add_eq_Some
        checked_sub_eq_Some dest!: outputs_sum split: if_splits option.splits)
qed

abbreviation table_call ::
  "'p poker_lib \<Rightarrow> address \<Rightarrow> 'p table \<Rightarrow> dispatch_context \<times> 'p table_command \<Rightarrow>
   (l1_error, 'p table \<times> (address \<times> nat) list) outcome" where
  "table_call L treasury t c \<equiv> vault_call L treasury (fst c) t (snd c)"

interpretation vault_account: account "table_call L treasury" "\<lambda>c. funding_of (snd c)" payouts t_chip_pool
  books_ok for L treasury
  by unfold_locales (auto dest: vault_call_Inr)

section \<open>The commands of the players\<close>

fun betting_command :: "'p table_command \<Rightarrow> bool" where
  "betting_command (FoldHand _) = True"
| "betting_command (CheckHand _) = True"
| "betting_command (CallBet _) = True"
| "betting_command (RaiseBet _ _) = True"
| "betting_command (PlaceBet _ _) = True"
| "betting_command (FoldWithProof _ _ _) = True"
| "betting_command (ForceFold _) = True"
| "betting_command _ = False"

lemma betting_command_custody:
  assumes "run_command L c t cmd es = Inr (t', es')" "betting_command cmd"
    and "2 \<le> count_active_players (t_seats t)"
  shows "custody (t, es) (t', es')"
  using assms
  by (cases cmd) (auto simp: as_caller_def rbind_eq_Inr dispatch_force_fold_def apply_fold_def
      apply_fold_internal_def apply_raise_def
      intro: apply_player_action_custody apply_check_call_custody apply_bet_custody
        apply_fold_with_proof_custody)

text \<open>The seat a command claims, the seat that must be on turn, and the commands of the creator.\<close>

fun claimed_seat :: "'p table_command \<Rightarrow> nat option" where
  "claimed_seat (LeaveTable i) = Some i"
| "claimed_seat (FoldHand i) = Some i"
| "claimed_seat (CheckHand i) = Some i"
| "claimed_seat (CallBet i) = Some i"
| "claimed_seat (RaiseBet i _) = Some i"
| "claimed_seat (PlaceBet i _) = Some i"
| "claimed_seat (Addon i _) = Some i"
| "claimed_seat (Rebuy i _) = Some i"
| "claimed_seat (SubmitShuffleV2 i _ _) = Some i"
| "claimed_seat (SubmitPlayerRevealTokens i _ _) = Some i"
| "claimed_seat (SubmitReconstructDeck i _ _) = Some i"
| "claimed_seat (SetLeaveAfterHand i _) = Some i"
| "claimed_seat (FoldWithProof i _ _) = Some i"
| "claimed_seat _ = None"

fun acting_seat :: "'p table_command \<Rightarrow> nat option" where
  "acting_seat (FoldHand i) = Some i"
| "acting_seat (CheckHand i) = Some i"
| "acting_seat (CallBet i) = Some i"
| "acting_seat (RaiseBet i _) = Some i"
| "acting_seat (PlaceBet i _) = Some i"
| "acting_seat (FoldWithProof i _ _) = Some i"
| "acting_seat (ForceFold i) = Some i"
| "acting_seat _ = None"

fun creator_command :: "'p table_command \<Rightarrow> bool" where
  "creator_command StartHand = True"
| "creator_command (ForceFold _) = True"
| "creator_command (KickPlayer _) = True"
| "creator_command _ = False"

text \<open>The one seat of a player.\<close>

definition sits_at :: "'p table \<Rightarrow> address \<Rightarrow> nat \<Rightarrow> bool" where
  "sits_at t player i \<longleftrightarrow>
     filter (\<lambda>j. is_occupied (t_seats t ! j) \<and> seat_player (t_seats t ! j) = player)
       [0..<length (t_seats t)] = [i]"

lemma caller_loop:
  assumes "foldM (\<lambda>resolved (i, s).
      if P s then rbind (require (i < 256) m1) (\<lambda>_. rbind (require (resolved = None) m2) (\<lambda>_. Inr (Some i)))
      else Inr resolved) r (enumerate n ss) = Inr r'"
  shows "(r' = r \<and> filter (\<lambda>j. P (ss ! j)) [0..<length ss] = []) \<or>
    (r = None \<and> (\<exists>j. r' = Some (n + j) \<and> filter (\<lambda>j. P (ss ! j)) [0..<length ss] = [j]))"
  using assms
proof (induction ss arbitrary: n r)
  case (Cons s ss)
  have shift: "filter (\<lambda>j. P ((s # ss) ! j)) [0..<length (s # ss)] =
      (if P s then [0] else []) @ map Suc (filter (\<lambda>j. P (ss ! j)) [0..<length ss])"
    by (simp add: upt_conv_Cons map_Suc_upt[symmetric] filter_map o_def del: upt_Suc)
  show ?case
  proof (cases "P s")
    case True
    with Cons.prems have "r = None" and rest: "foldM (\<lambda>resolved (i, s).
      if P s then rbind (require (i < 256) m1) (\<lambda>_. rbind (require (resolved = None) m2) (\<lambda>_. Inr (Some i)))
      else Inr resolved) (Some n) (enumerate (Suc n) ss) = Inr r'"
      by (auto simp: rbind_eq_Inr require_eq_Inr)
    from Cons.IH[OF rest] show ?thesis
      unfolding shift using True \<open>r = None\<close> by auto
  next
    case False
    with Cons.prems have rest: "foldM (\<lambda>resolved (i, s).
      if P s then rbind (require (i < 256) m1) (\<lambda>_. rbind (require (resolved = None) m2) (\<lambda>_. Inr (Some i)))
      else Inr resolved) r (enumerate (Suc n) ss) = Inr r'"
      by simp
    from Cons.IH[OF rest] show ?thesis
      unfolding shift using False by auto
  qed
qed simp

lemma resolve_caller:
  assumes "resolve_caller_seat c t i = Inr j"
  shows "j = i" "sits_at t (dc_caller c) i"
proof -
  from assms have "authenticated_caller_seat c t = Inr i" and "j = i"
    by (auto simp: resolve_caller_seat_def rbind_eq_Inr require_eq_Inr)
  then show "j = i" "sits_at t (dc_caller c) i"
    by (auto simp: authenticated_caller_seat_def rbind_eq_Inr require_eq_Inr ok_or_eq_Inr sits_at_def
        dest!: caller_loop[where n = 0])
qed

lemma action_on_turn:
  "apply_player_action L t i action es = Inr r \<Longrightarrow> is_betting_round t \<and> current_turn t = i"
  "apply_fold_with_proof L t i cards prf es = Inr r \<Longrightarrow> is_betting_round t \<and> current_turn t = i"
  by (auto simp: apply_player_action_def apply_fold_with_proof_def rbind_eq_Inr require_eq_Inr
      is_player_turn_def)

lemma dispatch_runs: "table_dispatch L c t cmd = Inr r \<Longrightarrow> \<exists>r'. run_command L c t cmd [] = Inr r'"
  by (auto simp: table_dispatch_def rbind_eq_Inr)

lemma claims_own_seat:
  assumes "run_command L c t cmd es = Inr r" "claimed_seat cmd = Some i"
  shows "sits_at t (dc_caller c) i"
proof -
  from assms have "\<exists>j. resolve_caller_seat c t i = Inr j"
    by (cases cmd) (simp_all add: as_caller_def rbind_eq_Inr dispatch_leave_table_def; blast)+
  then show ?thesis by (blast dest: resolve_caller(2))
qed

lemma creator_only:
  "run_command L c t cmd es = Inr r \<Longrightarrow> creator_command cmd \<Longrightarrow> t_creator t = dc_caller c"
  by (cases cmd) (auto simp: rbind_eq_Inr dispatch_start_hand_def dispatch_force_fold_def
      dispatch_kick_player_def require_caller_is_creator_def require_eq_Inr)

lemma join_as_oneself:
  "dispatch_join_table L c t player n pk prf es = Inr r \<Longrightarrow> player = dc_caller c"
  by (simp add: dispatch_join_table_def rbind_eq_Inr require_eq_Inr)

lemma wrappers_on_turn:
  "apply_check L t i es = Inr r \<Longrightarrow> is_betting_round t \<and> current_turn t = i"
  "apply_call L t i es = Inr r \<Longrightarrow> is_betting_round t \<and> current_turn t = i"
  "apply_bet L t i n es = Inr r \<Longrightarrow> is_betting_round t \<and> current_turn t = i"
  by (auto simp: apply_check_def apply_call_def apply_bet_def rbind_eq_Inr require_eq_Inr
      is_player_turn_def dest: action_on_turn split: if_splits)

lemma acts_on_turn:
  assumes "run_command L c t cmd es = Inr r" "acting_seat cmd = Some i"
  shows "is_betting_round t \<and> current_turn t = i"
proof -
  have own: "j = i" if "resolve_caller_seat c t i = Inr j" for j
    using that by (rule resolve_caller(1))
  show ?thesis
    using assms
    by (cases cmd) (auto simp: as_caller_def rbind_eq_Inr dispatch_force_fold_def apply_fold_def
        apply_fold_internal_def apply_raise_def dest!: own dest: action_on_turn wrappers_on_turn)
qed

text \<open>Who may give each of the nineteen commands.\<close>

datatype authority =
    AnyCaller | Oneself address | PlayerAt nat | PlayerOnTurn nat | CreatorOnly | CreatorForTurn nat

fun authority_of :: "'p table_command \<Rightarrow> authority" where
  "authority_of (CreateTable _ _ _ _) = AnyCaller"
| "authority_of AdvanceDeadline = AnyCaller"
| "authority_of (JoinTable player _ _ _) = Oneself player"
| "authority_of (LeaveTable i) = PlayerAt i"
| "authority_of (Addon i _) = PlayerAt i"
| "authority_of (Rebuy i _) = PlayerAt i"
| "authority_of (SetLeaveAfterHand i _) = PlayerAt i"
| "authority_of (SubmitShuffleV2 i _ _) = PlayerAt i"
| "authority_of (SubmitPlayerRevealTokens i _ _) = PlayerAt i"
| "authority_of (SubmitReconstructDeck i _ _) = PlayerAt i"
| "authority_of (FoldHand i) = PlayerOnTurn i"
| "authority_of (CheckHand i) = PlayerOnTurn i"
| "authority_of (CallBet i) = PlayerOnTurn i"
| "authority_of (RaiseBet i _) = PlayerOnTurn i"
| "authority_of (PlaceBet i _) = PlayerOnTurn i"
| "authority_of (FoldWithProof i _ _) = PlayerOnTurn i"
| "authority_of StartHand = CreatorOnly"
| "authority_of (KickPlayer _) = CreatorOnly"
| "authority_of (ForceFold i) = CreatorForTurn i"

fun authorised :: "'p table \<Rightarrow> address \<Rightarrow> authority \<Rightarrow> bool" where
  "authorised t caller AnyCaller \<longleftrightarrow> True"
| "authorised t caller (Oneself player) \<longleftrightarrow> caller = player"
| "authorised t caller (PlayerAt i) \<longleftrightarrow> sits_at t caller i"
| "authorised t caller (PlayerOnTurn i) \<longleftrightarrow> sits_at t caller i \<and> is_betting_round t \<and> current_turn t = i"
| "authorised t caller CreatorOnly \<longleftrightarrow> caller = t_creator t"
| "authorised t caller (CreatorForTurn i) \<longleftrightarrow> caller = t_creator t \<and> is_betting_round t \<and> current_turn t = i"

lemma dispatch_authorised:
  assumes "table_dispatch L c t cmd = Inr r"
  shows "authorised t (dc_caller c) (authority_of cmd)"
proof -
  from dispatch_runs[OF assms] obtain r' where run: "run_command L c t cmd [] = Inr r'" by blast
  show ?thesis
    using claims_own_seat[OF run] creator_only[OF run] acts_on_turn[OF run] run
    by (cases cmd) (auto dest: join_as_oneself)
qed

text \<open>The driver of the clock does not look at its caller at all.\<close>

lemma deadline_open_to_all:
  "table_dispatch L (c\<lparr>dc_caller := a\<rparr>) t AdvanceDeadline = table_dispatch L c t AdvanceDeadline"
  by (simp add: table_dispatch_def dispatch_advance_deadline_def)

section \<open>The rules of a bet\<close>

lemma process_raise_iff:
  "process_raise r total_bet b stack = Inr (n, r') \<longleftrightarrow>
     br_current_bet r < total_bet \<and> b < total_bet \<and> n = total_bet - b \<and> n \<le> stack \<and>
     (br_min_raise r \<le> total_bet - br_current_bet r \<or> n = stack) \<and>
     r' = r\<lparr>br_current_bet := total_bet,
            br_min_raise := max (br_min_raise r) (total_bet - br_current_bet r)\<rparr>"
  by (auto simp: process_raise_def Let_def not_le max_def intro!: betting_round.equality)

lemma can_raise_iff:
  "can_raise r b stack \<longleftrightarrow> (\<exists>total_bet n r'. process_raise r total_bet b stack = Inr (n, r'))"
proof
  assume "can_raise r b stack"
  then have "br_current_bet r < b + stack" "0 < stack" by (auto simp: can_raise_def chips_to_call_def)
  then have "process_raise r (b + stack) b stack = Inr (stack, r\<lparr>br_current_bet := b + stack,
      br_min_raise := max (br_min_raise r) (b + stack - br_current_bet r)\<rparr>)"
    by (simp add: process_raise_iff)
  then show "\<exists>total_bet n r'. process_raise r total_bet b stack = Inr (n, r')" by blast
qed (auto simp: process_raise_iff can_raise_def chips_to_call_def)

lemma offered_bits:
  "available_actions r b stack AND ACTION_CHECK \<noteq> 0 \<longleftrightarrow> can_check r b"
  "available_actions r b stack AND ACTION_CALL \<noteq> 0 \<longleftrightarrow> can_call r b stack"
  "available_actions r b stack AND ACTION_RAISE \<noteq> 0 \<longleftrightarrow> can_raise r b stack"
  "available_actions r b stack AND ACTION_FOLD \<noteq> 0"
  by (simp_all add: available_actions_def ACTION_FOLD_def ACTION_CHECK_def ACTION_CALL_def
      ACTION_RAISE_def)

section \<open>Whose turn is next\<close>

lemma ring_search_finds:
  assumes "j < length seats" "ok (seats ! j)" "from < length seats" "length seats \<le> 9"
  obtains k where "0 < k" "k \<le> length seats"
    "ring_search ok seats from (length seats) [1..<length seats + 1] = Inr (Some ((from + k) mod length seats))"
    "ok (seats ! ((from + k) mod length seats))"
    "\<And>l. 0 < l \<Longrightarrow> l < k \<Longrightarrow> \<not> ok (seats ! ((from + l) mod length seats))"
proof -
  let ?n = "length seats" and ?ks = "[1..<length seats + 1]"
  have n: "0 < ?n" using assms(1) by linarith
  have found: "\<exists>x. ring_search ok seats from ?n ks = Inr x" if "set ks \<subseteq> {1..?n}" for ks
    using that
  proof (induction ks)
    case (Cons k ks)
    then show ?case using assms(3,4) n by (auto simp: Let_def idx_def)
  qed simp
  have "set ?ks \<subseteq> {1..?n}" by auto
  from found[OF this] obtain x where x: "ring_search ok seats from ?n ?ks = Inr x" by blast
  have "x \<noteq> None"
  proof
    assume "x = None"
    obtain k where "k \<in> set ?ks" "(from + k) mod ?n = j"
    proof (cases "j = from")
      case True
      with that[of ?n] n assms(3) show thesis by simp
    next
      case False
      from ring_reaches[OF assms(3,1) False] obtain k where "0 < k" "k < ?n" "(from + k) mod ?n = j" .
      with that[of k] show thesis by simp
    qed
    with ring_search_None[of ok seats "from" ?n ?ks k] x \<open>x = None\<close> assms(2) show False by simp
  qed
  then obtain i where "ring_search ok seats from ?n ?ks = Inr (Some i)" using x by blast
  from ring_search_Some[OF this] obtain ys k zs where k: "?ks = ys @ k # zs" "i = (from + k) mod ?n"
    "ok (seats ! i)" "\<forall>l \<in> set ys. \<not> ok (seats ! ((from + l) mod ?n))" by blast
  have "k \<in> set ?ks" "sorted (ys @ k # zs)"
    unfolding k(1) using sorted_upt[of 1 "?n + 1"] k(1) by simp_all
  then have "0 < k" "k \<le> ?n" and zs: "\<forall>l \<in> set zs. k \<le> l" by (auto simp: sorted_append)
  moreover have "\<not> ok (seats ! ((from + l) mod ?n))" if "0 < l" "l < k" for l
  proof -
    have "l \<in> set ?ks" using that \<open>k \<le> ?n\<close> by simp
    then have "l \<in> set (ys @ k # zs)" unfolding k(1) .
    with zs that have "l \<in> set ys" by fastforce
    with k(4) show ?thesis by blast
  qed
  ultimately show thesis
    using that[of k] k(2,3) \<open>ring_search ok seats from ?n ?ks = Inr (Some i)\<close> by blast
qed

lemma advance_turn_passes:
  assumes "t_hand_phase t = Betting street r turn d" "\<not> is_betting_complete t"
    and "length (t_seats t) = max_players t" "max_players t \<le> 9" "turn < max_players t"
  shows "\<exists>k. 0 < k \<and> k \<le> max_players t \<and>
    (let i = (turn + k) mod max_players t in
     can_act (t_seats t ! i) \<and>
     filter (\<lambda>l. can_act (t_seats t ! ((turn + l) mod max_players t))) [1..<k] = [] \<and>
     advance_turn L t es = Inr (t\<lparr>t_hand_phase := Betting street r i 0\<rparr>,
       es @ [ActionEv (CurrentTurnChanged (t_id t) (Some turn) (Some i) street)]))"
proof -
  from assms(1,2) obtain j where "j < length (t_seats t)" "can_act (t_seats t ! j)"
    by (fastforce simp: is_betting_complete_def betting_round_of_def list_all_iff in_set_enumerate_eq)
  from ring_search_finds[of j "t_seats t" can_act turn, OF this] assms(3-5) obtain k where
    k: "0 < k" "k \<le> length (t_seats t)"
    "find_next_active_seat (t_seats t) turn (max_players t) = Inr (Some ((turn + k) mod max_players t))"
    "can_act (t_seats t ! ((turn + k) mod max_players t))"
    "\<And>l. 0 < l \<Longrightarrow> l < k \<Longrightarrow> \<not> can_act (t_seats t ! ((turn + l) mod max_players t))"
    by (auto simp: find_next_active_seat_def)
  let ?i = "(turn + k) mod max_players t"
  have cur: "current_turn_option t = Some turn"
    using assms(1,4,5) by (simp add: current_turn_option_def current_turn_def NO_SEAT_def)
  have "?i < max_players t" using assms(5) by simp
  then have "advance_turn L t es = Inr (t\<lparr>t_hand_phase := Betting street r ?i 0\<rparr>,
       es @ [ActionEv (CurrentTurnChanged (t_id t) (Some turn) (Some ?i) street)])"
    using assms(1,2) cur k(3)
    by (simp add: advance_turn_def set_current_turn_def set_betting_turn_def round_state_def)
  with k assms(3) show ?thesis
    by (intro exI[of _ k]) (auto simp: Let_def filter_empty_conv)
qed

section \<open>The drivers\<close>

lemma start_reconstruct_fails: "\<exists>e. start_reconstruct t now es = Inl e"
proof (cases "start_reconstruct t now es")
  case (Inr r)
  then obtain rv t1 t2 where take: "take_reveal_payload t = Inr (rv, t1)"
    and "enter_reconstructing t1 (round_state t1)
       \<lparr>rs_pending_mask = get_active_seat_mask (t_seats t), rs_accumulated_deck = None\<rparr> rv now = Inr t2"
    by (auto simp: start_reconstruct_def Let_def rbind_eq_Inr)
  moreover from take have "round_state t1 = ROUND_WAITING"
    by (auto simp: take_reveal_payload_def round_state_def split: option.splits)
  ultimately have "legacy_reveal_phase (rv_purpose rv) ROUND_WAITING \<noteq> REVEAL_PHASE_NONE"
    by (auto simp: enter_reconstructing_def validate_for_street_def rbind_eq_Inr require_eq_Inr)
  then show ?thesis by (cases "rv_purpose rv") (simp_all add: legacy_reveal_phase_def round_defs)
qed simp

lemma normalize_loop_blocked:
  assumes "normalize_loop L now n steps t es = Inr (steps', t', es')"
    and "validate_state_schema L t = Inr ()"
  shows "next_normalization_step t' = Inr None \<and> length steps' < length steps + n \<and>
    validate_state_schema L t' = Inr ()"
  using assms
proof (induction n arbitrary: steps t es)
  case (Suc n)
  show ?case
  proof (cases "next_normalization_step t = Inr None")
    case True
    with Suc.prems show ?thesis by auto
  next
    case False
    with Suc.prems(1) obtain step t2 es1 where "validate_state_schema L t2 = Inr ()"
      "normalize_loop L now n (steps @ [step]) t2 es1 = Inr (steps', t', es')"
      by (fastforce simp: rbind_eq_Inr split: option.splits)
    from Suc.IH[OF this(2,1)] show ?thesis by simp
  qed
qed simp

lemma normalize_blocked:
  assumes "normalize_until_blocked L t now es = Inr (steps, t', es')"
  shows "next_normalization_step t' = Inr None" "length steps < MAX_NORMALIZATION_STEPS"
    "validate_state_schema L t' = Inr ()"
  using assms by (auto simp: normalize_until_blocked_def rbind_eq_Inr dest!: normalize_loop_blocked)

text \<open>A table that is valid has its clock armed, so the dispatcher has nothing left to arm.\<close>

lemma rearm_valid:
  assumes "validate_state_schema L t = Inr ()" "rearm_betting t now = Inr t'"
  shows "t' = t"
proof -
  have "validate_hand_phase t = Inr ()"
    using assms(1) by (auto simp: validate_state_schema_def rbind_eq_Inr)
  with assms(2) show ?thesis
    by (auto simp: rearm_betting_def validate_hand_phase_def validate_deadline_def rbind_eq_Inr
        require_eq_Inr split: hand_phase.splits if_splits)
qed

lemma counters_same:
  assumes "advance_counters pre t es = Inr t'"
  shows "\<exists>n h. t' = t\<lparr>t_call_seq := n, t_hand_id := h\<rparr>"
proof (cases "t = pre")
  case True
  with assms show ?thesis by (intro exI[of _ "t_call_seq t"] exI[of _ "t_hand_id t"]) (simp add: advance_counters_def)
next
  case False
  with assms show ?thesis by (auto simp: advance_counters_def rbind_eq_Inr)
qed


lemmas schema_defs = validate_state_schema_def validate_hand_phase_def validate_seats_def
  validate_ledger_def validate_protocol_masks_def exposed_cards_def derived_aggregated_pk_def
  aggregated_pk_for_contributor_mask_def shuffle_state_of_def reveal_assignments_def
  reveal_token_state_def reconstruct_state_of_def

lemma validate_phase_counters:
  "validate_phase (t\<lparr>t_call_seq := n, t_hand_id := h\<rparr>) ph = validate_phase t ph"
  by (induction t ph rule: validate_phase.induct)
    (simp_all add: validate_reveal_def cong: reveal_target.case_cong)

lemma schema_counters:
  "validate_state_schema L (t\<lparr>t_call_seq := n, t_hand_id := h\<rparr>) = validate_state_schema L t"
  by (simp add: schema_defs validate_phase_counters cong: prod.case_cong option.case_cong if_cong)

lemma next_step_counters:
  "next_normalization_step (t\<lparr>t_call_seq := n, t_hand_id := h\<rparr>) = next_normalization_step t"
  by (simp add: next_normalization_step_def is_reconstructing_def reconstruct_state_of_def
      shuffle_phase_def shuffle_state_of_def reveal_token_state_def reveal_assignments_def
      is_betting_round_def betting_round_of_def round_state_def current_turn_def is_betting_complete_def
      no_further_betting_possible_def seat_acted_this_round_def cong: prod.case_cong option.case_cong if_cong)

lemma dispatch_blocked:
  assumes "table_dispatch L c t cmd = Inr (t', es)"
  shows "validate_state_schema L t' = Inr ()" "next_normalization_step t' = Inr None"
proof -
  from assms obtain t1 es1 steps t2 t3 where
    n: "normalize_until_blocked L t1 (dc_block_timestamp c) es1 = Inr (steps, t2, es)"
    and r: "rearm_betting t2 (dc_block_timestamp c) = Inr t3" and a: "advance_counters t t3 es = Inr t'"
    by (auto simp: table_dispatch_def rbind_eq_Inr)
  note b = normalize_blocked[OF n]
  have "t3 = t2" using rearm_valid[OF b(3) r] .
  with counters_same[OF a] obtain k h where "t' = t2\<lparr>t_call_seq := k, t_hand_id := h\<rparr>" by blast
  with b show "validate_state_schema L t' = Inr ()" "next_normalization_step t' = Inr None"
    by (simp_all add: schema_counters next_step_counters)
qed

text \<open>A vacant seat of a valid table has no flag left.\<close>

lemma valid_vacant_unbooked:
  assumes "validate_state_schema L t = Inr ()" "i < length (t_seats t)" "t_seats t ! i = Vacant m"
  shows "\<not> seat_wants_leave t i"
proof -
  from assms(1) have "validate_seats L t = Inr ()"
    by (auto simp: validate_state_schema_def rbind_eq_Inr)
  then have "\<forall>x \<in> set (enumerate 0 (t_seats t)). case x of (i, seat) \<Rightarrow>
      (case seat of Vacant _ \<Rightarrow> \<not> seat_mask_contains (t_leave_mask t) i | _ \<Rightarrow> True)"
    unfolding validate_seats_def foldM_unit_Inr
    by (fastforce simp: rbind_eq_Inr require_eq_Inr split: seat.splits)
  moreover have "(i, t_seats t ! i) \<in> set (enumerate 0 (t_seats t))"
    using assms(2) by (simp add: in_set_enumerate_eq)
  ultimately show ?thesis using assms(3) by (auto simp: seat_wants_leave_def)
qed

lemma arm_keeps_leave:
  "arm_active_deadline_if_needed t now = Inr t' \<Longrightarrow> t_leave_mask t' = t_leave_mask t"
  by (cases "t_hand_phase t") (auto simp: arm_active_deadline_if_needed_def require_eq_Inr
      rbind_eq_Inr arm_shuffle_deadline_def arm_reveal_deadline_def arm_reconstruct_deadline_def
      arm_betting_deadline_def arm_showdown_deadline_def split: if_splits)

lemma normalize_start_valid:
  assumes "normalize_until_blocked L t now es = Inr r"
  obtains t1 where "validate_state_schema L t1 = Inr ()" "t_seats t1 = t_seats t"
    "t_leave_mask t1 = t_leave_mask t"
proof -
  from assms obtain t1 where "arm_active_deadline_if_needed t now = Inr t1"
    "validate_state_schema L t1 = Inr ()"
    by (auto simp: normalize_until_blocked_def rbind_eq_Inr)
  with that[of t1] arm_active_step[of t now t1] arm_keeps_leave[of t now t1] show thesis
    by (simp add: same_custody_state_def)
qed

lemma leave_vacates:
  assumes "dispatch_leave_table L c t i es = Inr (t', es')"
  shows "i < length (t_seats t)" "t_seats t' ! i = seat_empty" "t_leave_mask t' = t_leave_mask t"
    "length (t_seats t') = length (t_seats t)"
  using assms
  by (auto simp: dispatch_leave_table_def rbind_eq_Inr Let_def idx_eq_Inr vacate_def
      remove_deck_contributor_def dest!: resolve_caller(1) split: if_splits)

lemma booked_leave_fails:
  assumes "seat_wants_leave t i"
  shows "\<exists>e. table_dispatch L c t (LeaveTable i) = Inl e"
proof (cases "table_dispatch L c t (LeaveTable i)")
  case (Inr r)
  then obtain t1 es1 r' where leave: "dispatch_leave_table L c t i [] = Inr (t1, es1)"
    and n: "normalize_until_blocked L t1 (dc_block_timestamp c) es1 = Inr r'"
    by (auto simp: table_dispatch_def rbind_eq_Inr)
  from normalize_start_valid[OF n] obtain t2 where "validate_state_schema L t2 = Inr ()"
    "t_seats t2 = t_seats t1" "t_leave_mask t2 = t_leave_mask t1" .
  with leave_vacates[OF leave] valid_vacant_unbooked[of L t2 i] assms show ?thesis
    by (simp add: seat_empty_def seat_wants_leave_def)
qed simp

text \<open>A table with fewer than two contenders that is reset while chips are wagered loses them.\<close>

lemma abandoned_pot:
  assumes "kick_aftermath L t es = Inr (t', es')" "count_active_players (t_seats t) < 2"
    and "count_active_players (t_seats t) \<noteq> 1 \<or> betting_round_of t = None"
    and "books_ok t" "0 < wagers t"
  shows "\<not> books_ok t'"
proof -
  from assms(1-3) have "reset_for_next_hand L t es = Inr (t', es')"
    by (auto simp: kick_aftermath_def Let_def MIN_PLAYERS_TO_START_def is_betting_round_def split: if_splits)
  from reset_books[OF this] assms(4,5) show ?thesis by (simp add: books_ok_def)
qed


text \<open>\<open>create_table\<close> replaces the table that is there, chips and all.\<close>

lemma create_table_overwrites:
  assumes "2 \<le> players" "players \<le> 9" "0 < bb" "sb \<le> bb"
  shows "\<exists>t'. dispatch_create_table c t name players sb bb es = Inr (t', es) \<and> t_chip_pool t' = 0 \<and>
    t_seats t' = map (\<lambda>_. seat_empty) [0..<players]"
  using assms by (simp add: dispatch_create_table_def table_new_def)

text \<open>The waiting round is also the round of the initial shuffle.\<close>

lemma shuffle_is_waiting: "t_hand_phase t = Shuffling (InitialShuffling st d) \<Longrightarrow> can_join_state t"
  by (simp add: can_join_state_def round_state_def)

end
