(* ===== verification/TableProperties.thy ===== *)
theory TableProperties
  imports TableSafety
begin

text \<open>
  The properties of the table, with three small tables on which their hypotheses hold: players on the
  flop, a showdown to settle, and a hand that was left during a reveal.
\<close>

section \<open>Sample tables\<close>

text \<open>Integers stand in for the curve, and every proof of a player is accepted.\<close>

definition sample_lib :: "int poker_lib" where
  "sample_lib = \<lparr>lib_identity = 0, lib_generator = 1, lib_add = (+), lib_sub = (-),
     lib_hash_to_curve = foldl (\<lambda>h x. 10 * h + of_char x) 7,
     lib_compress = (\<lambda>_. []), lib_blake2b = (\<lambda>bs. bs), lib_borsh_plan = (\<lambda>_. []),
     lib_shuffle_verify = (\<lambda>_ _ _ _. True), lib_reveal_verify = (\<lambda>_ _ _ _. True),
     lib_leave_verify = (\<lambda>_ _ _ _. True), lib_ownership_verify = (\<lambda>_ _. True),
     lib_reconstruct_verify = (\<lambda>_ _. True), lib_base_deck = (\<lambda>_ _. None),
     lib_apply_contributions = (\<lambda>_ _. None)\<rparr>"

definition sample_player :: "byte \<Rightarrow> address" where "sample_player k = replicate 20 k"

definition sample_caller :: "byte \<Rightarrow> dispatch_context" where
  "sample_caller k = \<lparr>dc_caller = sample_player k, dc_block_timestamp = 1000\<rparr>"

definition sample_seat :: "byte \<Rightarrow> nat list \<Rightarrow> playing_seat_status \<Rightarrow> int seat" where
  "sample_seat k cards st =
     Playing \<lparr>ps_occupied = \<lparr>os_player = sample_player k, os_stack = 900, os_pk = uint k,
                os_pending_addon = 0, os_time_bank_ms = DEFAULT_TIME_BANK_MS\<rparr>,
       ps_hand = \<lparr>cs_len = length cards, cs_cards = take 2 (cards @ replicate 2 CARD_PADDING)\<rparr>,
       ps_bet = 0, ps_total_bet = 100, ps_status = st\<rparr>"

definition sample_table :: "int hand_phase \<Rightarrow> int seat list \<Rightarrow> nat list \<Rightarrow> int table" where
  "sample_table ph seats cards =
     \<lparr>t_id = [1], t_name = ''table'', t_creator = sample_player 1,
      t_rules = (table_rules_new 3 5 10)\<lparr>tr_rake_mode := RAKE_MODE_PERCENTAGE, tr_rake_cap := 20\<rparr>,
      t_seats = seats, t_acted_mask = 0, t_leave_mask = 1, t_button = 0, t_pot = 300,
      t_community_cards = \<lparr>cs_len = length cards, cs_cards = take 5 (cards @ replicate 5 CARD_PADDING)\<rparr>,
      t_hand_phase = ph, t_deck_state = deck_default\<lparr>ds_contributor_mask := 7\<rparr>, t_chip_pool = 3000,
      t_rit_state = RitSingle, t_hand_id = 1, t_call_seq = 9\<rparr>"

definition flop_table :: "int table" where
  "flop_table = sample_table (Betting ROUND_FLOP \<lparr>br_current_bet = 0, br_min_raise = 10\<rparr> 1 5000000)
     [sample_seat 1 [] PsActive, sample_seat 2 [] PsActive, sample_seat 3 [] PsActive] [0, 14, 28]"

definition showdown_table :: "int table" where
  "showdown_table = sample_table (ShowdownDisplay 5000000)
     [sample_seat 1 [1, 2] PsActive, sample_seat 2 [3, 4] PsActive, sample_seat 3 [30, 32] PsFolded]
     [0, 14, 28, 42, 5]"

definition left_table :: "int table" where
  "left_table = sample_table (Revealing ROUND_FLOP \<lparr>rv_purpose = BoardReveal, rv_assignments = []\<rparr> 5000000)
     [sample_seat 1 [] PsActive, sample_seat 2 [] PsFolded, sample_seat 3 [] PsFolded] []"

definition waiting_table :: "int table" where
  "waiting_table = sample_table PhaseWaiting
     [sample_seat 1 [] PsActive, sample_seat 2 [] PsActive, seat_empty] []"

text \<open>
  Two players and a folded one: when the player on turn goes all in, the other one is not asked any
  more, and the street is collected with unequal bets.
\<close>

definition heads_up_table :: "int table" where
  "heads_up_table = sample_table (Betting ROUND_FLOP \<lparr>br_current_bet = 0, br_min_raise = 10\<rparr> 1 5000000)
     [sample_seat 1 [] PsActive, sample_seat 2 [] PsActive, sample_seat 3 [] PsFolded] [0, 14, 28]"

lemma all_in_ends_betting:
  "case table_dispatch sample_lib (sample_caller 2) heads_up_table (RaiseBet 1 900) of
     Inr (t, _) \<Rightarrow> \<not> is_betting_round t \<and> map seat_total_bet (t_seats t) = [100, 1000, 100] \<and> t_pot t = 1200
   | Inl _ \<Rightarrow> False"
  by code_simp

lemma flop_call: "case vault_call sample_lib [7] (sample_caller 2) flop_table (Addon 1 500) of
    Inr r \<Rightarrow> True | Inl _ \<Rightarrow> False"
  by code_simp

lemma flop_raise: "case run_command sample_lib (sample_caller 2) flop_table (RaiseBet 1 50) [] of
    Inr r \<Rightarrow> True | Inl _ \<Rightarrow> False"
  by code_simp

lemma flop_dispatch: "case table_dispatch sample_lib (sample_caller 2) flop_table (RaiseBet 1 50) of
    Inr r \<Rightarrow> True | Inl _ \<Rightarrow> False"
  by code_simp

lemma sample_books: "books_ok flop_table" "books_ok showdown_table" "books_ok left_table"
  by code_simp+

lemma left_reset: "case kick_aftermath sample_lib left_table [] of Inr r \<Rightarrow> True | Inl _ \<Rightarrow> False"
  by code_simp

lemma showdown_checks: "validate_state_schema sample_lib showdown_table = Inr ()"
  "round_state showdown_table = ROUND_SHOWDOWN" "reveal_token_state showdown_table = None"
  "t_chip_pool showdown_table < u64_limit" "showdown_ready showdown_table"
  "is_occupied (t_seats showdown_table ! 0) \<and> seat_wants_leave showdown_table 0"
  "\<not> seat_wants_leave showdown_table 1" "own_chips (t_seats showdown_table ! 1) = 900"
  "showdown_boards showdown_table = Inr (SingleBoard [0, 14, 28, 42, 5])"
  by code_simp+


section \<open>Properties\<close>

text \<open>
  C26: The reconciliation of the vault accepts a table exactly if its schema is valid, pot and bets are
  the contributions of the hand, and stacks, addons, bets and pot are the locked chips, which fit
  64 bits; it then answers the locked chips.  No sum of it overflows before that equation fails.
\<close>

theorem vault_reconciles:
  "reconcile_table_vault L t = Inr n \<longleftrightarrow>
     validate_state_schema L t = Inr () \<and>
     t_pot t + sum_list (map seat_bet (t_seats t)) = sum_list (map seat_total_bet (t_seats t)) \<and>
     sum_list (map seat_stack (t_seats t)) + sum_list (map seat_pending_addon (t_seats t)) +
       t_pot t + sum_list (map seat_bet (t_seats t)) = t_chip_pool t \<and>
     n = t_chip_pool t \<and> n < u64_limit"
  by (simp add: reconcile_eq books_ok_def wagers_def assets_def add.assoc)

text \<open>
  C3: Over any sequence of accepted calls, whatever the commands and their callers, the chips at the
  table and the coins paid out are the chips the sequence began with and the coins paid in: what
  the seats own, what is wagered and what was paid out add up, and the books stay right.
\<close>

theorem vault_conserves:
  assumes "ledger_run (table_call L treasury) (\<lambda>c. funding_of (snd c)) payouts t0 paid_in paid_out t"
    and "books_ok t0"
  shows "t_chip_pool t + paid_out = t_chip_pool t0 + paid_in \<and> books_ok t \<and>
    assets t + wagers t + paid_out = assets t0 + wagers t0 + paid_in"
  using vault_account.run_balance[OF assms(1)] vault_account.run_sound[OF assms] assms(2)
  by (simp add: books_ok_def)

theorem vault_conserves_witness:
  "\<exists>t outs. vault_call sample_lib [7] (sample_caller 2) flop_table (Addon 1 500) = Inr (t, outs) \<and>
     t_chip_pool t + payouts outs = 3500"
proof -
  obtain t outs where call: "vault_call sample_lib [7] (sample_caller 2) flop_table (Addon 1 500) = Inr (t, outs)"
    using flop_call by (auto split: sum.splits)
  have "ledger_run (table_call sample_lib [7]) (\<lambda>c. funding_of (snd c)) payouts flop_table
      (funding_of (snd (sample_caller 2, Addon 1 500 :: int table_command))) (payouts outs) t"
    by (rule run_one) (use call in simp)
  from vault_conserves[OF this sample_books(1)] call show ?thesis
    by (simp add: funding_of_def flop_table_def sample_table_def)
qed

text \<open>
  C18: While two or more players are in the hand, a player's action keeps the books, whatever follows
  from it: the next turn, the next street with the bets collected, or the award of the pot to the
  last player with the rake taken out.  The locked chips change by exactly what the events pay out.
\<close>

theorem player_actions_keep_books:
  assumes "run_command L c t cmd [] = Inr (t', es)" "betting_command cmd"
    and "2 \<le> count_active_players (t_seats t)" "books_ok t"
  shows "books_ok t' \<and> t_chip_pool t' + paid es = t_chip_pool t"
  using betting_command_custody[OF assms(1-3)] assms(4) by (simp add: custody_def vault_def)

theorem player_actions_keep_books_witness:
  "\<exists>t es. run_command sample_lib (sample_caller 2) flop_table (RaiseBet 1 50) [] = Inr (t, es) \<and>
     books_ok t \<and> t_chip_pool t + paid es = 3000"
proof -
  obtain t es where run: "run_command sample_lib (sample_caller 2) flop_table (RaiseBet 1 50) [] = Inr (t, es)"
    using flop_raise by (auto split: sum.splits)
  have "2 \<le> count_active_players (t_seats flop_table)" by code_simp
  from player_actions_keep_books[OF run _ this sample_books(1)] run show ?thesis
    by (simp add: flop_table_def sample_table_def)
qed

text \<open>
  C11: A showdown with a valid schema and right books is settled exactly when the table is ready for
  it: full boards, two cards for every seat still in the hand, one of them with a stake, no bet left
  outside the pot, the stakes within the limit and the button at a seat.  Every seat then owns what
  it owned and its award of the plan that the shared derivation makes of the table, a seat that
  leaves owns nothing, the table waits for the next hand with right books and nothing wagered, and
  the locked chips fall by exactly the rake and the refunds that the events record.
\<close>

theorem showdown_pays:
  assumes "validate_state_schema L t = Inr ()" "round_state t = ROUND_SHOWDOWN" "reveal_token_state t = None"
    and "books_ok t" "t_chip_pool t < u64_limit"
  shows "((\<exists>r. settle_hand L t es = Inr r) \<longleftrightarrow> showdown_ready t) \<and>
    (\<forall>t' es'. settle_hand L t es = Inr (t', es') \<longrightarrow>
      (\<exists>b plan. showdown_boards t = Inr b \<and> derive_settlement_plan (snapshot_of t) b = Inr plan \<and>
         length (t_seats t') = length (t_seats t) \<and>
         (\<forall>i < length (t_seats t). own_chips (t_seats t' ! i) =
            (if is_occupied (t_seats t ! i) \<and> seat_wants_leave t i then 0
             else own_chips (t_seats t ! i) + pl_awards plan ! i))) \<and>
      books_ok t' \<and> wagers t' = 0 \<and> t_chip_pool t' + paid es' = t_chip_pool t + paid es \<and>
      t_hand_phase t' = PhaseWaiting)"
  using showdown_settles[OF assms] unfolding showdown_effect_def by blast

theorem showdown_pays_witness:
  "\<exists>t es plan. settle_hand sample_lib showdown_table [] = Inr (t, es) \<and> t_chip_pool t + paid es = 3000 \<and>
     derive_settlement_plan (snapshot_of showdown_table) (SingleBoard [0, 14, 28, 42, 5]) = Inr plan \<and>
     own_chips (t_seats t ! 0) = 0 \<and> own_chips (t_seats t ! 1) = 900 + pl_awards plan ! 1"
proof -
  note facts = showdown_pays[OF showdown_checks(1-3) sample_books(2) showdown_checks(4), of "[]"]
  obtain t es where settled: "settle_hand sample_lib showdown_table [] = Inr (t, es)"
    using facts showdown_checks(5) by auto
  have n: "length (t_seats showdown_table) = 3" by (simp add: showdown_table_def sample_table_def)
  from facts settled obtain b plan where
    plan: "showdown_boards showdown_table = Inr b" "derive_settlement_plan (snapshot_of showdown_table) b = Inr plan"
    and own: "\<forall>i < length (t_seats showdown_table). own_chips (t_seats t ! i) =
      (if is_occupied (t_seats showdown_table ! i) \<and> seat_wants_leave showdown_table i then 0
       else own_chips (t_seats showdown_table ! i) + pl_awards plan ! i)"
    and pool: "t_chip_pool t + paid es = t_chip_pool showdown_table + paid []"
    by blast
  have "own_chips (t_seats t ! 0) = 0" "own_chips (t_seats t ! 1) = 900 + pl_awards plan ! 1"
    using own[rule_format, of 0] own[rule_format, of 1] n showdown_checks(6-8) by simp_all
  moreover have "b = SingleBoard [0, 14, 28, 42, 5]" using plan(1) showdown_checks(9) by simp
  moreover have "t_chip_pool t + paid es = 3000" using pool by (simp add: showdown_table_def sample_table_def)
  ultimately show ?thesis using settled plan(2) by blast
qed

text \<open>
  C19: Authority over each of the nineteen commands.  Seventeen go through only for the right caller:
  folding, checking, calling, betting and raising only in a betting round, for the player who is on
  turn and occupies the claimed seat and no other; leaving, buying chips, booking the leave and the
  proofs of the shuffle, of the cards and of the reconstruction only for the one who occupies the
  claimed seat and no other; joining only as oneself; starting a hand and kicking only for the
  creator, who may also fold for the seat on turn.  Creating a table and driving its clock are open
  to any caller.
\<close>

theorem commands_authorised:
  assumes "table_dispatch L c t cmd = Inr r"
  shows "authorised t (dc_caller c) (authority_of cmd)"
  by (rule dispatch_authorised[OF assms])

theorem commands_authorised_witness:
  "(\<exists>r. table_dispatch sample_lib (sample_caller 2) flop_table (RaiseBet 1 50) = Inr r) \<and>
     sits_at flop_table (sample_player 2) 1 \<and> is_betting_round flop_table \<and> current_turn flop_table = 1"
proof -
  obtain r where d: "table_dispatch sample_lib (sample_caller 2) flop_table (RaiseBet 1 50) = Inr r"
    using flop_dispatch by (auto split: sum.splits)
  from commands_authorised[OF this] d show ?thesis by (simp add: sample_caller_def)
qed

text \<open>
  C23: What a table leaves behind: after every accepted command the stored table has a valid schema, and
  no step is due any more that the table could take by itself, so that it waits for a player, for
  a proof or for its clock.
\<close>

theorem dispatch_blocks:
  assumes "table_dispatch L c t cmd = Inr (t', es)"
  shows "validate_state_schema L t' = Inr () \<and> next_normalization_step t' = Inr None"
  using dispatch_blocked[OF assms] by simp

theorem dispatch_blocks_witness:
  "\<exists>t es. table_dispatch sample_lib (sample_caller 2) flop_table (RaiseBet 1 50) = Inr (t, es) \<and>
     next_normalization_step t = Inr None"
proof -
  obtain t es where d: "table_dispatch sample_lib (sample_caller 2) flop_table (RaiseBet 1 50) = Inr (t, es)"
    using flop_dispatch by (auto split: sum.splits)
  from dispatch_blocks[OF d] d show ?thesis by blast
qed

text \<open>
  C24: The turn passes to the next seat that can act: an unfinished betting round is handed on, without
  an error, to the first seat after the current one around the table that is neither folded nor
  all in, and its clock is cleared for the driver to arm.
\<close>

theorem turn_passes:
  assumes "t_hand_phase t = Betting street r turn d" "\<not> is_betting_complete t"
    and "length (t_seats t) = max_players t" "max_players t \<le> 9" "turn < max_players t"
  shows "\<exists>k. 0 < k \<and> k \<le> max_players t \<and>
    (let i = (turn + k) mod max_players t in
     can_act (t_seats t ! i) \<and>
     filter (\<lambda>l. can_act (t_seats t ! ((turn + l) mod max_players t))) [1..<k] = [] \<and>
     advance_turn L t es = Inr (t\<lparr>t_hand_phase := Betting street r i 0\<rparr>,
       es @ [ActionEv (CurrentTurnChanged (t_id t) (Some turn) (Some i) street)]))"
  by (rule advance_turn_passes[OF assms])

theorem turn_passes_witness:
  "\<exists>t es. advance_turn sample_lib flop_table [] = Inr (t, es) \<and> current_turn t < 3"
proof -
  have "t_hand_phase flop_table = Betting ROUND_FLOP \<lparr>br_current_bet = 0, br_min_raise = 10\<rparr> 1 5000000"
    "max_players flop_table = 3" "length (t_seats flop_table) = 3"
    by (simp_all add: flop_table_def sample_table_def table_rules_new_def)
  moreover have "\<not> is_betting_complete flop_table" by code_simp
  ultimately obtain k where "advance_turn sample_lib flop_table [] =
      Inr (flop_table\<lparr>t_hand_phase := Betting ROUND_FLOP \<lparr>br_current_bet = 0, br_min_raise = 10\<rparr> ((1 + k) mod 3) 0\<rparr>,
        [ActionEv (CurrentTurnChanged (t_id flop_table) (Some 1) (Some ((1 + k) mod 3)) ROUND_FLOP)])"
    using turn_passes[of flop_table ROUND_FLOP _ 1 5000000 sample_lib "[]"] by (auto simp: Let_def)
  then show ?thesis by (simp add: current_turn_def)
qed

text \<open>
  C25: The rules of a bet, in 64 bits and without underflow: the actions offered to a player are the ones
  that can succeed, and a raise to \<open>total_bet\<close> succeeds exactly if it is above the bet to match and
  the player's own, affordable, and at least the minimum raise unless it is all in; an all-in raise
  below the minimum leaves the minimum as it was.
\<close>

theorem offered_actions_exact:
  "(available_actions r b stack AND ACTION_CHECK \<noteq> 0 \<longleftrightarrow> br_current_bet r \<le> b) \<and>
   (available_actions r b stack AND ACTION_CALL \<noteq> 0 \<longleftrightarrow> 0 < process_call r b stack) \<and>
   (available_actions r b stack AND ACTION_RAISE \<noteq> 0 \<longleftrightarrow>
      (\<exists>total_bet n r'. process_raise r total_bet b stack = Inr (n, r'))) \<and>
   (process_raise r total_bet b stack = Inr (n, r') \<longleftrightarrow>
      br_current_bet r < total_bet \<and> b < total_bet \<and> n = total_bet - b \<and> n \<le> stack \<and>
      (br_min_raise r \<le> total_bet - br_current_bet r \<or> n = stack) \<and>
      r' = r\<lparr>br_current_bet := total_bet,
             br_min_raise := max (br_min_raise r) (total_bet - br_current_bet r)\<rparr>)"
  unfolding offered_bits can_raise_iff
  by (intro conjI process_raise_iff) (auto simp: can_check_def can_call_def process_call_def chips_to_call_def)

text \<open>
  C36: Reconstruction never starts: a reveal that times out with two or more players left calls
  \<open>start_reconstruct\<close>, which reads the street after the reveal payload has been taken out of the
  phase, so that it always reads the waiting round, which no reveal belongs to, and fails.
\<close>

theorem reconstruction_never_starts: "\<exists>e. start_reconstruct t now es = Inl e"
  by (rule start_reconstruct_fails)

text \<open>
  A player who has booked to leave after the hand cannot leave the table: the command empties the
  seat and keeps the booking, and the validation that follows rejects an empty seat with a flag.
\<close>

lemma booked_player_cannot_leave:
  assumes "seat_wants_leave t i"
  shows "\<exists>e. table_dispatch L c t (LeaveTable i) = Inl e"
  by (rule booked_leave_fails[OF assms])

text \<open>
  C38: A hand that a kick leaves with fewer than two players outside betting is reset without an award:
  whenever chips were wagered, the books of the table are wrong afterwards.
\<close>

theorem abandoned_pot_is_lost:
  assumes "kick_aftermath L t es = Inr (t', es')" "count_active_players (t_seats t) < 2"
    and "count_active_players (t_seats t) \<noteq> 1 \<or> betting_round_of t = None"
    and "books_ok t" "0 < wagers t"
  shows "\<not> books_ok t'"
  by (rule abandoned_pot[OF assms])

theorem abandoned_pot_is_lost_witness:
  "\<exists>t es. kick_aftermath sample_lib left_table [] = Inr (t, es) \<and> \<not> books_ok t"
proof -
  obtain t es where run: "kick_aftermath sample_lib left_table [] = Inr (t, es)"
    using left_reset by (auto split: sum.splits)
  have "count_active_players (t_seats left_table) < 2" "betting_round_of left_table = None"
    "0 < wagers left_table" by code_simp+
  with abandoned_pot_is_lost[OF run _ _ sample_books(3)] run show ?thesis by blast
qed

end
