(* ===== verification/Rv32.thy ===== *)
theory Rv32
  imports Prelude
begin

text \<open>
  \<^verbatim>\<open>poker_zkvm/src/isa/mod.rs\<close>, first part: the RV32IM instructions of the zkVM, their
  encoding into instruction words and the decoder.  A \<open>u32\<close> is a \<open>32 word\<close>, a register or
  shift amount (\<open>u8\<close>) an \<open>8 word\<close>; an immediate is the sign-extended \<open>u32\<close> of the source.
\<close>

type_synonym u32 = "32 word"

section \<open>Errors\<close>

text \<open>The messages of \<open>UnsupportedInstruction\<close> with the values they print.\<close>

datatype unsupported =
    CompressedWord u32 | JalrFunct3 byte | BranchFunct3 byte | LoadFunct3 byte | StoreFunct3 byte
  | SlliFunct7 byte | SrFunct7 byte | RTypeFunct byte byte | FenceFunct3 byte | SystemFunct3 byte
  | SystemImm u32 | UnknownOpcode u32 u32
  | TextSize nat | OpcodeNotAllowed u32 u32 | FenceI | CsrInstruction u32 u32

text \<open>The messages of \<open>InvalidZkProofFormat\<close>.\<close>

datatype format_message =
    InvalidMemOp byte | MemAccessTooShort | TraceTooShort nat | BadMagic | UnsupportedTraceVersion u32
  | StepIndexTruncated | PcTruncated | RegistersTruncated | MemCountTruncated
  | TagTruncated | FieldTruncated | InvalidTag byte | InStep nat

text \<open>The messages of \<open>Other\<close>: those of the ELF validator, of the proof buffers and of the machine.\<close>

datatype elf_message =
    ElfParse | Elf64 | BigEndian | WrongMachine "16 word" | SectionTableMul | SectionTableAdd
  | SectionTableExceeds nat nat | PtDynamic | DtNeeded nat | SegmentWrap u32 u32 | SegmentRange u32
  | FileOffsetWrap nat nat | SegmentData nat nat nat | TotalMemoryOverflow | TotalMemory nat
  | OverlapWrap | Overlap u32 u32 u32 | NoExecutable | TextWrap | EntryOutside u32 u32 u32
  | TextTooLarge u32

datatype buffer_message =
    MissingPrefix | DeclaredLength nat nat | NeedBytes nat nat | BadCiphertexts | CiphertextSize nat
  | InvalidC1 | InvalidC2 | InvalidKind u32 | BadProof | BadStatement

datatype other_message =
    ZeroInitOverflow | PageAddrOverflow | SegmentOverflow | StepOutOfRange nat
  | UnknownSyscall u32 | NotRegistered u32 | AlreadyRegistered u32
  | GuestPanic "byte list" | SlotUnavailable u32 | GameSlot u32
  | IllegalOperand u32 nat | HashToScalarFailed | Blake2bFailed
  | ProofBuffer buffer_message | Elf elf_message

datatype zkvm_error =
    UnsupportedInstruction unsupported
  | TraceTooLong nat nat
  | TraceHostMemoryExceeded nat nat
  | OutOfMemory
  | UnalignedAccess u32
  | InvalidZkProofFormat format_message
  | InvalidSlot u32
  | UninitializedRead u32
  | Other other_message

section \<open>Instructions\<close>

text \<open>
  The variants of \<open>Instruction\<close>, grouped by their operands: \<open>Branch Beq rs1 rs2 imm\<close> is the
  source's \<open>Beq { rs1, rs2, imm }\<close>.
\<close>

datatype branch_op = Beq | Bne | Blt | Bge | Bltu | Bgeu
datatype load_op = Lb | Lh | Lw | Lbu | Lhu
datatype store_op = Sb | Sh | Sw
datatype imm_op = Addi | Slti | Sltiu | Xori | Ori | Andi
datatype shift_op = Slli | Srli | Srai
datatype reg_op =
    Add | Sub | Sll | Slt | Sltu | Xor | Srl | Sra | Or | And
  | Mul | Mulh | Mulhsu | Mulhu | Div | Divu | Rem | Remu

datatype instruction =
    Lui byte u32 | Auipc byte u32 | Jal byte u32 | Jalr byte byte u32
  | Branch branch_op byte byte u32
  | Load load_op byte byte u32
  | Store store_op byte byte u32
  | OpImm imm_op byte byte u32
  | ShiftImm shift_op byte byte byte
  | Op reg_op byte byte byte
  | Fence | Ecall | Ebreak

section \<open>Encoding\<close>

definition u32_of :: "byte \<Rightarrow> u32" where
  "u32_of b = ucast b"

definition encode_r :: "u32 \<Rightarrow> byte \<Rightarrow> byte \<Rightarrow> byte \<Rightarrow> byte \<Rightarrow> byte \<Rightarrow> u32" where
  "encode_r opcode funct3 funct7 rd rs1 rs2 =
     opcode OR push_bit 7 (u32_of rd) OR push_bit 12 (u32_of funct3) OR push_bit 15 (u32_of rs1)
       OR push_bit 20 (u32_of rs2) OR push_bit 25 (u32_of funct7)"

definition encode_i :: "u32 \<Rightarrow> byte \<Rightarrow> byte \<Rightarrow> byte \<Rightarrow> u32 \<Rightarrow> u32" where
  "encode_i opcode funct3 rd rs1 imm =
     opcode OR push_bit 7 (u32_of rd) OR push_bit 12 (u32_of funct3) OR push_bit 15 (u32_of rs1)
       OR push_bit 20 (imm AND 0xFFF)"

definition encode_i_shift :: "u32 \<Rightarrow> byte \<Rightarrow> byte \<Rightarrow> byte \<Rightarrow> byte \<Rightarrow> byte \<Rightarrow> u32" where
  "encode_i_shift opcode funct3 funct7 rd rs1 shamt =
     opcode OR push_bit 7 (u32_of rd) OR push_bit 12 (u32_of funct3) OR push_bit 15 (u32_of rs1)
       OR push_bit 20 (u32_of shamt) OR push_bit 25 (u32_of funct7)"

definition encode_s :: "u32 \<Rightarrow> byte \<Rightarrow> byte \<Rightarrow> byte \<Rightarrow> u32 \<Rightarrow> u32" where
  "encode_s opcode funct3 rs1 rs2 imm0 =
     (let imm = imm0 AND 0xFFF in
      opcode OR push_bit 12 (u32_of funct3) OR push_bit 15 (u32_of rs1) OR push_bit 20 (u32_of rs2)
        OR push_bit 20 (imm AND 0xFE0) OR push_bit 7 (imm AND 0x1F))"

definition encode_b :: "u32 \<Rightarrow> byte \<Rightarrow> byte \<Rightarrow> byte \<Rightarrow> u32 \<Rightarrow> u32" where
  "encode_b opcode funct3 rs1 rs2 imm0 =
     (let imm = imm0 AND 0x1FFF in
      opcode OR push_bit 12 (u32_of funct3) OR push_bit 15 (u32_of rs1) OR push_bit 20 (u32_of rs2)
        OR push_bit 31 (drop_bit 12 imm AND 1) OR push_bit 25 (drop_bit 5 imm AND 0x3F)
        OR push_bit 8 (drop_bit 1 imm AND 0xF) OR push_bit 7 (drop_bit 11 imm AND 1))"

definition encode_j :: "byte \<Rightarrow> u32 \<Rightarrow> u32" where
  "encode_j rd imm0 =
     (let imm = imm0 AND 0x1FFFFF in
      0x6F OR push_bit 7 (u32_of rd) OR push_bit 31 (drop_bit 20 imm AND 1)
        OR push_bit 21 (drop_bit 1 imm AND 0x3FF) OR push_bit 20 (drop_bit 11 imm AND 1)
        OR push_bit 12 (drop_bit 12 imm AND 0xFF))"

fun branch_funct3 :: "branch_op \<Rightarrow> byte" where
  "branch_funct3 Beq = 0"
| "branch_funct3 Bne = 1"
| "branch_funct3 Blt = 4"
| "branch_funct3 Bge = 5"
| "branch_funct3 Bltu = 6"
| "branch_funct3 Bgeu = 7"

fun load_funct3 :: "load_op \<Rightarrow> byte" where
  "load_funct3 Lb = 0"
| "load_funct3 Lh = 1"
| "load_funct3 Lw = 2"
| "load_funct3 Lbu = 4"
| "load_funct3 Lhu = 5"

fun store_funct3 :: "store_op \<Rightarrow> byte" where
  "store_funct3 Sb = 0"
| "store_funct3 Sh = 1"
| "store_funct3 Sw = 2"

fun imm_funct3 :: "imm_op \<Rightarrow> byte" where
  "imm_funct3 Addi = 0"
| "imm_funct3 Slti = 2"
| "imm_funct3 Sltiu = 3"
| "imm_funct3 Xori = 4"
| "imm_funct3 Ori = 6"
| "imm_funct3 Andi = 7"

text \<open>The \<open>funct3\<close> and \<open>funct7\<close> of the shifts and of the register operations.\<close>

fun shift_funct :: "shift_op \<Rightarrow> byte \<times> byte" where
  "shift_funct Slli = (1, 0x00)"
| "shift_funct Srli = (5, 0x00)"
| "shift_funct Srai = (5, 0x20)"

fun reg_funct :: "reg_op \<Rightarrow> byte \<times> byte" where
  "reg_funct Add = (0, 0x00)"
| "reg_funct Sub = (0, 0x20)"
| "reg_funct Sll = (1, 0x00)"
| "reg_funct Slt = (2, 0x00)"
| "reg_funct Sltu = (3, 0x00)"
| "reg_funct Xor = (4, 0x00)"
| "reg_funct Srl = (5, 0x00)"
| "reg_funct Sra = (5, 0x20)"
| "reg_funct Or = (6, 0x00)"
| "reg_funct And = (7, 0x00)"
| "reg_funct Mul = (0, 0x01)"
| "reg_funct Mulh = (1, 0x01)"
| "reg_funct Mulhsu = (2, 0x01)"
| "reg_funct Mulhu = (3, 0x01)"
| "reg_funct Div = (4, 0x01)"
| "reg_funct Divu = (5, 0x01)"
| "reg_funct Rem = (6, 0x01)"
| "reg_funct Remu = (7, 0x01)"

fun encode :: "instruction \<Rightarrow> u32" where
  "encode (Lui rd imm) = 0x37 OR push_bit 7 (u32_of rd) OR (imm AND 0xFFFFF000)"
| "encode (Auipc rd imm) = 0x17 OR push_bit 7 (u32_of rd) OR (imm AND 0xFFFFF000)"
| "encode (Jal rd imm) = encode_j rd imm"
| "encode (Jalr rd rs1 imm) =
     0x67 OR push_bit 7 (u32_of rd) OR push_bit 15 (u32_of rs1) OR push_bit 20 (imm AND 0xFFF)"
| "encode (Branch op rs1 rs2 imm) = encode_b 0x63 (branch_funct3 op) rs1 rs2 imm"
| "encode (Load op rd rs1 imm) = encode_i 0x03 (load_funct3 op) rd rs1 imm"
| "encode (Store op rs1 rs2 imm) = encode_s 0x23 (store_funct3 op) rs1 rs2 imm"
| "encode (OpImm op rd rs1 imm) = encode_i 0x13 (imm_funct3 op) rd rs1 imm"
| "encode (ShiftImm op rd rs1 shamt) =
     (case shift_funct op of (funct3, funct7) \<Rightarrow> encode_i_shift 0x13 funct3 funct7 rd rs1 shamt)"
| "encode (Op op rd rs1 rs2) =
     (case reg_funct op of (funct3, funct7) \<Rightarrow> encode_r 0x33 funct3 funct7 rd rs1 rs2)"
| "encode Fence = 0x0F"
| "encode Ecall = 0x73"
| "encode Ebreak = 0x73 OR push_bit 20 1"

text \<open>\<open>immediate_value\<close>, the value of the trace's immediate column.\<close>

fun immediate_value :: "instruction \<Rightarrow> u32" where
  "immediate_value (Lui _ imm) = imm"
| "immediate_value (Auipc _ imm) = imm"
| "immediate_value (Jal _ imm) = imm"
| "immediate_value (Jalr _ _ imm) = imm"
| "immediate_value (Branch _ _ _ imm) = imm"
| "immediate_value (Load _ _ _ imm) = imm"
| "immediate_value (Store _ _ _ imm) = imm"
| "immediate_value (OpImm _ _ _ imm) = imm"
| "immediate_value (ShiftImm _ _ _ shamt) = u32_of shamt"
| "immediate_value (Op _ _ _ _) = 0"
| "immediate_value Fence = 0"
| "immediate_value Ecall = 0"
| "immediate_value Ebreak = 0"

section \<open>Decoding\<close>

definition sign_extend_12 :: "u32 \<Rightarrow> u32" where
  "sign_extend_12 imm12 = (if imm12 AND 0x800 \<noteq> 0 then imm12 OR 0xFFFFF000 else imm12)"

definition sign_extend_13 :: "u32 \<Rightarrow> u32" where
  "sign_extend_13 imm13 = (if imm13 AND 0x1000 \<noteq> 0 then imm13 OR 0xFFFFE000 else imm13)"

definition decode_i_imm :: "u32 \<Rightarrow> u32" where
  "decode_i_imm word = sign_extend_12 (drop_bit 20 word AND 0xFFF)"

definition decode_s_imm :: "u32 \<Rightarrow> u32" where
  "decode_s_imm word =
     (let imm = push_bit 5 (drop_bit 25 word AND 0x7F) OR (drop_bit 7 word AND 0x1F)
      in sign_extend_12 imm)"

definition decode_b_imm :: "u32 \<Rightarrow> u32" where
  "decode_b_imm word =
     (let imm = push_bit 12 (drop_bit 31 word AND 1) OR push_bit 11 (drop_bit 7 word AND 1)
            OR push_bit 5 (drop_bit 25 word AND 0x3F) OR push_bit 1 (drop_bit 8 word AND 0xF)
      in sign_extend_13 imm)"

definition decode_u_imm :: "u32 \<Rightarrow> u32" where
  "decode_u_imm word = word AND 0xFFFFF000"

definition decode_j_imm :: "u32 \<Rightarrow> u32" where
  "decode_j_imm word =
     (let imm = push_bit 20 (drop_bit 31 word AND 1) OR push_bit 12 (drop_bit 12 word AND 0xFF)
            OR push_bit 11 (drop_bit 20 word AND 1) OR push_bit 1 (drop_bit 21 word AND 0x3FF)
      in if imm AND 0x100000 \<noteq> 0 then imm OR 0xFFE00000 else imm)"

text \<open>The arms of the decoder that depend on \<open>funct3\<close> and \<open>funct7\<close>.\<close>

definition decode_branch :: "byte \<Rightarrow> byte \<Rightarrow> byte \<Rightarrow> u32 \<Rightarrow> (zkvm_error, instruction) outcome" where
  "decode_branch funct3 rs1 rs2 imm =
     (if funct3 = 0 then Inr (Branch Beq rs1 rs2 imm)
      else if funct3 = 1 then Inr (Branch Bne rs1 rs2 imm)
      else if funct3 = 4 then Inr (Branch Blt rs1 rs2 imm)
      else if funct3 = 5 then Inr (Branch Bge rs1 rs2 imm)
      else if funct3 = 6 then Inr (Branch Bltu rs1 rs2 imm)
      else if funct3 = 7 then Inr (Branch Bgeu rs1 rs2 imm)
      else Inl (Fail (UnsupportedInstruction (BranchFunct3 funct3))))"

definition decode_load :: "byte \<Rightarrow> byte \<Rightarrow> byte \<Rightarrow> u32 \<Rightarrow> (zkvm_error, instruction) outcome" where
  "decode_load funct3 rd rs1 imm =
     (if funct3 = 0 then Inr (Load Lb rd rs1 imm)
      else if funct3 = 1 then Inr (Load Lh rd rs1 imm)
      else if funct3 = 2 then Inr (Load Lw rd rs1 imm)
      else if funct3 = 4 then Inr (Load Lbu rd rs1 imm)
      else if funct3 = 5 then Inr (Load Lhu rd rs1 imm)
      else Inl (Fail (UnsupportedInstruction (LoadFunct3 funct3))))"

definition decode_store :: "byte \<Rightarrow> byte \<Rightarrow> byte \<Rightarrow> u32 \<Rightarrow> (zkvm_error, instruction) outcome" where
  "decode_store funct3 rs1 rs2 imm =
     (if funct3 = 0 then Inr (Store Sb rs1 rs2 imm)
      else if funct3 = 1 then Inr (Store Sh rs1 rs2 imm)
      else if funct3 = 2 then Inr (Store Sw rs1 rs2 imm)
      else Inl (Fail (UnsupportedInstruction (StoreFunct3 funct3))))"

definition decode_op_imm ::
  "byte \<Rightarrow> byte \<Rightarrow> byte \<Rightarrow> byte \<Rightarrow> byte \<Rightarrow> u32 \<Rightarrow> (zkvm_error, instruction) outcome" where
  "decode_op_imm funct3 funct7 rd rs1 rs2 imm =
     (if funct3 = 0 then Inr (OpImm Addi rd rs1 imm)
      else if funct3 = 2 then Inr (OpImm Slti rd rs1 imm)
      else if funct3 = 3 then Inr (OpImm Sltiu rd rs1 imm)
      else if funct3 = 4 then Inr (OpImm Xori rd rs1 imm)
      else if funct3 = 6 then Inr (OpImm Ori rd rs1 imm)
      else if funct3 = 7 then Inr (OpImm Andi rd rs1 imm)
      else if funct3 = 1 then
        (if funct7 \<noteq> 0 then Inl (Fail (UnsupportedInstruction (SlliFunct7 funct7)))
         else Inr (ShiftImm Slli rd rs1 rs2))
      else if funct3 = 5 then
        (if funct7 = 0 then Inr (ShiftImm Srli rd rs1 rs2)
         else if funct7 = 0x20 then Inr (ShiftImm Srai rd rs1 rs2)
         else Inl (Fail (UnsupportedInstruction (SrFunct7 funct7))))
      else Inl Panic)"

definition decode_op ::
  "byte \<Rightarrow> byte \<Rightarrow> byte \<Rightarrow> byte \<Rightarrow> byte \<Rightarrow> (zkvm_error, instruction) outcome" where
  "decode_op funct3 funct7 rd rs1 rs2 =
     (if (funct3, funct7) = (0, 0x00) then Inr (Op Add rd rs1 rs2)
      else if (funct3, funct7) = (0, 0x20) then Inr (Op Sub rd rs1 rs2)
      else if (funct3, funct7) = (1, 0x00) then Inr (Op Sll rd rs1 rs2)
      else if (funct3, funct7) = (2, 0x00) then Inr (Op Slt rd rs1 rs2)
      else if (funct3, funct7) = (3, 0x00) then Inr (Op Sltu rd rs1 rs2)
      else if (funct3, funct7) = (4, 0x00) then Inr (Op Xor rd rs1 rs2)
      else if (funct3, funct7) = (5, 0x00) then Inr (Op Srl rd rs1 rs2)
      else if (funct3, funct7) = (5, 0x20) then Inr (Op Sra rd rs1 rs2)
      else if (funct3, funct7) = (6, 0x00) then Inr (Op Or rd rs1 rs2)
      else if (funct3, funct7) = (7, 0x00) then Inr (Op And rd rs1 rs2)
      else if (funct3, funct7) = (0, 0x01) then Inr (Op Mul rd rs1 rs2)
      else if (funct3, funct7) = (1, 0x01) then Inr (Op Mulh rd rs1 rs2)
      else if (funct3, funct7) = (2, 0x01) then Inr (Op Mulhsu rd rs1 rs2)
      else if (funct3, funct7) = (3, 0x01) then Inr (Op Mulhu rd rs1 rs2)
      else if (funct3, funct7) = (4, 0x01) then Inr (Op Div rd rs1 rs2)
      else if (funct3, funct7) = (5, 0x01) then Inr (Op Divu rd rs1 rs2)
      else if (funct3, funct7) = (6, 0x01) then Inr (Op Rem rd rs1 rs2)
      else if (funct3, funct7) = (7, 0x01) then Inr (Op Remu rd rs1 rs2)
      else Inl (Fail (UnsupportedInstruction (RTypeFunct funct3 funct7))))"

definition decode :: "u32 \<Rightarrow> (zkvm_error, instruction) outcome" where
  "decode word =
     (if word AND 3 \<noteq> 3 then Inl (Fail (UnsupportedInstruction (CompressedWord word)))
      else
        let opcode = word AND 0x7F;
            rd = ucast (drop_bit 7 word AND 0x1F) :: byte;
            rs1 = ucast (drop_bit 15 word AND 0x1F) :: byte;
            rs2 = ucast (drop_bit 20 word AND 0x1F) :: byte;
            funct3 = ucast (drop_bit 12 word AND 7) :: byte;
            funct7 = ucast (drop_bit 25 word AND 0x7F) :: byte
        in if opcode = 0x37 then Inr (Lui rd (decode_u_imm word))
           else if opcode = 0x17 then Inr (Auipc rd (decode_u_imm word))
           else if opcode = 0x6F then Inr (Jal rd (decode_j_imm word))
           else if opcode = 0x67 then
             (if funct3 \<noteq> 0 then Inl (Fail (UnsupportedInstruction (JalrFunct3 funct3)))
              else Inr (Jalr rd rs1 (decode_i_imm word)))
           else if opcode = 0x63 then decode_branch funct3 rs1 rs2 (decode_b_imm word)
           else if opcode = 0x03 then decode_load funct3 rd rs1 (decode_i_imm word)
           else if opcode = 0x23 then decode_store funct3 rs1 rs2 (decode_s_imm word)
           else if opcode = 0x13 then decode_op_imm funct3 funct7 rd rs1 rs2 (decode_i_imm word)
           else if opcode = 0x33 then decode_op funct3 funct7 rd rs1 rs2
           else if opcode = 0x0F then
             (if funct3 \<noteq> 0 then Inl (Fail (UnsupportedInstruction (FenceFunct3 funct3)))
              else Inr Fence)
           else if opcode = 0x73 then
             (if funct3 \<noteq> 0 then Inl (Fail (UnsupportedInstruction (SystemFunct3 funct3)))
              else
                let imm12 = drop_bit 20 word AND 0xFFF in
                if imm12 = 0 then Inr Ecall
                else if imm12 = 1 then Inr Ebreak
                else Inl (Fail (UnsupportedInstruction (SystemImm imm12))))
           else Inl (Fail (UnsupportedInstruction (UnknownOpcode opcode word))))"

end
