(* ===== verification/Rv32Codec.thy ===== *)
theory Rv32Codec
  imports Rv32
begin

text \<open>
  The encoder and the decoder of \<^verbatim>\<open>poker_zkvm/src/isa/mod.rs\<close> are inverse: every canonical
  instruction survives \<open>encode\<close> and \<open>decode\<close>, \<open>decode\<close> yields only canonical instructions and
  never panics, and re-encoding a decoded word gives the word back, except for the words that
  decode to \<open>FENCE\<close>, \<open>ECALL\<close> and \<open>EBREAK\<close>, whose operand fields the decoder ignores.

  The proofs read a word as an \<open>OR\<close> of shifted fields: \<open>take_bit k (drop_bit s w)\<close> is the field
  of \<open>k\<close> bits at position \<open>s\<close>, \<open>flag (bit w s)\<close> the field of a single bit.
\<close>

section \<open>Canonical instructions\<close>

text \<open>\<open>fits n imm\<close>: the immediate is a signed number of \<open>n + 1\<close> bits.\<close>

definition fits :: "nat \<Rightarrow> u32 \<Rightarrow> bool" where
  "fits n imm \<longleftrightarrow> - (2 ^ n) \<le> sint imm \<and> sint imm < 2 ^ n"

text \<open>Registers and shift amounts below 32, immediates in the range of their format.\<close>

fun canonical :: "instruction \<Rightarrow> bool" where
  "canonical (Lui rd imm) \<longleftrightarrow> rd < 32 \<and> take_bit 12 imm = 0"
| "canonical (Auipc rd imm) \<longleftrightarrow> rd < 32 \<and> take_bit 12 imm = 0"
| "canonical (Jal rd imm) \<longleftrightarrow> rd < 32 \<and> fits 20 imm \<and> \<not> bit imm 0"
| "canonical (Jalr rd rs1 imm) \<longleftrightarrow> rd < 32 \<and> rs1 < 32 \<and> fits 11 imm"
| "canonical (Branch _ rs1 rs2 imm) \<longleftrightarrow> rs1 < 32 \<and> rs2 < 32 \<and> fits 12 imm \<and> \<not> bit imm 0"
| "canonical (Load _ rd rs1 imm) \<longleftrightarrow> rd < 32 \<and> rs1 < 32 \<and> fits 11 imm"
| "canonical (Store _ rs1 rs2 imm) \<longleftrightarrow> rs1 < 32 \<and> rs2 < 32 \<and> fits 11 imm"
| "canonical (OpImm _ rd rs1 imm) \<longleftrightarrow> rd < 32 \<and> rs1 < 32 \<and> fits 11 imm"
| "canonical (ShiftImm _ rd rs1 shamt) \<longleftrightarrow> rd < 32 \<and> rs1 < 32 \<and> shamt < 32"
| "canonical (Op _ rd rs1 rs2) \<longleftrightarrow> rd < 32 \<and> rs1 < 32 \<and> rs2 < 32"
| "canonical _ \<longleftrightarrow> True"

section \<open>Fields of a word\<close>

lemma and_masks:
  "(x :: u32) AND 3 = take_bit 2 x" "x AND 7 = take_bit 3 x" "x AND 0xF = take_bit 4 x"
  "x AND 0x1F = take_bit 5 x" "x AND 0x3F = take_bit 6 x" "x AND 0x7F = take_bit 7 x"
  "x AND 0xFF = take_bit 8 x" "x AND 0x3FF = take_bit 10 x" "x AND 0xFFF = take_bit 12 x"
  "x AND 0x1FFF = take_bit 13 x" "x AND 0x1FFFFF = take_bit 21 x"
  by (simp_all add: take_bit_eq_mask mask_eq_exp_minus_1)

lemma high_masks:
  "(x :: u32) AND 0xFFFFF000 = push_bit 12 (drop_bit 12 x)"
  "x AND 0xFE0 = push_bit 5 (take_bit 7 (drop_bit 5 x))"
proof -
  have a: "(0xFFFFF000 :: u32) = NOT (mask 12)" by (simp add: mask_eq_exp_minus_1)
  have b: "(0xFE0 :: u32) = mask 12 AND NOT (mask 5)" by (simp add: mask_eq_exp_minus_1)
  show "(x :: u32) AND 0xFFFFF000 = push_bit 12 (drop_bit 12 x)"
    unfolding a by (rule bit_word_eqI) (auto simp: bit_simps)
  show "x AND 0xFE0 = push_bit 5 (take_bit 7 (drop_bit 5 x))"
    unfolding b by (rule bit_word_eqI) (auto simp: bit_simps)
qed

lemma drop_push_ge: "s \<le> n \<Longrightarrow> drop_bit s (push_bit n x :: u32) = push_bit (n - s) (take_bit (32 - n) x)"
proof (rule bit_word_eqI)
  fix m assume "s \<le> n"
  then have "m + s - n = m - (n - s)" "s + m - n = m - (n - s)" by auto
  then show "bit (drop_bit s (push_bit n x)) m = bit (push_bit (n - s) (take_bit (32 - n) x)) m"
    using \<open>s \<le> n\<close> by (auto simp: bit_simps dest: bit_imp_le_length)
qed

lemma drop_push_le: "n \<le> s \<Longrightarrow> drop_bit s (push_bit n x :: u32) = drop_bit (s - n) (take_bit (32 - n) x)"
  by (rule bit_word_eqI) (auto simp: bit_simps)

lemma ucast_reg: "ucast (u32_of r) = r"
  unfolding u32_of_def by (rule bit_word_eqI) (auto simp: bit_simps)

lemma small_reg_bit: "r < 32 \<Longrightarrow> bit (r :: byte) i \<Longrightarrow> i < 5"
proof -
  assume a: "r < 32" "bit r i"
  have "take_bit 5 (uint r) = uint r" using a(1) by (simp add: take_bit_int_eq_self_iff word_less_def)
  moreover have "bit (uint r) i" using a(2) bit_imp_le_length[of r i] by (simp add: bit_uint_iff)
  ultimately show ?thesis using bit_take_bit_iff[of 5 "uint r" i] by simp
qed

lemma take_u32_of: "r < 32 \<Longrightarrow> 5 \<le> n \<Longrightarrow> take_bit n (u32_of r) = u32_of r"
  unfolding u32_of_def by (rule bit_word_eqI) (auto simp: bit_simps dest: small_reg_bit)

lemma drop_u32_of: "r < 32 \<Longrightarrow> 5 \<le> n \<Longrightarrow> drop_bit n (u32_of r) = 0"
  unfolding u32_of_def by (rule bit_word_eqI) (auto simp: bit_simps dest: small_reg_bit)

lemma small_f3_bit: "r < 8 \<Longrightarrow> bit (r :: byte) i \<Longrightarrow> i < 3"
proof -
  assume a: "r < 8" "bit r i"
  have "take_bit 3 (uint r) = uint r" using a(1) by (simp add: take_bit_int_eq_self_iff word_less_def)
  moreover have "bit (uint r) i" using a(2) bit_imp_le_length[of r i] by (simp add: bit_uint_iff)
  ultimately show ?thesis using bit_take_bit_iff[of 3 "uint r" i] by simp
qed

lemma f3_u32_of: "r < 8 \<Longrightarrow> 3 \<le> n \<Longrightarrow> take_bit n (u32_of r) = u32_of r"
   "r < 8 \<Longrightarrow> 3 \<le> n \<Longrightarrow> drop_bit n (u32_of r) = 0"
  unfolding u32_of_def by (rule bit_word_eqI, auto simp: bit_simps dest: small_f3_bit)+

lemma f3_bit: "r < 8 \<Longrightarrow> 3 \<le> n \<Longrightarrow> \<not> bit (u32_of r) n"
  unfolding u32_of_def by (auto simp: bit_simps dest: small_f3_bit)

lemma u32_of_numeral: "u32_of 0 = 0" "u32_of 1 = 1" "u32_of 2 = 2" "u32_of 3 = 3" "u32_of 4 = 4"
  "u32_of 5 = 5" "u32_of 6 = 6" "u32_of 7 = 7" "u32_of 0x20 = 0x20"
  by (simp_all add: u32_of_def)

lemma u32_of_ucast: "u32_of (ucast (take_bit 3 x)) = take_bit 3 x"
    "u32_of (ucast (take_bit 5 x)) = take_bit 5 x"
    "u32_of (ucast (take_bit 7 x)) = take_bit 7 (x :: u32)"
  unfolding u32_of_def by (rule bit_word_eqI, auto simp: bit_simps)+

text \<open>Fields of a single bit.\<close>

definition flag :: "bool \<Rightarrow> u32" where "flag b = of_bool b"

lemma and_1: "x AND 1 = flag (bit x 0)"
  unfolding flag_def by (rule bit_word_eqI) (auto simp: bit_simps bit_1_iff)

lemma take_flag: "0 < n \<Longrightarrow> take_bit n (flag b) = flag b"
  unfolding flag_def by (cases n) (auto)

lemma drop_flag: "0 < n \<Longrightarrow> drop_bit n (flag b) = 0"
  unfolding flag_def by (cases n) (auto)

lemma bit_flag: "bit (flag b) n \<longleftrightarrow> b \<and> n = 0"
  unfolding flag_def by (auto simp: bit_1_iff)

lemma even_flag: "even (flag b) \<longleftrightarrow> \<not> b"
  by (simp add: flag_def)

lemma flag_mod: "flag b mod 2 = flag b"
  by (simp add: flag_def)

lemma bit_u32_of: "r < 32 \<Longrightarrow> 5 \<le> n \<Longrightarrow> \<not> bit (u32_of r) n"
  unfolding u32_of_def by (auto simp: bit_simps dest: small_reg_bit)

section \<open>Sign extension\<close>

lemma fits_signed_take_bit:
  assumes "n < 32"
  shows "fits n imm \<longleftrightarrow> signed_take_bit n imm = imm"
proof -
  have "sint (signed_take_bit n imm) = signed_take_bit n (sint imm)"
  proof (cases "n = 31")
    case True
    then show ?thesis by (intro bit_eqI) (auto simp: bit_simps min_def)
  next
    case False
    then have "n < 31" using assms by simp
    then show ?thesis by (intro bit_eqI) (auto simp: bit_simps min_def)
  qed
  then show ?thesis unfolding fits_def
    by (metis signed_take_bit_int_eq_self_iff signed_word_eqI)
qed

lemma test_bit: "(x :: u32) AND push_bit n 1 \<noteq> 0 \<longleftrightarrow> bit x n"
  by (simp add: bit_iff_and_push_bit_not_eq_0)

text \<open>Setting the bits above the sign bit is sign extension.\<close>

lemma sign_extension:
  assumes "k < 31" and n: "n = Suc k"
  shows "(if bit x k then take_bit n x OR NOT (mask n) else take_bit n x) = signed_take_bit k (x :: u32)"
  unfolding n
proof (rule bit_word_eqI)
  fix i
  assume i: "i < LENGTH(32)"
  consider "i < k" | "i = k" | "k < i" by linarith
  then show "bit (if bit x k then take_bit (Suc k) x OR NOT (mask (Suc k)) else take_bit (Suc k) x) i
      = bit (signed_take_bit k x) i"
    using i assms by cases (auto simp: bit_simps min_def)
qed

lemma se12: "sign_extend_12 (take_bit 12 x) = signed_take_bit 11 x"
proof -
  have a: "(0xFFFFF000 :: u32) = NOT (mask 12)" by (simp add: mask_eq_exp_minus_1)
  have b: "(0x800 :: u32) = push_bit 11 1" by simp
  show ?thesis unfolding sign_extend_12_def a b test_bit using sign_extension[of 11 12 x]
    by (simp add: bit_take_bit_iff)
qed

lemma se13: "sign_extend_13 (take_bit 13 x) = signed_take_bit 12 x"
proof -
  have a: "(0xFFFFE000 :: u32) = NOT (mask 13)" by (simp add: mask_eq_exp_minus_1)
  have b: "(0x1000 :: u32) = push_bit 12 1" by simp
  show ?thesis unfolding sign_extend_13_def a b test_bit using sign_extension[of 12 13 x]
    by (simp add: bit_take_bit_iff)
qed

lemma sext21:
  "(let i = take_bit 21 x in if i AND 0x100000 \<noteq> 0 then i OR 0xFFE00000 else i)
     = signed_take_bit 20 (x :: u32)"
proof -
  have a: "(0xFFE00000 :: u32) = NOT (mask 21)" by (simp add: mask_eq_exp_minus_1)
  have b: "(0x100000 :: u32) = push_bit 20 1" by simp
  show ?thesis unfolding Let_def a b test_bit using sign_extension[of 20 21 x]
    by (simp add: bit_take_bit_iff)
qed

section \<open>Decoding an encoded instruction\<close>

lemma imm_s: "push_bit 5 (take_bit 7 (drop_bit 5 x)) OR take_bit 5 x = take_bit 12 (x :: u32)"
  by (rule bit_word_eqI) (auto simp: bit_simps)

lemma imm_b: assumes "\<not> bit x 0" shows "push_bit 12 (flag (bit x 12)) OR push_bit 11 (flag (bit x 11))
   OR push_bit 5 (take_bit 6 (drop_bit 5 x))
       OR push_bit 1 (take_bit 4 (drop_bit 1 x)) = take_bit 13 (x :: u32)"
proof (rule bit_word_eqI)
  fix m :: nat
  have "m = 0 \<or> 1 \<le> m \<and> m < 5 \<or> 5 \<le> m \<and> m < 11 \<or> m = 11 \<or> m = 12 \<or> 13 \<le> m" by arith
  then show "bit (push_bit 12 (flag (bit x 12)) OR push_bit 11 (flag (bit x 11))
   OR push_bit 5 (take_bit 6 (drop_bit 5 x))
       OR push_bit 1 (take_bit 4 (drop_bit 1 x))) m = bit (take_bit 13 (x :: u32)) m"
    using assms by (elim disjE conjE) (simp_all add: bit_simps bit_flag del: bit_0 One_nat_def, auto
        dest: bit_imp_le_length)
qed

lemma imm_j: assumes "\<not> bit x 0"
    shows "push_bit 20 (flag (bit x 20)) OR push_bit 12 (take_bit 8 (drop_bit 12 x))
   OR push_bit 11 (flag (bit x 11)) OR push_bit 1 (take_bit 10 (drop_bit 1 x)) = take_bit 21 (x :: u32)"
proof (rule bit_word_eqI)
  fix m :: nat
  have "m = 0 \<or> 1 \<le> m \<and> m < 11 \<or> m = 11 \<or> 12 \<le> m \<and> m < 20 \<or> m = 20 \<or> 21 \<le> m" by arith
  then show "bit (push_bit 20 (flag (bit x 20)) OR push_bit 12 (take_bit 8 (drop_bit 12 x))
   OR push_bit 11 (flag (bit x 11))
       OR push_bit 1 (take_bit 10 (drop_bit 1 x))) m = bit (take_bit 21 (x :: u32)) m"
    using assms by (elim disjE conjE) (simp_all add: bit_simps bit_flag del: bit_0 One_nat_def, auto
        dest: bit_imp_le_length)
qed

lemmas field = and_masks high_masks drop_push_ge drop_push_le take_bit_or drop_bit_or take_bit_push_bit
  drop_bit_take_bit take_bit_take_bit take_u32_of drop_u32_of u32_of_numeral ucast_reg
      decode_i_imm_def decode_s_imm_def
  decode_b_imm_def decode_u_imm_def decode_j_imm_def and_1 take_flag drop_flag bit_flag bit_u32_of
      f3_u32_of f3_bit bit_or_iff bit_push_bit_iff bit_drop_bit_eq bit_take_bit_iff se12 se13

lemma decode_encode_opimm:
  assumes "rd < 32" "rs < 32" "signed_take_bit 11 imm = imm"
  shows "decode (encode (OpImm op rd rs imm)) = Inr (OpImm op rd rs imm)"
  using assms by (cases op) (simp_all add: decode_def encode_i_def Let_def field decode_op_imm_def)

lemma decode_encode_shift:
  assumes "rd < 32" "rs < 32" "sh < 32"
  shows "decode (encode (ShiftImm op rd rs sh)) = Inr (ShiftImm op rd rs sh)"
  using assms by (cases op) (simp_all add: decode_def encode_i_shift_def Let_def field
      decode_op_imm_def)

lemma decode_encode_reg:
  assumes "rd < 32" "rs < 32" "rs2 < 32"
  shows "decode (encode (Op op rd rs rs2)) = Inr (Op op rd rs rs2)"
  using assms by (cases op) (simp_all add: decode_def encode_r_def Let_def field decode_op_def)

lemma decode_encode_load:
  assumes "rd < 32" "rs < 32" "signed_take_bit 11 imm = imm"
  shows "decode (encode (Load op rd rs imm)) = Inr (Load op rd rs imm)"
  using assms by (cases op) (simp_all add: decode_def encode_i_def Let_def field decode_load_def)

lemma decode_encode_store:
  assumes "rd < 32" "rs < 32" "signed_take_bit 11 imm = imm"
  shows "decode (encode (Store op rd rs imm)) = Inr (Store op rd rs imm)"
  using assms by (cases op) (simp_all add: decode_def encode_s_def Let_def field decode_store_def imm_s)

lemma decode_encode_jalr:
  assumes "rd < 32" "signed_take_bit 11 imm = imm" "rs < 32"
  shows "decode (encode (Jalr rd rs imm)) = Inr (Jalr rd rs imm)"
  using assms by (simp_all add: decode_def Let_def field)

lemma decode_encode_lui:
  assumes "rd < 32" "take_bit 12 imm = 0"
  shows "decode (encode (Lui rd imm)) = Inr (Lui rd imm)"
      "decode (encode (Auipc rd imm)) = Inr (Auipc rd imm)"
proof -
  have "12 \<le> i" if "bit imm i" for i
    using that bit_take_bit_iff[of 12 imm i] assms(2) by (cases "i < 12") auto
  then have "push_bit 12 (take_bit 20 (drop_bit 12 imm)) = imm"
    by (intro bit_word_eqI) (auto simp: bit_simps)
  then show "decode (encode (Lui rd imm)) = Inr (Lui rd imm)"
      "decode (encode (Auipc rd imm)) = Inr (Auipc rd imm)"
  using assms by (simp_all add: decode_def Let_def field)
qed

lemma fields_j: assumes "rd < 32"
  shows "drop_bit 31 (encode_j rd imm) AND 1 = flag (bit imm 20)"
     "drop_bit 12 (encode_j rd imm) AND 0xFF = take_bit 8 (drop_bit 12 imm)"
     "drop_bit 20 (encode_j rd imm) AND 1 = flag (bit imm 11)"
     "drop_bit 21 (encode_j rd imm) AND 0x3FF = take_bit 10 (drop_bit 1 imm)"
     "encode_j rd imm AND 0x7F = 0x6F" "encode_j rd imm AND 3 = 3"
         "drop_bit 7 (encode_j rd imm) AND 0x1F = u32_of rd"
  unfolding encode_j_def Let_def
  by (simp_all add: field assms even_drop_bit_iff_not_bit even_flag del: push_bit_Suc)

lemma decode_encode_jal:
  assumes "rd < 32" "signed_take_bit 20 imm = imm" "\<not> bit imm 0"
  shows "decode (encode (Jal rd imm)) = Inr (Jal rd imm)"
proof -
  have "decode_j_imm (encode_j rd imm) = imm"
    unfolding decode_j_imm_def fields_j[OF assms(1)] imm_j[OF assms(3)] sext21 by (rule assms(2))
  then show ?thesis by (simp add: decode_def Let_def fields_j[OF assms(1)] ucast_reg)
qed

lemma fields_b: fixes imm
    assumes "rs1 < 32" "rs2 < 32" "f3 < 8" defines "w \<equiv> encode_b 0x63 f3 rs1 rs2 imm"
  shows "drop_bit 31 w AND 1 = flag (bit imm 12)"
     "drop_bit 7 w AND 1 = flag (bit imm 11)"
     "drop_bit 25 w AND 0x3F = take_bit 6 (drop_bit 5 imm)"
     "drop_bit 8 w AND 0xF = take_bit 4 (drop_bit 1 imm)"
     "w AND 0x7F = 0x63" "w AND 3 = 3" "drop_bit 15 w AND 0x1F = u32_of rs1"
         "drop_bit 20 w AND 0x1F = u32_of rs2"
     "drop_bit 12 w AND 7 = u32_of f3"
  unfolding encode_b_def Let_def w_def
  by (simp_all add: field assms even_drop_bit_iff_not_bit even_flag del: push_bit_Suc)

lemma decode_branch_funct3: "decode_branch (branch_funct3 op) rs1 rs2 imm = Inr (Branch op rs1 rs2 imm)"
  by (cases op) (simp_all add: decode_branch_def)

lemma branch_funct3_less: "branch_funct3 op < 8"
  by (cases op) simp_all

lemma decode_encode_branch:
  assumes "rd < 32" "rs < 32" "signed_take_bit 12 imm = imm" "\<not> bit imm 0"
  shows "decode (encode (Branch op rd rs imm)) = Inr (Branch op rd rs imm)"
proof -
  note f = fields_b[OF assms(1,2) branch_funct3_less]
  have "decode_b_imm (encode_b 0x63 (branch_funct3 op) rd rs imm) = imm"
    unfolding decode_b_imm_def f imm_b[OF assms(4)] Let_def se13 by (rule assms(3))
  then show ?thesis by (simp add: decode_def Let_def f ucast_reg decode_branch_funct3)
qed

section \<open>Re-encoding a decoded word\<close>

lemma split_u:
    "(w :: u32) = take_bit 7 w OR push_bit 7 (take_bit 5 (drop_bit 7 w)) OR push_bit 12 (drop_bit 12 w)"
  (is "w = ?v")
proof (rule bit_word_eqI)
  fix m :: nat
  have "m < 7 \<or> 7 \<le> m \<and> m < 12 \<or> 12 \<le> m" by arith
  then show "bit w m = bit ?v m"
    by (elim disjE conjE) (simp_all add: bit_simps del: bit_0, auto dest: bit_imp_le_length)
qed

lemma split_upper: "push_bit 12 (drop_bit 12 w) = push_bit 12 (take_bit 3 (drop_bit 12 w)) OR
    push_bit 15 (take_bit 5 (drop_bit 15 w)) OR push_bit 20 (take_bit 12 (drop_bit 20 (w :: u32)))"
  (is "?u = ?v")
proof (rule bit_word_eqI)
  fix m :: nat
  have "m < 12 \<or> 12 \<le> m \<and> m < 15 \<or> 15 \<le> m \<and> m < 20 \<or> 20 \<le> m" by arith
  then show "bit ?u m = bit ?v m"
    by (elim disjE conjE) (simp_all add: bit_simps del: bit_0, auto dest: bit_imp_le_length)
qed

lemma split_top: "push_bit 20 (take_bit 12 (drop_bit 20 w)) =
    push_bit 20 (take_bit 5 (drop_bit 20 w)) OR push_bit 25 (take_bit 7 (drop_bit 25 (w :: u32)))"
  (is "?u = ?v")
proof (rule bit_word_eqI)
  fix m :: nat
  have "m < 20 \<or> 20 \<le> m \<and> m < 25 \<or> 25 \<le> m" by arith
  then show "bit ?u m = bit ?v m"
    by (elim disjE conjE) (simp_all add: bit_simps del: bit_0, auto dest: bit_imp_le_length)
qed

lemma split_r:
    "(w :: u32) = take_bit 7 w OR push_bit 7 (take_bit 5 (drop_bit 7 w))
    OR push_bit 12 (take_bit 3 (drop_bit 12 w))
   OR push_bit 15 (take_bit 5 (drop_bit 15 w)) OR push_bit 20 (take_bit 5 (drop_bit 20 w))
       OR push_bit 25 (take_bit 7 (drop_bit 25 w))"
  by (subst split_u, subst split_upper, subst split_top) (simp only: or.assoc)

lemmas pieces = and_masks high_masks drop_push_ge drop_push_le take_bit_or drop_bit_or take_bit_push_bit
  drop_bit_take_bit take_bit_take_bit u32_of_ucast and_1 take_flag drop_flag bit_flag
      take_bit_signed_take_bit
  even_drop_bit_iff_not_bit even_flag flag_mod

lemma rebuild_i:
  "encode_i (take_bit 7 w) (ucast (take_bit 3 (drop_bit 12 w))) (ucast (take_bit 5 (drop_bit 7 w)))
     (ucast (take_bit 5 (drop_bit 15 w))) (decode_i_imm w) = w"
  unfolding encode_i_def decode_i_imm_def and_masks se12
  by (subst (7) split_u) (simp add: pieces split_upper or.assoc)

lemma rebuild_jalr:
  "take_bit 3 (drop_bit 12 w) = 0 \<Longrightarrow> take_bit 7 w
      = 0x67 \<Longrightarrow> encode (Jalr (ucast (take_bit 5 (drop_bit 7 w)))
     (ucast (take_bit 5 (drop_bit 15 w))) (decode_i_imm w)) = w"
  using rebuild_i[of w] by (simp add: encode_i_def u32_of_numeral)

lemma rebuild_r:
  "encode_r (take_bit 7 w) (ucast (take_bit 3 (drop_bit 12 w))) (ucast (take_bit 7 (drop_bit 25 w)))
      (ucast (take_bit 5 (drop_bit 7 w)))
     (ucast (take_bit 5 (drop_bit 15 w))) (ucast (take_bit 5 (drop_bit 20 w))) = w"
  unfolding encode_r_def
  by (subst (7) split_u) (simp add: pieces split_upper split_top or.assoc)

lemma rebuild_u:
  "take_bit 7 w OR push_bit 7 (u32_of (ucast (take_bit 5 (drop_bit 7 w))))
      OR (decode_u_imm w AND 0xFFFFF000) = w"
proof -
  have "take_bit 20 (drop_bit 12 w)
      = drop_bit 12 w" by (rule bit_word_eqI) (auto simp: bit_simps dest: bit_imp_le_length)
  then show ?thesis unfolding decode_u_imm_def
    by (subst (4) split_u) (simp add: pieces)
qed

lemma decode_s_bits:
    "decode_s_imm w = signed_take_bit 11 (push_bit 5 (take_bit 7 (drop_bit 25 w))
    OR take_bit 5 (drop_bit 7 w))"
proof -
  let ?y = "push_bit 5 (take_bit 7 (drop_bit 25 w)) OR take_bit 5 (drop_bit 7 w)"
  have "take_bit 12 ?y = ?y" by (simp add: pieces)
  then show ?thesis unfolding decode_s_imm_def Let_def and_masks by (metis se12)
qed

lemma rebuild_s:
  "encode_s (take_bit 7 w) (ucast (take_bit 3 (drop_bit 12 w)))
     (ucast (take_bit 5 (drop_bit 15 w))) (ucast (take_bit 5 (drop_bit 20 w))) (decode_s_imm w) = w"
         (is "?e = w")
proof -
  have "?e = take_bit 7 w OR push_bit 12 (take_bit 3 (drop_bit 12 w))
   OR push_bit 15 (take_bit 5 (drop_bit 15 w)) OR push_bit 20 (take_bit 5 (drop_bit 20 w))
       OR push_bit 25 (take_bit 7 (drop_bit 25 w))
   OR push_bit 7 (take_bit 5 (drop_bit 7 w))"
   unfolding encode_s_def decode_s_bits Let_def by (simp add: pieces or.assoc)
  also have "\<dots> = w" by (subst (7) split_r) (simp only: ac_simps)
  finally show ?thesis .
qed

lemma b_pieces:
    "push_bit 7 (take_bit 5 (drop_bit 7 w)) = push_bit 7 (flag (bit w 7))
    OR push_bit 8 (take_bit 4 (drop_bit 8 w))"
   "push_bit 25 (take_bit 7 (drop_bit 25 w)) = push_bit 25 (take_bit 6 (drop_bit 25 w))
       OR push_bit 31 (flag (bit w 31))"
proof -
  show "push_bit 7 (take_bit 5 (drop_bit 7 w)) = push_bit 7 (flag (bit w 7))
      OR push_bit 8 (take_bit 4 (drop_bit 8 w))" (is "?u = ?v")
  proof (rule bit_word_eqI)
    fix m :: nat
    have "m < 7 \<or> m = 7 \<or> 8 \<le> m \<and> m < 12 \<or> 12 \<le> m" by arith
    then show "bit ?u m = bit ?v m"
    by (elim disjE conjE) (simp_all add: bit_simps bit_flag del: bit_0, auto dest: bit_imp_le_length)
  qed
  show "push_bit 25 (take_bit 7 (drop_bit 25 w)) = push_bit 25 (take_bit 6 (drop_bit 25 w))
      OR push_bit 31 (flag (bit w 31))" (is "?u = ?v")
  proof (rule bit_word_eqI)
    fix m :: nat
    have "m < 25 \<or> 25 \<le> m \<and> m < 31 \<or> m = 31 \<or> 32 \<le> m" by arith
    then show "bit ?u m = bit ?v m"
    by (elim disjE conjE) (simp_all add: bit_simps bit_flag del: bit_0, auto dest: bit_imp_le_length)
  qed
qed

definition b_word :: "u32 \<Rightarrow> u32" where
    "b_word w = push_bit 12 (flag (bit w 31)) OR push_bit 11 (flag (bit w 7))
    OR push_bit 5 (take_bit 6 (drop_bit 25 w)) OR push_bit 1 (take_bit 4 (drop_bit 8 w))"

lemma b_word: "take_bit 13 (b_word w) = b_word w" "bit (b_word w) 12 = bit w 31"
    "bit (b_word w) 11 = bit w 7" "\<not> bit (b_word w) 0"
  "take_bit 6 (drop_bit 5 (b_word w)) = take_bit 6 (drop_bit 25 w)"
  "take_bit 4 (drop_bit 1 (b_word w)) = take_bit 4 (drop_bit 8 w)"
  unfolding b_word_def by (simp_all add: pieces bit_simps del: bit_0 push_bit_Suc)

lemma decode_b_bits: "decode_b_imm w = signed_take_bit 12 (b_word w)"
proof -
  have "decode_b_imm w
      = sign_extend_13 (b_word w)" unfolding decode_b_imm_def b_word_def by (simp add: pieces
      bit_simps del: bit_0)
  then show ?thesis using b_word(1)[of w] by (metis se13)
qed

lemma rebuild_b:
  "encode_b (take_bit 7 w) (ucast (take_bit 3 (drop_bit 12 w)))
     (ucast (take_bit 5 (drop_bit 15 w))) (ucast (take_bit 5 (drop_bit 20 w))) (decode_b_imm w) = w"
         (is "?e = w")
proof -
  have "?e = take_bit 7 w OR push_bit 12 (take_bit 3 (drop_bit 12 w))
   OR push_bit 15 (take_bit 5 (drop_bit 15 w)) OR push_bit 20 (take_bit 5 (drop_bit 20 w))
       OR push_bit 31 (flag (bit w 31))
   OR push_bit 25 (take_bit 6 (drop_bit 25 w)) OR push_bit 8 (take_bit 4 (drop_bit 8 w))
       OR push_bit 7 (flag (bit w 7))"
   unfolding encode_b_def decode_b_bits Let_def by (simp add: pieces b_word b_word[unfolded
       One_nat_def] bit_simps or.assoc del: bit_0)
  also have "\<dots> = w" by (subst (9) split_r) (simp only: b_pieces ac_simps)
  finally show ?thesis .
qed

lemma j_pieces:
    "push_bit 12 (drop_bit 12 w) = push_bit 12 (take_bit 8 (drop_bit 12 w))
    OR push_bit 20 (flag (bit w 20))
  OR push_bit 21 (take_bit 10 (drop_bit 21 w)) OR push_bit 31 (flag (bit w 31))" (is "?u = ?v")
proof (rule bit_word_eqI)
  fix m :: nat
  have "m < 12 \<or> 12 \<le> m \<and> m < 20 \<or> m = 20 \<or> 21 \<le> m \<and> m < 31 \<or> m = 31 \<or> 32 \<le> m" by arith
  then show "bit ?u m = bit ?v m"
    by (elim disjE conjE) (simp_all add: bit_simps bit_flag del: bit_0, auto dest: bit_imp_le_length)
qed

definition j_word :: "u32 \<Rightarrow> u32" where
    "j_word w = push_bit 20 (flag (bit w 31)) OR push_bit 12 (take_bit 8 (drop_bit 12 w))
    OR push_bit 11 (flag (bit w 20)) OR push_bit 1 (take_bit 10 (drop_bit 21 w))"

lemma j_word: "take_bit 21 (j_word w) = j_word w" "bit (j_word w) 20 = bit w 31"
    "bit (j_word w) 11 = bit w 20" "\<not> bit (j_word w) 0"
  "take_bit 8 (drop_bit 12 (j_word w)) = take_bit 8 (drop_bit 12 w)"
  "take_bit 10 (drop_bit 1 (j_word w)) = take_bit 10 (drop_bit 21 w)"
  unfolding j_word_def by (simp_all add: pieces bit_simps del: bit_0 push_bit_Suc)

lemma decode_j_bits: "decode_j_imm w = signed_take_bit 20 (j_word w)"
proof -
  have "decode_j_imm w = (let i = j_word w in if i AND 0x100000 \<noteq> 0 then i
      OR 0xFFE00000 else i)" unfolding decode_j_imm_def j_word_def by (simp add: pieces bit_simps
      del: bit_0)
  then show ?thesis using sext21[of "j_word w"] unfolding j_word(1) by simp
qed

lemma rebuild_j: assumes "take_bit 7 w = 0x6F" shows
  "encode_j (ucast (take_bit 5 (drop_bit 7 w))) (decode_j_imm w) = w" (is "?e = w")
proof -
  have "?e = take_bit 7 w OR push_bit 7 (take_bit 5 (drop_bit 7 w)) OR push_bit 31 (flag (bit w 31))
      OR push_bit 21 (take_bit 10 (drop_bit 21 w))
    OR push_bit 20 (flag (bit w 20)) OR push_bit 12 (take_bit 8 (drop_bit 12 w)) "
   unfolding encode_j_def decode_j_bits Let_def by (simp add: pieces assms j_word j_word[unfolded
       One_nat_def] bit_simps or.assoc del: bit_0)
  also have "\<dots> = w" by (subst (7) split_u) (simp only: j_pieces ac_simps)
  finally show ?thesis .
qed

section \<open>The arms of the decoder\<close>

lemma decode_branch_Inr:
  "decode_branch f r1 r2 imm = Inr i \<longleftrightarrow> (\<exists>op. i = Branch op r1 r2 imm \<and> f = branch_funct3 op)"
proof
  assume "decode_branch f r1 r2 imm = Inr i"
  then show "\<exists>op. i = Branch op r1 r2 imm \<and> f = branch_funct3 op"
    unfolding decode_branch_def by (fastforce split: if_splits intro: branch_funct3.simps[symmetric])
qed (auto simp: decode_branch_funct3)

lemma decode_load_Inr:
  assumes "decode_load f rd r1 imm = Inr i"
  shows "\<exists>op. i = Load op rd r1 imm \<and> f = load_funct3 op"
  using assms unfolding decode_load_def
  by (fastforce split: if_splits intro: load_funct3.simps[symmetric])

lemma decode_store_Inr:
  assumes "decode_store f r1 r2 imm = Inr i"
  shows "\<exists>op. i = Store op r1 r2 imm \<and> f = store_funct3 op"
  using assms unfolding decode_store_def
  by (fastforce split: if_splits intro: store_funct3.simps[symmetric])

lemma decode_op_imm_Inr:
  assumes "decode_op_imm f3 f7 rd r1 r2 imm = Inr i"
  shows "(\<exists>op. i = OpImm op rd r1 imm \<and> f3 = imm_funct3 op)
    \<or> (\<exists>op. i = ShiftImm op rd r1 r2 \<and> shift_funct op = (f3, f7))"
  using assms unfolding decode_op_imm_def
  by (fastforce split: if_splits intro: imm_funct3.simps[symmetric] shift_funct.simps)

lemma decode_op_Inr:
  assumes "decode_op f3 f7 rd r1 r2 = Inr i"
  shows "\<exists>op. i = Op op rd r1 r2 \<and> reg_funct op = (f3, f7)"
  using assms unfolding decode_op_def
  by (fastforce split: if_splits intro: reg_funct.simps)

lemma ucast_field_less:
  fixes x :: u32
  assumes "n < 8"
  shows "(ucast (take_bit n x) :: byte) < 2 ^ n"
proof -
  have "uint (ucast (take_bit n x) :: byte) = take_bit n (uint x)"
    using assms by (simp add: unsigned_ucast_eq unsigned_take_bit_eq take_bit_take_bit min_def)
  moreover have "uint ((2 :: byte) ^ n) = 2 ^ n"
    using assms by (intro uint_2p) (simp add: word_gt_0)
  ultimately show ?thesis unfolding word_less_def by simp
qed

lemmas ucast_register = ucast_field_less[of 5, simplified]
lemmas ucast_funct3 = ucast_field_less[of 3, simplified]

lemma funct3_cases:
  assumes "f < (8 :: byte)"
  shows "f = 0 \<or> f = 1 \<or> f = 2 \<or> f = 3 \<or> f = 4 \<or> f = 5 \<or> f = 6 \<or> f = 7"
proof -
  have "uint f < 8" "0 \<le> uint f" using assms by (simp_all add: word_less_def)
  moreover have "k \<in> {0, 1, 2, 3, 4, 5, 6, 7}" if "k < 8" "0 \<le> k" for k :: int
    using that by simp arith
  ultimately have "uint f \<in> {0, 1, 2, 3, 4, 5, 6, 7}" by blast
  then have "word_of_int (uint f) \<in> {0, 1, 2, 3, 4, 5, 6, 7 :: byte}" by fastforce
  then show ?thesis by simp
qed

lemma decode_op_imm_cases:
  assumes "f3 < 8"
  shows "(\<exists>i. decode_op_imm f3 f7 rd r1 r2 imm = Inr i)
    \<or> (\<exists>u. decode_op_imm f3 f7 rd r1 r2 imm = Inl (Fail (UnsupportedInstruction u)))"
  using funct3_cases[OF assms] by (elim disjE) (auto simp: decode_op_imm_def)

lemma fits_signed: "n < 32 \<Longrightarrow> fits n (signed_take_bit n x)"
  by (simp add: fits_signed_take_bit)

lemma decode_imm_fits:
  "fits 11 (decode_i_imm w)" "fits 11 (decode_s_imm w)" "fits 12 (decode_b_imm w)"
      "fits 20 (decode_j_imm w)"
  by (simp_all add: decode_i_imm_def and_masks se12 decode_s_bits decode_b_bits decode_j_bits
      fits_signed)

lemma decode_imm_aligned: "\<not> bit (decode_b_imm w) 0" "\<not> bit (decode_j_imm w) 0"
    "take_bit 12 (decode_u_imm w) = 0"
  using b_word(4)[of w] j_word(4)[of w]
  by (simp_all add: decode_b_bits decode_j_bits decode_u_imm_def high_masks bit_signed_take_bit_iff
      take_bit_push_bit del: bit_0)

text \<open>What a decoded word says of the instruction, one fact per format.\<close>

definition decodes :: "u32 \<Rightarrow> instruction \<Rightarrow> bool" where
  "decodes w i \<longleftrightarrow> canonical i \<and> (i \<notin> {Fence, Ecall, Ebreak} \<longrightarrow> encode i = w)"

lemmas decodes_simps = decodes_def ucast_register decode_imm_fits decode_imm_aligned

lemma decodes_u:
  "take_bit 7 w = 0x37 \<Longrightarrow> decodes w (Lui (ucast (take_bit 5 (drop_bit 7 w))) (decode_u_imm w))"
  "take_bit 7 w = 0x17 \<Longrightarrow> decodes w (Auipc (ucast (take_bit 5 (drop_bit 7 w))) (decode_u_imm w))"
  using rebuild_u[of w] by (simp_all add: decodes_simps)

lemma decodes_j:
  "take_bit 7 w = 0x6F \<Longrightarrow> decodes w (Jal (ucast (take_bit 5 (drop_bit 7 w))) (decode_j_imm w))"
  by (simp add: decodes_simps rebuild_j)

lemma ucast_funct3_0: "ucast (take_bit 3 x) = (0 :: byte) \<Longrightarrow> take_bit 3 (x :: u32) = 0"
  using u32_of_ucast(1)[of x] by (simp add: u32_of_numeral)

lemma decodes_jalr:
  assumes "take_bit 7 w = 0x67" and "ucast (take_bit 3 (drop_bit 12 w)) = (0 :: byte)"
  shows "decodes w (Jalr (ucast (take_bit 5 (drop_bit 7 w))) (ucast (take_bit 5 (drop_bit 15 w)))
      (decode_i_imm w))"
  using rebuild_jalr[OF ucast_funct3_0[OF assms(2)] assms(1)] by (simp add: decodes_simps)

lemma decodes_branch:
  assumes "take_bit 7 w = 0x63"
    and "decode_branch (ucast (take_bit 3 (drop_bit 12 w))) (ucast (take_bit 5 (drop_bit 15 w)))
           (ucast (take_bit 5 (drop_bit 20 w))) (decode_b_imm w) = Inr i"
  shows "decodes w i"
  using assms(2) rebuild_b[of w] assms(1) by (auto simp: decodes_simps decode_branch_Inr)

lemma decodes_load:
  assumes "take_bit 7 w = 0x03"
    and "decode_load (ucast (take_bit 3 (drop_bit 12 w))) (ucast (take_bit 5 (drop_bit 7 w)))
           (ucast (take_bit 5 (drop_bit 15 w))) (decode_i_imm w) = Inr i"
  shows "decodes w i"
  using decode_load_Inr[OF assms(2)] rebuild_i[of w] assms(1) by (auto simp: decodes_simps)

lemma decodes_store:
  assumes "take_bit 7 w = 0x23"
    and "decode_store (ucast (take_bit 3 (drop_bit 12 w))) (ucast (take_bit 5 (drop_bit 15 w)))
           (ucast (take_bit 5 (drop_bit 20 w))) (decode_s_imm w) = Inr i"
  shows "decodes w i"
  using decode_store_Inr[OF assms(2)] rebuild_s[of w] assms(1) by (auto simp: decodes_simps)

lemma decodes_op_imm:
  assumes "take_bit 7 w = 0x13"
    and "decode_op_imm (ucast (take_bit 3 (drop_bit 12 w))) (ucast (take_bit 7 (drop_bit 25 w)))
           (ucast (take_bit 5 (drop_bit 7 w))) (ucast (take_bit 5 (drop_bit 15 w)))
           (ucast (take_bit 5 (drop_bit 20 w))) (decode_i_imm w) = Inr i"
  shows "decodes w i"
  using decode_op_imm_Inr[OF assms(2)] rebuild_i[of w] rebuild_r[of w] assms(1)
  by (auto simp: decodes_simps encode_i_shift_def encode_r_def)

lemma decodes_op:
  assumes "take_bit 7 w = 0x33"
    and "decode_op (ucast (take_bit 3 (drop_bit 12 w))) (ucast (take_bit 7 (drop_bit 25 w)))
           (ucast (take_bit 5 (drop_bit 7 w))) (ucast (take_bit 5 (drop_bit 15 w)))
           (ucast (take_bit 5 (drop_bit 20 w))) = Inr i"
  shows "decodes w i"
  using decode_op_Inr[OF assms(2)] rebuild_r[of w] assms(1) by (auto simp: decodes_simps)

lemma decode_Inr_decodes:
  assumes "decode w = Inr i"
  shows "decodes w i"
  using assms unfolding decode_def Let_def
  by (simp only: and_masks split: if_splits)
    (auto intro: decodes_u decodes_j decodes_jalr decodes_branch decodes_load decodes_store
        decodes_op_imm
      decodes_op simp: decodes_def[of w Fence] decodes_def[of w Ecall] decodes_def[of w Ebreak])

lemma decode_cases: "(\<exists>i. decode w = Inr i) \<or> (\<exists>u. decode w = Inl (Fail (UnsupportedInstruction u)))"
  using decode_op_imm_cases[OF ucast_funct3, of "drop_bit 12 w" "ucast (drop_bit 25 w AND 0x7F)"
     "ucast (drop_bit 7 w AND 0x1F)" "ucast (drop_bit 15 w AND 0x1F)"
         "ucast (drop_bit 20 w AND 0x1F)" "decode_i_imm w"]
  unfolding decode_def Let_def
  by (auto simp: and_masks decode_branch_def decode_load_def decode_store_def decode_op_def)

section \<open>The properties of the codec\<close>

text \<open>
  C30: a canonical instruction (registers and shift amounts below 32, an immediate its format can
  hold) survives encoding and decoding.
\<close>

theorem decode_encode:
  assumes "canonical i"
  shows "decode (encode i) = Inr i"
proof (cases i)
  case Fence
  then show ?thesis by (simp add: decode_def)
next
  case Ecall
  then show ?thesis by (simp add: decode_def)
next
  case Ebreak
  then show ?thesis by (simp add: decode_def)
qed (use assms in \<open>simp_all add: fits_signed_take_bit decode_encode_lui decode_encode_jal
    decode_encode_jalr
       decode_encode_branch decode_encode_load decode_encode_store decode_encode_opimm
           decode_encode_shift
       decode_encode_reg del: encode.simps bit_0\<close>)

theorem decode_encode_witness:
    "decode (encode (Branch Bltu 5 31 0xFFFFF800)) = Inr (Branch Bltu 5 31 0xFFFFF800)"
  by (rule decode_encode) (simp add: fits_def)

text \<open>
  The decoder is total and typed.  Every word either decodes to a canonical instruction or is
  rejected as an unsupported instruction; in particular the \<open>unreachable!()\<close> arm is unreachable.
\<close>

lemma decode_total:
  "(\<exists>i. decode w = Inr i \<and> canonical i) \<or> (\<exists>u. decode w = Inl (Fail (UnsupportedInstruction u)))"
  using decode_cases[of w] decode_Inr_decodes[of w] by (auto simp: decodes_def)

text \<open>
  Re-encoding a decoded instruction gives the word back, bit by bit, so that the instruction word
  recorded in a trace determines the fetched word.  \<open>FENCE\<close>, \<open>ECALL\<close> and \<open>EBREAK\<close> are excepted: the
  decoder ignores their operand fields.
\<close>

lemma encode_decode:
  assumes "decode w = Inr i" and "i \<notin> {Fence, Ecall, Ebreak}"
  shows "encode i = w"
  using decode_Inr_decodes[OF assms(1)] assms(2) by (simp add: decodes_def)

text \<open>The exception is real: two words decode to the same \<open>FENCE\<close>, one of which is not its encoding.\<close>

lemma fence_operands_ignored: "decode 0x0FF0000F = Inr Fence \<and> encode Fence \<noteq> 0x0FF0000F"
  by (simp add: decode_def)

lemma ecall_operands_ignored: "decode 0x000000F3 = Inr Ecall \<and> encode Ecall \<noteq> 0x000000F3"
  by (simp add: decode_def)

end
