(* ===== verification/Rv32Mem.thy ===== *)
theory Rv32Mem
  imports Rv32
begin

text \<open>
  \<^verbatim>\<open>poker_zkvm/src/isa/state.rs\<close>: the paged memory of the zkVM with its per-byte
  initialisation bitmap, the machine state and the loading of an ELF image.

  The page table is a map from page bases to pages; the arrays of a page are lists of their fixed
  length (\<open>mem_ok\<close>), and an index outside of them panics.  An \<open>Err\<close> aborts the execution, so that
  the state a failed operation leaves behind is never read and an outcome has none.
\<close>

section \<open>Constants\<close>

definition MAX_ZKVM_MEMORY :: nat where "MAX_ZKVM_MEMORY = 16 * 1024 * 1024"
definition PAGE_SIZE :: nat where "PAGE_SIZE = 4096"
definition STACK_TOP :: u32 where "STACK_TOP = 0x80000000"
definition HEAP_START :: u32 where "HEAP_START = 0x10000000"
definition HEAP_SIZE :: u32 where "HEAP_SIZE = 8 * 1024 * 1024"

text \<open>\<open>u32::checked_add\<close>.\<close>

definition checked_add_u32 :: "u32 \<Rightarrow> u32 \<Rightarrow> u32 option" where
  "checked_add_u32 a b = (if unat a + unat b < 2 ^ 32 then Some (a + b) else None)"

lemma checked_add_u32_eq_Some [outcome_simps]:
  "checked_add_u32 a b = Some c \<longleftrightarrow> unat a + unat b < 2 ^ 32 \<and> c = a + b"
  by (auto simp: checked_add_u32_def)

section \<open>Pages\<close>

record page =
  pg_data :: "byte list"
  pg_init_mask :: "byte list"

definition zeroed :: page where
  "zeroed = \<lparr>pg_data = replicate PAGE_SIZE 0, pg_init_mask = replicate (PAGE_SIZE div 8) 0\<rparr>"

definition is_initialized :: "page \<Rightarrow> nat \<Rightarrow> (zkvm_error, bool) outcome" where
  "is_initialized p offset =
     rbind (idx (pg_init_mask p) (offset div 8)) (\<lambda>m. Inr (drop_bit (offset mod 8) m AND 1 = 1))"

definition set_initialized :: "page \<Rightarrow> nat \<Rightarrow> (zkvm_error, page) outcome" where
  "set_initialized p offset =
     rbind (idx (pg_init_mask p) (offset div 8)) (\<lambda>m.
     rbind (set_idx (pg_init_mask p) (offset div 8) (m OR push_bit (offset mod 8) 1)) (\<lambda>ms.
     Inr (p\<lparr>pg_init_mask := ms\<rparr>)))"

section \<open>The memory map\<close>

record memory_map =
  mm_pages :: "u32 \<rightharpoonup> page"
  mm_total :: nat

definition new_memory :: memory_map where
  "new_memory = \<lparr>mm_pages = Map.empty, mm_total = 0\<rparr>"

definition page_base :: "u32 \<Rightarrow> u32" where
  "page_base addr = addr AND NOT (of_nat PAGE_SIZE - 1)"

definition page_offset :: "u32 \<Rightarrow> nat" where
  "page_offset addr = unat addr AND (PAGE_SIZE - 1)"

text \<open>
  \<open>ensure_page\<close> returns the page of an address, allocating it when it is missing; the reference into
  the table is the page's base, under which the caller puts the page back.
\<close>

definition ensure_page :: "memory_map \<Rightarrow> u32 \<Rightarrow> (zkvm_error, memory_map \<times> page) outcome" where
  "ensure_page m addr =
     (let base = page_base addr in
      rbind (if mm_pages m base = None then
               rbind (ok_or OutOfMemory (checked_add_u64 (mm_total m) PAGE_SIZE)) (\<lambda>new_total.
               if MAX_ZKVM_MEMORY < new_total then Inl (Fail OutOfMemory)
               else Inr (m\<lparr>mm_pages := (mm_pages m)(base \<mapsto> zeroed), mm_total := new_total\<rparr>))
             else Inr m) (\<lambda>m'.
      case mm_pages m' base of None \<Rightarrow> Inl Panic | Some p \<Rightarrow> Inr (m', p)))"

definition put_page :: "memory_map \<Rightarrow> u32 \<Rightarrow> page \<Rightarrow> memory_map" where
  "put_page m addr p = m\<lparr>mm_pages := (mm_pages m)(page_base addr \<mapsto> p)\<rparr>"

definition get_page :: "memory_map \<Rightarrow> u32 \<Rightarrow> page option" where
  "get_page m addr = mm_pages m (page_base addr)"

definition read_byte :: "memory_map \<Rightarrow> u32 \<Rightarrow> (zkvm_error, byte) outcome" where
  "read_byte m addr =
     (let offset = page_offset addr in
      case get_page m addr of
        None \<Rightarrow> Inl (Fail (UninitializedRead addr))
      | Some p \<Rightarrow> rbind (is_initialized p offset) (\<lambda>i.
          if i then idx (pg_data p) offset else Inl (Fail (UninitializedRead addr))))"

definition write_byte :: "memory_map \<Rightarrow> u32 \<Rightarrow> byte \<Rightarrow> (zkvm_error, memory_map) outcome" where
  "write_byte m addr val =
     (let offset = page_offset addr in
      rbind (ensure_page m addr) (\<lambda>(m', p).
      rbind (set_idx (pg_data p) offset val) (\<lambda>d.
      rbind (set_initialized (p\<lparr>pg_data := d\<rparr>) offset) (\<lambda>p'.
      Inr (put_page m' addr p')))))"

text \<open>The loop of \<open>zero_init_range\<close>: it ends since \<open>base + 4096\<close> is beyond \<open>addr\<close>.\<close>

definition zeroed_init :: "page \<Rightarrow> page" where
  "zeroed_init p
      = p\<lparr>pg_data := map (\<lambda>_. 0) (pg_data p), pg_init_mask := map (\<lambda>_. 0xFF) (pg_init_mask p)\<rparr>"

lemma u32_bound: "unat (a :: u32) < 4294967296"
  using unsigned_less[where ?'a = nat and w = a] by simp

lemma unat_page_base: "unat (page_base a) = unat a div 4096 * 4096"
proof -
  have "page_base a = a AND NOT (mask 12)"
    by (simp add: page_base_def PAGE_SIZE_def mask_eq_exp_minus_1)
  also have "\<dots> = push_bit 12 (drop_bit 12 a)" by (rule bit_word_eqI) (auto simp: bit_simps)
  also have "\<dots> = a - take_bit 12 a" by (metis add_diff_cancel_right' bits_ident)
  finally have "page_base a = a - take_bit 12 a" .
  moreover have t: "unat (take_bit 12 a) = unat a mod 4096"
    using unsigned_take_bit_eq[of 12 a, where ?'a = nat] by (simp add: take_bit_eq_mod[of 12 "unat a"])
  moreover from t have "take_bit 12 a \<le> a" by (simp add: word_le_nat_alt)
  ultimately have "unat (page_base a) = unat a - unat a mod 4096" by (simp add: unat_sub)
  then show ?thesis by (simp add: minus_mod_eq_div_mult)
qed

lemma page_offset_mod: "page_offset a = unat a mod 4096"
  using take_bit_eq_mask[of 12 "unat a"]
  by (simp add: page_offset_def PAGE_SIZE_def take_bit_eq_mod mask_eq_exp_minus_1)

lemma page_base_next:
  assumes "checked_add_u32 (page_base addr) (of_nat PAGE_SIZE) = Some next"
  shows "unat next = unat (page_base addr) + 4096" and "unat addr < unat next"
proof -
  have s: "of_nat PAGE_SIZE = (4096 :: u32)" by (simp add: PAGE_SIZE_def)
  show 1: "unat next = unat (page_base addr) + 4096"
    using assms unfolding s by (auto simp: checked_add_u32_def unat_word_ariths split: if_splits)
  show "unat addr < unat next" unfolding 1 unat_page_base
    using div_mod_decomp[of "unat addr" 4096] mod_less_divisor[of 4096 "unat addr"] by linarith
qed

function zero_pages :: "memory_map \<Rightarrow> u32 \<Rightarrow> u32 \<Rightarrow> (zkvm_error, memory_map) outcome" where
  "zero_pages m addr end_addr =
     (if addr < end_addr then
        (let base = page_base addr in
         rbind (ensure_page m addr) (\<lambda>(m', p).
         (let m'' = put_page m' addr (zeroed_init p) in
          case checked_add_u32 base (of_nat PAGE_SIZE) of
            None \<Rightarrow> Inl (Fail (Other PageAddrOverflow))
          | Some next \<Rightarrow> zero_pages m'' next end_addr)))
      else Inr m)"
  by pat_completeness auto
termination
  by (relation
      "measure (\<lambda>(m, addr, e). 2 ^ 32 - unat addr)") (auto dest!: page_base_next(2) intro!:
      diff_less_mono2 order.strict_trans2[OF _ order_less_imp_le[OF u32_bound]])

definition zero_init_range :: "memory_map \<Rightarrow> u32 \<Rightarrow> u32 \<Rightarrow> (zkvm_error, memory_map) outcome" where
  "zero_init_range m start len =
     rbind (ok_or (Other ZeroInitOverflow) (checked_add_u32 start len)) (\<lambda>end_addr.
     zero_pages m start end_addr)"

text \<open>The accesses of two and four bytes, in little-endian order, without the alignment check.\<close>

definition next_addr :: "u32 \<Rightarrow> u32 \<Rightarrow> (zkvm_error, u32) outcome" where
  "next_addr addr k = ok_or OutOfMemory (checked_add_u32 addr k)"

definition read_halfword_raw :: "memory_map \<Rightarrow> u32 \<Rightarrow> (zkvm_error, 16 word) outcome" where
  "read_halfword_raw m addr =
     rbind (read_byte m addr) (\<lambda>b0.
     rbind (rbind (next_addr addr 1) (read_byte m)) (\<lambda>b1.
     Inr (le_value [b0, b1])))"

definition write_halfword_raw :: "memory_map \<Rightarrow> u32 \<Rightarrow> 16 word \<Rightarrow> (zkvm_error, memory_map) outcome" where
  "write_halfword_raw m addr val =
     (let bytes = le_bytes 2 val in
      rbind (write_byte m addr (bytes ! 0)) (\<lambda>m1.
      rbind (next_addr addr 1) (\<lambda>next.
      write_byte m1 next (bytes ! 1))))"

definition read_word_raw :: "memory_map \<Rightarrow> u32 \<Rightarrow> (zkvm_error, u32) outcome" where
  "read_word_raw m addr =
     rbind (read_byte m addr) (\<lambda>b0.
     rbind (rbind (next_addr addr 1) (read_byte m)) (\<lambda>b1.
     rbind (rbind (next_addr addr 2) (read_byte m)) (\<lambda>b2.
     rbind (rbind (next_addr addr 3) (read_byte m)) (\<lambda>b3.
     Inr (le_value [b0, b1, b2, b3])))))"

definition write_word_raw :: "memory_map \<Rightarrow> u32 \<Rightarrow> u32 \<Rightarrow> (zkvm_error, memory_map) outcome" where
  "write_word_raw m addr val =
     (let bytes = le_bytes 4 val in
      rbind (write_byte m addr (bytes ! 0)) (\<lambda>m0.
      rbind (foldM (\<lambda>(m', prev) b.
               rbind (next_addr prev 1) (\<lambda>next.
               rbind (write_byte m' next b) (\<lambda>m''. Inr (m'', next)))) (m0, addr) (drop 1 bytes))
                   (\<lambda>(m3, _).
      Inr m3)))"

section \<open>The machine state\<close>

record vm_state =
  vm_pc :: u32
  vm_registers :: "u32 list"
  vm_memory :: memory_map

definition new_vm :: vm_state where
  "new_vm = \<lparr>vm_pc = 0, vm_registers = replicate 32 0, vm_memory = new_memory\<rparr>"

definition read_register :: "vm_state \<Rightarrow> byte \<Rightarrow> (zkvm_error, u32) outcome" where
  "read_register s i = (if i = 0 then Inr 0 else idx (vm_registers s) (unat i))"

definition write_register :: "vm_state \<Rightarrow> byte \<Rightarrow> u32 \<Rightarrow> (zkvm_error, vm_state) outcome" where
  "write_register s i val =
     (if i \<noteq> 0 then
        rbind (set_idx (vm_registers s) (unat i) val) (\<lambda>rs. Inr (s\<lparr>vm_registers := rs\<rparr>))
      else Inr s)"

definition with_memory ::
    "vm_state \<Rightarrow> (zkvm_error, memory_map) outcome \<Rightarrow> (zkvm_error, vm_state) outcome" where
  "with_memory s r = rbind r (\<lambda>m. Inr (s\<lparr>vm_memory := m\<rparr>))"

definition read_memory_byte :: "vm_state \<Rightarrow> u32 \<Rightarrow> (zkvm_error, byte) outcome" where
  "read_memory_byte s addr = read_byte (vm_memory s) addr"

definition write_memory_byte :: "vm_state \<Rightarrow> u32 \<Rightarrow> byte \<Rightarrow> (zkvm_error, vm_state) outcome" where
  "write_memory_byte s addr val = with_memory s (write_byte (vm_memory s) addr val)"

definition vm_zero_init_range :: "vm_state \<Rightarrow> u32 \<Rightarrow> u32 \<Rightarrow> (zkvm_error, vm_state) outcome" where
  "vm_zero_init_range s start len = with_memory s (zero_init_range (vm_memory s) start len)"

definition read_memory_halfword :: "vm_state \<Rightarrow> u32 \<Rightarrow> (zkvm_error, 16 word) outcome" where
  "read_memory_halfword s addr =
     (if addr mod 2 \<noteq> 0 then Inl (Fail (UnalignedAccess addr)) else read_halfword_raw (vm_memory s)
         addr)"

definition write_memory_halfword :: "vm_state \<Rightarrow> u32 \<Rightarrow> 16 word \<Rightarrow> (zkvm_error, vm_state) outcome" where
  "write_memory_halfword s addr val =
     (if addr mod 2 \<noteq> 0 then Inl (Fail (UnalignedAccess addr))
      else with_memory s (write_halfword_raw (vm_memory s) addr val))"

definition read_memory_word :: "vm_state \<Rightarrow> u32 \<Rightarrow> (zkvm_error, u32) outcome" where
  "read_memory_word s addr =
     (if addr mod 4 \<noteq> 0 then Inl (Fail (UnalignedAccess addr)) else read_word_raw (vm_memory s) addr)"

definition write_memory_word :: "vm_state \<Rightarrow> u32 \<Rightarrow> u32 \<Rightarrow> (zkvm_error, vm_state) outcome" where
  "write_memory_word s addr val =
     (if addr mod 4 \<noteq> 0 then Inl (Fail (UnalignedAccess addr))
      else with_memory s (write_word_raw (vm_memory s) addr val))"

definition fetch_word :: "vm_state \<Rightarrow> (zkvm_error, u32) outcome" where
  "fetch_word s = read_memory_word s (vm_pc s)"

section \<open>Loading an ELF image\<close>

record loaded_segment =
  seg_vaddr :: u32
  seg_memsz :: u32
  seg_data :: "byte list"
  seg_flags :: u32

record elf_metadata =
  elf_entry :: u32
  elf_segments :: "loaded_segment list"
  elf_text :: "loaded_segment option"

definition load_segment :: "vm_state \<Rightarrow> loaded_segment \<Rightarrow> (zkvm_error, vm_state) outcome" where
  "load_segment s segment =
     rbind (foldM (\<lambda>(s, addr) b.
              rbind (write_memory_byte s addr b) (\<lambda>s'.
              rbind (ok_or (Other SegmentOverflow) (checked_add_u32 addr 1)) (\<lambda>addr'.
              Inr (s', addr')))) (s, seg_vaddr segment) (seg_data segment)) (\<lambda>(s', _).
     Inr s')"

definition load_elf :: "vm_state \<Rightarrow> elf_metadata \<Rightarrow> (zkvm_error, vm_state) outcome" where
  "load_elf s metadata =
     rbind (foldM load_segment s (elf_segments metadata)) (\<lambda>s'. Inr (s'\<lparr>vm_pc := elf_entry metadata\<rparr>))"

section \<open>The invariant and the content of the memory\<close>

definition page_ok :: "page \<Rightarrow> bool" where
  "page_ok p \<longleftrightarrow> length (pg_data p) = 4096 \<and> length (pg_init_mask p) = 512"

definition mem_ok :: "memory_map \<Rightarrow> bool" where
  "mem_ok m \<longleftrightarrow>
     finite (dom (mm_pages m)) \<and> (\<forall>b p. mm_pages m b = Some p \<longrightarrow> page_ok p)
     \<and> mm_total m = 4096 * card (dom (mm_pages m)) \<and> mm_total m \<le> MAX_ZKVM_MEMORY"

text \<open>The initialised bytes, as a partial map from addresses.\<close>

definition cell :: "page \<Rightarrow> nat \<Rightarrow> byte option" where
  "cell p off
      = (if bit (pg_init_mask p ! (off div 8)) (off mod 8) then Some (pg_data p ! off) else None)"

definition content :: "memory_map \<Rightarrow> u32 \<rightharpoonup> byte" where
  "content m a = (case mm_pages m (page_base a) of None \<Rightarrow> None | Some p \<Rightarrow> cell p (page_offset a))"

text \<open>Whether the page of an address is or can be allocated.\<close>

definition can_allocate :: "memory_map \<Rightarrow> u32 \<Rightarrow> bool" where
  "can_allocate m a \<longleftrightarrow> mm_pages m (page_base a) \<noteq> None \<or> mm_total m + 4096 \<le> MAX_ZKVM_MEMORY"

lemma page_addr_eq: "page_base a = page_base b \<Longrightarrow> page_offset a = page_offset b \<Longrightarrow> a = b"
proof -
  assume b: "page_base a = page_base b" and off: "page_offset a = page_offset b"
  have "unat a div 4096 * 4096 = unat b div 4096 * 4096"
    using arg_cong[OF b, of unat] by (simp only: unat_page_base)
  with off have "unat a = unat b"
    unfolding page_offset_mod by (metis div_mult_mod_eq)
  then show "a = b" by (simp add: word_unat_eq_iff)
qed

lemma page_offset_less: "page_offset a < 4096"
  by (simp add: page_offset_mod)

lemma is_initialized_eq:
  assumes "page_ok p" and "off < 4096"
  shows "is_initialized p off = Inr (bit (pg_init_mask p ! (off div 8)) (off mod 8))"
proof -
  have "off div 8 < 512" using assms(2) by (simp add: less_mult_imp_div_less)
  moreover have "drop_bit k (x :: byte) AND 1 = 1 \<longleftrightarrow> bit x k" for k x
    by (simp add: and_one_eq bit_iff_odd_drop_bit odd_iff_mod_2_eq_one)
  ultimately show ?thesis using assms(1) by (simp add: is_initialized_def idx_def page_ok_def)
qed

lemma read_byte_content:
  assumes "mem_ok m"
  shows "read_byte m a = (case content m a of Some b \<Rightarrow> Inr b | None \<Rightarrow> Inl (Fail (UninitializedRead a)))"
proof (cases "mm_pages m (page_base a)")
  case None
  then show ?thesis by (simp add: read_byte_def get_page_def content_def)
next
  case (Some p)
  with assms have "page_ok p" by (simp add: mem_ok_def)
  with Some show ?thesis
    by (simp add: read_byte_def get_page_def content_def cell_def is_initialized_eq page_offset_less
        idx_def page_ok_def)
qed

lemma page_ok_zeroed: "page_ok zeroed"
  by (simp add: page_ok_def zeroed_def PAGE_SIZE_def)

lemma cell_zeroed: "off < 4096 \<Longrightarrow> cell zeroed off = None"
proof -
  assume "off < 4096"
  then have "off div 8 < 512" by (simp add: less_mult_imp_div_less)
  then show ?thesis by (simp add: cell_def zeroed_def PAGE_SIZE_def)
qed

lemma ensure_page_fails:
  assumes "mem_ok m" and "\<not> can_allocate m a"
  shows "ensure_page m a = Inl (Fail OutOfMemory)"
  using assms
  by (auto simp: ensure_page_def Let_def can_allocate_def mem_ok_def MAX_ZKVM_MEMORY_def PAGE_SIZE_def
        checked_add_u64_def u64_limit_def ok_or_def)

text \<open>Allocation: the page exists afterwards, and the content has not changed.\<close>

lemma ensure_page_succeeds:
  assumes "mem_ok m" and "can_allocate m a"
  shows "\<exists>m' p. ensure_page m a = Inr (m', p) \<and> mem_ok m' \<and> mm_pages m' = (mm_pages m)(page_base a \<mapsto> p)
    \<and> content m' = content m"
proof (cases "mm_pages m (page_base a)")
  case (Some p)
  then have "ensure_page m a = Inr (m, p)" by (simp add: ensure_page_def)
  moreover have "mm_pages m = (mm_pages m)(page_base a \<mapsto> p)" using Some by auto
  ultimately show ?thesis using assms(1) by blast
next
  case None
  let ?m = "m\<lparr>mm_pages := (mm_pages m)(page_base a \<mapsto> zeroed), mm_total := mm_total m + 4096\<rparr>"
  have "mm_total m + 4096 \<le> MAX_ZKVM_MEMORY" using assms(2) None by (simp add: can_allocate_def)
  then have "ensure_page m a = Inr (?m, zeroed)"
    using None by (simp add: ensure_page_def checked_add_u64_def u64_limit_def ok_or_def PAGE_SIZE_def
        MAX_ZKVM_MEMORY_def)
  moreover have "mem_ok ?m"
  proof -
    have "page_base a \<notin> dom (mm_pages m)" using None by auto
    then show ?thesis using assms(1) \<open>mm_total m + 4096 \<le> MAX_ZKVM_MEMORY\<close> page_ok_zeroed
      by (simp add: mem_ok_def)
  qed
  moreover have "content ?m = content m"
    using None by (auto simp: fun_eq_iff content_def cell_zeroed page_offset_less)
  ultimately show ?thesis by auto
qed

lemma mem_ok_put_page:
  assumes "mem_ok m" and "page_base a \<in> dom (mm_pages m)" and "page_ok p"
  shows "mem_ok (put_page m a p)"
  using assms by (auto simp: mem_ok_def put_page_def insert_absorb)

lemma content_put_page:
  "content (put_page m a p) b = (if page_base b
      = page_base a then cell p (page_offset b) else content m b)"
  by (simp add: content_def put_page_def)

lemma set_initialized_eq:
  assumes "page_ok p" and "off < 4096"
  shows "\<exists>p'. set_initialized p off = Inr p' \<and> page_ok p' \<and> pg_data p' = pg_data p
    \<and> (\<forall>k < 4096. cell p' k = (if k = off then Some (pg_data p ! off) else cell p k))"
proof -
  let ?x = "pg_init_mask p ! (off div 8) OR push_bit (off mod 8) 1"
  let ?p = "p\<lparr>pg_init_mask := (pg_init_mask p)[off div 8 := ?x]\<rparr>"
  have i: "off div 8 < length (pg_init_mask p)"
    using assms by (simp add: page_ok_def less_mult_imp_div_less)
  then have "set_initialized p off = Inr ?p"
    by (simp add: set_initialized_def idx_def set_idx_def)
  moreover have "page_ok ?p" using assms(1) by (simp add: page_ok_def)
  moreover have "cell ?p k = (if k = off then Some (pg_data p ! off) else cell p k)" for k
  proof (cases "k div 8 = off div 8")
    case True
    moreover from True have "k mod 8 = off mod 8 \<longleftrightarrow> k = off" by (metis div_mult_mod_eq)
    moreover have "bit (push_bit (off mod 8) (1 :: byte)) (k mod 8) \<longleftrightarrow> k mod 8 = off mod 8"
      by (auto simp: bit_exp_iff)
    ultimately show ?thesis using i by (auto simp: cell_def bit_or_iff)
  next
    case False
    then show ?thesis using i by (auto simp: cell_def)
  qed
  ultimately show ?thesis by (metis (no_types, lifting) page.select_convs(1) page.surjective
      page.update_convs(2))
qed

text \<open>A write succeeds exactly when its page can be allocated, and sets one byte.\<close>

lemma write_byte_fails:
  "mem_ok m \<Longrightarrow> \<not> can_allocate m a \<Longrightarrow> write_byte m a v = Inl (Fail OutOfMemory)"
  by (simp add: write_byte_def ensure_page_fails)

lemma write_byte_succeeds:
  assumes "mem_ok m" and "can_allocate m a"
  shows "\<exists>m'. write_byte m a v = Inr m' \<and> mem_ok m' \<and> content m' = (content m)(a \<mapsto> v)
    \<and> dom (mm_pages m') = insert (page_base a) (dom (mm_pages m))"
proof -
  from ensure_page_succeeds[OF assms] obtain m1 p where m1: "ensure_page m a = Inr (m1, p)" "mem_ok m1"
      "mm_pages m1 = (mm_pages m)(page_base a \<mapsto> p)" "content m1 = content m" by blast
  then have p: "page_ok p" unfolding mem_ok_def by (metis fun_upd_same)
  let ?off = "page_offset a"
  have len: "?off < length (pg_data p)" using p page_offset_less[of a] by (simp add: page_ok_def)
  let ?q = "p\<lparr>pg_data := (pg_data p)[?off := v]\<rparr>"
  have "page_ok ?q" using p by (simp add: page_ok_def)
  from set_initialized_eq[OF this page_offset_less] obtain p' where p':
      "set_initialized ?q ?off = Inr p'"
      "page_ok p'"
          "\<And>k. k < 4096 \<Longrightarrow> cell p' k = (if k = ?off then Some (pg_data ?q ! ?off) else cell ?q k)"
    by blast
  have "write_byte m a v = Inr (put_page m1 a p')"
    using m1(1) p'(1) len by (simp add: write_byte_def set_idx_def)
  moreover have "mem_ok (put_page m1 a p')"
    using m1(2,3) p'(2) by (intro mem_ok_put_page) auto
  moreover have "content (put_page m1 a p') b = ((content m)(a \<mapsto> v)) b" for b
  proof (cases "page_base b = page_base a")
    case True
    then have "b = a \<longleftrightarrow> page_offset b = ?off" using page_addr_eq by auto
    moreover have "content m b = cell p (page_offset b)"
      unfolding m1(4)[symmetric] content_def using True m1(3) by simp
    moreover have "cell ?q k = cell p k" if "k \<noteq> ?off" for k using that by (simp add: cell_def)
    ultimately show ?thesis using True len p'(3)[OF page_offset_less, of b] by (auto simp:
        content_put_page)
  next
    case False
    then show ?thesis by (auto simp: content_put_page m1(4))
  qed
  moreover have "dom (mm_pages (put_page m1 a p')) = insert (page_base a) (dom (mm_pages m))"
    using m1(3) by (auto simp: put_page_def)
  ultimately show ?thesis by (auto simp: fun_eq_iff)
qed

section \<open>The interface of a byte memory\<close>

text \<open>
  What the accesses of several bytes, the loader and the system calls rely on: the last byte stored
  at an address is the byte loaded from it, and the other addresses do not change.
\<close>

locale byte_memory =
  fixes load :: "'m \<Rightarrow> u32 \<Rightarrow> (zkvm_error, byte) outcome"
    and store :: "'m \<Rightarrow> u32 \<Rightarrow> byte \<Rightarrow> (zkvm_error, 'm) outcome"
    and ok :: "'m \<Rightarrow> bool"
  assumes store_ok: "ok m \<Longrightarrow> store m a v = Inr m' \<Longrightarrow> ok m'"
    and load_store: "ok m \<Longrightarrow> store m a v = Inr m' \<Longrightarrow> load m' b = (if b = a then Inr v else load m b)"
begin

text \<open>A sequence of stores, in order.\<close>

definition stores :: "'m \<Rightarrow> (u32 \<times> byte) list \<Rightarrow> (zkvm_error, 'm) outcome" where
  "stores m avs = foldM (\<lambda>m (a, v). store m a v) m avs"

lemma stores_ok: "ok m \<Longrightarrow> stores m avs = Inr m' \<Longrightarrow> ok m'"
  unfolding stores_def by (erule foldM_invariant[where P = ok]) (auto intro: store_ok)

lemma load_stores:
  assumes "ok m" and "stores m avs = Inr m'"
  shows "load m' b = (case map_of (rev avs) b of Some v \<Rightarrow> Inr v | None \<Rightarrow> load m b)"
proof -
  let ?I = "\<lambda>done m'. ok m' \<and> load m' b
      = (case map_of (rev done) b of Some v \<Rightarrow> Inr v | None \<Rightarrow> load m b)"
  have "?I avs m'"
  proof (rule foldM_prefix_invariant[OF assms(2)[unfolded stores_def], of ?I])
    show "?I [] m" using assms(1) by simp
  next
    fix ys x zs s s'
    assume I: "?I ys s" and st: "(case x of (a, v) \<Rightarrow> store s a v) = Inr s'"
    obtain a v where x: "x = (a, v)" by (cases x)
    from st x have "store s a v = Inr s'" by simp
    with I x show "?I (ys @ [x]) s'" using store_ok[of s a v s'] load_store[of s a v s' b] by simp
  qed
  then show ?thesis by blast
qed

text \<open>Reading back consecutive bytes.\<close>

lemma load_stores_nth:
  assumes "ok m" and "stores m (zip as vs) = Inr m'" and "distinct as" and
      "length as = length vs" and "i < length as"
  shows "load m' (as ! i) = Inr (vs ! i)"
proof -
  have "map_of (rev (zip as vs)) (as ! i) = map_of (zip as vs) (as ! i)"
    using assms(3,4) map_of_inject_set[of "rev (zip as vs)"
        "zip as vs"] by (simp add: rev_map[symmetric])
  then show ?thesis using assms load_stores[OF assms(1,2), of "as ! i"] by (simp add: map_of_zip_nth)
qed

end

lemma write_byte_Inr:
  assumes "mem_ok m" and "write_byte m a v = Inr m'"
  shows "mem_ok m' \<and> content m' = (content m)(a \<mapsto> v) \<and> dom (mm_pages m')
      = insert (page_base a) (dom (mm_pages m))"
  using assms write_byte_fails[of m a v] write_byte_succeeds[of m a v] by (cases
      "can_allocate m a") auto

interpretation mem: byte_memory read_byte write_byte mem_ok
proof
  show "mem_ok m'" if "mem_ok m" "write_byte m a v = Inr m'" for m a v m'
    using write_byte_Inr[OF that] by blast
  show "read_byte m' b = (if b = a then Inr v else read_byte m b)"
    if "mem_ok m" "write_byte m a v = Inr m'" for m a v m' b
    using write_byte_Inr[OF that] that(1) by (simp add: read_byte_content)
qed

section \<open>Accesses of several bytes\<close>

lemma checked_add_u32_small: "unat a + unat k < 2 ^ 32 \<Longrightarrow> checked_add_u32 a k = Some (a + k)"
  by (simp add: checked_add_u32_def)

lemma next_addr_small: "unat a + unat k < 2 ^ 32 \<Longrightarrow> next_addr a k = Inr (a + k)"
  by (simp add: next_addr_def checked_add_u32_small ok_or_def)

lemma unat_add_small: "unat (a :: u32) + unat k < 2 ^ 32 \<Longrightarrow> unat (a + k) = unat a + unat k"
  by (simp add: unat_word_ariths)

definition word_addrs :: "u32 \<Rightarrow> u32 list" where
  "word_addrs a = [a, a + 1, a + 2, a + 3]"

definition half_addrs :: "u32 \<Rightarrow> u32 list" where
  "half_addrs a = [a, a + 1]"

lemma aligned_word_room:
  assumes "a mod 4 = (0 :: u32)"
  shows "unat a + 3 < 2 ^ 32"
proof -
  have "unat a mod 4 = 0" using arg_cong[OF assms, of unat] by (simp add: unat_mod)
  then obtain q where "unat a = 4 * q" by (metis mod_0_imp_dvd dvdE)
  then show ?thesis using u32_bound[of a] by simp
qed

lemma aligned_half_room:
  assumes "a mod 2 = (0 :: u32)"
  shows "unat a + 1 < 2 ^ 32"
proof -
  have "unat a mod 2 = 0" using arg_cong[OF assms, of unat] by (simp add: unat_mod)
  then obtain q where "unat a = 2 * q" by (metis mod_0_imp_dvd dvdE)
  then show ?thesis using u32_bound[of a] by simp
qed

lemma write_word_stores:
  assumes "unat a + 3 < 2 ^ 32"
  shows "write_word_raw m a v = mem.stores m (zip (word_addrs a) (le_bytes 4 v))"
proof -
  have "next_addr a 1 = Inr (a + 1)" "next_addr (a + 1) 1 = Inr (a + 2)"
      "next_addr (a + 2) 1 = Inr (a + 3)"
    using assms next_addr_small[of a 1] next_addr_small[of "a + 1" 1] next_addr_small[of "a + 2" 1]
      unat_add_small[of a 1] unat_add_small[of a 2] by (simp_all add: add.assoc)
  then show ?thesis
    unfolding write_word_raw_def mem.stores_def word_addrs_def
    by (auto simp: numeral_eq_Suc rbind_def split: sum.splits)
qed

lemma write_half_stores:
  assumes "unat a + 1 < 2 ^ 32"
  shows "write_halfword_raw m a v = mem.stores m (zip (half_addrs a) (le_bytes 2 v))"
proof -
  have "next_addr a 1 = Inr (a + 1)" using assms next_addr_small[of a 1] by simp
  then show ?thesis
    unfolding write_halfword_raw_def mem.stores_def half_addrs_def
    by (auto simp: numeral_eq_Suc rbind_def split: sum.splits)
qed

lemma distinct_addrs: "distinct (word_addrs a)" "distinct (half_addrs a)"
  by (simp_all add: word_addrs_def half_addrs_def)

lemma read_word_loads:
  assumes "unat a + 3 < 2 ^ 32" and
      "\<And>i. i < 4 \<Longrightarrow> read_byte m (word_addrs a ! i) = Inr (le_bytes 4 v ! i)"
  shows "read_word_raw m a = Inr v"
proof -
  have "next_addr a 1 = Inr (a + 1)" "next_addr a 2 = Inr (a + 2)" "next_addr a 3 = Inr (a + 3)"
    using assms(1) next_addr_small[of a 1] next_addr_small[of a 2] next_addr_small[of a 3] by simp_all
  moreover have "le_value (le_bytes 4 v) = v" by (rule le_round_trip) simp
  ultimately show ?thesis
    using assms(2)[of 0] assms(2)[of 1] assms(2)[of 2] assms(2)[of 3]
    by (simp add: read_word_raw_def word_addrs_def numeral_eq_Suc)
qed

lemma read_half_loads:
  assumes "unat a + 1 < 2 ^ 32" and
      "\<And>i. i < 2 \<Longrightarrow> read_byte m (half_addrs a ! i) = Inr (le_bytes 2 v ! i)"
  shows "read_halfword_raw m a = Inr v"
proof -
  have "next_addr a 1 = Inr (a + 1)" using assms(1) next_addr_small[of a 1] by simp
  moreover have "le_value (le_bytes 2 v) = v" by (rule le_round_trip) simp
  ultimately show ?thesis using assms(2)[of 0] assms(2)[of 1]
    by (simp add: read_halfword_raw_def half_addrs_def numeral_eq_Suc)
qed

text \<open>The addresses of an aligned access lie in one page.\<close>

lemma aligned_same_page:
  assumes "unat a mod d = 0" and "d dvd 4096" and "unat k < d"
  shows "page_base (a + k) = page_base (a :: u32)"
proof -
  obtain q where q: "unat a = d * q" using assms(1) by (metis mod_0_imp_dvd dvdE)
  obtain e where e: "4096 = d * e" using assms(2) by (rule dvdE)
  have "0 < d" "0 < e" using e by (auto intro: gr0I)
  have "unat a + unat k < 2 ^ 32"
  proof -
    have "(2 :: nat) ^ 32 = d * (e * 1048576)" using e by simp
    moreover have "unat a < 2 ^ 32" using u32_bound[of a] by simp
    ultimately have "d * q < d * (e * 1048576)" using q by metis
    then have "q + 1 \<le> e * 1048576" by simp
    then have "d * (q + 1) \<le> 2 ^ 32" using e by (metis \<open>2 ^ 32 = d * (e * 1048576)\<close> mult_le_mono2)
    then show ?thesis using q assms(3) by (simp add: algebra_simps)
  qed
  then have u: "unat (a + k) = d * q + unat k" using q by (simp add: unat_add_small)
  have "(d * q + unat k) div 4096 = (d * q + unat k) div d div e" by (simp add: e div_mult2_eq)
  also have "\<dots> = d * q div d div e" using assms(3) \<open>0 < d\<close> by simp
  also have "\<dots> = d * q div 4096" by (simp add: e div_mult2_eq)
  finally have "unat (page_base (a + k)) = unat (page_base a)" by (simp add: unat_page_base u q)
  then show ?thesis by (simp add: word_unat_eq_iff)
qed

lemma stores_succeed:
  assumes "mem_ok m" and "can_allocate m a" and "\<And>x. x \<in> set avs \<Longrightarrow> page_base (fst x) = page_base a"
  shows "\<exists>m'. mem.stores m avs = Inr m'"
  using assms
proof (induction avs arbitrary: m)
  case Nil
  show ?case by (simp add: mem.stores_def)
next
  case (Cons x avs)
  obtain b v where x: "x = (b, v)" by (cases x)
  have same: "page_base b = page_base a" using Cons.prems(3)[of x] x by simp
  then have "can_allocate m b" using Cons.prems(2) by (simp add: can_allocate_def)
  from write_byte_succeeds[OF Cons.prems(1) this] obtain m1 where m1: "write_byte m b v = Inr m1"
      "mem_ok m1"
      "dom (mm_pages m1) = insert (page_base b) (dom (mm_pages m))" by blast
  from m1(3) same have "can_allocate m1 a" by (auto simp: can_allocate_def)
  from Cons.IH[OF m1(2) this] Cons.prems(3) obtain m' where "mem.stores m1 avs = Inr m'" by auto
  with m1(1) x show ?case by (auto simp: mem.stores_def)
qed

lemma stores_fail:
  assumes "mem_ok m" and "\<not> can_allocate m a" and "avs \<noteq> []" and "fst (hd avs) = a"
  shows "mem.stores m avs = Inl (Fail OutOfMemory)"
  using assms by (cases avs) (auto simp: mem.stores_def write_byte_fails)

lemma aligned_mod: "a mod 4 = (0 :: u32) \<Longrightarrow> unat a mod 4 = 0" "a mod 2 = (0 :: u32) \<Longrightarrow> unat a mod 2 = 0"
  by (drule arg_cong[of _ _ unat], simp add: unat_mod)+

lemma write_memory_word_cases:
  assumes "mem_ok (vm_memory s)"
  shows "write_memory_word s a v =
    (if a mod 4 \<noteq> 0 then Inl (Fail (UnalignedAccess a))
     else if \<not> can_allocate (vm_memory s) a then Inl (Fail OutOfMemory)
     else Inr (s\<lparr>vm_memory := projr (mem.stores (vm_memory s) (zip (word_addrs a) (le_bytes 4 v)))\<rparr>))"
proof (cases "a mod 4 = 0 \<and> can_allocate (vm_memory s) a")
  case True
  then have "page_base x = page_base a" if "x \<in> set (word_addrs a)" for x
    using that aligned_same_page[of a 4] by (auto simp: word_addrs_def dest!: aligned_mod)
  then have "\<exists>m'. mem.stores (vm_memory s) (zip (word_addrs a) (le_bytes 4 v)) = Inr m'"
    using True assms by (intro stores_succeed[of _ a]) (auto dest: set_zip_leftD)
  then show ?thesis
    using True write_word_stores[OF aligned_word_room, of a "vm_memory s" v]
    by (auto simp: write_memory_word_def with_memory_def)
next
  case False
  moreover have "zip (word_addrs a) (le_bytes 4 v) \<noteq> []"
      "fst (hd (zip (word_addrs a) (le_bytes 4 v))) = a"
    by (simp_all add: word_addrs_def numeral_eq_Suc)
  ultimately show ?thesis
    using stores_fail[OF assms, of a] write_word_stores[OF aligned_word_room, of a "vm_memory s" v]
    by (auto simp: write_memory_word_def with_memory_def)
qed

lemma new_memory_ok: "mem_ok new_memory"
  by (simp add: mem_ok_def new_memory_def)

lemma store_word_effect:
  assumes "mem_ok (vm_memory s)" and "write_memory_word s a v = Inr s'"
  shows "read_memory_word s' a = Inr v
    \<and> (\<forall>b. b \<notin> set (word_addrs a) \<longrightarrow> read_memory_byte s' b = read_memory_byte s b)
    \<and> mem_ok (vm_memory s') \<and> vm_registers s' = vm_registers s \<and> vm_pc s' = vm_pc s"
proof -
  from assms(2) have al: "a mod 4 = 0" by (auto simp: write_memory_word_def split: if_splits)
  note room = aligned_word_room[OF al]
  from assms(2) al room obtain m' where m':
      "mem.stores (vm_memory s) (zip (word_addrs a) (le_bytes 4 v)) = Inr m'"
      "s' = s\<lparr>vm_memory := m'\<rparr>"
    by (auto simp: write_memory_word_def write_word_stores with_memory_def outcome_simps)
  have "length (word_addrs a) = 4" by (simp add: word_addrs_def)
  then have "read_word_raw m' a = Inr v"
    using mem.load_stores_nth[OF assms(1) m'(1) distinct_addrs(1)] by (intro read_word_loads room) simp
  moreover have "map_of (rev (zip (word_addrs a) (le_bytes 4 v))) b = None" if
      "b \<notin> set (word_addrs a)" for b
    using that by (auto simp: map_of_eq_None_iff dest: set_zip_leftD)
  ultimately show ?thesis
    using al m'(2) mem.load_stores[OF assms(1) m'(1)] mem.stores_ok[OF assms(1) m'(1)]
    by (simp add: read_memory_word_def read_memory_byte_def)
qed

text \<open>
  A store word that succeeds is read back by a load word, keeps the other bytes as they were, the
  initialised and the uninitialised ones, and keeps the invariant of the memory.
\<close>

lemma store_word_then_load:
  assumes "mem_ok (vm_memory s)" and "write_memory_word s a v = Inr s'"
  shows "read_memory_word s' a = Inr v
    \<and> (\<forall>b. b \<notin> set (word_addrs a) \<longrightarrow> read_memory_byte s' b = read_memory_byte s b)
    \<and> mem_ok (vm_memory s') \<and> vm_registers s' = vm_registers s \<and> vm_pc s' = vm_pc s"
  by (rule store_word_effect[OF assms])

text \<open>
  The errors of a store word are exactly the misaligned address and, for an aligned address whose
  page is not allocated, the 16 MB limit; an aligned store never fails half way.
\<close>

lemma store_word_errors:
  assumes "mem_ok (vm_memory s)"
  shows "write_memory_word s a v = Inl e \<longleftrightarrow>
    (if a mod 4 \<noteq> 0 then e = Fail (UnalignedAccess a)
     else e = Fail OutOfMemory \<and> mm_pages (vm_memory s) (page_base a) = None
       \<and> MAX_ZKVM_MEMORY < 4096 * (card (dom (mm_pages (vm_memory s))) + 1))"
proof -
  have "mm_total (vm_memory s) = 4096 * card (dom (mm_pages (vm_memory s)))"
    using assms by (simp add: mem_ok_def)
  then show ?thesis unfolding write_memory_word_cases[OF assms] can_allocate_def by auto
qed

section \<open>Zeroing a range\<close>

lemma zeroed_init_ok:
  assumes "page_ok p"
  shows "page_ok (zeroed_init p)" and "off < 4096 \<Longrightarrow> cell (zeroed_init p) off = Some 0"
proof -
  show "page_ok (zeroed_init p)" using assms by (simp add: zeroed_init_def page_ok_def)
  assume off: "off < 4096"
  then have "off div 8 < 512" by (simp add: less_mult_imp_div_less)
  moreover have "bit (0xFF :: byte) (off mod 8)"
  proof -
    have "(0xFF :: byte) = mask 8" by (simp add: mask_eq_exp_minus_1)
    then show ?thesis by (simp only: bit_mask_iff) simp
  qed
  ultimately show "cell (zeroed_init p) off = Some 0"
    using assms off by (simp add: cell_def zeroed_init_def page_ok_def)
qed

lemma page_walk:
  assumes "a < (e :: nat)"
  shows "a div 4096 * 4096 + 4096 < e \<and> a div 4096 * 4096 + 4096 \<le> b \<and> b div 4096 * 4096 < e
      \<or> b div 4096 = a div 4096
    \<longleftrightarrow> a div 4096 * 4096 \<le> b \<and> b div 4096 * 4096 < e"
proof -
  have a: "a div 4096 * 4096 \<le> a" by simp
  have b: "b div 4096 * 4096 \<le> b" "b < b div 4096 * 4096 + 4096"
    using div_mod_decomp[of b 4096] mod_less_divisor[of 4096 b] by linarith+
  consider "b div 4096 = a div 4096" | "b div 4096 + 1 \<le> a div 4096" | "a div 4096 + 1 \<le> b div 4096"
    by linarith
  then show ?thesis
  proof cases
    case 1
    then show ?thesis using a b assms by auto
  next
    case 2
    then have "b div 4096 * 4096 + 4096 \<le> a div 4096 * 4096" by linarith
    then show ?thesis using b 2 by auto
  next
    case 3
    then have "a div 4096 * 4096 + 4096 \<le> b div 4096 * 4096" by linarith
    then show ?thesis using b 3 by auto
  qed
qed

lemma zero_pages_spec:
  assumes "zero_pages m addr e = Inr m'" and "mem_ok m"
  shows "mem_ok m' \<and> content m' b =
    (if addr < e \<and> unat (page_base addr) \<le> unat b
        \<and> unat (page_base b) < unat e then Some 0 else content m b)"
  using assms
proof (induction m addr e rule: zero_pages.induct)
  case (1 m addr e)
  show ?case
  proof (cases "addr < e")
    case False
    with "1.prems" show ?thesis by simp
  next
    case True
    from "1.prems"(1) True obtain m1 p nxt where step: "ensure_page m addr = Inr (m1, p)"
        "checked_add_u32 (page_base addr) (of_nat PAGE_SIZE) = Some nxt"
        "zero_pages (put_page m1 addr (zeroed_init p)) nxt e = Inr m'"
      by (subst (asm) zero_pages.simps) (auto simp: outcome_simps Let_def split: option.splits)
    have "can_allocate m addr" using step(1) ensure_page_fails[OF "1.prems"(2)] by force
    from ensure_page_succeeds[OF "1.prems"(2) this] step(1)
    have m1: "mem_ok m1" "mm_pages m1 = (mm_pages m)(page_base addr \<mapsto> p)"
        "content m1 = content m" by auto
    have p: "page_ok p" using m1(1,2) unfolding mem_ok_def by (metis fun_upd_same)
    let ?m2 = "put_page m1 addr (zeroed_init p)"
    have ok2: "mem_ok ?m2" using m1 zeroed_init_ok(1)[OF p] by (intro mem_ok_put_page) auto
    from "1.IH"[OF True refl step(1) refl refl step(2) step(3) ok2]
    have IH: "mem_ok m'"
        "content m' b = (if nxt < e \<and> unat (page_base nxt) \<le> unat b \<and> unat (page_base b) < unat e
        then Some 0 else content ?m2 b)" by auto
    have c2: "content ?m2 b = (if page_base b = page_base addr then Some 0 else content m b)"
      by (simp add: content_put_page zeroed_init_ok(2)[OF p page_offset_less] m1(3))
    note nx = page_base_next[OF step(2)]
    have e1: "addr < e \<longleftrightarrow> unat addr < unat e"
        "nxt < e \<longleftrightarrow> unat nxt < unat e" by (simp_all add: word_less_nat_alt)
    have e2: "page_base b = page_base addr \<longleftrightarrow> unat b div 4096 = unat addr div 4096"
      by (simp add: word_unat_eq_iff unat_page_base)
    have cond: "(unat nxt < unat e \<and> unat (page_base nxt) \<le> unat b \<and> unat (page_base b) < unat e)
        \<or> unat b div 4096 = unat addr div 4096
      \<longleftrightarrow> unat (page_base addr) \<le> unat b \<and> unat (page_base b) < unat e"
      using page_walk[of "unat addr" "unat e" "unat b"] True nx(1) unfolding e1 unat_page_base
      by (simp add: add.commute)
    show ?thesis using IH c2 True unfolding e1 e2 by (auto simp: cond[symmetric])
  qed
qed

lemma zero_init_range_content:
  assumes "mem_ok m" and "zero_init_range m start len = Inr m'"
  shows "mem_ok m' \<and> read_byte m' b =
    (if len \<noteq> 0 \<and> unat (page_base start) \<le> unat b \<and> unat (page_base b) < unat start + unat len
     then Inr 0 else read_byte m b)"
proof -
  from assms(2) have z: "zero_pages m start (start + len) = Inr m'" and r:
      "unat start + unat len < 2 ^ 32"
    by (auto simp: zero_init_range_def outcome_simps checked_add_u32_def split: if_splits)
  have "start < start + len \<longleftrightarrow> len \<noteq> 0"
    unfolding word_less_nat_alt unat_add_small[OF r] by (simp add: word_unat_eq_iff)
  with zero_pages_spec[OF z assms(1), of b] show ?thesis
    using assms(1) unfolding unat_add_small[OF r] by (auto simp: read_byte_content)
qed

text \<open>
  A successful \<open>zero_init_range\<close> makes every byte of the range read as zero.  It works on whole
  pages: the bytes that share a page with the range are zeroed too, and no other byte changes.
\<close>

lemma zero_init_range_zeroes:
  assumes "mem_ok m" and "zero_init_range m start len = Inr m'"
  shows "mem_ok m' \<and> read_byte m' b =
    (if len \<noteq> 0 \<and> unat (page_base start) \<le> unat b \<and> unat (page_base b) < unat start + unat len
     then Inr 0 else read_byte m b)"
  by (rule zero_init_range_content[OF assms])

section \<open>Loading\<close>

text \<open>The bytes of a segment with their addresses.\<close>

definition segment_cells :: "loaded_segment \<Rightarrow> (u32 \<times> byte) list" where
  "segment_cells segment =
     zip (map (\<lambda>i. seg_vaddr segment + of_nat i) [0..<length (seg_data segment)]) (seg_data segment)"

lemma segment_cells_snoc:
  "zip (map f [0..<length (ys @ [x])]) (ys @ [x])
      = zip (map f [0..<length ys]) ys @ [(f (length ys), x)]"
  by simp

lemma load_segment_stores:
  assumes "load_segment s segment = Inr s'"
  shows "mem.stores (vm_memory s) (segment_cells segment) = Inr (vm_memory s')
    \<and> vm_registers s' = vm_registers s \<and> vm_pc s' = vm_pc s"
proof -
  let ?f = "\<lambda>i. seg_vaddr segment + of_nat i"
  let ?I = "\<lambda>ys (t, a). mem.stores (vm_memory s) (zip (map ?f [0..<length ys]) ys) = Inr (vm_memory t)
      \<and> a = ?f (length ys) \<and> vm_registers t = vm_registers s \<and> vm_pc t = vm_pc s"
  from assms obtain a where run: "foldM (\<lambda>(s, addr) b. rbind (write_memory_byte s addr b) (\<lambda>s'.
      rbind (ok_or (Other SegmentOverflow) (checked_add_u32 addr 1)) (\<lambda>addr'. Inr (s', addr'))))
      (s, seg_vaddr segment) (seg_data segment) = Inr (s', a)"
    by (auto simp: load_segment_def outcome_simps)
  have "?I (seg_data segment) (s', a)"
  proof (rule foldM_prefix_invariant[OF run, of ?I])
    show "?I [] (s, seg_vaddr segment)" by (simp add: mem.stores_def)
  next
    fix ys b zs t t'
    assume I: "?I ys t" and st: "(case t of (s, addr) \<Rightarrow> \<lambda>b. rbind (write_memory_byte s addr b) (\<lambda>s'.
      rbind (ok_or (Other SegmentOverflow) (checked_add_u32 addr 1)) (\<lambda>addr'. Inr (s', addr')))) b
          = Inr t'"
    then show "?I (ys @ [b]) t'"
      unfolding segment_cells_snoc
      by (cases t) (auto simp: outcome_simps write_memory_byte_def with_memory_def checked_add_u32_def
          mem.stores_def foldM_append split: if_splits)
  qed
  then show ?thesis by (simp add: segment_cells_def)
qed

lemma load_elf_stores:
  assumes "load_elf s metadata = Inr s'"
  shows "mem.stores (vm_memory s) (concat (map segment_cells (elf_segments metadata)))
      = Inr (vm_memory s')
    \<and> vm_registers s' = vm_registers s \<and> vm_pc s' = elf_entry metadata"
proof -
  let ?I = "\<lambda>ys t. mem.stores (vm_memory s) (concat (map segment_cells ys)) = Inr (vm_memory t)
      \<and> vm_registers t = vm_registers s"
  from assms obtain t where run: "foldM load_segment s (elf_segments metadata) = Inr t"
      and s': "s' = t\<lparr>vm_pc := elf_entry metadata\<rparr>"
    by (auto simp: load_elf_def outcome_simps)
  have "?I (elf_segments metadata) t"
  proof (rule foldM_prefix_invariant[OF run, of ?I])
    show "?I [] s" by (simp add: mem.stores_def)
  next
    fix ys x zs u u'
    assume "?I ys u" and "load_segment u x = Inr u'"
    then show "?I (ys @ [x]) u'"
      using load_segment_stores[of u x u'] by (simp add: mem.stores_def foldM_append)
  qed
  then show ?thesis using s' by simp
qed

lemma load_elf_content:
  assumes "mem_ok (vm_memory s)" and "load_elf s metadata = Inr s'"
  shows "read_memory_byte s' b =
      (case map_of (rev (concat (map segment_cells (elf_segments metadata)))) b of
         Some v \<Rightarrow> Inr v | None \<Rightarrow> read_memory_byte s b)
    \<and> mem_ok (vm_memory s') \<and> vm_registers s' = vm_registers s \<and> vm_pc s' = elf_entry metadata"
  using load_elf_stores[OF assms(2)] mem.load_stores[OF assms(1), of _ "vm_memory s'" b]
    mem.stores_ok[OF assms(1), of _ "vm_memory s'"]
  unfolding read_memory_byte_def by blast

text \<open>
  Loading an image puts every byte of every segment at its address, the later segment winning where
  two overlap, leaves the other bytes alone, keeps the registers and starts at the entry point.
\<close>

lemma load_elf_refines:
  assumes "mem_ok (vm_memory s)" and "load_elf s metadata = Inr s'"
  shows "read_memory_byte s' b =
      (case map_of (rev (concat (map segment_cells (elf_segments metadata)))) b of
         Some v \<Rightarrow> Inr v | None \<Rightarrow> read_memory_byte s b)
    \<and> mem_ok (vm_memory s') \<and> vm_registers s' = vm_registers s \<and> vm_pc s' = elf_entry metadata"
  by (rule load_elf_content[OF assms])

text \<open>An image of one segment of two bytes.\<close>

definition tiny_elf :: elf_metadata where
  "tiny_elf = \<lparr>elf_entry = 0x1000, elf_segments = [\<lparr>seg_vaddr = 0x1000, seg_memsz = 2, seg_data
      = [0x73, 0x01],
     seg_flags = 5\<rparr>], elf_text = None\<rparr>"

lemma load_tiny_elf: "\<exists>s'. load_elf new_vm tiny_elf = Inr s'"
proof -
  have ok: "mem_ok (vm_memory new_vm)" by (simp add: new_vm_def new_memory_ok)
  moreover have "can_allocate (vm_memory new_vm) 0x1000"
    by (simp add: can_allocate_def new_vm_def new_memory_def MAX_ZKVM_MEMORY_def)
  ultimately obtain m1 where m1: "write_byte (vm_memory new_vm) 0x1000 0x73 = Inr m1" "mem_ok m1"
      "dom (mm_pages m1) = insert (page_base 0x1000) (dom (mm_pages (vm_memory new_vm)))"
    using write_byte_succeeds by blast
  have "page_base 0x1001 = page_base 0x1000" by (simp add: page_base_def PAGE_SIZE_def)
  with m1(3) have "can_allocate m1 0x1001" by (auto simp: can_allocate_def)
  then obtain m2 where "write_byte m1 0x1001 0x01 = Inr m2" using write_byte_succeeds[OF m1(2)] by blast
  with m1(1) show ?thesis
    by (simp add: load_elf_def load_segment_def tiny_elf_def write_memory_byte_def with_memory_def
        checked_add_u32_def ok_or_def)
qed

end
