(* ===== verification/Trace.thy ===== *)
theory Trace
  imports Rv32Codec
begin

text \<open>
  \<^verbatim>\<open>poker_zkvm/src/trace/mod.rs\<close>: the execution trace, its binary format and the estimate of
  the host memory it needs.  Writing into the output vector is appending to a byte list; a slice
  \<open>&bytes[offset..]\<close> beyond the end panics.
\<close>

section \<open>Data\<close>

definition MAX_TRACE_HOST_MEMORY :: nat where "MAX_TRACE_HOST_MEMORY = 512 * 1024 * 1024"
definition TRACE_MAGIC :: "byte list" where "TRACE_MAGIC = [0x54, 0x52, 0x43, 0x45]"
definition TRACE_VERSION :: u32 where "TRACE_VERSION = 2"

datatype mem_op = Read | Write

fun to_byte :: "mem_op \<Rightarrow> byte" where
  "to_byte Read = 0"
| "to_byte Write = 1"

definition from_byte :: "byte \<Rightarrow> (zkvm_error, mem_op) outcome" where
  "from_byte b =
     (if b = 0 then Inr Read else if b = 1 then Inr Write
      else Inl (Fail (InvalidZkProofFormat (InvalidMemOp b))))"

record mem_access =
  ma_addr :: u32
  ma_op :: mem_op
  ma_value :: u32
  ma_size :: byte

record step_log =
  sl_pc :: u32
  sl_instruction :: instruction
  sl_registers :: "u32 list"
  sl_mem_access :: "mem_access list"

record trace_step =
  st_step_index :: "64 word"
  st_pc :: u32
  st_instruction :: instruction
  st_registers :: "u32 list"
  st_mem_access :: "mem_access list"

record trace =
  tr_steps :: "trace_step list"
  tr_initial_registers :: "u32 list"

definition from_log :: "64 word \<Rightarrow> step_log \<Rightarrow> trace_step" where
  "from_log step_index log =
     \<lparr>st_step_index = step_index, st_pc = sl_pc log, st_instruction = sl_instruction log,
      st_registers = sl_registers log, st_mem_access = sl_mem_access log\<rparr>"

definition estimated_size :: "trace_step \<Rightarrow> nat" where
  "estimated_size step = 8 + 4 + 1 + 16 + 128 + 4 + length (st_mem_access step) * 10"

definition new_trace :: trace where
  "new_trace = \<lparr>tr_steps = [], tr_initial_registers = replicate 32 0\<rparr>"

definition with_initial_registers :: "u32 list \<Rightarrow> trace" where
  "with_initial_registers regs = \<lparr>tr_steps = [], tr_initial_registers = regs\<rparr>"

definition set_initial_registers :: "trace \<Rightarrow> u32 list \<Rightarrow> trace" where
  "set_initial_registers t regs = t\<lparr>tr_initial_registers := regs\<rparr>"

definition trace_len :: "trace \<Rightarrow> nat" where
  "trace_len t = length (tr_steps t)"

definition push_step :: "trace \<Rightarrow> trace_step \<Rightarrow> trace" where
  "push_step t step = t\<lparr>tr_steps := tr_steps t @ [step]\<rparr>"

definition nth_step :: "trace \<Rightarrow> nat \<Rightarrow> (zkvm_error, trace_step) outcome" where
  "nth_step t i
      = (if i < length (tr_steps t) then Inr (tr_steps t ! i) else Inl (Fail (Other (StepOutOfRange
      i))))"

definition host_memory_usage :: "trace \<Rightarrow> nat" where
  "host_memory_usage t = sum_list (map estimated_size (tr_steps t))"

section \<open>Serialisation\<close>

definition serialize_access :: "mem_access \<Rightarrow> byte list" where
  "serialize_access ma
      = le_bytes 4 (ma_addr ma) @ [to_byte (ma_op ma)] @ le_bytes 4 (ma_value ma) @ [ma_size ma]"

text \<open>The tags of the instructions, in the order of their declaration.\<close>

fun branch_tag :: "branch_op \<Rightarrow> byte" where
  "branch_tag Beq = 4"
| "branch_tag Bne = 5"
| "branch_tag Blt = 6"
| "branch_tag Bge = 7"
| "branch_tag Bltu = 8"
| "branch_tag Bgeu = 9"

fun load_tag :: "load_op \<Rightarrow> byte" where
  "load_tag Lb = 10"
| "load_tag Lh = 11"
| "load_tag Lw = 12"
| "load_tag Lbu = 13"
| "load_tag Lhu = 14"

fun store_tag :: "store_op \<Rightarrow> byte" where
  "store_tag Sb = 15"
| "store_tag Sh = 16"
| "store_tag Sw = 17"

fun imm_tag :: "imm_op \<Rightarrow> byte" where
  "imm_tag Addi = 18"
| "imm_tag Slti = 19"
| "imm_tag Sltiu = 20"
| "imm_tag Xori = 21"
| "imm_tag Ori = 22"
| "imm_tag Andi = 23"

fun shift_tag :: "shift_op \<Rightarrow> byte" where
  "shift_tag Slli = 24"
| "shift_tag Srli = 25"
| "shift_tag Srai = 26"

fun reg_tag :: "reg_op \<Rightarrow> byte" where
  "reg_tag Add = 27"
| "reg_tag Sub = 28"
| "reg_tag Sll = 29"
| "reg_tag Slt = 30"
| "reg_tag Sltu = 31"
| "reg_tag Xor = 32"
| "reg_tag Srl = 33"
| "reg_tag Sra = 34"
| "reg_tag Or = 35"
| "reg_tag And = 36"
| "reg_tag Mul = 37"
| "reg_tag Mulh = 38"
| "reg_tag Mulhsu = 39"
| "reg_tag Mulhu = 40"
| "reg_tag Div = 41"
| "reg_tag Divu = 42"
| "reg_tag Rem = 43"
| "reg_tag Remu = 44"

text \<open>The macro \<open>w!\<close>: a tag and its fields as \<open>u32\<close>s.\<close>

definition tagged :: "byte \<Rightarrow> u32 list \<Rightarrow> byte list" where
  "tagged tag fs = tag # concat (map (le_bytes 4) fs)"

fun serialize_instruction :: "instruction \<Rightarrow> byte list" where
  "serialize_instruction (Lui rd imm) = tagged 0 [u32_of rd, imm]"
| "serialize_instruction (Auipc rd imm) = tagged 1 [u32_of rd, imm]"
| "serialize_instruction (Jal rd imm) = tagged 2 [u32_of rd, imm]"
| "serialize_instruction (Jalr rd rs1 imm) = tagged 3 [u32_of rd, u32_of rs1, imm]"
| "serialize_instruction (Branch op rs1 rs2 imm) = tagged (branch_tag op) [u32_of rs1, u32_of rs2, imm]"
| "serialize_instruction (Load op rd rs1 imm) = tagged (load_tag op) [u32_of rd, u32_of rs1, imm]"
| "serialize_instruction (Store op rs1 rs2 imm) = tagged (store_tag op) [u32_of rs1, u32_of rs2, imm]"
| "serialize_instruction (OpImm op rd rs1 imm) = tagged (imm_tag op) [u32_of rd, u32_of rs1, imm]"
| "serialize_instruction (ShiftImm op rd rs1 shamt) =
     tagged (shift_tag op) [u32_of rd, u32_of rs1, u32_of shamt]"
| "serialize_instruction (Op op rd rs1 rs2) = tagged (reg_tag op) [u32_of rd, u32_of rs1, u32_of rs2]"
| "serialize_instruction Fence = [45]"
| "serialize_instruction Ecall = [46]"
| "serialize_instruction Ebreak = [47]"

definition serialize_step :: "trace_step \<Rightarrow> byte list" where
  "serialize_step step =
     le_bytes 8 (st_step_index step) @ le_bytes 4 (st_pc step) @ serialize_instruction
         (st_instruction step)
     @ concat (map (le_bytes 4) (st_registers step))
     @ le_bytes 4 (of_nat (length (st_mem_access step)) :: u32)
     @ concat (map serialize_access (st_mem_access step))"

definition serialize :: "trace \<Rightarrow> byte list" where
  "serialize t =
     TRACE_MAGIC @ le_bytes 4 TRACE_VERSION @ le_bytes 8 (of_nat (length (tr_steps t)) :: 64 word)
     @ concat (map (le_bytes 4) (tr_initial_registers t)) @ concat (map serialize_step (tr_steps t))"

section \<open>Deserialisation\<close>

abbreviation malformed :: "format_message \<Rightarrow> (zkvm_error, 'a) outcome" where
  "malformed msg \<equiv> Inl (Fail (InvalidZkProofFormat msg))"

definition slice_from :: "byte list \<Rightarrow> nat \<Rightarrow> (zkvm_error, byte list) outcome" where
  "slice_from bytes offset = (if offset \<le> length bytes then Inr (drop offset bytes) else Inl Panic)"

text \<open>\<open>u32::from_le_bytes([bytes[o], .., bytes[o + 3]])\<close> and its \<open>u64\<close> form.\<close>

definition le_u32_at :: "byte list \<Rightarrow> nat \<Rightarrow> (zkvm_error, u32) outcome" where
  "le_u32_at bytes offset =
     (if offset + 4 \<le> length bytes then Inr (le_value (take 4 (drop offset bytes))) else Inl Panic)"

definition le_u64_at :: "byte list \<Rightarrow> nat \<Rightarrow> (zkvm_error, 64 word) outcome" where
  "le_u64_at bytes offset =
     (if offset + 8 \<le> length bytes then Inr (le_value (take 8 (drop offset bytes))) else Inl Panic)"

definition deserialize_access :: "byte list \<Rightarrow> (zkvm_error, mem_access \<times> nat) outcome" where
  "deserialize_access bytes =
     (if length bytes < 10 then malformed MemAccessTooShort
      else
        rbind (le_u32_at bytes 0) (\<lambda>addr.
        rbind (rbind (idx bytes 4) from_byte) (\<lambda>op.
        rbind (le_u32_at bytes 5) (\<lambda>val.
        rbind (idx bytes 9) (\<lambda>size.
        Inr (\<lparr>ma_addr = addr, ma_op = op, ma_value = val, ma_size = size\<rparr>, 10))))))"

text \<open>The macros \<open>rd_u32!\<close>, \<open>rd_u8!\<close>, \<open>r2!\<close>, \<open>r3!\<close>, \<open>r3r!\<close> and \<open>r3s!\<close>.\<close>

definition rd_u32 :: "byte list \<Rightarrow> nat \<Rightarrow> (zkvm_error, u32) outcome" where
  "rd_u32 rest offset
      = (if length rest < offset + 4 then malformed FieldTruncated else le_u32_at rest offset)"

definition rd_u8 :: "byte list \<Rightarrow> nat \<Rightarrow> (zkvm_error, byte) outcome" where
  "rd_u8 rest offset = rbind (rd_u32 rest offset) (\<lambda>f. Inr (ucast f))"

definition r2 :: "byte list \<Rightarrow> (zkvm_error, byte \<times> u32) outcome" where
  "r2 rest = rbind (rd_u32 rest 0) (\<lambda>f0. rbind (rd_u32 rest 4) (\<lambda>f1. Inr (ucast f0, f1)))"

definition r3 :: "byte list \<Rightarrow> (zkvm_error, byte \<times> byte \<times> u32) outcome" where
  "r3 rest =
     rbind (rd_u32 rest 0) (\<lambda>f0. rbind (rd_u32 rest 4) (\<lambda>f1. rbind (rd_u32 rest 8) (\<lambda>f2.
     Inr (ucast f0, ucast f1, f2))))"

definition r3r :: "byte list \<Rightarrow> (zkvm_error, byte \<times> byte \<times> byte) outcome" where
  "r3r rest =
     rbind (rd_u32 rest 0) (\<lambda>f0. rbind (rd_u32 rest 4) (\<lambda>f1. rbind (rd_u32 rest 8) (\<lambda>f2.
     Inr (ucast f0, ucast f1, ucast f2))))"

definition r3s :: "byte list \<Rightarrow> (zkvm_error, byte \<times> byte \<times> byte) outcome" where
  "r3s rest =
     rbind (rd_u32 rest 0) (\<lambda>f0. rbind (rd_u32 rest 4) (\<lambda>f1. rbind (rd_u8 rest 8) (\<lambda>f2.
     Inr (ucast f0, ucast f1, f2))))"

text \<open>The arms of the match on the tag, by group of instructions.\<close>

definition branch_of_tag :: "byte \<Rightarrow> branch_op option" where
  "branch_of_tag tag =
     (if tag = 4 then Some Beq
      else if tag = 5 then Some Bne
      else if tag = 6 then Some Blt
      else if tag = 7 then Some Bge
      else if tag = 8 then Some Bltu
      else if tag = 9 then Some Bgeu
      else None)"

definition load_of_tag :: "byte \<Rightarrow> load_op option" where
  "load_of_tag tag =
     (if tag = 10 then Some Lb
      else if tag = 11 then Some Lh
      else if tag = 12 then Some Lw
      else if tag = 13 then Some Lbu
      else if tag = 14 then Some Lhu
      else None)"

definition store_of_tag :: "byte \<Rightarrow> store_op option" where
  "store_of_tag tag =
     (if tag = 15 then Some Sb
      else if tag = 16 then Some Sh
      else if tag = 17 then Some Sw
      else None)"

definition imm_of_tag :: "byte \<Rightarrow> imm_op option" where
  "imm_of_tag tag =
     (if tag = 18 then Some Addi
      else if tag = 19 then Some Slti
      else if tag = 20 then Some Sltiu
      else if tag = 21 then Some Xori
      else if tag = 22 then Some Ori
      else if tag = 23 then Some Andi
      else None)"

definition shift_of_tag :: "byte \<Rightarrow> shift_op option" where
  "shift_of_tag tag =
     (if tag = 24 then Some Slli
      else if tag = 25 then Some Srli
      else if tag = 26 then Some Srai
      else None)"

definition reg_of_tag :: "byte \<Rightarrow> reg_op option" where
  "reg_of_tag tag =
     (if tag = 27 then Some Add
      else if tag = 28 then Some Sub
      else if tag = 29 then Some Sll
      else if tag = 30 then Some Slt
      else if tag = 31 then Some Sltu
      else if tag = 32 then Some Xor
      else if tag = 33 then Some Srl
      else if tag = 34 then Some Sra
      else if tag = 35 then Some Or
      else if tag = 36 then Some And
      else if tag = 37 then Some Mul
      else if tag = 38 then Some Mulh
      else if tag = 39 then Some Mulhsu
      else if tag = 40 then Some Mulhu
      else if tag = 41 then Some Div
      else if tag = 42 then Some Divu
      else if tag = 43 then Some Rem
      else if tag = 44 then Some Remu
      else None)"

definition deserialize_instruction :: "byte list \<Rightarrow> (zkvm_error, instruction \<times> nat) outcome" where
  "deserialize_instruction bytes =
     (case bytes of
        [] \<Rightarrow> malformed TagTruncated
      | tag # rest \<Rightarrow>
          if tag = 0 then rbind (r2 rest) (\<lambda>(rd, imm). Inr (Lui rd imm, 1 + 8))
          else if tag = 1 then rbind (r2 rest) (\<lambda>(rd, imm). Inr (Auipc rd imm, 1 + 8))
          else if tag = 2 then rbind (r2 rest) (\<lambda>(rd, imm). Inr (Jal rd imm, 1 + 8))
          else if tag = 3 then rbind (r3 rest) (\<lambda>(rd, rs1, imm). Inr (Jalr rd rs1 imm, 1 + 12))
          else case branch_of_tag tag of
            Some op \<Rightarrow> rbind (r3 rest) (\<lambda>(rs1, rs2, imm). Inr (Branch op rs1 rs2 imm, 1 + 12))
          | None \<Rightarrow> (case load_of_tag tag of
            Some op \<Rightarrow> rbind (r3 rest) (\<lambda>(rd, rs1, imm). Inr (Load op rd rs1 imm, 1 + 12))
          | None \<Rightarrow> (case store_of_tag tag of
            Some op \<Rightarrow> rbind (r3 rest) (\<lambda>(rs1, rs2, imm). Inr (Store op rs1 rs2 imm, 1 + 12))
          | None \<Rightarrow> (case imm_of_tag tag of
            Some op \<Rightarrow> rbind (r3 rest) (\<lambda>(rd, rs1, imm). Inr (OpImm op rd rs1 imm, 1 + 12))
          | None \<Rightarrow> (case shift_of_tag tag of
            Some op \<Rightarrow> rbind (r3s rest) (\<lambda>(rd, rs1, shamt). Inr (ShiftImm op rd rs1 shamt, 1 + 12))
          | None \<Rightarrow> (case reg_of_tag tag of
            Some op \<Rightarrow> rbind (r3r rest) (\<lambda>(rd, rs1, rs2). Inr (Op op rd rs1 rs2, 1 + 12))
          | None \<Rightarrow>
            if tag = 45 then Inr (Fence, 1)
            else if tag = 46 then Inr (Ecall, 1)
            else if tag = 47 then Inr (Ebreak, 1)
            else malformed (InvalidTag tag)))))))"

text \<open>The loop \<open>for i in 0..32\<close> that reads the registers at an offset.\<close>

definition read_registers :: "byte list \<Rightarrow> nat \<Rightarrow> (zkvm_error, u32 list) outcome" where
  "read_registers bytes offset =
     foldM (\<lambda>regs i. rbind (le_u32_at bytes (offset + i * 4)) (\<lambda>r. set_idx regs i r)) (replicate 32
         0) [0..<32]"

text \<open>The loop over the memory accesses, with the running offset.\<close>

primrec deserialize_accesses ::
  "nat \<Rightarrow> byte list \<Rightarrow> mem_access list \<Rightarrow> nat \<Rightarrow> (zkvm_error, mem_access list \<times> nat) outcome" where
  "deserialize_accesses 0 bytes acc offset = Inr (acc, offset)"
| "deserialize_accesses (Suc n) bytes acc offset =
     rbind (rbind (slice_from bytes offset) deserialize_access) (\<lambda>(ma, ma_len).
     deserialize_accesses n bytes (acc @ [ma]) (offset + ma_len))"

definition deserialize_step :: "byte list \<Rightarrow> (zkvm_error, trace_step \<times> nat) outcome" where
  "deserialize_step bytes =
     (if length bytes < 8 then malformed StepIndexTruncated
      else rbind (le_u64_at bytes 0) (\<lambda>step_index.
      if length bytes < 8 + 4 then malformed PcTruncated
      else rbind (le_u32_at bytes 8) (\<lambda>pc.
      rbind (rbind (slice_from bytes 12) deserialize_instruction) (\<lambda>(insn, insn_len).
      let offset = 12 + insn_len in
      if length bytes < offset + 128 then malformed RegistersTruncated
      else rbind (read_registers bytes offset) (\<lambda>registers.
      let offset = offset + 128 in
      if length bytes < offset + 4 then malformed MemCountTruncated
      else rbind (le_u32_at bytes offset) (\<lambda>mem_count.
      rbind (deserialize_accesses (unat mem_count) bytes [] (offset + 4)) (\<lambda>(accesses, offset).
      Inr (\<lparr>st_step_index = step_index, st_pc = pc, st_instruction = insn, st_registers = registers,
            st_mem_access = accesses\<rparr>, offset))))))))"

primrec deserialize_steps ::
  "nat \<Rightarrow> nat \<Rightarrow> byte list \<Rightarrow> trace_step list \<Rightarrow> nat \<Rightarrow> (zkvm_error, trace_step list) outcome" where
  "deserialize_steps 0 i bytes steps offset = Inr steps"
| "deserialize_steps (Suc n) i bytes steps offset =
     rbind (slice_from bytes offset) (\<lambda>rest.
     rbind (map_err (\<lambda>_. InvalidZkProofFormat (InStep i)) (deserialize_step rest)) (\<lambda>(step, consumed).
     deserialize_steps n (Suc i) bytes (steps @ [step]) (offset + consumed)))"

definition HEADER_LEN :: nat where "HEADER_LEN = 16 + 128"

definition deserialize :: "byte list \<Rightarrow> (zkvm_error, trace) outcome" where
  "deserialize bytes =
     (if length bytes < HEADER_LEN then malformed (TraceTooShort (length bytes))
      else if take 4 bytes \<noteq> TRACE_MAGIC then malformed BadMagic
      else rbind (le_u32_at bytes 4) (\<lambda>version.
      if version \<noteq> TRACE_VERSION then malformed (UnsupportedTraceVersion version)
      else rbind (le_u64_at bytes 8) (\<lambda>num_steps.
      rbind (read_registers bytes 16) (\<lambda>initial_registers.
      if u64_limit \<le> unat num_steps * 160 then Inl (Fail (TraceHostMemoryExceeded U64_MAX
          MAX_TRACE_HOST_MEMORY))
      else if MAX_TRACE_HOST_MEMORY < unat num_steps * 160
      then Inl (Fail (TraceHostMemoryExceeded (unat num_steps * 160) MAX_TRACE_HOST_MEMORY))
      else rbind (deserialize_steps (unat num_steps) 0 bytes [] HEADER_LEN) (\<lambda>steps.
      Inr \<lparr>tr_steps = steps, tr_initial_registers = initial_registers\<rparr>)))))"

section \<open>Reading back what was written\<close>

lemma le_u32_at_append: "le_u32_at (xs @ le_bytes 4 w @ ys) (length xs) = Inr w"
  by (simp add: le_u32_at_def le_round_trip)

lemma le_u64_at_append: "le_u64_at (xs @ le_bytes 8 w @ ys) (length xs) = Inr w"
  by (simp add: le_u64_at_def le_round_trip)

lemma rd_u32_append: "rd_u32 (xs @ le_bytes 4 w @ ys) (length xs) = Inr w"
  by (simp add: rd_u32_def le_u32_at_append)

lemma fields_back:
  fixes a b c :: u32
  shows
  "r2 (le_bytes 4 a @ le_bytes 4 b @ ys) = Inr (ucast a, b)"
  "r3 (le_bytes 4 a @ le_bytes 4 b @ le_bytes 4 c @ ys) = Inr (ucast a, ucast b, c)"
  "r3r (le_bytes 4 a @ le_bytes 4 b @ le_bytes 4 c @ ys) = Inr (ucast a, ucast b, ucast c)"
  "r3s (le_bytes 4 a @ le_bytes 4 b @ le_bytes 4 c @ ys) = Inr (ucast a, ucast b, ucast c)"
proof -
  have f0: "rd_u32 (le_bytes 4 a @ zs) 0 = Inr a" for a zs
    using rd_u32_append[of "[]" a zs] by simp
  have f4: "rd_u32 (le_bytes 4 a @ le_bytes 4 b @ zs) 4 = Inr b" for a b :: u32 and zs
    using rd_u32_append[of "le_bytes 4 a" b zs] by simp
  have f8: "rd_u32 (le_bytes 4 a @ le_bytes 4 b @ le_bytes 4 c @ zs) 8 = Inr c" for a b c :: u32 and zs
    using rd_u32_append[of "le_bytes 4 a @ le_bytes 4 b" c zs] by simp
  show "r2 (le_bytes 4 a @ le_bytes 4 b @ ys) = Inr (ucast a, b)"
    by (simp only: r2_def f0 f4 rbind_simps)
  show "r3 (le_bytes 4 a @ le_bytes 4 b @ le_bytes 4 c @ ys) = Inr (ucast a, ucast b, c)"
    by (simp only: r3_def f0 f4 f8 rbind_simps)
  show "r3r (le_bytes 4 a @ le_bytes 4 b @ le_bytes 4 c @ ys) = Inr (ucast a, ucast b, ucast c)"
    by (simp only: r3r_def f0 f4 f8 rbind_simps)
  show "r3s (le_bytes 4 a @ le_bytes 4 b @ le_bytes 4 c @ ys) = Inr (ucast a, ucast b, ucast c)"
    by (simp only: r3s_def rd_u8_def f0 f4 f8 rbind_simps)
qed

lemmas tag_defs
    = branch_of_tag_def load_of_tag_def store_of_tag_def imm_of_tag_def shift_of_tag_def reg_of_tag_def

lemma instruction_back:
  "deserialize_instruction (serialize_instruction i @ ys) = Inr (i, length (serialize_instruction i))"
proof (cases i)
  case (Branch op rs1 rs2 imm)
  then show ?thesis by (cases op) (simp_all add: deserialize_instruction_def tagged_def fields_back
      ucast_reg tag_defs)
next
  case (Load op rs1 rs2 imm)
  then show ?thesis by (cases op) (simp_all add: deserialize_instruction_def tagged_def fields_back
      ucast_reg tag_defs)
next
  case (Store op rs1 rs2 imm)
  then show ?thesis by (cases op) (simp_all add: deserialize_instruction_def tagged_def fields_back
      ucast_reg tag_defs)
next
  case (OpImm op rs1 rs2 imm)
  then show ?thesis by (cases op) (simp_all add: deserialize_instruction_def tagged_def fields_back
      ucast_reg tag_defs)
next
  case (ShiftImm op rs1 rs2 imm)
  then show ?thesis by (cases op) (simp_all add: deserialize_instruction_def tagged_def fields_back
      ucast_reg tag_defs)
next
  case (Op op rs1 rs2 imm)
  then show ?thesis by (cases op) (simp_all add: deserialize_instruction_def tagged_def fields_back
      ucast_reg tag_defs)
qed (simp_all add: deserialize_instruction_def tagged_def fields_back ucast_reg tag_defs)

lemma access_back: "deserialize_access (serialize_access ma @ ys) = Inr (ma, 10)"
proof -
  obtain addr op val size where ma: "ma = \<lparr>ma_addr = addr, ma_op = op, ma_value = val, ma_size = size\<rparr>"
    by (cases ma)
  let ?bs = "le_bytes 4 addr @ [to_byte op] @ le_bytes 4 val @ [size] @ ys"
  have "le_u32_at ?bs 0 = Inr addr" using le_u32_at_append[of "[]" addr] by simp
  moreover have "le_u32_at ?bs 5 = Inr val"
    using le_u32_at_append[of "le_bytes 4 addr @ [to_byte op]" val "[size] @ ys"] by simp
  moreover have "idx ?bs 4 = (Inr (to_byte op) :: (zkvm_error, byte) outcome)"
    by (simp add: idx_def nth_append)
  moreover have "idx ?bs 9 = (Inr size :: (zkvm_error, byte) outcome)" by (simp add: idx_def nth_append)
  moreover have "from_byte (to_byte op) = Inr op" by (cases op) (simp_all add: from_byte_def)
  ultimately show ?thesis by (simp add: ma deserialize_access_def serialize_access_def)
qed

lemma length_access [simp]: "length (serialize_access ma) = 10"
  by (simp add: serialize_access_def)

lemma accesses_back:
  "bytes = xs @ concat (map serialize_access mas) @ ys \<Longrightarrow> offset = length xs \<Longrightarrow>
   deserialize_accesses (length mas) bytes acc offset = Inr (acc @ mas, offset + 10 * length mas)"
proof (induction mas arbitrary: xs acc offset)
  case Nil
  then show ?case by simp
next
  case (Cons ma mas)
  have "slice_from bytes offset = Inr (serialize_access ma @ concat (map serialize_access mas) @ ys)"
    using Cons.prems by (simp add: slice_from_def)
  moreover have "deserialize_accesses (length mas) bytes (acc @ [ma]) (offset + 10)
      = Inr ((acc @ [ma]) @ mas, offset + 10 + 10 * length mas)"
    using Cons.prems by (intro Cons.IH[of "xs @ serialize_access ma"]) simp_all
  ultimately show ?case by (simp add: access_back)
qed

lemma length_words [simp]: "length (concat (map (le_bytes n) ws)) = n * length ws"
  by (induction ws) simp_all

lemma take_drop_words:
  "i < length ws \<Longrightarrow> take 4 (drop (4 * i) (concat (map (le_bytes 4) ws) @ ys)) = le_bytes 4 (ws ! i)"
proof (induction ws arbitrary: i)
  case (Cons w ws)
  then show ?case by (cases i) (simp_all add: add.commute)
qed simp

lemma registers_back:
  assumes "bytes = xs @ concat (map (le_bytes 4) regs) @ ys" and "offset = length xs" and
      "length regs = 32"
  shows "read_registers bytes offset = Inr regs"
proof -
  let ?I = "\<lambda>j rs. rs = take j regs @ replicate (32 - j) 0"
  have "\<exists>rs. read_registers bytes offset = Inr rs \<and> ?I 32 rs"
    unfolding read_registers_def
  proof (rule foldM_upt_total[where I = ?I])
    show "?I 0 (replicate 32 0)" by simp
  next
    fix j rs
    assume j: "j < (32 :: nat)" and rs: "?I j rs"
    have at: "le_u32_at bytes (offset + j * 4) = Inr (regs ! j)"
      using take_drop_words[of j regs ys] assms j
      by (simp add: le_u32_at_def le_round_trip mult.commute)
    have "set_idx rs j (regs ! j)
        = (Inr (take (Suc j) regs @ replicate (32 - Suc j) 0) :: (zkvm_error, u32 list) outcome)"
    proof -
      have "32 - j = Suc (32 - Suc j)" using j by simp
      then have "rs = take j regs @ 0 # replicate (32 - Suc j) 0" using rs by simp
      then show ?thesis using j assms(3)
        by (simp add: set_idx_def list_update_append take_Suc_conv_app_nth)
    qed
    with at show "\<exists>s'. rbind (le_u32_at bytes (offset + j * 4)) (set_idx rs j) = Inr s' \<and> ?I (Suc j) s'"
      by simp
  qed
  then show ?thesis using assms(3) by simp
qed

definition step_ok :: "trace_step \<Rightarrow> bool" where
  "step_ok st \<longleftrightarrow> length (st_registers st) = 32 \<and> length (st_mem_access st) < 2 ^ 32"

definition trace_ok :: "trace \<Rightarrow> bool" where
  "trace_ok t \<longleftrightarrow> length (tr_initial_registers t) = 32 \<and> list_all step_ok (tr_steps t)
     \<and> length (tr_steps t) * 160 \<le> MAX_TRACE_HOST_MEMORY"

lemma step_back:
  assumes "step_ok st"
  shows "deserialize_step (serialize_step st @ ys) = Inr (st, length (serialize_step st))"
proof -
  obtain n pc i regs mas where st:
      "st = \<lparr>st_step_index = n, st_pc = pc, st_instruction = i, st_registers = regs,
      st_mem_access = mas\<rparr>" by (cases st)
  with assms have regs: "length regs = 32" and mas: "length mas < 2 ^ 32" by (simp_all add: step_ok_def)
  let ?ib = "serialize_instruction i" and ?rb = "concat (map (le_bytes 4) regs)"
  let ?mc = "of_nat (length mas) :: u32" and ?mb = "concat (map serialize_access mas)"
  let ?bs = "le_bytes 8 n @ le_bytes 4 pc @ ?ib @ ?rb @ le_bytes 4 ?mc @ ?mb @ ys"
  have bs: "serialize_step st @ ys = ?bs" by (simp add: serialize_step_def st)
  have 1: "le_u64_at ?bs 0 = Inr n" using le_u64_at_append[of "[]" n] by simp
  have 2: "le_u32_at ?bs 8 = Inr pc" using le_u32_at_append[of "le_bytes 8 n" pc] by simp
  have 3: "slice_from ?bs 12
      = Inr (?ib @ ?rb @ le_bytes 4 ?mc @ ?mb @ ys)" by (simp add: slice_from_def)
  have 4: "read_registers ?bs (12 + length ?ib) = Inr regs"
    by (rule registers_back[of _ "le_bytes 8 n @ le_bytes 4 pc @ ?ib"]) (simp_all add: regs)
  have 5: "le_u32_at ?bs (12 + length ?ib + 128) = Inr ?mc"
    using le_u32_at_append[of
        "le_bytes 8 n @ le_bytes 4 pc @ ?ib @ ?rb" ?mc] by (simp add: regs add.assoc)
  have 6: "unat ?mc = length mas" using mas by (simp add: unsigned_of_nat take_bit_nat_eq_self)
  have 7: "deserialize_accesses (length mas) ?bs [] (12 + length ?ib + 128 + 4)
      = Inr (mas, 12 + length ?ib + 128 + 4 + 10 * length mas)"
    using accesses_back[of ?bs "le_bytes 8 n @ le_bytes 4 pc @ ?ib @ ?rb @ le_bytes 4 ?mc" mas ys
        "12 + length ?ib + 128 + 4" "[]"] by (simp add: regs)
  have len: "length (serialize_step st) = 12 + length ?ib + 128 + 4 + 10 * length mas"
  proof -
    have "length ?mb = 10 * length mas" by (induction mas) simp_all
    then show ?thesis by (simp add: serialize_step_def st regs)
  qed
  have long: "12 + length ?ib + 128 + 4 \<le> length ?bs" by (simp add: regs)
  show ?thesis
    unfolding bs deserialize_step_def 1 2 3 len
    using long 4 5 6 7 instruction_back[of i "?rb @ le_bytes 4 ?mc @ ?mb @ ys"]
    by (simp add: st Let_def)
qed

lemma steps_back:
  "bytes = xs @ concat (map serialize_step sts) @ ys \<Longrightarrow> offset = length xs \<Longrightarrow> list_all step_ok sts \<Longrightarrow>
   deserialize_steps (length sts) i bytes acc offset = Inr (acc @ sts)"
proof (induction sts arbitrary: xs acc offset i)
  case Nil
  then show ?case by simp
next
  case (Cons st sts)
  have "slice_from bytes offset = Inr (serialize_step st @ concat (map serialize_step sts) @ ys)"
    using Cons.prems by (simp add: slice_from_def)
  moreover have
      "deserialize_steps (length sts) (Suc i) bytes (acc @ [st]) (offset + length (serialize_step st))
      = Inr ((acc @ [st]) @ sts)"
    using Cons.prems by (intro Cons.IH[of "xs @ serialize_step st"]) simp_all
  ultimately show ?case using Cons.prems(3) by (simp add: step_back map_err_def)
qed

section \<open>The reader stays within its input\<close>

lemma safe_le_at:
  "offset + 4 \<le> length bytes \<Longrightarrow> safe (\<lambda>_. True) (le_u32_at bytes offset)"
  "offset + 8 \<le> length bytes \<Longrightarrow> safe (\<lambda>_. True) (le_u64_at bytes offset)"
  by (simp_all add: le_u32_at_def le_u64_at_def)

lemma safe_fields:
  "safe (\<lambda>_. 8 \<le> length rest) (r2 rest)" "safe (\<lambda>_. 12 \<le> length rest) (r3 rest)"
  "safe (\<lambda>_. 12 \<le> length rest) (r3r rest)" "safe (\<lambda>_. 12 \<le> length rest) (r3s rest)"
  by (simp_all add: r2_def r3_def r3r_def r3s_def rd_u8_def rd_u32_def le_u32_at_def)

lemma safe_instruction: "safe (\<lambda>(i, k). k \<le> length bytes) (deserialize_instruction bytes)"
proof (cases bytes)
  case Nil
  then show ?thesis by (simp add: deserialize_instruction_def)
next
  case (Cons tag rest)
  have two: "safe (\<lambda>(i, k). k \<le> length bytes) (rbind (r2 rest) (\<lambda>(rd, imm). Inr (f rd imm, 1 + 8)))"
      for f
    by (rule safe_rbind[OF safe_fields(1)]) (auto simp: Cons)
  have three:
      "safe (\<lambda>(i, k). k \<le> length bytes) (rbind (r3 rest) (\<lambda>(a, b, imm). Inr (f a b imm, 1 + 12)))" for f
    by (rule safe_rbind[OF safe_fields(2)]) (auto simp: Cons)
  have r: "safe (\<lambda>(i, k). k \<le> length bytes) (rbind (r3r rest) (\<lambda>(a, b, c). Inr (f a b c, 1 + 12)))"
      for f
    by (rule safe_rbind[OF safe_fields(3)]) (auto simp: Cons)
  have s: "safe (\<lambda>(i, k). k \<le> length bytes) (rbind (r3s rest) (\<lambda>(a, b, c). Inr (f a b c, 1 + 12)))"
      for f
    by (rule safe_rbind[OF safe_fields(4)]) (auto simp: Cons)
  show ?thesis
    unfolding deserialize_instruction_def Cons list.case
    unfolding Cons[symmetric] by (intro safe_if safe_option two three r s) (simp_all add: Cons)
qed

lemma safe_access: "safe (\<lambda>(ma, k). k \<le> length bytes) (deserialize_access bytes)"
proof (cases "length bytes < 10")
  case False
  have "safe (\<lambda>_. True) (rbind (idx bytes 4) from_byte)"
    using False by (simp add: idx_def from_byte_def)
  then show ?thesis
    unfolding deserialize_access_def using False
    by (auto intro!: safe_rbind[of "\<lambda>_. True"] safe_le_at simp: idx_def)
qed (simp add: deserialize_access_def)

lemma safe_accesses:
  "offset \<le> length bytes \<Longrightarrow>
   safe (\<lambda>(mas, k). k \<le> length bytes \<and> length mas
       = length acc + n) (deserialize_accesses n bytes acc offset)"
proof (induction n arbitrary: acc offset)
  case 0
  then show ?case by simp
next
  case (Suc n)
  have "safe (\<lambda>(ma, k). offset + k \<le> length bytes) (rbind (slice_from bytes offset) deserialize_access)"
    using safe_access[of "drop offset bytes"] Suc.prems
    by (auto simp: slice_from_def elim!: safe_weaken)
  then show ?case
  proof (simp only: deserialize_accesses.simps, elim safe_rbind)
    fix x :: "mem_access \<times> nat"
    assume "case x of (ma, k) \<Rightarrow> offset + k \<le> length bytes"
    then show "safe (\<lambda>(mas, k). k \<le> length bytes \<and> length mas = length acc + Suc n)
        (case x of (ma, ma_len) \<Rightarrow> deserialize_accesses n bytes (acc @ [ma]) (offset + ma_len))"
      using Suc.IH[of "offset + snd x" "acc @ [fst x]"] by (auto split: prod.splits elim!: safe_weaken)
  qed
qed

lemma safe_registers:
  assumes "offset + 128 \<le> length bytes"
  shows "safe (\<lambda>rs. length rs = 32) (read_registers bytes offset)"
proof -
  have "\<exists>rs. read_registers bytes offset = Inr rs \<and> length rs = 32"
    unfolding read_registers_def
    by (rule foldM_upt_total[where I = "\<lambda>_ rs. length rs = 32"])
      (use assms in \<open>auto simp: le_u32_at_def set_idx_def\<close>)
  then show ?thesis by auto
qed

lemma safe_step: "safe (\<lambda>(st, k). step_ok st \<and> k \<le> length bytes) (deserialize_step bytes)"
proof -
  have i: "safe (\<lambda>(i, k). 12 + k \<le> length bytes) (rbind (slice_from bytes 12) deserialize_instruction)"
    if "12 \<le> length bytes"
    using safe_instruction[of "drop 12 bytes"] that by (auto simp: slice_from_def elim!: safe_weaken)
  have mas: "safe (\<lambda>(mas, k). k \<le> length bytes \<and> length mas < 2 ^ 32)
      (deserialize_accesses (unat c) bytes [] p)" if "p \<le> length bytes" for p and c :: u32
    using safe_accesses[OF that, of "[]" "unat c"] unsigned_less[where ?'a = nat and w = c]
    by (auto elim!: safe_weaken)
  show ?thesis
    unfolding deserialize_step_def Let_def
    by (auto simp: not_less step_ok_def split: prod.splits
        intro!: safe_rbind[OF safe_le_at(2)] safe_rbind[OF safe_le_at(1)] safe_rbind[OF i]
          safe_rbind[OF safe_registers] safe_rbind[OF mas])
qed

lemma safe_steps:
  "offset \<le> length bytes \<Longrightarrow> list_all step_ok acc \<Longrightarrow>
   safe (\<lambda>sts. list_all step_ok sts \<and> length sts
       = length acc + n) (deserialize_steps n i bytes acc offset)"
proof (induction n arbitrary: acc offset i)
  case 0
  then show ?case by simp
next
  case (Suc n)
  have st: "safe (\<lambda>(st, k). step_ok st \<and> offset + k \<le> length bytes)
      (map_err (\<lambda>_. InvalidZkProofFormat (InStep i)) (deserialize_step (drop offset bytes)))"
    using safe_step[of
        "drop offset bytes"] Suc.prems(1) by (auto intro!: safe_map_err elim!: safe_weaken)
  have nx: "safe (\<lambda>sts. list_all step_ok sts \<and> length sts = length acc + Suc n)
      (case x of (step, consumed) \<Rightarrow> deserialize_steps n (Suc i) bytes (acc @ [step]) (offset +
          consumed))"
    if "case x of (st, k) \<Rightarrow> step_ok st \<and> offset + k \<le> length bytes" for x
    using that Suc.IH[of "offset + snd x" "acc @ [fst x]" "Suc i"] Suc.prems(2)
    by (auto split: prod.splits elim!: safe_weaken)
  from Suc.prems(1) have
      "slice_from bytes offset = Inr (drop offset bytes)" by (simp add: slice_from_def)
  then show ?case by (simp only: deserialize_steps.simps rbind_simps safe_rbind[OF st nx])
qed

section \<open>Properties\<close>

text \<open>
  C31: a serialised trace reads back as itself.  Every trace whose register files have 32 entries and
  whose steps fit the size estimate of the reader survives, and so it does with any bytes behind it:
  the reader ignores what follows the last step.
\<close>

theorem trace_roundtrip:
  assumes "trace_ok t"
  shows "deserialize (serialize t @ junk) = Inr t"
proof -
  obtain sts regs where t: "t = \<lparr>tr_steps = sts, tr_initial_registers = regs\<rparr>" by (cases t)
  with assms have ok: "length regs = 32" "list_all step_ok sts"
      "length sts * 160 \<le> MAX_TRACE_HOST_MEMORY"
    by (simp_all add: trace_ok_def)
  let ?n = "of_nat (length sts) :: 64 word" and ?rb = "concat (map (le_bytes 4) regs)"
  let ?bs = "TRACE_MAGIC @ le_bytes 4 TRACE_VERSION @ le_bytes 8 ?n @ ?rb @ concat (map
      serialize_step sts) @ junk"
  have bs: "serialize t @ junk = ?bs" by (simp add: serialize_def t)
  have magic: "length TRACE_MAGIC = 4" by (simp add: TRACE_MAGIC_def)
  have 1: "le_u32_at ?bs 4
      = Inr TRACE_VERSION" using le_u32_at_append[of TRACE_MAGIC TRACE_VERSION] by (simp add: magic)
  have 2: "le_u64_at ?bs 8 = Inr ?n"
    using le_u64_at_append[of "TRACE_MAGIC @ le_bytes 4 TRACE_VERSION" ?n] by (simp add: magic)
  have 3: "read_registers ?bs 16 = Inr regs"
    by (rule registers_back[of _
        "TRACE_MAGIC @ le_bytes 4 TRACE_VERSION @ le_bytes 8 ?n"]) (simp_all add: magic ok(1))
  have small: "length sts < 2 ^ 64" using ok(3) by (simp add: MAX_TRACE_HOST_MEMORY_def)
  then have 4: "unat ?n = length sts" by (simp add: unsigned_of_nat take_bit_nat_eq_self)
  have 5: "deserialize_steps (length sts) 0 ?bs [] HEADER_LEN = Inr sts"
    using steps_back[of ?bs
        "TRACE_MAGIC @ le_bytes 4 TRACE_VERSION @ le_bytes 8 ?n @ ?rb" sts junk HEADER_LEN 0 "[]"]
    by (simp add: magic ok HEADER_LEN_def)
  have "HEADER_LEN \<le> length ?bs" by (simp add: HEADER_LEN_def magic ok(1))
  moreover have "take 4 ?bs = TRACE_MAGIC" by (simp add: magic)
  moreover have
      "length sts * 160 < u64_limit" using ok(3) by (simp add: MAX_TRACE_HOST_MEMORY_def u64_limit_def)
  ultimately show ?thesis
    unfolding bs deserialize_def 1 2 3 using 4 5 ok(3) by (simp add: t)
qed

theorem trace_roundtrip_witness:
  "deserialize (serialize \<lparr>tr_steps = [\<lparr>st_step_index = 0, st_pc = 0x1000, st_instruction
      = Load Lw 5 2 8,
       st_registers = replicate 32 7, st_mem_access = [\<lparr>ma_addr = 0x2008, ma_op = Read, ma_value
           = 7, ma_size = 4\<rparr>]\<rparr>],
     tr_initial_registers = replicate 32 0\<rparr> @ [1, 2, 3])
   = Inr \<lparr>tr_steps = [\<lparr>st_step_index = 0, st_pc = 0x1000, st_instruction = Load Lw 5 2 8,
       st_registers = replicate 32 7, st_mem_access = [\<lparr>ma_addr = 0x2008, ma_op = Read, ma_value
           = 7, ma_size = 4\<rparr>]\<rparr>],
     tr_initial_registers = replicate 32 0\<rparr>"
  by (rule trace_roundtrip) (simp add: trace_ok_def step_ok_def MAX_TRACE_HOST_MEMORY_def)

text \<open>
  The reader is total and typed: on any byte string it returns a well-formed trace or an error, and
  never indexes beyond its input.
\<close>

lemma deserialize_safe:
  "(\<exists>t. deserialize bytes = Inr t \<and> trace_ok t) \<or> (\<exists>e. deserialize bytes = Inl (Fail e))"
proof -
  have "safe trace_ok (deserialize bytes)"
  proof (cases "length bytes < HEADER_LEN")
    case False
    then have len: "144 \<le> length bytes" by (simp add: HEADER_LEN_def)
    have steps:
        "safe (\<lambda>sts. list_all step_ok sts \<and> length sts
        = n) (deserialize_steps n 0 bytes [] HEADER_LEN)" for n
      using safe_steps[of HEADER_LEN bytes "[]" n 0] len by (simp add: HEADER_LEN_def)
    show ?thesis
      unfolding deserialize_def using len
      by (auto simp: trace_ok_def not_less intro!: safe_rbind[OF safe_le_at(2)] safe_rbind[OF
          safe_le_at(1)]
          safe_rbind[OF safe_registers] safe_rbind[OF steps])
  qed (simp add: deserialize_def)
  then show ?thesis by (auto simp: safe_def split: sum.splits fault.splits)
qed

text \<open>
  The memory estimate that the executor checks bounds the size of the serialised trace: header
  aside, no trace serialises to more bytes than \<open>host_memory_usage\<close> says.
\<close>

lemma serialized_size_bounded:
  assumes "trace_ok t"
  shows "length (serialize t) \<le> HEADER_LEN + host_memory_usage t"
proof -
  have insn: "length (serialize_instruction i) \<le> 13" for i
    by (cases i) (simp_all add: tagged_def)
  have accesses: "length (concat (map serialize_access mas)) = 10 * length mas" for mas
    by (induction mas) simp_all
  have "length (serialize_step st) \<le> estimated_size st" if "step_ok st" for st
    using that insn[of "st_instruction st"]
    by (simp add: serialize_step_def estimated_size_def step_ok_def accesses)
  then have "length (concat (map serialize_step sts)) \<le> sum_list (map estimated_size sts)"
    if "list_all step_ok sts" for sts
    using that by (induction sts) (auto intro: add_mono)
  then show ?thesis using assms
    by (simp add: serialize_def host_memory_usage_def trace_ok_def HEADER_LEN_def TRACE_MAGIC_def)
qed

text \<open>
  The 160 bytes per step of the reader's early check are no upper bound: a step with one memory
  access takes 167.
\<close>

lemma step_exceeds_estimate:
  "length (serialize_step \<lparr>st_step_index = 0, st_pc = 0, st_instruction = Load Lw 1 2 0,
     st_registers = replicate 32 0, st_mem_access = [\<lparr>ma_addr = 0, ma_op = Read, ma_value
         = 0, ma_size = 4\<rparr>]\<rparr>) = 167"
  by (simp add: serialize_step_def tagged_def length_concat sum_list_replicate)

end
