(* ===== verification/Rv32Exec.thy ===== *)
theory Rv32Exec
  imports Rv32Codec Rv32Mem Trace "HOL-Library.Signed_Division"
begin

text \<open>
  \<^verbatim>\<open>poker_zkvm/src/isa/mod.rs\<close>, second part: the execution of one instruction.  The arms of the
  match are grouped as the instructions are; an arithmetic arm is a function of the operands, with the
  widths and signs of the source's casts.  A shift by 32 or more panics.
\<close>

section \<open>Arithmetic\<close>

definition shift_checked :: "(nat \<Rightarrow> u32 \<Rightarrow> u32) \<Rightarrow> u32 \<Rightarrow> nat \<Rightarrow> (zkvm_error, u32) outcome" where
  "shift_checked f a n = (if n < 32 then Inr (f n a) else Inl Panic)"

fun imm_alu :: "imm_op \<Rightarrow> u32 \<Rightarrow> u32 \<Rightarrow> u32" where
  "imm_alu Addi a imm = a + imm"
| "imm_alu Slti a imm = (if sint a < sint imm then 1 else 0)"
| "imm_alu Sltiu a imm = (if a < imm then 1 else 0)"
| "imm_alu Xori a imm = a XOR imm"
| "imm_alu Ori a imm = a OR imm"
| "imm_alu Andi a imm = a AND imm"

fun shift_alu :: "shift_op \<Rightarrow> u32 \<Rightarrow> byte \<Rightarrow> (zkvm_error, u32) outcome" where
  "shift_alu Slli a shamt = shift_checked push_bit a (unat shamt)"
| "shift_alu Srli a shamt = shift_checked drop_bit a (unat shamt)"
| "shift_alu Srai a shamt = shift_checked signed_drop_bit a (unat shamt)"

text \<open>\<open>a / b\<close> and \<open>a % b\<close> of \<open>i32\<close>, which panic on a zero divisor and on \<open>i32::MIN / -1\<close>.\<close>

definition I32_MIN :: int where "I32_MIN = - (2 ^ 31)"

definition div_i32 :: "int \<Rightarrow> int \<Rightarrow> (zkvm_error, int) outcome" where
  "div_i32 a b = (if b = 0 \<or> (a = I32_MIN \<and> b = -1) then Inl Panic else Inr (a sdiv b))"

definition rem_i32 :: "int \<Rightarrow> int \<Rightarrow> (zkvm_error, int) outcome" where
  "rem_i32 a b = (if b = 0 \<or> (a = I32_MIN \<and> b = -1) then Inl Panic else Inr (a smod b))"

definition exec_div :: "u32 \<Rightarrow> u32 \<Rightarrow> (zkvm_error, u32) outcome" where
  "exec_div x y =
     (let a = sint x; b = sint y in
      rbind (if b = 0 then Inr (-1) else if a = I32_MIN \<and> b
          = -1 then Inr I32_MIN else div_i32 a b) (\<lambda>result.
      Inr (word_of_int result)))"

definition exec_rem :: "u32 \<Rightarrow> u32 \<Rightarrow> (zkvm_error, u32) outcome" where
  "exec_rem x y =
     (let a = sint x; b = sint y in
      rbind (if b = 0 then Inr a else if a = I32_MIN \<and> b = -1 then Inr 0 else rem_i32 a b) (\<lambda>result.
      Inr (word_of_int result)))"

text \<open>The products are computed in 64 bits: \<open>as u64\<close> zero-extends and \<open>as i32 as i64\<close> sign-extends.\<close>

fun reg_alu :: "reg_op \<Rightarrow> u32 \<Rightarrow> u32 \<Rightarrow> (zkvm_error, u32) outcome" where
  "reg_alu Add a b = Inr (a + b)"
| "reg_alu Sub a b = Inr (a - b)"
| "reg_alu Sll a b = shift_checked push_bit a (unat (b AND 0x1F))"
| "reg_alu Slt a b = Inr (if sint a < sint b then 1 else 0)"
| "reg_alu Sltu a b = Inr (if a < b then 1 else 0)"
| "reg_alu Xor a b = Inr (a XOR b)"
| "reg_alu Srl a b = shift_checked drop_bit a (unat (b AND 0x1F))"
| "reg_alu Sra a b = shift_checked signed_drop_bit a (unat (b AND 0x1F))"
| "reg_alu Or a b = Inr (a OR b)"
| "reg_alu And a b = Inr (a AND b)"
| "reg_alu Mul a b = Inr (ucast (ucast a * ucast b :: 64 word))"
| "reg_alu Mulh a b = Inr (ucast (signed_drop_bit 32 (scast a * scast b :: 64 word)))"
| "reg_alu Mulhsu a b = Inr (ucast (signed_drop_bit 32 (scast a * ucast b :: 64 word)))"
| "reg_alu Mulhu a b = Inr (ucast (drop_bit 32 (ucast a * ucast b :: 64 word)))"
| "reg_alu Div a b = exec_div a b"
| "reg_alu Divu a b = Inr (if b = 0 then -1 else a div b)"
| "reg_alu Rem a b = exec_rem a b"
| "reg_alu Remu a b = Inr (if b = 0 then a else a mod b)"

fun branch_taken :: "branch_op \<Rightarrow> u32 \<Rightarrow> u32 \<Rightarrow> bool" where
  "branch_taken Beq a b \<longleftrightarrow> a = b"
| "branch_taken Bne a b \<longleftrightarrow> a \<noteq> b"
| "branch_taken Blt a b \<longleftrightarrow> sint a < sint b"
| "branch_taken Bge a b \<longleftrightarrow> sint b \<le> sint a"
| "branch_taken Bltu a b \<longleftrightarrow> a < b"
| "branch_taken Bgeu a b \<longleftrightarrow> b \<le> a"

section \<open>Memory instructions\<close>

text \<open>
  A load returns the value for \<open>rd\<close> and the raw value that the access records: the sign extension
  (\<open>raw as i8 as i32 as u32\<close>) is not recorded.
\<close>

fun load_value :: "load_op \<Rightarrow> vm_state \<Rightarrow> u32 \<Rightarrow> (zkvm_error, u32 \<times> u32 \<times> byte) outcome" where
  "load_value Lb s addr = rbind (read_memory_byte s addr) (\<lambda>b. Inr (scast b, ucast b, 1))"
| "load_value Lh s addr = rbind (read_memory_halfword s addr) (\<lambda>h. Inr (scast h, ucast h, 2))"
| "load_value Lw s addr = rbind (read_memory_word s addr) (\<lambda>w. Inr (w, w, 4))"
| "load_value Lbu s addr = rbind (read_memory_byte s addr) (\<lambda>b. Inr (ucast b, ucast b, 1))"
| "load_value Lhu s addr = rbind (read_memory_halfword s addr) (\<lambda>h. Inr (ucast h, ucast h, 2))"

definition exec_load ::
  "load_op \<Rightarrow> byte \<Rightarrow> byte \<Rightarrow> u32 \<Rightarrow> vm_state \<Rightarrow> (zkvm_error, vm_state \<times> mem_access) outcome" where
  "exec_load op rd rs1 imm s =
     rbind (read_register s rs1) (\<lambda>base.
     let addr = base + imm in
     rbind (load_value op s addr) (\<lambda>(val, raw, size).
     rbind (write_register s rd val) (\<lambda>s'.
     Inr (s', \<lparr>ma_addr = addr, ma_op = Read, ma_value = raw, ma_size = size\<rparr>))))"

fun store_value :: "store_op \<Rightarrow> vm_state \<Rightarrow> u32 \<Rightarrow> u32 \<Rightarrow> (zkvm_error, vm_state \<times> byte) outcome" where
  "store_value Sb s addr val = rbind (write_memory_byte s addr (ucast val)) (\<lambda>s'. Inr (s', 1))"
| "store_value Sh s addr val = rbind (write_memory_halfword s addr (ucast val)) (\<lambda>s'. Inr (s', 2))"
| "store_value Sw s addr val = rbind (write_memory_word s addr val) (\<lambda>s'. Inr (s', 4))"

definition exec_store ::
  "store_op \<Rightarrow> byte \<Rightarrow> byte \<Rightarrow> u32 \<Rightarrow> vm_state \<Rightarrow> (zkvm_error, vm_state \<times> mem_access) outcome" where
  "exec_store op rs1 rs2 imm s =
     rbind (read_register s rs1) (\<lambda>base.
     let addr = base + imm in
     rbind (read_register s rs2) (\<lambda>val.
     rbind (store_value op s addr val) (\<lambda>(s', size).
     Inr (s', \<lparr>ma_addr = addr, ma_op = Write, ma_value = val, ma_size = size\<rparr>))))"

section \<open>One step\<close>

definition finalize_steplog ::
  "u32 \<Rightarrow> instruction \<Rightarrow> vm_state \<Rightarrow> mem_access list \<Rightarrow> (zkvm_error, step_log \<times> vm_state) outcome" where
  "finalize_steplog pc insn s accesses =
     Inr (\<lparr>sl_pc = pc, sl_instruction = insn, sl_registers = vm_registers s, sl_mem_access
         = accesses\<rparr>, s)"

text \<open>The fall-through of the match: \<open>state.pc = pc.wrapping_add(4)\<close> and the log.\<close>

definition next_step ::
  "u32 \<Rightarrow> instruction \<Rightarrow> vm_state \<Rightarrow> mem_access list \<Rightarrow> (zkvm_error, step_log \<times> vm_state) outcome" where
  "next_step pc insn s accesses = finalize_steplog pc insn (s\<lparr>vm_pc := pc + 4\<rparr>) accesses"

fun execute :: "vm_state \<Rightarrow> instruction \<Rightarrow> (zkvm_error, step_log \<times> vm_state) outcome" where
  "execute s (Lui rd imm) =
     rbind (write_register s rd imm) (\<lambda>s'. next_step (vm_pc s) (Lui rd imm) s' [])"
| "execute s (Auipc rd imm) =
     rbind (write_register s rd (vm_pc s + imm)) (\<lambda>s'. next_step (vm_pc s) (Auipc rd imm) s' [])"
| "execute s (Jal rd imm) =
     rbind (write_register s rd (vm_pc s + 4)) (\<lambda>s'.
     finalize_steplog (vm_pc s) (Jal rd imm) (s'\<lparr>vm_pc := vm_pc s + imm\<rparr>) [])"
| "execute s (Jalr rd rs1 imm) =
     rbind (read_register s rs1) (\<lambda>base.
     let target = (base + imm) AND NOT 1 in
     rbind (write_register s rd (vm_pc s + 4)) (\<lambda>s'.
     finalize_steplog (vm_pc s) (Jalr rd rs1 imm) (s'\<lparr>vm_pc := target\<rparr>) []))"
| "execute s (Branch op rs1 rs2 imm) =
     rbind (read_register s rs1) (\<lambda>a.
     rbind (read_register s rs2) (\<lambda>b.
     if branch_taken op a b
     then finalize_steplog (vm_pc s) (Branch op rs1 rs2 imm) (s\<lparr>vm_pc := vm_pc s + imm\<rparr>) []
     else next_step (vm_pc s) (Branch op rs1 rs2 imm) s []))"
| "execute s (Load op rd rs1 imm) =
     rbind (exec_load op rd rs1 imm s) (\<lambda>(s', access). next_step (vm_pc s) (Load op rd rs1 imm) s'
         [access])"
| "execute s (Store op rs1 rs2 imm) =
     rbind (exec_store op rs1 rs2 imm s) (\<lambda>(s', access). next_step (vm_pc s) (Store op rs1 rs2 imm)
         s' [access])"
| "execute s (OpImm op rd rs1 imm) =
     rbind (read_register s rs1) (\<lambda>a.
     rbind (write_register s rd (imm_alu op a imm)) (\<lambda>s'. next_step (vm_pc s) (OpImm op rd rs1 imm)
         s' []))"
| "execute s (ShiftImm op rd rs1 shamt) =
     rbind (read_register s rs1) (\<lambda>a.
     rbind (shift_alu op a shamt) (\<lambda>r.
     rbind (write_register s rd r) (\<lambda>s'. next_step (vm_pc s) (ShiftImm op rd rs1 shamt) s' [])))"
| "execute s (Op op rd rs1 rs2) =
     rbind (read_register s rs1) (\<lambda>a.
     rbind (read_register s rs2) (\<lambda>b.
     rbind (reg_alu op a b) (\<lambda>r.
     rbind (write_register s rd r) (\<lambda>s'. next_step (vm_pc s) (Op op rd rs1 rs2) s' []))))"
| "execute s Fence = next_step (vm_pc s) Fence s []"
| "execute s Ecall = next_step (vm_pc s) Ecall s []"
| "execute s Ebreak = next_step (vm_pc s) Ebreak s []"

section \<open>The arithmetic is that of the ISA\<close>

lemma sint_word_of_int:
  "- (2 ^ 31) \<le> k \<Longrightarrow> k < 2 ^ 31 \<Longrightarrow> sint (word_of_int k :: u32) = k"
  by (simp add: signed_of_int signed_take_bit_int_eq_self)

lemma sint_u32: "- (2 ^ 31) \<le> sint (x :: u32)" "sint (x :: u32) < 2 ^ 31"
  using sint_ge[of x] sint_lt[of x] by simp_all

lemma sdiv_i32_range:
  fixes x y :: int
  assumes "- (2 ^ 31) \<le> x" "x < 2 ^ 31" "\<not> (x = - (2 ^ 31) \<and> y = -1)"
  shows "- (2 ^ 31) \<le> x sdiv y \<and> x sdiv y < 2 ^ 31"
proof (cases "\<bar>y\<bar> \<le> 1")
  case True
  then have "y = 0 \<or> y = 1 \<or> y = -1" by linarith
  then show ?thesis using assms by auto
next
  case False
  have "0 \<le> \<bar>x\<bar> div \<bar>y\<bar>" using False by (simp add: pos_imp_zdiv_nonneg_iff)
  then have "\<bar>x sdiv y\<bar> \<le> \<bar>x\<bar> div \<bar>y\<bar>"
    unfolding signed_divide_int_def abs_mult by (cases "x = 0"; cases
        "y = 0") (simp_all add: abs_sgn_eq)
  also have "\<dots> \<le> \<bar>x\<bar> div 2" using False by (intro zdiv_mono2) auto
  also have "\<dots> < 2 ^ 31" using assms(1,2) by auto
  finally show ?thesis by linarith
qed

lemma smod_int_bound: "(y :: int) \<noteq> 0 \<Longrightarrow> \<bar>x smod y\<bar> < \<bar>y\<bar>"
  by (auto simp: signed_modulo_int_def abs_mult sgn_if)

lemma smod_int_sgn: "(x :: int) smod y = 0 \<or> sgn (x smod y) = sgn x"
proof (cases "\<bar>x\<bar> mod \<bar>y\<bar> = 0")
  case False
  have "0 \<le> \<bar>x\<bar> mod \<bar>y\<bar>" by (cases "y = 0") simp_all
  with False show ?thesis by (simp add: signed_modulo_int_def sgn_mult)
qed (simp add: signed_modulo_int_def)

text \<open>Quotient and remainder of \<open>DIV\<close> and \<open>REM\<close> on every pair of operands.\<close>

lemma exec_div_rem:
  assumes "b \<noteq> 0" and "\<not> (sint a = I32_MIN \<and> sint b = -1)"
  shows "exec_div a b = Inr (word_of_int (sint a sdiv sint b))" and
      "exec_rem a b = Inr (word_of_int (sint a smod sint b))"
    and "sint (word_of_int (sint a sdiv sint b) :: u32) = sint a sdiv sint b"
    and "sint (word_of_int (sint a smod sint b) :: u32) = sint a smod sint b"
proof -
  have b: "sint b \<noteq> 0" using assms(1) by (metis sint_0 signed_word_eqI)
  show "exec_div a b = Inr (word_of_int (sint a sdiv sint b))"
      "exec_rem a b = Inr (word_of_int (sint a smod sint b))"
    using b assms(2) by (auto simp: exec_div_def exec_rem_def div_i32_def rem_i32_def Let_def)
  show "sint (word_of_int (sint a sdiv sint b) :: u32) = sint a sdiv sint b"
    using sdiv_i32_range[OF sint_u32, of a
        "sint b"] assms(2) by (intro sint_word_of_int) (auto simp: I32_MIN_def)
  have "\<bar>sint a smod sint b\<bar> < \<bar>sint b\<bar>" by (rule smod_int_bound[OF b])
  moreover have "\<bar>sint b\<bar> \<le> 2 ^ 31" using sint_u32[of b] by linarith
  ultimately show "sint (word_of_int (sint a smod sint b) :: u32) = sint a smod sint b"
    by (intro sint_word_of_int) linarith+
qed

lemma exec_div_rem_total: "\<exists>q r. exec_div a b = Inr q \<and> exec_rem a b = Inr r"
  by (auto simp: exec_div_def exec_rem_def div_i32_def rem_i32_def Let_def)

text \<open>
  Division is total and exact.  On every pair of operands, a zero divisor and the overflowing
  \<open>i32::MIN / -1\<close> included, \<open>DIV\<close> and \<open>REM\<close> return words with \<open>q * b + r = a\<close> in 32-bit arithmetic; for
  a non-zero divisor the remainder is smaller than the divisor and has the sign of the dividend, and
  without overflow the quotient is the truncated one.
\<close>

lemma div_rem_correct:
  "\<exists>q r. reg_alu Div a b = Inr q \<and> reg_alu Rem a b = Inr r \<and> q * b + r = a
     \<and> (if b = 0 then q = -1 \<and> r = a
        else \<bar>sint r\<bar> < \<bar>sint b\<bar> \<and> (r = 0 \<or> sgn (sint r) = sgn (sint a))
          \<and> sint q = (if sint a = I32_MIN \<and> sint b = -1 then I32_MIN else sint a sdiv sint b))"
proof (cases "b = 0 \<or> (sint a = I32_MIN \<and> sint b = -1)")
  case False
  then have nz: "b \<noteq> 0" and no: "\<not> (sint a = I32_MIN \<and> sint b = -1)" by auto
  note dr = exec_div_rem[OF nz no]
  have b: "sint b \<noteq> 0" using nz by (metis sint_0 signed_word_eqI)
  have "(word_of_int (sint a sdiv sint b) :: u32) * b + word_of_int (sint a smod sint b)
      = word_of_int (sint a sdiv sint b * sint b + sint a smod sint b)"
    by simp
  also have "\<dots> = a" by (simp add: sdiv_mult_smod_eq)
  finally have "(word_of_int (sint a sdiv sint b) :: u32) * b + word_of_int (sint a smod sint b) = a" .
  moreover have
      "(word_of_int (sint a smod sint b) :: u32) = 0 \<or> sgn (sint a smod sint b) = sgn (sint a)"
    using smod_int_sgn[of "sint a" "sint b"] by auto
  ultimately show ?thesis
    using dr smod_int_bound[OF b, of "sint a"] nz no by auto
next
  case True
  then show ?thesis
  proof
    assume "b = 0"
    then show ?thesis by (simp add: exec_div_def exec_rem_def)
  next
    assume m: "sint a = I32_MIN \<and> sint b = -1"
    then have "b = -1" by (metis sint_n1 signed_word_eqI)
    moreover have "word_of_int (sint a) = a" by simp
    then have "word_of_int I32_MIN = a" using m by simp
    moreover have "word_of_int I32_MIN * (-1) = (word_of_int I32_MIN :: u32)" by (simp add: I32_MIN_def)
    ultimately show ?thesis using m by (simp add: exec_div_def exec_rem_def)
  qed
qed

text \<open>The low word of the products, and the two ways to read an operand modulo \<open>2 ^ 32\<close>.\<close>

lemma uint_lo: "uint (ucast (P :: 64 word) :: u32) = uint P mod 2 ^ 32"
  by (simp add: unsigned_ucast_eq take_bit_eq_mod)

lemma uint_prod: "uint (ucast a * ucast b :: 64 word) = uint (a :: u32) * uint (b :: u32)"
proof -
  have "uint a < 2 ^ 32" "uint b < 2 ^ 32"
    using unsigned_less[where ?'a = int and w = a] unsigned_less[where ?'a = int and w = b] by simp_all
  moreover from this have "uint a * uint b < 2 ^ 64"
    using mult_strict_mono'[of "uint a" "2 ^ 32" "uint b" "2 ^ 32"] by simp
  ultimately show ?thesis
    by (simp add: uint_word_ariths unsigned_ucast_eq take_bit_int_eq_self)
qed

lemma sint_mod: "sint (a :: u32) mod 2 ^ 32 = uint a"
  using uint_sint[of a] by (simp add: take_bit_eq_mod)

lemma sint_prod:
  "sint (scast a * scast b :: 64 word) = sint (a :: u32) * sint (b :: u32)"
  "sint (scast a * ucast b :: 64 word) = sint (a :: u32) * uint (b :: u32)"
proof -
  have r: "\<bar>x * y\<bar> < 2 ^ 63" if "\<bar>x\<bar> \<le> 2 ^ 31" "\<bar>y\<bar> < 2 ^ 32" for x y :: int
  proof -
    have "\<bar>x * y\<bar> \<le> 2 ^ 31 * \<bar>y\<bar>" using that(1) by (simp add: abs_mult mult_right_mono)
    also have "\<dots> < 2 ^ 31 * 2 ^ 32" using that(2) by simp
    finally show ?thesis by simp
  qed
  have a: "\<bar>sint a\<bar> \<le> 2 ^ 31" using sint_u32[of a] by linarith
  have b: "\<bar>sint b\<bar> < 2 ^ 32" using sint_u32[of b] by auto
  have u: "\<bar>uint b\<bar> < 2 ^ 32" using unsigned_less[where ?'a = int and w = b] by simp
  have w: "sint (word_of_int k :: 64 word) = k" if "\<bar>k\<bar> < 2 ^ 63" for k
    using that by (simp add: signed_of_int signed_take_bit_int_eq_self)
  have "(scast a * scast b :: 64 word) = word_of_int (sint a * sint b)"
    by simp
  then show "sint (scast a * scast b :: 64 word) = sint a * sint b" by (simp only: w[OF r[OF a b]])
  have "(scast a * ucast b :: 64 word) = word_of_int (sint a * uint b)" by simp
  then show "sint (scast a * ucast b :: 64 word) = sint a * uint b" by (simp only: w[OF r[OF a u]])
qed

lemma sint_hi: "sint (ucast (signed_drop_bit 32 (P :: 64 word)) :: u32) = sint P div 2 ^ 32"
proof -
  have "sint (ucast (signed_drop_bit 32 P) :: u32) = drop_bit 32 (sint P)"
    by (rule bit_eqI) (auto simp: bit_simps min_def)
  then show ?thesis by (simp only: drop_bit_eq_div)
qed

lemma uint_hi: "uint (ucast (drop_bit 32 (P :: 64 word)) :: u32) = uint P div 2 ^ 32"
proof -
  have "uint (ucast (drop_bit 32 P) :: u32) = drop_bit 32 (uint P)"
    by (rule bit_eqI) (auto simp: bit_simps dest: bit_imp_le_length)
  then show ?thesis by (simp only: drop_bit_eq_div)
qed

text \<open>
  The high and low words of a product.  \<open>MUL\<close> with \<open>MULHU\<close>, \<open>MULH\<close> and \<open>MULHSU\<close> gives the full
  64-bit unsigned, signed and mixed product of the operands.
\<close>

lemma mul_high_low:
  "\<exists>lo hu hs hsu. reg_alu Mul a b = Inr lo \<and> reg_alu Mulhu a b = Inr hu \<and> reg_alu Mulh a b = Inr hs
     \<and> reg_alu Mulhsu a b = Inr hsu
     \<and> uint hu * 2 ^ 32 + uint lo = uint a * uint b
     \<and> sint hs * 2 ^ 32 + uint lo = sint a * sint b
     \<and> sint hsu * 2 ^ 32 + uint lo = sint a * uint b"
proof -
  let ?lo = "ucast (ucast a * ucast b :: 64 word) :: u32"
  have lo: "uint ?lo = uint a * uint b mod 2 ^ 32" by (simp add: uint_lo uint_prod)
  have ms: "sint a * sint b mod 2 ^ 32 = uint ?lo" "sint a * uint b mod 2 ^ 32 = uint ?lo"
    using mod_mult_eq[of "sint a" "2 ^ 32" "sint b"] mod_mult_left_eq[of "sint a" "2 ^ 32" "uint b"]
    unfolding lo sint_mod by simp_all
  have hu: "uint (ucast (drop_bit 32 (ucast a * ucast b :: 64 word)) :: u32) * 2 ^ 32 + uint ?lo
      = uint a * uint b"
    unfolding uint_hi uint_prod lo by (rule div_mult_mod_eq)
  have hs: "sint (ucast (signed_drop_bit 32 (scast a * scast b :: 64 word)) :: u32) * 2 ^ 32 + uint ?lo
      = sint a * sint b"
    unfolding sint_hi sint_prod ms(1)[symmetric] by (rule div_mult_mod_eq)
  have hsu: "sint (ucast (signed_drop_bit 32 (scast a * ucast b :: 64 word)) :: u32) * 2 ^ 32 + uint ?lo
      = sint a * uint b"
    unfolding sint_hi sint_prod ms(2)[symmetric] by (rule div_mult_mod_eq)
  show ?thesis
    unfolding reg_alu.simps by (intro exI conjI, (rule refl)+, rule hu, rule hs, rule hsu)
qed

section \<open>The machine invariant\<close>

text \<open>32 registers, \<open>x0\<close> zero, and a memory within its limit.\<close>

definition vm_ok :: "vm_state \<Rightarrow> bool" where
  "vm_ok s \<longleftrightarrow> length (vm_registers s) = 32 \<and> vm_registers s ! 0 = 0 \<and> mem_ok (vm_memory s)"

text \<open>The registers as the program sees them.\<close>

definition reg :: "vm_state \<Rightarrow> byte \<Rightarrow> u32" where
  "reg s i = vm_registers s ! unat i"

lemma register_index: "i < 32 \<Longrightarrow> unat (i :: byte) < 32"
  by (simp add: word_less_nat_alt)

lemma read_register_ok: "vm_ok s \<Longrightarrow> i < 32 \<Longrightarrow> read_register s i = Inr (reg s i)"
  using register_index[of i] by (auto simp: read_register_def vm_ok_def idx_def reg_def)

lemma write_register_ok:
  assumes "vm_ok s" and "i < 32"
  shows "\<exists>s'. write_register s i v = Inr s' \<and> vm_ok s' \<and> vm_pc s' = vm_pc s \<and> vm_memory s' = vm_memory s
    \<and> (\<forall>j < 32. reg s' j = (if j = i \<and> i \<noteq> 0 then v else reg s j))"
proof (cases "i = 0")
  case True
  with assms(1) show ?thesis by (simp add: write_register_def)
next
  case False
  let ?s = "s\<lparr>vm_registers := (vm_registers s)[unat i := v]\<rparr>"
  have i: "unat i < length (vm_registers s)" "unat i \<noteq> 0"
    using register_index[OF assms(2)] assms(1) False by (simp_all add: vm_ok_def unat_eq_zero)
  then have "write_register s i v = Inr ?s" using False by (simp add: write_register_def set_idx_def)
  moreover have "vm_ok ?s" using assms(1) i by (simp add: vm_ok_def)
  moreover have "reg ?s j = (if j = i then v else reg s j)" if "j < 32" for j
    using i by (auto simp: reg_def word_unat_eq_iff)
  ultimately show ?thesis using False by auto
qed

lemma safe_write_register:
  assumes "vm_ok s" and "i < 32"
  shows "safe (\<lambda>s'. vm_ok s' \<and> vm_pc s' = vm_pc s \<and> vm_memory s' = vm_memory s) (write_register s i v)"
  using write_register_ok[OF assms, of v] by auto

lemma safe_write_byte: "mem_ok m \<Longrightarrow> safe mem_ok (write_byte m a v)"
  using write_byte_fails[of m a v] write_byte_succeeds[of m a v] by (cases "can_allocate m a") auto

lemma safe_stores: "mem_ok m \<Longrightarrow> safe mem_ok (mem.stores m avs)"
proof (induction avs arbitrary: m)
  case Nil
  then show ?case by (simp add: mem.stores_def)
next
  case (Cons av avs)
  obtain a v where "av = (a, v)" by (cases av)
  moreover have "safe mem_ok (rbind (write_byte m a v) (\<lambda>m'. mem.stores m' avs))"
    by (rule safe_rbind[OF safe_write_byte[OF Cons.prems]]) (rule Cons.IH)
  ultimately show ?case by (simp add: mem.stores_def)
qed

lemma safe_with_memory:
  "safe mem_ok r \<Longrightarrow> vm_ok s \<Longrightarrow>
   safe (\<lambda>s'. vm_ok s' \<and> vm_registers s' = vm_registers s \<and> vm_pc s' = vm_pc s) (with_memory s r)"
  unfolding with_memory_def by (erule safe_rbind) (simp add: vm_ok_def)

lemma safe_write_memory:
  assumes "vm_ok s"
  shows "safe (\<lambda>s'. vm_ok s' \<and> vm_registers s' = vm_registers s \<and> vm_pc s'
      = vm_pc s) (write_memory_byte s a b)"
    and "safe (\<lambda>s'. vm_ok s' \<and> vm_registers s' = vm_registers s \<and> vm_pc s'
        = vm_pc s) (write_memory_halfword s a h)"
    and "safe (\<lambda>s'. vm_ok s' \<and> vm_registers s' = vm_registers s \<and> vm_pc s'
        = vm_pc s) (write_memory_word s a w)"
proof -
  have m: "mem_ok (vm_memory s)" using assms by (simp add: vm_ok_def)
  show "safe (\<lambda>s'. vm_ok s' \<and> vm_registers s' = vm_registers s \<and> vm_pc s'
      = vm_pc s) (write_memory_byte s a b)"
    unfolding write_memory_byte_def by (intro safe_with_memory safe_write_byte m assms)
  show "safe (\<lambda>s'. vm_ok s' \<and> vm_registers s' = vm_registers s \<and> vm_pc s'
      = vm_pc s) (write_memory_halfword s a h)"
    unfolding write_memory_halfword_def
    by (intro safe_if) (simp_all only: write_half_stores[OF aligned_half_room] safe_simps not_not
        safe_with_memory[OF safe_stores[OF m] assms])
  show "safe (\<lambda>s'. vm_ok s' \<and> vm_registers s' = vm_registers s \<and> vm_pc s'
      = vm_pc s) (write_memory_word s a w)"
    unfolding write_memory_word_def
    by (intro safe_if) (simp_all only: write_word_stores[OF aligned_word_room] safe_simps not_not
        safe_with_memory[OF safe_stores[OF m] assms])
qed

lemma safe_read_byte: "mem_ok m \<Longrightarrow> safe (\<lambda>_. True) (read_byte m a)"
  by (simp add: read_byte_content split: option.split)

lemma safe_next_addr: "safe (\<lambda>_. True) (next_addr a k)"
  by (simp add: next_addr_def ok_or_def split: option.split)

lemma safe_read_memory:
  assumes "vm_ok s"
  shows "safe (\<lambda>_. True) (read_memory_byte s a)" and "safe (\<lambda>_. True) (read_memory_halfword s a)"
    and "safe (\<lambda>_. True) (read_memory_word s a)"
proof -
  have m: "mem_ok (vm_memory s)" using assms by (simp add: vm_ok_def)
  note r = safe_read_byte[OF m]
  have n: "safe (\<lambda>_. True) (rbind (next_addr a k) (read_byte (vm_memory s)))" for a k
    by (rule safe_rbind[OF safe_next_addr]) (rule r)
  show "safe (\<lambda>_. True) (read_memory_byte s a)" by (simp add: read_memory_byte_def r)
  show "safe (\<lambda>_. True) (read_memory_halfword s a)"
    unfolding read_memory_halfword_def read_halfword_raw_def
    by (intro safe_if safe_rbind[OF r] safe_rbind[OF n]) simp_all
  show "safe (\<lambda>_. True) (read_memory_word s a)"
    unfolding read_memory_word_def read_word_raw_def
    by (intro safe_if safe_rbind[OF r] safe_rbind[OF n]) simp_all
qed

section \<open>One step keeps the invariant\<close>

definition steps_to :: "vm_state \<Rightarrow> instruction \<Rightarrow> step_log \<times> vm_state \<Rightarrow> bool" where
  "steps_to s i r \<longleftrightarrow> (case r of (log, s') \<Rightarrow> vm_ok s' \<and> sl_pc log = vm_pc s \<and> sl_instruction log = i
     \<and> sl_registers log = vm_registers s' \<and> length (sl_mem_access log) \<le> 1)"

lemma steps_to_finalize:
  "vm_ok s' \<Longrightarrow> pc
      = vm_pc s \<Longrightarrow> length accesses \<le> 1 \<Longrightarrow> safe (steps_to s i) (finalize_steplog pc i s' accesses)"
  by (simp add: finalize_steplog_def steps_to_def)

lemma vm_ok_pc [simp]: "vm_ok (s\<lparr>vm_pc := p\<rparr>) \<longleftrightarrow> vm_ok s"
  by (simp add: vm_ok_def)

lemma steps_to_next:
  "vm_ok s' \<Longrightarrow> pc = vm_pc s \<Longrightarrow> length accesses \<le> 1 \<Longrightarrow> safe (steps_to s i) (next_step pc i s' accesses)"
  unfolding next_step_def by (intro steps_to_finalize) simp_all

lemma unat_and_1F: "unat (b AND 0x1F :: u32) < 32"
proof -
  have "unat (b AND 0x1F) = take_bit 5 (unat b)" by (simp only: and_masks unsigned_take_bit_eq)
  then show ?thesis using take_bit_nat_less_exp[of 5 "unat b"] by simp
qed

lemma safe_reg_alu: "safe (\<lambda>_. True) (reg_alu op a b)"
proof -
  obtain q r where "exec_div a b = Inr q"
      "exec_rem a b = Inr r" using exec_div_rem_total[of a b] by blast
  then show ?thesis using unat_and_1F[of b] by (cases op) (simp_all add: shift_checked_def)
qed

lemma safe_shift_alu: "shamt < 32 \<Longrightarrow> safe (\<lambda>_. True) (shift_alu op a shamt)"
  using register_index[of shamt] by (cases op) (simp_all add: shift_checked_def)

lemma safe_load:
  assumes "vm_ok s" and "rd < 32" and "rs1 < 32"
  shows "safe (\<lambda>(s', ma). vm_ok s') (exec_load op rd rs1 imm s)"
proof -
  have v: "safe (\<lambda>_. True) (load_value op s a)" for a
    by (cases op) (auto intro!: safe_rbind[OF safe_read_memory(1)] safe_rbind[OF safe_read_memory(2)]
        safe_rbind[OF safe_read_memory(3)] assms(1))
  show ?thesis
    unfolding exec_load_def read_register_ok[OF assms(1,3)] Let_def rbind_simps
    by (auto intro!: safe_rbind[OF v] safe_rbind[OF safe_write_register[OF assms(1,2)]])
qed

lemma safe_store:
  assumes "vm_ok s" and "rs1 < 32" and "rs2 < 32"
  shows "safe (\<lambda>(s', ma). vm_ok s') (exec_store op rs1 rs2 imm s)"
proof -
  have v: "safe (\<lambda>(s', size). vm_ok s') (store_value op s a val)" for a val
    by (cases op) (auto intro!: safe_rbind[OF safe_write_memory(1)[OF assms(1)]]
        safe_rbind[OF safe_write_memory(2)[OF assms(1)]] safe_rbind[OF safe_write_memory(3)[OF
            assms(1)]])
  show ?thesis
    unfolding exec_store_def read_register_ok[OF assms(1,2)] read_register_ok[OF assms(1,3)] Let_def
        rbind_simps
    by (auto intro!: safe_rbind[OF v])
qed

lemma safe_execute:
  assumes ok: "vm_ok s" and can: "canonical i"
  shows "safe (steps_to s i) (execute s i)"
proof -
  have w: "safe (steps_to s j) (rbind (write_register s rd v) f)"
    if "rd < 32" "\<And>s'. vm_ok s' \<Longrightarrow> safe (steps_to s j) (f s')" for rd v f j
    by (rule safe_rbind[OF safe_write_register[OF ok that(1)]]) (auto intro: that(2))
  show ?thesis
  proof (cases i)
    case (Load op rd rs1 imm)
    with can ok show ?thesis by (auto intro!: safe_rbind[OF safe_load] steps_to_next)
  next
    case (Store op rs1 rs2 imm)
    with can ok show ?thesis by (auto intro!: safe_rbind[OF safe_store] steps_to_next)
  qed (use can ok in \<open>auto simp: read_register_ok Let_def
        intro!: w steps_to_next steps_to_finalize safe_rbind[OF safe_reg_alu] safe_rbind[OF
            safe_shift_alu]\<close>)
qed

text \<open>
  C29: one step.  Executing a canonical instruction, as the decoder produces them, in a machine with 32
  registers, a zero \<open>x0\<close> and a memory within its limit never panics: it fails with an error or reaches
  such a machine again, and its log holds the old \<open>pc\<close>, the instruction, the new registers and at most
  one memory access.
\<close>

theorem execute_keeps_invariant:
  assumes "vm_ok s" and "canonical i"
  shows "(\<exists>e. execute s i = Inl (Fail e))
    \<or> (\<exists>log s'. execute s i = Inr (log, s') \<and> vm_ok s' \<and> sl_pc log = vm_pc s \<and> sl_instruction log = i
         \<and> sl_registers log = vm_registers s' \<and> length (sl_mem_access log) \<le> 1)"
  using safe_execute[OF assms] by (auto simp: safe_def steps_to_def split: sum.splits fault.splits)

lemma new_vm_ok: "vm_ok new_vm"
  by (simp add: vm_ok_def new_vm_def new_memory_ok)

theorem execute_keeps_invariant_witness:
  "\<exists>log s'. execute new_vm (OpImm Addi 5 0 7) = Inr (log, s') \<and> vm_ok s'"
proof -
  have "\<exists>log s'. execute new_vm (OpImm Addi 5 0 7) = Inr (log, s')"
    by (simp add: read_register_def write_register_def new_vm_def set_idx_def next_step_def
        finalize_steplog_def)
  moreover have "canonical (OpImm Addi 5 0 7)" by (simp add: fits_def)
  ultimately show ?thesis using execute_keeps_invariant[OF new_vm_ok] by fastforce
qed

section \<open>The memory accesses of the log\<close>

text \<open>\<open>holds m a n v\<close>: the \<open>n\<close> bytes from \<open>a\<close> on are the low bytes of \<open>v\<close>.\<close>

definition holds :: "memory_map \<Rightarrow> u32 \<Rightarrow> nat \<Rightarrow> u32 \<Rightarrow> bool" where
  "holds m a n v \<longleftrightarrow> (\<forall>k < n. read_byte m (a + of_nat k) = Inr (le_bytes 4 v ! k))"

lemma le_bytes_ucast:
  "le_bytes 4 (ucast (b :: byte) :: u32) ! 0 = b"
  "k < 2 \<Longrightarrow> le_bytes 4 (ucast (h :: 16 word) :: u32) ! k = le_bytes 2 h ! k"
  "le_bytes 4 w ! 0 = ucast w"
  "k < 2 \<Longrightarrow> le_bytes 2 (ucast w :: 16 word) ! k = le_bytes 4 (w :: u32) ! k"
proof -
  have u: "ucast (ucast b :: u32) = b" by (rule bit_word_eqI) (auto simp: bit_simps)
  then show "le_bytes 4 (ucast b :: u32) ! 0 = b" by (simp add: numeral_eq_Suc)
  show "le_bytes 4 w ! 0 = ucast w" by (simp add: numeral_eq_Suc)
  have h: "ucast (ucast h :: u32) = (ucast h :: byte)"
      "ucast (drop_bit 8 (ucast h :: u32)) = (ucast (drop_bit 8 h) :: byte)"
    by (rule bit_word_eqI, auto simp: bit_simps)+
  show "le_bytes 4 (ucast h :: u32) ! k = le_bytes 2 h ! k" if "k < 2"
  proof -
    have "k = 0 \<or> k = 1" using that by auto
    then show ?thesis using h by (auto simp: numeral_eq_Suc)
  qed
  have w: "ucast (ucast w :: 16 word) = (ucast w :: byte)"
      "ucast (drop_bit 8 (ucast w :: 16 word)) = (ucast (drop_bit 8 w) :: byte)"
    by (rule bit_word_eqI, auto simp: bit_simps)+
  show "le_bytes 2 (ucast w :: 16 word) ! k = le_bytes 4 w ! k" if "k < 2"
  proof -
    have "k = 0 \<or> k = 1" using that by auto
    then show ?thesis using w by (auto simp: numeral_eq_Suc)
  qed
qed

lemma next_addr_Inr: "next_addr a k = Inr x \<Longrightarrow> x = a + k"
  by (auto simp: next_addr_def outcome_simps checked_add_u32_def split: if_splits)

lemma holds_word: "read_word_raw m a = Inr w \<Longrightarrow> holds m a 4 w"
proof -
  assume "read_word_raw m a = Inr w"
  then obtain b0 b1 b2 b3 where b: "read_byte m a = Inr b0" "read_byte m (a + 1) = Inr b1"
      "read_byte m (a + 2) = Inr b2" "read_byte m (a + 3) = Inr b3" and w:
          "w = le_value [b0, b1, b2, b3]"
    by (auto simp: read_word_raw_def outcome_simps dest!: next_addr_Inr)
  have bs: "le_bytes 4 w = [b0, b1, b2, b3]"
    using le_bytes_le_value[of "[b0, b1, b2, b3]", where ?'a = 32] by (simp add: w numeral_eq_Suc)
  have "read_byte m (a + of_nat k) = Inr ([b0, b1, b2, b3] ! k)" if "k < 4" for k
  proof -
    have "k = 0 \<or> k = 1 \<or> k = 2 \<or> k = 3" using that by auto
    then show ?thesis using b by auto
  qed
  then show ?thesis by (simp add: holds_def bs)
qed

lemma holds_half: "read_halfword_raw m a = Inr h \<Longrightarrow> holds m a 2 (ucast h)"
proof -
  assume "read_halfword_raw m a = Inr h"
  then obtain b0 b1 where b: "read_byte m a = Inr b0" "read_byte m (a + 1) = Inr b1" and h:
      "h = le_value [b0, b1]"
    by (auto simp: read_halfword_raw_def outcome_simps dest!: next_addr_Inr)
  have bs: "le_bytes 2 h = [b0, b1]"
    using le_bytes_le_value[of "[b0, b1]", where ?'a = 16] by (simp add: h numeral_eq_Suc)
  have "read_byte m (a + of_nat k) = Inr ([b0, b1] ! k)" if "k < 2" for k
  proof -
    have "k = 0 \<or> k = 1" using that by auto
    then show ?thesis using b by auto
  qed
  then show ?thesis by (simp add: holds_def le_bytes_ucast bs)
qed

lemma load_value_holds:
  assumes "load_value op s a = Inr (val, raw, sz)"
  shows "holds (vm_memory s) a (unat sz) raw"
proof -
  have byte: "holds m a (Suc 0) (ucast b)" if "read_byte m a = Inr b" for m and b :: byte
    using that by (simp add: holds_def le_bytes_ucast(1))
  show ?thesis using assms
    by (cases op) (auto simp: outcome_simps read_memory_byte_def read_memory_halfword_def
        read_memory_word_def
        byte holds_half holds_word split: if_splits)
qed

lemma store_value_holds:
  assumes "mem_ok (vm_memory s)" and "store_value op s a v = Inr (s', sz)"
  shows "holds (vm_memory s') a (unat sz) v"
proof (cases op)
  case Sb
  with assms(2) obtain m' where w: "write_byte (vm_memory s) a (ucast v) = Inr m'"
      "s' = s\<lparr>vm_memory := m'\<rparr>" "sz = 1"
    by (auto simp: outcome_simps write_memory_byte_def with_memory_def)
  with mem.load_store[OF assms(1) w(1)] show ?thesis by (simp add: holds_def le_bytes_ucast(3))
next
  case Sh
  with assms(2) have al:
      "a mod 2 = 0" by (auto simp: outcome_simps write_memory_halfword_def split: if_splits)
  with Sh assms(2) write_half_stores[OF aligned_half_room[OF al]] obtain m'
    where w: "mem.stores (vm_memory s) (zip (half_addrs a) (le_bytes 2 (ucast v :: 16 word))) = Inr m'"
      "s' = s\<lparr>vm_memory := m'\<rparr>" "sz = 2"
    by (auto simp: outcome_simps write_memory_halfword_def with_memory_def)
  have "read_byte m' (half_addrs a ! k) = Inr (le_bytes 2 (ucast v :: 16 word) ! k)" if "k < 2" for k
    using mem.load_stores_nth[OF assms(1) w(1) distinct_addrs(2), of k] that by (simp add:
        half_addrs_def)
  moreover have "half_addrs a ! k = a + of_nat k" if "k < 2" for k
    using that by (auto simp: half_addrs_def less_2_cases_iff)
  ultimately show ?thesis using w(2,3) by (simp add: holds_def le_bytes_ucast(4))
next
  case Sw
  with assms(2) have al:
      "a mod 4 = 0" by (auto simp: outcome_simps write_memory_word_def split: if_splits)
  with Sw assms(2) write_word_stores[OF aligned_word_room[OF al]] obtain m'
    where w: "mem.stores (vm_memory s) (zip (word_addrs a) (le_bytes 4 v)) = Inr m'"
      "s' = s\<lparr>vm_memory := m'\<rparr>" "sz = 4"
    by (auto simp: outcome_simps write_memory_word_def with_memory_def)
  have "read_byte m' (word_addrs a ! k) = Inr (le_bytes 4 v ! k)" if "k < 4" for k
    using mem.load_stores_nth[OF assms(1) w(1) distinct_addrs(1), of k] that by (simp add:
        word_addrs_def)
  moreover have "word_addrs a ! k = a + of_nat k" if "k < 4" for k
  proof -
    have "k = 0 \<or> k = 1 \<or> k = 2 \<or> k = 3" using that by auto
    then show ?thesis by (auto simp: word_addrs_def)
  qed
  ultimately show ?thesis using w(2,3) by (simp add: holds_def)
qed

text \<open>
  The log is faithful.  A read of the log records the bytes that were in memory before the step and
  leaves the memory alone; a write records a value whose low bytes are in memory after the step.
\<close>

lemma access_log_faithful:
  assumes "vm_ok s" and "execute s i = Inr (log, s')" and "ma \<in> set (sl_mem_access log)"
  shows "case ma_op ma of
      Read \<Rightarrow> holds (vm_memory s) (ma_addr ma) (unat (ma_size ma)) (ma_value ma) \<and> vm_memory s'
          = vm_memory s
    | Write \<Rightarrow> holds (vm_memory s') (ma_addr ma) (unat (ma_size ma)) (ma_value ma)"
proof -
  have m: "mem_ok (vm_memory s)" using assms(1) by (simp add: vm_ok_def)
  have wr: "write_register t r v = Inr t' \<Longrightarrow> vm_memory t' = vm_memory t" for t t' r v
    by (auto simp: write_register_def outcome_simps split: if_splits)
  show ?thesis
  proof (cases i)
    case (Load op rd rs1 imm)
    with assms(2,3) show ?thesis
      by (auto simp: outcome_simps exec_load_def Let_def next_step_def finalize_steplog_def
          dest: load_value_holds wr)
  next
    case (Store op rs1 rs2 imm)
    with assms(2,3) show ?thesis
      by (auto simp: outcome_simps exec_store_def Let_def next_step_def finalize_steplog_def
          dest: store_value_holds[OF m])
  qed (use assms(2,3) in \<open>auto simp: outcome_simps Let_def next_step_def finalize_steplog_def split:
      if_splits\<close>)
qed

lemma zero_store:
  "\<exists>log s'. execute new_vm (Store Sw 0 0 8) = Inr (log, s')
     \<and> sl_mem_access log = [\<lparr>ma_addr = 8, ma_op = Write, ma_value = 0, ma_size = 4\<rparr>]"
proof -
  have ok: "mem_ok (vm_memory new_vm)" using new_vm_ok by (simp add: vm_ok_def)
  obtain s1 where "write_memory_word new_vm 8 0 = Inr s1"
    unfolding write_memory_word_cases[OF ok]
    by (simp add: can_allocate_def new_vm_def new_memory_def MAX_ZKVM_MEMORY_def)
  then show ?thesis
    by (simp add: exec_store_def read_register_def next_step_def finalize_steplog_def)
qed

text \<open>
  A load word after a store word.  When \<open>SW rs2, imm(rs1)\<close> succeeds, \<open>LW rd, imm(rs1)\<close> succeeds in
  the resulting machine and, unless \<open>rd\<close> is \<open>x0\<close>, puts the stored register value into \<open>rd\<close>.
\<close>

lemma store_load_instructions:
  assumes "vm_ok s" and "rs1 < 32" and "rs2 < 32" and "rd < 32"
    and "execute s (Store Sw rs1 rs2 imm) = Inr (log, s1)"
  shows "\<exists>log' s2. execute s1 (Load Lw rd rs1 imm) = Inr (log', s2)
    \<and> reg s2 rd = (if rd = 0 then 0 else reg s rs2) \<and> vm_memory s2 = vm_memory s1"
proof -
  have m: "mem_ok (vm_memory s)" using assms(1) by (simp add: vm_ok_def)
  from assms(5) obtain t where t: "write_memory_word s (reg s rs1 + imm) (reg s rs2) = Inr t"
      and s1: "s1 = t\<lparr>vm_pc := vm_pc s + 4\<rparr>"
    by (auto simp: exec_store_def read_register_ok[OF assms(1,2)] read_register_ok[OF assms(1,3)]
        outcome_simps
        next_step_def finalize_steplog_def Let_def)
  note st = store_word_effect[OF m t]
  have ok1: "vm_ok s1" and reg1: "reg s1 rs1 = reg s rs1"
    using st assms(1) s1 by (simp_all add: vm_ok_def reg_def)
  have "read_memory_word s1 (reg s rs1 + imm) = read_memory_word t (reg s rs1 + imm)"
    by (simp add: s1 read_memory_word_def)
  then have ld: "load_value Lw s1 (reg s rs1 + imm) = Inr (reg s rs2, reg s rs2, 4)"
    using st by simp
  from write_register_ok[OF ok1 assms(4), of "reg s rs2"] obtain s2 where s2:
      "write_register s1 rd (reg s rs2) = Inr s2"
      "vm_memory s2 = vm_memory s1"
          "reg s2 rd = (if rd = 0 then reg s1 rd else reg s rs2)" using assms(4) by auto
  have "reg s1 0 = 0" using ok1 by (simp add: reg_def vm_ok_def)
  moreover have "exec_load Lw rd rs1 imm s1
      = Inr (s2, \<lparr>ma_addr = reg s rs1 + imm, ma_op = Read, ma_value = reg s rs2, ma_size = 4\<rparr>)"
    by (simp only: exec_load_def read_register_ok[OF ok1 assms(2)] reg1 rbind_simps Let_def ld
        prod.case s2(1))
  moreover have "reg (s2\<lparr>vm_pc := p\<rparr>) rd = reg s2 rd" for p by (simp add: reg_def)
  ultimately show ?thesis using s2(2,3) by (simp add: next_step_def finalize_steplog_def)
qed

end
