(* ===== verification/Syscalls.thy ===== *)
theory Syscalls
  imports Rv32Exec
begin

text \<open>
  \<^verbatim>\<open>poker_zkvm/src/syscalls/mod.rs\<close> and \<^verbatim>\<open>syscalls/gas.rs\<close>: the identifiers of the system calls, the
  context they share, the registry that dispatches them and their gas.  A \<open>dyn Syscall\<close> is the record of
  its methods; the values of the cryptographic libraries are opaque, of type \<open>'v\<close>.
\<close>

section \<open>Identifiers\<close>

text \<open>The variants of \<open>SyscallId\<close>, in the groups of their name spaces.\<close>

datatype base_call =
    ReadInput | CommitOutput | Poseidon | Sha256 | EcdsaVerify | EmitEvent | Log | PanicCall
  | GetRandomness | ReadState | Keccak256 | Modexp | MerkleVerify | Ed25519Verify | Bn254Pairing

datatype bls_call =
    HashToCurve | ScalarMul | G1Add | G1Mul | Pairing | HashToScalar
  | ScalarAdd | ScalarSub | ScalarNeg | ScalarInv | G1Sub | G1Generator

datatype game_call =
    GameStateRead | GameStateWrite | CardEncode | CardDecode | ShuffleVerify
  | Blake2b256 | VerifyDleqProof | VerifyReconstructProof | VerifyRevealTokenProof

datatype syscall_id = Base base_call | Bls12381 bls_call | Game game_call

text \<open>\<open>id as u32\<close>.\<close>

fun base_code :: "base_call \<Rightarrow> u32" where
  "base_code ReadInput = 0x01"
| "base_code CommitOutput = 0x02"
| "base_code Poseidon = 0x03"
| "base_code Sha256 = 0x04"
| "base_code EcdsaVerify = 0x05"
| "base_code EmitEvent = 0x06"
| "base_code Log = 0x07"
| "base_code PanicCall = 0x08"
| "base_code GetRandomness = 0x09"
| "base_code ReadState = 0x0A"
| "base_code Keccak256 = 0x0B"
| "base_code Modexp = 0x0C"
| "base_code MerkleVerify = 0x0D"
| "base_code Ed25519Verify = 0x0E"
| "base_code Bn254Pairing = 0x0F"

fun bls_code :: "bls_call \<Rightarrow> u32" where
  "bls_code HashToCurve = 0x10"
| "bls_code ScalarMul = 0x11"
| "bls_code G1Add = 0x12"
| "bls_code G1Mul = 0x13"
| "bls_code Pairing = 0x14"
| "bls_code HashToScalar = 0x15"
| "bls_code ScalarAdd = 0x16"
| "bls_code ScalarSub = 0x17"
| "bls_code ScalarNeg = 0x18"
| "bls_code ScalarInv = 0x19"
| "bls_code G1Sub = 0x1A"
| "bls_code G1Generator = 0x1B"

fun game_code :: "game_call \<Rightarrow> u32" where
  "game_code GameStateRead = 0x20"
| "game_code GameStateWrite = 0x21"
| "game_code CardEncode = 0x30"
| "game_code CardDecode = 0x31"
| "game_code ShuffleVerify = 0x32"
| "game_code Blake2b256 = 0x33"
| "game_code VerifyDleqProof = 0x34"
| "game_code VerifyReconstructProof = 0x35"
| "game_code VerifyRevealTokenProof = 0x36"

fun syscall_code :: "syscall_id \<Rightarrow> u32" where
  "syscall_code (Base c) = base_code c"
| "syscall_code (Bls12381 c) = bls_code c"
| "syscall_code (Game c) = game_code c"

definition base_of :: "u32 \<Rightarrow> base_call option" where
  "base_of w =
     (if w = 0x01 then Some ReadInput
      else if w = 0x02 then Some CommitOutput
      else if w = 0x03 then Some Poseidon
      else if w = 0x04 then Some Sha256
      else if w = 0x05 then Some EcdsaVerify
      else if w = 0x06 then Some EmitEvent
      else if w = 0x07 then Some Log
      else if w = 0x08 then Some PanicCall
      else if w = 0x09 then Some GetRandomness
      else if w = 0x0A then Some ReadState
      else if w = 0x0B then Some Keccak256
      else if w = 0x0C then Some Modexp
      else if w = 0x0D then Some MerkleVerify
      else if w = 0x0E then Some Ed25519Verify
      else if w = 0x0F then Some Bn254Pairing
      else None)"

definition bls_of :: "u32 \<Rightarrow> bls_call option" where
  "bls_of w =
     (if w = 0x10 then Some HashToCurve
      else if w = 0x11 then Some ScalarMul
      else if w = 0x12 then Some G1Add
      else if w = 0x13 then Some G1Mul
      else if w = 0x14 then Some Pairing
      else if w = 0x15 then Some HashToScalar
      else if w = 0x16 then Some ScalarAdd
      else if w = 0x17 then Some ScalarSub
      else if w = 0x18 then Some ScalarNeg
      else if w = 0x19 then Some ScalarInv
      else if w = 0x1A then Some G1Sub
      else if w = 0x1B then Some G1Generator
      else None)"

definition game_of :: "u32 \<Rightarrow> game_call option" where
  "game_of w =
     (if w = 0x20 then Some GameStateRead
      else if w = 0x21 then Some GameStateWrite
      else if w = 0x30 then Some CardEncode
      else if w = 0x31 then Some CardDecode
      else if w = 0x32 then Some ShuffleVerify
      else if w = 0x33 then Some Blake2b256
      else if w = 0x34 then Some VerifyDleqProof
      else if w = 0x35 then Some VerifyReconstructProof
      else if w = 0x36 then Some VerifyRevealTokenProof
      else None)"

definition from_u32 :: "u32 \<Rightarrow> (zkvm_error, syscall_id) outcome" where
  "from_u32 w =
     (case base_of w of Some c \<Rightarrow> Inr (Base c)
      | None \<Rightarrow> (case bls_of w of Some c \<Rightarrow> Inr (Bls12381 c)
      | None \<Rightarrow> (case game_of w of Some c \<Rightarrow> Inr (Game c)
      | None \<Rightarrow> Inl (Fail (Other (UnknownSyscall w))))))"

definition all_syscalls :: "syscall_id list" where
  "all_syscalls =
     map Base [ReadInput, CommitOutput, Poseidon, Sha256, EcdsaVerify, EmitEvent, Log, PanicCall,
       GetRandomness, ReadState, Keccak256, Modexp, MerkleVerify, Ed25519Verify, Bn254Pairing]
     @ map Bls12381 [HashToCurve, ScalarMul, G1Add, G1Mul, Pairing, HashToScalar, ScalarAdd, ScalarSub,
       ScalarNeg, ScalarInv, G1Sub, G1Generator]
     @ map Game [GameStateRead, GameStateWrite, CardEncode, CardDecode, ShuffleVerify, Blake2b256,
       VerifyDleqProof, VerifyReconstructProof, VerifyRevealTokenProof]"

fun base_index :: "base_call \<Rightarrow> nat" where
  "base_index ReadInput = 0"
| "base_index CommitOutput = 1"
| "base_index Poseidon = 2"
| "base_index Sha256 = 3"
| "base_index EcdsaVerify = 4"
| "base_index EmitEvent = 5"
| "base_index Log = 6"
| "base_index PanicCall = 7"
| "base_index GetRandomness = 8"
| "base_index ReadState = 9"
| "base_index Keccak256 = 10"
| "base_index Modexp = 11"
| "base_index MerkleVerify = 12"
| "base_index Ed25519Verify = 13"
| "base_index Bn254Pairing = 14"

fun bls_index :: "bls_call \<Rightarrow> nat" where
  "bls_index HashToCurve = 15"
| "bls_index ScalarMul = 16"
| "bls_index G1Add = 17"
| "bls_index G1Mul = 18"
| "bls_index Pairing = 19"
| "bls_index HashToScalar = 20"
| "bls_index ScalarAdd = 21"
| "bls_index ScalarSub = 22"
| "bls_index ScalarNeg = 23"
| "bls_index ScalarInv = 24"
| "bls_index G1Sub = 25"
| "bls_index G1Generator = 26"

fun game_index :: "game_call \<Rightarrow> nat" where
  "game_index GameStateRead = 27"
| "game_index GameStateWrite = 28"
| "game_index CardEncode = 29"
| "game_index CardDecode = 30"
| "game_index ShuffleVerify = 31"
| "game_index Blake2b256 = 32"
| "game_index VerifyDleqProof = 33"
| "game_index VerifyReconstructProof = 34"
| "game_index VerifyRevealTokenProof = 35"

fun sparse_index :: "syscall_id \<Rightarrow> nat" where
  "sparse_index (Base c) = base_index c"
| "sparse_index (Bls12381 c) = bls_index c"
| "sparse_index (Game c) = game_index c"

definition TOTAL_COUNT :: nat where "TOTAL_COUNT = 36"

section \<open>The context\<close>

text \<open>
  \<open>SyscallContext\<close>; the trait object \<open>host_state\<close> is the function of its only method \<open>read_slot\<close>.  The
  counters are \<open>u64\<close>s.
\<close>

record 'v syscall_context =
  sc_input :: "byte list"
  sc_output :: "byte list"
  sc_events :: "'v list"
  sc_logs :: "byte list list"
  sc_halted :: bool
  sc_step_index :: nat
  sc_randomness_seed :: 'v
  sc_initial_commitment :: 'v
  sc_final_commitment :: 'v
  sc_randomness_counter :: nat
  sc_host_state :: "u32 \<Rightarrow> (zkvm_error, byte list) outcome"
  sc_game_state :: "u32 \<rightharpoonup> byte list"

text \<open>\<open>StubHostState::read_slot\<close>.\<close>

definition stub_read_slot :: "u32 \<Rightarrow> (zkvm_error, byte list) outcome" where
  "stub_read_slot slot = Inl (Fail (Other (SlotUnavailable slot)))"

text \<open>\<open>SyscallContext::new\<close>, whose field elements start at the library's zero.\<close>

definition new_context :: "'v \<Rightarrow> byte list \<Rightarrow> 'v syscall_context" where
  "new_context zero input =
     \<lparr>sc_input = input, sc_output = [], sc_events = [], sc_logs = [], sc_halted = False,
      sc_step_index = 0, sc_randomness_seed = zero, sc_initial_commitment = zero,
      sc_final_commitment = zero, sc_randomness_counter = 0, sc_host_state = stub_read_slot,
      sc_game_state = Map.empty\<rparr>"

definition with_host_state ::
  "'v syscall_context \<Rightarrow> (u32 \<Rightarrow> (zkvm_error, byte list) outcome) \<Rightarrow> 'v syscall_context" where
  "with_host_state ctx host_state = ctx\<lparr>sc_host_state := host_state\<rparr>"

definition with_randomness :: "'v syscall_context \<Rightarrow> 'v \<Rightarrow> 'v \<Rightarrow> 'v \<Rightarrow> 'v syscall_context" where
  "with_randomness ctx seed initial final =
     ctx\<lparr>sc_randomness_seed := seed, sc_initial_commitment := initial, sc_final_commitment := final\<rparr>"

section \<open>The registry\<close>

type_synonym 'v host_call =
  "'v syscall_context \<Rightarrow> vm_state \<Rightarrow> (zkvm_error, 'v syscall_context \<times> vm_state) outcome"

record 'v syscall =
  sy_id :: syscall_id
  sy_host_execute :: "'v host_call"
  sy_gas_cost :: "vm_state \<Rightarrow> (zkvm_error, nat) outcome"

type_synonym 'v registry = "'v syscall option list"

definition new_empty :: "'v registry" where
  "new_empty = replicate TOTAL_COUNT None"

definition register :: "'v registry \<Rightarrow> 'v syscall \<Rightarrow> (zkvm_error, 'v registry) outcome" where
  "register r syscall =
     (let call = sy_id syscall;
          i = sparse_index call
      in rbind (idx r i) (\<lambda>slot.
         if slot \<noteq> None then Inl (Fail (Other (AlreadyRegistered (syscall_code call))))
         else set_idx r i (Some syscall)))"

definition dispatch :: "'v registry \<Rightarrow> u32 \<Rightarrow> 'v host_call" where
  "dispatch r w ctx s =
     rbind (from_u32 w) (\<lambda>syscall_id.
     rbind (idx r (sparse_index syscall_id)) (\<lambda>slot.
     rbind (ok_or (Other (NotRegistered (syscall_code syscall_id))) slot) (\<lambda>syscall.
     sy_host_execute syscall ctx s)))"

definition registry_len :: "'v registry \<Rightarrow> nat" where
  "registry_len r = length (filter (\<lambda>slot. slot \<noteq> None) r)"

definition registry_is_empty :: "'v registry \<Rightarrow> bool" where
  "registry_is_empty r \<longleftrightarrow> registry_len r = 0"

section \<open>The numbering of the calls\<close>

lemma in_all_syscalls: "c \<in> set all_syscalls"
proof (cases c)
  case (Base k) then show ?thesis by (cases k) (simp_all add: all_syscalls_def)
next
  case (Bls12381 k) then show ?thesis by (cases k) (simp_all add: all_syscalls_def)
next
  case (Game k) then show ?thesis by (cases k) (simp_all add: all_syscalls_def)
qed

lemma from_u32_code: "from_u32 (syscall_code c) = Inr c"
proof (cases c)
  case (Base k) then show ?thesis by (cases k) (simp_all add: from_u32_def base_of_def)
next
  case (Bls12381 k) then show ?thesis by (cases k) (simp_all add: from_u32_def base_of_def bls_of_def)
next
  case (Game k)
  then show ?thesis by (cases k) (simp_all add: from_u32_def base_of_def bls_of_def game_of_def)
qed

lemma code_from_u32: "from_u32 w = Inr c \<Longrightarrow> syscall_code c = w"
  unfolding from_u32_def base_of_def bls_of_def game_of_def by (auto split: if_split_asm)

lemma sparse_indices: "map sparse_index all_syscalls = [0..<TOTAL_COUNT]"
  by (simp add: all_syscalls_def TOTAL_COUNT_def upt_rec)

lemma sparse_index_less: "sparse_index c < TOTAL_COUNT"
  using in_all_syscalls[of c] arg_cong[OF sparse_indices, of set] by auto

lemma sparse_index_inj: "sparse_index c = sparse_index d \<Longrightarrow> c = d"
proof -
  have "distinct (map sparse_index all_syscalls)" by (simp add: sparse_indices)
  then have "inj_on sparse_index (set all_syscalls)" by (simp add: distinct_map)
  then show "sparse_index c = sparse_index d \<Longrightarrow> c = d"
    using in_all_syscalls by (auto dest: inj_onD)
qed

text \<open>
  The numbering is sound: a number names a call exactly when it is the call's own, and the sparse
  indices of the calls, in the order of their list, are \<open>0, 1, \<dots>, TOTAL_COUNT - 1\<close>, so that the
  registry has one slot for each.
\<close>

lemma syscall_numbering:
  "(from_u32 w = Inr c \<longleftrightarrow> w = syscall_code c)
   \<and> map sparse_index all_syscalls = [0..<TOTAL_COUNT] \<and> c \<in> set all_syscalls"
  using code_from_u32[of w c] from_u32_code sparse_indices in_all_syscalls by auto

section \<open>Registries\<close>

text \<open>A registry has a slot for every identifier, and a call sits in the slot of its own.\<close>

definition registry_ok :: "'v registry \<Rightarrow> bool" where
  "registry_ok r \<longleftrightarrow> length r = TOTAL_COUNT
     \<and> (\<forall>i < TOTAL_COUNT. \<forall>sy. r ! i = Some sy \<longrightarrow> sparse_index (sy_id sy) = i)"

text \<open>The call registered for an identifier.\<close>

definition lookup :: "'v registry \<Rightarrow> syscall_id \<Rightarrow> 'v syscall option" where
  "lookup r c = r ! sparse_index c"

lemma registry_ok_empty: "registry_ok new_empty"
  by (simp add: registry_ok_def new_empty_def)

lemma lookup_empty: "lookup new_empty c = None"
  using sparse_index_less[of c] by (simp add: lookup_def new_empty_def)

lemma register_eq:
  assumes "registry_ok r"
  shows "register r sy = (if lookup r (sy_id sy) \<noteq> None
     then Inl (Fail (Other (AlreadyRegistered (syscall_code (sy_id sy)))))
     else Inr (r[sparse_index (sy_id sy) := Some sy]))"
  using assms sparse_index_less[of "sy_id sy"]
  by (simp add: register_def lookup_def registry_ok_def idx_def set_idx_def Let_def)

lemma registry_ok_register:
  "registry_ok r \<Longrightarrow> registry_ok (r[sparse_index (sy_id sy) := Some sy])"
  unfolding registry_ok_def by (metis length_list_update nth_list_update nth_list_update_neq
      option.inject)

lemma lookup_register:
  assumes "registry_ok r"
  shows "lookup (r[sparse_index (sy_id sy) := Some sy]) c = (if c
      = sy_id sy then Some sy else lookup r c)"
  using assms sparse_index_less[of c] sparse_index_inj[of "sy_id sy" c]
  unfolding lookup_def registry_ok_def by (metis nth_list_update_eq nth_list_update_neq)

lemma dispatch_eq:
  assumes "registry_ok r"
  shows "dispatch r w ctx s =
    rbind (from_u32 w) (\<lambda>c. case lookup r c of
      None \<Rightarrow> Inl (Fail (Other (NotRegistered (syscall_code c))))
    | Some sy \<Rightarrow> sy_host_execute sy ctx s)"
proof (cases "from_u32 w")
  case (Inr c)
  then show ?thesis using assms sparse_index_less[of c]
    by (simp add: dispatch_def registry_ok_def lookup_def idx_def ok_or_def split: option.split)
qed (simp add: dispatch_def)

end
