(* ===== verification/SyscallGas.thy ===== *)
theory SyscallGas
  imports Syscalls
begin

text \<open>
  \<^verbatim>\<open>poker_zkvm/src/syscalls/gas.rs\<close> with the constants it re-exports from \<^verbatim>\<open>vm-common/src/gas.rs\<close>: the
  gas of a system call, of an instruction and of a step, in \<open>u64\<close> arithmetic that panics on overflow.
\<close>

section \<open>Constants\<close>

named_theorems gas_constants \<open>the values of the gas constants\<close>

definition GAS_ZKVM_READ_INPUT_BASE :: nat where [gas_constants]: "GAS_ZKVM_READ_INPUT_BASE = 10"
definition GAS_ZKVM_COMMIT_OUTPUT_BASE :: nat where [gas_constants]: "GAS_ZKVM_COMMIT_OUTPUT_BASE = 10"
definition GAS_ZKVM_POSEIDON_BASE :: nat where [gas_constants]: "GAS_ZKVM_POSEIDON_BASE = 100"
definition GAS_ZKVM_POSEIDON_PER_BLOCK :: nat where [gas_constants]: "GAS_ZKVM_POSEIDON_PER_BLOCK = 50"
definition GAS_ZKVM_SHA256_PER_BYTE :: nat where [gas_constants]: "GAS_ZKVM_SHA256_PER_BYTE = 1"
definition GAS_ZKVM_ECDSA_VERIFY :: nat where [gas_constants]: "GAS_ZKVM_ECDSA_VERIFY = 100000"
definition GAS_ZKVM_EMIT_EVENT_BASE :: nat where [gas_constants]: "GAS_ZKVM_EMIT_EVENT_BASE = 10"
definition GAS_ZKVM_EMIT_EVENT_PER_BYTE :: nat where [gas_constants]: "GAS_ZKVM_EMIT_EVENT_PER_BYTE = 1"
definition GAS_ZKVM_LOG_BASE :: nat where [gas_constants]: "GAS_ZKVM_LOG_BASE = 10"
definition GAS_ZKVM_LOG_PER_BYTE :: nat where [gas_constants]: "GAS_ZKVM_LOG_PER_BYTE = 1"
definition GAS_ZKVM_PANIC :: nat where [gas_constants]: "GAS_ZKVM_PANIC = 10"
definition GAS_ZKVM_GET_RANDOMNESS :: nat where [gas_constants]: "GAS_ZKVM_GET_RANDOMNESS = 100"
definition GAS_ZKVM_READ_STATE_PER_SLOT :: nat where [gas_constants]:
    "GAS_ZKVM_READ_STATE_PER_SLOT = 50"
definition GAS_ZKVM_KECCAK256_PER_BYTE :: nat where [gas_constants]: "GAS_ZKVM_KECCAK256_PER_BYTE = 2"
definition GAS_ZKVM_KECCAK256_PER_ROUND :: nat where [gas_constants]:
    "GAS_ZKVM_KECCAK256_PER_ROUND = 10000"
definition GAS_ZKVM_MODEXP_BASE :: nat where [gas_constants]: "GAS_ZKVM_MODEXP_BASE = 50000"
definition GAS_ZKVM_MODEXP_PER_BIT :: nat where [gas_constants]: "GAS_ZKVM_MODEXP_PER_BIT = 600"
definition GAS_ZKVM_MERKLE_VERIFY_PER_LEVEL :: nat where [gas_constants]:
    "GAS_ZKVM_MERKLE_VERIFY_PER_LEVEL = 100"
definition GAS_ZKVM_ED25519_BASE :: nat where [gas_constants]: "GAS_ZKVM_ED25519_BASE = 50000"
definition GAS_ZKVM_ED25519_PER_BIT :: nat where [gas_constants]: "GAS_ZKVM_ED25519_PER_BIT = 8000"
definition GAS_ZKVM_BN254_PAIRING_MVP :: nat where [gas_constants]: "GAS_ZKVM_BN254_PAIRING_MVP = 30000"
definition GAS_ZKVM_BN254_PAIRING_FULL :: nat where [gas_constants]:
    "GAS_ZKVM_BN254_PAIRING_FULL = 80000"

definition GAS_INSN_ARITHMETIC :: nat where [gas_constants]: "GAS_INSN_ARITHMETIC = 1"
definition GAS_INSN_MEMORY_BASE :: nat where [gas_constants]: "GAS_INSN_MEMORY_BASE = 3"
definition GAS_INSN_MEMORY_PER_BYTE :: nat where [gas_constants]: "GAS_INSN_MEMORY_PER_BYTE = 2"
definition GAS_INSN_BRANCH :: nat where [gas_constants]: "GAS_INSN_BRANCH = 2"
definition GAS_INSN_SHIFT :: nat where [gas_constants]: "GAS_INSN_SHIFT = 2"
definition GAS_INSN_MUL :: nat where [gas_constants]: "GAS_INSN_MUL = 20"
definition GAS_INSN_DIV :: nat where [gas_constants]: "GAS_INSN_DIV = 20"
definition GAS_INSN_UPPER_IMM :: nat where [gas_constants]: "GAS_INSN_UPPER_IMM = 1"
definition GAS_INSN_SYSTEM :: nat where [gas_constants]: "GAS_INSN_SYSTEM = 2"
definition GAS_ZKVM_BLS_HASH_TO_CURVE :: nat where [gas_constants]:
    "GAS_ZKVM_BLS_HASH_TO_CURVE = 120000"
definition GAS_ZKVM_BLS_SCALAR_MUL :: nat where [gas_constants]: "GAS_ZKVM_BLS_SCALAR_MUL = 60000"
definition GAS_ZKVM_BLS_G1_ADD :: nat where [gas_constants]: "GAS_ZKVM_BLS_G1_ADD = 40000"
definition GAS_ZKVM_BLS_G1_MUL :: nat where [gas_constants]: "GAS_ZKVM_BLS_G1_MUL = 90000"
definition GAS_ZKVM_BLS_PAIRING :: nat where [gas_constants]: "GAS_ZKVM_BLS_PAIRING = 120000"
definition GAS_ZKVM_BLS_HASH_TO_SCALAR :: nat where [gas_constants]:
    "GAS_ZKVM_BLS_HASH_TO_SCALAR = 15000"
definition GAS_ZKVM_BLS_SCALAR_ADD :: nat where [gas_constants]: "GAS_ZKVM_BLS_SCALAR_ADD = 5000"
definition GAS_ZKVM_BLS_SCALAR_SUB :: nat where [gas_constants]: "GAS_ZKVM_BLS_SCALAR_SUB = 5000"
definition GAS_ZKVM_BLS_SCALAR_NEG :: nat where [gas_constants]: "GAS_ZKVM_BLS_SCALAR_NEG = 5000"
definition GAS_ZKVM_BLS_SCALAR_INV :: nat where [gas_constants]: "GAS_ZKVM_BLS_SCALAR_INV = 50000"
definition GAS_ZKVM_BLS_G1_SUB :: nat where [gas_constants]: "GAS_ZKVM_BLS_G1_SUB = 40000"
definition GAS_ZKVM_BLS_G1_GENERATOR :: nat where [gas_constants]: "GAS_ZKVM_BLS_G1_GENERATOR = 100"
definition GAS_ZKVM_GAME_STATE_READ :: nat where [gas_constants]: "GAS_ZKVM_GAME_STATE_READ = 50"
definition GAS_ZKVM_GAME_STATE_WRITE :: nat where [gas_constants]: "GAS_ZKVM_GAME_STATE_WRITE = 100"
definition GAS_ZKVM_CARD_ENCODE :: nat where [gas_constants]: "GAS_ZKVM_CARD_ENCODE = 10"
definition GAS_ZKVM_CARD_DECODE :: nat where [gas_constants]: "GAS_ZKVM_CARD_DECODE = 10"
definition GAS_ZKVM_SHUFFLE_VERIFY :: nat where [gas_constants]: "GAS_ZKVM_SHUFFLE_VERIFY = 500000"
definition GAS_ZKVM_BLAKE2B_256_BASE :: nat where [gas_constants]: "GAS_ZKVM_BLAKE2B_256_BASE = 5000"
definition GAS_ZKVM_VERIFY_DLEQ_PROOF_BASE :: nat where [gas_constants]:
    "GAS_ZKVM_VERIFY_DLEQ_PROOF_BASE = 500000"
definition GAS_ZKVM_VERIFY_RECONSTRUCT_PROOF_BASE :: nat where [gas_constants]:
    "GAS_ZKVM_VERIFY_RECONSTRUCT_PROOF_BASE = 1000000"
definition GAS_ZKVM_VERIFY_REVEAL_TOKEN_PROOF_BASE :: nat where [gas_constants]:
    "GAS_ZKVM_VERIFY_REVEAL_TOKEN_PROOF_BASE = 100000"

section \<open>The gas of a call\<close>

record syscall_gas_args =
  ga_input_len :: u32
  ga_num_slots :: u32
  ga_num_bits :: u32
  ga_depth :: u32

definition default_gas_args :: syscall_gas_args where
  "default_gas_args = \<lparr>ga_input_len = 0, ga_num_slots = 0, ga_num_bits = 0, ga_depth = 0\<rparr>"

definition mul_u64 :: "nat \<Rightarrow> nat \<Rightarrow> ('e, nat) outcome" where
  "mul_u64 a b = (if a * b < u64_limit then Inr (a * b) else Inl Panic)"

text \<open>\<open>base + per_unit * units as u64\<close>.\<close>

definition linear_gas :: "nat \<Rightarrow> nat \<Rightarrow> nat \<Rightarrow> (zkvm_error, nat) outcome" where
  "linear_gas base per_unit units = rbind (mul_u64 per_unit units) (add_u64 base)"

fun base_gas :: "base_call \<Rightarrow> syscall_gas_args \<Rightarrow> (zkvm_error, nat) outcome" where
  "base_gas ReadInput args = Inr GAS_ZKVM_READ_INPUT_BASE"
| "base_gas CommitOutput args = Inr GAS_ZKVM_COMMIT_OUTPUT_BASE"
| "base_gas Poseidon args =
     (let num_blocks = (unat (ga_input_len args) + 31) div 32
      in linear_gas GAS_ZKVM_POSEIDON_BASE GAS_ZKVM_POSEIDON_PER_BLOCK num_blocks)"
| "base_gas Sha256 args = mul_u64 GAS_ZKVM_SHA256_PER_BYTE (unat (ga_input_len args))"
| "base_gas EcdsaVerify args = Inr GAS_ZKVM_ECDSA_VERIFY"
| "base_gas EmitEvent args =
     linear_gas GAS_ZKVM_EMIT_EVENT_BASE GAS_ZKVM_EMIT_EVENT_PER_BYTE (unat (ga_input_len args))"
| "base_gas Log args = linear_gas GAS_ZKVM_LOG_BASE GAS_ZKVM_LOG_PER_BYTE (unat (ga_input_len args))"
| "base_gas PanicCall args = Inr GAS_ZKVM_PANIC"
| "base_gas GetRandomness args = Inr GAS_ZKVM_GET_RANDOMNESS"
| "base_gas ReadState args = mul_u64 GAS_ZKVM_READ_STATE_PER_SLOT (unat (ga_num_slots args))"
| "base_gas Keccak256 args =
     rbind (mul_u64 GAS_ZKVM_KECCAK256_PER_ROUND 24) (\<lambda>rounds.
     linear_gas rounds GAS_ZKVM_KECCAK256_PER_BYTE (unat (ga_input_len args)))"
| "base_gas Modexp args =
     linear_gas GAS_ZKVM_MODEXP_BASE GAS_ZKVM_MODEXP_PER_BIT (unat (ga_num_bits args))"
| "base_gas MerkleVerify args = mul_u64 GAS_ZKVM_MERKLE_VERIFY_PER_LEVEL (unat (ga_depth args))"
| "base_gas Ed25519Verify args =
     linear_gas GAS_ZKVM_ED25519_BASE GAS_ZKVM_ED25519_PER_BIT (unat (ga_num_bits args))"
| "base_gas Bn254Pairing args = Inr GAS_ZKVM_BN254_PAIRING_FULL"

fun bls_gas :: "bls_call \<Rightarrow> syscall_gas_args \<Rightarrow> (zkvm_error, nat) outcome" where
  "bls_gas HashToCurve args = Inr GAS_ZKVM_BLS_HASH_TO_CURVE"
| "bls_gas ScalarMul args = Inr GAS_ZKVM_BLS_SCALAR_MUL"
| "bls_gas G1Add args = Inr GAS_ZKVM_BLS_G1_ADD"
| "bls_gas G1Mul args = Inr GAS_ZKVM_BLS_G1_MUL"
| "bls_gas Pairing args = Inr GAS_ZKVM_BLS_PAIRING"
| "bls_gas HashToScalar args =
     linear_gas GAS_ZKVM_BLS_HASH_TO_SCALAR GAS_ZKVM_LOG_PER_BYTE (unat (ga_input_len args))"
| "bls_gas ScalarAdd args = Inr GAS_ZKVM_BLS_SCALAR_ADD"
| "bls_gas ScalarSub args = Inr GAS_ZKVM_BLS_SCALAR_SUB"
| "bls_gas ScalarNeg args = Inr GAS_ZKVM_BLS_SCALAR_NEG"
| "bls_gas ScalarInv args = Inr GAS_ZKVM_BLS_SCALAR_INV"
| "bls_gas G1Sub args = Inr GAS_ZKVM_BLS_G1_SUB"
| "bls_gas G1Generator args = Inr GAS_ZKVM_BLS_G1_GENERATOR"

fun game_gas :: "game_call \<Rightarrow> syscall_gas_args \<Rightarrow> (zkvm_error, nat) outcome" where
  "game_gas GameStateRead args = Inr GAS_ZKVM_GAME_STATE_READ"
| "game_gas GameStateWrite args =
     linear_gas GAS_ZKVM_GAME_STATE_WRITE GAS_ZKVM_LOG_PER_BYTE (unat (ga_input_len args))"
| "game_gas CardEncode args = Inr GAS_ZKVM_CARD_ENCODE"
| "game_gas CardDecode args = Inr GAS_ZKVM_CARD_DECODE"
| "game_gas ShuffleVerify args =
     linear_gas GAS_ZKVM_SHUFFLE_VERIFY GAS_ZKVM_LOG_PER_BYTE (unat (ga_input_len args))"
| "game_gas Blake2b256 args =
     linear_gas GAS_ZKVM_BLAKE2B_256_BASE GAS_ZKVM_LOG_PER_BYTE (unat (ga_input_len args))"
| "game_gas VerifyDleqProof args =
     linear_gas GAS_ZKVM_VERIFY_DLEQ_PROOF_BASE GAS_ZKVM_LOG_PER_BYTE (unat (ga_input_len args))"
| "game_gas VerifyReconstructProof args =
     linear_gas GAS_ZKVM_VERIFY_RECONSTRUCT_PROOF_BASE GAS_ZKVM_LOG_PER_BYTE (unat (ga_input_len args))"
| "game_gas VerifyRevealTokenProof args =
     linear_gas GAS_ZKVM_VERIFY_REVEAL_TOKEN_PROOF_BASE GAS_ZKVM_LOG_PER_BYTE (unat (ga_input_len
         args))"

fun syscall_gas :: "syscall_id \<Rightarrow> syscall_gas_args \<Rightarrow> (zkvm_error, nat) outcome" where
  "syscall_gas (Base c) args = base_gas c args"
| "syscall_gas (Bls12381 c) args = bls_gas c args"
| "syscall_gas (Game c) args = game_gas c args"

section \<open>The gas of an instruction and of a step\<close>

fun reg_gas :: "reg_op \<Rightarrow> nat" where
  "reg_gas Sll = GAS_INSN_SHIFT"
| "reg_gas Srl = GAS_INSN_SHIFT"
| "reg_gas Sra = GAS_INSN_SHIFT"
| "reg_gas Mul = GAS_INSN_MUL"
| "reg_gas Mulh = GAS_INSN_MUL"
| "reg_gas Mulhsu = GAS_INSN_MUL"
| "reg_gas Mulhu = GAS_INSN_MUL"
| "reg_gas Div = GAS_INSN_DIV"
| "reg_gas Divu = GAS_INSN_DIV"
| "reg_gas Rem = GAS_INSN_DIV"
| "reg_gas Remu = GAS_INSN_DIV"
| "reg_gas _ = GAS_INSN_ARITHMETIC"

fun instruction_gas :: "instruction \<Rightarrow> u32 \<Rightarrow> (zkvm_error, nat) outcome" where
  "instruction_gas (Load _ _ _ _) mem_bytes =
     linear_gas GAS_INSN_MEMORY_BASE GAS_INSN_MEMORY_PER_BYTE (unat mem_bytes)"
| "instruction_gas (Store _ _ _ _) mem_bytes =
     linear_gas GAS_INSN_MEMORY_BASE GAS_INSN_MEMORY_PER_BYTE (unat mem_bytes)"
| "instruction_gas (Branch _ _ _ _) mem_bytes = Inr GAS_INSN_BRANCH"
| "instruction_gas (Jal _ _) mem_bytes = Inr GAS_INSN_BRANCH"
| "instruction_gas (Jalr _ _ _) mem_bytes = Inr GAS_INSN_BRANCH"
| "instruction_gas (ShiftImm _ _ _ _) mem_bytes = Inr GAS_INSN_SHIFT"
| "instruction_gas (Op op _ _ _) mem_bytes = Inr (reg_gas op)"
| "instruction_gas (Lui _ _) mem_bytes = Inr GAS_INSN_UPPER_IMM"
| "instruction_gas (Auipc _ _) mem_bytes = Inr GAS_INSN_UPPER_IMM"
| "instruction_gas Fence mem_bytes = Inr GAS_INSN_SYSTEM"
| "instruction_gas Ecall mem_bytes = Inr GAS_INSN_SYSTEM"
| "instruction_gas Ebreak mem_bytes = Inr GAS_INSN_SYSTEM"
| "instruction_gas (OpImm _ _ _ _) mem_bytes = Inr GAS_INSN_ARITHMETIC"

definition total_step_gas ::
  "instruction \<Rightarrow> u32 \<Rightarrow> syscall_id option \<Rightarrow> syscall_gas_args \<Rightarrow> (zkvm_error, nat) outcome" where
  "total_step_gas insn mem_bytes call args =
     rbind (instruction_gas insn mem_bytes) (\<lambda>insn_gas.
     rbind (case call of Some c \<Rightarrow> syscall_gas c args | None \<Rightarrow> Inr 0) (\<lambda>sys_gas.
     add_u64 insn_gas sys_gas))"

section \<open>Gas never overflows\<close>

definition gas_within :: "nat \<Rightarrow> (zkvm_error, nat) outcome \<Rightarrow> bool" where
  "gas_within limit r \<longleftrightarrow> (\<exists>g. r = Inr g \<and> g < limit)"

lemma gas_within_Inr [simp]: "gas_within limit (Inr g) \<longleftrightarrow> g < limit"
  by (simp add: gas_within_def)

text \<open>A count below \<open>2 ^ 32\<close> times a price fits.\<close>

lemma linear_gas_within:
  assumes "units < 4294967296" and "base + per_unit * 4294967296 < limit" and "limit \<le> u64_limit"
  shows "gas_within limit (linear_gas base per_unit units)"
proof -
  have "per_unit * units \<le> per_unit * 4294967296" using assms(1) by (intro mult_le_mono2) simp
  then have "base + per_unit * units < limit" "per_unit * units < u64_limit"
      "base + per_unit * units < u64_limit" using assms(2,3) by linarith+
  then show ?thesis by (simp add: linear_gas_def mul_u64_def add_u64_def)
qed

lemma mul_gas_within:
  assumes "units < 4294967296" and "per_unit * 4294967296 < limit" and "limit \<le> u64_limit"
  shows "gas_within limit (mul_u64 per_unit units)"
proof -
  have "per_unit * units \<le> per_unit * 4294967296" using assms(1) by (intro mult_le_mono2) simp
  then have "per_unit * units < limit" "per_unit * units < u64_limit" using assms(2,3) by linarith+
  then show ?thesis by (simp add: mul_u64_def)
qed

lemma blocks_less: "(unat (n :: u32) + 31) div 32 < 4294967296"
  using u32_bound[of n] by simp

lemmas gas_withins = linear_gas_within mul_gas_within u32_bound blocks_less u64_limit_def gas_constants

lemma base_gas_within: "gas_within (2 ^ 45) (base_gas c args)"
  by (cases c) (simp_all add: gas_withins Let_def, simp_all add: mul_u64_def gas_withins)

lemma bls_gas_within: "gas_within (2 ^ 45) (bls_gas c args)"
  by (cases c) (simp_all add: gas_withins)

lemma game_gas_within: "gas_within (2 ^ 45) (game_gas c args)"
  by (cases c) (simp_all add: gas_withins)

lemma syscall_gas_within: "gas_within (2 ^ 45) (syscall_gas c args)"
  by (cases c) (simp_all only: syscall_gas.simps base_gas_within bls_gas_within game_gas_within)

lemma reg_gas_le: "reg_gas op \<le> 20"
  by (cases op) (simp_all add: gas_constants)

lemma instruction_gas_within: "gas_within (2 ^ 34) (instruction_gas i mem_bytes)"
proof -
  have "reg_gas op < 2 ^ 34" for op using reg_gas_le[of op] by simp
  then show ?thesis by (cases i) (simp_all add: gas_withins)
qed

text \<open>
  Metering never overflows: whatever the instruction, the call and their arguments, the gas of a
  step is below \<open>2 ^ 46\<close>, and it is the sum of the gas of the instruction and of the call.
\<close>

lemma step_gas_bounded:
  "\<exists>insn_gas sys_gas. instruction_gas insn mem_bytes = Inr insn_gas
     \<and> (case call of Some c \<Rightarrow> syscall_gas c args | None \<Rightarrow> Inr 0) = Inr sys_gas
     \<and> total_step_gas insn mem_bytes call args = Inr (insn_gas + sys_gas)
     \<and> insn_gas + sys_gas < 2 ^ 46"
proof -
  obtain g where g: "instruction_gas insn mem_bytes = Inr g" "g < 2 ^ 34"
    using instruction_gas_within[of insn mem_bytes] by (auto simp: gas_within_def)
  obtain h where h: "(case call of Some c \<Rightarrow> syscall_gas c args | None \<Rightarrow> Inr 0) = Inr h" "h < 2 ^ 45"
    using syscall_gas_within[of _ args] by (cases call) (auto simp: gas_within_def)
  have "g + h < 2 ^ 46" "g + h < u64_limit" using g(2) h(2) by (simp_all add: u64_limit_def)
  with g(1) h(1) show ?thesis by (auto simp: total_step_gas_def add_u64_def)
qed

end
