(* ===== verification/HostLib.thy ===== *)
theory HostLib
  imports SyscallGas
begin

text \<open>
  What the host side of the system calls is built from: the interface of the cryptographic libraries,
  the transfer of bytes between host and guest memory (\<^verbatim>\<open>syscalls/host.rs\<close>), the Poseidon wrapper
  (\<^verbatim>\<open>syscalls/poseidon.rs\<close>) and the parsers of \<^verbatim>\<open>syscalls/bls12381.rs\<close> and \<^verbatim>\<open>syscalls/proof_verify.rs\<close>.

  The libraries (arkworks, sha2, sha3, blake2, secp256k1, blstrs and poker\_protocol) are third-party code: a
  \<open>library\<close> is a record of the functions that the source calls, on opaque values of type \<open>'v\<close> (field
  elements, curve points, keys, proofs, transcripts, sponge states).
\<close>

section \<open>The libraries\<close>

record 'v hash_library =
  lb_fr_zero :: 'v
  lb_fr_of_u64 :: "nat \<Rightarrow> 'v"
  lb_fr_bytes :: "'v \<Rightarrow> byte list"
  lb_sponge :: 'v
  lb_absorb_fr :: "'v \<Rightarrow> 'v list \<Rightarrow> 'v"
  lb_absorb_bytes :: "'v \<Rightarrow> byte list \<Rightarrow> 'v"
  lb_squeeze :: "'v \<Rightarrow> nat \<Rightarrow> 'v list"
  lb_sha256 :: "byte list \<Rightarrow> byte list"
  lb_sha3_256 :: "byte list \<Rightarrow> byte list"
  lb_blake2b :: "nat \<Rightarrow> byte list \<Rightarrow> byte list option"
  lb_signature :: "byte list \<Rightarrow> 'v option"
  lb_public_key :: "byte list \<Rightarrow> 'v option"
  lb_ecdsa_verify :: "byte list \<Rightarrow> 'v \<Rightarrow> 'v \<Rightarrow> bool"

record 'v bls_library =
  lb_g1_from :: "byte list \<Rightarrow> 'v option"
  lb_g2_from :: "byte list \<Rightarrow> 'v option"
  lb_scalar_from :: "byte list \<Rightarrow> 'v option"
  lb_g1_to :: "'v \<Rightarrow> byte list"
  lb_scalar_to :: "'v \<Rightarrow> byte list"
  lb_hash_to_g1 :: "byte list \<Rightarrow> string \<Rightarrow> 'v"
  lb_scalar_mul :: "'v \<Rightarrow> 'v \<Rightarrow> 'v"
  lb_scalar_add :: "'v \<Rightarrow> 'v \<Rightarrow> 'v"
  lb_scalar_sub :: "'v \<Rightarrow> 'v \<Rightarrow> 'v"
  lb_scalar_neg :: "'v \<Rightarrow> 'v"
  lb_scalar_invert :: "'v \<Rightarrow> 'v option"
  lb_scalar_zero :: 'v
  lb_g1_add :: "'v \<Rightarrow> 'v \<Rightarrow> 'v"
  lb_g1_sub :: "'v \<Rightarrow> 'v \<Rightarrow> 'v"
  lb_g1_neg :: "'v \<Rightarrow> 'v"
  lb_g1_mul :: "'v \<Rightarrow> 'v \<Rightarrow> 'v"
  lb_g1_generator :: 'v
  lb_pairing_product_is_one :: "('v \<times> 'v) list \<Rightarrow> bool"

record 'v proof_library =
  lb_point :: "byte list \<Rightarrow> 'v option"
  lb_ciphertexts :: "byte list \<Rightarrow> 'v list option"
  lb_remask_proof :: "byte list \<Rightarrow> 'v option"
  lb_leave_proof :: "byte list \<Rightarrow> 'v option"
  lb_shuffle_proof :: "byte list \<Rightarrow> 'v option"
  lb_reconstruct_proof :: "byte list \<Rightarrow> 'v option"
  lb_statement :: "byte list \<Rightarrow> 'v option"
  lb_reveal_proof :: "byte list \<Rightarrow> 'v option"
  lb_transcript :: "string \<Rightarrow> 'v"
  lb_verify_remask :: "'v \<Rightarrow> 'v list \<Rightarrow> 'v list \<Rightarrow> 'v \<Rightarrow> 'v \<Rightarrow> bool"
  lb_verify_leave :: "'v \<Rightarrow> 'v list \<Rightarrow> 'v list \<Rightarrow> 'v \<Rightarrow> 'v \<Rightarrow> bool"
  lb_verify_shuffle :: "'v \<Rightarrow> 'v list \<Rightarrow> 'v list \<Rightarrow> 'v \<Rightarrow> 'v \<Rightarrow> bool"
  lb_verify_reconstruct :: "'v \<Rightarrow> 'v \<Rightarrow> 'v \<Rightarrow> bool"
  lb_verify_reveal :: "'v \<Rightarrow> 'v \<times> 'v \<Rightarrow> 'v \<Rightarrow> 'v \<Rightarrow> 'v \<Rightarrow> bool"

record 'v library =
  lb_hash :: "'v hash_library"
  lb_bls :: "'v bls_library"
  lb_proof :: "'v proof_library"

text \<open>
  The documented behaviour the code relies on: squeezing one element yields one, and a SHA3-256 digest
  has 32 bytes.
\<close>

definition library_ok :: "'v library \<Rightarrow> bool" where
  "library_ok L \<longleftrightarrow> (\<forall>st. length (lb_squeeze (lb_hash L) st 1) = 1)
     \<and> (\<forall>bytes. length (lb_sha3_256 (lb_hash L) bytes) = 32)"

section \<open>Guest memory\<close>

definition REG_A0 :: byte where "REG_A0 = 10"
definition REG_A1 :: byte where "REG_A1 = 11"
definition REG_A2 :: byte where "REG_A2 = 12"
definition REG_A3 :: byte where "REG_A3 = 13"
definition REG_A7 :: byte where "REG_A7 = 17"
definition REG_SP :: byte where "REG_SP = 2"

lemmas reg_numbers = REG_A0_def REG_A1_def REG_A2_def REG_A3_def REG_A7_def REG_SP_def

definition read_vm_bytes :: "vm_state \<Rightarrow> u32 \<Rightarrow> u32 \<Rightarrow> (zkvm_error, byte list) outcome" where
  "read_vm_bytes s addr len =
     foldM (\<lambda>bytes i. rbind (read_memory_byte s (addr + of_nat i)) (\<lambda>b. Inr (bytes @ [b]))) []
       [0..<unat len]"

definition write_vm_bytes :: "vm_state \<Rightarrow> u32 \<Rightarrow> byte list \<Rightarrow> (zkvm_error, vm_state) outcome" where
  "write_vm_bytes s addr bytes =
     foldM (\<lambda>s (i, b). write_memory_byte s (addr + of_nat i) b) s (enumerate 0 bytes)"

section \<open>Poseidon\<close>

definition poseidon_hash :: "'v hash_library \<Rightarrow> 'v list \<Rightarrow> (zkvm_error, 'v) outcome" where
  "poseidon_hash H inputs =
     (let sponge = lb_sponge H;
          sponge = (if inputs \<noteq> [] then lb_absorb_fr H sponge inputs else sponge)
      in idx (lb_squeeze H sponge 1) 0)"

definition poseidon_hash_bytes :: "'v hash_library \<Rightarrow> byte list \<Rightarrow> (zkvm_error, 'v) outcome" where
  "poseidon_hash_bytes H input =
     (let sponge = lb_sponge H;
          sponge = (if input \<noteq> [] then lb_absorb_bytes H sponge input else sponge)
      in idx (lb_squeeze H sponge 1) 0)"

definition fr_to_bytes_le :: "'v hash_library \<Rightarrow> 'v \<Rightarrow> byte list" where
  "fr_to_bytes_le H fr =
     (let vec = lb_fr_bytes H fr;
          len = min (length vec) 32
      in take len vec @ replicate (32 - len) 0)"

section \<open>Parsers\<close>

definition G1_COMPRESSED_SIZE :: u32 where "G1_COMPRESSED_SIZE = 48"
definition G2_COMPRESSED_SIZE :: u32 where "G2_COMPRESSED_SIZE = 96"
definition SCALAR_SIZE :: u32 where "SCALAR_SIZE = 32"

definition BLS_G1_DST :: string where
  "BLS_G1_DST = ''POKER_L1_BLS12381G1_XMD:SHA-256_SSWU_RO_''"

definition parse_g1 :: "'v bls_library \<Rightarrow> byte list \<Rightarrow> 'v option" where
  "parse_g1 B bytes = (if length bytes \<noteq> unat G1_COMPRESSED_SIZE then None else lb_g1_from B bytes)"

definition parse_g2 :: "'v bls_library \<Rightarrow> byte list \<Rightarrow> 'v option" where
  "parse_g2 B bytes = (if length bytes \<noteq> unat G2_COMPRESSED_SIZE then None else lb_g2_from B bytes)"

definition parse_scalar :: "'v bls_library \<Rightarrow> byte list \<Rightarrow> 'v option" where
  "parse_scalar B bytes = (if length bytes \<noteq> unat SCALAR_SIZE then None else lb_scalar_from B bytes)"

text \<open>\<open>hash_to_scalar\<close>: the digest with its two high bits cleared, copied into an array of 32 bytes.\<close>

definition hash_to_scalar :: "'v library \<Rightarrow> byte list \<Rightarrow> (zkvm_error, 'v option) outcome" where
  "hash_to_scalar L data =
     (let h = lb_sha3_256 (lb_hash L) data in
      rbind (idx h 0) (\<lambda>h0.
      rbind (set_idx h 0 (h0 AND 0x3F)) (\<lambda>h.
      if length h \<noteq> 32 then Inl Panic else Inr (lb_scalar_from (lb_bls L) h))))"

definition POINT_COMPRESSED_SIZE :: nat where "POINT_COMPRESSED_SIZE = 32"
definition CT_SIZE :: nat where "CT_SIZE = 64"
definition BLAKE2B_256_OUT_SIZE :: nat where "BLAKE2B_256_OUT_SIZE = 32"

abbreviation buffer_error :: "buffer_message \<Rightarrow> (zkvm_error, 'a) outcome" where
  "buffer_error msg \<equiv> Inl (Fail (Other (ProofBuffer msg)))"

text \<open>Both readers return the bytes read and the rest of the buffer.\<close>

definition read_len_prefixed :: "byte list \<Rightarrow> (zkvm_error, byte list \<times> byte list) outcome" where
  "read_len_prefixed buf =
     (if length buf < 4 then buffer_error MissingPrefix
      else
        let len = unat (le_value (take 4 buf) :: u32) in
        if length buf < 4 + len then buffer_error (DeclaredLength len (length buf - 4))
        else Inr (take len (drop 4 buf), drop (4 + len) buf))"

definition read_fixed :: "byte list \<Rightarrow> nat \<Rightarrow> (zkvm_error, byte list \<times> byte list) outcome" where
  "read_fixed buf n =
     (if length buf < n then buffer_error (NeedBytes n (length buf)) else Inr (take n buf, drop n buf))"

definition parse_point :: "'v proof_library \<Rightarrow> byte list \<Rightarrow> 'v option" where
  "parse_point P bytes = (if length bytes \<noteq> POINT_COMPRESSED_SIZE then None else lb_point P bytes)"

definition deserialize_ciphertexts ::
    "'v proof_library \<Rightarrow> byte list \<Rightarrow> (zkvm_error, 'v list) outcome" where
  "deserialize_ciphertexts P bytes
      = ok_or (Other (ProofBuffer BadCiphertexts)) (lb_ciphertexts P bytes)"

definition parse_single_ciphertext ::
  "'v proof_library \<Rightarrow> byte list \<Rightarrow> (zkvm_error, 'v \<times> 'v) outcome" where
  "parse_single_ciphertext P bytes =
     (if length bytes \<noteq> CT_SIZE then buffer_error (CiphertextSize (length bytes))
      else
        rbind (ok_or (Other (ProofBuffer InvalidC1)) (parse_point P (take POINT_COMPRESSED_SIZE
            bytes))) (\<lambda>c1.
        rbind (ok_or (Other (ProofBuffer InvalidC2)) (parse_point P (drop POINT_COMPRESSED_SIZE
            bytes))) (\<lambda>c2.
        Inr (c1, c2))))"

section \<open>Transfers\<close>

text \<open>
  The loops are sequences of stores and of loads at consecutive addresses, which wrap around at the end
  of the address space as the source's \<open>wrapping_add\<close> does; fewer than \<open>2^32\<close> of them are distinct.
\<close>

definition vm_addrs :: "u32 \<Rightarrow> nat \<Rightarrow> u32 list" where
  "vm_addrs a n = map (\<lambda>i. a + of_nat i) [0..<n]"

lemma length_vm_addrs [simp]: "length (vm_addrs a n) = n"
  by (simp add: vm_addrs_def)

lemma nth_vm_addrs: "i < n \<Longrightarrow> vm_addrs a n ! i = a + of_nat i"
  by (simp add: vm_addrs_def)

lemma distinct_vm_addrs:
  assumes "n \<le> 2 ^ 32"
  shows "distinct (vm_addrs a n)"
proof -
  have "i = j" if "i < n" "j < n" "a + of_nat i = a + of_nat j" for i j
  proof -
    have "i < 2 ^ LENGTH(32)" "j < 2 ^ LENGTH(32)" using that assms by simp_all
    moreover have "unat (of_nat i :: u32) = unat (of_nat j :: u32)" using that(3) by simp
    ultimately show "i = j" unfolding unat_of_nat by simp
  qed
  then show ?thesis unfolding vm_addrs_def by (auto simp: distinct_map inj_on_def)
qed

lemma foldM_map: "foldM f s (map g xs) = foldM (\<lambda>s x. f s (g x)) s xs"
  by (induction xs arbitrary: s) simp_all

lemma write_bytes_stores:
  "foldM (\<lambda>s (a, b). write_memory_byte s a b) s avs = with_memory s (mem.stores (vm_memory s) avs)"
proof (induction avs arbitrary: s)
  case Nil
  show ?case by (simp add: with_memory_def mem.stores_def)
next
  case (Cons av avs)
  obtain a b where av: "av = (a, b)" by (cases av)
  show ?case
  proof (cases "write_byte (vm_memory s) a b")
    case (Inr m)
    then have "write_memory_byte s a b = Inr (s\<lparr>vm_memory := m\<rparr>)"
      by (simp add: write_memory_byte_def with_memory_def)
    then show ?thesis using Inr Cons[of "s\<lparr>vm_memory := m\<rparr>"]
      by (simp add: av mem.stores_def with_memory_def)
  qed (simp add: av mem.stores_def with_memory_def write_memory_byte_def)
qed

lemma write_vm_bytes_stores:
  "write_vm_bytes s a bytes
     = with_memory s (mem.stores (vm_memory s) (zip (vm_addrs a (length bytes)) bytes))"
proof -
  have "zip (vm_addrs a (length bytes)) bytes = map (\<lambda>(i, b). (a + of_nat i, b)) (enumerate 0 bytes)"
    by (simp add: vm_addrs_def enumerate_eq_zip zip_map1)
  then show ?thesis
    by (simp add: write_vm_bytes_def write_bytes_stores[symmetric] foldM_map case_prod_beta')
qed

lemma read_vm_bytes_prefix:
  assumes "\<And>i. i < n \<Longrightarrow> read_memory_byte s (a + of_nat i) = Inr (bytes ! i)" and "n \<le> length bytes"
  shows "foldM (\<lambda>bytes i. rbind (read_memory_byte s (a + of_nat i)) (\<lambda>b. Inr (bytes @ [b]))) [] [0..<n]
    = Inr (take n bytes)"
  using assms by (induction n) (simp_all add: foldM_append take_Suc_conv_app_nth)

lemma read_vm_bytesI:
  assumes "\<And>i. i < unat len \<Longrightarrow> read_memory_byte s (a + of_nat i) = Inr (bytes ! i)"
    and "length bytes = unat len"
  shows "read_vm_bytes s a len = Inr bytes"
  using read_vm_bytes_prefix[of "unat len" s a bytes] assms by (simp add: read_vm_bytes_def)

lemma write_vm_bytes_effect:
  assumes ok: "vm_ok s" and n: "length bytes < 2 ^ 32" and w: "write_vm_bytes s a bytes = Inr s'"
  shows "read_vm_bytes s' a (of_nat (length bytes)) = Inr bytes"
    and "vm_ok s'" and "vm_registers s' = vm_registers s" and "vm_pc s' = vm_pc s"
    and "(\<And>i. i < length bytes \<Longrightarrow> b \<noteq> a + of_nat i) \<Longrightarrow> read_memory_byte s' b = read_memory_byte s b"
proof -
  let ?avs = "zip (vm_addrs a (length bytes)) bytes"
  have m: "mem_ok (vm_memory s)" using ok by (simp add: vm_ok_def)
  from w obtain m' where m': "mem.stores (vm_memory s) ?avs = Inr m'" and s': "s' = s\<lparr>vm_memory := m'\<rparr>"
    by (auto simp: write_vm_bytes_stores with_memory_def outcome_simps)
  have len: "unat (of_nat (length bytes) :: u32) = length bytes" using n by (simp add: unat_of_nat)
  have "read_memory_byte s' (a + of_nat i) = Inr (bytes ! i)" if "i < length bytes" for i
    using mem.load_stores_nth[OF m m' distinct_vm_addrs, of i] that n
    by (simp add: s' read_memory_byte_def nth_vm_addrs)
  then show "read_vm_bytes s' a (of_nat (length bytes))
      = Inr bytes" by (intro read_vm_bytesI) (simp_all add: len)
  show "vm_ok s'" using mem.stores_ok[OF m m'] ok by (simp add: s' vm_ok_def)
  show "vm_registers s' = vm_registers s" "vm_pc s' = vm_pc s" by (simp_all add: s')
  assume out: "\<And>i. i < length bytes \<Longrightarrow> b \<noteq> a + of_nat i"
  have "b \<notin> set (vm_addrs a (length bytes))"
  proof
    assume "b \<in> set (vm_addrs a (length bytes))"
    then obtain i where "i < length bytes" "b = a + of_nat i" by (auto simp: vm_addrs_def)
    with out[of i] show False by simp
  qed
  then have "map_of (rev ?avs) b = None" by (auto simp: map_of_eq_None_iff dest: set_zip_leftD)
  then show "read_memory_byte s' b = read_memory_byte s b"
    using mem.load_stores[OF m m', of b] by (simp add: s' read_memory_byte_def)
qed

end
