(* ===== verification/HostCalls.thy ===== *)
theory HostCalls
  imports HostLib
begin

text \<open>
  The host side of the system calls: \<^verbatim>\<open>syscalls/host.rs\<close>, \<^verbatim>\<open>game_state.rs\<close>, \<^verbatim>\<open>game.rs\<close>,
  \<^verbatim>\<open>bls12381.rs\<close> and \<^verbatim>\<open>proof_verify.rs\<close>.  A call returns the context and the machine; the handlers that
  ignore the context return it as it was.  The registries of production and of the tests end the theory.
\<close>

section \<open>Input, output and hashing\<close>

definition exec_read_input :: "'v host_call" where
  "exec_read_input ctx s =
     rbind (read_register s REG_A0) (\<lambda>ptr.
     rbind (read_register s REG_A1) (\<lambda>len.
     let write_addr = (if ptr = 0 then HEAP_START else ptr);
         actual_len = min (of_nat (length (sc_input ctx))) len
     in rbind (foldM (\<lambda>s i. rbind (idx (sc_input ctx) i) (\<lambda>b.
                 write_memory_byte s (write_addr + of_nat i) b)) s [0..<unat actual_len]) (\<lambda>s.
        rbind (write_register s REG_A0 write_addr) (\<lambda>s.
        rbind (write_register s REG_A1 actual_len) (\<lambda>s.
        Inr (ctx, s))))))"

definition exec_commit_output :: "'v host_call" where
  "exec_commit_output ctx s =
     rbind (read_register s REG_A0) (\<lambda>ptr.
     rbind (read_register s REG_A1) (\<lambda>len.
     rbind (read_vm_bytes s ptr len) (\<lambda>output.
     Inr (ctx\<lparr>sc_output := output, sc_halted := True\<rparr>, s))))"

definition exec_poseidon :: "'v library \<Rightarrow> 'v host_call" where
  "exec_poseidon L ctx s =
     rbind (read_register s REG_A0) (\<lambda>ptr.
     rbind (read_register s REG_A1) (\<lambda>len.
     rbind (read_register s REG_A2) (\<lambda>out_ptr.
     rbind (read_vm_bytes s ptr len) (\<lambda>input.
     rbind (poseidon_hash_bytes (lb_hash L) input) (\<lambda>hash.
     rbind (write_vm_bytes s out_ptr (fr_to_bytes_le (lb_hash L) hash)) (\<lambda>s.
     Inr (ctx, s)))))))"

definition exec_sha256 :: "'v library \<Rightarrow> 'v host_call" where
  "exec_sha256 L ctx s =
     rbind (read_register s REG_A0) (\<lambda>ptr.
     rbind (read_register s REG_A1) (\<lambda>len.
     rbind (read_register s REG_A2) (\<lambda>out_ptr.
     rbind (read_vm_bytes s ptr len) (\<lambda>input.
     rbind (write_vm_bytes s out_ptr (lb_sha256 (lb_hash L) input)) (\<lambda>s.
     Inr (ctx, s))))))"

text \<open>\<open>verify_ecdsa\<close>: a malformed signature or key counts as a failed verification.\<close>

definition verify_ecdsa :: "'v hash_library \<Rightarrow> byte list \<Rightarrow> byte list \<Rightarrow> byte list \<Rightarrow> bool" where
  "verify_ecdsa H msg_hash sig pubkey =
     (case lb_signature H sig of
        None \<Rightarrow> False
      | Some sig_obj \<Rightarrow> (case lb_public_key H pubkey of
          None \<Rightarrow> False
        | Some pubkey_obj \<Rightarrow> lb_ecdsa_verify H msg_hash sig_obj pubkey_obj))"

definition write_bool :: "vm_state \<Rightarrow> bool \<Rightarrow> (zkvm_error, vm_state) outcome" where
  "write_bool s b = write_register s REG_A0 (if b then 1 else 0)"

definition exec_ecdsa_verify :: "'v library \<Rightarrow> 'v host_call" where
  "exec_ecdsa_verify L ctx s =
     rbind (read_register s REG_A0) (\<lambda>msg_ptr.
     rbind (read_register s REG_A1) (\<lambda>msg_len.
     rbind (read_register s REG_A2) (\<lambda>sig_ptr.
     rbind (read_register s REG_A3) (\<lambda>pubkey_ptr.
     rbind (read_vm_bytes s msg_ptr msg_len) (\<lambda>msg_bytes.
     let msg_hash = lb_sha256 (lb_hash L) msg_bytes in
     rbind (read_vm_bytes s sig_ptr 64) (\<lambda>sig_bytes.
     rbind (read_vm_bytes s pubkey_ptr 33) (\<lambda>pubkey_bytes.
     let verified = verify_ecdsa (lb_hash L) msg_hash sig_bytes pubkey_bytes in
     rbind (write_bool s verified) (\<lambda>s.
     Inr (ctx, s)))))))))"

definition exec_emit_event :: "'v library \<Rightarrow> 'v host_call" where
  "exec_emit_event L ctx s =
     rbind (read_register s REG_A0) (\<lambda>ptr.
     rbind (read_register s REG_A1) (\<lambda>len.
     rbind (read_vm_bytes s ptr len) (\<lambda>content.
     rbind (poseidon_hash_bytes (lb_hash L) content) (\<lambda>content_hash.
     let step_fr = lb_fr_of_u64 (lb_hash L) (sc_step_index ctx) in
     rbind (poseidon_hash (lb_hash L) [content_hash, step_fr]) (\<lambda>event_hash.
     Inr (ctx\<lparr>sc_events := sc_events ctx @ [event_hash]\<rparr>, s))))))"

definition exec_log :: "'v host_call" where
  "exec_log ctx s =
     rbind (read_register s REG_A0) (\<lambda>ptr.
     rbind (read_register s REG_A1) (\<lambda>len.
     rbind (read_vm_bytes s ptr len) (\<lambda>msg.
     Inr (ctx\<lparr>sc_logs := sc_logs ctx @ [msg]\<rparr>, s))))"

text \<open>The message of the error is made of the guest's bytes (\<open>from_utf8_lossy\<close>).\<close>

definition exec_panic :: "'v host_call" where
  "exec_panic ctx s =
     rbind (read_register s REG_A0) (\<lambda>ptr.
     rbind (read_register s REG_A1) (\<lambda>len.
     rbind (read_vm_bytes s ptr len) (\<lambda>msg_bytes.
     Inl (Fail (Other (GuestPanic msg_bytes))))))"

definition exec_get_randomness :: "'v library \<Rightarrow> 'v host_call" where
  "exec_get_randomness L ctx s =
     rbind (read_register s REG_A0) (\<lambda>out_ptr.
     let counter_fr = lb_fr_of_u64 (lb_hash L) (sc_randomness_counter ctx) in
     rbind (poseidon_hash (lb_hash L) [sc_randomness_seed ctx, sc_initial_commitment ctx,
              sc_final_commitment ctx, counter_fr]) (\<lambda>output.
     rbind (write_vm_bytes s out_ptr (fr_to_bytes_le (lb_hash L) output)) (\<lambda>s.
     rbind (add_u64 (sc_randomness_counter ctx) 1) (\<lambda>counter.
     Inr (ctx\<lparr>sc_randomness_counter := counter\<rparr>, s)))))"

section \<open>State slots\<close>

definition SLOT_GAME_STATE :: u32 where "SLOT_GAME_STATE = 0x01"
definition SLOT_PLAYER_HANDS :: u32 where "SLOT_PLAYER_HANDS = 0x02"
definition SLOT_POT_AMOUNT :: u32 where "SLOT_POT_AMOUNT = 0x03"
definition SLOT_CURRENT_TURN :: u32 where "SLOT_CURRENT_TURN = 0x04"
definition SLOT_ACK_CHAIN :: u32 where "SLOT_ACK_CHAIN = 0x05"

definition is_whitelisted_slot :: "u32 \<Rightarrow> bool" where
  "is_whitelisted_slot slot \<longleftrightarrow>
     slot \<in> {SLOT_GAME_STATE, SLOT_PLAYER_HANDS, SLOT_POT_AMOUNT, SLOT_CURRENT_TURN, SLOT_ACK_CHAIN}"

definition exec_read_state :: "'v host_call" where
  "exec_read_state ctx s =
     rbind (read_register s REG_A0) (\<lambda>slot.
     rbind (read_register s REG_A1) (\<lambda>out_ptr.
     if \<not> is_whitelisted_slot slot then Inl (Fail (InvalidSlot slot))
     else
       rbind (sc_host_state ctx slot) (\<lambda>val.
       rbind (write_vm_bytes s out_ptr val) (\<lambda>s.
       Inr (ctx, s)))))"

definition exec_game_state_read :: "'v host_call" where
  "exec_game_state_read ctx s =
     rbind (read_register s REG_A0) (\<lambda>slot.
     rbind (read_register s REG_A1) (\<lambda>out_ptr.
     rbind (read_register s REG_A2) (\<lambda>out_len.
     if \<not> is_whitelisted_slot slot then Inl (Fail (Other (GameSlot slot)))
     else
       let val = (case sc_game_state ctx slot of None \<Rightarrow> [] | Some v \<Rightarrow> v);
           actual_len = min (of_nat (length val)) out_len
       in rbind (if 0 < actual_len
                 then if unat actual_len \<le> length val
                      then write_vm_bytes s out_ptr (take (unat actual_len) val) else Inl Panic
                 else Inr s) (\<lambda>s.
          rbind (write_register s REG_A0 actual_len) (\<lambda>s.
          Inr (ctx, s))))))"

definition exec_game_state_write :: "'v host_call" where
  "exec_game_state_write ctx s =
     rbind (read_register s REG_A0) (\<lambda>slot.
     rbind (read_register s REG_A1) (\<lambda>in_ptr.
     rbind (read_register s REG_A2) (\<lambda>in_len.
     if \<not> is_whitelisted_slot slot then Inl (Fail (Other (GameSlot slot)))
     else
       rbind (if in_len = 0 then Inr [] else read_vm_bytes s in_ptr in_len) (\<lambda>val.
       Inr (ctx\<lparr>sc_game_state := (sc_game_state ctx)(slot \<mapsto> val)\<rparr>, s)))))"

section \<open>Cards\<close>

definition TWO :: byte where "TWO = 2"
definition ACE :: byte where "ACE = 14"
definition NUM_SUITS :: byte where "NUM_SUITS = 4"
definition NUM_RANKS_PER_SUIT :: byte where "NUM_RANKS_PER_SUIT = 13"
definition TOTAL_CARDS :: byte where "TOTAL_CARDS = 52"
definition SHUFFLE_PROOF_MIN_LEN :: u32 where "SHUFFLE_PROOF_MIN_LEN = 1"

lemmas card_constants = TWO_def ACE_def NUM_SUITS_def NUM_RANKS_PER_SUIT_def TOTAL_CARDS_def

text \<open>\<open>debug_assert!\<close>.\<close>

definition debug_assert :: "bool \<Rightarrow> (zkvm_error, unit) outcome" where
  "debug_assert b = (if b then Inr () else Inl Panic)"

text \<open>The \<open>u8\<close> arithmetic stays within its width: \<open>suit < 4\<close> and \<open>rank - 2 < 13\<close>.\<close>

definition exec_card_encode :: "'v host_call" where
  "exec_card_encode ctx s =
     rbind (read_register s REG_A0) (\<lambda>a0.
     rbind (read_register s REG_A1) (\<lambda>a1.
     rbind (read_register s REG_A2) (\<lambda>out_ptr.
     let rank = ucast a0 :: byte;
         suit = ucast a1 :: byte
     in if \<not> (TWO \<le> rank \<and> rank \<le> ACE) \<or> NUM_SUITS \<le> suit
        then rbind (write_register s REG_A0 0) (\<lambda>s. Inr (ctx, s))
        else
          let index = suit * NUM_RANKS_PER_SUIT + (rank - TWO) in
          rbind (debug_assert (index < TOTAL_CARDS)) (\<lambda>_.
          rbind (write_memory_byte s out_ptr index) (\<lambda>s.
          rbind (write_register s REG_A0 1) (\<lambda>s.
          Inr (ctx, s)))))))"

definition exec_card_decode :: "'v host_call" where
  "exec_card_decode ctx s =
     rbind (read_register s REG_A0) (\<lambda>a0.
     rbind (read_register s REG_A1) (\<lambda>out_rank_ptr.
     rbind (read_register s REG_A2) (\<lambda>out_suit_ptr.
     let byte = ucast a0 :: byte in
     if TOTAL_CARDS \<le> byte then rbind (write_register s REG_A0 0) (\<lambda>s. Inr (ctx, s))
     else
       let suit = byte div NUM_RANKS_PER_SUIT;
           rank = byte mod NUM_RANKS_PER_SUIT + TWO
       in rbind (debug_assert (TWO \<le> rank \<and> rank \<le> ACE)) (\<lambda>_.
          rbind (debug_assert (suit < NUM_SUITS)) (\<lambda>_.
          rbind (write_memory_byte s out_rank_ptr rank) (\<lambda>s.
          rbind (write_memory_byte s out_suit_ptr suit) (\<lambda>s.
          rbind (write_register s REG_A0 1) (\<lambda>s.
          Inr (ctx, s)))))))))"

text \<open>
  The loop of \<open>ShuffleVerify\<close> over the deck: the cards seen so far, or \<open>None\<close> at the early return for a
  card that is out of range or was seen before.
\<close>

definition see_deck_card :: "bool list option \<Rightarrow> byte \<Rightarrow> (zkvm_error, bool list option) outcome" where
  "see_deck_card seen b =
     (case seen of
        None \<Rightarrow> Inr None
      | Some seen \<Rightarrow>
          if TOTAL_CARDS \<le> b then Inr None
          else
            rbind (idx seen (unat b)) (\<lambda>dup.
            if dup then Inr None
            else rbind (set_idx seen (unat b) True) (\<lambda>seen. Inr (Some seen))))"

definition exec_shuffle_verify :: "'v host_call" where
  "exec_shuffle_verify ctx s =
     rbind (read_register s REG_A0) (\<lambda>deck_ptr.
     rbind (read_register s REG_A1) (\<lambda>deck_len.
     rbind (read_register s REG_A2) (\<lambda>proof_ptr.
     rbind (read_register s REG_A3) (\<lambda>proof_len.
     let answer = (\<lambda>ok. rbind (write_bool s ok) (\<lambda>s. Inr (ctx, s))) in
     if deck_len \<noteq> ucast TOTAL_CARDS then answer False
     else if proof_len < SHUFFLE_PROOF_MIN_LEN then answer False
     else
       rbind (read_vm_bytes s deck_ptr deck_len) (\<lambda>deck_bytes.
       rbind (foldM see_deck_card (Some (replicate (unat TOTAL_CARDS) False)) deck_bytes) (\<lambda>seen.
       case seen of
         None \<Rightarrow> answer False
       | Some seen \<Rightarrow>
           if \<not> list_all (\<lambda>v. v) seen then answer False
           else
             rbind (read_vm_bytes s proof_ptr proof_len) (\<lambda>proof_bytes.
             if list_all (\<lambda>b. b = 0) proof_bytes then answer False else answer True)))))))"

section \<open>BLS12-381\<close>

text \<open>
  The bodies that several calls share up to the operation: two operands of one kind from \<open>a0\<close> and \<open>a1\<close>
  with the result at \<open>a2\<close>, and one scalar from \<open>a0\<close> with the result at \<open>a1\<close>.
\<close>

definition scalar_binary :: "'v library \<Rightarrow> bls_call \<Rightarrow> ('v \<Rightarrow> 'v \<Rightarrow> 'v) \<Rightarrow> 'v host_call" where
  "scalar_binary L c f ctx s =
     rbind (read_register s REG_A0) (\<lambda>a_ptr.
     rbind (read_register s REG_A1) (\<lambda>b_ptr.
     rbind (read_register s REG_A2) (\<lambda>out_ptr.
     rbind (read_vm_bytes s a_ptr SCALAR_SIZE) (\<lambda>a_bytes.
     rbind (read_vm_bytes s b_ptr SCALAR_SIZE) (\<lambda>b_bytes.
     rbind (ok_or (Other (IllegalOperand (bls_code c) 0)) (parse_scalar (lb_bls L) a_bytes)) (\<lambda>a.
     rbind (ok_or (Other (IllegalOperand (bls_code c) 1)) (parse_scalar (lb_bls L) b_bytes)) (\<lambda>b.
     rbind (write_vm_bytes s out_ptr (lb_scalar_to (lb_bls L) (f a b))) (\<lambda>s.
     Inr (ctx, s)))))))))"

definition g1_binary :: "'v library \<Rightarrow> bls_call \<Rightarrow> ('v \<Rightarrow> 'v \<Rightarrow> 'v) \<Rightarrow> 'v host_call" where
  "g1_binary L c f ctx s =
     rbind (read_register s REG_A0) (\<lambda>a_ptr.
     rbind (read_register s REG_A1) (\<lambda>b_ptr.
     rbind (read_register s REG_A2) (\<lambda>out_ptr.
     rbind (read_vm_bytes s a_ptr G1_COMPRESSED_SIZE) (\<lambda>a_bytes.
     rbind (read_vm_bytes s b_ptr G1_COMPRESSED_SIZE) (\<lambda>b_bytes.
     rbind (ok_or (Other (IllegalOperand (bls_code c) 0)) (parse_g1 (lb_bls L) a_bytes)) (\<lambda>a.
     rbind (ok_or (Other (IllegalOperand (bls_code c) 1)) (parse_g1 (lb_bls L) b_bytes)) (\<lambda>b.
     rbind (write_vm_bytes s out_ptr (lb_g1_to (lb_bls L) (f a b))) (\<lambda>s.
     Inr (ctx, s)))))))))"

definition scalar_unary :: "'v library \<Rightarrow> bls_call \<Rightarrow> ('v \<Rightarrow> 'v) \<Rightarrow> 'v host_call" where
  "scalar_unary L c f ctx s =
     rbind (read_register s REG_A0) (\<lambda>a_ptr.
     rbind (read_register s REG_A1) (\<lambda>out_ptr.
     rbind (read_vm_bytes s a_ptr SCALAR_SIZE) (\<lambda>a_bytes.
     rbind (ok_or (Other (IllegalOperand (bls_code c) 0)) (parse_scalar (lb_bls L) a_bytes)) (\<lambda>a.
     rbind (write_vm_bytes s out_ptr (lb_scalar_to (lb_bls L) (f a))) (\<lambda>s.
     Inr (ctx, s))))))"

definition exec_hash_to_curve :: "'v library \<Rightarrow> 'v host_call" where
  "exec_hash_to_curve L ctx s =
     rbind (read_register s REG_A0) (\<lambda>msg_ptr.
     rbind (read_register s REG_A1) (\<lambda>msg_len.
     rbind (read_register s REG_A2) (\<lambda>out_ptr.
     rbind (read_vm_bytes s msg_ptr msg_len) (\<lambda>msg.
     let point = lb_hash_to_g1 (lb_bls L) msg BLS_G1_DST in
     rbind (write_vm_bytes s out_ptr (lb_g1_to (lb_bls L) point)) (\<lambda>s.
     Inr (ctx, s))))))"

definition exec_scalar_mul :: "'v library \<Rightarrow> 'v host_call" where
  "exec_scalar_mul L = scalar_binary L ScalarMul (lb_scalar_mul (lb_bls L))"

definition exec_g1_add :: "'v library \<Rightarrow> 'v host_call" where
  "exec_g1_add L = g1_binary L G1Add (lb_g1_add (lb_bls L))"

definition exec_g1_mul :: "'v library \<Rightarrow> 'v host_call" where
  "exec_g1_mul L ctx s =
     rbind (read_register s REG_A0) (\<lambda>point_ptr.
     rbind (read_register s REG_A1) (\<lambda>scalar_ptr.
     rbind (read_register s REG_A2) (\<lambda>out_ptr.
     rbind (read_vm_bytes s point_ptr G1_COMPRESSED_SIZE) (\<lambda>point_bytes.
     rbind (read_vm_bytes s scalar_ptr SCALAR_SIZE) (\<lambda>scalar_bytes.
     rbind (ok_or (Other (IllegalOperand (bls_code G1Mul) 0)) (parse_g1 (lb_bls L) point_bytes))
         (\<lambda>point.
     rbind (ok_or (Other (IllegalOperand (bls_code G1Mul) 1)) (parse_scalar (lb_bls L) scalar_bytes))
       (\<lambda>scalar.
     rbind (write_vm_bytes s out_ptr (lb_g1_to (lb_bls L) (lb_g1_mul (lb_bls L) point scalar))) (\<lambda>s.
     Inr (ctx, s)))))))))"

text \<open>
  \<open>e(a, b) = e(c, d)\<close> is checked as \<open>e(a, b) * e(-c, d) = 1\<close>; a point that does not parse answers \<open>0\<close>.
\<close>

definition exec_pairing :: "'v library \<Rightarrow> 'v host_call" where
  "exec_pairing L ctx s =
     rbind (read_register s REG_A0) (\<lambda>a_g1_ptr.
     rbind (read_register s REG_A1) (\<lambda>b_g2_ptr.
     rbind (read_register s REG_A2) (\<lambda>c_g1_ptr.
     rbind (read_register s REG_A3) (\<lambda>d_g2_ptr.
     rbind (read_vm_bytes s a_g1_ptr G1_COMPRESSED_SIZE) (\<lambda>a_bytes.
     rbind (read_vm_bytes s b_g2_ptr G2_COMPRESSED_SIZE) (\<lambda>b_bytes.
     rbind (read_vm_bytes s c_g1_ptr G1_COMPRESSED_SIZE) (\<lambda>c_bytes.
     rbind (read_vm_bytes s d_g2_ptr G2_COMPRESSED_SIZE) (\<lambda>d_bytes.
     let answer = (\<lambda>ok. rbind (write_bool s ok) (\<lambda>s. Inr (ctx, s))) in
     case parse_g1 (lb_bls L) a_bytes of None \<Rightarrow> answer False | Some a \<Rightarrow>
     (case parse_g2 (lb_bls L) b_bytes of None \<Rightarrow> answer False | Some b \<Rightarrow>
     (case parse_g1 (lb_bls L) c_bytes of None \<Rightarrow> answer False | Some c \<Rightarrow>
     (case parse_g2 (lb_bls L) d_bytes of None \<Rightarrow> answer False | Some d \<Rightarrow>
        answer (lb_pairing_product_is_one (lb_bls L) [(a, b), (lb_g1_neg (lb_bls L) c, d)]))))))))))))"

definition exec_hash_to_scalar :: "'v library \<Rightarrow> 'v host_call" where
  "exec_hash_to_scalar L ctx s =
     rbind (read_register s REG_A0) (\<lambda>msg_ptr.
     rbind (read_register s REG_A1) (\<lambda>msg_len.
     rbind (read_register s REG_A2) (\<lambda>out_ptr.
     rbind (read_vm_bytes s msg_ptr msg_len) (\<lambda>msg.
     rbind (hash_to_scalar L msg) (\<lambda>result.
     rbind (ok_or (Other HashToScalarFailed) result) (\<lambda>scalar.
     rbind (write_vm_bytes s out_ptr (lb_scalar_to (lb_bls L) scalar)) (\<lambda>s.
     Inr (ctx, s))))))))"

definition exec_scalar_add :: "'v library \<Rightarrow> 'v host_call" where
  "exec_scalar_add L = scalar_binary L ScalarAdd (lb_scalar_add (lb_bls L))"

definition exec_scalar_sub :: "'v library \<Rightarrow> 'v host_call" where
  "exec_scalar_sub L = scalar_binary L ScalarSub (lb_scalar_sub (lb_bls L))"

definition exec_scalar_neg :: "'v library \<Rightarrow> 'v host_call" where
  "exec_scalar_neg L = scalar_unary L ScalarNeg (lb_scalar_neg (lb_bls L))"

definition exec_scalar_inv :: "'v library \<Rightarrow> 'v host_call" where
  "exec_scalar_inv L = scalar_unary L ScalarInv (\<lambda>a.
     case lb_scalar_invert (lb_bls L) a of Some r \<Rightarrow> r | None \<Rightarrow> lb_scalar_zero (lb_bls L))"

definition exec_g1_sub :: "'v library \<Rightarrow> 'v host_call" where
  "exec_g1_sub L = g1_binary L G1Sub (lb_g1_sub (lb_bls L))"

definition exec_g1_generator :: "'v library \<Rightarrow> 'v host_call" where
  "exec_g1_generator L ctx s =
     rbind (read_register s REG_A0) (\<lambda>out_ptr.
     rbind (write_vm_bytes s out_ptr (lb_g1_to (lb_bls L) (lb_g1_generator (lb_bls L)))) (\<lambda>s.
     Inr (ctx, s)))"

section \<open>Proof verification\<close>

definition exec_blake2b_256 :: "'v library \<Rightarrow> 'v host_call" where
  "exec_blake2b_256 L ctx s =
     rbind (read_register s REG_A0) (\<lambda>data_ptr.
     rbind (read_register s REG_A1) (\<lambda>data_len.
     rbind (read_register s REG_A2) (\<lambda>out_ptr.
     rbind (read_vm_bytes s data_ptr data_len) (\<lambda>data.
     rbind (ok_or (Other Blake2bFailed) (lb_blake2b (lb_hash L) BLAKE2B_256_OUT_SIZE data)) (\<lambda>out.
     rbind (write_vm_bytes s out_ptr out) (\<lambda>s.
     Inr (ctx, s)))))))"

definition TRANSCRIPT_MASK_SHUFFLE :: string where
    "TRANSCRIPT_MASK_SHUFFLE = ''zk_mask_shuffle_proof_v1''"
definition TRANSCRIPT_LEAVE :: string where "TRANSCRIPT_LEAVE = ''zk_leave_proof_v1''"
definition TRANSCRIPT_RECONSTRUCT :: string where "TRANSCRIPT_RECONSTRUCT = ''zk_reconstruct_proof_v1''"
definition TRANSCRIPT_REVEAL_TOKEN :: string where "TRANSCRIPT_REVEAL_TOKEN = ''reveal_token_proof_v3''"

definition verify_dleq_proof_inner ::
  "'v proof_library \<Rightarrow> u32 \<Rightarrow> byte list \<Rightarrow> (zkvm_error, bool) outcome" where
  "verify_dleq_proof_inner P kind buf =
     (if \<not> (kind = 0 \<or> kind = 1 \<or> kind = 2) then buffer_error (InvalidKind kind)
      else
        rbind (read_len_prefixed buf) (\<lambda>(proof_bytes, rest).
        rbind (read_len_prefixed rest) (\<lambda>(input_cts_bytes, rest).
        rbind (read_len_prefixed rest) (\<lambda>(output_cts_bytes, rest).
        rbind (read_fixed rest POINT_COMPRESSED_SIZE) (\<lambda>(pk_bytes, _).
        case parse_point P pk_bytes of
          None \<Rightarrow> Inr False
        | Some pk \<Rightarrow>
            rbind (deserialize_ciphertexts P input_cts_bytes) (\<lambda>input_cts.
            rbind (deserialize_ciphertexts P output_cts_bytes) (\<lambda>output_cts.
            if kind = 0 then
              rbind (ok_or (Other (ProofBuffer BadProof)) (lb_remask_proof P proof_bytes)) (\<lambda>prf.
              Inr (lb_verify_remask P prf input_cts output_cts pk (lb_transcript P
                  TRANSCRIPT_MASK_SHUFFLE)))
            else if kind = 1 then
              rbind (ok_or (Other (ProofBuffer BadProof)) (lb_leave_proof P proof_bytes)) (\<lambda>prf.
              Inr (lb_verify_leave P prf input_cts output_cts pk (lb_transcript P TRANSCRIPT_LEAVE)))
            else if kind = 2 then
              rbind (ok_or (Other (ProofBuffer BadProof)) (lb_shuffle_proof P proof_bytes)) (\<lambda>prf.
              Inr (lb_verify_shuffle P prf input_cts output_cts pk (lb_transcript P
                  TRANSCRIPT_MASK_SHUFFLE)))
            else Inl Panic)))))))"

definition verify_reconstruct_proof_inner ::
  "'v proof_library \<Rightarrow> byte list \<Rightarrow> (zkvm_error, bool) outcome" where
  "verify_reconstruct_proof_inner P buf =
     rbind (read_len_prefixed buf) (\<lambda>(proof_bytes, rest).
     rbind (read_len_prefixed rest) (\<lambda>(statement_bytes, _).
     rbind (ok_or (Other (ProofBuffer BadProof)) (lb_reconstruct_proof P proof_bytes)) (\<lambda>prf.
     rbind (ok_or (Other (ProofBuffer BadStatement)) (lb_statement P statement_bytes)) (\<lambda>stmt.
     Inr (lb_verify_reconstruct P prf stmt (lb_transcript P TRANSCRIPT_RECONSTRUCT))))))"

definition verify_reveal_token_proof_inner ::
  "'v proof_library \<Rightarrow> byte list \<Rightarrow> (zkvm_error, bool) outcome" where
  "verify_reveal_token_proof_inner P buf =
     rbind (read_len_prefixed buf) (\<lambda>(proof_bytes, rest).
     rbind (read_fixed rest CT_SIZE) (\<lambda>(enc_card_bytes, rest).
     rbind (read_fixed rest POINT_COMPRESSED_SIZE) (\<lambda>(token_bytes, rest).
     rbind (read_fixed rest POINT_COMPRESSED_SIZE) (\<lambda>(expected_pk_bytes, _).
     rbind (parse_single_ciphertext P enc_card_bytes) (\<lambda>enc_card.
     case parse_point P token_bytes of
       None \<Rightarrow> Inr False
     | Some token \<Rightarrow>
         (case parse_point P expected_pk_bytes of
            None \<Rightarrow> Inr False
          | Some expected_pk \<Rightarrow>
              rbind (ok_or (Other (ProofBuffer BadProof)) (lb_reveal_proof P proof_bytes)) (\<lambda>prf.
              Inr (lb_verify_reveal P prf enc_card token expected_pk
                     (lb_transcript P TRANSCRIPT_REVEAL_TOKEN)))))))))"

text \<open>\<open>Result::unwrap_or(false)\<close>.\<close>

definition unwrap_or_false :: "(zkvm_error, bool) outcome \<Rightarrow> (zkvm_error, bool) outcome" where
  "unwrap_or_false r = (case r of Inl (Fail _) \<Rightarrow> Inr False | Inl Panic \<Rightarrow> Inl Panic | Inr b \<Rightarrow> Inr b)"

definition exec_verify_dleq_proof :: "'v library \<Rightarrow> 'v host_call" where
  "exec_verify_dleq_proof L ctx s =
     rbind (read_register s REG_A0) (\<lambda>kind.
     rbind (read_register s REG_A1) (\<lambda>buf_ptr.
     rbind (read_register s REG_A2) (\<lambda>buf_len.
     rbind (read_vm_bytes s buf_ptr buf_len) (\<lambda>buf.
     rbind (unwrap_or_false (verify_dleq_proof_inner (lb_proof L) kind buf)) (\<lambda>ok.
     rbind (write_bool s ok) (\<lambda>s.
     Inr (ctx, s)))))))"

definition verify_buffer :: "(byte list \<Rightarrow> (zkvm_error, bool) outcome) \<Rightarrow> 'v host_call" where
  "verify_buffer inner ctx s =
     rbind (read_register s REG_A0) (\<lambda>buf_ptr.
     rbind (read_register s REG_A1) (\<lambda>buf_len.
     rbind (read_vm_bytes s buf_ptr buf_len) (\<lambda>buf.
     rbind (unwrap_or_false (inner buf)) (\<lambda>ok.
     rbind (write_bool s ok) (\<lambda>s.
     Inr (ctx, s))))))"

definition exec_verify_reconstruct_proof :: "'v library \<Rightarrow> 'v host_call" where
  "exec_verify_reconstruct_proof L = verify_buffer (verify_reconstruct_proof_inner (lb_proof L))"

definition exec_verify_reveal_token_proof :: "'v library \<Rightarrow> 'v host_call" where
  "exec_verify_reveal_token_proof L = verify_buffer (verify_reveal_token_proof_inner (lb_proof L))"

section \<open>The calls with their gas\<close>

text \<open>\<open>gas_cost\<close>: a fixed price, or the price for the length in a register or for one slot.\<close>

definition fixed_cost :: "syscall_id \<Rightarrow> vm_state \<Rightarrow> (zkvm_error, nat) outcome" where
  "fixed_cost c s = syscall_gas c default_gas_args"

definition length_cost :: "syscall_id \<Rightarrow> byte \<Rightarrow> vm_state \<Rightarrow> (zkvm_error, nat) outcome" where
  "length_cost c r s =
     rbind (read_register s r) (\<lambda>len. syscall_gas c (default_gas_args\<lparr>ga_input_len := len\<rparr>))"

definition slot_cost :: "syscall_id \<Rightarrow> vm_state \<Rightarrow> (zkvm_error, nat) outcome" where
  "slot_cost c s = syscall_gas c (default_gas_args\<lparr>ga_num_slots := 1\<rparr>)"

definition base_calls :: "'v library \<Rightarrow> 'v syscall list" where
  "base_calls L =
     [\<lparr>sy_id = Base ReadInput, sy_host_execute = exec_read_input, sy_gas_cost
         = fixed_cost (Base ReadInput)\<rparr>,
      \<lparr>sy_id = Base CommitOutput, sy_host_execute = exec_commit_output,
       sy_gas_cost = length_cost (Base CommitOutput) REG_A1\<rparr>,
      \<lparr>sy_id = Base Poseidon, sy_host_execute = exec_poseidon L,
       sy_gas_cost = length_cost (Base Poseidon) REG_A1\<rparr>,
      \<lparr>sy_id = Base Sha256, sy_host_execute = exec_sha256 L, sy_gas_cost
          = length_cost (Base Sha256) REG_A1\<rparr>,
      \<lparr>sy_id = Base EcdsaVerify, sy_host_execute = exec_ecdsa_verify L,
       sy_gas_cost = fixed_cost (Base EcdsaVerify)\<rparr>,
      \<lparr>sy_id = Base EmitEvent, sy_host_execute = exec_emit_event L,
       sy_gas_cost = length_cost (Base EmitEvent) REG_A1\<rparr>,
      \<lparr>sy_id = Base Log, sy_host_execute = exec_log, sy_gas_cost = length_cost (Base Log) REG_A1\<rparr>,
      \<lparr>sy_id = Base PanicCall, sy_host_execute = exec_panic, sy_gas_cost = fixed_cost (Base PanicCall)\<rparr>,
      \<lparr>sy_id = Base GetRandomness, sy_host_execute = exec_get_randomness L,
       sy_gas_cost = fixed_cost (Base GetRandomness)\<rparr>,
      \<lparr>sy_id = Base ReadState, sy_host_execute = exec_read_state, sy_gas_cost
          = slot_cost (Base ReadState)\<rparr>]"

definition bls_calls :: "'v library \<Rightarrow> 'v syscall list" where
  "bls_calls L =
     [\<lparr>sy_id = Bls12381 HashToCurve, sy_host_execute = exec_hash_to_curve L,
       sy_gas_cost = length_cost (Bls12381 HashToCurve) REG_A1\<rparr>,
      \<lparr>sy_id = Bls12381 ScalarMul, sy_host_execute = exec_scalar_mul L,
       sy_gas_cost = fixed_cost (Bls12381 ScalarMul)\<rparr>,
      \<lparr>sy_id = Bls12381 G1Add, sy_host_execute = exec_g1_add L, sy_gas_cost
          = fixed_cost (Bls12381 G1Add)\<rparr>,
      \<lparr>sy_id = Bls12381 G1Mul, sy_host_execute = exec_g1_mul L, sy_gas_cost
          = fixed_cost (Bls12381 G1Mul)\<rparr>,
      \<lparr>sy_id = Bls12381 Pairing, sy_host_execute = exec_pairing L,
       sy_gas_cost = fixed_cost (Bls12381 Pairing)\<rparr>,
      \<lparr>sy_id = Bls12381 HashToScalar, sy_host_execute = exec_hash_to_scalar L,
       sy_gas_cost = length_cost (Bls12381 HashToScalar) REG_A1\<rparr>,
      \<lparr>sy_id = Bls12381 ScalarAdd, sy_host_execute = exec_scalar_add L,
       sy_gas_cost = fixed_cost (Bls12381 ScalarAdd)\<rparr>,
      \<lparr>sy_id = Bls12381 ScalarSub, sy_host_execute = exec_scalar_sub L,
       sy_gas_cost = fixed_cost (Bls12381 ScalarSub)\<rparr>,
      \<lparr>sy_id = Bls12381 ScalarNeg, sy_host_execute = exec_scalar_neg L,
       sy_gas_cost = fixed_cost (Bls12381 ScalarNeg)\<rparr>,
      \<lparr>sy_id = Bls12381 ScalarInv, sy_host_execute = exec_scalar_inv L,
       sy_gas_cost = fixed_cost (Bls12381 ScalarInv)\<rparr>,
      \<lparr>sy_id = Bls12381 G1Sub, sy_host_execute = exec_g1_sub L, sy_gas_cost
          = fixed_cost (Bls12381 G1Sub)\<rparr>,
      \<lparr>sy_id = Bls12381 G1Generator, sy_host_execute = exec_g1_generator L,
       sy_gas_cost = fixed_cost (Bls12381 G1Generator)\<rparr>]"

definition game_calls :: "'v library \<Rightarrow> 'v syscall list" where
  "game_calls L =
     [\<lparr>sy_id = Game CardEncode, sy_host_execute = exec_card_encode,
       sy_gas_cost = fixed_cost (Game CardEncode)\<rparr>,
      \<lparr>sy_id = Game CardDecode, sy_host_execute = exec_card_decode,
       sy_gas_cost = fixed_cost (Game CardDecode)\<rparr>,
      \<lparr>sy_id = Game Blake2b256, sy_host_execute = exec_blake2b_256 L,
       sy_gas_cost = length_cost (Game Blake2b256) REG_A1\<rparr>,
      \<lparr>sy_id = Game VerifyDleqProof, sy_host_execute = exec_verify_dleq_proof L,
       sy_gas_cost = length_cost (Game VerifyDleqProof) REG_A2\<rparr>,
      \<lparr>sy_id = Game VerifyReconstructProof, sy_host_execute = exec_verify_reconstruct_proof L,
       sy_gas_cost = length_cost (Game VerifyReconstructProof) REG_A1\<rparr>,
      \<lparr>sy_id = Game VerifyRevealTokenProof, sy_host_execute = exec_verify_reveal_token_proof L,
       sy_gas_cost = length_cost (Game VerifyRevealTokenProof) REG_A1\<rparr>]"

text \<open>The calls that only the registry of the tests has.\<close>

definition mock_calls :: "'v syscall list" where
  "mock_calls =
     [\<lparr>sy_id = Game GameStateRead, sy_host_execute = exec_game_state_read,
       sy_gas_cost = fixed_cost (Game GameStateRead)\<rparr>,
      \<lparr>sy_id = Game GameStateWrite, sy_host_execute = exec_game_state_write,
       sy_gas_cost = length_cost (Game GameStateWrite) REG_A2\<rparr>,
      \<lparr>sy_id = Game ShuffleVerify, sy_host_execute = exec_shuffle_verify,
       sy_gas_cost = length_cost (Game ShuffleVerify) REG_A3\<rparr>]"

section \<open>The registries\<close>

text \<open>\<open>registry.register(call).unwrap()\<close>.\<close>

definition register_unwrap :: "'v registry \<Rightarrow> 'v syscall \<Rightarrow> (zkvm_error, 'v registry) outcome" where
  "register_unwrap r sy = (case register r sy of Inl _ \<Rightarrow> Inl Panic | Inr r' \<Rightarrow> Inr r')"

definition create_production_registry :: "'v library \<Rightarrow> (zkvm_error, 'v registry) outcome" where
  "create_production_registry L =
     foldM register_unwrap new_empty (base_calls L @ bls_calls L @ game_calls L)"

definition create_test_registry :: "'v library \<Rightarrow> (zkvm_error, 'v registry) outcome" where
  "create_test_registry L =
     rbind (create_production_registry L) (\<lambda>registry. foldM register_unwrap registry mock_calls)"

end
