(* ===== verification/HostSafety.thy ===== *)
theory HostSafety
  imports HostCalls
begin

text \<open>
  What every system call keeps: the invariant of the machine and its program counter, and the parts of the
  context that only grow.  The rules of \<open>host_rules\<close> walk through a handler in the order of its reads,
  writes and early returns, so that each handler is one line.
\<close>

section \<open>The contract\<close>

text \<open>
  A machine \<open>s\<close> during a call from \<open>p\<close>: it satisfies the invariant, stands at the same \<open>pc\<close> and differs
  in no register but \<open>a0\<close> and \<open>a1\<close>.
\<close>

definition vm_at :: "vm_state \<Rightarrow> vm_state \<Rightarrow> bool" where
  "vm_at p s \<longleftrightarrow> vm_ok s \<and> vm_pc s = vm_pc p
     \<and> (\<forall>r < 32. r \<noteq> REG_A0 \<longrightarrow> r \<noteq> REG_A1 \<longrightarrow> reg s r = reg p r)"

lemma vm_at_ok: "vm_at p s \<Longrightarrow> vm_ok s"
  by (simp add: vm_at_def)

text \<open>
  A context before a call: the host's state reader does not panic and the \<open>u64\<close> counter has room for one
  more call.
\<close>

definition context_ready :: "'v syscall_context \<Rightarrow> bool" where
  "context_ready ctx \<longleftrightarrow> (\<forall>slot. sc_host_state ctx slot \<noteq> Inl Panic)
      \<and> sc_randomness_counter ctx + 1 \<le> U64_MAX"

text \<open>What a call may do to the context; only \<open>CommitOutput\<close> sets the output and halts.\<close>

definition context_step :: "bool \<Rightarrow> 'v syscall_context \<Rightarrow> 'v syscall_context \<Rightarrow> bool" where
  "context_step commit ctx ctx' \<longleftrightarrow>
     sc_input ctx' = sc_input ctx \<and> sc_step_index ctx' = sc_step_index ctx
     \<and> sc_randomness_seed ctx' = sc_randomness_seed ctx
     \<and> sc_initial_commitment ctx' = sc_initial_commitment ctx
     \<and> sc_final_commitment ctx' = sc_final_commitment ctx \<and> sc_host_state ctx' = sc_host_state ctx
     \<and> (\<exists>es. sc_events ctx' = sc_events ctx @ es) \<and> (\<exists>ls. sc_logs ctx' = sc_logs ctx @ ls)
     \<and> (sc_halted ctx' \<longleftrightarrow> commit \<or> sc_halted ctx) \<and> (commit \<or> sc_output ctx' = sc_output ctx)
     \<and> sc_randomness_counter ctx \<le> sc_randomness_counter ctx'
     \<and> sc_randomness_counter ctx' \<le> sc_randomness_counter ctx + 1"

definition call_ok ::
  "bool \<Rightarrow> 'v syscall_context \<Rightarrow> vm_state \<Rightarrow> 'v syscall_context \<times> vm_state \<Rightarrow> bool" where
  "call_ok commit ctx s r \<longleftrightarrow> context_step commit ctx (fst r) \<and> vm_at s (snd r)"

definition handler_ok :: "bool \<Rightarrow> 'v host_call \<Rightarrow> bool" where
  "handler_ok commit h \<longleftrightarrow>
     (\<forall>ctx s. context_ready ctx \<longrightarrow> vm_ok s \<longrightarrow> safe (call_ok commit ctx s) (h ctx s))"

lemma handler_okI:
  assumes "\<And>ctx s. context_ready ctx \<Longrightarrow> vm_at s s \<Longrightarrow> safe (call_ok commit ctx s) (h ctx s)"
  shows "handler_ok commit h"
  using assms by (simp add: handler_ok_def vm_at_def)

lemma context_step_refl: "context_step False ctx ctx"
  by (simp add: context_step_def)

lemma answer_ok:
  "context_step commit ctx ctx' \<Longrightarrow> vm_at s s' \<Longrightarrow> safe (call_ok commit ctx s) (Inr (ctx', s'))"
  by (simp add: call_ok_def)

section \<open>The rules\<close>

lemma reg_numbers_less: "REG_A0 < 32" "REG_A1 < 32" "REG_A2 < 32" "REG_A3 < 32" "REG_A7 < 32"
    "REG_SP < 32"
  by (simp_all add: reg_numbers)

lemma h_read_register:
  "vm_at p s \<Longrightarrow> r < 32 \<Longrightarrow> (\<And>v. safe Q (k v)) \<Longrightarrow> safe Q (rbind (read_register s r) k)"
  by (simp add: vm_at_def read_register_ok)

lemma h_write_register:
  assumes "vm_at p s" and "r = REG_A0 \<or> r = REG_A1" and "\<And>s'. vm_at p s' \<Longrightarrow> safe Q (k s')"
  shows "safe Q (rbind (write_register s r v) k)"
proof -
  have "r < 32" using assms(2) by (auto simp: reg_numbers)
  from write_register_ok[OF vm_at_ok[OF assms(1)] this, of v] obtain s' where
    s': "write_register s r v = Inr s'" "vm_ok s'" "vm_pc s' = vm_pc s"
    "\<forall>j < 32. reg s' j = (if j = r \<and> r \<noteq> 0 then v else reg s j)" by blast
  then have "vm_at p s'" using assms(1,2) by (auto simp: vm_at_def)
  with s'(1) assms(3) show ?thesis by simp
qed

lemma safe_write_byte_at: "vm_at p s \<Longrightarrow> safe (vm_at p) (write_memory_byte s a v)"
  by (rule safe_weaken[OF safe_write_memory(1)]) (auto simp: vm_at_def reg_def)

lemma h_write_byte:
  assumes "vm_at p s" and "\<And>s'. vm_at p s' \<Longrightarrow> safe Q (k s')"
  shows "safe Q (rbind (write_memory_byte s a v) k)"
  by (rule safe_rbind[OF safe_write_byte_at[OF assms(1)]]) (rule assms(2))

lemma safe_read_vm_bytes:
  assumes "vm_at p s"
  shows "safe (\<lambda>bytes. length bytes = unat len) (read_vm_bytes s a len)"
proof -
  have "safe (\<lambda>bytes. length bytes = n) (foldM (\<lambda>bytes i.
      rbind (read_memory_byte s (a + of_nat i)) (\<lambda>b. Inr (bytes @ [b]))) [] [0..<n])" for n
  proof (induction n)
    case (Suc n)
    have "safe (\<lambda>bytes'. length bytes' = Suc n)
        (rbind (read_memory_byte s (a + of_nat n)) (\<lambda>b. Inr (bytes @ [b])))" if
            "length bytes = n" for bytes
      using assms that by (intro safe_rbind[OF safe_read_memory(1)]) (simp_all add: vm_at_def)
    then show ?case unfolding upt_Suc_append[OF le0] foldM_append foldM.simps
      by (intro safe_rbind[OF Suc]) (rule safe_rbind, simp_all)
  qed simp
  then show ?thesis by (simp add: read_vm_bytes_def)
qed

lemma h_read_vm_bytes:
  assumes "vm_at p s" and "\<And>bytes. length bytes = unat len \<Longrightarrow> safe Q (k bytes)"
  shows "safe Q (rbind (read_vm_bytes s a len) k)"
  by (rule safe_rbind[OF safe_read_vm_bytes[OF assms(1)]]) (rule assms(2))

lemma safe_write_vm_bytes: "vm_at p s \<Longrightarrow> safe (vm_at p) (write_vm_bytes s a bytes)"
  unfolding write_vm_bytes_def by (rule safe_foldM) (auto intro: safe_write_byte_at)

lemma h_write_vm_bytes:
  assumes "vm_at p s" and "\<And>s'. vm_at p s' \<Longrightarrow> safe Q (k s')"
  shows "safe Q (rbind (write_vm_bytes s a bytes) k)"
  by (rule safe_rbind[OF safe_write_vm_bytes[OF assms(1)]]) (rule assms(2))

lemma h_write_bool:
  assumes "vm_at p s" and "\<And>s'. vm_at p s' \<Longrightarrow> safe Q (k s')"
  shows "safe Q (rbind (write_bool s b) k)"
  unfolding write_bool_def using assms by (intro h_write_register) simp_all

lemma h_poseidon:
  assumes "library_ok L" and "\<And>v. safe Q (k v)"
  shows "safe Q (rbind (poseidon_hash (lb_hash L) vs) k)" and
    "safe Q (rbind (poseidon_hash_bytes (lb_hash L) bytes) k)"
  using assms by (simp_all add: poseidon_hash_def poseidon_hash_bytes_def library_ok_def idx_def
      Let_def)

lemma h_hash_to_scalar:
  assumes "library_ok L" and "\<And>v. safe Q (k v)"
  shows "safe Q (rbind (hash_to_scalar L bytes) k)"
proof -
  have "length (lb_sha3_256 (lb_hash L) bytes) = 32" using assms(1) by (simp add: library_ok_def)
  moreover from this have "lb_sha3_256 (lb_hash L) bytes \<noteq> []" by auto
  ultimately show ?thesis using assms(2) by (simp add: hash_to_scalar_def idx_def set_idx_def Let_def)
qed

lemma h_unwrap_or_false:
  assumes "safe (\<lambda>_. True) m" and "\<And>b. safe Q (k b)"
  shows "safe Q (rbind (unwrap_or_false m) k)"
proof -
  have "\<exists>b. unwrap_or_false m = Inr b"
    using assms(1) by (auto simp: unwrap_or_false_def safe_def split: sum.splits fault.splits)
  then show ?thesis using assms(2) by auto
qed

lemma h_debug_assert: "b \<Longrightarrow> safe Q (k ()) \<Longrightarrow> safe Q (rbind (debug_assert b) k)"
  by (simp add: debug_assert_def)

lemma safe_let: "(\<And>x. x = e \<Longrightarrow> safe Q (f x)) \<Longrightarrow> safe Q (let x = e in f x)"
  by simp

lemmas host_rules = h_read_register h_write_register[OF _ disjI1[OF refl]]
  h_write_register[OF _ disjI2[OF refl]] h_write_byte h_read_vm_bytes h_write_vm_bytes
  h_write_bool h_unwrap_or_false safe_bind_ok_or safe_if safe_option reg_numbers_less

lemmas answer_rules = answer_ok safe_simps(2) context_step_refl

section \<open>Input, output and hashing\<close>

lemma read_input_ok: "handler_ok False exec_read_input"
proof (rule handler_okI)
  fix ctx :: "'a syscall_context" and s
  assume "vm_at s s"
  then show "safe (call_ok False ctx s) (exec_read_input ctx s)"
    unfolding exec_read_input_def Let_def
    by (intro host_rules answer_rules safe_rbind[OF safe_foldM[where P = "vm_at s"]])
      (auto simp: idx_def min_def word_less_nat_alt word_le_nat_alt unat_of_nat
        intro: safe_write_byte_at split: if_splits dest: less_le_trans[OF _ mod_less_eq_dividend])
qed

lemma commit_output_ok: "handler_ok True exec_commit_output"
  unfolding exec_commit_output_def
  by (intro handler_okI host_rules answer_rules) (simp_all add: context_step_def)

lemma log_ok: "handler_ok False exec_log"
  unfolding exec_log_def
  by (intro handler_okI host_rules answer_rules) (simp_all add: context_step_def)

lemma panic_ok: "handler_ok False exec_panic"
  unfolding exec_panic_def
  by (intro handler_okI host_rules answer_rules)

lemma poseidon_ok: "library_ok L \<Longrightarrow> handler_ok False (exec_poseidon L)"
  unfolding exec_poseidon_def
  by (intro handler_okI host_rules h_poseidon answer_rules)

lemma sha256_ok: "handler_ok False (exec_sha256 L)"
  unfolding exec_sha256_def
  by (intro handler_okI host_rules answer_rules)

lemma ecdsa_ok: "handler_ok False (exec_ecdsa_verify L)"
  unfolding exec_ecdsa_verify_def Let_def
  by (intro handler_okI host_rules answer_rules)

lemma emit_event_ok: "library_ok L \<Longrightarrow> handler_ok False (exec_emit_event L)"
  unfolding exec_emit_event_def Let_def
  by (intro handler_okI host_rules h_poseidon answer_rules) (simp_all add: context_step_def)

lemma get_randomness_ok: "library_ok L \<Longrightarrow> handler_ok False (exec_get_randomness L)"
  unfolding exec_get_randomness_def Let_def
  by (intro handler_okI host_rules h_poseidon)
    (simp_all add: context_ready_def add_u64_def call_ok_def context_step_def)

section \<open>State slots and cards\<close>

lemma read_state_ok: "handler_ok False exec_read_state"
proof (rule handler_okI)
  fix ctx :: "'a syscall_context" and s
  assume "context_ready ctx" and "vm_at s s"
  moreover from this have "safe (\<lambda>_. True) (sc_host_state ctx slot)" for slot
    by (cases "sc_host_state ctx slot") (auto simp: context_ready_def safe_def split: fault.splits)
  ultimately show "safe (call_ok False ctx s) (exec_read_state ctx s)"
    unfolding exec_read_state_def by (intro host_rules answer_rules safe_rbind[where m =
        "sc_host_state _ _"])
qed

lemma card_encode_ok: "handler_ok False exec_card_encode"
proof (rule handler_okI)
  fix ctx :: "'a syscall_context" and s
  assume "vm_at s s"
  moreover have "suit * NUM_RANKS_PER_SUIT + (rank - TWO) < TOTAL_CARDS"
    if "\<not> (\<not> (TWO \<le> rank \<and> rank \<le> ACE) \<or> NUM_SUITS \<le> suit)" for rank suit
  proof -
    have *: "2 \<le> unat rank" "unat rank \<le> 14" "unat suit < 4"
      using that by (auto simp: card_constants word_le_nat_alt word_less_nat_alt)
    then have "unat (suit * 13 + (rank - 2)) = unat suit * 13 + (unat rank - 2)"
      by (simp add: unat_word_ariths unat_sub word_le_nat_alt)
    with * show ?thesis by (simp add: card_constants word_less_nat_alt)
  qed
  ultimately show "safe (call_ok False ctx s) (exec_card_encode ctx s)"
    unfolding exec_card_encode_def Let_def
    by (intro host_rules h_debug_assert answer_rules) blast
qed

lemma card_decode_ok: "handler_ok False exec_card_decode"
proof (rule handler_okI)
  fix ctx :: "'a syscall_context" and s
  assume "vm_at s s"
  moreover have "TWO \<le> b mod NUM_RANKS_PER_SUIT + TWO \<and> b mod NUM_RANKS_PER_SUIT + TWO \<le> ACE"
    and "b div NUM_RANKS_PER_SUIT < NUM_SUITS" if "\<not> TOTAL_CARDS \<le> b" for b
  proof -
    have m: "unat (b mod 13) < 13" by (simp add: unat_mod_distrib)
    then have "unat (b mod 13 + 2) = unat (b mod 13) + 2" by (simp add: unat_word_ariths)
    with m show "TWO \<le> b mod NUM_RANKS_PER_SUIT + TWO \<and> b mod NUM_RANKS_PER_SUIT + TWO \<le> ACE"
      by (simp add: card_constants word_le_nat_alt)
    from that show "b div NUM_RANKS_PER_SUIT < NUM_SUITS"
      by (simp add: card_constants word_le_nat_alt word_less_nat_alt unat_div_distrib
          less_mult_imp_div_less)
  qed
  ultimately show "safe (call_ok False ctx s) (exec_card_decode ctx s)"
    unfolding exec_card_decode_def Let_def by (intro host_rules h_debug_assert answer_rules) blast+
qed

section \<open>BLS12-381\<close>

lemma bls_ok:
  "handler_ok False (scalar_binary L c f)" "handler_ok False (g1_binary L c f)"
      "handler_ok False (scalar_unary L c g)"
  "handler_ok False (exec_hash_to_curve L)" "handler_ok False (exec_g1_mul L)"
      "handler_ok False (exec_pairing L)"
  "handler_ok False (exec_g1_generator L)"
  unfolding scalar_binary_def g1_binary_def scalar_unary_def exec_hash_to_curve_def exec_g1_mul_def
    exec_pairing_def exec_g1_generator_def Let_def
  by (intro handler_okI host_rules answer_rules; assumption?)+

lemma hash_to_scalar_ok: "library_ok L \<Longrightarrow> handler_ok False (exec_hash_to_scalar L)"
  unfolding exec_hash_to_scalar_def by (intro handler_okI host_rules h_hash_to_scalar answer_rules)

section \<open>Proof verification\<close>

lemma h_buffer:
  assumes "\<And>x y. safe Q (k (x, y))"
  shows "safe Q (rbind (read_len_prefixed buf) k)" and "safe Q (rbind (read_fixed buf n) k)"
  using assms by (simp_all add: read_len_prefixed_def read_fixed_def Let_def)

lemma h_ciphertexts:
  assumes "\<And>x. safe Q (k x)"
  shows "safe Q (rbind (deserialize_ciphertexts P bytes) k)"
  unfolding deserialize_ciphertexts_def using assms by (intro safe_bind_ok_or)

lemma h_ciphertext:
  assumes "\<And>x. safe Q (k x)"
  shows "safe Q (rbind (parse_single_ciphertext P bytes) k)"
  using assms by (auto simp: parse_single_ciphertext_def ok_or_def split: option.split)

lemmas inner_rules = h_buffer h_ciphertexts h_ciphertext safe_if safe_option safe_bind_ok_or

lemma inner_safe:
  "safe (\<lambda>_. True) (verify_reconstruct_proof_inner P buf)"
  "safe (\<lambda>_. True) (verify_reveal_token_proof_inner P buf)"
  "safe (\<lambda>_. True) (verify_dleq_proof_inner P kind buf)"
  unfolding verify_dleq_proof_inner_def verify_reconstruct_proof_inner_def
    verify_reveal_token_proof_inner_def
  by (auto intro!: inner_rules)

lemma verify_buffer_ok: "(\<And>buf. safe (\<lambda>_. True) (inner buf)) \<Longrightarrow> handler_ok False (verify_buffer inner)"
  unfolding verify_buffer_def by (intro handler_okI host_rules answer_rules)

lemma proof_ok: "handler_ok False (exec_verify_dleq_proof L)"
    "handler_ok False (exec_verify_reconstruct_proof L)"
  "handler_ok False (exec_verify_reveal_token_proof L)" "handler_ok False (exec_blake2b_256 L)"
  unfolding exec_verify_dleq_proof_def exec_verify_reconstruct_proof_def
    exec_verify_reveal_token_proof_def exec_blake2b_256_def
  by (intro handler_okI verify_buffer_ok inner_safe host_rules answer_rules; assumption?)+

section \<open>The registries\<close>

definition production_calls :: "'v library \<Rightarrow> 'v syscall list" where
  "production_calls L = base_calls L @ bls_calls L @ game_calls L"

lemma register_all:
  assumes "registry_ok r" and "distinct (map sy_id calls)" and
      "\<And>sy. sy \<in> set calls \<Longrightarrow> lookup r (sy_id sy) = None"
  shows "\<exists>r'. foldM register_unwrap r calls = Inr r' \<and> registry_ok r'
    \<and> lookup r' = (\<lambda>c. case find (\<lambda>sy. sy_id sy = c) calls of None \<Rightarrow> lookup r c | Some sy \<Rightarrow> Some sy)"
  using assms
proof (induction calls arbitrary: r)
  case Nil
  then show ?case by simp
next
  case (Cons sy calls)
  let ?r = "r[sparse_index (sy_id sy) := Some sy]"
  have ok: "registry_ok ?r" using Cons.prems(1) by (rule registry_ok_register)
  have look: "lookup ?r c = (if c = sy_id sy then Some sy else lookup r c)" for c
    by (rule lookup_register[OF Cons.prems(1)])
  have "lookup ?r (sy_id x) = None" if "x \<in> set calls" for x
  proof -
    have "sy_id x \<noteq> sy_id sy" using Cons.prems(2) that by (metis distinct.simps(2) list.simps(9)
        image_eqI set_map)
    with Cons.prems(3)[of x] that show ?thesis by (simp add: look)
  qed
  from Cons.IH[OF ok _ this] Cons.prems(2) obtain r' where r': "foldM register_unwrap ?r calls = Inr r'"
    "registry_ok r'"
    "lookup r' = (\<lambda>c. case find (\<lambda>sy. sy_id sy
        = c) calls of None \<Rightarrow> lookup ?r c | Some sy \<Rightarrow> Some sy)" by auto
  have "find (\<lambda>x. sy_id x = sy_id sy) calls = None" using Cons.prems(2)
    by (simp add: find_None_iff) (metis image_eqI)
  then have "lookup r' = (\<lambda>c. case find (\<lambda>sy. sy_id sy = c) (sy # calls) of
      None \<Rightarrow> lookup r c | Some sy \<Rightarrow> Some sy)"
    by (auto simp: r'(3) look fun_eq_iff split: option.split)
  moreover have "register_unwrap r sy = Inr ?r"
    using Cons.prems(1,3) by (simp add: register_unwrap_def register_eq)
  ultimately show ?case using r'(1,2) by auto
qed

lemma production_ids:
  "map sy_id (production_calls L) =
     map Base [ReadInput, CommitOutput, Poseidon, Sha256, EcdsaVerify, EmitEvent, Log, PanicCall,
       GetRandomness, ReadState]
     @ map Bls12381 [HashToCurve, ScalarMul, G1Add, G1Mul, Pairing, HashToScalar, ScalarAdd, ScalarSub,
         ScalarNeg, ScalarInv, G1Sub, G1Generator]
     @ map Game [CardEncode, CardDecode, Blake2b256, VerifyDleqProof, VerifyReconstructProof,
         VerifyRevealTokenProof]"
  by (simp add: production_calls_def base_calls_def bls_calls_def game_calls_def)

lemma production_registry:
  "\<exists>r. create_production_registry L = Inr r \<and> registry_ok r
     \<and> lookup r = (\<lambda>c. find (\<lambda>sy. sy_id sy = c) (production_calls L))"
proof -
  have "distinct (map sy_id (production_calls L))" unfolding production_ids by simp
  from register_all[OF registry_ok_empty this] obtain r where
    r: "foldM register_unwrap new_empty (production_calls L) = Inr r" "registry_ok r"
    "lookup r = (\<lambda>c. case find (\<lambda>sy. sy_id sy = c) (production_calls L) of
       None \<Rightarrow> lookup new_empty c | Some sy \<Rightarrow> Some sy)" by (auto simp: lookup_empty)
  have "lookup r c = find (\<lambda>sy. sy_id sy = c) (production_calls L)" for c
    by (simp add: r(3) lookup_empty split: option.split)
  with r(1,2) show ?thesis by (auto simp: create_production_registry_def production_calls_def)
qed

lemma production_calls_ok:
  assumes "library_ok L" and "sy \<in> set (production_calls L)"
  shows "handler_ok (sy_id sy = Base CommitOutput) (sy_host_execute sy)"
proof -
  note ok = read_input_ok commit_output_ok log_ok panic_ok poseidon_ok[OF assms(1)] sha256_ok ecdsa_ok
    emit_event_ok[OF assms(1)] get_randomness_ok[OF assms(1)] read_state_ok card_encode_ok
    card_decode_ok bls_ok hash_to_scalar_ok[OF assms(1)] proof_ok
  have "\<forall>sy \<in> set (production_calls L). handler_ok (sy_id sy = Base CommitOutput) (sy_host_execute sy)"
    unfolding production_calls_def base_calls_def bls_calls_def game_calls_def
    by (simp add: ok exec_scalar_mul_def exec_g1_add_def exec_scalar_add_def exec_scalar_sub_def
        exec_scalar_neg_def exec_scalar_inv_def exec_g1_sub_def)
  with assms(2) show ?thesis by blast
qed

lemma dispatch_production:
  assumes "create_production_registry L = Inr r"
  shows "dispatch r w ctx s = rbind (from_u32 w) (\<lambda>c. case find (\<lambda>sy. sy_id sy
      = c) (production_calls L) of
      None \<Rightarrow> Inl (Fail (Other (NotRegistered (syscall_code c)))) | Some sy \<Rightarrow> sy_host_execute sy ctx s)"
  using production_registry[of L] assms by (auto simp: dispatch_eq)

lemma safe_from_u32: "safe (\<lambda>_. True) (from_u32 w)"
  by (simp add: from_u32_def split: option.split)

lemma safe_dispatch:
  assumes "library_ok L" and "create_production_registry L = Inr r" and "context_ready ctx" and
      "vm_ok s"
  shows "safe (call_ok (w = 2) ctx s) (dispatch r w ctx s)"
proof (cases "from_u32 w")
  case (Inl e)
  with safe_from_u32[of w] show ?thesis by (cases e) (simp_all add: dispatch_production[OF assms(2)])
next
  case (Inr c)
  have w: "w = 2 \<longleftrightarrow> c = Base CommitOutput" using Inr from_u32_code[of
      "Base CommitOutput"] code_from_u32[OF Inr] by auto
  show ?thesis
  proof (cases "find (\<lambda>sy. sy_id sy = c) (production_calls L)")
    case (Some sy)
    then have "sy \<in> set (production_calls L)" "sy_id sy = c" by (auto simp: find_Some_iff)
    with production_calls_ok[OF assms(1), of sy] show ?thesis using Some assms(3,4)
      by (simp add: dispatch_production[OF assms(2)] Inr w handler_ok_def)
  qed (simp add: dispatch_production[OF assms(2)] Inr)
qed

text \<open>
  What each number of an ecall does in production, written out: the 28 calls with their handlers, and
  the numbers that name a call which is reserved or meant for tests only (the mocked game state and
  the weak shuffle check).
\<close>

definition production_numbers :: "'v library \<Rightarrow> (u32 \<times> 'v host_call) list" where
  "production_numbers L =
     [(0x01, exec_read_input), (0x02, exec_commit_output), (0x03, exec_poseidon L), (0x04, exec_sha256 L),
      (0x05, exec_ecdsa_verify L), (0x06, exec_emit_event L), (0x07, exec_log), (0x08, exec_panic),
      (0x09, exec_get_randomness L), (0x0A, exec_read_state), (0x10, exec_hash_to_curve L), (0x11, exec_scalar_mul L),
      (0x12, exec_g1_add L), (0x13, exec_g1_mul L), (0x14, exec_pairing L), (0x15, exec_hash_to_scalar L),
      (0x16, exec_scalar_add L), (0x17, exec_scalar_sub L), (0x18, exec_scalar_neg L), (0x19, exec_scalar_inv L),
      (0x1A, exec_g1_sub L), (0x1B, exec_g1_generator L), (0x30, exec_card_encode), (0x31, exec_card_decode),
      (0x33, exec_blake2b_256 L), (0x34, exec_verify_dleq_proof L), (0x35, exec_verify_reconstruct_proof L), (0x36, exec_verify_reveal_token_proof L)]"

definition blocked_numbers :: "u32 list" where
  "blocked_numbers = [0x0B, 0x0C, 0x0D, 0x0E, 0x0F, 0x20, 0x21, 0x32]"

lemma production_numbers_calls:
  "production_numbers L = map (\<lambda>sy. (syscall_code (sy_id sy), sy_host_execute sy)) (production_calls L)"
  by (simp add: production_numbers_def production_calls_def base_calls_def bls_calls_def game_calls_def)

lemma syscall_code_inject: "syscall_code c = syscall_code d \<longleftrightarrow> c = d"
  by (metis from_u32_code sum.inject(2))

lemma production_numbers_lookup:
  "map_of (production_numbers L) (syscall_code c) =
     map_option sy_host_execute (find (\<lambda>sy. sy_id sy = c) (production_calls L))"
proof -
  have "map_of (map (\<lambda>sy. (syscall_code (sy_id sy), sy_host_execute sy)) xs) (syscall_code c) =
    map_option sy_host_execute (find (\<lambda>sy. sy_id sy = c) xs)" for xs :: "'a syscall list"
    by (induction xs) (auto simp: syscall_code_inject)
  then show ?thesis by (simp add: production_numbers_calls)
qed

lemma blocked_or_registered: "syscall_code c \<in> set blocked_numbers \<longleftrightarrow> c \<notin> set (map sy_id (production_calls L))"
proof (cases c)
  case (Base k)
  then show ?thesis unfolding production_ids by (cases k) (auto simp: blocked_numbers_def)
next
  case (Bls12381 k)
  then show ?thesis unfolding production_ids by (cases k) (auto simp: blocked_numbers_def)
next
  case (Game k)
  then show ?thesis unfolding production_ids by (cases k) (auto simp: blocked_numbers_def)
qed

lemma blocked_calls:
  "syscall_code c \<in> set blocked_numbers \<longleftrightarrow> find (\<lambda>sy. sy_id sy = c) (production_calls L) = None"
  unfolding blocked_or_registered[of c L] by (auto simp: find_None_iff)

lemma unknown_number:
  assumes "from_u32 w = Inl e"
  shows "e = Fail (Other (UnknownSyscall w))" "w \<notin> set blocked_numbers" "map_of (production_numbers L) w = None"
proof -
  show "e = Fail (Other (UnknownSyscall w))" using assms by (simp add: from_u32_def split: option.splits)
  have u: "w \<noteq> syscall_code c" for c
  proof
    assume "w = syscall_code c"
    then show False using assms by (simp add: from_u32_code)
  qed
  then show "map_of (production_numbers L) w = None"
    unfolding production_numbers_calls map_of_eq_None_iff by force
  show "w \<notin> set blocked_numbers"
    using u[of "Base Keccak256"] u[of "Base Modexp"] u[of "Base MerkleVerify"] u[of "Base Ed25519Verify"]
      u[of "Base Bn254Pairing"] u[of "Game GameStateRead"] u[of "Game GameStateWrite"] u[of "Game ShuffleVerify"]
    by (simp add: blocked_numbers_def)
qed

text \<open>
  C33: the production registry.  It can always be built and holds 28 calls.  Dispatching any of the
  \<open>2 ^ 32\<close> numbers an ecall can carry does exactly this: one of the 28 listed numbers runs the handler
  listed for it; a number of a call that is reserved or only for tests (the mocked game state and the
  weak shuffle check) is the error that the call is not registered; and every other number is the
  error that the call is unknown.  An error leaves no effect.
\<close>

theorem production_registry_blocks_mocks:
  "\<exists>r. create_production_registry L = Inr r \<and> registry_len r = 28 \<and>
     (\<forall>w ctx s. dispatch r w ctx s =
        (case map_of (production_numbers L) w of
           Some handler \<Rightarrow> handler ctx s
         | None \<Rightarrow> Inl (Fail (Other (if w \<in> set blocked_numbers then NotRegistered w else UnknownSyscall w)))))"
proof -
  obtain r where r: "create_production_registry L = Inr r" "registry_ok r"
    "lookup r = (\<lambda>c. find (\<lambda>sy. sy_id sy = c) (production_calls L))"
    using production_registry[of L] by blast
  have "registry_len r = length (filter (\<lambda>c. lookup r c \<noteq> None) all_syscalls)"
  proof -
    have "map (\<lambda>c. lookup r c) all_syscalls = map ((!) r) (map sparse_index all_syscalls)"
      by (simp add: lookup_def)
    also have "\<dots> = r" using map_nth[of r] r(2) by (simp add: sparse_indices registry_ok_def)
    finally show ?thesis unfolding registry_len_def
      by (metis (no_types, lifting) filter_map length_map comp_def filter_cong)
  qed
  also have "\<dots> = 28"
    unfolding r(3) all_syscalls_def production_calls_def base_calls_def bls_calls_def game_calls_def by simp
  finally have len: "registry_len r = 28" .
  have "dispatch r w ctx s =
        (case map_of (production_numbers L) w of
           Some handler \<Rightarrow> handler ctx s
         | None \<Rightarrow> Inl (Fail (Other (if w \<in> set blocked_numbers then NotRegistered w else UnknownSyscall w))))" for w ctx s
  proof (cases "from_u32 w")
    case (Inl e)
    then show ?thesis using unknown_number(1,2)[OF Inl] unknown_number(3)[OF Inl, of L] by (simp add: dispatch_production[OF r(1)])
  next
    case (Inr c)
    then show ?thesis
      using production_numbers_lookup[of L c] blocked_calls[of c L] code_from_u32[OF Inr]
      by (auto simp: dispatch_production[OF r(1)] split: option.splits)
  qed
  then show ?thesis using r(1) len by blast
qed

end
