(* ===== verification/HostEffects.thy ===== *)
theory HostEffects
  imports HostSafety
begin

text \<open>
  What single system calls do: the transfer of the input, the encoding of cards, and the safety of
  every dispatched call.
\<close>

section \<open>A library\<close>

text \<open>A library that meets the documented behaviour, for the concrete instances of the properties.\<close>

definition toy_library :: "nat library" where
  "toy_library =
     \<lparr>lb_hash = \<lparr>lb_fr_zero = 0, lb_fr_of_u64 = (\<lambda>n. n), lb_fr_bytes = (\<lambda>_. []), lb_sponge = 0,
        lb_absorb_fr = (\<lambda>_ vs. sum_list vs), lb_absorb_bytes = (\<lambda>_ bs. length bs),
        lb_squeeze = (\<lambda>st n. replicate n st), lb_sha256 = (\<lambda>_. replicate 32 0),
        lb_sha3_256 = (\<lambda>_. replicate 32 0), lb_blake2b = (\<lambda>n _. Some (replicate n 0)),
        lb_signature = (\<lambda>_. None), lb_public_key = (\<lambda>_. None), lb_ecdsa_verify = (\<lambda>_ _ _. False)\<rparr>,
      lb_bls = \<lparr>lb_g1_from = (\<lambda>_. None), lb_g2_from = (\<lambda>_. None), lb_scalar_from = (\<lambda>_. None),
        lb_g1_to = (\<lambda>_. replicate 48 0), lb_scalar_to = (\<lambda>_. replicate 32 0),
        lb_hash_to_g1 = (\<lambda>_ _. 0), lb_scalar_mul = (*), lb_scalar_add = (+), lb_scalar_sub = (-),
        lb_scalar_neg = (\<lambda>a. a), lb_scalar_invert = (\<lambda>_. None), lb_scalar_zero = 0, lb_g1_add = (+),
        lb_g1_sub = (-), lb_g1_neg = (\<lambda>a. a), lb_g1_mul = (*), lb_g1_generator = 1,
        lb_pairing_product_is_one = (\<lambda>_. False)\<rparr>,
      lb_proof = \<lparr>lb_point = (\<lambda>_. None), lb_ciphertexts = (\<lambda>_. None), lb_remask_proof = (\<lambda>_. None),
        lb_leave_proof = (\<lambda>_. None), lb_shuffle_proof = (\<lambda>_. None),
        lb_reconstruct_proof = (\<lambda>_. None), lb_statement = (\<lambda>_. None), lb_reveal_proof = (\<lambda>_. None),
        lb_transcript = (\<lambda>_. 0), lb_verify_remask = (\<lambda>_ _ _ _ _. False),
        lb_verify_leave = (\<lambda>_ _ _ _ _. False), lb_verify_shuffle = (\<lambda>_ _ _ _ _. False),
        lb_verify_reconstruct = (\<lambda>_ _ _. False), lb_verify_reveal = (\<lambda>_ _ _ _ _. False)\<rparr>\<rparr>"

lemma toy_library_ok: "library_ok toy_library"
  by (simp add: library_ok_def toy_library_def)

section \<open>Every call is safe\<close>

text \<open>
  C28: no system call of the production registry panics or breaks the machine, whatever the guest passes: with a
  library that behaves as documented, from a machine that satisfies the invariant, a call ends in an
  error or in such a machine at the same \<open>pc\<close> with the same registers but for \<open>a0\<close> and \<open>a1\<close>; the input,
  the step index, the randomness and the host's state stay, events and logs are only appended to, and
  \<open>CommitOutput\<close>, the number 2, is the one call that sets the output and halts.
\<close>

theorem syscalls_keep_invariant:
  assumes "library_ok L" and "create_production_registry L = Inr r" and "context_ready ctx" and
      "vm_ok s"
  shows "(\<exists>e. dispatch r w ctx s = Inl (Fail e))
    \<or> (\<exists>ctx' s'. dispatch r w ctx s = Inr (ctx', s') \<and> context_step (w = 2) ctx ctx' \<and> vm_at s s')"
  using safe_dispatch[OF assms, of w]
  by (auto simp: safe_def call_ok_def split: sum.splits fault.splits)

lemma new_context_ready: "context_ready (new_context z input)"
  by (simp add: context_ready_def new_context_def stub_read_slot_def u64_limit_def)

theorem syscalls_keep_invariant_witness:
  "\<exists>r s'. create_production_registry toy_library = Inr r
     \<and> dispatch r 1 (new_context 0 []) new_vm = Inr (new_context 0 [], s') \<and> vm_ok s'"
proof -
  obtain r where r: "create_production_registry toy_library = Inr r" using production_registry by blast
  have "\<exists>s'. dispatch r 1 (new_context 0 []) new_vm = Inr (new_context 0 [], s')"
    by (simp add: dispatch_production[OF r] from_u32_def base_of_def production_calls_def base_calls_def
        exec_read_input_def read_register_def write_register_def set_idx_def idx_def reg_numbers
            new_vm_def
        new_context_def Let_def)
  with r syscalls_keep_invariant[OF toy_library_ok r new_context_ready new_vm_ok, of 1 0 "[]"]
  show ?thesis by (fastforce simp: vm_at_def)
qed

section \<open>Input\<close>

lemma read_input_loop:
  assumes "n \<le> length input"
  shows "foldM (\<lambda>s i. rbind (idx input i) (\<lambda>b. write_memory_byte s (a + of_nat i) b)) s [0..<n]
    = write_vm_bytes s a (take n input)"
proof -
  have eq: "foldM (\<lambda>s i. rbind (idx input i) (\<lambda>b. write_memory_byte s (a + of_nat i) b)) s is
      = foldM (\<lambda>s (i, b). write_memory_byte s (a + of_nat i) b) s (map (\<lambda>i. (i, input ! i)) is)"
    if "\<And>i. i \<in> set is \<Longrightarrow> i < length input" for "is"
    using that by (induction "is" arbitrary: s) (auto simp: idx_def intro!: rbind_cong)
  have "enumerate 0 (take n input) = map (\<lambda>i. (i, input ! i)) [0..<n]"
    using assms by (simp add: enumerate_eq_zip list_eq_iff_nth_eq min_absorb2)
  then show ?thesis using assms eq[of "[0..<n]"] by (simp add: write_vm_bytes_def)
qed

text \<open>
  \<open>ReadInput\<close> delivers the input: on success \<open>a0\<close> is the buffer (the start of the heap for a null
  pointer), \<open>a1\<close> the number of bytes, at most the length asked for, and reading that buffer back
  yields that prefix of the input; the other registers and the context are unchanged.
\<close>

lemma read_input_delivers:
  assumes "vm_ok s" and "exec_read_input ctx s = Inr (ctx', s')"
  shows "ctx' = ctx \<and> vm_ok s' \<and> reg s' REG_A1 = min (of_nat (length (sc_input ctx))) (reg s REG_A1)
    \<and> reg s' REG_A0 = (if reg s REG_A0 = 0 then HEAP_START else reg s REG_A0)
    \<and> read_vm_bytes s' (reg s' REG_A0) (reg s' REG_A1)
        = Inr (take (unat (reg s' REG_A1)) (sc_input ctx))"
proof -
  define n where "n = min (of_nat (length (sc_input ctx))) (reg s REG_A1)"
  define a where "a = (if reg s REG_A0 = 0 then HEAP_START else reg s REG_A0)"
  have le: "unat n \<le> length (sc_input ctx)"
  proof -
    have "unat n \<le> unat (of_nat (length (sc_input ctx)) :: u32)" unfolding n_def by (simp add:
        word_le_nat_alt[symmetric])
    also have "\<dots> \<le> length (sc_input ctx)" by (simp add: unat_of_nat)
    finally show ?thesis .
  qed
  let ?bytes = "take (unat n) (sc_input ctx)"
  have len: "length ?bytes = unat n" using le by simp
  from assms(2) obtain s1 s2 where s1: "write_vm_bytes s a ?bytes = Inr s1"
    and s2: "write_register s1 REG_A0 a = Inr s2" and s3:
        "write_register s2 REG_A1 n = Inr s'" and ctx: "ctx' = ctx"
    by (auto simp: exec_read_input_def read_register_ok[OF assms(1)] reg_numbers_less Let_def
        read_input_loop[OF le[unfolded n_def]] n_def a_def outcome_simps)
  note w = write_vm_bytes_effect[OF assms(1) _ s1, unfolded len, simplified, OF u32_bound[simplified]]
  from write_register_ok[OF w(2) reg_numbers_less(1), of a] s2
  have 2: "vm_ok s2" "vm_memory s2 = vm_memory s1" "reg s2 REG_A0 = a" by (auto simp: reg_numbers)
  from write_register_ok[OF 2(1) reg_numbers_less(2), of n] s3
  have 3: "vm_ok s'" "vm_memory s' = vm_memory s2" "reg s' REG_A1 = n" "reg s' REG_A0 = reg s2 REG_A0"
    by (auto simp: reg_numbers)
  have "read_vm_bytes s' a n = read_vm_bytes s1 a n"
    by (simp add: read_vm_bytes_def read_memory_byte_def 2(2) 3(2))
  then show ?thesis using ctx w(1) 2(3) 3 by (simp add: a_def n_def)
qed

text \<open>Three bytes of input, asked for with a null pointer and room for two.\<close>

definition two_of_three :: "nat syscall_context \<times> vm_state" where
  "two_of_three = (new_context 0 [7, 8, 9], new_vm\<lparr>vm_registers := (replicate 32 0)[11 := 2]\<rparr>)"

lemma new_memory_allocates: "can_allocate new_memory a"
  by (simp add: can_allocate_def new_memory_def MAX_ZKVM_MEMORY_def)

lemma write_small:
  assumes "vm_ok s" and "vm_memory s = new_memory" and
      "\<And>i. i < length bytes \<Longrightarrow> page_base (a + of_nat i) = page_base a"
  shows "\<exists>s'. write_vm_bytes s a bytes = Inr s'"
proof -
  let ?avs = "zip (vm_addrs a (length bytes)) bytes"
  have "page_base (fst x) = page_base a" if "x \<in> set ?avs" for x
  proof -
    have "fst x \<in> set (vm_addrs a (length bytes))" using that set_zip_leftD[of "fst x" "snd x"] by simp
    then show ?thesis using assms(3) by (auto simp: vm_addrs_def)
  qed
  then obtain m' where "mem.stores new_memory ?avs = Inr m'"
    using stores_succeed[OF new_memory_ok new_memory_allocates] by blast
  then show ?thesis using assms(2) by (simp add: write_vm_bytes_stores with_memory_def)
qed

section \<open>Cards\<close>

lemma unat_card_index:
  assumes "2 \<le> (rank :: byte)" and "rank \<le> 14" and "suit < (4 :: byte)"
  shows "unat (suit * 13 + (rank - 2)) = unat suit * 13 + (unat rank - 2)"
proof -
  have "unat rank \<le> 14" "unat suit < 4" "2 \<le> unat rank"
    using assms by (simp_all add: word_le_nat_alt word_less_nat_alt)
  then show ?thesis using assms(1) by (simp add: unat_word_ariths unat_sub)
qed

lemma card_index_inverse:
  assumes "2 \<le> (rank :: byte)" and "rank \<le> 14" and "suit < (4 :: byte)"
  shows "(suit * 13 + (rank - 2)) mod 13 + 2 = rank" and "(suit * 13 + (rank - 2)) div 13 = suit"
    and "suit * 13 + (rank - 2) < 52"
proof -
  note u = unat_card_index[OF assms]
  have r: "unat rank - 2 < 13" "2 \<le> unat rank"
    using assms by (auto simp: word_le_nat_alt)
  have "unat ((suit * 13 + (rank - 2)) mod 13) = unat rank - 2"
    using r(1) by (simp add: unat_mod_distrib u)
  then have "unat ((suit * 13 + (rank - 2)) mod 13 + 2) = unat rank"
    using r by (simp add: unat_word_ariths)
  then show "(suit * 13 + (rank - 2)) mod 13 + 2 = rank" by (simp add: word_unat_eq_iff)
  have "unat ((suit * 13 + (rank - 2)) div 13) = unat suit" using r by (simp add: unat_div_distrib u)
  then show "(suit * 13 + (rank - 2)) div 13 = suit" by (simp add: word_unat_eq_iff)
  have "unat suit < 4" using assms(3) by (simp add: word_less_nat_alt)
  with r u show "suit * 13 + (rank - 2) < 52" by (simp add: word_less_nat_alt)
qed

lemma write_then_read_byte:
  assumes "vm_ok s" and "write_memory_byte s a b = Inr s'"
  shows "vm_ok s'" and "vm_registers s' = vm_registers s" and
    "read_memory_byte s' c = (if c = a then Inr b else read_memory_byte s c)"
proof -
  from assms obtain m where m: "mem_ok (vm_memory s)" "write_byte (vm_memory s) a b = Inr m"
    "s' = s\<lparr>vm_memory := m\<rparr>"
    by (auto simp: write_memory_byte_def with_memory_def vm_ok_def outcome_simps)
  note e = write_byte_Inr[OF m(1,2)]
  show "vm_ok s'" "vm_registers s' = vm_registers s" using e assms(1) by (simp_all add: m(3) vm_ok_def)
  show "read_memory_byte s' c = (if c = a then Inr b else read_memory_byte s c)"
    using e m(1) by (simp add: m(3) read_memory_byte_def read_byte_content)
qed

lemma write_then_register:
  assumes "vm_ok s" and "write_register s REG_A0 v = Inr s'"
  shows "vm_ok s'" and "reg s' REG_A0 = v" and "read_memory_byte s' c = read_memory_byte s c"
  using write_register_ok[OF assms(1) reg_numbers_less(1), of v] assms(2)
  by (auto simp: reg_numbers read_memory_byte_def)

text \<open>The encoding, for the low bytes of \<open>a0\<close> and \<open>a1\<close>: refused with \<open>0\<close>, or one byte below 52.\<close>

lemma card_encode_result:
  assumes ok: "vm_ok s" and run: "exec_card_encode ctx s = Inr (ctx', s')"
  shows "if 2 \<le> (ucast (reg s REG_A0) :: byte) \<and> (ucast (reg s REG_A0) :: byte) \<le> 14
            \<and> (ucast (reg s REG_A1) :: byte) < 4
    then reg s' REG_A0 = 1 \<and> read_memory_byte s' (reg s REG_A2)
           = Inr (ucast (reg s REG_A1) * 13 + (ucast (reg s REG_A0) - 2))
    else reg s' REG_A0 = 0"
  using run write_then_register[OF ok] write_then_register[OF write_then_read_byte(1)[OF ok]]
    write_then_read_byte(3)[OF ok]
  by (auto simp: exec_card_encode_def read_register_ok[OF ok] reg_numbers_less card_constants Let_def
      outcome_simps not_le split: if_splits)

lemma card_decode_result:
  assumes ok: "vm_ok s" and run: "exec_card_decode ctx s = Inr (ctx', s')" and apart:
      "reg s REG_A1 \<noteq> reg s REG_A2"
  shows "if (ucast (reg s REG_A0) :: byte) < 52
    then reg s' REG_A0 = 1
      \<and> read_memory_byte s' (reg s REG_A1) = Inr (ucast (reg s REG_A0) mod 13 + 2)
      \<and> read_memory_byte s' (reg s REG_A2) = Inr (ucast (reg s REG_A0) div 13)
    else reg s' REG_A0 = 0"
proof (cases "(ucast (reg s REG_A0) :: byte) < 52")
  case True
  then have "\<not> 52 \<le> (ucast (reg s REG_A0) :: byte)" by simp
  with run obtain s1 s2 where
    s1: "write_memory_byte s (reg s REG_A1) (ucast (reg s REG_A0) mod 13 + 2) = Inr s1" and
    s2: "write_memory_byte s1 (reg s REG_A2) (ucast (reg s REG_A0) div 13) = Inr s2" and
    s': "write_register s2 REG_A0 1 = Inr s'"
    by (auto simp: exec_card_decode_def read_register_ok[OF ok] reg_numbers_less card_constants Let_def
        outcome_simps simp del: not_le)
  note 1 = write_then_read_byte[OF ok s1]
  note 2 = write_then_read_byte[OF 1(1) s2]
  show ?thesis using True apart write_then_register[OF 2(1) s'] 1(3) 2(3) by simp
next
  case False
  with run show ?thesis using write_then_register(2)[OF ok, of 0 s']
    by (auto simp: exec_card_decode_def read_register_ok[OF ok] reg_numbers_less card_constants Let_def
        outcome_simps not_less)
qed

text \<open>
  Encoding a card and decoding the byte gives the card back: when \<open>CardEncode\<close> answers \<open>1\<close>, it
  has written one byte \<open>b\<close> of the deck (below 52), and \<open>CardDecode\<close> of \<open>b\<close>, on any machine with two
  distinct result addresses, answers \<open>1\<close> and writes the rank and the suit that were encoded.
\<close>

lemma card_roundtrip:
  assumes "vm_ok s" and "exec_card_encode ctx s = Inr (ctx', s')" and "reg s' REG_A0 = 1"
    and "read_memory_byte s' (reg s REG_A2) = Inr b"
    and "vm_ok t" and "reg t REG_A0 = ucast b" and "reg t REG_A1 \<noteq> reg t REG_A2"
    and "exec_card_decode c t = Inr (c', t')"
  shows "b < 52 \<and> reg t' REG_A0 = 1 \<and> read_memory_byte t' (reg t REG_A1) = Inr (ucast (reg s REG_A0))
    \<and> read_memory_byte t' (reg t REG_A2) = Inr (ucast (reg s REG_A1))"
proof -
  let ?rank = "ucast (reg s REG_A0) :: byte" and ?suit = "ucast (reg s REG_A1) :: byte"
  have v: "2 \<le> ?rank" "?rank \<le> 14" "?suit < 4" and b: "b = ?suit * 13 + (?rank - 2)"
    using card_encode_result[OF assms(1,2)] assms(3,4) by (auto split: if_splits)
  have "ucast (ucast b :: u32) = b" by (rule bit_word_eqI) (auto simp: bit_simps)
  then show ?thesis using card_decode_result[OF assms(5,8,7)] card_index_inverse[OF v] by (simp add:
      assms(6) b)
qed

text \<open>The ace of the suit 3 has the byte 51.\<close>

definition args :: "u32 \<Rightarrow> u32 \<Rightarrow> u32 \<Rightarrow> vm_state" where
  "args a0 a1 a2 = new_vm\<lparr>vm_registers := (replicate 32 0)[10 := a0, 11 := a1, 12 := a2]\<rparr>"

lemma args_ok: "vm_ok (args a0 a1 a2)"
  by (simp add: args_def vm_ok_def new_vm_def new_memory_ok)

lemma args_reg: "reg (args a0 a1 a2) REG_A0 = a0" "reg (args a0 a1 a2) REG_A1 = a1"
    "reg (args a0 a1 a2) REG_A2 = a2"
  by (simp_all add: args_def reg_def reg_numbers)

lemma write_byte_same_page:
  assumes "vm_ok s" and "can_allocate (vm_memory s) a"
  shows "\<exists>s'. write_memory_byte s a b = Inr s' \<and> vm_ok s'
    \<and> (\<forall>c. page_base c = page_base a \<longrightarrow> can_allocate (vm_memory s') c)"
proof -
  have m: "mem_ok (vm_memory s)" using assms(1) by (simp add: vm_ok_def)
  from write_byte_succeeds[OF m assms(2), of b] obtain m' where
      "write_byte (vm_memory s) a b = Inr m'" "mem_ok m'"
    "dom (mm_pages m') = insert (page_base a) (dom (mm_pages (vm_memory s)))" by blast
  moreover from this(3) have "mm_pages m' (page_base c) \<noteq> None" if "page_base c = page_base a" for c
    using that by (metis domIff insertI1)
  ultimately show ?thesis using assms(1)
    by (simp add: write_memory_byte_def with_memory_def vm_ok_def can_allocate_def)
qed

lemma write_register_exists: "vm_ok s \<Longrightarrow> r < 32 \<Longrightarrow> \<exists>s'. write_register s r v = Inr s'"
  using write_register_ok by blast

end
