(* ===== verification/ElfValidator.thy ===== *)
theory ElfValidator
  imports Rv32Exec
begin

text \<open>
  \<^verbatim>\<open>poker_zkvm/src/compiler/elf_validator.rs\<close>: the checks an untrusted ELF image passes before it is
  loaded.  The parser of the container format is the crate goblin: a parameter \<open>parse\<close>, which yields
  the fields of the file that the checks read, or nothing.  A \<open>usize\<close> is a natural number below
  \<open>2 ^ 64\<close>; goblin's \<open>u64\<close> fields are \<open>64 word\<close>s and the casts \<open>as u32\<close> truncate.
\<close>

type_synonym u64 = "64 word"

record program_header =
  ph_type :: u32
  ph_flags :: u32
  ph_offset :: u64
  ph_vaddr :: u64
  ph_filesz :: u64
  ph_memsz :: u64

record elf_file =
  ef_is_64 :: bool
  ef_little_endian :: bool
  ef_machine :: "16 word"
  ef_shoff :: u64
  ef_shnum :: "16 word"
  ef_shentsize :: "16 word"
  ef_entry :: u64
  ef_program_headers :: "program_header list"
  ef_libraries :: "string list"

text \<open>The constants of goblin.\<close>

definition EM_RISCV :: "16 word" where "EM_RISCV = 243"
definition PF_X :: u32 where "PF_X = 1"
definition PT_LOAD :: u32 where "PT_LOAD = 1"
definition PT_DYNAMIC :: u32 where "PT_DYNAMIC = 2"

definition MAX_TEXT_SIZE :: nat where "MAX_TEXT_SIZE = 8 * 1024 * 1024"

text \<open>The range index \<open>bytes[a..b]\<close> and \<open>usize::checked_mul\<close>.\<close>

definition slice :: "byte list \<Rightarrow> nat \<Rightarrow> nat \<Rightarrow> (zkvm_error, byte list) outcome" where
  "slice bytes a b =
     (if a \<le> b \<and> b \<le> length bytes then Inr (take (b - a) (drop a bytes)) else Inl Panic)"

definition checked_mul_u64 :: "nat \<Rightarrow> nat \<Rightarrow> nat option" where
  "checked_mul_u64 a b = (if a * b < u64_limit then Some (a * b) else None)"

abbreviation elf_error :: "elf_message \<Rightarrow> (zkvm_error, 'a) outcome" where
  "elf_error msg \<equiv> Inl (Fail (Other (Elf msg)))"

section \<open>The checks\<close>

definition check_header :: "elf_file \<Rightarrow> (zkvm_error, unit) outcome" where
  "check_header elf =
     (if ef_is_64 elf then elf_error Elf64
      else if \<not> ef_little_endian elf then elf_error BigEndian
      else if ef_machine elf \<noteq> EM_RISCV then elf_error (WrongMachine (ef_machine elf))
      else Inr ())"

definition check_section_table_overflow :: "elf_file \<Rightarrow> nat \<Rightarrow> (zkvm_error, unit) outcome" where
  "check_section_table_overflow elf bytes_len =
     (let shoff = unat (ef_shoff elf);
          shnum = unat (ef_shnum elf);
          shentsize = unat (ef_shentsize elf)
      in if shnum = 0 then Inr ()
         else
           rbind (ok_or (Other (Elf SectionTableMul)) (checked_mul_u64 shnum shentsize)) (\<lambda>table_size.
           rbind (ok_or (Other (Elf SectionTableAdd)) (checked_add_u64 shoff table_size)) (\<lambda>table_end.
           if bytes_len < table_end then elf_error (SectionTableExceeds table_end bytes_len)
           else Inr ())))"

definition check_no_pt_dynamic :: "elf_file \<Rightarrow> (zkvm_error, unit) outcome" where
  "check_no_pt_dynamic elf =
     foldM (\<lambda>_ ph. if ph_type ph = PT_DYNAMIC then elf_error PtDynamic else Inr ()) ()
       (ef_program_headers elf)"

definition check_no_dt_needed :: "elf_file \<Rightarrow> (zkvm_error, unit) outcome" where
  "check_no_dt_needed elf =
     (if ef_libraries elf \<noteq> [] then elf_error (DtNeeded (length (ef_libraries elf))) else Inr ())"

text \<open>\<open>check_no_overlap\<close>, with its loop \<open>for i in 1..sorted.len()\<close> over the sorted segments.\<close>

definition check_no_overlap :: "loaded_segment list \<Rightarrow> (zkvm_error, unit) outcome" where
  "check_no_overlap segments =
     (let sorted_segs = sort_key seg_vaddr segments in
      foldM (\<lambda>_ i.
          rbind (idx sorted_segs (i - 1)) (\<lambda>prev.
          rbind (ok_or (Other (Elf OverlapWrap)) (checked_add_u32 (seg_vaddr prev) (seg_memsz prev)))
            (\<lambda>prev_end.
          rbind (idx sorted_segs i) (\<lambda>cur.
          if seg_vaddr cur < prev_end then elf_error (Overlap (seg_vaddr prev) prev_end (seg_vaddr cur))
          else Inr ())))) () [1..<length sorted_segs])"

text \<open>The body of the loop over the program headers.\<close>

definition extract_segment ::
  "byte list \<Rightarrow> loaded_segment list \<times> nat \<Rightarrow> program_header \<Rightarrow>
   (zkvm_error, loaded_segment list \<times> nat) outcome" where
  "extract_segment bytes st ph =
     (case st of (segments, total_memory) \<Rightarrow>
      if ph_type ph \<noteq> PT_LOAD then Inr (segments, total_memory)
      else
        let vaddr = ucast (ph_vaddr ph) :: u32;
            memsz = ucast (ph_memsz ph) :: u32;
            filesz = unat (ph_filesz ph);
            offset = unat (ph_offset ph)
        in rbind (ok_or (Other (Elf (SegmentWrap vaddr memsz))) (checked_add_u32 vaddr memsz))
             (\<lambda>end_addr.
           if MAX_ZKVM_MEMORY < unat end_addr then elf_error (SegmentRange end_addr)
           else
             rbind (ok_or (Other (Elf (FileOffsetWrap offset filesz))) (checked_add_u64 offset filesz))
               (\<lambda>data_end.
             if length bytes < data_end then elf_error (SegmentData offset filesz (length bytes))
             else
               rbind (slice bytes offset data_end) (\<lambda>data.
               rbind (ok_or (Other (Elf TotalMemoryOverflow))
                        (checked_add_u64 total_memory (unat memsz))) (\<lambda>total_memory'.
               Inr (segments @ [\<lparr>seg_vaddr = vaddr, seg_memsz = memsz, seg_data = data,
                                  seg_flags = ph_flags ph\<rparr>], total_memory'))))))"

definition check_and_extract_segments ::
  "elf_file \<Rightarrow> byte list \<Rightarrow> (zkvm_error, loaded_segment list) outcome" where
  "check_and_extract_segments elf bytes =
     rbind (foldM (extract_segment bytes) ([], 0) (ef_program_headers elf)) (\<lambda>(segments, total_memory).
     if MAX_ZKVM_MEMORY < total_memory then elf_error (TotalMemory total_memory)
     else rbind (check_no_overlap segments) (\<lambda>_. Inr segments))"

definition extract_text_segment :: "loaded_segment list \<Rightarrow> (zkvm_error, loaded_segment) outcome" where
  "extract_text_segment segments =
     ok_or (Other (Elf NoExecutable)) (find (\<lambda>s. seg_flags s AND PF_X \<noteq> 0) segments)"

definition check_entry_in_text :: "u32 \<Rightarrow> loaded_segment \<Rightarrow> (zkvm_error, unit) outcome" where
  "check_entry_in_text entry code =
     rbind (ok_or (Other (Elf TextWrap)) (checked_add_u32 (seg_vaddr code) (seg_memsz code)))
         (\<lambda>text_end.
     if entry < seg_vaddr code \<or> text_end \<le> entry
     then elf_error (EntryOutside entry (seg_vaddr code) text_end)
     else Inr ())"

definition check_text_size :: "loaded_segment \<Rightarrow> (zkvm_error, unit) outcome" where
  "check_text_size code =
     (if MAX_TEXT_SIZE < unat (seg_memsz code) then elf_error (TextTooLarge (seg_memsz code)) else
         Inr ())"

definition UNIMP_INSTRUCTION :: u32 where "UNIMP_INSTRUCTION = 0xC0001073"

definition RV32I_OPCODES :: "u32 list" where
  "RV32I_OPCODES = [0x37, 0x17, 0x6F, 0x67, 0x63, 0x03, 0x23, 0x13, 0x33, 0x0F, 0x73]"

text \<open>The body of the loop over the instruction words.\<close>

definition check_word :: "u32 \<Rightarrow> (zkvm_error, unit) outcome" where
  "check_word word =
     (let opcode = word AND 0x7F;
          funct3 = drop_bit 12 word AND 7
      in if word AND 3 \<noteq> 3 then Inl (Fail (UnsupportedInstruction (CompressedWord word)))
         else if opcode \<notin> set RV32I_OPCODES
         then Inl (Fail (UnsupportedInstruction (OpcodeNotAllowed opcode word)))
         else if opcode = 0x0F \<and> funct3 = 1 then Inl (Fail (UnsupportedInstruction FenceI))
         else if opcode = 0x73 \<and> (1 \<le> funct3 \<and> funct3 \<le> 3) \<and> word \<noteq> UNIMP_INSTRUCTION
         then Inl (Fail (UnsupportedInstruction (CsrInstruction funct3 word)))
         else Inr ())"

text \<open>\<open>chunks_exact(4)\<close>, each chunk read as a little-endian \<open>u32\<close>.\<close>

definition text_words :: "byte list \<Rightarrow> u32 list" where
  "text_words code = map (\<lambda>i. le_value (take 4 (drop (4 * i) code))) [0..<length code div 4]"

definition check_rv32i :: "byte list \<Rightarrow> (zkvm_error, unit) outcome" where
  "check_rv32i code =
     (if length code mod 4 \<noteq> 0 then Inl (Fail (UnsupportedInstruction (TextSize (length code))))
      else foldM (\<lambda>_ word. check_word word) () (text_words code))"

definition validate_elf ::
  "(byte list \<Rightarrow> elf_file option) \<Rightarrow> byte list \<Rightarrow> (zkvm_error, elf_metadata) outcome" where
  "validate_elf parse elf_bytes =
     rbind (ok_or (Other (Elf ElfParse)) (parse elf_bytes)) (\<lambda>elf.
     rbind (check_header elf) (\<lambda>_.
     rbind (check_section_table_overflow elf (length elf_bytes)) (\<lambda>_.
     rbind (check_no_pt_dynamic elf) (\<lambda>_.
     rbind (check_no_dt_needed elf) (\<lambda>_.
     rbind (check_and_extract_segments elf elf_bytes) (\<lambda>segments.
     rbind (extract_text_segment segments) (\<lambda>code.
     let entry = ucast (ef_entry elf) :: u32 in
     rbind (check_entry_in_text entry code) (\<lambda>_.
     rbind (check_text_size code) (\<lambda>_.
     rbind (check_rv32i (seg_data code)) (\<lambda>_.
     Inr \<lparr>elf_entry = entry, elf_segments = segments, elf_text = Some code\<rparr>))))))))))"

section \<open>What a validated image satisfies\<close>

text \<open>The end of a segment, without wrap-around.\<close>

definition seg_end :: "loaded_segment \<Rightarrow> nat" where
  "seg_end s = unat (seg_vaddr s) + unat (seg_memsz s)"

definition apart :: "loaded_segment \<Rightarrow> loaded_segment \<Rightarrow> bool" where
  "apart s t \<longleftrightarrow> seg_end s \<le> unat (seg_vaddr t) \<or> seg_end t \<le> unat (seg_vaddr s)"

definition mem_size :: "loaded_segment list \<Rightarrow> nat" where
  "mem_size segs = (\<Sum>s\<leftarrow>segs. unat (seg_memsz s))"

lemma extract_segment_Inr:
  assumes "extract_segment bytes (segs, tot) ph = Inr (segs', tot')"
    and "\<forall>s \<in> set segs. seg_end s \<le> MAX_ZKVM_MEMORY" and "tot = mem_size segs"
  shows "(\<forall>s \<in> set segs'. seg_end s \<le> MAX_ZKVM_MEMORY) \<and> tot' = mem_size segs'"
proof -
  have "unat (a + b) = unat a + unat b" if "unat a + unat b < 2 ^ 32" for a b :: u32
    using that by (simp add: unat_word_ariths)
  then show ?thesis
    using assms by (auto simp: extract_segment_def Let_def outcome_simps mem_size_def seg_end_def
        split: if_splits)
qed

lemma extract_segments_Inr:
  assumes "foldM (extract_segment bytes) ([], 0) phs = Inr (segs, tot)"
  shows "(\<forall>s \<in> set segs. seg_end s \<le> MAX_ZKVM_MEMORY) \<and> tot = mem_size segs"
proof -
  let ?I = "\<lambda>(segs, tot). (\<forall>s \<in> set segs. seg_end s \<le> MAX_ZKVM_MEMORY) \<and> tot = mem_size segs"
  have "?I (segs, tot)"
  proof (rule foldM_invariant[OF assms, where P = ?I])
    show "?I ([], 0)" by (simp add: mem_size_def)
  next
    fix st ph st' assume "?I st" "extract_segment bytes st ph = Inr st'"
    then show "?I st'" using extract_segment_Inr by (cases st; cases st') blast
  qed
  then show ?thesis by simp
qed

text \<open>Symmetric relations between all pairs of a list do not depend on its order.\<close>

lemma sorted_wrt_insort_key:
  assumes "\<And>x y. R x y \<longleftrightarrow> R y x"
  shows "sorted_wrt R (insort_key f x xs) \<longleftrightarrow> (\<forall>y \<in> set xs. R x y) \<and> sorted_wrt R xs"
  using assms by (induction xs) (auto simp: set_insort_key)

lemma sorted_wrt_sort_key:
  assumes "\<And>x y. R x y \<longleftrightarrow> R y x"
  shows "sorted_wrt R (sort_key f xs) \<longleftrightarrow> sorted_wrt R xs"
  by (induction xs) (simp_all add: sorted_wrt_insort_key[OF assms])

lemma apart_commute: "apart s t \<longleftrightarrow> apart t s"
  by (auto simp: apart_def)

lemma check_no_overlap_Inr:
  assumes "check_no_overlap segs = Inr ()"
  shows "sorted_wrt apart segs"
proof -
  let ?s = "sort_key seg_vaddr segs"
  let ?before = "\<lambda>s t. seg_end s \<le> unat (seg_vaddr t)"
  have "?before (?s ! i) (?s ! Suc i)" if "Suc i < length ?s" for i
  proof -
    have "Suc i \<in> set [1..<length ?s]" using that by auto
    with assms have "rbind (idx ?s (Suc i - 1)) (\<lambda>prev.
        rbind (ok_or (Other (Elf OverlapWrap)) (checked_add_u32 (seg_vaddr prev) (seg_memsz prev)))
          (\<lambda>prev_end. rbind (idx ?s (Suc i)) (\<lambda>cur.
          if seg_vaddr cur < prev_end then elf_error (Overlap (seg_vaddr prev) prev_end (seg_vaddr cur))
          else Inr ()))) = Inr ()"
      unfolding check_no_overlap_def Let_def foldM_unit_Inr by blast
    then have "\<not> seg_vaddr (?s ! Suc i) < seg_vaddr (?s ! i) + seg_memsz (?s ! i)"
        "unat (seg_vaddr (?s ! i)) + unat (seg_memsz (?s ! i)) < 2 ^ 32"
      by (auto simp: outcome_simps split: if_splits)
    then show ?thesis by (simp add: seg_end_def not_less word_le_nat_alt unat_word_ariths)
  qed
  moreover have "transp ?before" by (auto simp: transp_def seg_end_def)
  ultimately have "sorted_wrt ?before ?s" by (simp add: sorted_wrt_iff_nth_Suc_transp)
  then have "sorted_wrt apart ?s" by (rule sorted_wrt_mono_rel[rotated]) (simp add: apart_def)
  then show ?thesis using sorted_wrt_sort_key[of apart seg_vaddr segs] apart_commute by blast
qed

lemma text_segment_Inr:
  "extract_text_segment segs = Inr code \<Longrightarrow> code \<in> set segs \<and> seg_flags code AND PF_X \<noteq> 0"
  by (auto simp: extract_text_segment_def outcome_simps find_Some_iff)

text \<open>The conjunction of the checks on the result.\<close>

definition image_ok :: "elf_metadata \<Rightarrow> bool" where
  "image_ok m \<longleftrightarrow>
     (\<forall>s \<in> set (elf_segments m). seg_end s \<le> MAX_ZKVM_MEMORY)
     \<and> sorted_wrt apart (elf_segments m) \<and> mem_size (elf_segments m) \<le> MAX_ZKVM_MEMORY
     \<and> (case elf_text m of None \<Rightarrow> False
        | Some code \<Rightarrow> code \<in> set (elf_segments m) \<and> seg_flags code AND PF_X \<noteq> 0
            \<and> seg_vaddr code \<le> elf_entry m \<and> unat (elf_entry m) < seg_end code
            \<and> unat (seg_memsz code) \<le> MAX_TEXT_SIZE
            \<and> length (seg_data code) mod 4 = 0
            \<and> (\<forall>w \<in> set (text_words (seg_data code)). check_word w = Inr ()))"

lemma validate_elf_Inr:
  assumes "validate_elf parse bytes = Inr m"
  shows "image_ok m"
proof -
  from assms obtain elf segs code where c: "check_and_extract_segments elf bytes = Inr segs"
      "extract_text_segment segs = Inr code" "check_entry_in_text (ucast (ef_entry elf)) code = Inr ()"
      "check_text_size code = Inr ()" "check_rv32i (seg_data code) = Inr ()"
      "m = \<lparr>elf_entry = ucast (ef_entry elf), elf_segments = segs, elf_text = Some code\<rparr>"
    unfolding validate_elf_def Let_def rbind_eq_Inr
    by (elim exE conjE, intro that) (assumption | simp)+
  from c(1) obtain tot where t: "foldM (extract_segment bytes) ([], 0) (ef_program_headers elf)
      = Inr (segs, tot)" "\<not> MAX_ZKVM_MEMORY < tot" "check_no_overlap segs = Inr ()"
    by (auto simp: check_and_extract_segments_def outcome_simps split: if_splits)
  note e = t c(2-5) and m = c(6)
  note segs = extract_segments_Inr[OF e(1)] and code = text_segment_Inr[OF e(4)]
  have "seg_vaddr code \<le> elf_entry m \<and> unat (elf_entry m) < seg_end code"
    using e(5) by (auto simp: m check_entry_in_text_def outcome_simps seg_end_def word_le_nat_alt
        word_less_nat_alt unat_word_ariths split: if_splits)
  moreover have "unat (seg_memsz code) \<le> MAX_TEXT_SIZE"
    using e(6) by (auto simp: check_text_size_def split: if_splits)
  moreover have "length (seg_data code) mod 4 = 0"
      "\<forall>w \<in> set (text_words (seg_data code)). check_word w = Inr ()"
    using e(7) by (auto simp: check_rv32i_def foldM_unit_Inr split: if_splits)
  ultimately show ?thesis
    using segs code check_no_overlap_Inr[OF e(3)] e(2) by (simp add: image_ok_def m not_less)
qed

section \<open>The checks never panic\<close>

lemma safe_check_header: "safe (\<lambda>_. True) (check_header elf)"
  by (simp add: check_header_def)

lemma safe_check_section_table: "safe (\<lambda>_. True) (check_section_table_overflow elf n)"
  by (auto simp: check_section_table_overflow_def Let_def intro!: safe_rbind[where P = "\<lambda>_. True"])

lemma safe_check_no_overlap: "safe (\<lambda>_. True) (check_no_overlap segs)"
  unfolding check_no_overlap_def Let_def
  by (rule safe_foldM) (auto simp: idx_def intro!: safe_rbind[where P = "\<lambda>_. True"])

lemma safe_extract_segment: "safe (\<lambda>_. True) (extract_segment bytes st ph)"
  by (cases st) (auto simp: extract_segment_def Let_def slice_def outcome_simps intro!: safe_bind_ok_or)

lemma safe_check_and_extract: "safe (\<lambda>_. True) (check_and_extract_segments elf bytes)"
  unfolding check_and_extract_segments_def
  by (rule safe_rbind[OF safe_foldM[where P = "\<lambda>_. True"]])
    (auto intro!: safe_extract_segment safe_rbind[OF safe_check_no_overlap] split: prod.splits)

lemma safe_check_word: "safe (\<lambda>_. True) (check_word w)"
  by (simp add: check_word_def Let_def)

lemma safe_check_rv32i: "safe (\<lambda>_. True) (check_rv32i code)"
  unfolding check_rv32i_def by (auto intro!: safe_foldM safe_check_word)

lemma safe_validate_elf: "safe (\<lambda>_. True) (validate_elf parse bytes)"
proof -
  have "safe (\<lambda>_. True) (check_no_pt_dynamic elf)" for elf
    unfolding check_no_pt_dynamic_def by (rule safe_foldM) auto
  moreover have "safe (\<lambda>_. True) (check_no_dt_needed elf)" for elf by (simp add: check_no_dt_needed_def)
  moreover have "safe (\<lambda>_. True) (check_entry_in_text e c)" for e c
    by (auto simp: check_entry_in_text_def intro!: safe_rbind[where P = "\<lambda>_. True"])
  moreover have "safe (\<lambda>_. True) (check_text_size c)" for c by (simp add: check_text_size_def)
  moreover have "safe (\<lambda>_. True) (extract_text_segment segs)" for segs
    by (simp add: extract_text_segment_def)
  ultimately show ?thesis
    unfolding validate_elf_def Let_def
    by (auto intro!: safe_rbind[where P = "\<lambda>_. True"] safe_check_header safe_check_section_table
        safe_check_and_extract safe_check_rv32i)
qed

section \<open>Loading a validated image\<close>

lemma segment_addr:
  assumes "seg_end s \<le> MAX_ZKVM_MEMORY" and "i < unat (seg_memsz s)"
  shows "unat (seg_vaddr s + of_nat i) = unat (seg_vaddr s) + i"
proof -
  have i: "i < 4294967296" using assms(2) u32_bound[of "seg_memsz s"] by linarith
  then have "unat (of_nat i :: u32) = i" by (simp add: unat_of_nat)
  moreover have "unat (seg_vaddr s) + i < 4294967296"
    using assms by (simp add: seg_end_def MAX_ZKVM_MEMORY_def)
  ultimately show ?thesis by (subst unat_add_small) simp_all
qed

lemma segment_cells_addr:
  assumes "seg_end s \<le> MAX_ZKVM_MEMORY" and "length (seg_data s) \<le> unat (seg_memsz s)"
    and "x \<in> set (segment_cells s)"
  shows "unat (seg_vaddr s) \<le> unat (fst x)" and "unat (fst x) < seg_end s"
proof -
  from assms(3) obtain i where "i < length (seg_data s)" "fst x = seg_vaddr s + of_nat i"
    by (auto simp: segment_cells_def in_set_zip)
  with assms(2) segment_addr[OF assms(1), of i] show "unat (seg_vaddr s) \<le> unat (fst x)"
      "unat (fst x) < seg_end s"
    by (simp_all add: seg_end_def)
qed

lemma distinct_segment_cells:
  assumes "seg_end s \<le> MAX_ZKVM_MEMORY" and "length (seg_data s) \<le> unat (seg_memsz s)"
  shows "distinct (map fst (segment_cells s))"
proof -
  have "inj_on (\<lambda>i. seg_vaddr s + of_nat i) {..<length (seg_data s)}"
  proof (rule inj_onI)
    fix i j assume ij: "i \<in> {..<length (seg_data s)}" "j \<in> {..<length (seg_data s)}"
      and eq: "seg_vaddr s + of_nat i = seg_vaddr s + of_nat j"
    have "i < unat (seg_memsz s)" "j < unat (seg_memsz s)" using ij assms(2) by simp_all
    from segment_addr[OF assms(1) this(1)] segment_addr[OF assms(1) this(2)]
    show "i = j" unfolding eq by linarith
  qed
  then show ?thesis by (simp add: segment_cells_def distinct_map atLeast0LessThan)
qed

lemma distinct_image_cells:
  assumes "sorted_wrt apart segs"
    and "\<And>s. s \<in> set segs \<Longrightarrow> seg_end s \<le> MAX_ZKVM_MEMORY \<and> length (seg_data s) \<le> unat (seg_memsz s)"
  shows "distinct (map fst (concat (map segment_cells segs)))"
  using assms
proof (induction segs)
  case Nil
  show ?case by simp
next
  case (Cons s segs)
  have "fst x \<noteq> fst y" if "x \<in> set (segment_cells s)" "t \<in> set segs"
      "y \<in> set (segment_cells t)" for x y t
    using segment_cells_addr[of s x] segment_cells_addr[of t y] that Cons.prems(1)
      Cons.prems(2)[of s] Cons.prems(2)[of t] by (auto simp: apart_def)
  then show ?case using Cons distinct_segment_cells[of s] by (auto simp: image_iff)
qed

text \<open>The pages of the first 16 MB: there is always room for another one of them.\<close>

definition low_pages :: "memory_map \<Rightarrow> bool" where
  "low_pages m \<longleftrightarrow> (\<forall>b \<in> dom (mm_pages m). unat b < MAX_ZKVM_MEMORY \<and> unat b mod 4096 = 0)"

lemma card_low_pages: "card {b :: u32. unat b < MAX_ZKVM_MEMORY \<and> unat b mod 4096 = 0} \<le> 4096"
  (is "card ?A \<le> _")
proof -
  have "?A \<subseteq> (\<lambda>k. of_nat (k * 4096)) ` {..<4096}"
  proof
    fix b assume b: "b \<in> ?A"
    then have "unat b div 4096 * 4096 = unat b" by auto
    then have "b = of_nat (unat b div 4096 * 4096)" by simp
    moreover have
        "unat b div 4096 < 4096" using b by (simp add: MAX_ZKVM_MEMORY_def less_mult_imp_div_less)
    ultimately show "b \<in> (\<lambda>k. of_nat (k * 4096)) ` {..<4096}" by blast
  qed
  from surj_card_le[OF _ this] show ?thesis by simp
qed

lemma low_page_base: "unat a < MAX_ZKVM_MEMORY \<Longrightarrow>
    unat (page_base a) < MAX_ZKVM_MEMORY \<and> unat (page_base a) mod 4096 = 0"
  using div_times_less_eq_dividend[of "unat a" 4096] by (simp add: unat_page_base)

lemma low_can_allocate:
  assumes "mem_ok m" and "low_pages m" and "unat a < MAX_ZKVM_MEMORY"
  shows "can_allocate m a"
proof (cases "page_base a \<in> dom (mm_pages m)")
  case False
  let ?A = "{b :: u32. unat b < MAX_ZKVM_MEMORY \<and> unat b mod 4096 = 0}"
  have "insert (page_base a) (dom (mm_pages m)) \<subseteq> ?A"
    using assms(2) low_page_base[OF assms(3)] by (auto simp: low_pages_def)
  then have "card (insert (page_base a) (dom (mm_pages m))) \<le> card ?A" by (intro card_mono) auto
  moreover have "finite (dom (mm_pages m))" using assms(1) by (simp add: mem_ok_def)
  ultimately have "Suc (card (dom (mm_pages m))) \<le> 4096" using False card_low_pages by simp
  moreover have "mm_total m = 4096 * card (dom (mm_pages m))" using assms(1) by (simp add: mem_ok_def)
  ultimately show ?thesis by (simp add: can_allocate_def MAX_ZKVM_MEMORY_def)
qed (auto simp: can_allocate_def)

lemma stores_low:
  assumes "mem_ok m" and "low_pages m" and "\<And>x. x \<in> set avs \<Longrightarrow> unat (fst x) < MAX_ZKVM_MEMORY"
  shows "\<exists>m'. mem.stores m avs = Inr m' \<and> mem_ok m' \<and> low_pages m'"
  using assms
proof (induction avs arbitrary: m)
  case Nil
  then show ?case by (simp add: mem.stores_def)
next
  case (Cons x avs)
  obtain a v where x: "x = (a, v)" by (cases x)
  have a: "unat a < MAX_ZKVM_MEMORY" using Cons.prems(3)[of x] x by simp
  from write_byte_succeeds[OF Cons.prems(1) low_can_allocate[OF Cons.prems(1,2) a]]
  obtain m1 where m1: "write_byte m a v = Inr m1" "mem_ok m1"
      "dom (mm_pages m1) = insert (page_base a) (dom (mm_pages m))" by blast
  have "low_pages m1" using Cons.prems(2) low_page_base[OF a] unfolding low_pages_def m1(3) by auto
  from Cons.IH[OF m1(2) this] Cons.prems(3) obtain m' where
    "mem.stores m1 avs = Inr m'" "mem_ok m'" "low_pages m'" by auto
  with m1(1) x show ?case by (auto simp: mem.stores_def)
qed

text \<open>The loader's loop succeeds as far as the stores do: the address after a low one does not wrap.\<close>

lemma load_segment_low:
  assumes "mem_ok (vm_memory s)" and "low_pages (vm_memory s)" and "seg_end seg \<le> MAX_ZKVM_MEMORY"
    and "length (seg_data seg) \<le> unat (seg_memsz seg)"
  shows "\<exists>s'. load_segment s seg = Inr s' \<and> mem_ok (vm_memory s') \<and> low_pages (vm_memory s')"
proof -
  let ?f = "\<lambda>(s, addr) b. rbind (write_memory_byte s addr b) (\<lambda>s'.
      rbind (ok_or (Other SegmentOverflow) (checked_add_u32 addr 1)) (\<lambda>addr'. Inr (s', addr')))"
  let ?I = "\<lambda>ys (t :: vm_state, a). mem_ok (vm_memory t) \<and> low_pages (vm_memory t)
      \<and> a = seg_vaddr seg + of_nat (length ys)"
  have "\<exists>st. foldM ?f (s, seg_vaddr seg) (seg_data seg) = Inr st \<and> ?I (seg_data seg) st"
  proof (rule foldM_prefix_total)
    show "?I [] (s, seg_vaddr seg)" using assms by simp
  next
    fix ys b zs and st :: "vm_state \<times> u32" assume split: "seg_data seg = ys @ b # zs" and I: "?I ys st"
    obtain t a where st: "st = (t, a)" by (cases st)
    have "length ys < unat (seg_memsz seg)" using split assms(4) by simp
    then have a: "unat a < MAX_ZKVM_MEMORY" "a = seg_vaddr seg + of_nat (length ys)"
      using I segment_addr[OF assms(3), of "length ys"] assms(3) by (auto simp: st seg_end_def)
    from I st have t: "mem_ok (vm_memory t)" "low_pages (vm_memory t)" by simp_all
    from stores_low[OF t, of "[(a, b)]"] a(1) obtain m' where
      "write_byte (vm_memory t) a b = Inr m'" "mem_ok m'"
          "low_pages m'" by (auto simp: mem.stores_def outcome_simps)
    moreover have "checked_add_u32 a 1 = Some (a + 1)"
      using a(1) by (simp add: checked_add_u32_def MAX_ZKVM_MEMORY_def)
    ultimately show "\<exists>st'. ?f st b = Inr st' \<and> ?I (ys @ [b]) st'"
      using a(2) by (simp add: st write_memory_byte_def with_memory_def ok_or_def)
  qed
  then show ?thesis by (auto simp: load_segment_def)
qed

lemma load_elf_low:
  assumes "mem_ok (vm_memory s)" and "low_pages (vm_memory s)"
    and "\<And>x. x \<in> set (elf_segments m) \<Longrightarrow>
      seg_end x \<le> MAX_ZKVM_MEMORY \<and> length (seg_data x) \<le> unat (seg_memsz x)"
  shows "\<exists>s'. load_elf s m = Inr s'"
proof -
  let ?I = "\<lambda>_ (t :: vm_state). mem_ok (vm_memory t) \<and> low_pages (vm_memory t)"
  have "\<exists>t. foldM load_segment s (elf_segments m) = Inr t \<and> ?I (elf_segments m) t"
  proof (rule foldM_prefix_total[where I = ?I])
    show "?I [] s" using assms by simp
  next
    fix ys x zs and t :: vm_state assume "elf_segments m = ys @ x # zs" and "?I ys t"
    then show "\<exists>t'. load_segment t x = Inr t' \<and> ?I (ys @ [x]) t'"
      using load_segment_low[of t x] assms(3)[of x] by simp
  qed
  then show ?thesis by (auto simp: load_elf_def)
qed

lemma new_vm_memory: "mem_ok (vm_memory new_vm)" "low_pages (vm_memory new_vm)"
  by (simp_all add: new_vm_def new_memory_ok) (simp add: low_pages_def new_memory_def)

section \<open>Properties\<close>

text \<open>
  C34: the validator is total and what it accepts is well formed: on any bytes, and whatever the ELF
  parser reports, it never panics, and a result has segments within the first 16 MB that do not
  overlap, an entry point inside the first executable segment, and code of whole words that all pass
  the instruction filter.
\<close>

theorem validate_elf_sound: "safe image_ok (validate_elf parse bytes)"
  using safe_validate_elf[of parse bytes] validate_elf_Inr[of parse bytes]
  by (auto simp: safe_def split: sum.splits fault.splits)

text \<open>
  A validated image whose segments hold no more bytes than they declare is loaded without an
  error, and every byte of every segment is at its address afterwards: no segment overwrites another.
\<close>

lemma validated_image_loads:
  assumes "validate_elf parse bytes = Inr m"
    and "\<forall>seg \<in> set (elf_segments m). length (seg_data seg) \<le> unat (seg_memsz seg)"
  shows "\<exists>s. load_elf new_vm m = Inr s \<and> vm_pc s = elf_entry m
    \<and> (\<forall>seg \<in> set (elf_segments m). \<forall>i < length (seg_data seg).
         read_memory_byte s (seg_vaddr seg + of_nat i) = Inr (seg_data seg ! i))"
proof -
  note ok = validate_elf_Inr[OF assms(1), unfolded image_ok_def]
  then obtain s where s: "load_elf new_vm m = Inr s"
    using load_elf_low[OF new_vm_memory, of m] assms(2) by blast
  let ?cells = "concat (map segment_cells (elf_segments m))"
  have d: "distinct (map fst ?cells)" using ok assms(2) by (intro distinct_image_cells) auto
  have "read_memory_byte s (seg_vaddr seg + of_nat i) = Inr (seg_data seg ! i)"
    if "seg \<in> set (elf_segments m)" "i < length (seg_data seg)" for seg i
  proof -
    have "(seg_vaddr seg + of_nat i, seg_data seg ! i) \<in> set ?cells"
      using that by (force simp: segment_cells_def in_set_zip)
    then have "map_of (rev ?cells) (seg_vaddr seg + of_nat i) = Some (seg_data seg ! i)"
      using d by (intro map_of_is_SomeI) (simp_all add: rev_map[symmetric])
    with load_elf_content[OF new_vm_memory(1) s, of "seg_vaddr seg + of_nat i"] show ?thesis by simp
  qed
  then show ?thesis using s load_elf_content[OF new_vm_memory(1) s, of 0] by blast
qed

text \<open>A file of one executable segment: \<open>ADDI a7, x0, 2\<close> and \<open>ECALL\<close> at \<open>0x1000\<close>.\<close>

definition sample_code :: "byte list" where
  "sample_code = [0x93, 0x08, 0x20, 0x00, 0x73, 0x00, 0x00, 0x00]"

definition sample_file :: elf_file where
  "sample_file = \<lparr>ef_is_64 = False, ef_little_endian = True, ef_machine = 243, ef_shoff = 0,
     ef_shnum = 0, ef_shentsize = 40, ef_entry = 0x1000,
     ef_program_headers = [\<lparr>ph_type = 1, ph_flags = 5, ph_offset = 0, ph_vaddr = 0x1000,
                            ph_filesz = 8, ph_memsz = 8\<rparr>],
     ef_libraries = []\<rparr>"

definition sample_image :: elf_metadata where
  "sample_image =
     (let seg = \<lparr>seg_vaddr = 0x1000, seg_memsz = 8, seg_data = sample_code, seg_flags = 5\<rparr>
      in \<lparr>elf_entry = 0x1000, elf_segments = [seg], elf_text = Some seg\<rparr>)"

lemma sample_image_valid: "validate_elf (\<lambda>_. Some sample_file) sample_code = Inr sample_image"
  by code_simp

text \<open>
  The static filter never rejects code that could run: code of whole words that all decode passes.
\<close>

lemma decodable_code_accepted:
  assumes "length code mod 4 = 0" and "\<forall>w \<in> set (text_words code). \<exists>i. decode w = Inr i"
  shows "check_rv32i code = Inr ()"
proof -
  have "check_word w = Inr ()" if "decode w = Inr i" for w i
  proof -
    have "drop_bit 12 w AND 7 = 0" if "ucast (drop_bit 12 w AND 7) = (0 :: byte)"
      using that ucast_funct3_0 unfolding and_masks by blast
    with that show ?thesis
      by (auto simp: decode_def check_word_def RV32I_OPCODES_def Let_def split: if_split_asm)
  qed
  then show ?thesis using assms by (auto simp: check_rv32i_def foldM_unit_Inr)
qed

text \<open>
  The filter is weaker than the decoder: a branch with the reserved \<open>funct3 = 2\<close> passes it.  And the
  bound on the data of a segment is needed above: the validator does not compare the file size of a
  segment with its memory size, so that the segment below passes and its bytes overwrite those of the
  next one.
\<close>

lemma filter_weaker_than_decoder:
  "check_word 0x00002063 = Inr () \<and> decode 0x00002063
      = Inl (Fail (UnsupportedInstruction (BranchFunct3 2)))"
  by code_simp

definition oversized_file :: elf_file where
  "oversized_file = sample_file\<lparr>ef_program_headers :=
     [\<lparr>ph_type = 1, ph_flags = 5, ph_offset = 0, ph_vaddr = 0x1000, ph_filesz = 8, ph_memsz = 8\<rparr>,
      \<lparr>ph_type = 1, ph_flags = 6, ph_offset = 0, ph_vaddr = 0xFFC, ph_filesz = 8, ph_memsz = 4\<rparr>]\<rparr>"

definition oversized_image :: elf_metadata where
  "oversized_image =
     (let seg = \<lparr>seg_vaddr = 0x1000, seg_memsz = 8, seg_data = sample_code, seg_flags = 5\<rparr>
      in \<lparr>elf_entry = 0x1000,
          elf_segments = [seg, \<lparr>seg_vaddr = 0xFFC, seg_memsz = 4, seg_data = sample_code, seg_flags
              = 6\<rparr>],
          elf_text = Some seg\<rparr>)"

lemma oversized_image_valid:
  "validate_elf (\<lambda>_. Some oversized_file) sample_code = Inr oversized_image"
proof -
  have "check_rv32i sample_code = Inr ()" by code_simp
  then show ?thesis
    by (simp add: validate_elf_def oversized_file_def sample_file_def oversized_image_def Let_def
        check_header_def EM_RISCV_def check_section_table_overflow_def check_no_pt_dynamic_def
            PT_DYNAMIC_def
        check_no_dt_needed_def check_and_extract_segments_def extract_segment_def PT_LOAD_def
        checked_add_u32_def MAX_ZKVM_MEMORY_def checked_add_u64_def u64_limit_def slice_def
            sample_code_def
        ok_or_def check_no_overlap_def idx_def extract_text_segment_def PF_X_def check_entry_in_text_def
        check_text_size_def MAX_TEXT_SIZE_def)
qed

lemma oversized_segment_overwrites:
  assumes "load_elf new_vm oversized_image = Inr s"
  shows "read_memory_byte s 0x1000 = Inr 0x73 \<and> sample_code ! 0 \<noteq> 0x73"
proof -
  have "map_of (rev (concat (map segment_cells (elf_segments oversized_image)))) 0x1000 = Some 0x73"
    by (simp add: oversized_image_def sample_code_def segment_cells_def Let_def upt_rec)
  then show ?thesis using load_elf_content[OF new_vm_memory(1) assms, of "0x1000"]
    by (simp add: sample_code_def)
qed

end
