(* ===== verification/Executor.thy ===== *)
theory Executor
  imports HostEffects ElfValidator
begin

text \<open>
  \<^verbatim>\<open>poker_zkvm/src/isa/executor.rs\<close>: the execution of an ELF image.  The loop is a \<open>function\<close> whose
  measure is the distance of the trace from the step limit.  The interface to the system calls is the
  locale \<open>host_interface\<close>; the step relation \<open>machine_step\<close> is the specification that the loop refines.
\<close>

section \<open>Configuration and result\<close>

definition MAX_ZKVM_TRACE_STEPS :: nat where "MAX_ZKVM_TRACE_STEPS = 1048576"
definition STACK_INIT_SIZE :: u32 where "STACK_INIT_SIZE = 256 * 1024"
definition MEM_CHECK_INTERVAL :: nat where "MEM_CHECK_INTERVAL = 4096"

record 'v execution_config =
  ec_input :: "byte list"
  ec_randomness_seed :: 'v
  ec_initial_commitment :: 'v
  ec_final_commitment :: 'v
  ec_host_state :: "u32 \<Rightarrow> (zkvm_error, byte list) outcome"

text \<open>\<open>Default\<close>, with the field's zero.\<close>

definition default_config :: "'v \<Rightarrow> 'v execution_config" where
  "default_config zero =
     \<lparr>ec_input = [], ec_randomness_seed = zero, ec_initial_commitment = zero,
      ec_final_commitment = zero, ec_host_state = stub_read_slot\<rparr>"

record 'v execute_result =
  er_trace :: trace
  er_output :: "byte list"
  er_events :: "'v list"
  er_logs :: "byte list list"

section \<open>The loop\<close>

text \<open>The variables of the loop.\<close>

record 'v machine =
  mc_state :: vm_state
  mc_ctx :: "'v syscall_context"
  mc_trace :: trace

text \<open>The dispatch of an \<open>ECALL\<close>, whose log gets the registers after the call.\<close>

definition dispatch_ecall ::
  "(u32 \<Rightarrow> 'v host_call) \<Rightarrow> 'v syscall_context \<Rightarrow> vm_state \<Rightarrow> step_log
     \<Rightarrow> (zkvm_error, step_log \<times> 'v syscall_context \<times> vm_state) outcome" where
  "dispatch_ecall call ctx s log =
     rbind (read_register s REG_A7) (\<lambda>syscall_id.
     rbind (call syscall_id ctx s) (\<lambda>(ctx, s).
     Inr (log\<lparr>sl_registers := vm_registers s\<rparr>, ctx, s)))"

text \<open>The body of the loop after its checks.\<close>

definition run_step :: "(u32 \<Rightarrow> 'v host_call) \<Rightarrow> 'v machine \<Rightarrow> (zkvm_error, 'v machine) outcome" where
  "run_step call m =
     rbind (fetch_word (mc_state m)) (\<lambda>word.
     rbind (decode word) (\<lambda>insn.
     let ctx = (mc_ctx m)\<lparr>sc_step_index := trace_len (mc_trace m)\<rparr> in
     rbind (execute (mc_state m) insn) (\<lambda>(log, s).
     rbind (if insn = Ecall then dispatch_ecall call ctx s log else Inr (log, ctx, s)) (\<lambda>(log, ctx, s).
     let step = from_log (of_nat (sc_step_index ctx)) log in
     Inr \<lparr>mc_state = s, mc_ctx = ctx, mc_trace = push_step (mc_trace m) step\<rparr>))))"

text \<open>The check of the host's memory, once in every \<open>MEM_CHECK_INTERVAL\<close> steps.\<close>

definition check_memory :: "nat \<Rightarrow> trace \<Rightarrow> (zkvm_error, unit) outcome" where
  "check_memory mem_limit t =
     (if trace_len t mod MEM_CHECK_INTERVAL = 0 then
        let usage = host_memory_usage t in
        if mem_limit < usage then Inl (Fail (TraceHostMemoryExceeded usage mem_limit)) else Inr ()
      else Inr ())"

lemma run_step_len: "run_step call m = Inr m' \<Longrightarrow> trace_len (mc_trace m') = Suc (trace_len (mc_trace m))"
  by (auto simp: run_step_def Let_def outcome_simps trace_len_def push_step_def split: prod.splits)

function execute_loop ::
  "(u32 \<Rightarrow> 'v host_call) \<Rightarrow> nat \<Rightarrow> nat \<Rightarrow> 'v machine \<Rightarrow> (zkvm_error, 'v machine) outcome" where
  "execute_loop call step_limit mem_limit m =
     (if sc_halted (mc_ctx m) then Inr m
      else if step_limit \<le> trace_len (mc_trace m)
      then Inl (Fail (TraceTooLong (trace_len (mc_trace m) + 1) step_limit))
      else
        rbind (check_memory mem_limit (mc_trace m)) (\<lambda>_.
        rbind (run_step call m) (\<lambda>m'.
        execute_loop call step_limit mem_limit m')))"
  by pat_completeness auto
termination
  by (relation "measure (\<lambda>(_, step_limit, _, m). step_limit - trace_len (mc_trace m))")
    (auto dest!: run_step_len)

declare execute_loop.simps [simp del]

text \<open>Steps 1 to 1c: validation, loading, and the stack and the heap set to zero.\<close>

definition boot :: "(byte list \<Rightarrow> elf_file option) \<Rightarrow> byte list \<Rightarrow> (zkvm_error, vm_state) outcome" where
  "boot parse elf_bytes =
     rbind (validate_elf parse elf_bytes) (\<lambda>metadata.
     rbind (load_elf new_vm metadata) (\<lambda>s.
     rbind (write_register s REG_SP STACK_TOP) (\<lambda>s.
     rbind (vm_zero_init_range s (STACK_TOP - STACK_INIT_SIZE) STACK_INIT_SIZE) (\<lambda>s.
     vm_zero_init_range s HEAP_START HEAP_SIZE))))"

definition initial_machine :: "'v \<Rightarrow> 'v execution_config \<Rightarrow> vm_state \<Rightarrow> 'v machine" where
  "initial_machine zero config s =
     \<lparr>mc_state = s,
      mc_ctx = with_host_state
        (with_randomness (new_context zero (ec_input config)) (ec_randomness_seed config)
           (ec_initial_commitment config) (ec_final_commitment config)) (ec_host_state config),
      mc_trace = set_initial_registers new_trace (vm_registers s)\<rparr>"

definition result_of :: "'v machine \<Rightarrow> 'v execute_result" where
  "result_of m =
     \<lparr>er_trace = mc_trace m, er_output = sc_output (mc_ctx m), er_events = sc_events (mc_ctx m),
      er_logs = sc_logs (mc_ctx m)\<rparr>"

definition execute_elf_with_limits_and_config ::
  "'v library \<Rightarrow> (byte list \<Rightarrow> elf_file option) \<Rightarrow> byte list \<Rightarrow> 'v execution_config \<Rightarrow> nat \<Rightarrow> nat
     \<Rightarrow> (zkvm_error, 'v execute_result) outcome" where
  "execute_elf_with_limits_and_config L parse elf_bytes config step_limit mem_limit =
     rbind (boot parse elf_bytes) (\<lambda>s.
     rbind (create_production_registry L) (\<lambda>registry.
     rbind (execute_loop (dispatch registry) step_limit mem_limit
              (initial_machine (lb_fr_zero (lb_hash L)) config s)) (\<lambda>m.
     Inr (result_of m))))"

definition execute_elf_with_limits ::
  "'v library \<Rightarrow> (byte list \<Rightarrow> elf_file option) \<Rightarrow> byte list \<Rightarrow> byte list \<Rightarrow> nat \<Rightarrow> nat
     \<Rightarrow> (zkvm_error, 'v execute_result) outcome" where
  "execute_elf_with_limits L parse elf_bytes input step_limit mem_limit =
     execute_elf_with_limits_and_config L parse elf_bytes
       ((default_config (lb_fr_zero (lb_hash L)))\<lparr>ec_input := input\<rparr>) step_limit mem_limit"

definition execute_elf_with_config ::
  "'v library \<Rightarrow> (byte list \<Rightarrow> elf_file option) \<Rightarrow> byte list \<Rightarrow> 'v execution_config
     \<Rightarrow> (zkvm_error, 'v execute_result) outcome" where
  "execute_elf_with_config L parse elf_bytes config =
     execute_elf_with_limits_and_config L parse elf_bytes config MAX_ZKVM_TRACE_STEPS
         MAX_TRACE_HOST_MEMORY"

definition execute_elf ::
  "'v library \<Rightarrow> (byte list \<Rightarrow> elf_file option) \<Rightarrow> byte list \<Rightarrow> byte list
     \<Rightarrow> (zkvm_error, 'v execute_result) outcome" where
  "execute_elf L parse elf_bytes input =
     execute_elf_with_limits_and_config L parse elf_bytes
       ((default_config (lb_fr_zero (lb_hash L)))\<lparr>ec_input := input\<rparr>)
       MAX_ZKVM_TRACE_STEPS MAX_TRACE_HOST_MEMORY"

section \<open>The step relation\<close>

text \<open>
  The specification of a run: one instruction at a time, with a system call as part of its \<open>ECALL\<close>;
  nothing follows a halt.
\<close>

inductive machine_step :: "(u32 \<Rightarrow> 'v host_call) \<Rightarrow> 'v machine \<Rightarrow> 'v machine \<Rightarrow> bool" for call where
  instruction:
    "\<not> sc_halted ctx \<Longrightarrow> fetch_word s = Inr w \<Longrightarrow> decode w = Inr i \<Longrightarrow> i \<noteq> Ecall \<Longrightarrow> execute s i = Inr (log, s')
     \<Longrightarrow> machine_step call \<lparr>mc_state = s, mc_ctx = ctx, mc_trace = t\<rparr>
           \<lparr>mc_state = s', mc_ctx = ctx\<lparr>sc_step_index := trace_len t\<rparr>,
            mc_trace = push_step t (from_log (of_nat (trace_len t)) log)\<rparr>"
| system_call:
    "\<not> sc_halted ctx \<Longrightarrow> fetch_word s = Inr w \<Longrightarrow> decode w = Inr Ecall \<Longrightarrow> execute s Ecall = Inr (log, s1)
     \<Longrightarrow> read_register s1 REG_A7 = Inr number
     \<Longrightarrow> call number (ctx\<lparr>sc_step_index := trace_len t\<rparr>) s1 = Inr (ctx', s')
     \<Longrightarrow> machine_step call \<lparr>mc_state = s, mc_ctx = ctx, mc_trace = t\<rparr>
           \<lparr>mc_state = s', mc_ctx = ctx',
            mc_trace = push_step t (from_log (of_nat (sc_step_index ctx'))
              (log\<lparr>sl_registers := vm_registers s'\<rparr>))\<rparr>"

inductive_cases machine_stepE: "machine_step call m m'"

lemma machine_step_run: "machine_step call m m' \<longleftrightarrow> \<not> sc_halted (mc_ctx m) \<and> run_step call m = Inr m'"
proof
  assume "machine_step call m m'"
  then show "\<not> sc_halted (mc_ctx m) \<and> run_step call m = Inr m'"
    by cases (simp_all add: run_step_def dispatch_ecall_def Let_def)
next
  assume r: "\<not> sc_halted (mc_ctx m) \<and> run_step call m = Inr m'"
  obtain s ctx t where m: "m = \<lparr>mc_state = s, mc_ctx = ctx, mc_trace = t\<rparr>" by (cases m)
  from r obtain w i log s1 where f: "fetch_word s = Inr w" "decode w = Inr i"
      "execute s i = Inr (log, s1)"
    by (auto simp: m run_step_def outcome_simps Let_def)
  show "machine_step call m m'"
  proof (cases "i = Ecall")
    case True
    with r f obtain number ctx' s' where "read_register s1 REG_A7 = Inr number"
      "call number (ctx\<lparr>sc_step_index := trace_len t\<rparr>) s1 = Inr (ctx', s')"
      "m' = \<lparr>mc_state = s', mc_ctx = ctx', mc_trace
          = push_step t (from_log (of_nat (sc_step_index ctx'))
              (log\<lparr>sl_registers := vm_registers s'\<rparr>))\<rparr>"
      by (auto simp: m run_step_def dispatch_ecall_def outcome_simps Let_def)
    with r f True show ?thesis by (auto simp: m intro: machine_step.system_call)
  next
    case False
    with r f show ?thesis by (auto simp: m run_step_def intro: machine_step.instruction)
  qed
qed

section \<open>The loop refines the step relation\<close>

text \<open>The checks of the host's memory from the \<open>n\<close>-th step on pass.\<close>

definition checkpoints_pass :: "nat \<Rightarrow> nat \<Rightarrow> trace \<Rightarrow> bool" where
  "checkpoints_pass mem_limit n t \<longleftrightarrow>
     (\<forall>k \<in> {n..<trace_len t}. k mod MEM_CHECK_INTERVAL = 0
        \<longrightarrow> sum_list (map estimated_size (take k (tr_steps t))) \<le> mem_limit)"

lemma run_step_extends:
  "run_step call m = Inr m' \<Longrightarrow> \<exists>step. tr_steps (mc_trace m') = tr_steps (mc_trace m) @ [step]"
  by (auto simp: run_step_def Let_def outcome_simps push_step_def split: prod.splits)

lemma steps_extend:
  "(machine_step call)\<^sup>*\<^sup>* m m' \<Longrightarrow> \<exists>steps. tr_steps (mc_trace m') = tr_steps (mc_trace m) @ steps"
  by (induction rule: rtranclp_induct) (use run_step_extends in \<open>fastforce simp: machine_step_run\<close>)+

lemma halted_stuck: "sc_halted (mc_ctx m) \<Longrightarrow> (machine_step call)\<^sup>*\<^sup>* m m' \<Longrightarrow> m' = m"
  by (erule converse_rtranclpE) (simp_all add: machine_step_run)

lemma checkpoints_first:
  assumes "n = length xs" and "tr_steps t = xs @ y # ys"
  shows "checkpoints_pass ml n t \<longleftrightarrow>
    (n mod MEM_CHECK_INTERVAL
        = 0 \<longrightarrow> sum_list (map estimated_size xs) \<le> ml) \<and> checkpoints_pass ml (Suc n) t"
proof -
  have "{n..<trace_len t} = insert n {Suc n..<trace_len t}" using assms by (auto simp: trace_len_def)
  then show ?thesis using assms by (simp add: checkpoints_pass_def)
qed

lemma check_memory_pass:
  "check_memory ml t = Inr u \<longleftrightarrow>
     (trace_len t mod MEM_CHECK_INTERVAL = 0 \<longrightarrow> sum_list (map estimated_size (tr_steps t)) \<le> ml)"
  by (auto simp: check_memory_def host_memory_usage_def Let_def)

lemma loop_steps:
  assumes "execute_loop call sl ml m = Inr m'" and "trace_len (mc_trace m) \<le> sl"
  shows "(machine_step call)\<^sup>*\<^sup>* m m' \<and> sc_halted (mc_ctx m') \<and> trace_len (mc_trace m') \<le> sl
    \<and> checkpoints_pass ml (trace_len (mc_trace m)) (mc_trace m')"
  using assms
proof (induction call sl ml m rule: execute_loop.induct)
  case (1 call sl ml m)
  show ?case
  proof (cases "sc_halted (mc_ctx m)")
    case True
    then show ?thesis using "1.prems" by (simp add: execute_loop.simps checkpoints_pass_def)
  next
    case False
    from "1.prems"(1) False obtain m1 where c: "\<not> sl \<le> trace_len (mc_trace m)"
        "check_memory ml (mc_trace m) = Inr ()"
      "run_step call m = Inr m1" "execute_loop call sl ml m1 = Inr m'"
      by (subst (asm) execute_loop.simps) (auto simp: outcome_simps split: if_splits)
    have len: "trace_len (mc_trace m1) = Suc (trace_len (mc_trace m))" by (rule run_step_len[OF c(3)])
    from "1.IH"[OF False c(1) c(2) c(3) c(4)] len c(1)
    have IH: "(machine_step call)\<^sup>*\<^sup>* m1 m'" "sc_halted (mc_ctx m')" "trace_len (mc_trace m') \<le> sl"
      "checkpoints_pass ml (Suc (trace_len (mc_trace m))) (mc_trace m')" by simp_all
    obtain x xs where x: "tr_steps (mc_trace m') = tr_steps (mc_trace m) @ x # xs"
      using steps_extend[OF IH(1)] run_step_extends[OF c(3)] by auto
    have "checkpoints_pass ml (trace_len (mc_trace m)) (mc_trace m')"
      using c(2) IH(4) unfolding checkpoints_first[OF _ x, unfolded trace_len_def[symmetric], OF refl]
      by (simp add: check_memory_pass)
    moreover have "machine_step call m m1" using False c(3) by (simp add: machine_step_run)
    ultimately show ?thesis using IH(1-3) by (meson converse_rtranclp_into_rtranclp)
  qed
qed

lemma steps_loop:
  assumes "(machine_step call)\<^sup>*\<^sup>* m m'" and "sc_halted (mc_ctx m')" and "trace_len (mc_trace m') \<le> sl"
    and "checkpoints_pass ml (trace_len (mc_trace m)) (mc_trace m')"
  shows "execute_loop call sl ml m = Inr m'"
  using assms
proof (induction rule: converse_rtranclp_induct)
  case base
  then show ?case by (simp add: execute_loop.simps)
next
  case (step m m1)
  have r: "\<not> sc_halted (mc_ctx m)"
      "run_step call m = Inr m1" using step.hyps(1) by (simp_all add: machine_step_run)
  obtain x xs where x: "tr_steps (mc_trace m') = tr_steps (mc_trace m) @ x # xs"
    using steps_extend[OF step.hyps(2)] run_step_extends[OF r(2)] by auto
  have "checkpoints_pass ml (Suc (trace_len (mc_trace m))) (mc_trace m')"
      "check_memory ml (mc_trace m) = Inr ()"
    using step.prems(3) unfolding checkpoints_first[OF _ x, unfolded trace_len_def[symmetric], OF refl]
    by (simp_all add: check_memory_pass)
  moreover have "\<not> sl \<le> trace_len (mc_trace m)" using step.prems(2) x by (simp add: trace_len_def)
  ultimately show ?case using step.IH step.prems(1,2) r
    by (subst execute_loop.simps) (simp add: run_step_len[OF r(2)])
qed

text \<open>
  C27: the loop refines the step relation, in both directions: from the initial machine it returns a
  machine exactly when that machine is reached by steps, has halted, is within the step limit and has
  passed the checks of the host's memory on the way.
\<close>

theorem execute_loop_refines:
  "execute_loop call step_limit mem_limit (initial_machine zero config s) = Inr m \<longleftrightarrow>
     (machine_step call)\<^sup>*\<^sup>* (initial_machine zero config s) m \<and> sc_halted (mc_ctx m)
     \<and> trace_len (mc_trace m) \<le> step_limit \<and> checkpoints_pass mem_limit 0 (mc_trace m)"
proof -
  have "trace_len (mc_trace (initial_machine zero config s)) = 0"
    by (simp add: initial_machine_def trace_len_def new_trace_def set_initial_registers_def)
  then show ?thesis
    using loop_steps[of call step_limit mem_limit "initial_machine zero config s" m]
      steps_loop[of call "initial_machine zero config s" m step_limit mem_limit] by auto
qed

section \<open>The interface to the system calls\<close>

text \<open>
  What the loop relies on: a dispatcher that \<open>serves\<close> keeps the contract of \<open>call_ok\<close> as long as the
  counter of the randomness is below \<open>room\<close>; each call uses up at most one.
\<close>

definition host_state_ok :: "'v syscall_context \<Rightarrow> bool" where
  "host_state_ok ctx \<longleftrightarrow> (\<forall>slot. sc_host_state ctx slot \<noteq> Inl Panic)"

text \<open>A step that is the guest's \<open>CommitOutput\<close>: the call with the number 2 in \<open>a7\<close>.\<close>

definition commit_step :: "trace_step \<Rightarrow> bool" where
  "commit_step step \<longleftrightarrow> st_instruction step = Ecall \<and> st_registers step ! 17 = 2"

text \<open>
  The invariant of the trace: consecutive indices, full register snapshots and at most one memory access
  for each step, and no step after the commit.
\<close>

definition run_trace_ok :: "trace \<Rightarrow> bool" where
  "run_trace_ok t \<longleftrightarrow>
     map st_step_index (tr_steps t) = map of_nat [0..<trace_len t]
     \<and> list_all (\<lambda>step. length (st_registers step) = 32 \<and> length (st_mem_access step) \<le> 1) (tr_steps t)
     \<and> list_all (\<lambda>step. \<not> commit_step step) (butlast (tr_steps t))"

definition committed :: "trace \<Rightarrow> bool" where
  "committed t \<longleftrightarrow> tr_steps t \<noteq> [] \<and> commit_step (last (tr_steps t))"

definition machine_ok :: "'v machine \<Rightarrow> bool" where
  "machine_ok m \<longleftrightarrow>
     vm_ok (mc_state m) \<and> host_state_ok (mc_ctx m)
     \<and> sc_randomness_counter (mc_ctx m) \<le> trace_len (mc_trace m) \<and> run_trace_ok (mc_trace m)
     \<and> last (tr_initial_registers (mc_trace m) # map st_registers (tr_steps (mc_trace m)))
         = vm_registers (mc_state m)
     \<and> (sc_halted (mc_ctx m) \<longleftrightarrow> committed (mc_trace m))"

lemma run_trace_ok_push:
  assumes "run_trace_ok t" and "\<not> committed t" and "st_step_index step = of_nat (trace_len t)"
    and "length (st_registers step) = 32" and "length (st_mem_access step) \<le> 1"
  shows "run_trace_ok (push_step t step)"
proof -
  have "list_all (\<lambda>step. \<not> commit_step step) (tr_steps t)"
    using assms(1,2) by (cases "tr_steps t" rule: rev_cases) (auto simp: run_trace_ok_def committed_def)
  then show ?thesis using assms by (simp add: run_trace_ok_def push_step_def trace_len_def)
qed

lemma committed_push: "committed (push_step t step) \<longleftrightarrow> commit_step step"
  by (simp add: committed_def push_step_def)

lemma machine_ok_push:
  assumes "machine_ok m" and "\<not> sc_halted (mc_ctx m)" and "vm_ok s" and "host_state_ok ctx"
    and "sc_randomness_counter ctx \<le> Suc (trace_len (mc_trace m))"
    and "sl_registers log = vm_registers s" and "length (sl_mem_access log) \<le> 1"
    and "sc_halted ctx \<longleftrightarrow> sl_instruction log = Ecall \<and> reg s REG_A7 = 2"
  shows "machine_ok \<lparr>mc_state = s, mc_ctx = ctx,
    mc_trace = push_step (mc_trace m) (from_log (of_nat (trace_len (mc_trace m))) log)\<rparr>"
proof -
  let ?step = "from_log (of_nat (trace_len (mc_trace m))) log"
  have "length (vm_registers s) = 32" using assms(3) by (simp add: vm_ok_def)
  then have "run_trace_ok (push_step (mc_trace m) ?step)"
    using assms by (intro run_trace_ok_push) (auto simp: machine_ok_def from_log_def)
  moreover have "sc_halted ctx \<longleftrightarrow> commit_step ?step"
    by (simp add: assms(6,8) commit_step_def from_log_def reg_def reg_numbers)
  ultimately show ?thesis using assms
    by (simp add: machine_ok_def committed_push) (simp add: push_step_def trace_len_def from_log_def)
qed

locale host_interface =
  fixes serves :: "(u32 \<Rightarrow> 'v host_call) \<Rightarrow> bool" and room :: nat
  assumes call_safe: "serves call \<Longrightarrow> host_state_ok ctx \<Longrightarrow> sc_randomness_counter ctx < room \<Longrightarrow> vm_ok s
    \<Longrightarrow> safe (call_ok (number = 2) ctx s) (call number ctx s)"
begin

lemma step_safe:
  assumes "serves call" and ok: "machine_ok m" and run: "\<not> sc_halted (mc_ctx m)"
    and room: "trace_len (mc_trace m) < room"
  shows "safe machine_ok (run_step call m)"
proof -
  let ?s = "mc_state m" and ?ctx = "(mc_ctx m)\<lparr>sc_step_index := trace_len (mc_trace m)\<rparr>"
  have vm: "vm_ok ?s" and ctx: "host_state_ok ?ctx" "sc_randomness_counter ?ctx < room"
    using ok room by (auto simp: machine_ok_def host_state_ok_def)
  have body: "safe machine_ok
      (rbind (if i = Ecall then dispatch_ecall call ?ctx s log else Inr (log, ?ctx, s)) (\<lambda>(log, ctx, s).
       let step = from_log (of_nat (sc_step_index ctx)) log in
       Inr \<lparr>mc_state = s, mc_ctx = ctx, mc_trace = push_step (mc_trace m) step\<rparr>))"
    if st: "steps_to ?s i (log, s)" for i log s
  proof (cases "i = Ecall")
    case False
    from st False have "machine_ok \<lparr>mc_state = s, mc_ctx = ?ctx,
        mc_trace = push_step (mc_trace m) (from_log (of_nat (trace_len (mc_trace m))) log)\<rparr>"
      using ok run by (intro machine_ok_push) (auto simp: steps_to_def machine_ok_def host_state_ok_def)
    with False show ?thesis by (simp add: Let_def)
  next
    case True
    have vs: "vm_ok s" using st by (simp add: steps_to_def)
    have a7: "read_register s REG_A7
        = Inr (reg s REG_A7)" by (rule read_register_ok[OF vs reg_numbers_less(5)])
    have "safe machine_ok (case r of (log, ctx, s) \<Rightarrow>
        (let step = from_log (of_nat (sc_step_index ctx)) log in
         Inr \<lparr>mc_state = s, mc_ctx = ctx, mc_trace
             = push_step (mc_trace m) step\<rparr> :: (zkvm_error, _) outcome))"
      if r: "call_ok (reg s REG_A7 = 2) ?ctx s (snd r)"
        "fst r = log\<lparr>sl_registers := vm_registers (snd (snd r))\<rparr>" for r
    proof -
      obtain ctx' s' where r':
          "r = (log\<lparr>sl_registers := vm_registers s'\<rparr>, ctx', s')" using r(2) by (cases r) auto
      have c: "context_step (reg s REG_A7 = 2) ?ctx ctx'"
          "vm_at s s'" using r(1) by (simp_all add: r' call_ok_def)
      have "reg s' REG_A7 = reg s REG_A7" using c(2) by (simp add: vm_at_def reg_numbers)
      then have "machine_ok \<lparr>mc_state = s', mc_ctx = ctx', mc_trace = push_step (mc_trace m)
          (from_log (of_nat (trace_len (mc_trace m))) (log\<lparr>sl_registers := vm_registers s'\<rparr>))\<rparr>"
        using ok run c st True
        by (intro machine_ok_push) (auto simp: steps_to_def machine_ok_def context_step_def
            vm_at_def host_state_ok_def)
      then show ?thesis using c(1) by (simp add: r' context_step_def)
    qed
    moreover have "safe (\<lambda>r. call_ok (reg s REG_A7 = 2) ?ctx s (snd r)
        \<and> fst r = log\<lparr>sl_registers := vm_registers (snd (snd r))\<rparr>) (dispatch_ecall call ?ctx s log)"
      unfolding dispatch_ecall_def a7
      using call_safe[OF assms(1) ctx vs, of "reg s REG_A7"] by (auto intro!: safe_rbind)
    ultimately show ?thesis using True by (auto intro: safe_rbind)
  qed
  have "safe canonical (decode w)" for w
    using decode_cases[of w] decode_Inr_decodes[of w] by (auto simp: decodes_def)
  moreover have
      "safe (\<lambda>_. True) (fetch_word ?s)" unfolding fetch_word_def by (rule safe_read_memory(3)[OF vm])
  ultimately show ?thesis unfolding run_step_def Let_def[of ?ctx]
    using body by (intro safe_rbind[where P = "\<lambda>_. True"] safe_rbind[where P = canonical]
        safe_rbind[OF safe_execute[OF vm]]) (auto simp: Let_def)
qed

lemma loop_safe:
  assumes "serves call" and "machine_ok m" and "sl \<le> room"
  shows "safe (\<lambda>m'. machine_ok m' \<and> committed (mc_trace m')) (execute_loop call sl ml m)"
  using assms
proof (induction call sl ml m rule: execute_loop.induct)
  case (1 call sl ml m)
  have mem: "safe (\<lambda>u. check_memory ml (mc_trace m) = Inr u) (check_memory ml (mc_trace m))"
    by (simp add: check_memory_def Let_def)
  show ?case
  proof (cases "\<not> sc_halted (mc_ctx m) \<and> trace_len (mc_trace m) < sl")
    case True
    with "1.prems" have s: "safe (\<lambda>m'. machine_ok m' \<and> run_step call m = Inr m') (run_step call m)"
      using step_safe[of call m] by (auto simp: safe_def split: sum.splits fault.splits)
    from True show ?thesis
      by (subst execute_loop.simps) (auto intro!: safe_rbind[OF mem] safe_rbind[OF s] "1.IH" "1.prems")
  next
    case False
    with "1.prems"(2) show ?thesis by (subst execute_loop.simps) (auto simp: machine_ok_def)
  qed
qed

end

text \<open>The dispatchers of the production registry keep the contract.\<close>

definition production_dispatch :: "(u32 \<Rightarrow> 'v host_call) \<Rightarrow> bool" where
  "production_dispatch call \<longleftrightarrow>
     (\<exists>L r. library_ok L \<and> create_production_registry L = Inr r \<and> call = dispatch r)"

interpretation production: host_interface production_dispatch U64_MAX
proof
  fix call :: "u32 \<Rightarrow> 'a host_call" and ctx :: "'a syscall_context" and s number
  assume p: "production_dispatch call" and c: "host_state_ok ctx"
      "sc_randomness_counter ctx < U64_MAX" "vm_ok s"
  from p obtain L r where r: "library_ok L" "create_production_registry L = Inr r" "call = dispatch r"
    by (auto simp: production_dispatch_def)
  have "context_ready ctx" using c by (simp add: context_ready_def host_state_ok_def U64_MAX_def)
  from safe_dispatch[OF r(1,2) this c(3)] show "safe (call_ok (number = 2) ctx s) (call number ctx s)"
    by (simp add: r(3))
qed

section \<open>Booting\<close>

lemma safe_with_eq: "safe P m \<Longrightarrow> safe (\<lambda>x. P x \<and> m = Inr x) m"
  by (auto simp: safe_def split: sum.splits)

lemma safe_zero_pages: "mem_ok m \<Longrightarrow> safe mem_ok (zero_pages m addr e)"
proof (induction m addr e rule: zero_pages.induct)
  case (1 m addr e)
  have ens: "safe (\<lambda>(m', p). ensure_page m addr
      = Inr (m', p) \<and> mem_ok (put_page m' addr (zeroed_init p)))
      (ensure_page m addr)"
  proof (cases "can_allocate m addr")
    case True
    from ensure_page_succeeds[OF "1.prems" this] obtain m' p where
      e: "ensure_page m addr = Inr (m', p)" "mem_ok m'"
          "mm_pages m' = (mm_pages m)(page_base addr \<mapsto> p)" by blast
    then have "page_ok p" unfolding mem_ok_def by (metis fun_upd_same)
    with e zeroed_init_ok(1) have
        "mem_ok (put_page m' addr (zeroed_init p))" by (intro mem_ok_put_page) auto
    with e(1) show ?thesis by simp
  qed (simp add: ensure_page_fails[OF "1.prems"])
  show ?case
  proof (cases "addr < e")
    case True
    show ?thesis unfolding zero_pages.simps[of m addr e] if_P[OF True] Let_def
      by (rule safe_rbind[OF ens]) (auto intro:
          "1.IH"[OF True refl] simp del: zero_pages.simps split: option.split)
  qed (use "1.prems" in simp)
qed

lemma safe_zero_init:
  assumes "vm_ok s"
  shows "safe (\<lambda>s'. vm_ok s' \<and> vm_registers s' = vm_registers s \<and> vm_pc s' = vm_pc s)
    (vm_zero_init_range s start len)"
  using assms unfolding vm_zero_init_range_def zero_init_range_def
  by (intro safe_with_memory safe_bind_ok_or safe_zero_pages) (simp_all add: vm_ok_def)

lemma safe_load_elf:
  assumes "vm_ok s"
  shows "safe vm_ok (load_elf s metadata)"
proof -
  have "safe vm_ok (load_segment t seg)" if "vm_ok t" for t seg
    unfolding load_segment_def
  proof (rule safe_rbind[where P = "\<lambda>(t, _). vm_ok t"])
    show "safe (\<lambda>(t, _). vm_ok t) (foldM (\<lambda>(s, addr) b. rbind (write_memory_byte s addr b) (\<lambda>s'.
        rbind (ok_or (Other SegmentOverflow) (checked_add_u32 addr 1)) (\<lambda>addr'. Inr (s', addr'))))
        (t, seg_vaddr seg) (seg_data seg))"
      using that by (intro safe_foldM) (auto intro!: safe_rbind[OF safe_write_memory(1)]
          safe_bind_ok_or)
  qed auto
  then show ?thesis unfolding load_elf_def using assms
    by (intro safe_rbind[OF safe_foldM[where P = vm_ok]]) simp_all
qed

lemma safe_boot: "safe vm_ok (boot parse bytes)"
proof -
  have zero: "safe vm_ok (vm_zero_init_range s a n)" if "vm_ok s" for s a n
    by (rule safe_weaken[OF safe_zero_init[OF that]]) simp
  have "safe vm_ok (write_register s REG_SP v)" if "vm_ok s" for s v
    by (rule safe_weaken[OF safe_write_register[OF that]]) (simp_all add: reg_numbers)
  with zero show ?thesis unfolding boot_def
    by (intro safe_rbind[OF safe_validate_elf] safe_rbind[OF safe_load_elf[OF new_vm_ok]]
        safe_rbind[where P = vm_ok]) simp_all
qed

section \<open>Execution is total and safe\<close>

lemma initial_machine_ok:
  assumes "vm_ok s" and "\<forall>slot. ec_host_state config slot \<noteq> Inl Panic"
  shows "machine_ok (initial_machine zero config s)"
  using assms
  by (simp add: machine_ok_def initial_machine_def host_state_ok_def with_host_state_def
      with_randomness_def
      new_context_def run_trace_ok_def committed_def set_initial_registers_def new_trace_def
          trace_len_def)

lemma loop_within:
  "execute_loop call sl ml (initial_machine zero config s) = Inr m \<Longrightarrow> trace_len (mc_trace m) \<le> sl"
  by (drule loop_steps) (simp_all add: initial_machine_def trace_len_def new_trace_def
      set_initial_registers_def)

text \<open>
  C22: executing any bytes with any input never panics and always returns: an error, or a result whose
  trace is within the step limit, has the step indices \<open>0, 1, \<dots>\<close> in order with a full register snapshot
  and at most one memory access each, and ends with the guest's \<open>CommitOutput\<close>, which no earlier step is.
  The step limit is a 64-bit \<open>usize\<close>, the library is as documented and the host's state reader does not panic.
\<close>

theorem execute_elf_total:
  assumes "library_ok L" and "\<forall>slot. ec_host_state config slot \<noteq> Inl Panic" and "step_limit \<le> U64_MAX"
  shows "(\<exists>e. execute_elf_with_limits_and_config L parse bytes config step_limit mem_limit
      = Inl (Fail e))
    \<or> (\<exists>res. execute_elf_with_limits_and_config L parse bytes config step_limit mem_limit = Inr res
         \<and> trace_len (er_trace res) \<le> step_limit \<and> run_trace_ok (er_trace res)
             \<and> committed (er_trace res))"
proof -
  obtain r where r: "create_production_registry L = Inr r" using production_registry by blast
  then have p: "production_dispatch (dispatch r)" using assms(1) by (auto simp: production_dispatch_def)
  let ?m = "initial_machine (lb_fr_zero (lb_hash L)) config"
  have loop: "safe (\<lambda>m. trace_len (mc_trace m) \<le> step_limit \<and> run_trace_ok (mc_trace m)
      \<and> committed (mc_trace m))
      (execute_loop (dispatch r) step_limit mem_limit (?m s))" if "vm_ok s" for s
    by (rule safe_weaken[OF safe_with_eq[OF production.loop_safe[OF p initial_machine_ok[OF that
        assms(2)] assms(3)]]])
      (auto simp: machine_ok_def dest: loop_within)
  have "safe (\<lambda>res. trace_len (er_trace res) \<le> step_limit \<and> run_trace_ok (er_trace res)
      \<and> committed (er_trace res))
      (execute_elf_with_limits_and_config L parse bytes config step_limit mem_limit)"
    unfolding execute_elf_with_limits_and_config_def r rbind_simps
    by (intro safe_rbind[OF safe_boot] safe_rbind[OF loop]) (simp_all add: result_of_def)
  then show ?thesis by (auto simp: safe_def split: sum.splits fault.splits)
qed

section \<open>The machine at the start\<close>

text \<open>The bytes that zeroing a range of \<open>n\<close> pages may need.\<close>

lemma zero_pages_room:
  assumes "mem_ok m" and "unat e + 4096 \<le> 2 ^ 32" and "unat e \<le> unat (page_base addr) + 4096 * n"
    and "mm_total m + 4096 * n \<le> MAX_ZKVM_MEMORY"
  shows "\<exists>m'. zero_pages m addr e = Inr m' \<and> mm_total m' \<le> mm_total m + 4096 * n"
  using assms
proof (induction m addr e arbitrary: n rule: zero_pages.induct)
  case (1 m addr e)
  show ?case
  proof (cases "addr < e")
    case False
    then show ?thesis by (subst zero_pages.simps) simp
  next
    case True
    have base: "unat (page_base addr) \<le> unat addr" by (simp add: unat_page_base)
    then have lt: "unat (page_base addr) < unat e" using True by (simp add: word_less_nat_alt)
    then obtain k where n: "n = Suc k" using "1.prems"(3) by (cases n) auto
    have alloc: "can_allocate m addr" using "1.prems"(4) by (simp add: can_allocate_def n)
    from ensure_page_succeeds[OF "1.prems"(1) alloc] obtain m1 p where
      e: "ensure_page m addr = Inr (m1, p)" "mem_ok m1"
          "mm_pages m1 = (mm_pages m)(page_base addr \<mapsto> p)" by blast
    then have p: "page_ok p" unfolding mem_ok_def by (metis fun_upd_same)
    let ?m2 = "put_page m1 addr (zeroed_init p)"
    have ok2: "mem_ok ?m2" using e p zeroed_init_ok(1) by (intro mem_ok_put_page) auto
    have d: "dom (mm_pages ?m2) = insert (page_base addr) (dom (mm_pages m))"
      using e(3) by (auto simp: put_page_def)
    have fin: "finite (dom (mm_pages m))" using "1.prems"(1) by (simp add: mem_ok_def)
    then have "card (dom (mm_pages ?m2)) \<le> Suc (card (dom (mm_pages m)))"
      unfolding d by (simp add: card_insert_if)
    then have tot: "mm_total ?m2 \<le> mm_total m + 4096"
      using ok2 "1.prems"(1) unfolding mem_ok_def by linarith
    have "unat (page_base addr) + unat (of_nat PAGE_SIZE :: u32) < 2 ^ 32"
      using lt "1.prems"(2) by (simp add: PAGE_SIZE_def)
    then obtain nxt where nxt: "checked_add_u32 (page_base addr) (of_nat PAGE_SIZE) = Some nxt"
      by (simp add: checked_add_u32_def)
    have un: "unat nxt = unat (page_base addr) + 4096" by (rule page_base_next(1)[OF nxt])
    have "unat (page_base nxt) = unat nxt" by (simp add: unat_page_base un)
    then have "unat e \<le> unat (page_base nxt) + 4096 * k" using "1.prems"(3) by (simp add: un n)
    moreover have "mm_total ?m2 + 4096 * k \<le> MAX_ZKVM_MEMORY" using tot "1.prems"(4) by (simp add: n)
    ultimately obtain m' where m': "zero_pages ?m2 nxt e = Inr m'"
        "mm_total m' \<le> mm_total ?m2 + 4096 * k"
      using "1.IH"[OF True refl e(1) refl refl nxt ok2 "1.prems"(2)] by blast
    have "zero_pages m addr e = Inr m'"
      by (subst zero_pages.simps) (simp add: True e(1) nxt m'(1) del: zero_pages.simps)
    then show ?thesis using m'(2) tot by (auto simp: n)
  qed
qed

lemma zero_range_room:
  assumes "vm_ok s" and "unat start + unat len + 4096 \<le> 2 ^ 32" and "unat start mod 4096 = 0"
    and "unat len = 4096 * n" and "mm_total (vm_memory s) + 4096 * n \<le> MAX_ZKVM_MEMORY"
  shows "\<exists>s'. vm_zero_init_range s start len = Inr s' \<and> vm_ok s' \<and> vm_registers s' = vm_registers s
    \<and> vm_pc s' = vm_pc s \<and> mm_total (vm_memory s') \<le> mm_total (vm_memory s) + 4096 * n
    \<and> (\<forall>b. read_memory_byte s' b = (if unat start \<le> unat b \<and> unat b < unat start + unat len then Inr 0
         else read_memory_byte s b))"
proof -
  have m: "mem_ok (vm_memory s)" using assms(1) by (simp add: vm_ok_def)
  have r: "unat start + unat len < 2 ^ 32" using assms(2) by simp
  have base: "unat (page_base start) = unat start" using div_mult_mod_eq[of "unat start" 4096] assms(3)
    by (simp add: unat_page_base)
  from zero_pages_room[OF m, of "start + len" start n] assms(2,4,5)
  obtain m' where m': "zero_pages (vm_memory s) start (start + len) = Inr m'"
    "mm_total m' \<le> mm_total (vm_memory s) + 4096 * n"
    unfolding unat_add_small[OF r] base by auto
  then have z: "zero_init_range (vm_memory s) start len = Inr m'"
    using r by (simp add: zero_init_range_def checked_add_u32_def ok_or_def)
  have "read_byte m' b = (if unat start \<le> unat b \<and> unat b < unat start + unat len then Inr 0
      else read_byte (vm_memory s) b)" for b
  proof -
    have "unat (page_base b) < unat start + unat len \<longleftrightarrow> unat b < unat start + unat len"
    proof -
      obtain q where q:
          "unat start + unat len
          = 4096 * q" using assms(3,4) by (auto simp: mod_eq_0_iff_dvd elim!: dvdE)
        (metis distrib_left)
      show ?thesis unfolding q unat_page_base by (simp add: less_mult_imp_div_less)
        (metis div_less_iff_less_mult mult.commute zero_less_numeral)
    qed
    then show ?thesis using zero_init_range_content[OF m z, of b] base by auto
  qed
  moreover have "mem_ok m'" using zero_init_range_content[OF m z] by blast
  ultimately show ?thesis using z m'(2) assms(1)
    by (simp add: vm_zero_init_range_def with_memory_def vm_ok_def read_memory_byte_def)
qed

definition BOOT_ROOM :: nat where "BOOT_ROOM = unat STACK_INIT_SIZE + unat HEAP_SIZE"

lemma boot_state:
  assumes "validate_elf parse bytes = Inr m"
    and "\<forall>seg \<in> set (elf_segments m). length (seg_data seg) \<le> unat (seg_memsz seg)"
    and "load_elf new_vm m = Inr s0" and "mm_total (vm_memory s0) + BOOT_ROOM \<le> MAX_ZKVM_MEMORY"
  shows "\<exists>s. boot parse bytes = Inr s \<and> vm_ok s \<and> vm_pc s = elf_entry m \<and> reg s REG_SP = STACK_TOP
    \<and> (\<forall>r < 32. r \<noteq> REG_SP \<longrightarrow> reg s r = 0)
    \<and> (\<forall>seg \<in> set (elf_segments m). \<forall>i < length (seg_data seg).
         read_memory_byte s (seg_vaddr seg + of_nat i) = Inr (seg_data seg ! i))
    \<and> (\<forall>b. unat b - unat HEAP_START < unat HEAP_SIZE \<and> HEAP_START \<le> b
           \<or> STACK_TOP - STACK_INIT_SIZE \<le> b \<and> b < STACK_TOP \<longrightarrow> read_memory_byte s b = Inr 0)"
proof -
  have room: "mm_total (vm_memory s0) + 4096 * 64 + 4096 * 2048 \<le> MAX_ZKVM_MEMORY"
    using assms(4) by (simp add: BOOT_ROOM_def STACK_INIT_SIZE_def HEAP_SIZE_def)
  have s0: "vm_ok s0" "vm_registers s0 = replicate 32 0" "vm_pc s0 = elf_entry m"
    using load_elf_content[OF new_vm_memory(1) assms(3)] by (simp_all add: vm_ok_def new_vm_def)
  have image: "read_memory_byte s0 (seg_vaddr seg + of_nat i) = Inr (seg_data seg ! i)"
    "unat (seg_vaddr seg + of_nat i :: u32) < 2 ^ 28"
    if "seg \<in> set (elf_segments m)" "i < length (seg_data seg)" for seg i
  proof -
    show "read_memory_byte s0 (seg_vaddr seg + of_nat i) = Inr (seg_data seg ! i)"
      using validated_image_loads[OF assms(1,2)] assms(3) that by auto
    have e: "seg_end seg \<le> MAX_ZKVM_MEMORY" using validate_elf_Inr[OF assms(1)] that(1) by (simp
        add: image_ok_def)
    have "i < unat (seg_memsz seg)" using assms(2) that by fastforce
    from segment_addr[OF e this] e this show "unat (seg_vaddr seg + of_nat i :: u32) < 2 ^ 28"
      by (simp add: seg_end_def MAX_ZKVM_MEMORY_def)
  qed
  from write_register_ok[OF s0(1), of REG_SP STACK_TOP] obtain s1 where
    s1: "write_register s0 REG_SP STACK_TOP = Inr s1" "vm_ok s1" "vm_pc s1 = vm_pc s0"
        "vm_memory s1 = vm_memory s0"
    "\<And>r. r < 32 \<Longrightarrow> reg s1 r = (if r = REG_SP then STACK_TOP else reg s0 r)" by (auto simp: reg_numbers)
  from zero_range_room[OF s1(2), of
      "STACK_TOP - STACK_INIT_SIZE" STACK_INIT_SIZE 64] room obtain s2 where
    s2: "vm_zero_init_range s1 (STACK_TOP - STACK_INIT_SIZE) STACK_INIT_SIZE = Inr s2" "vm_ok s2"
    "vm_registers s2 = vm_registers s1" "vm_pc s2 = vm_pc s1"
    "mm_total (vm_memory s2) \<le> mm_total (vm_memory s1) + 4096 * 64"
    "\<And>b. read_memory_byte s2 b = (if unat (STACK_TOP - STACK_INIT_SIZE) \<le> unat b
        \<and> unat b < unat (STACK_TOP - STACK_INIT_SIZE) + unat STACK_INIT_SIZE then Inr 0 else
            read_memory_byte s1 b)"
    by (auto simp: STACK_TOP_def STACK_INIT_SIZE_def s1(4))
  from zero_range_room[OF s2(2), of HEAP_START HEAP_SIZE 2048] s2(5) room obtain s where
    s: "vm_zero_init_range s2 HEAP_START HEAP_SIZE = Inr s" "vm_ok s" "vm_registers s = vm_registers s2"
    "vm_pc s = vm_pc s2"
    "\<And>b. read_memory_byte s b = (if unat HEAP_START \<le> unat b \<and> unat b < unat HEAP_START + unat HEAP_SIZE
        then Inr 0 else read_memory_byte s2 b)"
    by (auto simp: HEAP_START_def HEAP_SIZE_def s1(4))
  have run: "boot parse bytes = Inr s"
    using assms(1,3) s1(1) s2(1) s(1) by (simp add: boot_def)
  have regs: "reg s r = (if r = REG_SP then STACK_TOP else 0)" if "r < 32" for r
    using s1(5)[OF that] that s0(2) by (simp add: reg_def s(3) s2(3) register_index)
  have low: "read_memory_byte s b = read_memory_byte s0 b" if "unat b < 2 ^ 28" for b
  proof -
    have "read_memory_byte s1 b = read_memory_byte s0 b" by (simp add: read_memory_byte_def s1(4))
    then show ?thesis using that
      by (simp add: s(5) s2(6) HEAP_START_def HEAP_SIZE_def STACK_TOP_def STACK_INIT_SIZE_def)
  qed
  have zero: "read_memory_byte s b = Inr 0" if
      "unat b - unat HEAP_START < unat HEAP_SIZE \<and> HEAP_START \<le> b
      \<or> STACK_TOP - STACK_INIT_SIZE \<le> b \<and> b < STACK_TOP" for b
    using that by (auto simp: s(5) s2(6) word_le_nat_alt word_less_nat_alt HEAP_START_def HEAP_SIZE_def
        STACK_TOP_def STACK_INIT_SIZE_def)
  show ?thesis
    using run s(2) s0(3) regs image low zero by (simp add: s(4) s2(4) s1(3) reg_numbers)
qed

text \<open>
  The machine at the start of a run.  A validated image whose segments hold no more bytes than they
  declare boots whenever the stack and the heap fit beside it: the machine satisfies the invariant,
  stands at the entry point with \<open>sp\<close> at the top of the stack and the other registers zero, every byte
  of every segment is in place, and the whole heap and the whole initial stack read as zero.
\<close>

lemma boot_prepares_machine:
  assumes "validate_elf parse bytes = Inr m"
    and "\<forall>seg \<in> set (elf_segments m). length (seg_data seg) \<le> unat (seg_memsz seg)"
    and "load_elf new_vm m = Inr s0" and "mm_total (vm_memory s0) + BOOT_ROOM \<le> MAX_ZKVM_MEMORY"
  shows "\<exists>s. boot parse bytes = Inr s \<and> vm_ok s \<and> vm_pc s = elf_entry m \<and> reg s REG_SP = STACK_TOP
    \<and> (\<forall>r < 32. r \<noteq> REG_SP \<longrightarrow> reg s r = 0)
    \<and> (\<forall>seg \<in> set (elf_segments m). \<forall>i < length (seg_data seg).
         read_memory_byte s (seg_vaddr seg + of_nat i) = Inr (seg_data seg ! i))
    \<and> (\<forall>b. unat b - unat HEAP_START < unat HEAP_SIZE \<and> HEAP_START \<le> b
           \<or> STACK_TOP - STACK_INIT_SIZE \<le> b \<and> b < STACK_TOP \<longrightarrow> read_memory_byte s b = Inr 0)"
  by (rule boot_state[OF assms])

section \<open>A run\<close>

text \<open>The sample program \<open>ADDI a7, x0, 2; ECALL\<close> commits the empty output.\<close>

lemma stores_pages:
  "mem_ok m \<Longrightarrow> mem.stores m avs = Inr m' \<Longrightarrow>
     dom (mm_pages m') = dom (mm_pages m) \<union> page_base ` fst ` set avs \<and> mem_ok m'"
proof (induction avs arbitrary: m)
  case Nil
  then show ?case by (simp add: mem.stores_def)
next
  case (Cons x avs)
  obtain a v where x: "x = (a, v)" by (cases x)
  from Cons.prems(2) obtain m1 where "write_byte m a v = Inr m1" "mem.stores m1 avs = Inr m'"
    by (auto simp: x mem.stores_def outcome_simps)
  with write_byte_Inr[OF Cons.prems(1)] Cons.IH[of m1] show ?case by (auto simp: x)
qed

lemma sample_image_data:
  "\<forall>seg \<in> set (elf_segments sample_image). length (seg_data seg) \<le> unat (seg_memsz seg)"
  by (simp add: sample_image_def sample_code_def Let_def)

lemma sample_load: "\<exists>s0. load_elf new_vm sample_image = Inr s0 \<and> mm_total (vm_memory s0) = 4096"
proof -
  obtain s0 where s0: "load_elf new_vm sample_image = Inr s0"
    using validated_image_loads[OF sample_image_valid sample_image_data] by blast
  from load_elf_stores[OF s0] have st: "mem.stores (vm_memory new_vm)
      (concat (map segment_cells (elf_segments sample_image))) = Inr (vm_memory s0)" by blast
  note d = stores_pages[OF new_vm_memory(1) st]
  have "fst ` set (concat (map segment_cells (elf_segments sample_image)))
      = (\<lambda>i. 0x1000 + of_nat i) ` set [0..<8]"
    by (simp add: sample_image_def segment_cells_def sample_code_def Let_def upt_rec)
  moreover have "page_base (0x1000 + of_nat i) = 0x1000" if "i < 8" for i
  proof -
    have "unat (of_nat i :: u32) = i" using that by (simp add: unat_of_nat)
    then have "unat (0x1000 + of_nat i :: u32) = 4096 + i" using that by (simp add: unat_word_ariths)
    then show ?thesis using that by (simp add: word_unat_eq_iff unat_page_base)
  qed
  ultimately have "dom (mm_pages (vm_memory s0)) = {0x1000}"
    using d by (auto simp: new_vm_def new_memory_def image_image image_constant_conv)
  then show ?thesis using d s0 by (simp add: mem_ok_def)
qed

text \<open>The run of the sample: two steps, the second of which is the commit.\<close>

lemma sample_words: "unat (0x1000 :: u32) = 4096" "unat (0x1004 :: u32) = 4100"
  by simp_all

lemma fetch_bytes:
  assumes "vm_pc s = a" and "a mod 4 = 0" and "unat a + 3 < 2 ^ 32"
    and "read_memory_byte s a = Inr b0" and "read_memory_byte s (a + 1) = Inr b1"
    and "read_memory_byte s (a + 2) = Inr b2" and "read_memory_byte s (a + 3) = Inr b3"
  shows "fetch_word s = Inr (le_value [b0, b1, b2, b3])"
  using assms(2-) by (simp add: fetch_word_def read_memory_word_def read_word_raw_def
      next_addr_small assms(1)
      read_memory_byte_def)

lemma sample_run:
  assumes "library_ok L"
  shows "\<exists>res. execute_elf L (\<lambda>_. Some sample_file) sample_code []
      = Inr res \<and> trace_len (er_trace res) = 2
    \<and> er_output res = []"
proof -
  obtain s0 where s0: "load_elf new_vm sample_image = Inr s0" "mm_total (vm_memory s0) = 4096"
    using sample_load by blast
  have room: "mm_total (vm_memory s0) + BOOT_ROOM \<le> MAX_ZKVM_MEMORY"
    by (simp add: s0(2) BOOT_ROOM_def STACK_INIT_SIZE_def HEAP_SIZE_def MAX_ZKVM_MEMORY_def)
  let ?seg = "\<lparr>seg_vaddr = 0x1000, seg_memsz = 8, seg_data = sample_code, seg_flags = 5\<rparr>"
  from boot_state[OF sample_image_valid sample_image_data s0(1) room] obtain s where
    s: "boot (\<lambda>_. Some sample_file) sample_code = Inr s" "vm_ok s" "vm_pc s = 0x1000"
    "\<And>r. r < 32 \<Longrightarrow> r \<noteq> REG_SP \<Longrightarrow> reg s r = 0"
    "\<And>i. i < 8 \<Longrightarrow> read_memory_byte s (0x1000 + of_nat i) = Inr (sample_code ! i)"
    by (auto simp: sample_image_def sample_code_def Let_def)
  obtain r where r: "create_production_registry L = Inr r" using production_registry by blast
  have b: "read_memory_byte s 0x1000 = Inr 0x93" "read_memory_byte s 0x1001 = Inr 0x08"
    "read_memory_byte s 0x1002 = Inr 0x20" "read_memory_byte s 0x1003 = Inr 0x00"
    "read_memory_byte s 0x1004 = Inr 0x73" "read_memory_byte s 0x1005 = Inr 0x00"
    "read_memory_byte s 0x1006 = Inr 0x00" "read_memory_byte s 0x1007 = Inr 0x00"
    using s(5)[of 0] s(5)[of 1] s(5)[of 2] s(5)[of 3] s(5)[of 4] s(5)[of 5] s(5)[of 6] s(5)[of 7]
    by (simp_all add: sample_code_def)
  have w: "le_value [0x93, 0x08, 0x20, 0x00 :: byte] = (0x00200893 :: u32)"
    "le_value [0x73, 0x00, 0x00, 0x00 :: byte] = (0x73 :: u32)" by code_simp+
  have d: "decode 0x00200893 = Inr (OpImm Addi 17 0 2)" "decode 0x73 = Inr Ecall" by code_simp+
  have f1: "fetch_word s = Inr 0x00200893"
    using fetch_bytes[OF s(3), of "0x93" "0x08" "0x20" "0x00"] b w(1) by simp
  from write_register_ok[OF s(2), of 17 2] obtain s1 where
    s1: "write_register s 17 2 = Inr s1" "vm_ok s1" "vm_pc s1 = 0x1000" "vm_memory s1 = vm_memory s"
    "\<And>j. j < 32 \<Longrightarrow> reg s1 j = (if j = 17 then 2 else reg s j)" using s(3) by auto
  define t where "t = s1\<lparr>vm_pc := 0x1004\<rparr>"
  have e1: "\<exists>log. execute s (OpImm Addi 17 0 2) = Inr (log, t)"
    using s1(1) s(3) by (simp add: read_register_def next_step_def finalize_steplog_def t_def)
  have f2: "fetch_word t = Inr 0x73"
    using fetch_bytes[of t "0x1004" "0x73" 0 0 0] b w(2) by (simp add: t_def read_memory_byte_def s1(4))
  define u where "u = t\<lparr>vm_pc := 0x1008\<rparr>"
  have e2: "\<exists>log. execute t Ecall = Inr (log, u)"
    by (simp add: next_step_def finalize_steplog_def u_def t_def)
  have u: "vm_ok u" using s1(2) by (simp add: u_def t_def)
  have ru: "reg u REG_A7 = 2" "reg u REG_A1 = 0"
    using s1(5)[of 17] s1(5)[of 11] s(4)[of 11] by (simp_all add: u_def t_def reg_def reg_numbers)
  have call: "dispatch r 2 ctx u = Inr (ctx\<lparr>sc_output := [], sc_halted := True\<rparr>, u)" for ctx
    by (simp add: dispatch_production[OF r] from_u32_def base_of_def production_calls_def base_calls_def
        exec_commit_output_def read_register_ok[OF u] reg_numbers_less ru read_vm_bytes_def)
  let ?m0 = "initial_machine (lb_fr_zero (lb_hash L)) ((default_config (lb_fr_zero (lb_hash
      L)))\<lparr>ec_input := []\<rparr>) s"
  have i0: "mc_state ?m0 = s" "\<not> sc_halted (mc_ctx ?m0)" "trace_len (mc_trace ?m0) = 0"
    by (simp_all add: initial_machine_def trace_len_def new_trace_def set_initial_registers_def
        with_host_state_def with_randomness_def new_context_def)
  from e1 obtain m1 where m1: "run_step (dispatch r) ?m0 = Inr m1" "mc_state m1 = t"
      "\<not> sc_halted (mc_ctx m1)"
    using i0 by (auto simp: run_step_def f1 d Let_def)
  have l1: "trace_len (mc_trace m1) = 1" using run_step_len[OF m1(1)] i0(3) by simp
  from e2 obtain m2 where m2: "run_step (dispatch r) m1 = Inr m2" "sc_halted (mc_ctx m2)"
      "sc_output (mc_ctx m2) = []"
    by (auto simp: run_step_def m1(2) f2 d dispatch_ecall_def read_register_ok[OF u]
        reg_numbers_less ru call Let_def)
  have l2: "trace_len (mc_trace m2) = 2" using run_step_len[OF m2(1)] l1 by simp
  have "execute_loop (dispatch r) MAX_ZKVM_TRACE_STEPS MAX_TRACE_HOST_MEMORY ?m0 = Inr m2"
  proof (rule steps_loop)
    show "(machine_step (dispatch r))\<^sup>*\<^sup>* ?m0 m2"
      using m1 m2 i0(2) by (meson converse_rtranclp_into_rtranclp machine_step_run
          rtranclp.rtrancl_refl)
    have "{0..<2::nat} = {0, 1}" by auto
    then show "checkpoints_pass MAX_TRACE_HOST_MEMORY (trace_len (mc_trace ?m0)) (mc_trace m2)"
      by (simp add: checkpoints_pass_def l2 i0(3) MEM_CHECK_INTERVAL_def)
  qed (simp_all add: m2 l2 MAX_ZKVM_TRACE_STEPS_def)
  then show ?thesis
    using s(1) r l2 m2(3) by (simp add: execute_elf_def execute_elf_with_limits_and_config_def
        result_of_def)
qed

theorem execute_elf_total_witness:
  "\<exists>res. execute_elf toy_library (\<lambda>_. Some sample_file) sample_code [] = Inr res
     \<and> trace_len (er_trace res) = 2 \<and> run_trace_ok (er_trace res) \<and> committed (er_trace res)"
proof -
  obtain res where res: "execute_elf toy_library (\<lambda>_. Some sample_file) sample_code [] = Inr res"
    "trace_len (er_trace res) = 2" using sample_run[OF toy_library_ok] by blast
  have "\<forall>slot. ec_host_state ((default_config 0)\<lparr>ec_input := []\<rparr> :: nat execution_config) slot \<noteq> Inl
      Panic"
    by (simp add: default_config_def stub_read_slot_def)
  moreover have "MAX_ZKVM_TRACE_STEPS \<le> U64_MAX" by (simp add: MAX_ZKVM_TRACE_STEPS_def u64_limit_def)
  ultimately show ?thesis
    using execute_elf_total[OF toy_library_ok, of
        "(default_config 0)\<lparr>ec_input := []\<rparr>" MAX_ZKVM_TRACE_STEPS
        "\<lambda>_. Some sample_file" sample_code MAX_TRACE_HOST_MEMORY] res
    by (auto simp: execute_elf_def toy_library_def)
qed

text \<open>
  Progress.  A machine that satisfies the invariant and has not halted makes exactly one next step,
  and the machine after it satisfies the invariant again, unless the step is an error: it never gets stuck.
\<close>

lemma machine_progress:
  assumes "library_ok L" and "create_production_registry L = Inr r" and "machine_ok m"
    and "\<not> sc_halted (mc_ctx m)" and "trace_len (mc_trace m) < U64_MAX"
  shows "(\<exists>m'. machine_step (dispatch r) m = (\<lambda>x. x = m') \<and> machine_ok m')
    \<or> (\<exists>e. run_step (dispatch r) m = Inl (Fail e))"
proof -
  have "production_dispatch (dispatch r)" using assms(1,2) by (auto simp: production_dispatch_def)
  from production.step_safe[OF this assms(3-5)] show ?thesis
    using assms(4) by (auto simp: safe_def fun_eq_iff machine_step_run split: sum.splits fault.splits)
qed

end
