(* ===== verification/Borsh.thy ===== *)
theory Borsh
  imports ObjectId
begin

text \<open>
  The Borsh encoding of the data the chain stores, as far as the state objects need it: unsigned
  integers in little-endian bytes, booleans and tags in one byte, sequences behind a 32-bit
  length.  A reader takes a prefix of the bytes; \<open>reads r x bs\<close> says that \<open>bs\<close> is an encoding of
  \<open>x\<close> that the reader takes back.
\<close>

type_synonym 'a reader = "byte list \<Rightarrow> ('a \<times> byte list) option"

definition read_return :: "'a \<Rightarrow> 'a reader" where
  "read_return x = (\<lambda>bs. Some (x, bs))"

definition read_bind :: "'a reader \<Rightarrow> ('a \<Rightarrow> 'b reader) \<Rightarrow> 'b reader" where
  "read_bind r k = (\<lambda>bs. case r bs of None \<Rightarrow> None | Some (x, rest) \<Rightarrow> k x rest)"

definition read_bytes :: "nat \<Rightarrow> byte list reader" where
  "read_bytes n bs = (if length bs < n then None else Some (take n bs, drop n bs))"

definition read_u8 :: "nat reader" where
  "read_u8 = read_bind (read_bytes 1) (\<lambda>bs. read_return (unat (hd bs)))"

definition read_u32 :: "nat reader" where
  "read_u32 = read_bind (read_bytes 4) (\<lambda>bs. read_return (unat (le_value bs :: 32 word)))"

definition read_u64 :: "nat reader" where
  "read_u64 = read_bind (read_bytes 8) (\<lambda>bs. read_return (unat (le_value bs :: 64 word)))"

definition read_bool :: "bool reader" where
  "read_bool = read_bind read_u8 (\<lambda>b bs. if b = 0 then Some (False, bs) else if b = 1 then Some (True, bs) else None)"

primrec read_times :: "nat \<Rightarrow> 'a reader \<Rightarrow> 'a list reader" where
  "read_times 0 r = read_return []"
| "read_times (Suc n) r = read_bind r (\<lambda>x. read_bind (read_times n r) (\<lambda>xs. read_return (x # xs)))"

definition read_vec :: "'a reader \<Rightarrow> 'a list reader" where
  "read_vec r = read_bind read_u32 (\<lambda>n. read_times n r)"

definition read_blob :: "byte list reader" where
  "read_blob = read_bind read_u32 read_bytes"

text \<open>\<open>borsh::from_slice\<close>: the whole input must be read.\<close>

definition from_slice :: "'a reader \<Rightarrow> byte list \<Rightarrow> 'a option" where
  "from_slice r bs = (case r bs of Some (x, []) \<Rightarrow> Some x | _ \<Rightarrow> None)"

definition u8_enc :: "nat \<Rightarrow> byte list" where
  "u8_enc n = [of_nat n]"

definition bool_enc :: "bool \<Rightarrow> byte list" where
  "bool_enc b = [if b then 1 else 0]"

definition vec_enc :: "('a \<Rightarrow> byte list) \<Rightarrow> 'a list \<Rightarrow> byte list" where
  "vec_enc f xs = u32_le (length xs) @ concat (map f xs)"

definition blob_enc :: "byte list \<Rightarrow> byte list" where
  "blob_enc bs = u32_le (length bs) @ bs"

section \<open>Round trips\<close>

definition reads :: "'a reader \<Rightarrow> 'a \<Rightarrow> byte list \<Rightarrow> bool" where
  "reads r x bs \<longleftrightarrow> (\<forall>rest. r (bs @ rest) = Some (x, rest))"

named_theorems reads_intros \<open>what a reader takes back\<close>

lemma reads_return [reads_intros]: "reads (read_return x) x []"
  by (simp add: reads_def read_return_def)

lemma reads_bind: "reads r x bs \<Longrightarrow> reads (k x) y cs \<Longrightarrow> reads (read_bind r k) y (bs @ cs)"
  by (simp add: reads_def read_bind_def)

lemma reads_bind_return: "reads r x bs \<Longrightarrow> k x = read_return y \<Longrightarrow> reads (read_bind r k) y bs"
  using reads_bind[of r x bs k y "[]"] by (simp add: reads_return)

lemma reads_bytes [reads_intros]: "length bs = n \<Longrightarrow> reads (read_bytes n) bs bs"
  by (simp add: reads_def read_bytes_def)

lemma reads_u8 [reads_intros]: "n < 256 \<Longrightarrow> reads read_u8 n (u8_enc n)"
  unfolding read_u8_def u8_enc_def
  by (rule reads_bind_return[OF reads_bytes]) (simp_all add: unat_of_nat take_bit_nat_eq_self)

lemma reads_u32 [reads_intros]: "n < 2 ^ 32 \<Longrightarrow> reads read_u32 n (u32_le n)"
  unfolding read_u32_def u32_le_def
  by (rule reads_bind_return[OF reads_bytes]) (simp_all add: unat_of_nat take_bit_nat_eq_self le_round_trip)

lemma reads_u64 [reads_intros]: "n < u64_limit \<Longrightarrow> reads read_u64 n (u64_le n)"
  unfolding read_u64_def u64_le_def u64_limit_def
  by (rule reads_bind_return[OF reads_bytes]) (simp_all add: unat_of_nat take_bit_nat_eq_self le_round_trip)

lemma reads_bool [reads_intros]: "reads read_bool b (bool_enc b)"
proof -
  have "reads read_u8 (if b then 1 else 0) (bool_enc b)"
    using reads_u8[of 1] reads_u8[of 0] by (cases b) (simp_all add: bool_enc_def u8_enc_def)
  then show ?thesis unfolding read_bool_def
    by (rule reads_bind_return) (auto simp: read_return_def)
qed

lemma reads_times:
  "(\<And>x. x \<in> set xs \<Longrightarrow> reads r x (f x)) \<Longrightarrow> reads (read_times (length xs) r) xs (concat (map f xs))"
proof (induction xs)
  case (Cons x xs)
  have "reads (read_bind (read_times (length xs) r) (\<lambda>xs. read_return (x # xs))) (x # xs) (concat (map f xs))"
    by (rule reads_bind_return[OF Cons.IH]) (use Cons.prems in simp_all)
  then show ?case using reads_bind[of r x "f x"] Cons.prems by simp
qed (simp add: reads_return)

lemma reads_vec [reads_intros]:
  "length xs < 2 ^ 32 \<Longrightarrow> (\<And>x. x \<in> set xs \<Longrightarrow> reads r x (f x)) \<Longrightarrow> reads (read_vec r) xs (vec_enc f xs)"
  unfolding read_vec_def vec_enc_def by (rule reads_bind, rule reads_u32, assumption, rule reads_times)

lemma reads_blob [reads_intros]: "length bs < 2 ^ 32 \<Longrightarrow> reads read_blob bs (blob_enc bs)"
  unfolding read_blob_def blob_enc_def by (rule reads_bind, rule reads_u32, assumption, rule reads_bytes[OF refl])

lemma from_slice_reads: "reads r x bs \<Longrightarrow> from_slice r bs = Some x"
  unfolding reads_def from_slice_def by (metis append_Nil2 list.simps(4) option.simps(5) prod.simps(2))

lemma length_u64_le [simp]: "length (u64_le n) = 8"
  by (simp add: u64_le_def)

lemma length_u32_le [simp]: "length (u32_le n) = 4"
  by (simp add: u32_le_def)

end
