(* ===== verification/Objects.thy ===== *)
theory Objects
  imports TableSeat Borsh
begin

text \<open>
  The objects of the chain, \<^verbatim>\<open>object_model/object.rs\<close> and \<^verbatim>\<open>object_model/ownership.rs\<close>: an identity, a
  version, an owner, a type tag and typed bytes.
\<close>

datatype ownership =
    AddressOwned address
  | Shared
  | Immutable
  | ChannelOwner address

definition owner_can_write :: "ownership \<Rightarrow> address \<Rightarrow> bool" where
  "owner_can_write ow actor =
     (case ow of AddressOwned a \<Rightarrow> a = actor | Shared \<Rightarrow> True | Immutable \<Rightarrow> False | ChannelOwner _ \<Rightarrow> False)"

definition is_transferable :: "ownership \<Rightarrow> bool" where
  "is_transferable ow = (case ow of AddressOwned _ \<Rightarrow> True | _ \<Rightarrow> False)"

definition is_immutable :: "ownership \<Rightarrow> bool" where
  "is_immutable ow \<longleftrightarrow> ow = Immutable"

record obj =
  ob_id :: obj_id
  ob_version :: nat
  ob_owner :: ownership
  ob_type :: string
  ob_data :: "byte list"
  ob_assigned_validator :: "address option"

definition object_new ::
  "obj_id \<Rightarrow> ownership \<Rightarrow> string \<Rightarrow> byte list \<Rightarrow> address option \<Rightarrow> obj" where
  "object_new i ow ty dat assigned =
     \<lparr>ob_id = i, ob_version = 0, ob_owner = ow, ob_type = ty, ob_data = dat, ob_assigned_validator = assigned\<rparr>"

definition bump_version :: "obj \<Rightarrow> obj" where
  "bump_version ob = ob\<lparr>ob_version := saturating_add_u64 (ob_version ob) 1\<rparr>"

definition can_write :: "obj \<Rightarrow> address \<Rightarrow> bool" where
  "can_write ob actor = (if is_immutable (ob_owner ob) then False else owner_can_write (ob_owner ob) actor)"

text \<open>The bytes of an object, the value of its leaf in the state tree.\<close>

fun ownership_enc :: "ownership \<Rightarrow> byte list" where
  "ownership_enc (AddressOwned a) = u8_enc 0 @ a"
| "ownership_enc Shared = u8_enc 1"
| "ownership_enc Immutable = u8_enc 2"
| "ownership_enc (ChannelOwner a) = u8_enc 3 @ a"

definition option_enc :: "byte list option \<Rightarrow> byte list" where
  "option_enc x = (case x of None \<Rightarrow> u8_enc 0 | Some bs \<Rightarrow> u8_enc 1 @ bs)"

definition object_enc :: "obj \<Rightarrow> byte list" where
  "object_enc ob = creator_address (ob_id ob) @ u64_le (creation_nonce (ob_id ob)) @ u64_le (ob_version ob) @
     ownership_enc (ob_owner ob) @ blob_enc (map of_char (ob_type ob)) @ blob_enc (ob_data ob) @
     option_enc (ob_assigned_validator ob)"

definition content_hash :: "hash_fn \<Rightarrow> obj \<Rightarrow> byte list" where
  "content_hash B ob = B (object_enc ob)"

lemma can_write_iff: "can_write ob actor \<longleftrightarrow> ob_owner ob = AddressOwned actor \<or> ob_owner ob = Shared"
  by (auto simp: can_write_def owner_can_write_def is_immutable_def split: ownership.splits)

end
