(* ===== verification/ValidatorSet.thy ===== *)
theory ValidatorSet
  imports Objects
begin

text \<open>
  The validator set, \<^verbatim>\<open>consensus/validator_set.rs\<close>: the entries with their stake and status, the
  hash that commits to them, the transitions of a validator's life, and the Borsh bytes under
  which the set is stored.  The verification of an epoch's randomness proof is an argument.
\<close>

section \<open>Data\<close>

datatype tagged_pubkey = TaggedPubkey (pk_tag: byte) (pk_raw: "byte list")

definition pk_to_bytes :: "tagged_pubkey \<Rightarrow> byte list" where
  "pk_to_bytes pk = pk_tag pk # pk_raw pk"

lemma pk_to_bytes_inj [simp]: "pk_to_bytes a = pk_to_bytes b \<longleftrightarrow> a = b"
  by (cases a; cases b) (simp add: pk_to_bytes_def)

datatype validator_status = Active | Bonding | Unbonding | Slashed | Retired

record validator_entry =
  ve_pubkey :: tagged_pubkey
  ve_vrf_pubkey :: "byte list"
  ve_stake :: nat
  ve_status :: validator_status
  ve_bonding_until_height :: nat
  ve_unbonding_until_height :: nat
  ve_last_vertex_height :: nat
  ve_under_investigation_count :: nat
  ve_vrf_key_destroyed :: bool
  ve_vrf_retired :: bool

definition validator_entry_new :: "tagged_pubkey \<Rightarrow> byte list \<Rightarrow> nat \<Rightarrow> nat \<Rightarrow> validator_entry" where
  "validator_entry_new pubkey vrf_pubkey stake bonding_until_height =
     \<lparr>ve_pubkey = pubkey, ve_vrf_pubkey = vrf_pubkey, ve_stake = stake, ve_status = Bonding,
      ve_bonding_until_height = bonding_until_height, ve_unbonding_until_height = 0,
      ve_last_vertex_height = 0, ve_under_investigation_count = 0,
      ve_vrf_key_destroyed = False, ve_vrf_retired = False\<rparr>"

definition can_participate_consensus :: "validator_entry \<Rightarrow> bool" where
  "can_participate_consensus v \<longleftrightarrow> ve_status v = Active \<and> \<not> ve_vrf_retired v"

definition can_be_slashed :: "validator_entry \<Rightarrow> bool" where
  "can_be_slashed v \<longleftrightarrow> ve_status v \<in> {Active, Bonding, Unbonding}"

record validator_set =
  vs_epoch :: nat
  vs_validators :: "validator_entry list"
  vs_hash :: "byte list"
  vs_epoch_randomness :: "byte list"
  vs_prev_epoch_randomness :: "byte list"
  vs_genesis_chain_randomness :: "byte list"

definition MIN_VALIDATOR_SET_SIZE :: nat where "MIN_VALIDATOR_SET_SIZE = 5"

definition MAX_SINGLE_REDUCTION_RATIO :: nat where "MAX_SINGLE_REDUCTION_RATIO = 20"

section \<open>Bytes\<close>

definition pubkey_enc :: "tagged_pubkey \<Rightarrow> byte list" where
  "pubkey_enc pk = [pk_tag pk] @ blob_enc (pk_raw pk)"

definition read_pubkey :: "tagged_pubkey reader" where
  "read_pubkey = read_bind (read_bytes 1) (\<lambda>tag. read_bind read_blob (\<lambda>raw. read_return (TaggedPubkey (hd tag) raw)))"

fun status_tag :: "validator_status \<Rightarrow> nat" where
  "status_tag Active = 0"
| "status_tag Bonding = 1"
| "status_tag Unbonding = 2"
| "status_tag Slashed = 3"
| "status_tag Retired = 4"

definition read_status :: "validator_status reader" where
  "read_status = read_bind read_u8 (\<lambda>t bs.
     if t < 5 then Some ([Active, Bonding, Unbonding, Slashed, Retired] ! t, bs) else None)"

definition entry_enc :: "validator_entry \<Rightarrow> byte list" where
  "entry_enc v = pubkey_enc (ve_pubkey v) @ ve_vrf_pubkey v @ u64_le (ve_stake v) @
     u8_enc (status_tag (ve_status v)) @ u64_le (ve_bonding_until_height v) @
     u64_le (ve_unbonding_until_height v) @ u64_le (ve_last_vertex_height v) @
     u32_le (ve_under_investigation_count v) @ bool_enc (ve_vrf_key_destroyed v) @
     bool_enc (ve_vrf_retired v)"

definition read_entry :: "validator_entry reader" where
  "read_entry =
     read_bind read_pubkey (\<lambda>pk. read_bind (read_bytes 33) (\<lambda>vrf. read_bind read_u64 (\<lambda>stake.
     read_bind read_status (\<lambda>status. read_bind read_u64 (\<lambda>b. read_bind read_u64 (\<lambda>u.
     read_bind read_u64 (\<lambda>l. read_bind read_u32 (\<lambda>c. read_bind read_bool (\<lambda>d.
     read_bind read_bool (\<lambda>r. read_return
       \<lparr>ve_pubkey = pk, ve_vrf_pubkey = vrf, ve_stake = stake, ve_status = status,
        ve_bonding_until_height = b, ve_unbonding_until_height = u, ve_last_vertex_height = l,
        ve_under_investigation_count = c, ve_vrf_key_destroyed = d, ve_vrf_retired = r\<rparr>))))))))))"

text \<open>\<open>PersistedValidatorSet\<close>: the chain id and the set.\<close>

definition persisted_enc :: "nat \<Rightarrow> validator_set \<Rightarrow> byte list" where
  "persisted_enc chain_id s = u64_le chain_id @ u64_le (vs_epoch s) @ vec_enc entry_enc (vs_validators s) @
     vs_hash s @ vs_epoch_randomness s @ vs_prev_epoch_randomness s @ vs_genesis_chain_randomness s"

definition read_persisted :: "(nat \<times> validator_set) reader" where
  "read_persisted =
     read_bind read_u64 (\<lambda>chain_id. read_bind read_u64 (\<lambda>e. read_bind (read_vec read_entry) (\<lambda>vs.
     read_bind (read_bytes 32) (\<lambda>h. read_bind (read_bytes 32) (\<lambda>er. read_bind (read_bytes 32) (\<lambda>pr.
     read_bind (read_bytes 32) (\<lambda>gr. read_return (chain_id,
       \<lparr>vs_epoch = e, vs_validators = vs, vs_hash = h, vs_epoch_randomness = er,
        vs_prev_epoch_randomness = pr, vs_genesis_chain_randomness = gr\<rparr>))))))))"

section \<open>Operations\<close>

definition compute_hash :: "hash_fn \<Rightarrow> validator_set \<Rightarrow> byte list" where
  "compute_hash B s = B (map of_char ''ZCHAIN_VALIDATOR_SET_V2'' @ u64_le (vs_epoch s) @
     vec_enc entry_enc (vs_validators s) @ vs_epoch_randomness s @ vs_prev_epoch_randomness s @
     vs_genesis_chain_randomness s)"

definition rehash :: "hash_fn \<Rightarrow> validator_set \<Rightarrow> validator_set" where
  "rehash B s = s\<lparr>vs_hash := compute_hash B s\<rparr>"

definition validate_persisted :: "hash_fn \<Rightarrow> validator_set \<Rightarrow> (l1_error, unit) outcome" where
  "validate_persisted B s =
     (if vs_hash s \<noteq> compute_hash B s
      then other_fail ''persisted ValidatorSet hash does not match its contents''
      else if distinct (map (pk_to_bytes \<circ> ve_pubkey) (vs_validators s)) then Inr ()
      else other_fail ''persisted ValidatorSet contains duplicate pubkey'')"

definition active_count :: "validator_set \<Rightarrow> nat" where
  "active_count s = length (filter can_participate_consensus (vs_validators s))"

definition find_validator :: "validator_set \<Rightarrow> tagged_pubkey \<Rightarrow> validator_entry option" where
  "find_validator s pk = List.find (\<lambda>v. ve_pubkey v = pk) (vs_validators s)"

text \<open>Writing through \<open>find_validator_mut\<close>: the first entry with the key.\<close>

fun modify_first :: "('a \<Rightarrow> bool) \<Rightarrow> ('a \<Rightarrow> 'a) \<Rightarrow> 'a list \<Rightarrow> 'a list" where
  "modify_first P f [] = []"
| "modify_first P f (x # xs) = (if P x then f x # xs else x # modify_first P f xs)"

definition modify_validator ::
  "validator_set \<Rightarrow> tagged_pubkey \<Rightarrow> (validator_entry \<Rightarrow> validator_entry) \<Rightarrow> validator_set" where
  "modify_validator s pk f = s\<lparr>vs_validators := modify_first (\<lambda>v. ve_pubkey v = pk) f (vs_validators s)\<rparr>"

definition find_validator_mut :: "validator_set \<Rightarrow> tagged_pubkey \<Rightarrow> (l1_error, validator_entry) outcome" where
  "find_validator_mut s pk = ok_or (ValidatorNotInSet (pk_to_bytes pk)) (find_validator s pk)"

definition validate_size_for_offchain :: "validator_set \<Rightarrow> (l1_error, unit) outcome" where
  "validate_size_for_offchain s =
     (if length (vs_validators s) < MIN_VALIDATOR_SET_SIZE
      then Inl (Fail (ValidatorSetTooSmallForOffChain (length (vs_validators s)))) else Inr ())"

text \<open>The product is computed in 32 bits and panics when it leaves them.\<close>

definition validate_reduction_ratio :: "validator_set \<Rightarrow> nat \<Rightarrow> (l1_error, unit) outcome" where
  "validate_reduction_ratio s removed_count =
     (if vs_validators s = [] then Inr ()
      else
        let prev_size = length (vs_validators s) mod 2 ^ 32;
            product = removed_count mod 2 ^ 32 * 100
        in if product \<ge> 2 ^ 32 \<or> prev_size = 0 then Inl Panic
           else if product div prev_size > MAX_SINGLE_REDUCTION_RATIO
           then other_fail ''SEC-M2: single reduction ratio exceeds the maximum''
           else Inr ())"

definition advance_epoch :: "hash_fn \<Rightarrow> validator_set \<Rightarrow> nat \<Rightarrow> validator_set" where
  "advance_epoch B s new_epoch =
     rehash B (s\<lparr>vs_prev_epoch_randomness := vs_epoch_randomness s, vs_epoch := new_epoch,
       vs_validators := map (\<lambda>v. if ve_under_investigation_count v > 0
          then v\<lparr>ve_under_investigation_count := ve_under_investigation_count v - 1\<rparr> else v)
          (vs_validators s)\<rparr>)"

definition bonding_expired :: "nat \<Rightarrow> validator_entry \<Rightarrow> bool" where
  "bonding_expired current_height v \<longleftrightarrow> ve_status v = Bonding \<and> current_height \<ge> ve_bonding_until_height v"

definition process_bonding_expiry :: "hash_fn \<Rightarrow> validator_set \<Rightarrow> nat \<Rightarrow> validator_set" where
  "process_bonding_expiry B s current_height =
     (let s' = s\<lparr>vs_validators := map (\<lambda>v. if bonding_expired current_height v then v\<lparr>ve_status := Active\<rparr> else v)
                   (vs_validators s)\<rparr>
      in if \<exists>v \<in> set (vs_validators s). bonding_expired current_height v then rehash B s' else s')"

definition start_unbonding ::
  "hash_fn \<Rightarrow> validator_set \<Rightarrow> tagged_pubkey \<Rightarrow> nat \<Rightarrow> (l1_error, validator_set) outcome" where
  "start_unbonding B s pk unbonding_until_height =
     rbind (find_validator_mut s pk) (\<lambda>v.
     if ve_status v \<noteq> Active then other_fail ''validator not active, cannot start unbonding''
     else Inr (rehash B (modify_validator s pk
            (\<lambda>v. v\<lparr>ve_status := Unbonding, ve_unbonding_until_height := unbonding_until_height\<rparr>))))"

definition finalize_unbonding ::
  "hash_fn \<Rightarrow> validator_set \<Rightarrow> tagged_pubkey \<Rightarrow> nat \<Rightarrow> (l1_error, validator_set) outcome" where
  "finalize_unbonding B s pk current_height =
     rbind (find_validator_mut s pk) (\<lambda>v.
     if ve_status v \<noteq> Unbonding then Inl (Fail (ValidatorInUnbonding (pk_to_bytes pk)))
     else if current_height < ve_unbonding_until_height v then other_fail ''unbonding period not elapsed''
     else if \<not> ve_vrf_key_destroyed v then other_fail ''SEC2-M10: VRF key not destroyed, unbonding extended''
     else Inr (rehash B (modify_validator s pk (\<lambda>v. v\<lparr>ve_status := Retired, ve_vrf_retired := True\<rparr>))))"

definition record_vertex_production ::
  "hash_fn \<Rightarrow> validator_set \<Rightarrow> tagged_pubkey \<Rightarrow> nat \<Rightarrow> (l1_error, validator_set) outcome" where
  "record_vertex_production B s pk height =
     rbind (find_validator_mut s pk) (\<lambda>v.
     if \<not> can_participate_consensus v then other_fail ''validator cannot participate consensus''
     else Inr (rehash B (modify_validator s pk (\<lambda>v. v\<lparr>ve_last_vertex_height := height\<rparr>))))"

definition mark_vrf_key_destroyed ::
  "hash_fn \<Rightarrow> validator_set \<Rightarrow> tagged_pubkey \<Rightarrow> (l1_error, validator_set) outcome" where
  "mark_vrf_key_destroyed B s pk =
     rbind (find_validator_mut s pk) (\<lambda>_.
     Inr (rehash B (modify_validator s pk (\<lambda>v. v\<lparr>ve_vrf_key_destroyed := True\<rparr>))))"

section \<open>Randomness and assignment\<close>

definition VRF_INPUT_DOMAIN :: byte where "VRF_INPUT_DOMAIN = 0x56"

definition compute_vrf_input :: "hash_fn \<Rightarrow> nat \<Rightarrow> nat \<Rightarrow> byte list \<Rightarrow> byte list" where
  "compute_vrf_input B chain_id epoch prev_epoch_randomness =
     B (VRF_INPUT_DOMAIN # u64_le chain_id @ u64_le epoch @ prev_epoch_randomness)"

text \<open>The verifier of the proof, a trait object of the source: key, input and proof to the output.\<close>

type_synonym vrf_verifier = "byte list \<Rightarrow> byte list \<Rightarrow> byte list \<Rightarrow> (l1_error, byte list) outcome"

definition submit_epoch_vrf_proof ::
  "hash_fn \<Rightarrow> vrf_verifier \<Rightarrow> validator_set \<Rightarrow> nat \<Rightarrow> tagged_pubkey \<Rightarrow> byte list \<Rightarrow> (l1_error, validator_set) outcome" where
  "submit_epoch_vrf_proof B verifier s chain_id proposer_pubkey proof =
     rbind (find_validator_mut s proposer_pubkey) (\<lambda>proposer.
     if \<not> can_participate_consensus proposer then other_fail ''VRF proposer not active''
     else
       rbind (verifier (ve_vrf_pubkey proposer)
                (compute_vrf_input B chain_id (vs_epoch s) (vs_prev_epoch_randomness s)) proof) (\<lambda>output.
       Inr (rehash B (s\<lparr>vs_epoch_randomness := output\<rparr>))))"

definition fallback_epoch_randomness :: "hash_fn \<Rightarrow> validator_set \<Rightarrow> validator_set" where
  "fallback_epoch_randomness B s =
     rehash B (s\<lparr>vs_epoch_randomness := B (vs_prev_epoch_randomness s @ vs_genesis_chain_randomness s)\<rparr>)"

definition assigned_validator_for_game ::
  "hash_fn \<Rightarrow> validator_set \<Rightarrow> obj_id \<Rightarrow> (l1_error, tagged_pubkey) outcome" where
  "assigned_validator_for_game B s game_id =
     (let active = filter can_participate_consensus (vs_validators s)
      in if active = [] then Inl (Fail (ValidatorSetTooSmallForOffChain 0))
         else
           let h = B (id_to_bytes game_id @ u64_le (vs_epoch s) @ vs_epoch_randomness s);
               i = unat (le_value (take 8 h) :: 64 word) mod length active
           in rbind (idx active i) (\<lambda>v. Inr (ve_pubkey v)))"

definition compute_genesis_chain_randomness :: "hash_fn \<Rightarrow> validator_entry list \<Rightarrow> byte list" where
  "compute_genesis_chain_randomness B vs = B (concat (map (\<lambda>v. pk_to_bytes (ve_pubkey v) @ ve_vrf_pubkey v) vs))"

section \<open>The stored set\<close>

definition VALIDATOR_SET_OBJECT_TYPE :: string where
  "VALIDATOR_SET_OBJECT_TYPE = ''0x2::consensus::ValidatorSet''"

definition VALIDATOR_SET_OBJECT_ID :: obj_id where
  "VALIDATOR_SET_OBJECT_ID = ObjectID (replicate 20 0) (U64_MAX - 1)"

definition is_validator_set_object :: "obj \<Rightarrow> bool" where
  "is_validator_set_object ob \<longleftrightarrow> ob_id ob = VALIDATOR_SET_OBJECT_ID \<or> ob_type ob = VALIDATOR_SET_OBJECT_TYPE"

definition validator_set_object :: "hash_fn \<Rightarrow> nat \<Rightarrow> validator_set \<Rightarrow> nat \<Rightarrow> (l1_error, obj) outcome" where
  "validator_set_object B chain_id s version =
     rbind (validate_persisted B s) (\<lambda>_.
     Inr ((object_new VALIDATOR_SET_OBJECT_ID Immutable VALIDATOR_SET_OBJECT_TYPE (persisted_enc chain_id s) None)
            \<lparr>ob_version := version\<rparr>))"

definition validate_validator_set_object :: "hash_fn \<Rightarrow> obj \<Rightarrow> (l1_error, nat \<times> validator_set) outcome" where
  "validate_validator_set_object B ob =
     (if ob_id ob \<noteq> VALIDATOR_SET_OBJECT_ID \<or> ob_type ob \<noteq> VALIDATOR_SET_OBJECT_TYPE \<or> ob_owner ob \<noteq> Immutable
      then other_fail ''invalid ValidatorSet singleton identity, type or ownership''
      else
        rbind (ok_or (Serialization ''decode ValidatorSet'') (from_slice read_persisted (ob_data ob))) (\<lambda>(chain_id, s).
        rbind (validate_persisted B s) (\<lambda>_. Inr (chain_id, s))))"

definition decode_validator_set_object :: "hash_fn \<Rightarrow> obj \<Rightarrow> nat \<Rightarrow> (l1_error, validator_set) outcome" where
  "decode_validator_set_object B ob expected_chain_id =
     rbind (validate_validator_set_object B ob) (\<lambda>(chain_id, s).
     if chain_id \<noteq> expected_chain_id
     then other_fail ''persisted ValidatorSet chain_id does not match configured chain_id''
     else Inr s)"

section \<open>Round trip\<close>

text \<open>What the Rust types guarantee of an entry and a set.\<close>

definition entry_wf :: "validator_entry \<Rightarrow> bool" where
  "entry_wf v \<longleftrightarrow> length (pk_raw (ve_pubkey v)) < 2 ^ 32 \<and> length (ve_vrf_pubkey v) = 33 \<and>
     ve_stake v < u64_limit \<and> ve_bonding_until_height v < u64_limit \<and>
     ve_unbonding_until_height v < u64_limit \<and> ve_last_vertex_height v < u64_limit \<and>
     ve_under_investigation_count v < 2 ^ 32"

definition set_wf :: "validator_set \<Rightarrow> bool" where
  "set_wf s \<longleftrightarrow> vs_epoch s < u64_limit \<and> length (vs_validators s) < 2 ^ 32 \<and>
     (\<forall>v \<in> set (vs_validators s). entry_wf v) \<and> length (vs_hash s) = 32 \<and>
     length (vs_epoch_randomness s) = 32 \<and> length (vs_prev_epoch_randomness s) = 32 \<and>
     length (vs_genesis_chain_randomness s) = 32"

lemma reads_pubkey: "length (pk_raw pk) < 2 ^ 32 \<Longrightarrow> reads read_pubkey pk (pubkey_enc pk)"
  unfolding read_pubkey_def pubkey_enc_def
  by (rule reads_bind[OF reads_bytes reads_bind_return[OF reads_blob]]) simp_all

lemma reads_status: "reads read_status st (u8_enc (status_tag st))"
  unfolding read_status_def
  by (rule reads_bind_return[OF reads_u8[of "status_tag st"]]; cases st) (simp_all add: read_return_def numeral_eq_Suc)

lemma reads_entry: "entry_wf v \<Longrightarrow> reads read_entry v (entry_enc v)"
  unfolding read_entry_def entry_enc_def entry_wf_def
  by (intro reads_bind[OF reads_pubkey] reads_bind[OF reads_bytes] reads_bind[OF reads_u64]
      reads_bind[OF reads_status] reads_bind[OF reads_u32] reads_bind[OF reads_bool]
      reads_bind_return[OF reads_bool]; (elim conjE)?; assumption?) (cases v, simp)

lemma reads_persisted: "chain_id < u64_limit \<Longrightarrow> set_wf s \<Longrightarrow> reads read_persisted (chain_id, s) (persisted_enc chain_id s)"
  unfolding read_persisted_def persisted_enc_def set_wf_def
  by (intro reads_bind[OF reads_u64] reads_bind[OF reads_vec[OF _ reads_entry]]
      reads_bind[OF reads_bytes] reads_bind_return[OF reads_bytes]; (elim conjE)?; (assumption | blast)?) (cases s, simp)

lemma stored_set_round_trip:
  assumes "chain_id < u64_limit" "set_wf s" "validator_set_object B chain_id s version = Inr ob"
  shows "decode_validator_set_object B ob chain_id = Inr s"
  using assms(3) from_slice_reads[OF reads_persisted[OF assms(1,2)]]
  by (auto simp: validator_set_object_def decode_validator_set_object_def validate_validator_set_object_def
      object_new_def outcome_simps)

end
