(* ===== verification/Slashing.thy ===== *)
theory Slashing
  imports ValidatorSet
begin

text \<open>
  Slashing, \<^verbatim>\<open>consensus/slashing.rs\<close>: the amounts and their order, downtime, investigations, and the
  evidence of equivocation with the vertices and commit certificates of \<^verbatim>\<open>consensus/mod.rs\<close> that it
  carries.  Signature verification is an argument.
\<close>

section \<open>Reasons and configuration\<close>

datatype slashing_reason = VertexEquivocation | CommitCertEquivocation | RefuseCheckpoint | Downtime | RefuseAck

fun slash_priority :: "slashing_reason \<Rightarrow> nat" where
  "slash_priority VertexEquivocation = 1"
| "slash_priority CommitCertEquivocation = 2"
| "slash_priority RefuseCheckpoint = 3"
| "slash_priority Downtime = 4"
| "slash_priority RefuseAck = 5"

definition DEFAULT_SLASH_PERCENTAGE :: nat where "DEFAULT_SLASH_PERCENTAGE = 100"
definition DEFAULT_DOWNTIME_THRESHOLD_BLOCKS :: nat where "DEFAULT_DOWNTIME_THRESHOLD_BLOCKS = 100"
definition DEFAULT_DOWNTIME_SLASH_PERCENTAGE :: nat where "DEFAULT_DOWNTIME_SLASH_PERCENTAGE = 10"
definition DEFAULT_DEFENSE_WINDOW_BLOCKS :: nat where "DEFAULT_DEFENSE_WINDOW_BLOCKS = 50"

definition default_slash_percentage :: "slashing_reason \<Rightarrow> nat" where
  "default_slash_percentage r = (if r = Downtime then DEFAULT_DOWNTIME_SLASH_PERCENTAGE else DEFAULT_SLASH_PERCENTAGE)"

record slashing_config =
  slash_percentage :: nat
  downtime_threshold_blocks :: nat
  downtime_slash_percentage :: nat
  defense_window_blocks :: nat
  epoch_length_blocks :: nat

definition default_slashing_config :: slashing_config where
  "default_slashing_config =
     \<lparr>slash_percentage = DEFAULT_SLASH_PERCENTAGE, downtime_threshold_blocks = DEFAULT_DOWNTIME_THRESHOLD_BLOCKS,
      downtime_slash_percentage = DEFAULT_DOWNTIME_SLASH_PERCENTAGE,
      defense_window_blocks = DEFAULT_DEFENSE_WINDOW_BLOCKS, epoch_length_blocks = 1000\<rparr>"

text \<open>The threshold is computed in 64 bits and panics when it leaves them.\<close>

definition auto_slash_threshold :: "slashing_config \<Rightarrow> (l1_error, nat) outcome" where
  "auto_slash_threshold cfg =
     (if 2 * epoch_length_blocks cfg \<ge> u64_limit then Inl Panic
      else add_u64 (downtime_threshold_blocks cfg) (2 * epoch_length_blocks cfg))"

definition saturating_mul_u64 :: "nat \<Rightarrow> nat \<Rightarrow> nat" where
  "saturating_mul_u64 a b = min (a * b) U64_MAX"

definition compute_slash_amount :: "nat \<Rightarrow> nat \<Rightarrow> nat" where
  "compute_slash_amount remaining_stake percentage = saturating_mul_u64 remaining_stake percentage div 100"

definition is_downtime_governance_kickout :: "nat \<Rightarrow> nat \<Rightarrow> slashing_config \<Rightarrow> bool" where
  "is_downtime_governance_kickout last_vertex_height current_height cfg \<longleftrightarrow>
     current_height - last_vertex_height \<ge> downtime_threshold_blocks cfg"

definition is_downtime_auto_slashable :: "nat \<Rightarrow> nat \<Rightarrow> slashing_config \<Rightarrow> (l1_error, bool) outcome" where
  "is_downtime_auto_slashable last_vertex_height current_height cfg =
     rbind (auto_slash_threshold cfg) (\<lambda>threshold. Inr (current_height - last_vertex_height \<ge> threshold))"

definition check_downtime_slashing ::
  "validator_set \<Rightarrow> tagged_pubkey \<Rightarrow> nat \<Rightarrow> slashing_config \<Rightarrow> (l1_error, slashing_reason option) outcome" where
  "check_downtime_slashing s pk current_height cfg =
     rbind (find_validator_mut s pk) (\<lambda>v.
     if \<not> can_be_slashed v then Inr None
     else
       rbind (is_downtime_auto_slashable (ve_last_vertex_height v) current_height cfg) (\<lambda>slashable.
       Inr (if slashable then Some Downtime else None)))"

section \<open>Investigations\<close>

record investigation =
  triggered_at_height :: nat
  defense_deadline :: nat
  defense_submitted :: bool
  defense_valid :: bool
  resolved :: bool

definition investigation_new :: "nat \<Rightarrow> slashing_config \<Rightarrow> (l1_error, investigation) outcome" where
  "investigation_new height cfg =
     rbind (add_u64 height (defense_window_blocks cfg)) (\<lambda>deadline.
     Inr \<lparr>triggered_at_height = height, defense_deadline = deadline, defense_submitted = False,
          defense_valid = False, resolved = False\<rparr>)"

definition is_window_expired :: "investigation \<Rightarrow> nat \<Rightarrow> bool" where
  "is_window_expired iv current_height \<longleftrightarrow> current_height > defense_deadline iv"

definition submit_defense :: "investigation \<Rightarrow> nat \<Rightarrow> (l1_error, investigation) outcome" where
  "submit_defense iv current_height =
     (if resolved iv then other_fail ''investigation already resolved''
      else if current_height > defense_deadline iv then other_fail ''defense window expired''
      else Inr (iv\<lparr>defense_submitted := True\<rparr>))"

definition resolve_investigation ::
  "investigation \<Rightarrow> nat \<Rightarrow> bool \<Rightarrow> (l1_error, investigation \<times> bool) outcome" where
  "resolve_investigation iv current_height valid =
     (if resolved iv then other_fail ''investigation already resolved''
      else if current_height > defense_deadline iv \<and> \<not> defense_submitted iv
      then Inr (iv\<lparr>defense_valid := False, resolved := True\<rparr>, True)
      else Inr (iv\<lparr>defense_valid := valid, resolved := True\<rparr>, \<not> valid))"

section \<open>Slashing a validator\<close>

record slashing_result =
  sr_validator :: tagged_pubkey
  sr_reason :: slashing_reason
  sr_stake_before :: nat
  sr_slash_amount :: nat
  sr_stake_after :: nat
  sr_debt_recorded :: bool

definition reason_percentage :: "slashing_reason \<Rightarrow> slashing_config \<Rightarrow> nat" where
  "reason_percentage reason cfg = (if reason = Downtime then downtime_slash_percentage cfg else slash_percentage cfg)"

definition apply_slashing ::
  "validator_set \<Rightarrow> tagged_pubkey \<Rightarrow> slashing_reason \<Rightarrow> slashing_config \<Rightarrow>
   (l1_error, validator_set \<times> slashing_result) outcome" where
  "apply_slashing s pk reason cfg =
     rbind (find_validator_mut s pk) (\<lambda>v.
     if ve_status v = Retired then other_fail ''validator retired, cannot be slashed''
     else
       let stake_before = ve_stake v;
           slash_amount = compute_slash_amount stake_before (reason_percentage reason cfg);
           (stake_after, debt_recorded) =
             (if stake_before \<ge> slash_amount then (stake_before - slash_amount, False) else (0, True))
       in Inr (modify_validator s pk (\<lambda>v. v\<lparr>ve_stake := stake_after,
                 ve_status := (if reason \<noteq> Downtime then Slashed else ve_status v)\<rparr>),
               \<lparr>sr_validator = pk, sr_reason = reason, sr_stake_before = stake_before, sr_slash_amount = slash_amount,
                sr_stake_after = stake_after, sr_debt_recorded = debt_recorded\<rparr>))"

definition apply_multi_slashing ::
  "validator_set \<Rightarrow> tagged_pubkey \<Rightarrow> slashing_reason list \<Rightarrow> slashing_config \<Rightarrow>
   (l1_error, validator_set \<times> slashing_result list) outcome" where
  "apply_multi_slashing s pk reasons cfg =
     foldM (\<lambda>(s, results) reason.
        rbind (apply_slashing s pk reason cfg) (\<lambda>(s', r). Inr (s', results @ [r])))
       (s, []) (sort_key slash_priority reasons)"

section \<open>Vertices, commit certificates and evidence\<close>

definition VERTEX_SIG_DOMAIN :: byte where "VERTEX_SIG_DOMAIN = 0x56"
definition COMMIT_CERT_SIG_DOMAIN :: byte where "COMMIT_CERT_SIG_DOMAIN = 0x43"

text \<open>Of the transactions of a vertex its hash takes their hashes only.\<close>

record dag_vertex =
  vx_epoch :: nat
  vx_round :: nat
  vx_author_pubkey :: tagged_pubkey
  vx_tx_hashes :: "byte list list"
  vx_parent_hashes :: "byte list list"
  vx_author_sig :: "byte list"
  vx_forced_tx_hashes :: "byte list list"

definition vertex_hash :: "hash_fn \<Rightarrow> dag_vertex \<Rightarrow> byte list" where
  "vertex_hash B x =
     B (VERTEX_SIG_DOMAIN # u64_le (vx_epoch x) @ u64_le (vx_round x) @ pk_to_bytes (vx_author_pubkey x) @
        concat (vx_tx_hashes x) @ concat (vx_parent_hashes x) @ u64_le (length (vx_forced_tx_hashes x)) @
        concat (vx_forced_tx_hashes x))"

definition vertex_signing_hash :: "hash_fn \<Rightarrow> nat \<Rightarrow> dag_vertex \<Rightarrow> byte list" where
  "vertex_signing_hash B chain_id x =
     B (u64_le chain_id @ u64_le (vx_epoch x) @ u64_le (vx_round x) @ pk_to_bytes (vx_author_pubkey x) @
        vertex_hash B x @ concat (vx_parent_hashes x))"

text \<open>The union of the forced transactions of the committed vertices, in the order of their hashes.\<close>

definition commit_forced_union :: "dag_vertex list \<Rightarrow> byte list list" where
  "commit_forced_union vertices = sorted_list_of_set (set (concat (map vx_forced_tx_hashes vertices)))"

record commit_cert =
  cc_epoch :: nat
  cc_commit_round :: nat
  cc_prev_commit_hash :: "byte list"
  cc_vertex_hash_list :: "byte list list"
  cc_round_attendance_bitmap :: "byte list"
  cc_state_root :: "byte list"
  cc_public_tx_root :: "byte list"
  cc_gameturn_tx_root :: "byte list"
  cc_signature_list :: "byte list list"
  cc_signer_bitmap :: "byte list"

definition cert_signing_hash :: "hash_fn \<Rightarrow> nat \<Rightarrow> commit_cert \<Rightarrow> byte list" where
  "cert_signing_hash B chain_id c =
     B (COMMIT_CERT_SIG_DOMAIN # u64_le chain_id @ u64_le (cc_epoch c) @ u64_le (cc_commit_round c) @
        cc_prev_commit_hash c @ concat (cc_vertex_hash_list c) @ cc_round_attendance_bitmap c @ cc_state_root c @
        cc_public_tx_root c @ cc_gameturn_tx_root c)"

definition cert_hash :: "hash_fn \<Rightarrow> nat \<Rightarrow> commit_cert \<Rightarrow> byte list" where
  "cert_hash B chain_id c =
     B (cert_signing_hash B chain_id c @ concat (map (\<lambda>s. u64_le (length s) @ s) (cc_signature_list c)) @
        cc_signer_bitmap c)"

definition signer_count :: "commit_cert \<Rightarrow> nat" where
  "signer_count c = sum_list (map (\<lambda>b. length (filter (bit b) [0..<8])) (cc_signer_bitmap c))"

text \<open>Key, signature and message to whether the signature is good.\<close>

type_synonym sig_verifier = "tagged_pubkey \<Rightarrow> byte list \<Rightarrow> byte list \<Rightarrow> bool"

record vertex_evidence =
  vev_chain_id :: nat
  vev_epoch :: nat
  vev_round :: nat
  vev_author :: tagged_pubkey
  vev_vertex_1 :: dag_vertex
  vev_vertex_2 :: dag_vertex

definition require_that :: "bool \<Rightarrow> string \<Rightarrow> (l1_error, unit) outcome" where
  "require_that b msg = (if b then Inr () else other_fail msg)"

definition validate_vertex_evidence :: "hash_fn \<Rightarrow> sig_verifier \<Rightarrow> vertex_evidence \<Rightarrow> (l1_error, unit) outcome" where
  "validate_vertex_evidence B verify ev =
     (let x = vev_vertex_1 ev; y = vev_vertex_2 ev in
      rbind (require_that (vx_epoch x = vev_epoch ev \<and> vx_epoch y = vev_epoch ev \<and>
               vx_round x = vev_round ev \<and> vx_round y = vev_round ev) ''vertex equivocation: epoch/round mismatch'') (\<lambda>_.
      rbind (require_that (vx_author_pubkey x = vev_author ev \<and> vx_author_pubkey y = vev_author ev)
               ''vertex equivocation: author_pubkey mismatch'') (\<lambda>_.
      rbind (require_that (vertex_hash B x \<noteq> vertex_hash B y)
               ''vertex equivocation: vertex_hash_1 == vertex_hash_2 (not equivocation)'') (\<lambda>_.
      rbind (require_that (vx_author_sig x \<noteq> [] \<and> vx_author_sig y \<noteq> [])
               ''vertex equivocation: signatures must not be empty'') (\<lambda>_.
      rbind (require_that (verify (vev_author ev) (vx_author_sig x) (vertex_signing_hash B (vev_chain_id ev) x))
               ''vertex equivocation: signature_1 verification failed'') (\<lambda>_.
      require_that (verify (vev_author ev) (vx_author_sig y) (vertex_signing_hash B (vev_chain_id ev) y))
               ''vertex equivocation: signature_2 verification failed''))))))"

record cert_evidence =
  cev_chain_id :: nat
  cev_epoch :: nat
  cev_commit_round :: nat
  cev_author :: tagged_pubkey
  cev_signature_1 :: "byte list"
  cev_signature_2 :: "byte list"
  cev_cert_1 :: commit_cert
  cev_cert_2 :: commit_cert

definition validate_cert_evidence :: "hash_fn \<Rightarrow> sig_verifier \<Rightarrow> cert_evidence \<Rightarrow> (l1_error, unit) outcome" where
  "validate_cert_evidence B verify ev =
     (let c = cev_cert_1 ev; d = cev_cert_2 ev; n = cev_chain_id ev in
      rbind (require_that (cc_epoch c = cev_epoch ev \<and> cc_epoch d = cev_epoch ev \<and>
               cc_commit_round c = cev_commit_round ev \<and> cc_commit_round d = cev_commit_round ev)
               ''commit cert equivocation: epoch/commit_round mismatch'') (\<lambda>_.
      rbind (require_that (cert_hash B n c \<noteq> cert_hash B n d)
               ''commit cert equivocation: cert_hash_1 == cert_hash_2 (not equivocation)'') (\<lambda>_.
      rbind (require_that (cev_signature_1 ev \<noteq> [] \<and> cev_signature_2 ev \<noteq> [])
               ''commit cert equivocation: signatures must not be empty'') (\<lambda>_.
      rbind (require_that (verify (cev_author ev) (cev_signature_1 ev) (cert_signing_hash B n c))
               ''commit cert equivocation: signature_1 verification failed'') (\<lambda>_.
      require_that (verify (cev_author ev) (cev_signature_2 ev) (cert_signing_hash B n d))
               ''commit cert equivocation: signature_2 verification failed'')))))"

definition vertex_evidence_reason :: "vertex_evidence \<Rightarrow> slashing_reason" where
  "vertex_evidence_reason _ = VertexEquivocation"

definition cert_evidence_reason :: "cert_evidence \<Rightarrow> slashing_reason" where
  "cert_evidence_reason _ = CommitCertEquivocation"

section \<open>Amounts\<close>

text \<open>Up to the point where the product saturates the amount is the share of the stake.\<close>

lemma compute_slash_amount_le:
  assumes "p \<le> 100"
  shows "compute_slash_amount s p \<le> s"
proof -
  have "min (s * p) U64_MAX div 100 \<le> s * p div 100" by (rule div_le_mono) simp
  also have "\<dots> \<le> s * 100 div 100" by (rule div_le_mono) (use assms in simp)
  finally show ?thesis by (simp add: compute_slash_amount_def saturating_mul_u64_def)
qed

lemma compute_slash_amount_exact: "s * p < u64_limit \<Longrightarrow> compute_slash_amount s p = s * p div 100"
  by (simp add: compute_slash_amount_def saturating_mul_u64_def min_absorb1)

definition stakes :: "validator_set \<Rightarrow> nat" where
  "stakes s = sum_list (map ve_stake (vs_validators s))"

lemma modify_first_sum:
  "List.find P xs = Some x \<Longrightarrow> sum_list (map f (modify_first P g xs)) + f x = sum_list (map f xs) + (f (g x) :: nat)"
  by (induction xs) (auto split: if_splits)

lemma modify_first_find:
  "List.find P xs = Some x \<Longrightarrow> P (g x) \<Longrightarrow> List.find P (modify_first P g xs) = Some (g x)"
  by (induction xs) (auto split: if_splits)

lemma find_validator_key: "find_validator s pk = Some v \<Longrightarrow> ve_pubkey v = pk"
  by (auto simp: find_validator_def find_Some_iff)

lemma modify_stakes:
  "find_validator s pk = Some v \<Longrightarrow> stakes (modify_validator s pk g) + ve_stake v = stakes s + ve_stake (g v)"
  using modify_first_sum[of "\<lambda>v. ve_pubkey v = pk" "vs_validators s" v ve_stake g]
  by (simp add: stakes_def modify_validator_def find_validator_def)

lemma modify_find:
  "find_validator s pk = Some v \<Longrightarrow> ve_pubkey (g v) = pk \<Longrightarrow> find_validator (modify_validator s pk g) pk = Some (g v)"
  using modify_first_find[of "\<lambda>v. ve_pubkey v = pk" "vs_validators s" v g]
  by (simp add: modify_validator_def find_validator_def)

lemma apply_slashing_facts:
  assumes "apply_slashing s pk reason cfg = Inr (s', r)"
  shows "\<exists>v v'. find_validator s pk = Some v \<and> find_validator s' pk = Some v' \<and> ve_status v \<noteq> Retired \<and>
    sr_stake_before r = ve_stake v \<and> sr_stake_after r = ve_stake v' \<and>
    ve_stake v' = ve_stake v - sr_slash_amount r \<and>
    sr_slash_amount r = compute_slash_amount (ve_stake v) (reason_percentage reason cfg) \<and>
    (reason \<noteq> Downtime \<longrightarrow> ve_status v' = Slashed) \<and> (reason = Downtime \<longrightarrow> ve_status v' = ve_status v) \<and>
    stakes s' + ve_stake v = stakes s + ve_stake v'"
proof -
  from assms obtain v where v: "find_validator s pk = Some v" "ve_status v \<noteq> Retired"
    by (auto simp: apply_slashing_def find_validator_mut_def outcome_simps other_fail_def split: if_splits)
  let ?a = "compute_slash_amount (ve_stake v) (reason_percentage reason cfg)"
  let ?g = "\<lambda>v'. v'\<lparr>ve_stake := ve_stake v - ?a, ve_status := (if reason \<noteq> Downtime then Slashed else ve_status v')\<rparr>"
  from assms v have s': "s' = modify_validator s pk ?g" and
    r: "sr_stake_before r = ve_stake v" "sr_slash_amount r = ?a" "sr_stake_after r = ve_stake v - ?a"
    by (auto simp: apply_slashing_def find_validator_mut_def ok_or_def other_fail_def Let_def split: if_splits)
  have "find_validator s' pk = Some (?g v)"
    unfolding s' by (rule modify_find[OF v(1)]) (use find_validator_key[OF v(1)] in simp)
  moreover have "stakes s' + ve_stake v = stakes s + ve_stake (?g v)"
    unfolding s' by (rule modify_stakes[OF v(1)])
  ultimately show ?thesis using v r by (intro exI[of _ v] exI[of _ "?g v"]) auto
qed

definition percentages_ok :: "slashing_config \<Rightarrow> bool" where
  "percentages_ok cfg \<longleftrightarrow> slash_percentage cfg \<le> 100 \<and> downtime_slash_percentage cfg \<le> 100"

lemma reason_percentage_ok: "percentages_ok cfg \<Longrightarrow> reason_percentage r cfg \<le> 100"
  by (simp add: reason_percentage_def percentages_ok_def)

lemma apply_slashing_stakes:
  assumes "apply_slashing s pk reason cfg = Inr (s', r)" "percentages_ok cfg"
  shows "stakes s' + sr_slash_amount r = stakes s" "\<not> sr_debt_recorded r"
proof -
  from apply_slashing_facts[OF assms(1)] obtain v v' :: validator_entry where v: "ve_stake v' = ve_stake v - sr_slash_amount r"
    "sr_slash_amount r = compute_slash_amount (ve_stake v) (reason_percentage reason cfg)"
    "stakes s' + ve_stake v = stakes s + ve_stake v'" "find_validator s pk = Some v" by blast
  have le: "sr_slash_amount r \<le> ve_stake v"
    using v(2) compute_slash_amount_le[OF reason_percentage_ok[OF assms(2)]] by simp
  then show "stakes s' + sr_slash_amount r = stakes s" using v(1,3) by simp
  show "\<not> sr_debt_recorded r"
    using assms(1) v(2,4) le
    by (auto simp: apply_slashing_def find_validator_mut_def ok_or_def other_fail_def Let_def split: if_splits)
qed

text \<open>Several reasons: one after the other, each a share of what is left, in the order of priority.\<close>

text \<open>The results chain: each starts from the stake that the one before left.\<close>

fun chained :: "nat \<Rightarrow> slashing_result list \<Rightarrow> nat \<Rightarrow> bool" where
  "chained a [] b \<longleftrightarrow> a = b"
| "chained a (r # rs) b \<longleftrightarrow> sr_stake_before r = a \<and> sr_slash_amount r \<le> a \<and>
     sr_stake_after r = a - sr_slash_amount r \<and> chained (sr_stake_after r) rs b"

lemma chained_append: "chained a (rs @ [r]) c \<longleftrightarrow> (\<exists>b. chained a rs b \<and> chained b [r] c)"
  by (induction rs arbitrary: a) auto

lemma chained_total: "chained a rs b \<Longrightarrow> sum_list (map sr_slash_amount rs) + b = a"
  by (induction rs arbitrary: a) (simp, fastforce)

lemma multi_slashing_loop:
  assumes "percentages_ok cfg" "find_validator s0 pk = Some v0"
    "foldM (\<lambda>(s, results) reason. rbind (apply_slashing s pk reason cfg) (\<lambda>(s', r). Inr (s', results @ [r])))
       (s, rs) reasons = Inr (s', rs')"
    "find_validator s pk = Some v" "chained (ve_stake v0) rs (ve_stake v)" "map sr_reason rs = done"
  shows "\<exists>v'. find_validator s' pk = Some v' \<and> chained (ve_stake v0) rs' (ve_stake v') \<and>
    map sr_reason rs' = done @ reasons"
  using assms(3-6)
proof (induction reasons arbitrary: s rs v "done")
  case (Cons reason reasons)
  from Cons.prems(1) obtain s1 r where s1: "apply_slashing s pk reason cfg = Inr (s1, r)"
    and rest: "foldM (\<lambda>(s, results) reason. rbind (apply_slashing s pk reason cfg) (\<lambda>(s', r). Inr (s', results @ [r])))
       (s1, rs @ [r]) reasons = Inr (s', rs')"
    by (auto simp: outcome_simps)
  from apply_slashing_facts[OF s1] Cons.prems(2) obtain v1 where v1: "find_validator s1 pk = Some v1"
    "sr_stake_before r = ve_stake v" "sr_stake_after r = ve_stake v1" "ve_stake v1 = ve_stake v - sr_slash_amount r"
    "sr_slash_amount r = compute_slash_amount (ve_stake v) (reason_percentage reason cfg)" by auto
  have "chained (ve_stake v) [r] (ve_stake v1)"
    using v1 compute_slash_amount_le[OF reason_percentage_ok[OF assms(1)]] by simp
  then have "chained (ve_stake v0) (rs @ [r]) (ve_stake v1)"
    using Cons.prems(3) by (auto simp: chained_append simp del: chained.simps)
  moreover have "sr_reason r = reason"
    using s1 by (auto simp: apply_slashing_def find_validator_mut_def outcome_simps other_fail_def Let_def split: if_splits)
  ultimately show ?case using Cons.IH[OF rest v1(1), of "done @ [reason]"] Cons.prems(4) by auto
qed simp

lemma multi_slashing_facts:
  assumes "apply_multi_slashing s pk reasons cfg = Inr (s', rs)" "percentages_ok cfg" "find_validator s pk = Some v"
  shows "\<exists>v'. find_validator s' pk = Some v' \<and> chained (ve_stake v) rs (ve_stake v') \<and>
    sum_list (map sr_slash_amount rs) + ve_stake v' = ve_stake v \<and> map sr_reason rs = sort_key slash_priority reasons"
proof -
  have c: "chained (ve_stake v) [] (ve_stake v)" "map sr_reason [] = []" by simp_all
  from multi_slashing_loop[OF assms(2,3) assms(1)[unfolded apply_multi_slashing_def] assms(3) c]
  obtain v' where v': "find_validator s' pk = Some v'" "chained (ve_stake v) rs (ve_stake v')"
    "map sr_reason rs = [] @ sort_key slash_priority reasons" by blast
  then show ?thesis using chained_total[OF v'(2)] by (intro exI[of _ v']) simp
qed

section \<open>Properties\<close>

definition sample_key :: tagged_pubkey where
  "sample_key = TaggedPubkey 1 [7]"

definition sample_set :: validator_set where
  "sample_set = \<lparr>vs_epoch = 1, vs_validators = [(validator_entry_new sample_key [] 1000 0)\<lparr>ve_status := Active\<rparr>],
     vs_hash = [], vs_epoch_randomness = [], vs_prev_epoch_randomness = [], vs_genesis_chain_randomness = []\<rparr>"

text \<open>
  Slashing for several reasons takes each share from what the one before left.  With
  percentages up to 100 the results come in the order of priority, each starts from the remaining
  stake and never exceeds it, the amounts and the stake that is left add up to the stake before,
  and no debt is ever recorded.
\<close>

lemma multi_slashing_chains:
  "apply_multi_slashing s pk reasons cfg = Inr (s', rs) \<Longrightarrow> percentages_ok cfg \<Longrightarrow> find_validator s pk = Some v \<Longrightarrow>
   \<exists>v'. find_validator s' pk = Some v' \<and> chained (ve_stake v) rs (ve_stake v') \<and>
     sum_list (map sr_slash_amount rs) + ve_stake v' = ve_stake v \<and> map sr_reason rs = sort_key slash_priority reasons"
  by (rule multi_slashing_facts)

lemma sample_multi:
  "\<exists>s'. apply_multi_slashing sample_set sample_key [Downtime, VertexEquivocation, Downtime]
       (default_slashing_config\<lparr>slash_percentage := 50\<rparr>) =
     Inr (s', [\<lparr>sr_validator = sample_key, sr_reason = VertexEquivocation, sr_stake_before = 1000, sr_slash_amount = 500,
               sr_stake_after = 500, sr_debt_recorded = False\<rparr>,
              \<lparr>sr_validator = sample_key, sr_reason = Downtime, sr_stake_before = 500, sr_slash_amount = 50,
               sr_stake_after = 450, sr_debt_recorded = False\<rparr>,
              \<lparr>sr_validator = sample_key, sr_reason = Downtime, sr_stake_before = 450, sr_slash_amount = 45,
               sr_stake_after = 405, sr_debt_recorded = False\<rparr>])"
  by (simp add: apply_multi_slashing_def apply_slashing_def find_validator_mut_def find_validator_def sample_set_def
      validator_entry_new_def ok_or_def reason_percentage_def default_slashing_config_def compute_slash_amount_def
      saturating_mul_u64_def U64_MAX_def u64_limit_def DEFAULT_DOWNTIME_SLASH_PERCENTAGE_def modify_validator_def Let_def)

text \<open>
  C35: Honest signers of a commit certificate can be convicted of equivocation.  The hash that is
  compared covers the collected signatures, the hash that is signed does not: one certificate, once
  as it is and once with any other list of signatures that hashes differently, and the one signature
  the validator gave make valid evidence against it.
\<close>

lemma cert_evidence_frames:
  assumes "verify pk sig (cert_signing_hash B n c)" "sig \<noteq> []"
    "cert_hash B n (c\<lparr>cc_signature_list := sigs\<rparr>) \<noteq> cert_hash B n c"
  shows "validate_cert_evidence B verify
    \<lparr>cev_chain_id = n, cev_epoch = cc_epoch c, cev_commit_round = cc_commit_round c, cev_author = pk,
     cev_signature_1 = sig, cev_signature_2 = sig, cev_cert_1 = c, cev_cert_2 = c\<lparr>cc_signature_list := sigs\<rparr>\<rparr> = Inr ()"
proof -
  have "cert_signing_hash B n (c\<lparr>cc_signature_list := sigs\<rparr>) = cert_signing_hash B n c"
    by (simp add: cert_signing_hash_def)
  then show ?thesis using assms by (simp add: validate_cert_evidence_def require_that_def)
qed

theorem cert_evidence_frames_honest:
  "verify pk sig (cert_signing_hash B n c) \<Longrightarrow> sig \<noteq> [] \<Longrightarrow>
   cert_hash B n (c\<lparr>cc_signature_list := sigs\<rparr>) \<noteq> cert_hash B n c \<Longrightarrow>
   validate_cert_evidence B verify
    \<lparr>cev_chain_id = n, cev_epoch = cc_epoch c, cev_commit_round = cc_commit_round c, cev_author = pk,
     cev_signature_1 = sig, cev_signature_2 = sig, cev_cert_1 = c, cev_cert_2 = c\<lparr>cc_signature_list := sigs\<rparr>\<rparr> = Inr ()"
  by (rule cert_evidence_frames)

definition sample_cert :: commit_cert where
  "sample_cert = \<lparr>cc_epoch = 3, cc_commit_round = 4, cc_prev_commit_hash = [], cc_vertex_hash_list = [],
     cc_round_attendance_bitmap = [], cc_state_root = [], cc_public_tx_root = [], cc_gameturn_tx_root = [],
     cc_signature_list = [[9]], cc_signer_bitmap = [1]\<rparr>"

theorem cert_evidence_frames_honest_witness:
  "validate_cert_evidence (\<lambda>bs. bs) (\<lambda>_ sig _. sig = [9])
    \<lparr>cev_chain_id = 1, cev_epoch = 3, cev_commit_round = 4, cev_author = sample_key,
     cev_signature_1 = [9], cev_signature_2 = [9], cev_cert_1 = sample_cert,
     cev_cert_2 = sample_cert\<lparr>cc_signature_list := []\<rparr>\<rparr> = Inr ()"
proof -
  have "cert_hash (\<lambda>bs. bs) 1 (sample_cert\<lparr>cc_signature_list := []\<rparr>) \<noteq> cert_hash (\<lambda>bs. bs) 1 sample_cert"
    by (simp add: cert_hash_def cert_signing_hash_def sample_cert_def)
  from cert_evidence_frames_honest[OF _ _ this, of "\<lambda>_ sig _. sig = [9]" sample_key "[9]"]
  show ?thesis by (simp add: sample_cert_def)
qed

text \<open>
  A vertex has the hash of another one.  Nothing separates the transactions of a vertex from
  its parents in what is hashed: moving the last transaction to the front of the parents keeps the
  hash of the vertex, under which others refer to it, whatever the hash function, so that two
  signed vertices of this kind are refused as evidence of equivocation.
\<close>

lemma vertex_hash_moves:
  assumes "vx_tx_hashes x = txs @ [t]" "y = x\<lparr>vx_tx_hashes := txs, vx_parent_hashes := t # vx_parent_hashes x\<rparr>"
  shows "vertex_hash B y = vertex_hash B x"
    "\<exists>e. validate_vertex_evidence B verify \<lparr>vev_chain_id = n, vev_epoch = vx_epoch x, vev_round = vx_round x,
       vev_author = vx_author_pubkey x, vev_vertex_1 = x, vev_vertex_2 = y\<rparr> = Inl e"
proof -
  show h: "vertex_hash B y = vertex_hash B x" using assms by (simp add: vertex_hash_def)
  show "\<exists>e. validate_vertex_evidence B verify \<lparr>vev_chain_id = n, vev_epoch = vx_epoch x, vev_round = vx_round x,
       vev_author = vx_author_pubkey x, vev_vertex_1 = x, vev_vertex_2 = y\<rparr> = Inl e"
    using h assms(2) by (simp add: validate_vertex_evidence_def require_that_def other_fail_def)
qed

lemma vertex_hash_confuses_parents:
  "vx_tx_hashes x = txs @ [t] \<Longrightarrow> y = x\<lparr>vx_tx_hashes := txs, vx_parent_hashes := t # vx_parent_hashes x\<rparr> \<Longrightarrow>
   y \<noteq> x \<and> vertex_hash B y = vertex_hash B x \<and>
   (\<exists>e. validate_vertex_evidence B verify \<lparr>vev_chain_id = n, vev_epoch = vx_epoch x, vev_round = vx_round x,
       vev_author = vx_author_pubkey x, vev_vertex_1 = x, vev_vertex_2 = y\<rparr> = Inl e)"
  using vertex_hash_moves[of x txs t y B] by (metis append_self_conv dag_vertex.select_convs(4) dag_vertex.surjective dag_vertex.update_convs(4) dag_vertex.update_convs(5) not_Cons_self2)

end
