(* ===== verification/Treasury.thy ===== *)
theory Treasury
  imports Objects
begin

text \<open>
  The monetary objects of \<^verbatim>\<open>economics/mod.rs\<close>: the treasury cap, the singleton that counts what was
  minted and burned, and the native coins, immutable outputs of one owner.
\<close>

section \<open>The treasury cap\<close>

definition NATIVE_COIN_OBJECT_TYPE :: string where
  "NATIVE_COIN_OBJECT_TYPE = ''0x2::zcn::Coin''"

definition TREASURY_CAP_OBJECT_TYPE :: string where
  "TREASURY_CAP_OBJECT_TYPE = ''0x2::zcn::TreasuryCap''"

definition TREASURY_SYSTEM_ADDRESS :: address where
  "TREASURY_SYSTEM_ADDRESS = replicate 20 0"

definition TREASURY_CAP_OBJECT_ID :: obj_id where
  "TREASURY_CAP_OBJECT_ID = ObjectID TREASURY_SYSTEM_ADDRESS U64_MAX"

record treasury_cap =
  total_supply :: nat
  total_minted :: nat
  total_burned :: nat
  minting_closed :: bool
  genesis_commitment :: "byte list"

definition empty_open :: treasury_cap where
  "empty_open = \<lparr>total_supply = 0, total_minted = 0, total_burned = 0, minting_closed = False,
     genesis_commitment = replicate 32 0\<rparr>"

definition validate_cap :: "treasury_cap \<Rightarrow> (l1_error, unit) outcome" where
  "validate_cap cap =
     rbind (ok_or (Other ''TreasuryCap burned amount exceeds minted amount'')
              (checked_sub_u64 (total_minted cap) (total_burned cap))) (\<lambda>expected_supply.
     if total_supply cap \<noteq> expected_supply then other_fail ''TreasuryCap invariant violated'' else Inr ())"

definition is_treasury_cap_object :: "obj \<Rightarrow> bool" where
  "is_treasury_cap_object ob \<longleftrightarrow> ob_id ob = TREASURY_CAP_OBJECT_ID \<or> ob_type ob = TREASURY_CAP_OBJECT_TYPE"

definition cap_enc :: "treasury_cap \<Rightarrow> byte list" where
  "cap_enc cap = u64_le (total_supply cap) @ u64_le (total_minted cap) @ u64_le (total_burned cap) @
     bool_enc (minting_closed cap) @ genesis_commitment cap"

definition read_cap :: "treasury_cap reader" where
  "read_cap = read_bind read_u64 (\<lambda>s. read_bind read_u64 (\<lambda>m. read_bind read_u64 (\<lambda>b.
     read_bind read_bool (\<lambda>c. read_bind (read_bytes 32) (\<lambda>g. read_return
       \<lparr>total_supply = s, total_minted = m, total_burned = b, minting_closed = c, genesis_commitment = g\<rparr>)))))"

definition treasury_cap_object :: "treasury_cap \<Rightarrow> nat \<Rightarrow> (l1_error, obj) outcome" where
  "treasury_cap_object cap version =
     rbind (validate_cap cap) (\<lambda>_.
     Inr ((object_new TREASURY_CAP_OBJECT_ID Shared TREASURY_CAP_OBJECT_TYPE (cap_enc cap) None)
            \<lparr>ob_version := version\<rparr>))"

definition decode_treasury_cap :: "obj \<Rightarrow> (l1_error, treasury_cap) outcome" where
  "decode_treasury_cap ob =
     (if ob_id ob \<noteq> TREASURY_CAP_OBJECT_ID \<or> ob_type ob \<noteq> TREASURY_CAP_OBJECT_TYPE \<or> ob_owner ob \<noteq> Shared
      then other_fail ''invalid TreasuryCap singleton identity, type or ownership''
      else
        rbind (ok_or (Serialization ''decode TreasuryCap'') (from_slice read_cap (ob_data ob))) (\<lambda>cap.
        rbind (validate_cap cap) (\<lambda>_. Inr cap)))"

section \<open>Coins\<close>

record native_coin =
  coin_amount :: nat

definition native_coin_new :: "nat \<Rightarrow> (l1_error, native_coin) outcome" where
  "native_coin_new amount =
     (if amount = 0 then other_fail ''native coin amount must be greater than zero''
      else Inr \<lparr>coin_amount = amount\<rparr>)"

definition is_native_coin_object :: "obj \<Rightarrow> bool" where
  "is_native_coin_object ob \<longleftrightarrow> ob_type ob = NATIVE_COIN_OBJECT_TYPE"

definition is_reserved_economic_object :: "obj \<Rightarrow> bool" where
  "is_reserved_economic_object ob \<longleftrightarrow> is_native_coin_object ob \<or> is_treasury_cap_object ob"

definition coin_enc :: "native_coin \<Rightarrow> byte list" where
  "coin_enc c = u64_le (coin_amount c)"

definition read_coin :: "native_coin reader" where
  "read_coin = read_bind read_u64 (\<lambda>n. read_return \<lparr>coin_amount = n\<rparr>)"

definition decode_native_coin :: "obj \<Rightarrow> (l1_error, native_coin) outcome" where
  "decode_native_coin ob =
     (if \<not> is_native_coin_object ob then other_fail ''object is not a native ZCN coin''
      else
        rbind (ok_or (Serialization ''decode native ZCN coin'') (from_slice read_coin (ob_data ob))) (\<lambda>coin.
        native_coin_new (coin_amount coin)))"

definition native_coin_object :: "address \<Rightarrow> nat \<Rightarrow> nat \<Rightarrow> (l1_error, obj) outcome" where
  "native_coin_object owner amount nonce =
     rbind (native_coin_new amount) (\<lambda>coin.
     Inr (object_new (ObjectID owner nonce) (AddressOwned owner) NATIVE_COIN_OBJECT_TYPE
            (coin_enc coin) None))"

text \<open>\<open>u64::from_be_bytes\<close> of the first eight bytes of a hash, and big-endian bytes.\<close>

definition be_u64 :: "byte list \<Rightarrow> nat" where
  "be_u64 bs = unat (le_value (rev bs) :: 64 word)"

definition u64_be :: "nat \<Rightarrow> byte list" where
  "u64_be n = rev (u64_le n)"

definition u32_be :: "nat \<Rightarrow> byte list" where
  "u32_be n = rev (u32_le n)"

definition coin_output_nonce :: "hash_fn \<Rightarrow> byte list \<Rightarrow> nat \<Rightarrow> nat" where
  "coin_output_nonce B tx_hash output_index =
     be_u64 (take 8 (B (map of_char ''ZCHAIN_NATIVE_COIN_OUTPUT_V1'' @ tx_hash @ u32_be output_index)))"

section \<open>Round trips\<close>

definition cap_wf :: "treasury_cap \<Rightarrow> bool" where
  "cap_wf cap \<longleftrightarrow> total_supply cap < u64_limit \<and> total_minted cap < u64_limit \<and> total_burned cap < u64_limit \<and>
     length (genesis_commitment cap) = 32"

lemma reads_cap: "cap_wf cap \<Longrightarrow> reads read_cap cap (cap_enc cap)"
  unfolding read_cap_def cap_enc_def cap_wf_def
  by (intro reads_bind[OF reads_u64] reads_bind[OF reads_bool] reads_bind_return[OF reads_bytes];
      (elim conjE)?; assumption?) (cases cap, simp)

lemma reads_coin: "coin_amount c < u64_limit \<Longrightarrow> reads read_coin c (coin_enc c)"
  unfolding read_coin_def coin_enc_def
  by (rule reads_bind_return[OF reads_u64]) (assumption, cases c, simp)

lemma validate_cap_Inr [outcome_simps]:
  "validate_cap cap = Inr u \<longleftrightarrow> total_minted cap = total_supply cap + total_burned cap"
  by (auto simp: validate_cap_def outcome_simps other_fail_def)

lemma native_coin_new_Inr [outcome_simps]:
  "native_coin_new n = Inr c \<longleftrightarrow> n > 0 \<and> c = \<lparr>coin_amount = n\<rparr>"
  by (auto simp: native_coin_new_def other_fail_def)

lemma native_coin_object_Inr [outcome_simps]:
  "native_coin_object owner amount nonce = Inr ob \<longleftrightarrow> amount > 0 \<and>
     ob = object_new (ObjectID owner nonce) (AddressOwned owner) NATIVE_COIN_OBJECT_TYPE (u64_le amount) None"
  by (auto simp: native_coin_object_def outcome_simps coin_enc_def)

lemma treasury_cap_object_Inr [outcome_simps]:
  "treasury_cap_object cap version = Inr ob \<longleftrightarrow> total_minted cap = total_supply cap + total_burned cap \<and>
     ob = (object_new TREASURY_CAP_OBJECT_ID Shared TREASURY_CAP_OBJECT_TYPE (cap_enc cap) None)\<lparr>ob_version := version\<rparr>"
  by (auto simp: treasury_cap_object_def outcome_simps)

lemma decode_coin_of_object:
  "0 < n \<Longrightarrow> n < u64_limit \<Longrightarrow> ob_type ob = NATIVE_COIN_OBJECT_TYPE \<Longrightarrow> ob_data ob = u64_le n \<Longrightarrow>
     decode_native_coin ob = Inr \<lparr>coin_amount = n\<rparr>"
  using from_slice_reads[OF reads_coin[of "\<lparr>coin_amount = n\<rparr>"]]
  by (simp add: decode_native_coin_def is_native_coin_object_def coin_enc_def outcome_simps ok_or_def)

lemma decode_cap_of_object:
  "cap_wf cap \<Longrightarrow> treasury_cap_object cap version = Inr ob \<Longrightarrow> decode_treasury_cap ob = Inr cap"
  using from_slice_reads[OF reads_cap[of cap]]
  by (auto simp: decode_treasury_cap_def object_new_def outcome_simps)

lemma decode_cap_Inr:
  "decode_treasury_cap ob = Inr cap \<Longrightarrow> ob_id ob = TREASURY_CAP_OBJECT_ID \<and> ob_type ob = TREASURY_CAP_OBJECT_TYPE \<and>
     ob_owner ob = Shared \<and> total_minted cap = total_supply cap + total_burned cap"
  by (auto simp: decode_treasury_cap_def outcome_simps other_fail_def split: if_splits)

lemma read_u64_bound: "read_u64 bs = Some (n, rest) \<Longrightarrow> n < u64_limit"
  unfolding read_u64_def read_bind_def read_return_def u64_limit_def
  by (auto split: option.splits intro: order_less_le_trans[OF unsigned_less])

lemma decode_coin_bound:
  "decode_native_coin ob = Inr c \<Longrightarrow> 0 < coin_amount c \<and> coin_amount c < u64_limit"
  by (auto simp: decode_native_coin_def outcome_simps other_fail_def from_slice_def read_coin_def read_bind_def
      read_return_def split: if_splits option.splits prod.splits list.splits dest: read_u64_bound)

lemma read_bytes_length: "read_bytes n bs = Some (xs, rest) \<Longrightarrow> length xs = n"
  by (auto simp: read_bytes_def split: if_splits)

lemma decode_cap_wf:
  "decode_treasury_cap ob = Inr cap \<Longrightarrow> cap_wf cap"
  by (auto simp: decode_treasury_cap_def outcome_simps other_fail_def from_slice_def read_cap_def read_bind_def
      read_return_def cap_wf_def split: if_splits option.splits prod.splits list.splits
      dest: read_u64_bound read_bytes_length)

end
