(* ===== verification/Smt.thy ===== *)
theory Smt
  imports ObjectId
begin

text \<open>
  The sparse Merkle tree of the state, \<^verbatim>\<open>object_model/smt.rs\<close>: 256 levels, keyed by the hash of an
  object id, updated and proved along one path.  The reference is the complete binary tree over
  the bits of the keys; the lemmas show that the incremental updates compute its root, that the
  proofs verify against it, and where the code departs from it: a node of height 0 is never
  stored, so two leaves that differ in their last bit only do not see each other.
\<close>

section \<open>Hashes and paths\<close>

definition TREE_DEPTH :: nat where "TREE_DEPTH = 256"

definition LEAF_DOMAIN :: byte where "LEAF_DOMAIN = 0"

definition INTERNAL_DOMAIN :: byte where "INTERNAL_DOMAIN = 1"

type_synonym hash = "byte list"

definition compute_empty_leaf_sentinel :: "hash_fn \<Rightarrow> hash" where
  "compute_empty_leaf_sentinel B = B [LEAF_DOMAIN]"

definition smt_leaf_hash :: "hash_fn \<Rightarrow> hash \<Rightarrow> byte list \<Rightarrow> hash" where
  "smt_leaf_hash B key val = B (LEAF_DOMAIN # key @ val)"

definition smt_internal_hash :: "hash_fn \<Rightarrow> hash \<Rightarrow> hash \<Rightarrow> hash" where
  "smt_internal_hash B left right = B (INTERNAL_DOMAIN # left @ right)"

text \<open>The table of the hashes of empty subtrees, by height.\<close>

primrec empty_at :: "hash_fn \<Rightarrow> nat \<Rightarrow> hash" where
  "empty_at B 0 = compute_empty_leaf_sentinel B"
| "empty_at B (Suc h) = (let child = empty_at B h in smt_internal_hash B child child)"

definition smt_empty_leaf_hash :: "hash_fn \<Rightarrow> hash" where
  "smt_empty_leaf_hash B = empty_at B 0"

definition zero_lower_bits :: "hash \<Rightarrow> nat \<Rightarrow> hash" where
  "zero_lower_bits key num_bits =
     (if num_bits = 0 then key
      else
        let full_bytes = num_bits div 8;
            partial_bits = num_bits mod 8;
            path = take (32 - full_bytes) key @ replicate full_bytes 0;
            i = 32 - full_bytes - 1
        in if partial_bits > 0 \<and> full_bytes < 32
           then path[i := path ! i AND NOT (push_bit partial_bits 1 - 1)]
           else path)"

definition get_bit :: "hash \<Rightarrow> nat \<Rightarrow> byte" where
  "get_bit key bit_idx = drop_bit (7 - bit_idx mod 8) (key ! (bit_idx div 8)) AND 1"

definition flip_bit :: "hash \<Rightarrow> nat \<Rightarrow> hash" where
  "flip_bit key bit_idx =
     key[bit_idx div 8 := key ! (bit_idx div 8) XOR push_bit (7 - bit_idx mod 8) 1]"

section \<open>The tree\<close>

record merkle_path =
  siblings :: "hash list"
  is_empty_leaf :: bool

record smt =
  sm_leaves :: "hash \<rightharpoonup> hash"
  sm_nodes :: "nat \<times> hash \<rightharpoonup> hash"
  sm_root :: hash

definition smt_new :: "hash_fn \<Rightarrow> smt" where
  "smt_new B = \<lparr>sm_leaves = Map.empty, sm_nodes = Map.empty, sm_root = empty_at B TREE_DEPTH\<rparr>"

text \<open>The lookups of the code: a node that is not stored is an empty subtree.\<close>

definition node_at :: "hash_fn \<Rightarrow> (nat \<times> hash \<rightharpoonup> hash) \<Rightarrow> nat \<Rightarrow> hash \<Rightarrow> hash" where
  "node_at B nodes h path = (case nodes (h, path) of Some x \<Rightarrow> x | None \<Rightarrow> empty_at B h)"

text \<open>One level of \<open>recompute_path\<close> and of \<open>recompute_path_remove\<close>, from height \<open>h - 1\<close> to \<open>h\<close>.\<close>

type_synonym climb_state = "hash \<times> hash \<times> (nat \<times> hash \<rightharpoonup> hash)"

definition climb :: "hash_fn \<Rightarrow> hash \<Rightarrow> climb_state \<Rightarrow> nat \<Rightarrow> climb_state" where
  "climb B key s h =
     (case s of (current_hash, current_path, nodes) \<Rightarrow>
        let bit_idx = TREE_DEPTH - h;
            sibling_path = flip_bit current_path bit_idx;
            sibling_hash = node_at B nodes (h - 1) sibling_path;
            (left, right) = (if get_bit key bit_idx = 0 then (current_hash, sibling_hash)
                             else (sibling_hash, current_hash));
            current_hash = smt_internal_hash B left right;
            current_path = zero_lower_bits key h
        in (current_hash, current_path, nodes((h, current_path) \<mapsto> current_hash)))"

definition climb_remove :: "hash_fn \<Rightarrow> hash \<Rightarrow> climb_state \<Rightarrow> nat \<Rightarrow> climb_state" where
  "climb_remove B key s h =
     (case s of (current_hash, current_path, nodes) \<Rightarrow>
        let bit_idx = TREE_DEPTH - h;
            sibling_path = flip_bit current_path bit_idx;
            sibling_hash = node_at B nodes (h - 1) sibling_path;
            current_path = zero_lower_bits key h
        in if current_hash = empty_at B (h - 1) \<and> sibling_hash = empty_at B (h - 1)
           then (empty_at B h, current_path, nodes((h, current_path) := None))
           else
             let (left, right) = (if get_bit key bit_idx = 0 then (current_hash, sibling_hash)
                                  else (sibling_hash, current_hash));
                 current_hash = smt_internal_hash B left right
             in (current_hash, current_path, nodes((h, current_path) \<mapsto> current_hash)))"

definition recompute_path :: "hash_fn \<Rightarrow> smt \<Rightarrow> hash \<Rightarrow> hash \<Rightarrow> smt" where
  "recompute_path B t key leaf_value_hash =
     (case foldl (climb B key) (leaf_value_hash, key, sm_nodes t) [1..<TREE_DEPTH + 1] of
        (current_hash, _, nodes) \<Rightarrow> t\<lparr>sm_nodes := nodes, sm_root := current_hash\<rparr>)"

definition recompute_path_remove :: "hash_fn \<Rightarrow> smt \<Rightarrow> hash \<Rightarrow> smt" where
  "recompute_path_remove B t key =
     (case foldl (climb_remove B key) (smt_empty_leaf_hash B, key, sm_nodes t) [1..<TREE_DEPTH + 1] of
        (current_hash, _, nodes) \<Rightarrow> t\<lparr>sm_nodes := nodes, sm_root := current_hash\<rparr>)"

definition smt_upsert :: "hash_fn \<Rightarrow> smt \<Rightarrow> hash \<Rightarrow> byte list \<Rightarrow> smt" where
  "smt_upsert B t key val =
     (let new_leaf = smt_leaf_hash B key val
      in recompute_path B (t\<lparr>sm_leaves := (sm_leaves t)(key \<mapsto> new_leaf)\<rparr>) key new_leaf)"

definition smt_remove :: "hash_fn \<Rightarrow> smt \<Rightarrow> hash \<Rightarrow> smt" where
  "smt_remove B t key = recompute_path_remove B (t\<lparr>sm_leaves := (sm_leaves t)(key := None)\<rparr>) key"

definition smt_prove :: "hash_fn \<Rightarrow> smt \<Rightarrow> hash \<Rightarrow> merkle_path" where
  "smt_prove B t key =
     \<lparr>siblings = map (\<lambda>h. node_at B (sm_nodes t) (h - 1)
                             (flip_bit (zero_lower_bits key (h - 1)) (TREE_DEPTH - h)))
                   [1..<TREE_DEPTH + 1],
      is_empty_leaf = (sm_leaves t key = None)\<rparr>"

definition merge_sibling :: "hash_fn \<Rightarrow> hash \<Rightarrow> hash list \<Rightarrow> hash \<Rightarrow> nat \<Rightarrow> hash" where
  "merge_sibling B key sibs current h =
     (let sibling = sibs ! (h - 1)
      in if get_bit key (TREE_DEPTH - h) = 0 then smt_internal_hash B current sibling
         else smt_internal_hash B sibling current)"

definition path_root :: "hash_fn \<Rightarrow> hash \<Rightarrow> hash list \<Rightarrow> hash \<Rightarrow> hash" where
  "path_root B key sibs leaf = foldl (merge_sibling B key sibs) leaf [1..<TREE_DEPTH + 1]"

definition smt_verify :: "hash_fn \<Rightarrow> hash \<Rightarrow> hash \<Rightarrow> byte list option \<Rightarrow> merkle_path \<Rightarrow> bool" where
  "smt_verify B root key val path =
     (if length (siblings path) \<noteq> TREE_DEPTH then False
      else
        (case (val, is_empty_leaf path) of
           (Some v, False) \<Rightarrow> path_root B key (siblings path) (smt_leaf_hash B key v) = root
         | (None, True) \<Rightarrow> path_root B key (siblings path) (smt_empty_leaf_hash B) = root
         | _ \<Rightarrow> False))"

section \<open>The bits of a key\<close>

definition bits_of :: "hash \<Rightarrow> bool list" where
  "bits_of key = map (\<lambda>i. bit (key ! (i div 8)) (7 - i mod 8)) [0..<256]"

lemma length_bits_of [simp]: "length (bits_of key) = 256"
  by (simp add: bits_of_def)

lemma nth_bits_of: "i < 256 \<Longrightarrow> bits_of key ! i = bit (key ! (i div 8)) (7 - i mod 8)"
  by (simp add: bits_of_def)

lemma bits_of_inj:
  assumes "length k = 32" "length k' = 32" "bits_of k = bits_of k'"
  shows "k = k'"
proof (rule nth_equalityI)
  show "length k = length k'" using assms by simp
  fix j assume j: "j < length k"
  show "k ! j = k' ! j"
  proof (rule bit_word_eqI)
    fix n assume "n < LENGTH(8)"
    then obtain e where e: "e < 8" "n = 7 - e" by (intro that[of "7 - n"]) simp_all
    let ?i = "8 * j + e"
    have "?i < 256" "?i div 8 = j" "7 - ?i mod 8 = n" using j e assms(1) by simp_all
    then
    show "bit (k ! j) n = bit (k' ! j) n"
      using arg_cong[OF assms(3), of "\<lambda>bs. bs ! ?i"] by (simp add: nth_bits_of)
  qed
qed

lemma get_bit_eq_0: "i < 256 \<Longrightarrow> get_bit key i = 0 \<longleftrightarrow> \<not> bits_of key ! i"
  by (auto simp: get_bit_def nth_bits_of and_one_eq bit_iff_odd_drop_bit simp flip: even_iff_mod_2_eq_zero)

lemma length_flip_bit [simp]: "length (flip_bit key i) = length key"
  by (simp add: flip_bit_def)

lemma length_zero_lower_bits [simp]:
  "length key = 32 \<Longrightarrow> n \<le> 256 \<Longrightarrow> length (zero_lower_bits key n) = 32"
  by (auto simp: zero_lower_bits_def Let_def)

lemma bits_flip_bit:
  assumes "length key = 32" "i < 256"
  shows "bits_of (flip_bit key i) = (bits_of key)[i := \<not> bits_of key ! i]"
proof (rule nth_equalityI)
  fix m assume "m < length (bits_of (flip_bit key i))"
  then have m: "m < 256" by simp
  obtain j e where je: "i div 8 = j" "i mod 8 = e" "e < 8" "j < 32" "i = 8 * j + e"
    using assms(2) by (intro that[of "i div 8" "i mod 8"]) simp_all
  obtain j' e' where je': "m div 8 = j'" "m mod 8 = e'" "e' < 8" "j' < 32" "m = 8 * j' + e'"
    using m by (intro that[of "m div 8" "m mod 8"]) simp_all
  have eq: "m = i \<longleftrightarrow> j' = j \<and> e' = e" using je(1,2,5) je'(1,2,5) by metis
  have e: "7 - e' = 7 - e \<longleftrightarrow> e' = e" using je(3) je'(3) by linarith
  have b: "bit (2 ^ p :: byte) q \<longleftrightarrow> q = p" if "q < 8" for p q
    using that by (auto simp: bit_simps)
  have "bit (flip_bit key i ! j') (7 - e') \<longleftrightarrow>
      (if m = i then \<not> bit (key ! j') (7 - e') else bit (key ! j') (7 - e'))"
    using je(3) je'(3,4) assms(1) unfolding eq
    by (cases "j' = j") (simp_all add: flip_bit_def je(1,2) bit_xor_iff b e)
  then show "bits_of (flip_bit key i) ! m = (bits_of key)[i := \<not> bits_of key ! i] ! m"
    using m assms(2) by (auto simp: nth_bits_of je'(1,2) nth_list_update)
qed simp

text \<open>Zeroing the low bits keeps a prefix; at height \<open>h\<close> it names the node above the key.\<close>

lemma zero_lower_nth:
  assumes "length key = 32" "n \<noteq> 0" "n div 8 = f" "n mod 8 = p" "f \<le> 32" "j < 32"
  shows "zero_lower_bits key n ! j =
    (if j < 31 - f \<or> (j = 31 - f \<and> f < 32 \<and> p = 0) then key ! j
     else if j = 31 - f \<and> f < 32 then key ! j AND NOT (mask p) else 0)"
proof (cases "p > 0 \<and> f < 32")
  case True
  from True show ?thesis
    using assms by (auto simp: zero_lower_bits_def Let_def mask_eq_exp_minus_1 nth_append nth_list_update)
next
  case False
  then have "zero_lower_bits key n = take (32 - f) key @ replicate f 0"
    using assms by (auto simp: zero_lower_bits_def Let_def)
  with False assms show ?thesis by (auto simp: nth_append)
qed

lemma low_bits_split:
  "e < 8 \<Longrightarrow> p < 8 \<Longrightarrow> 8 * f + p \<le> 256 \<Longrightarrow> j < 32 \<Longrightarrow>
   8 * j + e < 256 - (8 * f + p) \<longleftrightarrow> j < 31 - f \<or> (j = 31 - f \<and> f < 32 \<and> p \<le> 7 - e)" for e p f j :: nat
  by (cases "j < 31 - f"; cases "j = 31 - f"; cases "f < 32"; simp; linarith)

lemma bits_zero_lower_bits:
  assumes "length key = 32" "n \<le> 256"
  shows "bits_of (zero_lower_bits key n) = take (256 - n) (bits_of key) @ replicate n False"
proof (cases "n = 0")
  case True
  then show ?thesis by (simp add: zero_lower_bits_def)
next
  case False
  show ?thesis
  proof (rule nth_equalityI)
    fix i assume "i < length (bits_of (zero_lower_bits key n))"
    then have i: "i < 256" by simp
    obtain j e where je: "i div 8 = j" "i mod 8 = e" "e < 8" "j < 32" "i = 8 * j + e"
      using i by (intro that[of "i div 8" "i mod 8"]) simp_all
    obtain f p where fp: "n div 8 = f" "n mod 8 = p" "p < 8" "f \<le> 32" "n = 8 * f + p"
      using assms(2) by (intro that[of "n div 8" "n mod 8"]) simp_all
    have sp: "i < 256 - n \<longleftrightarrow> j < 31 - f \<or> (j = 31 - f \<and> f < 32 \<and> p \<le> 7 - e)"
      using low_bits_split[of e p f j] je fp assms(2) by simp
    have "bit (zero_lower_bits key n ! j) (7 - e) \<longleftrightarrow> i < 256 - n \<and> bit (key ! j) (7 - e)"
      unfolding zero_lower_nth[OF assms(1) False fp(1,2,4) je(4)] sp
      using je(3) by (auto simp: bit_and_iff bit_not_iff bit_mask_iff)
    then show "bits_of (zero_lower_bits key n) ! i = (take (256 - n) (bits_of key) @ replicate n False) ! i"
      using i je(1,2) assms(2) by (auto simp: nth_bits_of nth_append)
  qed (use assms in simp)
qed

section \<open>One climb\<close>

text \<open>
  The climb reads a sibling at each height and writes only nodes above the key itself, which it
  never reads again: its result is the root of the path over the siblings of the tree it started
  from, and the nodes it leaves differ from the old ones above the key only.
\<close>

definition sibling_at :: "hash_fn \<Rightarrow> (nat \<times> hash \<rightharpoonup> hash) \<Rightarrow> hash \<Rightarrow> nat \<Rightarrow> hash" where
  "sibling_at B nodes key h = node_at B nodes h (flip_bit (zero_lower_bits key h) (255 - h))"

definition siblings_of :: "hash_fn \<Rightarrow> (nat \<times> hash \<rightharpoonup> hash) \<Rightarrow> hash \<Rightarrow> hash list" where
  "siblings_of B nodes key = map (sibling_at B nodes key) [0..<256]"

lemma siblings_smt_prove: "siblings (smt_prove B t key) = siblings_of B (sm_nodes t) key"
  by (rule nth_equalityI) (simp_all add: smt_prove_def siblings_of_def sibling_at_def TREE_DEPTH_def)

lemma flip_bit_neq:
  assumes "length k = 32" "i < 256"
  shows "flip_bit k i \<noteq> k"
proof
  assume "flip_bit k i = k"
  then have "(bits_of k)[i := \<not> bits_of k ! i] ! i = bits_of k ! i"
    using bits_flip_bit[OF assms] by simp
  then show False using assms(2) by simp
qed

text \<open>The hashes on the way up, height by height.\<close>

definition climb_hash :: "hash_fn \<Rightarrow> (nat \<times> hash \<rightharpoonup> hash) \<Rightarrow> hash \<Rightarrow> hash \<Rightarrow> nat \<Rightarrow> hash" where
  "climb_hash B nodes key leaf h = foldl (merge_sibling B key (siblings_of B nodes key)) leaf [1..<h + 1]"

lemma climb_hash_0: "climb_hash B nodes key leaf 0 = leaf"
  by (simp add: climb_hash_def)

lemma climb_hash_Suc:
  "h < 256 \<Longrightarrow> climb_hash B nodes key leaf (Suc h) =
     (if get_bit key (255 - h) = 0
      then smt_internal_hash B (climb_hash B nodes key leaf h) (sibling_at B nodes key h)
      else smt_internal_hash B (sibling_at B nodes key h) (climb_hash B nodes key leaf h))"
  by (simp add: climb_hash_def merge_sibling_def siblings_of_def TREE_DEPTH_def Let_def)

lemma path_root_climb_hash: "path_root B key (siblings_of B nodes key) leaf = climb_hash B nodes key leaf 256"
  by (simp add: path_root_def climb_hash_def TREE_DEPTH_def)

text \<open>
  A step of either climb: a state whose hash and path are those of height \<open>h\<close>, whose nodes of
  height \<open>h\<close> beside the path are the old ones, goes to such a state of height \<open>h + 1\<close>.
\<close>

definition climbed :: "hash_fn \<Rightarrow> (nat \<times> hash \<rightharpoonup> hash) \<Rightarrow> hash \<Rightarrow> hash \<Rightarrow> nat \<Rightarrow> climb_state \<Rightarrow> bool" where
  "climbed B nodes key leaf h s \<longleftrightarrow>
     (case s of (c, p, ns) \<Rightarrow>
        c = climb_hash B nodes key leaf h \<and> p = zero_lower_bits key h \<and>
        (\<forall>h' p'. node_at B ns h' p' =
           (if 1 \<le> h' \<and> h' \<le> h \<and> p' = zero_lower_bits key h' then climb_hash B nodes key leaf h'
            else node_at B nodes h' p')))"

lemma climbed_0: "climbed B nodes key leaf 0 (leaf, key, nodes)"
  by (auto simp: climbed_def climb_hash_0 zero_lower_bits_def)

lemma node_at_upd: "node_at B (nodes((h, p) \<mapsto> x)) h' p' = (if h' = h \<and> p' = p then x else node_at B nodes h' p')"
  by (auto simp: node_at_def)

lemma node_at_del: "node_at B (nodes((h, p) := None)) h' p' = (if h' = h \<and> p' = p then empty_at B h else node_at B nodes h' p')"
  by (auto simp: node_at_def)

lemma climbed_sibling:
  assumes "length key = 32" "h < 256" "climbed B nodes key leaf h (c, p, ns)"
  shows "node_at B ns h (flip_bit p (255 - h)) = sibling_at B nodes key h"
proof -
  have p: "p = zero_lower_bits key h" using assms(3) by (simp add: climbed_def)
  have "flip_bit p (255 - h) \<noteq> zero_lower_bits key h"
    unfolding p using assms by (intro flip_bit_neq) simp_all
  then show ?thesis using assms(3) unfolding sibling_at_def by (simp add: climbed_def p)
qed

lemma climbed_Suc:
  assumes "climbed B nodes key leaf h (c, p, ns)"
    and "\<And>h' p'. node_at B ns' h' p' =
          (if h' = Suc h \<and> p' = zero_lower_bits key (Suc h) then c' else node_at B ns h' p')"
    and "c' = climb_hash B nodes key leaf (Suc h)"
  shows "climbed B nodes key leaf (Suc h) (c', zero_lower_bits key (Suc h), ns')"
  using assms by (auto simp: climbed_def le_Suc_eq)

lemma climb_step:
  assumes "length key = 32" "h < 256" "climbed B nodes key leaf h s"
  shows "climbed B nodes key leaf (Suc h) (climb B key s (Suc h))"
proof -
  obtain c p ns where s: "s = (c, p, ns)" by (cases s)
  have c: "c = climb_hash B nodes key leaf h" using assms(3) by (simp add: climbed_def s)
  have sib: "node_at B ns h (flip_bit p (255 - h)) = sibling_at B nodes key h"
    using climbed_sibling assms s by blast
  have e: "climb B key s (Suc h) = (climb_hash B nodes key leaf (Suc h), zero_lower_bits key (Suc h),
      ns((Suc h, zero_lower_bits key (Suc h)) \<mapsto> climb_hash B nodes key leaf (Suc h)))"
    using assms(2) sib by (simp add: climb_def s TREE_DEPTH_def Let_def climb_hash_Suc c)
  show ?thesis unfolding e
    by (rule climbed_Suc[OF assms(3)[unfolded s]]) (simp_all add: node_at_upd)
qed

lemma climb_remove_step:
  assumes "length key = 32" "h < 256" "climbed B nodes key leaf h s"
  shows "climbed B nodes key leaf (Suc h) (climb_remove B key s (Suc h))"
proof -
  obtain c p ns where s: "s = (c, p, ns)" by (cases s)
  have c: "c = climb_hash B nodes key leaf h" using assms(3) by (simp add: climbed_def s)
  have sib: "node_at B ns h (flip_bit p (255 - h)) = sibling_at B nodes key h"
    using climbed_sibling assms s by blast
  show ?thesis
  proof (cases "c = empty_at B h \<and> sibling_at B nodes key h = empty_at B h")
    case True
    then have e: "climb_remove B key s (Suc h) = (empty_at B (Suc h), zero_lower_bits key (Suc h),
        ns((Suc h, zero_lower_bits key (Suc h)) := None))"
      using assms(2) sib by (simp add: climb_remove_def s TREE_DEPTH_def Let_def)
    show ?thesis unfolding e
      by (rule climbed_Suc[OF assms(3)[unfolded s]])
        (use True assms(2) in \<open>simp_all add: node_at_del climb_hash_Suc c[symmetric] Let_def\<close>)
  next
    case False
    then have e: "climb_remove B key s (Suc h) = (climb_hash B nodes key leaf (Suc h), zero_lower_bits key (Suc h),
        ns((Suc h, zero_lower_bits key (Suc h)) \<mapsto> climb_hash B nodes key leaf (Suc h)))"
      using assms(2) sib by (auto simp: climb_remove_def s TREE_DEPTH_def Let_def climb_hash_Suc c)
    show ?thesis unfolding e
      by (rule climbed_Suc[OF assms(3)[unfolded s]]) (simp_all add: node_at_upd)
  qed
qed

lemma climb_loop:
  assumes "\<And>h s. h < 256 \<Longrightarrow> climbed B nodes key leaf h s \<Longrightarrow> climbed B nodes key leaf (Suc h) (f s (Suc h))"
    and "n \<le> 256"
  shows "climbed B nodes key leaf n (foldl f (leaf, key, nodes) [1..<n + 1])"
  using assms(2)
proof (induction n)
  case 0
  show ?case by (simp add: climbed_0)
next
  case (Suc n)
  then show ?case using assms(1) by simp
qed

text \<open>What an update of the tree does: the leaf, the root and every node.\<close>

lemma recompute_path_spec:
  assumes "length key = 32"
  shows "sm_leaves (recompute_path B t key leaf) = sm_leaves t"
    "sm_root (recompute_path B t key leaf) = climb_hash B (sm_nodes t) key leaf 256"
    "node_at B (sm_nodes (recompute_path B t key leaf)) h p =
       (if 1 \<le> h \<and> h \<le> 256 \<and> p = zero_lower_bits key h then climb_hash B (sm_nodes t) key leaf h
        else node_at B (sm_nodes t) h p)"
proof -
  have "climbed B (sm_nodes t) key leaf 256 (foldl (climb B key) (leaf, key, sm_nodes t) [1..<256 + 1])"
    by (rule climb_loop) (use climb_step[OF assms] in simp_all)
  then show "sm_leaves (recompute_path B t key leaf) = sm_leaves t"
    "sm_root (recompute_path B t key leaf) = climb_hash B (sm_nodes t) key leaf 256"
    "node_at B (sm_nodes (recompute_path B t key leaf)) h p =
       (if 1 \<le> h \<and> h \<le> 256 \<and> p = zero_lower_bits key h then climb_hash B (sm_nodes t) key leaf h
        else node_at B (sm_nodes t) h p)"
    by (auto simp: recompute_path_def TREE_DEPTH_def climbed_def split: prod.splits)
qed

lemma recompute_path_remove_spec:
  assumes "length key = 32"
  shows "sm_leaves (recompute_path_remove B t key) = sm_leaves t"
    "sm_root (recompute_path_remove B t key) = climb_hash B (sm_nodes t) key (smt_empty_leaf_hash B) 256"
    "node_at B (sm_nodes (recompute_path_remove B t key)) h p =
       (if 1 \<le> h \<and> h \<le> 256 \<and> p = zero_lower_bits key h
        then climb_hash B (sm_nodes t) key (smt_empty_leaf_hash B) h else node_at B (sm_nodes t) h p)"
proof -
  have "climbed B (sm_nodes t) key (smt_empty_leaf_hash B) 256
      (foldl (climb_remove B key) (smt_empty_leaf_hash B, key, sm_nodes t) [1..<256 + 1])"
    by (rule climb_loop) (use climb_remove_step[OF assms] in simp_all)
  then show "sm_leaves (recompute_path_remove B t key) = sm_leaves t"
    "sm_root (recompute_path_remove B t key) = climb_hash B (sm_nodes t) key (smt_empty_leaf_hash B) 256"
    "node_at B (sm_nodes (recompute_path_remove B t key)) h p =
       (if 1 \<le> h \<and> h \<le> 256 \<and> p = zero_lower_bits key h
        then climb_hash B (sm_nodes t) key (smt_empty_leaf_hash B) h else node_at B (sm_nodes t) h p)"
    by (auto simp: recompute_path_remove_def TREE_DEPTH_def climbed_def split: prod.splits)
qed

section \<open>The reference tree\<close>

text \<open>
  The complete tree over the bits of the keys: \<open>merkle B M h pre\<close> is the hash of the subtree of
  height \<open>h\<close> whose keys start with \<open>pre\<close>, for the leaf hashes \<open>M\<close>.
\<close>

definition key_of :: "bool list \<Rightarrow> hash" where
  "key_of bs = map (\<lambda>j. horner_sum of_bool 2 (rev (take 8 (drop (8 * j) bs)))) [0..<32]"

definition leaf_or_empty :: "hash_fn \<Rightarrow> hash option \<Rightarrow> hash" where
  "leaf_or_empty B x = (case x of Some v \<Rightarrow> v | None \<Rightarrow> smt_empty_leaf_hash B)"

primrec merkle :: "hash_fn \<Rightarrow> (hash \<rightharpoonup> hash) \<Rightarrow> nat \<Rightarrow> bool list \<Rightarrow> hash" where
  "merkle B M 0 pre = leaf_or_empty B (M (key_of pre))"
| "merkle B M (Suc h) pre = smt_internal_hash B (merkle B M h (pre @ [False])) (merkle B M h (pre @ [True]))"

definition merkle_root :: "hash_fn \<Rightarrow> (hash \<rightharpoonup> hash) \<Rightarrow> hash" where
  "merkle_root B M = merkle B M TREE_DEPTH []"

lemma length_key_of [simp]: "length (key_of bs) = 32"
  by (simp add: key_of_def)

lemma bits_of_key_of:
  assumes "length bs = 256"
  shows "bits_of (key_of bs) = bs"
proof (rule nth_equalityI)
  fix i assume "i < length (bits_of (key_of bs))"
  then have i: "i < 256" by simp
  obtain j e where je: "i div 8 = j" "i mod 8 = e" "e < 8" "j < 32" "i = 8 * j + e"
    using i by (intro that[of "i div 8" "i mod 8"]) simp_all
  have len: "length (take 8 (drop (8 * j) bs)) = 8" using assms je(4) by simp
  have "rev (take 8 (drop (8 * j) bs)) ! (7 - e) = take 8 (drop (8 * j) bs) ! e"
    using je(3) len by (simp add: rev_nth)
  then show "bits_of (key_of bs) ! i = bs ! i"
    using i je assms by (simp add: nth_bits_of key_of_def bit_horner_sum_bit_word_iff less_imp_diff_less)
qed (simp add: assms)

lemma key_of_bits_of: "length k = 32 \<Longrightarrow> key_of (bits_of k) = k"
  by (rule bits_of_inj) (simp_all add: bits_of_key_of)

text \<open>A subtree depends on the leaves below it only.\<close>

lemma merkle_cong:
  assumes "length pre + h = 256"
    and "\<And>bs. length bs = 256 \<Longrightarrow> take (length pre) bs = pre \<Longrightarrow> M (key_of bs) = M' (key_of bs)"
  shows "merkle B M h pre = merkle B M' h pre"
  using assms
proof (induction h arbitrary: pre)
  case 0
  then show ?case by simp
next
  case (Suc h)
  have "merkle B M h (pre @ [b]) = merkle B M' h (pre @ [b])" for b
  proof (rule Suc.IH)
    fix bs :: "bool list" assume "length bs = 256" "take (length (pre @ [b])) bs = pre @ [b]"
    then show "M (key_of bs) = M' (key_of bs)"
      using Suc.prems(2)[of bs] by (simp add: take_Suc_conv_app_nth Suc.prems(1)[symmetric])
  qed (use Suc.prems(1) in simp)
  then show ?case by simp
qed

text \<open>The prefix of the bits of a key below which the leaves are other ones.\<close>

lemma merkle_update_other:
  assumes "length key = 32" "length pre + h = 256" "take (length pre) (bits_of key) \<noteq> pre"
  shows "merkle B (M(key := x)) h pre = merkle B M h pre"
  using assms(2)
proof (rule merkle_cong)
  fix bs :: "bool list" assume bs: "length bs = 256" "take (length pre) bs = pre"
  have "key_of bs \<noteq> key" using bs assms(3) bits_of_key_of[OF bs(1)] by auto
  then show "(M(key := x)) (key_of bs) = M (key_of bs)" by simp
qed

lemma take_bits_Suc:
  "h < 256 \<Longrightarrow> take (256 - h) (bits_of key) = take (255 - h) (bits_of key) @ [bits_of key ! (255 - h)]"
proof -
  assume h: "h < 256"
  then have e: "256 - h = Suc (255 - h)" by linarith
  show ?thesis unfolding e by (rule take_Suc_conv_app_nth) (use h in simp)
qed

lemma sibling_path:
  assumes "length key = 32" "h < 256"
  defines "q \<equiv> flip_bit (zero_lower_bits key h) (255 - h)"
  shows "length q = 32" "zero_lower_bits q h = q"
    "take (256 - h) (bits_of q) = take (255 - h) (bits_of key) @ [\<not> bits_of key ! (255 - h)]"
proof -
  let ?pre = "take (255 - h) (bits_of key)" and ?b = "bits_of key ! (255 - h)"
  have len: "length ?pre = 255 - h" by simp
  have z: "bits_of (zero_lower_bits key h) = ?pre @ ?b # replicate h False"
    using assms by (simp add: bits_zero_lower_bits take_bits_Suc)
  have q: "bits_of q = ?pre @ (\<not> ?b) # replicate h False"
    using assms by (simp add: q_def bits_flip_bit z nth_append list_update_append len)
  show l: "length q = 32" using assms by (simp add: q_def)
  show t: "take (256 - h) (bits_of q) = ?pre @ [\<not> ?b]"
    using assms(2) by (simp add: q)
  have "bits_of (zero_lower_bits q h) = bits_of q"
    using l assms(2) by (simp add: bits_zero_lower_bits t) (simp add: q)
  then show "zero_lower_bits q h = q" using l assms(2) by (intro bits_of_inj) simp_all
qed

section \<open>The incremental tree computes the reference root\<close>

definition nodes_ok :: "hash_fn \<Rightarrow> (hash \<rightharpoonup> hash) \<Rightarrow> (nat \<times> hash \<rightharpoonup> hash) \<Rightarrow> bool" where
  "nodes_ok B M nodes \<longleftrightarrow>
     (\<forall>p. node_at B nodes 0 p = smt_empty_leaf_hash B) \<and>
     (\<forall>h p. 1 \<le> h \<and> h \<le> 256 \<and> length p = 32 \<and> zero_lower_bits p h = p \<longrightarrow>
        node_at B nodes h p = merkle B M h (take (256 - h) (bits_of p)))"

definition smt_ok :: "hash_fn \<Rightarrow> smt \<Rightarrow> bool" where
  "smt_ok B t \<longleftrightarrow> sm_root t = merkle_root B (sm_leaves t) \<and> nodes_ok B (sm_leaves t) (sm_nodes t)"

lemma merkle_empty: "merkle B Map.empty h pre = empty_at B h"
  by (induction h arbitrary: pre) (simp_all add: leaf_or_empty_def smt_empty_leaf_hash_def Let_def)

lemma smt_ok_new: "smt_ok B (smt_new B)"
  by (simp add: smt_ok_def smt_new_def merkle_root_def merkle_empty nodes_ok_def node_at_def
      smt_empty_leaf_hash_def)

text \<open>The sibling the climb reads is the sibling of the reference tree, if the key's last-bit sibling is no leaf.\<close>

lemma sibling_at_merkle:
  assumes "length key = 32" "h < 256" "nodes_ok B M nodes" "M (flip_bit key 255) = None"
  shows "sibling_at B nodes key h
    = merkle B (M(key := x)) h (take (255 - h) (bits_of key) @ [\<not> bits_of key ! (255 - h)])"
proof -
  note q = sibling_path[OF assms(1,2)]
  let ?pre = "take (255 - h) (bits_of key) @ [\<not> bits_of key ! (255 - h)]"
  have ne: "take (length ?pre) (bits_of key) \<noteq> ?pre"
  proof -
    have "length ?pre = 256 - h" using assms(2) by simp
    then show ?thesis by (simp add: take_bits_Suc[OF assms(2)])
  qed
  have up: "merkle B (M(key := x)) h ?pre = merkle B M h ?pre"
    by (rule merkle_update_other[OF assms(1) _ ne]) (use assms(2) in simp)
  show ?thesis
  proof (cases "h = 0")
    case True
    have "zero_lower_bits key 0 = key" by (simp add: zero_lower_bits_def)
    then have "key_of ?pre = flip_bit key 255"
      using q(1,3) key_of_bits_of[OF q(1)] by (simp add: True)
    then show ?thesis
      using assms(3,4) up unfolding sibling_at_def nodes_ok_def True
      by (simp add: leaf_or_empty_def)
  next
    case False
    then show ?thesis
      using assms(2,3) q unfolding sibling_at_def nodes_ok_def up by auto
  qed
qed

lemma climb_hash_merkle:
  assumes "length key = 32" "nodes_ok B M nodes" "M (flip_bit key 255) = None" "h \<le> 256"
  shows "climb_hash B nodes key (leaf_or_empty B x) h
    = merkle B (M(key := x)) h (take (256 - h) (bits_of key))"
  using assms(4)
proof (induction h)
  case 0
  then show ?case using assms(1) by (simp add: climb_hash_0 key_of_bits_of)
next
  case (Suc h)
  then have h: "h < 256" by simp
  have b: "get_bit key (255 - h) = 0 \<longleftrightarrow> \<not> bits_of key ! (255 - h)" using h by (simp add: get_bit_eq_0)
  have d: "256 - Suc h = 255 - h" by simp
  show ?case
  proof -
    define M' where "M' = M(key := x)"
    have ih: "climb_hash B nodes key (leaf_or_empty B x) h
        = merkle B M' h (take (255 - h) (bits_of key) @ [bits_of key ! (255 - h)])"
      using Suc.IH h by (simp only: M'_def take_bits_Suc)
    show ?thesis
      unfolding climb_hash_Suc[OF h] sibling_at_merkle[OF assms(1) h assms(2,3), where x = x] b d ih
        M'_def[symmetric]
      by (cases "bits_of key ! (255 - h)") simp_all
  qed
qed

lemma smt_ok_update:
  assumes "length key = 32" "smt_ok B t" "sm_leaves t (flip_bit key 255) = None"
    and "sm_leaves t' = (sm_leaves t)(key := x)"
    and "sm_root t' = climb_hash B (sm_nodes t) key (leaf_or_empty B x) 256"
    and "\<And>h p. node_at B (sm_nodes t') h p =
       (if 1 \<le> h \<and> h \<le> 256 \<and> p = zero_lower_bits key h
        then climb_hash B (sm_nodes t) key (leaf_or_empty B x) h else node_at B (sm_nodes t) h p)"
  shows "smt_ok B t'"
proof -
  let ?M = "sm_leaves t"
  have n: "nodes_ok B ?M (sm_nodes t)" using assms(2) by (simp add: smt_ok_def)
  note c = climb_hash_merkle[OF assms(1) n assms(3), where x = x]
  have "node_at B (sm_nodes t') h p = merkle B (?M(key := x)) h (take (256 - h) (bits_of p))"
    if h: "1 \<le> h" "h \<le> 256" and p: "length p = 32" "zero_lower_bits p h = p" for h p
  proof (cases "p = zero_lower_bits key h")
    case True
    then have "take (256 - h) (bits_of p) = take (256 - h) (bits_of key)"
      using assms(1) h by (simp add: bits_zero_lower_bits)
    then show ?thesis using c[of h] h True by (simp only: assms(6)) simp
  next
    case False
    have "take (256 - h) (bits_of key) \<noteq> take (256 - h) (bits_of p)"
    proof
      assume "take (256 - h) (bits_of key) = take (256 - h) (bits_of p)"
      then have "bits_of (zero_lower_bits key h) = bits_of (zero_lower_bits p h)"
        unfolding bits_zero_lower_bits[OF assms(1) h(2)] bits_zero_lower_bits[OF p(1) h(2)] by simp
      then have "zero_lower_bits key h = p" using assms(1) h p bits_of_inj by (metis length_zero_lower_bits)
      with False show False by simp
    qed
    then have "merkle B (?M(key := x)) h (take (256 - h) (bits_of p)) = merkle B ?M h (take (256 - h) (bits_of p))"
      using h by (intro merkle_update_other[OF assms(1)]) simp_all
    then show ?thesis using n h p False by (simp add: assms(6) nodes_ok_def)
  qed
  then show ?thesis
    using n c[of 256] by (simp add: smt_ok_def nodes_ok_def assms(4,5,6) merkle_root_def TREE_DEPTH_def)
qed

lemma sm_leaves_upsert: "length key = 32 \<Longrightarrow> sm_leaves (smt_upsert B t key v) = (sm_leaves t)(key \<mapsto> smt_leaf_hash B key v)"
  by (simp add: smt_upsert_def Let_def recompute_path_spec)

lemma sm_leaves_remove: "length key = 32 \<Longrightarrow> sm_leaves (smt_remove B t key) = (sm_leaves t)(key := None)"
  by (simp add: smt_remove_def recompute_path_remove_spec)

lemma smt_ok_upsert:
  assumes "length key = 32" "smt_ok B t" "sm_leaves t (flip_bit key 255) = None"
  shows "smt_ok B (smt_upsert B t key v)"
  by (rule smt_ok_update[OF assms, where x = "Some (smt_leaf_hash B key v)"])
    (simp_all add: smt_upsert_def Let_def recompute_path_spec[OF assms(1)] leaf_or_empty_def)

lemma smt_ok_remove:
  assumes "length key = 32" "smt_ok B t" "sm_leaves t (flip_bit key 255) = None"
  shows "smt_ok B (smt_remove B t key)"
  by (rule smt_ok_update[OF assms, where x = None])
    (simp_all add: smt_remove_def recompute_path_remove_spec[OF assms(1)] leaf_or_empty_def)

section \<open>Histories\<close>

text \<open>A history of updates, and the map it means.\<close>

datatype smt_op = Upsert hash "byte list" | Remove hash

fun op_key :: "smt_op \<Rightarrow> hash" where
  "op_key (Upsert k _) = k"
| "op_key (Remove k) = k"

fun smt_apply :: "hash_fn \<Rightarrow> smt \<Rightarrow> smt_op \<Rightarrow> smt" where
  "smt_apply B t (Upsert k v) = smt_upsert B t k v"
| "smt_apply B t (Remove k) = smt_remove B t k"

fun apply_contents :: "(hash \<rightharpoonup> byte list) \<Rightarrow> smt_op \<Rightarrow> (hash \<rightharpoonup> byte list)" where
  "apply_contents m (Upsert k v) = m(k \<mapsto> v)"
| "apply_contents m (Remove k) = m(k := None)"

definition smt_run :: "hash_fn \<Rightarrow> smt_op list \<Rightarrow> smt" where
  "smt_run B ops = foldl (smt_apply B) (smt_new B) ops"

definition smt_contents :: "smt_op list \<Rightarrow> (hash \<rightharpoonup> byte list)" where
  "smt_contents ops = foldl apply_contents Map.empty ops"

definition leaf_hashes :: "hash_fn \<Rightarrow> (hash \<rightharpoonup> byte list) \<Rightarrow> (hash \<rightharpoonup> hash)" where
  "leaf_hashes B m = (\<lambda>k. map_option (smt_leaf_hash B k) (m k))"

text \<open>Keys of 32 bytes, no two of which differ in their last bit only.\<close>

definition no_leaf_siblings :: "hash list \<Rightarrow> bool" where
  "no_leaf_siblings ks \<longleftrightarrow> (\<forall>k \<in> set ks. length k = 32 \<and> flip_bit k 255 \<notin> set ks)"

lemma dom_smt_contents: "dom (smt_contents ops) \<subseteq> op_key ` set ops"
proof -
  have "dom (foldl apply_contents m ops) \<subseteq> dom m \<union> op_key ` set ops" for m
  proof (induction ops arbitrary: m)
    case (Cons o' ops)
    have "dom (apply_contents m o') \<subseteq> insert (op_key o') (dom m)" by (cases o') auto
    with Cons[of "apply_contents m o'"] show ?case unfolding foldl_Cons by auto
  qed simp
  from this[of Map.empty] show ?thesis by (simp add: smt_contents_def)
qed

lemma smt_run_ok:
  assumes "no_leaf_siblings (map op_key ops)"
  shows "smt_ok B (smt_run B ops) \<and> sm_leaves (smt_run B ops) = leaf_hashes B (smt_contents ops)"
proof -
  let ?K = "set (map op_key ops)"
  have K: "length k = 32" "flip_bit k 255 \<notin> ?K" if "k \<in> ?K" for k
    using assms that by (auto simp: no_leaf_siblings_def)
  have "smt_ok B (foldl (smt_apply B) t os) \<and>
      sm_leaves (foldl (smt_apply B) t os) = leaf_hashes B (foldl apply_contents m os)"
    if "set os \<subseteq> set ops" "smt_ok B t" "sm_leaves t = leaf_hashes B m" "dom m \<subseteq> ?K" for os t m
    using that
  proof (induction os arbitrary: t m)
    case (Cons x os)
    let ?k = "op_key x"
    have k: "?k \<in> ?K" using Cons.prems(1) by auto
    have none: "sm_leaves t (flip_bit ?k 255) = None"
      using K(2)[OF k] Cons.prems(3,4) by (auto simp: leaf_hashes_def)
    have ok: "smt_ok B (smt_apply B t x)"
      using Cons.prems(2) none K(1)[OF k] by (cases x) (simp_all add: smt_ok_upsert smt_ok_remove)
    have lv: "sm_leaves (smt_apply B t x) = leaf_hashes B (apply_contents m x)"
      using Cons.prems(3) K(1)[OF k]
      by (cases x) (simp_all add: sm_leaves_upsert sm_leaves_remove leaf_hashes_def fun_eq_iff)
    have "dom (apply_contents m x) \<subseteq> insert ?k (dom m)" by (cases x) auto
    then have "dom (apply_contents m x) \<subseteq> ?K" using Cons.prems(4) k by blast
    note this = ok lv this
    from Cons.IH[OF _ this] Cons.prems(1) show ?case by simp
  qed simp
  from this[of ops "smt_new B" Map.empty] show ?thesis
    unfolding smt_run_def smt_contents_def
    by (simp add: smt_ok_new) (simp add: smt_new_def leaf_hashes_def)
qed

section \<open>Proofs of a tree\<close>

lemma length_smt_prove [simp]:
  "length (siblings (smt_prove B t key)) = 256" "length (siblings_of B nodes key) = 256"
  by (simp_all add: siblings_smt_prove siblings_of_def)

lemma climb_hash_root:
  assumes "length key = 32" "smt_ok B t" "sm_leaves t (flip_bit key 255) = None"
  shows "climb_hash B (sm_nodes t) key (leaf_or_empty B (sm_leaves t key)) 256 = sm_root t"
proof -
  have "nodes_ok B (sm_leaves t) (sm_nodes t)" using assms(2) by (simp add: smt_ok_def)
  from climb_hash_merkle[OF assms(1) this assms(3), of 256 "sm_leaves t key"] assms(2)
  show ?thesis by (simp add: smt_ok_def merkle_root_def TREE_DEPTH_def fun_upd_triv)
qed

lemma smt_prove_verifies:
  assumes "length key = 32" "smt_ok B t" "sm_leaves t (flip_bit key 255) = None"
    and "sm_leaves t key = map_option (smt_leaf_hash B key) v"
  shows "smt_verify B (sm_root t) key v (smt_prove B t key)"
proof -
  have "is_empty_leaf (smt_prove B t key) \<longleftrightarrow> v = None"
    using assms(4) by (simp add: smt_prove_def)
  then show ?thesis
    using climb_hash_root[OF assms(1-3)] assms(4)
    by (cases v) (simp_all add: smt_verify_def TREE_DEPTH_def siblings_smt_prove
        path_root_climb_hash leaf_or_empty_def)
qed

text \<open>The inputs that a verification hashes.\<close>

definition merge_input :: "hash \<Rightarrow> hash list \<Rightarrow> hash \<Rightarrow> nat \<Rightarrow> byte list" where
  "merge_input key sibs current h =
     INTERNAL_DOMAIN # (if get_bit key (TREE_DEPTH - h) = 0 then current @ sibs ! (h - 1)
                        else sibs ! (h - 1) @ current)"

lemma merge_sibling_input: "merge_sibling B key sibs current h = B (merge_input key sibs current h)"
  by (simp add: merge_sibling_def merge_input_def smt_internal_hash_def Let_def)

primrec path_inputs :: "hash_fn \<Rightarrow> hash \<Rightarrow> hash list \<Rightarrow> hash \<Rightarrow> nat list \<Rightarrow> byte list set" where
  "path_inputs B key sibs current [] = {}"
| "path_inputs B key sibs current (h # hs) =
     insert (merge_input key sibs current h)
       (path_inputs B key sibs (merge_sibling B key sibs current h) hs)"

definition smt_leaf_input :: "hash \<Rightarrow> byte list option \<Rightarrow> byte list" where
  "smt_leaf_input key v = (case v of Some x \<Rightarrow> LEAF_DOMAIN # key @ x | None \<Rightarrow> [LEAF_DOMAIN])"

definition verify_inputs :: "hash_fn \<Rightarrow> hash \<Rightarrow> byte list option \<Rightarrow> merkle_path \<Rightarrow> byte list set" where
  "verify_inputs B key v path =
     insert (smt_leaf_input key v)
       (path_inputs B key (siblings path) (B (smt_leaf_input key v)) [1..<TREE_DEPTH + 1])"

lemma path_binding:
  assumes "foldl (merge_sibling B key sibs) c hs = foldl (merge_sibling B key sibs') c' hs"
    and "inj_on B (path_inputs B key sibs c hs \<union> path_inputs B key sibs' c' hs)"
    and "\<And>x. length (B x) = 32" "length c = 32" "length c' = 32"
    and "\<And>h. h \<in> set hs \<Longrightarrow> length (sibs ! (h - 1)) = 32 \<and> length (sibs' ! (h - 1)) = 32"
  shows "c = c'"
  using assms(1,2,4,5,6)
proof (induction hs arbitrary: c c')
  case (Cons h hs)
  have "merge_sibling B key sibs c h = merge_sibling B key sibs' c' h"
  proof (rule Cons.IH)
    show "inj_on B (path_inputs B key sibs (merge_sibling B key sibs c h) hs \<union>
        path_inputs B key sibs' (merge_sibling B key sibs' c' h) hs)"
      by (rule inj_on_subset[OF Cons.prems(2)]) auto
  qed (use Cons.prems in \<open>simp_all add: merge_sibling_input assms(3)\<close>)
  then have "merge_input key sibs c h = merge_input key sibs' c' h"
    unfolding merge_sibling_input by (rule inj_onD[OF Cons.prems(2)]) simp_all
  moreover have "length (sibs ! (h - 1)) = 32" "length (sibs' ! (h - 1)) = 32"
    using Cons.prems(5) by simp_all
  ultimately show ?case using Cons.prems(3,4) by (simp add: merge_input_def split: if_splits)
qed simp

lemma smt_verify_path:
  "smt_verify B root key v path \<Longrightarrow>
     length (siblings path) = 256 \<and> path_root B key (siblings path) (B (smt_leaf_input key v)) = root"
  by (auto simp: smt_verify_def smt_leaf_input_def smt_leaf_hash_def smt_empty_leaf_hash_def TREE_DEPTH_def
      compute_empty_leaf_sentinel_def split: if_splits option.splits bool.splits)

lemma smt_verify_binding:
  assumes "smt_verify B root key v path" "smt_verify B root key v' path'"
    and "\<And>x. length (B x) = 32" "key \<noteq> []"
    and "\<And>s. s \<in> set (siblings path) \<union> set (siblings path') \<Longrightarrow> length s = 32"
    and "inj_on B (verify_inputs B key v path \<union> verify_inputs B key v' path')"
  shows "v = v'"
proof -
  let ?c = "B (smt_leaf_input key v)" and ?c' = "B (smt_leaf_input key v')"
  have len: "length (siblings path) = 256" "length (siblings path') = 256"
    using smt_verify_path assms(1,2) by blast+
  have "?c = ?c'"
  proof (rule path_binding)
    show "foldl (merge_sibling B key (siblings path)) ?c [1..<TREE_DEPTH + 1]
        = foldl (merge_sibling B key (siblings path')) ?c' [1..<TREE_DEPTH + 1]"
      using smt_verify_path[OF assms(1)] smt_verify_path[OF assms(2)] by (simp add: path_root_def)
    show "inj_on B (path_inputs B key (siblings path) ?c [1..<TREE_DEPTH + 1] \<union>
        path_inputs B key (siblings path') ?c' [1..<TREE_DEPTH + 1])"
      by (rule inj_on_subset[OF assms(6)]) (auto simp: verify_inputs_def)
    show "length (siblings path ! (h - 1)) = 32 \<and> length (siblings path' ! (h - 1)) = 32"
      if "h \<in> set [1..<TREE_DEPTH + 1]" for h
      using that len assms(5) by (auto simp: TREE_DEPTH_def)
  qed (use assms(3) in simp_all)
  then have "smt_leaf_input key v = smt_leaf_input key v'"
    by (rule inj_onD[OF assms(6)]) (simp_all add: verify_inputs_def)
  then show ?thesis using assms(4) by (auto simp: smt_leaf_input_def split: option.splits)
qed

lemma length_merkle:
  assumes "\<And>x. length (B x) = 32"
  shows "length (merkle B (leaf_hashes B m) h pre) = 32"
  by (cases h) (auto simp: assms leaf_or_empty_def leaf_hashes_def smt_leaf_hash_def smt_empty_leaf_hash_def
      compute_empty_leaf_sentinel_def smt_internal_hash_def split: option.splits)

lemma length_siblings:
  assumes "\<And>x. length (B x) = 32" "length key = 32" "smt_ok B t" "sm_leaves t = leaf_hashes B m"
    "sm_leaves t (flip_bit key 255) = None" "s \<in> set (siblings (smt_prove B t key))"
  shows "length s = 32"
proof -
  have "nodes_ok B (sm_leaves t) (sm_nodes t)" using assms(3) by (simp add: smt_ok_def)
  then have "length (sibling_at B (sm_nodes t) key h) = 32" if "h < 256" for h
    using sibling_at_merkle[OF assms(2) that, of B "sm_leaves t" "sm_nodes t" "sm_leaves t key"] assms(5)
      length_merkle[OF assms(1)] by (simp add: fun_upd_triv assms(4))
  then show ?thesis using assms(6) by (auto simp: siblings_smt_prove siblings_of_def)
qed

section \<open>The leaf that is forgotten\<close>

lemma sibling_at_cong:
  assumes "\<And>h. h < 256 \<Longrightarrow> sibling_at B nodes key h = sibling_at B nodes' key h" "n \<le> 256"
  shows "climb_hash B nodes key leaf n = climb_hash B nodes' key leaf n"
  using assms(2) by (induction n) (simp_all add: climb_hash_0 climb_hash_Suc assms(1))

lemma zero_lower_flip_last:
  assumes "length k = 32" "1 \<le> h" "h \<le> 256"
  shows "zero_lower_bits (flip_bit k 255) h = zero_lower_bits k h"
proof (rule bits_of_inj)
  have "256 - h \<le> 255" using assms by simp
  then show "bits_of (zero_lower_bits (flip_bit k 255) h) = bits_of (zero_lower_bits k h)"
    using assms by (simp add: bits_zero_lower_bits bits_flip_bit)
qed (use assms in simp_all)

lemma sibling_of_flipped:
  assumes "length k = 32" "h < 256"
  shows "sibling_at B (sm_nodes (recompute_path B t k leaf)) (flip_bit k 255) h
    = sibling_at B (sm_nodes t) (flip_bit k 255) h"
proof (cases "h = 0")
  case True
  then show ?thesis by (simp add: sibling_at_def recompute_path_spec[OF assms(1)])
next
  case False
  then have "zero_lower_bits (flip_bit k 255) h = zero_lower_bits k h"
    using assms by (intro zero_lower_flip_last) simp_all
  moreover have "flip_bit (zero_lower_bits k h) (255 - h) \<noteq> zero_lower_bits k h"
    using assms by (intro flip_bit_neq) simp_all
  ultimately show ?thesis by (simp add: sibling_at_def recompute_path_spec[OF assms(1)])
qed

lemma root_of_flipped:
  assumes "length k = 32"
  shows "sm_root (smt_upsert B (smt_upsert B t k v) (flip_bit k 255) w) = sm_root (smt_upsert B t (flip_bit k 255) w)"
proof -
  let ?k = "flip_bit k 255"
  have l: "length ?k = 32" using assms by simp
  have "sibling_at B (sm_nodes (smt_upsert B t k v)) ?k h = sibling_at B (sm_nodes t) ?k h" if "h < 256" for h
    using sibling_of_flipped[OF assms that] by (simp add: smt_upsert_def Let_def)
  from sibling_at_cong[OF this, of 256] show ?thesis
    by (simp add: smt_upsert_def[of _ _ ?k] Let_def recompute_path_spec[OF l])
qed

section \<open>Properties\<close>

text \<open>A toy hash: a counter over the first 32 bytes, for the witnesses.\<close>

definition smt_toy_hash :: hash_fn where
  "smt_toy_hash x = (if length x < 33 then replicate 32 0
                 else le_bytes 32 (le_value (take 32 (tl x)) + 1 :: 256 word))"

definition sample_ops :: "smt_op list" where
  "sample_ops = [Upsert (replicate 32 1) [7], Upsert (replicate 32 2) [8, 9], Remove (replicate 32 1)]"

lemma flip_replicate: "flip_bit (replicate 32 b) 255 \<noteq> replicate 32 c"
proof
  assume eq: "flip_bit (replicate 32 b) 255 = replicate 32 c"
  then have "flip_bit (replicate 32 b) 255 ! 0 = c" by simp
  then have "b = c" by (simp add: flip_bit_def)
  with eq show False using flip_bit_neq[of "replicate 32 b" 255] by simp
qed

lemma sample_ops_no_siblings: "no_leaf_siblings (replicate 32 4 # map op_key sample_ops)"
  by (simp add: no_leaf_siblings_def sample_ops_def flip_replicate)

text \<open>
  C9: The state root is the root of the complete Merkle tree over the live objects.  After any
  sequence of insertions, replacements and removals, in whatever order, the root that the code
  updates along single paths with its cache of nodes equals the root of the reference tree of all
  \<open>2 ^ 256\<close> leaves, as long as no two keys of the history differ in their last bit only: it is a
  function of the contents alone.
\<close>

theorem state_root_is_reference:
  "no_leaf_siblings (map op_key ops) \<Longrightarrow>
   sm_root (smt_run B ops) = merkle_root B (leaf_hashes B (smt_contents ops))"
  using smt_run_ok[of ops B] by (simp add: smt_ok_def)

theorem state_root_is_reference_witness:
  "sm_root (smt_run smt_toy_hash sample_ops) = merkle_root smt_toy_hash (leaf_hashes smt_toy_hash (smt_contents sample_ops))"
  by (rule state_root_is_reference)
    (use sample_ops_no_siblings in \<open>simp add: no_leaf_siblings_def\<close>)

lemma prove_complete:
  assumes "no_leaf_siblings (key # map op_key ops)"
  shows "smt_ok B (smt_run B ops)" "sm_leaves (smt_run B ops) = leaf_hashes B (smt_contents ops)"
    "length key = 32" "sm_leaves (smt_run B ops) (flip_bit key 255) = None"
    "smt_verify B (sm_root (smt_run B ops)) key (smt_contents ops key) (smt_prove B (smt_run B ops) key)"
proof -
  have "no_leaf_siblings (map op_key ops)" using assms by (simp add: no_leaf_siblings_def)
  then show ok: "smt_ok B (smt_run B ops)" "sm_leaves (smt_run B ops) = leaf_hashes B (smt_contents ops)"
    using smt_run_ok by blast+
  show l: "length key = 32" using assms by (simp add: no_leaf_siblings_def)
  have "flip_bit key 255 \<notin> op_key ` set ops" using assms by (simp add: no_leaf_siblings_def)
  then have "smt_contents ops (flip_bit key 255) = None" using dom_smt_contents[of ops] by auto
  then show n: "sm_leaves (smt_run B ops) (flip_bit key 255) = None" by (simp add: ok leaf_hashes_def)
  show "smt_verify B (sm_root (smt_run B ops)) key (smt_contents ops key) (smt_prove B (smt_run B ops) key)"
    by (rule smt_prove_verifies[OF l ok(1) n]) (simp add: ok leaf_hashes_def)
qed

text \<open>
  C14: Proofs of the state tree are complete and, short of a hash collision, sound, for a key of 32
  bytes as long as no two of it and the keys of the history differ in their last bit only.  Under
  that condition the proof the tree makes of the key is accepted with the value the tree holds,
  present or absent; and a proof from anywhere that is accepted against the root, with any claimed
  value, claims the truth, if the hash has no collision among the inputs hashed for the two proofs.
  Without the condition the proof of such a key fails, as the last property of this theory shows.
\<close>

theorem state_proofs_tell_the_truth:
  assumes "no_leaf_siblings (key # map op_key ops)" "\<And>x. length (B x) = 32"
  shows "smt_verify B (sm_root (smt_run B ops)) key (smt_contents ops key) (smt_prove B (smt_run B ops) key) \<and>
    (\<forall>v path. smt_verify B (sm_root (smt_run B ops)) key v path \<and>
       (\<forall>s \<in> set (siblings path). length s = 32) \<and>
       inj_on B (verify_inputs B key v path \<union>
                 verify_inputs B key (smt_contents ops key) (smt_prove B (smt_run B ops) key)) \<longrightarrow>
       v = smt_contents ops key)"
proof (intro conjI allI impI)
  note c = prove_complete[OF assms(1)]
  show ok: "smt_verify B (sm_root (smt_run B ops)) key (smt_contents ops key) (smt_prove B (smt_run B ops) key)"
    by (rule c(5))
  fix v path
  assume v: "smt_verify B (sm_root (smt_run B ops)) key v path \<and>
       (\<forall>s \<in> set (siblings path). length s = 32) \<and>
       inj_on B (verify_inputs B key v path \<union>
                 verify_inputs B key (smt_contents ops key) (smt_prove B (smt_run B ops) key))"
  have l: "length s = 32" if "s \<in> set (siblings (smt_prove B (smt_run B ops) key))" for s
    using length_siblings[OF assms(2) c(3) c(1) c(2) c(4) that] .
  show "v = smt_contents ops key"
    by (rule smt_verify_binding[OF conjunct1[OF v] ok assms(2)]) (use v c(3) l in auto)
qed

text \<open>The toy hash has no collision on the proof of an absent key in the empty tree.\<close>

definition toy_level :: "nat \<Rightarrow> hash" where
  "toy_level h = le_bytes 32 (of_nat h :: 256 word)"

lemma toy_step: "length c = 32 \<Longrightarrow> smt_toy_hash (INTERNAL_DOMAIN # c @ d) = le_bytes 32 (le_value c + 1 :: 256 word)"
  by (simp add: smt_toy_hash_def)

lemma toy_empty: "empty_at smt_toy_hash h = toy_level h"
proof (induction h)
  case 0
  have "le_bytes n (0 :: 256 word) = replicate n 0" for n by (induction n) simp_all
  then show ?case by (simp add: toy_level_def compute_empty_leaf_sentinel_def smt_toy_hash_def)
next
  case (Suc h)
  have "le_value (toy_level h) = (of_nat h :: 256 word)" by (simp add: toy_level_def le_round_trip)
  then show ?case
    by (simp add: Suc Let_def smt_internal_hash_def toy_step toy_level_def add.commute)
qed

lemma toy_path_inputs:
  "m + n \<le> 256 \<Longrightarrow>
   path_inputs smt_toy_hash key (siblings_of smt_toy_hash Map.empty key) (toy_level m) [Suc m..<Suc (m + n)]
     = (\<lambda>h. INTERNAL_DOMAIN # toy_level h @ toy_level h) ` {m..<m + n}"
proof (induction n arbitrary: m)
  case (Suc n)
  have sib: "siblings_of smt_toy_hash Map.empty key ! m = toy_level m"
    using Suc.prems by (simp add: siblings_of_def sibling_at_def node_at_def toy_empty)
  have inp: "merge_input key (siblings_of smt_toy_hash Map.empty key) (toy_level m) (Suc m)
      = INTERNAL_DOMAIN # toy_level m @ toy_level m"
    by (simp add: merge_input_def sib)
  have "merge_sibling smt_toy_hash key (siblings_of smt_toy_hash Map.empty key) (toy_level m) (Suc m) = toy_level (Suc m)"
    using toy_empty[of "Suc m"] by (simp add: merge_sibling_input inp toy_empty smt_internal_hash_def Let_def)
  moreover have "[Suc m..<Suc (m + Suc n)] = Suc m # [Suc (Suc m)..<Suc (Suc m + n)]"
    by (simp add: upt_rec[of "Suc m"])
  moreover have "{m..<m + Suc n} = insert m {Suc m..<Suc m + n}" by auto
  ultimately show ?case using Suc.IH[of "Suc m"] Suc.prems by (simp add: inp del: upt_Suc)
qed simp

lemma toy_no_collision:
  assumes "length key = 32"
  shows "inj_on smt_toy_hash (verify_inputs smt_toy_hash key None (smt_prove smt_toy_hash (smt_new smt_toy_hash) key))"
proof -
  have inj: "toy_level h = toy_level h' \<longleftrightarrow> h = h'" if "h \<le> 256" "h' \<le> 256" for h h'
  proof
    assume "toy_level h = toy_level h'"
    then have "le_value (toy_level h) = (le_value (toy_level h') :: 256 word)" by simp
    then have "unat (of_nat h :: 256 word) = unat (of_nat h' :: 256 word)"
      by (simp add: toy_level_def le_round_trip)
    then show "h = h'" using that by (simp add: unat_of_nat take_bit_nat_eq_self)
  qed simp
  have "verify_inputs smt_toy_hash key None (smt_prove smt_toy_hash (smt_new smt_toy_hash) key)
      = insert [LEAF_DOMAIN] ((\<lambda>h. INTERNAL_DOMAIN # toy_level h @ toy_level h) ` {0..<256})"
  proof -
    have "smt_toy_hash [LEAF_DOMAIN] = toy_level 0"
      using toy_empty[of 0] by (simp add: compute_empty_leaf_sentinel_def)
    then show ?thesis using toy_path_inputs[of 0 256 key]
      by (simp add: verify_inputs_def smt_leaf_input_def siblings_smt_prove smt_new_def TREE_DEPTH_def del: upt_Suc)
  qed
  moreover have "smt_toy_hash (INTERNAL_DOMAIN # toy_level h @ toy_level h) = toy_level (Suc h)" for h
    using toy_empty[of "Suc h"] by (simp add: toy_empty smt_internal_hash_def Let_def)
  moreover have "smt_toy_hash [LEAF_DOMAIN] = toy_level 0"
    using toy_empty[of 0] by (simp add: compute_empty_leaf_sentinel_def)
  ultimately show ?thesis using inj by (auto simp: inj_on_def)
qed

theorem state_proofs_tell_the_truth_witness:
  "smt_verify smt_toy_hash (sm_root (smt_run smt_toy_hash sample_ops)) (replicate 32 4) None
     (smt_prove smt_toy_hash (smt_run smt_toy_hash sample_ops) (replicate 32 4)) \<and>
   inj_on smt_toy_hash (verify_inputs smt_toy_hash (replicate 32 4) None
     (smt_prove smt_toy_hash (smt_run smt_toy_hash []) (replicate 32 4))) \<and>
   smt_verify smt_toy_hash (sm_root (smt_run smt_toy_hash [])) (replicate 32 4) None
     (smt_prove smt_toy_hash (smt_run smt_toy_hash []) (replicate 32 4))"
proof -
  have l: "length (smt_toy_hash x) = 32" for x by (simp add: smt_toy_hash_def)
  have "no_leaf_siblings (replicate 32 4 # map op_key [])"
    by (simp add: no_leaf_siblings_def flip_replicate)
  from state_proofs_tell_the_truth[OF this l] state_proofs_tell_the_truth[OF sample_ops_no_siblings l]
  show ?thesis using toy_no_collision[of "replicate 32 4"]
    by (simp add: smt_contents_def sample_ops_def smt_run_def)
qed

text \<open>
  C37: The root forgets a leaf when its last-bit sibling is written: nodes of height 0 are looked
  up but never stored.  Whatever the tree held, inserting a value under a key and then one under
  the key that differs in the last bit gives the root of the second insertion alone, so two states
  with different objects have the same state root.
\<close>

theorem state_root_forgets_last_bit_sibling:
  "length k = 32 \<Longrightarrow>
   sm_root (smt_upsert B (smt_upsert B t k v) (flip_bit k 255) w) = sm_root (smt_upsert B t (flip_bit k 255) w)"
  by (rule root_of_flipped)

theorem state_root_forgets_last_bit_sibling_witness:
  "sm_root (smt_upsert smt_toy_hash (smt_upsert smt_toy_hash (smt_new smt_toy_hash) (replicate 32 0) [1]) (replicate 31 0 @ [1]) [2])
    = sm_root (smt_upsert smt_toy_hash (smt_new smt_toy_hash) (replicate 31 0 @ [1]) [2])"
proof -
  have "flip_bit (replicate 32 0) 255 = replicate 31 0 @ [1]"
    by (simp add: flip_bit_def list_eq_iff_nth_eq nth_list_update nth_append)
  then show ?thesis
    using state_root_forgets_last_bit_sibling[of "replicate 32 0" smt_toy_hash "smt_new smt_toy_hash" "[1]" "[2]"]
    by simp
qed

end
