(* ===== verification/ObjectStore.thy ===== *)
theory ObjectStore
  imports Treasury ValidatorSet Smt "HOL-Library.AList"
begin

text \<open>
  The object store: \<^verbatim>\<open>object_model/store.rs\<close>, its durable form \<^verbatim>\<open>storage/object_db.rs\<close>, the fork
  \<^verbatim>\<open>storage/object_db_snapshot.rs\<close> on which a block is tried, and the write log
  \<^verbatim>\<open>executor/write_capture.rs\<close> of one transaction.  A hash map that is iterated is an association
  list, in the order of its iteration; the database under the store is the map of its rows, and
  whether a write of it succeeds is an argument.
\<close>

definition MAX_OBJECT_SIZE :: nat where "MAX_OBJECT_SIZE = 64 * 1024"

section \<open>The store\<close>

record store =
  st_objects :: "(obj_id \<times> obj) list"
  st_smt :: smt

definition store_new :: "hash_fn \<Rightarrow> store" where
  "store_new B = \<lparr>st_objects = [], st_smt = smt_new B\<rparr>"

abbreviation object_at :: "store \<Rightarrow> obj_id \<Rightarrow> obj option" where
  "object_at st \<equiv> map_of (st_objects st)"

definition state_root :: "store \<Rightarrow> hash" where
  "state_root st = sm_root (st_smt st)"

definition is_system_object :: "obj \<Rightarrow> bool" where
  "is_system_object ob \<longleftrightarrow> is_treasury_cap_object ob \<or> is_validator_set_object ob"

definition validate_system_object :: "hash_fn \<Rightarrow> obj \<Rightarrow> (l1_error, unit) outcome" where
  "validate_system_object B ob =
     (if is_treasury_cap_object ob then rbind (decode_treasury_cap ob) (\<lambda>_. Inr ())
      else if is_validator_set_object ob then rbind (validate_validator_set_object B ob) (\<lambda>_. Inr ())
      else other_fail ''object is not a recognized system singleton'')"

text \<open>The end of every write: the object and its leaf.\<close>

definition put_object :: "hash_fn \<Rightarrow> store \<Rightarrow> obj \<Rightarrow> store" where
  "put_object B st ob =
     st\<lparr>st_objects := AList.update (ob_id ob) ob (st_objects st),
        st_smt := smt_upsert B (st_smt st) (merkle_key B (ob_id ob)) (object_enc ob)\<rparr>"

definition create_inner :: "hash_fn \<Rightarrow> store \<Rightarrow> obj \<Rightarrow> (l1_error, store) outcome" where
  "create_inner B st ob =
     (if length (ob_data ob) > MAX_OBJECT_SIZE
      then Inl (Fail (ObjectTooLarge (length (ob_data ob)) MAX_OBJECT_SIZE))
      else if object_at st (ob_id ob) \<noteq> None then Inl (Fail (ObjectIDCollision (ob_id ob)))
      else Inr (put_object B st ob))"

definition store_create :: "hash_fn \<Rightarrow> store \<Rightarrow> obj \<Rightarrow> (l1_error, store) outcome" where
  "store_create B st ob =
     (if is_system_object ob then other_fail ''reserved system objects may only be created by a system path''
      else create_inner B st ob)"

definition system_create :: "hash_fn \<Rightarrow> store \<Rightarrow> obj \<Rightarrow> (l1_error, store) outcome" where
  "system_create B st ob = rbind (validate_system_object B ob) (\<lambda>_. create_inner B st ob)"

definition store_read :: "store \<Rightarrow> obj_id \<Rightarrow> (l1_error, obj) outcome" where
  "store_read st i = ok_or (ObjectNotFound i) (object_at st i)"

definition store_version_of :: "store \<Rightarrow> obj_id \<Rightarrow> (l1_error, nat) outcome" where
  "store_version_of st i = rbind (store_read st i) (\<lambda>ob. Inr (ob_version ob))"

definition system_replace :: "hash_fn \<Rightarrow> store \<Rightarrow> obj \<Rightarrow> (l1_error, store) outcome" where
  "system_replace B st ob =
     rbind (validate_system_object B ob) (\<lambda>_.
     if length (ob_data ob) > MAX_OBJECT_SIZE
     then Inl (Fail (ObjectTooLarge (length (ob_data ob)) MAX_OBJECT_SIZE))
     else
       rbind (store_read st (ob_id ob)) (\<lambda>existing.
       if \<not> is_system_object existing \<or> ob_type existing \<noteq> ob_type ob
       then other_fail ''system object ID is occupied by a different object type''
       else
         rbind (ok_or (Other ''system object version overflow'') (checked_add_u64 (ob_version existing) 1))
           (\<lambda>expected_version.
         if ob_version ob \<noteq> expected_version
         then Inl (Fail (ObjectVersionMismatch expected_version (ob_version ob)))
         else Inr (put_object B st ob))))"

definition store_update :: "hash_fn \<Rightarrow> store \<Rightarrow> obj_id \<Rightarrow> address \<Rightarrow> byte list \<Rightarrow> (l1_error, store) outcome" where
  "store_update B st i actor new_data =
     (if length new_data > MAX_OBJECT_SIZE
      then Inl (Fail (ObjectTooLarge (length new_data) MAX_OBJECT_SIZE))
      else
        rbind (store_read st i) (\<lambda>ob.
        if is_system_object ob then other_fail ''reserved system objects may only be updated by a system path''
        else if is_native_coin_object ob then other_fail ''native coin is an immutable UTXO and cannot be updated''
        else if \<not> can_write ob actor
        then (if is_immutable (ob_owner ob) then Inl (Fail (ObjectImmutable i)) else Inl (Fail (NotOwner i)))
        else Inr (put_object B st (bump_version (ob\<lparr>ob_data := new_data\<rparr>)))))"

definition store_transfer :: "hash_fn \<Rightarrow> store \<Rightarrow> obj_id \<Rightarrow> address \<Rightarrow> address \<Rightarrow> (l1_error, store) outcome" where
  "store_transfer B st i actor new_owner =
     rbind (store_read st i) (\<lambda>ob.
     if is_system_object ob then other_fail ''reserved system objects may only be transferred by a system path''
     else if is_native_coin_object ob
     then other_fail ''native coin is an immutable UTXO and cannot be transferred in place''
     else if \<not> is_transferable (ob_owner ob) then Inl (Fail (ObjectImmutable i))
     else if \<not> can_write ob actor then Inl (Fail (NotOwner i))
     else Inr (put_object B st (bump_version (ob\<lparr>ob_owner := AddressOwned new_owner\<rparr>))))"

definition store_delete :: "hash_fn \<Rightarrow> store \<Rightarrow> obj_id \<Rightarrow> (l1_error, store \<times> obj) outcome" where
  "store_delete B st i =
     (if (case object_at st i of None \<Rightarrow> False | Some ob \<Rightarrow> is_system_object ob)
      then other_fail ''reserved system objects may only be replaced by a system path''
      else
        rbind (store_read st i) (\<lambda>ob.
        Inr (st\<lparr>st_objects := AList.delete i (st_objects st),
                st_smt := smt_remove B (st_smt st) (merkle_key B i)\<rparr>, ob)))"

definition batch_create :: "hash_fn \<Rightarrow> store \<Rightarrow> obj list \<Rightarrow> (l1_error, store) outcome" where
  "batch_create B st obs =
     rbind (foldM (\<lambda>seen ob.
         if object_at st (ob_id ob) \<noteq> None \<or> ob_id ob \<in> seen then Inl (Fail (ObjectIDCollision (ob_id ob)))
         else Inr (insert (ob_id ob) seen)) {} obs) (\<lambda>_.
     foldM (store_create B) st obs)"

definition store_prove :: "hash_fn \<Rightarrow> store \<Rightarrow> obj_id \<Rightarrow> (l1_error, merkle_path) outcome" where
  "store_prove B st i =
     (if object_at st i = None then Inl (Fail (ObjectNotFound i))
      else Inr (smt_prove B (st_smt st) (merkle_key B i)))"

definition prove_nonexistence :: "hash_fn \<Rightarrow> store \<Rightarrow> obj_id \<Rightarrow> merkle_path" where
  "prove_nonexistence B st i = smt_prove B (st_smt st) (merkle_key B i)"

section \<open>Mutations and the database\<close>

datatype mutation =
    Create obj
  | Update obj_id address "byte list"
  | Transfer obj_id address address
  | Delete obj_id
  | SystemCreate obj
  | SystemReplace obj

fun apply_mutation :: "hash_fn \<Rightarrow> store \<Rightarrow> mutation \<Rightarrow> (l1_error, store) outcome" where
  "apply_mutation B st (Create ob) = store_create B st ob"
| "apply_mutation B st (Update i actor new_data) = store_update B st i actor new_data"
| "apply_mutation B st (Transfer i actor new_owner) = store_transfer B st i actor new_owner"
| "apply_mutation B st (Delete i) = rbind (store_delete B st i) (\<lambda>(st', _). Inr st')"
| "apply_mutation B st (SystemCreate ob) = system_create B st ob"
| "apply_mutation B st (SystemReplace ob) = system_replace B st ob"

fun target_id :: "mutation \<Rightarrow> obj_id" where
  "target_id (Create ob) = ob_id ob"
| "target_id (Update i _ _) = i"
| "target_id (Transfer i _ _) = i"
| "target_id (Delete i) = i"
| "target_id (SystemCreate ob) = ob_id ob"
| "target_id (SystemReplace ob) = ob_id ob"

record object_db =
  od_rows :: "byte list \<rightharpoonup> byte list"
  od_store :: store

definition put_row :: "store \<Rightarrow> (byte list \<rightharpoonup> byte list) \<Rightarrow> obj_id \<Rightarrow> (byte list \<rightharpoonup> byte list)" where
  "put_row staged rows i =
     (case object_at staged i of
        Some ob \<Rightarrow> rows(id_to_bytes i \<mapsto> object_enc ob)
      | None \<Rightarrow> rows(id_to_bytes i := None))"

text \<open>The batch works on a clone; the result of the durable write is the second argument.\<close>

definition apply_batch ::
  "hash_fn \<Rightarrow> (l1_error, unit) outcome \<Rightarrow> object_db \<Rightarrow> mutation list \<Rightarrow> object_db \<times> (l1_error, unit) outcome" where
  "apply_batch B written db mutations =
     (if mutations = [] then (db, Inr ())
      else
        (case foldM (\<lambda>(staged, touched) m.
                 rbind (apply_mutation B staged m) (\<lambda>staged'.
                 Inr (staged', if target_id m \<in> set touched then touched else touched @ [target_id m])))
               (od_store db, []) mutations of
           Inl e \<Rightarrow> (db, Inl e)
         | Inr (staged, touched) \<Rightarrow>
             (case written of
                Inl e \<Rightarrow> (db, Inl e)
              | Inr _ \<Rightarrow> (\<lparr>od_rows = foldl (put_row staged) (od_rows db) touched, od_store = staged\<rparr>, Inr ()))))"

section \<open>The interface of the backends\<close>

text \<open>
  \<open>ObjectBackend\<close>: a method that takes \<open>&mut self\<close> returns the state it leaves, also on an error.  The
  state root is a function of the store, and staging a bridge deposit, which only a write capture
  does, an operation of the capture.
\<close>

record 's backend =
  be_create :: "'s \<Rightarrow> obj \<Rightarrow> 's \<times> (l1_error, unit) outcome"
  be_read :: "'s \<Rightarrow> obj_id \<Rightarrow> (l1_error, obj) outcome"
  be_version_of :: "'s \<Rightarrow> obj_id \<Rightarrow> (l1_error, nat) outcome"
  be_update :: "'s \<Rightarrow> obj_id \<Rightarrow> address \<Rightarrow> byte list \<Rightarrow> 's \<times> (l1_error, unit) outcome"
  be_transfer :: "'s \<Rightarrow> obj_id \<Rightarrow> address \<Rightarrow> address \<Rightarrow> 's \<times> (l1_error, unit) outcome"
  be_delete :: "'s \<Rightarrow> obj_id \<Rightarrow> 's \<times> (l1_error, obj) outcome"
  be_replace_objects :: "'s \<Rightarrow> obj_id list \<Rightarrow> obj list \<Rightarrow> 's \<times> (l1_error, unit) outcome"
  be_replace_system_object :: "'s \<Rightarrow> obj \<Rightarrow> 's \<times> (l1_error, unit) outcome"

text \<open>Sequencing of calls that keep their state on an error, and loops over them.\<close>

definition sbind :: "'s \<times> (l1_error, 'a) outcome \<Rightarrow> ('s \<Rightarrow> 'a \<Rightarrow> 's \<times> (l1_error, 'b) outcome) \<Rightarrow>
    's \<times> (l1_error, 'b) outcome" where
  "sbind m k = (case m of (s, Inl e) \<Rightarrow> (s, Inl e) | (s, Inr x) \<Rightarrow> k s x)"

primrec sloop :: "('s \<Rightarrow> 'x \<Rightarrow> 's \<times> (l1_error, 'a) outcome) \<Rightarrow> 's \<Rightarrow> 'x list \<Rightarrow> 's \<times> (l1_error, unit) outcome" where
  "sloop f s [] = (s, Inr ())"
| "sloop f s (x # xs) = sbind (f s x) (\<lambda>s' _. sloop f s' xs)"

definition replace_objects_default ::
  "('s \<Rightarrow> obj_id \<Rightarrow> 's \<times> (l1_error, obj) outcome) \<Rightarrow> ('s \<Rightarrow> obj \<Rightarrow> 's \<times> (l1_error, unit) outcome) \<Rightarrow>
   's \<Rightarrow> obj_id list \<Rightarrow> obj list \<Rightarrow> 's \<times> (l1_error, unit) outcome" where
  "replace_objects_default del cre s delete_ids create_objects =
     sbind (sloop del s delete_ids) (\<lambda>s' _. sloop cre s' create_objects)"

definition db_delete ::
  "hash_fn \<Rightarrow> (l1_error, unit) outcome \<Rightarrow> object_db \<Rightarrow> obj_id \<Rightarrow> object_db \<times> (l1_error, obj) outcome" where
  "db_delete B written db i =
     (case store_read (od_store db) i of
        Inl e \<Rightarrow> (db, Inl e)
      | Inr deleted \<Rightarrow> sbind (apply_batch B written db [Delete i]) (\<lambda>db' _. (db', Inr deleted)))"

definition db_backend :: "hash_fn \<Rightarrow> (l1_error, unit) outcome \<Rightarrow> object_db backend" where
  "db_backend B written =
     \<lparr>be_create = (\<lambda>db ob. apply_batch B written db [Create ob]),
      be_read = (\<lambda>db. store_read (od_store db)),
      be_version_of = (\<lambda>db. store_version_of (od_store db)),
      be_update = (\<lambda>db i actor dat. apply_batch B written db [Update i actor dat]),
      be_transfer = (\<lambda>db i actor new_owner. apply_batch B written db [Transfer i actor new_owner]),
      be_delete = db_delete B written,
      be_replace_objects = (\<lambda>db delete_ids create_objects.
         apply_batch B written db (map Delete delete_ids @ map Create create_objects)),
      be_replace_system_object = (\<lambda>db ob. apply_batch B written db [SystemReplace ob])\<rparr>"

end
