(* ===== verification/Snapshots.thy ===== *)
theory Snapshots
  imports ObjectStore
begin

text \<open>
  The two forks of the store.  A snapshot (\<^verbatim>\<open>storage/object_db_snapshot.rs\<close>) clones the store and
  logs its mutations, to be replayed on the database when the block is kept.  A write capture
  (\<^verbatim>\<open>executor/write_capture.rs\<close>) reads through to the shared database and keeps the writes of one
  transaction in a log of its own, with the latest view of every object it wrote.
\<close>

section \<open>Snapshots\<close>

record snapshot =
  sn_store :: store
  sn_mutations :: "mutation list"

definition create_snapshot :: "object_db \<Rightarrow> snapshot" where
  "create_snapshot db = \<lparr>sn_store = od_store db, sn_mutations = []\<rparr>"

definition apply_to :: "hash_fn \<Rightarrow> (l1_error, unit) outcome \<Rightarrow> snapshot \<Rightarrow> object_db \<Rightarrow> object_db \<times> (l1_error, unit) outcome" where
  "apply_to B written sn db = apply_batch B written db (sn_mutations sn)"

text \<open>Every write of a snapshot: the store first, then the log.\<close>

definition snapshot_mutate :: "hash_fn \<Rightarrow> snapshot \<Rightarrow> mutation \<Rightarrow> snapshot \<times> (l1_error, unit) outcome" where
  "snapshot_mutate B sn m =
     (case apply_mutation B (sn_store sn) m of
        Inl e \<Rightarrow> (sn, Inl e)
      | Inr st \<Rightarrow> (\<lparr>sn_store = st, sn_mutations = sn_mutations sn @ [m]\<rparr>, Inr ()))"

definition snapshot_delete :: "hash_fn \<Rightarrow> snapshot \<Rightarrow> obj_id \<Rightarrow> snapshot \<times> (l1_error, obj) outcome" where
  "snapshot_delete B sn i =
     (case store_delete B (sn_store sn) i of
        Inl e \<Rightarrow> (sn, Inl e)
      | Inr (st, deleted) \<Rightarrow> (\<lparr>sn_store = st, sn_mutations = sn_mutations sn @ [Delete i]\<rparr>, Inr deleted))"

definition snapshot_backend :: "hash_fn \<Rightarrow> snapshot backend" where
  "snapshot_backend B =
     \<lparr>be_create = (\<lambda>sn ob. snapshot_mutate B sn (Create ob)),
      be_read = (\<lambda>sn. store_read (sn_store sn)),
      be_version_of = (\<lambda>sn. store_version_of (sn_store sn)),
      be_update = (\<lambda>sn i actor dat. snapshot_mutate B sn (Update i actor dat)),
      be_transfer = (\<lambda>sn i actor new_owner. snapshot_mutate B sn (Transfer i actor new_owner)),
      be_delete = snapshot_delete B,
      be_replace_objects = replace_objects_default (snapshot_delete B) (\<lambda>sn ob. snapshot_mutate B sn (Create ob)),
      be_replace_system_object = (\<lambda>sn ob. snapshot_mutate B sn (SystemReplace ob))\<rparr>"

section \<open>Write logs\<close>

datatype write_op =
    WCreate obj
  | WUpdate obj_id address "byte list"
  | WTransfer obj_id address address
  | WDelete obj_id

record write_log =
  wl_writes :: "write_op list"
  wl_written_ids :: "obj_id set"
  wl_current :: "obj_id \<rightharpoonup> obj option"
  wl_bridge_deposit_nonces :: "(nat \<times> nat) list"

definition write_log_new :: write_log where
  "write_log_new = \<lparr>wl_writes = [], wl_written_ids = {}, wl_current = Map.empty, wl_bridge_deposit_nonces = []\<rparr>"

text \<open>The four \<open>push\<close> operations: the id, the view of the object after the write, the operation.\<close>

definition push_write :: "write_log \<Rightarrow> obj_id \<Rightarrow> obj option \<Rightarrow> write_op \<Rightarrow> write_log" where
  "push_write log i v w =
     log\<lparr>wl_written_ids := insert i (wl_written_ids log), wl_current := (wl_current log)(i \<mapsto> v),
         wl_writes := wl_writes log @ [w]\<rparr>"

fun write_op_to_mutation :: "write_op \<Rightarrow> mutation" where
  "write_op_to_mutation (WCreate ob) = Create ob"
| "write_op_to_mutation (WUpdate i actor dat) = Update i actor dat"
| "write_op_to_mutation (WTransfer i actor new_owner) = Transfer i actor new_owner"
| "write_op_to_mutation (WDelete i) = Delete i"

record capture =
  cp_shared :: store
  cp_log :: write_log

definition capture_new :: "store \<Rightarrow> capture" where
  "capture_new shared = \<lparr>cp_shared = shared, cp_log = write_log_new\<rparr>"

definition resolved_get :: "capture \<Rightarrow> obj_id \<Rightarrow> obj option" where
  "resolved_get c i =
     (case wl_current (cp_log c) i of Some v \<Rightarrow> v | None \<Rightarrow> object_at (cp_shared c) i)"

definition capture_push :: "capture \<Rightarrow> obj_id \<Rightarrow> obj option \<Rightarrow> write_op \<Rightarrow> capture" where
  "capture_push c i v w = c\<lparr>cp_log := push_write (cp_log c) i v w\<rparr>"

definition capture_create :: "capture \<Rightarrow> obj \<Rightarrow> (l1_error, capture) outcome" where
  "capture_create c ob =
     (if is_treasury_cap_object ob
      then other_fail ''TreasuryCap may only be created by the economics system path''
      else if resolved_get c (ob_id ob) \<noteq> None then Inl (Fail (ObjectIDCollision (ob_id ob)))
      else Inr (capture_push c (ob_id ob) (Some ob) (WCreate ob)))"

definition capture_read :: "capture \<Rightarrow> obj_id \<Rightarrow> (l1_error, obj) outcome" where
  "capture_read c i =
     (case wl_current (cp_log c) i of
        Some v \<Rightarrow> ok_or (ObjectNotFound i) v
      | None \<Rightarrow> store_read (cp_shared c) i)"

definition capture_version_of :: "capture \<Rightarrow> obj_id \<Rightarrow> (l1_error, nat) outcome" where
  "capture_version_of c i =
     (case wl_current (cp_log c) i of
        Some (Some ob) \<Rightarrow> Inr (ob_version ob)
      | _ \<Rightarrow> store_version_of (cp_shared c) i)"

definition capture_update :: "capture \<Rightarrow> obj_id \<Rightarrow> address \<Rightarrow> byte list \<Rightarrow> (l1_error, capture) outcome" where
  "capture_update c i actor new_data =
     rbind (ok_or (ObjectNotFound i) (resolved_get c i)) (\<lambda>ob.
     if is_treasury_cap_object ob
     then other_fail ''TreasuryCap may only be updated by the economics system path''
     else if is_native_coin_object ob
     then other_fail ''native coin is an immutable UTXO and cannot be updated''
     else if \<not> can_write ob actor then Inl (Fail (NotOwner i))
     else if length new_data > MAX_OBJECT_SIZE
     then Inl (Fail (ObjectTooLarge (length new_data) MAX_OBJECT_SIZE))
     else Inr (capture_push c i (Some (bump_version (ob\<lparr>ob_data := new_data\<rparr>))) (WUpdate i actor new_data)))"

definition capture_transfer :: "capture \<Rightarrow> obj_id \<Rightarrow> address \<Rightarrow> address \<Rightarrow> (l1_error, capture) outcome" where
  "capture_transfer c i actor new_owner =
     rbind (ok_or (ObjectNotFound i) (resolved_get c i)) (\<lambda>ob.
     if is_treasury_cap_object ob
     then other_fail ''TreasuryCap may only be transferred by the economics system path''
     else if is_native_coin_object ob
     then other_fail ''native coin is an immutable UTXO and cannot be transferred in place''
     else if \<not> is_transferable (ob_owner ob) then Inl (Fail (ObjectImmutable i))
     else if \<not> can_write ob actor then Inl (Fail (NotOwner i))
     else Inr (capture_push c i (Some (bump_version (ob\<lparr>ob_owner := AddressOwned new_owner\<rparr>)))
                 (WTransfer i actor new_owner)))"

definition capture_delete :: "capture \<Rightarrow> obj_id \<Rightarrow> (l1_error, capture \<times> obj) outcome" where
  "capture_delete c i =
     rbind (ok_or (ObjectNotFound i) (resolved_get c i)) (\<lambda>existing.
     if is_treasury_cap_object existing
     then other_fail ''TreasuryCap may only be replaced by the economics system path''
     else Inr (capture_push c i None (WDelete i), existing))"

definition keep :: "'s \<Rightarrow> (l1_error, 's) outcome \<Rightarrow> 's \<times> (l1_error, unit) outcome" where
  "keep s r = (case r of Inl e \<Rightarrow> (s, Inl e) | Inr s' \<Rightarrow> (s', Inr ()))"

definition keep_with :: "'s \<Rightarrow> (l1_error, 's \<times> 'a) outcome \<Rightarrow> 's \<times> (l1_error, 'a) outcome" where
  "keep_with s r = (case r of Inl e \<Rightarrow> (s, Inl e) | Inr (s', x) \<Rightarrow> (s', Inr x))"

definition capture_backend :: "capture backend" where
  "capture_backend =
     \<lparr>be_create = (\<lambda>c ob. keep c (capture_create c ob)),
      be_read = capture_read,
      be_version_of = capture_version_of,
      be_update = (\<lambda>c i actor dat. keep c (capture_update c i actor dat)),
      be_transfer = (\<lambda>c i actor new_owner. keep c (capture_transfer c i actor new_owner)),
      be_delete = (\<lambda>c i. keep_with c (capture_delete c i)),
      be_replace_objects = replace_objects_default (\<lambda>c i. keep_with c (capture_delete c i))
         (\<lambda>c ob. keep c (capture_create c ob)),
      be_replace_system_object = (\<lambda>c _. (c, other_fail ''system object replacement is unavailable on this backend''))\<rparr>"

definition stage_bridge_deposit :: "capture \<Rightarrow> nat \<Rightarrow> nat \<Rightarrow> capture" where
  "stage_bridge_deposit c source_chain_id nonce =
     c\<lparr>cp_log := (cp_log c)\<lparr>wl_bridge_deposit_nonces := wl_bridge_deposit_nonces (cp_log c) @ [(source_chain_id, nonce)]\<rparr>\<rparr>"

text \<open>
  The merge of a log into the database, with the consumed deposit nonces of the bridge (none if
  the node has no bridge).  The result of persisting a nonce is an argument.
\<close>

definition apply_to_with_bridge ::
  "hash_fn \<Rightarrow> (l1_error, unit) outcome \<Rightarrow> (nat \<times> nat \<Rightarrow> (l1_error, unit) outcome) \<Rightarrow> write_log \<Rightarrow> object_db \<Rightarrow>
   (nat \<times> nat) set option \<Rightarrow> (object_db \<times> (nat \<times> nat) set option) \<times> (l1_error, unit) outcome" where
  "apply_to_with_bridge B written persisted log db bridge =
     (if wl_bridge_deposit_nonces log \<noteq> [] then
        (case bridge of
           None \<Rightarrow> ((db, bridge), other_fail ''bridge deposit staged but merge has no bridge registry store'')
         | Some consumed \<Rightarrow>
             (case List.find (\<lambda>n. n \<in> consumed) (wl_bridge_deposit_nonces log) of
                Some n \<Rightarrow> ((db, bridge), Inl (Fail (BridgeNonceConsumed (snd n))))
              | None \<Rightarrow>
                  (case apply_batch B written db (map write_op_to_mutation (wl_writes log)) of
                     (db', Inl e) \<Rightarrow> ((db', bridge), Inl e)
                   | (db', Inr _) \<Rightarrow>
                       sloop (\<lambda>(d, reg) n. ((d, map_option (insert n) reg), persisted n)) (db', bridge)
                         (wl_bridge_deposit_nonces log))))
      else
        (case apply_batch B written db (map write_op_to_mutation (wl_writes log)) of
           (db', r) \<Rightarrow> ((db', bridge), r)))"

section \<open>Lookups after a write\<close>

lemma object_at_put [simp]:
  "object_at (put_object B st ob) = (object_at st)(ob_id ob \<mapsto> ob)"
  by (simp add: put_object_def update_conv')

lemma store_read_Inr [outcome_simps]: "store_read st i = Inr ob \<longleftrightarrow> object_at st i = Some ob"
  by (auto simp: store_read_def outcome_simps)

lemma create_inner_Inr [outcome_simps]:
  "create_inner B st ob = Inr st' \<longleftrightarrow>
     length (ob_data ob) \<le> MAX_OBJECT_SIZE \<and> object_at st (ob_id ob) = None \<and> st' = put_object B st ob"
  by (auto simp: create_inner_def not_less)

lemma store_create_Inr [outcome_simps]:
  "store_create B st ob = Inr st' \<longleftrightarrow> \<not> is_system_object ob \<and>
     length (ob_data ob) \<le> MAX_OBJECT_SIZE \<and> object_at st (ob_id ob) = None \<and> st' = put_object B st ob"
  by (auto simp: store_create_def other_fail_def outcome_simps)

text \<open>The objects carry their own identity, once each.\<close>

definition store_wf :: "store \<Rightarrow> bool" where
  "store_wf st \<longleftrightarrow> distinct (map fst (st_objects st)) \<and> (\<forall>(i, ob) \<in> set (st_objects st). ob_id ob = i)"

lemma store_wf_lookup: "store_wf st \<Longrightarrow> object_at st i = Some ob \<Longrightarrow> ob_id ob = i"
  by (auto simp: store_wf_def dest!: map_of_SomeD)

text \<open>What each mutation does to the lookups, when it succeeds.\<close>

fun mutated :: "mutation \<Rightarrow> obj option \<Rightarrow> obj option" where
  "mutated (Create ob) _ = Some ob"
| "mutated (Update _ _ dat) v = map_option (\<lambda>ob. bump_version (ob\<lparr>ob_data := dat\<rparr>)) v"
| "mutated (Transfer _ _ new_owner) v = map_option (\<lambda>ob. bump_version (ob\<lparr>ob_owner := AddressOwned new_owner\<rparr>)) v"
| "mutated (Delete _) _ = None"
| "mutated (SystemCreate ob) _ = Some ob"
| "mutated (SystemReplace ob) _ = Some ob"

text \<open>When a mutation is accepted, in terms of the object it finds.\<close>

fun accepts :: "hash_fn \<Rightarrow> mutation \<Rightarrow> obj option \<Rightarrow> bool" where
  "accepts B (Create ob) v \<longleftrightarrow> \<not> is_system_object ob \<and> length (ob_data ob) \<le> MAX_OBJECT_SIZE \<and> v = None"
| "accepts B (Update i actor dat) v \<longleftrightarrow> length dat \<le> MAX_OBJECT_SIZE \<and>
     (\<exists>ob. v = Some ob \<and> \<not> is_system_object ob \<and> \<not> is_native_coin_object ob \<and> can_write ob actor)"
| "accepts B (Transfer i actor new_owner) v \<longleftrightarrow>
     (\<exists>ob. v = Some ob \<and> \<not> is_system_object ob \<and> \<not> is_native_coin_object ob \<and> is_transferable (ob_owner ob) \<and>
        can_write ob actor)"
| "accepts B (Delete i) v \<longleftrightarrow> (\<exists>ob. v = Some ob \<and> \<not> is_system_object ob)"
| "accepts B (SystemCreate ob) v \<longleftrightarrow> validate_system_object B ob = Inr () \<and> length (ob_data ob) \<le> MAX_OBJECT_SIZE \<and> v = None"
| "accepts B (SystemReplace ob) v \<longleftrightarrow> validate_system_object B ob = Inr () \<and> length (ob_data ob) \<le> MAX_OBJECT_SIZE \<and>
     (\<exists>old. v = Some old \<and> is_system_object old \<and> ob_type old = ob_type ob \<and>
        ob_version ob = ob_version old + 1 \<and> ob_version old + 1 < u64_limit)"

lemma bump_version_simps [simp]:
  "ob_id (bump_version ob) = ob_id ob" "ob_type (bump_version ob) = ob_type ob"
  "ob_data (bump_version ob) = ob_data ob" "ob_owner (bump_version ob) = ob_owner ob"
  by (simp_all add: bump_version_def)

lemma apply_mutation_accepts:
  "(\<exists>st'. apply_mutation B st m = Inr st') \<longleftrightarrow> accepts B m (object_at st (target_id m))"
  by (cases m)
    (auto simp: store_update_def store_transfer_def store_delete_def system_create_def system_replace_def
      outcome_simps other_fail_def not_less split: if_splits option.splits)

lemma apply_mutation_lookup:
  assumes "apply_mutation B st m = Inr st'" "store_wf st"
  shows "object_at st' = (object_at st)(target_id m := mutated m (object_at st (target_id m)))"
  using assms store_wf_lookup[OF assms(2)]
  by (cases m)
    (auto simp: store_update_def store_transfer_def store_delete_def system_create_def system_replace_def
      outcome_simps other_fail_def delete_conv' fun_eq_iff split: if_splits option.splits)

lemma store_wf_put: "store_wf st \<Longrightarrow> store_wf (put_object B st ob)"
proof -
  assume wf: "store_wf st"
  have d: "distinct (map fst (AList.update (ob_id ob) ob (st_objects st)))"
    using wf by (simp add: store_wf_def distinct_update)
  have "ob_id ob' = i" if "(i, ob') \<in> set (AList.update (ob_id ob) ob (st_objects st))" for i ob'
  proof -
    have "map_of (AList.update (ob_id ob) ob (st_objects st)) i = Some ob'"
      using d that by (simp add: map_of_eq_Some_iff)
    then show ?thesis using wf store_wf_lookup by (auto simp: update_conv' split: if_splits)
  qed
  with d show ?thesis by (auto simp: store_wf_def put_object_def)
qed

lemma store_wf_delete: "store_wf st \<Longrightarrow> store_wf (st\<lparr>st_objects := AList.delete i (st_objects st), st_smt := x\<rparr>)"
  unfolding store_wf_def by (auto simp: distinct_delete AList.delete_eq intro: distinct_map_filter)

lemma apply_mutation_wf:
  assumes "apply_mutation B st m = Inr st'" "store_wf st"
  shows "store_wf st'"
  using assms(1) store_wf_put[OF assms(2), of B] store_wf_delete[OF assms(2)]
  by (cases m)
    (auto simp: store_update_def store_transfer_def store_delete_def system_create_def system_replace_def
      outcome_simps other_fail_def split: if_splits option.splits)

section \<open>The database follows its store\<close>

definition run_mutations :: "hash_fn \<Rightarrow> store \<Rightarrow> mutation list \<Rightarrow> (l1_error, store) outcome" where
  "run_mutations B st ms = foldM (apply_mutation B) st ms"

lemma run_mutations_wf: "run_mutations B st ms = Inr st' \<Longrightarrow> store_wf st \<Longrightarrow> store_wf st'"
  unfolding run_mutations_def by (rule foldM_invariant) (auto intro: apply_mutation_wf)

lemma run_mutations_append:
  "run_mutations B st (ms @ ns) = rbind (run_mutations B st ms) (\<lambda>st'. run_mutations B st' ns)"
  by (simp add: run_mutations_def foldM_append)

lemma run_mutations_other:
  assumes "run_mutations B st ms = Inr st'" "store_wf st" "i \<notin> target_id ` set ms"
  shows "object_at st' i = object_at st i"
  using assms
proof (induction ms arbitrary: st)
  case (Cons m ms)
  then obtain st1 where st1: "apply_mutation B st m = Inr st1" "run_mutations B st1 ms = Inr st'"
    by (auto simp: run_mutations_def outcome_simps)
  have "object_at st' i = object_at st1 i"
    by (rule Cons.IH[OF st1(2) apply_mutation_wf[OF st1(1) Cons.prems(2)]]) (use Cons.prems(3) in simp)
  then show ?case
    using apply_mutation_lookup[OF st1(1) Cons.prems(2)] Cons.prems(3) by simp
qed (simp add: run_mutations_def)

lemma staged_loop:
  "foldM (\<lambda>(staged, touched) m. rbind (apply_mutation B staged m) (\<lambda>staged'.
       Inr (staged', if target_id m \<in> set touched then touched else touched @ [target_id m]))) (st, ts) ms = r
   \<Longrightarrow> (case r of
         Inl e \<Rightarrow> run_mutations B st ms = Inl e
       | Inr (st', ts') \<Rightarrow> run_mutations B st ms = Inr st' \<and> set ts' = set ts \<union> target_id ` set ms)"
proof (induction ms arbitrary: st ts)
  case Nil
  then show ?case by (auto simp: run_mutations_def)
next
  case (Cons m ms)
  show ?case
  proof (cases "apply_mutation B st m")
    case (Inl e)
    then show ?thesis using Cons.prems by (auto simp: run_mutations_def)
  next
    case (Inr st1)
    let ?ts = "if target_id m \<in> set ts then ts else ts @ [target_id m]"
    from Cons.prems Inr have "foldM (\<lambda>(staged, touched) m. rbind (apply_mutation B staged m) (\<lambda>staged'.
       Inr (staged', if target_id m \<in> set touched then touched else touched @ [target_id m]))) (st1, ?ts) ms = r"
      by simp
    from Cons.IH[OF this] Inr show ?thesis
      by (auto simp: run_mutations_def split: sum.splits prod.splits)
  qed
qed

lemma apply_batch_cases:
  "(apply_batch B written db ms = (db, Inr ()) \<and> ms = []) \<or>
   (\<exists>e. apply_batch B written db ms = (db, Inl e) \<and> ms \<noteq> [] \<and>
      (run_mutations B (od_store db) ms = Inl e \<or>
       (\<exists>st. run_mutations B (od_store db) ms = Inr st) \<and> written = Inl e)) \<or>
   (\<exists>st ts. ms \<noteq> [] \<and> written = Inr () \<and> run_mutations B (od_store db) ms = Inr st \<and> set ts = target_id ` set ms \<and>
      apply_batch B written db ms = (\<lparr>od_rows = foldl (put_row st) (od_rows db) ts, od_store = st\<rparr>, Inr ()))"
proof (cases "ms = []")
  case True
  then show ?thesis by (simp add: apply_batch_def)
next
  case False
  define r where "r = foldM (\<lambda>(staged, touched) m. rbind (apply_mutation B staged m) (\<lambda>staged'.
       Inr (staged', if target_id m \<in> set touched then touched else touched @ [target_id m]))) (od_store db, []) ms"
  note l = staged_loop[OF r_def[symmetric]]
  have b: "apply_batch B written db ms = (case r of Inl e \<Rightarrow> (db, Inl e) | Inr (staged, touched) \<Rightarrow>
      (case written of Inl e \<Rightarrow> (db, Inl e)
       | Inr _ \<Rightarrow> (\<lparr>od_rows = foldl (put_row staged) (od_rows db) touched, od_store = staged\<rparr>, Inr ())))"
    using False by (simp add: apply_batch_def r_def)
  show ?thesis
  proof (cases r)
    case (Inl e)
    then show ?thesis using l b False by auto
  next
    case (Inr p)
    then obtain st ts where p: "r = Inr (st, ts)" by (cases p) simp
    then show ?thesis using l b False by (cases written) auto
  qed
qed

text \<open>The ids are those of the Rust types, so that their 28 bytes tell them apart.\<close>

definition ids_wf :: "obj_id set \<Rightarrow> bool" where
  "ids_wf I \<longleftrightarrow> (\<forall>i \<in> I. id_wf i)"

definition rows_of :: "store \<Rightarrow> (byte list \<rightharpoonup> byte list) \<Rightarrow> bool" where
  "rows_of st rows \<longleftrightarrow> (\<forall>i. id_wf i \<longrightarrow> rows (id_to_bytes i) = map_option object_enc (object_at st i))"

definition db_ok :: "object_db \<Rightarrow> bool" where
  "db_ok db \<longleftrightarrow> store_wf (od_store db) \<and> rows_of (od_store db) (od_rows db)"

lemma put_rows:
  assumes "\<forall>i \<in> set ts. id_wf i" "id_wf i"
  shows "foldl (put_row st) rows ts (id_to_bytes i) =
    (if i \<in> set ts then map_option object_enc (object_at st i) else rows (id_to_bytes i))"
  using assms
proof (induction ts arbitrary: rows)
  case (Cons t ts)
  have "put_row st rows t (id_to_bytes i) =
      (if i = t then map_option object_enc (object_at st i) else rows (id_to_bytes i))"
    using Cons.prems id_to_bytes_inj[of i t] by (auto simp: put_row_def split: option.splits)
  with Cons show ?case by auto
qed simp

lemma apply_batch_ok:
  assumes "db_ok db" "\<forall>m \<in> set ms. id_wf (target_id m)"
  shows "db_ok (fst (apply_batch B written db ms))"
  using apply_batch_cases[of B written db ms]
proof (elim disjE exE conjE)
  fix st ts
  assume run: "run_mutations B (od_store db) ms = Inr st" and ts: "set ts = target_id ` set ms"
    and b: "apply_batch B written db ms = (\<lparr>od_rows = foldl (put_row st) (od_rows db) ts, od_store = st\<rparr>, Inr ())"
  have wf: "store_wf (od_store db)" using assms(1) by (simp add: db_ok_def)
  have "foldl (put_row st) (od_rows db) ts (id_to_bytes i) = map_option object_enc (object_at st i)" if "id_wf i" for i
    using put_rows[of ts i st "od_rows db"] run_mutations_other[OF run wf, of i] assms that ts
    by (auto simp: db_ok_def rows_of_def)
  then show ?thesis
    using run_mutations_wf[OF run wf] by (simp add: b db_ok_def rows_of_def)
qed (use assms in auto)

section \<open>Snapshots refine the database\<close>

text \<open>The snapshots that calls can reach, failing ones included.\<close>

inductive snapshot_reach :: "hash_fn \<Rightarrow> object_db \<Rightarrow> snapshot \<Rightarrow> bool" for B db where
  start: "snapshot_reach B db (create_snapshot db)"
| mutate: "snapshot_reach B db sn \<Longrightarrow> snapshot_reach B db (fst (snapshot_mutate B sn m))"
| delete: "snapshot_reach B db sn \<Longrightarrow> snapshot_reach B db (fst (snapshot_delete B sn i))"

lemma snapshot_delete_mutate: "fst (snapshot_delete B sn i) = fst (snapshot_mutate B sn (Delete i))"
  by (auto simp: snapshot_delete_def snapshot_mutate_def split: sum.splits prod.splits)

lemma snapshot_log:
  "snapshot_reach B db sn \<Longrightarrow> run_mutations B (od_store db) (sn_mutations sn) = Inr (sn_store sn)"
proof (induction rule: snapshot_reach.induct)
  case start
  then show ?case by (simp add: create_snapshot_def run_mutations_def)
next
  case (mutate sn m)
  then show ?case
    by (auto simp: snapshot_mutate_def run_mutations_append split: sum.splits)
      (simp add: run_mutations_def)
next
  case (delete sn i)
  then show ?case unfolding snapshot_delete_mutate
    by (auto simp: snapshot_mutate_def run_mutations_append split: sum.splits)
      (simp add: run_mutations_def)
qed

lemma snapshot_replay:
  assumes "snapshot_reach B db sn"
  shows "apply_to B (Inr ()) sn db = (fst (apply_to B (Inr ()) sn db), Inr ())"
    "od_store (fst (apply_to B (Inr ()) sn db)) = sn_store sn"
  using apply_batch_cases[of B "Inr ()" db "sn_mutations sn"] snapshot_log[OF assms]
  by (auto simp: apply_to_def run_mutations_def)

section \<open>The write log refines the store\<close>

text \<open>
  What replaying the log gives, if it is accepted, is what the capture shows.  The capture checks
  less than the store: it accepts objects over the size limit and writes to the validator set.
\<close>

definition op_view :: "write_op \<Rightarrow> obj option \<Rightarrow> obj option" where
  "op_view w v = mutated (write_op_to_mutation w) v"

fun storable :: "write_op \<Rightarrow> obj option \<Rightarrow> bool" where
  "storable (WCreate ob) _ \<longleftrightarrow> \<not> is_validator_set_object ob \<and> length (ob_data ob) \<le> MAX_OBJECT_SIZE"
| "storable _ v \<longleftrightarrow> (case v of None \<Rightarrow> True | Some ob \<Rightarrow> \<not> is_validator_set_object ob)"

text \<open>One write of a capture: the operation it logged, accepted for the object it found.\<close>

definition capture_step :: "capture \<Rightarrow> write_op \<Rightarrow> capture \<Rightarrow> bool" where
  "capture_step c w c' \<longleftrightarrow>
     (case w of
        WCreate ob \<Rightarrow> capture_create c ob = Inr c'
      | WUpdate i actor dat \<Rightarrow> capture_update c i actor dat = Inr c'
      | WTransfer i actor new_owner \<Rightarrow> capture_transfer c i actor new_owner = Inr c'
      | WDelete i \<Rightarrow> (\<exists>ob. capture_delete c i = Inr (c', ob)))"

definition op_target :: "write_op \<Rightarrow> obj_id" where
  "op_target w = target_id (write_op_to_mutation w)"

lemma capture_step_view:
  assumes "capture_step c w c'"
  shows "cp_shared c' = cp_shared c" "wl_writes (cp_log c') = wl_writes (cp_log c) @ [w]"
    "resolved_get c' = (resolved_get c)(op_target w := op_view w (resolved_get c (op_target w)))"
    "storable w (resolved_get c (op_target w)) \<Longrightarrow> accepts B (write_op_to_mutation w) (resolved_get c (op_target w))"
  using assms
  by (cases w; auto simp: capture_step_def capture_create_def capture_update_def capture_transfer_def
      capture_delete_def op_target_def op_view_def capture_push_def push_write_def resolved_get_def fun_eq_iff
      outcome_simps other_fail_def is_system_object_def not_less split: if_splits option.splits)+

inductive capture_reach :: "store \<Rightarrow> capture \<Rightarrow> bool \<Rightarrow> bool" for shared where
  start: "capture_reach shared (capture_new shared) True"
| logged: "capture_reach shared c b \<Longrightarrow> capture_step c w c' \<Longrightarrow>
    capture_reach shared c' (b \<and> storable w (resolved_get c (op_target w)))"

lemma capture_replay_view:
  assumes "capture_reach shared c b" "store_wf shared"
  shows "cp_shared c = shared \<and>
    (\<forall>st. run_mutations B shared (map write_op_to_mutation (wl_writes (cp_log c))) = Inr st \<longrightarrow>
       object_at st = resolved_get c) \<and>
    (b \<longrightarrow> (\<exists>st. run_mutations B shared (map write_op_to_mutation (wl_writes (cp_log c))) = Inr st))"
  using assms
proof (induction rule: capture_reach.induct)
  case start
  then show ?case
    by (simp add: capture_new_def write_log_new_def run_mutations_def resolved_get_def fun_eq_iff)
next
  case (logged c b w c')
  note v = capture_step_view[OF logged.hyps(2)]
  let ?ms = "map write_op_to_mutation (wl_writes (cp_log c))" and ?m = "write_op_to_mutation w"
  have run: "run_mutations B shared (map write_op_to_mutation (wl_writes (cp_log c'))) =
      rbind (run_mutations B shared ?ms) (\<lambda>st. apply_mutation B st ?m)"
  proof -
    have "run_mutations B st [?m] = apply_mutation B st ?m" for st
      by (cases "apply_mutation B st ?m") (simp_all add: run_mutations_def)
    then show ?thesis by (simp add: v(2) run_mutations_append)
  qed
  have view: "object_at st' = resolved_get c'"
    if st: "run_mutations B shared ?ms = Inr st" "apply_mutation B st ?m = Inr st'" for st st'
    using apply_mutation_lookup[OF st(2) run_mutations_wf[OF st(1) logged.prems]] logged.IH[OF logged.prems] st(1)
    by (simp add: v(3) op_target_def op_view_def)
  have ok: "\<exists>st'. rbind (run_mutations B shared ?ms) (\<lambda>st. apply_mutation B st ?m) = Inr st'"
    if acc: "b" "storable w (resolved_get c (op_target w))"
  proof -
    from logged.IH[OF logged.prems] acc(1) obtain st where st: "run_mutations B shared ?ms = Inr st" "object_at st = resolved_get c"
      by auto
    have "accepts B ?m (object_at st (target_id ?m))"
      using v(4)[OF acc(2), of B] st(2) by (simp add: op_target_def)
    then show ?thesis using apply_mutation_accepts[of B st ?m] st(1) by simp
  qed
  show ?case
    using logged.IH[OF logged.prems] view ok unfolding run v(1) by (auto simp: outcome_simps)
qed

end
