(* ===== verification/SnapshotProps.thy ===== *)
theory SnapshotProps
  imports Snapshots
begin

text \<open>
  What the storage promises: the rows of the database are the objects of the store, a snapshot and
  a write log commit what was seen while they were written.
\<close>

definition sample_object :: "nat \<Rightarrow> address \<Rightarrow> obj" where
  "sample_object n owner = object_new (ObjectID (replicate 20 7) n) (AddressOwned owner) ''sample'' [1] None"

definition empty_db :: "hash_fn \<Rightarrow> object_db" where
  "empty_db B = \<lparr>od_rows = Map.empty, od_store = store_new B\<rparr>"

lemma empty_db_ok: "db_ok (empty_db B)"
  by (simp add: db_ok_def empty_db_def store_wf_def store_new_def rows_of_def)

lemma sample_plain:
  "\<not> is_system_object (sample_object n ow)" "\<not> is_native_coin_object (sample_object n ow)"
  "length (ob_data (sample_object n ow)) \<le> MAX_OBJECT_SIZE" "ob_id (sample_object n ow) = ObjectID (replicate 20 7) n"
  "ob_owner (sample_object n ow) = AddressOwned ow" "ob_type (sample_object n ow) = ''sample''"
  "ob_version (sample_object n ow) = 0"
  by (simp_all add: sample_object_def object_new_def is_system_object_def is_treasury_cap_object_def
      is_validator_set_object_def TREASURY_CAP_OBJECT_ID_def TREASURY_SYSTEM_ADDRESS_def TREASURY_CAP_OBJECT_TYPE_def
      VALIDATOR_SET_OBJECT_ID_def VALIDATOR_SET_OBJECT_TYPE_def is_native_coin_object_def NATIVE_COIN_OBJECT_TYPE_def
      MAX_OBJECT_SIZE_def replicate_eq_replicate)

lemma sample_not_validator_set: "\<not> is_validator_set_object (sample_object n ow)"
  using sample_plain(1) by (simp add: is_system_object_def)

lemma sample_not_cap: "\<not> is_treasury_cap_object (sample_object n ow)"
  using sample_plain(1) by (simp add: is_system_object_def)

text \<open>
  C13: The rows of the database are exactly the objects of the store under it.  A batch of
  mutations keeps that, whether it succeeds, is rejected on the way or fails in the durable write;
  when it does not succeed nothing changes, and when it does the store is the one the mutations
  give, one after the other.
\<close>

lemma rows_follow_store_facts:
  assumes "db_ok db" "\<forall>m \<in> set ms. id_wf (target_id m)"
  shows "db_ok (fst (apply_batch B written db ms)) \<and>
    (case snd (apply_batch B written db ms) of
       Inl _ \<Rightarrow> fst (apply_batch B written db ms) = db
     | Inr _ \<Rightarrow> run_mutations B (od_store db) ms = Inr (od_store (fst (apply_batch B written db ms))))"
  using apply_batch_ok[OF assms, of B written] apply_batch_cases[of B written db ms]
  by (auto simp: run_mutations_def)

theorem rows_follow_store:
  assumes "db_ok db" "\<forall>m \<in> set ms. id_wf (target_id m)"
  shows "db_ok (fst (apply_batch B written db ms)) \<and>
    (case snd (apply_batch B written db ms) of
       Inl _ \<Rightarrow> fst (apply_batch B written db ms) = db
     | Inr _ \<Rightarrow> run_mutations B (od_store db) ms = Inr (od_store (fst (apply_batch B written db ms))))"
  by (rule rows_follow_store_facts[OF assms])

theorem rows_follow_store_witness:
  "db_ok (fst (apply_batch (\<lambda>_. []) (Inr ()) (empty_db (\<lambda>_. [])) [Create (sample_object 1 [5]), Delete (ObjectID (replicate 20 7) 1)]))"
proof -
  have "\<forall>m \<in> set [Create (sample_object 1 [5]), Delete (ObjectID (replicate 20 7) 1)]. id_wf (target_id m)"
    by (simp add: sample_plain id_wf_def)
  from rows_follow_store[OF empty_db_ok this] show ?thesis by blast
qed

text \<open>
  C15: A snapshot commits what was executed on it.  Whatever calls were made on a snapshot of a
  database, failing ones included, replaying its log on the database succeeds and leaves the
  database with the store of the snapshot, so with the same objects and the same state root.
\<close>

lemma snapshot_commit_facts:
  "snapshot_reach B db sn \<Longrightarrow>
   snd (apply_to B (Inr ()) sn db) = Inr () \<and> od_store (fst (apply_to B (Inr ()) sn db)) = sn_store sn"
  using snapshot_replay by (metis snd_conv)

theorem snapshot_commit:
  "snapshot_reach B db sn \<Longrightarrow>
   snd (apply_to B (Inr ()) sn db) = Inr () \<and> od_store (fst (apply_to B (Inr ()) sn db)) = sn_store sn"
  by (rule snapshot_commit_facts)

definition sample_fork :: snapshot where
  "sample_fork =
     fst (snapshot_delete (\<lambda>_. []) (fst (snapshot_mutate (\<lambda>_. []) (create_snapshot (empty_db (\<lambda>_. [])))
       (Create (sample_object 1 [5])))) (ObjectID [] 3))"

theorem snapshot_commit_witness:
  "od_store (fst (apply_to (\<lambda>_. []) (Inr ()) sample_fork (empty_db (\<lambda>_. [])))) = sn_store sample_fork \<and>
   object_at (sn_store sample_fork) (ObjectID (replicate 20 7) 1) = Some (sample_object 1 [5])"
proof
  have "snapshot_reach (\<lambda>_. []) (empty_db (\<lambda>_. [])) sample_fork"
    unfolding sample_fork_def by (intro snapshot_reach.intros)
  from snapshot_commit[OF this]
  show "od_store (fst (apply_to (\<lambda>_. []) (Inr ()) sample_fork (empty_db (\<lambda>_. [])))) = sn_store sample_fork" ..
  have "store_create (\<lambda>_. []) (store_new (\<lambda>_. [])) (sample_object 1 [5])
      = Inr (put_object (\<lambda>_. []) (store_new (\<lambda>_. [])) (sample_object 1 [5]))"
    by (simp add: outcome_simps sample_plain store_new_def)
  then show "object_at (sn_store sample_fork) (ObjectID (replicate 20 7) 1) = Some (sample_object 1 [5])"
    by (simp add: sample_fork_def snapshot_delete_def snapshot_mutate_def create_snapshot_def empty_db_def
        store_delete_def store_read_def ok_or_def sample_plain store_new_def)
qed

text \<open>
  C10: A write log commits what its transaction saw.  After any sequence of accepted writes of a
  capture over a shared store, the shared store is untouched; if the log replays, every object of
  the result is the one the capture showed; and it does replay when no write touched the
  validator set and no created object is over the size limit, which the capture does not check.
\<close>

theorem capture_replay:
  "capture_reach shared c b \<Longrightarrow> store_wf shared \<Longrightarrow>
   cp_shared c = shared \<and>
   (case run_mutations B shared (map write_op_to_mutation (wl_writes (cp_log c))) of
      Inl _ \<Rightarrow> \<not> b
    | Inr st \<Rightarrow> object_at st = resolved_get c)"
  using capture_replay_view[of shared c b B] by (auto split: sum.splits)

definition sample_capture :: capture where
  "sample_capture = capture_push (capture_new (store_new (\<lambda>_. []))) (ObjectID (replicate 20 7) 1)
     (Some (sample_object 1 [5])) (WCreate (sample_object 1 [5]))"

lemma sample_capture_step:
  "capture_step (capture_new (store_new (\<lambda>_. []))) (WCreate (sample_object 1 [5])) sample_capture"
  by (simp add: capture_step_def capture_create_def sample_not_cap sample_plain sample_capture_def
      resolved_get_def capture_new_def write_log_new_def store_new_def)

theorem capture_replay_witness:
  "case run_mutations (\<lambda>_. []) (store_new (\<lambda>_. [])) (map write_op_to_mutation (wl_writes (cp_log sample_capture))) of
     Inl _ \<Rightarrow> False
   | Inr st \<Rightarrow> object_at st (ObjectID (replicate 20 7) 1) = Some (sample_object 1 [5])"
proof -
  have r: "capture_reach (store_new (\<lambda>_. [])) sample_capture True"
    using capture_reach.logged[OF capture_reach.start sample_capture_step]
    by (simp add: sample_not_validator_set sample_plain)
  have "store_wf (store_new (\<lambda>_. []))" by (simp add: store_wf_def store_new_def)
  from capture_replay[OF r this, of "\<lambda>_. []"] show ?thesis
    by (simp add: resolved_get_def sample_capture_def capture_push_def push_write_def split: sum.splits)
qed

text \<open>
  A deleted object still has a version.  After a transaction deletes an object it had not
  written before, reading it reports that it is not there while its version is reported as before:
  the lookup of the version falls through to the shared store.
\<close>

lemma version_after_delete:
  assumes "capture_delete c i = Inr (c', ob)" "wl_current (cp_log c) i = None"
  shows "capture_read c' i = Inl (Fail (ObjectNotFound i)) \<and> capture_version_of c' i = Inr (ob_version ob)"
  using assms
  by (auto simp: capture_delete_def outcome_simps other_fail_def capture_read_def capture_version_of_def
      capture_push_def push_write_def resolved_get_def ok_or_def store_version_of_def store_read_def split: if_splits)

lemma capture_version_after_delete:
  "capture_delete c i = Inr (c', ob) \<Longrightarrow> wl_current (cp_log c) i = None \<Longrightarrow>
   capture_read c' i = Inl (Fail (ObjectNotFound i)) \<and> capture_version_of c' i = Inr (ob_version ob)"
  by (rule version_after_delete)

end
