(* ===== verification/CoinSelection.thy ===== *)
theory CoinSelection
  imports SnapshotProps "HOL-Library.Product_Lexorder"
begin

text \<open>
  The choice of the coins that pay for a call, \<^verbatim>\<open>economics/mod.rs\<close>: the coins of an owner in the
  order of their ids, their sum, and the deterministic selection, which takes as few coins as any
  selection could.
\<close>

section \<open>Listing and summing\<close>

record owned_coin =
  oc_id :: obj_id
  oc_amount :: nat

record coin_selection =
  sel_input_ids :: "obj_id list"
  sel_total :: nat

definition collect_results :: "('a \<Rightarrow> ('e, 'b) outcome) \<Rightarrow> 'a list \<Rightarrow> ('e, 'b list) outcome" where
  "collect_results f xs = foldM (\<lambda>acc x. rbind (f x) (\<lambda>y. Inr (acc @ [y]))) [] xs"

definition owned_coin_of :: "obj \<Rightarrow> (l1_error, owned_coin) outcome" where
  "owned_coin_of ob =
     (if ob_version ob \<noteq> 0 then other_fail ''native coin is mutable/versioned; immutable UTXO version 0 required''
      else rbind (decode_native_coin ob) (\<lambda>coin. Inr \<lparr>oc_id = ob_id ob, oc_amount = coin_amount coin\<rparr>))"

definition list_owned_native_coins :: "store \<Rightarrow> address \<Rightarrow> (l1_error, owned_coin list) outcome" where
  "list_owned_native_coins st owner =
     rbind (collect_results owned_coin_of
        (filter (\<lambda>ob. is_native_coin_object ob \<and> ob_owner ob = AddressOwned owner) (map snd (st_objects st))))
       (\<lambda>coins. Inr (sort_key oc_id coins))"

definition sum_native_coin_balance :: "owned_coin list \<Rightarrow> (l1_error, nat) outcome" where
  "sum_native_coin_balance coins =
     foldM (\<lambda>tot coin. ok_or (Other ''native coin balance overflow'') (checked_add_u64 tot (oc_amount coin))) 0 coins"

definition native_coin_balance :: "store \<Rightarrow> address \<Rightarrow> (l1_error, nat) outcome" where
  "native_coin_balance st owner = rbind (list_owned_native_coins st owner) sum_native_coin_balance"

section \<open>Selecting\<close>

text \<open>\<open>Iterator::min_by_key\<close>: the first of the least elements.\<close>

definition min_by_key :: "('a \<Rightarrow> 'k::linorder) \<Rightarrow> 'a list \<Rightarrow> 'a option" where
  "min_by_key k xs = (if xs = [] then None else Some (arg_min_list k xs))"

definition check_candidates :: "owned_coin list \<Rightarrow> (l1_error, obj_id set) outcome" where
  "check_candidates coins =
     foldM (\<lambda>seen coin.
        if oc_amount coin = 0 then other_fail ''native coin has zero amount''
        else if oc_id coin \<in> seen then other_fail ''duplicate native coin candidate''
        else Inr (insert (oc_id coin) seen)) {} coins"

fun take_largest :: "nat \<Rightarrow> obj_id list \<Rightarrow> nat \<Rightarrow> owned_coin list \<Rightarrow> (l1_error, coin_selection) outcome" where
  "take_largest required input_ids tot [] = Inr \<lparr>sel_input_ids = input_ids, sel_total = tot\<rparr>"
| "take_largest required input_ids tot (coin # coins) =
     rbind (ok_or (Other ''native coin selection sum overflow'') (checked_add_u64 tot (oc_amount coin))) (\<lambda>tot'.
     if required \<le> tot' then Inr \<lparr>sel_input_ids = input_ids @ [oc_id coin], sel_total = tot'\<rparr>
     else take_largest required (input_ids @ [oc_id coin]) tot' coins)"

text \<open>The largest coins first, ties by id.\<close>

definition largest_first :: "owned_coin list \<Rightarrow> owned_coin list" where
  "largest_first coins = sort_key (\<lambda>c. (- int (oc_amount c), oc_id c)) coins"

definition select_native_coins_from_candidates ::
  "owned_coin list \<Rightarrow> nat \<Rightarrow> (l1_error, coin_selection) outcome" where
  "select_native_coins_from_candidates coins required =
     (if required = 0 then other_fail ''native coin spend amount must be greater than zero''
      else
        rbind (check_candidates coins) (\<lambda>_.
        case min_by_key oc_id (filter (\<lambda>c. oc_amount c = required) coins) of
          Some coin \<Rightarrow> Inr \<lparr>sel_input_ids = [oc_id coin], sel_total = oc_amount coin\<rparr>
        | None \<Rightarrow>
            (case min_by_key (\<lambda>c. (oc_amount c, oc_id c)) (filter (\<lambda>c. oc_amount c > required) coins) of
               Some coin \<Rightarrow> Inr \<lparr>sel_input_ids = [oc_id coin], sel_total = oc_amount coin\<rparr>
             | None \<Rightarrow>
                 rbind (sum_native_coin_balance coins) (\<lambda>available.
                 if available < required then Inl (Fail (InsufficientBalance required available))
                 else take_largest required [] 0 (largest_first coins)))))"

definition auto_select_native_coins :: "store \<Rightarrow> address \<Rightarrow> nat \<Rightarrow> (l1_error, coin_selection) outcome" where
  "auto_select_native_coins st owner required =
     rbind (list_owned_native_coins st owner) (\<lambda>coins. select_native_coins_from_candidates coins required)"

section \<open>What the loops do\<close>

lemma collect_results_Inr:
  "collect_results f xs = Inr ys \<longleftrightarrow> list_all2 (\<lambda>x y. f x = Inr y) xs ys"
proof -
  have "foldM (\<lambda>acc x. rbind (f x) (\<lambda>y. Inr (acc @ [y]))) acc xs = Inr ys \<longleftrightarrow>
      (\<exists>zs. ys = acc @ zs \<and> list_all2 (\<lambda>x y. f x = Inr y) xs zs)" for acc
    by (induction xs arbitrary: acc) (fastforce simp: outcome_simps list_all2_Cons1)+
  from this[of "[]"] show ?thesis by (simp add: collect_results_def)
qed

lemma min_by_key_None [simp]: "min_by_key k xs = None \<longleftrightarrow> xs = []"
  by (simp add: min_by_key_def)

lemma min_by_key_Nil [simp]: "min_by_key k [] = None"
  by simp

lemma min_by_key_Some: "min_by_key k xs = Some x \<Longrightarrow> x \<in> set xs \<and> (\<forall>y \<in> set xs. k x \<le> k y)"
  by (auto simp: min_by_key_def arg_min_list_in f_arg_min_list_f split: if_splits)

lemma check_candidates_Inr:
  "check_candidates coins = Inr ids \<longleftrightarrow>
     (\<forall>c \<in> set coins. 0 < oc_amount c) \<and> distinct (map oc_id coins) \<and> ids = oc_id ` set coins"
proof -
  have "foldM (\<lambda>seen coin.
        if oc_amount coin = 0 then other_fail ''native coin has zero amount''
        else if oc_id coin \<in> seen then other_fail ''duplicate native coin candidate''
        else Inr (insert (oc_id coin) seen)) seen coins = Inr ids \<longleftrightarrow>
     (\<forall>c \<in> set coins. 0 < oc_amount c) \<and> distinct (map oc_id coins) \<and> oc_id ` set coins \<inter> seen = {} \<and>
     ids = oc_id ` set coins \<union> seen" for seen
    by (induction coins arbitrary: seen) (auto simp: other_fail_def)
  from this[of "{}"] show ?thesis by (simp add: check_candidates_def)
qed

abbreviation amount_sum :: "owned_coin list \<Rightarrow> nat" where
  "amount_sum cs \<equiv> sum_list (map oc_amount cs)"

lemma foldM_checked_total:
  "foldM (\<lambda>tot x. ok_or e (checked_add_u64 tot (f x))) t xs =
     (if t + sum_list (map f xs) < u64_limit \<or> xs = [] then Inr (t + sum_list (map f xs)) else Inl (Fail e))"
  by (induction xs arbitrary: t) (auto simp: checked_add_u64_def ok_or_def)

lemma sum_balance:
  "sum_native_coin_balance coins =
     (if amount_sum coins < u64_limit then Inr (amount_sum coins) else Inl (Fail (Other ''native coin balance overflow'')))"
  by (auto simp: sum_native_coin_balance_def foldM_checked_total)

lemma take_largest_prefix:
  assumes "tot < required" "tot + amount_sum coins < u64_limit" "required \<le> tot + amount_sum coins"
  shows "\<exists>k < length coins. take_largest required input_ids tot coins =
      Inr \<lparr>sel_input_ids = input_ids @ map oc_id (take (Suc k) coins), sel_total = tot + amount_sum (take (Suc k) coins)\<rparr> \<and>
    tot + amount_sum (take k coins) < required \<and> required \<le> tot + amount_sum (take (Suc k) coins)"
  using assms
proof (induction coins arbitrary: input_ids tot)
  case (Cons c cs)
  show ?case
  proof (cases "required \<le> tot + oc_amount c")
    case True
    then show ?thesis using Cons.prems by (intro exI[of _ 0]) (simp add: outcome_simps checked_add_u64_def ok_or_def)
  next
    case False
    with Cons.prems Cons.IH[of "tot + oc_amount c" "input_ids @ [oc_id c]"] obtain k where
      "k < length cs" "take_largest required (input_ids @ [oc_id c]) (tot + oc_amount c) cs =
        Inr \<lparr>sel_input_ids = (input_ids @ [oc_id c]) @ map oc_id (take (Suc k) cs),
             sel_total = tot + oc_amount c + amount_sum (take (Suc k) cs)\<rparr>"
      "tot + oc_amount c + amount_sum (take k cs) < required"
      "required \<le> tot + oc_amount c + amount_sum (take (Suc k) cs)"
      by (auto simp: add.assoc)
    then show ?thesis using False Cons.prems
      by (intro exI[of _ "Suc k"]) (simp add: checked_add_u64_def ok_or_def add.assoc)
  qed
qed simp

section \<open>Fewest coins\<close>

lemma subset_sum_le_take:
  assumes "sorted_wrt (\<lambda>a b. b \<le> a) (map f xs)" "distinct xs" "S \<subseteq> set xs" "card S \<le> k"
  shows "sum f S \<le> (sum_list (map f (take k xs)) :: nat)"
  using assms
proof (induction xs arbitrary: S k)
  case (Cons x xs)
  have fin: "finite S" using Cons.prems(3) finite_subset by blast
  show ?case
  proof (cases "S = {}")
    case False
    then obtain k' where k: "k = Suc k'" using Cons.prems(4) fin by (cases k) auto
    have tl: "sorted_wrt (\<lambda>a b. b \<le> a) (map f xs)" "distinct xs" using Cons.prems by auto
    show ?thesis
    proof (cases "x \<in> S")
      case True
      have "sum f (S - {x}) \<le> sum_list (map f (take k' xs))"
      proof (rule Cons.IH[OF tl])
        show "S - {x} \<subseteq> set xs" using Cons.prems(3) by auto
        show "card (S - {x}) \<le> k'" using Cons.prems(4) True fin k by simp
      qed
      then show ?thesis using sum.remove[OF fin True, of f] k by simp
    next
      case out: False
      obtain y where y: "y \<in> S" using False by blast
      have "f y \<le> f x" using y out Cons.prems(1,3) by auto
      moreover have "sum f (S - {y}) \<le> sum_list (map f (take k' xs))"
      proof (rule Cons.IH[OF tl])
        show "S - {y} \<subseteq> set xs" using Cons.prems(3) out by auto
        show "card (S - {y}) \<le> k'" using Cons.prems(4) y fin k by simp
      qed
      ultimately show ?thesis using sum.remove[OF fin y, of f] k by simp
    qed
  qed simp
qed simp

lemma largest_first_facts:
  "mset (largest_first cs) = mset cs" "sorted_wrt (\<lambda>a b. b \<le> a) (map oc_amount (largest_first cs))"
proof -
  show "mset (largest_first cs) = mset cs" by (simp add: largest_first_def)
  have "sorted (map (\<lambda>c. (- int (oc_amount c), oc_id c)) (largest_first cs))"
    by (simp add: largest_first_def)
  then show "sorted_wrt (\<lambda>a b. b \<le> a) (map oc_amount (largest_first cs))"
    by (auto simp: sorted_wrt_map less_eq_prod_def elim!: sorted_wrt_mono_rel[rotated])
qed

lemma amount_sum_set: "distinct cs \<Longrightarrow> amount_sum cs = sum oc_amount (set cs)"
  by (simp add: sum_list_distinct_conv_sum_set)

text \<open>What a selection is: some of the candidates, once each, that cover the amount.\<close>

definition is_selection :: "owned_coin list \<Rightarrow> nat \<Rightarrow> coin_selection \<Rightarrow> owned_coin list \<Rightarrow> bool" where
  "is_selection coins required sel chosen \<longleftrightarrow>
     set chosen \<subseteq> set coins \<and> distinct chosen \<and> sel_input_ids sel = map oc_id chosen \<and>
     sel_total sel = amount_sum chosen \<and> required \<le> sel_total sel"

lemma selection_facts:
  assumes "select_native_coins_from_candidates coins required = Inr sel"
  shows "\<exists>chosen. is_selection coins required sel chosen \<and>
    (\<forall>S \<subseteq> set coins. required \<le> sum oc_amount S \<longrightarrow> length chosen \<le> card S)"
proof -
  let ?exact = "filter (\<lambda>c. oc_amount c = required) coins" and ?more = "filter (\<lambda>c. oc_amount c > required) coins"
  from assms have pos: "required > 0" and cand: "\<exists>ids. check_candidates coins = Inr ids"
    by (auto simp: select_native_coins_from_candidates_def other_fail_def outcome_simps split: if_splits)
  have d: "distinct coins" using cand by (auto simp: check_candidates_Inr distinct_map)
  have one: "1 \<le> card S" if "S \<subseteq> set coins" "required \<le> sum oc_amount S" for S
  proof -
    have "finite S" using that(1) finite_subset by blast
    moreover have "S \<noteq> {}" using that(2) pos by auto
    ultimately show ?thesis by (simp add: Suc_le_eq card_gt_0_iff)
  qed
  consider (exact) c where "min_by_key oc_id ?exact = Some c"
    | (more) c where "min_by_key oc_id ?exact = None" "min_by_key (\<lambda>c. (oc_amount c, oc_id c)) ?more = Some c"
    | (many) "min_by_key oc_id ?exact = None" "min_by_key (\<lambda>c. (oc_amount c, oc_id c)) ?more = None"
    by (meson option.exhaust)
  then show ?thesis
  proof cases
    case (exact c)
    then show ?thesis using assms one pos cand min_by_key_Some[OF exact]
      by (intro exI[of _ "[c]"]) (auto simp: select_native_coins_from_candidates_def is_selection_def)
  next
    case (more c)
    then show ?thesis using assms one pos cand min_by_key_Some[OF more(2)]
      by (intro exI[of _ "[c]"]) (auto simp: select_native_coins_from_candidates_def is_selection_def)
  next
    case many
    let ?cs = "largest_first coins"
    have m: "mset ?cs = mset coins" by (rule largest_first_facts)
    have eqs: "set ?cs = set coins" "distinct ?cs" "amount_sum ?cs = amount_sum coins"
      using m d mset_eq_setD[OF m] mset_eq_imp_distinct_iff[OF m] by (auto simp flip: sum_mset_sum_list simp: m)
    from many pos cand assms have "amount_sum coins < u64_limit" "required \<le> amount_sum coins"
      and sel: "take_largest required [] 0 ?cs = Inr sel"
      by (auto simp: select_native_coins_from_candidates_def sum_balance split: if_splits)
    with take_largest_prefix[of 0 required ?cs "[]"] pos eqs obtain k where k: "k < length ?cs"
      "sel = \<lparr>sel_input_ids = map oc_id (take (Suc k) ?cs), sel_total = amount_sum (take (Suc k) ?cs)\<rparr>"
      "amount_sum (take k ?cs) < required" "required \<le> amount_sum (take (Suc k) ?cs)"
      by auto
    have "Suc k \<le> card S" if S: "S \<subseteq> set coins" "required \<le> sum oc_amount S" for S
    proof (rule ccontr)
      assume "\<not> Suc k \<le> card S"
      then have "sum oc_amount S \<le> amount_sum (take k ?cs)"
        using subset_sum_le_take[OF largest_first_facts(2) eqs(2), of S k] S(1) eqs(1) by simp
      with S(2) k(3) show False by simp
    qed
    then show ?thesis using k eqs set_take_subset[of "Suc k" ?cs]
      by (intro exI[of _ "take (Suc k) ?cs"]) (auto simp: is_selection_def)
  qed
qed

lemma selection_exists:
  assumes "select_native_coins_from_candidates coins required = Inl e"
  shows "required = 0 \<or> (\<exists>c \<in> set coins. oc_amount c = 0) \<or> \<not> distinct (map oc_id coins) \<or>
    amount_sum coins \<ge> u64_limit \<or> (e = Fail (InsufficientBalance required (amount_sum coins)) \<and> amount_sum coins < required)"
proof (rule ccontr)
  assume "\<not> ?thesis"
  then have n: "required > 0" "\<forall>c \<in> set coins. oc_amount c > 0" "distinct (map oc_id coins)"
    "amount_sum coins < u64_limit" "amount_sum coins < required \<longrightarrow> e \<noteq> Fail (InsufficientBalance required (amount_sum coins))"
    by auto
  have m: "amount_sum (largest_first coins) = amount_sum coins"
    using largest_first_facts(1)[of coins] by (simp flip: sum_mset_sum_list)
  have "check_candidates coins = Inr (oc_id ` set coins)" using n by (simp add: check_candidates_Inr)
  with n assms take_largest_prefix[of 0 required "largest_first coins" "[]"] m show False
    by (auto simp: select_native_coins_from_candidates_def sum_balance split: option.splits if_splits)
qed

text \<open>
  C12: The selection takes the fewest coins.  From valid candidates it succeeds exactly when they
  cover the amount, up to an overflow of their sum; what it selects are candidates, once each, the
  total is their sum and covers the amount, and no set of fewer candidates does.
\<close>

theorem selection_takes_fewest:
  "case select_native_coins_from_candidates coins required of
     Inl e \<Rightarrow> required = 0 \<or> \<not> (\<forall>c \<in> set coins. 0 < oc_amount c) \<or> \<not> distinct (map oc_id coins) \<or>
       u64_limit \<le> amount_sum coins \<or> (e = Fail (InsufficientBalance required (amount_sum coins)) \<and> amount_sum coins < required)
   | Inr sel \<Rightarrow> \<exists>chosen. is_selection coins required sel chosen \<and>
       (\<forall>S. S \<subseteq> set coins \<and> card S < length chosen \<longrightarrow> sum oc_amount S < required)"
proof (cases "select_native_coins_from_candidates coins required")
  case (Inl e)
  then show ?thesis using selection_exists[OF Inl] by auto
next
  case (Inr sel)
  then show ?thesis using selection_facts[OF Inr] by (auto simp: not_le[symmetric])
qed

theorem selection_takes_fewest_witness:
  "case select_native_coins_from_candidates
      [\<lparr>oc_id = ObjectID [1] 1, oc_amount = 5\<rparr>, \<lparr>oc_id = ObjectID [1] 2, oc_amount = 9\<rparr>, \<lparr>oc_id = ObjectID [1] 3, oc_amount = 7\<rparr>] 12 of
     Inl _ \<Rightarrow> False
   | Inr sel \<Rightarrow> sel_input_ids sel = [ObjectID [1] 2, ObjectID [1] 3] \<and> sel_total sel = 16"
proof -
  show ?thesis
    using selection_takes_fewest[where coins = "[\<lparr>oc_id = ObjectID [1] 1, oc_amount = 5\<rparr>, \<lparr>oc_id = ObjectID [1] 2, oc_amount = 9\<rparr>,
        \<lparr>oc_id = ObjectID [1] 3, oc_amount = 7\<rparr>]" and required = 12]
    by (simp add: select_native_coins_from_candidates_def check_candidates_def min_by_key_def sum_native_coin_balance_def
        checked_add_u64_def ok_or_def u64_limit_def largest_first_def less_eq_obj_id_def)
qed

end
