(* ===== verification/Coins.thy ===== *)
theory Coins
  imports CoinSelection
begin

text \<open>
  Spending native coins, \<^verbatim>\<open>economics/mod.rs\<close>: a spend validates its inputs, deletes them whole and
  creates new outputs.  The operations work on any backend; what they rely on is the locale
  \<open>object_backend\<close>, which the database, the snapshots and the write captures satisfy.
\<close>

section \<open>The operations\<close>

definition select_owned_native_coins ::
  "'s backend \<Rightarrow> 's \<Rightarrow> obj_id list \<Rightarrow> address \<Rightarrow> nat \<Rightarrow> (l1_error, coin_selection) outcome" where
  "select_owned_native_coins be s input_ids owner required =
     (if required = 0 then other_fail ''native coin spend amount must be greater than zero''
      else if input_ids = [] then other_fail ''funded call requires at least one native coin input''
      else
        rbind (foldM (\<lambda>(seen, tot) i.
            if i \<in> seen then other_fail ''duplicate native coin input''
            else
              rbind (be_read be s i) (\<lambda>ob.
              if ob_owner ob \<noteq> AddressOwned owner then Inl (Fail (NotOwner i))
              else if ob_version ob \<noteq> 0
              then other_fail ''native coin input is mutable/versioned; immutable UTXO version 0 required''
              else
                rbind (decode_native_coin ob) (\<lambda>coin.
                rbind (ok_or (Other ''native coin input sum overflow'') (checked_add_u64 tot (coin_amount coin))) (\<lambda>tot'.
                Inr (insert i seen, tot'))))) ({}, 0) input_ids) (\<lambda>(_, tot).
        if tot < required then Inl (Fail (InsufficientBalance required tot))
        else Inr \<lparr>sel_input_ids = input_ids, sel_total = tot\<rparr>))"

text \<open>The output for what the inputs exceed the payment by, if anything.\<close>

definition change_output ::
  "hash_fn \<Rightarrow> address \<Rightarrow> nat \<Rightarrow> byte list \<Rightarrow> nat \<Rightarrow> (l1_error, obj option) outcome" where
  "change_output B owner change tx_hash output_index =
     (if change = 0 then Inr None
      else rbind (native_coin_object owner change (coin_output_nonce B tx_hash output_index)) (\<lambda>ob. Inr (Some ob)))"

definition option_list :: "'a option \<Rightarrow> 'a list" where
  "option_list x = (case x of None \<Rightarrow> [] | Some y \<Rightarrow> [y])"

definition is_ok :: "('e, 'a) outcome \<Rightarrow> bool" where
  "is_ok r = (case r of Inl _ \<Rightarrow> False | Inr _ \<Rightarrow> True)"

definition consume_native_coin_selection ::
  "hash_fn \<Rightarrow> 's backend \<Rightarrow> 's \<Rightarrow> coin_selection \<Rightarrow> address \<Rightarrow> nat \<Rightarrow> byte list \<Rightarrow> nat \<Rightarrow>
   's \<times> (l1_error, obj_id option) outcome" where
  "consume_native_coin_selection B be s selection owner required tx_hash output_index =
     sbind (s, rbind (ok_or (Other ''native coin selection is smaller than required amount'')
                 (checked_sub_u64 (sel_total selection) required)) (\<lambda>change.
               rbind (change_output B owner change tx_hash output_index) (\<lambda>change_object.
               if list_ex (\<lambda>ob. is_ok (be_read be s (ob_id ob))) (option_list change_object)
               then Inl (Fail (ObjectIDCollision (ob_id (the change_object))))
               else Inr change_object))) (\<lambda>s change_object.
     sbind (be_replace_objects be s (sel_input_ids selection) (option_list change_object)) (\<lambda>s' _.
     (s', Inr (map_option ob_id change_object))))"

definition check_free :: "'s backend \<Rightarrow> 's \<Rightarrow> obj \<Rightarrow> (l1_error, unit) outcome" where
  "check_free be s ob =
     (case be_read be s (ob_id ob) of
        Inr _ \<Rightarrow> Inl (Fail (ObjectIDCollision (ob_id ob)))
      | Inl (Fail (ObjectNotFound _)) \<Rightarrow> Inr ()
      | Inl e \<Rightarrow> Inl e)"

text \<open>Everything \<open>transfer_native_coins\<close> validates before its only write.\<close>

definition transfer_outputs ::
  "hash_fn \<Rightarrow> 's backend \<Rightarrow> 's \<Rightarrow> coin_selection \<Rightarrow> address \<Rightarrow> address \<Rightarrow> nat \<Rightarrow> byte list \<Rightarrow>
   (l1_error, obj \<times> obj option) outcome" where
  "transfer_outputs B be s selection sender recipient amount tx_hash =
     (if amount = 0 then other_fail ''native transfer amount must be greater than zero''
      else
        rbind (ok_or (Other ''native coin selection is smaller than transfer amount'')
                (checked_sub_u64 (sel_total selection) amount)) (\<lambda>change.
        rbind (select_owned_native_coins be s (sel_input_ids selection) sender amount) (\<lambda>validated.
        if sel_total validated \<noteq> sel_total selection then other_fail ''native coin selection total mismatch''
        else
          rbind (native_coin_object recipient amount (coin_output_nonce B tx_hash 0)) (\<lambda>recipient_object.
          rbind (change_output B sender change tx_hash 1) (\<lambda>change_object.
          if list_ex (\<lambda>ob. ob_id ob = ob_id recipient_object) (option_list change_object)
          then Inl (Fail (ObjectIDCollision (ob_id recipient_object)))
          else
            rbind (foldM (\<lambda>_. check_free be s) () (recipient_object # option_list change_object)) (\<lambda>_.
            Inr (recipient_object, change_object)))))))"

definition transfer_native_coins ::
  "hash_fn \<Rightarrow> 's backend \<Rightarrow> 's \<Rightarrow> coin_selection \<Rightarrow> address \<Rightarrow> address \<Rightarrow> nat \<Rightarrow> byte list \<Rightarrow>
   's \<times> (l1_error, obj_id \<times> obj_id option) outcome" where
  "transfer_native_coins B be s selection sender recipient amount tx_hash =
     sbind (s, transfer_outputs B be s selection sender recipient amount tx_hash) (\<lambda>s (recipient_object, change_object).
     sbind (be_replace_objects be s (sel_input_ids selection) (recipient_object # option_list change_object)) (\<lambda>s' _.
     (s', Inr (ob_id recipient_object, map_option ob_id change_object))))"

definition system_coin_operation_hash ::
  "hash_fn \<Rightarrow> byte list \<Rightarrow> address \<Rightarrow> obj_id list \<Rightarrow> nat \<Rightarrow> nat \<Rightarrow> byte list" where
  "system_coin_operation_hash B domain owner input_ids amount sequence =
     B (map of_char ''ZCHAIN_SYSTEM_NATIVE_COIN_OP_V1'' @ u64_be (length domain) @ domain @ owner @ u64_be amount @
        u64_be sequence @ concat (map id_to_bytes (sort input_ids)))"

definition create_native_coin_output ::
  "hash_fn \<Rightarrow> 's backend \<Rightarrow> 's \<Rightarrow> address \<Rightarrow> nat \<Rightarrow> byte list \<Rightarrow> nat \<Rightarrow> 's \<times> (l1_error, obj_id) outcome" where
  "create_native_coin_output B be s owner amount tx_hash output_index =
     sbind (s, native_coin_object owner amount (coin_output_nonce B tx_hash output_index)) (\<lambda>s ob.
     sbind (be_create be s ob) (\<lambda>s' _. (s', Inr (ob_id ob))))"

section \<open>Value\<close>

definition coin_value :: "obj \<Rightarrow> nat" where
  "coin_value ob = (case decode_native_coin ob of Inl _ \<Rightarrow> 0 | Inr c \<Rightarrow> coin_amount c)"

definition value_at :: "(obj_id \<rightharpoonup> obj) \<Rightarrow> obj_id \<Rightarrow> nat" where
  "value_at v i = (case v i of None \<Rightarrow> 0 | Some ob \<Rightarrow> coin_value ob)"

definition live_native :: "(obj_id \<rightharpoonup> obj) \<Rightarrow> nat" where
  "live_native v = (\<Sum>i \<in> dom v. value_at v i)"

lemma live_native_on: "finite A \<Longrightarrow> dom v \<subseteq> A \<Longrightarrow> live_native v = (\<Sum>i \<in> A. value_at v i)"
  unfolding live_native_def by (rule sum.mono_neutral_left) (auto simp: value_at_def split: option.splits)

lemma value_at_upd: "value_at (v(i := x)) j = (if j = i then (case x of None \<Rightarrow> 0 | Some ob \<Rightarrow> coin_value ob) else value_at v j)"
  by (simp add: value_at_def)

lemma live_native_upd:
  assumes "finite (dom v)"
  shows "live_native (v(i := x)) + value_at v i = live_native v + (case x of None \<Rightarrow> 0 | Some ob \<Rightarrow> coin_value ob)"
proof -
  let ?A = "insert i (dom v)"
  have A: "finite ?A" "dom v \<subseteq> ?A" "dom (v(i := x)) \<subseteq> ?A" using assms by auto
  have "(\<Sum>j \<in> ?A - {i}. value_at (v(i := x)) j) = (\<Sum>j \<in> ?A - {i}. value_at v j)"
    by (rule sum.cong) (auto simp: value_at_upd)
  then show ?thesis
    using live_native_on[OF A(1,2)] live_native_on[OF A(1,3)]
      sum.remove[OF A(1), of i "value_at v"] sum.remove[OF A(1), of i "value_at (v(i := x))"]
    by (simp add: value_at_upd)
qed

lemma coin_value_new: "0 < n \<Longrightarrow> n < u64_limit \<Longrightarrow>
   coin_value (object_new i ow NATIVE_COIN_OBJECT_TYPE (u64_le n) a) = n"
  by (simp add: coin_value_def decode_coin_of_object object_new_def)

text \<open>The view after a replacement.\<close>

definition delete_all :: "(obj_id \<rightharpoonup> obj) \<Rightarrow> obj_id list \<Rightarrow> (obj_id \<rightharpoonup> obj)" where
  "delete_all v ids = (\<lambda>i. if i \<in> set ids then None else v i)"

definition create_all :: "(obj_id \<rightharpoonup> obj) \<Rightarrow> obj list \<Rightarrow> (obj_id \<rightharpoonup> obj)" where
  "create_all v obs = foldl (\<lambda>v ob. v(ob_id ob \<mapsto> ob)) v obs"

definition replaced :: "(obj_id \<rightharpoonup> obj) \<Rightarrow> obj_id list \<Rightarrow> obj list \<Rightarrow> (obj_id \<rightharpoonup> obj)" where
  "replaced v ids obs = create_all (delete_all v ids) obs"

lemma delete_all_Cons: "delete_all v (i # ids) = delete_all (v(i := None)) ids"
  by (auto simp: delete_all_def fun_eq_iff)

lemma create_all_simps [simp]:
  "create_all v [] = v" "create_all v (ob # obs) = create_all (v(ob_id ob \<mapsto> ob)) obs"
  by (simp_all add: create_all_def)

lemma live_delete_all:
  "finite (dom v) \<Longrightarrow> distinct ids \<Longrightarrow> live_native (delete_all v ids) + sum_list (map (value_at v) ids) = live_native v"
proof (induction ids arbitrary: v)
  case Nil
  then show ?case by (simp add: delete_all_def)
next
  case (Cons i ids)
  define w where "w = v(i := None)"
  have m: "map (value_at w) ids = map (value_at v) ids"
    using Cons.prems(2) by (auto simp: value_at_upd w_def)
  have "finite (dom w)" using Cons.prems(1) by (simp add: w_def)
  from Cons.IH[OF this] m Cons.prems(2)
  have "live_native (delete_all w ids) + sum_list (map (value_at v) ids) = live_native w" by simp
  moreover have "live_native w + value_at v i = live_native v"
    using live_native_upd[OF Cons.prems(1), of i None] by (simp add: w_def)
  moreover have "delete_all v (i # ids) = delete_all w ids"
    unfolding w_def by (rule delete_all_Cons)
  ultimately show ?case by simp
qed

lemma live_create_all:
  "finite (dom v) \<Longrightarrow> distinct (map ob_id obs) \<Longrightarrow> (\<forall>ob \<in> set obs. v (ob_id ob) = None) \<Longrightarrow>
   live_native (create_all v obs) = live_native v + sum_list (map coin_value obs)"
proof (induction obs arbitrary: v)
  case (Cons ob obs)
  define w where "w = v(ob_id ob \<mapsto> ob)"
  have "ob_id ob' \<noteq> ob_id ob" if "ob' \<in> set obs" for ob' using Cons.prems(2) that by (force simp: image_iff)
  then have "\<forall>ob' \<in> set obs. w (ob_id ob') = None" using Cons.prems(3) by (simp add: w_def)
  moreover have "finite (dom w)" "distinct (map ob_id obs)" using Cons.prems(1,2) by (simp_all add: w_def)
  ultimately have "live_native (create_all w obs) = live_native w + sum_list (map coin_value obs)"
    by (intro Cons.IH)
  moreover have "live_native w = live_native v + coin_value ob"
    using live_native_upd[OF Cons.prems(1), of "ob_id ob" "Some ob"] Cons.prems(3) by (simp add: w_def value_at_def)
  ultimately show ?case by (simp add: w_def)
qed simp

text \<open>When a replacement is in order, and when it must succeed.\<close>

definition replace_fits :: "(obj_id \<rightharpoonup> obj) \<Rightarrow> obj_id list \<Rightarrow> obj list \<Rightarrow> bool" where
  "replace_fits v ids obs \<longleftrightarrow> distinct ids \<and> set ids \<subseteq> dom v \<and> distinct (map ob_id obs) \<and>
     (\<forall>ob \<in> set obs. ob_id ob \<in> set ids \<or> v (ob_id ob) = None)"

definition replace_plain :: "(obj_id \<rightharpoonup> obj) \<Rightarrow> obj_id list \<Rightarrow> obj list \<Rightarrow> bool" where
  "replace_plain v ids obs \<longleftrightarrow> (\<forall>i \<in> set ids. \<not> is_system_object (the (v i))) \<and>
     (\<forall>ob \<in> set obs. \<not> is_system_object ob \<and> length (ob_data ob) \<le> MAX_OBJECT_SIZE)"

lemma live_replaced:
  assumes "finite (dom v)" "replace_fits v ids obs"
  shows "live_native (replaced v ids obs) + sum_list (map (value_at v) ids) = live_native v + sum_list (map coin_value obs)"
proof -
  have "finite (dom (delete_all v ids))"
    by (rule finite_subset[OF _ assms(1)]) (auto simp: delete_all_def split: if_splits)
  moreover have "\<forall>ob \<in> set obs. delete_all v ids (ob_id ob) = None"
    using assms(2) by (auto simp: replace_fits_def delete_all_def)
  ultimately show ?thesis
    using live_create_all[of "delete_all v ids" obs] live_delete_all[OF assms(1), of ids] assms(2)
    by (simp add: replaced_def replace_fits_def)
qed

lemma create_all_other: "i \<notin> ob_id ` set obs \<Longrightarrow> create_all v obs i = v i"
  by (induction obs rule: rev_induct) (auto simp: create_all_def)

lemma create_all_created: "distinct (map ob_id obs) \<Longrightarrow> ob \<in> set obs \<Longrightarrow> create_all v obs (ob_id ob) = Some ob"
proof (induction obs arbitrary: v)
  case (Cons a obs)
  show ?case
  proof (cases "ob = a")
    case True
    then show ?thesis using create_all_other[of "ob_id a" obs] Cons.prems(1) by simp
  next
    case False
    then show ?thesis using Cons by simp
  qed
qed simp

lemma replaced_created:
  "distinct (map ob_id obs) \<Longrightarrow> ob \<in> set obs \<Longrightarrow> replaced v ids obs (ob_id ob) = Some ob"
  unfolding replaced_def by (rule create_all_created)

end
