(* ===== verification/Backends.thy ===== *)
theory Backends
  imports Coins
begin

text \<open>
  What the coin operations may rely on in a backend, stated as locales: single writes on a view of
  the objects, and the replacement of inputs by outputs.  The database, the snapshots and the
  write captures satisfy them.
\<close>

section \<open>Single writes\<close>

locale object_writes =
  fixes del :: "'s \<Rightarrow> obj_id \<Rightarrow> 's \<times> (l1_error, obj) outcome"
    and cre :: "'s \<Rightarrow> obj \<Rightarrow> 's \<times> (l1_error, unit) outcome"
    and view :: "'s \<Rightarrow> obj_id \<Rightarrow> obj option" and good :: "'s \<Rightarrow> bool"
  assumes deleted: "good s \<Longrightarrow> del s i = (s', Inr x) \<Longrightarrow> good s' \<and> view s' = (view s)(i := None) \<and> view s i \<noteq> None"
    and deletes: "good s \<Longrightarrow> view s i = Some ob \<Longrightarrow> \<not> is_system_object ob \<Longrightarrow> \<exists>s' x. del s i = (s', Inr x)"
    and created: "good s \<Longrightarrow> cre s ob = (s', Inr u) \<Longrightarrow>
      good s' \<and> view s' = (view s)(ob_id ob \<mapsto> ob) \<and> view s (ob_id ob) = None"
    and creates: "good s \<Longrightarrow> view s (ob_id ob) = None \<Longrightarrow> \<not> is_system_object ob \<Longrightarrow>
      length (ob_data ob) \<le> MAX_OBJECT_SIZE \<Longrightarrow> \<exists>s'. cre s ob = (s', Inr ())"
begin

lemma delete_loop:
  "good s \<Longrightarrow> sloop del s ids = (s', Inr ()) \<Longrightarrow>
   good s' \<and> view s' = delete_all (view s) ids \<and> distinct ids \<and> set ids \<subseteq> dom (view s)"
proof (induction ids arbitrary: s)
  case Nil
  then show ?case by (simp add: delete_all_def)
next
  case (Cons i ids)
  then obtain s1 x where s1: "del s i = (s1, Inr x)" "sloop del s1 ids = (s', Inr ())"
    by (auto simp: sbind_def split: prod.splits sum.splits)
  note d = deleted[OF Cons.prems(1) s1(1)]
  then have ih: "good s' \<and> view s' = delete_all (view s1) ids \<and> distinct ids \<and> set ids \<subseteq> dom (view s1)"
    using Cons.IH[OF _ s1(2)] by blast
  moreover have "delete_all (view s1) ids = delete_all (view s) (i # ids)" using d by (simp only: delete_all_Cons)
  moreover have "i \<notin> dom (view s1)" "dom (view s1) \<subseteq> dom (view s)" "i \<in> dom (view s)"
    using d by auto
  moreover have "i \<notin> set ids" using calculation by blast
  moreover have "set (i # ids) \<subseteq> dom (view s)"
    using subset_trans[of "set ids" "dom (view s1)" "dom (view s)"] calculation by simp
  ultimately show ?case by simp
qed

lemma create_loop:
  "good s \<Longrightarrow> sloop cre s obs = (s', Inr ()) \<Longrightarrow>
   good s' \<and> view s' = create_all (view s) obs \<and> distinct (map ob_id obs) \<and> (\<forall>ob \<in> set obs. view s (ob_id ob) = None)"
proof (induction obs arbitrary: s)
  case (Cons ob obs)
  then obtain s1 u where s1: "cre s ob = (s1, Inr u)" "sloop cre s1 obs = (s', Inr ())"
    by (auto simp: sbind_def split: prod.splits sum.splits)
  note c = created[OF Cons.prems(1) s1(1)]
  then have ih: "good s' \<and> view s' = create_all (view s1) obs \<and> distinct (map ob_id obs) \<and>
      (\<forall>ob \<in> set obs. view s1 (ob_id ob) = None)"
    using Cons.IH[OF _ s1(2)] by blast
  moreover have "create_all (view s1) obs = create_all (view s) (ob # obs)" using c by (simp only: create_all_simps)
  moreover have "view s (ob_id ob) = None" "view s1 (ob_id ob) = Some ob"
    "view s1 j = None \<Longrightarrow> view s j = None" for j
    using c by (auto split: if_splits)
  ultimately show ?case by force
qed simp

lemma delete_loop_runs:
  "good s \<Longrightarrow> distinct ids \<Longrightarrow> (\<forall>i \<in> set ids. \<exists>ob. view s i = Some ob \<and> \<not> is_system_object ob) \<Longrightarrow>
   \<exists>s'. sloop del s ids = (s', Inr ())"
proof (induction ids arbitrary: s)
  case (Cons i ids)
  then obtain ob where "view s i = Some ob" "\<not> is_system_object ob" by auto
  then obtain s1 x where s1: "del s i = (s1, Inr x)" using deletes Cons.prems(1) by blast
  note d = deleted[OF Cons.prems(1) s1]
  have "\<forall>j \<in> set ids. \<exists>ob. view s1 j = Some ob \<and> \<not> is_system_object ob"
    using d Cons.prems(2,3) by auto
  with Cons.IH[of s1] d Cons.prems(2) s1 show ?case by (auto simp: sbind_def)
qed simp

lemma create_loop_runs:
  "good s \<Longrightarrow> distinct (map ob_id obs) \<Longrightarrow>
   (\<forall>ob \<in> set obs. view s (ob_id ob) = None \<and> \<not> is_system_object ob \<and> length (ob_data ob) \<le> MAX_OBJECT_SIZE) \<Longrightarrow>
   \<exists>s'. sloop cre s obs = (s', Inr ())"
proof (induction obs arbitrary: s)
  case (Cons ob obs)
  then obtain s1 where s1: "cre s ob = (s1, Inr ())" using creates by fastforce
  note c = created[OF Cons.prems(1) s1]
  have "\<forall>ob' \<in> set obs. view s1 (ob_id ob') = None \<and> \<not> is_system_object ob' \<and> length (ob_data ob') \<le> MAX_OBJECT_SIZE"
    using c Cons.prems(2,3) by (auto simp: image_iff)
  with Cons.IH[of s1] c Cons.prems(2) s1 show ?case by (auto simp: sbind_def)
qed simp

lemma replace_loops:
  assumes "good s" "replace_objects_default del cre s ids obs = (s', Inr ())"
  shows "good s' \<and> view s' = replaced (view s) ids obs \<and> replace_fits (view s) ids obs"
proof -
  obtain s1 where s1: "sloop del s ids = (s1, Inr ())" "sloop cre s1 obs = (s', Inr ())"
    using assms(2) by (auto simp: replace_objects_default_def sbind_def split: prod.splits sum.splits)
  note d = delete_loop[OF assms(1) s1(1)]
  then show ?thesis using create_loop[of s1 obs s'] s1(2)
    by (auto simp: replaced_def replace_fits_def delete_all_def split: if_splits)
qed

lemma replace_loops_run:
  assumes "good s" "replace_fits (view s) ids obs" "replace_plain (view s) ids obs"
  shows "\<exists>s'. replace_objects_default del cre s ids obs = (s', Inr ())"
proof -
  have "\<forall>i \<in> set ids. \<exists>ob. view s i = Some ob \<and> \<not> is_system_object ob"
    using assms(2,3) by (fastforce simp: replace_fits_def replace_plain_def)
  then obtain s1 where s1: "sloop del s ids = (s1, Inr ())"
    using delete_loop_runs[OF assms(1), of ids] assms(2) by (auto simp: replace_fits_def)
  note d = delete_loop[OF assms(1) s1]
  have "\<exists>s'. sloop cre s1 obs = (s', Inr ())"
    by (rule create_loop_runs) (use d assms(2,3) in \<open>auto simp: replace_fits_def replace_plain_def delete_all_def\<close>)
  then show ?thesis using s1 by (auto simp: replace_objects_default_def sbind_def)
qed

end

text \<open>The store itself, the snapshots and the captures.\<close>

lemma keep_with_delete:
  "(\<exists>x. keep_with s (store_delete B s i) = (s', Inr x)) \<longleftrightarrow> apply_mutation B s (Delete i) = Inr s'"
  by (cases "store_delete B s i") (auto simp: keep_with_def)

lemma keep_Inr [simp]: "keep s r = (s', Inr u) \<longleftrightarrow> r = Inr s'"
  by (cases r) (auto simp: keep_def)

interpretation store_writes: object_writes
  "\<lambda>st i. keep_with st (store_delete B st i)" "\<lambda>st ob. keep st (apply_mutation B st (Create ob))" object_at store_wf
proof unfold_locales
  fix s i s' x
  assume "store_wf s" "keep_with s (store_delete B s i) = (s', Inr x)"
  then have a: "apply_mutation B s (Delete i) = Inr s'" "store_wf s" using keep_with_delete by blast+
  show "store_wf s' \<and> object_at s' = (object_at s)(i := None) \<and> object_at s i \<noteq> None"
    using apply_mutation_lookup[OF a] apply_mutation_wf[OF a] apply_mutation_accepts[of B s "Delete i"] a(1) by auto
next
  fix s i ob
  assume "store_wf s" "object_at s i = Some ob" "\<not> is_system_object ob"
  then have "\<exists>s'. apply_mutation B s (Delete i) = Inr s'"
    using apply_mutation_accepts[of B s "Delete i"] by simp
  then show "\<exists>s' x. keep_with s (store_delete B s i) = (s', Inr x)" using keep_with_delete by blast
next
  fix s ob s' u
  assume "store_wf s" "keep s (apply_mutation B s (Create ob)) = (s', Inr u)"
  then have a: "apply_mutation B s (Create ob) = Inr s'" "store_wf s" by simp_all
  show "store_wf s' \<and> object_at s' = (object_at s)(ob_id ob \<mapsto> ob) \<and> object_at s (ob_id ob) = None"
    using apply_mutation_lookup[OF a] apply_mutation_wf[OF a] apply_mutation_accepts[of B s "Create ob"] a(1) by auto
next
  fix s ob
  assume "store_wf s" "object_at s (ob_id ob) = None" "\<not> is_system_object ob" "length (ob_data ob) \<le> MAX_OBJECT_SIZE"
  then show "\<exists>s'. keep s (apply_mutation B s (Create ob)) = (s', Inr ())"
    using apply_mutation_accepts[of B s "Create ob"] by auto
qed

lemma snapshot_mutate_Inr:
  "snapshot_mutate B sn m = (sn', Inr u) \<longleftrightarrow>
     (\<exists>st. apply_mutation B (sn_store sn) m = Inr st \<and> sn' = \<lparr>sn_store = st, sn_mutations = sn_mutations sn @ [m]\<rparr>)"
  by (auto simp: snapshot_mutate_def split: sum.splits)

lemma snapshot_delete_Inr:
  "(\<exists>x. snapshot_delete B sn i = (sn', Inr x)) \<longleftrightarrow> snapshot_mutate B sn (Delete i) = (sn', Inr ())"
  by (auto simp: snapshot_delete_def snapshot_mutate_def split: sum.splits)

definition snapshot_view :: "snapshot \<Rightarrow> obj_id \<Rightarrow> obj option" where
  "snapshot_view sn = object_at (sn_store sn)"

definition snapshot_good :: "snapshot \<Rightarrow> bool" where
  "snapshot_good sn \<longleftrightarrow> store_wf (sn_store sn)"

interpretation snapshot_writes: object_writes
  "snapshot_delete B" "\<lambda>sn ob. snapshot_mutate B sn (Create ob)" snapshot_view snapshot_good
proof unfold_locales
  fix s i s' x
  assume g: "snapshot_good s" and "snapshot_delete B s i = (s', Inr x)"
  then have "snapshot_mutate B s (Delete i) = (s', Inr ())" using snapshot_delete_Inr by blast
  then show "snapshot_good s' \<and> snapshot_view s' = (snapshot_view s)(i := None) \<and> snapshot_view s i \<noteq> None"
    using apply_mutation_lookup[of B "sn_store s" "Delete i"] apply_mutation_wf[of B "sn_store s" "Delete i"]
      apply_mutation_accepts[of B "sn_store s" "Delete i"] g
    by (fastforce simp: snapshot_mutate_Inr snapshot_view_def snapshot_good_def simp del: apply_mutation.simps)
next
  fix s i ob
  assume "snapshot_good s" "snapshot_view s i = Some ob" "\<not> is_system_object ob"
  then have "\<exists>s'. snapshot_mutate B s (Delete i) = (s', Inr ())"
    using apply_mutation_accepts[of B "sn_store s" "Delete i"]
    by (auto simp: snapshot_mutate_Inr snapshot_view_def simp del: apply_mutation.simps)
  then show "\<exists>s' x. snapshot_delete B s i = (s', Inr x)" using snapshot_delete_Inr by blast
next
  fix s ob s' u
  assume "snapshot_good s" "snapshot_mutate B s (Create ob) = (s', Inr u)"
  then show "snapshot_good s' \<and> snapshot_view s' = (snapshot_view s)(ob_id ob \<mapsto> ob) \<and> snapshot_view s (ob_id ob) = None"
    using store_writes.created[of "sn_store s" B ob "sn_store s'" "()"]
    by (auto simp: snapshot_mutate_Inr snapshot_view_def snapshot_good_def)
next
  fix s ob
  assume "snapshot_good s" "snapshot_view s (ob_id ob) = None" "\<not> is_system_object ob" "length (ob_data ob) \<le> MAX_OBJECT_SIZE"
  then show "\<exists>s'. snapshot_mutate B s (Create ob) = (s', Inr ())"
    using store_writes.creates[of "sn_store s" ob B]
    by (auto simp: snapshot_mutate_Inr snapshot_view_def snapshot_good_def)
qed

text \<open>A capture is good when the objects it shows carry their ids and are finitely many.\<close>

definition capture_good :: "capture \<Rightarrow> bool" where
  "capture_good c \<longleftrightarrow> (\<forall>i ob. resolved_get c i = Some ob \<longrightarrow> ob_id ob = i) \<and> finite (dom (resolved_get c))"

lemma capture_new_good: "store_wf shared \<Longrightarrow> capture_good (capture_new shared)"
proof -
  assume wf: "store_wf shared"
  have "resolved_get (capture_new shared) = object_at shared"
    by (simp add: resolved_get_def capture_new_def write_log_new_def fun_eq_iff)
  then show ?thesis using store_wf_lookup[OF wf] by (simp add: capture_good_def finite_dom_map_of)
qed

lemma resolved_push: "resolved_get (capture_push c i v w) = (resolved_get c)(i := v)"
  by (auto simp: resolved_get_def capture_push_def push_write_def fun_eq_iff split: option.splits)

interpretation capture_writes: object_writes
  "\<lambda>c i. keep_with c (capture_delete c i)" "\<lambda>c ob. keep c (capture_create c ob)" resolved_get capture_good
proof unfold_locales
  fix s i s' x
  assume g: "capture_good s" and "keep_with s (capture_delete s i) = (s', Inr x)"
  then have "s' = capture_push s i None (WDelete i)" "resolved_get s i \<noteq> None"
    by (auto simp: keep_with_def capture_delete_def other_fail_def outcome_simps split: sum.splits prod.splits if_splits)
  then show "capture_good s' \<and> resolved_get s' = (resolved_get s)(i := None) \<and> resolved_get s i \<noteq> None"
    using g by (auto simp: resolved_push capture_good_def)
next
  fix s i ob
  assume "resolved_get s i = Some ob" "\<not> is_system_object ob"
  then show "\<exists>s' x. keep_with s (capture_delete s i) = (s', Inr x)"
    by (simp add: keep_with_def capture_delete_def ok_or_def is_system_object_def)
next
  fix s ob s' u
  assume g: "capture_good s" and "keep s (capture_create s ob) = (s', Inr u)"
  then have "s' = capture_push s (ob_id ob) (Some ob) (WCreate ob)" "resolved_get s (ob_id ob) = None"
    by (auto simp: capture_create_def other_fail_def split: if_splits)
  then show "capture_good s' \<and> resolved_get s' = (resolved_get s)(ob_id ob \<mapsto> ob) \<and> resolved_get s (ob_id ob) = None"
    using g by (auto simp: resolved_push capture_good_def)
next
  fix s ob
  assume "resolved_get s (ob_id ob) = None" "\<not> is_system_object ob"
  then show "\<exists>s'. keep s (capture_create s ob) = (s', Inr ())"
    by (simp add: capture_create_def is_system_object_def)
qed

section \<open>The backend of the coin operations\<close>

locale object_backend =
  fixes be :: "'s backend" and view :: "'s \<Rightarrow> obj_id \<Rightarrow> obj option" and good :: "'s \<Rightarrow> bool"
  assumes read_view: "good s \<Longrightarrow> be_read be s i = ok_or (ObjectNotFound i) (view s i)"
    and view_id: "good s \<Longrightarrow> view s i = Some ob \<Longrightarrow> ob_id ob = i"
    and view_finite: "good s \<Longrightarrow> finite (dom (view s))"
    and replace_view: "good s \<Longrightarrow> be_replace_objects be s ids obs = (s', Inr u) \<Longrightarrow>
      good s' \<and> view s' = replaced (view s) ids obs \<and> replace_fits (view s) ids obs"
    and replace_runs: "good s \<Longrightarrow> replace_fits (view s) ids obs \<Longrightarrow> replace_plain (view s) ids obs \<Longrightarrow>
      \<exists>s'. be_replace_objects be s ids obs = (s', Inr ())"
    and create_view: "good s \<Longrightarrow> be_create be s ob = (s', Inr u) \<Longrightarrow>
      good s' \<and> view s' = (view s)(ob_id ob \<mapsto> ob) \<and> view s (ob_id ob) = None"
    and create_fails: "be_create be s ob = (s', Inl e) \<Longrightarrow> s' = s"

lemma sloop_keep: "sloop (\<lambda>s x. keep s (f s x)) s xs = (s', Inr ()) \<longleftrightarrow> foldM f s xs = Inr s'"
  by (induction xs arbitrary: s) (auto simp: sbind_def keep_def outcome_simps split: sum.splits)

lemma run_deletes:
  "run_mutations B st (map Delete ids) = Inr st' \<longleftrightarrow> sloop (\<lambda>s i. keep_with s (store_delete B s i)) st ids = (st', Inr ())"
proof (induction ids arbitrary: st)
  case (Cons i ids)
  then show ?case
    by (cases "store_delete B st i") (auto simp: run_mutations_def sbind_def keep_with_def outcome_simps)
qed (simp add: run_mutations_def)

lemma run_creates:
  "run_mutations B st (map Create obs) = Inr st' \<longleftrightarrow>
   sloop (\<lambda>s ob. keep s (apply_mutation B s (Create ob))) st obs = (st', Inr ())"
  unfolding sloop_keep run_mutations_def by (induction obs arbitrary: st) (simp_all add: outcome_simps)

lemma run_replacement:
  "run_mutations B st (map Delete ids @ map Create obs) = Inr st' \<longleftrightarrow>
   replace_objects_default (\<lambda>s i. keep_with s (store_delete B s i))
     (\<lambda>s ob. keep s (apply_mutation B s (Create ob))) st ids obs = (st', Inr ())"
  unfolding run_mutations_append outcome_simps run_deletes run_creates
  by (auto simp: replace_objects_default_def sbind_def split: prod.splits sum.splits)

text \<open>The database, when its writes succeed; its rows take no part in what is read.\<close>

definition db_view :: "object_db \<Rightarrow> obj_id \<Rightarrow> obj option" where
  "db_view db = object_at (od_store db)"

definition db_good :: "object_db \<Rightarrow> bool" where
  "db_good db \<longleftrightarrow> store_wf (od_store db)"

lemma store_view_facts: "store_wf st \<Longrightarrow> object_at st i = Some ob \<Longrightarrow> ob_id ob = i" "finite (dom (object_at st))"
  by (simp_all add: store_wf_lookup finite_dom_map_of)

lemma apply_batch_Inr:
  "apply_batch B written db ms = (db', Inr u) \<Longrightarrow> run_mutations B (od_store db) ms = Inr (od_store db')"
  using apply_batch_cases[of B written db ms] by (auto simp: run_mutations_def)

lemma apply_batch_runs:
  "run_mutations B (od_store db) ms = Inr st \<Longrightarrow> \<exists>db'. apply_batch B (Inr ()) db ms = (db', Inr ())"
  using apply_batch_cases[of B "Inr ()" db ms] by auto

lemma apply_batch_fails: "apply_batch B written db ms = (db', Inl e) \<Longrightarrow> db' = db"
  using apply_batch_cases[of B written db ms] by auto

interpretation database: object_backend "db_backend B (Inr ())" db_view db_good
proof unfold_locales
  fix s i assume "db_good s"
  show "be_read (db_backend B (Inr ())) s i = ok_or (ObjectNotFound i) (db_view s i)"
    by (simp add: db_backend_def store_read_def db_view_def)
next
  fix s i ob assume "db_good s" "db_view s i = Some ob"
  then show "ob_id ob = i" by (simp add: db_good_def db_view_def store_view_facts)
next
  fix s assume "db_good s"
  then show "finite (dom (db_view s))" by (simp add: db_view_def finite_dom_map_of)
next
  fix s ids obs s' u
  assume g: "db_good s" and "be_replace_objects (db_backend B (Inr ())) s ids obs = (s', Inr u)"
  then have "run_mutations B (od_store s) (map Delete ids @ map Create obs) = Inr (od_store s')"
    by (auto simp: db_backend_def dest: apply_batch_Inr)
  then show "db_good s' \<and> db_view s' = replaced (db_view s) ids obs \<and> replace_fits (db_view s) ids obs"
    using store_writes.replace_loops[of "od_store s" B ids obs "od_store s'"] g
    unfolding run_replacement db_good_def db_view_def by blast
next
  fix s ids obs
  assume "db_good s" "replace_fits (db_view s) ids obs" "replace_plain (db_view s) ids obs"
  then have "\<exists>st. run_mutations B (od_store s) (map Delete ids @ map Create obs) = Inr st"
    using store_writes.replace_loops_run[of "od_store s" ids obs B]
    unfolding run_replacement db_good_def db_view_def by blast
  then show "\<exists>s'. be_replace_objects (db_backend B (Inr ())) s ids obs = (s', Inr ())"
    by (auto simp: db_backend_def intro: apply_batch_runs)
next
  fix s ob s' u
  assume g: "db_good s" and "be_create (db_backend B (Inr ())) s ob = (s', Inr u)"
  then have "run_mutations B (od_store s) [Create ob] = Inr (od_store s')"
    by (auto simp: db_backend_def dest: apply_batch_Inr)
  then have "keep (od_store s) (apply_mutation B (od_store s) (Create ob)) = (od_store s', Inr ())"
    by (auto simp: run_mutations_def rbind_eq_Inr)
  then show "db_good s' \<and> db_view s' = (db_view s)(ob_id ob \<mapsto> ob) \<and> db_view s (ob_id ob) = None"
    using store_writes.created[of "od_store s" B ob "od_store s'"] g unfolding db_good_def db_view_def by blast
next
  fix s ob s' e
  assume "be_create (db_backend B (Inr ())) s ob = (s', Inl e)"
  then show "s' = s" by (auto simp: db_backend_def dest: apply_batch_fails)
qed

interpretation snapshots: object_backend "snapshot_backend B" snapshot_view snapshot_good
proof unfold_locales
  fix s i assume "snapshot_good s"
  show "be_read (snapshot_backend B) s i = ok_or (ObjectNotFound i) (snapshot_view s i)"
    by (simp add: snapshot_backend_def store_read_def snapshot_view_def)
next
  fix s i ob assume "snapshot_good s" "snapshot_view s i = Some ob"
  then show "ob_id ob = i" by (simp add: snapshot_good_def snapshot_view_def store_view_facts)
next
  fix s assume "snapshot_good s"
  then show "finite (dom (snapshot_view s))" by (simp add: snapshot_view_def finite_dom_map_of)
next
  fix s ids obs s' u
  assume "snapshot_good s" "be_replace_objects (snapshot_backend B) s ids obs = (s', Inr u)"
  then show "snapshot_good s' \<and> snapshot_view s' = replaced (snapshot_view s) ids obs \<and>
      replace_fits (snapshot_view s) ids obs"
    by (intro snapshot_writes.replace_loops) (simp_all add: snapshot_backend_def)
next
  fix s ids obs
  assume "snapshot_good s" "replace_fits (snapshot_view s) ids obs" "replace_plain (snapshot_view s) ids obs"
  then show "\<exists>s'. be_replace_objects (snapshot_backend B) s ids obs = (s', Inr ())"
    using snapshot_writes.replace_loops_run by (simp add: snapshot_backend_def)
next
  fix s ob s' u
  assume "snapshot_good s" "be_create (snapshot_backend B) s ob = (s', Inr u)"
  then show "snapshot_good s' \<and> snapshot_view s' = (snapshot_view s)(ob_id ob \<mapsto> ob) \<and> snapshot_view s (ob_id ob) = None"
    by (intro snapshot_writes.created) (simp_all add: snapshot_backend_def)
next
  fix s ob s' e
  assume "be_create (snapshot_backend B) s ob = (s', Inl e)"
  then show "s' = s" by (auto simp: snapshot_backend_def snapshot_mutate_def split: sum.splits)
qed

lemma capture_read_resolved: "capture_read c i = ok_or (ObjectNotFound i) (resolved_get c i)"
  by (auto simp: capture_read_def resolved_get_def store_read_def split: option.splits)

interpretation captures: object_backend capture_backend resolved_get capture_good
proof unfold_locales
  fix s i assume "capture_good s"
  show "be_read capture_backend s i = ok_or (ObjectNotFound i) (resolved_get s i)"
    by (simp add: capture_backend_def capture_read_resolved)
next
  fix s i ob assume "capture_good s" "resolved_get s i = Some ob"
  then show "ob_id ob = i" by (simp add: capture_good_def)
next
  fix s assume "capture_good s"
  then show "finite (dom (resolved_get s))" by (simp add: capture_good_def)
next
  fix s ids obs s' u
  assume "capture_good s" "be_replace_objects capture_backend s ids obs = (s', Inr u)"
  then show "capture_good s' \<and> resolved_get s' = replaced (resolved_get s) ids obs \<and>
      replace_fits (resolved_get s) ids obs"
    by (intro capture_writes.replace_loops) (simp_all add: capture_backend_def)
next
  fix s ids obs
  assume "capture_good s" "replace_fits (resolved_get s) ids obs" "replace_plain (resolved_get s) ids obs"
  then show "\<exists>s'. be_replace_objects capture_backend s ids obs = (s', Inr ())"
    using capture_writes.replace_loops_run by (simp add: capture_backend_def)
next
  fix s ob s' u
  assume "capture_good s" "be_create capture_backend s ob = (s', Inr u)"
  then show "capture_good s' \<and> resolved_get s' = (resolved_get s)(ob_id ob \<mapsto> ob) \<and> resolved_get s (ob_id ob) = None"
    by (intro capture_writes.created) (simp_all add: capture_backend_def)
next
  fix s ob s' e
  assume "be_create capture_backend s ob = (s', Inl e)"
  then show "s' = s" by (auto simp: capture_backend_def keep_def split: sum.splits)
qed

end
