(* ===== verification/CoinSpending.thy ===== *)
theory CoinSpending
  imports Backends
begin

text \<open>
  What the coin operations keep, on every backend: selections are coins of their owner, a transfer
  moves value without creating or losing any, and it writes nothing unless it succeeds.
\<close>

definition owned_input :: "(obj_id \<rightharpoonup> obj) \<Rightarrow> address \<Rightarrow> obj_id \<Rightarrow> bool" where
  "owned_input v owner i \<longleftrightarrow>
     (\<exists>ob. v i = Some ob \<and> ob_owner ob = AddressOwned owner \<and> ob_version ob = 0 \<and> is_native_coin_object ob)"

lemma decode_native_coin_type: "decode_native_coin ob = Inr c \<Longrightarrow> is_native_coin_object ob"
  by (auto simp: decode_native_coin_def other_fail_def split: if_splits)

text \<open>An id that no system object can have.\<close>

definition user_id :: "obj_id \<Rightarrow> bool" where
  "user_id i \<longleftrightarrow> creator_address i \<noteq> TREASURY_SYSTEM_ADDRESS"

lemma coin_not_system: "is_native_coin_object ob \<Longrightarrow> user_id (ob_id ob) \<Longrightarrow> \<not> is_system_object ob"
  by (auto simp: is_native_coin_object_def user_id_def is_system_object_def is_treasury_cap_object_def
      is_validator_set_object_def TREASURY_CAP_OBJECT_ID_def VALIDATOR_SET_OBJECT_ID_def
      NATIVE_COIN_OBJECT_TYPE_def TREASURY_CAP_OBJECT_TYPE_def VALIDATOR_SET_OBJECT_TYPE_def TREASURY_SYSTEM_ADDRESS_def)

lemma native_coin_object_facts:
  assumes "native_coin_object owner amount nonce = Inr ob"
  shows "ob_id ob = ObjectID owner nonce" "ob_owner ob = AddressOwned owner" "is_native_coin_object ob"
    "length (ob_data ob) \<le> MAX_OBJECT_SIZE" "amount < u64_limit \<Longrightarrow> coin_value ob = amount" "0 < amount"
  using assms by (auto simp: outcome_simps object_new_def is_native_coin_object_def MAX_OBJECT_SIZE_def
      coin_value_new[unfolded object_new_def])

lemma change_output_facts:
  assumes "change_output B owner change tx_hash n = Inr c"
  shows "change < u64_limit \<Longrightarrow> sum_list (map coin_value (option_list c)) = change"
    "\<forall>ob \<in> set (option_list c). ob_id ob = ObjectID owner (coin_output_nonce B tx_hash n) \<and>
       ob_owner ob = AddressOwned owner \<and> is_native_coin_object ob \<and> length (ob_data ob) \<le> MAX_OBJECT_SIZE"
    "distinct (map ob_id (option_list c))"
proof -
  have "(change = 0 \<and> c = None) \<or> (\<exists>ob. native_coin_object owner change (coin_output_nonce B tx_hash n) = Inr ob \<and> c = Some ob)"
    using assms by (auto simp: change_output_def rbind_eq_Inr split: if_splits)
  then show "change < u64_limit \<Longrightarrow> sum_list (map coin_value (option_list c)) = change"
    "\<forall>ob \<in> set (option_list c). ob_id ob = ObjectID owner (coin_output_nonce B tx_hash n) \<and>
       ob_owner ob = AddressOwned owner \<and> is_native_coin_object ob \<and> length (ob_data ob) \<le> MAX_OBJECT_SIZE"
    "distinct (map ob_id (option_list c))"
    by (elim disjE exE conjE; simp add: option_list_def native_coin_object_facts)+
qed

lemma change_output_cases:
  assumes "change_output B owner change tx_hash n = Inr c"
  shows "(change = 0 \<and> c = None) \<or> (\<exists>ob. 0 < change \<and> c = Some ob \<and> native_coin_object owner change (coin_output_nonce B tx_hash n) = Inr ob)"
  using assms by (auto simp: change_output_def rbind_eq_Inr split: if_splits)

text \<open>A coin of an owner, worth an amount.\<close>

definition coin_at :: "(obj_id \<rightharpoonup> obj) \<Rightarrow> obj_id \<Rightarrow> address \<Rightarrow> nat \<Rightarrow> bool" where
  "coin_at v i owner amount \<longleftrightarrow>
     (\<exists>ob. v i = Some ob \<and> ob_owner ob = AddressOwned owner \<and> is_native_coin_object ob \<and> coin_value ob = amount)"

lemma sbind_Inr:
  "sbind m k = (s', Inr y) \<longleftrightarrow> (\<exists>s x. m = (s, Inr x) \<and> k s x = (s', Inr y))"
  by (auto simp: sbind_def split: prod.splits sum.splits)

lemma sbind_pure: "sbind (s, Inr x) k = k s x" "sbind (s, Inl e) k = (s, Inl e)"
  by (simp_all add: sbind_def)

context object_backend
begin

lemma select_loop:
  assumes "good s"
    "foldM (\<lambda>(seen, tot) i.
        if i \<in> seen then other_fail ''duplicate native coin input''
        else
          rbind (be_read be s i) (\<lambda>ob.
          if ob_owner ob \<noteq> AddressOwned owner then Inl (Fail (NotOwner i))
          else if ob_version ob \<noteq> 0
          then other_fail ''native coin input is mutable/versioned; immutable UTXO version 0 required''
          else
            rbind (decode_native_coin ob) (\<lambda>coin.
            rbind (ok_or (Other ''native coin input sum overflow'') (checked_add_u64 tot (coin_amount coin))) (\<lambda>tot'.
            Inr (insert i seen, tot'))))) (seen, t) ids = Inr (seen', t')"
  shows "distinct ids \<and> set ids \<inter> seen = {} \<and> t' = t + sum_list (map (value_at (view s)) ids) \<and>
    (\<forall>i \<in> set ids. owned_input (view s) owner i) \<and> (ids \<noteq> [] \<longrightarrow> t' < u64_limit)"
  using assms(2)
proof (induction ids arbitrary: seen t)
  case (Cons i ids)
  from Cons.prems obtain ob c where ob: "i \<notin> seen" "view s i = Some ob" "ob_owner ob = AddressOwned owner"
    "ob_version ob = 0" "decode_native_coin ob = Inr c" "t + coin_amount c < u64_limit"
    and rest: "foldM (\<lambda>(seen, tot) i.
        if i \<in> seen then other_fail ''duplicate native coin input''
        else
          rbind (be_read be s i) (\<lambda>ob.
          if ob_owner ob \<noteq> AddressOwned owner then Inl (Fail (NotOwner i))
          else if ob_version ob \<noteq> 0
          then other_fail ''native coin input is mutable/versioned; immutable UTXO version 0 required''
          else
            rbind (decode_native_coin ob) (\<lambda>coin.
            rbind (ok_or (Other ''native coin input sum overflow'') (checked_add_u64 tot (coin_amount coin))) (\<lambda>tot'.
            Inr (insert i seen, tot'))))) (insert i seen, t + coin_amount c) ids = Inr (seen', t')"
    by (auto simp: outcome_simps other_fail_def read_view[OF assms(1)] split: if_splits)
  have "value_at (view s) i = coin_amount c" using ob by (simp add: value_at_def coin_value_def)
  moreover have "owned_input (view s) owner i" using ob decode_native_coin_type by (auto simp: owned_input_def)
  ultimately show ?case using Cons.IH[OF rest] ob by auto
qed simp

lemma select_owned:
  assumes "good s" "select_owned_native_coins be s ids owner required = Inr sel"
  shows "sel_input_ids sel = ids" "distinct ids" "ids \<noteq> []" "required \<le> sel_total sel"
    "sel_total sel = sum_list (map (value_at (view s)) ids)" "sel_total sel < u64_limit"
    "\<forall>i \<in> set ids. owned_input (view s) owner i" "0 < required"
  using assms(2) select_loop[OF assms(1), of owner "{}" 0 ids]
  by (auto simp: select_owned_native_coins_def outcome_simps other_fail_def not_less split: if_splits)

lemma inputs_plain:
  assumes "good s" "\<forall>i \<in> set ids. owned_input (view s) owner i \<and> user_id i"
  shows "\<forall>i \<in> set ids. \<not> is_system_object (the (view s i))" "set ids \<subseteq> dom (view s)"
  using assms view_id[OF assms(1)] coin_not_system by (fastforce simp: owned_input_def)+

lemma free_outputs:
  "good s \<Longrightarrow> foldM (\<lambda>_. check_free be s) () obs = Inr () \<longleftrightarrow> (\<forall>ob \<in> set obs. view s (ob_id ob) = None)"
  unfolding foldM_unit_Inr by (rule ball_cong) (auto simp: check_free_def read_view ok_or_def split: option.splits)

lemma transfer_outputs_facts:
  assumes "good s" "transfer_outputs B be s selection sender recipient amount tx_hash = Inr (r, c)"
  defines "ids \<equiv> sel_input_ids selection" and "obs \<equiv> r # option_list c"
  shows "0 < amount" "amount \<le> sel_total selection" "sel_total selection = sum_list (map (value_at (view s)) ids)"
    "distinct ids" "\<forall>i \<in> set ids. owned_input (view s) sender i" "sel_total selection < u64_limit"
    "native_coin_object recipient amount (coin_output_nonce B tx_hash 0) = Inr r"
    "change_output B sender (sel_total selection - amount) tx_hash 1 = Inr c"
    "distinct (map ob_id obs)" "\<forall>ob \<in> set obs. view s (ob_id ob) = None"
    "sum_list (map coin_value obs) = sel_total selection"
proof -
  from assms(2) obtain v where v: "select_owned_native_coins be s ids sender amount = Inr v"
    and t: "sel_total v = sel_total selection" and a: "0 < amount" "amount \<le> sel_total selection"
    and r: "native_coin_object recipient amount (coin_output_nonce B tx_hash 0) = Inr r"
    and c: "change_output B sender (sel_total selection - amount) tx_hash 1 = Inr c"
    and ne: "\<not> list_ex (\<lambda>ob. ob_id ob = ob_id r) (option_list c)"
    and free: "foldM (\<lambda>_. check_free be s) () obs = Inr ()"
    unfolding transfer_outputs_def ids_def obs_def
    by (auto simp: outcome_simps other_fail_def simp del: native_coin_object_Inr foldM.simps split: if_splits)
  note sel = select_owned[OF assms(1) v]
  show "0 < amount" "amount \<le> sel_total selection" by (rule a)+
  show "sel_total selection = sum_list (map (value_at (view s)) ids)" "distinct ids"
    "\<forall>i \<in> set ids. owned_input (view s) sender i" "sel_total selection < u64_limit"
    using sel t by auto
  show "native_coin_object recipient amount (coin_output_nonce B tx_hash 0) = Inr r"
    "change_output B sender (sel_total selection - amount) tx_hash 1 = Inr c" by (rule r, rule c)
  show "distinct (map ob_id obs)"
    using ne change_output_facts(3)[OF c] by (auto simp: obs_def list_ex_iff)
  show "\<forall>ob \<in> set obs. view s (ob_id ob) = None" using free free_outputs[OF assms(1)] by blast
  show "sum_list (map coin_value obs) = sel_total selection"
    using native_coin_object_facts(5)[OF r] change_output_facts(1)[OF c] sel(6) t a(2) by (simp add: obs_def)
qed

lemma transfer_success:
  assumes "good s" "transfer_native_coins B be s selection sender recipient amount tx_hash = (s', Inr (rid, cid))"
  defines "ids \<equiv> sel_input_ids selection" and "spent \<equiv> sum_list (map (value_at (view s)) (sel_input_ids selection))"
  shows "live_native (view s') = live_native (view s)" "distinct ids" "\<forall>i \<in> set ids. owned_input (view s) sender i"
    "amount \<le> spent" "distinct (rid # option_list cid)" "\<forall>i \<in> set (rid # option_list cid). view s i = None"
    "coin_at (view s') rid recipient amount"
    "case cid of None \<Rightarrow> spent = amount | Some c \<Rightarrow> amount < spent \<and> coin_at (view s') c sender (spent - amount)"
    "\<forall>i. i \<notin> set (rid # option_list cid) \<longrightarrow> view s' i = (if i \<in> set ids then None else view s i)"
proof -
  from assms(2) obtain r c s1 u where out: "transfer_outputs B be s selection sender recipient amount tx_hash = Inr (r, c)"
    and rp: "be_replace_objects be s ids (r # option_list c) = (s', Inr u)"
    and ids: "rid = ob_id r" "cid = map_option ob_id c"
    by (auto simp: transfer_native_coins_def sbind_Inr ids_def)
  note f = transfer_outputs_facts[OF assms(1) out]
  note v = replace_view[OF assms(1) rp]
  have obs: "rid # option_list cid = map ob_id (r # option_list c)" by (simp add: ids option_list_def split: option.splits)
  show "live_native (view s') = live_native (view s)"
    using live_replaced[OF view_finite[OF assms(1)], of ids "r # option_list c"] v f(3,11) by (simp add: ids_def)
  show "distinct ids" "\<forall>i \<in> set ids. owned_input (view s) sender i" "amount \<le> spent"
    using f(2-5) by (simp_all add: ids_def spent_def)
  show "distinct (rid # option_list cid)" "\<forall>i \<in> set (rid # option_list cid). view s i = None"
    using f(9,10) unfolding obs by auto
  have made: "view s' (ob_id ob) = Some ob" if "ob \<in> set (r # option_list c)" for ob
    using v replaced_created[OF f(9) that] by simp
  show "coin_at (view s') rid recipient amount"
    using made[of r] native_coin_object_facts[OF f(7)] f(2,6) by (simp add: coin_at_def ids)
  show "case cid of None \<Rightarrow> spent = amount | Some c \<Rightarrow> amount < spent \<and> coin_at (view s') c sender (spent - amount)"
    using change_output_cases[OF f(8)]
  proof (elim disjE exE conjE)
    fix ob
    assume c: "0 < sel_total selection - amount" "c = Some ob"
      "native_coin_object sender (sel_total selection - amount) (coin_output_nonce B tx_hash 1) = Inr ob"
    then show ?thesis
      using made[of ob] native_coin_object_facts[OF c(3)] f(3,6) by (simp add: coin_at_def ids spent_def option_list_def)
  qed (use f(2,3) in \<open>simp add: ids spent_def\<close>)
  show "\<forall>i. i \<notin> set (rid # option_list cid) \<longrightarrow> view s' i = (if i \<in> set ids then None else view s i)"
  proof (intro allI impI)
    fix i
    assume "i \<notin> set (rid # option_list cid)"
    then have "i \<notin> ob_id ` set (r # option_list c)" unfolding obs by simp
    then show "view s' i = (if i \<in> set ids then None else view s i)"
      using v create_all_other by (simp add: replaced_def delete_all_def)
  qed
qed

lemma transfer_atomic:
  assumes "good s" "transfer_native_coins B be s selection sender recipient amount tx_hash = (s', Inl e)"
    "sender \<noteq> TREASURY_SYSTEM_ADDRESS" "recipient \<noteq> TREASURY_SYSTEM_ADDRESS" "\<forall>i \<in> set (sel_input_ids selection). user_id i"
  shows "s' = s"
proof (cases "transfer_outputs B be s selection sender recipient amount tx_hash")
  case (Inl d)
  then show ?thesis using assms(2) by (simp add: transfer_native_coins_def sbind_pure)
next
  case (Inr p)
  then obtain r c where out: "transfer_outputs B be s selection sender recipient amount tx_hash = Inr (r, c)"
    by (cases p) simp
  note f = transfer_outputs_facts[OF assms(1) out]
  let ?ids = "sel_input_ids selection" and ?obs = "r # option_list c"
  have in_ok: "\<forall>i \<in> set ?ids. owned_input (view s) sender i \<and> user_id i" using f(5) assms(5) by blast
  have plain: "\<not> is_system_object ob \<and> length (ob_data ob) \<le> MAX_OBJECT_SIZE" if "ob \<in> set ?obs" for ob
  proof -
    have "is_native_coin_object ob \<and> user_id (ob_id ob) \<and> length (ob_data ob) \<le> MAX_OBJECT_SIZE"
      using that native_coin_object_facts[OF f(7)] change_output_facts(2)[OF f(8)] assms(3,4)
      by (auto simp: user_id_def)
    then show ?thesis using coin_not_system by blast
  qed
  have "replace_fits (view s) ?ids ?obs"
    using f(4,9,10) inputs_plain(2)[OF assms(1) in_ok] unfolding replace_fits_def
    by (intro conjI ballI disjI2) (assumption | erule bspec)+
  moreover have "replace_plain (view s) ?ids ?obs"
    using plain inputs_plain(1)[OF assms(1) in_ok] unfolding replace_plain_def by blast
  ultimately obtain s1 where "be_replace_objects be s ?ids ?obs = (s1, Inr ())" using replace_runs[OF assms(1)] by blast
  then show ?thesis using assms(2) out by (simp add: transfer_native_coins_def sbind_pure)
qed

lemma consume_value:
  assumes "good s" "select_owned_native_coins be s ids owner required = Inr sel"
    "consume_native_coin_selection B be s sel owner required tx_hash n = (s', Inr cid)"
  shows "good s' \<and> live_native (view s') + required = live_native (view s)"
proof -
  note sel = select_owned[OF assms(1,2)]
  from assms(3) obtain c u where c: "change_output B owner (sel_total sel - required) tx_hash n = Inr c"
    and rep: "be_replace_objects be s (sel_input_ids sel) (option_list c) = (s', Inr u)"
    by (auto simp: consume_native_coin_selection_def sbind_Inr outcome_simps split: if_splits)
  note v = replace_view[OF assms(1) rep]
  have "sum_list (map coin_value (option_list c)) = sel_total sel - required"
    using change_output_facts(1)[OF c] sel(6) by simp
  then show ?thesis
    using live_replaced[OF view_finite[OF assms(1)], of "sel_input_ids sel" "option_list c"] v sel by simp
qed

lemma create_output_value:
  assumes "good s" "create_native_coin_output B be s owner amount tx_hash n = (s', Inr i)" "amount < u64_limit"
  shows "good s' \<and> live_native (view s') = live_native (view s) + amount"
proof -
  from assms(2) obtain ob u where ob: "native_coin_object owner amount (coin_output_nonce B tx_hash n) = Inr ob"
    and cr: "be_create be s ob = (s', Inr u)"
    by (auto simp: create_native_coin_output_def sbind_Inr)
  note v = create_view[OF assms(1) cr]
  show ?thesis
    using live_native_upd[OF view_finite[OF assms(1)], of "ob_id ob" "Some ob"] v native_coin_object_facts(5)[OF ob assms(3)]
    by (simp add: value_at_def)
qed

lemma create_output_fails:
  "create_native_coin_output B be s owner amount tx_hash n = (s', Inl e) \<Longrightarrow> s' = s"
  by (auto simp: create_native_coin_output_def sbind_def dest: create_fails split: prod.splits sum.splits)

end

section \<open>Transfers on the backends\<close>

text \<open>
  What a transfer reports and what it leaves, on a view of the objects: the inputs are distinct coins
  of the sender, the created objects are new, the coin of the recipient is worth the amount, the
  sender gets what is left over, if anything is, and no other object changes.
\<close>

definition transfer_effect ::
  "('s \<Rightarrow> obj_id \<Rightarrow> obj option) \<Rightarrow> obj_id list \<Rightarrow> address \<Rightarrow> address \<Rightarrow> nat \<Rightarrow> 's \<Rightarrow>
   's \<times> (l1_error, obj_id \<times> obj_id option) outcome \<Rightarrow> bool" where
  "transfer_effect view ids sender recipient amount s r \<longleftrightarrow>
     (case r of
        (s', Inl _) \<Rightarrow> s' = s
      | (s', Inr (rid, cid)) \<Rightarrow>
          (let spent = sum_list (map (value_at (view s)) ids); created = rid # option_list cid
           in distinct ids \<and> (\<forall>i \<in> set ids. owned_input (view s) sender i) \<and> amount \<le> spent \<and>
              distinct created \<and> (\<forall>i \<in> set created. view s i = None) \<and>
              coin_at (view s') rid recipient amount \<and>
              (case cid of
                 None \<Rightarrow> spent = amount
               | Some c \<Rightarrow> amount < spent \<and> coin_at (view s') c sender (spent - amount)) \<and>
              (\<forall>i. i \<notin> set created \<longrightarrow> view s' i = (if i \<in> set ids then None else view s i)) \<and>
              live_native (view s') = live_native (view s)))"

context object_backend
begin

lemma transfer_effect:
  assumes "good s" "sender \<noteq> TREASURY_SYSTEM_ADDRESS" "recipient \<noteq> TREASURY_SYSTEM_ADDRESS"
    "\<forall>i \<in> set (sel_input_ids selection). user_id i"
  shows "transfer_effect view (sel_input_ids selection) sender recipient amount s
    (transfer_native_coins B be s selection sender recipient amount tx_hash)"
proof -
  obtain s' r where t: "transfer_native_coins B be s selection sender recipient amount tx_hash = (s', r)"
    by (cases "transfer_native_coins B be s selection sender recipient amount tx_hash")
  show ?thesis
  proof (cases r)
    case (Inl e)
    then show ?thesis using transfer_atomic[OF assms(1) _ assms(2-4)] t by (simp add: transfer_effect_def)
  next
    case (Inr p)
    then obtain rid cid where "r = Inr (rid, cid)" by (cases p) simp
    then show ?thesis
      using transfer_success[OF assms(1) t[unfolded \<open>r = Inr (rid, cid)\<close>]] t by (simp add: transfer_effect_def Let_def)
  qed
qed

end

text \<open>
  C4: A transfer of native coins moves value and is atomic, on the database, on a snapshot and on
  the write capture of a transaction.  When it succeeds its inputs were distinct coins of the sender
  and are gone, the recipient owns a new coin of exactly the amount, the sender owns a new coin of
  exactly what the inputs exceed the amount by, or none if they do not, every other object is what
  it was, and so is the value of the live coins; when it fails, for whatever reason, nothing was
  written.  The reserved system address takes no part.
\<close>

theorem transfer_moves_value:
  assumes "db_good d" "snapshot_good n" "capture_good c"
    and "sender \<noteq> TREASURY_SYSTEM_ADDRESS" "recipient \<noteq> TREASURY_SYSTEM_ADDRESS"
    and "\<forall>i \<in> set (sel_input_ids sel). user_id i"
  shows "transfer_effect db_view (sel_input_ids sel) sender recipient amount d
      (transfer_native_coins B (db_backend B (Inr ())) d sel sender recipient amount tx_hash) \<and>
    transfer_effect snapshot_view (sel_input_ids sel) sender recipient amount n
      (transfer_native_coins B (snapshot_backend B) n sel sender recipient amount tx_hash) \<and>
    transfer_effect resolved_get (sel_input_ids sel) sender recipient amount c
      (transfer_native_coins B capture_backend c sel sender recipient amount tx_hash)"
  using database.transfer_effect[OF assms(1,4-6)] snapshots.transfer_effect[OF assms(2,4-6)]
    captures.transfer_effect[OF assms(3-6)] by blast

definition sample_coin :: obj where
  "sample_coin = object_new (ObjectID [1] 5) (AddressOwned [1]) NATIVE_COIN_OBJECT_TYPE (u64_le 10) None"

definition sample_store :: store where
  "sample_store = put_object (\<lambda>_. []) (store_new (\<lambda>_. [])) sample_coin"

lemma sample_coin_facts:
  "ob_id sample_coin = ObjectID [1] 5" "ob_owner sample_coin = AddressOwned [1]" "ob_version sample_coin = 0"
  "decode_native_coin sample_coin = Inr \<lparr>coin_amount = 10\<rparr>" "ob_type sample_coin = NATIVE_COIN_OBJECT_TYPE"
  by (simp_all add: sample_coin_def object_new_def decode_coin_of_object u64_limit_def)

lemma sample_store_facts: "store_wf sample_store" "object_at sample_store = [ObjectID [1] 5 \<mapsto> sample_coin]"
proof -
  have "store_wf (store_new (\<lambda>_. []))" by (simp add: store_wf_def store_new_def)
  then show "store_wf sample_store" unfolding sample_store_def by (rule store_wf_put)
  show "object_at sample_store = [ObjectID [1] 5 \<mapsto> sample_coin]"
    by (simp add: sample_store_def store_new_def sample_coin_facts)
qed

lemma plain_sender: "[1] \<noteq> TREASURY_SYSTEM_ADDRESS" "[2] \<noteq> TREASURY_SYSTEM_ADDRESS"
  by (simp_all add: TREASURY_SYSTEM_ADDRESS_def numeral_eq_Suc)

theorem transfer_moves_value_witness:
  "case transfer_native_coins (\<lambda>_. []) capture_backend (capture_new sample_store)
      \<lparr>sel_input_ids = [ObjectID [1] 5], sel_total = 10\<rparr> [1] [2] 4 [] of
     (c', Inr (rid, cid)) \<Rightarrow> live_native (resolved_get c') = 10 \<and> resolved_get c' (ObjectID [1] 5) = None \<and>
       coin_at (resolved_get c') rid [2] 4 \<and> (\<exists>c. cid = Some c \<and> coin_at (resolved_get c') c [1] 6)
   | (_, Inl _) \<Rightarrow> False"
proof -
  let ?sel = "\<lparr>sel_input_ids = [ObjectID [1] 5], sel_total = 10\<rparr>"
  let ?r = "transfer_native_coins (\<lambda>_. []) capture_backend (capture_new sample_store) ?sel [1] [2] 4 []"
  have g: "db_good \<lparr>od_rows = Map.empty, od_store = sample_store\<rparr>"
    "snapshot_good \<lparr>sn_store = sample_store, sn_mutations = []\<rparr>" "capture_good (capture_new sample_store)"
    using sample_store_facts(1) by (simp_all add: db_good_def snapshot_good_def capture_new_good)
  have "\<forall>i \<in> set (sel_input_ids ?sel). user_id i" using plain_sender by (simp add: user_id_def)
  from transfer_moves_value[OF g plain_sender this, where B = "\<lambda>_. []" and amount = 4 and tx_hash = "[]"]
  have e: "transfer_effect resolved_get [ObjectID [1] 5] [1] [2] 4 (capture_new sample_store) ?r" by simp
  have v: "resolved_get (capture_new sample_store) = [ObjectID [1] 5 \<mapsto> sample_coin]"
    by (simp add: resolved_get_def capture_new_def write_log_new_def sample_store_facts fun_eq_iff)
  have l: "live_native [ObjectID [1] 5 \<mapsto> sample_coin] = 10"
    by (simp add: live_native_def value_at_def coin_value_def sample_coin_facts)
  have "\<exists>c'. ?r = (c', Inr (ObjectID [2] 0, Some (ObjectID [1] 0)))"
    by (simp add: transfer_native_coins_def transfer_outputs_def select_owned_native_coins_def capture_backend_def
        capture_read_resolved v sample_coin_facts ok_or_def checked_add_u64_def checked_sub_u64_def u64_limit_def
        change_output_def coin_output_nonce_def be_u64_def native_coin_object_def native_coin_new_def object_new_def
        option_list_def check_free_def sbind_def replace_objects_default_def keep_with_def keep_def capture_delete_def
        capture_create_def resolved_push is_treasury_cap_object_def TREASURY_CAP_OBJECT_ID_def plain_sender
        plain_sender[symmetric] NATIVE_COIN_OBJECT_TYPE_def TREASURY_CAP_OBJECT_TYPE_def)
  moreover have "value_at [ObjectID [1] 5 \<mapsto> sample_coin] (ObjectID [1] 5) = 10"
    by (simp add: value_at_def coin_value_def sample_coin_facts)
  ultimately show ?thesis using e v l by (auto simp: transfer_effect_def Let_def option_list_def)
qed

end
