(* ===== verification/Supply.thy ===== *)
theory Supply
  imports CoinSpending
begin

text \<open>
  The native supply, \<^verbatim>\<open>economics/mod.rs\<close>: the treasury, the one-time mint of genesis and the burns.
  \<open>supply_ok v escrow\<close> is the equation they keep: the live coins and what is locked in escrow add
  up to the supply that the treasury cap commits to.
\<close>

section \<open>The treasury and genesis\<close>

definition read_treasury :: "object_db \<Rightarrow> (l1_error, treasury_cap option) outcome" where
  "read_treasury db =
     (case store_read (od_store db) TREASURY_CAP_OBJECT_ID of
        Inr ob \<Rightarrow> rbind (decode_treasury_cap ob) (\<lambda>cap. Inr (Some cap))
      | Inl (Fail (ObjectNotFound _)) \<Rightarrow> Inr None
      | Inl e \<Rightarrow> Inl e)"

definition any_native_coin :: "object_db \<Rightarrow> bool" where
  "any_native_coin db = list_ex is_native_coin_object (map snd (st_objects (od_store db)))"

definition initialize_treasury ::
  "hash_fn \<Rightarrow> (l1_error, unit) outcome \<Rightarrow> object_db \<Rightarrow> object_db \<times> (l1_error, unit) outcome" where
  "initialize_treasury B written db =
     sbind (db, rbind (read_treasury db) (\<lambda>t.
               if t \<noteq> None then other_fail ''TreasuryCap is already initialized''
               else if any_native_coin db
               then other_fail ''cannot initialize TreasuryCap after native coins already exist''
               else treasury_cap_object empty_open 0)) (\<lambda>db ob.
     apply_batch B written db [SystemCreate ob])"

definition canonical_genesis_allocations :: "(address \<times> nat) list \<Rightarrow> (l1_error, (address \<times> nat) list) outcome" where
  "canonical_genesis_allocations allocations =
     (let canonical = sort_key fst allocations
      in if \<not> distinct_adj (map fst canonical) then other_fail ''duplicate genesis allocation address''
         else if list_ex (\<lambda>(_, amount). amount = 0) canonical
         then other_fail ''genesis allocation must be greater than zero''
         else Inr canonical)"

definition genesis_allocation_commitment :: "hash_fn \<Rightarrow> nat \<Rightarrow> (address \<times> nat) list \<Rightarrow> byte list" where
  "genesis_allocation_commitment B chain_id allocations =
     B (map of_char ''ZCHAIN_GENESIS_NATIVE_ALLOC_V1'' @ u64_be chain_id @
        concat (map (\<lambda>(owner, amount). owner @ u64_be amount) allocations))"

definition genesis_coin_nonce :: "hash_fn \<Rightarrow> nat \<Rightarrow> address \<Rightarrow> nat" where
  "genesis_coin_nonce B chain_id owner =
     be_u64 (take 8 (B (map of_char ''ZCHAIN_GENESIS_NATIVE_COIN_V1'' @ u64_be chain_id @ owner)))"

text \<open>The registry object reserved at genesis, with the first validator as its creator.\<close>

definition cairo_registry_contract_id :: obj_id where
  "cairo_registry_contract_id = ObjectID (0xFF # replicate 18 0 @ [5]) 0"

definition CAIRO_REGISTRY_OBJECT_TYPE :: string where
  "CAIRO_REGISTRY_OBJECT_TYPE = ''CairoFactRegistry''"

definition derive_address :: "hash_fn \<Rightarrow> tagged_pubkey \<Rightarrow> address" where
  "derive_address B pk = take 20 (B (pk_to_bytes pk))"

definition genesis_creator_from_system_objects :: "hash_fn \<Rightarrow> nat \<Rightarrow> obj list \<Rightarrow> address option" where
  "genesis_creator_from_system_objects B chain_id system_objects =
     (case List.find is_validator_set_object system_objects of
        None \<Rightarrow> None
      | Some ob \<Rightarrow>
          (case decode_validator_set_object B ob chain_id of
             Inl _ \<Rightarrow> None
           | Inr s \<Rightarrow> (case vs_validators s of [] \<Rightarrow> None | v # _ \<Rightarrow> Some (derive_address B (ve_pubkey v)))))"

text \<open>The default state of the registry: a creator, four empty lists and no consumer.\<close>

definition genesis_registry_object :: "address \<Rightarrow> obj" where
  "genesis_registry_object creator =
     object_new cairo_registry_contract_id Shared CAIRO_REGISTRY_OBJECT_TYPE
       (creator @ u32_le 0 @ u8_enc 0 @ u32_le 0 @ u32_le 0 @ u32_le 0) None"

definition cairo_registry_seed :: "hash_fn \<Rightarrow> object_db \<Rightarrow> nat \<Rightarrow> obj list \<Rightarrow> (l1_error, obj option) outcome" where
  "cairo_registry_seed B db chain_id system_objects =
     (case store_read (od_store db) cairo_registry_contract_id of
        Inr _ \<Rightarrow> Inr None
      | Inl (Fail (ObjectNotFound _)) \<Rightarrow>
          Inr (map_option genesis_registry_object (genesis_creator_from_system_objects B chain_id system_objects))
      | Inl e \<Rightarrow> Inl e)"

definition read_cap_version :: "object_db \<Rightarrow> (l1_error, (treasury_cap \<times> nat) option) outcome" where
  "read_cap_version db =
     (case store_read (od_store db) TREASURY_CAP_OBJECT_ID of
        Inr ob \<Rightarrow> rbind (decode_treasury_cap ob) (\<lambda>cap. Inr (Some (cap, ob_version ob)))
      | Inl (Fail (ObjectNotFound _)) \<Rightarrow> Inr None
      | Inl e \<Rightarrow> Inl e)"

definition check_system_object :: "object_db \<Rightarrow> obj \<Rightarrow> (l1_error, unit) outcome" where
  "check_system_object db expected =
     (case store_read (od_store db) (ob_id expected) of
        Inl _ \<Rightarrow> other_fail ''genesis system object is missing after mint closure''
      | Inr actual \<Rightarrow>
          if actual \<noteq> expected then other_fail ''genesis system object differs after mint closure'' else Inr ())"

text \<open>The mutations of the mint: the cap, the system objects, the registry and a coin per allocation.\<close>

definition genesis_mutations ::
  "hash_fn \<Rightarrow> object_db \<Rightarrow> nat \<Rightarrow> (address \<times> nat) list \<Rightarrow> obj list \<Rightarrow> (treasury_cap \<times> nat) option \<Rightarrow>
   (l1_error, mutation list) outcome" where
  "genesis_mutations B db chain_id canonical system_objects existing =
     rbind (foldM (\<lambda>sum (_, amount). ok_or (Other ''genesis native supply overflow'') (checked_add_u64 sum amount))
              0 canonical) (\<lambda>tot.
     let cap = \<lparr>total_supply = tot, total_minted = tot, total_burned = 0, minting_closed = True,
                genesis_commitment = genesis_allocation_commitment B chain_id canonical\<rparr>
     in rbind (case existing of
                 None \<Rightarrow> Inr 0
               | Some (_, version) \<Rightarrow>
                   ok_or (Other ''TreasuryCap object version overflow'') (checked_add_u64 version 1)) (\<lambda>cap_version.
        rbind (treasury_cap_object cap cap_version) (\<lambda>cap_object.
        rbind (cairo_registry_seed B db chain_id system_objects) (\<lambda>seed.
        rbind (collect_results (\<lambda>(owner, amount). native_coin_object owner amount (genesis_coin_nonce B chain_id owner))
                 canonical) (\<lambda>coins.
        Inr ((if existing = None then SystemCreate cap_object else SystemReplace cap_object) #
             map SystemCreate system_objects @ map Create (option_list seed) @ map Create coins))))))"

definition genesis_mint_with_system_objects ::
  "hash_fn \<Rightarrow> (l1_error, unit) outcome \<Rightarrow> object_db \<Rightarrow> nat \<Rightarrow> (address \<times> nat) list \<Rightarrow> obj list \<Rightarrow>
   object_db \<times> (l1_error, nat) outcome" where
  "genesis_mint_with_system_objects B written db chain_id allocations system_objects =
     sbind (db, rbind (canonical_genesis_allocations allocations) (\<lambda>canonical.
                rbind (read_cap_version db) (\<lambda>existing. Inr (canonical, existing)))) (\<lambda>db (canonical, existing).
     case existing of
       Some (cap, _) \<Rightarrow>
         if minting_closed cap then
           sbind (db, if genesis_commitment cap \<noteq> genesis_allocation_commitment B chain_id canonical
                      then other_fail ''genesis mint is closed and allocation commitment differs''
                      else
                        rbind (foldM (\<lambda>_. check_system_object db) () system_objects) (\<lambda>_.
                        cairo_registry_seed B db chain_id system_objects)) (\<lambda>db seed.
           (case seed of
              None \<Rightarrow> (db, Inr 0)
            | Some registry \<Rightarrow> sbind (apply_batch B written db [Create registry]) (\<lambda>db' _. (db', Inr 0))))
         else if total_supply cap \<noteq> 0 \<or> total_minted cap \<noteq> 0 \<or> total_burned cap \<noteq> 0
         then (db, other_fail ''open TreasuryCap must be empty before genesis mint'')
         else
           sbind (db, genesis_mutations B db chain_id canonical system_objects existing) (\<lambda>db ms.
           sbind (apply_batch B written db ms) (\<lambda>db' _. (db', Inr (length canonical))))
     | None \<Rightarrow>
         if any_native_coin db
         then (db, other_fail ''cannot establish genesis supply after untracked native coins already exist'')
         else
           sbind (db, genesis_mutations B db chain_id canonical system_objects existing) (\<lambda>db ms.
           sbind (apply_batch B written db ms) (\<lambda>db' _. (db', Inr (length canonical)))))"

definition genesis_mint ::
  "hash_fn \<Rightarrow> (l1_error, unit) outcome \<Rightarrow> object_db \<Rightarrow> nat \<Rightarrow> (address \<times> nat) list \<Rightarrow> object_db \<times> (l1_error, nat) outcome" where
  "genesis_mint B written db chain_id allocations =
     genesis_mint_with_system_objects B written db chain_id allocations []"

section \<open>Burns\<close>

definition burn_from_cap :: "treasury_cap \<Rightarrow> nat \<Rightarrow> string \<Rightarrow> (l1_error, treasury_cap) outcome" where
  "burn_from_cap cap amount msg =
     rbind (ok_or (Other msg) (checked_sub_u64 (total_supply cap) amount)) (\<lambda>supply.
     rbind (ok_or (Other ''TreasuryCap burned counter overflow'') (checked_add_u64 (total_burned cap) amount)) (\<lambda>burned.
     Inr (cap\<lparr>total_supply := supply, total_burned := burned\<rparr>)))"

definition next_cap_object :: "treasury_cap \<Rightarrow> nat \<Rightarrow> (l1_error, obj) outcome" where
  "next_cap_object cap version =
     rbind (ok_or (Other ''TreasuryCap object version overflow'') (checked_add_u64 version 1)) (treasury_cap_object cap)"

definition burn_inputs :: "object_db \<Rightarrow> address \<Rightarrow> obj_id list \<Rightarrow> (l1_error, nat) outcome" where
  "burn_inputs db owner input_ids =
     rbind (foldM (\<lambda>(seen, burned) i.
        if i \<in> seen then other_fail ''duplicate native coin burn input''
        else
          rbind (store_read (od_store db) i) (\<lambda>ob.
          if ob_owner ob \<noteq> AddressOwned owner then Inl (Fail (NotOwner i))
          else
            rbind (decode_native_coin ob) (\<lambda>coin.
            rbind (ok_or (Other ''native coin burn sum overflow'') (checked_add_u64 burned (coin_amount coin))) (\<lambda>burned'.
            Inr (insert i seen, burned'))))) ({}, 0) input_ids) (\<lambda>(_, burned). Inr burned)"

definition burn_native_coins ::
  "hash_fn \<Rightarrow> (l1_error, unit) outcome \<Rightarrow> object_db \<Rightarrow> address \<Rightarrow> obj_id list \<Rightarrow> object_db \<times> (l1_error, nat) outcome" where
  "burn_native_coins B written db owner input_ids =
     sbind (db,
       if input_ids = [] then other_fail ''native coin burn requires at least one input''
       else
         rbind (store_read (od_store db) TREASURY_CAP_OBJECT_ID) (\<lambda>cap_object.
         rbind (decode_treasury_cap cap_object) (\<lambda>cap.
         rbind (burn_inputs db owner input_ids) (\<lambda>burned.
         rbind (burn_from_cap cap burned ''native coin burn exceeds TreasuryCap supply'') (\<lambda>cap'.
         rbind (next_cap_object cap' (ob_version cap_object)) (\<lambda>ob. Inr (burned, ob))))))) (\<lambda>db (burned, ob).
     sbind (apply_batch B written db (map Delete input_ids @ [SystemReplace ob])) (\<lambda>db' _. (db', Inr burned)))"

definition burn_escrowed_native ::
  "'s backend \<Rightarrow> 's \<Rightarrow> nat \<Rightarrow> 's \<times> (l1_error, unit) outcome" where
  "burn_escrowed_native be s amount =
     (if amount = 0 then (s, Inr ())
      else
        sbind (s,
          rbind (be_read be s TREASURY_CAP_OBJECT_ID) (\<lambda>cap_object.
          rbind (decode_treasury_cap cap_object) (\<lambda>cap.
          rbind (burn_from_cap cap amount ''escrow burn exceeds TreasuryCap supply'') (\<lambda>cap'.
          next_cap_object cap' (ob_version cap_object))))) (\<lambda>s ob.
        be_replace_system_object be s ob))"

section \<open>The supply equation\<close>

definition cap_of :: "(obj_id \<rightharpoonup> obj) \<Rightarrow> treasury_cap option" where
  "cap_of v =
     (case v TREASURY_CAP_OBJECT_ID of
        None \<Rightarrow> None
      | Some ob \<Rightarrow> (case decode_treasury_cap ob of Inl _ \<Rightarrow> None | Inr cap \<Rightarrow> Some cap))"

definition supply_ok :: "(obj_id \<rightharpoonup> obj) \<Rightarrow> nat \<Rightarrow> bool" where
  "supply_ok v escrow \<longleftrightarrow> (\<exists>cap. cap_of v = Some cap \<and> live_native v + escrow = total_supply cap)"

lemma coin_type_distinct:
  "NATIVE_COIN_OBJECT_TYPE \<noteq> TREASURY_CAP_OBJECT_TYPE" "NATIVE_COIN_OBJECT_TYPE \<noteq> VALIDATOR_SET_OBJECT_TYPE"
  "NATIVE_COIN_OBJECT_TYPE \<noteq> CAIRO_REGISTRY_OBJECT_TYPE"
  by (simp_all add: NATIVE_COIN_OBJECT_TYPE_def TREASURY_CAP_OBJECT_TYPE_def VALIDATOR_SET_OBJECT_TYPE_def
      CAIRO_REGISTRY_OBJECT_TYPE_def)

lemma other_type_no_value: "ob_type ob \<noteq> NATIVE_COIN_OBJECT_TYPE \<Longrightarrow> coin_value ob = 0"
  by (simp add: coin_value_def decode_native_coin_def is_native_coin_object_def other_fail_def)

lemma decode_cap_no_value: "decode_treasury_cap ob = Inr cap \<Longrightarrow> coin_value ob = 0"
  using decode_cap_Inr coin_type_distinct(1) other_type_no_value by metis

lemma validated_system_no_value: "validate_system_object B ob = Inr u \<Longrightarrow> coin_value ob = 0 \<and> ob_type ob \<noteq> NATIVE_COIN_OBJECT_TYPE"
proof -
  assume v: "validate_system_object B ob = Inr u"
  have "ob_type ob = TREASURY_CAP_OBJECT_TYPE \<or> ob_type ob = VALIDATOR_SET_OBJECT_TYPE"
    using v by (auto simp: validate_system_object_def decode_treasury_cap_def validate_validator_set_object_def
        other_fail_def outcome_simps split: if_splits)
  then have "ob_type ob \<noteq> NATIVE_COIN_OBJECT_TYPE" using coin_type_distinct by metis
  then show ?thesis using other_type_no_value by blast
qed

text \<open>Replacing a system object leaves the live coins alone.\<close>

lemma live_system_replace:
  assumes "finite (dom v)" "v (ob_id ob) = Some old" "coin_value old = 0" "coin_value ob = 0"
  shows "live_native (v(ob_id ob \<mapsto> ob)) = live_native v"
  using live_native_upd[OF assms(1), of "ob_id ob" "Some ob"] assms(2-4) by (simp add: value_at_def)

text \<open>What a burn makes of the cap.\<close>

lemma burn_from_cap_facts:
  assumes "burn_from_cap cap amount msg = Inr cap'" "next_cap_object cap' version = Inr ob" "cap_wf cap"
  shows "decode_treasury_cap ob = Inr cap'" "total_supply cap' + amount = total_supply cap"
    "ob_id ob = TREASURY_CAP_OBJECT_ID" "ob_version ob = version + 1" "ob_type ob = TREASURY_CAP_OBJECT_TYPE"
proof -
  from assms(1) have c: "cap' = cap\<lparr>total_supply := total_supply cap - amount, total_burned := total_burned cap + amount\<rparr>"
    "amount \<le> total_supply cap" "total_burned cap + amount < u64_limit"
    by (auto simp: burn_from_cap_def outcome_simps)
  from assms(2) have t: "treasury_cap_object cap' (version + 1) = Inr ob"
    by (auto simp: next_cap_object_def rbind_eq_Inr ok_or_eq_Inr checked_add_eq_Some)
  have "cap_wf cap'" using assms(3) c by (auto simp: cap_wf_def)
  then show "decode_treasury_cap ob = Inr cap'" using t by (rule decode_cap_of_object)
  show "total_supply cap' + amount = total_supply cap" using c by simp
  show "ob_id ob = TREASURY_CAP_OBJECT_ID" "ob_version ob = version + 1" "ob_type ob = TREASURY_CAP_OBJECT_TYPE"
    using t by (auto simp: treasury_cap_object_Inr object_new_def)
qed

end
