(* ===== verification/SupplyLaws.thy ===== *)
theory SupplyLaws
  imports Supply
begin

text \<open>
  Genesis establishes the supply equation and is idempotent, burns keep the equation.
\<close>

section \<open>Runs of creations\<close>

definition creation :: "bool \<times> obj \<Rightarrow> mutation" where
  "creation p = (if fst p then SystemCreate (snd p) else Create (snd p))"

lemma creation_accepts: "accepts B (creation p) v \<Longrightarrow> v = None \<and> (fst p \<longrightarrow> validate_system_object B (snd p) = Inr ())"
  by (auto simp: creation_def split: if_splits)

lemma creation_simps: "target_id (creation p) = ob_id (snd p)" "mutated (creation p) v = Some (snd p)"
  by (auto simp: creation_def)

lemma run_Cons: "run_mutations B st (m # ms) = rbind (apply_mutation B st m) (\<lambda>st'. run_mutations B st' ms)"
  by (simp add: run_mutations_def)

lemma run_creations:
  "run_mutations B st (map creation ps) = Inr st' \<Longrightarrow> store_wf st \<Longrightarrow>
   object_at st' = create_all (object_at st) (map snd ps) \<and> distinct (map ob_id (map snd ps)) \<and>
   (\<forall>ob \<in> set (map snd ps). object_at st (ob_id ob) = None) \<and>
   (\<forall>p \<in> set ps. fst p \<longrightarrow> validate_system_object B (snd p) = Inr ())"
proof (induction ps arbitrary: st)
  case Nil
  then show ?case by (simp add: run_mutations_def)
next
  case (Cons p ps)
  from Cons.prems(1) obtain st1 where st1: "apply_mutation B st (creation p) = Inr st1"
    "run_mutations B st1 (map creation ps) = Inr st'"
    by (auto simp: run_Cons rbind_eq_Inr)
  have v1: "object_at st1 = (object_at st)(ob_id (snd p) \<mapsto> snd p)"
    using apply_mutation_lookup[OF st1(1) Cons.prems(2)] by (simp add: creation_simps)
  have a: "object_at st (ob_id (snd p)) = None" "fst p \<longrightarrow> validate_system_object B (snd p) = Inr ()"
    using apply_mutation_accepts[of B st "creation p"] st1(1) creation_accepts by (auto simp: creation_simps)
  note ih = Cons.IH[OF st1(2) apply_mutation_wf[OF st1(1) Cons.prems(2)]]
  have other: "ob_id ob \<noteq> ob_id (snd p) \<and> object_at st (ob_id ob) = None" if "ob \<in> set (map snd ps)" for ob
  proof -
    have "object_at st1 (ob_id ob) = None" using ih that by blast
    then show ?thesis unfolding v1 fun_upd_apply by (simp split: if_splits)
  qed
  have "object_at st' = create_all (object_at st1) (map snd ps)" using ih by blast
  also have "\<dots> = create_all (object_at st) (map snd (p # ps))"
    unfolding v1 list.map create_all_simps ..
  finally have view: "object_at st' = create_all (object_at st) (map snd (p # ps))" .
  have "ob_id (snd p) \<notin> ob_id ` set (map snd ps)"
  proof
    assume "ob_id (snd p) \<in> ob_id ` set (map snd ps)"
    then obtain ob where "ob_id (snd p) = ob_id ob" "ob \<in> set (map snd ps)" by (rule imageE)
    with other[of ob] show False by simp
  qed
  moreover have "distinct (map ob_id (map snd ps))" using ih by blast
  ultimately have "distinct (map ob_id (map snd (p # ps)))" 
    unfolding list.map distinct.simps by (simp add: image_image)
  moreover have "\<forall>ob \<in> set (map snd (p # ps)). object_at st (ob_id ob) = None" using a(1) other by auto
  moreover have "\<forall>q \<in> set (p # ps). fst q \<longrightarrow> validate_system_object B (snd q) = Inr ()" using a(2) ih by auto
  ultimately show ?case using view by blast
qed

lemma fold_checked_amounts:
  fixes xs :: "('a \<times> nat) list"
  assumes "foldM (\<lambda>sum (_, amount). ok_or e (checked_add_u64 sum amount)) 0 xs = Inr t"
  shows "t = sum_list (map snd xs)" "t < u64_limit"
proof -
  have "(\<lambda>sum (a :: 'a, amount). ok_or e (checked_add_u64 sum amount)) = (\<lambda>t x. ok_or e (checked_add_u64 t (snd x)))"
    by (auto simp: fun_eq_iff)
  with assms have "foldM (\<lambda>t x. ok_or e (checked_add_u64 t (snd x))) 0 xs = Inr t" by simp
  then show "t = sum_list (map snd xs)" "t < u64_limit"
    by (auto simp: foldM_checked_total split: if_splits)
qed

section \<open>Genesis\<close>

lemma no_coin_no_value:
  assumes "\<not> any_native_coin db" shows "live_native (db_view db) = 0"
proof -
  have "value_at (db_view db) i = 0" for i
  proof (cases "db_view db i")
    case (Some ob)
    then have "ob \<in> snd ` set (st_objects (od_store db))" unfolding db_view_def by (force dest: map_of_SomeD)
    then have "\<not> is_native_coin_object ob" using assms by (auto simp: any_native_coin_def list_ex_iff)
    then show ?thesis
      using Some by (simp add: value_at_def coin_value_def decode_native_coin_def other_fail_def)
  qed (simp add: value_at_def)
  then show ?thesis by (simp add: live_native_def)
qed

lemma genesis_coins:
  assumes "collect_results (\<lambda>(owner, amount). native_coin_object owner amount (nonce owner)) xs = Inr coins"
    "sum_list (map snd xs) < u64_limit"
  shows "sum_list (map coin_value coins) = sum_list (map snd xs)"
proof -
  have "list_all2 (\<lambda>x c. native_coin_object (fst x) (snd x) (nonce (fst x)) = Inr c) xs coins"
    using assms(1) by (simp add: collect_results_Inr case_prod_beta)
  then show ?thesis using assms(2)
    by (induction rule: list_all2_induct) (auto simp: native_coin_object_facts(5))
qed

lemma seed_facts:
  assumes "cairo_registry_seed B db n sys = Inr seed"
  shows "\<forall>ob \<in> set (option_list seed). ob_id ob = cairo_registry_contract_id \<and> coin_value ob = 0"
    "seed = None \<Longrightarrow> db_view db cairo_registry_contract_id = None \<Longrightarrow> genesis_creator_from_system_objects B n sys = None"
proof -
  have "seed = None \<or> (\<exists>a. seed = Some (genesis_registry_object a))"
    using assms by (cases "genesis_creator_from_system_objects B n sys")
      (auto simp: cairo_registry_seed_def split: sum.splits fault.splits l1_error.splits)
  moreover have "ob_type (genesis_registry_object a) \<noteq> NATIVE_COIN_OBJECT_TYPE" for a
    using coin_type_distinct(3) by (simp add: genesis_registry_object_def object_new_def)
  ultimately show "\<forall>ob \<in> set (option_list seed). ob_id ob = cairo_registry_contract_id \<and> coin_value ob = 0"
    using other_type_no_value by (auto simp: option_list_def genesis_registry_object_def object_new_def)
  show "seed = None \<Longrightarrow> db_view db cairo_registry_contract_id = None \<Longrightarrow> genesis_creator_from_system_objects B n sys = None"
    using assms by (simp add: cairo_registry_seed_def store_read_def ok_or_def db_view_def)
qed

text \<open>The state that genesis leaves: the cap closed over the total, and the created objects.\<close>

lemma genesis_batch:
  assumes g: "db_good db" and ms: "genesis_mutations B db n canonical sys existing = Inr ms"
    and ex: "read_cap_version db = Inr existing" and live: "live_native (db_view db) = 0"
    and b: "apply_batch B written db ms = (db', Inr u)"
    and hash: "\<And>x. length (B x) = 32"
  shows "\<exists>cap. cap_of (db_view db') = Some cap \<and> minting_closed cap \<and>
      genesis_commitment cap = genesis_allocation_commitment B n canonical \<and>
      total_supply cap = sum_list (map snd canonical) \<and> live_native (db_view db') = total_supply cap \<and>
      (\<forall>ob \<in> set sys. db_view db' (ob_id ob) = Some ob) \<and>
      (db_view db' cairo_registry_contract_id = None \<longrightarrow> genesis_creator_from_system_objects B n sys = None) \<and> db_good db'"
proof -
  define tot where "tot = sum_list (map snd canonical)"
  define cap where "cap = \<lparr>total_supply = tot, total_minted = tot, total_burned = 0, minting_closed = True,
                genesis_commitment = genesis_allocation_commitment B n canonical\<rparr>"
  from ms obtain t cv cob seed coins where
    t: "foldM (\<lambda>sum (_, amount). ok_or (Other ''genesis native supply overflow'') (checked_add_u64 sum amount)) 0 canonical = Inr t"
    and cob: "treasury_cap_object (cap\<lparr>total_supply := t, total_minted := t\<rparr>) cv = Inr cob"
    and seed: "cairo_registry_seed B db n sys = Inr seed"
    and coins: "collect_results (\<lambda>(owner, amount). native_coin_object owner amount (genesis_coin_nonce B n owner)) canonical = Inr coins"
    and m: "ms = (if existing = None then SystemCreate cob else SystemReplace cob) #
             map SystemCreate sys @ map Create (option_list seed) @ map Create coins"
    unfolding genesis_mutations_def Let_def rbind_eq_Inr Inr_inject cap_def by auto
  note tt = fold_checked_amounts[OF t]
  have cob': "treasury_cap_object cap cv = Inr cob" using cob tt(1) by (simp add: cap_def tot_def)
  have wfc: "cap_wf cap"
    using tt hash by (simp add: cap_wf_def cap_def tot_def genesis_allocation_commitment_def)
  have dec: "decode_treasury_cap cob = Inr cap" by (rule decode_cap_of_object[OF wfc cob'])
  have idc: "ob_id cob = TREASURY_CAP_OBJECT_ID" using decode_cap_Inr[OF dec] by simp
  let ?ps = "map (\<lambda>ob. (True, ob)) sys @ map (\<lambda>ob. (False, ob)) (option_list seed @ coins)"
  have mm: "ms = (if existing = None then SystemCreate cob else SystemReplace cob) # map creation ?ps"
    using m by (simp add: creation_def o_def)
  have wf: "store_wf (od_store db)" using g by (simp add: db_good_def)
  have run: "run_mutations B (od_store db) ms = Inr (od_store db')" using apply_batch_Inr[OF b] .
  then obtain st1 where st1: "apply_mutation B (od_store db) (if existing = None then SystemCreate cob else SystemReplace cob) = Inr st1"
    and rest: "run_mutations B st1 (map creation ?ps) = Inr (od_store db')"
    unfolding mm run_Cons rbind_eq_Inr by blast
  have v1: "object_at st1 = (db_view db)(TREASURY_CAP_OBJECT_ID \<mapsto> cob)"
    using apply_mutation_lookup[OF st1 wf] by (auto simp: idc db_view_def split: if_splits)
  have wf1: "store_wf st1" by (rule apply_mutation_wf[OF st1 wf])
  note rc = run_creations[OF rest wf1]
  define obs where "obs = sys @ option_list seed @ coins"
  have psn: "map snd ?ps = obs" by (simp add: obs_def o_def)
  have rc1: "db_view db' = create_all (object_at st1) obs" "distinct (map ob_id obs)"
    "\<forall>ob \<in> set obs. object_at st1 (ob_id ob) = None" "\<forall>ob \<in> set sys. validate_system_object B ob = Inr ()"
    using rc unfolding psn db_view_def by (auto simp: ball_Un)
  have fin: "finite (dom (db_view db))" by (simp add: db_view_def finite_dom_map_of)
  have old: "value_at (db_view db) TREASURY_CAP_OBJECT_ID = 0"
  proof (cases "db_view db TREASURY_CAP_OBJECT_ID")
    case (Some ob)
    then have "\<exists>c. decode_treasury_cap ob = Inr c"
      using ex by (auto simp: read_cap_version_def store_read_def ok_or_def db_view_def rbind_eq_Inr)
    then show ?thesis using Some decode_cap_no_value by (auto simp: value_at_def)
  qed (simp add: value_at_def)
  have l1: "live_native (object_at st1) = 0"
    using live_native_upd[OF fin, of TREASURY_CAP_OBJECT_ID "Some cob"] old live decode_cap_no_value[OF dec]
    by (simp add: v1)
  have "sum_list (map coin_value sys) = 0"
    using rc1(4) validated_system_no_value by (induction sys) auto
  moreover have "sum_list (map coin_value (option_list seed)) = 0"
    using seed_facts(1)[OF seed] by (simp add: option_list_def split: option.splits)
  ultimately have vals: "sum_list (map coin_value obs) = tot"
    using genesis_coins[OF coins] tt by (simp add: obs_def tot_def)
  have fin1: "finite (dom (object_at st1))" by (simp add: finite_dom_map_of)
  have lv: "live_native (db_view db') = tot"
    using live_create_all[OF fin1 rc1(2,3)] l1 vals rc1(1) by simp
  have capid: "TREASURY_CAP_OBJECT_ID \<notin> ob_id ` set obs" using rc1(3) v1 by auto
  have cp: "cap_of (db_view db') = Some cap"
    using create_all_other[OF capid, of "object_at st1"] rc1(1) v1 dec by (simp add: cap_of_def)
  have sysv: "\<forall>ob \<in> set sys. db_view db' (ob_id ob) = Some ob"
    using create_all_created[OF rc1(2)] rc1(1) by (auto simp: obs_def)
  have reg: "genesis_creator_from_system_objects B n sys = None" if no: "db_view db' cairo_registry_contract_id = None"
  proof -
    have "seed = None"
    proof (rule ccontr)
      assume "seed \<noteq> None"
      then obtain ob where ob: "seed = Some ob" by blast
      then have "ob_id ob = cairo_registry_contract_id" using seed_facts(1)[OF seed] by (simp add: option_list_def)
      moreover have "db_view db' (ob_id ob) = Some ob"
        using create_all_created[OF rc1(2), of ob] rc1(1) ob by (simp add: obs_def option_list_def)
      ultimately show False using no by simp
    qed
    moreover have "db_view db cairo_registry_contract_id = None"
    proof (rule ccontr)
      assume "db_view db cairo_registry_contract_id \<noteq> None"
      then have "object_at st1 cairo_registry_contract_id \<noteq> None" using v1 by simp
      moreover from this have "cairo_registry_contract_id \<notin> ob_id ` set obs" using rc1(3) by auto
      ultimately show False using no create_all_other rc1(1) by metis
    qed
    ultimately show ?thesis using seed_facts(2)[OF seed] by blast
  qed
  have "db_good db'" using run_mutations_wf[OF run wf] by (simp add: db_good_def)
  then show ?thesis
    using cp lv sysv reg by (intro exI[of _ cap]) (simp add: cap_def tot_def)
qed

lemma sbind_pair_Inr: "sbind (s, r) k = (s', Inr y) \<longleftrightarrow> (\<exists>x. r = Inr x \<and> k s x = (s', Inr y))"
  by (auto simp: sbind_Inr)

text \<open>A mint that is not a repetition goes through the batch.\<close>

lemma genesis_mint_cases:
  assumes "genesis_mint_with_system_objects B written db n allocs sys = (db', Inr k)"
    "db_good db" "db_view db TREASURY_CAP_OBJECT_ID = None \<or> supply_ok (db_view db) 0"
    "\<forall>cap. cap_of (db_view db) = Some cap \<longrightarrow> \<not> minting_closed cap"
  shows "\<exists>canonical existing ms. canonical_genesis_allocations allocs = Inr canonical \<and>
    read_cap_version db = Inr existing \<and> genesis_mutations B db n canonical sys existing = Inr ms \<and>
    apply_batch B written db ms = (db', Inr ()) \<and> live_native (db_view db) = 0 \<and> k = length canonical"
proof -
  from assms(1) obtain canonical existing where c: "canonical_genesis_allocations allocs = Inr canonical"
    "read_cap_version db = Inr existing"
    and rest: "(case existing of
       Some (cap, _) \<Rightarrow>
         if minting_closed cap then
           sbind (db, if genesis_commitment cap \<noteq> genesis_allocation_commitment B n canonical
                      then other_fail ''genesis mint is closed and allocation commitment differs''
                      else
                        rbind (foldM (\<lambda>_. check_system_object db) () sys) (\<lambda>_.
                        cairo_registry_seed B db n sys)) (\<lambda>db seed.
           (case seed of
              None \<Rightarrow> (db, Inr 0)
            | Some registry \<Rightarrow> sbind (apply_batch B written db [Create registry]) (\<lambda>db' _. (db', Inr 0))))
         else if total_supply cap \<noteq> 0 \<or> total_minted cap \<noteq> 0 \<or> total_burned cap \<noteq> 0
         then (db, other_fail ''open TreasuryCap must be empty before genesis mint'')
         else
           sbind (db, genesis_mutations B db n canonical sys existing) (\<lambda>db ms.
           sbind (apply_batch B written db ms) (\<lambda>db' _. (db', Inr (length canonical))))
     | None \<Rightarrow>
         if any_native_coin db
         then (db, other_fail ''cannot establish genesis supply after untracked native coins already exist'')
         else
           sbind (db, genesis_mutations B db n canonical sys existing) (\<lambda>db ms.
           sbind (apply_batch B written db ms) (\<lambda>db' _. (db', Inr (length canonical))))) = (db', Inr k)"
    unfolding genesis_mint_with_system_objects_def sbind_pair_Inr rbind_eq_Inr by auto
  have go: "\<exists>ms. genesis_mutations B db n canonical sys existing = Inr ms \<and> apply_batch B written db ms = (db', Inr ()) \<and> k = length canonical"
    if "sbind (db, genesis_mutations B db n canonical sys existing) (\<lambda>db ms.
           sbind (apply_batch B written db ms) (\<lambda>db' _. (db', Inr (length canonical)))) = (db', Inr k)"
    using that by (auto simp: sbind_Inr)
  show ?thesis
  proof (cases existing)
    case None
    with rest have nc: "\<not> any_native_coin db" by (auto simp: other_fail_def split: if_splits)
    with rest None have "sbind (db, genesis_mutations B db n canonical sys existing) (\<lambda>db ms.
           sbind (apply_batch B written db ms) (\<lambda>db' _. (db', Inr (length canonical)))) = (db', Inr k)" by simp
    from go[OF this] show ?thesis using c no_coin_no_value[OF nc] by blast
  next
    case (Some p)
    obtain cap ver where p: "p = (cap, ver)" by (cases p)
    from c(2) Some p have co: "cap_of (db_view db) = Some cap"
      by (auto simp: read_cap_version_def store_read_def ok_or_def db_view_def cap_of_def rbind_eq_Inr
          split: option.splits)
    then have open_cap: "\<not> minting_closed cap" using assms(4) by blast
    with rest Some p have z: "total_supply cap = 0" by (auto simp: other_fail_def split: if_splits)
    with rest Some p open_cap have "sbind (db, genesis_mutations B db n canonical sys existing) (\<lambda>db ms.
           sbind (apply_batch B written db ms) (\<lambda>db' _. (db', Inr (length canonical)))) = (db', Inr k)"
      by (auto simp: other_fail_def split: if_splits)
    from go[OF this] obtain ms where ms: "genesis_mutations B db n canonical sys existing = Inr ms"
      "apply_batch B written db ms = (db', Inr ())" "k = length canonical" by blast
    have "live_native (db_view db) = 0"
      using assms(3) co z by (auto simp: supply_ok_def cap_of_def)
    then show ?thesis using c ms by blast
  qed
qed

text \<open>A mint repeated on what it left.\<close>

lemma genesis_replay:
  assumes c: "canonical_genesis_allocations allocs = Inr canonical"
    and cap: "cap_of (db_view db) = Some cap" "minting_closed cap"
      "genesis_commitment cap = genesis_allocation_commitment B n canonical"
    and sys: "\<forall>ob \<in> set sys. db_view db (ob_id ob) = Some ob"
    and reg: "db_view db cairo_registry_contract_id = None \<longrightarrow> genesis_creator_from_system_objects B n sys = None"
  shows "genesis_mint_with_system_objects B written db n allocs sys = (db, Inr 0)"
    "canonical_genesis_allocations allocs2 = Inr canonical2 \<Longrightarrow>
     genesis_allocation_commitment B n2 canonical2 \<noteq> genesis_allocation_commitment B n canonical \<Longrightarrow>
     \<exists>e. genesis_mint_with_system_objects B written db n2 allocs2 sys2 = (db, Inl e)"
proof -
  from cap(1) obtain ob where "db_view db TREASURY_CAP_OBJECT_ID = Some ob" "decode_treasury_cap ob = Inr cap"
    by (auto simp: cap_of_def split: option.splits sum.splits)
  then have r: "read_cap_version db = Inr (Some (cap, ob_version ob))"
    by (simp add: read_cap_version_def store_read_def ok_or_def db_view_def)
  have "foldM (\<lambda>_. check_system_object db) () sys = Inr ()"
    using sys by (auto simp: foldM_unit_Inr check_system_object_def store_read_def ok_or_def db_view_def)
  moreover have "cairo_registry_seed B db n sys = Inr None"
    using reg by (cases "db_view db cairo_registry_contract_id")
      (simp_all add: cairo_registry_seed_def store_read_def ok_or_def db_view_def)
  ultimately show "genesis_mint_with_system_objects B written db n allocs sys = (db, Inr 0)"
    by (simp add: genesis_mint_with_system_objects_def c r cap sbind_def)
  show "\<exists>e. genesis_mint_with_system_objects B written db n2 allocs2 sys2 = (db, Inl e)"
    if "canonical_genesis_allocations allocs2 = Inr canonical2"
      "genesis_allocation_commitment B n2 canonical2 \<noteq> genesis_allocation_commitment B n canonical"
    using that by (simp add: genesis_mint_with_system_objects_def r cap sbind_def other_fail_def)
qed

lemma canonical_sum:
  "canonical_genesis_allocations allocs = Inr canonical \<Longrightarrow>
     sum_list (map snd canonical) = sum_list (map snd allocs) \<and> length canonical = length allocs"
proof -
  assume c: "canonical_genesis_allocations allocs = Inr canonical"
  then have "canonical = sort_key fst allocs"
    by (auto simp: canonical_genesis_allocations_def Let_def other_fail_def split: if_splits)
  moreover have "mset (map snd (sort_key fst allocs)) = mset (map snd allocs)" by simp
  ultimately show ?thesis by (metis length_sort sum_mset_sum_list)
qed

text \<open>The mint is closed over a commitment.\<close>

definition genesis_closed :: "byte list \<Rightarrow> object_db \<Rightarrow> bool" where
  "genesis_closed commitment db \<longleftrightarrow> db_good db \<and>
     (\<exists>cap. cap_of (db_view db) = Some cap \<and> minting_closed cap \<and> genesis_commitment cap = commitment)"

lemma canonical_Inr: "canonical_genesis_allocations allocs = Inr canonical \<Longrightarrow> canonical = sort_key fst allocs"
  by (auto simp: canonical_genesis_allocations_def Let_def other_fail_def split: if_splits)

lemma sorted_distinct_adj: "sorted xs \<Longrightarrow> distinct_adj xs \<Longrightarrow> distinct xs"
proof (induction xs rule: induct_list012)
  case (3 x y zs)
  then show ?case by (fastforce simp: less_le)
qed simp_all

lemma canonical_permuted:
  assumes "mset allocs2 = mset allocs" "canonical_genesis_allocations allocs = Inr canonical"
  shows "canonical_genesis_allocations allocs2 = Inr canonical"
proof -
  have d: "distinct_adj (map fst (sort_key fst allocs))"
    using assms(2) by (auto simp: canonical_genesis_allocations_def Let_def other_fail_def split: if_splits)
  have "distinct (map fst (sort_key fst allocs))" by (rule sorted_distinct_adj[OF _ d]) simp
  then have "inj_on fst (set allocs2)" using mset_eq_setD[OF assms(1)] by (simp add: distinct_map)
  then have "sort_key fst allocs2 = sort_key fst allocs" by (intro sort_key_inj_key_eq) (use assms(1) in simp_all)
  then show ?thesis using assms(2) by (simp add: canonical_genesis_allocations_def)
qed

lemma genesis_facts:
  assumes "\<forall>x. length (B x) = 32" "db_good db" "db_view db TREASURY_CAP_OBJECT_ID = None \<or> supply_ok (db_view db) 0"
    "\<forall>cap. cap_of (db_view db) = Some cap \<longrightarrow> \<not> minting_closed cap"
    "genesis_mint_with_system_objects B written db n allocs sys = (db', Inr k)"
  shows "supply_ok (db_view db') 0 \<and> live_native (db_view db') = sum_list (map snd allocs) \<and> k = length allocs \<and>
    (mset allocs2 = mset allocs \<longrightarrow> genesis_mint_with_system_objects B w db' n allocs2 sys = (db', Inr 0)) \<and>
    genesis_closed (genesis_allocation_commitment B n (sort_key fst allocs)) db'"
proof -
  from genesis_mint_cases[OF assms(5,2,3,4)] obtain canonical existing ms where c:
    "canonical_genesis_allocations allocs = Inr canonical" "read_cap_version db = Inr existing"
    "genesis_mutations B db n canonical sys existing = Inr ms" "apply_batch B written db ms = (db', Inr ())"
    "live_native (db_view db) = 0" "k = length canonical" by blast
  from genesis_batch[OF assms(2) c(3,2,5,4) assms(1)[rule_format]] obtain cap :: treasury_cap where cap: "cap_of (db_view db') = Some cap"
    "minting_closed cap" "genesis_commitment cap = genesis_allocation_commitment B n canonical"
    "total_supply cap = sum_list (map snd canonical)" "live_native (db_view db') = total_supply cap"
    "\<forall>ob \<in> set sys. db_view db' (ob_id ob) = Some ob"
    "db_view db' cairo_registry_contract_id = None \<longrightarrow> genesis_creator_from_system_objects B n sys = None" "db_good db'"
    by (elim exE conjE) (rule that; assumption)
  have "genesis_closed (genesis_allocation_commitment B n (sort_key fst allocs)) db'"
    using cap(1-3,8) canonical_Inr[OF c(1)] by (simp add: genesis_closed_def)
  moreover have "genesis_mint_with_system_objects B w db' n allocs2 sys = (db', Inr 0)" if "mset allocs2 = mset allocs"
    using genesis_replay(1)[OF _ cap(1-3,6,7)] c(1) canonical_permuted[OF that] by simp
  ultimately show ?thesis
    using cap(1,4,5) canonical_sum[OF c(1)] c(6) by (auto simp: supply_ok_def)
qed

section \<open>Burns keep the equation\<close>

lemma burn_loop:
  assumes "foldM (\<lambda>(seen, burned) i.
        if i \<in> seen then other_fail ''duplicate native coin burn input''
        else
          rbind (store_read st i) (\<lambda>ob.
          if ob_owner ob \<noteq> AddressOwned owner then Inl (Fail (NotOwner i))
          else
            rbind (decode_native_coin ob) (\<lambda>coin.
            rbind (ok_or (Other ''native coin burn sum overflow'') (checked_add_u64 burned (coin_amount coin))) (\<lambda>burned'.
            Inr (insert i seen, burned'))))) (seen, t) ids = Inr (seen', t')"
  shows "distinct ids \<and> set ids \<inter> seen = {} \<and> t' = t + sum_list (map (value_at (object_at st)) ids) \<and>
    (\<forall>i \<in> set ids. \<exists>ob. object_at st i = Some ob \<and> ob_owner ob = AddressOwned owner \<and> is_native_coin_object ob)"
  using assms
proof (induction ids arbitrary: seen t)
  case (Cons i ids)
  from Cons.prems obtain ob c where ob: "i \<notin> seen" "object_at st i = Some ob" "decode_native_coin ob = Inr c"
      "ob_owner ob = AddressOwned owner"
    and rest: "foldM (\<lambda>(seen, burned) i.
        if i \<in> seen then other_fail ''duplicate native coin burn input''
        else
          rbind (store_read st i) (\<lambda>ob.
          if ob_owner ob \<noteq> AddressOwned owner then Inl (Fail (NotOwner i))
          else
            rbind (decode_native_coin ob) (\<lambda>coin.
            rbind (ok_or (Other ''native coin burn sum overflow'') (checked_add_u64 burned (coin_amount coin))) (\<lambda>burned'.
            Inr (insert i seen, burned'))))) (insert i seen, t + coin_amount c) ids = Inr (seen', t')"
    by (auto simp: outcome_simps other_fail_def split: if_splits)
  have "value_at (object_at st) i = coin_amount c" using ob by (simp add: value_at_def coin_value_def)
  then show ?case using Cons.IH[OF rest] ob decode_native_coin_type by auto
qed simp

lemma burn_facts:
  assumes "burn_native_coins B written db owner ids = (db', Inr burned)" "db_good db" "supply_ok (db_view db) escrow"
  shows "supply_ok (db_view db') escrow \<and> live_native (db_view db') + burned = live_native (db_view db) \<and>
    distinct ids \<and> TREASURY_CAP_OBJECT_ID \<notin> set ids \<and>
    (\<forall>i \<in> set ids. \<exists>ob. db_view db i = Some ob \<and> ob_owner ob = AddressOwned owner \<and> is_native_coin_object ob) \<and>
    burned = sum_list (map (value_at (db_view db)) ids) \<and>
    (\<forall>i. i \<noteq> TREASURY_CAP_OBJECT_ID \<longrightarrow> db_view db' i = (if i \<in> set ids then None else db_view db i)) \<and>
    (\<exists>cap. cap_of (db_view db) = Some cap \<and>
       cap_of (db_view db') = Some (cap\<lparr>total_supply := total_supply cap - burned, total_burned := total_burned cap + burned\<rparr>)) \<and>
    db_good db'"
proof -
  from assms(1) obtain cob cap cap' ob where cob: "object_at (od_store db) TREASURY_CAP_OBJECT_ID = Some cob"
    and cap: "decode_treasury_cap cob = Inr cap" and bi: "burn_inputs db owner ids = Inr burned"
    and bc: "burn_from_cap cap burned ''native coin burn exceeds TreasuryCap supply'' = Inr cap'"
    and nc: "next_cap_object cap' (ob_version cob) = Inr ob"
    and b: "apply_batch B written db (map Delete ids @ [SystemReplace ob]) = (db', Inr ())"
    by (auto simp: burn_native_coins_def sbind_Inr rbind_eq_Inr store_read_Inr other_fail_def split: if_splits)
  note f = burn_from_cap_facts[OF bc nc decode_cap_wf[OF cap]]
  from bi obtain seen where "foldM (\<lambda>(seen, burned) i.
        if i \<in> seen then other_fail ''duplicate native coin burn input''
        else
          rbind (store_read (od_store db) i) (\<lambda>ob.
          if ob_owner ob \<noteq> AddressOwned owner then Inl (Fail (NotOwner i))
          else
            rbind (decode_native_coin ob) (\<lambda>coin.
            rbind (ok_or (Other ''native coin burn sum overflow'') (checked_add_u64 burned (coin_amount coin))) (\<lambda>burned'.
            Inr (insert i seen, burned'))))) ({}, 0) ids = Inr (seen, burned)"
    by (auto simp: burn_inputs_def rbind_eq_Inr)
  from burn_loop[OF this] have inp: "distinct ids" "burned = sum_list (map (value_at (db_view db)) ids)"
    "\<forall>i \<in> set ids. \<exists>ob. db_view db i = Some ob \<and> ob_owner ob = AddressOwned owner \<and> is_native_coin_object ob"
    by (auto simp: db_view_def)
  have wf: "store_wf (od_store db)" using assms(2) by (simp add: db_good_def)
  from apply_batch_Inr[OF b] obtain st1 where st1: "run_mutations B (od_store db) (map Delete ids) = Inr st1"
    and st2: "run_mutations B st1 [SystemReplace ob] = Inr (od_store db')"
    by (auto simp: run_mutations_append rbind_eq_Inr)
  have d: "store_wf st1" "object_at st1 = delete_all (db_view db) ids"
    using store_writes.delete_loop[OF wf] st1 unfolding run_deletes db_view_def by auto
  from st2 have a: "apply_mutation B st1 (SystemReplace ob) = Inr (od_store db')"
    by (auto simp: run_mutations_def rbind_eq_Inr)
  have v: "db_view db' = (object_at st1)(TREASURY_CAP_OBJECT_ID \<mapsto> ob)"
    using apply_mutation_lookup[OF a d(1)] f(3) by (simp add: db_view_def)
  have notin: "TREASURY_CAP_OBJECT_ID \<notin> set ids"
  proof
    assume "TREASURY_CAP_OBJECT_ID \<in> set ids"
    then have "is_native_coin_object cob" using inp(3) cob by (auto simp: db_view_def)
    then show False using decode_cap_Inr[OF cap] coin_type_distinct(1) by (simp add: is_native_coin_object_def)
  qed
  then have c1: "object_at st1 TREASURY_CAP_OBJECT_ID = Some cob" using d(2) cob by (simp add: delete_all_def db_view_def)
  have fin: "finite (dom (db_view db))" "finite (dom (object_at st1))"
    by (simp_all add: db_view_def finite_dom_map_of)
  have "live_native (db_view db') = live_native (object_at st1)"
    using live_system_replace[OF fin(2), of ob cob] c1 v f(3) decode_cap_no_value[OF cap] decode_cap_no_value[OF f(1)] by simp
  then have live: "live_native (db_view db') + burned = live_native (db_view db)"
    using live_delete_all[OF fin(1) inp(1)] inp(2) d(2) by simp
  have "cap_of (db_view db) = Some cap" using cob cap by (simp add: cap_of_def db_view_def)
  moreover have "cap_of (db_view db') = Some cap'" using v f(1) by (simp add: cap_of_def)
  moreover have "cap' = cap\<lparr>total_supply := total_supply cap - burned, total_burned := total_burned cap + burned\<rparr>"
    using bc by (auto simp: burn_from_cap_def outcome_simps)
  moreover have "\<forall>i. i \<noteq> TREASURY_CAP_OBJECT_ID \<longrightarrow> db_view db' i = (if i \<in> set ids then None else db_view db i)"
    using v d(2) by (auto simp: delete_all_def)
  moreover have "supply_ok (db_view db') escrow" using calculation(1,2) assms(3) live f(2) by (auto simp: supply_ok_def)
  moreover have "db_good db'" using apply_mutation_wf[OF a d(1)] by (simp add: db_good_def)
  ultimately show ?thesis using live inp notin by blast
qed

section \<open>After the mint\<close>

text \<open>
  What may happen to a database: mints and burns, successful or not, and any batch of writes that
  does not replace the treasury cap by hand, which none of the operations of users does.
\<close>

inductive later :: "hash_fn \<Rightarrow> object_db \<Rightarrow> object_db \<Rightarrow> bool" for B db0 where
  later_start: "later B db0 db0"
| later_mint: "later B db0 db \<Longrightarrow> genesis_mint_with_system_objects B written db n allocs sys = (db', r) \<Longrightarrow> later B db0 db'"
| later_burn: "later B db0 db \<Longrightarrow> burn_native_coins B written db owner ids = (db', r) \<Longrightarrow> later B db0 db'"
| later_escrow: "later B db0 db \<Longrightarrow> burn_escrowed_native (db_backend B written) db amount = (db', u) \<Longrightarrow> later B db0 db'"
| later_writes: "later B db0 db \<Longrightarrow> apply_batch B written db ms = (db', u) \<Longrightarrow>
    (\<forall>ob. SystemReplace ob \<in> set ms \<longrightarrow> ob_id ob \<noteq> TREASURY_CAP_OBJECT_ID) \<Longrightarrow> later B db0 db'"

lemma cap_of_Some:
  "cap_of v = Some cap \<longleftrightarrow> (\<exists>ob. v TREASURY_CAP_OBJECT_ID = Some ob \<and> decode_treasury_cap ob = Inr cap)"
  by (auto simp: cap_of_def split: option.splits sum.splits)

lemma run_keeps_cap:
  "run_mutations B st ms = Inr st' \<Longrightarrow> store_wf st \<Longrightarrow> object_at st TREASURY_CAP_OBJECT_ID = Some ob \<Longrightarrow>
   decode_treasury_cap ob = Inr cap \<Longrightarrow>
   \<forall>x. SystemReplace x \<in> set ms \<longrightarrow> ob_id x \<noteq> TREASURY_CAP_OBJECT_ID \<Longrightarrow>
   object_at st' TREASURY_CAP_OBJECT_ID = Some ob"
proof (induction ms arbitrary: st)
  case (Cons m ms)
  from Cons.prems(1) obtain st1 where st1: "apply_mutation B st m = Inr st1" "run_mutations B st1 ms = Inr st'"
    by (auto simp: run_Cons rbind_eq_Inr)
  have sys: "is_system_object ob"
    using decode_cap_Inr[OF Cons.prems(4)] by (simp add: is_system_object_def is_treasury_cap_object_def)
  have "accepts B m (object_at st (target_id m))" using apply_mutation_accepts[of B st m] st1(1) by blast
  then have "target_id m \<noteq> TREASURY_CAP_OBJECT_ID"
    using Cons.prems(3,5) sys by (cases m) auto
  then have "object_at st1 TREASURY_CAP_OBJECT_ID = Some ob"
    using apply_mutation_lookup[OF st1(1) Cons.prems(2)] Cons.prems(3) by simp
  from Cons.IH[OF st1(2) apply_mutation_wf[OF st1(1) Cons.prems(2)] this Cons.prems(4)] Cons.prems(5)
  show ?case by simp
qed (simp add: run_mutations_def)

lemma closed_writes:
  assumes "genesis_closed c db" "apply_batch B written db ms = (db', u)"
    "\<forall>x. SystemReplace x \<in> set ms \<longrightarrow> ob_id x \<noteq> TREASURY_CAP_OBJECT_ID"
  shows "genesis_closed c db'"
proof (cases u)
  case (Inr v)
  from assms(1) obtain cap ob where w: "store_wf (od_store db)" "object_at (od_store db) TREASURY_CAP_OBJECT_ID = Some ob"
    "decode_treasury_cap ob = Inr cap" "minting_closed cap" "genesis_commitment cap = c"
    by (auto simp: genesis_closed_def db_good_def db_view_def cap_of_Some)
  note run = apply_batch_Inr[OF assms(2)[unfolded Inr]]
  show ?thesis
    using run_keeps_cap[OF run w(1-3) assms(3)] run_mutations_wf[OF run w(1)] w
    by (auto simp: genesis_closed_def db_good_def db_view_def cap_of_Some)
qed (use assms(1,2) apply_batch_fails in blast)

lemma closed_replaced:
  assumes "genesis_closed c db" "apply_batch B written db (ms @ [SystemReplace ob]) = (db', u)"
    "\<forall>x. SystemReplace x \<in> set ms \<longrightarrow> ob_id x \<noteq> TREASURY_CAP_OBJECT_ID"
    "cap_of (db_view db) = Some cap" "burn_from_cap cap amount msg = Inr cap'" "next_cap_object cap' version = Inr ob"
  shows "genesis_closed c db'"
proof (cases u)
  case (Inr v)
  from assms(1,4) have w: "store_wf (od_store db)" "cap_wf cap" "minting_closed cap" "genesis_commitment cap = c"
    using decode_cap_wf by (auto simp: genesis_closed_def db_good_def cap_of_Some)
  note f = burn_from_cap_facts[OF assms(5,6) w(2)]
  from apply_batch_Inr[OF assms(2)[unfolded Inr]] obtain st1 where
    st1: "run_mutations B (od_store db) ms = Inr st1" "apply_mutation B st1 (SystemReplace ob) = Inr (od_store db')"
    by (auto simp: run_mutations_append rbind_eq_Inr run_Cons simp del: apply_mutation.simps) (simp add: run_mutations_def)
  have wf: "store_wf st1" by (rule run_mutations_wf[OF st1(1) w(1)])
  have "minting_closed cap' \<and> genesis_commitment cap' = c"
    using assms(5) w by (auto simp: burn_from_cap_def outcome_simps)
  then show ?thesis
    using apply_mutation_lookup[OF st1(2) wf] apply_mutation_wf[OF st1(2) wf] f(1,3)
    by (auto simp: genesis_closed_def db_good_def db_view_def cap_of_Some)
qed (use assms(1,2) apply_batch_fails in blast)

lemma closed_read:
  assumes "genesis_closed c db"
  shows "\<exists>cap ver. read_cap_version db = Inr (Some (cap, ver)) \<and> minting_closed cap \<and> genesis_commitment cap = c"
proof -
  from assms obtain cap ob where "object_at (od_store db) TREASURY_CAP_OBJECT_ID = Some ob" "decode_treasury_cap ob = Inr cap"
    "minting_closed cap" "genesis_commitment cap = c"
    by (auto simp: genesis_closed_def db_view_def cap_of_Some)
  then show ?thesis by (simp add: read_cap_version_def store_read_def ok_or_def)
qed

lemma closed_mint:
  assumes "genesis_closed c db" "genesis_mint_with_system_objects B written db n allocs sys = (db', r)"
  shows "genesis_closed c db'"
proof -
  from closed_read[OF assms(1)] obtain cap ver where cap: "read_cap_version db = Inr (Some (cap, ver))" "minting_closed cap"
    by blast
  then have "db' = db \<or> (\<exists>registry u. apply_batch B written db [Create registry] = (db', u))"
    using assms(2) cap
    by (auto simp: genesis_mint_with_system_objects_def sbind_def rbind_def split: sum.splits if_splits option.splits prod.splits)
  then show ?thesis using assms(1) closed_writes[OF assms(1)] by fastforce
qed

lemma closed_burn:
  assumes "genesis_closed c db" "burn_native_coins B written db owner ids = (db', r)"
  shows "genesis_closed c db'"
proof -
  have "db' = db \<or> (\<exists>cap cap' ob amount msg version u. cap_of (db_view db) = Some cap \<and> burn_from_cap cap amount msg = Inr cap' \<and>
      next_cap_object cap' version = Inr ob \<and> apply_batch B written db (map Delete ids @ [SystemReplace ob]) = (db', u))"
    using assms(2)
    by (auto simp: burn_native_coins_def sbind_def rbind_eq_Inr cap_of_Some db_view_def store_read_Inr other_fail_def
        split: sum.splits if_splits prod.splits)
  then show ?thesis
  proof (elim disjE exE conjE)
    fix cap cap' ob amount msg version u
    assume a: "cap_of (db_view db) = Some cap" "burn_from_cap cap amount msg = Inr cap'" "next_cap_object cap' version = Inr ob"
      "apply_batch B written db (map Delete ids @ [SystemReplace ob]) = (db', u)"
    show ?thesis by (rule closed_replaced[OF assms(1) a(4) _ a(1-3)]) auto
  qed (use assms(1) in simp)
qed

lemma closed_escrow:
  assumes "genesis_closed c db" "burn_escrowed_native (db_backend B written) db amount = (db', u)"
  shows "genesis_closed c db'"
proof -
  have "db' = db \<or> (\<exists>cap cap' ob msg version. cap_of (db_view db) = Some cap \<and> burn_from_cap cap amount msg = Inr cap' \<and>
      next_cap_object cap' version = Inr ob \<and> apply_batch B written db [SystemReplace ob] = (db', u))"
    using assms(2)
    by (auto simp: burn_escrowed_native_def db_backend_def sbind_def rbind_eq_Inr cap_of_Some db_view_def store_read_Inr
        split: sum.splits if_splits)
  then show ?thesis
  proof (elim disjE exE conjE)
    fix cap cap' ob msg version
    assume "cap_of (db_view db) = Some cap" "burn_from_cap cap amount msg = Inr cap'" "next_cap_object cap' version = Inr ob"
      "apply_batch B written db [SystemReplace ob] = (db', u)"
    then show ?thesis using closed_replaced[OF assms(1), of B written "[]" ob db' u] by auto
  qed (use assms(1) in simp)
qed

lemma closed_later: "later B db0 db \<Longrightarrow> genesis_closed c db0 \<Longrightarrow> genesis_closed c db"
  by (induction rule: later.induct) (blast intro: closed_mint closed_burn closed_escrow closed_writes)+

text \<open>
  The commitment covers the chain and the allocations: their encoding is unambiguous for addresses
  of 20 bytes and 64-bit amounts, the types of the source.
\<close>

definition alloc_typed :: "(address \<times> nat) list \<Rightarrow> bool" where
  "alloc_typed allocs \<longleftrightarrow> (\<forall>(owner, amount) \<in> set allocs. length owner = 20 \<and> amount < u64_limit)"

definition genesis_preimage :: "nat \<Rightarrow> (address \<times> nat) list \<Rightarrow> byte list" where
  "genesis_preimage chain_id allocations =
     map of_char ''ZCHAIN_GENESIS_NATIVE_ALLOC_V1'' @ u64_be chain_id @
     concat (map (\<lambda>(owner, amount). owner @ u64_be amount) allocations)"

lemma commitment_preimage: "genesis_allocation_commitment B n allocs = B (genesis_preimage n allocs)"
  by (simp only: genesis_allocation_commitment_def genesis_preimage_def)

lemma u64_be_inj: "n < u64_limit \<Longrightarrow> m < u64_limit \<Longrightarrow> u64_be n = u64_be m \<longleftrightarrow> n = m"
proof -
  assume l: "n < u64_limit" "m < u64_limit"
  have "n = m" if "u64_le n = u64_le m"
    using reads_u64[OF l(1), unfolded reads_def, rule_format, of "[]"] reads_u64[OF l(2), unfolded reads_def, rule_format, of "[]"] that
    by simp
  then show ?thesis by (auto simp: u64_be_def)
qed

lemma length_u64_be [simp]: "length (u64_be n) = 8"
  by (simp add: u64_be_def)

lemma alloc_bytes_inj:
  "alloc_typed xs \<Longrightarrow> alloc_typed ys \<Longrightarrow>
   concat (map (\<lambda>(owner, amount). owner @ u64_be amount) xs) = concat (map (\<lambda>(owner, amount). owner @ u64_be amount) ys) \<Longrightarrow>
   xs = ys"
proof (induction xs arbitrary: ys)
  case Nil
  then show ?case by (cases ys) (auto simp: alloc_typed_def)
next
  case (Cons x xs)
  from Cons.prems obtain y ys' where ys: "ys = y # ys'" by (cases ys) (auto simp: alloc_typed_def u64_be_def)
  have "fst x @ u64_be (snd x) @ concat (map (\<lambda>(owner, amount). owner @ u64_be amount) xs) =
    fst y @ u64_be (snd y) @ concat (map (\<lambda>(owner, amount). owner @ u64_be amount) ys')"
    using Cons.prems(3) by (cases x; cases y) (simp add: ys)
  moreover have "length (fst x) = length (fst y)" using Cons.prems(1,2) by (auto simp: alloc_typed_def ys)
  ultimately have "fst x = fst y" and "u64_be (snd x) = u64_be (snd y)"
    and rest: "concat (map (\<lambda>(owner, amount). owner @ u64_be amount) xs) = concat (map (\<lambda>(owner, amount). owner @ u64_be amount) ys')"
    by (auto simp: append_eq_append_conv)
  then have "x = y" using Cons.prems(1,2) u64_be_inj by (auto simp: alloc_typed_def ys prod_eq_iff)
  moreover have "xs = ys'" using Cons.IH[OF _ _ rest] Cons.prems(1,2) by (simp add: alloc_typed_def ys)
  ultimately show ?case by (simp add: ys)
qed

lemma genesis_preimage_inj:
  assumes "n < u64_limit" "m < u64_limit" "alloc_typed xs" "alloc_typed ys" "genesis_preimage n xs = genesis_preimage m ys"
  shows "n = m \<and> xs = ys"
proof -
  have "u64_be n @ concat (map (\<lambda>(owner, amount). owner @ u64_be amount) xs) =
    u64_be m @ concat (map (\<lambda>(owner, amount). owner @ u64_be amount) ys)"
    using assms(5) unfolding genesis_preimage_def by (simp only: same_append_eq)
  then have "u64_be n = u64_be m"
    and "concat (map (\<lambda>(owner, amount). owner @ u64_be amount) xs) = concat (map (\<lambda>(owner, amount). owner @ u64_be amount) ys)"
    by (auto simp: append_eq_append_conv)
  then show ?thesis using assms(1-4) alloc_bytes_inj u64_be_inj by blast
qed

lemma closed_refuses:
  assumes "genesis_closed (genesis_allocation_commitment B n (sort_key fst allocs)) db"
    "n < u64_limit" "n2 < u64_limit" "alloc_typed allocs" "alloc_typed allocs2" "n2 \<noteq> n \<or> mset allocs2 \<noteq> mset allocs"
    "inj_on B {genesis_preimage n (sort_key fst allocs), genesis_preimage n2 (sort_key fst allocs2)}"
  shows "\<exists>e. genesis_mint_with_system_objects B w db n2 allocs2 sys2 = (db, Inl e)"
proof (cases "canonical_genesis_allocations allocs2")
  case (Inl e)
  then show ?thesis by (simp add: genesis_mint_with_system_objects_def sbind_def)
next
  case (Inr canonical2)
  from closed_read[OF assms(1)] obtain cap ver where cap: "minting_closed cap" "read_cap_version db = Inr (Some (cap, ver))"
    "genesis_commitment cap = B (genesis_preimage n (sort_key fst allocs))"
    unfolding commitment_preimage by blast
  have "B (genesis_preimage n (sort_key fst allocs)) \<noteq> B (genesis_preimage n2 (sort_key fst allocs2))"
  proof
    assume "B (genesis_preimage n (sort_key fst allocs)) = B (genesis_preimage n2 (sort_key fst allocs2))"
    then have same: "genesis_preimage n (sort_key fst allocs) = genesis_preimage n2 (sort_key fst allocs2)"
      by (rule inj_onD[OF assms(7)]) simp_all
    have "alloc_typed (sort_key fst allocs)" "alloc_typed (sort_key fst allocs2)"
      using assms(4,5) by (simp_all only: alloc_typed_def set_sort)
    from genesis_preimage_inj[OF assms(2,3) this same] have "n = n2 \<and> sort_key fst allocs = sort_key fst allocs2" .
    then show False using assms(6) by (metis mset_sort)
  qed
  then show ?thesis
    using Inr canonical_Inr[OF Inr] cap
    by (simp add: genesis_mint_with_system_objects_def sbind_def other_fail_def commitment_preimage)
qed

section \<open>Properties\<close>

text \<open>
  C6: Genesis establishes the supply and closes it.  A mint that succeeds before the mint is closed
  leaves live coins worth exactly the allocations, equal to the supply of the treasury cap; run
  again with the same allocations, in any order, it changes nothing and reports no coin.  From then
  on, whatever mints, burns and writes follow, a mint of any other allocations or for any other
  chain is refused and writes nothing, unless the hash collides on the two commitments.  Addresses
  have 20 bytes, chain ids and amounts 64 bits.
\<close>

theorem genesis_establishes_supply:
  assumes "\<forall>x. length (B x) = 32" "db_good db" "db_view db TREASURY_CAP_OBJECT_ID = None \<or> supply_ok (db_view db) 0"
    "\<forall>cap. cap_of (db_view db) = Some cap \<longrightarrow> \<not> minting_closed cap"
    "genesis_mint_with_system_objects B written db n allocs sys = (db', Inr k)"
    "n < u64_limit" "alloc_typed allocs"
  shows "supply_ok (db_view db') 0 \<and> live_native (db_view db') = sum_list (map snd allocs) \<and> k = length allocs \<and>
    (\<forall>allocs2. mset allocs2 = mset allocs \<longrightarrow> genesis_mint_with_system_objects B w db' n allocs2 sys = (db', Inr 0)) \<and>
    (\<forall>db2 n2 allocs2 sys2. later B db' db2 \<and> n2 < u64_limit \<and> alloc_typed allocs2 \<and>
       (n2 \<noteq> n \<or> mset allocs2 \<noteq> mset allocs) \<and>
       inj_on B {genesis_preimage n (sort_key fst allocs), genesis_preimage n2 (sort_key fst allocs2)} \<longrightarrow>
       (\<exists>e. genesis_mint_with_system_objects B w db2 n2 allocs2 sys2 = (db2, Inl e)))"
proof (intro conjI allI impI; (elim conjE)?)
  note f = genesis_facts[OF assms(1-5)]
  show "supply_ok (db_view db') 0" "live_native (db_view db') = sum_list (map snd allocs)" "k = length allocs"
    using f by blast+
  show "genesis_mint_with_system_objects B w db' n allocs2 sys = (db', Inr 0)" if "mset allocs2 = mset allocs" for allocs2
    using f that by blast
  show "\<exists>e. genesis_mint_with_system_objects B w db2 n2 allocs2 sys2 = (db2, Inl e)"
    if "later B db' db2" "n2 < u64_limit" "alloc_typed allocs2" "n2 \<noteq> n \<or> mset allocs2 \<noteq> mset allocs"
      "inj_on B {genesis_preimage n (sort_key fst allocs), genesis_preimage n2 (sort_key fst allocs2)}"
    for db2 n2 allocs2 sys2
    using closed_refuses[OF closed_later[OF that(1)] assms(6) that(2) assms(7) that(3-5)] f by blast
qed

text \<open>
  A hash for the examples, of 32 bytes: it drops the first 37 bytes, the domain and all but the last
  byte of the chain id, and so keeps one allocation apart from another.
\<close>

definition tail_hash :: hash_fn where
  "tail_hash x = take 32 (drop 37 x @ replicate 32 0)"

definition genesis_owner :: address where
  "genesis_owner = replicate 20 1"

definition sample_genesis :: "object_db \<times> (l1_error, nat) outcome" where
  "sample_genesis = genesis_mint_with_system_objects tail_hash (Inr ()) (empty_db tail_hash) 7 [(genesis_owner, 10)] []"

lemma length_tail_hash [simp]: "length (tail_hash x) = 32"
  by (simp add: tail_hash_def)

lemma sample_genesis_runs: "\<exists>db'. sample_genesis = (db', Inr 1)"
proof -
  let ?db = "empty_db tail_hash"
  have none: "object_at (od_store ?db) i = None" for i by (simp add: empty_db_def store_new_def)
  have r: "store_read (od_store ?db) i = Inl (Fail (ObjectNotFound i))" for i by (simp add: store_read_def none ok_or_def)
  have nc: "\<not> any_native_coin ?db" by (simp add: any_native_coin_def empty_db_def store_new_def)
  define cap where "cap = \<lparr>total_supply = 10, total_minted = 10, total_burned = 0, minting_closed = True,
                genesis_commitment = genesis_allocation_commitment tail_hash 7 [(genesis_owner, 10)]\<rparr>"
  obtain cob where cob: "treasury_cap_object cap 0 = Inr cob" by (simp add: treasury_cap_object_Inr cap_def)
  obtain coin where coin: "native_coin_object genesis_owner 10 (genesis_coin_nonce tail_hash 7 genesis_owner) = Inr coin"
    by (simp add: native_coin_object_Inr)
  have ms: "genesis_mutations tail_hash ?db 7 [(genesis_owner, 10)] [] None = Inr [SystemCreate cob, Create coin]"
    by (simp add: genesis_mutations_def checked_add_u64_def ok_or_def u64_limit_def flip: cap_def)
      (simp add: cob cairo_registry_seed_def r genesis_creator_from_system_objects_def collect_results_def coin option_list_def)
  have capwf: "cap_wf cap"
    by (simp add: cap_wf_def cap_def u64_limit_def genesis_allocation_commitment_def)
  note dec = decode_cap_of_object[OF capwf cob]
  note cf = native_coin_object_facts[OF coin]
  have vs: "validate_system_object tail_hash cob = Inr ()"
    using decode_cap_Inr[OF dec] dec by (simp add: validate_system_object_def is_treasury_cap_object_def)
  have "length (ob_data cob) = 57"
    using cob by (auto simp: treasury_cap_object_Inr object_new_def cap_enc_def bool_enc_def cap_def
        genesis_allocation_commitment_def)
  then have small: "length (ob_data cob) \<le> MAX_OBJECT_SIZE" by (simp add: MAX_OBJECT_SIZE_def)
  have wf: "store_wf (od_store ?db)" by (simp add: empty_db_def store_new_def store_wf_def)
  have "accepts tail_hash (SystemCreate cob) (object_at (od_store ?db) (ob_id cob))" by (simp add: vs small none)
  then obtain st1 where st1: "apply_mutation tail_hash (od_store ?db) (SystemCreate cob) = Inr st1"
    using apply_mutation_accepts[of tail_hash "od_store ?db" "SystemCreate cob"] by auto
  have user: "user_id (ob_id coin)" using cf(1) by (simp add: user_id_def genesis_owner_def TREASURY_SYSTEM_ADDRESS_def numeral_eq_Suc)
  have "ob_id coin \<noteq> ob_id cob"
    using user decode_cap_Inr[OF dec] by (auto simp: user_id_def TREASURY_CAP_OBJECT_ID_def)
  then have "object_at st1 (ob_id coin) = None"
    using apply_mutation_lookup[OF st1 wf] none by simp
  then have "accepts tail_hash (Create coin) (object_at st1 (ob_id coin))"
    using coin_not_system[OF cf(3) user] cf(4) by simp
  then obtain st2 where "apply_mutation tail_hash st1 (Create coin) = Inr st2"
    using apply_mutation_accepts[of tail_hash st1 "Create coin"] by auto
  then have "run_mutations tail_hash (od_store ?db) [SystemCreate cob, Create coin] = Inr st2"
    using st1 by (simp add: run_mutations_def del: apply_mutation.simps)
  from apply_batch_runs[OF this] obtain db' where b: "apply_batch tail_hash (Inr ()) ?db [SystemCreate cob, Create coin] = (db', Inr ())"
    by blast
  have "canonical_genesis_allocations [(genesis_owner, 10)] = Inr [(genesis_owner, 10)]" by (simp add: canonical_genesis_allocations_def)
  then have "sample_genesis = (db', Inr 1)"
    unfolding sample_genesis_def genesis_mint_with_system_objects_def
    by (simp add: read_cap_version_def r nc ms b sbind_def)
  then show ?thesis by blast
qed

theorem genesis_establishes_supply_witness:
  "\<exists>db' e. sample_genesis = (db', Inr 1) \<and> live_native (db_view db') = 10 \<and>
     genesis_mint_with_system_objects tail_hash (Inr ()) db' 7 [(genesis_owner, 10)] [] = (db', Inr 0) \<and>
     genesis_mint_with_system_objects tail_hash (Inr ()) db' 7 [(genesis_owner, 11)] [] = (db', Inl e)"
proof -
  from sample_genesis_runs obtain db' where db': "sample_genesis = (db', Inr 1)" by blast
  have h: "\<forall>x. length (tail_hash x) = 32" by simp
  have g: "db_good (empty_db tail_hash)" by (simp add: db_good_def empty_db_def store_new_def store_wf_def)
  have v: "db_view (empty_db tail_hash) TREASURY_CAP_OBJECT_ID = None \<or> supply_ok (db_view (empty_db tail_hash)) 0"
    by (simp add: db_view_def empty_db_def store_new_def)
  have c: "\<forall>cap. cap_of (db_view (empty_db tail_hash)) = Some cap \<longrightarrow> \<not> minting_closed cap"
    by (simp add: cap_of_def db_view_def empty_db_def store_new_def)
  have t: "(7 :: nat) < u64_limit" "alloc_typed [(genesis_owner, 10)]" "alloc_typed [(genesis_owner, 11)]"
    by (simp_all add: u64_limit_def alloc_typed_def genesis_owner_def)
  have be7: "drop 7 (u64_be 7) = [7]" by code_simp
  have kept: "tail_hash (genesis_preimage 7 [(genesis_owner, a)]) = 7 # genesis_owner @ u64_be a @ replicate 3 0" for a
    by (simp add: tail_hash_def genesis_preimage_def be7 genesis_owner_def)
  have "u64_be 10 \<noteq> u64_be 11" using u64_be_inj[of 10 11] by (simp add: u64_limit_def)
  then have "tail_hash (genesis_preimage 7 [(genesis_owner, 10)]) \<noteq> tail_hash (genesis_preimage 7 [(genesis_owner, 11)])"
    unfolding kept by simp
  then have "inj_on tail_hash {genesis_preimage 7 [(genesis_owner, 10)], genesis_preimage 7 [(genesis_owner, 11)]}"
    by (simp add: inj_on_def)
  with genesis_establishes_supply[OF h g v c db'[unfolded sample_genesis_def] t(1,2), where w = "Inr ()"] db' t
  show ?thesis using later_start[of tail_hash db'] by fastforce
qed

text \<open>
  C7: Burning coins keeps the books of the supply.  A burn destroys exactly its inputs, which are
  distinct coins of the owner: every other object but the treasury cap is what it was.  It reports
  the sum of their values and lowers the live coins and the supply of the cap by it, counting it as
  burned, and so keeps the equation between live coins, escrow and supply.
\<close>

theorem burns_keep_supply:
  "burn_native_coins B written db owner ids = (db', Inr burned) \<Longrightarrow> db_good db \<Longrightarrow> supply_ok (db_view db) escrow \<Longrightarrow>
   supply_ok (db_view db') escrow \<and> live_native (db_view db') + burned = live_native (db_view db) \<and>
    distinct ids \<and> TREASURY_CAP_OBJECT_ID \<notin> set ids \<and>
    (\<forall>i \<in> set ids. \<exists>ob. db_view db i = Some ob \<and> ob_owner ob = AddressOwned owner \<and> is_native_coin_object ob) \<and>
    burned = sum_list (map (value_at (db_view db)) ids) \<and>
    (\<forall>i. i \<noteq> TREASURY_CAP_OBJECT_ID \<longrightarrow> db_view db' i = (if i \<in> set ids then None else db_view db i)) \<and>
    (\<exists>cap. cap_of (db_view db) = Some cap \<and>
       cap_of (db_view db') = Some (cap\<lparr>total_supply := total_supply cap - burned, total_burned := total_burned cap + burned\<rparr>)) \<and>
    db_good db'"
  by (rule burn_facts)

definition sample_cap :: treasury_cap where
  "sample_cap = \<lparr>total_supply = 10, total_minted = 10, total_burned = 0, minting_closed = True,
     genesis_commitment = replicate 32 0\<rparr>"

definition sample_cap_object :: obj where
  "sample_cap_object =
     object_new TREASURY_CAP_OBJECT_ID Shared TREASURY_CAP_OBJECT_TYPE (cap_enc sample_cap) None"

definition sample_ledger :: object_db where
  "sample_ledger = \<lparr>od_rows = Map.empty, od_store = put_object (\<lambda>_. []) sample_store sample_cap_object\<rparr>"

lemma sample_ledger_facts:
  "db_good sample_ledger" "db_view sample_ledger = [ObjectID [1] 5 \<mapsto> sample_coin, TREASURY_CAP_OBJECT_ID \<mapsto> sample_cap_object]"
  "decode_treasury_cap sample_cap_object = Inr sample_cap" "ob_id sample_cap_object = TREASURY_CAP_OBJECT_ID"
  "ObjectID [1] 5 \<noteq> TREASURY_CAP_OBJECT_ID" "ob_version sample_cap_object = 0"
  "ob_type sample_cap_object = TREASURY_CAP_OBJECT_TYPE" "supply_ok (db_view sample_ledger) 0"
proof -
  show g: "db_good sample_ledger" by (simp add: db_good_def sample_ledger_def sample_store_facts store_wf_put)
  show i: "ob_id sample_cap_object = TREASURY_CAP_OBJECT_ID" "ob_version sample_cap_object = 0"
    "ob_type sample_cap_object = TREASURY_CAP_OBJECT_TYPE"
    by (simp_all add: sample_cap_object_def object_new_def)
  show v: "db_view sample_ledger = [ObjectID [1] 5 \<mapsto> sample_coin, TREASURY_CAP_OBJECT_ID \<mapsto> sample_cap_object]"
    by (simp add: db_view_def sample_ledger_def sample_store_facts i)
  have t: "treasury_cap_object sample_cap 0 = Inr sample_cap_object"
    by (simp add: treasury_cap_object_Inr sample_cap_def sample_cap_object_def object_new_def)
  show d: "decode_treasury_cap sample_cap_object = Inr sample_cap"
    by (rule decode_cap_of_object[OF _ t]) (simp add: cap_wf_def sample_cap_def u64_limit_def)
  show n: "ObjectID [1] 5 \<noteq> TREASURY_CAP_OBJECT_ID" using plain_sender by (simp add: TREASURY_CAP_OBJECT_ID_def)
  have "live_native [ObjectID [1] 5 \<mapsto> sample_coin] = 10"
    by (simp add: live_native_def value_at_def coin_value_def sample_coin_facts)
  then have "live_native (db_view sample_ledger) = 10"
    using live_native_upd[of "[ObjectID [1] 5 \<mapsto> sample_coin]" TREASURY_CAP_OBJECT_ID "Some sample_cap_object"] n
      decode_cap_no_value[OF d] by (simp add: v value_at_def)
  then show "supply_ok (db_view sample_ledger) 0" by (simp add: supply_ok_def cap_of_def v d sample_cap_def)
qed

lemma sample_burn_runs:
  "\<exists>db'. burn_native_coins (\<lambda>_. []) (Inr ()) sample_ledger [1] [ObjectID [1] 5] = (db', Inr 10)"
proof -
  note f = sample_ledger_facts
  have look: "object_at (od_store sample_ledger) TREASURY_CAP_OBJECT_ID = Some sample_cap_object"
    "object_at (od_store sample_ledger) (ObjectID [1] 5) = Some sample_coin"
    using f(2,5) by (simp_all add: db_view_def)
  have bi: "burn_inputs sample_ledger [1] [ObjectID [1] 5] = Inr 10"
    by (simp add: burn_inputs_def store_read_def look sample_coin_facts ok_or_def checked_add_u64_def u64_limit_def)
  let ?cap = "sample_cap\<lparr>total_supply := 0, total_burned := 10\<rparr>"
  have bc: "burn_from_cap sample_cap 10 msg = Inr ?cap" for msg
    by (simp add: burn_from_cap_def sample_cap_def checked_sub_u64_def checked_add_u64_def ok_or_def u64_limit_def)
  obtain ob where ob: "next_cap_object ?cap 0 = Inr ob"
    by (simp add: next_cap_object_def checked_add_u64_def ok_or_def u64_limit_def treasury_cap_object_def validate_cap_def
        sample_cap_def checked_sub_u64_def)
  note g = burn_from_cap_facts[OF bc ob decode_cap_wf[OF f(3)]]
  have wf: "store_wf (od_store sample_ledger)" using f(1) by (simp add: db_good_def)
  have ns: "\<not> is_system_object sample_coin"
    using plain_sender by (intro coin_not_system) (simp_all add: sample_coin_facts user_id_def is_native_coin_object_def)
  then obtain st1 where st1: "apply_mutation (\<lambda>_. []) (od_store sample_ledger) (Delete (ObjectID [1] 5)) = Inr st1"
    using apply_mutation_accepts[of "\<lambda>_. []" "od_store sample_ledger" "Delete (ObjectID [1] 5)"] look(2) by auto
  have c1: "object_at st1 TREASURY_CAP_OBJECT_ID = Some sample_cap_object"
    using apply_mutation_lookup[OF st1 wf] look(1) f(5) by simp
  have "validate_system_object (\<lambda>_. []) ob = Inr ()"
    using g by (simp add: validate_system_object_def is_treasury_cap_object_def)
  moreover have "length (ob_data ob) \<le> MAX_OBJECT_SIZE"
    using ob by (auto simp: next_cap_object_def rbind_eq_Inr treasury_cap_object_Inr object_new_def cap_enc_def bool_enc_def
        sample_cap_def MAX_OBJECT_SIZE_def)
  ultimately have "accepts (\<lambda>_. []) (SystemReplace ob) (object_at st1 (ob_id ob))"
    using g(3-5) c1 f(4,6,7) by (simp add: is_system_object_def is_treasury_cap_object_def u64_limit_def)
  then obtain st2 where "apply_mutation (\<lambda>_. []) st1 (SystemReplace ob) = Inr st2"
    using apply_mutation_accepts[of "\<lambda>_. []" st1 "SystemReplace ob"] by auto
  then have "run_mutations (\<lambda>_. []) (od_store sample_ledger) (map Delete [ObjectID [1] 5] @ [SystemReplace ob]) = Inr st2"
    using st1 by (simp add: run_mutations_def del: apply_mutation.simps)
  from apply_batch_runs[OF this] obtain db' where
    "apply_batch (\<lambda>_. []) (Inr ()) sample_ledger (map Delete [ObjectID [1] 5] @ [SystemReplace ob]) = (db', Inr ())" by blast
  then have "burn_native_coins (\<lambda>_. []) (Inr ()) sample_ledger [1] [ObjectID [1] 5] = (db', Inr 10)"
    unfolding burn_native_coins_def
    by (simp add: store_read_def look ok_or_def f bi bc ob sbind_def)
  then show ?thesis by blast
qed

theorem burns_keep_supply_witness:
  "\<exists>db'. burn_native_coins (\<lambda>_. []) (Inr ()) sample_ledger [1] [ObjectID [1] 5] = (db', Inr 10) \<and>
     supply_ok (db_view db') 0 \<and> live_native (db_view db') + 10 = live_native (db_view sample_ledger) \<and>
     db_view db' (ObjectID [1] 5) = None"
proof -
  from sample_burn_runs obtain db' where
    b: "burn_native_coins (\<lambda>_. []) (Inr ()) sample_ledger [1] [ObjectID [1] 5] = (db', Inr 10)" by blast
  from burns_keep_supply[OF b sample_ledger_facts(1,8)] b sample_ledger_facts(5) show ?thesis by auto
qed

end
