(* ===== verification/Staking.thy ===== *)
theory Staking
  imports Slashing SupplyLaws
begin

text \<open>
  The audit of the native supply (\<^verbatim>\<open>economics/mod.rs\<close>) and the three operations of the node that move
  value between coins and stake (\<^verbatim>\<open>node/mod.rs\<close>): bonding, slashing and unbonding, each executed on a
  snapshot, audited and replayed on the database.
\<close>

section \<open>The audit\<close>

record supply_report =
  ns_treasury_total_supply :: nat
  ns_treasury_total_minted :: nat
  ns_treasury_total_burned :: nat
  ns_live_utxo :: nat
  ns_staking_escrow :: nat
  ns_texas_table_escrow :: nat
  ns_observed_total :: nat
  ns_delta :: int

definition TEXAS_POKER_TABLE_OBJECT_TYPE :: string where
  "TEXAS_POKER_TABLE_OBJECT_TYPE = ''TexasPokerTable''"

definition TEXAS_POKER_METADATA_OBJECT_TYPE :: string where
  "TEXAS_POKER_METADATA_OBJECT_TYPE = ''TexasPokerTableMetadata''"

definition TEXAS_POKER_RULES_OBJECT_TYPE :: string where
  "TEXAS_POKER_RULES_OBJECT_TYPE = ''TexasPokerTableRules''"

definition TEXAS_POKER_GOVERNANCE_OBJECT_TYPE :: string where
  "TEXAS_POKER_GOVERNANCE_OBJECT_TYPE = ''TexasPokerGovernancePolicy''"

definition TEXAS_POKER_HOT_STATE_SCHEMA_VERSION :: byte where
  "TEXAS_POKER_HOT_STATE_SCHEMA_VERSION = 30"

text \<open>
  The byte layout of a stored table is an argument: from the data of the table object and of its
  three openings to an error, or to the embedded id, the pending addons of the seats and the chip
  pool of a table that passed the schema check.
\<close>

type_synonym table_decoder =
  "byte list \<Rightarrow> byte list \<times> byte list \<times> byte list \<Rightarrow> (l1_error, obj_id \<times> nat list \<times> nat) outcome"

definition derive_context_object_id :: "hash_fn \<Rightarrow> obj_id \<Rightarrow> string \<Rightarrow> obj_id" where
  "derive_context_object_id B table_id domain =
     ObjectID (take 20 (B (map of_char ''zchain.texas_poker.context_object_id.v1'' @ id_to_bytes table_id @
       map of_char domain))) 0"

definition table_metadata_object_id :: "hash_fn \<Rightarrow> obj_id \<Rightarrow> obj_id" where
  "table_metadata_object_id B table_id = derive_context_object_id B table_id ''zchain.texas_poker.metadata.v1''"

definition table_rules_object_id :: "hash_fn \<Rightarrow> obj_id \<Rightarrow> obj_id" where
  "table_rules_object_id B table_id = derive_context_object_id B table_id ''zchain.texas_poker.rules.v1''"

definition table_governance_object_id :: "hash_fn \<Rightarrow> obj_id \<Rightarrow> obj_id" where
  "table_governance_object_id B table_id = derive_context_object_id B table_id ''zchain.texas_poker.governance.v1''"

definition is_hot_table_state :: "byte list \<Rightarrow> bool" where
  "is_hot_table_state bytes \<longleftrightarrow> 28 < length bytes \<and> bytes ! 28 = TEXAS_POKER_HOT_STATE_SCHEMA_VERSION"

definition find_opening :: "obj list \<Rightarrow> obj_id \<Rightarrow> string \<Rightarrow> (l1_error, obj) outcome" where
  "find_opening objs i expected_type =
     rbind (ok_or (ObjectNotFound i) (List.find (\<lambda>candidate. ob_id candidate = i) objs)) (\<lambda>opening.
     if ob_type opening \<noteq> expected_type \<or> ob_owner opening \<noteq> Immutable
     then Inl (Fail (Serialization ''Texas opening object has non-canonical type or ownership''))
     else Inr opening)"

definition is_balanced :: "supply_report \<Rightarrow> bool" where
  "is_balanced r \<longleftrightarrow> ns_delta r = 0"

definition require_balanced :: "supply_report \<Rightarrow> (l1_error, supply_report) outcome" where
  "require_balanced r =
     (if is_balanced r then Inr r else other_fail ''native supply reconciliation mismatch'')"

definition audit_coin :: "obj \<Rightarrow> nat \<Rightarrow> (l1_error, nat) outcome" where
  "audit_coin ob live =
     (case ob_owner ob of
        AddressOwned owner \<Rightarrow>
          if creator_address (ob_id ob) \<noteq> owner
          then other_fail ''native coin creator address does not match owner''
          else if ob_version ob \<noteq> 0
          then other_fail ''native coin is mutable/versioned; immutable UTXO version 0 required''
          else
            rbind (decode_native_coin ob) (\<lambda>coin.
            ok_or (Other ''live native UTXO sum overflow'') (checked_add_u64 live (coin_amount coin)))
      | _ \<Rightarrow> other_fail ''native coin must be address-owned'')"

definition audit_table ::
  "hash_fn \<Rightarrow> table_decoder \<Rightarrow> obj list \<Rightarrow> obj \<Rightarrow> nat \<Rightarrow> (l1_error, nat) outcome" where
  "audit_table B decode_table objs ob texas =
     (if ob_owner ob \<noteq> Shared then other_fail ''Texas Poker table must be shared''
      else if \<not> is_hot_table_state (ob_data ob)
      then Inl (Fail (Serialization ''Texas Poker table must use hot v30 state during supply reconciliation''))
      else
        rbind (find_opening objs (table_metadata_object_id B (ob_id ob)) TEXAS_POKER_METADATA_OBJECT_TYPE) (\<lambda>metadata.
        rbind (find_opening objs (table_rules_object_id B (ob_id ob)) TEXAS_POKER_RULES_OBJECT_TYPE) (\<lambda>rules.
        rbind (find_opening objs (table_governance_object_id B (ob_id ob)) TEXAS_POKER_GOVERNANCE_OBJECT_TYPE) (\<lambda>governance.
        rbind (decode_table (ob_data ob) (ob_data metadata, ob_data rules, ob_data governance)) (\<lambda>(table_id, addons, chip_pool).
        if table_id \<noteq> ob_id ob then other_fail ''Texas Poker table embedded id does not match object id''
        else
          rbind (foldM (\<lambda>sum addon. ok_or (Other ''pending-addon sum overflow'') (checked_add_u64 sum addon)) 0 addons)
            (\<lambda>pending_addons.
          if pending_addons > chip_pool then other_fail ''pending addons exceed chip_pool''
          else ok_or (Other ''Texas table escrow sum overflow'') (checked_add_u64 texas chip_pool)))))))"

definition audit_step ::
  "hash_fn \<Rightarrow> table_decoder \<Rightarrow> obj list \<Rightarrow> treasury_cap option \<times> nat \<times> nat \<Rightarrow> obj \<Rightarrow>
   (l1_error, treasury_cap option \<times> nat \<times> nat) outcome" where
  "audit_step B decode_table objs = (\<lambda>(cap, live, texas) ob.
     if ob_id ob = TREASURY_CAP_OBJECT_ID \<or> ob_type ob = TREASURY_CAP_OBJECT_TYPE then
       rbind (decode_treasury_cap ob) (\<lambda>decoded.
       if cap \<noteq> None then other_fail ''multiple TreasuryCap objects found during native supply reconciliation''
       else Inr (Some decoded, live, texas))
     else if is_native_coin_object ob then rbind (audit_coin ob live) (\<lambda>live'. Inr (cap, live', texas))
     else if ob_type ob = TEXAS_POKER_TABLE_OBJECT_TYPE
     then rbind (audit_table B decode_table objs ob texas) (\<lambda>texas'. Inr (cap, live, texas'))
     else Inr (cap, live, texas))"

definition audit_native_supply_objects ::
  "hash_fn \<Rightarrow> table_decoder \<Rightarrow> obj list \<Rightarrow> nat \<Rightarrow> (l1_error, supply_report option) outcome" where
  "audit_native_supply_objects B decode_table objs escrow =
     rbind (foldM (audit_step B decode_table objs) (None, 0, 0) objs) (\<lambda>(cap, live, texas).
     rbind (ok_or (Other ''observed native supply sum overflow'')
              (case checked_add_u64 live escrow of None \<Rightarrow> None | Some t \<Rightarrow> checked_add_u64 t texas)) (\<lambda>observed.
     case cap of
       None \<Rightarrow>
         if observed = 0 then Inr None
         else other_fail ''native value exists without an initialized TreasuryCap''
     | Some cap \<Rightarrow>
         Inr (Some \<lparr>ns_treasury_total_supply = total_supply cap, ns_treasury_total_minted = total_minted cap,
           ns_treasury_total_burned = total_burned cap, ns_live_utxo = live, ns_staking_escrow = escrow,
           ns_texas_table_escrow = texas, ns_observed_total = observed,
           ns_delta = int observed - int (total_supply cap)\<rparr>)))"

definition store_objects :: "store \<Rightarrow> obj list" where
  "store_objects st = map snd (st_objects st)"

definition audit_native_supply :: "hash_fn \<Rightarrow> table_decoder \<Rightarrow> object_db \<Rightarrow> nat \<Rightarrow> (l1_error, supply_report) outcome" where
  "audit_native_supply B decode_table db escrow =
     rbind (audit_native_supply_objects B decode_table (store_objects (od_store db)) escrow)
       (ok_or (Other ''native supply reconciliation requires an initialized TreasuryCap''))"

definition reconcile_native_supply :: "hash_fn \<Rightarrow> table_decoder \<Rightarrow> object_db \<Rightarrow> nat \<Rightarrow> (l1_error, supply_report) outcome" where
  "reconcile_native_supply B decode_table db escrow = rbind (audit_native_supply B decode_table db escrow) require_balanced"

definition balanced_if_some :: "supply_report option \<Rightarrow> (l1_error, supply_report option) outcome" where
  "balanced_if_some r =
     (case r of None \<Rightarrow> Inr None | Some report \<Rightarrow> rbind (require_balanced report) (\<lambda>report. Inr (Some report)))"

definition reconcile_native_supply_if_initialized ::
  "hash_fn \<Rightarrow> table_decoder \<Rightarrow> object_db \<Rightarrow> nat \<Rightarrow> (l1_error, supply_report option) outcome" where
  "reconcile_native_supply_if_initialized B decode_table db escrow =
     rbind (audit_native_supply_objects B decode_table (store_objects (od_store db)) escrow) balanced_if_some"

definition reconcile_native_supply_snapshot_if_initialized ::
  "hash_fn \<Rightarrow> table_decoder \<Rightarrow> snapshot \<Rightarrow> nat \<Rightarrow> (l1_error, supply_report option) outcome" where
  "reconcile_native_supply_snapshot_if_initialized B decode_table sn escrow =
     rbind (audit_native_supply_objects B decode_table (store_objects (sn_store sn)) escrow) balanced_if_some"

section \<open>The node\<close>

text \<open>The two locked fields of the node that staking writes.\<close>

record staking_node =
  nd_object_db :: object_db
  nd_validator_set :: validator_set

definition validator_staking_escrow :: "validator_set \<Rightarrow> (l1_error, nat) outcome" where
  "validator_staking_escrow s =
     foldM (\<lambda>tot v. ok_or (Other ''validator staking escrow sum overflow'') (checked_add_u64 tot (ve_stake v)))
       0 (vs_validators s)"

definition stage_validator_set_update ::
  "hash_fn \<Rightarrow> snapshot \<Rightarrow> nat \<Rightarrow> validator_set \<Rightarrow> validator_set \<Rightarrow> snapshot \<times> (l1_error, unit) outcome" where
  "stage_validator_set_update B sn chain_id current next_set =
     sbind (sn,
       rbind (store_read (sn_store sn) VALIDATOR_SET_OBJECT_ID) (\<lambda>existing.
       rbind (decode_validator_set_object B existing chain_id) (\<lambda>persisted.
       if persisted \<noteq> current
       then other_fail ''in-memory ValidatorSet differs from authoritative persisted state''
       else
         rbind (ok_or (Other ''ValidatorSet object version overflow'') (checked_add_u64 (ob_version existing) 1))
           (validator_set_object B chain_id next_set)))) (\<lambda>sn ob.
     be_replace_system_object (snapshot_backend B) sn ob)"

text \<open>The common end of the three operations: stage the set, audit the snapshot, replay it, install the set.\<close>

definition commit_staking ::
  "hash_fn \<Rightarrow> (l1_error, unit) outcome \<Rightarrow> table_decoder \<Rightarrow> nat \<Rightarrow> staking_node \<Rightarrow> validator_set \<Rightarrow> snapshot \<Rightarrow> 'r \<Rightarrow>
   staking_node \<times> (l1_error, 'r) outcome" where
  "commit_staking B written decode_table chain_id nd next_set sn result =
     (case stage_validator_set_update B sn chain_id (nd_validator_set nd) next_set of
        (_, Inl e) \<Rightarrow> (nd, Inl e)
      | (sn, Inr _) \<Rightarrow>
          (case rbind (validator_staking_escrow next_set)
                  (reconcile_native_supply_snapshot_if_initialized B decode_table sn) of
             Inl e \<Rightarrow> (nd, Inl e)
           | Inr _ \<Rightarrow>
               (case apply_to B written sn (nd_object_db nd) of
                  (db, Inl e) \<Rightarrow> (nd\<lparr>nd_object_db := db\<rparr>, Inl e)
                | (db, Inr _) \<Rightarrow> (\<lparr>nd_object_db = db, nd_validator_set = next_set\<rparr>, Inr result))))"

definition bond_validator ::
  "hash_fn \<Rightarrow> (l1_error, unit) outcome \<Rightarrow> table_decoder \<Rightarrow> nat \<Rightarrow> staking_node \<Rightarrow> validator_entry \<Rightarrow> obj_id list \<Rightarrow>
   staking_node \<times> (l1_error, obj_id option) outcome" where
  "bond_validator B written decode_table chain_id nd entry0 coin_inputs =
     (if ve_stake entry0 = 0 then (nd, other_fail ''bond_validator requires non-zero stake'')
      else
        let entry = entry0\<lparr>ve_status := Bonding\<rparr>;
            owner = derive_address B (ve_pubkey entry);
            sn = create_snapshot (nd_object_db nd);
            s = nd_validator_set nd
        in case select_owned_native_coins (snapshot_backend B) sn coin_inputs owner (ve_stake entry) of
             Inl e \<Rightarrow> (nd, Inl e)
           | Inr selection \<Rightarrow>
               if find_validator s (ve_pubkey entry) \<noteq> None then (nd, other_fail ''validator already in set'')
               else
                 let next_set = rehash B (s\<lparr>vs_validators := vs_validators s @ [entry]\<rparr>);
                     operation_hash = system_coin_operation_hash B (map of_char ''STAKING_BOND_V1'') owner coin_inputs
                                        (ve_stake entry) (vs_epoch next_set)
                 in case consume_native_coin_selection B (snapshot_backend B) sn selection owner (ve_stake entry)
                           operation_hash 0 of
                      (_, Inl e) \<Rightarrow> (nd, Inl e)
                    | (sn, Inr change) \<Rightarrow> commit_staking B written decode_table chain_id nd next_set sn change)"

definition slash_validator ::
  "hash_fn \<Rightarrow> (l1_error, unit) outcome \<Rightarrow> table_decoder \<Rightarrow> nat \<Rightarrow> staking_node \<Rightarrow> tagged_pubkey \<Rightarrow> slashing_reason \<Rightarrow>
   slashing_config \<Rightarrow> staking_node \<times> (l1_error, slashing_result) outcome" where
  "slash_validator B written decode_table chain_id nd pk reason cfg =
     (case apply_slashing (nd_validator_set nd) pk reason cfg of
        Inl e \<Rightarrow> (nd, Inl e)
      | Inr (s, result) \<Rightarrow>
          (case burn_escrowed_native (snapshot_backend B) (create_snapshot (nd_object_db nd)) (sr_slash_amount result) of
             (_, Inl e) \<Rightarrow> (nd, Inl e)
           | (sn, Inr _) \<Rightarrow> commit_staking B written decode_table chain_id nd (rehash B s) sn result))"

definition complete_unbonding ::
  "hash_fn \<Rightarrow> (l1_error, unit) outcome \<Rightarrow> table_decoder \<Rightarrow> nat \<Rightarrow> staking_node \<Rightarrow> tagged_pubkey \<Rightarrow> nat \<Rightarrow>
   staking_node \<times> (l1_error, nat) outcome" where
  "complete_unbonding B written decode_table chain_id nd pk current_height =
     (let owner = derive_address B pk; s = nd_validator_set nd in
      case find_validator_mut s pk of
        Inl e \<Rightarrow> (nd, Inl e)
      | Inr v \<Rightarrow>
          if ve_status v \<noteq> Unbonding then (nd, other_fail ''validator not in unbonding'')
          else if current_height < ve_unbonding_until_height v then (nd, other_fail ''unbonding lock not expired'')
          else
            let refund = ve_stake v;
                next_set = rehash B (modify_validator s pk (\<lambda>v. v\<lparr>ve_stake := 0, ve_status := Retired\<rparr>));
                sn = create_snapshot (nd_object_db nd);
                payout_hash = system_coin_operation_hash B (map of_char ''STAKING_UNBOND_V1'') owner [] refund current_height
            in case (if refund > 0
                     then sbind (create_native_coin_output B (snapshot_backend B) sn owner refund payout_hash 0)
                            (\<lambda>sn _. (sn, Inr ()))
                     else (sn, Inr ())) of
                 (_, Inl e) \<Rightarrow> (nd, Inl e)
               | (sn, Inr _) \<Rightarrow> commit_staking B written decode_table chain_id nd next_set sn refund)"

end
