(* ===== verification/StakingLaws.thy ===== *)
theory StakingLaws
  imports Staking
begin

text \<open>
  The audit reports the supply equation, and every sequence of bonds, slashes and unbondings keeps
  it: the locales of the backends give it for one operation on a snapshot, the replay of the
  snapshot carries it to the database.
\<close>

section \<open>The audit reports the supply equation\<close>

text \<open>
  The value of the tables, read off the objects: a table is an object of the table type, its chip
  pool is what the decoder finds in its data and the data of its three openings.
\<close>

definition is_table_object :: "obj \<Rightarrow> bool" where
  "is_table_object ob \<longleftrightarrow> ob_type ob = TEXAS_POKER_TABLE_OBJECT_TYPE \<and> ob_id ob \<noteq> TREASURY_CAP_OBJECT_ID"

definition table_contents ::
  "hash_fn \<Rightarrow> table_decoder \<Rightarrow> (obj_id \<rightharpoonup> obj) \<Rightarrow> obj \<Rightarrow> (obj_id \<times> nat list \<times> nat) option" where
  "table_contents B decode_table v ob =
     (case (v (table_metadata_object_id B (ob_id ob)), v (table_rules_object_id B (ob_id ob)),
            v (table_governance_object_id B (ob_id ob))) of
        (Some m, Some r, Some g) \<Rightarrow>
          (case decode_table (ob_data ob) (ob_data m, ob_data r, ob_data g) of Inl _ \<Rightarrow> None | Inr t \<Rightarrow> Some t)
      | _ \<Rightarrow> None)"

definition table_value :: "hash_fn \<Rightarrow> table_decoder \<Rightarrow> (obj_id \<rightharpoonup> obj) \<Rightarrow> obj \<Rightarrow> nat" where
  "table_value B decode_table v ob =
     (if is_table_object ob then (case table_contents B decode_table v ob of None \<Rightarrow> 0 | Some (_, _, chip_pool) \<Rightarrow> chip_pool)
      else 0)"

definition table_native :: "hash_fn \<Rightarrow> table_decoder \<Rightarrow> (obj_id \<rightharpoonup> obj) \<Rightarrow> nat" where
  "table_native B decode_table v = (\<Sum>i \<in> dom v. table_value B decode_table v (the (v i)))"

text \<open>A table that the audit accepts.\<close>

definition table_sound :: "hash_fn \<Rightarrow> table_decoder \<Rightarrow> (obj_id \<rightharpoonup> obj) \<Rightarrow> obj \<Rightarrow> bool" where
  "table_sound B decode_table v ob \<longleftrightarrow> ob_owner ob = Shared \<and>
     (\<exists>addons chip_pool. table_contents B decode_table v ob = Some (ob_id ob, addons, chip_pool) \<and> sum_list addons \<le> chip_pool)"

lemma audit_coin_value:
  "audit_coin ob live = Inr live' \<Longrightarrow> live' = live + coin_value ob \<and> live' < u64_limit"
  by (auto simp: audit_coin_def outcome_simps other_fail_def coin_value_def split: ownership.splits if_splits)

lemma cap_object_no_value:
  "decode_treasury_cap ob = Inr cap \<Longrightarrow> coin_value ob = 0" by (rule decode_cap_no_value)

lemma non_coin_no_value: "\<not> is_native_coin_object ob \<Longrightarrow> coin_value ob = 0"
  by (simp add: coin_value_def decode_native_coin_def other_fail_def)

lemma table_type_distinct:
  "TEXAS_POKER_TABLE_OBJECT_TYPE \<noteq> TREASURY_CAP_OBJECT_TYPE" "TEXAS_POKER_TABLE_OBJECT_TYPE \<noteq> NATIVE_COIN_OBJECT_TYPE"
  by (simp_all add: TEXAS_POKER_TABLE_OBJECT_TYPE_def TREASURY_CAP_OBJECT_TYPE_def NATIVE_COIN_OBJECT_TYPE_def)

lemma find_opening_Inr: "find_opening objs i t = Inr ob \<Longrightarrow> List.find (\<lambda>c. ob_id c = i) objs = Some ob"
  by (auto simp: find_opening_def rbind_eq_Inr ok_or_eq_Inr split: if_splits)

lemma audit_table_value:
  assumes "audit_table B rp objs ob texas = Inr texas'" "is_table_object ob"
  defines "v \<equiv> \<lambda>i. List.find (\<lambda>c. ob_id c = i) objs"
  shows "texas' = texas + table_value B rp v ob \<and> table_sound B rp v ob"
proof -
  from assms(1) obtain m r g addons pool sum where
    "find_opening objs (table_metadata_object_id B (ob_id ob)) TEXAS_POKER_METADATA_OBJECT_TYPE = Inr m"
    "find_opening objs (table_rules_object_id B (ob_id ob)) TEXAS_POKER_RULES_OBJECT_TYPE = Inr r"
    "find_opening objs (table_governance_object_id B (ob_id ob)) TEXAS_POKER_GOVERNANCE_OBJECT_TYPE = Inr g"
    and d: "rp (ob_data ob) (ob_data m, ob_data r, ob_data g) = Inr (ob_id ob, addons, pool)"
    and sum: "foldM (\<lambda>sum addon. ok_or (Other ''pending-addon sum overflow'') (checked_add_u64 sum addon)) 0 addons = Inr sum"
    and le: "sum \<le> pool" and t: "texas' = texas + pool" and sh: "ob_owner ob = Shared"
    by (auto simp: audit_table_def rbind_eq_Inr ok_or_eq_Inr checked_add_eq_Some other_fail_def not_less split: if_splits)
  then have "table_contents B rp v ob = Some (ob_id ob, addons, pool)"
    by (simp add: table_contents_def v_def find_opening_Inr)
  moreover have "sum = sum_list addons"
    using sum by (simp add: foldM_checked_total[where f = "\<lambda>x. x"] split: if_splits)
  ultimately show ?thesis using le t sh assms(2) by (auto simp: table_value_def table_sound_def)
qed

lemma audit_step_facts:
  assumes "audit_step B rp objs (cap, live, texas) ob = Inr (cap', live', texas')"
  defines "v \<equiv> \<lambda>i. List.find (\<lambda>c. ob_id c = i) objs"
  shows "live' = live + coin_value ob"
    "ob_id ob = TREASURY_CAP_OBJECT_ID \<Longrightarrow> cap = None \<and> (\<exists>c. decode_treasury_cap ob = Inr c \<and> cap' = Some c)"
    "ob_id ob \<noteq> TREASURY_CAP_OBJECT_ID \<Longrightarrow> cap' = cap"
    "texas' = texas + table_value B rp v ob" "is_table_object ob \<Longrightarrow> table_sound B rp v ob"
proof -
  show "live' = live + coin_value ob"
    using assms(1) audit_coin_value[of ob live live'] decode_cap_no_value[of ob] non_coin_no_value[of ob]
    by (auto simp: audit_step_def rbind_eq_Inr other_fail_def split: if_splits)
  show "cap = None \<and> (\<exists>c. decode_treasury_cap ob = Inr c \<and> cap' = Some c)" if "ob_id ob = TREASURY_CAP_OBJECT_ID"
    using assms(1) that by (auto simp: audit_step_def rbind_eq_Inr other_fail_def split: if_splits)
  show "cap' = cap" if "ob_id ob \<noteq> TREASURY_CAP_OBJECT_ID"
    using assms(1) that decode_cap_Inr[of ob] by (auto simp: audit_step_def rbind_eq_Inr other_fail_def split: if_splits)
  have "texas' = texas + table_value B rp v ob \<and> (is_table_object ob \<longrightarrow> table_sound B rp v ob)"
  proof (cases "is_table_object ob")
    case True
    then have "audit_table B rp objs ob texas = Inr texas'"
      using assms(1) table_type_distinct
      by (auto simp: audit_step_def is_table_object_def is_native_coin_object_def rbind_eq_Inr)
    then show ?thesis using audit_table_value[OF _ True] by (simp add: v_def)
  next
    case False
    then have "texas' = texas"
      using assms(1) by (auto simp: audit_step_def is_table_object_def rbind_eq_Inr other_fail_def split: if_splits)
    then show ?thesis using False by (simp add: table_value_def)
  qed
  then show "texas' = texas + table_value B rp v ob" "is_table_object ob \<Longrightarrow> table_sound B rp v ob" by blast+
qed

lemma audit_tables:
  "foldM (audit_step B rp objs) (cap, live, texas) obs = Inr (cap', live', texas') \<Longrightarrow>
   texas' = texas + sum_list (map (table_value B rp (\<lambda>i. List.find (\<lambda>c. ob_id c = i) objs)) obs) \<and>
   (\<forall>ob \<in> set obs. is_table_object ob \<longrightarrow> table_sound B rp (\<lambda>i. List.find (\<lambda>c. ob_id c = i) objs) ob)"
proof (induction obs arbitrary: cap live texas)
  case (Cons ob obs)
  from Cons.prems obtain c1 l1 t1 where s: "audit_step B rp objs (cap, live, texas) ob = Inr (c1, l1, t1)"
    "foldM (audit_step B rp objs) (c1, l1, t1) obs = Inr (cap', live', texas')" by (auto simp: rbind_eq_Inr)
  from Cons.IH[OF s(2)] audit_step_facts(4,5)[OF s(1)] show ?case by auto
qed simp

lemma audit_loop:
  assumes "foldM (audit_step B rp objs) (cap, live, texas) (map snd xs) = Inr (cap', live', texas')"
    "distinct (map fst xs)" "\<forall>(i, ob) \<in> set xs. ob_id ob = i" "cap \<noteq> None \<longrightarrow> TREASURY_CAP_OBJECT_ID \<notin> fst ` set xs"
  shows "live' = live + sum_list (map (coin_value \<circ> snd) xs) \<and>
    (case map_of xs TREASURY_CAP_OBJECT_ID of
       None \<Rightarrow> cap' = cap
     | Some ob \<Rightarrow> \<exists>c. decode_treasury_cap ob = Inr c \<and> cap' = Some c)"
  using assms
proof (induction xs arbitrary: cap live texas)
  case (Cons x xs)
  obtain i ob where x: "x = (i, ob)" by (cases x)
  from Cons.prems(1) obtain s where s: "audit_step B rp objs (cap, live, texas) ob = Inr s"
    "foldM (audit_step B rp objs) s (map snd xs) = Inr (cap', live', texas')" by (auto simp: x rbind_eq_Inr)
  obtain c1 l1 t1 where p: "s = (c1, l1, t1)" by (cases s)
  note f = audit_step_facts[OF s(1)[unfolded p]]
  have i: "ob_id ob = i" using Cons.prems(3) x by simp
  have d: "distinct (map fst xs)" "i \<notin> fst ` set xs" using Cons.prems(2) x by auto
  have ids: "\<forall>(i, ob) \<in> set xs. ob_id ob = i" using Cons.prems(3) by simp
  have "c1 \<noteq> None \<longrightarrow> TREASURY_CAP_OBJECT_ID \<notin> fst ` set xs"
    using f(2,3) i d(2) Cons.prems(4) x by (cases "i = TREASURY_CAP_OBJECT_ID") auto
  from Cons.IH[OF s(2)[unfolded p] d(1) ids this] have ih: "live' = l1 + sum_list (map (coin_value \<circ> snd) xs)"
    "case map_of xs TREASURY_CAP_OBJECT_ID of None \<Rightarrow> cap' = c1
     | Some ob \<Rightarrow> \<exists>c. decode_treasury_cap ob = Inr c \<and> cap' = Some c" by blast+
  show ?case
  proof (cases "i = TREASURY_CAP_OBJECT_ID")
    case True
    then have "map_of xs TREASURY_CAP_OBJECT_ID = None" using d(2) by (simp add: map_of_eq_None_iff)
    then show ?thesis using ih f(1,2) True i x by (simp add: o_def)
  next
    case False
    then show ?thesis using ih f(1,3) i x by (auto simp: o_def split: option.splits)
  qed
qed simp

lemma store_sum:
  assumes "store_wf st"
  shows "(\<Sum>i \<in> dom (object_at st). f (the (object_at st i))) = sum_list (map f (store_objects st))"
proof -
  let ?xs = "st_objects st"
  have d: "distinct (map fst ?xs)" using assms by (simp add: store_wf_def)
  have "(\<Sum>i \<in> dom (map_of ?xs). f (the (map_of ?xs i))) = sum_list (map (\<lambda>i. f (the (map_of ?xs i))) (map fst ?xs))"
    using sum.distinct_set_conv_list[OF d, of "\<lambda>i. f (the (map_of ?xs i))"] by (simp add: dom_map_of_conv_image_fst)
  also have "\<dots> = sum_list (map (f \<circ> snd) ?xs)"
    unfolding map_map using d by (intro arg_cong[where f = sum_list] map_cong) (auto simp: map_of_eq_Some_iff)
  finally show ?thesis by (simp add: store_objects_def o_def)
qed

lemma live_store_sum:
  assumes "store_wf st"
  shows "live_native (object_at st) = sum_list (map (coin_value \<circ> snd) (st_objects st))"
proof -
  have "live_native (object_at st) = (\<Sum>i \<in> dom (object_at st). coin_value (the (object_at st i)))"
    unfolding live_native_def by (rule sum.cong) (auto simp: value_at_def)
  then show ?thesis using store_sum[OF assms, of coin_value] by (simp add: store_objects_def o_def)
qed

lemma find_stored:
  assumes "store_wf st"
  shows "List.find (\<lambda>c. ob_id c = i) (store_objects st) = object_at st i"
proof -
  have "\<forall>(i, ob) \<in> set xs. ob_id ob = i \<Longrightarrow> List.find (\<lambda>c. ob_id c = i) (map snd xs) = map_of xs i" for xs :: "(obj_id \<times> obj) list"
    by (induction xs) auto
  then show ?thesis using assms by (simp add: store_wf_def store_objects_def)
qed

lemma audit_facts:
  assumes "audit_native_supply_objects B rp (store_objects st) escrow = Inr r" "store_wf st"
  shows "(case r of
      None \<Rightarrow> object_at st TREASURY_CAP_OBJECT_ID = None \<and> live_native (object_at st) = 0 \<and> escrow = 0 \<and>
        table_native B rp (object_at st) = 0
    | Some report \<Rightarrow> \<exists>cap. cap_of (object_at st) = Some cap \<and> ns_treasury_total_supply report = total_supply cap \<and>
        ns_treasury_total_minted report = total_minted cap \<and> ns_treasury_total_burned report = total_burned cap \<and>
        ns_live_utxo report = live_native (object_at st) \<and> ns_staking_escrow report = escrow \<and>
        ns_texas_table_escrow report = table_native B rp (object_at st) \<and>
        ns_observed_total report = live_native (object_at st) + escrow + table_native B rp (object_at st) \<and>
        (is_balanced report \<longleftrightarrow> supply_ok (object_at st) (escrow + table_native B rp (object_at st)))) \<and>
    (\<forall>i ob. object_at st i = Some ob \<and> is_table_object ob \<longrightarrow> table_sound B rp (object_at st) ob)"
proof -
  from assms(1) obtain cap live texas observed where l: "foldM (audit_step B rp (store_objects st)) (None, 0, 0) (map snd (st_objects st)) =
      Inr (cap, live, texas)" and o: "observed = live + escrow + texas"
    and r: "(case cap of None \<Rightarrow> if observed = 0 then Inr None
          else other_fail ''native value exists without an initialized TreasuryCap''
        | Some cap \<Rightarrow> Inr (Some \<lparr>ns_treasury_total_supply = total_supply cap, ns_treasury_total_minted = total_minted cap,
           ns_treasury_total_burned = total_burned cap, ns_live_utxo = live, ns_staking_escrow = escrow,
           ns_texas_table_escrow = texas, ns_observed_total = observed,
           ns_delta = int observed - int (total_supply cap)\<rparr>)) = Inr r"
    by (auto simp: audit_native_supply_objects_def store_objects_def rbind_eq_Inr ok_or_eq_Inr checked_add_eq_Some
        split: option.splits)
  have wf: "distinct (map fst (st_objects st))" "\<forall>(i, ob) \<in> set (st_objects st). ob_id ob = i"
    using assms(2) by (simp_all add: store_wf_def)
  from audit_loop[OF l wf] have live: "live = live_native (object_at st)"
    and cap: "case object_at st TREASURY_CAP_OBJECT_ID of None \<Rightarrow> cap = None
      | Some ob \<Rightarrow> \<exists>c. decode_treasury_cap ob = Inr c \<and> cap = Some c"
    by (simp_all add: live_store_sum[OF assms(2)])
  have objs: "(\<lambda>i. List.find (\<lambda>c. ob_id c = i) (store_objects st)) = object_at st" using find_stored[OF assms(2)] by blast
  note t = audit_tables[OF l, unfolded objs]
  have texas: "texas = table_native B rp (object_at st)"
    using t store_sum[OF assms(2), of "table_value B rp (object_at st)"] by (simp add: table_native_def store_objects_def)
  have sound: "\<forall>i ob. object_at st i = Some ob \<and> is_table_object ob \<longrightarrow> table_sound B rp (object_at st) ob"
    using t by (force dest: map_of_SomeD)
  show ?thesis
  proof (cases cap)
    case None
    then have "object_at st TREASURY_CAP_OBJECT_ID = None" using cap by (auto split: option.splits)
    then show ?thesis using None r o live texas sound by (auto simp: other_fail_def split: if_splits)
  next
    case (Some c)
    then have "cap_of (object_at st) = Some c" using cap by (auto simp: cap_of_def split: option.splits)
    then show ?thesis using Some r o live texas sound by (auto simp: is_balanced_def supply_ok_def)
  qed
qed

section \<open>Snapshots of one database\<close>

text \<open>
  A snapshot that was reached from a database by calls: what it shows is what replaying its log will
  leave.  The backend laws hold for these snapshots as well.
\<close>

definition fork_good :: "hash_fn \<Rightarrow> object_db \<Rightarrow> snapshot \<Rightarrow> bool" where
  "fork_good B db sn \<longleftrightarrow> snapshot_reach B db sn \<and> snapshot_good sn"

lemma fork_start: "db_good db \<Longrightarrow> fork_good B db (create_snapshot db) \<and> snapshot_view (create_snapshot db) = db_view db"
  using snapshot_reach.start[of B db]
  by (simp add: fork_good_def snapshot_good_def create_snapshot_def db_good_def snapshot_view_def db_view_def)

lemma sloop_preserves:
  "sloop f s xs = (s', r) \<Longrightarrow> (\<And>s x. P s \<Longrightarrow> P (fst (f s x))) \<Longrightarrow> P s \<Longrightarrow> P s'"
proof (induction xs arbitrary: s)
  case (Cons x xs)
  obtain s1 r1 where f: "f s x = (s1, r1)" by (cases "f s x")
  then have "P s1" using Cons.prems(2)[OF Cons.prems(3), of x] by simp
  then show ?case using Cons.IH[of s1] Cons.prems f by (auto simp: sbind_def split: sum.splits)
qed simp

lemma fork_replace:
  assumes "replace_objects_default (snapshot_delete B) (\<lambda>sn ob. snapshot_mutate B sn (Create ob)) sn ids obs = (sn', Inr u)"
    "snapshot_reach B db sn"
  shows "snapshot_reach B db sn'"
proof -
  from assms(1) obtain s1 u1 where s1: "sloop (snapshot_delete B) sn ids = (s1, Inr u1)"
    "sloop (\<lambda>sn ob. snapshot_mutate B sn (Create ob)) s1 obs = (sn', Inr u)"
    by (auto simp: replace_objects_default_def sbind_Inr)
  have "snapshot_reach B db s1" by (rule sloop_preserves[OF s1(1), where P = "snapshot_reach B db"]) (use assms(2) in \<open>auto intro: snapshot_reach.delete\<close>)
  then show ?thesis
    by (rule sloop_preserves[OF s1(2), where P = "snapshot_reach B db", rotated]) (rule snapshot_reach.mutate)
qed

interpretation forks: object_backend "snapshot_backend B" snapshot_view "fork_good B db"
proof unfold_locales
  fix s i assume "fork_good B db s"
  then show "be_read (snapshot_backend B) s i = ok_or (ObjectNotFound i) (snapshot_view s i)"
    by (simp add: fork_good_def snapshots.read_view)
next
  fix s i ob assume "fork_good B db s" "snapshot_view s i = Some ob"
  then show "ob_id ob = i" by (auto simp: fork_good_def intro: snapshots.view_id)
next
  fix s assume "fork_good B db s"
  then show "finite (dom (snapshot_view s))" by (simp add: fork_good_def snapshots.view_finite)
next
  fix s ids obs s' u
  assume g: "fork_good B db s" and r: "be_replace_objects (snapshot_backend B) s ids obs = (s', Inr u)"
  then show "fork_good B db s' \<and> snapshot_view s' = replaced (snapshot_view s) ids obs \<and>
      replace_fits (snapshot_view s) ids obs"
    using snapshots.replace_view[OF _ r] fork_replace[of B s ids obs s' u db] by (simp add: fork_good_def snapshot_backend_def)
next
  fix s ids obs
  assume "fork_good B db s" "replace_fits (snapshot_view s) ids obs" "replace_plain (snapshot_view s) ids obs"
  then show "\<exists>s'. be_replace_objects (snapshot_backend B) s ids obs = (s', Inr ())"
    by (simp add: fork_good_def snapshots.replace_runs)
next
  fix s ob s' u
  assume g: "fork_good B db s" and c: "be_create (snapshot_backend B) s ob = (s', Inr u)"
  from c have "s' = fst (snapshot_mutate B s (Create ob))" by (simp add: snapshot_backend_def)
  then show "fork_good B db s' \<and> snapshot_view s' = (snapshot_view s)(ob_id ob \<mapsto> ob) \<and> snapshot_view s (ob_id ob) = None"
    using snapshots.create_view[OF _ c] g snapshot_reach.mutate[of B db s "Create ob"] by (simp add: fork_good_def)
next
  fix s ob s' e
  assume "be_create (snapshot_backend B) s ob = (s', Inl e)"
  then show "s' = s" by (rule snapshots.create_fails)
qed

section \<open>Value that moves between coins, escrow and nothing\<close>

lemma cap_of_same: "v' TREASURY_CAP_OBJECT_ID = v TREASURY_CAP_OBJECT_ID \<Longrightarrow> cap_of v' = cap_of v"
  by (simp add: cap_of_def)

text \<open>A backend that also replaces system singletons in place.\<close>

locale system_backend = object_backend be view good
  for be :: "'s backend" and view :: "'s \<Rightarrow> obj_id \<Rightarrow> obj option" and good :: "'s \<Rightarrow> bool" +
  assumes replace_system_view: "good s \<Longrightarrow> be_replace_system_object be s ob = (s', Inr u) \<Longrightarrow>
    good s' \<and> view s' = (view s)(ob_id ob \<mapsto> ob) \<and>
    (\<exists>old. view s (ob_id ob) = Some old \<and> ob_type old = ob_type ob) \<and> ob_type ob \<noteq> NATIVE_COIN_OBJECT_TYPE"
begin

lemma replace_system_live:
  assumes "good s" "be_replace_system_object be s ob = (s', Inr u)"
  shows "live_native (view s') = live_native (view s)"
proof -
  from replace_system_view[OF assms] obtain old where o: "view s' = (view s)(ob_id ob \<mapsto> ob)"
    "view s (ob_id ob) = Some old" "ob_type old = ob_type ob" "ob_type ob \<noteq> NATIVE_COIN_OBJECT_TYPE" by blast
  then show ?thesis
    using live_system_replace[OF view_finite[OF assms(1)], of ob old] other_type_no_value by simp
qed

text \<open>Burning escrow lowers the supply by what leaves the escrow.\<close>

lemma burn_escrow:
  assumes "good s" "burn_escrowed_native be s amount = (s', Inr u)" "supply_ok (view s) (amount + escrow)"
  shows "good s' \<and> supply_ok (view s') escrow"
proof (cases "amount = 0")
  case True
  then show ?thesis using assms by (simp add: burn_escrowed_native_def)
next
  case False
  with assms(1,2) obtain cob cap cap' ob where cob: "view s TREASURY_CAP_OBJECT_ID = Some cob"
    and cap: "decode_treasury_cap cob = Inr cap"
    and bc: "burn_from_cap cap amount ''escrow burn exceeds TreasuryCap supply'' = Inr cap'"
    and nc: "next_cap_object cap' (ob_version cob) = Inr ob"
    and r: "be_replace_system_object be s ob = (s', Inr u)"
    by (auto simp: burn_escrowed_native_def sbind_Inr rbind_eq_Inr read_view ok_or_eq_Inr)
  note f = burn_from_cap_facts[OF bc nc decode_cap_wf[OF cap]]
  note v = replace_system_view[OF assms(1) r] replace_system_live[OF assms(1) r]
  have "cap_of (view s) = Some cap" using cob cap by (simp add: cap_of_def)
  moreover have "cap_of (view s') = Some cap'" using v f(1,3) by (simp add: cap_of_def)
  ultimately show ?thesis using assms(3) v f(2) by (auto simp: supply_ok_def)
qed

text \<open>Coins that are consumed go to the escrow, coins that are created come from it; the cap stays.\<close>

lemma cap_not_coin: "good s \<Longrightarrow> cap_of (view s) = Some cap \<Longrightarrow> \<not> owned_input (view s) owner TREASURY_CAP_OBJECT_ID"
proof
  assume g: "good s" "cap_of (view s) = Some cap" and "owned_input (view s) owner TREASURY_CAP_OBJECT_ID"
  then obtain ob where ob: "view s TREASURY_CAP_OBJECT_ID = Some ob" "decode_treasury_cap ob = Inr cap"
    "is_native_coin_object ob" by (auto simp: cap_of_def owned_input_def split: option.splits sum.splits)
  then show False using decode_cap_Inr[OF ob(2)] coin_type_distinct(1) by (simp add: is_native_coin_object_def)
qed

lemma lock_coins:
  assumes "good s" "select_owned_native_coins be s ids owner required = Inr sel"
    "consume_native_coin_selection B be s sel owner required tx_hash n = (s', Inr cid)" "supply_ok (view s) escrow"
  shows "good s' \<and> supply_ok (view s') (escrow + required)"
proof -
  note sel = select_owned[OF assms(1,2)]
  from assms(3) obtain c u where rep: "be_replace_objects be s ids (option_list c) = (s', Inr u)"
    by (auto simp: consume_native_coin_selection_def sbind_Inr sel(1) outcome_simps split: if_splits)
  note v = replace_view[OF assms(1) rep] consume_value[OF assms(1-3)]
  from assms(4) obtain cap where cap: "cap_of (view s) = Some cap" "live_native (view s) + escrow = total_supply cap"
    by (auto simp: supply_ok_def)
  have i: "TREASURY_CAP_OBJECT_ID \<notin> set ids" using sel(7) cap_not_coin[OF assms(1) cap(1)] by blast
  have "view s TREASURY_CAP_OBJECT_ID \<noteq> None" using cap(1) by (auto simp: cap_of_def split: option.splits)
  then have "TREASURY_CAP_OBJECT_ID \<notin> ob_id ` set (option_list c)" using v(1) i by (force simp: replace_fits_def)
  then have "view s' TREASURY_CAP_OBJECT_ID = view s TREASURY_CAP_OBJECT_ID"
    using v(1) i by (simp add: replaced_def create_all_other delete_all_def)
  then have "cap_of (view s') = Some cap" using cap_of_same cap(1) by metis
  then show ?thesis using cap(2) v(1,2) by (simp add: supply_ok_def)
qed

lemma release_coins:
  assumes "good s" "create_native_coin_output B be s owner amount tx_hash n = (s', Inr i)" "supply_ok (view s) (amount + escrow)"
  shows "good s' \<and> supply_ok (view s') escrow"
proof -
  from assms(3) obtain cap where cap: "cap_of (view s) = Some cap" "live_native (view s) + (amount + escrow) = total_supply cap"
    by (auto simp: supply_ok_def)
  then obtain cob where cob: "view s TREASURY_CAP_OBJECT_ID = Some cob" "decode_treasury_cap cob = Inr cap"
    by (auto simp: cap_of_def split: option.splits sum.splits)
  have "amount < u64_limit" using cap(2) decode_cap_wf[OF cob(2)] by (simp add: cap_wf_def)
  note v = create_output_value[OF assms(1,2) this]
  from assms(2) obtain ob u where "be_create be s ob = (s', Inr u)"
    by (auto simp: create_native_coin_output_def sbind_Inr)
  note w = create_view[OF assms(1) this]
  have "view s' TREASURY_CAP_OBJECT_ID = view s TREASURY_CAP_OBJECT_ID" using w cob(1) by auto
  then have "cap_of (view s') = Some cap" using cap_of_same cap(1) by metis
  then show ?thesis using cap(2) v by (simp add: supply_ok_def)
qed

end

lemma system_replaced:
  assumes "apply_mutation B st (SystemReplace ob) = Inr st'" "store_wf st"
  shows "object_at st' = (object_at st)(ob_id ob \<mapsto> ob)"
    "\<exists>old. object_at st (ob_id ob) = Some old \<and> ob_type old = ob_type ob" "ob_type ob \<noteq> NATIVE_COIN_OBJECT_TYPE"
proof -
  show "object_at st' = (object_at st)(ob_id ob \<mapsto> ob)" using apply_mutation_lookup[OF assms] by simp
  show "\<exists>old. object_at st (ob_id ob) = Some old \<and> ob_type old = ob_type ob"
    using assms(1) by (auto simp: system_replace_def store_read_def outcome_simps other_fail_def split: if_splits)
  from assms(1) have "validate_system_object B ob = Inr ()" by (auto simp: system_replace_def rbind_eq_Inr)
  then show "ob_type ob \<noteq> NATIVE_COIN_OBJECT_TYPE" using validated_system_no_value by blast
qed

interpretation forks: system_backend "snapshot_backend B" snapshot_view "fork_good B db"
proof unfold_locales
  fix s ob s' u
  assume g: "fork_good B db s" and r: "be_replace_system_object (snapshot_backend B) s ob = (s', Inr u)"
  have m: "snapshot_mutate B s (SystemReplace ob) = (s', Inr u)" using r by (simp add: snapshot_backend_def)
  then have s': "s' = fst (snapshot_mutate B s (SystemReplace ob))" by simp
  have a: "apply_mutation B (sn_store s) (SystemReplace ob) = Inr (sn_store s')"
    using m by (auto simp: snapshot_mutate_Inr simp del: apply_mutation.simps)
  have wf: "store_wf (sn_store s)" using g by (simp add: fork_good_def snapshot_good_def)
  show "fork_good B db s' \<and> snapshot_view s' = (snapshot_view s)(ob_id ob \<mapsto> ob) \<and>
      (\<exists>old. snapshot_view s (ob_id ob) = Some old \<and> ob_type old = ob_type ob) \<and> ob_type ob \<noteq> NATIVE_COIN_OBJECT_TYPE"
    using system_replaced[OF a wf] apply_mutation_wf[OF a wf] snapshot_reach.mutate[of B db s "SystemReplace ob"] g s'
    by (simp add: fork_good_def snapshot_good_def snapshot_view_def)
qed

interpretation database: system_backend "db_backend B (Inr ())" db_view db_good
proof unfold_locales
  fix s ob s' u
  assume g: "db_good s" and r: "be_replace_system_object (db_backend B (Inr ())) s ob = (s', Inr u)"
  then have "run_mutations B (od_store s) [SystemReplace ob] = Inr (od_store s')"
    by (auto simp: db_backend_def dest: apply_batch_Inr)
  then have a: "apply_mutation B (od_store s) (SystemReplace ob) = Inr (od_store s')"
    by (auto simp: run_mutations_def rbind_eq_Inr)
  have wf: "store_wf (od_store s)" using g by (simp add: db_good_def)
  show "db_good s' \<and> db_view s' = (db_view s)(ob_id ob \<mapsto> ob) \<and>
      (\<exists>old. db_view s (ob_id ob) = Some old \<and> ob_type old = ob_type ob) \<and> ob_type ob \<noteq> NATIVE_COIN_OBJECT_TYPE"
    using system_replaced[OF a wf] apply_mutation_wf[OF a wf] by (simp add: db_good_def db_view_def)
qed

section \<open>The operations of the node\<close>

lemma stage_facts:
  assumes "stage_validator_set_update B sn n current next_set = (sn', Inr u)" "fork_good B db sn"
  shows "fork_good B db sn' \<and> live_native (snapshot_view sn') = live_native (snapshot_view sn) \<and>
    cap_of (snapshot_view sn') = cap_of (snapshot_view sn)"
proof -
  from assms(1) obtain version ob where ob: "validator_set_object B n next_set version = Inr ob"
    and r: "be_replace_system_object (snapshot_backend B) sn ob = (sn', Inr u)"
    by (auto simp: stage_validator_set_update_def sbind_Inr rbind_eq_Inr other_fail_def split: if_splits)
  have "ob_id ob = VALIDATOR_SET_OBJECT_ID" using ob by (auto simp: validator_set_object_def rbind_eq_Inr object_new_def)
  moreover have "VALIDATOR_SET_OBJECT_ID \<noteq> TREASURY_CAP_OBJECT_ID"
    by (simp add: VALIDATOR_SET_OBJECT_ID_def TREASURY_CAP_OBJECT_ID_def U64_MAX_def u64_limit_def)
  ultimately show ?thesis
    using forks.replace_system_view[OF assms(2) r] forks.replace_system_live[OF assms(2) r]
      cap_of_same[of "snapshot_view sn'" "snapshot_view sn"] by simp
qed

lemma apply_to_reach:
  assumes "fork_good B db sn" "apply_to B written sn db = (db', r)"
  shows "case r of Inl _ \<Rightarrow> db' = db | Inr _ \<Rightarrow> db_good db' \<and> db_view db' = snapshot_view sn"
proof (cases r)
  case (Inl e)
  then show ?thesis using assms(2) apply_batch_fails by (auto simp: apply_to_def)
next
  case (Inr u)
  have "run_mutations B (od_store db) (sn_mutations sn) = Inr (od_store db')"
    using assms(2) Inr apply_batch_Inr by (auto simp: apply_to_def)
  then have "od_store db' = sn_store sn" using snapshot_log assms(1) by (auto simp: fork_good_def)
  then show ?thesis using assms(1) Inr by (simp add: fork_good_def snapshot_good_def db_good_def db_view_def snapshot_view_def)
qed

text \<open>The books of a node: what the coins, the stakes and other escrow hold is the supply.\<close>

definition node_books :: "staking_node \<Rightarrow> nat \<Rightarrow> bool" where
  "node_books nd escrow \<longleftrightarrow> db_good (nd_object_db nd) \<and>
     supply_ok (db_view (nd_object_db nd)) (stakes (nd_validator_set nd) + escrow)"

lemma commit_books:
  assumes "fork_good B (nd_object_db nd) sn" "supply_ok (snapshot_view sn) (stakes next_set + escrow)" "node_books nd escrow"
    "commit_staking B written rp n nd next_set sn x = (nd', r)"
  shows "node_books nd' escrow \<and> (case r of Inl _ \<Rightarrow> nd' = nd | Inr y \<Rightarrow> y = x \<and> nd_validator_set nd' = next_set)"
proof (cases "\<exists>sn1 u v db'. stage_validator_set_update B sn n (nd_validator_set nd) next_set = (sn1, Inr u) \<and>
    apply_to B written sn1 (nd_object_db nd) = (db', Inr v) \<and>
    nd' = \<lparr>nd_object_db = db', nd_validator_set = next_set\<rparr> \<and> r = Inr x")
  case True
  then obtain sn1 u v db' where st: "stage_validator_set_update B sn n (nd_validator_set nd) next_set = (sn1, Inr u)"
    and ap: "apply_to B written sn1 (nd_object_db nd) = (db', Inr v)"
    and nd': "nd' = \<lparr>nd_object_db = db', nd_validator_set = next_set\<rparr>" "r = Inr x" by blast
  note f = stage_facts[OF st assms(1)]
  have g: "db_good db' \<and> db_view db' = snapshot_view sn1" using apply_to_reach[OF _ ap] f by simp
  show ?thesis using nd' g f assms(2) by (auto simp: node_books_def supply_ok_def)
next
  case False
  then have "nd' = nd \<and> (\<exists>e. r = Inl e)"
    using assms(4) stage_facts[OF _ assms(1)] apply_to_reach[of B "nd_object_db nd" _ written]
    by (fastforce simp: commit_staking_def split: prod.splits sum.splits)
  then show ?thesis using assms(3) by auto
qed

lemma stakes_rehash [simp]: "stakes (rehash B s) = stakes s" "find_validator (rehash B s) pk = find_validator s pk"
  by (simp_all add: rehash_def stakes_def find_validator_def)

text \<open>What an operation promises: when it fails the node is what it was, the books always add up.\<close>

definition keeps_books :: "nat \<Rightarrow> staking_node \<Rightarrow> staking_node \<times> (l1_error, 'r) outcome \<Rightarrow> bool" where
  "keeps_books escrow nd result \<longleftrightarrow>
     node_books (fst result) escrow \<and> (\<forall>e. snd result = Inl e \<longrightarrow> fst result = nd)"

lemma keeps_failure: "node_books nd escrow \<Longrightarrow> keeps_books escrow nd (nd, Inl e)"
  by (simp add: keeps_books_def)

lemma keeps_commit:
  assumes "fork_good B (nd_object_db nd) sn" "supply_ok (snapshot_view sn) (stakes next_set + escrow)" "node_books nd escrow"
  shows "keeps_books escrow nd (commit_staking B written rp n nd next_set sn x)"
  using commit_books[OF assms, of written rp n x]
  by (cases "commit_staking B written rp n nd next_set sn x") (auto simp: keeps_books_def split: sum.splits)

lemma node_fork:
  assumes "node_books nd escrow"
  shows "fork_good B (nd_object_db nd) (create_snapshot (nd_object_db nd))"
    "supply_ok (snapshot_view (create_snapshot (nd_object_db nd))) (stakes (nd_validator_set nd) + escrow)"
  using assms fork_start[of "nd_object_db nd" B] by (simp_all add: node_books_def)

lemma bond_keeps:
  assumes "node_books nd escrow"
  shows "keeps_books escrow nd (bond_validator B written rp n nd entry ids)"
proof -
  let ?sn = "create_snapshot (nd_object_db nd)" and ?owner = "derive_address B (ve_pubkey entry)"
    and ?s = "nd_validator_set nd"
  let ?next = "rehash B (?s\<lparr>vs_validators := vs_validators ?s @ [entry\<lparr>ve_status := Bonding\<rparr>]\<rparr>)"
  have st: "stakes ?next = stakes ?s + ve_stake entry" unfolding stakes_rehash by (simp add: stakes_def)
  have "keeps_books escrow nd (commit_staking B written rp n nd ?next sn c)"
    if sel: "select_owned_native_coins (snapshot_backend B) ?sn ids ?owner (ve_stake entry) = Inr sel"
      and con: "consume_native_coin_selection B (snapshot_backend B) ?sn sel ?owner (ve_stake entry) h 0 = (sn, Inr c)"
    for sel sn h c
  proof -
    from forks.lock_coins[OF node_fork(1)[OF assms] sel con node_fork(2)[OF assms]]
    show ?thesis using st assms by (intro keeps_commit) (simp_all add: ac_simps)
  qed
  then show ?thesis using assms
    by (auto simp: bond_validator_def other_fail_def Let_def intro: keeps_failure split: sum.splits prod.splits)
qed

lemma slash_keeps:
  assumes "node_books nd escrow" "percentages_ok cfg"
  shows "keeps_books escrow nd (slash_validator B written rp n nd pk reason cfg)"
proof -
  have "keeps_books escrow nd (commit_staking B written rp n nd (rehash B s) sn r)"
    if a: "apply_slashing (nd_validator_set nd) pk reason cfg = Inr (s, r)"
      and b: "burn_escrowed_native (snapshot_backend B) (create_snapshot (nd_object_db nd)) (sr_slash_amount r) = (sn, Inr u)"
    for s r sn u
  proof -
    have "stakes (nd_validator_set nd) + escrow = sr_slash_amount r + (stakes s + escrow)"
      using apply_slashing_stakes(1)[OF a assms(2)] by simp
    from forks.burn_escrow[OF node_fork(1)[OF assms(1)] b node_fork(2)[OF assms(1), unfolded this]]
    show ?thesis using assms(1) by (intro keeps_commit) simp_all
  qed
  then show ?thesis using assms(1)
    by (auto simp: slash_validator_def intro: keeps_failure split: sum.splits prod.splits)
qed

lemma unbond_keeps:
  assumes "node_books nd escrow"
  shows "keeps_books escrow nd (complete_unbonding B written rp n nd pk height)"
proof (cases "find_validator (nd_validator_set nd) pk")
  case None
  then show ?thesis using keeps_failure[OF assms] by (simp add: complete_unbonding_def find_validator_mut_def ok_or_def)
next
  case (Some v)
  let ?sn = "create_snapshot (nd_object_db nd)" and ?s = "nd_validator_set nd"
  let ?next = "modify_validator ?s pk (\<lambda>v. v\<lparr>ve_stake := 0, ve_status := Retired\<rparr>)"
  have st: "stakes ?s + escrow = ve_stake v + (stakes ?next + escrow)"
    using modify_stakes[OF Some, of "\<lambda>v. v\<lparr>ve_stake := 0, ve_status := Retired\<rparr>"] by simp
  have "keeps_books escrow nd (commit_staking B written rp n nd (rehash B ?next) sn x)"
    if "create_native_coin_output B (snapshot_backend B) ?sn owner (ve_stake v) h 0 = (sn, Inr i)" for owner h sn i x
    using forks.release_coins[OF node_fork(1)[OF assms] that, of "stakes ?next + escrow"] node_fork(2)[OF assms, unfolded st] assms
    by (intro keeps_commit) simp_all
  moreover have "keeps_books escrow nd (commit_staking B written rp n nd (rehash B ?next) ?sn x)" if "ve_stake v = 0" for x
    using node_fork[OF assms] st that assms by (intro keeps_commit) simp_all
  ultimately show ?thesis using assms Some
    by (auto simp: complete_unbonding_def find_validator_mut_def ok_or_def other_fail_def Let_def sbind_def
        intro: keeps_failure split: sum.splits prod.splits)
qed

section \<open>Properties\<close>

datatype staking_call =
    Bond validator_entry "obj_id list"
  | Slash tagged_pubkey slashing_reason slashing_config
  | Unbond tagged_pubkey nat

fun staking_call_ok :: "staking_call \<Rightarrow> bool" where
  "staking_call_ok (Slash _ _ cfg) \<longleftrightarrow> percentages_ok cfg"
| "staking_call_ok _ \<longleftrightarrow> True"

text \<open>One call with the answer of the durable write, its error forgotten.\<close>

fun run_staking_call ::
  "hash_fn \<Rightarrow> table_decoder \<Rightarrow> nat \<Rightarrow> (l1_error, unit) outcome \<times> staking_call \<Rightarrow> staking_node \<Rightarrow> staking_node" where
  "run_staking_call B rp n (written, Bond entry ids) nd = fst (bond_validator B written rp n nd entry ids)"
| "run_staking_call B rp n (written, Slash pk reason cfg) nd = fst (slash_validator B written rp n nd pk reason cfg)"
| "run_staking_call B rp n (written, Unbond pk height) nd = fst (complete_unbonding B written rp n nd pk height)"

lemma staking_sequence:
  "node_books nd escrow \<Longrightarrow> \<forall>c \<in> set calls. staking_call_ok (snd c) \<Longrightarrow> node_books (fold (run_staking_call B rp n) calls nd) escrow"
proof (induction calls arbitrary: nd)
  case (Cons c calls)
  obtain w k where c: "c = (w, k)" by (cases c)
  have "node_books (run_staking_call B rp n c nd) escrow"
    using Cons.prems c bond_keeps slash_keeps unbond_keeps by (cases k) (auto simp: keeps_books_def)
  then show ?case using Cons by simp
qed simp

text \<open>
  C5: Staking keeps the supply.  After any sequence of bonds, slashes and unbondings, failing ones
  and failing writes included, the coins, the stakes and the other escrow add up to the supply of
  the treasury, as long as slashes take at most the whole stake; and an operation that fails leaves
  the database and the validator set as they were.
\<close>

theorem staking_keeps_supply:
  assumes "node_books nd escrow" "\<forall>c \<in> set calls. staking_call_ok (snd c)" "percentages_ok cfg"
  shows "node_books (fold (run_staking_call B rp n) calls nd) escrow \<and>
    keeps_books escrow nd (bond_validator B written rp n nd entry ids) \<and>
    keeps_books escrow nd (slash_validator B written rp n nd pk reason cfg) \<and>
    keeps_books escrow nd (complete_unbonding B written rp n nd pk height)"
  by (intro conjI staking_sequence bond_keeps slash_keeps unbond_keeps assms)

definition zero_hash :: hash_fn where
  "zero_hash = (\<lambda>_. replicate 32 0)"

definition stake_set :: "validator_status \<Rightarrow> nat \<Rightarrow> validator_set" where
  "stake_set st n =
     \<lparr>vs_epoch = 1, vs_validators = [(validator_entry_new sample_key (replicate 33 0) n 0)\<lparr>ve_status := st\<rparr>],
      vs_hash = replicate 32 0, vs_epoch_randomness = replicate 32 0, vs_prev_epoch_randomness = replicate 32 0,
      vs_genesis_chain_randomness = replicate 32 0\<rparr>"

definition stake_set_object :: "validator_set \<Rightarrow> nat \<Rightarrow> obj" where
  "stake_set_object s v =
     (object_new VALIDATOR_SET_OBJECT_ID Immutable VALIDATOR_SET_OBJECT_TYPE (persisted_enc 7 s) None)\<lparr>ob_version := v\<rparr>"

definition no_tables :: table_decoder where
  "no_tables = (\<lambda>_ _. other_fail ''no tables'')"

definition stake_cap_object :: "treasury_cap \<Rightarrow> nat \<Rightarrow> obj" where
  "stake_cap_object cap v =
     (object_new TREASURY_CAP_OBJECT_ID Shared TREASURY_CAP_OBJECT_TYPE (cap_enc cap) None)\<lparr>ob_version := v\<rparr>"

definition stake_store :: store where
  "stake_store = put_object zero_hash (put_object zero_hash (store_new zero_hash) (stake_cap_object sample_cap 0))
     (stake_set_object (stake_set Active 10) 0)"

definition stake_node :: staking_node where
  "stake_node = \<lparr>nd_object_db = \<lparr>od_rows = Map.empty, od_store = stake_store\<rparr>, nd_validator_set = stake_set Active 10\<rparr>"

definition half_slashing :: slashing_config where
  "half_slashing = default_slashing_config\<lparr>slash_percentage := 50\<rparr>"

lemma sample_ids: "VALIDATOR_SET_OBJECT_ID \<noteq> TREASURY_CAP_OBJECT_ID" "VALIDATOR_SET_OBJECT_TYPE \<noteq> TREASURY_CAP_OBJECT_TYPE"
  by (simp_all add: VALIDATOR_SET_OBJECT_ID_def TREASURY_CAP_OBJECT_ID_def U64_MAX_def u64_limit_def
      VALIDATOR_SET_OBJECT_TYPE_def TREASURY_CAP_OBJECT_TYPE_def)

lemma stake_set_object_facts:
  assumes "n < u64_limit"
  shows "validator_set_object zero_hash 7 (stake_set st n) v = Inr (stake_set_object (stake_set st n) v)"
    "decode_validator_set_object zero_hash (stake_set_object (stake_set st n) v) 7 = Inr (stake_set st n)"
    "rehash zero_hash (stake_set st n) = stake_set st n"
    "length (ob_data (stake_set_object (stake_set st n) v)) \<le> MAX_OBJECT_SIZE"
    "validate_system_object zero_hash (stake_set_object (stake_set st n) v) = Inr ()"
proof -
  show v: "validator_set_object zero_hash 7 (stake_set st n) v = Inr (stake_set_object (stake_set st n) v)"
    by (simp add: validator_set_object_def validate_persisted_def stake_set_def compute_hash_def zero_hash_def
        stake_set_object_def)
  have "set_wf (stake_set st n)"
    using assms by (simp add: set_wf_def stake_set_def entry_wf_def validator_entry_new_def sample_key_def u64_limit_def)
  then show d: "decode_validator_set_object zero_hash (stake_set_object (stake_set st n) v) 7 = Inr (stake_set st n)"
    by (rule stored_set_round_trip[OF _ _ v, rotated]) (simp add: u64_limit_def)
  show "rehash zero_hash (stake_set st n) = stake_set st n" by (simp add: rehash_def compute_hash_def zero_hash_def stake_set_def)
  show "length (ob_data (stake_set_object (stake_set st n) v)) \<le> MAX_OBJECT_SIZE"
    by (simp add: stake_set_object_def object_new_def persisted_enc_def stake_set_def vec_enc_def entry_enc_def pubkey_enc_def
        blob_enc_def validator_entry_new_def sample_key_def bool_enc_def u8_enc_def MAX_OBJECT_SIZE_def)
  from d obtain p where "validate_validator_set_object zero_hash (stake_set_object (stake_set st n) v) = Inr p"
    by (auto simp: decode_validator_set_object_def rbind_eq_Inr)
  then show "validate_system_object zero_hash (stake_set_object (stake_set st n) v) = Inr ()"
    using sample_ids by (simp add: validate_system_object_def is_treasury_cap_object_def is_validator_set_object_def
        stake_set_object_def object_new_def)
qed

lemma replace_runs_put:
  "accepts B (SystemReplace ob) (object_at st (ob_id ob)) \<Longrightarrow> apply_mutation B st (SystemReplace ob) = Inr (put_object B st ob)"
  by (auto simp: system_replace_def store_read_def ok_or_def checked_add_u64_def)

definition slashed_cap :: treasury_cap where
  "slashed_cap = sample_cap\<lparr>total_supply := 5, total_burned := 5\<rparr>"

lemma cap_object_facts:
  assumes "cap \<in> {sample_cap, slashed_cap}" "v < u64_limit"
  shows "treasury_cap_object cap v = Inr (stake_cap_object cap v)" "decode_treasury_cap (stake_cap_object cap v) = Inr cap"
    "length (ob_data (stake_cap_object cap v)) \<le> MAX_OBJECT_SIZE" "cap_wf cap"
proof -
  show t: "treasury_cap_object cap v = Inr (stake_cap_object cap v)"
    using assms(1) by (auto simp: treasury_cap_object_def validate_cap_def stake_cap_object_def slashed_cap_def sample_cap_def
        checked_sub_u64_def ok_or_def)
  show w: "cap_wf cap" using assms(1) by (auto simp: cap_wf_def slashed_cap_def sample_cap_def u64_limit_def)
  show "decode_treasury_cap (stake_cap_object cap v) = Inr cap" by (rule decode_cap_of_object[OF w t])
  show "length (ob_data (stake_cap_object cap v)) \<le> MAX_OBJECT_SIZE"
    using assms(1) by (auto simp: stake_cap_object_def object_new_def cap_enc_def bool_enc_def slashed_cap_def sample_cap_def
        MAX_OBJECT_SIZE_def)
qed

lemma stake_object_simps [simp]:
  "ob_id (stake_cap_object cap v) = TREASURY_CAP_OBJECT_ID" "ob_type (stake_cap_object cap v) = TREASURY_CAP_OBJECT_TYPE"
  "ob_version (stake_cap_object cap v) = v" "ob_id (stake_set_object s v) = VALIDATOR_SET_OBJECT_ID"
  "ob_type (stake_set_object s v) = VALIDATOR_SET_OBJECT_TYPE" "ob_version (stake_set_object s v) = v"
  by (simp_all add: stake_cap_object_def stake_set_object_def object_new_def)

lemma stake_store_objects:
  "st_objects stake_store = [(TREASURY_CAP_OBJECT_ID, stake_cap_object sample_cap 0),
     (VALIDATOR_SET_OBJECT_ID, stake_set_object (stake_set Active 10) 0)]"
  using sample_ids by (simp add: stake_store_def put_object_def store_new_def)

lemma stake_node_books: "node_books stake_node 0"
proof -
  have g: "store_wf stake_store" using sample_ids by (simp add: store_wf_def stake_store_objects)
  note d = cap_object_facts(2)[of sample_cap 0]
  have "coin_value (stake_set_object (stake_set Active 10) 0) = 0"
    using coin_type_distinct by (intro other_type_no_value) simp
  moreover have "coin_value (stake_cap_object sample_cap 0) = 0"
    using coin_type_distinct by (intro other_type_no_value) simp
  ultimately have "live_native (object_at stake_store) = 0" using live_store_sum[OF g] by (simp add: stake_store_objects)
  moreover have "cap_of (object_at stake_store) = Some sample_cap"
    using d by (simp add: cap_of_def stake_store_objects u64_limit_def)
  ultimately show ?thesis
    using g by (simp add: node_books_def stake_node_def db_good_def db_view_def supply_ok_def stakes_def stake_set_def
        validator_entry_new_def sample_cap_def)
qed

lemma sample_slash_runs:
  "\<exists>nd' r. slash_validator zero_hash (Inr ()) no_tables 7 stake_node sample_key VertexEquivocation half_slashing = (nd', Inr r) \<and>
     sr_slash_amount r = 5 \<and> nd_validator_set nd' = stake_set Slashed 5"
proof -
  let ?db = "nd_object_db stake_node"
  have big: "0 < u64_limit" "1 < u64_limit" "5 < u64_limit" "10 < u64_limit" "Suc 0 < u64_limit"
    by (simp_all add: u64_limit_def)
  obtain r where sl: "apply_slashing (stake_set Active 10) sample_key VertexEquivocation half_slashing = Inr (stake_set Slashed 5, r)"
    and r: "sr_slash_amount r = 5"
    by (simp add: apply_slashing_def find_validator_mut_def find_validator_def stake_set_def validator_entry_new_def ok_or_def
        reason_percentage_def half_slashing_def default_slashing_config_def compute_slash_amount_def saturating_mul_u64_def
        U64_MAX_def u64_limit_def modify_validator_def)
  let ?cob = "stake_cap_object slashed_cap 1" and ?vob = "stake_set_object (stake_set Slashed 5) 1"
  define st1 where "st1 = put_object zero_hash stake_store ?cob"
  define st2 where "st2 = put_object zero_hash st1 ?vob"
  note caps = cap_object_facts(1-3)[OF insertI1 big(1)] cap_object_facts(1-3)[OF insertI2[OF singletonI] big(2)]
  note sets = stake_set_object_facts(1,2,4,5)[OF big(3), of Slashed 1] stake_set_object_facts(1,2,4,5)[OF big(4), of Active 0]
    and rh = stake_set_object_facts(3)[OF big(3), of Slashed]
  have o1: "st_objects st1 = [(TREASURY_CAP_OBJECT_ID, ?cob), (VALIDATOR_SET_OBJECT_ID, stake_set_object (stake_set Active 10) 0)]"
    by (simp add: st1_def put_object_def stake_store_objects)
  have o2: "st_objects st2 = [(TREASURY_CAP_OBJECT_ID, ?cob), (VALIDATOR_SET_OBJECT_ID, ?vob)]"
    using sample_ids by (simp add: st2_def put_object_def o1)
  have vc: "validate_system_object zero_hash ?cob = Inr ()"
    using caps by (simp add: validate_system_object_def is_treasury_cap_object_def big)
  have m1: "apply_mutation zero_hash stake_store (SystemReplace ?cob) = Inr st1"
    unfolding st1_def
    by (rule replace_runs_put) (use caps vc big in \<open>simp add: stake_store_objects is_system_object_def is_treasury_cap_object_def\<close>)
  have m2: "apply_mutation zero_hash st1 (SystemReplace ?vob) = Inr st2"
    unfolding st2_def
    by (rule replace_runs_put) (use sets sample_ids big in \<open>simp add: o1 is_system_object_def is_validator_set_object_def\<close>)
  have bc: "burn_from_cap sample_cap 5 m = Inr slashed_cap" for m
    by (simp add: burn_from_cap_def slashed_cap_def sample_cap_def checked_sub_u64_def checked_add_u64_def ok_or_def u64_limit_def)
  have nc: "next_cap_object slashed_cap 0 = Inr ?cob"
    using caps big by (simp add: next_cap_object_def checked_add_u64_def ok_or_def)
  define sn1 where "sn1 = \<lparr>sn_store = st1, sn_mutations = [SystemReplace ?cob]\<rparr>"
  define sn2 where "sn2 = \<lparr>sn_store = st2, sn_mutations = [SystemReplace ?cob, SystemReplace ?vob]\<rparr>"
  have b: "burn_escrowed_native (snapshot_backend zero_hash) (create_snapshot ?db) 5 = (sn1, Inr ())"
    using caps m1 by (simp add: burn_escrowed_native_def snapshot_backend_def snapshot_mutate_def create_snapshot_def stake_node_def
        store_read_def ok_or_def stake_store_objects sbind_def bc nc big sn1_def del: apply_mutation.simps)
  have s: "stage_validator_set_update zero_hash sn1 7 (stake_set Active 10) (stake_set Slashed 5) = (sn2, Inr ())"
    using sets m2 sample_ids by (simp add: stage_validator_set_update_def snapshot_backend_def snapshot_mutate_def
        store_read_def ok_or_def o1 sbind_def checked_add_u64_def big sn1_def sn2_def del: apply_mutation.simps)
  have "\<exists>x. rbind (validator_staking_escrow (stake_set Slashed 5))
      (reconcile_native_supply_snapshot_if_initialized zero_hash no_tables sn2) = Inr x"
    using sample_ids coin_type_distinct caps(5) big
    by (simp add: validator_staking_escrow_def stake_set_def validator_entry_new_def checked_add_u64_def ok_or_def
        reconcile_native_supply_snapshot_if_initialized_def audit_native_supply_objects_def store_objects_def sn2_def o2
        audit_step_def is_native_coin_object_def TEXAS_POKER_TABLE_OBJECT_TYPE_def VALIDATOR_SET_OBJECT_TYPE_def
        NATIVE_COIN_OBJECT_TYPE_def TREASURY_CAP_OBJECT_TYPE_def balanced_if_some_def require_balanced_def is_balanced_def
        slashed_cap_def)
  then obtain x where a: "rbind (validator_staking_escrow (stake_set Slashed 5))
      (reconcile_native_supply_snapshot_if_initialized zero_hash no_tables sn2) = Inr x" by blast
  have "run_mutations zero_hash (od_store ?db) (sn_mutations sn2) = Inr st2"
    using m1 m2 by (simp add: run_mutations_def stake_node_def sn2_def del: apply_mutation.simps)
  from apply_batch_runs[OF this] obtain db' where ap: "apply_to zero_hash (Inr ()) sn2 ?db = (db', Inr ())"
    by (auto simp: apply_to_def)
  have "commit_staking zero_hash (Inr ()) no_tables 7 stake_node (stake_set Slashed 5) sn1 r =
      (\<lparr>nd_object_db = db', nd_validator_set = stake_set Slashed 5\<rparr>, Inr r)"
    unfolding commit_staking_def using s a ap by (simp add: stake_node_def)
  moreover have "nd_validator_set stake_node = stake_set Active 10" by (simp add: stake_node_def)
  ultimately show ?thesis using sl r b rh by (simp add: slash_validator_def)
qed

theorem staking_keeps_supply_witness:
  "\<exists>nd' r. slash_validator zero_hash (Inr ()) no_tables 7 stake_node sample_key VertexEquivocation half_slashing = (nd', Inr r) \<and>
     sr_slash_amount r = 5 \<and> stakes (nd_validator_set nd') = 5 \<and> node_books nd' 0"
proof -
  from sample_slash_runs obtain nd' r where
    s: "slash_validator zero_hash (Inr ()) no_tables 7 stake_node sample_key VertexEquivocation half_slashing = (nd', Inr r)"
    "sr_slash_amount r = 5" "nd_validator_set nd' = stake_set Slashed 5" by blast
  have p: "percentages_ok half_slashing"
    by (simp add: percentages_ok_def half_slashing_def default_slashing_config_def DEFAULT_DOWNTIME_SLASH_PERCENTAGE_def)
  have c: "\<forall>c \<in> set [(Inr () :: (l1_error, unit) outcome, Slash sample_key VertexEquivocation half_slashing)]. staking_call_ok (snd c)"
    using p by simp
  from staking_keeps_supply[OF stake_node_books c p, where B = zero_hash and rp = no_tables and n = 7] s
  show ?thesis by (auto simp: stakes_def stake_set_def validator_entry_new_def)
qed

text \<open>
  C8: The audit reports the supply equation.  When it goes through, every table object of the store
  is shared, decodes with its openings under its own id and has at least its pending addons in its
  chip pool; the reported amounts are the value of all the coins of the store, the escrow given, the
  sum of the chip pools of all its tables and the counters of the treasury cap; and the report is
  balanced exactly when coins, stake and chip pools add up to the supply of the cap.  Without a cap
  there is no coin, no stake and no chip in a table.
\<close>

theorem audit_reports_supply:
  assumes "audit_native_supply_objects B rp (store_objects st) escrow = Inr r" "store_wf st"
  shows "(case r of
      None \<Rightarrow> object_at st TREASURY_CAP_OBJECT_ID = None \<and> live_native (object_at st) = 0 \<and> escrow = 0 \<and>
        table_native B rp (object_at st) = 0
    | Some report \<Rightarrow> \<exists>cap. cap_of (object_at st) = Some cap \<and> ns_treasury_total_supply report = total_supply cap \<and>
        ns_treasury_total_minted report = total_minted cap \<and> ns_treasury_total_burned report = total_burned cap \<and>
        ns_live_utxo report = live_native (object_at st) \<and> ns_staking_escrow report = escrow \<and>
        ns_texas_table_escrow report = table_native B rp (object_at st) \<and>
        ns_observed_total report = live_native (object_at st) + escrow + table_native B rp (object_at st) \<and>
        (is_balanced report \<longleftrightarrow> supply_ok (object_at st) (escrow + table_native B rp (object_at st)))) \<and>
    (\<forall>i ob. object_at st i = Some ob \<and> is_table_object ob \<longrightarrow> table_sound B rp (object_at st) ob)"
  by (rule audit_facts[OF assms])

text \<open>
  A store with a table for the example: a hash that keeps the three opening ids apart by the lengths
  of their domains, and a decoder that reads the chip pool from one byte.
\<close>

definition length_hash :: hash_fn where
  "length_hash x = replicate 32 (of_nat (length x))"

definition byte_tables :: table_decoder where
  "byte_tables = (\<lambda>dat _. Inr (ObjectID [9] 0, [5], unat (dat ! 29)))"

definition table_cap :: treasury_cap where
  "table_cap = sample_cap\<lparr>total_supply := 35, total_minted := 35\<rparr>"

definition table_objects :: "obj list" where
  "table_objects =
     [object_new TREASURY_CAP_OBJECT_ID Shared TREASURY_CAP_OBJECT_TYPE (cap_enc table_cap) None, sample_coin,
      object_new (ObjectID [9] 0) Shared TEXAS_POKER_TABLE_OBJECT_TYPE (replicate 28 0 @ [30, 25]) None,
      object_new (table_metadata_object_id length_hash (ObjectID [9] 0)) Immutable TEXAS_POKER_METADATA_OBJECT_TYPE [1] None,
      object_new (table_rules_object_id length_hash (ObjectID [9] 0)) Immutable TEXAS_POKER_RULES_OBJECT_TYPE [2] None,
      object_new (table_governance_object_id length_hash (ObjectID [9] 0)) Immutable TEXAS_POKER_GOVERNANCE_OBJECT_TYPE [3] None]"

definition table_store :: store where
  "table_store = (store_new length_hash)\<lparr>st_objects := map (\<lambda>ob. (ob_id ob, ob)) table_objects\<rparr>"

lemma opening_ids:
  "table_metadata_object_id length_hash (ObjectID [9] 0) = ObjectID (replicate 20 78) 0"
  "table_rules_object_id length_hash (ObjectID [9] 0) = ObjectID (replicate 20 75) 0"
  "table_governance_object_id length_hash (ObjectID [9] 0) = ObjectID (replicate 20 80) 0"
  by (simp_all add: table_metadata_object_id_def table_rules_object_id_def table_governance_object_id_def
      derive_context_object_id_def length_hash_def id_to_bytes_def)

lemma object_types:
  "TEXAS_POKER_METADATA_OBJECT_TYPE \<noteq> TREASURY_CAP_OBJECT_TYPE" "TEXAS_POKER_METADATA_OBJECT_TYPE \<noteq> NATIVE_COIN_OBJECT_TYPE"
  "TEXAS_POKER_METADATA_OBJECT_TYPE \<noteq> TEXAS_POKER_TABLE_OBJECT_TYPE"
  "TEXAS_POKER_RULES_OBJECT_TYPE \<noteq> TREASURY_CAP_OBJECT_TYPE" "TEXAS_POKER_RULES_OBJECT_TYPE \<noteq> NATIVE_COIN_OBJECT_TYPE"
  "TEXAS_POKER_RULES_OBJECT_TYPE \<noteq> TEXAS_POKER_TABLE_OBJECT_TYPE"
  "TEXAS_POKER_GOVERNANCE_OBJECT_TYPE \<noteq> TREASURY_CAP_OBJECT_TYPE" "TEXAS_POKER_GOVERNANCE_OBJECT_TYPE \<noteq> NATIVE_COIN_OBJECT_TYPE"
  "TEXAS_POKER_GOVERNANCE_OBJECT_TYPE \<noteq> TEXAS_POKER_TABLE_OBJECT_TYPE"
  by (simp_all add: TEXAS_POKER_METADATA_OBJECT_TYPE_def TREASURY_CAP_OBJECT_TYPE_def NATIVE_COIN_OBJECT_TYPE_def
      TEXAS_POKER_TABLE_OBJECT_TYPE_def TEXAS_POKER_RULES_OBJECT_TYPE_def TEXAS_POKER_GOVERNANCE_OBJECT_TYPE_def)

lemma short_address: "[x] \<noteq> replicate 20 a" "replicate 20 a \<noteq> [x]" "0 \<noteq> U64_MAX"
  by (auto simp: U64_MAX_def u64_limit_def dest: arg_cong[where f = length])

lemma table_store_facts:
  "store_wf table_store"
  "audit_native_supply_objects length_hash byte_tables (store_objects table_store) 0 =
     Inr (Some \<lparr>ns_treasury_total_supply = 35, ns_treasury_total_minted = 35, ns_treasury_total_burned = 0, ns_live_utxo = 10,
       ns_staking_escrow = 0, ns_texas_table_escrow = 25, ns_observed_total = 35, ns_delta = 0\<rparr>)"
proof -
  show "store_wf table_store"
    by (simp add: store_wf_def table_store_def table_objects_def object_new_def opening_ids sample_coin_facts
        TREASURY_CAP_OBJECT_ID_def TREASURY_SYSTEM_ADDRESS_def short_address)
  have cap: "decode_treasury_cap (object_new TREASURY_CAP_OBJECT_ID Shared TREASURY_CAP_OBJECT_TYPE (cap_enc table_cap) None) = Inr table_cap"
    by (rule decode_cap_of_object[where version = 0])
      (simp_all add: cap_wf_def table_cap_def sample_cap_def u64_limit_def treasury_cap_object_Inr object_new_def)
  have objs: "store_objects table_store = table_objects" by (simp add: store_objects_def table_store_def o_def)
  have openings: "find_opening table_objects (table_metadata_object_id length_hash (ObjectID [9] 0)) TEXAS_POKER_METADATA_OBJECT_TYPE =
      Inr (table_objects ! 3)"
    "find_opening table_objects (table_rules_object_id length_hash (ObjectID [9] 0)) TEXAS_POKER_RULES_OBJECT_TYPE = Inr (table_objects ! 4)"
    "find_opening table_objects (table_governance_object_id length_hash (ObjectID [9] 0)) TEXAS_POKER_GOVERNANCE_OBJECT_TYPE =
      Inr (table_objects ! 5)"
    by (simp_all add: find_opening_def table_objects_def object_new_def opening_ids sample_coin_facts ok_or_def
        TREASURY_CAP_OBJECT_ID_def TREASURY_SYSTEM_ADDRESS_def short_address)
  have "audit_table length_hash byte_tables table_objects (table_objects ! 2) 0 = Inr 25"
    using openings unfolding audit_table_def
    by (simp add: table_objects_def object_new_def is_hot_table_state_def TEXAS_POKER_HOT_STATE_SCHEMA_VERSION_def nth_append
        byte_tables_def checked_add_u64_def ok_or_def u64_limit_def)
  then have table: "audit_step length_hash byte_tables table_objects (c, l, 0) (table_objects ! 2) = Inr (c, l, 25)" for c l
    using table_type_distinct
    by (simp add: audit_step_def table_objects_def object_new_def is_native_coin_object_def TREASURY_CAP_OBJECT_ID_def
        TREASURY_SYSTEM_ADDRESS_def short_address)
  have coin: "audit_step length_hash byte_tables table_objects (c, 0, t) (table_objects ! 1) = Inr (c, 10, t)" for c t
    using coin_type_distinct
    by (simp add: audit_step_def table_objects_def sample_coin_facts is_native_coin_object_def audit_coin_def 
        TREASURY_CAP_OBJECT_ID_def TREASURY_SYSTEM_ADDRESS_def short_address checked_add_u64_def ok_or_def u64_limit_def)
  have first: "audit_step length_hash byte_tables table_objects (None, l, t) (table_objects ! 0) = Inr (Some table_cap, l, t)" for l t
    using cap by (simp add: audit_step_def table_objects_def) (simp add: object_new_def)
  have others: "audit_step length_hash byte_tables table_objects (c, l, t) (table_objects ! n) = Inr (c, l, t)"
    if "n \<in> {3, 4, 5}" for c l t n
    using that
    by (auto simp: audit_step_def table_objects_def object_new_def opening_ids is_native_coin_object_def TREASURY_CAP_OBJECT_ID_def
        TREASURY_SYSTEM_ADDRESS_def short_address object_types)
  have "foldM (audit_step length_hash byte_tables table_objects) (None, 0, 0) (map ((!) table_objects) [0, 1, 2, 3, 4, 5]) =
      Inr (Some table_cap, 10, 25)"
    using others by (simp add: first coin[simplified] table)
  moreover have "map ((!) table_objects) [0, 1, 2, 3, 4, 5] = table_objects" by (simp add: table_objects_def)
  ultimately have "foldM (audit_step length_hash byte_tables table_objects) (None, 0, 0) table_objects = Inr (Some table_cap, 10, 25)"
    by (simp only:)
  then show "audit_native_supply_objects length_hash byte_tables (store_objects table_store) 0 =
     Inr (Some \<lparr>ns_treasury_total_supply = 35, ns_treasury_total_minted = 35, ns_treasury_total_burned = 0, ns_live_utxo = 10,
       ns_staking_escrow = 0, ns_texas_table_escrow = 25, ns_observed_total = 35, ns_delta = 0\<rparr>)"
    unfolding objs
    by (simp add: audit_native_supply_objects_def checked_add_u64_def ok_or_def u64_limit_def table_cap_def sample_cap_def)
qed

theorem audit_reports_supply_witness:
  "\<exists>report. audit_native_supply_objects length_hash byte_tables (store_objects table_store) 0 = Inr (Some report) \<and>
     is_balanced report \<and> live_native (object_at table_store) = 10 \<and>
     table_native length_hash byte_tables (object_at table_store) = 25 \<and> supply_ok (object_at table_store) 25"
  using audit_reports_supply[OF table_store_facts(2,1)] table_store_facts(2) by (auto simp: is_balanced_def)

end
