(* ===== verification/Spec2Isabelle.thy ===== *)
theory Spec2Isabelle
  imports TableProperties Executor StakingLaws
begin

text \<open>
  A model of the core of zchain, a rollup for card games: the settlement of a hand of Texas hold'em
  (\<^verbatim>\<open>poker-settlement-core\<close>), the on-chain table at which the hand is played
  (\<^verbatim>\<open>poker_l1/src/vm/contracts/texas_poker\<close>), the objects and coins of the chain
  (\<^verbatim>\<open>poker_l1/src/object_model\<close>, \<^verbatim>\<open>storage\<close>, \<^verbatim>\<open>economics\<close>), and the zkVM that runs the programs whose execution is
  proved (\<^verbatim>\<open>poker_zkvm\<close>).  Every definition follows a function, type or constant of the source under its
  name; a suffix is added where HOL has the name already.

  \<^bold>\<open>Outcomes.\<close>  A fallible function returns \<open>Inr v\<close> for \<open>Ok\<close>, \<open>Inl (Fail e)\<close> for \<open>Err\<close> and
  \<open>Inl Panic\<close> for a panic; unchecked arithmetic that leaves its width panics, as in a build with
  overflow checks.  The theory \<open>Prelude\<close> holds this monad, its loops (\<open>foldM\<close>), the predicate \<open>safe\<close>
  ("an error or a good value, never a panic"), byte encodings and masks.

  \<^bold>\<open>The settlement\<close> takes an authenticated snapshot of a table and the boards and derives the plan
  that every consumer of a hand recomputes.
    \<^item> \<open>SidePot\<close> (\<^verbatim>\<open>side_pot.rs\<close>): \<open>calculate_side_pots\<close> cuts the contributions into layers at the
      all-in stakes.  Shown: it refines a closed reference layering, never overflows, and who may win what.
    \<^item> \<open>HandRank\<close> (\<^verbatim>\<open>hand_rank.rs\<close>): \<open>evaluate_five\<close> and \<open>evaluate_best\<close>.  Shown: the category the
      rules define, and that the best of seven is the maximum over all hands of five.
    \<^item> \<open>Plan\<close>, \<open>Payout\<close> (\<^verbatim>\<open>plan.rs\<close>, \<^verbatim>\<open>error.rs\<close>, \<^verbatim>\<open>payout.rs\<close>): the plan, its validation and the
      Merkle roots.  Shown: a valid plan conserves chips, equal roots mean equal payouts up to
      collisions of the hash (Blake2b and Borsh are parameters).
    \<^item> \<open>Boards\<close>, \<open>Awards\<close>, \<open>Derive\<close> (\<^verbatim>\<open>derive.rs\<close>): the checks on the cards, rake, winners and split,
      and \<open>derive_settlement_plan\<close>; \<open>Settlement\<close> states its properties: when it succeeds, conservation,
      the rake, winners, fair split, the limits of folded and all-in seats, departed players included.

  \<^bold>\<open>The on-chain table\<close> is one object that every command of a player, of the creator or of the clock
  replaces.  Its seats, its phase (waiting, shuffling, revealing, betting, reconstructing) and its money
  are the record \<open>table\<close>; the points of the mental-poker protocol are the type variable \<open>'p\<close> and what is
  computed with them is the record \<open>poker_lib\<close>.
    \<^item> \<open>TableSeat\<close> (\<^verbatim>\<open>types.rs\<close>, \<^verbatim>\<open>card.rs\<close>, \<^verbatim>\<open>betting.rs\<close>): seat masks, cards on the table, one seat with its
      canonical form, and the rules of one betting round.
    \<^item> \<open>TableState\<close> (\<^verbatim>\<open>types.rs\<close>, \<^verbatim>\<open>events.rs\<close>, \<^verbatim>\<open>constants.rs\<close>): the phases, deck, reveal and reconstruction
      states, the table with its schema validation, deadlines, and \<open>reconcile_table_vault\<close>.
    \<^item> \<open>TableRound\<close> (\<^verbatim>\<open>state_machine.rs\<close>): turn order, blinds, antes, the players' actions, funds, the end
      of a hand without showdown and the reset of the table.
    \<^item> \<open>TableHand\<close> (\<^verbatim>\<open>state_machine.rs\<close>, \<^verbatim>\<open>settlement.rs\<close>): shuffle, reveal and reconstruction, kicks and
      timeouts, the showdown over \<open>derive_settlement_plan\<close>, and the drivers \<open>normalize_until_blocked\<close> (at
      most \<open>MAX_NORMALIZATION_STEPS\<close> steps, the fuel of its loop in the code) and \<open>advance_deadline\<close>.
    \<^item> \<open>TableCommands\<close> (\<^verbatim>\<open>dispatch.rs\<close>): the commands, the authentication of the caller and the dispatch.
    \<^item> \<open>TableVault\<close>: the money.  \<open>books_ok\<close> is the equation that the vault is reconciled with, \<open>custody\<close>
      the contract of a step that moves money.  Shown for betting, blinds, antes, folds, the award of an
      uncontested pot and the settlement of a showdown.  \<open>TableShowdown\<close>: the reset and the settlement
      return on right books, so that a showdown of a valid table is settled exactly when \<open>showdown_ready\<close>.
    \<^item> \<open>TableCustody\<close> (\<^verbatim>\<open>prove_task.rs\<close>, \<^verbatim>\<open>texas_poker_precompile.rs\<close>): the receipts of a settlement and
      the vault check around a call, \<open>vault_call\<close>.
    \<^item> \<open>TableSafety\<close>: what holds of the commands.  The vault check makes calls steps of an account (locale
      \<open>account\<close>, interpreted on \<open>vault_call\<close>), so that chips are conserved over every sequence of calls;
      the authority of the callers; the rules of a bet; the order of turns; the drivers end in a valid
      table that has nothing left to do.  It also shows where the code fails: reconstruction never starts,
      a booked leave blocks leaving, a pot abandoned outside betting is lost.  \<open>TableProperties\<close> states
      these, with sample tables.

  \<^bold>\<open>The state of the chain\<close> is a store of objects under a sparse Merkle tree, written by batches, by
  snapshots that try a block and by the write logs of transactions; native coins are objects of it.
  Blake2b is the argument \<open>B\<close> of what hashes.
    \<^item> \<open>ObjectId\<close>, \<open>Borsh\<close>, \<open>Objects\<close> (\<^verbatim>\<open>id.rs\<close>, \<^verbatim>\<open>object.rs\<close>, \<^verbatim>\<open>ownership.rs\<close>): ids, byte encodings with
      their readers, objects and who may write them.
    \<^item> \<open>Smt\<close> (\<^verbatim>\<open>smt.rs\<close>): insertion, removal, proofs.  Shown: the root is that of the complete tree over
      the live leaves, proofs are complete and sound up to collisions, except that the root forgets
      the last-bit sibling of a written key.
    \<^item> \<open>ValidatorSet\<close>, \<open>Treasury\<close> (\<^verbatim>\<open>validator_set.rs\<close>, \<^verbatim>\<open>economics/mod.rs\<close>): the two system objects and the
      coins, with their stored form and its round trip, and the life of a validator.
    \<^item> \<open>ObjectStore\<close>, \<open>Snapshots\<close> (\<^verbatim>\<open>store.rs\<close>, \<^verbatim>\<open>object_db.rs\<close>, \<^verbatim>\<open>object_backend.rs\<close>, \<^verbatim>\<open>object_db_snapshot.rs\<close>,
      \<^verbatim>\<open>write_capture.rs\<close>): the store, batches, both forks.  \<open>SnapshotProps\<close>: rows follow the store, a
      snapshot and a write log commit what was seen while they were written.
    \<^item> \<open>CoinSelection\<close>, \<open>Coins\<close> (\<^verbatim>\<open>economics/mod.rs\<close>): the choice of coins, which takes the fewest, and the
      spending operations over any backend.  \<open>Backends\<close> states what they rely on as the locales
      \<open>object_writes\<close> and \<open>object_backend\<close>, interpreted on the database, snapshots and captures;
      \<open>CoinSpending\<close>: \<open>transfer_effect\<close> says of every object what a transfer does to it; transfers conserve
      the live value and write nothing when they fail.
    \<^item> \<open>Slashing\<close> (\<^verbatim>\<open>consensus/slashing.rs\<close>, \<^verbatim>\<open>consensus/mod.rs\<close>): amounts, downtime, investigations, the
      hashes of vertices and commit certificates and the evidence against validators.  Shown: slashes
      chain without debt; an honest signer can be convicted, two vertices can share a hash.
    \<^item> \<open>Supply\<close>, \<open>SupplyLaws\<close> (\<^verbatim>\<open>economics/mod.rs\<close>): genesis and burns.  \<open>supply_ok\<close> is the equation of live
      coins, escrow and supply; genesis establishes it and, up to collisions of the hash, refuses other
      allocations in every \<open>later\<close> database; burns destroy the listed coins and keep it.
    \<^item> \<open>Staking\<close>, \<open>StakingLaws\<close> (\<^verbatim>\<open>economics/mod.rs\<close>, \<^verbatim>\<open>node/mod.rs\<close>): the audit of the supply, which reports
      exactly this equation with the chip pools of the tables (\<open>table_native\<close>), and bonding, slashing and unbonding, which keep it: the locale
      \<open>system_backend\<close> extends \<open>object_backend\<close> and is interpreted on the database and on the snapshots
      reached from one database, whose replay carries the result over.

  \<^bold>\<open>The zkVM\<close> validates and loads an ELF image, runs it instruction by instruction, serves its system
  calls and records a trace.
    \<^item> \<open>Rv32\<close>, \<open>Rv32Codec\<close>, \<open>Rv32Exec\<close> (\<^verbatim>\<open>isa/mod.rs\<close>): RV32IM with encoder, decoder and the step
      function.  Shown: codec round trips, division and multiplication, the machine invariant \<open>vm_ok\<close>,
      faithfulness of the access log.
    \<^item> \<open>Rv32Mem\<close> (\<^verbatim>\<open>isa/state.rs\<close>): paged memory with one initialisation bit per byte, under the
      locale \<open>byte_memory\<close>; loading of an image.
    \<^item> \<open>Trace\<close> (\<^verbatim>\<open>trace/mod.rs\<close>): the trace and its binary format with round trip and total reader.
    \<^item> \<open>ElfValidator\<close> (\<^verbatim>\<open>compiler/elf_validator.rs\<close>): the checks on an untrusted image; the parser of
      the container format is a parameter.
    \<^item> \<open>Syscalls\<close>, \<open>SyscallGas\<close>, \<open>HostLib\<close>, \<open>HostCalls\<close> (\<^verbatim>\<open>syscalls/*.rs\<close>): numbering, registry, gas,
      and the host side of every call, over a record of the cryptographic libraries.  \<open>HostSafety\<close> and
      \<open>HostEffects\<close>: no call panics, each keeps the invariant, the registry of production
      serves its 28 numbers and rejects every other.
    \<^item> \<open>Executor\<close> (\<^verbatim>\<open>isa/executor.rs\<close>): boot, the loop and its limits.  The loop relies on the calls
      through the locale \<open>host_interface\<close>, interpreted on the dispatcher of the production registry; it
      refines the step relation \<open>machine_step\<close>, always returns, and ends with the guest's commit.

  \<^bold>\<open>Bounds.\<close>  Every loop is structural or has a measure (the execution loop the
  distance of the trace from the step limit, \<open>zero_pages\<close> the distance from the end of the address
  space).  Machine words are \<open>w word\<close> where their bits matter and naturals kept below their limit
  elsewhere.

  \<^bold>\<open>Not modelled.\<close>  The STARK prover and its circuits (over the third-party stwo), the node, network
  and RPC of the L1, its consensus beyond the validator set
  and slashing, block execution, its other contracts, the
  sequencer and the notes of the application chain, wallets, bindings and command line programs.
  Cryptographic primitives, RocksDB and the ELF parser are parameters; whether a durable write succeeds
  and whether a signature is good are arguments.  Of the table: the selectors
  (hashes of method names), the encoding of the stored table (\<^verbatim>\<open>state_codec.rs\<close>), the proof task
  handed to the prover and the tests' switch that skips the proofs of the players.

  \<^bold>\<open>Plan.\<close>  Next are the penalty ledger of the node and the execution of blocks over write captures.
\<close>

end
